(* ===== verification/Go_Prelude.thy ===== *)
theory Go_Prelude
  imports Main "HOL-Library.Code_Target_Numeral"
begin

text \<open>
  The vocabulary every component shares.

  \<^item> Go values: a Go \<open>string\<close> is a list of bytes (\<open>char\<close>), so \<open>length\<close> is Go's \<open>len\<close>;
    \<open>strings.TrimSpace\<close>, \<open>strings.HasPrefix\<close>, \<open>strconv.Itoa\<close> are executable functions;
    an \<open>int64\<close> is an \<open>int\<close> whose wrap-around is written out by \<open>i64\<close>.
  \<^item> SQL tables: a table is a list of rows; \<open>update_where\<close>, \<open>delete_where\<close>, \<open>row_by\<close> are the
    statements UPDATE, DELETE and SELECT over one table. The locale \<open>keyed_update\<close> is the
    contract of an UPDATE that keeps the primary key, proved once.
  \<^item> Machines: the locale \<open>op_machine\<close> is the contract of a component whose every operation
    keeps an invariant; what it gives is the invariant of every run.
\<close>

named_theorems row_simps \<open>lookups in tables after statements\<close>
named_theorems inv_intros \<open>introduction rules for component invariants\<close>

type_synonym id = string
type_synonym time = int

section \<open>Go strings\<close>

text \<open>
  The UTF-8 encodings of the runes \<open>unicode.IsSpace\<close> accepts: the six ASCII blanks, U+0085,
  U+00A0, U+1680, U+2000 to U+200A, U+2028, U+2029, U+202F, U+205F and U+3000.
\<close>

definition space_runes :: "string list" where
  "space_runes =
     [[CHR 0x20], [CHR 0x09], [CHR 0x0A], [CHR 0x0B], [CHR 0x0C], [CHR 0x0D],
      [CHR 0xC2, CHR 0x85], [CHR 0xC2, CHR 0xA0], [CHR 0xE1, CHR 0x9A, CHR 0x80],
      [CHR 0xE2, CHR 0x80, CHR 0x80], [CHR 0xE2, CHR 0x80, CHR 0x81], [CHR 0xE2, CHR 0x80, CHR 0x82],
      [CHR 0xE2, CHR 0x80, CHR 0x83], [CHR 0xE2, CHR 0x80, CHR 0x84], [CHR 0xE2, CHR 0x80, CHR 0x85],
      [CHR 0xE2, CHR 0x80, CHR 0x86], [CHR 0xE2, CHR 0x80, CHR 0x87], [CHR 0xE2, CHR 0x80, CHR 0x88],
      [CHR 0xE2, CHR 0x80, CHR 0x89], [CHR 0xE2, CHR 0x80, CHR 0x8A], [CHR 0xE2, CHR 0x80, CHR 0xA8],
      [CHR 0xE2, CHR 0x80, CHR 0xA9], [CHR 0xE2, CHR 0x80, CHR 0xAF], [CHR 0xE2, CHR 0x81, CHR 0x9F],
      [CHR 0xE3, CHR 0x80, CHR 0x80]]"

function trim_by :: "string list \<Rightarrow> string \<Rightarrow> string" where
  "trim_by ps s =
     (case find (\<lambda>p. p \<noteq> [] \<and> take (length p) s = p) ps of
        None \<Rightarrow> s
      | Some p \<Rightarrow> trim_by ps (drop (length p) s))"
  by pat_completeness auto
termination
proof (relation "measure (length \<circ> snd)", simp)
  fix ps s and p :: string
  assume "find (\<lambda>p. p \<noteq> [] \<and> take (length p) s = p) ps = Some p"
  then have "p \<noteq> []" and "take (length p) s = p"
    by (auto simp: find_Some_iff)
  then have "s \<noteq> []" and "p \<noteq> []" by auto
  then show "((ps, drop (length p) s), ps, s) \<in> measure (length \<circ> snd)"
    by simp
qed

declare trim_by.simps [simp del]

definition trim_space :: "string \<Rightarrow> string" where
  "trim_space s = rev (trim_by (map rev space_runes) (rev (trim_by space_runes s)))"

definition blank :: "string \<Rightarrow> bool" where
  "blank s \<longleftrightarrow> trim_space s = []"

definition has_prefix :: "string \<Rightarrow> string \<Rightarrow> bool" where
  "has_prefix p s \<longleftrightarrow> take (length p) s = p"

text \<open>\<open>strings.CutPrefix\<close>/\<open>strings.TrimPrefix\<close>: the rest of the string after a prefix it has.\<close>

definition cut_prefix :: "string \<Rightarrow> string \<Rightarrow> string option" where
  "cut_prefix p s = (if has_prefix p s then Some (drop (length p) s) else None)"

definition trim_prefix :: "string \<Rightarrow> string \<Rightarrow> string" where
  "trim_prefix p s = (if has_prefix p s then drop (length p) s else s)"

lemma has_prefix_append [simp]: "has_prefix p (p @ s)"
  by (simp add: has_prefix_def)

lemma cut_prefix_append [simp]: "cut_prefix p (p @ s) = Some s"
  by (simp add: cut_prefix_def)

text \<open>
  ASCII character classes of the regular expressions in the code, and lower-casing of ASCII
  text as SQL's \<open>lower\<close> does on identifiers.
\<close>

definition between :: "nat \<Rightarrow> nat \<Rightarrow> char \<Rightarrow> bool" where
  "between lo hi c \<longleftrightarrow> lo \<le> of_char c \<and> of_char c \<le> hi"

definition is_digit :: "char \<Rightarrow> bool" where
  "is_digit c \<longleftrightarrow> between 48 57 c"

definition is_alpha :: "char \<Rightarrow> bool" where
  "is_alpha c \<longleftrightarrow> between 65 90 c \<or> between 97 122 c"

definition is_lower_hex :: "char \<Rightarrow> bool" where
  "is_lower_hex c \<longleftrightarrow> is_digit c \<or> between 97 102 c"

definition is_hex :: "char \<Rightarrow> bool" where
  "is_hex c \<longleftrightarrow> is_digit c \<or> between 97 102 c \<or> between 65 70 c"

definition to_lower :: "string \<Rightarrow> string" where
  "to_lower = map (\<lambda>c. if between 65 90 c then char_of (of_char c + 32 :: nat) else c)"

fun nat_text :: "nat \<Rightarrow> string" where
  "nat_text n =
     (if n < 10 then [char_of (48 + n)] else nat_text (n div 10) @ [char_of (48 + n mod 10)])"

declare nat_text.simps [simp del]

text \<open>Runes of a UTF-8 text: a byte that is no continuation byte starts one.\<close>

definition is_cont :: "char \<Rightarrow> bool" where
  "is_cont c \<longleftrightarrow> between 128 191 c"

definition rune_count :: "string \<Rightarrow> nat" where
  "rune_count s = length (filter (\<lambda>c. \<not> is_cont c) s)"

lemma rune_count_le: "rune_count s \<le> length s"
  by (simp add: rune_count_def)

fun take_runes :: "nat \<Rightarrow> string \<Rightarrow> string" where
  "take_runes n [] = []"
| "take_runes n (c # s) =
     (if is_cont c then c # take_runes n s
      else (case n of 0 \<Rightarrow> [] | Suc m \<Rightarrow> c # take_runes m s))"

definition first_nonempty :: "string list \<Rightarrow> string" where
  "first_nonempty vs = (case find (\<lambda>v. v \<noteq> []) vs of None \<Rightarrow> [] | Some v \<Rightarrow> v)"

text \<open>
  \<open>COALESCE(x, '')\<close> of a nullable column, and the Go helpers \<open>nullableStr\<close>/\<open>nullableUUID\<close>,
  which send an empty string as NULL.
\<close>

definition coalesce :: "string option \<Rightarrow> string" where
  "coalesce x = (case x of None \<Rightarrow> [] | Some v \<Rightarrow> v)"

definition nullable :: "string \<Rightarrow> string option" where
  "nullable s = (if s = [] then None else Some s)"

lemma coalesce_nullable [simp]: "coalesce (nullable s) = s"
  by (simp add: coalesce_def nullable_def)

lemma coalesce_simps [simp]: "coalesce None = []" "coalesce (Some v) = v"
  by (simp_all add: coalesce_def)

lemma coalesce_eq_nonempty: "v \<noteq> [] \<Longrightarrow> coalesce x = v \<longleftrightarrow> x = Some v"
  by (cases x) auto

section \<open>64-bit integers\<close>

definition max_int64 :: int where
  "max_int64 = 2 ^ 63 - 1"

definition i64 :: "int \<Rightarrow> int" where
  "i64 x = (x + 2 ^ 63) mod 2 ^ 64 - 2 ^ 63"

lemma i64_id: "- (2 ^ 63) \<le> x \<Longrightarrow> x \<le> max_int64 \<Longrightarrow> i64 x = x"
  by (simp add: i64_def max_int64_def)

lemma i64_range: "- (2 ^ 63) \<le> i64 x \<and> i64 x \<le> max_int64"
  using pos_mod_sign [of "2 ^ 64 :: int" "x + 2 ^ 63"] pos_mod_bound [of "2 ^ 64 :: int" "x + 2 ^ 63"]
  by (simp add: i64_def max_int64_def)

section \<open>SQL tables\<close>

definition update_where :: "('r \<Rightarrow> bool) \<Rightarrow> ('r \<Rightarrow> 'r) \<Rightarrow> 'r list \<Rightarrow> 'r list" where
  "update_where P f t = map (\<lambda>r. if P r then f r else r) t"

definition delete_where :: "('r \<Rightarrow> bool) \<Rightarrow> 'r list \<Rightarrow> 'r list" where
  "delete_where P t = filter (\<lambda>r. \<not> P r) t"

definition row_by :: "('r \<Rightarrow> 'k) \<Rightarrow> 'k \<Rightarrow> 'r list \<Rightarrow> 'r option" where
  "row_by key k t = find (\<lambda>r. key r = k) t"

definition exists_row :: "('r \<Rightarrow> bool) \<Rightarrow> 'r list \<Rightarrow> bool" where
  "exists_row P t \<longleftrightarrow> list_ex P t"

definition count_rows :: "('r \<Rightarrow> bool) \<Rightarrow> 'r list \<Rightarrow> nat" where
  "count_rows P t = length (filter P t)"

definition keyed :: "('r \<Rightarrow> 'k) \<Rightarrow> 'r list \<Rightarrow> bool" where
  "keyed key t \<longleftrightarrow> distinct (map key t)"

lemma exists_row_iff: "exists_row P t \<longleftrightarrow> (\<exists>r \<in> set t. P r)"
  by (simp add: exists_row_def list_ex_iff)

lemma set_delete_where [row_simps]: "set (delete_where P t) = {r \<in> set t. \<not> P r}"
  by (simp add: delete_where_def)

lemma set_update_where [row_simps]:
  "set (update_where P f t) = (\<lambda>r. if P r then f r else r) ` set t"
  by (simp add: update_where_def)

lemma length_update_where [simp]: "length (update_where P f t) = length t"
  by (simp add: update_where_def)

lemma row_by_key: "row_by key k t = Some r \<Longrightarrow> key r = k"
  by (auto simp: row_by_def find_Some_iff)

lemma row_by_in: "row_by key k t = Some r \<Longrightarrow> r \<in> set t"
  by (auto simp: row_by_def find_Some_iff)

lemma row_by_None: "row_by key k t = None \<longleftrightarrow> k \<notin> key ` set t"
  by (auto simp: row_by_def find_None_iff)

lemma row_by_SomeI: "keyed key t \<Longrightarrow> r \<in> set t \<Longrightarrow> row_by key (key r) t = Some r"
  by (induction t) (auto simp: row_by_def keyed_def)

lemma row_by_Some_iff: "keyed key t \<Longrightarrow> row_by key k t = Some r \<longleftrightarrow> r \<in> set t \<and> key r = k"
  by (auto dest: row_by_key row_by_in row_by_SomeI)

lemma keyed_unique: "keyed key t \<Longrightarrow> r \<in> set t \<Longrightarrow> r' \<in> set t \<Longrightarrow> key r = key r' \<Longrightarrow> r = r'"
  by (metis row_by_SomeI option.inject)

lemma find_map_same: "(\<And>x. x \<in> set xs \<Longrightarrow> P (f x) = P x) \<Longrightarrow> find P (map f xs) = map_option f (find P xs)"
  by (induction xs) simp_all

lemma filter_map_same: "(\<And>x. x \<in> set xs \<Longrightarrow> P (f x) = P x) \<Longrightarrow> filter P (map f xs) = map f (filter P xs)"
  by (induction xs) simp_all

lemma keyed_delete: "keyed key t \<Longrightarrow> keyed key (delete_where P t)"
  by (simp add: keyed_def delete_where_def distinct_map_filter)

lemma keyed_insert: "keyed key (t @ [r]) \<longleftrightarrow> keyed key t \<and> key r \<notin> key ` set t"
  by (auto simp: keyed_def)

lemma row_by_insert [row_simps]:
  "row_by key k (t @ [r]) =
     (case row_by key k t of None \<Rightarrow> if key r = k then Some r else None | Some r' \<Rightarrow> Some r')"
  by (induction t) (auto simp: row_by_def)

lemma row_by_delete:
  assumes "keyed key t"
  shows "row_by key k (delete_where P t) =
           (case row_by key k t of None \<Rightarrow> None | Some r \<Rightarrow> if P r then None else Some r)"
proof (cases "row_by key k t")
  case None
  then have "row_by key k (delete_where P t) = None"
    by (auto simp: row_by_None row_simps)
  with None show ?thesis by simp
next
  case (Some r)
  then have r: "r \<in> set t" "key r = k" by (auto dest: row_by_in row_by_key)
  show ?thesis
  proof (cases "P r")
    case True
    with assms r have "row_by key k (delete_where P t) = None"
      by (auto simp: row_by_None row_simps dest: keyed_unique)
    with Some True show ?thesis by simp
  next
    case False
    with assms r have "row_by key k (delete_where P t) = Some r"
      by (simp add: row_by_Some_iff keyed_delete row_simps)
    with Some False show ?thesis by simp
  qed
qed

locale keyed_update =
  fixes key :: "'r \<Rightarrow> 'k" and upd :: "'r \<Rightarrow> 'r"
  assumes key_upd [simp]: "key (upd r) = key r"
begin

lemma keys_update: "map key (update_where P upd t) = map key t"
  by (simp add: update_where_def)

lemma keyed_update_iff [simp]: "keyed key (update_where P upd t) \<longleftrightarrow> keyed key t"
  by (simp add: keyed_def keys_update)

lemma row_by_update:
  "row_by key k (update_where P upd t) = map_option (\<lambda>r. if P r then upd r else r) (row_by key k t)"
  by (induction t) (auto simp: row_by_def update_where_def)

lemma key_image_update [simp]: "key ` set (update_where P upd t) = key ` set t"
  by (metis keys_update set_map)

end

section \<open>Machines that keep an invariant\<close>

locale op_machine =
  fixes step :: "'s \<Rightarrow> 'o \<Rightarrow> 's" and inv :: "'s \<Rightarrow> bool"
  assumes step_inv: "inv s \<Longrightarrow> inv (step s o1)"
begin

lemma run_inv: "inv s \<Longrightarrow> inv (foldl step s ops)"
  by (induction ops arbitrary: s) (auto intro: step_inv)

end

text \<open>
  A machine some quantity of which only moves one way: a status that is never taken back, a
  counter that never falls.
\<close>

locale monotone_machine =
  fixes step :: "'s \<Rightarrow> 'o \<Rightarrow> 's" and ok :: "'s \<Rightarrow> bool" and rank :: "'s \<Rightarrow> 'm::preorder"
  assumes step_ok: "ok s \<Longrightarrow> ok (step s o1)"
    and step_rank: "ok s \<Longrightarrow> rank s \<le> rank (step s o1)"
begin

lemma run_rank: "ok s \<Longrightarrow> ok (foldl step s ops) \<and> rank s \<le> rank (foldl step s ops)"
proof (induction ops arbitrary: s)
  case Nil
  then show ?case by simp
next
  case (Cons o1 ops)
  then show ?case
    using step_ok step_rank order_trans by (metis foldl_Cons)
qed

end

sublocale monotone_machine \<subseteq> op_machine step ok
  by unfold_locales (rule step_ok)

end
