(* ===== verification/Task_Model.thy ===== *)
theory Task_Model
  imports Go_Prelude
begin

text \<open>
  The data the task services work on: the Go types of \<open>service/task.go\<close>,
  \<open>service/task_delivery.go\<close> and \<open>service/task_wait.go\<close>, and the tables their SQL reads and
  writes, with the constraints and triggers the migrations put on them
  (\<open>migrations/000011\<close>, \<open>000013\<close>, \<open>000016\<close>, \<open>000059\<close>, \<open>000064\<close>, \<open>000070\<close>, \<open>000071\<close>, \<open>000075\<close>).

  A row lock (\<open>FOR UPDATE\<close>) or an advisory lock makes the rest of a transaction one atomic step
  of the database, so a transaction is a function from the database to the database; a nullable
  column is an \<open>option\<close>. Ids are the canonical text of a UUID.
\<close>

section \<open>Task statuses\<close>

datatype task_status =
    TaskStatusTodo | TaskStatusInProgress | TaskStatusInReview | TaskStatusDone | TaskStatusClosed
  | TaskStatusOther string

definition status_text :: "task_status \<Rightarrow> string" where
  "status_text s =
     (case s of
        TaskStatusTodo \<Rightarrow> ''todo''
      | TaskStatusInProgress \<Rightarrow> ''in_progress''
      | TaskStatusInReview \<Rightarrow> ''in_review''
      | TaskStatusDone \<Rightarrow> ''done''
      | TaskStatusClosed \<Rightarrow> ''closed''
      | TaskStatusOther t \<Rightarrow> t)"

definition status_of :: "string \<Rightarrow> task_status" where
  "status_of t =
     (if t = ''todo'' then TaskStatusTodo
      else if t = ''in_progress'' then TaskStatusInProgress
      else if t = ''in_review'' then TaskStatusInReview
      else if t = ''done'' then TaskStatusDone
      else if t = ''closed'' then TaskStatusClosed
      else TaskStatusOther t)"

definition status_cancelled :: task_status where
  "status_cancelled = TaskStatusOther ''cancelled''"

definition terminal_statuses :: "task_status \<Rightarrow> bool" where
  "terminal_statuses s \<longleftrightarrow> s = TaskStatusDone \<or> s = TaskStatusClosed"

definition valid_task_statuses :: "task_status list" where
  "valid_task_statuses =
     [TaskStatusTodo, TaskStatusInProgress, TaskStatusInReview, TaskStatusDone, TaskStatusClosed]"

definition allowed_transitions :: "task_status \<Rightarrow> task_status list option" where
  "allowed_transitions s =
     (case s of
        TaskStatusTodo \<Rightarrow> Some [TaskStatusInProgress, TaskStatusClosed]
      | TaskStatusInProgress \<Rightarrow> Some [TaskStatusInReview, TaskStatusClosed]
      | TaskStatusInReview \<Rightarrow> Some [TaskStatusDone, TaskStatusInProgress, TaskStatusClosed]
      | TaskStatusDone \<Rightarrow> Some [TaskStatusClosed]
      | TaskStatusClosed \<Rightarrow> Some [TaskStatusTodo]
      | TaskStatusOther _ \<Rightarrow> None)"

lemma status_of_text: "status_of (status_text s) = s \<longleftrightarrow>
    (\<forall>t. s = TaskStatusOther t \<longrightarrow> t \<notin> status_text ` set valid_task_statuses)"
  by (cases s) (auto simp: status_of_def status_text_def valid_task_statuses_def)

lemma status_text_of: "status_text (status_of t) = t"
  by (simp add: status_of_def status_text_def)

section \<open>Errors\<close>

datatype task_error =
    ErrTaskNotFound | ErrTaskReferenceAmbiguous | ErrTaskSourceExists | ErrTaskInvalidStatus
  | ErrTaskInvalidTransition | ErrTaskNotChannelMember | ErrTaskAlreadyClaimed
  | ErrTaskInTerminalState | ErrTaskNotClaimable | ErrTaskNotClaimer | ErrTaskAssigneeNotFound
  | ErrTaskAssigneeAmbiguous | ErrTaskNotCreator | ErrTaskHumanOnly | ErrTaskNotSubmittable
  | ErrTaskNotReviewable | ErrTaskHasOpenSubtasks | ErrTaskReasonRequired | ErrTaskLifecyclePatch
  | ErrTaskVersionConflict | ErrTaskContractRequired | ErrTaskNotReviewer | ErrTaskReviewLimit
  | ErrTaskDeliveryInvalid string
  | ErrTitleRequired | ErrInvalidParent | ErrParentChannel
  | ErrDatabase

section \<open>Contracts, evidence, requests\<close>

record task_requirement =
  rq_id :: string
  rq_text :: string

record code_gate_check =
  cg_requirement :: string
  cg_command :: "string list"

record code_gate_spec =
  cg_repository :: string
  cg_base_commit :: string
  cg_timeout :: int
  cg_checks :: "code_gate_check list"

record task_gate =
  human_review_mode :: string
  gate_code :: "code_gate_spec option"
  gate_kind :: string
  reviewer_id :: string
  max_revisions :: int

record task_contract =
  requirements :: "task_requirement list"
  gate :: task_gate

record task_evidence =
  ev_id :: string
  ev_description :: string
  ev_content :: string
  ev_uri :: string
  ev_sha256 :: string

record task_handoff =
  ho_summary :: string
  ho_changes :: string
  ho_risks :: string
  ho_next_steps :: string

record task_submit_request =
  sub_expected_version :: int
  sub_key :: string
  sub_artifact :: string
  sub_handoff :: task_handoff
  sub_evidence :: "task_evidence list"

record task_check =
  ck_requirement :: string
  ck_passed :: bool
  ck_evidence :: "string list"
  ck_reason :: string

record task_review_request =
  rv_code_gate_run :: string
  rv_submission :: string
  rv_artifact :: string
  rv_decision :: string
  rv_reason :: string
  rv_checks :: "task_check list"
  rv_evidence :: "task_evidence list"
  rv_key :: string

record task_wait_condition =
  wc_kind :: string
  wc_task :: string
  wc_at :: "time option"
  wc_description :: string

record task_wait_request =
  wr_expected_version :: int
  wr_key :: string
  wr_condition :: task_wait_condition
  wr_handoff :: task_handoff
  wr_next_action :: string

record task_create_request =
  cr_contract :: "task_contract option"
  cr_title :: string
  cr_description :: string
  cr_priority :: string
  cr_due :: "time option"
  cr_message :: string
  cr_parent :: string
  cr_assignee :: string

record task_update_request =
  up_contract :: "task_contract option"
  up_expected_version :: int
  up_title :: "string option"
  up_description :: "string option"
  up_status :: "string option"
  up_priority :: "string option"
  up_due :: "time option"

section \<open>Rows\<close>

record task_row =
  t_id :: id
  t_number :: nat
  t_channel :: "id option"
  t_creator :: id
  t_title :: string
  t_description :: "string option"
  t_status :: task_status
  t_claimer :: "id option"
  t_priority :: string
  t_due :: "time option"
  t_message :: "id option"
  t_parent :: "id option"
  t_created :: time
  t_updated :: time
  t_version :: int
  t_contract :: "task_contract option"
  t_submission :: "id option"

record channel_row =
  ch_id :: id
  ch_archived :: bool

record member_row =
  m_channel :: id
  m_member :: id
  m_type :: string

record agent_row =
  a_id :: id
  a_name :: string
  a_owner :: id
  a_active :: bool

record user_row =
  u_id :: id
  u_name :: string

record message_row =
  msg_id :: id
  msg_channel :: id
  msg_content :: string
  msg_sender_type :: string
  msg_sender :: id
  msg_deleted :: bool
  msg_in_thinking :: bool

record submission_row =
  s_id :: id
  s_task :: id
  s_by :: id
  s_run :: "id option"
  s_version :: int
  s_contract :: task_contract
  s_handoff :: task_handoff
  s_artifact :: string
  s_evidence :: "task_evidence list"
  s_key :: string
  s_hash :: string
  s_created :: time

record review_row =
  r_task :: id
  r_reviewer :: id
  r_decision :: string
  r_reason :: string
  r_artifact :: "id option"
  r_next_owner :: "id option"
  r_submission :: "id option"
  r_evidence :: "task_evidence list"
  r_checks :: "task_check list"
  r_key :: "string option"
  r_hash :: "string option"

record review_delivery_row =
  d_submission :: id
  d_reviewer :: id
  d_run :: "id option"
  d_attempts :: int

datatype wait_status = Waiting | Resumed | Cancelled

text \<open>The evidence a wait is resumed on; a column holding \<open>{}\<close> is \<open>None\<close>.\<close>

datatype wait_fulfillment =
    Confirmed (confirmed_by: id) (confirmed_reason: string) (confirmed_at: time)
  | DependencyDone (dep_task: id) (dep_version: int) (dep_submission: "id option")
  | TimeReached (at_time: time) (observed_at: time)

record wait_row =
  w_id :: id
  w_task :: id
  w_version :: int
  w_agent :: id
  w_condition :: task_wait_condition
  w_handoff :: task_handoff
  w_next_action :: string
  w_status :: wait_status
  w_created_by :: id
  w_key :: string
  w_hash :: string
  w_fulfillment :: "wait_fulfillment option"
  w_reason :: string
  w_run :: "id option"
  w_next_attempt :: time
  w_last_error :: string
  w_created :: time

record responsibility_row =
  e_task :: id
  e_version :: int
  e_actor :: id
  e_assignee :: id
  e_kind :: string

record artifact_row =
  art_id :: id
  art_task :: id
  art_kind :: string
  art_summary :: "string option"
  art_updated :: time

record gate_run_row =
  gr_id :: id
  gr_agent :: id
  gr_source :: string
  gr_finished :: bool

record db =
  tasks :: "task_row list"
  channels :: "channel_row list"
  members :: "member_row list"
  agents :: "agent_row list"
  users :: "user_row list"
  messages :: "message_row list"
  submissions :: "submission_row list"
  reviews :: "review_row list"
  deliveries :: "review_delivery_row list"
  waits :: "wait_row list"
  resp_events :: "responsibility_row list"
  artifacts :: "artifact_row list"
  gate_runs :: "gate_run_row list"

text \<open>
  What a request runs against that is not under the repository, or not decided by it: the clock,
  the UUIDs \<open>uuid.New\<close> hands out, \<open>uuid.Parse\<close> followed by \<open>String\<close> (the canonical text, or
  none), PostgreSQL's \<open>lower\<close>, SHA-256 and the hash \<open>deliveryRequestHash\<close> of a request's JSON,
  the length of a wait request's JSON, and what the artifact generator answers.
\<close>

record env =
  now :: time
  fresh :: id
  uuid_parse :: "string \<Rightarrow> id option"
  sql_lower :: "string \<Rightarrow> string"
  sha256_hex :: "string \<Rightarrow> string"
  hash_contract :: "task_contract \<Rightarrow> string"
  hash_submit :: "task_submit_request \<Rightarrow> string"
  hash_review :: "task_review_request \<Rightarrow> string"
  hash_wait :: "task_wait_request \<Rightarrow> string"
  json_length_wait :: "task_wait_request \<Rightarrow> nat"
  has_notifier :: bool
  gen_artifact :: "(id \<Rightarrow> id \<Rightarrow> string option) option"

section \<open>Triggers and the UPDATE statement on tasks\<close>

text \<open>\<open>bump_task_version\<close> (migration 000064), with OLD and NEW; \<open>None\<close> is its exception.\<close>

definition same_scope :: "task_row \<Rightarrow> task_row \<Rightarrow> bool" where
  "same_scope new old \<longleftrightarrow>
     t_title new = t_title old \<and> t_description new = t_description old \<and>
     t_contract new = t_contract old \<and> t_claimer new = t_claimer old \<and>
     t_priority new = t_priority old \<and> t_due new = t_due old"

definition accepted_current :: "db \<Rightarrow> int \<Rightarrow> task_row \<Rightarrow> bool" where
  "accepted_current d old_version new \<longleftrightarrow>
     exists_row (\<lambda>r. r_decision r = ''accepted'' \<and>
       (case r_submission r of None \<Rightarrow> False
        | Some sid \<Rightarrow> t_submission new = Some sid \<and>
            exists_row (\<lambda>s. s_id s = sid \<and> s_task s = t_id new \<and> s_version s + 1 = old_version)
              (submissions d))) (reviews d)"

definition bump_task_version :: "db \<Rightarrow> task_row \<Rightarrow> task_row \<Rightarrow> task_row option" where
  "bump_task_version d old new =
     (let v = (if same_scope new old \<and> t_status new = t_status old then t_version old
               else t_version old + 1);
          new1 = new\<lparr>t_version := v\<rparr>;
          new2 = (if t_contract new \<noteq> None \<and> t_status old = TaskStatusInReview \<and> \<not> same_scope new old
                  then new1\<lparr>t_status := (if t_claimer new = None then TaskStatusTodo
                                         else TaskStatusInProgress),
                            t_submission := None\<rparr>
                  else new1)
      in if t_contract new2 \<noteq> None \<and> t_status new2 = TaskStatusDone \<and> t_status old \<noteq> TaskStatusDone
            \<and> \<not> accepted_current d (t_version old) new2
         then None else Some new2)"

text \<open>\<open>invalidate_task_wait\<close> (migration 000071).\<close>

definition cancel_wait :: "string \<Rightarrow> wait_row \<Rightarrow> wait_row" where
  "cancel_wait reason w = w\<lparr>w_status := Cancelled, w_reason := reason\<rparr>"

definition invalidate_task_wait :: "task_row \<Rightarrow> task_row \<Rightarrow> wait_row list \<Rightarrow> wait_row list" where
  "invalidate_task_wait old new ws =
     (if t_version new \<noteq> t_version old \<or> t_status new \<noteq> TaskStatusInProgress
      then update_where (\<lambda>w. w_task w = t_id new \<and> w_status w = Waiting)
             (cancel_wait ''Task changed; register a new condition against its current version'') ws
      else ws)"

text \<open>
  \<open>UPDATE tasks SET ... WHERE id = tid AND guard\<close>: the row, if it is there and the guard holds,
  goes through both triggers. \<open>None\<close> is a trigger's exception, which aborts the transaction;
  otherwise the database and the number of rows affected.
\<close>

definition update_task ::
    "id \<Rightarrow> (task_row \<Rightarrow> bool) \<Rightarrow> (task_row \<Rightarrow> task_row) \<Rightarrow> db \<Rightarrow> (db \<times> nat) option" where
  "update_task tid guard f d =
     (case row_by t_id tid (tasks d) of
        None \<Rightarrow> Some (d, 0)
      | Some old \<Rightarrow>
          if \<not> guard old then Some (d, 0)
          else
            (case bump_task_version d old (f old) of
               None \<Rightarrow> None
             | Some new \<Rightarrow>
                 Some (d\<lparr>tasks := update_where (\<lambda>r. t_id r = tid) (\<lambda>_. new) (tasks d),
                         waits := invalidate_task_wait old new (waits d)\<rparr>, 1)))"

text \<open>
  \<open>INSERT INTO tasks\<close>: the primary key, \<open>enforce_task_source_message\<close> and the unique index on the
  source message, and \<open>record_task_initial_assignment\<close>.
\<close>

definition source_visible :: "db \<Rightarrow> id option \<Rightarrow> id \<Rightarrow> bool" where
  "source_visible d ch m \<longleftrightarrow>
     exists_row (\<lambda>x. msg_id x = m \<and> Some (msg_channel x) = ch \<and> \<not> msg_deleted x \<and> \<not> msg_in_thinking x)
       (messages d)"

definition insert_task :: "task_row \<Rightarrow> db \<Rightarrow> task_error + db" where
  "insert_task r d =
     (if (case t_message r of None \<Rightarrow> False | Some m \<Rightarrow> \<not> source_visible d (t_channel r) m)
      then Inl ErrDatabase
      else if t_message r \<noteq> None \<and> exists_row (\<lambda>x. t_message x = t_message r) (tasks d)
      then Inl ErrTaskSourceExists
      else if exists_row (\<lambda>x. t_id x = t_id r) (tasks d)
           \<or> (t_channel r \<noteq> None \<and>
              exists_row (\<lambda>x. t_channel x = t_channel r \<and> t_number x = t_number r) (tasks d))
      then Inl ErrDatabase
      else Inr (d\<lparr>tasks := tasks d @ [r],
                  resp_events := resp_events d @
                    (case t_claimer r of
                       None \<Rightarrow> []
                     | Some c \<Rightarrow>
                         [\<lparr>e_task = t_id r, e_version = t_version r, e_actor = t_creator r,
                           e_assignee = c,
                           e_kind = (if t_creator r = c then ''self_assigned'' else ''assigned'')\<rparr>])\<rparr>))"

text \<open>\<open>DELETE FROM tasks\<close>: its cascades, and \<open>ON DELETE SET NULL\<close> of the parent link.\<close>

definition delete_task_rows :: "id \<Rightarrow> db \<Rightarrow> db" where
  "delete_task_rows tid d =
     (let gone = map s_id (filter (\<lambda>s. s_task s = tid) (submissions d))
      in d\<lparr>tasks := update_where (\<lambda>r. t_parent r = Some tid) (t_parent_update (\<lambda>_. None))
                      (delete_where (\<lambda>r. t_id r = tid) (tasks d)),
           submissions := delete_where (\<lambda>s. s_task s = tid) (submissions d),
           reviews := delete_where (\<lambda>r. r_task r = tid \<or>
                        (case r_submission r of None \<Rightarrow> False | Some s \<Rightarrow> s \<in> set gone)) (reviews d),
           deliveries := delete_where (\<lambda>x. d_submission x \<in> set gone) (deliveries d),
           waits := delete_where (\<lambda>w. w_task w = tid) (waits d),
           resp_events := delete_where (\<lambda>x. e_task x = tid) (resp_events d),
           artifacts := delete_where (\<lambda>x. art_task x = tid) (artifacts d)\<rparr>)"

end
