(* ===== verification/Task_Service.thy ===== *)
theory Task_Service
  imports Task_Model
begin

text \<open>
  \<open>service/task.go\<close>: one definition per function, in the order of its checks. An operation
  returns the database it leaves, the error or the task view it answers, and the notifications it
  sends after its commit. An operation that fails before its commit leaves the database as it was.
\<close>

section \<open>Results\<close>

datatype effect =
    NotifyReviewReady id id | NotifyAccepted id id | NotifyRejected id id string
  | NotifyClosed id id | NotifyReopened id id | GenerateArtifact id id

record task_view =
  v_row :: task_row
  v_creator_name :: string
  v_claimer_name :: string
  v_claimer_deleted :: bool
  v_subtasks :: nat
  v_done_subtasks :: nat
  v_artifact_status :: string
  v_waiting :: bool
  v_can_review :: bool

type_synonym op_result = "db \<times> (task_error + task_view) \<times> effect list"

definition fail :: "db \<Rightarrow> task_error \<Rightarrow> op_result" where
  "fail d err = (d, Inl err, [])"

definition result_db :: "op_result \<Rightarrow> db" where
  "result_db r = fst r"

definition result :: "op_result \<Rightarrow> task_error + task_view" where
  "result r = fst (snd r)"

definition result_effects :: "op_result \<Rightarrow> effect list" where
  "result_effects r = snd (snd r)"

lemma result_fail [simp]:
  "result_db (fail d err) = d" "result (fail d err) = Inl err" "result_effects (fail d err) = []"
  by (simp_all add: fail_def result_db_def result_def result_effects_def)

section \<open>Status flow and actors\<close>

definition validate_status_transition :: "task_status \<Rightarrow> task_status \<Rightarrow> task_error option" where
  "validate_status_transition current new =
     (if current = new then None
      else if new \<notin> set valid_task_statuses then Some ErrTaskInvalidStatus
      else
        (case allowed_transitions current of
           None \<Rightarrow> Some ErrTaskInvalidTransition
         | Some allowed \<Rightarrow> if new \<in> set allowed then None else Some ErrTaskInvalidTransition))"

definition is_agent_actor :: "db \<Rightarrow> id \<Rightarrow> bool" where
  "is_agent_actor d u \<longleftrightarrow> exists_row (\<lambda>a. a_id a = u) (agents d)"

definition validate_status_actor :: "db \<Rightarrow> task_row \<Rightarrow> id \<Rightarrow> task_status \<Rightarrow> task_error option" where
  "validate_status_actor d t u new =
     (let is_close = (new = TaskStatusClosed);
          is_reopen = (t_status t = TaskStatusClosed \<and> new \<noteq> TaskStatusClosed)
      in if (is_close \<or> is_reopen) \<and> is_agent_actor d u then Some ErrTaskHumanOnly
         else if new = TaskStatusDone \<and> t_creator t \<noteq> u then Some ErrTaskNotCreator
         else None)"

definition require_channel_member :: "db \<Rightarrow> id \<Rightarrow> id \<Rightarrow> task_error option" where
  "require_channel_member d ch u =
     (case row_by ch_id ch (channels d) of
        None \<Rightarrow> Some ErrTaskNotChannelMember
      | Some c \<Rightarrow>
          if ch_archived c then Some ErrTaskNotChannelMember
          else if \<not> exists_row (\<lambda>m. m_channel m = ch \<and> m_member m = u) (members d)
          then Some ErrTaskNotChannelMember
          else None)"

section \<open>Resolving references\<close>

text \<open>\<open>messageIDPattern\<close>: \<open>^[0-9a-fA-F-]{4,36}$\<close>.\<close>

definition message_id_pattern :: "string \<Rightarrow> bool" where
  "message_id_pattern s \<longleftrightarrow>
     4 \<le> length s \<and> length s \<le> 36 \<and> list_all (\<lambda>c. is_hex c \<or> c = CHR ''-'') s"

definition resolve_task_message_id :: "env \<Rightarrow> db \<Rightarrow> id \<Rightarrow> string \<Rightarrow> task_error + id" where
  "resolve_task_message_id e d ch prefix =
     (if \<not> message_id_pattern prefix then Inl ErrTaskNotFound
      else if ch = [] then Inl ErrDatabase
      else
        (case filter (\<lambda>m. msg_channel m = ch \<and> has_prefix (sql_lower e prefix) (msg_id m) \<and>
                \<not> msg_deleted m \<and> \<not> msg_in_thinking m) (messages d) of
           [] \<Rightarrow> Inl ErrTaskNotFound
         | [m] \<Rightarrow> Inr (msg_id m)
         | _ \<Rightarrow> Inl ErrTaskReferenceAmbiguous))"

text \<open>\<open>Inr None\<close> is the driver's \<open>ErrNoRows\<close>, which the callers tell apart.\<close>

definition resolve_message_task_id :: "db \<Rightarrow> id \<Rightarrow> id \<Rightarrow> task_error + id option" where
  "resolve_message_task_id d ch mid =
     (case filter (\<lambda>t. t_channel t = Some ch \<and> t_message t = Some mid) (tasks d) of
        [] \<Rightarrow> Inr None
      | [t] \<Rightarrow> Inr (Some (t_id t))
      | _ \<Rightarrow> Inl ErrTaskReferenceAmbiguous)"

definition resolve_task_ref :: "env \<Rightarrow> db \<Rightarrow> id \<Rightarrow> string \<Rightarrow> task_error + id" where
  "resolve_task_ref e d ch ref =
     (case find (\<lambda>t. t_channel t = Some ch \<and> t_id t = sql_lower e ref) (tasks d) of
        Some t \<Rightarrow> Inr (t_id t)
      | None \<Rightarrow>
          (case find (\<lambda>t. t_channel t = Some ch \<and> nat_text (t_number t) = ref) (tasks d) of
             Some t \<Rightarrow> Inr (t_id t)
           | None \<Rightarrow>
               (case resolve_task_message_id e d ch ref of
                  Inl err \<Rightarrow> Inl err
                | Inr mid \<Rightarrow>
                    (case resolve_message_task_id d ch mid of
                       Inl err \<Rightarrow> Inl err
                     | Inr None \<Rightarrow> Inl ErrTaskNotFound
                     | Inr (Some tid) \<Rightarrow> Inr tid))))"

section \<open>Views\<close>

definition display_name :: "db \<Rightarrow> id \<Rightarrow> string" where
  "display_name d u =
     (case row_by u_id u (users d) of
        Some x \<Rightarrow> u_name x
      | None \<Rightarrow> (case row_by a_id u (agents d) of Some a \<Rightarrow> a_name a | None \<Rightarrow> []))"

text \<open>\<open>taskArtifactStatusSQL\<close>; \<open>minutes5\<close> is \<open>interval '5 minutes'\<close> in the clock's unit.\<close>

definition minutes5 :: time where
  "minutes5 = 300 * 10 ^ 9"

definition task_artifact_status :: "env \<Rightarrow> db \<Rightarrow> id \<Rightarrow> string" where
  "task_artifact_status e d tid =
     (if exists_row (\<lambda>x. art_task x = tid \<and> art_kind x = ''task_snapshot''
           \<and> coalesce (art_summary x) = ''pending'' \<and> art_updated x > now e - minutes5) (artifacts d)
      then ''pending''
      else if exists_row (\<lambda>x. art_task x = tid \<and> art_kind x = ''task_snapshot''
           \<and> coalesce (art_summary x) \<noteq> ''pending'') (artifacts d)
      then ''available''
      else ''none'')"

definition waiting_on :: "db \<Rightarrow> id \<Rightarrow> bool" where
  "waiting_on d tid \<longleftrightarrow> exists_row (\<lambda>w. w_task w = tid \<and> w_status w = Waiting) (waits d)"

text \<open>
  The escalation a human creator may resolve: the submission has a \<open>needs_human\<close> review, or its
  automatic review gave up after three attempts with no run still working on it.
\<close>

definition escalated :: "db \<Rightarrow> id \<Rightarrow> id \<Rightarrow> bool" where
  "escalated d sid u \<longleftrightarrow>
     (exists_row (\<lambda>r. r_submission r = Some sid \<and> r_decision r = ''needs_human'') (reviews d) \<or>
      exists_row (\<lambda>x. d_submission x = sid \<and> d_attempts x \<ge> 3 \<and>
        (case d_run x of
           None \<Rightarrow> True
         | Some rid \<Rightarrow> (case row_by gr_id rid (gate_runs d) of None \<Rightarrow> True | Some g \<Rightarrow> gr_finished g)))
        (deliveries d))
     \<and> exists_row (\<lambda>x. u_id x = u) (users d)"

definition view_of :: "env \<Rightarrow> db \<Rightarrow> id \<Rightarrow> task_row \<Rightarrow> task_view" where
  "view_of e d u t =
     \<lparr>v_row = t,
      v_creator_name = display_name d (t_creator t),
      v_claimer_name = (case t_claimer t of None \<Rightarrow> [] | Some c \<Rightarrow> display_name d c),
      v_claimer_deleted =
        (case t_claimer t of None \<Rightarrow> False
         | Some c \<Rightarrow> (case row_by a_id c (agents d) of None \<Rightarrow> False | Some a \<Rightarrow> \<not> a_active a)),
      v_subtasks = count_rows (\<lambda>x. t_parent x = Some (t_id t)) (tasks d),
      v_done_subtasks = count_rows (\<lambda>x. t_parent x = Some (t_id t) \<and> t_status x = TaskStatusDone) (tasks d),
      v_artifact_status = task_artifact_status e d (t_id t),
      v_waiting = waiting_on d (t_id t),
      v_can_review =
        (case t_contract t of
           None \<Rightarrow> False
         | Some c \<Rightarrow>
             t_status t = TaskStatusInReview \<and> coalesce (t_claimer t) \<noteq> u \<and>
             (reviewer_id (gate c) = u \<or>
              (t_creator t = u \<and> (case t_submission t of None \<Rightarrow> False | Some s \<Rightarrow> escalated d s u))))\<rparr>"

definition get_task :: "env \<Rightarrow> db \<Rightarrow> id \<Rightarrow> string \<Rightarrow> id \<Rightarrow> task_error + task_view" where
  "get_task e d ch ref u =
     (case require_channel_member d ch u of
        Some err \<Rightarrow> Inl err
      | None \<Rightarrow>
          (case resolve_task_ref e d ch ref of
             Inl err \<Rightarrow> Inl err
           | Inr tid \<Rightarrow>
               (case find (\<lambda>t. t_id t = tid \<and> t_channel t = Some ch) (tasks d) of
                  None \<Rightarrow> Inl ErrTaskNotFound
                | Some t \<Rightarrow> Inr (view_of e d u t))))"

definition get_task_global :: "env \<Rightarrow> db \<Rightarrow> string \<Rightarrow> id \<Rightarrow> task_error + task_view" where
  "get_task_global e d ref u =
     (case uuid_parse e ref of
        None \<Rightarrow> Inl ErrDatabase
      | Some tid \<Rightarrow>
          (case row_by t_id tid (tasks d) of
             None \<Rightarrow> Inl ErrTaskNotFound
           | Some t \<Rightarrow>
               (case t_channel t of None \<Rightarrow> Inl ErrDatabase | Some ch \<Rightarrow> get_task e d ch ref u)))"

record task_filter =
  tf_status :: string
  tf_claimer :: string
  tf_creator :: string
  tf_parent :: string

definition matches_filter :: "task_filter \<Rightarrow> task_row \<Rightarrow> bool" where
  "matches_filter f t \<longleftrightarrow>
     (tf_status f \<noteq> [] \<longrightarrow> status_text (t_status t) = tf_status f) \<and>
     (tf_claimer f \<noteq> [] \<longrightarrow> t_claimer t = Some (tf_claimer f)) \<and>
     (tf_creator f \<noteq> [] \<longrightarrow> t_creator t = tf_creator f) \<and>
     (tf_parent f \<noteq> [] \<longrightarrow> t_parent t = Some (tf_parent f))"

definition newest_first :: "task_row list \<Rightarrow> task_row list" where
  "newest_first = sort_key (\<lambda>t. - t_created t)"

definition list_tasks :: "db \<Rightarrow> id \<Rightarrow> id \<Rightarrow> task_filter \<Rightarrow> task_error + task_row list" where
  "list_tasks d ch u f =
     (case require_channel_member d ch u of
        Some err \<Rightarrow> Inl err
      | None \<Rightarrow> Inr (newest_first (filter (\<lambda>t. t_channel t = Some ch \<and> matches_filter f t) (tasks d))))"

definition get_tasks_for_agent :: "db \<Rightarrow> id \<Rightarrow> task_row list" where
  "get_tasks_for_agent d a =
     newest_first
       (filter (\<lambda>t. t_claimer t = Some a \<and> t_status t = TaskStatusInProgress \<and>
          (case t_channel t of
             None \<Rightarrow> True
           | Some ch \<Rightarrow> (case row_by ch_id ch (channels d) of None \<Rightarrow> False | Some c \<Rightarrow> \<not> ch_archived c)))
        (tasks d))"

end
