(* ===== verification/Task_Lifecycle.thy ===== *)
theory Task_Lifecycle
  imports Task_Service
begin

text \<open>
  The operations of \<open>service/task.go\<close> that write: create, claim, unclaim, submit, accept, reject,
  close, reopen, update, delete, the conversion of a message to a task, and the completion of an
  agent's task. A contract is validated by a parameter \<open>vc\<close> of this theory's definitions, which
  \<open>Task_Delivery\<close> provides (\<open>validateTaskContract\<close>): what it answers is the contract with its
  defaults filled in.
\<close>

section \<open>After the commit\<close>

text \<open>The re-read of the task every operation ends with, and the notifications that follow it.\<close>

definition refetch :: "env \<Rightarrow> db \<Rightarrow> id \<Rightarrow> string \<Rightarrow> id \<Rightarrow> (task_view \<Rightarrow> effect list) \<Rightarrow> op_result" where
  "refetch e d ch ref u effs =
     (case get_task e d ch ref u of
        Inl err \<Rightarrow> (d, Inl err, [])
      | Inr v \<Rightarrow> (d, Inr v, effs v))"

definition notify :: "env \<Rightarrow> effect \<Rightarrow> effect list" where
  "notify e x = (if has_notifier e then [x] else [])"

lemma result_db_refetch [simp]: "result_db (refetch e d ch ref u effs) = d"
  by (simp add: refetch_def result_db_def split: sum.split)

section \<open>Create\<close>

definition resolve_task_assignee :: "env \<Rightarrow> db \<Rightarrow> id \<Rightarrow> string \<Rightarrow> task_error + (id \<times> string) option" where
  "resolve_task_assignee e d ch assignee0 =
     (let assignee = trim_prefix ''@'' (trim_space assignee0) in
      if assignee = [] then Inr None
      else if ch = [] then Inl ErrDatabase
      else
        (case filter (\<lambda>a. exists_row (\<lambda>m. m_type m = ''agent'' \<and> m_member m = a_id a \<and> m_channel m = ch)
                            (members d)
                 \<and> a_active a \<and> (a_id a = assignee \<or> sql_lower e (a_name a) = sql_lower e assignee))
               (agents d) of
           [] \<Rightarrow> Inl ErrTaskAssigneeNotFound
         | [a] \<Rightarrow> Inr (Some (a_id a, a_name a))
         | _ \<Rightarrow> Inl ErrTaskAssigneeAmbiguous))"

definition next_task_number :: "db \<Rightarrow> id option \<Rightarrow> nat" where
  "next_task_number d ch =
     foldr (\<lambda>t m. if t_channel t = ch then max (t_number t) m else m) (tasks d) 0 + 1"

definition check_parent :: "env \<Rightarrow> db \<Rightarrow> id \<Rightarrow> string \<Rightarrow> task_error + id option" where
  "check_parent e d ch parent =
     (if parent = [] then Inr None
      else
        (case uuid_parse e parent of
           None \<Rightarrow> Inl ErrInvalidParent
         | Some pid \<Rightarrow>
             (case row_by t_id pid (tasks d) of
                None \<Rightarrow> Inl ErrTaskNotFound
              | Some p \<Rightarrow>
                  (case t_channel p of
                     None \<Rightarrow> Inl ErrDatabase
                   | Some pch \<Rightarrow>
                       if pch \<noteq> ch then Inl ErrParentChannel
                       else if t_status p = TaskStatusInReview \<or> terminal_statuses (t_status p)
                       then Inl ErrTaskInvalidTransition
                       else Inr (Some pid)))))"

text \<open>
  \<open>CreateTask\<close>. The contract validation and the parse of the parent's id come before the
  transaction, the lookup of the source message and of the parent inside it.
\<close>

definition new_task ::
    "env \<Rightarrow> db \<Rightarrow> id \<Rightarrow> id \<Rightarrow> task_create_request \<Rightarrow> task_contract option \<Rightarrow> id option \<Rightarrow> id option \<Rightarrow> id option
       \<Rightarrow> task_row" where
  "new_task e d ch u req contract assignee mid pid =
     \<lparr>t_id = fresh e, t_number = next_task_number d (nullable ch), t_channel = nullable ch,
      t_creator = u, t_title = cr_title req, t_description = nullable (cr_description req),
      t_status = (if assignee = None then TaskStatusTodo else TaskStatusInProgress),
      t_claimer = assignee,
      t_priority = (if cr_priority req = [] then ''none'' else cr_priority req),
      t_due = cr_due req, t_message = mid, t_parent = pid, t_created = now e, t_updated = now e,
      t_version = 1, t_contract = contract, t_submission = None\<rparr>"

definition created_view :: "env \<Rightarrow> db \<Rightarrow> task_row \<Rightarrow> string \<Rightarrow> task_view" where
  "created_view e d t claimer_name =
     \<lparr>v_row = t, v_creator_name = display_name d (t_creator t), v_claimer_name = claimer_name,
      v_claimer_deleted = False, v_subtasks = 0, v_done_subtasks = 0, v_artifact_status = [],
      v_waiting = False, v_can_review = False\<rparr>"

definition create_task ::
    "env \<Rightarrow> (db \<Rightarrow> id \<Rightarrow> id \<Rightarrow> task_contract \<Rightarrow> task_error + task_contract) \<Rightarrow> db \<Rightarrow> id \<Rightarrow> id
       \<Rightarrow> task_create_request \<Rightarrow> op_result" where
  "create_task e vc d ch u req =
     (case (if ch = [] then None else require_channel_member d ch u) of
        Some err \<Rightarrow> fail d err
      | None \<Rightarrow>
     (case (case cr_contract req of None \<Rightarrow> Inr None | Some c \<Rightarrow> map_sum id Some (vc d ch u c)) of
        Inl err \<Rightarrow> fail d err
      | Inr contract \<Rightarrow>
     if cr_title req = [] then fail d ErrTitleRequired else
     (case resolve_task_assignee e d ch (cr_assignee req) of
        Inl err \<Rightarrow> fail d err
      | Inr assignee \<Rightarrow>
     if cr_parent req \<noteq> [] \<and> uuid_parse e (cr_parent req) = None then fail d ErrInvalidParent else
     (case (if cr_message req = [] then Inr None
            else map_sum id Some (resolve_task_message_id e d ch (cr_message req))) of
        Inl err \<Rightarrow> fail d err
      | Inr mid \<Rightarrow>
     (case check_parent e d ch (cr_parent req) of
        Inl err \<Rightarrow> fail d err
      | Inr pid \<Rightarrow>
     (let t = new_task e d ch u req contract (map_option fst assignee) mid pid in
      case insert_task t d of
        Inl err \<Rightarrow> fail d err
      | Inr d' \<Rightarrow>
          (d', Inr (created_view e d' t (case assignee of None \<Rightarrow> [] | Some a \<Rightarrow> snd a)), [])))))))"

section \<open>Claim and unclaim\<close>

definition claim_task_tx :: "env \<Rightarrow> db \<Rightarrow> id \<Rightarrow> id \<Rightarrow> id \<Rightarrow> task_error + db" where
  "claim_task_tx e d ch tid u =
     (case find (\<lambda>t. t_id t = tid \<and> t_channel t = Some ch) (tasks d) of
        None \<Rightarrow> Inl ErrTaskNotFound
      | Some t \<Rightarrow>
          if terminal_statuses (t_status t) then Inl ErrTaskInTerminalState
          else if t_status t = TaskStatusInReview then Inl ErrTaskNotClaimable
          else if coalesce (t_claimer t) \<noteq> [] \<and> coalesce (t_claimer t) \<noteq> u then Inl ErrTaskAlreadyClaimed
          else
            (let status' = (if t_status t = TaskStatusTodo then TaskStatusInProgress else t_status t) in
             case update_task tid (\<lambda>r. t_channel r = Some ch)
                    (\<lambda>r. r\<lparr>t_claimer := Some u, t_status := status', t_updated := now e\<rparr>) d of
               None \<Rightarrow> Inl ErrDatabase
             | Some (d', _) \<Rightarrow>
                 (if coalesce (t_claimer t) = []
                  then
                    (case row_by t_id tid (tasks d') of
                       None \<Rightarrow> Inr d'
                     | Some t' \<Rightarrow>
                         Inr (d'\<lparr>resp_events := resp_events d' @
                                  [\<lparr>e_task = tid, e_version = t_version t', e_actor = u,
                                    e_assignee = u, e_kind = ''claimed''\<rparr>]\<rparr>))
                  else Inr d')))"

definition claim_task :: "env \<Rightarrow> db \<Rightarrow> id \<Rightarrow> string \<Rightarrow> id \<Rightarrow> op_result" where
  "claim_task e d ch ref u =
     (case require_channel_member d ch u of
        Some err \<Rightarrow> fail d err
      | None \<Rightarrow>
     (case uuid_parse e ref of
        None \<Rightarrow> fail d ErrDatabase
      | Some tid \<Rightarrow>
     (case claim_task_tx e d ch tid u of
        Inl err \<Rightarrow> fail d err
      | Inr d' \<Rightarrow> refetch e d' ch ref u (\<lambda>_. []))))"

text \<open>
  \<open>UnclaimTask\<close> reads the task and writes it in two statements with no lock between them, so it is
  two steps: \<open>unclaim_check\<close> on the database the read saw, \<open>unclaim_write\<close> on the database the
  write finds. \<open>unclaim_task\<close> is the two with nothing in between.
\<close>

definition unclaim_check :: "env \<Rightarrow> db \<Rightarrow> id \<Rightarrow> string \<Rightarrow> id \<Rightarrow> task_error option" where
  "unclaim_check e d ch ref u =
     (case require_channel_member d ch u of
        Some err \<Rightarrow> Some err
      | None \<Rightarrow>
          (case get_task e d ch ref u of
             Inl err \<Rightarrow> Some err
           | Inr v \<Rightarrow>
               if coalesce (t_claimer (v_row v)) = [] then Some ErrTaskNotClaimer
               else if coalesce (t_claimer (v_row v)) \<noteq> u then Some ErrTaskNotClaimer
               else if terminal_statuses (t_status (v_row v)) then Some ErrTaskInTerminalState
               else None))"

definition unclaim_write :: "env \<Rightarrow> db \<Rightarrow> id \<Rightarrow> string \<Rightarrow> db option" where
  "unclaim_write e d ch ref =
     (case uuid_parse e ref of
        None \<Rightarrow> None
      | Some tid \<Rightarrow>
          map_option fst
            (update_task tid (\<lambda>r. t_channel r = Some ch)
              (\<lambda>r. r\<lparr>t_claimer := None, t_status := TaskStatusTodo, t_updated := now e\<rparr>) d))"

definition unclaim_task :: "env \<Rightarrow> db \<Rightarrow> id \<Rightarrow> string \<Rightarrow> id \<Rightarrow> op_result" where
  "unclaim_task e d ch ref u =
     (case unclaim_check e d ch ref u of
        Some err \<Rightarrow> fail d err
      | None \<Rightarrow>
          (case unclaim_write e d ch ref of
             None \<Rightarrow> fail d ErrDatabase
           | Some d' \<Rightarrow> refetch e d' ch ref u (\<lambda>_. [])))"

section \<open>Submit and review without a contract\<close>

definition open_subtasks :: "db \<Rightarrow> id \<Rightarrow> nat" where
  "open_subtasks d tid =
     count_rows (\<lambda>t. t_parent t = Some tid \<and> \<not> (t_status t = TaskStatusDone \<or> t_status t = TaskStatusClosed))
       (tasks d)"

definition submit_effects :: "env \<Rightarrow> id \<Rightarrow> task_view \<Rightarrow> effect list" where
  "submit_effects e u v =
     notify e (NotifyReviewReady (t_id (v_row v)) u) @
     (if t_parent (v_row v) = None \<and> gen_artifact e \<noteq> None
      then [GenerateArtifact (t_id (v_row v)) u] else [])"

definition generated_status :: "env \<Rightarrow> id \<Rightarrow> task_view \<Rightarrow> task_view" where
  "generated_status e u v =
     (case gen_artifact e of
        None \<Rightarrow> v
      | Some g \<Rightarrow>
          if t_parent (v_row v) \<noteq> None then v
          else
            (case g (t_id (v_row v)) u of
               None \<Rightarrow> v
             | Some st \<Rightarrow> if st = [] then v else v\<lparr>v_artifact_status := st\<rparr>))"

definition submit_task :: "env \<Rightarrow> db \<Rightarrow> id \<Rightarrow> string \<Rightarrow> id \<Rightarrow> op_result" where
  "submit_task e d ch ref u =
     (case get_task e d ch ref u of
        Inl err \<Rightarrow> fail d err
      | Inr v \<Rightarrow>
     (let tid = t_id (v_row v) in
      case find (\<lambda>t. t_id t = tid \<and> t_channel t = Some ch) (tasks d) of
        None \<Rightarrow> fail d ErrTaskNotFound
      | Some t \<Rightarrow>
          if t_contract t \<noteq> None then fail d ErrTaskContractRequired
          else if coalesce (t_claimer t) \<noteq> u then fail d ErrTaskNotClaimer
          else if t_status t \<noteq> TaskStatusInProgress then fail d ErrTaskNotSubmittable
          else if open_subtasks d tid > 0 then fail d ErrTaskHasOpenSubtasks
          else
            (case update_task tid (\<lambda>_. True)
                    (\<lambda>r. r\<lparr>t_status := TaskStatusInReview, t_updated := now e\<rparr>) d of
               None \<Rightarrow> fail d ErrDatabase
             | Some (d', _) \<Rightarrow>
                 (case get_task e d' ch tid u of
                    Inl err \<Rightarrow> (d', Inl err, [])
                  | Inr v' \<Rightarrow> (d', Inr (generated_status e u v'), submit_effects e u v')))))"

definition latest_artifact :: "db \<Rightarrow> id \<Rightarrow> id option" where
  "latest_artifact d tid =
     (case sort_key (\<lambda>x. - art_updated x)
             (filter (\<lambda>x. art_task x = tid \<and> coalesce (art_summary x) \<noteq> ''pending'') (artifacts d)) of
        [] \<Rightarrow> None
      | x # _ \<Rightarrow> Some (art_id x))"

definition review_task ::
    "env \<Rightarrow> db \<Rightarrow> id \<Rightarrow> string \<Rightarrow> id \<Rightarrow> task_status \<Rightarrow> string \<Rightarrow> string \<Rightarrow> (task_view \<Rightarrow> effect list)
       \<Rightarrow> op_result" where
  "review_task e d ch ref u status decision reason effs =
     (case require_channel_member d ch u of
        Some err \<Rightarrow> fail d err
      | None \<Rightarrow>
     (case uuid_parse e ref of
        None \<Rightarrow> fail d ErrDatabase
      | Some tid \<Rightarrow>
     (case find (\<lambda>t. t_id t = tid \<and> t_channel t = Some ch) (tasks d) of
        None \<Rightarrow> fail d ErrTaskNotFound
      | Some t \<Rightarrow>
          if t_contract t \<noteq> None then fail d ErrTaskContractRequired
          else if t_creator t \<noteq> u then fail d ErrTaskNotCreator
          else if t_status t \<noteq> TaskStatusInReview then fail d ErrTaskNotReviewable
          else
            (case update_task tid (\<lambda>r. t_channel r = Some ch)
                    (\<lambda>r. r\<lparr>t_status := status, t_updated := now e\<rparr>) d of
               None \<Rightarrow> fail d ErrDatabase
             | Some (d', _) \<Rightarrow>
                 refetch e
                   (d'\<lparr>reviews := reviews d' @
                      [\<lparr>r_task = tid, r_reviewer = u, r_decision = decision, r_reason = reason,
                        r_artifact = latest_artifact d tid,
                        r_next_owner =
                          (if decision = ''rejected'' then nullable (coalesce (t_claimer t)) else None),
                        r_submission = None, r_evidence = [], r_checks = [], r_key = None, r_hash = None\<rparr>]\<rparr>)
                   ch ref u effs))))"

definition accept_task :: "env \<Rightarrow> db \<Rightarrow> id \<Rightarrow> string \<Rightarrow> id \<Rightarrow> op_result" where
  "accept_task e d ch ref u =
     review_task e d ch ref u TaskStatusDone ''accepted'' []
       (\<lambda>v. notify e (NotifyAccepted (t_id (v_row v)) u))"

definition reject_task :: "env \<Rightarrow> db \<Rightarrow> id \<Rightarrow> string \<Rightarrow> id \<Rightarrow> string \<Rightarrow> op_result" where
  "reject_task e d ch ref u reason0 =
     (let reason = trim_space reason0 in
      if reason = [] then fail d ErrTaskReasonRequired
      else review_task e d ch ref u TaskStatusInProgress ''rejected'' reason
             (\<lambda>v. notify e (NotifyRejected (t_id (v_row v)) u reason)))"

section \<open>Close and reopen\<close>

definition set_task_status :: "env \<Rightarrow> db \<Rightarrow> id \<Rightarrow> id \<Rightarrow> id \<Rightarrow> task_status \<Rightarrow> effect list \<Rightarrow> op_result" where
  "set_task_status e d ch tid u status effs =
     (case require_channel_member d ch u of
        Some err \<Rightarrow> fail d err
      | None \<Rightarrow>
          (case update_task tid (\<lambda>r. t_channel r = Some ch)
                  (\<lambda>r. r\<lparr>t_status := status, t_updated := now e\<rparr>) d of
             None \<Rightarrow> fail d ErrDatabase
           | Some (d', n) \<Rightarrow>
               if n = 0 then fail d ErrTaskNotFound else refetch e d' ch tid u (\<lambda>_. effs)))"

definition close_task :: "env \<Rightarrow> db \<Rightarrow> id \<Rightarrow> string \<Rightarrow> id \<Rightarrow> op_result" where
  "close_task e d ch ref u =
     (case get_task e d ch ref u of
        Inl err \<Rightarrow> fail d err
      | Inr v \<Rightarrow>
          if is_agent_actor d u then fail d ErrTaskHumanOnly
          else if t_status (v_row v) = TaskStatusClosed then fail d ErrTaskInTerminalState
          else set_task_status e d ch (t_id (v_row v)) u TaskStatusClosed
                 (notify e (NotifyClosed (t_id (v_row v)) u)))"

definition reopen_task :: "env \<Rightarrow> db \<Rightarrow> id \<Rightarrow> string \<Rightarrow> id \<Rightarrow> op_result" where
  "reopen_task e d ch ref u =
     (case get_task e d ch ref u of
        Inl err \<Rightarrow> fail d err
      | Inr v \<Rightarrow>
          if is_agent_actor d u then fail d ErrTaskHumanOnly
          else if t_creator (v_row v) \<noteq> u then fail d ErrTaskNotCreator
          else if t_status (v_row v) \<noteq> TaskStatusClosed \<and> t_status (v_row v) \<noteq> TaskStatusDone
          then fail d ErrTaskInvalidTransition
          else set_task_status e d ch (t_id (v_row v)) u TaskStatusTodo
                 (notify e (NotifyReopened (t_id (v_row v)) u)))"

section \<open>Messages as tasks\<close>

definition truncate_for_title :: "string \<Rightarrow> nat \<Rightarrow> string" where
  "truncate_for_title s n = (if rune_count s \<le> n then s else take_runes n s @ ''...'')"

definition invalid_delivery :: "string \<Rightarrow> task_error" where
  "invalid_delivery msg = ErrTaskDeliveryInvalid msg"

text \<open>
  \<open>messageTask\<close>. Its first half finds or creates the task inside the transaction; the second half
  is the claim, after the caller's \<open>beforeClaim\<close> (the mention window).
\<close>

definition message_task_contract_ok ::
    "env \<Rightarrow> (db \<Rightarrow> id \<Rightarrow> id \<Rightarrow> task_contract \<Rightarrow> task_error + task_contract) \<Rightarrow> db \<Rightarrow> id \<Rightarrow> id \<Rightarrow> string
       \<Rightarrow> id \<Rightarrow> task_contract option \<Rightarrow> task_error + task_contract option" where
  "message_task_contract_ok e vc d ch u sender_type creator contract =
     (case contract of
        None \<Rightarrow> Inr None
      | Some c0 \<Rightarrow>
          (case vc d ch creator c0 of
             Inl err \<Rightarrow> Inl err
           | Inr c \<Rightarrow>
               if u \<noteq> creator \<and>
                  (sender_type \<noteq> ''user'' \<or> gate_kind (gate c) \<noteq> ''human'' \<or>
                   reviewer_id (gate c) \<noteq> creator \<or> human_review_mode (gate c) \<noteq> ''decision'')
               then Inl (invalid_delivery ''initial claim requirements must keep result confirmation with the source user'')
               else if reviewer_id (gate c) = u
               then Inl (invalid_delivery ''the executing Agent cannot review its own delivery'')
               else Inr (Some c)))"

definition message_task_find ::
    "env \<Rightarrow> (db \<Rightarrow> id \<Rightarrow> id \<Rightarrow> task_contract \<Rightarrow> task_error + task_contract) \<Rightarrow> db \<Rightarrow> id \<Rightarrow> id \<Rightarrow> message_row
       \<Rightarrow> bool \<Rightarrow> task_contract option \<Rightarrow> task_error + (db \<times> id \<times> bool)" where
  "message_task_find e vc d ch u m claim contract =
     (case resolve_message_task_id d ch (msg_id m) of
        Inl err \<Rightarrow> Inl err
      | Inr None \<Rightarrow>
          (let creator = (if claim \<and> (msg_sender_type m = ''user'' \<or> msg_sender_type m = ''agent'')
                          then msg_sender m else u) in
           case message_task_contract_ok e vc d ch u (msg_sender_type m) creator contract of
             Inl err \<Rightarrow> Inl err
           | Inr contract' \<Rightarrow>
               (case insert_task
                       \<lparr>t_id = fresh e, t_number = next_task_number d (Some ch), t_channel = Some ch,
                        t_creator = creator, t_title = truncate_for_title (msg_content m) 500,
                        t_description = Some (msg_content m), t_status = TaskStatusTodo,
                        t_claimer = None, t_priority = ''none'', t_due = None,
                        t_message = Some (msg_id m), t_parent = None, t_created = now e,
                        t_updated = now e, t_version = 1, t_contract = contract',
                        t_submission = None\<rparr> d of
                  Inl _ \<Rightarrow> Inl ErrDatabase
                | Inr d' \<Rightarrow> Inr (d', fresh e, True)))
      | Inr (Some tid) \<Rightarrow>
          (case contract of
             None \<Rightarrow> Inr (d, tid, False)
           | Some c0 \<Rightarrow>
               (case row_by t_id tid (tasks d) of
                  None \<Rightarrow> Inl ErrDatabase
                | Some t \<Rightarrow>
                    (case vc d ch (t_creator t) c0 of
                       Inl err \<Rightarrow> Inl err
                     | Inr c \<Rightarrow>
                         (case t_contract t of
                            None \<Rightarrow> Inl ErrTaskVersionConflict
                          | Some existing \<Rightarrow>
                              if hash_contract e existing \<noteq> hash_contract e c
                              then Inl ErrTaskVersionConflict
                              else Inr (d, tid, False))))))"

definition message_task ::
    "env \<Rightarrow> (db \<Rightarrow> id \<Rightarrow> id \<Rightarrow> task_contract \<Rightarrow> task_error + task_contract) \<Rightarrow> db \<Rightarrow> id \<Rightarrow> string \<Rightarrow> id
       \<Rightarrow> bool \<Rightarrow> (id \<Rightarrow> task_error option) \<Rightarrow> task_contract option \<Rightarrow> op_result \<times> bool" where
  "message_task e vc d ch mref u claim before_claim contract =
     (case require_channel_member d ch u of
        Some err \<Rightarrow> (fail d err, False)
      | None \<Rightarrow>
     (case resolve_task_message_id e d ch mref of
        Inl err \<Rightarrow> (fail d err, False)
      | Inr mid \<Rightarrow>
     (case find (\<lambda>x. msg_id x = mid \<and> \<not> msg_deleted x) (messages d) of
        None \<Rightarrow> (fail d ErrDatabase, False)
      | Some m \<Rightarrow>
     if blank (msg_content m)
     then (fail d (invalid_delivery ''an empty source message needs an explicit task title''), False) else
     (case message_task_find e vc d ch u m claim contract of
        Inl err \<Rightarrow> (fail d err, False)
      | Inr (d1, tid, created) \<Rightarrow>
     (case (if \<not> claim then Inr d1
            else (case before_claim tid of
                    Some err \<Rightarrow> Inl err
                  | None \<Rightarrow> claim_task_tx e d1 ch tid u)) of
        Inl err \<Rightarrow> (fail d err, False)
      | Inr d2 \<Rightarrow> (refetch e d2 ch tid u (\<lambda>_. []), created))))))"

section \<open>Update, delete, complete\<close>

definition update_task_request ::
    "env \<Rightarrow> (db \<Rightarrow> id \<Rightarrow> id \<Rightarrow> task_contract \<Rightarrow> task_error + task_contract) \<Rightarrow> db \<Rightarrow> id \<Rightarrow> string \<Rightarrow> id
       \<Rightarrow> task_update_request \<Rightarrow> op_result" where
  "update_task_request e vc d ch ref u req =
     (case require_channel_member d ch u of
        Some err \<Rightarrow> fail d err
      | None \<Rightarrow>
     (case get_task e d ch ref u of
        Inl err \<Rightarrow> fail d err
      | Inr v \<Rightarrow>
     (let cur = v_row v; contracted = (t_contract cur \<noteq> None \<or> up_contract req \<noteq> None) in
      if contracted \<and> terminal_statuses (t_status cur)
      then fail d (invalid_delivery ''reopen a finished task before changing its requirements or scope'')
      else if contracted \<and> t_creator cur \<noteq> u then fail d ErrTaskNotCreator
      else if contracted \<and> up_expected_version req \<noteq> t_version cur then fail d ErrTaskVersionConflict
      else
     (case (case up_contract req of None \<Rightarrow> Inr (t_contract cur)
                                  | Some c \<Rightarrow> map_sum id Some (vc d ch u c)) of
        Inl err \<Rightarrow> fail d err
      | Inr contract \<Rightarrow>
      if up_status req \<noteq> None \<and> up_status req \<noteq> Some [] then fail d ErrTaskLifecyclePatch
      else
        (case update_task (t_id cur) (\<lambda>r. t_channel r = Some ch \<and> t_version r = t_version cur)
                (\<lambda>r. r\<lparr>t_title := (case up_title req of None \<Rightarrow> t_title cur | Some x \<Rightarrow> x),
                       t_description :=
                         nullable (case up_description req of None \<Rightarrow> coalesce (t_description cur) | Some x \<Rightarrow> x),
                       t_status := t_status cur,
                       t_priority := (case up_priority req of None \<Rightarrow> t_priority cur | Some x \<Rightarrow> x),
                       t_due := (case up_due req of None \<Rightarrow> t_due cur | Some x \<Rightarrow> Some x),
                       t_updated := now e, t_contract := contract\<rparr>) d of
           None \<Rightarrow> fail d ErrDatabase
         | Some (d', n) \<Rightarrow>
             if n = 0 then fail d ErrTaskVersionConflict
             else refetch e d' ch (t_id cur) u (\<lambda>_. []))))))"

definition delete_task :: "env \<Rightarrow> db \<Rightarrow> id \<Rightarrow> string \<Rightarrow> id \<Rightarrow> task_error + db" where
  "delete_task e d ch ref u =
     (case require_channel_member d ch u of
        Some err \<Rightarrow> Inl err
      | None \<Rightarrow>
     (case uuid_parse e ref of
        None \<Rightarrow> Inl ErrDatabase
      | Some tid \<Rightarrow>
          if exists_row (\<lambda>t. t_id t = tid \<and> t_channel t = Some ch) (tasks d)
          then Inr (delete_task_rows tid d)
          else Inl ErrTaskNotFound))"

definition complete_task_for_agent :: "env \<Rightarrow> db \<Rightarrow> id \<Rightarrow> task_error + db" where
  "complete_task_for_agent e d tid =
     (case update_task tid
             (\<lambda>r. (t_status r = TaskStatusInProgress \<or> t_status r = TaskStatusTodo) \<and> t_contract r = None)
             (\<lambda>r. r\<lparr>t_status := TaskStatusInReview, t_updated := now e\<rparr>) d of
        None \<Rightarrow> Inl ErrDatabase
      | Some (d', _) \<Rightarrow> Inr d')"

end
