(* ===== verification/Task_Delivery.thy ===== *)
theory Task_Delivery
  imports Task_Lifecycle
begin

text \<open>
  \<open>service/task_delivery.go\<close>: the validation of a contract, of evidence and of a review's checks,
  and the two operations of a contracted task, \<open>SubmitDelivery\<close> and \<open>ReviewDelivery\<close>.
\<close>

section \<open>Identifiers of requests\<close>

text \<open>\<open>deliveryID\<close>: \<open>^[A-Za-z0-9][A-Za-z0-9_.:-]{0,127}$\<close>; \<open>deliveryDigest\<close>: 64 hexadecimal digits;
  \<open>agent.FullGitCommit\<close>: 40 lower-case ones.\<close>

definition delivery_id :: "string \<Rightarrow> bool" where
  "delivery_id s =
     (case s of
        [] \<Rightarrow> False
      | c # r \<Rightarrow>
          (is_alpha c \<or> is_digit c) \<and> length r \<le> 127 \<and>
          list_all (\<lambda>x. is_alpha x \<or> is_digit x \<or> x \<in> set ''_.:-'') r)"

definition delivery_digest :: "string \<Rightarrow> bool" where
  "delivery_digest s \<longleftrightarrow> length s = 64 \<and> list_all is_hex s"

definition full_git_commit :: "string \<Rightarrow> bool" where
  "full_git_commit s \<longleftrightarrow> length s = 40 \<and> list_all is_lower_hex s"

text \<open>\<open>strings.EqualFold\<close> on ASCII text.\<close>

definition fold_char :: "char \<Rightarrow> char" where
  "fold_char c = (if between 65 90 c then char_of (of_char c + 32 :: nat) else c)"

definition equal_fold :: "string \<Rightarrow> string \<Rightarrow> bool" where
  "equal_fold a b \<longleftrightarrow> map fold_char a = map fold_char b"

text \<open>\<open>filepath.IsAbs\<close> on the Unix builds, and the NUL byte no path or argument may hold.\<close>

definition is_abs :: "string \<Rightarrow> bool" where
  "is_abs p \<longleftrightarrow> has_prefix ''/'' p"

definition has_nul :: "string \<Rightarrow> bool" where
  "has_nul s \<longleftrightarrow> CHR 0x00 \<in> set s"

section \<open>Contracts\<close>

text \<open>The loop over the requirements: unique ids, nonempty bounded texts.\<close>

fun requirements_ok :: "string list \<Rightarrow> task_requirement list \<Rightarrow> bool" where
  "requirements_ok seen [] = True"
| "requirements_ok seen (r # rs) =
     (delivery_id (rq_id r) \<and> rq_id r \<notin> set seen \<and> \<not> blank (rq_text r) \<and> length (rq_text r) \<le> 4000 \<and>
      requirements_ok (rq_id r # seen) rs)"

text \<open>The loop over the checks of a code gate; \<open>Inr\<close> is the set \<open>covered\<close>.\<close>

fun code_checks :: "string list \<Rightarrow> string list \<Rightarrow> code_gate_check list \<Rightarrow> task_error + string list" where
  "code_checks seen covered [] = Inr covered"
| "code_checks seen covered (c # cs) =
     (if cg_requirement c \<notin> set seen \<or> cg_requirement c \<in> set covered \<or> cg_command c = [] \<or>
         length (cg_command c) > 50
      then Inl (invalid_delivery ''each requirement needs one nonempty code check'')
      else if list_ex (\<lambda>a. length a > 16000 \<or> has_nul a) (cg_command c)
      then Inl (invalid_delivery ''invalid code check argument'')
      else if blank (hd (cg_command c))
      then Inl (invalid_delivery ''check executable is required'')
      else code_checks seen (cg_requirement c # covered) cs)"

definition member_of_kind :: "db \<Rightarrow> id \<Rightarrow> id \<Rightarrow> string \<Rightarrow> bool" where
  "member_of_kind d ch u kind \<longleftrightarrow>
     exists_row (\<lambda>m. m_channel m = ch \<and> m_member m = u \<and> m_type m = kind) (members d)"

definition validate_code_gate ::
    "env \<Rightarrow> db \<Rightarrow> id \<Rightarrow> id \<Rightarrow> string list \<Rightarrow> code_gate_spec option \<Rightarrow> task_error + code_gate_spec" where
  "validate_code_gate e d creator reviewer seen code =
     (case code of
        None \<Rightarrow> Inl (invalid_delivery ''code Gate requires a repository and full base commit'')
      | Some spec0 \<Rightarrow>
          if \<not> is_abs (cg_repository spec0) \<or> length (cg_repository spec0) > 4096 \<or>
             has_nul (cg_repository spec0) \<or> \<not> full_git_commit (cg_base_commit spec0)
          then Inl (invalid_delivery ''code Gate requires a repository and full base commit'')
          else
            (let spec = (if cg_timeout spec0 = 0 then spec0\<lparr>cg_timeout := 120\<rparr> else spec0) in
             if cg_timeout spec < 1 \<or> cg_timeout spec > 300
             then Inl (invalid_delivery ''code Gate timeout must be 1-300 seconds'')
             else if \<not> exists_row (\<lambda>a. a_id a = reviewer \<and> a_owner a = creator \<and> a_active a) (agents d)
             then Inl (invalid_delivery ''only the Reviewer Agent owner can authorize code Gate commands'')
             else
               (case code_checks seen [] (cg_checks spec) of
                  Inl err \<Rightarrow> Inl err
                | Inr covered \<Rightarrow>
                    if length covered \<noteq> length seen
                    then Inl (invalid_delivery ''every requirement needs a configured code check'')
                    else Inr spec)))"

text \<open>
  \<open>validateTaskContract\<close> on a contract that is present. It fills in the defaults: the creator as a
  human gate's reviewer, three revisions, a timeout of 120 seconds.
\<close>

definition gate_shape_ok :: "task_gate \<Rightarrow> task_error option" where
  "gate_shape_ok g =
     (if human_review_mode g \<noteq> [] \<and> (gate_kind g \<noteq> ''human'' \<or> human_review_mode g \<noteq> ''decision'')
      then Some (invalid_delivery ''human_review_mode decision is only valid for a human Gate'')
      else if gate_kind g \<noteq> ''human'' \<and> gate_kind g \<noteq> ''agent'' \<and> gate_kind g \<noteq> ''code''
      then Some (invalid_delivery ''gate kind must be human, agent, or code'')
      else None)"

definition validate_task_contract ::
    "env \<Rightarrow> db \<Rightarrow> id \<Rightarrow> id \<Rightarrow> task_contract \<Rightarrow> task_error + task_contract" where
  "validate_task_contract e d ch creator c =
     (if requirements c = [] \<or> length (requirements c) > 50
      then Inl (invalid_delivery ''1-50 requirements are required'')
      else if \<not> requirements_ok [] (requirements c)
      then Inl (invalid_delivery ''requirements need unique IDs and nonempty text'')
      else
     (case gate_shape_ok (gate c) of
        Some err \<Rightarrow> Inl err
      | None \<Rightarrow>
     (let g0 = gate c;
          g1 = (if reviewer_id g0 = [] \<and> gate_kind g0 = ''human''
                then g0\<lparr>reviewer_id := creator\<rparr> else g0);
          seen = map rq_id (requirements c) in
      case uuid_parse e (reviewer_id g1) of
        None \<Rightarrow> Inl (invalid_delivery ''reviewer_id must be a UUID'')
      | Some reviewer \<Rightarrow>
     (let g2 = (if max_revisions g1 = 0 then g1\<lparr>max_revisions := 3\<rparr> else g1) in
      if max_revisions g2 < 1 \<or> max_revisions g2 > 20
      then Inl (invalid_delivery ''max_revisions must be 1-20'')
      else
     (case (if gate_kind g2 = ''code''
            then map_sum id (\<lambda>spec. g2\<lparr>gate_code := Some spec\<rparr>)
                   (validate_code_gate e d creator reviewer seen (gate_code g2))
            else if gate_code g2 \<noteq> None
            then Inl (invalid_delivery ''code checks require the code Gate'')
            else Inr g2) of
        Inl err \<Rightarrow> Inl err
      | Inr g3 \<Rightarrow>
          if ch = [] then Inl ErrDatabase
          else if \<not> member_of_kind d ch reviewer
                    (if gate_kind g3 = ''agent'' \<or> gate_kind g3 = ''code'' then ''agent'' else ''user'')
          then Inl (invalid_delivery ''reviewer must be a channel member of the selected kind'')
          else Inr (c\<lparr>gate := g3\<rparr>))))))"

section \<open>Evidence\<close>

definition evidence_item_error :: "env \<Rightarrow> task_evidence \<Rightarrow> task_error option" where
  "evidence_item_error e i =
     (if length (ev_content i) > 64000 \<or> length (ev_description i) > 4000 \<or> length (ev_uri i) > 4000
      then Some (invalid_delivery ''evidence is too large'')
      else if ev_content i = [] \<and> (ev_uri i = [] \<or> \<not> delivery_digest (ev_sha256 i))
      then Some (invalid_delivery ''evidence needs inline content or a URI with SHA256'')
      else if ev_sha256 i \<noteq> [] \<and> \<not> delivery_digest (ev_sha256 i)
      then Some (invalid_delivery ''invalid SHA256'')
      else if ev_content i \<noteq> [] \<and> ev_sha256 i \<noteq> [] \<and>
              \<not> equal_fold (ev_sha256 i) (sha256_hex e (ev_content i))
      then Some (invalid_delivery ''evidence content does not match SHA256'')
      else None)"

fun evidence_loop :: "env \<Rightarrow> string list \<Rightarrow> task_evidence list \<Rightarrow> task_error option" where
  "evidence_loop e seen [] = None"
| "evidence_loop e seen (i # is) =
     (if \<not> delivery_id (ev_id i) \<or> ev_id i \<in> set seen \<or> blank (ev_description i)
      then Some (invalid_delivery ''evidence needs unique IDs and a description'')
      else (case evidence_item_error e i of
              Some err \<Rightarrow> Some err
            | None \<Rightarrow> evidence_loop e (ev_id i # seen) is))"

definition validate_evidence :: "env \<Rightarrow> task_evidence list \<Rightarrow> bool \<Rightarrow> task_error option" where
  "validate_evidence e evidence required =
     (if (required \<and> evidence = []) \<or> length evidence > 50
      then Some (invalid_delivery ''1-50 evidence items are required'')
      else evidence_loop e [] evidence)"

section \<open>Submission\<close>

definition handoff_length :: "task_handoff \<Rightarrow> nat" where
  "handoff_length h =
     length (ho_summary h) + length (ho_changes h) + length (ho_risks h) + length (ho_next_steps h)"

definition submit_request_error :: "env \<Rightarrow> task_submit_request \<Rightarrow> task_error option" where
  "submit_request_error e req =
     (if \<not> delivery_id (sub_key req) \<or> sub_expected_version req < 1 \<or> blank (ho_summary (sub_handoff req)) \<or>
         blank (sub_artifact req) \<or> length (sub_artifact req) > 256
      then Some (invalid_delivery ''version, idempotency key, artifact version and handoff summary are required'')
      else if handoff_length (sub_handoff req) > 64000
      then Some (invalid_delivery ''handoff is too large'')
      else validate_evidence e (sub_evidence req) True)"

text \<open>
  \<open>INSERT INTO task_submissions\<close>: the primary key, \<open>UNIQUE(task_id, idempotency_key)\<close> and
  \<open>UNIQUE(task_id, task_version)\<close>.
\<close>

definition insert_submission :: "submission_row \<Rightarrow> db \<Rightarrow> db option" where
  "insert_submission s d =
     (if exists_row (\<lambda>x. s_id x = s_id s \<or> (s_task x = s_task s \<and> (s_key x = s_key s \<or> s_version x = s_version s)))
           (submissions d)
      then None else Some (d\<lparr>submissions := submissions d @ [s]\<rparr>))"

definition insert_delivery :: "review_delivery_row \<Rightarrow> db \<Rightarrow> db option" where
  "insert_delivery x d =
     (if exists_row (\<lambda>y. d_submission y = d_submission x) (deliveries d) then None
      else Some (d\<lparr>deliveries := deliveries d @ [x]\<rparr>))"

definition submit_guard :: "env \<Rightarrow> db \<Rightarrow> task_row \<Rightarrow> task_contract \<Rightarrow> id \<Rightarrow> id \<Rightarrow> task_submit_request \<Rightarrow> task_error option" where
  "submit_guard e d t c actor run req =
     (if t_version t \<noteq> sub_expected_version req then Some ErrTaskVersionConflict
      else if t_status t \<noteq> TaskStatusInProgress then Some ErrTaskNotSubmittable
      else if reviewer_id (gate c) = actor
      then Some (invalid_delivery ''author and reviewer must be different'')
      else if gate_kind (gate c) = ''code'' \<and> \<not> full_git_commit (sub_artifact req)
      then Some (invalid_delivery ''code delivery artifact_version must be a full lowercase Git commit'')
      else if open_subtasks d (t_id t) > 0 then Some ErrTaskHasOpenSubtasks
      else if int (count_rows (\<lambda>s. s_task s = t_id t) (submissions d)) \<ge> max_revisions (gate c)
      then Some ErrTaskReviewLimit
      else if run \<noteq> [] \<and> \<not> exists_row (\<lambda>g. gr_id g = run \<and> gr_agent g = actor) (gate_runs d)
      then Some (invalid_delivery ''run does not belong to submitting agent'')
      else None)"

definition submit_write ::
    "env \<Rightarrow> db \<Rightarrow> task_row \<Rightarrow> task_contract \<Rightarrow> id \<Rightarrow> id \<Rightarrow> task_submit_request \<Rightarrow> db option" where
  "submit_write e d t c actor run req =
     (case insert_submission
             \<lparr>s_id = fresh e, s_task = t_id t, s_by = actor, s_run = nullable run, s_version = t_version t,
              s_contract = c, s_handoff = sub_handoff req, s_artifact = sub_artifact req,
              s_evidence = sub_evidence req, s_key = sub_key req, s_hash = hash_submit e req,
              s_created = now e\<rparr> d of
        None \<Rightarrow> None
      | Some d1 \<Rightarrow>
     (case update_task (t_id t) (\<lambda>_. True)
             (\<lambda>r. r\<lparr>t_status := TaskStatusInReview, t_submission := Some (fresh e), t_updated := now e\<rparr>) d1 of
        None \<Rightarrow> None
      | Some (d2, _) \<Rightarrow>
          if gate_kind (gate c) = ''agent'' \<or> gate_kind (gate c) = ''code''
          then
            (case uuid_parse e (reviewer_id (gate c)) of
               None \<Rightarrow> None
             | Some reviewer \<Rightarrow>
                 insert_delivery \<lparr>d_submission = fresh e, d_reviewer = reviewer, d_run = None,
                                  d_attempts = 0\<rparr> d2)
          else Some d2))"

definition submit_delivery ::
    "env \<Rightarrow> db \<Rightarrow> id \<Rightarrow> string \<Rightarrow> id \<Rightarrow> id \<Rightarrow> task_submit_request \<Rightarrow> op_result" where
  "submit_delivery e d ch ref actor run req =
     (case submit_request_error e req of
        Some err \<Rightarrow> fail d err
      | None \<Rightarrow>
     (case get_task e d ch ref actor of
        Inl err \<Rightarrow> fail d err
      | Inr v \<Rightarrow>
     (let t = v_row v in
      if coalesce (t_claimer t) \<noteq> actor then fail d ErrTaskNotClaimer
      else
     (case t_contract t of
        None \<Rightarrow> fail d ErrTaskContractRequired
      | Some c \<Rightarrow>
     (case find (\<lambda>s. s_task s = t_id t \<and> s_key s = sub_key req \<and> s_by s = actor) (submissions d) of
        Some s \<Rightarrow>
          if s_hash s \<noteq> hash_submit e req then fail d ErrTaskVersionConflict
          else refetch e d ch (t_id t) actor (\<lambda>_. [])
      | None \<Rightarrow>
     (case submit_guard e d t c actor run req of
        Some err \<Rightarrow> fail d err
      | None \<Rightarrow>
     (case submit_write e d t c actor run req of
        None \<Rightarrow> fail d ErrDatabase
      | Some d' \<Rightarrow> refetch e d' ch (t_id t) actor (\<lambda>_. []))))))))"

section \<open>Review\<close>

fun review_checks_loop ::
    "string list \<Rightarrow> string list \<Rightarrow> string \<Rightarrow> string list \<Rightarrow> task_check list \<Rightarrow> task_error + string list" where
  "review_checks_loop reqs known decision seen [] = Inr seen"
| "review_checks_loop reqs known decision seen (k # ks) =
     (if ck_requirement k \<notin> set reqs \<or> ck_requirement k \<in> set seen \<or> blank (ck_reason k) \<or>
         length (ck_reason k) > 4000
      then Inl (invalid_delivery ''checks require known unique requirement IDs and reasons'')
      else if list_ex (\<lambda>i. i \<notin> set known) (ck_evidence k)
      then Inl (invalid_delivery ''check references unknown evidence'')
      else if decision = ''accepted'' \<and> (\<not> ck_passed k \<or> ck_evidence k = [])
      then Inl (invalid_delivery ''acceptance requires passed checks with evidence'')
      else review_checks_loop reqs known decision (ck_requirement k # seen) ks)"

definition validate_review_checks ::
    "task_contract \<Rightarrow> task_evidence list \<Rightarrow> task_review_request \<Rightarrow> task_error option" where
  "validate_review_checks c evidence req =
     (if gate_kind (gate c) = ''human'' \<and> human_review_mode (gate c) = ''decision''
      then (if rv_checks req \<noteq> []
            then Some (invalid_delivery ''a human result decision must not claim technical checks'')
            else None)
      else
        (let known = map ev_id (evidence @ rv_evidence req);
             reqs = map rq_id (requirements c)
         in case review_checks_loop reqs known (rv_decision req) [] (rv_checks req) of
              Inl err \<Rightarrow> Some err
            | Inr seen \<Rightarrow>
                if rv_decision req = ''accepted'' \<and> length seen \<noteq> length (remdups reqs)
                then Some (invalid_delivery ''acceptance must check every requirement'')
                else None))"

definition review_request_error :: "env \<Rightarrow> task_review_request \<Rightarrow> task_error option" where
  "review_request_error e req =
     (if uuid_parse e (rv_submission req) = None
      then Some (invalid_delivery ''submission_id must be a UUID'')
      else if \<not> delivery_id (rv_key req) \<or>
              (rv_decision req \<noteq> ''accepted'' \<and> rv_decision req \<noteq> ''rejected'' \<and> rv_decision req \<noteq> ''needs_human'')
      then Some (invalid_delivery ''decision and idempotency key are required'')
      else if blank (rv_reason req) \<or> length (rv_reason req) > 16000
      then Some (invalid_delivery ''review reason is required (max 16000 bytes)'')
      else validate_evidence e (rv_evidence req) False)"

definition may_review :: "db \<Rightarrow> task_row \<Rightarrow> task_contract \<Rightarrow> id \<Rightarrow> id \<Rightarrow> bool" where
  "may_review d t c sid actor \<longleftrightarrow>
     (reviewer_id (gate c) = actor \<or> (t_creator t = actor \<and> escalated d sid actor)) \<and>
     coalesce (t_claimer t) \<noteq> actor"

text \<open>The code gate's verdict must come from the run that is executing the gate now.\<close>

definition gate_run_valid :: "db \<Rightarrow> id \<Rightarrow> id \<Rightarrow> id \<Rightarrow> bool" where
  "gate_run_valid d sid run actor \<longleftrightarrow>
     exists_row (\<lambda>x. d_submission x = sid \<and> d_run x = Some run \<and>
       exists_row (\<lambda>g. gr_id g = run \<and> gr_agent g = actor \<and> gr_source g = ''code_gate'' \<and> \<not> gr_finished g)
         (gate_runs d)) (deliveries d)"

text \<open>
  \<open>INSERT INTO task_reviews\<close>: \<open>task_reviews_submission_request\<close> (one review for a submission and a
  key) and \<open>task_reviews_submission_final\<close> (one final decision for a submission).
\<close>

definition insert_review :: "review_row \<Rightarrow> db \<Rightarrow> db option" where
  "insert_review r d =
     (if r_submission r \<noteq> None \<and>
         exists_row (\<lambda>x. r_submission x = r_submission r \<and>
           ((r_key r \<noteq> None \<and> r_key x = r_key r) \<or>
            (r_decision r \<in> {''accepted'', ''rejected''} \<and> r_decision x \<in> {''accepted'', ''rejected''})))
           (reviews d)
      then None else Some (d\<lparr>reviews := reviews d @ [r]\<rparr>))"

definition review_guard ::
    "env \<Rightarrow> db \<Rightarrow> task_row \<Rightarrow> task_contract \<Rightarrow> id \<Rightarrow> id \<Rightarrow> task_review_request \<Rightarrow> task_error option" where
  "review_guard e d t c sid actor req =
     (if gate_kind (gate c) = ''code'' \<and> actor = reviewer_id (gate c) \<and>
         (rv_code_gate_run req = [] \<or> \<not> gate_run_valid d sid (rv_code_gate_run req) actor)
      then Some ErrTaskNotReviewer
      else if t_status t \<noteq> TaskStatusInReview \<or> coalesce (t_submission t) \<noteq> rv_submission req
      then Some ErrTaskVersionConflict
      else
        (case find (\<lambda>s. s_id s = sid \<and> s_task s = t_id t) (submissions d) of
           None \<Rightarrow> Some ErrDatabase
         | Some s \<Rightarrow>
             if s_version s + 1 \<noteq> t_version t \<or> s_artifact s \<noteq> rv_artifact req
             then Some ErrTaskVersionConflict
             else validate_review_checks (s_contract s) (s_evidence s) req))"

definition next_status :: "string \<Rightarrow> task_status" where
  "next_status decision =
     (if decision = ''accepted'' then TaskStatusDone
      else if decision = ''rejected'' then TaskStatusInProgress
      else TaskStatusInReview)"

definition review_write ::
    "env \<Rightarrow> db \<Rightarrow> task_row \<Rightarrow> id \<Rightarrow> id \<Rightarrow> task_review_request \<Rightarrow> db option" where
  "review_write e d t sid actor req =
     (case insert_review
             \<lparr>r_task = t_id t, r_reviewer = actor, r_decision = rv_decision req, r_reason = rv_reason req,
              r_artifact = None, r_next_owner = nullable (coalesce (t_claimer t)), r_submission = Some sid,
              r_evidence = rv_evidence req, r_checks = rv_checks req, r_key = Some (rv_key req),
              r_hash = Some (hash_review e req)\<rparr> d of
        None \<Rightarrow> None
      | Some d1 \<Rightarrow>
     (case update_task (t_id t) (\<lambda>_. True)
             (\<lambda>r. r\<lparr>t_status := next_status (rv_decision req), t_updated := now e\<rparr>) d1 of
        None \<Rightarrow> None
      | Some (d2, _) \<Rightarrow>
          Some (d2\<lparr>deliveries := delete_where (\<lambda>x. d_submission x = sid) (deliveries d2)\<rparr>)))"

definition review_delivery ::
    "env \<Rightarrow> db \<Rightarrow> id \<Rightarrow> string \<Rightarrow> id \<Rightarrow> task_review_request \<Rightarrow> op_result" where
  "review_delivery e d ch ref actor req =
     (case review_request_error e req of
        Some err \<Rightarrow> fail d err
      | None \<Rightarrow>
     (case uuid_parse e (rv_submission req) of
        None \<Rightarrow> fail d (invalid_delivery ''submission_id must be a UUID'')
      | Some sid \<Rightarrow>
     (case get_task e d ch ref actor of
        Inl err \<Rightarrow> fail d err
      | Inr v \<Rightarrow>
     (let t = v_row v in
      case t_contract t of
        None \<Rightarrow> fail d ErrTaskContractRequired
      | Some c \<Rightarrow>
     if \<not> may_review d t c sid actor then fail d ErrTaskNotReviewer else
     (case find (\<lambda>r. r_submission r = Some sid \<and> r_key r = Some (rv_key req) \<and> r_reviewer r = actor \<and>
                     r_task r = t_id t) (reviews d) of
        Some r \<Rightarrow>
          if r_hash r \<noteq> Some (hash_review e req) then fail d ErrTaskVersionConflict
          else refetch e d ch (t_id t) actor (\<lambda>_. [])
      | None \<Rightarrow>
     (case review_guard e d t c sid actor req of
        Some err \<Rightarrow> fail d err
      | None \<Rightarrow>
     (case review_write e d t sid actor req of
        None \<Rightarrow> fail d ErrDatabase
      | Some d' \<Rightarrow>
          refetch e d' ch (t_id t) actor
            (\<lambda>_. if rv_decision req = ''rejected''
                 then notify e (NotifyRejected (t_id t) actor (rv_reason req)) else []))))))))"

text \<open>\<open>ListSubmissions\<close>: the submissions of a task, newest first, each with its reviews.\<close>

definition list_submissions ::
    "env \<Rightarrow> db \<Rightarrow> id \<Rightarrow> string \<Rightarrow> id \<Rightarrow> task_error + (submission_row \<times> review_row list) list" where
  "list_submissions e d ch ref actor =
     (case get_task e d ch ref actor of
        Inl err \<Rightarrow> Inl err
      | Inr v \<Rightarrow>
          Inr (map (\<lambda>s. (s, filter (\<lambda>r. r_submission r = Some (s_id s)) (reviews d)))
                 (sort_key (\<lambda>s. - s_created s)
                   (filter (\<lambda>s. s_task s = t_id (v_row v)) (submissions d)))))"

end
