(* ===== verification/Task_Wait.thy ===== *)
theory Task_Wait
  imports Task_Delivery
begin

text \<open>
  \<open>service/task_wait.go\<close>: a task in progress may be parked on another task, a time or an external
  signal. \<open>wait_task\<close> records the wait and refuses one that would close a cycle of dependencies,
  \<open>resolve_task_wait\<close> signals or cancels it, \<open>dispatch_task_wait\<close> resumes the task's agent when the
  condition holds.
\<close>

section \<open>Who may manage a wait\<close>

record wait_owner =
  wo_version :: int
  wo_claimer :: id
  wo_human :: bool

text \<open>\<open>lockTaskWaitOwner\<close>.\<close>

definition active_member_agent :: "db \<Rightarrow> id \<Rightarrow> id \<Rightarrow> agent_row option" where
  "active_member_agent d ch c =
     find (\<lambda>a. a_id a = c \<and> a_active a \<and> member_of_kind d ch (a_id a) ''agent'') (agents d)"

definition lock_task_wait_owner :: "db \<Rightarrow> id \<Rightarrow> id \<Rightarrow> id \<Rightarrow> task_error + wait_owner" where
  "lock_task_wait_owner d ch tid actor =
     (case find (\<lambda>t. t_id t = tid \<and> t_channel t = Some ch \<and> t_status t = TaskStatusInProgress) (tasks d) of
        None \<Rightarrow> Inl ErrTaskNotSubmittable
      | Some t \<Rightarrow>
     (case t_claimer t of
        None \<Rightarrow> Inl ErrTaskNotSubmittable
      | Some c \<Rightarrow>
     (case active_member_agent d ch c of
        None \<Rightarrow> Inl ErrTaskNotSubmittable
      | Some a \<Rightarrow>
          if exists_row (\<lambda>x. ch_id x = ch \<and> \<not> ch_archived x) (channels d)
          then
            (if t_creator t = actor \<or> c = actor \<or> a_owner a = actor
             then Inr \<lparr>wo_version = t_version t, wo_claimer = c,
                       wo_human = (t_creator t = actor \<and> exists_row (\<lambda>x. u_id x = actor) (users d))
                                  \<or> a_owner a = actor\<rparr>
             else Inl ErrTaskNotClaimer)
          else Inl ErrTaskNotSubmittable)))"

section \<open>The dependency graph\<close>

text \<open>
  The recursive query: from a task to the task it waits for, if the wait is of the task's current
  version, and from a parent to each open subtask. \<open>dependencies\<close> is the rows the recursion
  reaches: each round adds the targets it has not seen, until there are none.
\<close>

definition wait_edges :: "env \<Rightarrow> db \<Rightarrow> (id \<times> id) list" where
  "wait_edges e d =
     concat (map (\<lambda>w.
       case uuid_parse e (wc_task (w_condition w)) of
         None \<Rightarrow> []
       | Some target \<Rightarrow>
           if w_status w = Waiting \<and> wc_kind (w_condition w) = ''task_done'' \<and>
              exists_row (\<lambda>t. t_id t = w_task w \<and> t_version t = w_version w) (tasks d)
           then [(w_task w, target)] else []) (waits d))"

definition open_status :: "task_status \<Rightarrow> bool" where
  "open_status s \<longleftrightarrow> s \<noteq> TaskStatusDone \<and> s \<noteq> TaskStatusClosed \<and> s \<noteq> status_cancelled"

definition parent_edges :: "db \<Rightarrow> (id \<times> id) list" where
  "parent_edges d =
     concat (map (\<lambda>t. case t_parent t of
                        None \<Rightarrow> []
                      | Some p \<Rightarrow> if open_status (t_status t) then [(p, t_id t)] else []) (tasks d))"

definition dependency_edges :: "env \<Rightarrow> db \<Rightarrow> (id \<times> id) list" where
  "dependency_edges e d = wait_edges e d @ parent_edges d"

definition new_targets :: "(id \<times> id) list \<Rightarrow> id list \<Rightarrow> id list" where
  "new_targets es seen = remdups (map snd (filter (\<lambda>(a, b). a \<in> set seen \<and> b \<notin> set seen) es))"

function dependencies :: "(id \<times> id) list \<Rightarrow> id list \<Rightarrow> id list" where
  "dependencies es seen =
     (if new_targets es seen = [] then seen else dependencies es (seen @ new_targets es seen))"
  by pat_completeness auto
termination
proof (relation "measure (\<lambda>(es, seen). card (snd ` set es - set seen))", simp)
  fix es :: "(id \<times> id) list" and seen :: "id list"
  assume "new_targets es seen \<noteq> []"
  then obtain b where b: "b \<in> set (new_targets es seen)" by (cases "new_targets es seen") auto
  then have "b \<in> snd ` set es - set seen" "b \<notin> snd ` set es - set (seen @ new_targets es seen)"
    by (force simp: new_targets_def)+
  moreover have "snd ` set es - set (seen @ new_targets es seen) \<subseteq> snd ` set es - set seen" by auto
  ultimately have "snd ` set es - set (seen @ new_targets es seen) \<subset> snd ` set es - set seen" by blast
  then show "((es, seen @ new_targets es seen), es, seen)
               \<in> measure (\<lambda>(es, seen). card (snd ` set es - set seen))"
    by (auto intro!: psubset_card_mono)
qed

declare dependencies.simps [simp del]

lemma new_targets_set: "set (new_targets es seen) = set es `` set seen - set seen"
  by (force simp: new_targets_def)

text \<open>The recursion collects what the edges reach.\<close>

lemma dependencies_reach: "set (dependencies es seen) = (set es)\<^sup>* `` set seen"
proof (induction es seen rule: dependencies.induct)
  case (1 es seen)
  show ?case
  proof (cases "new_targets es seen = []")
    case True
    then have "set es `` set seen \<subseteq> set seen" using new_targets_set [of es seen] by auto
    then have "(set es)\<^sup>* `` set seen = set seen" by (rule Image_closed_trancl)
    with True show ?thesis by (simp add: dependencies.simps [of es seen])
  next
    case False
    have "set seen \<union> set (new_targets es seen) \<subseteq> (set es)\<^sup>* `` set seen"
      unfolding new_targets_set by (auto intro: r_into_rtrancl)
    then have "(set es)\<^sup>* `` (set seen \<union> set (new_targets es seen)) = (set es)\<^sup>* `` set seen"
      by (blast intro: rtrancl_trans)
    with False 1 show ?thesis by (simp add: dependencies.simps [of es seen])
  qed
qed

section \<open>Waiting\<close>

definition wait_condition_error :: "env \<Rightarrow> id \<Rightarrow> task_wait_condition \<Rightarrow> task_error option" where
  "wait_condition_error e tid c =
     (if wc_kind c = ''task_done'' then
        (if uuid_parse e (wc_task c) = None \<or> wc_task c = tid \<or> wc_at c \<noteq> None
         then Some (invalid_delivery ''wait for another Task in the same channel'') else None)
      else if wc_kind c = ''at_time'' then
        (if wc_at c = None \<or> wc_task c \<noteq> []
         then Some (invalid_delivery ''at_time requires an RFC3339 timestamp'') else None)
      else if wc_kind c = ''signal'' then
        (if blank (wc_description c) \<or> wc_task c \<noteq> [] \<or> wc_at c \<noteq> None
         then Some (invalid_delivery ''describe the exact external condition to confirm'') else None)
      else Some (invalid_delivery ''supported wait conditions: task_done, at_time, signal''))"

definition wait_request_error :: "env \<Rightarrow> id \<Rightarrow> task_wait_request \<Rightarrow> task_error option" where
  "wait_request_error e tid req =
     (if wr_expected_version req < 1 \<or> \<not> delivery_id (wr_key req) \<or> blank (ho_summary (wr_handoff req)) \<or>
         blank (wr_next_action req) \<or> length (wr_next_action req) > 8000
      then Some (invalid_delivery ''a current Task version, idempotency key, handoff and next action are required'')
      else if json_length_wait e req > 64000
      then Some (invalid_delivery ''wait context exceeds 64 KB'')
      else wait_condition_error e tid (wr_condition req))"

definition dependency_error :: "env \<Rightarrow> db \<Rightarrow> id \<Rightarrow> id \<Rightarrow> task_wait_condition \<Rightarrow> task_error option" where
  "dependency_error e d ch tid c =
     (if wc_kind c \<noteq> ''task_done'' then None
      else
        (case uuid_parse e (wc_task c) of
           None \<Rightarrow> Some ErrDatabase
         | Some target \<Rightarrow>
             if \<not> exists_row (\<lambda>t. t_id t = target \<and> t_channel t = Some ch \<and>
                   t_status t \<noteq> TaskStatusClosed \<and> t_status t \<noteq> status_cancelled) (tasks d)
             then Some (invalid_delivery ''dependency is unavailable in this channel'')
             else if tid \<in> set (dependencies (dependency_edges e d) [target])
             then Some (invalid_delivery ''this dependency would create a waiting cycle'')
             else None))"

definition new_wait :: "env \<Rightarrow> id \<Rightarrow> wait_owner \<Rightarrow> id \<Rightarrow> task_wait_request \<Rightarrow> wait_row" where
  "new_wait e tid owner actor req =
     \<lparr>w_id = fresh e, w_task = tid, w_version = wo_version owner, w_agent = wo_claimer owner,
      w_condition = wr_condition req, w_handoff = wr_handoff req,
      w_next_action = trim_space (wr_next_action req), w_status = Waiting, w_created_by = actor,
      w_key = wr_key req, w_hash = hash_wait e req, w_fulfillment = None, w_reason = [], w_run = None,
      w_next_attempt = now e, w_last_error = [], w_created = now e\<rparr>"

text \<open>
  \<open>INSERT INTO task_waits\<close>: the primary key, \<open>UNIQUE(task_id, idempotency_key)\<close> and the index
  \<open>task_waits_one_active\<close>.
\<close>

definition insert_wait :: "wait_row \<Rightarrow> db \<Rightarrow> db option" where
  "insert_wait w d =
     (if exists_row (\<lambda>x. w_id x = w_id w \<or> (w_task x = w_task w \<and>
           (w_key x = w_key w \<or> (w_status x = Waiting \<and> w_status w = Waiting)))) (waits d)
      then None else Some (d\<lparr>waits := waits d @ [w]\<rparr>))"

definition wait_task :: "env \<Rightarrow> db \<Rightarrow> id \<Rightarrow> id \<Rightarrow> id \<Rightarrow> task_wait_request \<Rightarrow> task_error + (db \<times> id)" where
  "wait_task e d ch tid actor req =
     (case require_channel_member d ch actor of
        Some err \<Rightarrow> Inl err
      | None \<Rightarrow>
     (case wait_request_error e tid req of
        Some err \<Rightarrow> Inl err
      | None \<Rightarrow>
     (case lock_task_wait_owner d ch tid actor of
        Inl err \<Rightarrow> Inl err
      | Inr owner \<Rightarrow>
     (case find (\<lambda>w. w_task w = tid \<and> w_key w = wr_key req) (waits d) of
        Some w \<Rightarrow> if w_hash w \<noteq> hash_wait e req then Inl ErrTaskVersionConflict else Inr (d, w_id w)
      | None \<Rightarrow>
     if wo_version owner \<noteq> wr_expected_version req then Inl ErrTaskVersionConflict
     else if waiting_on d tid
     then Inl (invalid_delivery ''cancel the existing wait before replacing its condition'')
     else
     (case dependency_error e d ch tid (wr_condition req) of
        Some err \<Rightarrow> Inl err
      | None \<Rightarrow>
     (case insert_wait (new_wait e tid owner actor req) d of
        None \<Rightarrow> Inl ErrDatabase
      | Some d' \<Rightarrow> Inr (d', fresh e)))))))"

section \<open>Resolving\<close>

record wait_resolution =
  rs_wait :: string
  rs_action :: string
  rs_reason :: string

definition set_wait :: "id \<Rightarrow> (wait_row \<Rightarrow> wait_row) \<Rightarrow> db \<Rightarrow> db" where
  "set_wait wid f d = d\<lparr>waits := update_where (\<lambda>w. w_id w = wid) f (waits d)\<rparr>"

definition resolution_replayed :: "wait_row \<Rightarrow> wait_resolution \<Rightarrow> bool" where
  "resolution_replayed w req \<longleftrightarrow>
     w_reason w = rs_reason req \<and>
     ((rs_action req = ''cancel'' \<and> w_status w = Cancelled) \<or>
      (rs_action req = ''signal'' \<and> w_status w = Resumed))"

definition resolve_task_wait :: "env \<Rightarrow> db \<Rightarrow> id \<Rightarrow> id \<Rightarrow> id \<Rightarrow> wait_resolution \<Rightarrow> task_error + db" where
  "resolve_task_wait e d ch tid actor req =
     (case require_channel_member d ch actor of
        Some err \<Rightarrow> Inl err
      | None \<Rightarrow>
     (if uuid_parse e (rs_wait req) = None \<or> blank (rs_reason req) \<or> length (rs_reason req) > 8000 \<or>
         (rs_action req \<noteq> ''signal'' \<and> rs_action req \<noteq> ''cancel'')
      then Inl (invalid_delivery ''wait_id, signal/cancel action and supporting reason are required'')
      else
     (case lock_task_wait_owner d ch tid actor of
        Inl err \<Rightarrow> Inl err
      | Inr owner \<Rightarrow>
     (case find (\<lambda>w. Some (w_id w) = uuid_parse e (rs_wait req) \<and> w_task w = tid) (waits d) of
        None \<Rightarrow> Inl ErrTaskNotFound
      | Some w \<Rightarrow>
          if rs_action req = ''signal'' \<and> (\<not> wo_human owner \<or> wc_kind (w_condition w) \<noteq> ''signal'')
          then Inl ErrTaskHumanOnly
          else if w_status w \<noteq> Waiting
          then (if resolution_replayed w req then Inr d else Inl ErrTaskVersionConflict)
          else if wo_version owner \<noteq> w_version w then Inl ErrTaskVersionConflict
          else if rs_action req = ''cancel'' then Inr (set_wait (w_id w) (cancel_wait (rs_reason req)) d)
          else if w_fulfillment w \<noteq> None
          then (if w_reason w = rs_reason req then Inr d else Inl ErrTaskVersionConflict)
          else Inr (set_wait (w_id w)
                      (\<lambda>x. x\<lparr>w_fulfillment := Some (Confirmed actor (rs_reason req) (now e)),
                             w_reason := rs_reason req, w_next_attempt := now e\<rparr>) d)))))"

section \<open>Resuming\<close>

text \<open>
  What \<open>dispatchTaskWait\<close> asks of other parts: whether the wait is at the head of the agent's inbox
  (the view \<open>agent_inbox_heads\<close>), whether the advisory lock on the agent's work is free, the daemon
  of the agent, the thread of a message, and the run \<open>startRunTx\<close> opens.
\<close>

record dispatch_env =
  inbox_head :: "id \<Rightarrow> id \<Rightarrow> bool"
  work_lock_free :: "id \<Rightarrow> bool"
  daemon_for :: "id \<Rightarrow> string + id"
  thread_for :: "id \<Rightarrow> string + id"
  start_run :: "id \<Rightarrow> id option"

definition seconds30 :: time where
  "seconds30 = 30 * 10 ^ 9"

definition agent_busy :: "db \<Rightarrow> id \<Rightarrow> bool" where
  "agent_busy d a \<longleftrightarrow> exists_row (\<lambda>g. gr_agent g = a \<and> \<not> gr_finished g) (gate_runs d)"

definition dependency_row :: "env \<Rightarrow> db \<Rightarrow> wait_row \<Rightarrow> task_row option" where
  "dependency_row e d w =
     (case uuid_parse e (wc_task (w_condition w)) of None \<Rightarrow> None | Some t \<Rightarrow> row_by t_id t (tasks d))"

text \<open>The evidence the condition holds now, or none.\<close>

definition wait_evidence :: "env \<Rightarrow> db \<Rightarrow> wait_row \<Rightarrow> wait_fulfillment option" where
  "wait_evidence e d w =
     (let c = w_condition w in
      if wc_kind c = ''task_done'' then
        (case dependency_row e d w of
           None \<Rightarrow> None
         | Some t \<Rightarrow> if t_status t = TaskStatusDone
                    then Some (DependencyDone (t_id t) (t_version t) (t_submission t)) else None)
      else if wc_kind c = ''at_time'' then
        (case wc_at c of None \<Rightarrow> None | Some at \<Rightarrow> if at \<le> now e then Some (TimeReached at (now e)) else None)
      else if wc_kind c = ''signal'' then w_fulfillment w
      else None)"

definition wait_ready :: "env \<Rightarrow> dispatch_env \<Rightarrow> db \<Rightarrow> wait_row \<Rightarrow> bool" where
  "wait_ready e x d w \<longleftrightarrow>
     w_status w = Waiting \<and> w_next_attempt w \<le> now e \<and>
     exists_row (\<lambda>t. t_id t = w_task w \<and> t_version t = w_version w \<and> t_status t = TaskStatusInProgress \<and>
        t_claimer t = Some (w_agent w) \<and>
        (case t_channel t of None \<Rightarrow> False
         | Some ch \<Rightarrow> exists_row (\<lambda>c. ch_id c = ch \<and> \<not> ch_archived c) (channels d))) (tasks d) \<and>
     wait_evidence e d w \<noteq> None \<and>
     \<not> agent_busy d (w_agent w) \<and>
     inbox_head x (w_agent w) (w_id w)"

definition next_ready_wait :: "env \<Rightarrow> dispatch_env \<Rightarrow> db \<Rightarrow> wait_row option" where
  "next_ready_wait e x d =
     (case sort_key w_next_attempt (sort_key w_created (filter (wait_ready e x d) (waits d))) of
        [] \<Rightarrow> None
      | w # _ \<Rightarrow> Some w)"

definition postpone_wait :: "env \<Rightarrow> id \<Rightarrow> string \<Rightarrow> db \<Rightarrow> db" where
  "postpone_wait e wid cause d =
     set_wait wid (\<lambda>w. w\<lparr>w_last_error := cause, w_next_attempt := now e + seconds30\<rparr>) d"

text \<open>
  One poll: the database it leaves and whether it did work. A dependency must be in the wait's own
  channel when it is read again under its lock; a missing agent, daemon or thread postpones the
  wait; a run that cannot be started aborts the poll.
\<close>

definition dispatch_task_wait :: "env \<Rightarrow> dispatch_env \<Rightarrow> db \<Rightarrow> task_error + (db \<times> bool)" where
  "dispatch_task_wait e x d =
     (case next_ready_wait e x d of
        None \<Rightarrow> Inr (d, False)
      | Some w \<Rightarrow>
     (case row_by t_id (w_task w) (tasks d) of
        None \<Rightarrow> Inr (d, False)
      | Some t \<Rightarrow>
     if wc_kind (w_condition w) = ''task_done'' \<and>
        (case dependency_row e d w of None \<Rightarrow> True | Some dep \<Rightarrow> t_channel dep \<noteq> t_channel t)
     then Inr (d, False)
     else if \<not> work_lock_free x (w_agent w) then Inr (d, False)
     else if agent_busy d (w_agent w) then Inr (d, False)
     else if \<not> inbox_head x (w_agent w) (w_id w) then Inr (d, False)
     else if active_member_agent d (coalesce (t_channel t)) (w_agent w) = None
     then Inr (postpone_wait e (w_id w) ''responsible Agent unavailable'' d, True)
     else
     (case daemon_for x (w_agent w) of
        Inl cause \<Rightarrow> Inr (postpone_wait e (w_id w) cause d, True)
      | Inr dmn \<Rightarrow>
     (case (case t_message t of None \<Rightarrow> Inr [] | Some m \<Rightarrow> thread_for x m) of
        Inl cause \<Rightarrow> Inr (postpone_wait e (w_id w) cause d, True)
      | Inr thread \<Rightarrow>
     (case start_run x (w_agent w) of
        None \<Rightarrow> Inl ErrDatabase
      | Some rid \<Rightarrow>
          Inr (set_wait (w_id w)
                 (\<lambda>y. y\<lparr>w_status := Resumed, w_run := Some rid, w_fulfillment := wait_evidence e d w,
                        w_last_error := []\<rparr>)
                 (d\<lparr>gate_runs := gate_runs d @
                     [\<lparr>gr_id = rid, gr_agent = w_agent w, gr_source = [], gr_finished = False\<rparr>]\<rparr>),
               True))))))"

end
