(* ===== verification/Task_Invariant.thy ===== *)
theory Task_Invariant
  imports Task_Wait
begin

text \<open>
  The invariant of the task tables, and that every operation of \<open>task.go\<close>, \<open>task_delivery.go\<close> and
  \<open>task_wait.go\<close> keeps it. The operations that read and write in separate statements
  (\<open>UnclaimTask\<close>, \<open>CloseTask\<close>, \<open>ReopenTask\<close>) enter the machine by their write alone, so every
  interleaving of their two halves with other requests is a run of it.
\<close>

section \<open>One row of a table is replaced\<close>

lemma set_update_row:
  "r \<in> set t \<Longrightarrow> key r = k \<Longrightarrow>
   set (update_where (\<lambda>x. key x = k) (\<lambda>_. new) t) = insert new {x \<in> set t. key x \<noteq> k}"
  by (auto simp: update_where_def)

lemma keyed_update_row:
  "key new = k \<Longrightarrow> keyed key (update_where (\<lambda>x. key x = k) (\<lambda>_. new) t) \<longleftrightarrow> keyed key t"
proof -
  assume "key new = k"
  then have "map key (update_where (\<lambda>x. key x = k) (\<lambda>_. new) t) = map key t"
    by (auto simp: update_where_def)
  then show ?thesis by (simp add: keyed_def)
qed

text \<open>An UPDATE of a task that succeeded: no row met it, or one row did and the triggers ran on it.\<close>

definition row_updated ::
    "id \<Rightarrow> (task_row \<Rightarrow> bool) \<Rightarrow> (task_row \<Rightarrow> task_row) \<Rightarrow> db \<Rightarrow> db \<Rightarrow> task_row \<Rightarrow> task_row \<Rightarrow> bool" where
  "row_updated tid g f d d' old new \<longleftrightarrow>
     row_by t_id tid (tasks d) = Some old \<and> old \<in> set (tasks d) \<and> t_id old = tid \<and> g old \<and>
     bump_task_version d old (f old) = Some new \<and>
     d' = d\<lparr>tasks := update_where (\<lambda>r. t_id r = tid) (\<lambda>_. new) (tasks d),
            waits := invalidate_task_wait old new (waits d)\<rparr>"

lemma update_task_row:
  assumes "row_by t_id tid (tasks d) = Some old" "g old" "bump_task_version d old (f old) = Some new"
    "update_task tid g f d = Some (d', n)"
  shows "row_updated tid g f d d' old new \<and> n = 1"
  using assms row_by_in [OF assms(1)] row_by_key [OF assms(1)]
  by (simp add: update_task_def row_updated_def)

lemma update_task_result:
  assumes "update_task tid g f d = Some (d', n)"
  shows "(d' = d \<and> n = 0) \<or> (\<exists>old new. row_updated tid g f d d' old new \<and> n = 1)"
proof (cases "row_by t_id tid (tasks d)")
  case None
  with assms show ?thesis by (simp add: update_task_def)
next
  case old: (Some old)
  consider "\<not> g old" | "bump_task_version d old (f old) = None"
    | new where "g old" "bump_task_version d old (f old) = Some new"
    by (cases "g old"; cases "bump_task_version d old (f old)") simp_all
  then show ?thesis
  proof cases
    case 1
    with old assms show ?thesis by (simp add: update_task_def)
  next
    case 2
    with old assms show ?thesis by (simp add: update_task_def split: if_split_asm)
  next
    case 3
    from update_task_row [OF old 3 assms] show ?thesis by (intro disjI2 exI)
  qed
qed

lemma update_task_cases:
  assumes "update_task tid g f d = Some (d', n)"
  obtains (none) "d' = d" "n = 0" | (row) old new where "row_updated tid g f d d' old new" "n = 1"
  using update_task_result [OF assms] by (metis none row)

section \<open>What the version trigger does\<close>

text \<open>
  The row that leaves the trigger: the new row at its version, or, when a contracted task in review
  changed its scope, that row back at work with no submission.
\<close>

definition bumped :: "task_row \<Rightarrow> task_row \<Rightarrow> task_row" where
  "bumped old new =
     new\<lparr>t_version := (if same_scope new old \<and> t_status new = t_status old then t_version old
                      else t_version old + 1)\<rparr>"

lemma bump_cases:
  assumes "bump_task_version d old new = Some r"
  obtains (plain) "r = bumped old new"
      "t_contract new \<noteq> None \<Longrightarrow> t_status old = TaskStatusInReview \<Longrightarrow> same_scope new old"
      "t_contract new \<noteq> None \<Longrightarrow> t_status new = TaskStatusDone \<Longrightarrow> t_status old \<noteq> TaskStatusDone \<Longrightarrow>
         accepted_current d (t_version old) r"
  | (reset) st where "r = (bumped old new)\<lparr>t_status := st, t_submission := None\<rparr>"
      "st = TaskStatusTodo \<or> st = TaskStatusInProgress" "\<not> same_scope new old"
      "t_status old = TaskStatusInReview"
proof (cases "t_contract new \<noteq> None \<and> t_status old = TaskStatusInReview \<and> \<not> same_scope new old")
  case True
  then show ?thesis
    using assms reset [of "if t_claimer new = None then TaskStatusTodo else TaskStatusInProgress"]
    by (simp add: bump_task_version_def bumped_def split: if_split_asm)
next
  case False
  have acc: "accepted_current d v (new\<lparr>t_version := x\<rparr>) = accepted_current d v new" for v x
    by (simp add: accepted_current_def cong: option.case_cong)
  let ?b = "bumped old new"
  have b: "t_contract ?b = t_contract new" "t_status ?b = t_status new" for x
    by (simp_all add: bumped_def)
  from False assms
  have r: "r = ?b"
      "\<not> (t_contract ?b \<noteq> None \<and> t_status ?b = TaskStatusDone \<and> t_status old \<noteq> TaskStatusDone
         \<and> \<not> accepted_current d (t_version old) ?b)"
    by (simp_all only: bump_task_version_def bumped_def [symmetric] Let_def if_False
          option.inject option.distinct simp_thms split: if_split_asm)
  show ?thesis
    by (rule plain) (use r False b in simp_all)
qed

lemma bump_keeps:
  assumes "bump_task_version d old new = Some r"
  shows "t_id r = t_id new \<and> t_channel r = t_channel new \<and> t_number r = t_number new \<and>
         t_message r = t_message new \<and> t_contract r = t_contract new \<and> t_claimer r = t_claimer new \<and>
         t_parent r = t_parent new \<and> t_creator r = t_creator new \<and> same_scope r old = same_scope new old"
  using assms by (elim bump_cases) (simp_all add: same_scope_def bumped_def)

lemma bump_version:
  assumes "bump_task_version d old new = Some r"
  shows "t_version r = (if same_scope new old \<and> t_status new = t_status old then t_version old
                        else t_version old + 1)"
  using assms by (elim bump_cases) (simp_all add: bumped_def)

lemma bump_review:
  assumes "bump_task_version d old new = Some r" "t_contract new \<noteq> None" "t_status r = TaskStatusInReview"
  shows "t_status new = TaskStatusInReview \<and> t_submission r = t_submission new \<and>
         (t_status old = TaskStatusInReview \<longrightarrow> same_scope new old)"
  using assms by (elim bump_cases) (simp_all add: bumped_def)

lemma bump_done:
  assumes "bump_task_version d old new = Some r" "t_contract new \<noteq> None" "t_status r = TaskStatusDone"
  shows "t_status new = TaskStatusDone \<and> t_submission r = t_submission new \<and>
         (t_status old \<noteq> TaskStatusDone \<longrightarrow> accepted_current d (t_version old) r)"
  using assms by (elim bump_cases) (simp_all add: bumped_def)

section \<open>The invariant\<close>

definition delivered :: "task_row \<Rightarrow> submission_row \<Rightarrow> bool" where
  "delivered t s \<longleftrightarrow>
     t_submission t = Some (s_id s) \<and> s_task s = t_id t \<and> s_version s + 1 = t_version t \<and>
     t_contract t = Some (s_contract s) \<and> coalesce (t_claimer t) = s_by s"

definition final_review :: "review_row \<Rightarrow> bool" where
  "final_review r \<longleftrightarrow> r_submission r \<noteq> None \<and> r_decision r \<in> {''accepted'', ''rejected''}"

text \<open>What an acceptance rests on: in a human decision nothing is claimed of technical checks; otherwise each
  requirement has a passed check that names evidence, all of it evidence of the submission or review.\<close>

definition acceptance_complete :: "submission_row \<Rightarrow> review_row \<Rightarrow> bool" where
  "acceptance_complete s r \<longleftrightarrow>
     (let c = s_contract s in
      if gate_kind (gate c) = ''human'' \<and> human_review_mode (gate c) = ''decision'' then r_checks r = []
      else \<forall>rq \<in> set (requirements c). \<exists>k \<in> set (r_checks r).
             ck_requirement k = rq_id rq \<and> ck_passed k \<and> ck_evidence k \<noteq> [] \<and>
             set (ck_evidence k) \<subseteq> ev_id ` set (s_evidence s @ r_evidence r))"

text \<open>Two tasks that would share a number in a channel, or a source message.\<close>

definition same_place :: "task_row \<Rightarrow> task_row \<Rightarrow> bool" where
  "same_place t t' \<longleftrightarrow>
     (t_channel t \<noteq> None \<and> t_channel t = t_channel t' \<and> t_number t = t_number t') \<or>
     (t_message t \<noteq> None \<and> t_message t = t_message t')"

definition tasks_inv :: "db \<Rightarrow> bool" where
  "tasks_inv d \<longleftrightarrow>
     keyed t_id (tasks d) \<and>
     (\<forall>t \<in> set (tasks d). \<forall>t' \<in> set (tasks d). same_place t t' \<longrightarrow> t_id t = t_id t')"

definition same_slot :: "submission_row \<Rightarrow> submission_row \<Rightarrow> bool" where
  "same_slot s s' \<longleftrightarrow> s_task s = s_task s' \<and> (s_version s = s_version s' \<or> s_key s = s_key s')"

definition submissions_inv :: "db \<Rightarrow> bool" where
  "submissions_inv d \<longleftrightarrow>
     keyed s_id (submissions d) \<and>
     (\<forall>s \<in> set (submissions d). \<forall>s' \<in> set (submissions d). same_slot s s' \<longrightarrow> s_id s = s_id s')"

definition reviews_inv :: "db \<Rightarrow> bool" where
  "reviews_inv d \<longleftrightarrow>
     distinct (map r_submission (filter final_review (reviews d))) \<and>
     (\<forall>r \<in> set (reviews d). \<forall>sid. r_submission r = Some sid \<longrightarrow>
        (\<exists>s \<in> set (submissions d). s_id s = sid \<and> s_task s = r_task r \<and> r_reviewer r \<noteq> s_by s \<and>
           (r_decision r = ''accepted'' \<longrightarrow> acceptance_complete s r)))"

definition accepted_delivery :: "db \<Rightarrow> task_row \<Rightarrow> submission_row \<Rightarrow> review_row \<Rightarrow> bool" where
  "accepted_delivery d t s r \<longleftrightarrow>
     s \<in> set (submissions d) \<and> r \<in> set (reviews d) \<and> t_submission t = Some (s_id s) \<and>
     s_task s = t_id t \<and> r_submission r = Some (s_id s) \<and> r_decision r = ''accepted''"

definition delivery_inv :: "db \<Rightarrow> bool" where
  "delivery_inv d \<longleftrightarrow>
     (\<forall>t \<in> set (tasks d). t_contract t \<noteq> None \<longrightarrow>
        (t_status t = TaskStatusInReview \<longrightarrow> (\<exists>s \<in> set (submissions d). delivered t s)) \<and>
        (t_status t = TaskStatusDone \<longrightarrow> (\<exists>s r. accepted_delivery d t s r)))"

definition holds_wait :: "task_row \<Rightarrow> wait_row \<Rightarrow> bool" where
  "holds_wait t w \<longleftrightarrow>
     t_id t = w_task w \<and> t_version t = w_version w \<and> t_status t = TaskStatusInProgress \<and>
     t_claimer t = Some (w_agent w)"

definition waits_inv :: "db \<Rightarrow> bool" where
  "waits_inv d \<longleftrightarrow>
     keyed w_id (waits d) \<and>
     (\<forall>w \<in> set (waits d). w_status w = Waiting \<longrightarrow>
        (\<exists>t \<in> set (tasks d). holds_wait t w) \<and>
        (\<forall>w' \<in> set (waits d). w_status w' = Waiting \<and> w_task w' = w_task w \<longrightarrow> w_id w' = w_id w))"

definition db_inv :: "db \<Rightarrow> bool" where
  "db_inv d \<longleftrightarrow> tasks_inv d \<and> submissions_inv d \<and> reviews_inv d \<and> delivery_inv d \<and> waits_inv d"

lemma db_invI [inv_intros]:
  "tasks_inv d \<Longrightarrow> submissions_inv d \<Longrightarrow> reviews_inv d \<Longrightarrow> delivery_inv d \<Longrightarrow> waits_inv d \<Longrightarrow> db_inv d"
  by (simp add: db_inv_def)

lemma db_invD:
  assumes "db_inv d"
  shows "tasks_inv d" "submissions_inv d" "reviews_inv d" "delivery_inv d" "waits_inv d"
    "keyed t_id (tasks d)"
  using assms unfolding db_inv_def by (blast, blast, blast, blast, blast, simp add: tasks_inv_def)

section \<open>An update of a task\<close>

text \<open>What an operation's SET clause may do to the row it finds.\<close>

definition row_change :: "db \<Rightarrow> task_row \<Rightarrow> task_row \<Rightarrow> bool" where
  "row_change d old new \<longleftrightarrow>
     t_id new = t_id old \<and> t_channel new = t_channel old \<and> t_number new = t_number old \<and>
     t_message new = t_message old \<and>
     (t_status old = TaskStatusInReview \<longrightarrow> t_submission new = t_submission old) \<and>
     (t_status old = TaskStatusDone \<and> t_status new = TaskStatusDone \<longrightarrow>
        t_contract new = t_contract old \<and> t_submission new = t_submission old) \<and>
     (t_contract new \<noteq> None \<and> t_status new = TaskStatusInReview \<and> t_status old \<noteq> TaskStatusInReview \<longrightarrow>
        (\<exists>s \<in> set (submissions d). t_submission new = Some (s_id s) \<and> s_task s = t_id new \<and>
           s_version s = t_version old \<and> t_contract new = Some (s_contract s) \<and>
           coalesce (t_claimer new) = s_by s))"

lemma tasks_inv_row:
  assumes inv: "tasks_inv d" and old: "old \<in> set (tasks d)"
    and same: "t_id new = t_id old" "t_channel new = t_channel old" "t_number new = t_number old"
      "t_message new = t_message old"
  shows "tasks_inv (d\<lparr>tasks := update_where (\<lambda>r. t_id r = t_id old) (\<lambda>_. new) (tasks d), waits := ws\<rparr>)"
proof -
  have key: "keyed t_id (update_where (\<lambda>r. t_id r = t_id old) (\<lambda>_. new) (tasks d))"
    using inv same by (simp add: tasks_inv_def keyed_update_row [where key = t_id])
  have uniq: "t_id t = t_id t'"
    if t: "t = new \<or> t \<in> set (tasks d)" "t' = new \<or> t' \<in> set (tasks d)" "same_place t t'" for t t'
  proof -
    define r where "r x = (if x = new then old else x)" for x
    have "same_place (r t) (r t') = same_place t t'" and ids: "t_id (r t) = t_id t" "t_id (r t') = t_id t'"
      using same by (simp_all add: r_def same_place_def)
    moreover have "r t \<in> set (tasks d)" "r t' \<in> set (tasks d)"
      using t old by (simp_all add: r_def) blast+
    ultimately show ?thesis using inv t(3) unfolding tasks_inv_def by metis
  qed
  have mem: "t = new \<or> t \<in> set (tasks d)"
    if "t \<in> set (update_where (\<lambda>r. t_id r = t_id old) (\<lambda>_. new) (tasks d))" for t
    using that unfolding set_update_row [OF old refl] by simp blast
  have "\<forall>t \<in> set (update_where (\<lambda>r. t_id r = t_id old) (\<lambda>_. new) (tasks d)).
          \<forall>t' \<in> set (update_where (\<lambda>r. t_id r = t_id old) (\<lambda>_. new) (tasks d)).
            same_place t t' \<longrightarrow> t_id t = t_id t'"
    by (intro ballI impI) (rule uniq [OF mem mem])
  moreover have "tasks (d\<lparr>tasks := u, waits := ws\<rparr>) = u" for u by simp
  ultimately show ?thesis using key unfolding tasks_inv_def by presburger
qed

lemma delivery_inv_row:
  assumes inv: "db_inv d" and old: "old \<in> set (tasks d)" and ch: "row_change d old new"
    and bump: "bump_task_version d old new = Some r"
  shows "delivery_inv (d\<lparr>tasks := update_where (\<lambda>x. t_id x = t_id old) (\<lambda>_. r) (tasks d), waits := ws\<rparr>)"
proof -
  have D: "delivery_inv d" using inv by (rule db_invD)
  have keeps: "t_id r = t_id old" "t_contract r = t_contract new" "t_claimer r = t_claimer new"
    using bump_keeps [OF bump] ch by (auto simp: row_change_def)
  have review: "\<exists>s \<in> set (submissions d). delivered r s"
    if c: "t_contract r \<noteq> None" and st: "t_status r = TaskStatusInReview"
  proof -
    have n: "t_status new = TaskStatusInReview" "t_submission r = t_submission new"
      "t_status old = TaskStatusInReview \<Longrightarrow> same_scope new old"
      using bump_review [OF bump] c st keeps by auto
    show ?thesis
    proof (cases "t_status old = TaskStatusInReview")
      case True
      then have s: "same_scope new old" "t_submission new = t_submission old"
        using n ch by (auto simp: row_change_def)
      then have "t_version r = t_version old" using bump_version [OF bump] n True by simp
      moreover obtain s where "s \<in> set (submissions d)" "delivered old s"
        using D old c keeps s True by (auto simp: delivery_inv_def same_scope_def)
      ultimately show ?thesis
        using keeps n s by (auto simp: delivered_def same_scope_def)
    next
      case False
      then have "t_version r = t_version old + 1" using bump_version [OF bump] n by simp
      moreover obtain s where "s \<in> set (submissions d)" "t_submission new = Some (s_id s)"
        "s_task s = t_id new" "s_version s = t_version old" "t_contract new = Some (s_contract s)"
        "coalesce (t_claimer new) = s_by s"
        using ch c keeps n False by (auto simp: row_change_def)
      moreover have "t_id new = t_id old" using ch by (simp add: row_change_def)
      ultimately show ?thesis using keeps n by (auto simp: delivered_def)
    qed
  qed
  have done1: "\<exists>s v. accepted_delivery d r s v"
    if c: "t_contract r \<noteq> None" and st: "t_status r = TaskStatusDone"
  proof -
    have n: "t_status new = TaskStatusDone" "t_submission r = t_submission new"
      "t_status old \<noteq> TaskStatusDone \<Longrightarrow> accepted_current d (t_version old) r"
      using bump_done [OF bump] c st keeps by auto
    show ?thesis
    proof (cases "t_status old = TaskStatusDone")
      case True
      then have "t_contract old \<noteq> None" "t_submission r = t_submission old"
        using ch n c keeps by (auto simp: row_change_def)
      with D old True keeps show ?thesis by (auto simp: delivery_inv_def accepted_delivery_def)
    next
      case False
      with n(3) show ?thesis
        by (fastforce simp: accepted_current_def exists_row_iff accepted_delivery_def split: option.splits)
    qed
  qed
  show ?thesis
    using D review done1 unfolding delivery_inv_def accepted_delivery_def
    by (simp add: set_update_row [OF old refl])
qed

lemma waits_inv_row:
  assumes inv: "db_inv d" and old: "old \<in> set (tasks d)" and ch: "row_change d old new"
    and bump: "bump_task_version d old new = Some r"
  shows "waits_inv (d\<lparr>tasks := update_where (\<lambda>x. t_id x = t_id old) (\<lambda>_. r) (tasks d),
                       waits := invalidate_task_wait old r (waits d)\<rparr>)"
proof -
  let ?d' = "d\<lparr>tasks := update_where (\<lambda>x. t_id x = t_id old) (\<lambda>_. r) (tasks d),
                waits := invalidate_task_wait old r (waits d)\<rparr>"
  have upd: "tasks ?d' = update_where (\<lambda>x. t_id x = t_id old) (\<lambda>_. r) (tasks d)"
    "waits ?d' = invalidate_task_wait old r (waits d)" by simp_all
  have W: "waits_inv d" and K: "keyed t_id (tasks d)" using inv by (auto dest: db_invD)
  have keeps: "t_id r = t_id old" using bump_keeps [OF bump] ch by (auto simp: row_change_def)
  have kid: "map w_id (invalidate_task_wait old r (waits d)) = map w_id (waits d)"
    by (auto simp: invalidate_task_wait_def update_where_def cancel_wait_def)
  have sub: "w \<in> set (waits d) \<and> (w_task w = t_id old \<longrightarrow> t_version r = t_version old \<and> t_status r = TaskStatusInProgress)"
    if "w \<in> set (invalidate_task_wait old r (waits d))" "w_status w = Waiting" for w
    using that keeps
    by (auto simp: invalidate_task_wait_def row_simps cancel_wait_def split: if_splits)
  have hold: "\<exists>t \<in> insert r {x \<in> set (tasks d). t_id x \<noteq> t_id old}. holds_wait t w"
    if w: "w \<in> set (invalidate_task_wait old r (waits d))" "w_status w = Waiting" for w
  proof -
    obtain t where t: "t \<in> set (tasks d)" "holds_wait t w"
      using sub [OF w] W w by (auto simp: waits_inv_def)
    show ?thesis
    proof (cases "t_id t = t_id old")
      case True
      then have "t = old" using K t old by (auto dest: keyed_unique)
      moreover have "t_version r = t_version old" "t_status r = TaskStatusInProgress"
        using sub [OF w] t True by (auto simp: holds_wait_def)
      moreover have "t_claimer r = t_claimer old"
        using bump_version [OF bump] bump_keeps [OF bump] \<open>t_version r = t_version old\<close>
        by (auto simp: same_scope_def split: if_splits)
      ultimately show ?thesis using t keeps by (auto simp: holds_wait_def)
    qed (use t in auto)
  qed
  have "keyed w_id (invalidate_task_wait old r (waits d))"
    using W kid by (simp add: waits_inv_def keyed_def)
  moreover have "w_id w' = w_id w"
    if "w \<in> set (invalidate_task_wait old r (waits d))" "w_status w = Waiting"
      "w' \<in> set (invalidate_task_wait old r (waits d))" "w_status w' = Waiting" "w_task w' = w_task w" for w w'
    using W sub [OF that(1,2)] sub [OF that(3,4)] that(2,4,5) unfolding waits_inv_def by metis
  moreover have "\<exists>t \<in> set (update_where (\<lambda>x. t_id x = t_id old) (\<lambda>_. r) (tasks d)). holds_wait t w"
    if "w \<in> set (invalidate_task_wait old r (waits d))" "w_status w = Waiting" for w
    using hold [OF that] unfolding set_update_row [OF old refl] .
  ultimately have "waits_inv ?d'" unfolding waits_inv_def upd by blast
  then show ?thesis .
qed

lemma update_task_inv [inv_intros]:
  assumes inv: "db_inv d" and upd: "update_task tid g f d = Some (d', n)"
    and change: "\<And>old. old \<in> set (tasks d) \<Longrightarrow> t_id old = tid \<Longrightarrow> g old \<Longrightarrow> row_change d old (f old)"
  shows "db_inv d'"
  using upd
proof (cases rule: update_task_cases)
  case none
  with inv show ?thesis by simp
next
  case (row old new)
  then have r: "old \<in> set (tasks d)" "t_id old = tid" "bump_task_version d old (f old) = Some new"
    "d' = d\<lparr>tasks := update_where (\<lambda>r. t_id r = tid) (\<lambda>_. new) (tasks d),
            waits := invalidate_task_wait old new (waits d)\<rparr>"
    and ch: "row_change d old (f old)"
    using change by (simp_all add: row_updated_def)
  have "tasks_inv d'"
    using tasks_inv_row [OF db_invD(1) [OF inv] r(1), of new] bump_keeps [OF r(3)] ch r(2,4)
    by (simp add: row_change_def)
  moreover have "delivery_inv d'" using delivery_inv_row [OF inv r(1) ch r(3)] r(2,4) by simp
  moreover have "waits_inv d'" using waits_inv_row [OF inv r(1) ch r(3)] r(2,4) by simp
  moreover have "submissions_inv d' = submissions_inv d" "reviews_inv d' = reviews_inv d"
    using r(4) by (simp_all add: submissions_inv_def reviews_inv_def)
  ultimately show ?thesis
    using db_invD(2,3) [OF inv] by (simp add: db_inv_def)
qed

section \<open>Inserts and deletes\<close>

text \<open>The parts of the invariant each table matters to.\<close>

lemma inv_same:
  assumes "tasks d' = tasks d" "submissions d' = submissions d" "reviews d' = reviews d" "waits d' = waits d"
  shows "db_inv d' = db_inv d"
  using assms unfolding db_inv_def tasks_inv_def submissions_inv_def reviews_inv_def delivery_inv_def
    waits_inv_def accepted_delivery_def by simp

text \<open>A new task is neither in review nor done, and takes a free number and a free source message.\<close>

lemma insert_task_cases:
  assumes "insert_task r d = Inr d'"
  obtains ev where "d' = d\<lparr>tasks := tasks d @ [r], resp_events := ev\<rparr>"
    "t_id r \<notin> t_id ` set (tasks d)" "\<And>x. x \<in> set (tasks d) \<Longrightarrow> \<not> same_place r x \<and> \<not> same_place x r"
proof -
  have free: "\<not> (t_message r \<noteq> None \<and> exists_row (\<lambda>x. t_message x = t_message r) (tasks d))"
    "\<not> exists_row (\<lambda>x. t_id x = t_id r) (tasks d)"
    "\<not> (t_channel r \<noteq> None \<and> exists_row (\<lambda>x. t_channel x = t_channel r \<and> t_number x = t_number r) (tasks d))"
    using assms by (simp_all add: insert_task_def split: if_split_asm)
  show ?thesis
  proof (rule that)
    show "d' = d\<lparr>tasks := tasks d @ [r], resp_events := resp_events d'\<rparr>"
      using assms by (simp add: insert_task_def split: if_split_asm) (drule sym, simp)
    show "t_id r \<notin> t_id ` set (tasks d)" using free(2) unfolding exists_row_iff by force
    show "\<not> same_place r x \<and> \<not> same_place x r" if "x \<in> set (tasks d)" for x
      using free(1,3) that unfolding exists_row_iff same_place_def by metis
  qed
qed

lemma insert_task_inv [inv_intros]:
  assumes inv: "db_inv d" and ins: "insert_task r d = Inr d'"
    and st: "t_status r \<noteq> TaskStatusInReview" "t_status r \<noteq> TaskStatusDone"
  shows "db_inv d'"
  using ins
proof (rule insert_task_cases)
  fix ev
  assume d': "d' = d\<lparr>tasks := tasks d @ [r], resp_events := ev\<rparr>"
    and key: "t_id r \<notin> t_id ` set (tasks d)"
    and place: "\<And>x. x \<in> set (tasks d) \<Longrightarrow> \<not> same_place r x \<and> \<not> same_place x r"
  have upd: "tasks d' = tasks d @ [r]" "submissions d' = submissions d" "reviews d' = reviews d"
    "waits d' = waits d" using d' by simp_all
  have "tasks_inv d'"
    using db_invD(1) [OF inv] key place unfolding tasks_inv_def upd keyed_insert by (simp add: ball_Un)
  moreover have "delivery_inv d'"
    using db_invD(4) [OF inv] st unfolding delivery_inv_def accepted_delivery_def upd by simp
  moreover have "waits_inv d'"
    using db_invD(5) [OF inv] unfolding waits_inv_def upd set_append by blast
  ultimately show ?thesis
    using db_invD(2,3) [OF inv] unfolding db_inv_def submissions_inv_def reviews_inv_def upd by blast
qed

lemma insert_submission_inv:
  assumes inv: "db_inv d" and ins: "insert_submission s d = Some d'"
  shows "db_inv d' \<and> d' = d\<lparr>submissions := submissions d @ [s]\<rparr>"
proof -
  have free: "\<not> exists_row (\<lambda>x. s_id x = s_id s \<or> (s_task x = s_task s \<and> (s_key x = s_key s \<or> s_version x = s_version s)))
      (submissions d)" and d': "d' = d\<lparr>submissions := submissions d @ [s]\<rparr>"
    using ins by (simp_all add: insert_submission_def split: if_split_asm)
  have upd: "tasks d' = tasks d" "submissions d' = submissions d @ [s]" "reviews d' = reviews d"
    "waits d' = waits d" using d' by simp_all
  have "keyed s_id (submissions d')"
    using free db_invD(2) [OF inv] unfolding upd keyed_insert exists_row_iff submissions_inv_def
    by (metis (no_types, lifting) imageE)
  moreover have "\<not> same_slot s x \<and> \<not> same_slot x s" if "x \<in> set (submissions d)" for x
    using free that unfolding exists_row_iff same_slot_def by metis
  ultimately have "submissions_inv d'"
    using db_invD(2) [OF inv] unfolding submissions_inv_def upd by (simp add: ball_Un)
  moreover have "reviews_inv d'"
    using db_invD(3) [OF inv] unfolding reviews_inv_def upd set_append by blast
  moreover have "delivery_inv d'"
    using db_invD(4) [OF inv] unfolding delivery_inv_def accepted_delivery_def upd set_append by blast
  ultimately show ?thesis
    using db_invD(1,5) [OF inv] d' unfolding db_inv_def tasks_inv_def waits_inv_def upd by blast
qed

lemma insert_review_inv:
  assumes inv: "db_inv d" and ins: "insert_review r d = Some d'"
    and ok: "\<And>sid. r_submission r = Some sid \<Longrightarrow>
        \<exists>s \<in> set (submissions d). s_id s = sid \<and> s_task s = r_task r \<and> r_reviewer r \<noteq> s_by s \<and>
          (r_decision r = ''accepted'' \<longrightarrow> acceptance_complete s r)"
  shows "db_inv d'"
proof -
  have free: "\<not> (r_submission r \<noteq> None \<and>
         exists_row (\<lambda>x. r_submission x = r_submission r \<and>
           ((r_key r \<noteq> None \<and> r_key x = r_key r) \<or>
            (r_decision r \<in> {''accepted'', ''rejected''} \<and> r_decision x \<in> {''accepted'', ''rejected''})))
           (reviews d))" and d': "d' = d\<lparr>reviews := reviews d @ [r]\<rparr>"
    using ins unfolding insert_review_def by (auto split: if_split_asm)
  have upd: "tasks d' = tasks d" "submissions d' = submissions d" "reviews d' = reviews d @ [r]"
    "waits d' = waits d" using d' by simp_all
  have "final_review r \<Longrightarrow> x \<in> set (reviews d) \<Longrightarrow> final_review x \<Longrightarrow> r_submission x \<noteq> r_submission r" for x
    using free unfolding exists_row_iff final_review_def by metis
  then have "final_review r \<Longrightarrow> r_submission r \<notin> r_submission ` set (filter final_review (reviews d))"
    by (metis (no_types, lifting) imageE mem_Collect_eq set_filter)
  then have "distinct (map r_submission (filter final_review (reviews d @ [r])))"
    using db_invD(3) [OF inv] unfolding reviews_inv_def by simp
  moreover have "\<forall>x \<in> set (reviews d'). \<forall>sid. r_submission x = Some sid \<longrightarrow>
      (\<exists>s \<in> set (submissions d). s_id s = sid \<and> s_task s = r_task x \<and> r_reviewer x \<noteq> s_by s \<and>
         (r_decision x = ''accepted'' \<longrightarrow> acceptance_complete s x))"
    using db_invD(3) [OF inv] ok unfolding reviews_inv_def upd by simp
  ultimately have "reviews_inv d'"
    unfolding reviews_inv_def upd by blast
  moreover have "delivery_inv d'"
    using db_invD(4) [OF inv] unfolding delivery_inv_def accepted_delivery_def upd set_append by blast
  ultimately show ?thesis
    using db_invD(1,2,5) [OF inv] d' unfolding db_inv_def tasks_inv_def submissions_inv_def waits_inv_def upd
    by blast
qed

text \<open>A review of a task with no contract names no submission.\<close>

lemma plain_review_inv:
  assumes inv: "db_inv d" and none: "r_submission r = None"
  shows "db_inv (d\<lparr>reviews := reviews d @ [r]\<rparr>)"
  using insert_review_inv [OF inv, of r] none by (simp add: insert_review_def)

end
