(* ===== verification/Task_Machine.thy ===== *)
theory Task_Machine
  imports Task_Invariant
begin

text \<open>
  Every operation of the task services keeps \<open>db_inv\<close>, so every run of them does: the machine
  \<open>task_step\<close> interleaves them with any change the other services make to their own tables.
\<close>

section \<open>Each operation keeps the invariant\<close>

lemma result_db_pair [simp]: "result_db (d, r, effs) = d"
  by (simp add: result_db_def)

text \<open>An operation is walked branch by branch.\<close>

lemma result_option:
  "(x = None \<Longrightarrow> db_inv (result_db a)) \<Longrightarrow> (\<And>y. x = Some y \<Longrightarrow> db_inv (result_db (b y))) \<Longrightarrow>
   db_inv (result_db (case x of None \<Rightarrow> a | Some y \<Rightarrow> b y))"
  by (cases x) simp_all

lemma result_sum:
  "(\<And>y. x = Inl y \<Longrightarrow> db_inv (result_db (a y))) \<Longrightarrow> (\<And>y. x = Inr y \<Longrightarrow> db_inv (result_db (b y))) \<Longrightarrow>
   db_inv (result_db (case x of Inl y \<Rightarrow> a y | Inr y \<Rightarrow> b y))"
  by (cases x) simp_all

lemma result_prod:
  "(\<And>y z. x = (y, z) \<Longrightarrow> db_inv (result_db (a y z))) \<Longrightarrow> db_inv (result_db (case x of (y, z) \<Rightarrow> a y z))"
  by (cases x) simp

lemma result_if:
  "(c \<Longrightarrow> db_inv (result_db a)) \<Longrightarrow> (\<not> c \<Longrightarrow> db_inv (result_db b)) \<Longrightarrow>
   db_inv (result_db (if c then a else b))"
  by simp

lemmas result_cases = result_option result_sum result_prod result_if

lemma get_task_row:
  assumes "get_task e d ch ref u = Inr v"
  shows "v_row v \<in> set (tasks d) \<and> t_channel (v_row v) = Some ch"
  using assms
  by (auto simp: get_task_def view_of_def find_Some_iff split: option.split_asm sum.split_asm)

lemma find_task_row:
  assumes "find (\<lambda>t. t_id t = tid \<and> t_channel t = Some ch) ts = Some t"
  shows "t \<in> set ts \<and> t_id t = tid \<and> t_channel t = Some ch"
  using assms by (auto simp: find_Some_iff)

lemma same_row:
  assumes "db_inv d" "t \<in> set (tasks d)" "t' \<in> set (tasks d)" "t_id t = t_id t'"
  shows "t = t'"
  using keyed_unique [OF db_invD(6) [OF assms(1)] assms(2,3,4)] .

text \<open>The SET clauses that leave the submission alone and do not enter review or done.\<close>

lemma row_change_open:
  assumes "t_id new = t_id old" "t_channel new = t_channel old" "t_number new = t_number old"
    "t_message new = t_message old" "t_submission new = t_submission old"
    "t_contract new \<noteq> None \<Longrightarrow> t_status new = TaskStatusInReview \<Longrightarrow> t_status old = TaskStatusInReview"
    "t_status old = TaskStatusDone \<Longrightarrow> t_status new = TaskStatusDone \<Longrightarrow> t_contract new = t_contract old"
  shows "row_change d old new"
  using assms unfolding row_change_def by blast

lemma create_task_inv [inv_intros]:
  assumes "db_inv d" shows "db_inv (result_db (create_task e vc d ch u req))"
proof -
  have ins: "db_inv d'" if "insert_task (new_task e d ch u req c a m p) d = Inr d'" for c a m p d'
    by (rule insert_task_inv [OF assms that]) (simp_all add: new_task_def)
  show ?thesis
    unfolding create_task_def Let_def
    by (intro result_cases) (simp_all only: result_fail result_db_pair assms ins)
qed

lemma claim_task_tx_inv:
  assumes inv: "db_inv d" and claim: "claim_task_tx e d ch tid u = Inr d'"
  shows "db_inv d'"
proof -
  obtain t where t: "find (\<lambda>t. t_id t = tid \<and> t_channel t = Some ch) (tasks d) = Some t"
    using claim by (simp add: claim_task_tx_def split: option.split_asm)
  let ?f = "\<lambda>r. r\<lparr>t_claimer := Some u,
              t_status := if t_status t = TaskStatusTodo then TaskStatusInProgress else t_status t,
              t_updated := now e\<rparr>"
  have open1: "\<not> terminal_statuses (t_status t)" "t_status t \<noteq> TaskStatusInReview"
    using claim t by (simp_all add: claim_task_tx_def split: if_split_asm)
  obtain d1 n where upd: "update_task tid (\<lambda>r. t_channel r = Some ch) ?f d = Some (d1, n)"
    using claim t open1 by (simp add: claim_task_tx_def Let_def split: if_split_asm option.split_asm prod.split_asm)
  have "row_change d old (?f old)" if "old \<in> set (tasks d)" "t_id old = tid" for old
    by (rule row_change_open) (use open1 in \<open>simp_all add: terminal_statuses_def split: if_split_asm\<close>)
  then have "db_inv d1" using update_task_inv [OF inv upd] by blast
  moreover have "db_inv d' = db_inv d1"
    by (rule inv_same)
      (use claim t open1 upd in \<open>auto simp: claim_task_tx_def Let_def split: if_split_asm option.split_asm\<close>)
  ultimately show ?thesis by simp
qed

lemma claim_task_inv [inv_intros]:
  assumes "db_inv d" shows "db_inv (result_db (claim_task e d ch ref u))"
  using assms claim_task_tx_inv by (simp add: claim_task_def split: option.split sum.split)

lemma unclaim_write_inv [inv_intros]:
  assumes inv: "db_inv d" and w: "unclaim_write e d ch ref = Some d'"
  shows "db_inv d'"
proof -
  obtain tid n where "update_task tid (\<lambda>r. t_channel r = Some ch)
      (\<lambda>r. r\<lparr>t_claimer := None, t_status := TaskStatusTodo, t_updated := now e\<rparr>) d = Some (d', n)"
    using w by (cases "uuid_parse e ref") (auto simp: unclaim_write_def simp del: split_paired_Ex)
  then show ?thesis
    by (rule update_task_inv [OF inv]) (rule row_change_open; simp)
qed

lemma unclaim_task_inv [inv_intros]:
  assumes "db_inv d" shows "db_inv (result_db (unclaim_task e d ch ref u))"
  using assms unclaim_write_inv by (simp add: unclaim_task_def split: option.split)

lemma submit_task_inv [inv_intros]:
  assumes inv: "db_inv d" shows "db_inv (result_db (submit_task e d ch ref u))"
proof (cases "get_task e d ch ref u")
  case (Inl err)
  with inv show ?thesis by (simp add: submit_task_def)
next
  case (Inr v)
  let ?tid = "t_id (v_row v)"
  show ?thesis
  proof (cases "find (\<lambda>t. t_id t = ?tid \<and> t_channel t = Some ch) (tasks d)")
    case None
    with Inr inv show ?thesis by (simp add: submit_task_def Let_def)
  next
    case (Some t)
    have t: "t \<in> set (tasks d)" "t_id t = ?tid" using find_task_row [OF Some] by simp_all
    let ?f = "\<lambda>r. r\<lparr>t_status := TaskStatusInReview, t_updated := now e\<rparr>"
    have written: "db_inv d'" if "t_contract t = None" "update_task ?tid (\<lambda>_. True) ?f d = Some (d', n)" for d' n
      using that(2)
    proof (rule update_task_inv [OF inv])
      fix old assume "old \<in> set (tasks d)" "t_id old = ?tid"
      then have "old = t" using same_row [OF inv _ t(1)] t(2) by simp
      with that(1) show "row_change d old (?f old)" by (intro row_change_open) simp_all
    qed
    show ?thesis
      using Inr Some inv written
      by (simp add: submit_task_def Let_def split: option.split sum.split prod.split)
  qed
qed

lemma review_task_inv [inv_intros]:
  assumes inv: "db_inv d" and st: "status \<noteq> TaskStatusInReview"
  shows "db_inv (result_db (review_task e d ch ref u status decision reason effs))"
proof -
  let ?f = "\<lambda>r. r\<lparr>t_status := status, t_updated := now e\<rparr>"
  have written: "db_inv (d'\<lparr>reviews := reviews d' @ [r]\<rparr>)"
    if "update_task tid (\<lambda>r. t_channel r = Some ch) ?f d = Some (d', n)" "r_submission r = None" for tid d' n r
  proof (rule plain_review_inv [OF _ that(2)], rule update_task_inv [OF inv that(1)])
    show "row_change d old (?f old)" for old
      by (rule row_change_open) (use st in simp_all)
  qed
  show ?thesis
    using inv written by (simp add: review_task_def split: option.split prod.split)
qed

lemma accept_task_inv [inv_intros]:
  "db_inv d \<Longrightarrow> db_inv (result_db (accept_task e d ch ref u))"
  by (simp add: accept_task_def review_task_inv)

lemma reject_task_inv [inv_intros]:
  "db_inv d \<Longrightarrow> db_inv (result_db (reject_task e d ch ref u reason))"
  by (simp add: reject_task_def Let_def review_task_inv)

lemma set_task_status_inv [inv_intros]:
  assumes inv: "db_inv d" and st: "status \<noteq> TaskStatusInReview"
  shows "db_inv (result_db (set_task_status e d ch tid u status effs))"
proof -
  let ?f = "\<lambda>r. r\<lparr>t_status := status, t_updated := now e\<rparr>"
  have written: "db_inv d'" if "update_task tid (\<lambda>r. t_channel r = Some ch) ?f d = Some (d', n)" for d' n
    by (rule update_task_inv [OF inv that], rule row_change_open) (use st in simp_all)
  show ?thesis
    using inv written by (simp add: set_task_status_def split: option.split prod.split)
qed

lemma message_task_find_inv:
  assumes inv: "db_inv d" and found: "message_task_find e vc d ch u m claim contract = Inr (d', tid, created)"
  shows "db_inv d'"
proof (cases "resolve_message_task_id d ch (msg_id m)")
  case (Inl err)
  with found show ?thesis by (simp add: message_task_find_def)
next
  case (Inr found1)
  show ?thesis
  proof (cases found1)
    case (Some tid1)
    with Inr found inv show ?thesis
      by (simp add: message_task_find_def split: option.split_asm sum.split_asm if_split_asm)
  next
    case None
    then obtain r where "insert_task r d = Inr d'" "t_status r = TaskStatusTodo"
      using Inr found
      by (simp add: message_task_find_def Let_def split: sum.split_asm)
    with inv show ?thesis by (metis insert_task_inv task_status.distinct(3) task_status.distinct(5))
  qed
qed

lemma message_task_inv [inv_intros]:
  assumes inv: "db_inv d"
  shows "db_inv (result_db (fst (message_task e vc d ch mref u claim bc contract)))"
proof -
  have claimed: "db_inv d2"
    if "message_task_find e vc d ch u m claim contract = Inr (d1, tid, b)" "claim_task_tx e d1 ch tid u = Inr d2"
    for m d1 d2 tid b
    using claim_task_tx_inv [OF message_task_find_inv [OF inv that(1)] that(2)] .
  show ?thesis
    using inv message_task_find_inv [OF inv] claimed
    by (simp add: message_task_def split: option.split sum.split prod.split)
qed

lemma update_task_request_inv [inv_intros]:
  assumes inv: "db_inv d"
  shows "db_inv (result_db (update_task_request e vc d ch ref u req))"
proof -
  have written: "db_inv d'"
    if v: "get_task e d ch ref u = Inr v"
      and fin: "\<not> ((t_contract (v_row v) \<noteq> None \<or> up_contract req \<noteq> None) \<and> terminal_statuses (t_status (v_row v)))"
      and c: "(case up_contract req of None \<Rightarrow> Inr (t_contract (v_row v)) | Some c \<Rightarrow> map_sum id Some (vc d ch u c)) = Inr contract"
      and upd: "update_task (t_id (v_row v)) (\<lambda>r. t_channel r = Some ch \<and> t_version r = t_version (v_row v))
                (\<lambda>r. r\<lparr>t_title := ti, t_description := de, t_status := t_status (v_row v),
                       t_priority := pr, t_due := du, t_updated := up, t_contract := contract\<rparr>) d = Some (d', n)"
    for v contract ti de pr du up d' n
    using upd
  proof (rule update_task_inv [OF inv])
    fix old assume old: "old \<in> set (tasks d)" "t_id old = t_id (v_row v)"
    then have o: "v_row v = old" using same_row [OF inv] get_task_row [OF v] by metis
    have "t_contract old = contract" if "t_status old = TaskStatusDone"
      using fin c that unfolding o by (simp add: terminal_statuses_def)
    then show "row_change d old (old\<lparr>t_title := ti, t_description := de, t_status := t_status (v_row v),
                       t_priority := pr, t_due := du, t_updated := up, t_contract := contract\<rparr>)"
      by (intro row_change_open) (simp_all add: o)
  qed
  show ?thesis
    unfolding update_task_request_def Let_def
    by (intro result_cases; (simp only: result_fail result_db_refetch inv)?) (erule (3) written)
qed

lemma complete_task_inv [inv_intros]:
  assumes inv: "db_inv d" and c: "complete_task_for_agent e d tid = Inr d'"
  shows "db_inv d'"
proof -
  obtain n where "update_task tid
             (\<lambda>r. (t_status r = TaskStatusInProgress \<or> t_status r = TaskStatusTodo) \<and> t_contract r = None)
             (\<lambda>r. r\<lparr>t_status := TaskStatusInReview, t_updated := now e\<rparr>) d = Some (d', n)"
    using c by (auto simp: complete_task_for_agent_def split: option.split_asm prod.split_asm)
  then show ?thesis
    by (rule update_task_inv [OF inv]) (rule row_change_open; simp)
qed

interpretation task_orphan: keyed_update t_id "t_parent_update (\<lambda>_. None)"
  by unfold_locales simp

definition orphaned :: "id \<Rightarrow> task_row \<Rightarrow> task_row" where
  "orphaned tid r = (if t_parent r = Some tid then t_parent_update (\<lambda>_. None) r else r)"

lemma orphaned_row:
  "t_id (orphaned tid t) = t_id t" "same_place (orphaned tid t) (orphaned tid t') = same_place t t'"
  "holds_wait (orphaned tid t) w = holds_wait t w" "t_contract (orphaned tid t) = t_contract t"
  "t_status (orphaned tid t) = t_status t" "delivered (orphaned tid t) = delivered t"
  "accepted_delivery d (orphaned tid t) = accepted_delivery d t"
  by (simp_all add: orphaned_def same_place_def holds_wait_def delivered_def accepted_delivery_def fun_eq_iff)

lemma review_of_own_task:
  assumes "db_inv d" "r \<in> set (reviews d)" "r_submission r = Some (s_id s)" "s \<in> set (submissions d)"
  shows "r_task r = s_task s"
  using db_invD(2,3) [OF assms(1)] assms(2-) keyed_unique [of s_id "submissions d"]
  unfolding submissions_inv_def reviews_inv_def by metis

lemma delete_task_tables:
  assumes inv: "db_inv d"
  shows "set (tasks (delete_task_rows tid d)) = orphaned tid ` {t \<in> set (tasks d). t_id t \<noteq> tid}"
    and "submissions (delete_task_rows tid d) = delete_where (\<lambda>s. s_task s = tid) (submissions d)"
    and "waits (delete_task_rows tid d) = delete_where (\<lambda>w. w_task w = tid) (waits d)"
    and "reviews (delete_task_rows tid d) = filter (\<lambda>r. r_task r \<noteq> tid) (reviews d)"
proof -
  have "(r_task r = tid \<or> (case r_submission r of None \<Rightarrow> False
           | Some x \<Rightarrow> x \<in> set (map s_id (filter (\<lambda>s. s_task s = tid) (submissions d))))) = (r_task r = tid)"
    if "r \<in> set (reviews d)" for r
    using review_of_own_task [OF inv that] by (cases "r_submission r") auto
  then show "reviews (delete_task_rows tid d) = filter (\<lambda>r. r_task r \<noteq> tid) (reviews d)"
    unfolding delete_task_rows_def Let_def delete_where_def by (simp cong: filter_cong)
qed (simp_all add: delete_task_rows_def Let_def row_simps orphaned_def)

lemma delete_reviews_inv:
  assumes inv: "db_inv d"
  shows "reviews_inv (delete_task_rows tid d)"
proof -
  have "distinct (map r_submission (filter final_review (filter (\<lambda>r. r_task r \<noteq> tid) (reviews d))))"
    using db_invD(3) [OF inv] distinct_map_filter
      [of r_submission "filter final_review (reviews d)" "\<lambda>r. r_task r \<noteq> tid"]
    unfolding reviews_inv_def by (simp add: conj_commute)
  moreover have "\<exists>s \<in> {s \<in> set (submissions d). s_task s \<noteq> tid}. s_id s = sid \<and> s_task s = r_task r \<and>
      r_reviewer r \<noteq> s_by s \<and> (r_decision r = ''accepted'' \<longrightarrow> acceptance_complete s r)"
    if r: "r \<in> set (reviews d)" "r_task r \<noteq> tid" "r_submission r = Some sid" for r sid
  proof -
    obtain s where "s \<in> set (submissions d)" "s_id s = sid \<and> s_task s = r_task r \<and>
        r_reviewer r \<noteq> s_by s \<and> (r_decision r = ''accepted'' \<longrightarrow> acceptance_complete s r)"
      using db_invD(3) [OF inv] r unfolding reviews_inv_def by blast
    then show ?thesis using r(2) by (intro bexI [of _ s]) simp_all
  qed
  ultimately show ?thesis
    unfolding reviews_inv_def delete_task_tables [OF inv] set_delete_where set_filter by blast
qed

lemma delete_delivery_inv:
  assumes inv: "db_inv d"
  shows "delivery_inv (delete_task_rows tid d)"
proof -
  have del: "\<exists>s \<in> set (submissions (delete_task_rows tid d)). delivered t s"
    if "t \<in> set (tasks d)" "t_id t \<noteq> tid" "t_contract t \<noteq> None" "t_status t = TaskStatusInReview" for t
    using db_invD(4) [OF inv] that
    unfolding delivery_inv_def delete_task_tables [OF inv] set_delete_where delivered_def by fastforce
  have acc: "\<exists>s r. accepted_delivery (delete_task_rows tid d) t s r"
    if t: "t \<in> set (tasks d)" "t_id t \<noteq> tid" "t_contract t \<noteq> None" "t_status t = TaskStatusDone" for t
  proof -
    obtain s r where a: "accepted_delivery d t s r"
      using db_invD(4) [OF inv] t unfolding delivery_inv_def by metis
    moreover have "r_task r = s_task s"
      using a review_of_own_task [OF inv] unfolding accepted_delivery_def by blast
    ultimately have "accepted_delivery (delete_task_rows tid d) t s r"
      using t unfolding accepted_delivery_def delete_task_tables [OF inv] set_delete_where set_filter by simp
    then show ?thesis by blast
  qed
  show ?thesis
    unfolding delivery_inv_def delete_task_tables(1) [OF inv] ball_simps(9) using del acc
    by (simp only: orphaned_row mem_Collect_eq) blast
qed

lemma delete_waits_inv:
  assumes inv: "db_inv d"
  shows "waits_inv (delete_task_rows tid d)"
proof -
  note tables = delete_task_tables [OF inv]
  have "\<exists>t \<in> set (tasks (delete_task_rows tid d)). holds_wait t w"
    if w: "w \<in> set (waits (delete_task_rows tid d))" "w_status w = Waiting" for w
  proof -
    obtain t where t: "t \<in> set (tasks d)" "holds_wait t w" "w_task w \<noteq> tid"
      using db_invD(5) [OF inv] w unfolding waits_inv_def tables set_delete_where by blast
    then have "t_id t \<noteq> tid" by (simp add: holds_wait_def)
    with t show ?thesis
      unfolding tables by (intro bexI [of _ "orphaned tid t"]) (simp_all add: orphaned_row)
  qed
  then show ?thesis
    using db_invD(5) [OF inv] unfolding waits_inv_def tables(3)
    by (simp only: keyed_delete set_delete_where) blast
qed

lemma delete_task_rows_inv [inv_intros]:
  assumes inv: "db_inv d"
  shows "db_inv (delete_task_rows tid d)"
proof -
  note tables = delete_task_tables [OF inv]
  have "keyed t_id (tasks (delete_task_rows tid d))"
    using keyed_delete [OF db_invD(6) [OF inv]] by (simp add: delete_task_rows_def Let_def)
  then have "tasks_inv (delete_task_rows tid d)"
    using db_invD(1) [OF inv] unfolding tasks_inv_def tables ball_simps(9)
    by (simp only: orphaned_row mem_Collect_eq) blast
  moreover have "submissions_inv (delete_task_rows tid d)"
    using db_invD(2) [OF inv] unfolding submissions_inv_def tables
    by (simp only: keyed_delete set_delete_where) blast
  ultimately show ?thesis
    using delete_reviews_inv [OF inv] delete_delivery_inv [OF inv] delete_waits_inv [OF inv]
    by (simp only: db_inv_def)
qed

lemma delete_task_inv [inv_intros]:
  assumes "db_inv d" "delete_task e d ch ref u = Inr d'"
  shows "db_inv d'"
  using assms delete_task_rows_inv
  by (auto simp: delete_task_def split: option.split_asm if_split_asm)

lemma submit_delivery_inv [inv_intros]:
  assumes inv: "db_inv d"
  shows "db_inv (result_db (submit_delivery e d ch ref actor run req))"
proof -
  have written: "db_inv d'"
    if v: "get_task e d ch ref actor = Inr v" and cl: "coalesce (t_claimer (v_row v)) = actor"
      and c: "t_contract (v_row v) = Some c" and g: "submit_guard e d (v_row v) c actor run req = None"
      and w: "submit_write e d (v_row v) c actor run req = Some d'" for v c d'
  proof -
    let ?t = "v_row v"
    let ?s = "\<lparr>s_id = fresh e, s_task = t_id ?t, s_by = actor, s_run = nullable run, s_version = t_version ?t,
              s_contract = c, s_handoff = sub_handoff req, s_artifact = sub_artifact req,
              s_evidence = sub_evidence req, s_key = sub_key req, s_hash = hash_submit e req,
              s_created = now e\<rparr>"
    let ?f = "\<lambda>r. r\<lparr>t_status := TaskStatusInReview, t_submission := Some (fresh e), t_updated := now e\<rparr>"
    have t: "?t \<in> set (tasks d)" using get_task_row [OF v] by simp
    obtain d1 where d1: "insert_submission ?s d = Some d1"
      using w by (simp add: submit_write_def split: option.split_asm)
    have inv1: "db_inv d1" and eq: "tasks d1 = tasks d" "submissions d1 = submissions d @ [?s]"
      using insert_submission_inv [OF inv d1] by (blast, simp, simp)
    obtain d2 n where d2: "update_task (t_id ?t) (\<lambda>_. True) ?f d1 = Some (d2, n)"
      using w d1 by (simp add: submit_write_def split: option.split_asm prod.split_asm)
    have "row_change d1 old (?f old)" if old: "old \<in> set (tasks d1)" "t_id old = t_id ?t" for old
    proof -
      have "old = ?t" using same_row [OF inv _ t] old eq by simp
      then show ?thesis
        using g c cl eq by (simp add: row_change_def submit_guard_def split: if_split_asm)
    qed
    then have "db_inv d2" using update_task_inv [OF inv1 d2] by blast
    moreover have "db_inv d' = db_inv d2"
      by (rule inv_same)
        (use w d1 d2 in \<open>auto simp: submit_write_def insert_delivery_def split: if_split_asm option.split_asm\<close>)
    ultimately show ?thesis by simp
  qed
  show ?thesis
    unfolding submit_delivery_def Let_def
    by (intro result_cases; (simp only: result_fail result_db_refetch inv)?) (erule written; simp)
qed
section \<open>Reviews\<close>

lemma review_checks_loop_ok:
  assumes "review_checks_loop reqs known dec seen ks = Inr seen'" "distinct seen"
  shows "seen' = rev (map ck_requirement ks) @ seen \<and> distinct seen' \<and>
         (\<forall>k \<in> set ks. ck_requirement k \<in> set reqs \<and> set (ck_evidence k) \<subseteq> set known \<and>
            (dec = ''accepted'' \<longrightarrow> ck_passed k \<and> ck_evidence k \<noteq> []))"
  using assms
proof (induction ks arbitrary: seen)
  case Nil
  then show ?case by simp
next
  case (Cons k ks)
  then have "review_checks_loop reqs known dec (ck_requirement k # seen) ks = Inr seen'"
    "distinct (ck_requirement k # seen)" "ck_requirement k \<in> set reqs"
    "\<not> list_ex (\<lambda>i. i \<notin> set known) (ck_evidence k)"
    "dec = ''accepted'' \<longrightarrow> ck_passed k \<and> ck_evidence k \<noteq> []"
    by (simp_all split: if_split_asm)
  with Cons.IH show ?case by (auto simp: list_ex_iff)
qed

lemma covers_all:
  assumes "distinct xs" "set xs \<subseteq> set ys" "length xs = length (remdups ys)"
  shows "set xs = set ys"
  using assms by (metis card_subset_eq distinct_card length_remdups_card_conv List.finite_set)

lemma acceptance_complete_of_checks:
  assumes ok: "validate_review_checks (s_contract s) (s_evidence s) req = None"
    and acc: "rv_decision req = ''accepted''" and r: "r_checks r = rv_checks req" "r_evidence r = rv_evidence req"
  shows "acceptance_complete s r"
proof (cases "gate_kind (gate (s_contract s)) = ''human'' \<and> human_review_mode (gate (s_contract s)) = ''decision''")
  case True
  with ok r show ?thesis
    by (simp add: validate_review_checks_def acceptance_complete_def Let_def split: if_split_asm)
next
  case False
  let ?reqs = "map rq_id (requirements (s_contract s))"
  let ?known = "map ev_id (s_evidence s @ rv_evidence req)"
  obtain seen where loop: "review_checks_loop ?reqs ?known (rv_decision req) [] (rv_checks req) = Inr seen"
    and len: "length seen = length (remdups ?reqs)"
    using ok False acc by (auto simp: validate_review_checks_def Let_def split: sum.split_asm if_split_asm)
  note l = review_checks_loop_ok [OF loop, simplified]
  have "set seen = set ?reqs"
    by (rule covers_all) (use l len in auto)
  then have cover: "rq_id ` set (requirements (s_contract s)) = ck_requirement ` set (rv_checks req)"
    using l by auto
  show ?thesis
    unfolding acceptance_complete_def Let_def if_not_P [OF False] r
  proof
    fix rq assume "rq \<in> set (requirements (s_contract s))"
    then obtain k where "k \<in> set (rv_checks req)" "ck_requirement k = rq_id rq"
      using cover by (metis imageE imageI)
    then show "\<exists>k \<in> set (rv_checks req). ck_requirement k = rq_id rq \<and> ck_passed k \<and> ck_evidence k \<noteq> [] \<and>
        set (ck_evidence k) \<subseteq> ev_id ` set (s_evidence s @ rv_evidence req)"
      using l acc by (intro bexI [of _ k]) auto
  qed
qed

text \<open>The submission a review that passed its guard is about: the one on the task, by the task's claimer.\<close>

lemma reviewed_submission:
  assumes inv: "db_inv d" and t: "t \<in> set (tasks d)" "t_contract t = Some c"
    and g: "review_guard e d t c sid actor req = None"
  obtains s where "s \<in> set (submissions d)" "s_id s = sid" "delivered t s" "t_status t = TaskStatusInReview"
    "validate_review_checks (s_contract s) (s_evidence s) req = None" "s_artifact s = rv_artifact req"
proof -
  obtain s where s: "find (\<lambda>s. s_id s = sid \<and> s_task s = t_id t) (submissions d) = Some s"
    and st: "t_status t = TaskStatusInReview" and v: "s_version s + 1 = t_version t"
    and ok: "validate_review_checks (s_contract s) (s_evidence s) req = None" "s_artifact s = rv_artifact req"
    using g by (simp add: review_guard_def split: if_split_asm option.split_asm)
  have mem: "s \<in> set (submissions d)" "s_id s = sid" "s_task s = t_id t" using s by (auto simp: find_Some_iff)
  obtain s' where s': "s' \<in> set (submissions d)" "delivered t s'"
    using db_invD(4) [OF inv] t st unfolding delivery_inv_def by auto
  have "same_slot s s'" using s' v mem by (simp add: same_slot_def delivered_def)
  then have "s = s'"
    using db_invD(2) [OF inv] mem s' keyed_unique unfolding submissions_inv_def by metis
  with mem s' st ok show ?thesis by (intro that [of s]) simp_all
qed

lemma review_delivery_inv [inv_intros]:
  assumes inv: "db_inv d"
  shows "db_inv (result_db (review_delivery e d ch ref actor req))"
proof -
  have written: "db_inv d'"
    if v: "get_task e d ch ref actor = Inr v" and c: "t_contract (v_row v) = Some c"
      and m: "\<not> \<not> may_review d (v_row v) c sid actor" and g: "review_guard e d (v_row v) c sid actor req = None"
      and w: "review_write e d (v_row v) sid actor req = Some d'" for v c sid d'
  proof -
    let ?t = "v_row v"
    let ?r = "\<lparr>r_task = t_id ?t, r_reviewer = actor, r_decision = rv_decision req, r_reason = rv_reason req,
              r_artifact = None, r_next_owner = nullable (coalesce (t_claimer ?t)), r_submission = Some sid,
              r_evidence = rv_evidence req, r_checks = rv_checks req, r_key = Some (rv_key req),
              r_hash = Some (hash_review e req)\<rparr>"
    let ?f = "\<lambda>r. r\<lparr>t_status := next_status (rv_decision req), t_updated := now e\<rparr>"
    have t: "?t \<in> set (tasks d)" using get_task_row [OF v] by simp
    obtain s where s: "s \<in> set (submissions d)" "s_id s = sid" "delivered ?t s"
      "t_status ?t = TaskStatusInReview" "validate_review_checks (s_contract s) (s_evidence s) req = None"
      using reviewed_submission [OF inv t c g] by blast
    have other: "actor \<noteq> s_by s" using s(3) m unfolding delivered_def may_review_def by metis
    obtain d1 where d1: "insert_review ?r d = Some d1"
      using w by (simp add: review_write_def split: option.split_asm)
    have inv1: "db_inv d1"
    proof (rule insert_review_inv [OF inv d1])
      show "\<exists>s \<in> set (submissions d). s_id s = sid' \<and> s_task s = r_task ?r \<and> r_reviewer ?r \<noteq> s_by s \<and>
          (r_decision ?r = ''accepted'' \<longrightarrow> acceptance_complete s ?r)" if "r_submission ?r = Some sid'" for sid'
        using s that other acceptance_complete_of_checks [OF s(5), of ?r]
        by (intro bexI [of _ s]) (simp_all add: delivered_def)
    qed
    obtain d2 n where d2: "update_task (t_id ?t) (\<lambda>_. True) ?f d1 = Some (d2, n)"
      using w d1 by (simp add: review_write_def split: option.split_asm prod.split_asm)
    have "tasks d1 = tasks d" using d1 by (simp add: insert_review_def split: if_split_asm) (drule sym, simp)
    then have same: "old = ?t" if "old \<in> set (tasks d1)" "t_id old = t_id ?t" for old
      using same_row [OF inv _ t] that by simp
    have "row_change d1 ?t (?f ?t)"
      using s(4) by (intro row_change_open) simp_all
    then have "row_change d1 old (?f old)" if "old \<in> set (tasks d1)" "t_id old = t_id ?t" for old
      using same [OF that] by blast
    then have "db_inv d2" using update_task_inv [OF inv1 d2] by blast
    moreover have "db_inv d' = db_inv d2"
      by (rule inv_same) (use w d1 d2 in \<open>auto simp: review_write_def split: option.split_asm\<close>)
    ultimately show ?thesis by simp
  qed
  show ?thesis
    unfolding review_delivery_def Let_def
    by (intro result_cases; (simp only: result_fail result_db_refetch inv)?) (erule (4) written)
qed

section \<open>Waits\<close>

lemma waiter_row:
  assumes "lock_task_wait_owner d ch tid actor = Inr owner"
  shows "\<exists>t \<in> set (tasks d). t_id t = tid \<and> t_status t = TaskStatusInProgress \<and>
           t_claimer t = Some (wo_claimer owner) \<and> t_version t = wo_version owner"
proof -
  obtain t where t: "find (\<lambda>t. t_id t = tid \<and> t_channel t = Some ch \<and> t_status t = TaskStatusInProgress) (tasks d) = Some t"
    using assms by (simp add: lock_task_wait_owner_def split: option.split_asm)
  then have "t \<in> set (tasks d)" "t_id t = tid" "t_status t = TaskStatusInProgress"
    by (auto simp: find_Some_iff)
  moreover have "t_claimer t = Some (wo_claimer owner) \<and> t_version t = wo_version owner"
    using assms t by (auto simp: lock_task_wait_owner_def split: option.split_asm if_split_asm)
  ultimately show ?thesis by (intro bexI [of _ t]) simp_all
qed

lemma insert_wait_inv:
  assumes inv: "db_inv d" and ins: "insert_wait w d = Some d'"
    and hold: "\<exists>t \<in> set (tasks d). holds_wait t w"
  shows "db_inv d'"
proof -
  have free: "w_id x \<noteq> w_id w \<and> \<not> (w_task x = w_task w \<and> w_status x = Waiting \<and> w_status w = Waiting)"
    if "x \<in> set (waits d)" for x
    using ins that by (auto simp: insert_wait_def exists_row_iff split: if_split_asm)
  have d': "d' = d\<lparr>waits := waits d @ [w]\<rparr>" using ins by (simp add: insert_wait_def split: if_split_asm)
  have upd: "tasks d' = tasks d" "waits d' = waits d @ [w]" "submissions d' = submissions d"
    "reviews d' = reviews d" using d' by simp_all
  have "keyed w_id (waits d @ [w])"
    using free db_invD(5) [OF inv] unfolding keyed_insert waits_inv_def by (metis (no_types, lifting) imageE)
  moreover have "w_id y = w_id x"
    if "x \<in> insert w (set (waits d))" "y \<in> insert w (set (waits d))"
      "w_status x = Waiting" "w_status y = Waiting" "w_task y = w_task x" for x y
    using that free db_invD(5) [OF inv] unfolding waits_inv_def by (metis insertE)
  moreover have "\<exists>t \<in> set (tasks d). holds_wait t x"
    if "x \<in> insert w (set (waits d))" "w_status x = Waiting" for x
    using that hold db_invD(5) [OF inv] unfolding waits_inv_def by blast
  moreover have "set (waits d @ [w]) = insert w (set (waits d))" by simp
  ultimately have "waits_inv d'"
    unfolding waits_inv_def upd by metis
  then show ?thesis
    using db_invD [OF inv] unfolding db_inv_def tasks_inv_def submissions_inv_def reviews_inv_def delivery_inv_def
      accepted_delivery_def upd by blast
qed

lemma wait_task_inv [inv_intros]:
  assumes inv: "db_inv d" and w: "wait_task e d ch tid actor req = Inr (d', wid)"
  shows "db_inv d'"
proof (cases "d' = d")
  case True
  with inv show ?thesis by simp
next
  case False
  then obtain owner where o: "lock_task_wait_owner d ch tid actor = Inr owner"
    and ins: "insert_wait (new_wait e tid owner actor req) d = Some d'"
    using w by (auto simp: wait_task_def split: option.split_asm sum.split_asm if_split_asm)
  have "\<exists>t \<in> set (tasks d). holds_wait t (new_wait e tid owner actor req)"
    using waiter_row [OF o] by (auto simp: holds_wait_def new_wait_def)
  then show ?thesis by (rule insert_wait_inv [OF inv ins])
qed

text \<open>A wait that is changed keeps its task and version, and never comes back to \<open>Waiting\<close>.\<close>

definition wait_change :: "wait_row \<Rightarrow> wait_row \<Rightarrow> bool" where
  "wait_change w w' \<longleftrightarrow>
     w_id w' = w_id w \<and> w_task w' = w_task w \<and> w_version w' = w_version w \<and> w_agent w' = w_agent w \<and>
     (w_status w' = Waiting \<longrightarrow> w_status w = Waiting)"

lemma set_wait_inv:
  assumes inv: "db_inv d" and ch: "\<And>w. w \<in> set (waits d) \<Longrightarrow> w_id w = wid \<Longrightarrow> wait_change w (f w)"
  shows "db_inv (set_wait wid f d)"
proof -
  let ?d = "set_wait wid f d"
  have upd: "tasks ?d = tasks d" "submissions ?d = submissions d" "reviews ?d = reviews d"
    "waits ?d = update_where (\<lambda>w. w_id w = wid) f (waits d)"
    by (simp_all add: set_wait_def)
  have "map w_id (waits ?d) = map w_id (waits d)"
    using ch unfolding upd by (simp add: update_where_def wait_change_def)
  then have "keyed w_id (waits ?d)"
    using db_invD(5) [OF inv] by (simp add: keyed_def waits_inv_def)
  moreover have "\<exists>x \<in> set (waits d). wait_change x w" if "w \<in> set (waits ?d)" for w
    using that ch unfolding upd set_update_where by (auto simp: wait_change_def split: if_split_asm)
  ultimately have "waits_inv ?d"
    using db_invD(5) [OF inv] unfolding waits_inv_def upd(1) wait_change_def holds_wait_def by metis
  then show ?thesis
    using db_invD [OF inv] unfolding db_inv_def tasks_inv_def submissions_inv_def reviews_inv_def delivery_inv_def
      accepted_delivery_def upd by blast
qed

lemma resolve_task_wait_inv [inv_intros]:
  assumes inv: "db_inv d" and r: "resolve_task_wait e d ch tid actor req = Inr d'"
  shows "db_inv d'"
  using inv r set_wait_inv [OF inv]
  by (auto simp: resolve_task_wait_def wait_change_def cancel_wait_def
      split: option.split_asm sum.split_asm if_split_asm)

lemma dispatch_task_wait_inv [inv_intros]:
  assumes inv: "db_inv d" and r: "dispatch_task_wait e x d = Inr (d', b)"
  shows "db_inv d'"
proof -
  have run: "db_inv (d\<lparr>gate_runs := rs\<rparr>)" for rs
    using inv inv_same [of "d\<lparr>gate_runs := rs\<rparr>" d] by simp
  show ?thesis
    using inv r set_wait_inv [OF inv] set_wait_inv [OF run]
    by (auto simp: dispatch_task_wait_def postpone_wait_def wait_change_def
        split: option.split_asm sum.split_asm if_split_asm)
qed

section \<open>Runs\<close>

text \<open>
  A request to the task services, or \<open>OtherTables\<close>: whatever the rest of the server does to the
  tables the task services only read. \<open>UnclaimWrite\<close>, \<open>CloseWrite\<close> and \<open>ReopenWrite\<close> are the
  second statements of their operations with no assumption on what the first one saw.
\<close>

datatype task_op =
    CreateTask id id task_create_request
  | ClaimTask id string id
  | UnclaimWrite id string
  | SubmitTask id string id
  | AcceptTask id string id
  | RejectTask id string id string
  | CloseWrite id id id
  | ReopenWrite id id id
  | MessageTask id string id bool "id \<Rightarrow> task_error option" "task_contract option"
  | UpdateTask id string id task_update_request
  | DeleteTask id string id
  | CompleteTask id
  | SubmitDelivery id string id id task_submit_request
  | ReviewDelivery id string id task_review_request
  | WaitTask id id id task_wait_request
  | ResolveTaskWait id id id wait_resolution
  | DispatchTaskWait dispatch_env
  | OtherTables db

definition committed :: "db \<Rightarrow> task_error + db \<Rightarrow> db" where
  "committed d r = (case r of Inl _ \<Rightarrow> d | Inr d' \<Rightarrow> d')"

fun task_step :: "db \<Rightarrow> env \<times> task_op \<Rightarrow> db" where
  "task_step d (e, CreateTask ch u req) = result_db (create_task e (validate_task_contract e) d ch u req)"
| "task_step d (e, ClaimTask ch ref u) = result_db (claim_task e d ch ref u)"
| "task_step d (e, UnclaimWrite ch ref) = (case unclaim_write e d ch ref of None \<Rightarrow> d | Some d' \<Rightarrow> d')"
| "task_step d (e, SubmitTask ch ref u) = result_db (submit_task e d ch ref u)"
| "task_step d (e, AcceptTask ch ref u) = result_db (accept_task e d ch ref u)"
| "task_step d (e, RejectTask ch ref u reason) = result_db (reject_task e d ch ref u reason)"
| "task_step d (e, CloseWrite ch tid u) = result_db (set_task_status e d ch tid u TaskStatusClosed [])"
| "task_step d (e, ReopenWrite ch tid u) = result_db (set_task_status e d ch tid u TaskStatusTodo [])"
| "task_step d (e, MessageTask ch ref u claim bc contract) =
     result_db (fst (message_task e (validate_task_contract e) d ch ref u claim bc contract))"
| "task_step d (e, UpdateTask ch ref u req) =
     result_db (update_task_request e (validate_task_contract e) d ch ref u req)"
| "task_step d (e, DeleteTask ch ref u) = committed d (delete_task e d ch ref u)"
| "task_step d (e, CompleteTask tid) = committed d (complete_task_for_agent e d tid)"
| "task_step d (e, SubmitDelivery ch ref actor run req) = result_db (submit_delivery e d ch ref actor run req)"
| "task_step d (e, ReviewDelivery ch ref actor req) = result_db (review_delivery e d ch ref actor req)"
| "task_step d (e, WaitTask ch tid actor req) = committed d (map_sum id fst (wait_task e d ch tid actor req))"
| "task_step d (e, ResolveTaskWait ch tid actor req) = committed d (resolve_task_wait e d ch tid actor req)"
| "task_step d (e, DispatchTaskWait x) = committed d (map_sum id fst (dispatch_task_wait e x d))"
| "task_step d (e, OtherTables d') =
     d'\<lparr>tasks := tasks d, submissions := submissions d, reviews := reviews d, waits := waits d\<rparr>"

lemma committed_inv:
  "db_inv d \<Longrightarrow> (\<And>d'. r = Inr d' \<Longrightarrow> db_inv d') \<Longrightarrow> db_inv (committed d r)"
  by (cases r) (simp_all add: committed_def)

lemmas result_invs =
  create_task_inv claim_task_inv submit_task_inv accept_task_inv reject_task_inv message_task_inv
  update_task_request_inv submit_delivery_inv review_delivery_inv

lemma task_step_inv: "db_inv d \<Longrightarrow> db_inv (task_step d eo)"
proof (induction d eo rule: task_step.induct)
  case (3 d e ch ref)
  then show ?case by (cases "unclaim_write e d ch ref") (simp_all add: unclaim_write_inv)
next
  case (15 d e ch tid actor req)
  then show ?case
    by (cases "wait_task e d ch tid actor req") (auto simp: committed_def intro: wait_task_inv)
next
  case (17 d e x)
  then show ?case
    by (cases "dispatch_task_wait e x d") (auto simp: committed_def intro: dispatch_task_wait_inv)
next
  case (18 d e d')
  then show ?case
    using inv_same [of "d'\<lparr>tasks := tasks d, submissions := submissions d, reviews := reviews d, waits := waits d\<rparr>" d]
    by simp
next
  case (7 d e ch tid u)
  then show ?case by (simp add: set_task_status_inv)
next
  case (8 d e ch tid u)
  then show ?case by (simp add: set_task_status_inv)
next
  case (11 d e ch ref u)
  then show ?case by (simp only: task_step.simps) (rule committed_inv, assumption, rule delete_task_inv)
next
  case (12 d e tid)
  then show ?case by (simp only: task_step.simps) (rule committed_inv, assumption, rule complete_task_inv)
next
  case (16 d e ch tid actor req)
  then show ?case by (simp only: task_step.simps) (rule committed_inv, assumption, rule resolve_task_wait_inv)
qed (simp_all only: task_step.simps result_invs)

interpretation task_machine: op_machine task_step db_inv
  by unfold_locales (rule task_step_inv)

text \<open>The tables of a new installation.\<close>

definition empty_db :: db where
  "empty_db = \<lparr>tasks = [], channels = [], members = [], agents = [], users = [], messages = [],
     submissions = [], reviews = [], deliveries = [], waits = [], resp_events = [], artifacts = [],
     gate_runs = []\<rparr>"

lemma empty_db_inv: "db_inv empty_db"
  by (simp add: db_inv_def tasks_inv_def submissions_inv_def reviews_inv_def delivery_inv_def
      waits_inv_def keyed_def empty_db_def)

definition reachable_db :: "(env \<times> task_op) list \<Rightarrow> db" where
  "reachable_db ops = foldl task_step empty_db ops"

lemma reachable_inv: "db_inv (reachable_db ops)"
  unfolding reachable_db_def by (rule task_machine.run_inv [OF empty_db_inv])

end
