(* ===== verification/Task_Replay.thy ===== *)
theory Task_Replay
  imports Task_Machine
begin

text \<open>
  A request with an idempotency key that is sent again. The locale \<open>request_ledger\<close> is the contract
  of an operation that records its requests: what it answers to a recorded one, and that it records
  a new one. Submissions, reviews and waits are its interpretations. The clock and the id a request
  draws are an argument of the locale, since the second request has its own.
\<close>

locale request_ledger =
  fixes ok :: "'d \<Rightarrow> bool" and may :: "'d \<Rightarrow> bool" and seen :: "'d \<Rightarrow> 'h option"
    and ask :: "'x \<Rightarrow> 'd \<Rightarrow> 'd \<times> bool" and h :: 'h
  assumes ask_may: "ok d \<Longrightarrow> ask x d = (d', True) \<Longrightarrow> may d"
    and ask_seen: "ok d \<Longrightarrow> may d \<Longrightarrow> seen d = Some h' \<Longrightarrow> ask x d = (d, h' = h)"
    and ask_new: "ok d \<Longrightarrow> ask x d = (d', True) \<Longrightarrow> seen d = None \<Longrightarrow> ok d' \<and> may d' \<and> seen d' = Some h"
begin

lemma replay:
  assumes "ok d" "ask x d = (d', True)"
  shows "ok d' \<and> ask y d' = (d', True)"
proof (cases "seen d")
  case None
  then show ?thesis using ask_new [OF assms] ask_seen by metis
next
  case (Some h')
  then have "d' = d" "h' = h" using ask_seen [OF assms(1) ask_may [OF assms] Some, of x] assms(2) by auto
  then show ?thesis using ask_seen [OF assms(1) ask_may [OF assms] Some, of y] assms(1) by simp
qed

lemma replays:
  assumes "ok d" "ask x d = (d', True)"
  shows "foldl (\<lambda>s y. fst (ask y s)) d' ys = d'"
proof (induction ys)
  case (Cons y ys)
  have "ask y d' = (d', True)" using replay [OF assms] by simp
  with Cons show ?case by simp
qed simp

lemma reused_key:
  assumes "ok d" "may d" "seen d = Some h'" "h' \<noteq> h"
  shows "ask x d = (d, False)"
  using ask_seen [OF assms(1-3), of x] assms(4) by simp

end

section \<open>The request's clock and fresh id\<close>

definition env_at :: "env \<Rightarrow> time \<times> id \<Rightarrow> env" where
  "env_at e x = e\<lparr>now := fst x, fresh := snd x\<rparr>"

lemma env_at_simps [simp]:
  "uuid_parse (env_at e x) = uuid_parse e" "sql_lower (env_at e x) = sql_lower e"
  "sha256_hex (env_at e x) = sha256_hex e" "hash_submit (env_at e x) = hash_submit e"
  "hash_review (env_at e x) = hash_review e" "hash_wait (env_at e x) = hash_wait e"
  "json_length_wait (env_at e x) = json_length_wait e"
  by (simp_all add: env_at_def)

text \<open>The row a reference finds, which neither the clock nor the fresh id matters to.\<close>

definition task_at :: "env \<Rightarrow> db \<Rightarrow> id \<Rightarrow> string \<Rightarrow> id \<Rightarrow> task_row option" where
  "task_at e d ch ref u =
     (if require_channel_member d ch u \<noteq> None then None
      else (case resolve_task_ref e d ch ref of
              Inl _ \<Rightarrow> None
            | Inr tid \<Rightarrow> find (\<lambda>t. t_id t = tid \<and> t_channel t = Some ch) (tasks d)))"

lemma get_task_at:
  "get_task e d ch ref u = Inr v \<longleftrightarrow> (\<exists>t. task_at e d ch ref u = Some t \<and> v = view_of e d u t)"
  by (auto simp: get_task_def task_at_def split: option.split sum.split)

lemma v_row_view [simp]: "v_row (view_of e d u t) = t"
  by (simp add: view_of_def)

lemma resolve_ref_env:
  assumes "sql_lower e' = sql_lower e"
  shows "resolve_task_ref e' d ch ref = resolve_task_ref e d ch ref"
  unfolding resolve_task_ref_def resolve_task_message_id_def assms by (rule refl)

lemma task_at_env [simp]: "task_at (env_at e x) d ch ref u = task_at e d ch ref u"
  by (simp add: task_at_def resolve_ref_env [of "env_at e x" e])

lemma task_at_row:
  assumes "task_at e d ch ref u = Some t"
  shows "t \<in> set (tasks d) \<and> t_channel t = Some ch \<and> require_channel_member d ch u = None"
  using assms by (auto simp: task_at_def find_Some_iff split: if_split_asm sum.split_asm)

section \<open>References survive an update\<close>

definition same_names :: "task_row \<Rightarrow> task_row \<Rightarrow> bool" where
  "same_names t t' \<longleftrightarrow>
     t_id t' = t_id t \<and> t_channel t' = t_channel t \<and> t_number t' = t_number t \<and> t_message t' = t_message t"

lemma find_snoc: "find P (xs @ [x]) = (case find P xs of None \<Rightarrow> if P x then Some x else None | Some y \<Rightarrow> Some y)"
  by (induction xs) simp_all

lemma find_SomeD: "find P xs = Some x \<Longrightarrow> x \<in> set xs \<and> P x"
  by (auto simp: find_Some_iff)

lemma task_at_map:
  assumes f: "\<And>t. t \<in> set (tasks d) \<Longrightarrow> same_names t (f t)" and t': "tasks d' = map f (tasks d)"
    and rest: "channels d' = channels d" "members d' = members d" "messages d' = messages d"
  shows "task_at e d' ch ref u = map_option f (task_at e d ch ref u)"
proof -
  have mem: "require_channel_member d' ch u = require_channel_member d ch u"
    using rest by (simp add: require_channel_member_def)
  have msg: "resolve_task_message_id e d' ch ref = resolve_task_message_id e d ch ref"
    using rest by (simp add: resolve_task_message_id_def)
  have find: "find P (tasks d') = map_option f (find P (tasks d))"
    if "\<And>t. t \<in> set (tasks d) \<Longrightarrow> P (f t) = P t" for P
    unfolding t' using that by (rule find_map_same)
  have by_msg: "resolve_message_task_id d' ch m = resolve_message_task_id d ch m" for m
  proof -
    have "filter (\<lambda>t. t_channel t = Some ch \<and> t_message t = Some m) (tasks d') =
          map f (filter (\<lambda>t. t_channel t = Some ch \<and> t_message t = Some m) (tasks d))"
      unfolding t' by (rule filter_map_same) (use f in \<open>simp add: same_names_def\<close>)
    moreover have "t_id (f t) = t_id t" if "t \<in> set (filter (\<lambda>t. t_channel t = Some ch \<and> t_message t = Some m) (tasks d))" for t
      using f that by (simp add: same_names_def)
    ultimately show ?thesis
      by (cases "filter (\<lambda>t. t_channel t = Some ch \<and> t_message t = Some m) (tasks d)" rule: remdups_adj.cases)
        (simp_all add: resolve_message_task_id_def)
  qed
  have ids: "t_id (f t) = t_id t" if "find P (tasks d) = Some t" for P t
    using f that by (auto simp: same_names_def find_Some_iff)
  have "resolve_task_ref e d' ch ref = resolve_task_ref e d ch ref"
    using f by (simp add: resolve_task_ref_def find msg by_msg same_names_def ids
        cong: option.case_cong sum.case_cong split: option.split)
  then show ?thesis
    using f by (simp add: task_at_def mem find same_names_def split: sum.split)
qed

text \<open>Every statement that sets columns other than these keeps the names, and what it keeps of the rest.\<close>

definition same_scope_names :: "task_row \<Rightarrow> task_row \<Rightarrow> bool" where
  "same_scope_names t t' \<longleftrightarrow>
     same_names t t' \<and> t_contract t' = t_contract t \<and> t_claimer t' = t_claimer t \<and> t_creator t' = t_creator t"

lemma update_task_map:
  assumes key: "keyed t_id (tasks d)" and upd: "update_task tid g f d = Some (d', n)"
    and f: "\<And>t. same_scope_names t (f t)"
  obtains F where "\<And>t. t \<in> set (tasks d) \<Longrightarrow> same_scope_names t (F t)"
    "tasks d' = map F (tasks d)" "d' = d\<lparr>tasks := tasks d', waits := waits d'\<rparr>"
  using upd
proof (cases rule: update_task_cases)
  case none
  then show ?thesis by (intro that [of "\<lambda>t. t"]) (simp_all add: same_names_def same_scope_names_def)
next
  case (row old new)
  let ?F = "\<lambda>t. if t_id t = tid then new else t"
  note r = row(1) [unfolded row_updated_def]
  have new: "same_scope_names old new"
    using bump_keeps [of d old "f old" new] r f [of old] by (simp add: same_scope_names_def same_names_def)
  show ?thesis
  proof (rule that [of ?F])
    show "same_scope_names t (?F t)" if "t \<in> set (tasks d)" for t
      using keyed_unique [OF key that, of old] r new by (auto simp: same_scope_names_def same_names_def)
    show "tasks d' = map ?F (tasks d)" "d' = d\<lparr>tasks := tasks d', waits := waits d'\<rparr>"
      using r by (simp_all add: update_where_def)
  qed
qed

section \<open>Waits\<close>

definition wait_may :: "env \<Rightarrow> id \<Rightarrow> id \<Rightarrow> id \<Rightarrow> task_wait_request \<Rightarrow> db \<Rightarrow> bool" where
  "wait_may e ch tid actor req d \<longleftrightarrow>
     require_channel_member d ch actor = None \<and> wait_request_error e tid req = None \<and>
     (\<exists>owner. lock_task_wait_owner d ch tid actor = Inr owner)"

definition wait_seen :: "id \<Rightarrow> task_wait_request \<Rightarrow> db \<Rightarrow> string option" where
  "wait_seen tid req d = map_option w_hash (find (\<lambda>w. w_task w = tid \<and> w_key w = wr_key req) (waits d))"

definition wait_ask :: "env \<Rightarrow> id \<Rightarrow> id \<Rightarrow> id \<Rightarrow> task_wait_request \<Rightarrow> time \<times> id \<Rightarrow> db \<Rightarrow> db \<times> bool" where
  "wait_ask e ch tid actor req x d =
     (case wait_task (env_at e x) d ch tid actor req of Inl _ \<Rightarrow> (d, False) | Inr (d', _) \<Rightarrow> (d', True))"

lemma wait_error_env [simp]: "wait_request_error (env_at e x) tid req = wait_request_error e tid req"
  by (simp add: wait_request_error_def wait_condition_error_def)

text \<open>The guards read none of the tables a request records itself in.\<close>

lemma waits_unread [simp]:
  "require_channel_member (d\<lparr>waits := ws\<rparr>) ch u = require_channel_member d ch u"
  "lock_task_wait_owner (d\<lparr>waits := ws\<rparr>) ch tid u = lock_task_wait_owner d ch tid u"
  unfolding require_channel_member_def lock_task_wait_owner_def active_member_agent_def member_of_kind_def
  by (simp_all cong: option.case_cong if_cong)

lemma wait_task_new:
  assumes "wait_task e d ch tid actor req = Inr (d', wid)" "wait_seen tid req d = None"
  shows "\<exists>owner. d' = d\<lparr>waits := waits d @ [new_wait e tid owner actor req]\<rparr>"
proof -
  obtain owner where "insert_wait (new_wait e tid owner actor req) d = Some d'"
    using assms by (auto simp: wait_task_def wait_seen_def split: option.split_asm sum.split_asm if_split_asm)
  then show ?thesis by (intro exI [of _ owner]) (simp add: insert_wait_def split: if_split_asm)
qed

interpretation wait_ledger: request_ledger "\<lambda>_. True" "wait_may e ch tid actor req" "wait_seen tid req"
    "wait_ask e ch tid actor req" "hash_wait e req" for e ch tid actor req
proof
  fix x d d' assume "wait_ask e ch tid actor req x d = (d', True)"
  then show "wait_may e ch tid actor req d"
    by (auto simp: wait_ask_def wait_task_def wait_may_def split: option.split_asm sum.split_asm if_split_asm)
next
  fix x d h' assume "wait_may e ch tid actor req d" "wait_seen tid req d = Some h'"
  then show "wait_ask e ch tid actor req x d = (d, h' = hash_wait e req)"
    by (auto simp: wait_ask_def wait_task_def wait_may_def wait_seen_def)
next
  fix x d d' assume a: "wait_ask e ch tid actor req x d = (d', True)" "wait_seen tid req d = None"
  have may: "wait_may e ch tid actor req d"
    using a(1) by (auto simp: wait_ask_def wait_task_def wait_may_def split: option.split_asm sum.split_asm if_split_asm)
  obtain wid where w: "wait_task (env_at e x) d ch tid actor req = Inr (d', wid)"
    using a(1) by (auto simp: wait_ask_def split: sum.split_asm prod.split_asm)
  from wait_task_new [OF w a(2)] obtain owner
    where d': "d' = d\<lparr>waits := waits d @ [new_wait (env_at e x) tid owner actor req]\<rparr>" ..
  have "wait_may e ch tid actor req d'"
    using may unfolding d' wait_may_def waits_unread .
  moreover have "wait_seen tid req d' = Some (hash_wait e req)"
    using a(2) by (simp add: d' wait_seen_def find_snoc new_wait_def)
  ultimately show "True \<and> wait_may e ch tid actor req d' \<and> wait_seen tid req d' = Some (hash_wait e req)" by simp
qed

section \<open>Submissions\<close>

text \<open>Ids are canonical, so SQL's \<open>lower\<close> leaves the id of a task as it is.\<close>

definition canonical_ids :: "env \<Rightarrow> db \<Rightarrow> bool" where
  "canonical_ids e d \<longleftrightarrow> (\<forall>t \<in> set (tasks d). sql_lower e (t_id t) = t_id t)"

lemma task_at_id:
  assumes inv: "db_inv d" and can: "canonical_ids e d" and t: "task_at e d ch ref u = Some t"
  shows "task_at e d ch (t_id t) u = Some t"
proof -
  note row = task_at_row [OF t]
  have find: "find (\<lambda>x. P x \<and> Q x) (tasks d) = Some t"
    if "P t" "Q t" "\<And>x. x \<in> set (tasks d) \<Longrightarrow> P x \<Longrightarrow> Q x \<Longrightarrow> t_id x = t_id t" for P Q
  proof -
    have "find (\<lambda>x. P x \<and> Q x) (tasks d) \<noteq> None" using row that unfolding find_None_iff by blast
    then obtain x where x: "find (\<lambda>x. P x \<and> Q x) (tasks d) = Some x" by blast
    then have "x = t" using that find_SomeD [OF x] same_row [OF inv, of x t] row by metis
    with x show ?thesis by simp
  qed
  have "sql_lower e (t_id t) = t_id t" using can row by (simp add: canonical_ids_def)
  then show ?thesis
    using row by (simp add: task_at_def resolve_task_ref_def find)
qed

definition submit_may :: "env \<Rightarrow> id \<Rightarrow> string \<Rightarrow> id \<Rightarrow> task_submit_request \<Rightarrow> db \<Rightarrow> bool" where
  "submit_may e ch ref actor req d \<longleftrightarrow>
     submit_request_error e req = None \<and>
     (case task_at e d ch ref actor of
        None \<Rightarrow> False
      | Some t \<Rightarrow> coalesce (t_claimer t) = actor \<and> t_contract t \<noteq> None)"

definition submit_seen :: "env \<Rightarrow> id \<Rightarrow> string \<Rightarrow> id \<Rightarrow> task_submit_request \<Rightarrow> db \<Rightarrow> string option" where
  "submit_seen e ch ref actor req d =
     (case task_at e d ch ref actor of
        None \<Rightarrow> None
      | Some t \<Rightarrow> map_option s_hash
          (find (\<lambda>s. s_task s = t_id t \<and> s_key s = sub_key req \<and> s_by s = actor) (submissions d)))"

definition is_ok :: "task_error + 'a \<Rightarrow> bool" where
  "is_ok r = (case r of Inl _ \<Rightarrow> False | Inr _ \<Rightarrow> True)"

definition submit_ask ::
    "env \<Rightarrow> id \<Rightarrow> string \<Rightarrow> id \<Rightarrow> id \<Rightarrow> task_submit_request \<Rightarrow> time \<times> id \<Rightarrow> db \<Rightarrow> db \<times> bool" where
  "submit_ask e ch ref actor run req x d =
     (let r = submit_delivery (env_at e x) d ch ref actor run req in (result_db r, is_ok (result r)))"

lemma submit_error_env [simp]: "submit_request_error (env_at e x) req = submit_request_error e req"
proof -
  have "evidence_item_error (env_at e x) = evidence_item_error e"
    unfolding evidence_item_error_def env_at_simps by (rule refl)
  then have "evidence_loop (env_at e x) seen is = evidence_loop e seen is" for seen "is"
    by (induction "is" arbitrary: seen) (simp_all cong: if_cong option.case_cong)
  then show ?thesis by (simp add: submit_request_error_def validate_evidence_def)
qed

lemma refetch_ok: "is_ok (result (refetch e d ch ref u effs)) \<longleftrightarrow> task_at e d ch ref u \<noteq> None"
  by (cases "get_task e d ch ref u") (auto simp: refetch_def result_def is_ok_def get_task_at get_task_def task_at_def
      split: option.split_asm sum.split_asm if_split_asm)

lemma is_ok_simps [simp]: "\<not> is_ok (Inl err)" "is_ok (Inr v)" "\<not> is_ok (result (fail d err))"
  by (simp_all add: is_ok_def)

lemma get_task_None: "task_at e d ch ref u = None \<Longrightarrow> \<exists>err. get_task e d ch ref u = Inl err"
  by (cases "get_task e d ch ref u") (auto simp: get_task_at)

text \<open>One submission, written: the ledger gets its row, the names and the claim stay.\<close>

lemma submit_write_effect:
  assumes inv: "db_inv d" and w: "submit_write e d t c actor run req = Some d'"
  obtains F s where "\<And>t. t \<in> set (tasks d) \<Longrightarrow> same_scope_names t (F t)"
    "\<And>ch ref u. task_at e d' ch ref u = map_option F (task_at e d ch ref u)"
    "submissions d' = submissions d @ [s]" "s_task s = t_id t" "s_key s = sub_key req" "s_by s = actor"
    "s_hash s = hash_submit e req" "tasks d' = map F (tasks d)"
proof -
  let ?s = "\<lparr>s_id = fresh e, s_task = t_id t, s_by = actor, s_run = nullable run, s_version = t_version t,
            s_contract = c, s_handoff = sub_handoff req, s_artifact = sub_artifact req,
            s_evidence = sub_evidence req, s_key = sub_key req, s_hash = hash_submit e req,
            s_created = now e\<rparr>"
  let ?f = "\<lambda>r. r\<lparr>t_status := TaskStatusInReview, t_submission := Some (fresh e), t_updated := now e\<rparr>"
  obtain d1 where d1: "insert_submission ?s d = Some d1"
    using w by (simp add: submit_write_def split: option.split_asm)
  have i: "db_inv d1" "d1 = d\<lparr>submissions := submissions d @ [?s]\<rparr>"
    using insert_submission_inv [OF inv d1] by blast+
  obtain d2 n where d2: "update_task (t_id t) (\<lambda>_. True) ?f d1 = Some (d2, n)"
    using w d1 by (simp add: submit_write_def split: option.split_asm prod.split_asm)
  obtain F where F: "\<And>t. t \<in> set (tasks d1) \<Longrightarrow> same_scope_names t (F t)" "tasks d2 = map F (tasks d1)"
    "d2 = d1\<lparr>tasks := tasks d2, waits := waits d2\<rparr>"
    by (rule update_task_map [OF db_invD(6) [OF i(1)] d2]) (auto simp: same_scope_names_def same_names_def)
  have d': "d' = d2\<lparr>deliveries := deliveries d'\<rparr>"
    using w d1 d2 by (auto simp: submit_write_def insert_delivery_def split: if_split_asm option.split_asm)
  have T: "tasks d' = map F (tasks d)" "submissions d' = submissions d @ [?s]"
    "channels d' = channels d" "members d' = members d" "messages d' = messages d"
    using F(2) i(2) by (subst d', subst F(3), simp)+
  have names: "same_scope_names t (F t)" if "t \<in> set (tasks d)" for t
    using F(1) [of t] that i(2) by simp
  show ?thesis
  proof (rule that [of F ?s])
    show "task_at e d' ch ref u = map_option F (task_at e d ch ref u)" for ch ref u
      by (rule task_at_map [OF _ T(1,3,4,5)]) (use names in \<open>simp add: same_scope_names_def\<close>)
  qed (simp_all add: names T(1,2))
qed

lemma submit_delivery_cases:
  assumes may: "submit_may e ch ref actor req d" and t: "task_at e d ch ref actor = Some t"
  shows "submit_delivery (env_at e x) d ch ref actor run req =
     (case find (\<lambda>s. s_task s = t_id t \<and> s_key s = sub_key req \<and> s_by s = actor) (submissions d) of
        Some s \<Rightarrow>
          if s_hash s \<noteq> hash_submit e req then fail d ErrTaskVersionConflict
          else refetch (env_at e x) d ch (t_id t) actor (\<lambda>_. [])
      | None \<Rightarrow>
     (case submit_guard (env_at e x) d t (the (t_contract t)) actor run req of
        Some err \<Rightarrow> fail d err
      | None \<Rightarrow>
     (case submit_write (env_at e x) d t (the (t_contract t)) actor run req of
        None \<Rightarrow> fail d ErrDatabase
      | Some d' \<Rightarrow> refetch (env_at e x) d' ch (t_id t) actor (\<lambda>_. []))))"
proof -
  have g: "get_task (env_at e x) d ch ref actor = Inr (view_of (env_at e x) d actor t)"
    using t by (simp add: get_task_at)
  obtain c where c: "t_contract t = Some c" "coalesce (t_claimer t) = actor" "submit_request_error e req = None"
    using may t by (auto simp: submit_may_def)
  show ?thesis
    unfolding submit_delivery_def submit_error_env c(3) option.case g sum.case Let_def v_row_view c(1,2)
      option.sel env_at_simps
    by simp
qed

lemma submit_ask_may:
  assumes "submit_ask e ch ref actor run req x d = (d', True)"
  shows "submit_may e ch ref actor req d"
proof -
  have ok: "is_ok (result (submit_delivery (env_at e x) d ch ref actor run req))"
    using assms by (simp add: submit_ask_def Let_def)
  have "submit_request_error e req = None"
    using ok by (cases "submit_request_error e req") (simp_all add: submit_delivery_def)
  moreover obtain v where v: "get_task (env_at e x) d ch ref actor = Inr v"
    using ok \<open>submit_request_error e req = None\<close>
    by (cases "get_task (env_at e x) d ch ref actor") (simp_all add: submit_delivery_def)
  moreover have "coalesce (t_claimer (v_row v)) = actor \<and> t_contract (v_row v) \<noteq> None"
    using ok calculation by (auto simp: submit_delivery_def Let_def split: if_split_asm option.split_asm)
  moreover obtain t where "task_at e d ch ref actor = Some t" "v_row v = t"
    using v by (metis get_task_at task_at_env v_row_view)
  ultimately show ?thesis by (simp add: submit_may_def)
qed

definition ledger_ok :: "env \<Rightarrow> db \<Rightarrow> bool" where
  "ledger_ok e d \<longleftrightarrow> db_inv d \<and> canonical_ids e d"

interpretation submit_ledger: request_ledger "ledger_ok e" "submit_may e ch ref actor req"
    "submit_seen e ch ref actor req" "submit_ask e ch ref actor run req" "hash_submit e req"
  for e ch ref actor run req
proof
  fix x d d' assume "submit_ask e ch ref actor run req x d = (d', True)"
  then show "submit_may e ch ref actor req d" by (rule submit_ask_may)
next
  fix x d h' assume ok: "ledger_ok e d" and may: "submit_may e ch ref actor req d"
    and seen: "submit_seen e ch ref actor req d = Some h'"
  obtain t where t: "task_at e d ch ref actor = Some t"
    using may by (auto simp: submit_may_def split: option.split_asm)
  have "task_at e d ch (t_id t) actor = Some t"
    using task_at_id ok t by (simp add: ledger_ok_def)
  then have ok1: "is_ok (result (refetch (env_at e x) d ch (t_id t) actor effs))" for effs
    by (simp add: refetch_ok)
  show "submit_ask e ch ref actor run req x d = (d, h' = hash_submit e req)"
    using seen t ok1 unfolding submit_ask_def Let_def submit_delivery_cases [OF may t]
    by (auto simp: submit_seen_def split: if_split_asm)
next
  fix x d d' assume ok: "ledger_ok e d" and ask: "submit_ask e ch ref actor run req x d = (d', True)"
    and new: "submit_seen e ch ref actor req d = None"
  have may: "submit_may e ch ref actor req d" using ask by (rule submit_ask_may)
  obtain t where t: "task_at e d ch ref actor = Some t"
    using may by (auto simp: submit_may_def split: option.split_asm)
  let ?c = "the (t_contract t)"
  have w: "submit_write (env_at e x) d t ?c actor run req = Some d'"
    using ask new t unfolding submit_ask_def Let_def submit_delivery_cases [OF may t]
    by (auto simp: submit_seen_def split: option.split_asm)
  have inv': "db_inv d'"
    using submit_delivery_inv [of d "env_at e x" ch ref actor run req] ok ask
    by (simp add: submit_ask_def Let_def ledger_ok_def)
  obtain F s where F: "\<And>t. t \<in> set (tasks d) \<Longrightarrow> same_scope_names t (F t)"
    "\<And>ch ref u. task_at e d' ch ref u = map_option F (task_at e d ch ref u)"
    "submissions d' = submissions d @ [s]" "s_task s = t_id t" "s_key s = sub_key req" "s_by s = actor"
    "s_hash s = hash_submit (env_at e x) req" "tasks d' = map F (tasks d)"
    using submit_write_effect [OF _ w] ok unfolding ledger_ok_def task_at_env by metis
  have Ft: "same_scope_names t (F t)" using F(1) task_at_row [OF t] by blast
  have "canonical_ids e d'"
    using ok F(1) unfolding ledger_ok_def canonical_ids_def F(8) by (simp add: same_scope_names_def same_names_def)
  moreover have "submit_may e ch ref actor req d'"
    using may t Ft by (simp add: submit_may_def F(2) same_scope_names_def)
  moreover have "submit_seen e ch ref actor req d' = Some (hash_submit e req)"
    using new t Ft F(4-7) by (simp add: submit_seen_def F(2,3) find_snoc same_scope_names_def same_names_def)
  ultimately show "ledger_ok e d' \<and> submit_may e ch ref actor req d' \<and>
      submit_seen e ch ref actor req d' = Some (hash_submit e req)"
    using inv' by (simp add: ledger_ok_def)
qed

section \<open>Reviews\<close>

text \<open>
  The requests of the reviewer the contract names. (A creator who may review because the automatic
  review gave up loses that right with the delivery row the review itself deletes.)
\<close>

definition gate_reviewer :: "env \<Rightarrow> id \<Rightarrow> string \<Rightarrow> id \<Rightarrow> db \<Rightarrow> bool" where
  "gate_reviewer e ch ref actor d \<longleftrightarrow>
     (case task_at e d ch ref actor of
        None \<Rightarrow> True
      | Some t \<Rightarrow> (case t_contract t of None \<Rightarrow> True | Some c \<Rightarrow> reviewer_id (gate c) = actor))"

definition review_may :: "env \<Rightarrow> id \<Rightarrow> string \<Rightarrow> id \<Rightarrow> task_review_request \<Rightarrow> db \<Rightarrow> bool" where
  "review_may e ch ref actor req d \<longleftrightarrow>
     review_request_error e req = None \<and>
     (case task_at e d ch ref actor of
        None \<Rightarrow> False
      | Some t \<Rightarrow> coalesce (t_claimer t) \<noteq> actor \<and>
          (case t_contract t of None \<Rightarrow> False | Some c \<Rightarrow> reviewer_id (gate c) = actor))"

definition review_seen :: "env \<Rightarrow> id \<Rightarrow> string \<Rightarrow> id \<Rightarrow> task_review_request \<Rightarrow> db \<Rightarrow> string option option" where
  "review_seen e ch ref actor req d =
     (case task_at e d ch ref actor of
        None \<Rightarrow> None
      | Some t \<Rightarrow> map_option r_hash
          (find (\<lambda>r. r_submission r = uuid_parse e (rv_submission req) \<and> r_key r = Some (rv_key req) \<and>
                   r_reviewer r = actor \<and> r_task r = t_id t) (reviews d)))"

definition review_ask ::
    "env \<Rightarrow> id \<Rightarrow> string \<Rightarrow> id \<Rightarrow> task_review_request \<Rightarrow> time \<times> id \<Rightarrow> db \<Rightarrow> db \<times> bool" where
  "review_ask e ch ref actor req x d =
     (let r = review_delivery (env_at e x) d ch ref actor req in (result_db r, is_ok (result r)))"

lemma review_error_env [simp]: "review_request_error (env_at e x) req = review_request_error e req"
proof -
  have "evidence_item_error (env_at e x) = evidence_item_error e"
    unfolding evidence_item_error_def env_at_simps by (rule refl)
  then have "evidence_loop (env_at e x) seen is = evidence_loop e seen is" for seen "is"
    by (induction "is" arbitrary: seen) (simp_all cong: if_cong option.case_cong)
  then show ?thesis by (simp add: review_request_error_def validate_evidence_def)
qed

lemma review_write_effect:
  assumes inv: "db_inv d" and w: "review_write e d t sid actor req = Some d'"
  obtains F r where "\<And>t. t \<in> set (tasks d) \<Longrightarrow> same_scope_names t (F t)"
    "\<And>ch ref u. task_at e d' ch ref u = map_option F (task_at e d ch ref u)"
    "reviews d' = reviews d @ [r]" "r_task r = t_id t" "r_key r = Some (rv_key req)" "r_reviewer r = actor"
    "r_submission r = Some sid" "r_hash r = Some (hash_review e req)" "tasks d' = map F (tasks d)"
proof -
  let ?r = "\<lparr>r_task = t_id t, r_reviewer = actor, r_decision = rv_decision req, r_reason = rv_reason req,
            r_artifact = None, r_next_owner = nullable (coalesce (t_claimer t)), r_submission = Some sid,
            r_evidence = rv_evidence req, r_checks = rv_checks req, r_key = Some (rv_key req),
            r_hash = Some (hash_review e req)\<rparr>"
  let ?f = "\<lambda>r. r\<lparr>t_status := next_status (rv_decision req), t_updated := now e\<rparr>"
  obtain d1 where d1: "insert_review ?r d = Some d1"
    using w by (simp add: review_write_def split: option.split_asm)
  then have i: "d1 = d\<lparr>reviews := reviews d @ [?r]\<rparr>"
    by (simp add: insert_review_def split: if_split_asm)
  obtain d2 n where d2: "update_task (t_id t) (\<lambda>_. True) ?f d1 = Some (d2, n)"
    using w d1 by (simp add: review_write_def split: option.split_asm prod.split_asm)
  have key: "keyed t_id (tasks d1)" using db_invD(6) [OF inv] i by simp
  obtain F where F: "\<And>t. t \<in> set (tasks d1) \<Longrightarrow> same_scope_names t (F t)" "tasks d2 = map F (tasks d1)"
    "d2 = d1\<lparr>tasks := tasks d2, waits := waits d2\<rparr>"
    by (rule update_task_map [OF key d2]) (auto simp: same_scope_names_def same_names_def)
  have d': "d' = d2\<lparr>deliveries := deliveries d'\<rparr>"
    using w d1 d2 by (auto simp: review_write_def split: option.split_asm)
  have T: "tasks d' = map F (tasks d)" "reviews d' = reviews d @ [?r]"
    "channels d' = channels d" "members d' = members d" "messages d' = messages d"
    using F(2) i by (subst d', subst F(3), simp)+
  have names: "same_scope_names t (F t)" if "t \<in> set (tasks d)" for t
    using F(1) [of t] that i by simp
  show ?thesis
  proof (rule that [of F ?r])
    show "task_at e d' ch ref u = map_option F (task_at e d ch ref u)" for ch ref u
      by (rule task_at_map [OF _ T(1,3,4,5)]) (use names in \<open>simp add: same_scope_names_def\<close>)
  qed (simp_all add: names T(1,2))
qed

lemma review_delivery_cases:
  assumes may: "review_may e ch ref actor req d" and t: "task_at e d ch ref actor = Some t"
  obtains sid where "uuid_parse e (rv_submission req) = Some sid"
   "review_delivery (env_at e x) d ch ref actor req =
     (case find (\<lambda>r. r_submission r = Some sid \<and> r_key r = Some (rv_key req) \<and> r_reviewer r = actor \<and>
                     r_task r = t_id t) (reviews d) of
        Some r \<Rightarrow>
          if r_hash r \<noteq> Some (hash_review e req) then fail d ErrTaskVersionConflict
          else refetch (env_at e x) d ch (t_id t) actor (\<lambda>_. [])
      | None \<Rightarrow>
     (case review_guard (env_at e x) d t (the (t_contract t)) sid actor req of
        Some err \<Rightarrow> fail d err
      | None \<Rightarrow>
     (case review_write (env_at e x) d t sid actor req of
        None \<Rightarrow> fail d ErrDatabase
      | Some d' \<Rightarrow>
          refetch (env_at e x) d' ch (t_id t) actor
            (\<lambda>_. if rv_decision req = ''rejected''
                 then notify (env_at e x) (NotifyRejected (t_id t) actor (rv_reason req)) else []))))"
proof -
  have g: "get_task (env_at e x) d ch ref actor = Inr (view_of (env_at e x) d actor t)"
    using t by (simp add: get_task_at)
  obtain c where c: "t_contract t = Some c" "coalesce (t_claimer t) \<noteq> actor" "review_request_error e req = None"
    "reviewer_id (gate c) = actor"
    using may t by (auto simp: review_may_def split: option.split_asm)
  obtain sid where sid: "uuid_parse e (rv_submission req) = Some sid"
    using c(3) by (auto simp: review_request_error_def split: if_split_asm)
  have m: "may_review d t c sid actor" using c by (simp add: may_review_def)
  show ?thesis
  proof (rule that [OF sid], goal_cases)
    case 1
    show ?case
      unfolding review_delivery_def review_error_env c(3) option.case env_at_simps sid g sum.case Let_def
        v_row_view c(1) option.sel
      using m by simp
  qed
qed

lemma review_ask_may:
  assumes g: "gate_reviewer e ch ref actor d" and ask: "review_ask e ch ref actor req x d = (d', True)"
  shows "review_may e ch ref actor req d"
proof -
  have ok: "is_ok (result (review_delivery (env_at e x) d ch ref actor req))"
    using ask by (simp add: review_ask_def Let_def)
  have err: "review_request_error e req = None"
    using ok by (cases "review_request_error e req") (simp_all add: review_delivery_def)
  then obtain sid where sid: "uuid_parse e (rv_submission req) = Some sid"
    by (auto simp: review_request_error_def split: if_split_asm)
  obtain v where v: "get_task (env_at e x) d ch ref actor = Inr v"
    using ok err sid by (cases "get_task (env_at e x) d ch ref actor") (simp_all add: review_delivery_def)
  then obtain t where t: "task_at e d ch ref actor = Some t" "v_row v = t"
    by (metis get_task_at task_at_env v_row_view)
  obtain c where c: "t_contract t = Some c" "may_review d t c sid actor"
    using ok err sid v t by (auto simp: review_delivery_def Let_def split: if_split_asm option.split_asm)
  with g t(1) err show ?thesis by (simp add: review_may_def gate_reviewer_def may_review_def)
qed

interpretation review_ledger: request_ledger "\<lambda>d. ledger_ok e d \<and> gate_reviewer e ch ref actor d"
    "review_may e ch ref actor req" "review_seen e ch ref actor req" "review_ask e ch ref actor req"
    "Some (hash_review e req)"
  for e ch ref actor req
proof
  fix x d d' assume "ledger_ok e d \<and> gate_reviewer e ch ref actor d"
    and "review_ask e ch ref actor req x d = (d', True)"
  then show "review_may e ch ref actor req d" using review_ask_may by blast
next
  fix x d h' assume ok: "ledger_ok e d \<and> gate_reviewer e ch ref actor d"
    and may: "review_may e ch ref actor req d" and seen: "review_seen e ch ref actor req d = Some h'"
  obtain t where t: "task_at e d ch ref actor = Some t"
    using may by (auto simp: review_may_def split: option.split_asm)
  have "task_at e d ch (t_id t) actor = Some t"
    using task_at_id ok t by (simp add: ledger_ok_def)
  then have ok1: "is_ok (result (refetch (env_at e x) d ch (t_id t) actor effs))" for effs
    by (simp add: refetch_ok)
  show "review_ask e ch ref actor req x d = (d, h' = Some (hash_review e req))"
    unfolding review_ask_def Let_def
    by (rule review_delivery_cases [OF may t, of x])
      (use seen t ok1 in \<open>auto simp: review_seen_def split: if_split_asm\<close>)
next
  fix x d d' assume ok: "ledger_ok e d \<and> gate_reviewer e ch ref actor d"
    and ask: "review_ask e ch ref actor req x d = (d', True)" and new: "review_seen e ch ref actor req d = None"
  have may: "review_may e ch ref actor req d" using ok ask review_ask_may by blast
  obtain t where t: "task_at e d ch ref actor = Some t"
    using may by (auto simp: review_may_def split: option.split_asm)
  obtain sid where sid: "uuid_parse e (rv_submission req) = Some sid"
    and w: "review_write (env_at e x) d t sid actor req = Some d'"
    by (rule review_delivery_cases [OF may t, of x])
      (use ask new t in \<open>auto simp: review_ask_def Let_def review_seen_def split: option.split_asm\<close>)
  have inv': "db_inv d'"
    using review_delivery_inv [of d "env_at e x" ch ref actor req] ok ask
    by (simp add: review_ask_def Let_def ledger_ok_def)
  obtain F r where F: "\<And>t. t \<in> set (tasks d) \<Longrightarrow> same_scope_names t (F t)"
    "\<And>ch ref u. task_at e d' ch ref u = map_option F (task_at e d ch ref u)"
    "reviews d' = reviews d @ [r]" "r_task r = t_id t" "r_key r = Some (rv_key req)" "r_reviewer r = actor"
    "r_submission r = Some sid" "r_hash r = Some (hash_review (env_at e x) req)" "tasks d' = map F (tasks d)"
    using review_write_effect [OF _ w] ok unfolding ledger_ok_def task_at_env by metis
  have Ft: "same_scope_names t (F t)" using F(1) task_at_row [OF t] by blast
  have "canonical_ids e d'"
    using ok F(1) unfolding ledger_ok_def canonical_ids_def F(9) by (simp add: same_scope_names_def same_names_def)
  moreover have "review_may e ch ref actor req d'" "gate_reviewer e ch ref actor d'"
    using may ok t Ft by (simp_all add: review_may_def gate_reviewer_def F(2) same_scope_names_def)
  moreover have "review_seen e ch ref actor req d' = Some (Some (hash_review e req))"
    using new t Ft F(4-8) sid
    by (simp add: review_seen_def F(2,3) find_snoc same_scope_names_def same_names_def)
  ultimately show "(ledger_ok e d' \<and> gate_reviewer e ch ref actor d') \<and> review_may e ch ref actor req d' \<and>
      review_seen e ch ref actor req d' = Some (Some (hash_review e req))"
    using inv' by (simp add: ledger_ok_def)
qed

end
