(* ===== verification/Task_Theorems.thy ===== *)
theory Task_Theorems
  imports Task_Replay
begin

text \<open>
  The properties of the task services: what a finished task with a contract rests on, who may
  claim, submit, review and change it, that a repeated request is answered without a second
  effect, and that waits neither form a cycle nor fire early.
\<close>

section \<open>Finished work\<close>

definition independent_acceptance :: "db \<Rightarrow> task_row \<Rightarrow> bool" where
  "independent_acceptance d t \<longleftrightarrow>
     list_ex (\<lambda>s. t_submission t = Some (s_id s) \<and> s_task s = t_id t \<and>
       list_ex (\<lambda>r. r_submission r = Some (s_id s) \<and> r_decision r = ''accepted'' \<and>
         r_reviewer r \<noteq> s_by s \<and> acceptance_complete s r) (reviews d)) (submissions d)"

text \<open>
  C1. In every state the task services reach, however their requests interleave, a task with a
  contract that is done has a submission that another actor than its author accepted, with a
  passed, evidenced check of every requirement (or a human decision that claims none).
\<close>

theorem done_is_independently_accepted:
  "\<forall>t \<in> set (tasks (reachable_db ops)).
     t_contract t \<noteq> None \<and> t_status t = TaskStatusDone \<longrightarrow> independent_acceptance (reachable_db ops) t"
proof (intro ballI impI)
  fix t assume t: "t \<in> set (tasks (reachable_db ops))" "t_contract t \<noteq> None \<and> t_status t = TaskStatusDone"
  obtain s r where a: "accepted_delivery (reachable_db ops) t s r"
    using db_invD(4) [OF reachable_inv [of ops]] t unfolding delivery_inv_def by metis
  then obtain s' where s': "s' \<in> set (submissions (reachable_db ops))" "s_id s' = s_id s"
    "r_reviewer r \<noteq> s_by s'" "acceptance_complete s' r"
    using db_invD(3) [OF reachable_inv [of ops]] unfolding reviews_inv_def accepted_delivery_def by metis
  then have "s' = s"
    using a db_invD(2) [OF reachable_inv [of ops]] keyed_unique
    unfolding submissions_inv_def accepted_delivery_def by metis
  with a s' show "independent_acceptance (reachable_db ops) t"
    unfolding independent_acceptance_def accepted_delivery_def list_ex_iff by metis
qed

text \<open>
  C2. A submission is decided at most once: in every reachable state no two final reviews
  (accepted or rejected) are about the same submission.
\<close>

theorem one_final_decision:
  "distinct (map r_submission (filter final_review (reviews (reachable_db ops))))"
  using db_invD(3) [OF reachable_inv] unfolding reviews_inv_def by blast

text \<open>
  C4. An active wait is never stale: in every reachable state the task of a waiting row is in
  progress, at the version the wait was registered for, and held by the agent the wait resumes;
  and no task has two active waits.
\<close>

theorem active_waits_are_current:
  "(\<forall>w \<in> set (waits (reachable_db ops)). w_status w = Waiting \<longrightarrow>
      (\<exists>t \<in> set (tasks (reachable_db ops)). t_id t = w_task w \<and> t_version t = w_version w \<and>
         t_status t = TaskStatusInProgress \<and> t_claimer t = Some (w_agent w))) \<and>
   distinct (map w_task (filter (\<lambda>w. w_status w = Waiting) (waits (reachable_db ops))))"
proof -
  have W: "waits_inv (reachable_db ops)" by (rule db_invD(5) [OF reachable_inv])
  let ?ws = "filter (\<lambda>w. w_status w = Waiting) (waits (reachable_db ops))"
  have "w = w'" if "w \<in> set ?ws" "w' \<in> set ?ws" "w_task w = w_task w'" for w w'
    using that W keyed_unique unfolding waits_inv_def set_filter mem_Collect_eq by metis
  then have "inj_on w_task (set ?ws)" by (rule inj_onI)
  moreover have "distinct ?ws" using W unfolding waits_inv_def keyed_def by (metis distinct_filter distinct_map)
  ultimately have "distinct (map w_task ?ws)" by (simp only: distinct_map)
  then show ?thesis
    using W unfolding waits_inv_def holds_wait_def by blast
qed

section \<open>A concrete run\<close>

text \<open>One channel with a user and an agent; the run creates, claims, delivers and reviews a task.\<close>

definition ex_env :: "string \<Rightarrow> env" where
  "ex_env new_id =
     \<lparr>now = 5, fresh = new_id, uuid_parse = (\<lambda>s. if s = [] then None else Some s), sql_lower = (\<lambda>s. s),
      sha256_hex = (\<lambda>s. s), hash_contract = (\<lambda>_. ''hc''), hash_submit = sub_key, hash_review = rv_key,
      hash_wait = wr_key, json_length_wait = (\<lambda>_. 0), has_notifier = True, gen_artifact = None\<rparr>"

definition ex_setup :: db where
  "ex_setup = empty_db\<lparr>channels := [\<lparr>ch_id = ''c1'', ch_archived = False\<rparr>],
     members := [\<lparr>m_channel = ''c1'', m_member = ''u1'', m_type = ''user''\<rparr>,
                 \<lparr>m_channel = ''c1'', m_member = ''a1'', m_type = ''agent''\<rparr>],
     agents := [\<lparr>a_id = ''a1'', a_name = ''bob'', a_owner = ''u1'', a_active = True\<rparr>],
     users := [\<lparr>u_id = ''u1'', u_name = ''ann''\<rparr>]\<rparr>"

definition ex_contract :: task_contract where
  "ex_contract = \<lparr>requirements = [\<lparr>rq_id = ''r1'', rq_text = ''it works''\<rparr>],
     gate = \<lparr>human_review_mode = [], gate_code = None, gate_kind = ''human'', reviewer_id = [],
             max_revisions = 0\<rparr>\<rparr>"

definition ex_evidence :: task_evidence where
  "ex_evidence = \<lparr>ev_id = ''e1'', ev_description = ''log'', ev_content = ''ok'', ev_uri = [], ev_sha256 = []\<rparr>"

definition ex_handoff :: task_handoff where
  "ex_handoff = \<lparr>ho_summary = ''done'', ho_changes = [], ho_risks = [], ho_next_steps = []\<rparr>"

definition ex_create :: task_create_request where
  "ex_create = \<lparr>cr_contract = Some ex_contract, cr_title = ''t'', cr_description = [], cr_priority = [],
     cr_due = None, cr_message = [], cr_parent = [], cr_assignee = []\<rparr>"

definition ex_submit :: task_submit_request where
  "ex_submit = \<lparr>sub_expected_version = 2, sub_key = ''k1'', sub_artifact = ''v1'', sub_handoff = ex_handoff,
     sub_evidence = [ex_evidence]\<rparr>"

definition ex_review :: task_review_request where
  "ex_review = \<lparr>rv_code_gate_run = [], rv_submission = ''s1'', rv_artifact = ''v1'', rv_decision = ''accepted'',
     rv_reason = ''fine'', rv_checks = [\<lparr>ck_requirement = ''r1'', ck_passed = True, ck_evidence = [''e1''],
     ck_reason = ''seen''\<rparr>], rv_evidence = [], rv_key = ''k2''\<rparr>"

definition ex_ops :: "(env \<times> task_op) list" where
  "ex_ops =
     [(ex_env ''x'', OtherTables ex_setup),
      (ex_env ''t1'', CreateTask ''c1'' ''u1'' ex_create),
      (ex_env ''x'', ClaimTask ''c1'' ''t1'' ''a1''),
      (ex_env ''s1'', SubmitDelivery ''c1'' ''t1'' ''a1'' [] ex_submit),
      (ex_env ''x'', ReviewDelivery ''c1'' ''t1'' ''u1'' ex_review)]"

lemma ex_done:
  "map (\<lambda>t. (t_id t, t_status t, t_contract t = None)) (tasks (reachable_db ex_ops)) = [(''t1'', TaskStatusDone, False)]"
  by code_simp

theorem done_is_independently_accepted_witness:
  "\<exists>t \<in> set (tasks (reachable_db ex_ops)). t_contract t \<noteq> None \<and> t_status t = TaskStatusDone \<and>
     independent_acceptance (reachable_db ex_ops) t"
proof -
  obtain t where "tasks (reachable_db ex_ops) = [t]" "t_status t = TaskStatusDone" "t_contract t \<noteq> None"
    using ex_done by (auto simp: map_eq_Cons_conv)
  then show ?thesis using done_is_independently_accepted [of ex_ops] by simp
qed

definition ex_condition :: task_wait_condition where
  "ex_condition = \<lparr>wc_kind = ''at_time'', wc_task = [], wc_at = Some 3, wc_description = []\<rparr>"

definition ex_wait :: task_wait_request where
  "ex_wait = \<lparr>wr_expected_version = 2, wr_key = ''k9'', wr_condition = ex_condition, wr_handoff = ex_handoff,
     wr_next_action = ''go on''\<rparr>"

definition ex_wait_ops :: "(env \<times> task_op) list" where
  "ex_wait_ops = take 3 ex_ops @ [(ex_env ''w1'', WaitTask ''c1'' ''t1'' ''a1'' ex_wait)]"

lemma ex_waiting: "map (\<lambda>w. (w_id w, w_status w)) (waits (reachable_db ex_wait_ops)) = [(''w1'', Waiting)]"
  by code_simp

theorem active_waits_are_current_witness:
  "\<exists>w \<in> set (waits (reachable_db ex_wait_ops)). w_status w = Waiting \<and>
     (\<exists>t \<in> set (tasks (reachable_db ex_wait_ops)). t_id t = w_task w \<and> t_status t = TaskStatusInProgress)"
proof -
  obtain w where w: "waits (reachable_db ex_wait_ops) = [w]" "w_status w = Waiting"
    using ex_waiting by (auto simp: map_eq_Cons_conv)
  then show ?thesis using active_waits_are_current [of ex_wait_ops] by auto
qed

section \<open>Repeated requests\<close>

text \<open>
  A submission that succeeded may be sent again, at any time and with any fresh id: it succeeds,
  and the database stays as the first one left it.
\<close>

theorem submission_is_idempotent:
  assumes "db_inv d" "canonical_ids e d"
    and "is_ok (result (submit_delivery (env_at e x) d ch ref actor run req))"
  shows "let d' = result_db (submit_delivery (env_at e x) d ch ref actor run req)
         in is_ok (result (submit_delivery (env_at e y) d' ch ref actor run req)) \<and>
            result_db (submit_delivery (env_at e y) d' ch ref actor run req) = d'"
  using submit_ledger.replay [of e d ch ref actor run req x _ y] assms
  by (simp add: submit_ask_def Let_def ledger_ok_def)

lemma env_at_id: "env_at e (now e, fresh e) = e"
  by (simp add: env_at_def)

theorem submission_is_idempotent_witness:
  "let d = reachable_db (take 3 ex_ops);
       d' = result_db (submit_delivery (env_at (ex_env ''s1'') (5, ''s1'')) d ''c1'' ''t1'' ''a1'' [] ex_submit)
   in length (submissions d') = 1 \<and>
      result_db (submit_delivery (env_at (ex_env ''s1'') (9, ''s2'')) d' ''c1'' ''t1'' ''a1'' [] ex_submit) = d'"
proof -
  let ?d = "reachable_db (take 3 ex_ops)"
  have "canonical_ids (ex_env ''s1'') ?d" by (simp add: canonical_ids_def ex_env_def)
  moreover have "is_ok (result (submit_delivery (env_at (ex_env ''s1'') (5, ''s1'')) ?d ''c1'' ''t1'' ''a1'' [] ex_submit)) \<and>
      length (submissions (result_db
        (submit_delivery (env_at (ex_env ''s1'') (5, ''s1'')) ?d ''c1'' ''t1'' ''a1'' [] ex_submit))) = 1"
    by code_simp
  ultimately show ?thesis
    using submission_is_idempotent [OF reachable_inv, of "ex_env ''s1''" "take 3 ex_ops" "(5, ''s1'')" "''c1''" "''t1''" "''a1''"
        "[]" ex_submit "(9, ''s2'')"] by (simp add: Let_def)
qed

text \<open>
  The same of a review by the reviewer the contract names: sent again, even when it has moved
  the task on, it succeeds and changes nothing.
\<close>

theorem review_is_idempotent:
  assumes "db_inv d" "canonical_ids e d" "gate_reviewer e ch ref actor d"
    and "is_ok (result (review_delivery (env_at e x) d ch ref actor req))"
  shows "let d' = result_db (review_delivery (env_at e x) d ch ref actor req)
         in is_ok (result (review_delivery (env_at e y) d' ch ref actor req)) \<and>
            result_db (review_delivery (env_at e y) d' ch ref actor req) = d'"
  using review_ledger.replay [where e = e and d = d and ch = ch and ref = ref and actor = actor and req = req and x = x and y = y] assms
  by (simp add: review_ask_def Let_def ledger_ok_def)

theorem review_is_idempotent_witness:
  "let d = reachable_db (take 4 ex_ops);
       d' = result_db (review_delivery (env_at (ex_env ''x'') (5, ''x'')) d ''c1'' ''t1'' ''u1'' ex_review)
   in map t_status (tasks d') = [TaskStatusDone] \<and>
      result_db (review_delivery (env_at (ex_env ''x'') (9, ''y'')) d' ''c1'' ''t1'' ''u1'' ex_review) = d'"
proof -
  let ?d = "reachable_db (take 4 ex_ops)"
  have "canonical_ids (ex_env ''x'') ?d" by (simp add: canonical_ids_def ex_env_def)
  moreover have "gate_reviewer (ex_env ''x'') ''c1'' ''t1'' ''u1'' ?d" by code_simp
  moreover have "is_ok (result (review_delivery (env_at (ex_env ''x'') (5, ''x'')) ?d ''c1'' ''t1'' ''u1'' ex_review)) \<and>
      map t_status (tasks (result_db
        (review_delivery (env_at (ex_env ''x'') (5, ''x'')) ?d ''c1'' ''t1'' ''u1'' ex_review))) = [TaskStatusDone]"
    by code_simp
  ultimately show ?thesis
    using review_is_idempotent [OF reachable_inv, of "ex_env ''x''" "take 4 ex_ops" "''c1''" "''t1''" "''u1''"
        "(5, ''x'')" ex_review "(9, ''y'')"] by (simp add: Let_def)
qed

text \<open>
  A wait that was registered may be asked for again and again: every repetition answers and leaves
  the database as it is.
\<close>

theorem wait_is_idempotent:
  assumes "wait_task (env_at e x) d ch tid actor req = Inr (d', wid)"
  shows "\<exists>wid'. wait_task (env_at e y) d' ch tid actor req = Inr (d', wid')"
  using wait_ledger.replay [of e ch tid actor req x d d' y] assms
  by (auto simp: wait_ask_def split: sum.split_asm)

theorem wait_is_idempotent_witness:
  "\<exists>d' wid'. wait_task (env_at (ex_env ''w1'') (5, ''w1'')) (reachable_db (take 3 ex_ops)) ''c1'' ''t1'' ''a1'' ex_wait
       = Inr (d', ''w1'') \<and>
     wait_task (env_at (ex_env ''w1'') (8, ''w2'')) d' ''c1'' ''t1'' ''a1'' ex_wait = Inr (d', wid')"
proof -
  have "map_sum id snd (wait_task (env_at (ex_env ''w1'') (5, ''w1'')) (reachable_db (take 3 ex_ops))
          ''c1'' ''t1'' ''a1'' ex_wait) = Inr ''w1''"
    by code_simp
  then obtain d' where "wait_task (env_at (ex_env ''w1'') (5, ''w1'')) (reachable_db (take 3 ex_ops))
          ''c1'' ''t1'' ''a1'' ex_wait = Inr (d', ''w1'')"
    by (cases "wait_task (env_at (ex_env ''w1'') (5, ''w1'')) (reachable_db (take 3 ex_ops)) ''c1'' ''t1'' ''a1'' ex_wait")
      auto
  with wait_is_idempotent [OF this] show ?thesis by blast
qed

section \<open>Who may change a task\<close>

lemma row_by_update_row:
  "row_by key k t = Some old \<Longrightarrow> key new = k \<Longrightarrow>
   row_by key k (update_where (\<lambda>r. key r = k) (\<lambda>_. new) t) = Some new"
  by (induction t) (auto simp: row_by_def update_where_def split: if_split_asm)

lemma row_by_update_other:
  "key new = k \<Longrightarrow> k' \<noteq> k \<Longrightarrow> row_by key k' (update_where (\<lambda>r. key r = k) (\<lambda>_. new) t) = row_by key k' t"
  by (induction t) (auto simp: row_by_def update_where_def)

lemma updated_row:
  assumes "row_updated tid g f d d' old new" "t_id (f old) = tid"
  shows "row_by t_id tid (tasks d') = Some new \<and> (\<forall>k. k \<noteq> tid \<longrightarrow> row_by t_id k (tasks d') = row_by t_id k (tasks d))"
proof -
  have "t_id new = tid" using assms bump_keeps [of d old "f old" new] by (simp add: row_updated_def)
  then show ?thesis
    using assms(1) by (simp add: row_updated_def row_by_update_row row_by_update_other)
qed

text \<open>An update of a row that is there and meets the guard happens.\<close>

lemma update_task_happens:
  assumes inv: "db_inv d" and t: "t \<in> set (tasks d)" "t_id t = tid" "g t"
    and upd: "update_task tid g f d = Some (d', n)"
  obtains new where "row_updated tid g f d d' t new" "n = 1"
proof -
  have row: "row_by t_id tid (tasks d) = Some t"
    using row_by_SomeI [OF db_invD(6) [OF inv] t(1)] t(2) by simp
  obtain new where "bump_task_version d t (f t) = Some new"
    using upd row t(3) by (auto simp: update_task_def split: option.split_asm)
  from update_task_row [OF row t(3) this upd] that show ?thesis by blast
qed

text \<open>
  C5. A claim never takes a task from another actor, and only claims open work: it succeeds on a task
  that is neither done, closed nor in review and is unclaimed or already the actor's, moves a task
  that is to do to in progress, and changes no other task.
\<close>

theorem claim_never_steals:
  assumes inv: "db_inv d" and claim: "claim_task_tx e d ch tid u = Inr d'"
  shows "\<exists>t t'. row_by t_id tid (tasks d) = Some t \<and> coalesce (t_claimer t) \<in> {[], u} \<and>
    t_status t \<notin> {TaskStatusDone, TaskStatusClosed, TaskStatusInReview} \<and>
    row_by t_id tid (tasks d') = Some t' \<and> t_claimer t' = Some u \<and>
    t_status t' = (if t_status t = TaskStatusTodo then TaskStatusInProgress else t_status t) \<and>
    (\<forall>k. k \<noteq> tid \<longrightarrow> row_by t_id k (tasks d') = row_by t_id k (tasks d))"
proof -
  obtain t where t: "find (\<lambda>t. t_id t = tid \<and> t_channel t = Some ch) (tasks d) = Some t"
    using claim by (simp add: claim_task_tx_def split: option.split_asm)
  note m = find_task_row [OF t]
  let ?st = "if t_status t = TaskStatusTodo then TaskStatusInProgress else t_status t"
  let ?f = "\<lambda>r. r\<lparr>t_claimer := Some u, t_status := ?st, t_updated := now e\<rparr>"
  have ok: "coalesce (t_claimer t) \<in> {[], u}" "t_status t \<notin> {TaskStatusDone, TaskStatusClosed, TaskStatusInReview}"
    using claim t by (auto simp: claim_task_tx_def terminal_statuses_def split: if_split_asm)
  obtain d1 n where upd: "update_task tid (\<lambda>r. t_channel r = Some ch) ?f d = Some (d1, n)"
    using claim t by (simp add: claim_task_tx_def Let_def split: if_split_asm option.split_asm prod.split_asm)
  obtain new where new: "row_updated tid (\<lambda>r. t_channel r = Some ch) ?f d d1 t new"
    using update_task_happens [OF inv _ _ _ upd] m by metis
  have rows: "tasks d' = tasks d1"
    using claim t upd by (auto simp: claim_task_tx_def Let_def split: if_split_asm option.split_asm)
  have b: "bump_task_version d t (?f t) = Some new" using new by (simp add: row_updated_def)
  have "t_status new = ?st"
    by (rule bump_cases [OF b]) (use ok in \<open>auto simp: bumped_def\<close>)
  moreover have "t_claimer new = Some u" using bump_keeps [OF b] by simp
  moreover have "row_by t_id tid (tasks d) = Some t" using new by (simp add: row_updated_def)
  ultimately show ?thesis
    using updated_row [OF new] ok m rows by auto
qed

theorem claim_never_steals_witness:
  "\<exists>d'. claim_task_tx (ex_env ''x'') (reachable_db (take 2 ex_ops)) ''c1'' ''t1'' ''a1'' = Inr d' \<and>
     map_option t_claimer (row_by t_id ''t1'' (tasks d')) = Some (Some ''a1'')"
proof -
  have "is_ok (claim_task_tx (ex_env ''x'') (reachable_db (take 2 ex_ops)) ''c1'' ''t1'' ''a1'')" by code_simp
  then obtain d' where d': "claim_task_tx (ex_env ''x'') (reachable_db (take 2 ex_ops)) ''c1'' ''t1'' ''a1'' = Inr d'"
    by (auto simp: is_ok_def split: sum.split_asm)
  from claim_never_steals [OF reachable_inv d'] d' show ?thesis by auto
qed

text \<open>
  An edit of a task with a contract is optimistic: when it succeeds, the editor is the task's
  creator, named the version the task was at, and the task was not finished; afterwards it is at
  that version or the next one, and if the edit changed its scope while it was in review, its
  delivery is withdrawn and it is open again.
\<close>

theorem contracted_edit_is_optimistic:
  assumes inv: "db_inv d" and t: "task_at e d ch ref u = Some t" "t_contract t \<noteq> None"
    and ok: "is_ok (result (update_task_request e vc d ch ref u req))"
  shows "t_creator t = u \<and> up_expected_version req = t_version t \<and> \<not> terminal_statuses (t_status t) \<and>
    (\<exists>t'. row_by t_id (t_id t) (tasks (result_db (update_task_request e vc d ch ref u req))) = Some t' \<and>
       t_version t' = (if same_scope t' t then t_version t else t_version t + 1) \<and>
       (t_contract t' \<noteq> None \<and> t_status t = TaskStatusInReview \<and> \<not> same_scope t' t \<longrightarrow>
          t_submission t' = None \<and> t_status t' \<in> {TaskStatusTodo, TaskStatusInProgress}))"
proof -
  have g: "get_task e d ch ref u = Inr (view_of e d u t)" using t by (simp add: get_task_at)
  note row = task_at_row [OF t(1)]
  have guards: "t_creator t = u" "up_expected_version req = t_version t" "\<not> terminal_statuses (t_status t)"
    using ok t(2) row by (auto simp: update_task_request_def g Let_def split: if_split_asm)
  let ?f = "\<lambda>contract r. r\<lparr>t_title := (case up_title req of None \<Rightarrow> t_title t | Some x \<Rightarrow> x),
                       t_description :=
                         nullable (case up_description req of None \<Rightarrow> coalesce (t_description t) | Some x \<Rightarrow> x),
                       t_status := t_status t,
                       t_priority := (case up_priority req of None \<Rightarrow> t_priority t | Some x \<Rightarrow> x),
                       t_due := (case up_due req of None \<Rightarrow> t_due t | Some x \<Rightarrow> Some x),
                       t_updated := now e, t_contract := contract\<rparr>"
  obtain contract d' n where
    upd: "update_task (t_id t) (\<lambda>r. t_channel r = Some ch \<and> t_version r = t_version t) (?f contract) d = Some (d', n)"
    and db: "result_db (update_task_request e vc d ch ref u req) = d'"
    using ok t(2) row guards
    by (auto simp: update_task_request_def g Let_def split: sum.split_asm if_split_asm option.split_asm)
  obtain new where new: "row_updated (t_id t) (\<lambda>r. t_channel r = Some ch \<and> t_version r = t_version t)
      (?f contract) d d' t new"
    using update_task_happens [OF inv _ _ _ upd, of t] row by auto
  have b: "bump_task_version d t (?f contract t) = Some new" using new by (simp add: row_updated_def)
  have sc: "same_scope new t = same_scope (?f contract t) t" using bump_keeps [OF b] by blast
  have "t_version new = (if same_scope new t then t_version t else t_version t + 1)"
    using bump_version [OF b] sc by simp
  moreover have "t_submission new = None \<and> t_status new \<in> {TaskStatusTodo, TaskStatusInProgress}"
    if w: "t_contract new \<noteq> None" "t_status t = TaskStatusInReview" "\<not> same_scope new t"
  proof (rule bump_cases [OF b])
    assume "t_contract (?f contract t) \<noteq> None \<Longrightarrow> t_status t = TaskStatusInReview \<Longrightarrow> same_scope (?f contract t) t"
    then show ?thesis using w sc bump_keeps [OF b] by metis
  qed simp
  ultimately show ?thesis
    using guards updated_row [OF new] db by simp
qed

definition ex_update :: task_update_request where
  "ex_update = \<lparr>up_contract = None, up_expected_version = 3, up_title = Some ''new'', up_description = None,
     up_status = None, up_priority = None, up_due = None\<rparr>"

theorem contracted_edit_is_optimistic_witness:
  "\<exists>t'. row_by t_id ''t1'' (tasks (result_db (update_task_request (ex_env ''x'') (validate_task_contract (ex_env ''x''))
            (reachable_db (take 4 ex_ops)) ''c1'' ''t1'' ''u1'' ex_update))) = Some t' \<and> t_version t' \<le> 4"
proof -
  let ?e = "ex_env ''x''" and ?d = "reachable_db (take 4 ex_ops)"
  let ?r = "update_task_request ?e (validate_task_contract ?e) ?d ''c1'' ''t1'' ''u1'' ex_update"
  have "map_option (\<lambda>t. (t_id t, t_version t, t_contract t = None)) (task_at ?e ?d ''c1'' ''t1'' ''u1'')
          = Some (''t1'', 3, False)" and ok: "is_ok (result ?r)"
    by code_simp+
  then obtain t where t: "task_at ?e ?d ''c1'' ''t1'' ''u1'' = Some t" "t_id t = ''t1''" "t_version t = 3"
    "t_contract t \<noteq> None"
    by auto
  from contracted_edit_is_optimistic [OF reachable_inv t(1,4) ok] t(2,3) show ?thesis
    by (auto split: if_split_asm)
qed

text \<open>
  A new delivery is accepted only from the task's claimer, who is not its reviewer, for work in
  progress at the version the request names, with no open subtask, under the contract's limit of
  revisions; it puts the task in review at the next version and records itself as its submission.
\<close>

theorem new_delivery_requirements:
  assumes inv: "db_inv d" and new: "submit_seen e ch ref actor req d = None"
    and ok: "is_ok (result (submit_delivery e d ch ref actor run req))"
  shows "\<exists>t c t'. task_at e d ch ref actor = Some t \<and> t_contract t = Some c \<and>
    coalesce (t_claimer t) = actor \<and> reviewer_id (gate c) \<noteq> actor \<and>
    t_status t = TaskStatusInProgress \<and> t_version t = sub_expected_version req \<and>
    open_subtasks d (t_id t) = 0 \<and>
    int (count_rows (\<lambda>s. s_task s = t_id t) (submissions d)) < max_revisions (gate c) \<and>
    row_by t_id (t_id t) (tasks (result_db (submit_delivery e d ch ref actor run req))) = Some t' \<and>
    t_status t' = TaskStatusInReview \<and> t_version t' = t_version t + 1 \<and> t_submission t' = Some (fresh e)"
proof -
  define x where "x = (now e, fresh e)"
  have e: "e = env_at e x" by (simp add: x_def env_at_def)
  have may: "submit_may e ch ref actor req d"
    using ok e submit_ask_may [of e ch ref actor run req x d] by (simp add: submit_ask_def Let_def)
  obtain t c where t: "task_at e d ch ref actor = Some t" "t_contract t = Some c" "coalesce (t_claimer t) = actor"
    using may by (auto simp: submit_may_def split: option.split_asm)
  note cases = submit_delivery_cases [OF may t(1), of x run, folded e]
  obtain d' where g: "submit_guard e d t c actor run req = None" and w: "submit_write e d t c actor run req = Some d'"
    and db: "result_db (submit_delivery e d ch ref actor run req) = d'"
    using ok new t(1,2) unfolding cases by (auto simp: submit_seen_def split: option.split_asm)
  let ?f = "\<lambda>r. r\<lparr>t_status := TaskStatusInReview, t_submission := Some (fresh e), t_updated := now e\<rparr>"
  obtain s d1 where ins: "insert_submission s d = Some d1"
    and w1: "(case update_task (t_id t) (\<lambda>_. True) ?f d1 of None \<Rightarrow> None
              | Some (d2, _) \<Rightarrow> Some (tasks d2)) = Some (tasks d')"
    using w by (auto simp: submit_write_def insert_delivery_def split: option.split_asm prod.split_asm if_split_asm)
  then obtain d2 n where d2: "update_task (t_id t) (\<lambda>_. True) ?f d1 = Some (d2, n)" and ts: "tasks d' = tasks d2"
    by (auto split: option.split_asm)
  have d1: "db_inv d1" "tasks d1 = tasks d" using insert_submission_inv [OF inv ins] by (blast, simp)
  have gs: "t_status t = TaskStatusInProgress" "t_version t = sub_expected_version req"
    "reviewer_id (gate c) \<noteq> actor" "open_subtasks d (t_id t) = 0"
    "int (count_rows (\<lambda>s. s_task s = t_id t) (submissions d)) < max_revisions (gate c)"
    using g by (auto simp: submit_guard_def split: if_split_asm)
  obtain new where r: "row_updated (t_id t) (\<lambda>_. True) ?f d1 d2 t new"
    using update_task_happens [OF d1(1) _ _ _ d2, of t] task_at_row [OF t(1)] d1(2) by auto
  have b: "bump_task_version d1 t (?f t) = Some new" using r by (simp add: row_updated_def)
  have "t_status new = TaskStatusInReview \<and> t_submission new = Some (fresh e)"
    by (rule bump_cases [OF b]) (use gs in \<open>simp_all add: bumped_def\<close>)
  moreover have "t_version new = t_version t + 1" using bump_version [OF b] gs by simp
  ultimately show ?thesis using t gs updated_row [OF r] db ts by auto
qed

theorem new_delivery_requirements_witness:
  "\<exists>t'. row_by t_id ''t1'' (tasks (result_db (submit_delivery (ex_env ''s1'') (reachable_db (take 3 ex_ops))
            ''c1'' ''t1'' ''a1'' [] ex_submit))) = Some t' \<and> t_version t' = 3"
proof -
  let ?e = "ex_env ''s1''" and ?d = "reachable_db (take 3 ex_ops)"
  have ok: "is_ok (result (submit_delivery ?e ?d ''c1'' ''t1'' ''a1'' [] ex_submit))"
    and new: "submit_seen ?e ''c1'' ''t1'' ''a1'' ex_submit ?d = None"
    and id: "map_option (\<lambda>t. (t_id t, t_version t)) (task_at ?e ?d ''c1'' ''t1'' ''a1'') = Some (''t1'', 2)"
    by code_simp+
  from new_delivery_requirements [OF reachable_inv new ok] id show ?thesis by auto
qed

text \<open>
  A review that is recorded comes from the reviewer the contract names or, for an escalated
  submission, from the task's human creator, never from the claimer; the task was in review of that
  very submission, at the version and artifact the reviewer saw. It leaves the task done, back in
  progress or still in review by the decision, and clears the automatic review of the submission.
\<close>

theorem review_outcome:
  assumes inv: "db_inv d" and new: "review_seen e ch ref actor req d = None"
    and ok: "is_ok (result (review_delivery e d ch ref actor req))"
  shows "\<exists>t c sid s t'. task_at e d ch ref actor = Some t \<and> t_contract t = Some c \<and>
    uuid_parse e (rv_submission req) = Some sid \<and> may_review d t c sid actor \<and>
    s \<in> set (submissions d) \<and> s_id s = sid \<and> delivered t s \<and> s_artifact s = rv_artifact req \<and>
    t_status t = TaskStatusInReview \<and> actor \<noteq> s_by s \<and>
    (let d' = result_db (review_delivery e d ch ref actor req)
     in row_by t_id (t_id t) (tasks d') = Some t' \<and> t_status t' = next_status (rv_decision req) \<and>
        \<not> exists_row (\<lambda>x. d_submission x = sid) (deliveries d'))"
proof -
  have err: "review_request_error e req = None"
    using ok by (cases "review_request_error e req") (simp_all add: review_delivery_def)
  then obtain sid where sid: "uuid_parse e (rv_submission req) = Some sid"
    by (auto simp: review_request_error_def split: if_split_asm)
  obtain v where v: "get_task e d ch ref actor = Inr v"
    using ok err sid by (cases "get_task e d ch ref actor") (simp_all add: review_delivery_def)
  then obtain t where t: "task_at e d ch ref actor = Some t" "v_row v = t"
    by (metis get_task_at v_row_view)
  have row: "t \<in> set (tasks d)" using task_at_row [OF t(1)] by simp
  obtain c d' where c: "t_contract t = Some c" "may_review d t c sid actor" "review_guard e d t c sid actor req = None"
    and w: "review_write e d t sid actor req = Some d'"
    and db: "result_db (review_delivery e d ch ref actor req) = d'"
    using ok err sid v t new
    by (auto simp: review_delivery_def Let_def review_seen_def split: if_split_asm option.split_asm)
  obtain s where s: "s \<in> set (submissions d)" "s_id s = sid" "delivered t s" "t_status t = TaskStatusInReview"
    "s_artifact s = rv_artifact req"
    using reviewed_submission [OF inv row c(1,3)] by blast
  have other: "actor \<noteq> s_by s" using c(2) s(3) unfolding may_review_def delivered_def by metis
  let ?f = "\<lambda>r. r\<lparr>t_status := next_status (rv_decision req), t_updated := now e\<rparr>"
  obtain r d1 d2 n where d1: "d1 = d\<lparr>reviews := reviews d @ [r]\<rparr>"
    and d2: "update_task (t_id t) (\<lambda>_. True) ?f d1 = Some (d2, n)"
    and d': "d' = d2\<lparr>deliveries := delete_where (\<lambda>x. d_submission x = sid) (deliveries d2)\<rparr>"
    using w by (auto simp: review_write_def insert_review_def split: option.split_asm if_split_asm)
  have row1: "row_by t_id (t_id t) (tasks d1) = Some t"
    using row_by_SomeI [OF db_invD(6) [OF inv] row] d1 by simp
  obtain new where b: "bump_task_version d1 t (?f t) = Some new"
    using d2 row1 by (auto simp: update_task_def split: option.split_asm)
  have r: "row_updated (t_id t) (\<lambda>_. True) ?f d1 d2 t new"
    using update_task_row [OF row1 _ b d2] by simp
  have "t_status new = next_status (rv_decision req)"
    by (rule bump_cases [OF b]) (simp_all add: bumped_def same_scope_def)
  moreover have "row_by t_id (t_id t) (tasks d') = Some new" using updated_row [OF r] d' by simp
  moreover have "\<not> exists_row (\<lambda>x. d_submission x = sid) (deliveries d')"
    unfolding d' exists_row_iff by (simp add: row_simps)
  ultimately show ?thesis using t(1) c sid s other db by (auto simp: Let_def)
qed

theorem review_outcome_witness:
  "\<exists>t'. row_by t_id ''t1'' (tasks (result_db (review_delivery (ex_env ''x'') (reachable_db (take 4 ex_ops))
            ''c1'' ''t1'' ''u1'' ex_review))) = Some t' \<and> t_status t' = TaskStatusDone"
proof -
  let ?e = "ex_env ''x''" and ?d = "reachable_db (take 4 ex_ops)"
  have ok: "is_ok (result (review_delivery ?e ?d ''c1'' ''t1'' ''u1'' ex_review))"
    and new: "review_seen ?e ''c1'' ''t1'' ''u1'' ex_review ?d = None"
    and id: "map_option t_id (task_at ?e ?d ''c1'' ''t1'' ''u1'') = Some ''t1''"
    and dec: "next_status (rv_decision ex_review) = TaskStatusDone"
    by code_simp+
  from review_outcome [OF reachable_inv new ok] id dec show ?thesis by (auto simp: Let_def)
qed

end
