(* ===== verification/Task_Theorems2.thy ===== *)
theory Task_Theorems2
  imports Task_Theorems
begin

text \<open>
  More properties of the task services: what a validated contract guarantees, the graph of
  dependencies between waiting tasks, the resumption of a wait, and two behaviours the source does
  not rule out.
\<close>

section \<open>Contracts\<close>

lemma requirements_okD:
  "requirements_ok seen rs \<Longrightarrow> distinct (map rq_id rs) \<and> set (map rq_id rs) \<inter> set seen = {} \<and>
     (\<forall>r \<in> set rs. delivery_id (rq_id r) \<and> \<not> blank (rq_text r) \<and> length (rq_text r) \<le> 4000)"
  by (induction seen rs rule: requirements_ok.induct) auto

lemma code_checks_covered:
  "code_checks seen covered cs = Inr cov \<Longrightarrow> distinct covered \<Longrightarrow> set covered \<subseteq> set seen \<Longrightarrow>
   cov = rev (map cg_requirement cs) @ covered \<and> distinct cov \<and> set cov \<subseteq> set seen"
proof (induction cs arbitrary: covered)
  case (Cons c cs)
  then have "code_checks seen (cg_requirement c # covered) cs = Inr cov"
    "cg_requirement c \<in> set seen" "cg_requirement c \<notin> set covered"
    by (simp_all split: if_split_asm)
  with Cons show ?case by simp
qed simp

lemma validated_code_gate:
  assumes "validate_code_gate e d creator reviewer seen code = Inr spec" "distinct seen"
  shows "distinct (map cg_requirement (cg_checks spec)) \<and> set (map cg_requirement (cg_checks spec)) = set seen \<and>
    1 \<le> cg_timeout spec \<and> cg_timeout spec \<le> 300 \<and>
    exists_row (\<lambda>a. a_id a = reviewer \<and> a_owner a = creator \<and> a_active a) (agents d)"
proof -
  obtain cov where cov: "code_checks seen [] (cg_checks spec) = Inr cov" "length cov = length seen"
    and rest: "1 \<le> cg_timeout spec \<and> cg_timeout spec \<le> 300 \<and>
      exists_row (\<lambda>a. a_id a = reviewer \<and> a_owner a = creator \<and> a_active a) (agents d)"
    using assms(1) by (auto simp: validate_code_gate_def Let_def not_less split: option.split_asm sum.split_asm if_split_asm)
  have c: "cov = rev (map cg_requirement (cg_checks spec))" "distinct cov" "set cov \<subseteq> set seen"
    using code_checks_covered [OF cov(1)] by (metis append_Nil2 distinct.simps(1) empty_subsetI list.set(1))+
  have "set cov = set seen"
    by (rule covers_all) (use c cov(2) assms(2) in \<open>auto simp: distinct_remdups_id\<close>)
  moreover have "distinct (map cg_requirement (cg_checks spec))" "set (map cg_requirement (cg_checks spec)) = set cov"
    using c by (metis distinct_rev, metis set_rev)
  ultimately show ?thesis using rest by simp
qed

definition contract_ok :: "env \<Rightarrow> db \<Rightarrow> id \<Rightarrow> id \<Rightarrow> task_contract \<Rightarrow> bool" where
  "contract_ok e d ch creator c \<longleftrightarrow>
     requirements c \<noteq> [] \<and> length (requirements c) \<le> 50 \<and> distinct (map rq_id (requirements c)) \<and>
     list_all (\<lambda>r. delivery_id (rq_id r) \<and> \<not> blank (rq_text r)) (requirements c) \<and>
     gate_kind (gate c) \<in> {''human'', ''agent'', ''code''} \<and>
     1 \<le> max_revisions (gate c) \<and> max_revisions (gate c) \<le> 20 \<and>
     (case uuid_parse e (reviewer_id (gate c)) of
        None \<Rightarrow> False
      | Some r \<Rightarrow>
          member_of_kind d ch r (if gate_kind (gate c) = ''human'' then ''user'' else ''agent'') \<and>
          (case gate_code (gate c) of
             None \<Rightarrow> gate_kind (gate c) \<noteq> ''code''
           | Some spec \<Rightarrow>
               gate_kind (gate c) = ''code'' \<and> distinct (map cg_requirement (cg_checks spec)) \<and>
               set (map cg_requirement (cg_checks spec)) = set (map rq_id (requirements c)) \<and>
               exists_row (\<lambda>a. a_id a = r \<and> a_owner a = creator \<and> a_active a) (agents d)))"

text \<open>
  C40. A contract that passes validation is well formed: one to fifty requirements with distinct
  ids, a gate of a known kind with one to twenty revisions, a reviewer who is a member of the channel
  of the kind the gate asks for, and for a code gate exactly one check for each requirement, run by
  an agent the creator owns. Validation only fills in defaults: the requirements stay as they were.
\<close>

theorem validated_contract_is_well_formed:
  assumes "validate_task_contract e d ch creator c = Inr c'"
  shows "contract_ok e d ch creator c' \<and> requirements c' = requirements c"
proof -
  have reqs: "requirements c \<noteq> []" "length (requirements c) \<le> 50" "requirements_ok [] (requirements c)"
    "gate_shape_ok (gate c) = None"
    using assms by (auto simp: validate_task_contract_def Let_def split: if_split_asm option.split_asm)
  note r = requirements_okD [OF reqs(3)]
  have kinds: "gate_kind (gate c) \<in> {''human'', ''agent'', ''code''}"
    using reqs(4) by (auto simp: gate_shape_ok_def split: if_split_asm)
  define g1 where "g1 = (if reviewer_id (gate c) = [] \<and> gate_kind (gate c) = ''human''
                then (gate c)\<lparr>reviewer_id := creator\<rparr> else gate c)"
  define g2 where "g2 = (if max_revisions g1 = 0 then g1\<lparr>max_revisions := 3\<rparr> else g1)"
  have g2: "gate_kind g2 = gate_kind (gate c)" "reviewer_id g2 = reviewer_id g1" by (simp_all add: g1_def g2_def)
  obtain reviewer where rev: "uuid_parse e (reviewer_id g1) = Some reviewer"
    using assms reqs by (auto simp: validate_task_contract_def Let_def g1_def split: option.split_asm if_split_asm)
  obtain g3 where g3: "(if gate_kind g2 = ''code''
            then map_sum id (\<lambda>spec. g2\<lparr>gate_code := Some spec\<rparr>)
                   (validate_code_gate e d creator reviewer (map rq_id (requirements c)) (gate_code g2))
            else if gate_code g2 \<noteq> None
            then Inl (invalid_delivery ''code checks require the code Gate'')
            else Inr g2) = Inr g3"
    and rest: "1 \<le> max_revisions g2" "max_revisions g2 \<le> 20" "c' = c\<lparr>gate := g3\<rparr>"
      "member_of_kind d ch reviewer (if gate_kind g3 = ''agent'' \<or> gate_kind g3 = ''code'' then ''agent'' else ''user'')"
    using assms reqs rev
    unfolding validate_task_contract_def Let_def g1_def [symmetric] g2_def [symmetric]
    by (auto simp: not_less not_le split: if_split_asm sum.split_asm)
  show ?thesis
  proof (cases "gate_kind g2 = ''code''")
    case True
    then obtain spec where v: "validate_code_gate e d creator reviewer (map rq_id (requirements c)) (gate_code g2) = Inr spec"
      and "g3 = g2\<lparr>gate_code := Some spec\<rparr>"
      using g3 by (cases "validate_code_gate e d creator reviewer (map rq_id (requirements c)) (gate_code g2)") auto
    with validated_code_gate [OF v] True reqs r rest rev g2 show ?thesis
      by (simp add: contract_ok_def list_all_iff)
  next
    case False
    then have "g3 = g2" "gate_code g2 = None" using g3 by (simp_all split: if_split_asm)
    with False reqs r rest rev g2 kinds show ?thesis
      by (auto simp: contract_ok_def list_all_iff split: if_split_asm)
  qed
qed

theorem validated_contract_is_well_formed_witness:
  "\<exists>c'. validate_task_contract (ex_env ''x'') ex_setup ''c1'' ''u1'' ex_contract = Inr c' \<and>
     contract_ok (ex_env ''x'') ex_setup ''c1'' ''u1'' c'"
proof -
  have "is_ok (validate_task_contract (ex_env ''x'') ex_setup ''c1'' ''u1'' ex_contract)" by code_simp
  then obtain c' where "validate_task_contract (ex_env ''x'') ex_setup ''c1'' ''u1'' ex_contract = Inr c'"
    by (auto simp: is_ok_def split: sum.split_asm)
  with validated_contract_is_well_formed [OF this] show ?thesis by blast
qed

section \<open>Waiting\<close>

text \<open>
  C6. A wait that is registered never closes a cycle: if no task depended on itself, through the
  tasks it waits for and its open subtasks, then none does afterwards.
\<close>

theorem wait_keeps_dependencies_acyclic:
  assumes acyc: "acyclic (set (dependency_edges e d))"
    and w: "wait_task e d ch tid actor req = Inr (d', wid)"
  shows "acyclic (set (dependency_edges e d'))"
proof (cases "wait_seen tid req d")
  case (Some h)
  then have "d' = d"
    using w by (auto simp: wait_task_def wait_seen_def split: option.split_asm sum.split_asm if_split_asm)
  with acyc show ?thesis by simp
next
  case None
  obtain owner where d': "d' = d\<lparr>waits := waits d @ [new_wait e tid owner actor req]\<rparr>"
    using wait_task_new [OF w None] ..
  have dep: "dependency_error e d ch tid (wr_condition req) = None"
    using w None by (auto simp: wait_task_def wait_seen_def split: option.split_asm sum.split_asm if_split_asm)
  have edges: "set (dependency_edges e d') \<subseteq> set (dependency_edges e d) \<union>
      (case uuid_parse e (wc_task (wr_condition req)) of
         None \<Rightarrow> {} | Some target \<Rightarrow> if wc_kind (wr_condition req) = ''task_done'' then {(tid, target)} else {})"
    by (auto simp: d' dependency_edges_def wait_edges_def parent_edges_def new_wait_def split: option.split)
  show ?thesis
  proof (cases "wc_kind (wr_condition req) = ''task_done''")
    case False
    then have "set (dependency_edges e d') \<subseteq> set (dependency_edges e d)"
      using edges by (auto split: option.split_asm)
    with acyc show ?thesis by (rule acyclic_subset)
  next
    case True
    then obtain target where target: "uuid_parse e (wc_task (wr_condition req)) = Some target"
      "tid \<notin> set (dependencies (dependency_edges e d) [target])"
      using dep by (auto simp: dependency_error_def split: option.split_asm if_split_asm)
    then have "(target, tid) \<notin> (set (dependency_edges e d))\<^sup>*" by (simp add: dependencies_reach)
    then have "acyclic (insert (tid, target) (set (dependency_edges e d)))"
      using acyc by (simp add: acyclic_insert)
    moreover have "set (dependency_edges e d') \<subseteq> insert (tid, target) (set (dependency_edges e d))"
      using edges target(1) True by simp
    ultimately show ?thesis by (rule acyclic_subset)
  qed
qed

theorem wait_keeps_dependencies_acyclic_witness:
  "\<exists>d' wid. wait_task (ex_env ''w1'') (reachable_db (take 3 ex_ops)) ''c1'' ''t1'' ''a1'' ex_wait = Inr (d', wid) \<and>
     acyclic (set (dependency_edges (ex_env ''w1'') d'))"
proof -
  have "dependency_edges (ex_env ''w1'') (reachable_db (take 3 ex_ops)) = []"
    and "is_ok (wait_task (ex_env ''w1'') (reachable_db (take 3 ex_ops)) ''c1'' ''t1'' ''a1'' ex_wait)"
    by code_simp+
  then obtain d' wid where
    "wait_task (ex_env ''w1'') (reachable_db (take 3 ex_ops)) ''c1'' ''t1'' ''a1'' ex_wait = Inr (d', wid)"
    "acyclic (set (dependency_edges (ex_env ''w1'') (reachable_db (take 3 ex_ops))))"
    by (auto simp: is_ok_def acyclic_def split: sum.split_asm)
  with wait_keeps_dependencies_acyclic [OF this(2,1)] show ?thesis by blast
qed

text \<open>
  A poll resumes only a wait that is due: if a waiting row is found resumed after it, then its
  task was in progress at the wait's version and held by the agent, the agent was idle, the
  condition held, and the row now carries that evidence and the run that was opened for it.
\<close>

theorem only_ready_waits_resume:
  assumes inv: "db_inv d" and p: "dispatch_task_wait e x d = Inr (d', worked)"
    and w: "w \<in> set (waits d)" "w_status w = Waiting"
    and w': "w' \<in> set (waits d')" "w_id w' = w_id w" "w_status w' = Resumed"
  shows "wait_ready e x d w \<and> w_fulfillment w' = wait_evidence e d w \<and> w_fulfillment w' \<noteq> None \<and>
    w_run w' = start_run x (w_agent w) \<and> w_run w' \<noteq> None \<and> worked"
proof -
  have key: "keyed w_id (waits d)" using db_invD(5) [OF inv] by (simp add: waits_inv_def)
  have same: "w' \<noteq> w" using w w' by auto
  have stays: False if "waits d' = waits d"
    using keyed_unique [OF key w(1), of w'] w' same that by simp
  have late: False if pd: "d' = postpone_wait e wid cause d" for wid cause
  proof -
    obtain w0 where w0: "w0 \<in> set (waits d)" "w_id w' = w_id w0" "w_status w' = w_status w0"
      using w'(1) pd by (auto simp: postpone_wait_def set_wait_def row_simps split: if_split_asm)
    then have "w0 = w" using keyed_unique [OF key w(1), of w0] w'(2) by simp
    with w0 w w' show False by simp
  qed
  obtain v where v: "next_ready_wait e x d = Some v"
    using p stays by (auto simp: dispatch_task_wait_def split: option.split_asm)
  have ready: "v \<in> set (waits d)" "wait_ready e x d v"
  proof -
    obtain vs where "sort_key w_next_attempt (sort_key w_created (filter (wait_ready e x d) (waits d))) = v # vs"
      using v by (auto simp: next_ready_wait_def split: list.split_asm)
    then have "v \<in> set (sort_key w_next_attempt (sort_key w_created (filter (wait_ready e x d) (waits d))))" by simp
    then show "v \<in> set (waits d)" "wait_ready e x d v" by simp_all
  qed
  obtain rid rs where run: "start_run x (w_agent v) = Some rid" "worked"
    and d': "d' = set_wait (w_id v) (\<lambda>y. y\<lparr>w_status := Resumed, w_run := Some rid,
               w_fulfillment := wait_evidence e d v, w_last_error := []\<rparr>) (d\<lparr>gate_runs := rs\<rparr>)"
    using p v stays late
    by (auto simp: dispatch_task_wait_def split: option.split_asm sum.split_asm if_split_asm)
  obtain w0 where w0: "w0 \<in> set (waits d)"
    "w' = (if w_id w0 = w_id v then w0\<lparr>w_status := Resumed, w_run := Some rid,
             w_fulfillment := wait_evidence e d v, w_last_error := []\<rparr> else w0)"
    using w'(1) unfolding d' set_wait_def by (auto simp: row_simps)
  have "w_id w0 = w_id w" using w0(2) w'(2) by (simp split: if_split_asm)
  then have eq: "w0 = w" using keyed_unique [OF key w(1) w0(1)] by simp
  have "w_id w = w_id v" using w0(2) same eq by (simp split: if_split_asm)
  then have "v = w" using keyed_unique [OF key w(1) ready(1)] by simp
  with ready run w0(2) eq show ?thesis by (simp add: wait_ready_def)
qed

definition ex_dispatch :: dispatch_env where
  "ex_dispatch = \<lparr>inbox_head = (\<lambda>_ _. True), work_lock_free = (\<lambda>_. True), daemon_for = (\<lambda>_. Inr ''d1''),
     thread_for = (\<lambda>_. Inr []), start_run = (\<lambda>_. Some ''run1'')\<rparr>"

theorem only_ready_waits_resume_witness:
  "\<exists>d' w'. dispatch_task_wait (ex_env ''x'') ex_dispatch (reachable_db ex_wait_ops) = Inr (d', True) \<and>
     w' \<in> set (waits d') \<and> w_fulfillment w' = Some (TimeReached 3 5) \<and> w_run w' = Some ''run1''"
proof -
  let ?d = "reachable_db ex_wait_ops" and ?e = "ex_env ''x''"
  have "map_sum id (\<lambda>(d', b). map (\<lambda>w. (w_id w, w_status w)) (waits d')) (dispatch_task_wait ?e ex_dispatch ?d)
          = Inr [(''w1'', Resumed)]"
    and ev: "map (\<lambda>w. (w_id w, w_status w, wait_evidence ?e ?d w, w_agent w)) (waits ?d)
          = [(''w1'', Waiting, Some (TimeReached 3 5), ''a1'')]"
    by code_simp+
  then obtain d' b w' where d': "dispatch_task_wait ?e ex_dispatch ?d = Inr (d', b)"
    and w': "w' \<in> set (waits d')" "w_id w' = ''w1''" "w_status w' = Resumed"
    by (cases "dispatch_task_wait ?e ex_dispatch ?d") (auto simp: map_eq_Cons_conv)
  obtain w where w: "w \<in> set (waits ?d)" "w_status w = Waiting" "w_id w = ''w1''"
    "wait_evidence ?e ?d w = Some (TimeReached 3 5)" "w_agent w = ''a1''"
    using ev by (auto simp: map_eq_Cons_conv)
  from only_ready_waits_resume [OF reachable_inv d' w(1,2) w'(1) _ w'(3)] w w' d' show ?thesis
    by (auto simp: ex_dispatch_def)
qed

section \<open>Two gaps\<close>

definition has_cycle :: "env \<Rightarrow> db \<Rightarrow> bool" where
  "has_cycle e d \<longleftrightarrow> list_ex (\<lambda>(a, b). a \<in> set (dependencies (dependency_edges e d) [b])) (dependency_edges e d)"

definition ex_child :: "string \<Rightarrow> string \<Rightarrow> task_create_request" where
  "ex_child parent assignee = \<lparr>cr_contract = None, cr_title = ''t'', cr_description = [], cr_priority = [],
     cr_due = None, cr_message = [], cr_parent = parent, cr_assignee = assignee\<rparr>"

definition ex_wait_for :: "string \<Rightarrow> task_wait_request" where
  "ex_wait_for other = \<lparr>wr_expected_version = 1, wr_key = ''k9'',
     wr_condition = \<lparr>wc_kind = ''task_done'', wc_task = other, wc_at = None, wc_description = []\<rparr>,
     wr_handoff = ex_handoff, wr_next_action = ''go on''\<rparr>"

definition ex_cycle_ops :: "(env \<times> task_op) list" where
  "ex_cycle_ops =
     [(ex_env ''x'', OtherTables ex_setup),
      (ex_env ''p'', CreateTask ''c1'' ''u1'' (ex_child [] [])),
      (ex_env ''q'', CreateTask ''c1'' ''u1'' (ex_child ''p'' [])),
      (ex_env ''r'', CreateTask ''c1'' ''u1'' (ex_child ''q'' ''bob'')),
      (ex_env ''x'', CloseWrite ''c1'' ''q'' ''u1''),
      (ex_env ''w1'', WaitTask ''c1'' ''r'' ''a1'' (ex_wait_for ''p'')),
      (ex_env ''x'', ReopenWrite ''c1'' ''q'' ''u1'')]"

text \<open>
  The refusal of dependency cycles covers registration only. Reopening a closed subtask puts its
  parent's dependency on it back unchecked: a parent p, its closed child q, q's open child r waiting
  for p. Reopening q closes the cycle p, q, r, p, which the wait itself was refused for.
\<close>

theorem reopen_can_close_a_cycle:
  "\<not> has_cycle (ex_env ''x'') (reachable_db (butlast ex_cycle_ops)) \<and>
   has_cycle (ex_env ''x'') (reachable_db ex_cycle_ops)"
  by code_simp

text \<open>
  \<open>UnclaimTask\<close> checks the task in one statement and writes it in another that repeats none of
  the checks: a check that saw the task in progress lets its write land after the task was delivered
  and accepted, and puts a done task back to do with no claimer.
\<close>

theorem unclaim_may_undo_a_finished_task:
  "unclaim_check (ex_env ''x'') (reachable_db (take 3 ex_ops)) ''c1'' ''t1'' ''a1'' = None \<and>
   map t_status (tasks (reachable_db ex_ops)) = [TaskStatusDone] \<and>
   map_option (\<lambda>d. map (\<lambda>t. (t_status t, t_claimer t)) (tasks d))
     (unclaim_write (ex_env ''x'') (reachable_db ex_ops) ''c1'' ''t1'') = Some [(TaskStatusTodo, None)]"
  by code_simp

section \<open>Titles\<close>

lemma rune_count_take: "rune_count (take_runes n s) = min n (rune_count s)"
proof (induction n s rule: take_runes.induct)
  case (2 n c s)
  then show ?case by (cases n) (auto simp: rune_count_def)
qed (simp add: rune_count_def)

lemma take_runes_prefix: "take (length (take_runes n s)) s = take_runes n s"
proof (induction n s rule: take_runes.induct)
  case (2 n c s)
  then show ?case by (cases n) auto
qed simp

text \<open>
  A title made of a message never exceeds the limit by more than its three dots, is the message
  itself when that fits, and otherwise is the message's first runes, none of them cut in two.
\<close>

theorem title_is_bounded:
  "rune_count (truncate_for_title s n) \<le> n + 3 \<and>
   (if rune_count s \<le> n then truncate_for_title s n = s
    else \<exists>p. truncate_for_title s n = p @ ''...'' \<and> take (length p) s = p \<and> rune_count p = n)"
proof -
  have "rune_count (p @ ''...'') = rune_count p + 3" for p by (simp add: rune_count_def is_cont_def between_def)
  then show ?thesis
    using rune_count_take [of n s] take_runes_prefix [of n s] by (auto simp: truncate_for_title_def)
qed

end
