(* ===== verification/Run_Model.thy ===== *)
theory Run_Model
  imports Task_Model "HOL-Library.Char_ord" "HOL-Library.List_Lexorder"
begin

text \<open>
  The tables behind agent runs, provider sessions and token budgets: \<open>agent_sessions\<close>,
  \<open>agent_runs\<close>, \<open>agent_run_events\<close>, \<open>agent_run_task_links\<close> (migrations 000029, 000063),
  \<open>budget_policies\<close>, \<open>agent_run_token_usage\<close>, \<open>budget_reservations\<close> (000042, 000043) and the
  columns the services read of agents, selection trials, thinking nodes, threads and messages.

  A JSON column is the document it holds: a run's usage is \<open>UsageEmpty\<close> for \<open>{}\<close>, the four token
  counts, or \<open>UsageInvalid\<close> for a text \<open>json.Unmarshal\<close> refuses; an event's payload is its
  text-valued members.
\<close>

section \<open>Statuses\<close>

datatype run_status =
    AgentRunStatusQueued | AgentRunStatusThinking | AgentRunStatusRunning | AgentRunStatusStreaming
  | AgentRunStatusWaitingInput | AgentRunStatusWaitingApproval | AgentRunStatusCompleted
  | AgentRunStatusFailed | AgentRunStatusCancelled | AgentRunStatusTimeout | AgentRunStatusOther string

datatype session_status =
    AgentSessionStatusActive | AgentSessionStatusRolloverPending | AgentSessionStatusClosed
  | AgentSessionStatusOther string

definition active_agent_run_statuses :: "run_status list" where
  "active_agent_run_statuses =
     [AgentRunStatusQueued, AgentRunStatusThinking, AgentRunStatusRunning, AgentRunStatusStreaming,
      AgentRunStatusWaitingInput, AgentRunStatusWaitingApproval]"

definition is_active_agent_run_status :: "run_status \<Rightarrow> bool" where
  "is_active_agent_run_status s \<longleftrightarrow> s \<in> set active_agent_run_statuses"

definition non_primary_task_run_statuses :: "run_status list" where
  "non_primary_task_run_statuses = [AgentRunStatusFailed, AgentRunStatusTimeout, AgentRunStatusCancelled]"

datatype run_event_type =
    UserMessageReceived | RunStarted | BackendStarted | ThinkingEvent | Activity | ToolStarted | ToolFinished
  | AssistantMessage | VisibleMessageSent | VisibleMessageHeld | ResultReminder | TaskLinked | TaskReassigned
  | TaskRecoveryScheduled | TaskRecoveryBlocked | TaskRetryExhausted | UsageEvent | ContextSnapshot
  | ContextCompaction | SessionRolloverRequested | SessionRolloverCompleted | DoneEvent | ErrorEvent
  | OtherEvent string

section \<open>Documents\<close>

datatype usage_json = UsageEmpty | UsageInvalid | UsageTokens int int int int

type_synonym payload = "(string \<times> string) list"

definition member :: "string \<Rightarrow> payload \<Rightarrow> string option" where
  "member k p = map_of p k"

text \<open>Assignment to a Go map.\<close>

definition put :: "string \<Rightarrow> string \<Rightarrow> payload \<Rightarrow> payload" where
  "put k v p = (k, v) # filter (\<lambda>(k', _). k' \<noteq> k) p"

lemma member_put [simp]: "member k (put k' v p) = (if k' = k then Some v else member k p)"
proof -
  have "k \<noteq> k' \<Longrightarrow> map_of (filter (\<lambda>(x, _). x \<noteq> k') p) k = map_of p k" by (induction p) auto
  then show ?thesis by (simp add: member_def put_def)
qed

section \<open>Rows\<close>

record session_row =
  ss_id :: id
  ss_agent :: id
  ss_provider :: string
  ss_external :: "string option"
  ss_transcript :: "string option"
  ss_title :: "string option"
  ss_status :: session_status
  ss_started :: time
  ss_active :: time

record run_scope =
  trigger_type :: string
  trigger_message :: "id option"
  scope_channel :: "id option"
  scope_thread :: "id option"
  scope_node :: "id option"

record run_wake =
  freshness_seen :: int
  wake_first :: int
  wake_latest :: int
  wake_visible :: bool

record run_row =
  rn_id :: id
  rn_agent :: id
  rn_daemon :: "string option"
  rn_session :: "id option"
  rn_rollover :: "id option"
  rn_scope :: run_scope
  rn_status :: run_status
  rn_activity :: string
  rn_tool :: "string option"
  rn_input :: "string option"
  rn_source :: "string option"
  rn_transcript :: "string option"
  rn_usage :: usage_json
  rn_started :: time
  rn_backend :: "time option"
  rn_updated :: time
  rn_finished :: "time option"
  rn_wake :: run_wake

record run_event_row =
  re_id :: id
  re_run :: id
  re_seq :: nat
  re_type :: run_event_type
  re_message :: string
  re_tool :: "string option"
  re_payload :: payload

record task_link_row =
  lk_run :: id
  lk_task :: id
  lk_role :: string

record policy_row =
  bp_id :: id
  bp_owner :: id
  bp_scope :: string
  bp_agent :: "id option"
  bp_enabled :: bool
  bp_limit :: int

datatype usage_state = UsagePending | UsageSettled | UsageReleased | UsageUnknown

record token_usage =
  tu_input :: int
  tu_output :: int
  tu_cache_read :: int
  tu_cache_write :: int

record usage_row =
  us_run :: id
  us_owner :: id
  us_agent :: id
  us_state :: usage_state
  us_reserved :: int
  us_actual :: "int option"
  us_tokens :: token_usage
  us_overrun :: bool
  us_created :: time
  us_context :: "(string \<times> int) list"

datatype reservation_state = ReservationActive | ReservationSettled | ReservationReleased

record reservation_row =
  bk_run :: id
  bk_policy :: id
  bk_reserved :: int
  bk_accounted :: int
  bk_state :: reservation_state
  bk_created :: time

record trial_row =
  tr_agent :: id
  tr_budget :: int

record node_row =
  tn_id :: id
  tn_agent :: id
  tn_session :: "id option"

record thread_row =
  th_id :: id
  th_channel :: id
  th_root :: id

record rdb =
  sessions :: "session_row list"
  runs :: "run_row list"
  events :: "run_event_row list"
  links :: "task_link_row list"
  policies :: "policy_row list"
  usages :: "usage_row list"
  reservations :: "reservation_row list"
  trials :: "trial_row list"
  nodes :: "node_row list"
  threads :: "thread_row list"
  message_seqs :: "(id \<times> int) list"
  owned_agents :: "agent_row list"
  channel_members :: "member_row list"

datatype run_error =
    ErrNoRows | ErrAgentRunAlreadyFinished | ErrAmbiguousAgentRunScope | ErrSessionRolloverMismatch string
  | ErrRunInput string | BudgetStartError string string | BudgetInputError string | ErrUsage string
  | ErrRunDatabase

text \<open>
  The clock, the start of its month in UTC, the ids \<open>uuid.New\<close> hands out, SHA-256 in hexadecimal,
  and \<open>validateSelectionRunTx\<close>, the guard of agents under evaluation.
\<close>

record renv =
  clock :: time
  month_start :: time
  new_id :: id
  new_event_id :: id
  sha_hex :: "string \<Rightarrow> string"
  selection_guard :: "id \<Rightarrow> run_error option"

section \<open>Picking a row\<close>

text \<open>\<open>ORDER BY ... LIMIT 1\<close>: the first row no later one beats.\<close>

definition pick_by :: "('r \<Rightarrow> 'r \<Rightarrow> bool) \<Rightarrow> 'r list \<Rightarrow> 'r option" where
  "pick_by better rs =
     (case rs of [] \<Rightarrow> None | r # rs' \<Rightarrow> Some (foldl (\<lambda>a b. if better b a then b else a) r rs'))"

lemma pick_by_in: "pick_by better rs = Some r \<Longrightarrow> r \<in> set rs"
proof -
  have "foldl (\<lambda>a b. if better b a then b else a) x xs \<in> insert x (set xs)" for x xs
    by (induction xs arbitrary: x) auto
  then show "pick_by better rs = Some r \<Longrightarrow> r \<in> set rs"
    by (auto simp: pick_by_def split: list.split_asm)
qed

lemma pick_by_None [simp]: "pick_by better rs = None \<longleftrightarrow> rs = []"
  by (simp add: pick_by_def split: list.split)

definition later_run :: "run_row \<Rightarrow> run_row \<Rightarrow> bool" where
  "later_run a b \<longleftrightarrow> rn_started a > rn_started b \<or> (rn_started a = rn_started b \<and> rn_id a > rn_id b)"

section \<open>Paths\<close>

text \<open>\<open>filepath.Clean\<close>, \<open>filepath.Base\<close> and \<open>filepath.Ext\<close> on the Unix builds.\<close>

fun split_slash :: "string \<Rightarrow> string list" where
  "split_slash [] = [[]]"
| "split_slash (c # s) =
     (if c = CHR ''/'' then [] # split_slash s
      else (case split_slash s of [] \<Rightarrow> [[c]] | p # ps \<Rightarrow> (c # p) # ps))"

definition clean_part :: "bool \<Rightarrow> string list \<Rightarrow> string \<Rightarrow> string list" where
  "clean_part rooted ps p =
     (if p = [] \<or> p = ''.'' then ps
      else if p = ''..'' then
        (if ps \<noteq> [] \<and> last ps \<noteq> ''..'' then butlast ps
         else if rooted then ps else ps @ [''..''])
      else ps @ [p])"

fun join_slash :: "string list \<Rightarrow> string" where
  "join_slash [] = []"
| "join_slash [p] = p"
| "join_slash (p # q # ps) = p @ ''/'' @ join_slash (q # ps)"

definition path_clean :: "string \<Rightarrow> string" where
  "path_clean p =
     (let rooted = has_prefix ''/'' p;
          out = join_slash (foldl (clean_part rooted) [] (split_slash p))
      in if rooted then ''/'' @ out else if out = [] then ''.'' else out)"

definition path_base :: "string \<Rightarrow> string" where
  "path_base p =
     (if p = [] then ''.''
      else (case filter (\<lambda>x. x \<noteq> []) (split_slash p) of [] \<Rightarrow> ''/'' | ps \<Rightarrow> last ps))"

definition path_ext :: "string \<Rightarrow> string" where
  "path_ext p =
     (let tail = takeWhile (\<lambda>c. c \<noteq> CHR ''.'' \<and> c \<noteq> CHR ''/'') (rev p);
          rest = drop (length tail) (rev p)
      in case rest of [] \<Rightarrow> [] | c # _ \<Rightarrow> if c = CHR ''.'' then ''.'' @ rev tail else [])"

definition trim_suffix :: "string \<Rightarrow> string \<Rightarrow> string" where
  "trim_suffix s x = (if drop (length s - length x) s = x \<and> length x \<le> length s
                      then take (length s - length x) s else s)"

end
