(* ===== verification/Budget.thy ===== *)
theory Budget
  imports Run_Model
begin

text \<open>
  \<open>service/budget.go\<close>: monthly token limits of a user and of an agent. A run reserves tokens when it
  starts and settles what it used when it ends. Amounts are \<open>int64\<close>: sums the database computes are
  exact and must fit to be read, the additions Go makes wrap (\<open>i64\<close>).
\<close>

section \<open>Policies\<close>

record save_budget_input =
  sb_enabled :: bool
  sb_limit :: int

definition system_run_reserve_tokens :: int where
  "system_run_reserve_tokens = 100000"

definition max_safe_json_integer :: int where
  "max_safe_json_integer = 9007199254740991"

definition validate_budget_input :: "save_budget_input \<Rightarrow> run_error option" where
  "validate_budget_input i =
     (if sb_limit i < 0 \<or> sb_limit i > max_safe_json_integer
      then Some (BudgetInputError ''budget.error.monthly_limit_invalid'')
      else if \<not> sb_enabled i then None
      else if sb_limit i = 0 then Some (BudgetInputError ''budget.error.monthly_limit_required'')
      else None)"

definition run_reserve_tokens :: "policy_row \<Rightarrow> int" where
  "run_reserve_tokens p =
     (if \<not> bp_enabled p \<or> bp_limit p \<le> 0 then 0
      else if bp_limit p < system_run_reserve_tokens then bp_limit p
      else system_run_reserve_tokens)"

text \<open>\<open>budgetLimitError\<close>, with the code \<open>BudgetStartError.Code\<close> gives it.\<close>

definition budget_limit_error :: "string \<Rightarrow> run_error" where
  "budget_limit_error scope = BudgetStartError scope ''month''"

definition budget_error_code :: "string \<Rightarrow> string" where
  "budget_error_code scope =
     (if scope = ''agent'' then ''agent.error.agent_monthly_token_budget_exhausted''
      else ''agent.error.user_monthly_token_budget_exhausted'')"

section \<open>What a scope has used\<close>

text \<open>A SUM the database computed, read into an \<open>int64\<close>.\<close>

definition scan_int64 :: "int \<Rightarrow> run_error + int" where
  "scan_int64 x = (if x \<le> max_int64 then Inr x else Inl ErrRunDatabase)"

definition actual_sum :: "rdb \<Rightarrow> id \<Rightarrow> id \<Rightarrow> time \<Rightarrow> int" where
  "actual_sum d owner agent start =
     sum_list (map (\<lambda>u. case us_actual u of None \<Rightarrow> 0 | Some n \<Rightarrow> n)
       (filter (\<lambda>u. us_state u = UsageSettled \<and> us_created u \<ge> start \<and> us_owner u = owner \<and>
                  (agent \<noteq> [] \<longrightarrow> us_agent u = agent)) (usages d)))"

definition unknown_sum :: "rdb \<Rightarrow> id \<Rightarrow> time \<Rightarrow> int" where
  "unknown_sum d policy start =
     sum_list (map bk_accounted
       (filter (\<lambda>k. bk_policy k = policy \<and> bk_state k = ReservationSettled \<and> bk_created k \<ge> start)
         (reservations d)))"

definition active_sum :: "rdb \<Rightarrow> id \<Rightarrow> int" where
  "active_sum d policy =
     sum_list (map bk_reserved
       (filter (\<lambda>k. bk_policy k = policy \<and> bk_state k = ReservationActive) (reservations d)))"

definition scope_usage :: "rdb \<Rightarrow> id \<Rightarrow> id \<Rightarrow> id \<Rightarrow> time \<Rightarrow> run_error + (int \<times> int)" where
  "scope_usage d policy owner agent start =
     (case scan_int64 (actual_sum d owner agent start) of
        Inl err \<Rightarrow> Inl err
      | Inr actual \<Rightarrow>
          if policy = [] then Inr (actual, 0)
          else
            (case scan_int64 (unknown_sum d policy start) of
               Inl err \<Rightarrow> Inl err
             | Inr unknown \<Rightarrow>
                 (case scan_int64 (active_sum d policy) of
                    Inl err \<Rightarrow> Inl err
                  | Inr active \<Rightarrow> Inr (i64 (actual + unknown), active))))"

section \<open>Views\<close>

record budget_period_summary =
  ps_limit :: int
  ps_used :: int
  ps_reserved :: int
  ps_remaining :: int
  ps_blocked :: bool

record budget_view =
  bv_policy :: policy_row
  bv_month :: budget_period_summary
  bv_pause_reason :: string

definition load_policy :: "rdb \<Rightarrow> string \<Rightarrow> id \<Rightarrow> id \<Rightarrow> policy_row" where
  "load_policy d scope owner agent =
     (case find (\<lambda>p. bp_owner p = owner \<and> bp_scope p = scope \<and>
              ((scope = ''user'' \<and> bp_agent p = None) \<or>
               (scope = ''agent'' \<and> agent \<noteq> [] \<and> bp_agent p = Some agent))) (policies d) of
        None \<Rightarrow> \<lparr>bp_id = [], bp_owner = owner, bp_scope = scope, bp_agent = nullable agent,
                 bp_enabled = False, bp_limit = 0\<rparr>
      | Some p \<Rightarrow> p)"

definition period_summary :: "rdb \<Rightarrow> policy_row \<Rightarrow> id \<Rightarrow> id \<Rightarrow> time \<Rightarrow> int \<Rightarrow> run_error + budget_period_summary" where
  "period_summary d p owner agent start limit =
     (case scope_usage d (bp_id p) owner agent start of
        Inl err \<Rightarrow> Inl err
      | Inr (used, reserved) \<Rightarrow>
          if \<not> bp_enabled p
          then Inr \<lparr>ps_limit = limit, ps_used = used, ps_reserved = reserved, ps_remaining = 0, ps_blocked = False\<rparr>
          else
            (let remaining = i64 (i64 (limit - used) - reserved) in
             Inr \<lparr>ps_limit = limit, ps_used = used, ps_reserved = reserved,
                  ps_remaining = (if remaining < 0 then 0 else remaining),
                  ps_blocked = (limit \<le> 0 \<or> i64 (i64 (used + reserved) + run_reserve_tokens p) > limit)\<rparr>))"

definition build_view :: "renv \<Rightarrow> rdb \<Rightarrow> policy_row \<Rightarrow> id \<Rightarrow> id \<Rightarrow> run_error + budget_view" where
  "build_view e d p owner agent =
     (case period_summary d p owner agent (month_start e) (bp_limit p) of
        Inl err \<Rightarrow> Inl err
      | Inr m \<Rightarrow>
          Inr \<lparr>bv_policy = p, bv_month = m,
               bv_pause_reason = (if bp_enabled p \<and> ps_blocked m then ''budget.error.monthly_limit_exhausted'' else [])\<rparr>)"

definition get_user_budget :: "renv \<Rightarrow> rdb \<Rightarrow> id \<Rightarrow> run_error + budget_view" where
  "get_user_budget e d owner = build_view e d (load_policy d ''user'' owner []) owner []"

definition ensure_owned_agent :: "rdb \<Rightarrow> id \<Rightarrow> id \<Rightarrow> bool" where
  "ensure_owned_agent d owner agent \<longleftrightarrow>
     exists_row (\<lambda>a. a_id a = agent \<and> a_owner a = owner \<and> a_active a) (owned_agents d)"

definition get_agent_budget :: "renv \<Rightarrow> rdb \<Rightarrow> id \<Rightarrow> id \<Rightarrow> run_error + budget_view" where
  "get_agent_budget e d owner agent =
     (if \<not> ensure_owned_agent d owner agent then Inl ErrNoRows
      else build_view e d (load_policy d ''agent'' owner agent) owner agent)"

text \<open>\<open>INSERT ... ON CONFLICT DO UPDATE\<close> on the partial unique indexes of the two scopes.\<close>

definition save_user_budget :: "renv \<Rightarrow> rdb \<Rightarrow> id \<Rightarrow> save_budget_input \<Rightarrow> rdb \<times> (run_error + budget_view)" where
  "save_user_budget e d owner i =
     (case validate_budget_input i of
        Some err \<Rightarrow> (d, Inl err)
      | None \<Rightarrow>
          (let d' = d\<lparr>policies :=
                 (if exists_row (\<lambda>p. bp_scope p = ''user'' \<and> bp_owner p = owner) (policies d)
                  then update_where (\<lambda>p. bp_scope p = ''user'' \<and> bp_owner p = owner)
                         (\<lambda>p. p\<lparr>bp_enabled := sb_enabled i, bp_limit := sb_limit i\<rparr>) (policies d)
                  else policies d @ [\<lparr>bp_id = new_id e, bp_owner = owner, bp_scope = ''user'', bp_agent = None,
                                      bp_enabled = sb_enabled i, bp_limit = sb_limit i\<rparr>])\<rparr>
           in (d', get_user_budget e d' owner)))"

definition save_agent_budget ::
    "renv \<Rightarrow> rdb \<Rightarrow> id \<Rightarrow> id \<Rightarrow> save_budget_input \<Rightarrow> rdb \<times> (run_error + budget_view)" where
  "save_agent_budget e d owner agent i =
     (case validate_budget_input i of
        Some err \<Rightarrow> (d, Inl err)
      | None \<Rightarrow>
          if \<not> ensure_owned_agent d owner agent then (d, Inl ErrNoRows)
          else
          (let d' = d\<lparr>policies :=
                 (if exists_row (\<lambda>p. bp_scope p = ''agent'' \<and> bp_agent p = Some agent) (policies d)
                  then update_where (\<lambda>p. bp_scope p = ''agent'' \<and> bp_agent p = Some agent)
                         (\<lambda>p. p\<lparr>bp_owner := owner, bp_enabled := sb_enabled i, bp_limit := sb_limit i\<rparr>)
                         (policies d)
                  else policies d @ [\<lparr>bp_id = new_id e, bp_owner = owner, bp_scope = ''agent'',
                                      bp_agent = Some agent, bp_enabled = sb_enabled i, bp_limit = sb_limit i\<rparr>])\<rparr>
           in (d', get_agent_budget e d' owner agent)))"

section \<open>Reserving\<close>

fun check_policies :: "rdb \<Rightarrow> id \<Rightarrow> id \<Rightarrow> time \<Rightarrow> policy_row list \<Rightarrow> run_error option" where
  "check_policies d owner agent start [] = None"
| "check_policies d owner agent start (p # ps) =
     (if bp_limit p \<le> 0 then Some (budget_limit_error (bp_scope p))
      else
        (case scope_usage d (bp_id p) owner (if bp_scope p = ''agent'' then agent else []) start of
           Inl err \<Rightarrow> Some err
         | Inr (used, active) \<Rightarrow>
             if i64 (i64 (used + active) + run_reserve_tokens p) > bp_limit p
             then Some (budget_limit_error (bp_scope p))
             else check_policies d owner agent start ps))"

text \<open>The enabled policies that bear on an agent: its owner's, then its own (\<open>scope_type DESC\<close>).\<close>

definition plan_policies :: "rdb \<Rightarrow> id \<Rightarrow> id \<Rightarrow> policy_row list" where
  "plan_policies d owner agent =
     filter (\<lambda>p. bp_owner p = owner \<and> bp_scope p = ''user'' \<and> bp_agent p = None \<and> bp_enabled p) (policies d) @
     filter (\<lambda>p. bp_owner p = owner \<and> bp_scope p = ''agent'' \<and> bp_agent p = Some agent \<and> bp_enabled p) (policies d)"

definition build_run_plan :: "renv \<Rightarrow> rdb \<Rightarrow> id \<Rightarrow> run_error + (id \<times> policy_row list)" where
  "build_run_plan e d agent =
     (case find (\<lambda>a. a_id a = agent \<and> a_active a) (owned_agents d) of
        None \<Rightarrow> Inl ErrNoRows
      | Some a \<Rightarrow>
          (let ps = plan_policies d (a_owner a) agent in
           case check_policies d (a_owner a) agent (month_start e) ps of
             Some err \<Rightarrow> Inl err
           | None \<Rightarrow> Inr (a_owner a, ps)))"

definition selection_used :: "rdb \<Rightarrow> id \<Rightarrow> int" where
  "selection_used d agent =
     sum_list (map (\<lambda>u. case us_actual u of Some n \<Rightarrow> n | None \<Rightarrow> us_reserved u)
       (filter (\<lambda>u. us_agent u = agent) (usages d)))"

text \<open>The allowance of an agent under evaluation: the tokens it must reserve, or none.\<close>

definition selection_reserve :: "rdb \<Rightarrow> id \<Rightarrow> run_error + (int \<times> int)" where
  "selection_reserve d agent =
     (case find (\<lambda>t. tr_agent t = agent) (trials d) of
        None \<Rightarrow> Inr (0, 0)
      | Some t \<Rightarrow>
          if tr_budget t \<le> 0 then Inr (tr_budget t, 0)
          else
            (case scan_int64 (selection_used d agent) of
               Inl err \<Rightarrow> Inl err
             | Inr used \<Rightarrow>
                 if used \<ge> tr_budget t then Inl (BudgetStartError ''selection'' ''lifetime'')
                 else Inr (tr_budget t, min system_run_reserve_tokens (i64 (tr_budget t - used)))))"

definition budget_context :: "policy_row list \<Rightarrow> int \<Rightarrow> (string \<times> int) list" where
  "budget_context ps selection_limit =
     map (\<lambda>p. (bp_scope p @ ''_month'', bp_limit p)) ps @
     (if selection_limit > 0 then [(''selection_lifetime'', selection_limit)] else [])"

definition no_tokens :: token_usage where
  "no_tokens = \<lparr>tu_input = 0, tu_output = 0, tu_cache_read = 0, tu_cache_write = 0\<rparr>"

definition reserve_run :: "renv \<Rightarrow> rdb \<Rightarrow> id \<Rightarrow> id \<Rightarrow> run_error + rdb" where
  "reserve_run e d run agent =
     (case build_run_plan e d agent of
        Inl err \<Rightarrow> Inl err
      | Inr (owner, ps) \<Rightarrow>
     (case selection_reserve d agent of
        Inl err \<Rightarrow> Inl err
      | Inr (selection_limit, sel) \<Rightarrow>
     (let reserved = max (foldl (\<lambda>r p. max r (run_reserve_tokens p)) 0 ps) sel in
      if exists_row (\<lambda>u. us_run u = run) (usages d) \<or> exists_row (\<lambda>k. bk_run k = run) (reservations d)
      then Inl ErrRunDatabase
      else
        Inr (d\<lparr>usages := usages d @
                 [\<lparr>us_run = run, us_owner = owner, us_agent = agent, us_state = UsagePending,
                   us_reserved = reserved, us_actual = None, us_tokens = no_tokens, us_overrun = False,
                   us_created = clock e, us_context = budget_context ps selection_limit\<rparr>],
               reservations := reservations d @
                 map (\<lambda>p. \<lparr>bk_run = run, bk_policy = bp_id p, bk_reserved = run_reserve_tokens p,
                            bk_accounted = 0, bk_state = ReservationActive, bk_created = clock e\<rparr>) ps\<rparr>))))"

section \<open>Settling\<close>

definition budget_usage_from_json :: "usage_json \<Rightarrow> run_error + token_usage" where
  "budget_usage_from_json raw =
     (case raw of
        UsageEmpty \<Rightarrow> Inr no_tokens
      | UsageInvalid \<Rightarrow> Inl (ErrUsage ''decode run usage'')
      | UsageTokens i o1 r w \<Rightarrow>
          if i < 0 \<or> o1 < 0 \<or> r < 0 \<or> w < 0 then Inl (ErrUsage ''run usage cannot be negative'')
          else Inr \<lparr>tu_input = i, tu_output = o1, tu_cache_read = r, tu_cache_write = w\<rparr>)"

fun total_loop :: "int \<Rightarrow> int list \<Rightarrow> run_error + int" where
  "total_loop acc [] = Inr acc"
| "total_loop acc (v # vs) =
     (if v > i64 (max_int64 - acc) then Inl (ErrUsage ''run token usage is too large'')
      else total_loop (i64 (acc + v)) vs)"

definition total_tokens :: "token_usage \<Rightarrow> run_error + int" where
  "total_tokens u = total_loop 0 [tu_input u, tu_output u, tu_cache_read u, tu_cache_write u]"

definition settle_run :: "rdb \<Rightarrow> id \<Rightarrow> bool \<Rightarrow> usage_json \<Rightarrow> run_error + rdb" where
  "settle_run d run backend_started raw =
     (case row_by us_run run (usages d) of
        None \<Rightarrow> Inr d
      | Some u \<Rightarrow>
     if us_state u \<noteq> UsagePending then Inr d else
     (case budget_usage_from_json raw of
        Inl err \<Rightarrow> Inl err
      | Inr usage \<Rightarrow>
     (case total_tokens usage of
        Inl err \<Rightarrow> Inl err
      | Inr n \<Rightarrow>
     (let state = (if \<not> backend_started then UsageReleased else if n = 0 then UsageUnknown else UsageSettled);
          actual = (if \<not> backend_started then Some 0 else if n = 0 then None else Some n);
          overrun = (backend_started \<and> n \<noteq> 0 \<and> us_reserved u > 0 \<and> n > us_reserved u);
          rstate = (if \<not> backend_started then ReservationReleased else ReservationSettled);
          account = (backend_started \<and> n = 0)
      in Inr (d\<lparr>usages := update_where (\<lambda>x. us_run x = run)
                   (\<lambda>x. x\<lparr>us_state := state, us_actual := actual, us_tokens := usage, us_overrun := overrun\<rparr>)
                   (usages d),
                reservations := update_where (\<lambda>k. bk_run k = run \<and> bk_state k = ReservationActive)
                   (\<lambda>k. k\<lparr>bk_state := rstate, bk_accounted := (if account then bk_reserved k else 0)\<rparr>)
                   (reservations d)\<rparr>)))))"

fun settle_terminal_runs :: "rdb \<Rightarrow> id list \<Rightarrow> run_error + rdb" where
  "settle_terminal_runs d [] = Inr d"
| "settle_terminal_runs d (r # rs) =
     (case row_by rn_id r (runs d) of
        None \<Rightarrow> Inl ErrNoRows
      | Some row \<Rightarrow>
          (case settle_run d r (rn_backend row \<noteq> None) (rn_usage row) of
             Inl err \<Rightarrow> Inl err
           | Inr d' \<Rightarrow> settle_terminal_runs d' rs))"

end
