(* ===== verification/Agent_Run.thy ===== *)
theory Agent_Run
  imports Budget
begin

text \<open>
  \<open>service/agent_run.go\<close>: the provider sessions of an agent and the runs it executes. A session goes
  from active to \<open>rollover_pending\<close> to closed; a run is bound to a session, may be told to roll an old
  one over into a fresh one, and finishes once.
\<close>

section \<open>Sessions\<close>

record upsert_session_input =
  ui_agent :: id
  ui_provider :: string
  ui_external :: string
  ui_transcript :: string
  ui_title :: string

definition stable_transcript_session_id :: "renv \<Rightarrow> string \<Rightarrow> string" where
  "stable_transcript_session_id e path =
     (let clean = path_clean (trim_space path) in
      if clean = [] \<or> clean = ''.'' then []
      else
        (let base0 = path_base clean; ext = path_ext base0;
             base1 = (if ext \<noteq> [] then trim_suffix base0 ext else base0);
             base = (if base1 = [] \<or> base1 = ''.'' then ''transcript'' else base1)
         in ''path:'' @ base @ '':'' @ take 16 (sha_hex e clean)))"

definition or_else :: "'a option \<Rightarrow> 'a option \<Rightarrow> 'a option" where
  "or_else x y = (case x of None \<Rightarrow> y | Some v \<Rightarrow> Some v)"

definition session_key :: "session_row \<Rightarrow> id \<times> string \<times> string option" where
  "session_key s = (ss_agent s, ss_provider s, ss_external s)"

definition touch_session :: "renv \<Rightarrow> string \<Rightarrow> string \<Rightarrow> session_row \<Rightarrow> session_row" where
  "touch_session e transcript title s =
     s\<lparr>ss_transcript := or_else (nullable transcript) (ss_transcript s),
       ss_title := or_else (nullable title) (ss_title s), ss_active := clock e\<rparr>"

text \<open>\<open>upsertSession\<close>: the insert, or the row of the same agent, provider and external id, refreshed.\<close>

definition upsert_session :: "renv \<Rightarrow> rdb \<Rightarrow> upsert_session_input \<Rightarrow> run_error + (rdb \<times> session_row)" where
  "upsert_session e d i =
     (if ui_agent i = [] then Inl (ErrRunInput ''agent_id is required'')
      else if ui_provider i = [] then Inl (ErrRunInput ''provider is required'')
      else
        (let ext0 = trim_space (ui_external i); path = trim_space (ui_transcript i);
             ext = (if ext0 = [] \<and> path \<noteq> [] then stable_transcript_session_id e path else ext0)
         in if ext = [] then Inl (ErrRunInput ''external_session_id or transcript_path is required'')
            else
              (case find (\<lambda>s. session_key s = (ui_agent i, ui_provider i, Some ext)) (sessions d) of
                 Some s \<Rightarrow>
                   Inr (d\<lparr>sessions := update_where (\<lambda>x. ss_id x = ss_id s)
                            (touch_session e path (ui_title i)) (sessions d)\<rparr>,
                        touch_session e path (ui_title i) s)
               | None \<Rightarrow>
                   if exists_row (\<lambda>x. ss_id x = new_id e) (sessions d) then Inl ErrRunDatabase
                   else
                     (let s = \<lparr>ss_id = new_id e, ss_agent = ui_agent i, ss_provider = ui_provider i,
                               ss_external = Some ext, ss_transcript = nullable path,
                               ss_title = nullable (ui_title i), ss_status = AgentSessionStatusActive,
                               ss_started = clock e, ss_active = clock e\<rparr>
                      in Inr (d\<lparr>sessions := sessions d @ [s]\<rparr>, s)))))"

definition update_session_metadata ::
    "renv \<Rightarrow> rdb \<Rightarrow> id \<Rightarrow> string \<Rightarrow> string \<Rightarrow> string \<Rightarrow> run_error + rdb" where
  "update_session_metadata e d sid external transcript title =
     (if sid = [] then Inl (ErrRunInput ''session_id is required'')
      else
        (case row_by ss_id sid (sessions d) of
           None \<Rightarrow> Inl ErrNoRows
         | Some s \<Rightarrow>
             (let ext = or_else (nullable external) (ss_external s) in
              if ext \<noteq> None \<and> exists_row (\<lambda>x. ss_id x \<noteq> sid \<and> session_key x = (ss_agent s, ss_provider s, ext))
                   (sessions d)
              then Inl ErrRunDatabase
              else Inr (d\<lparr>sessions := update_where (\<lambda>x. ss_id x = sid)
                     (\<lambda>x. (touch_session e transcript title x)\<lparr>ss_external := ext\<rparr>) (sessions d)\<rparr>))))"

text \<open>\<open>UPDATE agent_sessions SET status = new WHERE id = sid AND status = old\<close>.\<close>

definition move_session :: "renv \<Rightarrow> id \<Rightarrow> session_status \<Rightarrow> session_status \<Rightarrow> rdb \<Rightarrow> rdb" where
  "move_session e sid old new d =
     d\<lparr>sessions := update_where (\<lambda>s. ss_id s = sid \<and> ss_status s = old)
         (\<lambda>s. s\<lparr>ss_status := new, ss_active := clock e\<rparr>) (sessions d)\<rparr>"

definition owned_session :: "rdb \<Rightarrow> id \<Rightarrow> id \<Rightarrow> string \<Rightarrow> session_row option" where
  "owned_session d sid agent provider =
     find (\<lambda>s. ss_id s = sid \<and> ss_agent s = agent \<and> ss_provider s = provider) (sessions d)"

section \<open>Runs\<close>

text \<open>\<open>UPDATE agent_runs SET ... WHERE id = rid AND guard\<close>, with the number of rows affected.\<close>

definition set_run :: "id \<Rightarrow> (run_row \<Rightarrow> bool) \<Rightarrow> (run_row \<Rightarrow> run_row) \<Rightarrow> rdb \<Rightarrow> rdb \<times> nat" where
  "set_run rid guard f d =
     (d\<lparr>runs := update_where (\<lambda>r. rn_id r = rid \<and> guard r) f (runs d)\<rparr>,
      count_rows (\<lambda>r. rn_id r = rid \<and> guard r) (runs d))"

definition lock_agent_run :: "rdb \<Rightarrow> id \<Rightarrow> run_error + run_row" where
  "lock_agent_run d rid =
     (if blank rid then Inl (ErrRunInput ''run_id is required'')
      else (case row_by rn_id rid (runs d) of None \<Rightarrow> Inl ErrNoRows | Some r \<Rightarrow> Inr r))"

record start_run_input =
  sr_agent :: id
  sr_daemon :: string
  sr_session :: string
  sr_rollover :: string
  sr_scope :: run_scope
  sr_status :: "run_status option"
  sr_activity :: string
  sr_tool :: string
  sr_input :: string
  sr_source :: string
  sr_usage :: usage_json
  sr_wake :: run_wake

definition start_run_tx :: "renv \<Rightarrow> rdb \<Rightarrow> start_run_input \<Rightarrow> run_error + (rdb \<times> run_row)" where
  "start_run_tx e d i =
     (case selection_guard e (sr_agent i) of
        Some err \<Rightarrow> Inl err
      | None \<Rightarrow>
     if exists_row (\<lambda>r. rn_id r = new_id e) (runs d) then Inl ErrRunDatabase else
     (let r = \<lparr>rn_id = new_id e, rn_agent = sr_agent i, rn_daemon = nullable (sr_daemon i),
               rn_session = nullable (sr_session i), rn_rollover = nullable (sr_rollover i),
               rn_scope = sr_scope i,
               rn_status = (case sr_status i of None \<Rightarrow> AgentRunStatusQueued | Some s \<Rightarrow> s),
               rn_activity = sr_activity i, rn_tool = nullable (sr_tool i), rn_input = nullable (sr_input i),
               rn_source = nullable (sr_source i), rn_transcript = None, rn_usage = sr_usage i,
               rn_started = clock e, rn_backend = None, rn_updated = clock e, rn_finished = None,
               rn_wake = sr_wake i\<rparr>;
          d1 = d\<lparr>runs := runs d @ [r]\<rparr>
      in if sr_source i = ''code_gate'' then Inr (d1, r)
         else
           (case reserve_run e d1 (new_id e) (sr_agent i) of
              Inl err \<Rightarrow> Inl err
            | Inr d2 \<Rightarrow> Inr (d2, r))))"

text \<open>A thinking node follows the session of its run.\<close>

definition bind_node :: "rdb \<Rightarrow> id \<Rightarrow> id \<Rightarrow> id \<Rightarrow> run_error + rdb" where
  "bind_node d node agent sid =
     (if count_rows (\<lambda>n. tn_id n = node \<and> tn_agent n = agent) (nodes d) \<noteq> 1
      then Inl (ErrRunInput ''thinking node session owner mismatch'')
      else Inr (d\<lparr>nodes := update_where (\<lambda>n. tn_id n = node \<and> tn_agent n = agent)
                   (\<lambda>n. n\<lparr>tn_session := Some sid\<rparr>) (nodes d)\<rparr>))"

definition bind_run_session :: "renv \<Rightarrow> rdb \<Rightarrow> id \<Rightarrow> id \<Rightarrow> id \<Rightarrow> run_error + rdb" where
  "bind_run_session e d rid sid node =
     (if rid = [] then Inl (ErrRunInput ''run_id is required'')
      else if sid = [] then Inl (ErrRunInput ''session_id is required'')
      else
     (case find (\<lambda>r. rn_id r = rid \<and> exists_row (\<lambda>s. ss_id s = sid \<and> ss_agent s = rn_agent r) (sessions d)) (runs d) of
        None \<Rightarrow> Inl (ErrRunInput ''run and session owner mismatch'')
      | Some r \<Rightarrow>
     (let d1 = fst (set_run rid (\<lambda>x. exists_row (\<lambda>s. ss_id s = sid \<and> ss_agent s = rn_agent x) (sessions d))
                      (\<lambda>x. x\<lparr>rn_session := Some sid, rn_updated := clock e\<rparr>) d);
          run_node = coalesce (scope_node (rn_scope r))
      in if node \<noteq> [] \<and> node \<noteq> run_node then Inl (ErrRunInput ''run and thinking node mismatch'')
         else if run_node \<noteq> [] then bind_node d1 run_node (rn_agent r) sid
         else Inr d1)))"

section \<open>Events\<close>

definition agent_run_event_text_limit :: nat where
  "agent_run_event_text_limit = 2048"

definition slim_run_event_text :: "string \<Rightarrow> string" where
  "slim_run_event_text v =
     (if rune_count v \<le> agent_run_event_text_limit then v
      else take_runes agent_run_event_text_limit v @ [CHR 0x0A] @ ''[truncated '' @
           nat_text (rune_count v - agent_run_event_text_limit) @ '' chars]'')"

definition slim_run_event_payload :: "payload \<Rightarrow> payload" where
  "slim_run_event_payload p = map (\<lambda>(k, v). (k, slim_run_event_text v)) p"

definition next_seq :: "run_event_row list \<Rightarrow> id \<Rightarrow> nat" where
  "next_seq es rid = foldr (\<lambda>x m. if re_run x = rid then max (re_seq x) m else m) es 0 + 1"

definition append_run_event ::
    "renv \<Rightarrow> id \<Rightarrow> run_event_type \<Rightarrow> string \<Rightarrow> string \<Rightarrow> payload \<Rightarrow> rdb \<Rightarrow> rdb" where
  "append_run_event e rid ty msg tool p d =
     d\<lparr>events := events d @
         [\<lparr>re_id = new_event_id e, re_run = rid, re_seq = next_seq (events d) rid, re_type = ty,
           re_message = slim_run_event_text msg, re_tool = nullable tool,
           re_payload = slim_run_event_payload p\<rparr>]\<rparr>"

definition append_event ::
    "renv \<Rightarrow> rdb \<Rightarrow> id \<Rightarrow> run_event_type \<Rightarrow> string \<Rightarrow> string \<Rightarrow> payload \<Rightarrow> run_error + rdb" where
  "append_event e d rid ty msg tool p =
     (case lock_agent_run d rid of
        Inl err \<Rightarrow> Inl err
      | Inr _ \<Rightarrow> Inr (append_run_event e rid ty msg tool p d))"

definition has_event :: "rdb \<Rightarrow> id \<Rightarrow> run_event_type \<Rightarrow> bool" where
  "has_event d rid ty \<longleftrightarrow> exists_row (\<lambda>x. re_run x = rid \<and> re_type x = ty) (events d)"

definition list_events :: "rdb \<Rightarrow> id \<Rightarrow> run_event_row list" where
  "list_events d rid = sort_key re_seq (filter (\<lambda>x. re_run x = rid) (events d))"

end
