(* ===== verification/Session_Rollover.thy ===== *)
theory Session_Rollover
  imports Agent_Run
begin

text \<open>
  The rollover protocol of \<open>service/agent_run.go\<close>: \<open>RequestSessionRollover\<close> marks the session of a run
  as pending, \<open>ResolveSessionDispatch\<close> decides which session the next run resumes or whether it starts
  fresh, and \<open>BindProviderSession\<close> records the session a run got and closes the one it replaces. Each
  is one transaction under the lock of its run.
\<close>

definition mismatch :: "string \<Rightarrow> run_error + 'a" where
  "mismatch why = Inl (ErrSessionRolloverMismatch why)"

section \<open>The replacement of a session\<close>

text \<open>\<open>findActiveRolloverReplacementTx\<close>.\<close>

definition is_replacement :: "id \<Rightarrow> id \<Rightarrow> id \<Rightarrow> string \<Rightarrow> run_row \<Rightarrow> session_row \<Rightarrow> bool" where
  "is_replacement from agent channel provider r s \<longleftrightarrow>
     rn_rollover r = Some from \<and> rn_agent r = agent \<and> scope_channel (rn_scope r) = Some channel \<and>
     scope_node (rn_scope r) = None \<and> rn_session r = Some (ss_id s) \<and> ss_id s \<noteq> from \<and>
     ss_agent s = agent \<and> ss_provider s = provider \<and> ss_status s = AgentSessionStatusActive \<and>
     coalesce (ss_external s) \<noteq> []"

definition find_active_rollover_replacement ::
    "rdb \<Rightarrow> id \<Rightarrow> id \<Rightarrow> id \<Rightarrow> string \<Rightarrow> session_row option" where
  "find_active_rollover_replacement d from agent channel provider =
     map_option snd
       (pick_by (\<lambda>a b. later_run (fst a) (fst b))
         (filter (\<lambda>(r, s). is_replacement from agent channel provider r s)
           (List.product (runs d) (sessions d))))"

section \<open>Binding\<close>

record bind_provider_input =
  bi_run :: id
  bi_agent :: id
  bi_provider :: string
  bi_external :: string
  bi_transcript :: string
  bi_title :: string
  bi_node :: id

text \<open>The predecessor of a rollover run, or the empty status of a run that replaces nothing.\<close>

definition predecessor :: "rdb \<Rightarrow> run_row \<Rightarrow> string \<Rightarrow> run_error + session_row option" where
  "predecessor d r provider =
     (case rn_rollover r of
        None \<Rightarrow> Inr None
      | Some from \<Rightarrow>
          (case owned_session d from (rn_agent r) provider of
             None \<Rightarrow> mismatch ''predecessor is missing or has another owner/provider''
           | Some old \<Rightarrow> Inr (Some old)))"

text \<open>The checks of a rollover run; what they find is whether another run has already replaced the session.\<close>

definition rollover_check ::
    "rdb \<Rightarrow> run_row \<Rightarrow> string \<Rightarrow> session_row \<Rightarrow> session_row \<Rightarrow> run_error + bool" where
  "rollover_check d r provider old s =
     (let current = coalesce (rn_session r);
          channel = coalesce (scope_channel (rn_scope r));
          replayed = (rn_session r = Some (ss_id s));
          late = (ss_status old = AgentSessionStatusClosed \<and> \<not> replayed \<and>
                  (current = [] \<or> current = ss_id old));
          converged =
            (late \<and> (case find_active_rollover_replacement d (ss_id old) (rn_agent r) channel provider of
                       None \<Rightarrow> False | Some w \<Rightarrow> ss_id w = ss_id s))
      in if ss_id s = ss_id old \<or> (coalesce (ss_external old) \<noteq> [] \<and> ss_external s = ss_external old)
         then mismatch ''fresh provider session reused the retired id''
         else if ss_status s \<noteq> AgentSessionStatusActive \<and> \<not> replayed
         then mismatch ''replacement session is not active''
         else if late \<and> channel = [] then Inl ErrRunDatabase
         else if ss_status old \<noteq> AgentSessionStatusRolloverPending \<and>
                 \<not> (ss_status old = AgentSessionStatusClosed \<and> (replayed \<or> converged))
         then mismatch ''predecessor is not pending''
         else Inr converged)"

definition bind_run ::
    "renv \<Rightarrow> run_row \<Rightarrow> session_row \<Rightarrow> string \<Rightarrow> bool \<Rightarrow> rdb \<Rightarrow> rdb" where
  "bind_run e r s transcript converged d =
     fst (set_run (rn_id r) (\<lambda>x. rn_agent x = rn_agent r)
       (\<lambda>x. x\<lparr>rn_session := Some (ss_id s), rn_transcript := or_else (nullable transcript) (rn_transcript x),
              rn_rollover := (if converged then None else rn_rollover x), rn_updated := clock e\<rparr>) d)"

text \<open>Closing the predecessor and recording the completion, once for the run.\<close>

definition complete_rollover :: "renv \<Rightarrow> id \<Rightarrow> string \<Rightarrow> session_row \<Rightarrow> session_row \<Rightarrow> rdb \<Rightarrow> rdb" where
  "complete_rollover e rid provider old s d =
     (let d1 = move_session e (ss_id old) AgentSessionStatusRolloverPending AgentSessionStatusClosed d
      in if has_event d1 rid SessionRolloverCompleted then d1
         else append_run_event e rid SessionRolloverCompleted ''session rollover completed'' []
                [(''provider'', provider), (''from_session_id'', ss_id old), (''to_session_id'', ss_id s),
                 (''reason'', ''rollover_completed'')] d1)"

definition bind_provider_session :: "renv \<Rightarrow> rdb \<Rightarrow> bind_provider_input \<Rightarrow> run_error + (rdb \<times> session_row)" where
  "bind_provider_session e d i =
     (case lock_agent_run d (bi_run i) of
        Inl err \<Rightarrow> Inl err
      | Inr r \<Rightarrow>
     if rn_finished r \<noteq> None \<or> \<not> is_active_agent_run_status (rn_status r) then Inl ErrAgentRunAlreadyFinished
     else if bi_agent i \<noteq> [] \<and> bi_agent i \<noteq> rn_agent r then Inl (ErrRunInput ''run and session owner mismatch'')
     else if bi_node i \<noteq> [] \<and> bi_node i \<noteq> coalesce (scope_node (rn_scope r))
     then Inl (ErrRunInput ''run and thinking node mismatch'')
     else
     (case predecessor d r (bi_provider i) of
        Inl err \<Rightarrow> Inl err
      | Inr pred \<Rightarrow>
     (case upsert_session e d \<lparr>ui_agent = rn_agent r, ui_provider = bi_provider i, ui_external = bi_external i,
             ui_transcript = bi_transcript i, ui_title = bi_title i\<rparr> of
        Inl err \<Rightarrow> Inl err
      | Inr (d1, s) \<Rightarrow>
     if coalesce (rn_session r) \<noteq> [] \<and> rn_session r \<noteq> rn_rollover r \<and> rn_session r \<noteq> Some (ss_id s)
     then mismatch ''Run is already bound to another provider session''
     else
     (case (case pred of None \<Rightarrow> Inr False | Some old \<Rightarrow> rollover_check d1 r (bi_provider i) old s) of
        Inl err \<Rightarrow> Inl err
      | Inr converged \<Rightarrow>
     (let d2 = bind_run e r s (bi_transcript i) converged d1;
          node = coalesce (scope_node (rn_scope r))
      in case (if node = [] then Inr d2 else bind_node d2 node (rn_agent r) (ss_id s)) of
           Inl err \<Rightarrow> Inl err
         | Inr d3 \<Rightarrow>
             Inr ((case pred of
                     None \<Rightarrow> d3
                   | Some old \<Rightarrow> if converged then d3 else complete_rollover e (rn_id r) (bi_provider i) old s d3),
                  s))))))"

section \<open>Requesting a rollover\<close>

definition rollover_requested :: "rdb \<Rightarrow> id \<Rightarrow> bool" where
  "rollover_requested d sid \<longleftrightarrow>
     exists_row (\<lambda>x. member ''session_id'' (re_payload x) = Some sid \<and> re_type x = SessionRolloverRequested)
       (events d)"

definition rollover_payload :: "string \<Rightarrow> id \<Rightarrow> string \<Rightarrow> string \<Rightarrow> payload \<Rightarrow> payload" where
  "rollover_payload provider sid reason continuity p =
     (let q = put ''reason'' reason (put ''session_id'' sid (put ''provider'' provider p))
      in if continuity \<noteq> [] then put ''continuity'' continuity q else q)"

text \<open>The session, and whether this request was the first for it.\<close>

definition request_session_rollover ::
    "renv \<Rightarrow> rdb \<Rightarrow> id \<Rightarrow> string \<Rightarrow> string \<Rightarrow> payload \<Rightarrow> run_error + (rdb \<times> id \<times> bool)" where
  "request_session_rollover e d rid reason continuity p =
     (case lock_agent_run d rid of
        Inl err \<Rightarrow> Inl err
      | Inr r \<Rightarrow>
     (let sid = coalesce (rn_session r) in
      if sid = [] \<or> coalesce (scope_node (rn_scope r)) \<noteq> []
      then mismatch ''Run has no eligible provider session''
      else
     (case find (\<lambda>s. ss_id s = sid \<and> ss_agent s = rn_agent r) (sessions d) of
        None \<Rightarrow> mismatch ''Run session is missing or owned by another agent''
      | Some s \<Rightarrow>
     (let already = rollover_requested d sid in
      if ss_status s = AgentSessionStatusRolloverPending \<or>
         (ss_status s = AgentSessionStatusClosed \<and> already)
      then Inr (d, sid, False)
      else if ss_status s \<noteq> AgentSessionStatusActive then mismatch ''Session is not active''
      else
        (let d1 = move_session e sid AgentSessionStatusActive AgentSessionStatusRolloverPending d;
             d2 = (if already then d1
                   else append_run_event e rid SessionRolloverRequested ''session rollover requested'' []
                          (rollover_payload (ss_provider s) sid reason continuity p) d1)
         in Inr (d2, sid, \<not> already))))))"

section \<open>Dispatching\<close>

record resolve_dispatch_input =
  di_run :: id
  di_agent :: id
  di_channel :: id
  di_provider :: string
  di_node :: id
  di_resume :: string
  di_force_fresh :: bool
  di_supports_rollover :: bool

record session_dispatch =
  sd_resume :: string
  sd_fresh :: bool
  sd_retire :: string
  sd_rollover :: string
  sd_cold :: bool

definition resume :: "string \<Rightarrow> session_dispatch" where
  "resume ext = \<lparr>sd_resume = ext, sd_fresh = False, sd_retire = [], sd_rollover = [], sd_cold = False\<rparr>"

definition cold_start :: session_dispatch where
  "cold_start = \<lparr>sd_resume = [], sd_fresh = False, sd_retire = [], sd_rollover = [], sd_cold = True\<rparr>"

definition fresh_instead :: "resolve_dispatch_input \<Rightarrow> id \<Rightarrow> string \<Rightarrow> session_dispatch" where
  "fresh_instead i old ext =
     \<lparr>sd_resume = [], sd_fresh = True, sd_retire = (if di_supports_rollover i then ext else []),
      sd_rollover = old, sd_cold = True\<rparr>"

definition one_row :: "string \<Rightarrow> rdb \<times> nat \<Rightarrow> run_error + rdb" where
  "one_row why r = (if snd r = 1 then Inr (fst r) else mismatch why)"

text \<open>Dropping the rollover intent of a run that has not been bound to a new session.\<close>

definition drop_rollover :: "renv \<Rightarrow> id \<Rightarrow> id \<Rightarrow> rdb \<Rightarrow> run_error + rdb" where
  "drop_rollover e rid from d =
     one_row ''Run rollover intent changed''
       (set_run rid (\<lambda>r. rn_rollover r = Some from \<and> (rn_session r = None \<or> rn_session r = Some from))
         (\<lambda>r. r\<lparr>rn_session := (if rn_session r = Some from then None else rn_session r),
                rn_rollover := None, rn_updated := clock e\<rparr>) d)"

definition resolve_persisted_rollover ::
    "renv \<Rightarrow> rdb \<Rightarrow> resolve_dispatch_input \<Rightarrow> id \<Rightarrow> id \<Rightarrow> run_error + (rdb \<times> session_dispatch)" where
  "resolve_persisted_rollover e d i from current =
     (case owned_session d from (di_agent i) (di_provider i) of
        None \<Rightarrow> mismatch ''persisted predecessor is missing''
      | Some old \<Rightarrow>
     if ss_status old \<noteq> AgentSessionStatusRolloverPending \<and> ss_status old \<noteq> AgentSessionStatusClosed
     then mismatch ''persisted predecessor is still active''
     else if current \<noteq> [] \<and> current \<noteq> from
     then
       (case owned_session d current (di_agent i) (di_provider i) of
          None \<Rightarrow> mismatch ''bound replacement is missing''
        | Some s \<Rightarrow>
            if ss_status s \<noteq> AgentSessionStatusActive \<or> coalesce (ss_external s) = []
            then mismatch ''bound replacement is not active''
            else Inr (move_session e from AgentSessionStatusRolloverPending AgentSessionStatusClosed d,
                      resume (coalesce (ss_external s))))
     else
       (case find_active_rollover_replacement d from (di_agent i) (di_channel i) (di_provider i) of
          Some s \<Rightarrow>
            (case drop_rollover e (di_run i) from
                    (move_session e from AgentSessionStatusRolloverPending AgentSessionStatusClosed d) of
               Inl err \<Rightarrow> Inl err
             | Inr d' \<Rightarrow> Inr (d', resume (coalesce (ss_external s))))
        | None \<Rightarrow>
            if ss_status old = AgentSessionStatusClosed
            then
              (case drop_rollover e (di_run i) from d of
                 Inl err \<Rightarrow> Inl err
               | Inr d' \<Rightarrow> Inr (d', cold_start))
            else Inr (d, fresh_instead i from (coalesce (ss_external old)))))"

text \<open>
  The session the run is bound to already. \<open>Inr None\<close> goes on to the rest of the resolution, which
  happens only for a run of a thinking node.
\<close>

definition resolve_current ::
    "renv \<Rightarrow> rdb \<Rightarrow> resolve_dispatch_input \<Rightarrow> run_row \<Rightarrow> id \<Rightarrow> run_error + (rdb \<times> session_dispatch) option" where
  "resolve_current e d i r current =
     (case owned_session d current (di_agent i) (di_provider i) of
        None \<Rightarrow> mismatch ''current Run session is missing or has another owner/provider''
      | Some s \<Rightarrow>
     if ss_status s = AgentSessionStatusActive \<and> coalesce (ss_external s) \<noteq> []
     then Inr (Some (d, resume (coalesce (ss_external s))))
     else if scope_node (rn_scope r) \<noteq> None \<or> di_node i \<noteq> [] then Inr None
     else if ss_status s = AgentSessionStatusRolloverPending
     then
       map_sum id (\<lambda>d'. Some (d', fresh_instead i current (coalesce (ss_external s))))
         (one_row ''current Run session changed''
           (set_run (rn_id r) (\<lambda>x. rn_session x = Some current \<and> rn_rollover x = None)
             (\<lambda>x. x\<lparr>rn_rollover := Some current, rn_updated := clock e\<rparr>) d))
     else if ss_status s = AgentSessionStatusClosed
     then
       map_sum id (\<lambda>d'. Some (d',
           (case find_active_rollover_replacement d current (di_agent i) (di_channel i) (di_provider i) of
              None \<Rightarrow> cold_start | Some w \<Rightarrow> resume (coalesce (ss_external w)))))
         (one_row ''current Run session changed''
           (set_run (rn_id r) (\<lambda>x. rn_session x = Some current \<and> rn_rollover x = None)
             (\<lambda>x. x\<lparr>rn_session := None, rn_updated := clock e\<rparr>) d))
     else mismatch ''current Run session is not usable'')"

definition used_in_channel :: "rdb \<Rightarrow> id \<Rightarrow> id \<Rightarrow> session_row \<Rightarrow> bool" where
  "used_in_channel d channel but s \<longleftrightarrow>
     exists_row (\<lambda>r. rn_session r = Some (ss_id s) \<and> scope_channel (rn_scope r) = Some channel \<and>
       scope_node (rn_scope r) = None \<and> rn_id r \<noteq> but) (runs d)"

definition session_by_external :: "rdb \<Rightarrow> resolve_dispatch_input \<Rightarrow> session_row option" where
  "session_by_external d i =
     find (\<lambda>s. ss_agent s = di_agent i \<and> ss_provider s = di_provider i \<and> ss_external s = Some (di_resume i) \<and>
       exists_row (\<lambda>r. rn_session r = Some (ss_id s) \<and> scope_channel (rn_scope r) = Some (di_channel i) \<and>
         scope_node (rn_scope r) = None) (runs d)) (sessions d)"

text \<open>Starting fresh on request: the session to recover from becomes the run's predecessor.\<close>

definition resolve_force_fresh ::
    "renv \<Rightarrow> rdb \<Rightarrow> resolve_dispatch_input \<Rightarrow> run_error + (rdb \<times> session_dispatch)" where
  "resolve_force_fresh e d i =
     (case (if di_resume i = [] then None else session_by_external d i) of
        None \<Rightarrow> Inr (d, cold_start\<lparr>sd_fresh := True\<rparr>)
      | Some s \<Rightarrow>
          if ss_status s \<noteq> AgentSessionStatusActive \<and> ss_status s \<noteq> AgentSessionStatusRolloverPending \<and>
             ss_status s \<noteq> AgentSessionStatusClosed
          then mismatch ''recovery predecessor is not usable''
          else
            (let d1 = (if ss_status s = AgentSessionStatusActive
                       then move_session e (ss_id s) AgentSessionStatusActive AgentSessionStatusRolloverPending d
                       else d);
                 d2 = fst (set_run (di_run i) (\<lambda>r. rn_rollover r = None)
                             (\<lambda>r. r\<lparr>rn_rollover := Some (ss_id s), rn_updated := clock e\<rparr>) d1)
             in resolve_persisted_rollover e d2 i (ss_id s) []))"

text \<open>The most recent session of the agent in the channel that is not closed.\<close>

definition candidate_session :: "rdb \<Rightarrow> resolve_dispatch_input \<Rightarrow> session_row option" where
  "candidate_session d i =
     pick_by (\<lambda>a b. ss_active a > ss_active b \<or> (ss_active a = ss_active b \<and> ss_started a > ss_started b))
       (filter (\<lambda>s. ss_agent s = di_agent i \<and> ss_provider s = di_provider i \<and>
            (ss_status s = AgentSessionStatusActive \<or> ss_status s = AgentSessionStatusRolloverPending) \<and>
            used_in_channel d (di_channel i) (di_run i) s) (sessions d))"

definition resolve_candidate ::
    "renv \<Rightarrow> rdb \<Rightarrow> resolve_dispatch_input \<Rightarrow> run_error + (rdb \<times> session_dispatch)" where
  "resolve_candidate e d i =
     (case candidate_session d i of
        None \<Rightarrow> Inr (d, cold_start)
      | Some c \<Rightarrow>
     if ss_status c = AgentSessionStatusRolloverPending
     then
       (case find_active_rollover_replacement d (ss_id c) (di_agent i) (di_channel i) (di_provider i) of
          Some s \<Rightarrow>
            Inr (move_session e (ss_id c) AgentSessionStatusRolloverPending AgentSessionStatusClosed d,
                 resume (coalesce (ss_external s)))
        | None \<Rightarrow>
            Inr (fst (set_run (di_run i) (\<lambda>r. rn_rollover r = None \<or> rn_rollover r = Some (ss_id c))
                        (\<lambda>r. r\<lparr>rn_rollover := Some (ss_id c), rn_updated := clock e\<rparr>) d),
                 fresh_instead i (ss_id c) (coalesce (ss_external c))))
     else
       (case (if di_resume i = [] then None else session_by_external d i) of
          Some x \<Rightarrow>
            if ss_status x = AgentSessionStatusActive then Inr (d, resume (di_resume i))
            else if coalesce (ss_external c) \<noteq> [] then Inr (d, resume (coalesce (ss_external c)))
            else Inr (d, cold_start)
        | None \<Rightarrow>
            if coalesce (ss_external c) \<noteq> [] then Inr (d, resume (coalesce (ss_external c)))
            else Inr (d, cold_start)))"

definition resolve_session_dispatch ::
    "renv \<Rightarrow> rdb \<Rightarrow> resolve_dispatch_input \<Rightarrow> run_error + (rdb \<times> session_dispatch)" where
  "resolve_session_dispatch e d i =
     (if di_run i = [] \<or> di_agent i = [] \<or> di_channel i = [] \<or> di_provider i = []
      then Inl (ErrRunInput ''run_id, agent_id, channel_id, and provider are required'')
      else
     (case lock_agent_run d (di_run i) of
        Inl err \<Rightarrow> Inl err
      | Inr r \<Rightarrow>
     if rn_agent r \<noteq> di_agent i \<or> coalesce (scope_channel (rn_scope r)) \<noteq> di_channel i
     then Inl (ErrRunInput ''Run dispatch scope mismatch'')
     else
     (case rn_rollover r of
        Some from \<Rightarrow> resolve_persisted_rollover e d i from (coalesce (rn_session r))
      | None \<Rightarrow>
     (case (case rn_session r of None \<Rightarrow> Inr None | Some cur \<Rightarrow> resolve_current e d i r cur) of
        Inl err \<Rightarrow> Inl err
      | Inr (Some answer) \<Rightarrow> Inr answer
      | Inr None \<Rightarrow>
          if scope_node (rn_scope r) \<noteq> None \<or> di_node i \<noteq> []
          then Inr (d, \<lparr>sd_resume = di_resume i, sd_fresh = di_force_fresh i, sd_retire = [], sd_rollover = [],
                        sd_cold = (di_resume i = [])\<rparr>)
          else if di_force_fresh i then resolve_force_fresh e d i
          else resolve_candidate e d i))))"

end
