(* ===== verification/Run_Lifecycle.thy ===== *)
theory Run_Lifecycle
  imports Session_Rollover
begin

text \<open>
  The rest of \<open>service/agent_run.go\<close>: a run starts on its backend, reports its progress and finishes
  once, which settles its budget; and the queries other services make about runs.
\<close>

section \<open>Progress\<close>

definition started_on_backend :: "renv \<Rightarrow> run_row \<Rightarrow> run_row" where
  "started_on_backend e r =
     r\<lparr>rn_status := (if rn_status r = AgentRunStatusQueued then AgentRunStatusRunning else rn_status r),
       rn_activity := (if rn_status r = AgentRunStatusQueued
                       then [CHR 0xE6, CHR 0x89, CHR 0xA7, CHR 0xE8, CHR 0xA1, CHR 0x8C, CHR 0xE4, CHR 0xB8, CHR 0xAD]
                       else rn_activity r),
       rn_backend := or_else (rn_backend r) (Some (clock e)),
       rn_updated := (if rn_backend r = None then clock e else rn_updated r)\<rparr>"

definition mark_backend_started :: "renv \<Rightarrow> rdb \<Rightarrow> id \<Rightarrow> run_error + rdb" where
  "mark_backend_started e d rid =
     (if rid = [] then Inl (ErrRunInput ''run_id is required'')
      else
        (let u = set_run rid (\<lambda>r. is_active_agent_run_status (rn_status r)) (started_on_backend e) d
         in if snd u = 0 then Inl ErrNoRows else Inr (fst u)))"

text \<open>
  \<open>scanAgentRunUpdate\<close>: an update that met no row is told apart by whether the run has finished.
\<close>

definition late_update :: "rdb \<Rightarrow> id \<Rightarrow> run_error" where
  "late_update d rid =
     (case row_by rn_id rid (runs d) of
        None \<Rightarrow> ErrNoRows
      | Some r \<Rightarrow> if rn_finished r \<noteq> None then ErrAgentRunAlreadyFinished else ErrNoRows)"

record update_run_status_input =
  us_run_id :: id
  us_status :: run_status
  us_activity :: string
  us_tool :: string
  us_input :: string
  us_source :: string
  us_usage :: usage_json

definition keep_usage :: "usage_json \<Rightarrow> usage_json \<Rightarrow> usage_json" where
  "keep_usage new old = (if new = UsageEmpty then old else new)"

definition update_run_status :: "renv \<Rightarrow> rdb \<Rightarrow> update_run_status_input \<Rightarrow> run_error + rdb" where
  "update_run_status e d i =
     (let u = set_run (us_run_id i) (\<lambda>r. rn_finished r = None)
                (\<lambda>r. r\<lparr>rn_status := us_status i, rn_activity := us_activity i, rn_tool := nullable (us_tool i),
                       rn_input := nullable (us_input i),
                       rn_source := or_else (nullable (us_source i)) (rn_source r),
                       rn_usage := keep_usage (us_usage i) (rn_usage r), rn_updated := clock e\<rparr>) d
      in if snd u = 0 then Inl (late_update d (us_run_id i)) else Inr (fst u))"

definition update_run_transcript :: "renv \<Rightarrow> rdb \<Rightarrow> id \<Rightarrow> string \<Rightarrow> run_error + rdb" where
  "update_run_transcript e d rid path =
     (if rid = [] then Inl (ErrRunInput ''run_id is required'')
      else
        (let u = set_run rid (\<lambda>_. True)
                   (\<lambda>r. r\<lparr>rn_transcript := or_else (nullable path) (rn_transcript r), rn_updated := clock e\<rparr>) d
         in if snd u = 0 then Inl ErrNoRows else Inr (fst u)))"

text \<open>\<open>LinkTask\<close>, without the confidence column, which nothing reads back.\<close>

definition link_task :: "rdb \<Rightarrow> id \<Rightarrow> id \<Rightarrow> string \<Rightarrow> rdb" where
  "link_task d rid tid role0 =
     (let role = (if role0 = [] then ''primary'' else role0) in
      d\<lparr>links :=
          (if exists_row (\<lambda>l. lk_run l = rid \<and> lk_task l = tid) (links d)
           then update_where (\<lambda>l. lk_run l = rid \<and> lk_task l = tid) (\<lambda>l. l\<lparr>lk_role := role\<rparr>) (links d)
           else links d @ [\<lparr>lk_run = rid, lk_task = tid, lk_role = role\<rparr>])\<rparr>)"

section \<open>Finishing\<close>

record finish_run_input =
  fi_run :: id
  fi_status :: run_status
  fi_activity :: string
  fi_usage :: usage_json

definition finished :: "renv \<Rightarrow> finish_run_input \<Rightarrow> run_row \<Rightarrow> run_row" where
  "finished e i r =
     r\<lparr>rn_status := fi_status i, rn_activity := fi_activity i, rn_usage := keep_usage (fi_usage i) (rn_usage r),
       rn_updated := clock e, rn_finished := Some (clock e)\<rparr>"

definition finish_run :: "renv \<Rightarrow> rdb \<Rightarrow> finish_run_input \<Rightarrow> run_error + rdb" where
  "finish_run e d i =
     (let u = set_run (fi_run i) (\<lambda>r. rn_finished r = None) (finished e i) d
      in if snd u = 0 then Inl (late_update d (fi_run i))
         else
           (case row_by rn_id (fi_run i) (runs (fst u)) of
              None \<Rightarrow> Inl ErrNoRows
            | Some r \<Rightarrow> settle_run (fst u) (rn_id r) (rn_backend r \<noteq> None) (rn_usage r)))"

section \<open>Removing an agent\<close>

text \<open>
  \<open>service/channel.go\<close>, \<open>RemoveMember\<close>: the runs of the agent still active in the channel (all of them
  when it leaves its home channel, \<open>None\<close>) are cancelled and settled, and its sessions closed; a session
  that runs elsewhere or for a thinking node stays when the agent only leaves one channel.
\<close>

definition removed_text :: string where
  "removed_text = ''Cancelled because the Agent was removed''"

definition removed_run :: "id \<Rightarrow> id option \<Rightarrow> run_row \<Rightarrow> bool" where
  "removed_run agent channel r \<longleftrightarrow>
     rn_agent r = agent \<and> (channel \<noteq> None \<longrightarrow> scope_channel (rn_scope r) = channel) \<and>
     is_active_agent_run_status (rn_status r)"

definition cancelled :: "renv \<Rightarrow> run_row \<Rightarrow> run_row" where
  "cancelled e r =
     r\<lparr>rn_status := AgentRunStatusCancelled, rn_activity := removed_text, rn_updated := clock e,
       rn_finished := or_else (rn_finished r) (Some (clock e))\<rparr>"

definition removed_session :: "rdb \<Rightarrow> id \<Rightarrow> id option \<Rightarrow> session_row \<Rightarrow> bool" where
  "removed_session d agent channel s \<longleftrightarrow>
     ss_agent s = agent \<and>
     (ss_status s = AgentSessionStatusActive \<or> ss_status s = AgentSessionStatusRolloverPending) \<and>
     (channel \<noteq> None \<longrightarrow>
        exists_row (\<lambda>r. rn_session r = Some (ss_id s) \<and> rn_agent r = agent \<and>
          scope_channel (rn_scope r) = channel \<and> scope_node (rn_scope r) = None) (runs d) \<and>
        \<not> exists_row (\<lambda>r. rn_session r = Some (ss_id s) \<and>
          (scope_node (rn_scope r) \<noteq> None \<or> scope_channel (rn_scope r) \<noteq> channel)) (runs d))"

definition close_session :: "renv \<Rightarrow> session_row \<Rightarrow> session_row" where
  "close_session e s = s\<lparr>ss_status := AgentSessionStatusClosed, ss_active := clock e\<rparr>"

definition remove_agent :: "renv \<Rightarrow> rdb \<Rightarrow> id \<Rightarrow> id option \<Rightarrow> run_error + rdb" where
  "remove_agent e d agent channel =
     (let ids = map rn_id (filter (removed_run agent channel) (runs d));
          d1 = d\<lparr>runs := update_where (removed_run agent channel) (cancelled e) (runs d)\<rparr>
      in case settle_terminal_runs d1 ids of
           Inl err \<Rightarrow> Inl err
         | Inr d2 \<Rightarrow>
             Inr (d2\<lparr>sessions := update_where (removed_session d2 agent channel) (close_session e) (sessions d2)\<rparr>))"

section \<open>Queries\<close>

definition get_run :: "rdb \<Rightarrow> id \<Rightarrow> (run_row \<times> usage_row option) option" where
  "get_run d rid = map_option (\<lambda>r. (r, row_by us_run (rn_id r) (usages d))) (row_by rn_id rid (runs d))"

text \<open>Newest first, at most a hundred.\<close>

definition newest_runs :: "(run_row \<Rightarrow> time) \<Rightarrow> run_row list \<Rightarrow> run_row list" where
  "newest_runs by rs = take 100 (sort_key (\<lambda>r. - by r) rs)"

definition list_active_runs :: "rdb \<Rightarrow> run_row list" where
  "list_active_runs d = newest_runs rn_updated (filter (\<lambda>r. is_active_agent_run_status (rn_status r)) (runs d))"

definition list_active_runs_by_daemon :: "rdb \<Rightarrow> string \<Rightarrow> run_row list" where
  "list_active_runs_by_daemon d daemon =
     newest_runs rn_updated
       (filter (\<lambda>r. is_active_agent_run_status (rn_status r) \<and> rn_daemon r = Some daemon) (runs d))"

definition get_run_daemon_id :: "rdb \<Rightarrow> id \<Rightarrow> string option" where
  "get_run_daemon_id d rid = map_option (\<lambda>r. coalesce (rn_daemon r)) (row_by rn_id rid (runs d))"

definition list_runs_by_agent :: "rdb \<Rightarrow> id \<Rightarrow> run_row list" where
  "list_runs_by_agent d agent = newest_runs rn_started (filter (\<lambda>r. rn_agent r = agent) (runs d))"

definition list_sessions_by_agent :: "rdb \<Rightarrow> id \<Rightarrow> session_row list" where
  "list_sessions_by_agent d agent =
     take 100 (sort_key (\<lambda>s. - ss_active s) (filter (\<lambda>s. ss_agent s = agent) (sessions d)))"

definition minutes2 :: time where
  "minutes2 = 120 * 10 ^ 9"

text \<open>The thinking node of the one run that executes in a channel; queued and thinking runs do not count.\<close>

definition resolve_executing_thinking_node :: "renv \<Rightarrow> rdb \<Rightarrow> id \<Rightarrow> id \<Rightarrow> run_error + id" where
  "resolve_executing_thinking_node e d agent channel =
     (case filter (\<lambda>r. rn_agent r = agent \<and> scope_channel (rn_scope r) = Some channel \<and>
              rn_status r \<in> {AgentRunStatusRunning, AgentRunStatusStreaming, AgentRunStatusWaitingInput,
                             AgentRunStatusWaitingApproval} \<and>
              rn_updated r \<ge> clock e - minutes2) (runs d) of
        [] \<Rightarrow> Inr []
      | [r] \<Rightarrow> Inr (coalesce (scope_node (rn_scope r)))
      | _ \<Rightarrow> Inl ErrAmbiguousAgentRunScope)"

definition user_in_channel :: "rdb \<Rightarrow> id \<Rightarrow> id option \<Rightarrow> bool" where
  "user_in_channel d user channel \<longleftrightarrow>
     exists_row (\<lambda>m. Some (m_channel m) = channel \<and> m_type m = ''user'' \<and> m_member m = user) (channel_members d)"

definition user_can_access_run :: "rdb \<Rightarrow> id \<Rightarrow> id \<Rightarrow> bool" where
  "user_can_access_run d user rid \<longleftrightarrow>
     exists_row (\<lambda>r. rn_id r = rid \<and>
       exists_row (\<lambda>a. a_id a = rn_agent r \<and>
         (a_owner a = user \<or> user_in_channel d user (scope_channel (rn_scope r)))) (owned_agents d)) (runs d)"

text \<open>
  \<open>ResolveMessageDeliveryScope\<close>: \<open>Some\<close> the thread whose freshness cursor applies, or \<open>None\<close> when the
  message is outside the run's conversation.
\<close>

definition eligible_wake_thread :: "rdb \<Rightarrow> run_row \<Rightarrow> id \<Rightarrow> id \<Rightarrow> bool" where
  "eligible_wake_thread d r channel thread \<longleftrightarrow>
     exists_row (\<lambda>t. th_id t = thread \<and> th_channel t = channel \<and>
       (case map_of (message_seqs d) (th_root t) of
          None \<Rightarrow> False
        | Some seq \<Rightarrow>
            Some (th_root t) = trigger_message (rn_scope r) \<or>
            (wake_first (rn_wake r) > 0 \<and> wake_first (rn_wake r) \<le> seq \<and> seq \<le> wake_latest (rn_wake r))))
       (threads d)"

definition resolve_message_delivery_scope ::
    "rdb \<Rightarrow> id \<Rightarrow> id \<Rightarrow> id \<Rightarrow> id \<Rightarrow> id \<Rightarrow> run_error + id option" where
  "resolve_message_delivery_scope d rid agent channel thread node =
     (case find (\<lambda>r. rn_id r = rid \<and> rn_agent r = agent \<and> rn_finished r = None) (runs d) of
        None \<Rightarrow> Inl (ErrRunInput ''agent run is missing, finished, or owned by another agent'')
      | Some r \<Rightarrow>
          (let run_thread = coalesce (scope_thread (rn_scope r)) in
           if coalesce (scope_channel (rn_scope r)) \<noteq> channel \<or> coalesce (scope_node (rn_scope r)) \<noteq> node
           then Inr None
           else if run_thread = thread then Inr (Some run_thread)
           else if run_thread = [] \<and> thread \<noteq> [] \<and> eligible_wake_thread d r channel thread
           then Inr (Some run_thread)
           else Inr None))"

end
