(* ===== verification/Run_Machine.thy ===== *)
theory Run_Machine
  imports Run_Lifecycle
begin

text \<open>
  Every operation on runs, sessions and budgets is one transaction. The relation \<open>table_write\<close> lists the
  writes they are made of, and \<open>run_step\<close>, the machine that executes an operation and keeps the database
  when it fails, is proved to be a sequence of such writes. An invariant of the component is then a
  property of the writes alone.
\<close>

section \<open>The writes\<close>

definition session_rank :: "session_status \<Rightarrow> nat" where
  "session_rank st =
     (case st of
        AgentSessionStatusActive \<Rightarrow> 0
      | AgentSessionStatusRolloverPending \<Rightarrow> 1
      | AgentSessionStatusClosed \<Rightarrow> 2
      | AgentSessionStatusOther _ \<Rightarrow> 0)"

text \<open>What a run that has ended keeps for ever.\<close>

definition ended :: "run_row \<Rightarrow> bool" where
  "ended r \<longleftrightarrow> rn_finished r \<noteq> None \<and> \<not> is_active_agent_run_status (rn_status r)"

definition outcome :: "run_row \<Rightarrow> id \<times> run_scope \<times> run_status \<times> string \<times> usage_json \<times> time \<times> time option \<times> time option" where
  "outcome r = (rn_agent r, rn_scope r, rn_status r, rn_activity r, rn_usage r, rn_started r, rn_backend r, rn_finished r)"

definition run_change :: "(run_row \<Rightarrow> bool) \<Rightarrow> (run_row \<Rightarrow> run_row) \<Rightarrow> bool" where
  "run_change P f \<longleftrightarrow>
     (\<forall>r. rn_id (f r) = rn_id r \<and> (P r \<longrightarrow> ended r \<longrightarrow> outcome (f r) = outcome r) \<and>
          (rn_finished r \<noteq> None \<longrightarrow> rn_finished (f r) \<noteq> None))"

definition session_change :: "(session_row \<Rightarrow> bool) \<Rightarrow> (session_row \<Rightarrow> session_row) \<Rightarrow> bool" where
  "session_change P f \<longleftrightarrow>
     (\<forall>s. ss_id (f s) = ss_id s \<and> ss_agent (f s) = ss_agent s \<and> ss_provider (f s) = ss_provider s \<and>
          (P s \<longrightarrow> session_rank (ss_status s) \<le> session_rank (ss_status (f s))))"

fun settle_all :: "rdb \<Rightarrow> (id \<times> bool \<times> usage_json) list \<Rightarrow> run_error + rdb" where
  "settle_all d [] = Inr d"
| "settle_all d ((rid, started, raw) # xs) =
     (case settle_run d rid started raw of Inl err \<Rightarrow> Inl err | Inr d' \<Rightarrow> settle_all d' xs)"

inductive table_write :: "rdb \<Rightarrow> rdb \<Rightarrow> bool" where
  insert_session:
    "ss_id s \<notin> ss_id ` set (sessions d) \<Longrightarrow> table_write d (d\<lparr>sessions := sessions d @ [s]\<rparr>)"
| change_sessions:
    "session_change P f \<Longrightarrow> table_write d (d\<lparr>sessions := update_where P f (sessions d)\<rparr>)"
| insert_run:
    "rn_id r \<notin> rn_id ` set (runs d) \<Longrightarrow> rn_finished r = None \<Longrightarrow>
     table_write d (d\<lparr>runs := runs d @ [r]\<rparr>)"
| change_runs:
    "run_change P f \<Longrightarrow> (\<And>r. P r \<Longrightarrow> rn_finished (f r) = rn_finished r) \<Longrightarrow>
     table_write d (d\<lparr>runs := update_where P f (runs d)\<rparr>)"
| end_runs:
    "run_change P f \<Longrightarrow> (\<And>r. r \<in> set (runs d) \<Longrightarrow> P r \<Longrightarrow> rn_id r \<in> fst ` set xs) \<Longrightarrow>
     settle_all (d\<lparr>runs := update_where P f (runs d)\<rparr>) xs = Inr d' \<Longrightarrow> table_write d d'"
| reserve:
    "reserve_run e d rid agent = Inr d' \<Longrightarrow> row_by rn_id rid (runs d) = Some r \<Longrightarrow>
     rn_finished r = None \<Longrightarrow> table_write d d'"
| append_event:
    "table_write d (append_run_event e rid ty msg tool p d)"
| nodes_links_policies:
    "table_write d (d\<lparr>nodes := ns, links := ls, policies := ps\<rparr>)"

abbreviation tx :: "rdb \<Rightarrow> rdb \<Rightarrow> bool" where
  "tx \<equiv> table_write\<^sup>*\<^sup>*"

lemma tx_write: "table_write d d' \<Longrightarrow> tx d d'"
  by (rule r_into_rtranclp)

lemma tx_trans: "tx d d1 \<Longrightarrow> tx d1 d2 \<Longrightarrow> tx d d2"
  by (rule rtranclp_trans)

text \<open>The writes of the operations, as sequences.\<close>

named_theorems tx_intros \<open>operations as sequences of writes\<close>

lemma session_changeI [intro]:
  assumes "\<And>s. ss_id (f s) = ss_id s" "\<And>s. ss_agent (f s) = ss_agent s"
    "\<And>s. ss_provider (f s) = ss_provider s"
    "\<And>s. P s \<Longrightarrow> session_rank (ss_status s) \<le> session_rank (ss_status (f s))"
  shows "session_change P f"
  using assms by (simp add: session_change_def)

lemma run_changeI:
  assumes "\<And>r. rn_id (f r) = rn_id r" "\<And>r. P r \<Longrightarrow> ended r \<Longrightarrow> outcome (f r) = outcome r"
    "\<And>r. rn_finished r \<noteq> None \<Longrightarrow> rn_finished (f r) \<noteq> None"
  shows "run_change P f"
  using assms by (simp add: run_change_def)

lemma tx_set_run [tx_intros]:
  assumes "\<And>r. rn_id (f r) = rn_id r" "\<And>r. guard r \<Longrightarrow> ended r \<Longrightarrow> outcome (f r) = outcome r"
    "\<And>r. rn_finished (f r) = rn_finished r"
  shows "tx d (fst (set_run rid guard f d))"
  unfolding set_run_def fst_conv
  by (rule tx_write, rule change_runs) (auto intro!: run_changeI simp: assms)

lemma tx_move [tx_intros]:
  assumes "session_rank old \<le> session_rank new"
  shows "tx d (move_session e sid old new d)"
  unfolding move_session_def
  by (rule tx_write, rule change_sessions) (use assms in auto)

lemma tx_event [tx_intros]: "tx d (append_run_event e rid ty msg tool p d)"
  by (rule tx_write, rule append_event)

lemma tx_bind_node [tx_intros]: "bind_node d n a sid = Inr d' \<Longrightarrow> tx d d'"
proof -
  assume "bind_node d n a sid = Inr d'"
  then obtain ns where d': "d' = d\<lparr>nodes := ns\<rparr>"
    by (auto simp: bind_node_def split: if_splits)
  have "table_write d (d\<lparr>nodes := ns, links := links d, policies := policies d\<rparr>)"
    by (rule nodes_links_policies)
  then show "tx d d'" unfolding d' by (intro tx_write) simp
qed

lemma tx_policies [tx_intros]: "tx d (d\<lparr>policies := ps\<rparr>)"
  using nodes_links_policies [where ns = "nodes d" and ls = "links d" and ps = ps and d = d] by (intro tx_write) simp

lemma tx_links [tx_intros]: "tx d (d\<lparr>links := ls\<rparr>)"
  using nodes_links_policies [where ns = "nodes d" and ls = ls and ps = "policies d" and d = d] by (intro tx_write) simp

lemma tx_upsert [tx_intros]:
  assumes "upsert_session e d i = Inr (d', s)"
  shows "tx d d'"
proof -
  have "table_write d d'"
    using assms
    by (auto simp: upsert_session_def Let_def exists_row_iff touch_session_def
        intro!: change_sessions insert_session split: if_splits option.splits)
  then show ?thesis by (rule tx_write)
qed

lemma tx_metadata [tx_intros]:
  assumes "update_session_metadata e d sid ext tr title = Inr d'"
  shows "tx d d'"
proof -
  have "table_write d d'"
    using assms
    by (auto simp: update_session_metadata_def Let_def touch_session_def
        intro!: change_sessions split: if_splits option.splits)
  then show ?thesis by (rule tx_write)
qed

lemma tx_start [tx_intros]:
  assumes "start_run_tx e d i = Inr (d', r)"
  shows "tx d d'"
proof -
  obtain d1 where d1: "d1 = d\<lparr>runs := runs d @ [r]\<rparr>" and r: "rn_id r = new_id e" "rn_finished r = None"
    and fresh0: "\<not> exists_row (\<lambda>r. rn_id r = new_id e) (runs d)"
    and d': "d' = d1 \<or> reserve_run e d1 (new_id e) (sr_agent i) = Inr d'"
    using assms
    by (auto simp: start_run_tx_def Let_def split: if_splits option.splits sum.splits)
  from fresh0 have fresh: "new_id e \<notin> rn_id ` set (runs d)" by (auto simp: exists_row_iff)
  have "table_write d d1" unfolding d1 by (rule insert_run) (use r fresh in auto)
  moreover have "row_by rn_id (new_id e) (runs d1) = Some r"
  proof -
    have "row_by rn_id (new_id e) (runs d) = None" using fresh by (simp add: row_by_None)
    then show ?thesis using r by (simp add: d1 row_by_insert)
  qed
  then have "d' \<noteq> d1 \<Longrightarrow> table_write d1 d'" using d' r reserve by blast
  ultimately show ?thesis by (metis rtranclp.rtrancl_into_rtrancl tx_write)
qed

lemma tx_bind_run_session [tx_intros]:
  assumes "bind_run_session e d rid sid node = Inr d'"
  shows "tx d d'"
proof -
  define d1 where "d1 = fst (set_run rid (\<lambda>x. exists_row (\<lambda>s. ss_id s = sid \<and> ss_agent s = rn_agent x) (sessions d))
                      (\<lambda>x. x\<lparr>rn_session := Some sid, rn_updated := clock e\<rparr>) d)"
  have "tx d d1" unfolding d1_def by (rule tx_set_run) (auto simp: outcome_def)
  moreover have "tx d1 d'"
    using assms
    by (auto simp: bind_run_session_def Let_def d1_def [symmetric] split: if_splits option.splits
        intro: tx_bind_node)
  ultimately show ?thesis by (rule tx_trans)
qed

lemma tx_append [tx_intros]: "append_event e d rid ty msg tool p = Inr d' \<Longrightarrow> tx d d'"
  by (auto simp: append_event_def split: sum.splits intro: tx_event)

section \<open>Rollover operations\<close>

lemma tx_bind_run [tx_intros]: "tx d (bind_run e r s tr converged d)"
  unfolding bind_run_def by (rule tx_set_run) (auto simp: outcome_def)

lemma tx_complete [tx_intros]: "tx d (complete_rollover e rid prov old s d)"
proof -
  have "tx d (move_session e (ss_id old) AgentSessionStatusRolloverPending AgentSessionStatusClosed d)"
    by (rule tx_move) (simp add: session_rank_def)
  then show ?thesis
    by (auto simp: complete_rollover_def Let_def intro: tx_trans tx_event)
qed

text \<open>A successful binding went through every guard and write of the code.\<close>

lemma bind_provider_cases:
  assumes "bind_provider_session e d i = Inr (d', s)"
  obtains r pred d1 converged d3 where
    "lock_agent_run d (bi_run i) = Inr r"
    "rn_finished r = None" "is_active_agent_run_status (rn_status r)"
    "predecessor d r (bi_provider i) = Inr pred"
    "upsert_session e d \<lparr>ui_agent = rn_agent r, ui_provider = bi_provider i, ui_external = bi_external i,
       ui_transcript = bi_transcript i, ui_title = bi_title i\<rparr> = Inr (d1, s)"
    "coalesce (rn_session r) \<noteq> [] \<longrightarrow> rn_session r \<noteq> rn_rollover r \<longrightarrow> rn_session r = Some (ss_id s)"
    "(case pred of None \<Rightarrow> Inr False | Some old \<Rightarrow> rollover_check d1 r (bi_provider i) old s) = Inr converged"
    "(if coalesce (scope_node (rn_scope r)) = [] then Inr (bind_run e r s (bi_transcript i) converged d1)
      else bind_node (bind_run e r s (bi_transcript i) converged d1) (coalesce (scope_node (rn_scope r)))
             (rn_agent r) (ss_id s)) = Inr d3"
    "d' = (case pred of None \<Rightarrow> d3
           | Some old \<Rightarrow> if converged then d3 else complete_rollover e (rn_id r) (bi_provider i) old s d3)"
proof -
  obtain r where r: "lock_agent_run d (bi_run i) = Inr r"
    using assms by (auto simp: bind_provider_session_def split: sum.splits)
  note a = assms [unfolded bind_provider_session_def Let_def r sum.case]
  have live: "rn_finished r = None" "is_active_agent_run_status (rn_status r)"
    using a by (auto split: if_splits)
  obtain pred where pred: "predecessor d r (bi_provider i) = Inr pred"
    using a by (auto split: if_splits sum.splits)
  obtain d1 s1 where up: "upsert_session e d \<lparr>ui_agent = rn_agent r, ui_provider = bi_provider i,
      ui_external = bi_external i, ui_transcript = bi_transcript i, ui_title = bi_title i\<rparr> = Inr (d1, s1)"
    using a pred by (auto split: if_splits sum.splits)
  note b = a [unfolded pred up sum.case prod.case]
  have bound: "coalesce (rn_session r) \<noteq> [] \<longrightarrow> rn_session r \<noteq> rn_rollover r \<longrightarrow> rn_session r = Some (ss_id s1)"
    using b by (auto simp: mismatch_def split: if_splits)
  obtain converged where conv:
    "(case pred of None \<Rightarrow> Inr False | Some old \<Rightarrow> rollover_check d1 r (bi_provider i) old s1) = Inr converged"
    using b by (cases "case pred of None \<Rightarrow> Inr False | Some old \<Rightarrow> rollover_check d1 r (bi_provider i) old s1")
      (auto simp: mismatch_def split: if_splits)
  obtain d3 where d3: "(if coalesce (scope_node (rn_scope r)) = [] then Inr (bind_run e r s1 (bi_transcript i) converged d1)
      else bind_node (bind_run e r s1 (bi_transcript i) converged d1) (coalesce (scope_node (rn_scope r)))
             (rn_agent r) (ss_id s1)) = Inr d3"
    using b conv by (cases "if coalesce (scope_node (rn_scope r)) = [] then Inr (bind_run e r s1 (bi_transcript i) converged d1)
      else bind_node (bind_run e r s1 (bi_transcript i) converged d1) (coalesce (scope_node (rn_scope r)))
             (rn_agent r) (ss_id s1)") (simp_all add: mismatch_def split: if_splits)
  have "s1 = s" and d': "d' = (case pred of None \<Rightarrow> d3
           | Some old \<Rightarrow> if converged then d3 else complete_rollover e (rn_id r) (bi_provider i) old s1 d3)"
    using b [unfolded conv sum.case d3] by (simp_all add: mismatch_def split: if_splits)
  with that r live pred up bound conv d3 show thesis by blast
qed

lemma tx_bind_provider [tx_intros]:
  assumes "bind_provider_session e d i = Inr (d', s)"
  shows "tx d d'"
  using assms
proof (cases rule: bind_provider_cases)
  case (1 r pred d1 converged d3)
  have "tx d d1" using 1(5) by (rule tx_upsert)
  also have "tx d1 d3"
    using 1(8) tx_bind_run tx_trans [OF tx_bind_run tx_bind_node] by (metis sum.inject(2))
  also have "tx d3 d'"
    unfolding 1(9) by (auto split: option.split intro: tx_complete)
  finally show ?thesis .
qed

lemma tx_request [tx_intros]:
  assumes "request_session_rollover e d rid reason cont p = Inr (d', sid, first)"
  shows "tx d d'"
proof -
  have m: "tx d (move_session e x AgentSessionStatusActive AgentSessionStatusRolloverPending d)" for x
    by (rule tx_move) (simp add: session_rank_def)
  note m' = tx_trans [OF m tx_event]
  show ?thesis
    using assms m m'
    by (auto simp: request_session_rollover_def mismatch_def Let_def split: if_splits option.splits sum.splits)
qed

lemma tx_drop_rollover [tx_intros]: "drop_rollover e rid from d = Inr d' \<Longrightarrow> tx d d'"
proof -
  assume "drop_rollover e rid from d = Inr d'"
  then obtain g f where d': "d' = fst (set_run rid g f d)"
    and f: "\<And>r. rn_id (f r) = rn_id r" "\<And>r. outcome (f r) = outcome r" "\<And>r. rn_finished (f r) = rn_finished r"
    by (auto simp: drop_rollover_def one_row_def mismatch_def outcome_def split: if_splits)
  show "tx d d'" unfolding d' by (rule tx_set_run) (simp_all add: f)
qed

lemma tx_persisted [tx_intros]:
  assumes "resolve_persisted_rollover e d i from current = Inr (d', s)"
  shows "tx d d'"
proof -
  have m: "tx d (move_session e from AgentSessionStatusRolloverPending AgentSessionStatusClosed d)"
    by (rule tx_move) (simp add: session_rank_def)
  show ?thesis
    using assms m tx_trans [OF m tx_drop_rollover] tx_drop_rollover [of e "di_run i" "from" d]
    by (auto simp: resolve_persisted_rollover_def mismatch_def split: if_splits option.splits sum.splits)
qed

lemma tx_one_row: 
  assumes "one_row why (set_run rid g f d) = Inr d'"
    and "\<And>r. rn_id (f r) = rn_id r" "\<And>r. outcome (f r) = outcome r"
  shows "tx d d'"
proof -
  have "d' = fst (set_run rid g f d)" using assms(1) by (auto simp: one_row_def mismatch_def split: if_splits)
  moreover have "rn_finished (f r) = rn_finished r" for r using assms(3) [of r] by (simp add: outcome_def)
  ultimately show ?thesis using assms(2,3) by (auto intro: tx_set_run)
qed

lemma tx_current [tx_intros]:
  assumes "resolve_current e d i r current = Inr (Some (d', s))"
  shows "tx d d'"
proof -
  have a: "tx d x" if "one_row w (set_run (rn_id r) g (\<lambda>x. x\<lparr>rn_rollover := Some current, rn_updated := clock e\<rparr>) d) = Inr x" for w g x
    by (rule tx_one_row [OF that]) (simp_all add: outcome_def)
  have b: "tx d x" if "one_row w (set_run (rn_id r) g (\<lambda>x. x\<lparr>rn_session := None, rn_updated := clock e\<rparr>) d) = Inr x" for w g x
    by (rule tx_one_row [OF that]) (simp_all add: outcome_def)
  show ?thesis
    using assms
    by (auto simp: resolve_current_def mismatch_def map_sum_def dest: a b
        split: if_splits option.splits sum.splits)
qed

lemma tx_force_fresh [tx_intros]:
  assumes "resolve_force_fresh e d i = Inr (d', s)"
  shows "tx d d'"
proof -
  have m: "tx d (move_session e x AgentSessionStatusActive AgentSessionStatusRolloverPending d)" for x
    by (rule tx_move) (simp add: session_rank_def)
  have r: "tx x (fst (set_run rid g (\<lambda>r. r\<lparr>rn_rollover := y, rn_updated := clock e\<rparr>) x))" for x rid g y
    by (rule tx_set_run) (simp_all add: outcome_def)
  show ?thesis
    using assms
    by (auto simp: resolve_force_fresh_def mismatch_def Let_def
        split: if_splits option.splits sum.splits dest!: tx_persisted intro: tx_trans [OF tx_trans [OF m r]] tx_trans [OF r])
qed

lemma tx_candidate [tx_intros]:
  assumes "resolve_candidate e d i = Inr (d', s)"
  shows "tx d d'"
proof -
  have m: "tx d (move_session e x AgentSessionStatusRolloverPending AgentSessionStatusClosed d)" for x
    by (rule tx_move) (simp add: session_rank_def)
  have r: "tx d (fst (set_run rid g (\<lambda>r. r\<lparr>rn_rollover := y, rn_updated := clock e\<rparr>) d))" for rid g y
    by (rule tx_set_run) (simp_all add: outcome_def)
  show ?thesis
    using assms
    by (auto simp: resolve_candidate_def split: if_splits option.splits intro: m r)
qed

lemma tx_dispatch [tx_intros]:
  assumes "resolve_session_dispatch e d i = Inr (d', s)"
  shows "tx d d'"
  using assms
  by (auto simp: resolve_session_dispatch_def split: if_splits option.splits sum.splits
      intro: tx_persisted tx_current tx_force_fresh tx_candidate)

section \<open>Progress and ends\<close>

lemma tx_backend [tx_intros]: "mark_backend_started e d rid = Inr d' \<Longrightarrow> tx d d'"
  by (auto simp: mark_backend_started_def Let_def started_on_backend_def ended_def split: if_splits
      intro!: tx_set_run)

lemma tx_status [tx_intros]: "update_run_status e d i = Inr d' \<Longrightarrow> tx d d'"
  by (auto simp: update_run_status_def Let_def ended_def split: if_splits intro!: tx_set_run)

lemma tx_transcript [tx_intros]: "update_run_transcript e d rid path = Inr d' \<Longrightarrow> tx d d'"
  by (auto simp: update_run_transcript_def Let_def outcome_def split: if_splits intro!: tx_set_run)

lemma tx_finish [tx_intros]:
  assumes "finish_run e d i = Inr d'"
  shows "tx d d'"
proof -
  define P where "P r \<longleftrightarrow> rn_id r = fi_run i \<and> rn_finished r = None" for r :: run_row
  obtain r where r: "row_by rn_id (fi_run i) (runs (fst (set_run (fi_run i) (\<lambda>r. rn_finished r = None) (finished e i) d))) = Some r"
    and settle: "settle_run (fst (set_run (fi_run i) (\<lambda>r. rn_finished r = None) (finished e i) d))
                   (rn_id r) (rn_backend r \<noteq> None) (rn_usage r) = Inr d'"
    using assms by (auto simp: finish_run_def Let_def split: if_splits option.splits)
  have id: "rn_id r = fi_run i" using r by (rule row_by_key)
  have "table_write d d'"
  proof (rule end_runs)
    show "run_change P (finished e i)"
      by (rule run_changeI) (auto simp: P_def ended_def finished_def)
    show "settle_all (d\<lparr>runs := update_where P (finished e i) (runs d)\<rparr>)
            [(rn_id r, rn_backend r \<noteq> None, rn_usage r)] = Inr d'"
      using settle by (simp add: P_def [abs_def] set_run_def)
  qed (simp add: P_def id)
  then show ?thesis by (rule tx_write)
qed

lemma settle_terminal_all:
  "settle_terminal_runs d ids = Inr d' \<Longrightarrow> \<exists>xs. map fst xs = ids \<and> settle_all d xs = Inr d'"
proof (induction ids arbitrary: d)
  case Nil
  then show ?case by auto
next
  case (Cons rid ids)
  then obtain started raw d1 where d1: "settle_run d rid started raw = Inr d1"
    and rest: "settle_terminal_runs d1 ids = Inr d'"
    by (auto split: option.splits sum.splits)
  obtain xs where "map fst xs = ids" "settle_all d1 xs = Inr d'" using Cons.IH [OF rest] by blast
  with d1 have "map fst ((rid, started, raw) # xs) = rid # ids \<and>
      settle_all d ((rid, started, raw) # xs) = Inr d'" by simp
  then show ?case by (rule exI)
qed

lemma tx_remove [tx_intros]:
  assumes "remove_agent e d agent channel = Inr d'"
  shows "tx d d'"
proof -
  let ?P = "removed_run agent channel"
  define ids where "ids = map rn_id (filter ?P (runs d))"
  obtain d2 where d2: "settle_terminal_runs (d\<lparr>runs := update_where ?P (cancelled e) (runs d)\<rparr>) ids = Inr d2"
    and d': "d' = d2\<lparr>sessions := update_where (removed_session d2 agent channel) (close_session e) (sessions d2)\<rparr>"
    using assms by (auto simp: remove_agent_def Let_def ids_def split: sum.splits)
  obtain xs where xs: "map fst xs = ids"
      "settle_all (d\<lparr>runs := update_where ?P (cancelled e) (runs d)\<rparr>) xs = Inr d2"
    using settle_terminal_all [OF d2] by blast
  have "table_write d d2"
  proof (rule end_runs)
    show "run_change ?P (cancelled e)"
      by (rule run_changeI) (auto simp: removed_run_def ended_def cancelled_def or_else_def split: option.splits)
    show "rn_id r \<in> fst ` set xs" if "r \<in> set (runs d)" "?P r" for r
    proof -
      have "rn_id r \<in> set ids" using that by (auto simp: ids_def)
      then show ?thesis using xs(1) by (metis list.set_map)
    qed
    show "settle_all (d\<lparr>runs := update_where ?P (cancelled e) (runs d)\<rparr>) xs = Inr d2" by (rule xs(2))
  qed
  moreover have "table_write d2 d'"
    unfolding d' by (rule change_sessions) (auto simp: close_session_def session_rank_def split: session_status.split)
  ultimately show ?thesis by (meson converse_rtranclp_into_rtranclp r_into_rtranclp)
qed

section \<open>The machine\<close>

datatype run_op =
    OpUpsertSession upsert_session_input
  | OpSessionMetadata id string string string
  | OpStartRun start_run_input
  | OpBindRunSession id id id
  | OpBindProvider bind_provider_input
  | OpRequestRollover id string string payload
  | OpResolveDispatch resolve_dispatch_input
  | OpBackendStarted id
  | OpAppendEvent id run_event_type string string payload
  | OpUpdateStatus update_run_status_input
  | OpUpdateTranscript id string
  | OpLinkTask id id string
  | OpFinish finish_run_input
  | OpRemoveAgent id "id option"
  | OpSaveUserBudget id save_budget_input
  | OpSaveAgentBudget id id save_budget_input

text \<open>A failed transaction is rolled back.\<close>

definition kept :: "rdb \<Rightarrow> run_error + rdb \<Rightarrow> rdb" where
  "kept d r = (case r of Inl _ \<Rightarrow> d | Inr d' \<Rightarrow> d')"

definition kept_fst :: "rdb \<Rightarrow> run_error + (rdb \<times> 'a) \<Rightarrow> rdb" where
  "kept_fst d r = (case r of Inl _ \<Rightarrow> d | Inr (d', _) \<Rightarrow> d')"

fun run_step :: "rdb \<Rightarrow> renv \<times> run_op \<Rightarrow> rdb" where
  "run_step d (e, OpUpsertSession i) = kept_fst d (upsert_session e d i)"
| "run_step d (e, OpSessionMetadata sid ext tr title) = kept d (update_session_metadata e d sid ext tr title)"
| "run_step d (e, OpStartRun i) = kept_fst d (start_run_tx e d i)"
| "run_step d (e, OpBindRunSession rid sid node) = kept d (bind_run_session e d rid sid node)"
| "run_step d (e, OpBindProvider i) = kept_fst d (bind_provider_session e d i)"
| "run_step d (e, OpRequestRollover rid reason cont p) =
     kept_fst d (request_session_rollover e d rid reason cont p)"
| "run_step d (e, OpResolveDispatch i) = kept_fst d (resolve_session_dispatch e d i)"
| "run_step d (e, OpBackendStarted rid) = kept d (mark_backend_started e d rid)"
| "run_step d (e, OpAppendEvent rid ty msg tool p) = kept d (append_event e d rid ty msg tool p)"
| "run_step d (e, OpUpdateStatus i) = kept d (update_run_status e d i)"
| "run_step d (e, OpUpdateTranscript rid path) = kept d (update_run_transcript e d rid path)"
| "run_step d (e, OpLinkTask rid tid role) = link_task d rid tid role"
| "run_step d (e, OpFinish i) = kept d (finish_run e d i)"
| "run_step d (e, OpRemoveAgent agent channel) = kept d (remove_agent e d agent channel)"
| "run_step d (e, OpSaveUserBudget owner i) = fst (save_user_budget e d owner i)"
| "run_step d (e, OpSaveAgentBudget owner agent i) = fst (save_agent_budget e d owner agent i)"

lemma tx_kept: "(\<And>d'. r = Inr d' \<Longrightarrow> tx d d') \<Longrightarrow> tx d (kept d r)"
  by (auto simp: kept_def split: sum.split)

lemma tx_kept_fst: "(\<And>d' x. r = Inr (d', x) \<Longrightarrow> tx d d') \<Longrightarrow> tx d (kept_fst d r)"
  by (auto simp: kept_fst_def split: sum.split)

lemma tx_save_user: "tx d (fst (save_user_budget e d owner i))"
  by (auto simp: save_user_budget_def Let_def split: option.split intro: tx_policies)

lemma tx_save_agent: "tx d (fst (save_agent_budget e d owner agent i))"
  by (auto simp: save_agent_budget_def Let_def split: option.split intro: tx_policies)

lemma tx_link: "tx d (link_task d rid tid role)"
  unfolding link_task_def Let_def by (rule tx_links)

lemma tx_request': "request_session_rollover e d rid reason cont p = Inr (d', x) \<Longrightarrow> tx d d'"
  by (cases x) (simp add: tx_request)

theorem step_is_writes: "tx d (run_step d eo)"
proof (cases "(d, eo)" rule: run_step.cases)
qed (auto intro!: tx_kept tx_kept_fst intro: tx_intros tx_request' tx_save_user tx_save_agent tx_link)

text \<open>What every write keeps, every operation keeps.\<close>

lemma tx_preserves:
  assumes "tx d d'" "I d" "\<And>a b. table_write a b \<Longrightarrow> I a \<Longrightarrow> I b"
  shows "I d'"
  using assms(1,2) by (induction rule: rtranclp_induct) (auto intro: assms(3))

end
