(* ===== verification/Run_Invariant.thy ===== *)
theory Run_Invariant
  imports Run_Machine
begin

text \<open>
  What the writes keep, and so every operation on runs, sessions and budgets: session statuses only
  move forward, a run that ended keeps its outcome, the events of a run are numbered from one without
  gaps, and budget rows are settled when their run has finished.
\<close>

section \<open>Sessions only move forward\<close>

definition rank_of :: "id \<Rightarrow> rdb \<Rightarrow> nat" where
  "rank_of sid d = (case row_by ss_id sid (sessions d) of None \<Rightarrow> 0 | Some s \<Rightarrow> session_rank (ss_status s))"

lemma sessions_settle [simp]:
  "settle_run d rid started raw = Inr d' \<Longrightarrow> sessions d' = sessions d \<and> runs d' = runs d \<and> events d' = events d"
  by (auto simp: settle_run_def Let_def split: option.splits sum.splits if_splits)

lemma settle_all_frame:
  "settle_all d xs = Inr d' \<Longrightarrow> sessions d' = sessions d \<and> runs d' = runs d \<and> events d' = events d"
proof (induction xs arbitrary: d)
  case (Cons x xs)
  obtain rid started raw where "x = (rid, started, raw)" by (cases x)
  with Cons.prems obtain d1 where "settle_run d rid started raw = Inr d1" "settle_all d1 xs = Inr d'"
    by (auto split: sum.splits)
  then show ?case using Cons.IH [of d1] sessions_settle by metis
qed simp

lemma reserve_frame:
  "reserve_run e d rid agent = Inr d' \<Longrightarrow> sessions d' = sessions d \<and> runs d' = runs d \<and> events d' = events d"
  by (auto simp: reserve_run_def Let_def split: sum.splits if_splits)

lemma rank_of_write: "table_write d d' \<Longrightarrow> rank_of sid d \<le> rank_of sid d'"
proof (induction rule: table_write.induct)
  case (insert_session s d)
  then show ?case by (auto simp: rank_of_def row_by_insert split: option.split)
next
  case (change_sessions P f d)
  then have moved: "row_by ss_id sid (update_where P f (sessions d)) =
      map_option (\<lambda>r. if P r then f r else r) (row_by ss_id sid (sessions d))"
    using keyed_update.row_by_update [of ss_id f] by (simp add: keyed_update_def session_change_def)
  show ?case
    using change_sessions by (auto simp: rank_of_def moved session_change_def split: option.split)
next
  case (end_runs P f d xs d')
  then have "sessions d' = sessions d" using settle_all_frame by fastforce
  then show ?case by (simp add: rank_of_def)
next
  case (reserve e d rid agent d' r)
  then have "sessions d' = sessions d" using reserve_frame by blast
  then show ?case by (simp add: rank_of_def)
qed (simp_all add: rank_of_def append_run_event_def)

lemma rank_of_step: "rank_of sid d \<le> rank_of sid (run_step d eo)"
  using tx_preserves [OF step_is_writes, of "\<lambda>x. rank_of sid d \<le> rank_of sid x"] rank_of_write order_trans
  by (metis order_refl)

interpretation session_clock: monotone_machine run_step "\<lambda>_. True" "rank_of sid" for sid
  by unfold_locales (simp_all add: rank_of_step)

section \<open>A run that ended keeps its outcome\<close>

definition has_outcome :: "id \<Rightarrow> id \<times> run_scope \<times> run_status \<times> string \<times> usage_json \<times> time \<times> time option \<times> time option \<Rightarrow> rdb \<Rightarrow> bool" where
  "has_outcome rid out d \<longleftrightarrow> (\<exists>r. row_by rn_id rid (runs d) = Some r \<and> ended r \<and> outcome r = out)"

lemma ended_outcome: "outcome r = outcome r' \<Longrightarrow> ended r = ended r'"
  by (simp add: outcome_def ended_def)

lemma run_change_row:
  assumes "run_change P f"
  shows "row_by rn_id rid (update_where P f rs) =
           map_option (\<lambda>r. if P r then f r else r) (row_by rn_id rid rs)"
  using keyed_update.row_by_update [of rn_id f] assms by (simp add: keyed_update_def run_change_def)

lemma has_outcome_change:
  assumes "run_change P f" "has_outcome rid out d" "runs d' = update_where P f (runs d)"
  shows "has_outcome rid out d'"
proof -
  obtain r where r: "row_by rn_id rid (runs d) = Some r" "ended r" "outcome r = out"
    using assms(2) by (auto simp: has_outcome_def)
  let ?r = "if P r then f r else r"
  have "outcome ?r = out" using assms(1) r by (auto simp: run_change_def)
  moreover have "ended ?r" using calculation r ended_outcome by metis
  moreover have "row_by rn_id rid (runs d') = Some ?r"
    using r(1) by (simp add: assms(3) run_change_row [OF assms(1)])
  ultimately show ?thesis unfolding has_outcome_def by blast
qed

lemma has_outcome_write: "table_write d d' \<Longrightarrow> has_outcome rid out d \<Longrightarrow> has_outcome rid out d'"
proof (induction rule: table_write.induct)
  case (insert_run r d)
  then show ?case by (auto simp: has_outcome_def row_by_insert)
next
  case (change_runs P f d)
  from has_outcome_change [OF change_runs(1,3)] show ?case by simp
next
  case (end_runs P f d xs d')
  then have "runs d' = update_where P f (runs d)" using settle_all_frame by fastforce
  then show ?case using has_outcome_change end_runs by blast
next
  case (reserve e d rid' agent d' r)
  then have "runs d' = runs d" using reserve_frame by blast
  with reserve show ?case by (simp add: has_outcome_def)
qed (simp_all add: has_outcome_def append_run_event_def)

lemma has_outcome_step: "has_outcome rid out d \<Longrightarrow> has_outcome rid out (run_step d eo)"
  using tx_preserves [OF step_is_writes] has_outcome_write by metis

interpretation run_outcome: op_machine run_step "has_outcome rid out" for rid out
  by unfold_locales (rule has_outcome_step)

section \<open>Events are numbered\<close>

definition run_events :: "rdb \<Rightarrow> id \<Rightarrow> run_event_row list" where
  "run_events d rid = filter (\<lambda>x. re_run x = rid) (events d)"

definition events_numbered :: "rdb \<Rightarrow> bool" where
  "events_numbered d \<longleftrightarrow> (\<forall>rid. map re_seq (run_events d rid) = [1..<Suc (length (run_events d rid))])"

lemma next_seq_max:
  "next_seq es rid = Suc (foldr max (map re_seq (filter (\<lambda>x. re_run x = rid) es)) 0)"
proof -
  have "foldr (\<lambda>x m. if re_run x = rid then max (re_seq x) m else m) es 0 =
      foldr max (map re_seq (filter (\<lambda>x. re_run x = rid) es)) 0"
    by (induction es) auto
  then show ?thesis by (simp add: next_seq_def)
qed

lemma foldr_max_upt: "foldr max [1..<Suc k] m = max k (m :: nat)"
  by (induction k arbitrary: m) auto

lemma next_seq_numbered:
  assumes "events_numbered d"
  shows "next_seq (events d) rid = Suc (length (run_events d rid))"
proof -
  have "map re_seq (run_events d rid) = [1..<Suc (length (run_events d rid))]"
    using assms by (simp add: events_numbered_def)
  then show ?thesis
    using foldr_max_upt [of "length (run_events d rid)" 0] by (simp add: next_seq_max run_events_def [symmetric])
qed

lemma run_events_append:
  "run_events (append_run_event e rid ty msg tool p d) r =
     run_events d r @
     (if r = rid then [\<lparr>re_id = new_event_id e, re_run = rid, re_seq = next_seq (events d) rid, re_type = ty,
        re_message = slim_run_event_text msg, re_tool = nullable tool, re_payload = slim_run_event_payload p\<rparr>]
      else [])"
  by (auto simp: run_events_def append_run_event_def)

lemma numbered_append: "events_numbered d \<Longrightarrow> events_numbered (append_run_event e rid ty msg tool p d)"
proof -
  assume a: "events_numbered d"
  note n = next_seq_numbered [OF a]
  have "map re_seq (run_events d r) = [1..<Suc (length (run_events d r))]" for r
    using a by (simp add: events_numbered_def)
  then show ?thesis by (auto simp: events_numbered_def run_events_append n)
qed

lemma numbered_write: "table_write d d' \<Longrightarrow> events_numbered d \<Longrightarrow> events_numbered d'"
proof (induction rule: table_write.induct)
  case (end_runs P f d xs d')
  then have "events d' = events d" using settle_all_frame by fastforce
  with end_runs show ?case by (simp add: events_numbered_def run_events_def)
next
  case (reserve e d rid agent d' r)
  then have "events d' = events d" using reserve_frame by blast
  with reserve show ?case by (simp add: events_numbered_def run_events_def)
next
  case (append_event e rid ty msg tool p d)
  then show ?case by (rule numbered_append)
qed (simp_all add: events_numbered_def run_events_def)

section \<open>Budget rows\<close>

definition unfinished_run :: "rdb \<Rightarrow> id \<Rightarrow> bool" where
  "unfinished_run d rid \<longleftrightarrow> (\<exists>r. row_by rn_id rid (runs d) = Some r \<and> rn_finished r = None)"

definition pending_usage :: "rdb \<Rightarrow> id \<Rightarrow> bool" where
  "pending_usage d rid \<longleftrightarrow> (\<exists>u \<in> set (usages d). us_run u = rid \<and> us_state u = UsagePending)"

definition active_reservation :: "rdb \<Rightarrow> id \<Rightarrow> bool" where
  "active_reservation d rid \<longleftrightarrow> (\<exists>k \<in> set (reservations d). bk_run k = rid \<and> bk_state k = ReservationActive)"

text \<open>The invariant, but for runs in \<open>S\<close> that are being ended.\<close>

definition budget_but :: "id set \<Rightarrow> rdb \<Rightarrow> bool" where
  "budget_but S d \<longleftrightarrow>
     keyed us_run (usages d) \<and>
     (\<forall>rid. pending_usage d rid \<longrightarrow> rid \<in> S \<or> unfinished_run d rid) \<and>
     (\<forall>rid. active_reservation d rid \<longrightarrow> pending_usage d rid)"

abbreviation budget_inv :: "rdb \<Rightarrow> bool" where
  "budget_inv \<equiv> budget_but {}"

lemma settle_not_pending:
  assumes "keyed us_run (usages d)" "\<not> pending_usage d rid"
  shows "settle_run d rid started raw = Inr d"
proof (cases "row_by us_run rid (usages d)")
  case (Some u)
  then have "us_state u \<noteq> UsagePending" using assms(2) by (auto simp: pending_usage_def dest: row_by_in row_by_key)
  with Some show ?thesis by (simp add: settle_run_def)
qed (simp add: settle_run_def)

definition settled_usage :: "bool \<Rightarrow> int \<Rightarrow> token_usage \<Rightarrow> usage_row \<Rightarrow> usage_row" where
  "settled_usage started n usage x =
     x\<lparr>us_state := (if \<not> started then UsageReleased else if n = 0 then UsageUnknown else UsageSettled),
       us_actual := (if \<not> started then Some 0 else if n = 0 then None else Some n), us_tokens := usage,
       us_overrun := (started \<and> n \<noteq> 0 \<and> us_reserved x > 0 \<and> n > us_reserved x)\<rparr>"

definition settled_reservation :: "bool \<Rightarrow> int \<Rightarrow> reservation_row \<Rightarrow> reservation_row" where
  "settled_reservation started n k =
     k\<lparr>bk_state := (if \<not> started then ReservationReleased else ReservationSettled),
       bk_accounted := (if started \<and> n = 0 then bk_reserved k else 0)\<rparr>"

lemma settled_facts [simp]:
  "us_run (settled_usage started n usage u) = us_run u"
  "us_state (settled_usage started n usage u) \<noteq> UsagePending"
  "bk_run (settled_reservation started n k) = bk_run k"
  "bk_policy (settled_reservation started n k) = bk_policy k"
  "bk_state (settled_reservation started n k) \<noteq> ReservationActive"
  by (simp_all add: settled_usage_def settled_reservation_def)

lemma update_keyed_row:
  assumes "keyed key t" "row_by key k t = Some r" "f r = g r"
  shows "update_where (\<lambda>x. key x = k) f t = update_where (\<lambda>x. key x = k) g t"
  unfolding update_where_def
proof (rule map_cong [OF refl])
  fix x assume "x \<in> set t"
  then have "key x = k \<Longrightarrow> x = r" using assms(1,2) by (metis row_by_SomeI option.inject)
  then show "(if key x = k then f x else x) = (if key x = k then g x else x)" using assms(3) by auto
qed

lemma settle_pending:
  assumes "keyed us_run (usages d)" "pending_usage d rid" "settle_run d rid started raw = Inr d'"
  obtains usage n where
    "budget_usage_from_json raw = Inr usage" "total_tokens usage = Inr n"
    "d' = d\<lparr>usages := update_where (\<lambda>x. us_run x = rid) (settled_usage started n usage) (usages d),
           reservations := update_where (\<lambda>k. bk_run k = rid \<and> bk_state k = ReservationActive)
             (settled_reservation started n) (reservations d)\<rparr>"
proof -
  obtain u where "u \<in> set (usages d)" "us_run u = rid" "us_state u = UsagePending"
    using assms(2) by (auto simp: pending_usage_def)
  then have u: "row_by us_run rid (usages d) = Some u" "us_state u = UsagePending"
    using assms(1) by (auto intro: row_by_SomeI)
  obtain usage n where un: "budget_usage_from_json raw = Inr usage" "total_tokens usage = Inr n"
    using assms(3) u by (auto simp: settle_run_def split: sum.splits)
  define upd where "upd x = x\<lparr>us_state := (if \<not> started then UsageReleased else if n = 0 then UsageUnknown else UsageSettled),
      us_actual := (if \<not> started then Some 0 else if n = 0 then None else Some n), us_tokens := usage,
      us_overrun := (started \<and> n \<noteq> 0 \<and> us_reserved u > 0 \<and> n > us_reserved u)\<rparr>" for x :: usage_row
  have "upd u = settled_usage started n usage u" by (simp add: upd_def settled_usage_def)
  from update_keyed_row [of us_run, OF assms(1) u(1), of upd "settled_usage started n usage", OF this]
  have "d' = d\<lparr>usages := update_where (\<lambda>x. us_run x = rid) (settled_usage started n usage) (usages d),
           reservations := update_where (\<lambda>k. bk_run k = rid \<and> bk_state k = ReservationActive)
             (settled_reservation started n) (reservations d)\<rparr>"
    using assms(3) unfolding settle_run_def u(1) option.case un sum.case Let_def upd_def [symmetric]
    by (simp only: u(2) if_False simp_thms sum.inject settled_reservation_def [abs_def])
  with that un show thesis by blast
qed

interpretation settled_rows: keyed_update us_run "settled_usage started n usage" for started n usage
  by unfold_locales simp

lemma budget_settle:
  assumes "budget_but S d" "settle_run d rid started raw = Inr d'"
  shows "budget_but (S - {rid}) d'"
proof (cases "pending_usage d rid")
  case False
  have "keyed us_run (usages d)" using assms(1) by (simp add: budget_but_def)
  then have "d' = d" using settle_not_pending [OF _ False] assms(2) by simp
  with assms(1) False show ?thesis by (auto simp: budget_but_def)
next
  case True
  have key: "keyed us_run (usages d)" using assms(1) by (simp add: budget_but_def)
  from settle_pending [OF key True assms(2)] obtain usage n where
    d': "d' = d\<lparr>usages := update_where (\<lambda>x. us_run x = rid) (settled_usage started n usage) (usages d),
           reservations := update_where (\<lambda>k. bk_run k = rid \<and> bk_state k = ReservationActive)
             (settled_reservation started n) (reservations d)\<rparr>" by blast
  have pend: "pending_usage d' x \<longleftrightarrow> x \<noteq> rid \<and> pending_usage d x" for x
    by (auto simp: pending_usage_def d' set_update_where)
  have act: "active_reservation d' x \<longrightarrow> x \<noteq> rid \<and> active_reservation d x" for x
    by (auto simp: active_reservation_def d' set_update_where)
  have "keyed us_run (usages d')" using key by (simp add: d')
  moreover have "unfinished_run d' x = unfinished_run d x" for x by (simp add: unfinished_run_def d')
  ultimately show ?thesis using assms(1) pend act unfolding budget_but_def by blast
qed

lemma budget_settle_all:
  "settle_all d xs = Inr d' \<Longrightarrow> budget_but S d \<Longrightarrow> budget_but (S - fst ` set xs) d'"
proof (induction xs arbitrary: d S)
  case Nil
  then show ?case by simp
next
  case (Cons x xs)
  obtain rid started raw where x: "x = (rid, started, raw)" by (cases x)
  with Cons.prems obtain d1 where d1: "settle_run d rid started raw = Inr d1" "settle_all d1 xs = Inr d'"
    by (auto split: sum.splits)
  have "S - fst ` set (x # xs) = (S - {rid}) - fst ` set xs" by (auto simp: x)
  then show ?case using Cons.IH [OF d1(2)] budget_settle [OF Cons.prems(2) d1(1)] by simp
qed

definition reserved_usage ::
    "renv \<Rightarrow> id \<Rightarrow> id \<Rightarrow> id \<Rightarrow> policy_row list \<Rightarrow> int \<Rightarrow> int \<Rightarrow> usage_row" where
  "reserved_usage e rid owner agent ps sl sel =
     \<lparr>us_run = rid, us_owner = owner, us_agent = agent, us_state = UsagePending,
      us_reserved = max (foldl (\<lambda>r p. max r (run_reserve_tokens p)) 0 ps) sel, us_actual = None,
      us_tokens = no_tokens, us_overrun = False, us_created = clock e, us_context = budget_context ps sl\<rparr>"

definition reserved_row :: "renv \<Rightarrow> id \<Rightarrow> policy_row \<Rightarrow> reservation_row" where
  "reserved_row e rid p =
     \<lparr>bk_run = rid, bk_policy = bp_id p, bk_reserved = run_reserve_tokens p, bk_accounted = 0,
      bk_state = ReservationActive, bk_created = clock e\<rparr>"

lemma reserve_cases:
  assumes "reserve_run e d rid agent = Inr d'"
  obtains owner ps sl sel where
    "build_run_plan e d agent = Inr (owner, ps)" "selection_reserve d agent = Inr (sl, sel)"
    "\<not> exists_row (\<lambda>u. us_run u = rid) (usages d)" "\<not> exists_row (\<lambda>k. bk_run k = rid) (reservations d)"
    "d' = d\<lparr>usages := usages d @ [reserved_usage e rid owner agent ps sl sel],
           reservations := reservations d @ map (reserved_row e rid) ps\<rparr>"
proof -
  obtain owner ps where a: "build_run_plan e d agent = Inr (owner, ps)"
    using assms by (auto simp: reserve_run_def split: sum.splits)
  obtain sl sel where b: "selection_reserve d agent = Inr (sl, sel)"
    using assms a by (auto simp: reserve_run_def split: sum.splits)
  have c: "\<not> exists_row (\<lambda>u. us_run u = rid) (usages d)" "\<not> exists_row (\<lambda>k. bk_run k = rid) (reservations d)"
    using assms by (auto simp: reserve_run_def a b Let_def split: if_splits)
  have "d' = d\<lparr>usages := usages d @ [reserved_usage e rid owner agent ps sl sel],
           reservations := reservations d @ map (reserved_row e rid) ps\<rparr>"
    using assms by (simp add: reserve_run_def a b c Let_def reserved_usage_def reserved_row_def [abs_def])
  with that a b c show thesis by blast
qed

lemma budget_reserve:
  assumes "budget_inv d" "reserve_run e d rid agent = Inr d'" "unfinished_run d rid"
  shows "budget_inv d'"
proof -
  from assms(2) obtain owner ps sl sel where fresh: "\<not> exists_row (\<lambda>u. us_run u = rid) (usages d)"
    and d0: "d' = d\<lparr>usages := usages d @ [reserved_usage e rid owner agent ps sl sel],
                   reservations := reservations d @ map (reserved_row e rid) ps\<rparr>"
    by (rule reserve_cases)
  define u where "u = reserved_usage e rid owner agent ps sl sel"
  define ks where "ks = map (reserved_row e rid) ps"
  have u: "us_run u = rid" "us_state u = UsagePending" by (simp_all add: u_def reserved_usage_def)
  have ks: "\<forall>k \<in> set ks. bk_run k = rid" by (simp add: ks_def reserved_row_def)
  have d': "d' = d\<lparr>usages := usages d @ [u], reservations := reservations d @ ks\<rparr>"
    by (simp add: d0 u_def ks_def)
  have "keyed us_run (usages d @ [u])"
    using assms(1) fresh u by (auto simp: budget_but_def keyed_insert exists_row_iff)
  moreover have "pending_usage d' x \<longleftrightarrow> x = rid \<or> pending_usage d x" for x
    using u by (auto simp: pending_usage_def d')
  moreover have "active_reservation d' x \<longrightarrow> x = rid \<or> active_reservation d x" for x
    using ks by (auto simp: active_reservation_def d')
  moreover have "unfinished_run d' x = unfinished_run d x" for x by (simp add: unfinished_run_def d')
  ultimately show ?thesis using assms(1,3) unfolding budget_but_def by (simp add: d') blast
qed

lemma budget_runs:
  assumes "budget_inv d" "usages d' = usages d" "reservations d' = reservations d"
    and "\<And>rid. unfinished_run d rid \<Longrightarrow> rid \<in> S \<or> unfinished_run d' rid"
  shows "budget_but S d'"
proof -
  have "pending_usage d' x = pending_usage d x" "active_reservation d' x = active_reservation d x" for x
    by (simp_all add: pending_usage_def active_reservation_def assms(2,3))
  then show ?thesis using assms unfolding budget_but_def by (metis empty_iff)
qed

lemma budget_write: "table_write d d' \<Longrightarrow> budget_inv d \<Longrightarrow> budget_inv d'"
proof (induction rule: table_write.induct)
  case (insert_session s d)
  show ?case by (rule budget_runs [OF insert_session(2)]) (simp_all add: unfinished_run_def)
next
  case (change_sessions P f d)
  show ?case by (rule budget_runs [OF change_sessions(2)]) (simp_all add: unfinished_run_def)
next
  case (insert_run r d)
  show ?case by (rule budget_runs [OF insert_run(3)]) (auto simp: unfinished_run_def row_by_insert)
next
  case (change_runs P f d)
  have "rn_finished (if P r then f r else r) = rn_finished r" for r using change_runs(2) by simp
  then have "unfinished_run (d\<lparr>runs := update_where P f (runs d)\<rparr>) rid = unfinished_run d rid" for rid
    unfolding unfinished_run_def by (cases "row_by rn_id rid (runs d)") (simp_all add: run_change_row [OF change_runs(1)] del: if_split)
  then show ?case by (intro budget_runs [OF change_runs(3)]) simp_all
next
  case (end_runs P f d xs d')
  let ?d = "d\<lparr>runs := update_where P f (runs d)\<rparr>"
  have "budget_but (fst ` set xs) ?d"
  proof (rule budget_runs [OF end_runs(4)])
    fix rid assume "unfinished_run d rid"
    then obtain r where r: "row_by rn_id rid (runs d) = Some r" "rn_finished r = None"
      by (auto simp: unfinished_run_def)
    show "rid \<in> fst ` set xs \<or> unfinished_run ?d rid"
    proof (cases "P r")
      case True
      then show ?thesis using end_runs(2) r row_by_in row_by_key by metis
    next
      case False
      then show ?thesis using r by (simp add: unfinished_run_def run_change_row [OF end_runs(1)])
    qed
  qed simp_all
  from budget_settle_all [OF end_runs(3) this] show ?case by simp
next
  case (reserve e d rid agent d' r)
  then have "unfinished_run d rid" by (simp add: unfinished_run_def)
  with reserve budget_reserve show ?case by blast
next
  case (append_event e rid ty msg tool p d)
  show ?case by (rule budget_runs [OF append_event]) (simp_all add: unfinished_run_def append_run_event_def)
next
  case (nodes_links_policies d ns ls ps)
  show ?case by (rule budget_runs [OF nodes_links_policies]) (simp_all add: unfinished_run_def)
qed

section \<open>The invariant of the machine\<close>

definition rdb_inv :: "rdb \<Rightarrow> bool" where
  "rdb_inv d \<longleftrightarrow> events_numbered d \<and> budget_inv d"

lemma rdb_inv_step: "rdb_inv d \<Longrightarrow> rdb_inv (run_step d eo)"
  unfolding rdb_inv_def
  using tx_preserves [OF step_is_writes, of events_numbered] tx_preserves [OF step_is_writes, of budget_inv]
    numbered_write budget_write by blast

interpretation run_machine: op_machine run_step rdb_inv
  by unfold_locales (rule rdb_inv_step)

definition empty_rdb :: rdb where
  "empty_rdb =
     \<lparr>sessions = [], runs = [], events = [], links = [], policies = [], usages = [], reservations = [],
      trials = [], nodes = [], threads = [], message_seqs = [], owned_agents = [], channel_members = []\<rparr>"

lemma empty_rdb_inv: "rdb_inv (empty_rdb\<lparr>owned_agents := g, trials := a\<rparr>)"
  by (simp add: rdb_inv_def events_numbered_def run_events_def budget_but_def keyed_def pending_usage_def
      active_reservation_def empty_rdb_def)

lemma reached_rdb_inv: "rdb_inv (foldl run_step (empty_rdb\<lparr>owned_agents := g, trials := a\<rparr>) ops)"
  by (rule run_machine.run_inv [OF empty_rdb_inv])

end
