(* ===== verification/Run_Theorems.thy ===== *)
theory Run_Theorems
  imports Run_Invariant
begin

text \<open>
  What the protocols of runs, provider sessions and budgets promise: the properties of
  \<open>service/agent_run.go\<close> and \<open>service/budget.go\<close>, on the invariants of the machine.
\<close>

section \<open>Examples\<close>

definition ex_renv :: renv where
  "ex_renv = \<lparr>clock = 100, month_start = 50, new_id = ''n1'', new_event_id = ''e1'', sha_hex = (\<lambda>_. ''00''),
              selection_guard = (\<lambda>_. None)\<rparr>"

definition ex_scope :: run_scope where
  "ex_scope = \<lparr>trigger_type = ''message'', trigger_message = None, scope_channel = Some ''c1'',
               scope_thread = None, scope_node = None\<rparr>"

definition ex_run :: run_row where
  "ex_run = \<lparr>rn_id = ''r1'', rn_agent = ''a1'', rn_daemon = None, rn_session = None, rn_rollover = None,
             rn_scope = ex_scope, rn_status = AgentRunStatusQueued, rn_activity = [], rn_tool = None,
             rn_input = None, rn_source = None, rn_transcript = None, rn_usage = UsageEmpty, rn_started = 90,
             rn_backend = None, rn_updated = 90, rn_finished = None,
             rn_wake = \<lparr>freshness_seen = 0, wake_first = 0, wake_latest = 0, wake_visible = False\<rparr>\<rparr>"

definition ex_session :: session_row where
  "ex_session = \<lparr>ss_id = ''s1'', ss_agent = ''a1'', ss_provider = ''claude'', ss_external = Some ''x1'',
                 ss_transcript = None, ss_title = None, ss_status = AgentSessionStatusActive,
                 ss_started = 80, ss_active = 80\<rparr>"

definition ex_policy :: policy_row where
  "ex_policy = \<lparr>bp_id = ''p1'', bp_owner = ''u1'', bp_scope = ''user'', bp_agent = None, bp_enabled = True,
                bp_limit = 250000\<rparr>"

definition ex_rdb :: rdb where
  "ex_rdb = empty_rdb\<lparr>sessions := [ex_session], runs := [ex_run], policies := [ex_policy],
     owned_agents := [\<lparr>a_id = ''a1'', a_name = ''A'', a_owner = ''u1'', a_active = True\<rparr>]\<rparr>"

section \<open>Sessions\<close>

text \<open>
  C34. A provider session that has been retired is never revived: once its status is
  \<open>rollover_pending\<close> or \<open>closed\<close> it is one of the two after any sequence of operations, and once it is
  closed it stays closed.
\<close>

theorem retired_session_never_revives:
  assumes "row_by ss_id sid (sessions d) = Some s"
    and "ss_status s \<in> {AgentSessionStatusRolloverPending, AgentSessionStatusClosed}"
  shows "\<exists>s'. row_by ss_id sid (sessions (foldl run_step d ops)) = Some s' \<and>
              ss_status s' \<in> {AgentSessionStatusRolloverPending, AgentSessionStatusClosed} \<and>
              (ss_status s = AgentSessionStatusClosed \<longrightarrow> ss_status s' = AgentSessionStatusClosed)"
proof -
  have "rank_of sid d \<le> rank_of sid (foldl run_step d ops)"
    using session_clock.run_rank by blast
  then have rank: "session_rank (ss_status s) \<le> rank_of sid (foldl run_step d ops)"
    by (simp add: rank_of_def [of sid d] assms(1))
  have "1 \<le> session_rank (ss_status s)" using assms(2) by (auto simp: session_rank_def)
  with rank obtain s' where s': "row_by ss_id sid (sessions (foldl run_step d ops)) = Some s'"
    by (cases "row_by ss_id sid (sessions (foldl run_step d ops))") (simp_all add: rank_of_def)
  with rank have "session_rank (ss_status s) \<le> session_rank (ss_status s')" by (simp add: rank_of_def)
  then show ?thesis using assms(2) s' by (cases "ss_status s'") (auto simp: session_rank_def)
qed

definition ex_closed :: rdb where
  "ex_closed = ex_rdb\<lparr>sessions := [ex_session\<lparr>ss_status := AgentSessionStatusClosed\<rparr>]\<rparr>"

definition ex_touch :: "(renv \<times> run_op) list" where
  "ex_touch = [(ex_renv, OpUpsertSession \<lparr>ui_agent = ''a1'', ui_provider = ''claude'', ui_external = ''x1'',
                           ui_transcript = [], ui_title = ''t''\<rparr>)]"

theorem retired_session_never_revives_witness:
  "\<exists>s'. row_by ss_id ''s1'' (sessions (foldl run_step ex_closed ex_touch)) = Some s' \<and>
        ss_status s' = AgentSessionStatusClosed"
proof -
  have "row_by ss_id ''s1'' (sessions ex_closed) = Some (ex_session\<lparr>ss_status := AgentSessionStatusClosed\<rparr>)"
    by code_simp
  from retired_session_never_revives [OF this, of ex_touch] show ?thesis by auto
qed

lemma replacement_is_active:
  assumes "find_active_rollover_replacement d from agent channel provider = Some s"
  shows "s \<in> set (sessions d)" "ss_agent s = agent" "ss_provider s = provider"
    "ss_status s = AgentSessionStatusActive" "coalesce (ss_external s) \<noteq> []"
  using assms by (auto simp: find_active_rollover_replacement_def is_replacement_def dest!: pick_by_in)

lemma owned_sessionD:
  assumes "owned_session d sid agent provider = Some s"
  shows "s \<in> set (sessions d)" "ss_id s = sid" "ss_agent s = agent" "ss_provider s = provider"
  using assms by (auto simp: owned_session_def find_Some_iff)

text \<open>A dispatch that resumes resumes an active session of the agent and provider.\<close>

definition resumes_active :: "rdb \<Rightarrow> resolve_dispatch_input \<Rightarrow> session_dispatch \<Rightarrow> bool" where
  "resumes_active d i x \<longleftrightarrow>
     (sd_resume x \<noteq> [] \<longrightarrow>
       \<not> sd_fresh x \<and> \<not> sd_cold x \<and>
       (\<exists>s \<in> set (sessions d). ss_agent s = di_agent i \<and> ss_provider s = di_provider i \<and>
          ss_external s = Some (sd_resume x) \<and> ss_status s = AgentSessionStatusActive))"

lemma resumes_activeI:
  assumes "s \<in> set (sessions d)" "ss_agent s = di_agent i" "ss_provider s = di_provider i"
    "ss_status s = AgentSessionStatusActive"
  shows "resumes_active d i (resume (coalesce (ss_external s)))"
  using assms by (cases "ss_external s") (auto simp: resumes_active_def resume_def intro: bexI [of _ s])

lemma fresh_resumes [simp]:
  "resumes_active d i cold_start" "resumes_active d i (cold_start\<lparr>sd_fresh := b\<rparr>)"
  "resumes_active d i (fresh_instead i old ext)"
  by (simp_all add: resumes_active_def cold_start_def fresh_instead_def)

lemma replacement_resumes:
  "find_active_rollover_replacement d from (di_agent i) channel (di_provider i) = Some s \<Longrightarrow>
   resumes_active d i (resume (coalesce (ss_external s)))"
  by (rule resumes_activeI) (simp_all add: replacement_is_active)

lemma owned_resumes:
  "owned_session d sid (di_agent i) (di_provider i) = Some s \<Longrightarrow> ss_status s = AgentSessionStatusActive \<Longrightarrow>
   resumes_active d i (resume (coalesce (ss_external s)))"
  by (rule resumes_activeI) (simp_all add: owned_sessionD)

lemma persisted_resumes:
  "resolve_persisted_rollover e d i from current = Inr (d', x) \<Longrightarrow> resumes_active d i x"
  by (auto simp: resolve_persisted_rollover_def mismatch_def split: option.splits if_splits sum.splits
      intro: replacement_resumes owned_resumes)

lemma current_resumes:
  "resolve_current e d i r current = Inr (Some (d', x)) \<Longrightarrow> resumes_active d i x"
  by (auto simp: resolve_current_def mismatch_def map_sum_def split: option.splits if_splits sum.splits
      intro: replacement_resumes owned_resumes)

lemma current_needs_node:
  "resolve_current e d i r current = Inr None \<Longrightarrow> scope_node (rn_scope r) \<noteq> None \<or> di_node i \<noteq> []"
  by (auto simp: resolve_current_def mismatch_def map_sum_def split: option.splits if_splits sum.splits)

lemma by_external_resumes:
  assumes "session_by_external d i = Some s" "ss_status s = AgentSessionStatusActive"
  shows "resumes_active d i (resume (di_resume i))"
proof -
  have "s \<in> set (sessions d)" "ss_agent s = di_agent i" "ss_provider s = di_provider i"
    "ss_external s = Some (di_resume i)"
    using assms(1) by (auto simp: session_by_external_def find_Some_iff)
  with resumes_activeI [of s d i] assms(2) show ?thesis by simp
qed

lemma candidate_resumes:
  assumes "candidate_session d i = Some c" "ss_status c \<noteq> AgentSessionStatusRolloverPending"
  shows "resumes_active d i (resume (coalesce (ss_external c)))"
proof -
  have "c \<in> set (sessions d)" "ss_agent c = di_agent i" "ss_provider c = di_provider i"
    "ss_status c = AgentSessionStatusActive"
    using assms by (auto simp: candidate_session_def dest!: pick_by_in)
  then show ?thesis by (rule resumes_activeI)
qed

lemma resolve_candidate_resumes: "resolve_candidate e d i = Inr (d', x) \<Longrightarrow> resumes_active d i x"
  by (auto simp: resolve_candidate_def split: option.splits if_splits
      intro: replacement_resumes candidate_resumes by_external_resumes)

lemma active_before_move:
  assumes "s \<in> set (sessions (move_session e sid AgentSessionStatusActive AgentSessionStatusRolloverPending d))"
    and "ss_status s = AgentSessionStatusActive"
  shows "s \<in> set (sessions d)"
  using assms by (auto simp: move_session_def set_update_where split: if_splits)

lemma force_fresh_resumes:
  assumes "resolve_force_fresh e d i = Inr (d', x)"
  shows "resumes_active d i x"
proof -
  have keep: "resumes_active d i x" if "resumes_active d2 i x"
    and "\<And>s. s \<in> set (sessions d2) \<Longrightarrow> ss_status s = AgentSessionStatusActive \<Longrightarrow> s \<in> set (sessions d)" for d2
    using that unfolding resumes_active_def by blast
  have same [simp]: "sessions (fst (set_run rid g f x)) = sessions x" for rid g f and x :: rdb
    by (simp add: set_run_def)
  show ?thesis
    using assms
    by (auto simp: resolve_force_fresh_def mismatch_def Let_def split: option.splits if_splits
        dest!: persisted_resumes elim!: keep intro: active_before_move)
qed

text \<open>
  A run that is not part of a thinking node never resumes a retired conversation: when
  \<open>ResolveSessionDispatch\<close> answers with a session to resume, the answer is no fresh or cold start and an
  active session of the same agent and provider has that external id.
\<close>

theorem dispatch_resumes_active:
  assumes "resolve_session_dispatch e d i = Inr (d', x)"
    and "row_by rn_id (di_run i) (runs d) = Some r" "scope_node (rn_scope r) = None" "di_node i = []"
  shows "sd_resume x \<noteq> [] \<longrightarrow>
           \<not> sd_fresh x \<and> \<not> sd_cold x \<and>
           (\<exists>s \<in> set (sessions d). ss_agent s = di_agent i \<and> ss_provider s = di_provider i \<and>
              ss_external s = Some (sd_resume x) \<and> ss_status s = AgentSessionStatusActive)"
proof -
  have lock: "lock_agent_run d (di_run i) = Inr r"
    using assms(1,2) by (auto simp: resolve_session_dispatch_def lock_agent_run_def split: if_splits)
  have forced: "resumes_active d i x" if "resolve_force_fresh e d i = Inr (d', x)"
    using that by (rule force_fresh_resumes)
  have none: "resolve_current e d i r c \<noteq> Inr None" for c
    using current_needs_node assms(3,4) by blast
  have "resumes_active d i x"
    using assms(1) unfolding resolve_session_dispatch_def
    by (auto simp: lock assms(3,4) none split: if_splits option.splits sum.splits
        intro: persisted_resumes current_resumes forced resolve_candidate_resumes)
  then show ?thesis by (simp add: resumes_active_def)
qed

definition ex_dispatch :: resolve_dispatch_input where
  "ex_dispatch = \<lparr>di_run = ''r1'', di_agent = ''a1'', di_channel = ''c1'', di_provider = ''claude'', di_node = [],
                  di_resume = [], di_force_fresh = False, di_supports_rollover = True\<rparr>"

definition ex_used :: rdb where
  "ex_used = ex_rdb\<lparr>runs := [ex_run, ex_run\<lparr>rn_id := ''r0'', rn_session := Some ''s1''\<rparr>]\<rparr>"

theorem dispatch_resumes_active_witness:
  "resolve_session_dispatch ex_renv ex_used ex_dispatch = Inr (ex_used, resume ''x1'') \<and>
   (\<exists>s \<in> set (sessions ex_used). ss_external s = Some ''x1'' \<and> ss_status s = AgentSessionStatusActive)"
proof -
  have "resolve_session_dispatch ex_renv ex_used ex_dispatch = Inr (ex_used, resume ''x1'')"
    by code_simp
  moreover have "row_by rn_id (di_run ex_dispatch) (runs ex_used) = Some ex_run"
    "scope_node (rn_scope ex_run) = None" "di_node ex_dispatch = []"
    by code_simp+
  ultimately show ?thesis
    using dispatch_resumes_active [of ex_renv ex_used ex_dispatch ex_used "resume ''x1''" ex_run]
    by (auto simp: resume_def)
qed

section \<open>Runs\<close>

text \<open>
  C35. The first end of a run is final: once a run has finished with a terminal status, no sequence of
  operations changes its status, activity, usage, start, backend start or end, and the run stays.
\<close>

theorem ended_run_is_final:
  assumes "row_by rn_id rid (runs d) = Some r" "rn_finished r \<noteq> None"
    and "\<not> is_active_agent_run_status (rn_status r)"
  shows "\<exists>r'. row_by rn_id rid (runs (foldl run_step d ops)) = Some r' \<and>
              rn_status r' = rn_status r \<and> rn_activity r' = rn_activity r \<and> rn_usage r' = rn_usage r \<and>
              rn_started r' = rn_started r \<and> rn_backend r' = rn_backend r \<and> rn_finished r' = rn_finished r"
proof -
  have "has_outcome rid (outcome r) d" using assms by (auto simp: has_outcome_def ended_def)
  then have "has_outcome rid (outcome r) (foldl run_step d ops)" by (rule run_outcome.run_inv)
  then show ?thesis by (auto simp: has_outcome_def outcome_def)
qed

definition ex_ended :: rdb where
  "ex_ended = ex_rdb\<lparr>runs := [ex_run\<lparr>rn_status := AgentRunStatusCompleted, rn_finished := Some 95\<rparr>]\<rparr>"

definition ex_late :: "(renv \<times> run_op) list" where
  "ex_late =
     [(ex_renv, OpFinish \<lparr>fi_run = ''r1'', fi_status = AgentRunStatusFailed, fi_activity = ''late'', fi_usage = UsageTokens 1 1 0 0\<rparr>),
      (ex_renv, OpBackendStarted ''r1''), (ex_renv, OpRemoveAgent ''a1'' None)]"

theorem ended_run_is_final_witness:
  "\<exists>r. row_by rn_id ''r1'' (runs (foldl run_step ex_ended ex_late)) = Some r \<and>
       rn_status r = AgentRunStatusCompleted \<and> rn_finished r = Some 95"
proof -
  have "row_by rn_id ''r1'' (runs ex_ended) = Some (ex_run\<lparr>rn_status := AgentRunStatusCompleted, rn_finished := Some 95\<rparr>)"
    by code_simp
  from ended_run_is_final [OF this, of ex_late] show ?thesis
    by (auto simp: is_active_agent_run_status_def active_agent_run_statuses_def)
qed

text \<open>
  The events of a run are numbered 1, 2, 3, ... in the order they were appended, whatever operations
  run from a database without runs.
\<close>

theorem events_are_numbered:
  "map re_seq (filter (\<lambda>x. re_run x = rid) (events (foldl run_step (empty_rdb\<lparr>owned_agents := g, trials := a\<rparr>) ops))) =
     [1..<Suc (length (filter (\<lambda>x. re_run x = rid) (events (foldl run_step (empty_rdb\<lparr>owned_agents := g, trials := a\<rparr>) ops))))]"
proof -
  have "rdb_inv (foldl run_step (empty_rdb\<lparr>owned_agents := g, trials := a\<rparr>) ops)"
    by (rule reached_rdb_inv)
  then show ?thesis by (simp add: rdb_inv_def events_numbered_def run_events_def del: upt_Suc)
qed

section \<open>Budgets\<close>

text \<open>
  C36. A finished run holds no budget: in every database the operations reach from one without runs, the
  usage of a run that has finished is settled and none of its reservations is active.
\<close>

theorem finished_run_holds_no_budget:
  assumes "d = foldl run_step (empty_rdb\<lparr>owned_agents := g, trials := a\<rparr>) ops"
    and "row_by rn_id rid (runs d) = Some r" "rn_finished r \<noteq> None"
  shows "(\<forall>u \<in> set (usages d). us_run u = rid \<longrightarrow> us_state u \<noteq> UsagePending) \<and>
         (\<forall>k \<in> set (reservations d). bk_run k = rid \<longrightarrow> bk_state k \<noteq> ReservationActive)"
proof -
  have "rdb_inv d" unfolding assms(1)
    by (rule reached_rdb_inv)
  then have inv: "budget_inv d" by (simp add: rdb_inv_def)
  have "\<not> unfinished_run d rid" using assms(2,3) by (simp add: unfinished_run_def)
  then have "\<not> pending_usage d rid" "\<not> active_reservation d rid" using inv by (auto simp: budget_but_def)
  then show ?thesis by (auto simp: pending_usage_def active_reservation_def)
qed

definition ex_agents :: "agent_row list" where
  "ex_agents = [\<lparr>a_id = ''a1'', a_name = ''A'', a_owner = ''u1'', a_active = True\<rparr>]"

definition ex_start :: start_run_input where
  "ex_start = \<lparr>sr_agent = ''a1'', sr_daemon = [], sr_session = [], sr_rollover = [], sr_scope = ex_scope,
               sr_status = None, sr_activity = [], sr_tool = [], sr_input = [], sr_source = [],
               sr_usage = UsageEmpty,
               sr_wake = \<lparr>freshness_seen = 0, wake_first = 0, wake_latest = 0, wake_visible = False\<rparr>\<rparr>"

definition ex_life :: "(renv \<times> run_op) list" where
  "ex_life =
     [(ex_renv, OpSaveUserBudget ''u1'' \<lparr>sb_enabled = True, sb_limit = 250000\<rparr>),
      (ex_renv, OpStartRun ex_start), (ex_renv, OpBackendStarted ''n1''),
      (ex_renv, OpFinish \<lparr>fi_run = ''n1'', fi_status = AgentRunStatusCompleted, fi_activity = ''ok'',
                          fi_usage = UsageTokens 700 300 0 0\<rparr>)]"

definition ex_lived :: rdb where
  "ex_lived = foldl run_step (empty_rdb\<lparr>owned_agents := ex_agents, trials := []\<rparr>) ex_life"

theorem finished_run_holds_no_budget_witness:
  "map us_actual (usages ex_lived) = [Some 1000] \<and> map bk_run (reservations ex_lived) = [''n1''] \<and>
   ReservationActive \<notin> bk_state ` set (reservations ex_lived)"
proof -
  have "(map us_actual (usages ex_lived), map bk_run (reservations ex_lived),
         map_option rn_finished (row_by rn_id ''n1'' (runs ex_lived))) = ([Some 1000], [''n1''], Some (Some 100))"
    by code_simp
  then obtain r where "row_by rn_id ''n1'' (runs ex_lived) = Some r" "rn_finished r \<noteq> None"
    and rest: "map us_actual (usages ex_lived) = [Some 1000]" "map bk_run (reservations ex_lived) = [''n1'']" by auto
  from finished_run_holds_no_budget [OF ex_lived_def this(1,2)]
  have "\<forall>k \<in> set (reservations ex_lived). bk_run k = ''n1'' \<longrightarrow> bk_state k \<noteq> ReservationActive" by blast
  moreover have "\<forall>k \<in> set (reservations ex_lived). bk_run k = ''n1''" using rest(2) by (metis imageI list.set_map list.set(1) list.set(2) singletonD)
  ultimately show ?thesis using rest by auto
qed

lemma check_policies_each:
  "check_policies d owner agent start ps = None \<Longrightarrow> p \<in> set ps \<Longrightarrow>
   0 < bp_limit p \<and>
   (\<exists>used active. scope_usage d (bp_id p) owner (if bp_scope p = ''agent'' then agent else []) start = Inr (used, active) \<and>
      i64 (i64 (used + active) + run_reserve_tokens p) \<le> bp_limit p)"
proof (induction ps)
  case (Cons q ps)
  obtain used active where
    u: "scope_usage d (bp_id q) owner (if bp_scope q = ''agent'' then agent else []) start = Inr (used, active)"
    using Cons.prems(1) by (auto split: if_splits sum.splits)
  have q: "0 < bp_limit q" "i64 (i64 (used + active) + run_reserve_tokens q) \<le> bp_limit q"
    "check_policies d owner agent start ps = None"
    using Cons.prems(1) by (auto simp: u split: if_splits)
  show ?case
  proof (cases "p = q")
    case True
    then show ?thesis using u q by blast
  next
    case False
    then show ?thesis using Cons q(3) by simp
  qed
qed simp

lemma scope_usageD:
  assumes "scope_usage d policy owner agent start = Inr (used, active)" "policy \<noteq> []"
  shows "used = i64 (actual_sum d owner agent start + unknown_sum d policy start) \<and> active = active_sum d policy"
  using assms by (auto simp: scope_usage_def scan_int64_def split: if_splits sum.splits)

lemma plan_distinct: "keyed bp_id (policies d) \<Longrightarrow> keyed bp_id (plan_policies d owner agent)"
proof -
  assume k: "keyed bp_id (policies d)"
  let ?f = "\<lambda>p. bp_owner p = owner \<and> bp_scope p = ''user'' \<and> bp_agent p = None \<and> bp_enabled p"
  let ?g = "\<lambda>p. bp_owner p = owner \<and> bp_scope p = ''agent'' \<and> bp_agent p = Some agent \<and> bp_enabled p"
  have "bp_id p \<noteq> bp_id q" if "p \<in> set (filter ?f (policies d))" "q \<in> set (filter ?g (policies d))" for p q
  proof
    assume "bp_id p = bp_id q"
    moreover have "p \<in> set (policies d)" "q \<in> set (policies d)" using that by simp_all
    ultimately have "p = q" using keyed_unique [OF k] by blast
    with that show False by simp
  qed
  then have "set (map bp_id (filter ?f (policies d))) \<inter> set (map bp_id (filter ?g (policies d))) = {}"
    unfolding list.set_map by blast
  then show ?thesis
    using k unfolding keyed_def plan_policies_def map_append distinct_append
    by (blast intro: distinct_map_filter)
qed

lemma reserved_row_simps [simp]:
  "bk_policy (reserved_row e rid p) = bp_id p" "bk_state (reserved_row e rid p) = ReservationActive"
  "bk_reserved (reserved_row e rid p) = run_reserve_tokens p"
  by (simp_all add: reserved_row_def)

lemma active_reserved:
  assumes "keyed bp_id ps" "p \<in> set ps"
  shows "sum_list (map bk_reserved
           (filter (\<lambda>k. bk_policy k = bp_id p \<and> bk_state k = ReservationActive) (map (reserved_row e rid) ps))) =
         run_reserve_tokens p"
  using assms
proof (induction ps)
  case (Cons q ps)
  have none: "filter (\<lambda>k. bk_policy k = bp_id q \<and> bk_state k = ReservationActive) (map (reserved_row e rid) ps) = []"
  proof -
    have "\<forall>x \<in> set ps. bp_id x \<noteq> bp_id q" using Cons.prems(1) unfolding keyed_def by (metis distinct.simps(2) image_eqI list.set_map list.simps(9))
    then show ?thesis by (auto simp: filter_empty_conv)
  qed
  show ?case
  proof (cases "p = q")
    case True
    then show ?thesis using none by simp
  next
    case False
    then have "p \<in> set ps" "bp_id p \<noteq> bp_id q"
      using Cons.prems keyed_unique [OF Cons.prems(1)] by (metis set_ConsD list.set_intros)+
    then show ?thesis using Cons by (simp add: keyed_def)
  qed
qed simp

text \<open>
  C37. Starting a run never overcommits a budget: after \<open>ReserveRunTx\<close> succeeds, for every policy that
  bears on the agent, what its scope has used this month plus everything reserved under it (the new run
  included) is within the limit. The sums are assumed to stay below 2^63 - 100000, so that Go's additions do
  not wrap (\<open>budget_sum_can_wrap\<close> shows what happens when they do).
\<close>

theorem start_never_overcommits:
  assumes "reserve_run e d rid agent = Inr d'" "build_run_plan e d agent = Inr (owner, ps)" "p \<in> set ps"
    and "keyed bp_id (policies d)" "bp_id p \<noteq> []"
    and "scope = (if bp_scope p = ''agent'' then agent else [])"
    and "0 \<le> actual_sum d owner scope (month_start e) + unknown_sum d (bp_id p) (month_start e)"
    and "0 \<le> active_sum d (bp_id p)"
    and "actual_sum d owner scope (month_start e) + unknown_sum d (bp_id p) (month_start e) +
         active_sum d (bp_id p) + system_run_reserve_tokens \<le> max_int64"
  shows "actual_sum d' owner scope (month_start e) + unknown_sum d' (bp_id p) (month_start e) +
         active_sum d' (bp_id p) \<le> bp_limit p"
proof -
  from assms(1,2) obtain sl sel where
    d': "d' = d\<lparr>usages := usages d @ [reserved_usage e rid owner agent ps sl sel],
                reservations := reservations d @ map (reserved_row e rid) ps\<rparr>"
    by (auto elim!: reserve_cases)
  have a: "ps = plan_policies d owner agent" "check_policies d owner agent (month_start e) ps = None"
    using assms(2) by (auto simp: build_run_plan_def Let_def split: option.splits)
  let ?u = "actual_sum d owner scope (month_start e) + unknown_sum d (bp_id p) (month_start e)"
  obtain used active where s: "scope_usage d (bp_id p) owner scope (month_start e) = Inr (used, active)"
    and le: "i64 (i64 (used + active) + run_reserve_tokens p) \<le> bp_limit p" and pos: "0 < bp_limit p"
    using check_policies_each [OF a(2) assms(3)] unfolding assms(6) by blast
  have res: "0 \<le> run_reserve_tokens p" "run_reserve_tokens p \<le> system_run_reserve_tokens"
    using pos by (auto simp: run_reserve_tokens_def system_run_reserve_tokens_def)
  have bounds: "?u \<le> max_int64" "?u + active_sum d (bp_id p) \<le> max_int64"
    "?u + active_sum d (bp_id p) + run_reserve_tokens p \<le> max_int64"
    using assms(7-9) res by (auto simp: system_run_reserve_tokens_def)
  have ids: "i64 ?u = ?u" "i64 (?u + active_sum d (bp_id p)) = ?u + active_sum d (bp_id p)"
    "i64 (?u + active_sum d (bp_id p) + run_reserve_tokens p) = ?u + active_sum d (bp_id p) + run_reserve_tokens p"
    using bounds assms(7,8) res by (auto intro!: i64_id)
  have fit: "?u + active_sum d (bp_id p) + run_reserve_tokens p \<le> bp_limit p"
    using le scope_usageD [OF s assms(5)] ids by simp
  have act: "active_sum d' (bp_id p) = active_sum d (bp_id p) + run_reserve_tokens p"
    using active_reserved [OF plan_distinct [OF assms(4), of owner agent], of p e rid] assms(3) a
    by (simp add: active_sum_def d')
  have "unknown_sum d' (bp_id p) (month_start e) = unknown_sum d (bp_id p) (month_start e)"
    by (auto simp: unknown_sum_def d' filter_empty_conv reserved_row_def)
  moreover have "actual_sum d' owner scope (month_start e) = actual_sum d owner scope (month_start e)"
    by (simp add: actual_sum_def d' reserved_usage_def)
  ultimately show ?thesis using fit act by simp
qed

theorem start_never_overcommits_witness:
  "(case reserve_run ex_renv ex_rdb ''r1'' ''a1'' of
      Inl _ \<Rightarrow> False
    | Inr d' \<Rightarrow> actual_sum d' ''u1'' [] 50 + unknown_sum d' ''p1'' 50 + active_sum d' ''p1'' \<le> 250000)"
proof -
  obtain d' where r: "reserve_run ex_renv ex_rdb ''r1'' ''a1'' = Inr d'"
  proof -
    have "case reserve_run ex_renv ex_rdb ''r1'' ''a1'' of Inl _ \<Rightarrow> False | Inr _ \<Rightarrow> True" by code_simp
    then show thesis using that by (auto split: sum.splits)
  qed
  have plan: "build_run_plan ex_renv ex_rdb ''a1'' = Inr (''u1'', [ex_policy])" by code_simp
  have "actual_sum d' ''u1'' [] (month_start ex_renv) + unknown_sum d' (bp_id ex_policy) (month_start ex_renv) +
      active_sum d' (bp_id ex_policy) \<le> bp_limit ex_policy"
    by (rule start_never_overcommits [OF r plan])
      (simp, simp add: ex_rdb_def empty_rdb_def keyed_def, code_simp+)
  then show ?thesis unfolding r by (simp add: ex_policy_def ex_renv_def)
qed

text \<open>
  A run's token total is exact or refused: for four counts that are non-negative \<open>int64\<close> values,
  \<open>total\<close> is their sum when it fits an \<open>int64\<close> and an error otherwise; it never wraps.
\<close>

theorem total_tokens_exact:
  assumes "0 \<le> tu_input u" "0 \<le> tu_output u" "0 \<le> tu_cache_read u" "0 \<le> tu_cache_write u"
    and "tu_input u \<le> max_int64" "tu_output u \<le> max_int64" "tu_cache_read u \<le> max_int64" "tu_cache_write u \<le> max_int64"
  shows "total_tokens u =
           (let n = tu_input u + tu_output u + tu_cache_read u + tu_cache_write u
            in if n \<le> max_int64 then Inr n else Inl (ErrUsage ''run token usage is too large''))"
proof -
  have "total_loop acc vs = (if acc + sum_list vs \<le> max_int64 then Inr (acc + sum_list vs)
          else Inl (ErrUsage ''run token usage is too large''))"
    if "0 \<le> acc" "acc \<le> max_int64" "\<forall>v \<in> set vs. 0 \<le> v \<and> v \<le> max_int64" for acc vs
    using that
  proof (induction vs arbitrary: acc)
    case (Cons v vs)
    have rest: "0 \<le> sum_list vs" using Cons.prems(3) by (intro sum_list_nonneg) simp
    have room: "i64 (max_int64 - acc) = max_int64 - acc"
      using Cons.prems(1,2) by (intro i64_id) (simp_all add: max_int64_def)
    show ?case
    proof (cases "v > max_int64 - acc")
      case True
      then show ?thesis using rest by (simp add: room)
    next
      case False
      then have "i64 (acc + v) = acc + v"
        using Cons.prems by (intro i64_id) (simp_all add: max_int64_def)
      with False show ?thesis using Cons.IH [of "acc + v"] Cons.prems by (simp add: room add.assoc)
    qed
  qed simp
  from this [of 0 "[tu_input u, tu_output u, tu_cache_read u, tu_cache_write u]"] assms show ?thesis
    by (simp add: total_tokens_def Let_def add.assoc max_int64_def)
qed

theorem total_tokens_exact_witness:
  "total_tokens \<lparr>tu_input = 2 ^ 62, tu_output = 2 ^ 62, tu_cache_read = 1, tu_cache_write = 0\<rparr> =
     Inl (ErrUsage ''run token usage is too large'')"
  using total_tokens_exact [of "\<lparr>tu_input = 2 ^ 62, tu_output = 2 ^ 62, tu_cache_read = 1, tu_cache_write = 0\<rparr>"]
  by (simp add: max_int64_def Let_def)

end
