(* ===== verification/Run_Theorems2.thy ===== *)
theory Run_Theorems2
  imports Run_Theorems
begin

text \<open>
  More of what runs and budgets promise: views agree with what a start is refused for, settling, the two
  halves of a session rollover, and the one place where the budget arithmetic wraps.
\<close>

section \<open>Policies and views\<close>

text \<open>
  The budget a user is shown is the budget runs are held to: for an enabled policy the view is blocked
  exactly when starting a run under that policy is refused for its limit, and a pause reason is shown
  exactly then.
\<close>

theorem view_agrees_with_start:
  assumes "build_view e d p owner (if bp_scope p = ''agent'' then agent else []) = Inr v" "bp_enabled p"
  shows "(ps_blocked (bv_month v) \<longleftrightarrow>
            check_policies d owner agent (month_start e) [p] = Some (budget_limit_error (bp_scope p))) \<and>
         (bv_pause_reason v \<noteq> [] \<longleftrightarrow> ps_blocked (bv_month v))"
  using assms
  by (auto simp: build_view_def period_summary_def Let_def budget_limit_error_def split: sum.splits if_splits)

theorem view_agrees_with_start_witness:
  "(case build_view ex_renv ex_rdb (ex_policy\<lparr>bp_limit := 0\<rparr>) ''u1'' [] of
      Inl _ \<Rightarrow> False | Inr v \<Rightarrow> bv_pause_reason v \<noteq> [])"
proof -
  let ?p = "ex_policy\<lparr>bp_limit := 0\<rparr>"
  have a: "case build_view ex_renv ex_rdb ?p ''u1'' (if bp_scope ?p = ''agent'' then ''a1'' else []) of
          Inl _ \<Rightarrow> False | Inr v \<Rightarrow> True" by code_simp
  have b: "check_policies ex_rdb ''u1'' ''a1'' (month_start ex_renv) [?p] = Some (budget_limit_error (bp_scope ?p))"
    by (simp add: ex_policy_def)
  have s: "(if bp_scope ?p = ''agent'' then ''a1'' else []) = []" by (simp add: ex_policy_def)
  have en: "bp_enabled ?p" by (simp add: ex_policy_def)
  show ?thesis
    using a b view_agrees_with_start [of ex_renv ex_rdb ?p "''u1''" "''a1''", OF _ en]
    unfolding s by (auto split: sum.splits)
qed

text \<open>
  A saved budget is the one that is read back and enforced: \<open>SaveUserBudget\<close> returns the policy with
  the values saved, \<open>GetUserBudget\<close> returns the same view, and the policy is checked when any agent of the
  owner starts a run exactly when it was saved enabled.
\<close>

theorem saved_user_budget_is_enforced:
  assumes "save_user_budget e d owner i = (d', Inr v)"
    and "\<forall>p \<in> set (policies d). bp_scope p = ''user'' \<longrightarrow> bp_agent p = None"
  shows "bp_enabled (bv_policy v) = sb_enabled i \<and> bp_limit (bv_policy v) = sb_limit i \<and>
         get_user_budget e d' owner = Inr v \<and>
         (bv_policy v \<in> set (plan_policies d' owner agent) \<longleftrightarrow> sb_enabled i)"
proof -
  let ?mine = "\<lambda>p. bp_scope p = ''user'' \<and> bp_owner p = owner"
  let ?f = "\<lambda>p :: policy_row. p\<lparr>bp_enabled := sb_enabled i, bp_limit := sb_limit i\<rparr>"
  let ?new = "\<lparr>bp_id = new_id e, bp_owner = owner, bp_scope = ''user'', bp_agent = None,
               bp_enabled = sb_enabled i, bp_limit = sb_limit i\<rparr>"
  have ps: "policies d' = (if exists_row ?mine (policies d) then update_where ?mine ?f (policies d) else policies d @ [?new])"
    and view: "get_user_budget e d' owner = Inr v"
    using assms(1) by (auto simp: save_user_budget_def Let_def split: option.splits)
  obtain p where p: "find (\<lambda>p. bp_owner p = owner \<and> bp_scope p = ''user'' \<and> bp_agent p = None) (policies d') = Some p"
    and vals: "bp_enabled p = sb_enabled i" "bp_limit p = sb_limit i"
  proof -
    have all: "bp_enabled q = sb_enabled i \<and> bp_limit q = sb_limit i"
      if "q \<in> set (policies d')" "?mine q" for q
    proof (cases "exists_row ?mine (policies d)")
      case True
      then have "q \<in> (\<lambda>r. if ?mine r then ?f r else r) ` set (policies d)"
        using that(1) by (simp add: ps set_update_where)
      then obtain r where "q = (if ?mine r then ?f r else r)" by blast
      then show ?thesis using that(2) by (cases "?mine r") simp_all
    next
      case False
      then have "\<not> q \<in> set (policies d)" using that(2) unfolding exists_row_iff by blast
      then show ?thesis using that(1) False by (simp add: ps)
    qed
    have "\<exists>q \<in> set (policies d'). bp_owner q = owner \<and> bp_scope q = ''user'' \<and> bp_agent q = None"
    proof (cases "exists_row ?mine (policies d)")
      case True
      then obtain q where q: "q \<in> set (policies d)" "?mine q" by (auto simp: exists_row_iff)
      then have "?f q \<in> set (policies d')" using True by (auto simp: ps set_update_where)
      then show ?thesis using q assms(2) by (intro bexI [of _ "?f q"]) auto
    qed (simp add: ps)
    then obtain p where "find (\<lambda>p. bp_owner p = owner \<and> bp_scope p = ''user'' \<and> bp_agent p = None) (policies d') = Some p"
      by (cases "find (\<lambda>p. bp_owner p = owner \<and> bp_scope p = ''user'' \<and> bp_agent p = None) (policies d')")
        (auto simp: find_None_iff)
    moreover from this have "p \<in> set (policies d')" "?mine p" by (auto simp: find_Some_iff)
    ultimately show thesis using that all by blast
  qed
  have mem: "p \<in> set (policies d')" "bp_owner p = owner" "bp_scope p = ''user''" "bp_agent p = None"
    using p by (auto simp: find_Some_iff)
  have "load_policy d' ''user'' owner [] = p" using p by (simp add: load_policy_def)
  then have "bv_policy v = p"
    using view by (auto simp: get_user_budget_def build_view_def split: sum.splits)
  then show ?thesis using vals view mem by (auto simp: plan_policies_def)
qed

theorem saved_user_budget_is_enforced_witness:
  "(case save_user_budget ex_renv ex_rdb ''u1'' \<lparr>sb_enabled = True, sb_limit = 500000\<rparr> of
      (d', Inr v) \<Rightarrow> bp_limit (bv_policy v) = 500000 \<and> bv_policy v \<in> set (plan_policies d' ''u1'' ''a1'')
    | _ \<Rightarrow> False)"
proof -
  have a: "case save_user_budget ex_renv ex_rdb ''u1'' \<lparr>sb_enabled = True, sb_limit = 500000\<rparr> of
      (d', Inr v) \<Rightarrow> True | _ \<Rightarrow> False" by code_simp
  have b: "\<forall>p \<in> set (policies ex_rdb). bp_scope p = ''user'' \<longrightarrow> bp_agent p = None"
    by (simp add: ex_rdb_def ex_policy_def)
  show ?thesis
    using a saved_user_budget_is_enforced [of ex_renv ex_rdb "''u1''" "\<lparr>sb_enabled = True, sb_limit = 500000\<rparr>", OF _ b, of _ _ "''a1''"]
    by (auto split: prod.splits sum.splits)
qed

section \<open>Settling\<close>

text \<open>
  Settling a run accounts for it once. A pending usage becomes released with nothing used when the
  backend never started, unknown when it started and reported no tokens (its reservations then stay
  accounted in full), and settled with the reported total otherwise; none of its reservations stays
  active, the usage of other runs is untouched, and settling again, with whatever report, changes nothing.
\<close>

theorem settling_accounts_once:
  assumes "keyed us_run (usages d)" "row_by us_run rid (usages d) = Some u" "us_state u = UsagePending"
    and "settle_run d rid started raw = Inr d'"
  shows "\<exists>u' usage n.
           budget_usage_from_json raw = Inr usage \<and> total_tokens usage = Inr n \<and>
           row_by us_run rid (usages d') = Some u' \<and>
           (us_state u', us_actual u') =
             (if \<not> started then (UsageReleased, Some 0) else if n = 0 then (UsageUnknown, None)
              else (UsageSettled, Some n)) \<and>
           (\<forall>k \<in> set (reservations d'). bk_run k = rid \<longrightarrow> bk_state k \<noteq> ReservationActive) \<and>
           (started \<longrightarrow> n = 0 \<longrightarrow> (\<forall>k \<in> set (reservations d). bk_run k = rid \<longrightarrow> bk_state k = ReservationActive \<longrightarrow>
              k\<lparr>bk_state := ReservationSettled, bk_accounted := bk_reserved k\<rparr> \<in> set (reservations d'))) \<and>
           (\<forall>other. other \<noteq> rid \<longrightarrow> row_by us_run other (usages d') = row_by us_run other (usages d)) \<and>
           (\<forall>started' raw'. settle_run d' rid started' raw' = Inr d')"
proof -
  have "pending_usage d rid" using assms(2,3) by (auto simp: pending_usage_def dest: row_by_in row_by_key)
  from settle_pending [OF assms(1) this assms(4)] obtain usage n where
    un: "budget_usage_from_json raw = Inr usage" "total_tokens usage = Inr n" and
    d': "d' = d\<lparr>usages := update_where (\<lambda>x. us_run x = rid) (settled_usage started n usage) (usages d),
           reservations := update_where (\<lambda>k. bk_run k = rid \<and> bk_state k = ReservationActive)
             (settled_reservation started n) (reservations d)\<rparr>" by blast
  have row: "row_by us_run rid (usages d') = Some (settled_usage started n usage u)"
    using assms(2) row_by_key [OF assms(2)] by (simp add: d' settled_rows.row_by_update)
  have state: "(us_state (settled_usage started n usage u), us_actual (settled_usage started n usage u)) =
      (if \<not> started then (UsageReleased, Some 0) else if n = 0 then (UsageUnknown, None) else (UsageSettled, Some n))"
    by (simp add: settled_usage_def)
  have free: "\<forall>k \<in> set (reservations d'). bk_run k = rid \<longrightarrow> bk_state k \<noteq> ReservationActive"
  proof
    fix k assume "k \<in> set (reservations d')"
    then have "k \<in> (\<lambda>k. if bk_run k = rid \<and> bk_state k = ReservationActive then settled_reservation started n k else k) ` set (reservations d)"
      by (simp add: d' set_update_where)
    then show "bk_run k = rid \<longrightarrow> bk_state k \<noteq> ReservationActive" by (rule imageE) (simp split: if_split)
  qed
  have "k\<lparr>bk_state := ReservationSettled, bk_accounted := bk_reserved k\<rparr> \<in> set (reservations d')"
    if "started" "n = 0" "k \<in> set (reservations d)" "bk_run k = rid" "bk_state k = ReservationActive" for k
  proof -
    have "settled_reservation started n k = k\<lparr>bk_state := ReservationSettled, bk_accounted := bk_reserved k\<rparr>"
      using that by (simp add: settled_reservation_def)
    then show ?thesis using that by (auto simp: d' set_update_where image_iff intro!: bexI [of _ k])
  qed
  then have kept: "started \<longrightarrow> n = 0 \<longrightarrow> (\<forall>k \<in> set (reservations d). bk_run k = rid \<longrightarrow> bk_state k = ReservationActive \<longrightarrow>
              k\<lparr>bk_state := ReservationSettled, bk_accounted := bk_reserved k\<rparr> \<in> set (reservations d'))" by blast
  have others: "\<forall>other. other \<noteq> rid \<longrightarrow> row_by us_run other (usages d') = row_by us_run other (usages d)"
  proof (intro allI impI)
    fix other assume "other \<noteq> rid"
    show "row_by us_run other (usages d') = row_by us_run other (usages d)"
    proof (cases "row_by us_run other (usages d)")
      case (Some x)
      then have "us_run x \<noteq> rid" using row_by_key [OF Some] \<open>other \<noteq> rid\<close> by simp
      with Some show ?thesis by (simp add: d' settled_rows.row_by_update)
    qed (simp add: d' settled_rows.row_by_update)
  qed
  have once: "\<forall>started' raw'. settle_run d' rid started' raw' = Inr d'"
    by (simp add: settle_run_def row)
  show ?thesis
    using un row state free kept others once
    by (intro exI [of _ "settled_usage started n usage u"] exI [of _ usage] exI [of _ n] conjI) assumption+
qed

definition ex_pending :: rdb where
  "ex_pending = ex_rdb\<lparr>usages := [reserved_usage ex_renv ''r1'' ''u1'' ''a1'' [ex_policy] 0 0],
     reservations := [reserved_row ex_renv ''r1'' ex_policy]\<rparr>"

theorem settling_accounts_once_witness:
  "\<exists>d'. settle_run ex_pending ''r1'' True (UsageTokens 0 0 0 0) = Inr d' \<and>
        settle_run d' ''r1'' True (UsageTokens 9 0 0 0) = Inr d'"
proof -
  obtain d' where s: "settle_run ex_pending ''r1'' True (UsageTokens 0 0 0 0) = Inr d'"
  proof -
    have "case settle_run ex_pending ''r1'' True (UsageTokens 0 0 0 0) of Inl _ \<Rightarrow> False | Inr _ \<Rightarrow> True" by code_simp
    then show thesis using that by (auto split: sum.splits)
  qed
  have k: "keyed us_run (usages ex_pending)" by (simp add: ex_pending_def keyed_def)
  have u: "row_by us_run ''r1'' (usages ex_pending) = Some (reserved_usage ex_renv ''r1'' ''u1'' ''a1'' [ex_policy] 0 0)"
    "us_state (reserved_usage ex_renv ''r1'' ''u1'' ''a1'' [ex_policy] 0 0) = UsagePending"
    by (simp_all add: ex_pending_def row_by_def reserved_usage_def)
  have "\<forall>started raw. settle_run d' ''r1'' started raw = Inr d'"
    using settling_accounts_once [OF k u s] by (elim exE conjE)
  with s show ?thesis by blast
qed

section \<open>Session rollover\<close>

lemma run_row_update:
  "(\<And>r. rn_id (f r) = rn_id r) \<Longrightarrow>
   row_by rn_id k (update_where P f rs) = map_option (\<lambda>r. if P r then f r else r) (row_by rn_id k rs)"
  using keyed_update.row_by_update [of rn_id f] by (simp add: keyed_update_def)

lemma session_row_update:
  "(\<And>s. ss_id (f s) = ss_id s) \<Longrightarrow>
   row_by ss_id k (update_where P f ss) = map_option (\<lambda>s. if P s then f s else s) (row_by ss_id k ss)"
  using keyed_update.row_by_update [of ss_id f] by (simp add: keyed_update_def)

text \<open>
  Asking for a rollover is idempotent: after \<open>RequestSessionRollover\<close> has answered for a run, asking
  again for the same run, at any time and for any reason, answers with the same session, says it is not
  the first request, and changes nothing.
\<close>

theorem rollover_is_requested_once:
  assumes "request_session_rollover e d rid reason continuity p = Inr (d', sid, first)"
  shows "request_session_rollover e2 d' rid reason2 continuity2 p2 = Inr (d', sid, False)"
proof -
  let ?own = "\<lambda>r s. ss_id s = coalesce (rn_session r) \<and> ss_agent s = rn_agent r"
  obtain r where r: "lock_agent_run d rid = Inr r" and sid: "sid = coalesce (rn_session r)"
    and ok: "coalesce (rn_session r) \<noteq> []" "coalesce (scope_node (rn_scope r)) = []"
    using assms by (auto simp: request_session_rollover_def Let_def mismatch_def split: sum.splits if_splits option.splits)
  note req = assms [unfolded request_session_rollover_def Let_def r sum.case]
  obtain s where s: "find (?own r) (sessions d) = Some s"
    using req ok by (cases "find (?own r) (sessions d)") (simp_all add: mismatch_def)
  let ?d1 = "move_session e sid AgentSessionStatusActive AgentSessionStatusRolloverPending d"
  have runs: "lock_agent_run d' rid = Inr r" if "runs d' = runs d"
  proof -
    have "lock_agent_run d' rid = lock_agent_run d rid" by (simp add: lock_agent_run_def that)
    then show ?thesis using r by simp
  qed
  consider (noop) "d' = d" "ss_status s = AgentSessionStatusRolloverPending \<or> ss_status s = AgentSessionStatusClosed \<and> rollover_requested d sid"
    | (move) "ss_status s = AgentSessionStatusActive" "runs d' = runs d" "sessions d' = sessions ?d1"
    using req ok s by (auto simp: mismatch_def sid move_session_def append_run_event_def split: if_splits)
  then show ?thesis
  proof cases
    case noop
    then show ?thesis
      unfolding request_session_rollover_def Let_def using r ok s by (auto simp: sid)
  next
    case move
    let ?f = "\<lambda>s. if ss_id s = sid \<and> ss_status s = AgentSessionStatusActive
                then s\<lparr>ss_status := AgentSessionStatusRolloverPending, ss_active := clock e\<rparr> else s"
    have "find (?own r) (map ?f (sessions d)) = map_option ?f (find (?own r) (sessions d))"
      by (rule find_map_same) simp
    then have "find (?own r) (sessions d') = Some (?f s)"
      using s by (simp add: move(3) move_session_def update_where_def)
    moreover have "ss_id s = sid" using s by (auto simp: find_Some_iff sid)
    ultimately have "find (?own r) (sessions d') = Some (s\<lparr>ss_status := AgentSessionStatusRolloverPending, ss_active := clock e\<rparr>)"
      using move(1) by simp
    then show ?thesis
      unfolding request_session_rollover_def Let_def using runs [OF move(2)] ok by (simp add: sid)
  qed
qed

definition ex_bound :: rdb where
  "ex_bound = ex_rdb\<lparr>runs := [ex_run\<lparr>rn_session := Some ''s1'', rn_status := AgentRunStatusRunning\<rparr>]\<rparr>"

theorem rollover_is_requested_once_witness:
  "\<exists>d'. request_session_rollover ex_renv ex_bound ''r1'' ''full'' [] [] = Inr (d', ''s1'', True) \<and>
        request_session_rollover ex_renv d' ''r1'' ''again'' [] [] = Inr (d', ''s1'', False)"
proof -
  obtain d' where "request_session_rollover ex_renv ex_bound ''r1'' ''full'' [] [] = Inr (d', ''s1'', True)"
  proof -
    have "case request_session_rollover ex_renv ex_bound ''r1'' ''full'' [] [] of
            Inl _ \<Rightarrow> False | Inr (_, sid, first) \<Rightarrow> sid = ''s1'' \<and> first" by code_simp
    then show thesis using that by (auto split: sum.splits prod.splits)
  qed
  moreover from rollover_is_requested_once [OF this]
  have "request_session_rollover ex_renv d' ''r1'' ''again'' [] [] = Inr (d', ''s1'', False)" .
  ultimately show ?thesis by blast
qed

lemma rank_of_tx: "tx d d' \<Longrightarrow> rank_of sid d \<le> rank_of sid d'"
  by (induction rule: rtranclp_induct) (auto intro: rank_of_write order_trans)

lemma upsert_row:
  assumes "upsert_session e d i = Inr (d1, s)"
  shows "s \<in> set (sessions d1) \<and> ss_agent s = ui_agent i \<and> ss_provider s = ui_provider i \<and> runs d1 = runs d"
proof -
  define ext where "ext = (if trim_space (ui_external i) = [] \<and> trim_space (ui_transcript i) \<noteq> []
      then stable_transcript_session_id e (trim_space (ui_transcript i)) else trim_space (ui_external i))"
  show ?thesis
  proof (cases "find (\<lambda>s. session_key s = (ui_agent i, ui_provider i, Some ext)) (sessions d)")
    case None
    then show ?thesis
      using assms by (auto simp: upsert_session_def Let_def ext_def [symmetric] split: if_splits)
  next
    case (Some x)
    then have x: "x \<in> set (sessions d)" "ss_agent x = ui_agent i" "ss_provider x = ui_provider i"
      by (auto simp: find_Some_iff session_key_def)
    let ?f = "touch_session e (trim_space (ui_transcript i)) (ui_title i)"
    have d1: "d1 = d\<lparr>sessions := update_where (\<lambda>y. ss_id y = ss_id x) ?f (sessions d)\<rparr>" and s: "s = ?f x"
      using assms Some by (auto simp: upsert_session_def Let_def ext_def [symmetric] split: if_splits)
    have "?f x \<in> set (sessions d1)" using x(1) by (auto simp: d1 set_update_where)
    then show ?thesis using x by (simp add: s d1 touch_session_def)
  qed
qed

lemma bind_node_frame:
  "bind_node d node agent sid = Inr d' \<Longrightarrow> runs d' = runs d \<and> sessions d' = sessions d \<and> events d' = events d"
  by (auto simp: bind_node_def split: if_splits)

lemma complete_frame:
  "runs (complete_rollover e rid provider old s d) = runs d"
  "has_event (complete_rollover e rid provider old s d) rid SessionRolloverCompleted"
  "sessions (complete_rollover e rid provider old s d) =
     sessions (move_session e (ss_id old) AgentSessionStatusRolloverPending AgentSessionStatusClosed d)"
  by (simp_all add: complete_rollover_def Let_def append_run_event_def move_session_def has_event_def exists_row_iff)

text \<open>What a rollover that did not converge leaves of the session it replaces.\<close>

lemma replaced_session_closed:
  assumes pred: "predecessor d r provider = Inr (Some old)" and "from": "rn_rollover r = Some from"
    and key: "keyed ss_id (sessions d)" and up: "tx d d1"
    and check: "rollover_check d1 r provider old s = Inr converged"
    and d3: "sessions d3 = sessions d1"
  shows "from \<noteq> ss_id s \<and> ss_id old = from \<and>
         (\<exists>x. row_by ss_id from (sessions (complete_rollover e rid provider old s d3)) = Some x \<and>
              ss_status x = AgentSessionStatusClosed)"
proof -
  have own: "owned_session d from (rn_agent r) provider = Some old"
    using pred "from" by (cases "owned_session d from (rn_agent r) provider") (simp_all add: predecessor_def mismatch_def)
  then have old: "old \<in> set (sessions d)" "ss_id old = from" by (simp_all add: owned_sessionD)
  have differs: "ss_id s \<noteq> from"
    using check old(2) by (auto simp: rollover_check_def Let_def mismatch_def split: if_splits)
  have "ss_status old = AgentSessionStatusRolloverPending \<or> ss_status old = AgentSessionStatusClosed"
    using check by (auto simp: rollover_check_def Let_def mismatch_def split: if_splits)
  then have pos: "1 \<le> session_rank (ss_status old)" by (auto simp: session_rank_def)
  have "row_by ss_id from (sessions d) = Some old" using key old by (metis row_by_SomeI)
  then have "rank_of from d = session_rank (ss_status old)" by (simp add: rank_of_def)
  then have "1 \<le> rank_of from d3"
    using rank_of_tx [OF up, of "from"] pos by (simp add: rank_of_def [of "from" d3] rank_of_def [of "from" d1] d3)
  then obtain x where x: "row_by ss_id from (sessions d3) = Some x" "1 \<le> session_rank (ss_status x)"
    by (cases "row_by ss_id from (sessions d3)") (auto simp: rank_of_def)
  have "row_by ss_id from (sessions (complete_rollover e rid provider old s d3)) =
      Some (if ss_status x = AgentSessionStatusRolloverPending
            then x\<lparr>ss_status := AgentSessionStatusClosed, ss_active := clock e\<rparr> else x)"
    using x(1) row_by_key [OF x(1)]
    by (simp add: complete_frame move_session_def old(2) session_row_update)
  moreover have "ss_status x = AgentSessionStatusRolloverPending \<or> ss_status x = AgentSessionStatusClosed"
    using x(2) by (cases "ss_status x") (auto simp: session_rank_def)
  ultimately show ?thesis using differs old(2) by auto
qed

text \<open>
  Binding a provider session completes a rollover: when \<open>BindProviderSession\<close> succeeds the run was live,
  it is bound to a session of its own agent and of the provider, and, when it still replaces an older
  session, that session is another one, is closed, and the completion event of the run is recorded.
\<close>

theorem binding_completes_rollover:
  assumes "bind_provider_session e d i = Inr (d', s)"
    and "keyed ss_id (sessions d)"
  shows "\<exists>r r'. row_by rn_id (bi_run i) (runs d) = Some r \<and> rn_finished r = None \<and>
           is_active_agent_run_status (rn_status r) \<and>
           row_by rn_id (bi_run i) (runs d') = Some r' \<and> rn_session r' = Some (ss_id s) \<and>
           ss_agent s = rn_agent r \<and> ss_provider s = bi_provider i \<and>
           (\<forall>from. rn_rollover r' = Some from \<longrightarrow>
              from \<noteq> ss_id s \<and> has_event d' (bi_run i) SessionRolloverCompleted \<and>
              (\<exists>old. row_by ss_id from (sessions d') = Some old \<and> ss_status old = AgentSessionStatusClosed))"
  using assms(1)
proof (cases rule: bind_provider_cases)
  case (1 r pred d1 converged d3)
  have r: "row_by rn_id (bi_run i) (runs d) = Some r" "rn_id r = bi_run i"
    using 1(1) row_by_key [of rn_id "bi_run i" "runs d"] by (auto simp: lock_agent_run_def split: if_splits option.splits)
  have up: "s \<in> set (sessions d1)" "ss_agent s = rn_agent r" "ss_provider s = bi_provider i" "runs d1 = runs d"
    using upsert_row [OF 1(5)] by simp_all
  let ?r = "r\<lparr>rn_session := Some (ss_id s), rn_transcript := or_else (nullable (bi_transcript i)) (rn_transcript r),
             rn_rollover := (if converged then None else rn_rollover r), rn_updated := clock e\<rparr>"
  let ?d2 = "bind_run e r s (bi_transcript i) converged d1"
  have d3: "runs d3 = runs ?d2" "sessions d3 = sessions ?d2"
    using 1(8) bind_node_frame by (auto split: if_splits)
  have runs3: "row_by rn_id (bi_run i) (runs d3) = Some ?r"
    unfolding d3(1) bind_run_def set_run_def fst_conv rdb.simps up(4)
    using r by (simp add: run_row_update)
  have runs': "runs d' = runs d3" using 1(9) by (auto simp: complete_frame split: option.splits)
  have done_: "from \<noteq> ss_id s \<and> has_event d' (bi_run i) SessionRolloverCompleted \<and>
      (\<exists>old. row_by ss_id from (sessions d') = Some old \<and> ss_status old = AgentSessionStatusClosed)"
    if roll: "rn_rollover ?r = Some from" for "from"
  proof -
    have conv: "\<not> converged" and "from": "rn_rollover r = Some from" using roll by (simp_all split: if_splits)
    have "pred \<noteq> None"
      using 1(4) "from" by (cases "owned_session d from (rn_agent r) (bi_provider i)") (auto simp: predecessor_def mismatch_def)
    then obtain old where pred: "pred = Some old" by blast
    have check: "rollover_check d1 r (bi_provider i) old s = Inr converged" using 1(7) by (simp add: pred)
    have d': "d' = complete_rollover e (rn_id r) (bi_provider i) old s d3" using 1(9) conv by (simp add: pred)
    have "sessions d3 = sessions d1" by (simp add: d3(2) bind_run_def set_run_def)
    from replaced_session_closed [OF 1(4) [unfolded pred] "from" assms(2) tx_upsert [OF 1(5)] check this]
    show ?thesis
      using complete_frame(2) [of e "rn_id r" "bi_provider i" old s d3] by (simp add: d' r(2))
  qed
  show ?thesis
    by (rule exI [of _ r], rule exI [of _ ?r])
      (use r 1(2,3) runs3 up done_ in \<open>simp add: runs'\<close>)
qed

definition ex_rolling :: rdb where
  "ex_rolling = ex_rdb\<lparr>sessions := [ex_session\<lparr>ss_status := AgentSessionStatusRolloverPending\<rparr>],
     runs := [ex_run\<lparr>rn_rollover := Some ''s1'', rn_status := AgentRunStatusRunning\<rparr>]\<rparr>"

definition ex_binding :: bind_provider_input where
  "ex_binding = \<lparr>bi_run = ''r1'', bi_agent = ''a1'', bi_provider = ''claude'', bi_external = ''x2'',
                 bi_transcript = [], bi_title = [], bi_node = []\<rparr>"

theorem binding_completes_rollover_witness:
  "(case bind_provider_session ex_renv ex_rolling ex_binding of
      Inl _ \<Rightarrow> False
    | Inr (d', s) \<Rightarrow> (\<exists>old. row_by ss_id ''s1'' (sessions d') = Some old \<and> ss_status old = AgentSessionStatusClosed))"
proof -
  have a: "case bind_provider_session ex_renv ex_rolling ex_binding of Inl _ \<Rightarrow> False
      | Inr (d', s) \<Rightarrow> map_option rn_rollover (row_by rn_id ''r1'' (runs d')) = Some (Some ''s1'')" by code_simp
  then obtain d' s where b: "bind_provider_session ex_renv ex_rolling ex_binding = Inr (d', s)"
    and roll: "map_option rn_rollover (row_by rn_id ''r1'' (runs d')) = Some (Some ''s1'')"
    by (auto split: sum.splits)
  have "keyed ss_id (sessions ex_rolling)" by (simp add: ex_rolling_def keyed_def)
  from binding_completes_rollover [OF b this] roll
  have "\<exists>old. row_by ss_id ''s1'' (sessions d') = Some old \<and> ss_status old = AgentSessionStatusClosed"
    by (auto simp: ex_binding_def)
  then show ?thesis by (simp add: b)
qed

section \<open>Where the budget arithmetic wraps\<close>

definition wrap_env :: "id \<Rightarrow> renv" where
  "wrap_env x = ex_renv\<lparr>new_id := x\<rparr>"

definition wrap_life :: "(renv \<times> run_op) list" where
  "wrap_life =
     [(ex_renv, OpSaveUserBudget ''u1'' \<lparr>sb_enabled = True, sb_limit = 250000\<rparr>),
      (wrap_env ''n1'', OpStartRun ex_start), (wrap_env ''n2'', OpStartRun ex_start),
      (ex_renv, OpBackendStarted ''n1''), (ex_renv, OpBackendStarted ''n2''),
      (ex_renv, OpFinish \<lparr>fi_run = ''n1'', fi_status = AgentRunStatusCompleted, fi_activity = [],
                          fi_usage = UsageTokens max_int64 0 0 0\<rparr>),
      (ex_renv, OpFinish \<lparr>fi_run = ''n2'', fi_status = AgentRunStatusCompleted, fi_activity = [],
                          fi_usage = UsageTokens 0 0 0 0\<rparr>)]"

definition wrap_rdb :: rdb where
  "wrap_rdb = foldl run_step (empty_rdb\<lparr>owned_agents := ex_agents, trials := []\<rparr>) wrap_life"

text \<open>
  The sum of what a scope has used is not checked for overflow: after a run that reports 2^63 - 1
  tokens and a run that reports none (its 100000 reserved tokens stay accounted), \<open>scopeUsage\<close> adds the
  two with wrap-around, the total is negative, and a third run of an owner with a limit of 250000 tokens is
  started although far more has been used.
\<close>

theorem budget_sum_can_wrap:
  "250000 < actual_sum wrap_rdb ''u1'' [] 50 + unknown_sum wrap_rdb ''n1'' 50 \<and>
   map bp_limit (policies wrap_rdb) = [250000] \<and>
   (case start_run_tx (wrap_env ''n3'') wrap_rdb ex_start of Inl _ \<Rightarrow> False | Inr _ \<Rightarrow> True)"
  by code_simp

end
