(* ===== verification/Remote_Run.thy ===== *)
theory Remote_Run
  imports Session_Rollover "HOL-Library.Product_Lexorder"
begin

text \<open>
  Delivery of runs to remote computers (\<open>service/remote_run.go\<close>, the leases of
  \<open>service/daemon_control.go\<close>, migration 000040). A run is queued with its payload; the computer that holds
  the control lease accepts it, which gives it an execution attempt; the events of the attempt are stored
  once per sequence number and streamed to whoever follows the task.

  The delivery columns of \<open>agent_runs\<close> are rows of their own (\<open>delivery_row\<close>, one per run); whether the run
  is finished is read from its row of the run tables. A stored payload is the request it decodes to.
\<close>

section \<open>State\<close>

definition contextRolloverCapability :: string where
  "contextRolloverCapability = ''context_rollover_v1''"

definition RunSnapshotCapability :: string where "RunSnapshotCapability = ''run_snapshot_v1''"
definition BundleCapability :: string where "BundleCapability = ''skill_bundle_v1''"

definition continuityMessagePrefix :: string where
  "continuityMessagePrefix = ''# Session Continuity''"

definition remoteRunDeliveryTTL :: time where
  "remoteRunDeliveryTTL = 24 * 3600 * 10 ^ 9"

definition controlLeaseGracePeriod :: time where
  "controlLeaseGracePeriod = 45 * 10 ^ 9"

record prompt_message =
  pm_system :: bool
  pm_content :: string
  pm_sender :: string

record task_payload =
  tp_task :: id
  tp_run :: id
  tp_agent :: id
  tp_channel :: id
  tp_provider :: string
  tp_node :: id
  tp_origin_task :: id
  tp_resume :: string
  tp_fresh :: bool
  tp_retire :: string
  tp_code_review :: bool
  tp_team_version :: string
  tp_skills :: "string list"
  tp_messages :: "prompt_message list"
  tp_cold_start :: "prompt_message list"
  tp_context :: string

text \<open>\<open>None\<close> as a payload stands for the empty document, which has no task id.\<close>

record delivery_row =
  dv_run :: id
  dv_computer :: "id option"
  dv_payload :: "task_payload option"
  dv_expires :: time
  dv_attempt :: "id option"
  dv_accepted :: "time option"
  dv_count :: int

record delivery_event_row =
  de_run :: id
  de_task :: id
  de_attempt :: id
  de_seq :: int
  de_event :: string
  de_data :: string
  de_created :: time

record remote_db =
  r_tables :: rdb
  run_deliveries :: "delivery_row list"
  delivery_events :: "delivery_event_row list"

record control_state =
  control_connections :: "id \<Rightarrow> string option"
  control_grace :: "id \<Rightarrow> (string \<times> time) option"

datatype remote_error =
    ErrRemoteRunNotFound | ErrRemoteRunExpired | ErrRemoteRunAttempt | ErrStaleControlLease
  | ErrRemoteRequest string | ErrRemoteRuntime string | ErrRemoteRun run_error | ErrRemoteToken

text \<open>
  What a delivery depends on beyond these tables: the capabilities the in-memory registry has for a
  computer, the summary of open tasks and the continuity packet the agent service composes from other
  tables, and the JWT signer.
\<close>

record remote_env = renv +
  daemon_capabilities :: "id \<Rightarrow> string list option"
  open_tasks_summary :: "id \<Rightarrow> string"
  continuity_packet :: "id \<Rightarrow> id \<Rightarrow> id \<Rightarrow> run_error + string"
  sign_token :: "id \<Rightarrow> string \<Rightarrow> id \<Rightarrow> id \<Rightarrow> string option"

section \<open>The control lease of a computer\<close>

definition new_control :: control_state where
  "new_control = \<lparr>control_connections = (\<lambda>_. None), control_grace = (\<lambda>_. None)\<rparr>"

text \<open>
  Connections are told apart by their ids, fresh UUIDs. Registering returns the connection that is
  replaced.
\<close>

definition register_control :: "id \<Rightarrow> string \<Rightarrow> control_state \<Rightarrow> string option \<times> control_state" where
  "register_control cid conn cs =
     (control_connections cs cid,
      cs\<lparr>control_connections := (control_connections cs)(cid := Some conn),
         control_grace := (control_grace cs)(cid := None)\<rparr>)"

definition unregister_control :: "time \<Rightarrow> id \<Rightarrow> string \<Rightarrow> control_state \<Rightarrow> bool \<times> control_state" where
  "unregister_control instant cid conn cs =
     (if control_connections cs cid \<noteq> Some conn then (False, cs)
      else (True, cs\<lparr>control_connections := (control_connections cs)(cid := None),
                     control_grace := (control_grace cs)(cid := Some (conn, instant + controlLeaseGracePeriod))\<rparr>))"

definition disconnect_computer :: "id \<Rightarrow> control_state \<Rightarrow> control_state" where
  "disconnect_computer cid cs =
     cs\<lparr>control_connections := (control_connections cs)(cid := None),
        control_grace := (control_grace cs)(cid := None)\<rparr>"

definition authorize_control_lease :: "time \<Rightarrow> id \<Rightarrow> string \<Rightarrow> control_state \<Rightarrow> bool" where
  "authorize_control_lease instant cid conn cs \<longleftrightarrow>
     control_connections cs cid = Some conn \<or>
     (case control_grace cs cid of
        Some (c, until) \<Rightarrow> c = conn \<and> instant < until
      | None \<Rightarrow> False)"

definition is_current_control_connection :: "id \<Rightarrow> string \<Rightarrow> control_state \<Rightarrow> bool" where
  "is_current_control_connection cid conn cs \<longleftrightarrow> control_connections cs cid = Some conn"

section \<open>Queueing and accepting\<close>

definition run_open :: "remote_db \<Rightarrow> id \<Rightarrow> bool" where
  "run_open d rid = (case row_by rn_id rid (runs (r_tables d)) of None \<Rightarrow> False | Some r \<Rightarrow> rn_finished r = None)"

definition set_delivery :: "id \<Rightarrow> (delivery_row \<Rightarrow> delivery_row) \<Rightarrow> remote_db \<Rightarrow> remote_db" where
  "set_delivery rid f d = d\<lparr>run_deliveries := update_where (\<lambda>v. dv_run v = rid) f (run_deliveries d)\<rparr>"

text \<open>\<open>QueueRemoteRun\<close>: the task the run executes.\<close>

definition queue_remote_run ::
  "time \<Rightarrow> id \<Rightarrow> task_payload \<Rightarrow> remote_db \<Rightarrow> remote_error + remote_db \<times> id" where
  "queue_remote_run instant computer p d =
     (if tp_run p = [] \<or> tp_task p = [] then Inl (ErrRemoteRequest ''remote Run requires run_id and task_id'')
      else if \<not> run_open d (tp_run p) then Inl ErrRemoteRunNotFound
      else Inr (set_delivery (tp_run p)
                  (\<lambda>v. v\<lparr>dv_computer := Some computer, dv_payload := Some p,
                         dv_expires := instant + remoteRunDeliveryTTL, dv_attempt := None, dv_accepted := None\<rparr>) d,
                tp_task p))"

definition run_started :: "remote_db \<Rightarrow> id \<Rightarrow> time" where
  "run_started d rid = (case row_by rn_id rid (runs (r_tables d)) of None \<Rightarrow> 0 | Some r \<Rightarrow> rn_started r)"

definition pending_remote_runs :: "time \<Rightarrow> id \<Rightarrow> remote_db \<Rightarrow> id list" where
  "pending_remote_runs instant computer d =
     map snd (sort_key id (map (\<lambda>v. (run_started d (dv_run v), dv_run v))
       (filter (\<lambda>v. dv_computer v = Some computer \<and> run_open d (dv_run v) \<and> dv_attempt v = None \<and>
          dv_expires v > instant) (run_deliveries d))))"

definition has_capability :: "string list \<Rightarrow> string \<Rightarrow> bool" where
  "has_capability caps c \<longleftrightarrow> c \<in> set caps"

definition remote_daemon_capabilities :: "string list \<Rightarrow> string list" where
  "remote_daemon_capabilities reported =
     foldl (\<lambda>caps c. if c \<noteq> [] \<and> \<not> has_capability caps c then caps @ [c] else caps) [''llm''] reported"

definition validate_revision_runtime :: "task_payload \<Rightarrow> string list \<Rightarrow> string option" where
  "validate_revision_runtime p caps =
     (if (tp_team_version p \<noteq> [] \<or> tp_skills p \<noteq> []) \<and> \<not> has_capability caps RunSnapshotCapability
      then Some ''Computer requires run_snapshot_v1; upgrade the Daemon''
      else if tp_skills p \<noteq> [] \<and> \<not> has_capability caps BundleCapability
      then Some ''Computer requires skill_bundle_v1; upgrade the Daemon''
      else None)"

definition apply_session_dispatch ::
  "('b) remote_env_scheme \<Rightarrow> task_payload \<Rightarrow> session_dispatch \<Rightarrow> run_error + task_payload" where
  "apply_session_dispatch e p s =
     (let kept = filter (\<lambda>m. \<not> (pm_system m \<and> has_prefix continuityMessagePrefix (pm_content m))) (tp_cold_start p);
          p1 = p\<lparr>tp_resume := sd_resume s, tp_fresh := sd_fresh s, tp_retire := sd_retire s, tp_cold_start := kept\<rparr>
      in if tp_node p \<noteq> [] then Inr p1
         else
           (let p2 = p1\<lparr>tp_context := open_tasks_summary e (tp_channel p)\<rparr>
            in if \<not> sd_cold s then Inr p2
               else
                 (case continuity_packet e (tp_agent p) (tp_channel p) (tp_origin_task p) of
                    Inl err \<Rightarrow> Inl err
                  | Inr packet \<Rightarrow>
                      if packet = [] then Inr p2
                      else Inr (p2\<lparr>tp_cold_start :=
                             \<lparr>pm_system = True, pm_content = packet, pm_sender = ''system''\<rparr> #
                             (if kept = [] then tp_messages p else kept)\<rparr>))))"

record remote_delivery =
  rd_run :: id
  rd_task :: id
  rd_attempt :: id
  rd_payload :: task_payload
  rd_token :: string

definition fill_payload :: "id \<Rightarrow> id \<Rightarrow> string \<Rightarrow> task_payload \<Rightarrow> task_payload" where
  "fill_payload agent channel provider p =
     p\<lparr>tp_agent := (if tp_agent p = [] then agent else tp_agent p),
       tp_channel := (if tp_channel p = [] then channel else tp_channel p),
       tp_provider := (if tp_provider p = [] then provider else tp_provider p)\<rparr>"

definition dispatch_payload ::
  "('b) remote_env_scheme \<Rightarrow> string list \<Rightarrow> id \<Rightarrow> id \<Rightarrow> task_payload \<Rightarrow> rdb \<Rightarrow> remote_error + rdb \<times> task_payload" where
  "dispatch_payload e caps rid agent p d =
     (if tp_code_review p \<or> tp_channel p = [] \<or> tp_provider p = [] then Inr (d, p)
      else
        (case resolve_session_dispatch (renv.truncate e) d
                \<lparr>di_run = rid, di_agent = agent, di_channel = tp_channel p, di_provider = tp_provider p,
                 di_node = tp_node p, di_resume = tp_resume p, di_force_fresh = tp_fresh p,
                 di_supports_rollover = has_capability caps contextRolloverCapability\<rparr> of
           Inl err \<Rightarrow> Inl (ErrRemoteRun err)
         | Inr (d', s) \<Rightarrow>
             (case apply_session_dispatch e p s of
                Inl err \<Rightarrow> Inl (ErrRemoteRun err)
              | Inr p' \<Rightarrow> Inr (d', p'))))"

text \<open>
  \<open>AcceptRemoteRun\<close>: the row its query joins (a run without its agent, finished or of another computer is
  not found), what it writes, and the transaction. \<open>new_id\<close> is the attempt a first acceptance is given. The
  lease check is not part of the transaction.
\<close>

definition delivery_join :: "remote_db \<Rightarrow> id \<Rightarrow> id \<Rightarrow> (delivery_row \<times> run_row \<times> agent_row) option" where
  "delivery_join d computer rid =
     (case (find (\<lambda>v. dv_run v = rid \<and> dv_computer v = Some computer) (run_deliveries d),
            find (\<lambda>r. rn_id r = rid \<and> rn_finished r = None) (runs (r_tables d))) of
        (Some v, Some r) \<Rightarrow>
          (case row_by a_id (rn_agent r) (owned_agents (r_tables d)) of
             None \<Rightarrow> None
           | Some a \<Rightarrow> Some (v, r, a))
      | _ \<Rightarrow> None)"

definition accept_write :: "('b) remote_env_scheme \<Rightarrow> delivery_row \<Rightarrow> task_payload \<Rightarrow> rdb \<Rightarrow> remote_db \<Rightarrow> remote_db" where
  "accept_write e v p t d =
     set_delivery (dv_run v)
       (\<lambda>w. if coalesce (dv_attempt v) = []
            then w\<lparr>dv_payload := Some p, dv_attempt := Some (new_id e), dv_accepted := Some (clock e),
                   dv_count := dv_count w + 1\<rparr>
            else w\<lparr>dv_payload := Some p\<rparr>) (d\<lparr>r_tables := t\<rparr>)"

definition accept_tx ::
  "('b) remote_env_scheme \<Rightarrow> id \<Rightarrow> id \<Rightarrow> remote_db \<Rightarrow> remote_error + remote_db \<times> remote_delivery" where
  "accept_tx e computer rid d =
     (case delivery_join d computer rid of
        None \<Rightarrow> Inl ErrRemoteRunNotFound
      | Some (v, r, a) \<Rightarrow>
     if clock e > dv_expires v then Inl ErrRemoteRunExpired
     else
     (case dv_payload v of
        None \<Rightarrow> Inl (ErrRemoteRequest ''stored Run payload is invalid'')
      | Some p0 \<Rightarrow>
     if tp_task p0 = [] then Inl (ErrRemoteRequest ''stored Run payload is invalid'')
     else
     (let caps = (case daemon_capabilities e computer of None \<Rightarrow> [] | Some c \<Rightarrow> c)
      in case validate_revision_runtime p0 caps of
        Some msg \<Rightarrow> Inl (ErrRemoteRuntime msg)
      | None \<Rightarrow>
     (case dispatch_payload e caps rid (rn_agent r)
             (fill_payload (rn_agent r) (coalesce (scope_channel (rn_scope r))) (coalesce (rn_source r)) p0)
             (r_tables d) of
        Inl err \<Rightarrow> Inl err
      | Inr (t, p) \<Rightarrow>
     (case sign_token e (rn_agent r) (a_name a) rid computer of
        None \<Rightarrow> Inl ErrRemoteToken
      | Some token \<Rightarrow>
          Inr (accept_write e v p t d,
               \<lparr>rd_run = rid, rd_task = tp_task p0,
                rd_attempt = (if coalesce (dv_attempt v) = [] then new_id e else coalesce (dv_attempt v)),
                rd_payload = p, rd_token = token\<rparr>))))))"

definition accept_remote_run ::
  "('b) remote_env_scheme \<Rightarrow> control_state \<Rightarrow> id \<Rightarrow> id \<Rightarrow> string \<Rightarrow> remote_db \<Rightarrow>
   remote_error + remote_db \<times> remote_delivery" where
  "accept_remote_run e cs computer rid conn d =
     (if \<not> authorize_control_lease (clock e) computer conn cs then Inl ErrStaleControlLease
      else accept_tx e computer rid d)"

section \<open>Events\<close>

record remote_event_input =
  ri_task :: id
  ri_attempt :: id
  ri_connection :: string
  ri_seq :: int
  ri_event :: string
  ri_data :: string

definition attempt_current :: "remote_db \<Rightarrow> id \<Rightarrow> id \<Rightarrow> id \<Rightarrow> id \<Rightarrow> bool" where
  "attempt_current d rid computer att task \<longleftrightarrow>
     exists_row (\<lambda>v. dv_run v = rid \<and> dv_computer v = Some computer \<and> dv_attempt v = Some att \<and>
        (case dv_payload v of None \<Rightarrow> False | Some p \<Rightarrow> tp_task p = task)) (run_deliveries d)"

definition event_stored :: "remote_db \<Rightarrow> id \<Rightarrow> id \<Rightarrow> int \<Rightarrow> bool" where
  "event_stored d rid att n \<longleftrightarrow>
     exists_row (\<lambda>x. de_run x = rid \<and> de_attempt x = att \<and> de_seq x = n) (delivery_events d)"

text \<open>
  \<open>AppendRemoteRunEvent\<close> checks in one statement (\<open>append_guard\<close>) and inserts in another
  (\<open>insert_delivery_event\<close>): the new database, and the event that goes to the live stream if this call stored
  it.
\<close>

definition append_guard ::
  "time \<Rightarrow> control_state \<Rightarrow> id \<Rightarrow> id \<Rightarrow> remote_event_input \<Rightarrow> remote_db \<Rightarrow> remote_error option" where
  "append_guard instant cs computer rid i d =
     (if ri_task i = [] \<or> ri_attempt i = [] \<or> ri_connection i = [] \<or> ri_seq i \<le> 0 \<or> ri_event i = []
      then Some (ErrRemoteRequest ''incomplete remote Run event'')
      else if \<not> authorize_control_lease instant computer (ri_connection i) cs then Some ErrStaleControlLease
      else if \<not> attempt_current d rid computer (ri_attempt i) (ri_task i) then Some ErrRemoteRunAttempt
      else None)"

definition event_row :: "time \<Rightarrow> id \<Rightarrow> remote_event_input \<Rightarrow> delivery_event_row" where
  "event_row instant rid i =
     \<lparr>de_run = rid, de_task = ri_task i, de_attempt = ri_attempt i, de_seq = ri_seq i, de_event = ri_event i,
      de_data = (if ri_data i = [] then ''{}'' else ri_data i), de_created = instant\<rparr>"

definition insert_delivery_event ::
  "time \<Rightarrow> id \<Rightarrow> remote_event_input \<Rightarrow> remote_db \<Rightarrow> remote_db \<times> delivery_event_row option" where
  "insert_delivery_event instant rid i d =
     (if event_stored d rid (ri_attempt i) (ri_seq i) then (d, None)
      else (d\<lparr>delivery_events := delivery_events d @ [event_row instant rid i]\<rparr>, Some (event_row instant rid i)))"

definition append_remote_run_event ::
  "time \<Rightarrow> control_state \<Rightarrow> id \<Rightarrow> id \<Rightarrow> remote_event_input \<Rightarrow> remote_db \<Rightarrow>
   remote_error + remote_db \<times> delivery_event_row option" where
  "append_remote_run_event instant cs computer rid i d =
     (case append_guard instant cs computer rid i d of
        Some err \<Rightarrow> Inl err
      | None \<Rightarrow> Inr (insert_delivery_event instant rid i d))"

text \<open>\<open>reconcileRemoteConnection\<close>: an attempt the computer does not know any more is taken back.\<close>

fun active_by_run :: "(id \<times> id) list \<Rightarrow> id \<Rightarrow> id" where
  "active_by_run [] rid = []"
| "active_by_run ((r, a) # rest) rid = (if rid \<in> fst ` set rest then active_by_run rest rid
                                         else if r = rid then a else active_by_run rest rid)"

definition reconcile_attempts :: "id \<Rightarrow> (id \<times> id) list \<Rightarrow> remote_db \<Rightarrow> remote_db" where
  "reconcile_attempts computer active d =
     d\<lparr>run_deliveries :=
         update_where
           (\<lambda>v. dv_computer v = Some computer \<and> run_open d (dv_run v) \<and> dv_attempt v \<noteq> None \<and>
                active_by_run active (dv_run v) \<noteq> coalesce (dv_attempt v))
           (\<lambda>v. v\<lparr>dv_attempt := None, dv_accepted := None\<rparr>) (run_deliveries d)\<rparr>"

section \<open>Streams\<close>

text \<open>
  \<open>SubscribeRemoteTask\<close> registers a stream, then reads the stored events of the task; \<open>pump\<close> delivers those
  and then what arrives, each attempt and number once, until a terminal event.
\<close>

definition stored_history :: "id \<Rightarrow> remote_db \<Rightarrow> delivery_event_row list" where
  "stored_history task d =
     sort_key (\<lambda>x. (de_created x, de_seq x)) (filter (\<lambda>x. de_task x = task) (delivery_events d))"

definition terminal_event :: "string \<Rightarrow> bool" where
  "terminal_event ev \<longleftrightarrow> ev = ''done'' \<or> ev = ''error'' \<or> ev = ''complete''"

fun pump :: "(id \<times> int) list \<Rightarrow> delivery_event_row list \<Rightarrow> delivery_event_row list" where
  "pump seen [] = []"
| "pump seen (x # xs) =
     (if (de_attempt x, de_seq x) \<in> set seen then pump seen xs
      else if terminal_event (de_event x) then [x]
      else x # pump ((de_attempt x, de_seq x) # seen) xs)"

end
