(* ===== verification/Daemon_Tasks.thy ===== *)
theory Daemon_Tasks
  imports Go_Prelude "HOL-Library.AList" "HOL-Library.Multiset"
begin

text \<open>
  The task registry of the daemon (\<open>src/cmd/daemon/task.go\<close>): the tasks it executes, the bounded
  history of their events, the live subscribers and the turn of each agent.

  Every method of \<open>taskManager\<close> holds its mutex for the whole body, so a method is one step; the two
  exceptions are \<open>SubscribeSSE\<close>, which reads the capacity and attaches in two critical sections, and
  \<open>CancelTask\<close>. A subscriber is shared by pointer between the registry and the goroutine that reads it:
  subscribers live in a heap (\<open>sub_heap\<close>) and the registry keeps their addresses. A Go channel is the list
  of what its buffer holds. A method that can block for ever or panic returns an \<open>outcome\<close>. The map of
  tasks is an association list, whose order stands for the arbitrary order of a Go \<open>range\<close>.
\<close>

section \<open>State\<close>

definition maxTaskEventHistoryBytes :: int where
  "maxTaskEventHistoryBytes = 16 * 2 ^ 20"

definition taskStatusQueued :: string where "taskStatusQueued = ''queued''"
definition taskStatusRunning :: string where "taskStatusRunning = ''running''"
definition taskStatusThinking :: string where "taskStatusThinking = ''thinking''"
definition taskStatusCompleted :: string where "taskStatusCompleted = ''completed''"
definition taskStatusFailed :: string where "taskStatusFailed = ''failed''"
definition taskStatusCancelled :: string where "taskStatusCancelled = ''cancelled''"

lemmas daemon_status_defs =
  taskStatusQueued_def taskStatusRunning_def taskStatusThinking_def
  taskStatusCompleted_def taskStatusFailed_def taskStatusCancelled_def

record task_state =
  ts_task :: string
  ts_run :: string
  ts_agent :: string
  ts_channel :: string
  ts_thread :: string
  ts_node :: string
  ts_status :: string
  ts_result :: string
  ts_error :: string
  ts_received :: time
  ts_completed :: "time option"
  ts_attempt :: string
  ts_token :: string
  ts_forwarding :: bool

record sse_event =
  ev_event :: string
  ev_data :: string
  ev_seq :: int

record sse_subscriber =
  sb_capacity :: nat
  sb_buffer :: "sse_event list"
  sb_closed :: bool
  sb_done :: bool

record task_manager =
  tm_tasks :: "(string \<times> task_state) list"
  tm_subscribers :: "string \<Rightarrow> nat list"
  tm_history :: "string \<Rightarrow> sse_event list"
  tm_bytes :: "string \<Rightarrow> int"
  tm_next_seq :: "string \<Rightarrow> int"
  tm_cancels :: "string \<Rightarrow> nat option"
  tm_turns :: "string \<Rightarrow> nat option"
  sub_heap :: "sse_subscriber list"

text \<open>\<open>newTaskManager\<close>; reading an absent key of a Go map gives the zero value of its type.\<close>

definition new_task_manager :: task_manager where
  "new_task_manager =
     \<lparr>tm_tasks = [], tm_subscribers = (\<lambda>_. []), tm_history = (\<lambda>_. []), tm_bytes = (\<lambda>_. 0),
      tm_next_seq = (\<lambda>_. 0), tm_cancels = (\<lambda>_. None), tm_turns = (\<lambda>_. None), sub_heap = []\<rparr>"

datatype 'a outcome = Goes 'a | Blocks | Panics

section \<open>Tasks and delivery attempts\<close>

definition active_attempts :: "task_manager \<Rightarrow> (string \<times> string) list" where
  "active_attempts tm =
     map (\<lambda>(k, t). (ts_run t, ts_attempt t)) (filter (\<lambda>(k, t). ts_attempt t \<noteq> []) (tm_tasks tm))"

definition add_task :: "string \<Rightarrow> task_state \<Rightarrow> task_manager \<Rightarrow> bool \<times> task_manager" where
  "add_task tid s tm =
     (case map_of (tm_tasks tm) tid of
        Some old \<Rightarrow>
          if ts_attempt old = ts_attempt s then (False, tm)
          else (True, tm\<lparr>tm_tasks := AList.update tid s (tm_tasks tm)\<rparr>)
      | None \<Rightarrow> (True, tm\<lparr>tm_tasks := AList.update tid s (tm_tasks tm)\<rparr>))"

definition known_task :: "string \<Rightarrow> task_manager \<Rightarrow> task_state option" where
  "known_task tid tm = map_of (tm_tasks tm) tid"

definition begin_forward :: "string \<Rightarrow> string \<Rightarrow> task_manager \<Rightarrow> bool \<times> task_manager" where
  "begin_forward tid att tm =
     (case map_of (tm_tasks tm) tid of
        None \<Rightarrow> (False, tm)
      | Some t \<Rightarrow>
          if ts_attempt t \<noteq> att \<or> ts_forwarding t then (False, tm)
          else (True, tm\<lparr>tm_tasks := AList.update tid (t\<lparr>ts_forwarding := True\<rparr>) (tm_tasks tm)\<rparr>))"

definition end_forward :: "string \<Rightarrow> string \<Rightarrow> bool \<Rightarrow> task_manager \<Rightarrow> task_manager" where
  "end_forward tid att was_delivered tm =
     (case map_of (tm_tasks tm) tid of
        None \<Rightarrow> tm
      | Some t \<Rightarrow>
          if ts_attempt t \<noteq> att then tm
          else if was_delivered then
            tm\<lparr>tm_tasks := AList.delete tid (tm_tasks tm),
               tm_history := (tm_history tm)(tid := []),
               tm_bytes := (tm_bytes tm)(tid := 0),
               tm_next_seq := (tm_next_seq tm)(tid := 0)\<rparr>
          else tm\<lparr>tm_tasks := AList.update tid (t\<lparr>ts_forwarding := False\<rparr>) (tm_tasks tm)\<rparr>)"

definition update_status :: "time \<Rightarrow> string \<Rightarrow> string \<Rightarrow> task_manager \<Rightarrow> task_manager" where
  "update_status at_time tid st tm =
     (case map_of (tm_tasks tm) tid of
        None \<Rightarrow> tm
      | Some t \<Rightarrow>
          tm\<lparr>tm_tasks := AList.update tid
               (if st = taskStatusCompleted \<or> st = taskStatusFailed \<or> st = taskStatusCancelled
                then t\<lparr>ts_status := st, ts_completed := Some at_time\<rparr>
                else t\<lparr>ts_status := st\<rparr>) (tm_tasks tm)\<rparr>)"

definition is_active :: "task_state \<Rightarrow> bool" where
  "is_active t \<longleftrightarrow>
     ts_status t = taskStatusQueued \<or> ts_status t = taskStatusRunning \<or> ts_status t = taskStatusThinking"

definition list_active_tasks :: "task_manager \<Rightarrow> string list" where
  "list_active_tasks tm = map fst (filter (\<lambda>(k, t). is_active t) (tm_tasks tm))"

definition list_task_ids :: "task_manager \<Rightarrow> string list" where
  "list_task_ids tm = map fst (tm_tasks tm)"

definition active_task_count :: "task_manager \<Rightarrow> nat" where
  "active_task_count tm = length (list_active_tasks tm)"

fun active_agents_loop :: "string list \<Rightarrow> (string \<times> task_state) list \<Rightarrow> string list" where
  "active_agents_loop seen [] = []"
| "active_agents_loop seen ((k, t) # ts) =
     (if is_active t \<and> ts_agent t \<notin> set seen
      then ts_agent t # active_agents_loop (ts_agent t # seen) ts
      else active_agents_loop seen ts)"

definition active_agent_ids :: "task_manager \<Rightarrow> string list" where
  "active_agent_ids tm = active_agents_loop [] (tm_tasks tm)"

section \<open>The credential of a runtime scope\<close>

definition owns_scope :: "string \<Rightarrow> string \<Rightarrow> string \<Rightarrow> task_state \<Rightarrow> bool" where
  "owns_scope ag ch node t \<longleftrightarrow>
     ts_agent t = ag \<and> (ch = [] \<or> ts_channel t = ch) \<and> ts_node t = node \<and>
     (ts_status t = taskStatusRunning \<or> ts_status t = taskStatusThinking)"

fun credential_loop ::
  "string \<Rightarrow> string \<Rightarrow> string \<Rightarrow> string \<times> string \<Rightarrow> (string \<times> task_state) list \<Rightarrow> string \<times> string" where
  "credential_loop ag ch node (run, tok) [] = (run, tok)"
| "credential_loop ag ch node (run, tok) ((k, t) # ts) =
     (if \<not> owns_scope ag ch node t then credential_loop ag ch node (run, tok) ts
      else if run \<noteq> [] then ([], [])
      else credential_loop ag ch node (if ts_run t = [] then k else ts_run t, ts_token t) ts)"

definition executing_credential :: "string \<Rightarrow> string \<Rightarrow> string \<Rightarrow> task_manager \<Rightarrow> string \<times> string" where
  "executing_credential ag ch node tm = credential_loop ag ch node ([], []) (tm_tasks tm)"

definition executing_run_id :: "string \<Rightarrow> string \<Rightarrow> string \<Rightarrow> task_manager \<Rightarrow> string" where
  "executing_run_id ag ch node tm = fst (executing_credential ag ch node tm)"

section \<open>Events and subscribers\<close>

definition event_size :: "sse_event \<Rightarrow> int" where
  "event_size e = int (length (ev_event e)) + int (length (ev_data e)) + 16"

text \<open>The trimming loop of \<open>PushSSEEvent\<close>: the newest event always stays.\<close>

fun trim_history :: "int \<Rightarrow> sse_event list \<Rightarrow> int \<times> sse_event list" where
  "trim_history b [] = (b, [])"
| "trim_history b [e] = (b, [e])"
| "trim_history b (e # f # es) =
     (if b > maxTaskEventHistoryBytes then trim_history (b - event_size e) (f # es)
      else (b, e # f # es))"

text \<open>A send on a closed channel panics; \<open>select\<close> with a default drops the event when the buffer is full.\<close>

definition offer :: "sse_event \<Rightarrow> sse_subscriber \<Rightarrow> sse_subscriber" where
  "offer e s = (if length (sb_buffer s) < sb_capacity s then s\<lparr>sb_buffer := sb_buffer s @ [e]\<rparr> else s)"

fun offer_all :: "nat list \<Rightarrow> sse_event \<Rightarrow> sse_subscriber list \<Rightarrow> sse_subscriber list outcome" where
  "offer_all [] e h = Goes h"
| "offer_all (i # is) e h =
     (if sb_closed (h ! i) then Panics else offer_all is e (h[i := offer e (h ! i)]))"

definition stamped :: "string \<Rightarrow> sse_event \<Rightarrow> task_manager \<Rightarrow> sse_event" where
  "stamped tid e tm = (if ev_seq e = 0 then e\<lparr>ev_seq := i64 (tm_next_seq tm tid + 1)\<rparr> else e)"

definition push_event :: "string \<Rightarrow> sse_event \<Rightarrow> task_manager \<Rightarrow> task_manager outcome" where
  "push_event tid e tm =
     (let e' = stamped tid e tm;
          (b, es) = trim_history (tm_bytes tm tid + event_size e') (tm_history tm tid @ [e']);
          tm' = tm\<lparr>tm_next_seq :=
                     (if ev_seq e = 0 then (tm_next_seq tm)(tid := i64 (tm_next_seq tm tid + 1))
                      else tm_next_seq tm),
                   tm_history := (tm_history tm)(tid := es),
                   tm_bytes := (tm_bytes tm)(tid := b)\<rparr>
      in case offer_all (tm_subscribers tm tid) e' (sub_heap tm) of
           Goes h \<Rightarrow> Goes (tm'\<lparr>sub_heap := h\<rparr>) | Blocks \<Rightarrow> Blocks | Panics \<Rightarrow> Panics)"

definition events_after :: "string \<Rightarrow> int \<Rightarrow> task_manager \<Rightarrow> sse_event list" where
  "events_after tid s tm = filter (\<lambda>e. ev_seq e > s) (tm_history tm tid)"

text \<open>
  \<open>SubscribeSSE\<close> reads the capacity in one critical section and attaches in another. Attaching sends the
  history into the fresh channel while the mutex is held and nobody can receive yet: it blocks for ever
  when the history has outgrown the capacity in between.
\<close>

definition subscribe_capacity :: "string \<Rightarrow> task_manager \<Rightarrow> nat" where
  "subscribe_capacity tid tm = length (tm_history tm tid) + 64"

definition subscribe_attach :: "string \<Rightarrow> nat \<Rightarrow> task_manager \<Rightarrow> task_manager outcome" where
  "subscribe_attach tid cap tm =
     (if length (tm_history tm tid) > cap then Blocks
      else Goes (tm\<lparr>sub_heap := sub_heap tm @ [\<lparr>sb_capacity = cap, sb_buffer = tm_history tm tid,
                                               sb_closed = False, sb_done = False\<rparr>],
                    tm_subscribers := (tm_subscribers tm)(tid := tm_subscribers tm tid @ [length (sub_heap tm)])\<rparr>))"

text \<open>The reader of a subscriber takes the oldest event out of the buffer.\<close>

definition receive :: "nat \<Rightarrow> task_manager \<Rightarrow> task_manager" where
  "receive i tm =
     (if i < length (sub_heap tm)
      then tm\<lparr>sub_heap := (sub_heap tm)[i := (sub_heap tm ! i)\<lparr>sb_buffer := tl (sb_buffer (sub_heap tm ! i))\<rparr>]\<rparr>
      else tm)"

definition unsubscribe :: "string \<Rightarrow> nat \<Rightarrow> task_manager \<Rightarrow> task_manager outcome" where
  "unsubscribe tid i tm =
     (if i \<notin> set (tm_subscribers tm tid) then Goes tm
      else if sb_done (sub_heap tm ! i) then Panics
      else Goes (tm\<lparr>tm_subscribers := (tm_subscribers tm)(tid := remove1 i (tm_subscribers tm tid)),
                    sub_heap := (sub_heap tm)[i := (sub_heap tm ! i)\<lparr>sb_done := True\<rparr>]\<rparr>))"

fun close_subs :: "nat list \<Rightarrow> sse_subscriber list \<Rightarrow> sse_subscriber list outcome" where
  "close_subs [] h = Goes h"
| "close_subs (i # is) h =
     (if sb_closed (h ! i) then Panics else close_subs is (h[i := (h ! i)\<lparr>sb_closed := True\<rparr>]))"

definition close_all_subscribers :: "string \<Rightarrow> task_manager \<Rightarrow> task_manager outcome" where
  "close_all_subscribers tid tm =
     (case close_subs (tm_subscribers tm tid) (sub_heap tm) of
        Goes h \<Rightarrow> Goes (tm\<lparr>tm_subscribers := (tm_subscribers tm)(tid := []), sub_heap := h\<rparr>)
      | Blocks \<Rightarrow> Blocks | Panics \<Rightarrow> Panics)"

section \<open>Cancellation and turns\<close>

definition set_cancel_func :: "string \<Rightarrow> nat \<Rightarrow> task_manager \<Rightarrow> task_manager" where
  "set_cancel_func tid c tm = tm\<lparr>tm_cancels := (tm_cancels tm)(tid := Some c)\<rparr>"

definition clear_cancel_func :: "string \<Rightarrow> task_manager \<Rightarrow> task_manager" where
  "clear_cancel_func tid tm = tm\<lparr>tm_cancels := (tm_cancels tm)(tid := None)\<rparr>"

text \<open>The cancel function is taken out in one critical section and the status set in another.\<close>

definition cancel_take :: "string \<Rightarrow> task_manager \<Rightarrow> nat option \<times> task_manager" where
  "cancel_take tid tm = (tm_cancels tm tid, clear_cancel_func tid tm)"

definition cancel_task :: "time \<Rightarrow> string \<Rightarrow> task_manager \<Rightarrow> nat option \<times> task_manager" where
  "cancel_task at_time tid tm =
     (case cancel_take tid tm of
        (None, tm') \<Rightarrow> (None, tm')
      | (Some c, tm') \<Rightarrow> (Some c, update_status at_time tid taskStatusCancelled tm'))"

text \<open>
  The turn of an agent is a channel of capacity one, created holding its token. \<open>turn_channel\<close> is the
  critical section of \<open>acquireAgentTurn\<close>; \<open>take_turn\<close> the receive of its \<open>select\<close>, ready when the
  token is there; \<open>give_turn\<close> the release, a send that blocks while the token is there.
\<close>

definition turn_channel :: "string \<Rightarrow> task_manager \<Rightarrow> task_manager" where
  "turn_channel ag tm =
     (case tm_turns tm ag of None \<Rightarrow> tm\<lparr>tm_turns := (tm_turns tm)(ag := Some 1)\<rparr> | Some _ \<Rightarrow> tm)"

definition take_turn :: "string \<Rightarrow> task_manager \<Rightarrow> task_manager outcome" where
  "take_turn ag tm =
     (case tm_turns tm ag of
        Some (Suc n) \<Rightarrow> Goes (tm\<lparr>tm_turns := (tm_turns tm)(ag := Some n)\<rparr>)
      | _ \<Rightarrow> Blocks)"

definition give_turn :: "string \<Rightarrow> task_manager \<Rightarrow> task_manager outcome" where
  "give_turn ag tm =
     (case tm_turns tm ag of
        Some 0 \<Rightarrow> Goes (tm\<lparr>tm_turns := (tm_turns tm)(ag := Some 1)\<rparr>)
      | _ \<Rightarrow> Blocks)"

text \<open>
  When the context is done (\<open>ctx_done\<close>) and the token is there, both cases of the \<open>select\<close> are ready and
  Go picks one: \<open>pick_done\<close> is its choice.
\<close>

definition acquire_agent_turn ::
  "bool \<Rightarrow> bool \<Rightarrow> string \<Rightarrow> task_manager \<Rightarrow> (bool \<times> task_manager) outcome" where
  "acquire_agent_turn ctx_done pick_done ag tm =
     (let tm' = turn_channel ag tm
      in case take_turn ag tm' of
           Goes tm'' \<Rightarrow> if ctx_done \<and> pick_done then Goes (False, tm') else Goes (True, tm'')
         | Blocks \<Rightarrow> if ctx_done then Goes (False, tm') else Blocks
         | Panics \<Rightarrow> Panics)"

end
