(* ===== verification/Daemon_Machine.thy ===== *)
theory Daemon_Machine
  imports Daemon_Tasks
begin

text \<open>
  The machine of the daemon's registry: every method a goroutine may call, in any order, with the
  goroutines that hold an agent's turn as ghost state. The invariant \<open>registry_ok\<close> is what the methods rely
  on; the interpretation of \<open>op_machine\<close> gives it for every sequence of calls.
\<close>

datatype daemon_op =
    AddTask string task_state
  | BeginForward string string
  | EndForward string string bool
  | UpdateStatus time string string
  | PushSSEEvent string sse_event
  | SubscribeSSE string nat
  | Receive nat
  | UnsubscribeSSE string nat
  | CloseAllSubscribers string
  | SetCancelFunc string nat
  | ClearCancelFunc string

fun daemon_do :: "task_manager \<Rightarrow> daemon_op \<Rightarrow> task_manager outcome" where
  "daemon_do tm (AddTask tid s) = Goes (snd (add_task tid s tm))"
| "daemon_do tm (BeginForward tid att) = Goes (snd (begin_forward tid att tm))"
| "daemon_do tm (EndForward tid att dl) = Goes (end_forward tid att dl tm)"
| "daemon_do tm (UpdateStatus at_time tid st) = Goes (update_status at_time tid st tm)"
| "daemon_do tm (PushSSEEvent tid e) = push_event tid e tm"
| "daemon_do tm (SubscribeSSE tid cap) = subscribe_attach tid cap tm"
| "daemon_do tm (Receive i) = Goes (receive i tm)"
| "daemon_do tm (UnsubscribeSSE tid i) = unsubscribe tid i tm"
| "daemon_do tm (CloseAllSubscribers tid) = close_all_subscribers tid tm"
| "daemon_do tm (SetCancelFunc tid c) = Goes (set_cancel_func tid c tm)"
| "daemon_do tm (ClearCancelFunc tid) = Goes (clear_cancel_func tid tm)"

text \<open>A method that blocks does so with the mutex held: no method runs any more.\<close>

fun daemon_step :: "task_manager outcome \<Rightarrow> daemon_op \<Rightarrow> task_manager outcome" where
  "daemon_step (Goes tm) p = daemon_do tm p"
| "daemon_step Blocks p = Blocks"
| "daemon_step Panics p = Panics"

lemma blocked_run [simp]:
  "foldl daemon_step Blocks ops = Blocks"
  "foldl daemon_step Panics ops = Panics"
  by (induction ops) simp_all

section \<open>The trimmed history\<close>

abbreviation sizes :: "sse_event list \<Rightarrow> int" where
  "sizes es \<equiv> sum_list (map event_size es)"

lemma event_size_pos: "event_size e > 0"
  by (simp add: event_size_def)

lemma sizes_nonneg: "0 \<le> sizes es"
  by (rule sum_list_nonneg) (use event_size_pos in \<open>auto intro: less_imp_le\<close>)

lemma trim_history_spec:
  assumes "b = sizes es" and "trim_history b es = (b', es')"
  shows "\<exists>k. es' = drop k es \<and> b' = sizes es' \<and> (es \<noteq> [] \<longrightarrow> es' \<noteq> [] \<and> last es' = last es) \<and>
             (b' \<le> maxTaskEventHistoryBytes \<or> length es' \<le> 1) \<and> (b \<le> maxTaskEventHistoryBytes \<longrightarrow> k = 0)"
  using assms
proof (induction b es arbitrary: b' es' rule: trim_history.induct)
  case (1 b)
  then show ?case by (intro exI [of _ 0]) (simp add: maxTaskEventHistoryBytes_def)
next
  case (2 b e)
  then show ?case by (intro exI [of _ 0]) auto
next
  case (3 b e f es)
  show ?case
  proof (cases "b > maxTaskEventHistoryBytes")
    case True
    have "b - event_size e = sizes (f # es)" using 3(2) by simp
    moreover have "trim_history (b - event_size e) (f # es) = (b', es')" using 3(3) True by simp
    ultimately obtain k where "es' = drop k (f # es) \<and> b' = sizes es' \<and> (es' \<noteq> [] \<and> last es' = last (f # es)) \<and>
        (b' \<le> maxTaskEventHistoryBytes \<or> length es' \<le> 1)"
      using 3(1) [OF True, of b' es'] by blast
    then show ?thesis using True by (intro exI [of _ "Suc k"]) auto
  next
    case False
    then show ?thesis using 3 by (intro exI [of _ 0]) auto
  qed
qed

section \<open>The invariant\<close>

definition history_fits :: "int \<Rightarrow> sse_event list \<Rightarrow> bool" where
  "history_fits b es \<longleftrightarrow> b = sizes es \<and> (sizes es \<le> maxTaskEventHistoryBytes \<or> length es \<le> 1)"

definition history_ok :: "task_manager \<Rightarrow> bool" where
  "history_ok tm \<longleftrightarrow> (\<forall>tid. history_fits (tm_bytes tm tid) (tm_history tm tid))"

lemma history_fits_Nil [simp]: "history_fits 0 []"
  by (simp add: history_fits_def)

text \<open>Addresses of live subscribers: allocated, open, listed once and under one task.\<close>

definition live_sub :: "sse_subscriber list \<Rightarrow> nat \<Rightarrow> bool" where
  "live_sub h i \<longleftrightarrow> i < length h \<and> \<not> sb_closed (h ! i) \<and> \<not> sb_done (h ! i)"

definition subs_ok :: "task_manager \<Rightarrow> bool" where
  "subs_ok tm \<longleftrightarrow>
     (\<forall>tid. distinct (tm_subscribers tm tid)) \<and>
     (\<forall>tid i. i \<in> set (tm_subscribers tm tid) \<longrightarrow> live_sub (sub_heap tm) i) \<and>
     (\<forall>tid tid' i. i \<in> set (tm_subscribers tm tid) \<longrightarrow> i \<in> set (tm_subscribers tm tid') \<longrightarrow> tid = tid') \<and>
     (\<forall>s \<in> set (sub_heap tm). length (sb_buffer s) \<le> sb_capacity s)"

definition registry_ok :: "task_manager \<Rightarrow> bool" where
  "registry_ok tm \<longleftrightarrow> distinct (map fst (tm_tasks tm)) \<and> history_ok tm \<and> subs_ok tm"

fun daemon_ok :: "task_manager outcome \<Rightarrow> bool" where
  "daemon_ok (Goes tm) = registry_ok tm"
| "daemon_ok Blocks = True"
| "daemon_ok Panics = False"

text \<open>Subscribers whose heap cells are touched only in their buffers stay live.\<close>

definition same_subs :: "sse_subscriber list \<Rightarrow> sse_subscriber list \<Rightarrow> bool" where
  "same_subs h h' \<longleftrightarrow>
     length h' = length h \<and>
     (\<forall>i < length h. sb_closed (h' ! i) = sb_closed (h ! i) \<and> sb_done (h' ! i) = sb_done (h ! i) \<and>
        sb_capacity (h' ! i) = sb_capacity (h ! i) \<and>
        (length (sb_buffer (h ! i)) \<le> sb_capacity (h ! i) \<longrightarrow> length (sb_buffer (h' ! i)) \<le> sb_capacity (h ! i)))"

lemma same_subs_refl [simp]: "same_subs h h"
  by (simp add: same_subs_def)

lemma same_subs_trans: "same_subs h h' \<Longrightarrow> same_subs h' h'' \<Longrightarrow> same_subs h h''"
  by (simp add: same_subs_def)

lemma same_subs_live: "same_subs h h' \<Longrightarrow> live_sub h' i = live_sub h i"
  by (auto simp: same_subs_def live_sub_def)

lemma same_subs_bounded:
  "same_subs h h' \<Longrightarrow> \<forall>s \<in> set h. length (sb_buffer s) \<le> sb_capacity s \<Longrightarrow>
   \<forall>s \<in> set h'. length (sb_buffer s) \<le> sb_capacity s"
  by (simp add: same_subs_def all_set_conv_all_nth)

lemma offer_cell: "i < length h \<Longrightarrow> same_subs h (h[i := offer e (h ! i)])"
  by (auto simp: same_subs_def offer_def nth_list_update)

lemma offer_all_live:
  "\<forall>i \<in> set is. live_sub h i \<Longrightarrow> \<exists>h'. offer_all is e h = Goes h' \<and> same_subs h h'"
proof (induction "is" arbitrary: h)
  case Nil
  then show ?case by simp
next
  case (Cons i "is")
  let ?h = "h[i := offer e (h ! i)]"
  have same: "same_subs h ?h" using Cons.prems by (intro offer_cell) (simp add: live_sub_def)
  then have "\<forall>j \<in> set is. live_sub ?h j" using Cons.prems by (simp add: same_subs_live)
  from Cons.IH [OF this] obtain h' where "offer_all is e ?h = Goes h'" "same_subs ?h h'" by blast
  then show ?case using Cons.prems same by (auto simp: live_sub_def intro: same_subs_trans)
qed

lemma close_subs_live:
  "distinct is \<Longrightarrow> \<forall>i \<in> set is. live_sub h i \<Longrightarrow>
   \<exists>h'. close_subs is h = Goes h' \<and> length h' = length h \<and> (\<forall>j. j \<notin> set is \<longrightarrow> h' ! j = h ! j) \<and>
        (\<forall>j < length h. sb_buffer (h' ! j) = sb_buffer (h ! j) \<and> sb_capacity (h' ! j) = sb_capacity (h ! j))"
proof (induction "is" arbitrary: h)
  case Nil
  then show ?case by simp
next
  case (Cons i "is")
  let ?h = "h[i := (h ! i)\<lparr>sb_closed := True\<rparr>]"
  have "\<forall>j \<in> set is. live_sub ?h j" using Cons.prems by (auto simp: live_sub_def nth_list_update)
  from Cons.IH [OF _ this] Cons.prems obtain h' where
    h: "close_subs is ?h = Goes h'" "length h' = length h" "\<forall>j. j \<notin> set is \<longrightarrow> h' ! j = ?h ! j"
       "\<forall>j < length h. sb_buffer (h' ! j) = sb_buffer (?h ! j) \<and> sb_capacity (h' ! j) = sb_capacity (?h ! j)"
    by auto
  have "\<forall>j < length h. sb_buffer (?h ! j) = sb_buffer (h ! j) \<and> sb_capacity (?h ! j) = sb_capacity (h ! j)"
    using Cons.prems by (auto simp: nth_list_update live_sub_def)
  then show ?case using h Cons.prems by (auto simp: live_sub_def)
qed

lemma subs_ok_heap:
  "subs_ok tm \<Longrightarrow> same_subs (sub_heap tm) h \<Longrightarrow> tm_subscribers tm' = tm_subscribers tm \<Longrightarrow>
   sub_heap tm' = h \<Longrightarrow> subs_ok tm'"
  unfolding subs_ok_def by (auto simp: same_subs_live intro: same_subs_bounded [rule_format])

lemma subs_ok_push:
  assumes "subs_ok tm"
  shows "\<exists>h. offer_all (tm_subscribers tm tid) e (sub_heap tm) = Goes h \<and> same_subs (sub_heap tm) h"
  using assms by (intro offer_all_live) (simp add: subs_ok_def)

lemma subs_ok_attach:
  assumes "subs_ok tm" and "subscribe_attach tid cap tm = Goes tm'"
  shows "subs_ok tm'"
proof -
  have fresh: "length (sub_heap tm) \<notin> set (tm_subscribers tm t)" for t
    using assms(1) unfolding subs_ok_def live_sub_def by blast
  have eq: "tm' = tm\<lparr>sub_heap := sub_heap tm @ [\<lparr>sb_capacity = cap, sb_buffer = tm_history tm tid,
                                               sb_closed = False, sb_done = False\<rparr>],
              tm_subscribers := (tm_subscribers tm)(tid := tm_subscribers tm tid @ [length (sub_heap tm)])\<rparr>"
    and cap: "length (tm_history tm tid) \<le> cap"
    using assms(2) by (auto simp: subscribe_attach_def split: if_splits)
  show ?thesis
    unfolding subs_ok_def
  proof (intro conjI)
    show "\<forall>t. distinct (tm_subscribers tm' t)"
      using assms(1) fresh by (simp add: eq subs_ok_def)
    show "\<forall>t i. i \<in> set (tm_subscribers tm' t) \<longrightarrow> live_sub (sub_heap tm') i"
      using assms(1) by (auto simp: eq subs_ok_def live_sub_def nth_append less_SucI)
    show "\<forall>t t' i. i \<in> set (tm_subscribers tm' t) \<longrightarrow> i \<in> set (tm_subscribers tm' t') \<longrightarrow> t = t'"
      using assms(1) fresh by (auto simp: eq subs_ok_def split: if_splits)
    show "\<forall>s \<in> set (sub_heap tm'). length (sb_buffer s) \<le> sb_capacity s"
      using assms(1) cap by (auto simp: eq subs_ok_def)
  qed
qed

lemma subs_ok_remove:
  assumes ok: "subs_ok tm"
    and subs: "\<And>t. set (tm_subscribers tm' t) = set (tm_subscribers tm t) - (if t = tid then A else {})"
    and dist: "\<And>t. distinct (tm_subscribers tm t) \<Longrightarrow> distinct (tm_subscribers tm' t)"
    and A: "A \<subseteq> set (tm_subscribers tm tid)"
    and len: "length (sub_heap tm') = length (sub_heap tm)"
    and rest: "\<And>j. j \<notin> A \<Longrightarrow> sub_heap tm' ! j = sub_heap tm ! j"
    and buf: "\<And>j. j < length (sub_heap tm) \<Longrightarrow> sb_buffer (sub_heap tm' ! j) = sb_buffer (sub_heap tm ! j) \<and>
                sb_capacity (sub_heap tm' ! j) = sb_capacity (sub_heap tm ! j)"
  shows "subs_ok tm'"
  unfolding subs_ok_def
proof (intro conjI)
  show "\<forall>t. distinct (tm_subscribers tm' t)" using ok dist by (simp add: subs_ok_def)
  have live: "live_sub (sub_heap tm) i" if "i \<in> set (tm_subscribers tm t)" for t i
    using ok that by (auto simp: subs_ok_def)
  have one: "t = t'" if "i \<in> set (tm_subscribers tm t)" "i \<in> set (tm_subscribers tm t')" for t t' i
    using ok that unfolding subs_ok_def by blast
  have notA: "i \<notin> A" if "i \<in> set (tm_subscribers tm' t)" for t i
    using that subs [of t] one [of i t tid] A by (auto split: if_splits)
  show "\<forall>t i. i \<in> set (tm_subscribers tm' t) \<longrightarrow> live_sub (sub_heap tm') i"
    using live notA rest len subs by (auto simp: live_sub_def)
  show "\<forall>t t' i. i \<in> set (tm_subscribers tm' t) \<longrightarrow> i \<in> set (tm_subscribers tm' t') \<longrightarrow> t = t'"
    using one subs by auto
  show "\<forall>s \<in> set (sub_heap tm'). length (sb_buffer s) \<le> sb_capacity s"
  proof
    fix s assume "s \<in> set (sub_heap tm')"
    then obtain j where "j < length (sub_heap tm)" "s = sub_heap tm' ! j" by (auto simp: in_set_conv_nth len)
    then show "length (sb_buffer s) \<le> sb_capacity s" using ok buf [of j] by (simp add: subs_ok_def)
  qed
qed

lemma unsubscribe_ok:
  assumes "subs_ok tm"
  shows "\<exists>tm'. unsubscribe tid i tm = Goes tm' \<and> subs_ok tm' \<and>
               tm_tasks tm' = tm_tasks tm \<and> tm_history tm' = tm_history tm \<and> tm_bytes tm' = tm_bytes tm"
proof (cases "i \<in> set (tm_subscribers tm tid)")
  case False
  then show ?thesis using assms by (simp add: unsubscribe_def)
next
  case True
  then have live: "live_sub (sub_heap tm) i" and d: "distinct (tm_subscribers tm tid)"
    using assms by (auto simp: subs_ok_def)
  let ?tm = "tm\<lparr>tm_subscribers := (tm_subscribers tm)(tid := remove1 i (tm_subscribers tm tid)),
                 sub_heap := (sub_heap tm)[i := (sub_heap tm ! i)\<lparr>sb_done := True\<rparr>]\<rparr>"
  have "subs_ok ?tm"
    by (rule subs_ok_remove [OF assms, where A = "{i}" and tid = tid])
       (use True live d in \<open>auto simp: live_sub_def nth_list_update distinct_remove1\<close>)
  with True live show ?thesis by (simp add: unsubscribe_def live_sub_def)
qed

lemma close_all_ok:
  assumes "subs_ok tm"
  shows "\<exists>tm'. close_all_subscribers tid tm = Goes tm' \<and> subs_ok tm' \<and>
               tm_tasks tm' = tm_tasks tm \<and> tm_history tm' = tm_history tm \<and> tm_bytes tm' = tm_bytes tm"
proof -
  have "distinct (tm_subscribers tm tid)" "\<forall>i \<in> set (tm_subscribers tm tid). live_sub (sub_heap tm) i"
    using assms by (auto simp: subs_ok_def)
  from close_subs_live [OF this] obtain h where
    h: "close_subs (tm_subscribers tm tid) (sub_heap tm) = Goes h" "length h = length (sub_heap tm)"
       "\<forall>j. j \<notin> set (tm_subscribers tm tid) \<longrightarrow> h ! j = sub_heap tm ! j"
       "\<forall>j < length (sub_heap tm). sb_buffer (h ! j) = sb_buffer (sub_heap tm ! j) \<and>
          sb_capacity (h ! j) = sb_capacity (sub_heap tm ! j)"
    by blast
  let ?tm = "tm\<lparr>tm_subscribers := (tm_subscribers tm)(tid := []), sub_heap := h\<rparr>"
  have "subs_ok ?tm"
    by (rule subs_ok_remove [OF assms, where A = "set (tm_subscribers tm tid)" and tid = tid])
       (use h in auto)
  with h(1) show ?thesis by (simp add: close_all_subscribers_def)
qed

lemma history_ok_push:
  assumes "history_ok tm" and "trim_history (tm_bytes tm tid + event_size e) (tm_history tm tid @ [e]) = (b, es)"
  shows "history_fits b es"
  using trim_history_spec [OF _ assms(2)] assms(1) by (auto simp: history_ok_def history_fits_def)

lemma registry_ok_push:
  assumes "registry_ok tm"
  shows "\<exists>tm'. push_event tid e tm = Goes tm' \<and> registry_ok tm'"
proof -
  obtain b es where t: "trim_history (tm_bytes tm tid + event_size (stamped tid e tm))
      (tm_history tm tid @ [stamped tid e tm]) = (b, es)"
    by fastforce
  obtain h where h: "offer_all (tm_subscribers tm tid) (stamped tid e tm) (sub_heap tm) = Goes h"
      "same_subs (sub_heap tm) h"
    using subs_ok_push assms unfolding registry_ok_def by blast
  have "history_fits b es"
    by (rule history_ok_push [OF _ t]) (use assms in \<open>simp add: registry_ok_def\<close>)
  then show ?thesis
    using assms t h
    by (auto simp: push_event_def Let_def registry_ok_def history_ok_def intro: subs_ok_heap)
qed

lemma registry_ok_tasks:
  "registry_ok tm \<Longrightarrow> distinct (map fst ts) \<Longrightarrow> registry_ok (tm\<lparr>tm_tasks := ts\<rparr>)"
  by (simp add: registry_ok_def history_ok_def subs_ok_def)

lemma registry_ok_step: "registry_ok tm \<Longrightarrow> daemon_ok (daemon_do tm p)"
proof (cases p)
  case (EndForward tid att dl)
  assume "registry_ok tm"
  with EndForward show ?thesis
    by (auto simp: end_forward_def registry_ok_def history_ok_def subs_ok_def distinct_update distinct_delete
        split: option.split)
next
  case (PushSSEEvent tid e)
  assume "registry_ok tm"
  with registry_ok_push [of tm tid e] PushSSEEvent show ?thesis by auto
next
  case (SubscribeSSE tid cap)
  assume ok: "registry_ok tm"
  show ?thesis
  proof (cases "subscribe_attach tid cap tm")
    case (Goes tm')
    have "subs_ok tm'" by (rule subs_ok_attach [OF _ Goes]) (use ok in \<open>simp add: registry_ok_def\<close>)
    with Goes ok SubscribeSSE show ?thesis
      by (auto simp: subscribe_attach_def registry_ok_def history_ok_def split: if_splits)
  qed (use SubscribeSSE in \<open>simp_all add: subscribe_attach_def split: if_splits\<close>)
next
  case (Receive i)
  assume ok: "registry_ok tm"
  have "same_subs (sub_heap tm) (sub_heap (receive i tm))"
    by (auto simp: receive_def same_subs_def nth_list_update)
  moreover have "subs_ok tm" "tm_subscribers (receive i tm) = tm_subscribers tm"
    using ok by (simp_all add: receive_def registry_ok_def)
  ultimately have "subs_ok (receive i tm)" by (blast intro: subs_ok_heap)
  with ok Receive show ?thesis by (simp add: registry_ok_def history_ok_def receive_def)
next
  case (UnsubscribeSSE tid i)
  assume "registry_ok tm"
  with unsubscribe_ok [of tm tid i] UnsubscribeSSE show ?thesis by (auto simp: registry_ok_def history_ok_def)
next
  case (CloseAllSubscribers tid)
  assume "registry_ok tm"
  with close_all_ok [of tm tid] CloseAllSubscribers show ?thesis by (auto simp: registry_ok_def history_ok_def)
qed (auto simp: add_task_def begin_forward_def update_status_def set_cancel_func_def clear_cancel_func_def
       registry_ok_def history_ok_def subs_ok_def distinct_update split: option.split)

interpretation daemon: op_machine daemon_step daemon_ok
proof
  fix s p assume "daemon_ok s"
  then show "daemon_ok (daemon_step s p)" by (cases s) (simp_all add: registry_ok_step)
qed

lemma new_registry_ok: "registry_ok new_task_manager"
  by (simp add: registry_ok_def history_ok_def subs_ok_def new_task_manager_def)

end
