(* ===== verification/Daemon_Theorems.thy ===== *)
theory Daemon_Theorems
  imports Daemon_Machine
begin

text \<open>
  What the daemon's registry promises: its history of events is a numbered suffix of what was pushed, an
  attempt is started and forwarded once, a scope has one credential and an agent one turn.
\<close>

section \<open>The log of events of a task\<close>

fun pushed :: "string \<Rightarrow> daemon_op list \<Rightarrow> sse_event list" where
  "pushed tid [] = []"
| "pushed tid (PushSSEEvent t e # ops) = (if t = tid then e # pushed tid ops else pushed tid ops)"
| "pushed tid (_ # ops) = pushed tid ops"

lemma pushed_append: "pushed tid (ops @ ops') = pushed tid ops @ pushed tid ops'"
  by (induction tid ops rule: pushed.induct) simp_all

lemma pushed_single: "pushed tid [p] = (case p of PushSSEEvent t e \<Rightarrow> if t = tid then [e] else [] | _ \<Rightarrow> [])"
  by (cases p) simp_all

lemma length_pushed: "length (pushed tid ops) \<le> length ops"
  by (induction tid ops rule: pushed.induct) auto

fun numbered :: "int \<Rightarrow> sse_event list \<Rightarrow> sse_event list" where
  "numbered k [] = []"
| "numbered k (e # es) = e\<lparr>ev_seq := k + 1\<rparr> # numbered (k + 1) es"

lemma length_numbered [simp]: "length (numbered k es) = length es"
  by (induction k es rule: numbered.induct) simp_all

lemma numbered_snoc: "numbered k (es @ [e]) = numbered k es @ [e\<lparr>ev_seq := k + int (length es) + 1\<rparr>]"
  by (induction k es rule: numbered.induct) (simp_all add: algebra_simps)

lemma event_size_seq [simp]: "event_size (e\<lparr>ev_seq := n\<rparr>) = event_size e"
  by (simp add: event_size_def)

lemma sizes_numbered [simp]: "sizes (numbered k es) = sizes es"
  by (induction k es rule: numbered.induct) simp_all

lemma sizes_drop: "sizes (drop k es) \<le> sizes es"
  using sizes_nonneg [of "take k es"] append_take_drop_id [of k es] by (metis add.commute add_increasing2 map_append order_refl sum_list_append)

lemma numbered_above: "k \<ge> s \<Longrightarrow> filter (\<lambda>e. ev_seq e > s) (numbered k es) = numbered k es"
  by (induction k es rule: numbered.induct) simp_all

lemma numbered_after: "filter (\<lambda>e. ev_seq e > k + int n) (numbered k es) = drop n (numbered k es)"
proof (induction n arbitrary: k es)
  case 0
  then show ?case by (simp add: numbered_above)
next
  case (Suc n)
  show ?case
  proof (cases es)
    case (Cons e es')
    have "filter (\<lambda>x. ev_seq x > (k + 1) + int n) (numbered (k + 1) es') = drop n (numbered (k + 1) es')"
      by (rule Suc.IH)
    then show ?thesis by (simp add: Cons add.commute add.left_commute)
  qed simp
qed

lemma drop_numbered: "drop j (numbered k es) = numbered (k + int j) (drop j es)"
proof (induction j arbitrary: k es)
  case (Suc j)
  then show ?case by (cases es) (simp_all add: add.commute add.left_commute)
qed simp

lemma retained_after:
  "filter (\<lambda>e. ev_seq e > int n) (drop k (numbered 0 es)) = drop (max n k) (numbered 0 es)"
proof (cases "k \<le> n")
  case True
  have "filter (\<lambda>e. ev_seq e > int k + int (n - k)) (numbered (int k) (drop k es)) =
        drop (n - k) (numbered (int k) (drop k es))"
    by (rule numbered_after)
  moreover have "int k + int (n - k) = int n" using True by simp
  ultimately show ?thesis using True by (simp add: drop_numbered max_def)
next
  case False
  then show ?thesis by (simp add: drop_numbered numbered_above max_def)
qed

text \<open>Requests that leave the log of a task whole: no confirmed end of its forwarding, and fresh events.\<close>

definition keeps_log :: "string \<Rightarrow> daemon_op \<Rightarrow> bool" where
  "keeps_log tid p =
     (case p of
        EndForward t a d \<Rightarrow> \<not> (t = tid \<and> d)
      | PushSSEEvent t e \<Rightarrow> t \<noteq> tid \<or> ev_seq e = 0
      | _ \<Rightarrow> True)"

lemma step_other:
  assumes "daemon_do tm p = Goes tm'" and "keeps_log tid p" and "pushed tid [p] = []"
  shows "tm_history tm' tid = tm_history tm tid \<and> tm_next_seq tm' tid = tm_next_seq tm tid"
  using assms
  by (cases p)
     (auto simp: add_task_def begin_forward_def end_forward_def update_status_def push_event_def Let_def
       subscribe_attach_def receive_def unsubscribe_def close_all_subscribers_def set_cancel_func_def
       clear_cancel_func_def keeps_log_def split: option.splits if_splits prod.splits outcome.splits)

lemma step_push:
  assumes "push_event tid e tm = Goes tm'" and "ev_seq e = 0"
    and "tm_next_seq tm tid = n" and "0 \<le> n" and "n < max_int64"
  shows "tm_next_seq tm' tid = n + 1 \<and>
         tm_history tm' tid = snd (trim_history (tm_bytes tm tid + event_size e) (tm_history tm tid @ [e\<lparr>ev_seq := n + 1\<rparr>]))"
proof -
  have "i64 (n + 1) = n + 1" using assms by (intro i64_id) (simp_all add: max_int64_def)
  with assms show ?thesis
    by (auto simp: push_event_def Let_def stamped_def split: prod.splits outcome.splits)
qed

lemma log_step:
  assumes ok: "registry_ok tm" and go: "daemon_do tm p = Goes tm'" and keep: "keeps_log tid p"
    and n: "tm_next_seq tm tid = int (length es)" and small: "int (length es) < max_int64"
    and h: "tm_history tm tid = drop k (numbered 0 es)" and k: "sizes es \<le> maxTaskEventHistoryBytes \<longrightarrow> k = 0"
    and last: "k \<le> length es - 1"
  shows "tm_next_seq tm' tid = int (length (es @ pushed tid [p])) \<and>
         (\<exists>k. tm_history tm' tid = drop k (numbered 0 (es @ pushed tid [p])) \<and>
              (sizes (es @ pushed tid [p]) \<le> maxTaskEventHistoryBytes \<longrightarrow> k = 0) \<and>
              k \<le> length (es @ pushed tid [p]) - 1)"
proof (cases "pushed tid [p] = []")
  case True
  with step_other [OF go keep] n h k last show ?thesis by auto
next
  case False
  then obtain e where p: "p = PushSSEEvent tid e" and e: "pushed tid [p] = [e]"
    by (auto simp: pushed_single split: daemon_op.splits if_splits)
  have seq: "ev_seq e = 0" using keep p by (simp add: keeps_log_def)
  let ?e = "e\<lparr>ev_seq := int (length es) + 1\<rparr>"
  have all: "tm_history tm tid @ [?e] = drop k (numbered 0 (es @ [e]))"
    using last by (cases "es = []") (simp_all add: h numbered_snoc)
  have step: "tm_next_seq tm' tid = int (length es) + 1"
    "tm_history tm' tid = snd (trim_history (tm_bytes tm tid + event_size e) (tm_history tm tid @ [?e]))"
    using step_push [OF _ seq n _ small] go p by simp_all
  have b: "tm_bytes tm tid + event_size e = sizes (tm_history tm tid @ [?e])"
    using ok by (simp add: registry_ok_def history_ok_def history_fits_def)
  obtain b' h' where t: "trim_history (tm_bytes tm tid + event_size e) (tm_history tm tid @ [?e]) = (b', h')"
    by fastforce
  from trim_history_spec [OF b t] obtain j where
    j: "h' = drop j (tm_history tm tid @ [?e])" "h' \<noteq> []"
       "tm_bytes tm tid + event_size e \<le> maxTaskEventHistoryBytes \<longrightarrow> j = 0"
    by blast
  have h': "tm_history tm' tid = drop (j + k) (numbered 0 (es @ [e]))"
    using step(2) t j(1) by (simp only: all drop_drop snd_conv)
  moreover have "j + k < length (es @ [e])"
    using j(1,2) all by (metis drop_drop drop_all length_numbered not_le add.commute)
  moreover have "j + k = 0" if "sizes (es @ [e]) \<le> maxTaskEventHistoryBytes"
  proof -
    have "k = 0" using k that event_size_pos [of e] by simp
    moreover have "tm_bytes tm tid + event_size e \<le> maxTaskEventHistoryBytes"
      using that b all by (simp add: \<open>k = 0\<close> numbered_snoc)
    ultimately show ?thesis using j(3) by simp
  qed
  ultimately show ?thesis using step(1) by (auto simp: e)
qed

lemma run_snoc:
  "foldl daemon_step s (ops @ [p]) = Goes tm' \<Longrightarrow> \<exists>tm. foldl daemon_step s ops = Goes tm \<and> daemon_do tm p = Goes tm'"
  by (cases "foldl daemon_step s ops") simp_all

lemma reached_registry_ok: "foldl daemon_step (Goes new_task_manager) ops = Goes tm \<Longrightarrow> registry_ok tm"
  using daemon.run_inv [of "Goes new_task_manager" ops] new_registry_ok by simp

lemma log_run:
  assumes "foldl daemon_step (Goes new_task_manager) ops = Goes tm" and "list_all (keeps_log tid) ops"
    and "int (length ops) \<le> max_int64"
  shows "tm_next_seq tm tid = int (length (pushed tid ops)) \<and>
         (\<exists>k. tm_history tm tid = drop k (numbered 0 (pushed tid ops)) \<and>
              (sizes (pushed tid ops) \<le> maxTaskEventHistoryBytes \<longrightarrow> k = 0) \<and>
              k \<le> length (pushed tid ops) - 1)"
  using assms
proof (induction ops arbitrary: tm rule: rev_induct)
  case Nil
  then show ?case by (auto simp: new_task_manager_def)
next
  case (snoc p ops)
  from run_snoc [OF snoc.prems(1)] obtain tm0 where
    tm0: "foldl daemon_step (Goes new_task_manager) ops = Goes tm0" "daemon_do tm0 p = Goes tm" by blast
  have len: "int (length ops) < max_int64" using snoc.prems(3) by simp
  have less: "int (length (pushed tid ops)) < max_int64" using length_pushed [of tid ops] len by linarith
  have "list_all (keeps_log tid) ops" "keeps_log tid p" using snoc.prems(2) by simp_all
  with snoc.IH [OF tm0(1)] len obtain k where
    "tm_next_seq tm0 tid = int (length (pushed tid ops))" "tm_history tm0 tid = drop k (numbered 0 (pushed tid ops))"
    "sizes (pushed tid ops) \<le> maxTaskEventHistoryBytes \<longrightarrow> k = 0" "k \<le> length (pushed tid ops) - 1"
    by auto
  from log_step [OF reached_registry_ok [OF tm0(1)] tm0(2) \<open>keeps_log tid p\<close> this(1) less this(2-)]
  show ?case by (simp only: pushed_append)
qed

section \<open>Growth of the history between the two halves of SubscribeSSE\<close>

lemma length_trim: "length (snd (trim_history b es)) \<le> length es"
  by (induction b es rule: trim_history.induct) auto

lemma history_grows:
  assumes "daemon_do tm p = Goes tm'"
  shows "length (tm_history tm' tid) \<le> length (tm_history tm tid) + length (pushed tid [p])"
proof (cases p)
  case (PushSSEEvent t e)
  have "length (snd (trim_history b (es @ [x]))) \<le> length es + 1" for b es and x :: sse_event
    using length_trim [of b "es @ [x]"] by simp
  with assms PushSSEEvent show ?thesis
    by (auto simp: push_event_def Let_def split: prod.splits outcome.splits) (metis snd_conv)
qed (use assms in \<open>auto simp: add_task_def begin_forward_def end_forward_def update_status_def
       subscribe_attach_def receive_def unsubscribe_def close_all_subscribers_def set_cancel_func_def
       clear_cancel_func_def split: option.splits if_splits outcome.splits\<close>)

lemma history_grows_run:
  "foldl daemon_step (Goes tm) ops = Goes tm' \<Longrightarrow>
   length (tm_history tm' tid) \<le> length (tm_history tm tid) + length (pushed tid ops)"
proof (induction ops arbitrary: tm' rule: rev_induct)
  case (snoc p ops)
  from run_snoc [OF snoc.prems] obtain tm0 where
    tm0: "foldl daemon_step (Goes tm) ops = Goes tm0" "daemon_do tm0 p = Goes tm'" by blast
  show ?case using snoc.IH [OF tm0(1)] history_grows [OF tm0(2), of tid] by (simp add: pushed_append)
qed simp

lemma pushed_replicate: "pushed t (replicate n (PushSSEEvent t e)) = replicate n e"
  by (induction n) simp_all

lemma pushes_go: "registry_ok tm \<Longrightarrow> \<exists>tm'. foldl daemon_step (Goes tm) (replicate n (PushSSEEvent t e)) = Goes tm'"
proof (induction n arbitrary: tm)
  case (Suc n)
  from registry_ok_push [OF Suc.prems, of t e] Suc.IH show ?case by auto
qed simp

section \<open>One attempt, one start, one forwarder\<close>

text \<open>
  Requests that keep the attempt of a task: its forwarding is not ended, and the task is not given another
  attempt.
\<close>

definition keeps_attempt :: "string \<Rightarrow> string \<Rightarrow> daemon_op \<Rightarrow> bool" where
  "keeps_attempt tid att p =
     (case p of
        EndForward t a d \<Rightarrow> t \<noteq> tid \<or> a \<noteq> att
      | AddTask t s \<Rightarrow> t \<noteq> tid \<or> ts_attempt s = att
      | _ \<Rightarrow> True)"

definition has_attempt :: "string \<Rightarrow> string \<Rightarrow> bool \<Rightarrow> task_manager \<Rightarrow> bool" where
  "has_attempt tid att fw tm =
     (case map_of (tm_tasks tm) tid of None \<Rightarrow> False | Some t \<Rightarrow> ts_attempt t = att \<and> (fw \<longrightarrow> ts_forwarding t))"

lemma map_of_delete_other: "k \<noteq> k' \<Longrightarrow> map_of (AList.delete k' ts) k = map_of ts k"
  by (simp add: delete_conv')

lemma attempt_step:
  assumes "daemon_do tm p = Goes tm'" and "keeps_attempt tid att p" and "has_attempt tid att fw tm"
  shows "has_attempt tid att fw tm'"
  using assms
  by (cases p)
     (auto simp: add_task_def begin_forward_def end_forward_def update_status_def push_event_def Let_def
       subscribe_attach_def receive_def unsubscribe_def close_all_subscribers_def set_cancel_func_def
       clear_cancel_func_def keeps_attempt_def has_attempt_def update_conv' delete_conv'
       split: option.splits if_splits prod.splits outcome.splits)

lemma attempt_run:
  "foldl daemon_step (Goes tm) ops = Goes tm' \<Longrightarrow> list_all (keeps_attempt tid att) ops \<Longrightarrow>
   has_attempt tid att fw tm \<Longrightarrow> has_attempt tid att fw tm'"
proof (induction ops arbitrary: tm' rule: rev_induct)
  case (snoc p ops)
  from run_snoc [OF snoc.prems(1)] obtain tm0 where
    tm0: "foldl daemon_step (Goes tm) ops = Goes tm0" "daemon_do tm0 p = Goes tm'" by blast
  then show ?case using snoc.IH [OF tm0(1)] snoc.prems(2,3) attempt_step [OF tm0(2)] by simp
qed simp

lemma has_attempt_refuses:
  "has_attempt tid att True tm \<Longrightarrow> fst (begin_forward tid att tm) = False"
  "has_attempt tid att fw tm \<Longrightarrow> ts_attempt s = att \<Longrightarrow> add_task tid s tm = (False, tm)"
  by (auto simp: has_attempt_def begin_forward_def add_task_def split: option.splits)

lemma added_has_attempt: "add_task tid s tm = (True, tm') \<Longrightarrow> has_attempt tid (ts_attempt s) False tm'"
  by (auto simp: add_task_def has_attempt_def update_conv' split: option.splits if_splits)

lemma forwarded_has_attempt: "begin_forward tid att tm = (True, tm') \<Longrightarrow> has_attempt tid att True tm'"
  by (auto simp: begin_forward_def has_attempt_def update_conv' split: option.splits if_splits)

section \<open>The credential of a scope\<close>

lemma credential_found:
  "run \<noteq> [] \<Longrightarrow> credential_loop ag ch node (run, tok) ts =
     (if filter (\<lambda>(k, t). owns_scope ag ch node t) ts = [] then (run, tok) else ([], []))"
  by (induction ts) auto

lemma credential_spec:
  assumes "[] \<notin> fst ` set ts"
  shows "credential_loop ag ch node ([], []) ts =
     (case filter (\<lambda>(k, t). owns_scope ag ch node t) ts of
        [(k, t)] \<Rightarrow> (if ts_run t = [] then k else ts_run t, ts_token t)
      | _ \<Rightarrow> ([], []))"
  using assms
proof (induction ts)
  case (Cons kt ts)
  obtain k t where kt: "kt = (k, t)" by fastforce
  with Cons.prems have "k \<noteq> []" by auto
  then show ?case
    using Cons by (auto simp: kt credential_found split: list.split)
qed simp

definition one_owner :: "(string \<times> task_state) list \<Rightarrow> string \<times> string" where
  "one_owner ts =
     (case ts of [(k, t)] \<Rightarrow> (if ts_run t = [] then k else ts_run t, ts_token t) | _ \<Rightarrow> ([], []))"

lemma one_owner_order: "mset ts' = mset ts \<Longrightarrow> one_owner ts' = one_owner ts"
proof (cases "length ts = 1")
  case True
  moreover assume m: "mset ts' = mset ts"
  ultimately obtain x where "ts = [x]" by (auto simp: length_Suc_conv)
  with m show ?thesis by simp
next
  case False
  have none: "one_owner us = ([], [])" if "length us \<noteq> 1" for us
    using that by (auto simp: one_owner_def split: list.split)
  assume "mset ts' = mset ts"
  with False have "length ts' \<noteq> 1" by (metis size_mset)
  with False show ?thesis by (simp add: none)
qed

section \<open>The turn of an agent\<close>

text \<open>
  Goroutines that take and release turns. \<open>Acquire\<close> is a call of \<open>acquireAgentTurn\<close> that gets to its
  \<open>select\<close>: when it would block the goroutine keeps waiting and nothing changes. \<open>processTaskStreaming\<close>
  defers the release function it was given, so only a holder releases, once. No other method touches the
  turns.
\<close>

datatype turn_op = Acquire bool bool nat string | Release nat string

fun turn_step :: "task_manager \<times> (nat \<times> string) list \<Rightarrow> turn_op \<Rightarrow> task_manager \<times> (nat \<times> string) list" where
  "turn_step (tm, hs) (Acquire ctx_done pick_done g ag) =
     (case acquire_agent_turn ctx_done pick_done ag tm of
        Goes (True, tm') \<Rightarrow> (tm', hs @ [(g, ag)])
      | Goes (False, tm') \<Rightarrow> (tm', hs)
      | _ \<Rightarrow> (turn_channel ag tm, hs))"
| "turn_step (tm, hs) (Release g ag) =
     (if (g, ag) \<in> set hs
      then (case give_turn ag tm of Goes tm' \<Rightarrow> (tm', remove1 (g, ag) hs) | _ \<Rightarrow> (tm, hs))
      else (tm, hs))"

definition holders :: "string \<Rightarrow> (nat \<times> string) list \<Rightarrow> nat" where
  "holders ag hs = length (filter (\<lambda>(g, a). a = ag) hs)"

lemma holders_simps [simp]:
  "holders ag [] = 0"
  "holders ag (hs @ [(g, a)]) = holders ag hs + (if a = ag then 1 else 0)"
  by (simp_all add: holders_def)

lemma holders_remove1:
  "(g, a) \<in> set hs \<Longrightarrow> holders ag (remove1 (g, a) hs) = holders ag hs - (if a = ag then 1 else 0)"
  by (auto simp: holders_def filter_remove1 length_remove1)

lemma holders_pos: "(g, ag) \<in> set hs \<Longrightarrow> holders ag hs > 0"
  by (auto simp: holders_def filter_empty_conv)

text \<open>The tokens in the channel of an agent, one when it is not made yet, and its holders sum to one.\<close>

definition tokens :: "task_manager \<Rightarrow> string \<Rightarrow> nat" where
  "tokens tm ag = (case tm_turns tm ag of None \<Rightarrow> 1 | Some n \<Rightarrow> n)"

fun turns_ok :: "task_manager \<times> (nat \<times> string) list \<Rightarrow> bool" where
  "turns_ok (tm, hs) = (\<forall>ag. tokens tm ag + holders ag hs = 1)"

lemma tokens_channel [simp]: "tokens (turn_channel a tm) ag = tokens tm ag"
  by (simp add: tokens_def turn_channel_def split: option.split)

lemma take_turn_cases:
  "tokens tm ag = 0 \<Longrightarrow> take_turn ag (turn_channel ag tm) = Blocks"
  "tokens tm ag = 1 \<Longrightarrow> \<exists>tm'. take_turn ag (turn_channel ag tm) = Goes tm' \<and>
     (\<forall>a. tokens tm' a = (if a = ag then 0 else tokens tm a))"
  by (auto simp: tokens_def take_turn_def turn_channel_def split: option.splits nat.splits)

lemma give_turn_cases:
  "tokens tm ag = 0 \<Longrightarrow> \<exists>tm'. give_turn ag tm = Goes tm' \<and>
     (\<forall>a. tokens tm' a = (if a = ag then 1 else tokens tm a))"
  by (auto simp: tokens_def give_turn_def split: option.splits nat.splits)

lemma turns_ok_step: "turns_ok (tm, hs) \<Longrightarrow> turns_ok (turn_step (tm, hs) p)"
proof (cases p)
  case (Acquire d pd g ag)
  assume ok: "turns_ok (tm, hs)"
  then have one: "tokens tm ag + holders ag hs = 1" by simp
  show ?thesis
  proof (cases "tokens tm ag = 0")
    case True
    then show ?thesis using ok by (auto simp: Acquire acquire_agent_turn_def Let_def take_turn_cases(1))
  next
    case False
    with one have t: "tokens tm ag = 1" and h: "holders ag hs = 0" by auto
    from take_turn_cases(2) [OF t] obtain tm' where
      "take_turn ag (turn_channel ag tm) = Goes tm'" "\<forall>a. tokens tm' a = (if a = ag then 0 else tokens tm a)"
      by blast
    then show ?thesis using ok h by (auto simp: Acquire acquire_agent_turn_def Let_def)
  qed
next
  case (Release g ag)
  assume ok: "turns_ok (tm, hs)"
  show ?thesis
  proof (cases "(g, ag) \<in> set hs")
    case True
    with ok holders_pos [OF True] have t: "tokens tm ag = 0" and h: "holders ag hs = 1"
      by (auto dest: spec [of _ ag])
    from give_turn_cases [OF t] obtain tm' where
      "give_turn ag tm = Goes tm'" "\<forall>a. tokens tm' a = (if a = ag then 1 else tokens tm a)" by blast
    then show ?thesis using ok True h by (auto simp: Release holders_remove1)
  qed (use ok Release in simp)
qed

interpretation turns: op_machine turn_step turns_ok
proof
  fix s p assume "turns_ok s"
  then show "turns_ok (turn_step s p)" by (cases s) (simp only: turns_ok_step)
qed

lemma new_turns_ok: "turns_ok (new_task_manager, [])"
  by (simp add: new_task_manager_def tokens_def)

lemma turns_reached: "turns_ok (foldl turn_step (new_task_manager, []) ops)"
  by (rule turns.run_inv [OF new_turns_ok])

section \<open>Properties\<close>

text \<open>
  C38. No sequence of calls makes the registry panic (no send on a closed channel, no channel closed
  twice), and while it runs the history of every task stays below 16 MiB or is a single event, and no
  subscriber holds more than its buffer has room for.
\<close>

theorem registry_stays_sound:
  "case foldl daemon_step (Goes new_task_manager) ops of
     Goes tm \<Rightarrow>
       (\<forall>tid. sizes (tm_history tm tid) \<le> maxTaskEventHistoryBytes \<or> length (tm_history tm tid) \<le> 1) \<and>
       list_all (\<lambda>s. length (sb_buffer s) \<le> sb_capacity s) (sub_heap tm)
   | Blocks \<Rightarrow> True
   | Panics \<Rightarrow> False"
proof -
  have "daemon_ok (foldl daemon_step (Goes new_task_manager) ops)"
    by (rule daemon.run_inv) (simp add: new_registry_ok)
  then show ?thesis
    by (cases "foldl daemon_step (Goes new_task_manager) ops")
       (simp_all add: registry_ok_def history_ok_def history_fits_def subs_ok_def list_all_iff)
qed

text \<open>
  The forwarder that has delivered the first \<open>n\<close> events of a task and polls gets, in order and with
  consecutive numbers, the events pushed since, up to the newest; it misses events only when the history
  was trimmed, which needs more than 16 MiB of events.
\<close>

theorem poll_misses_nothing:
  assumes "foldl daemon_step (Goes new_task_manager) ops = Goes tm"
    and "list_all (keeps_log tid) ops" and "int (length ops) \<le> max_int64"
  shows "\<exists>k. events_after tid (int n) tm = drop (max n k) (numbered 0 (pushed tid ops)) \<and>
             k \<le> length (pushed tid ops) - 1 \<and> (sizes (pushed tid ops) \<le> maxTaskEventHistoryBytes \<longrightarrow> k = 0)"
proof -
  from log_run [OF assms] obtain k where
    "tm_history tm tid = drop k (numbered 0 (pushed tid ops))" "k \<le> length (pushed tid ops) - 1"
    "sizes (pushed tid ops) \<le> maxTaskEventHistoryBytes \<longrightarrow> k = 0" by blast
  then show ?thesis by (intro exI [of _ k]) (simp add: events_after_def retained_after)
qed

definition ex_task :: task_state where
  "ex_task = \<lparr>ts_task = ''t1'', ts_run = ''r1'', ts_agent = ''a1'', ts_channel = ''c1'', ts_thread = [],
     ts_node = [], ts_status = taskStatusQueued, ts_result = [], ts_error = [], ts_received = 0,
     ts_completed = None, ts_attempt = ''x1'', ts_token = ''k1'', ts_forwarding = False\<rparr>"

definition ex_event :: sse_event where
  "ex_event = \<lparr>ev_event = ''text'', ev_data = ''hi'', ev_seq = 0\<rparr>"

definition ex_pushes :: "daemon_op list" where
  "ex_pushes = [AddTask ''t1'' ex_task, PushSSEEvent ''t1'' ex_event, PushSSEEvent ''t2'' ex_event, PushSSEEvent ''t1'' ex_event]"

fun goes :: "'a outcome \<Rightarrow> 'a option" where
  "goes (Goes x) = Some x"
| "goes Blocks = None"
| "goes Panics = None"

lemma goesD: "goes x \<noteq> None \<Longrightarrow> x = Goes (the (goes x))"
  by (cases x) simp_all

lemma ex_pushes_go:
  "foldl daemon_step (Goes new_task_manager) ex_pushes = Goes (the (goes (foldl daemon_step (Goes new_task_manager) ex_pushes)))"
proof (rule goesD)
  have "\<not> Option.is_none (goes (foldl daemon_step (Goes new_task_manager) ex_pushes))" by code_simp
  then show "goes (foldl daemon_step (Goes new_task_manager) ex_pushes) \<noteq> None" by (simp add: Option.is_none_def)
qed

lemma ex_pushes_facts:
  "list_all (keeps_log ''t1'') ex_pushes" "int (length ex_pushes) \<le> max_int64"
  "pushed ''t1'' ex_pushes = [ex_event, ex_event]" "sizes (pushed ''t1'' ex_pushes) \<le> maxTaskEventHistoryBytes"
  by code_simp+

theorem poll_misses_nothing_witness:
  "events_after ''t1'' 1 (the (goes (foldl daemon_step (Goes new_task_manager) ex_pushes))) =
     [ex_event\<lparr>ev_seq := 2\<rparr>]"
  using poll_misses_nothing [OF ex_pushes_go ex_pushes_facts(1,2), of 1] ex_pushes_facts(3,4) by auto

text \<open>
  A subscription during whose two critical sections at most 64 events of the task are pushed does not
  block, and its reader finds the complete retained history in order.
\<close>

theorem subscriber_gets_history:
  assumes "foldl daemon_step (Goes tm) ops = Goes tm'" and "length (pushed tid ops) \<le> 64"
  shows "\<exists>tm''. subscribe_attach tid (subscribe_capacity tid tm) tm' = Goes tm'' \<and>
           sb_buffer (last (sub_heap tm'')) = tm_history tm' tid \<and>
           last (tm_subscribers tm'' tid) = length (sub_heap tm')"
  using history_grows_run [OF assms(1), of tid] assms(2)
  by (simp add: subscribe_attach_def subscribe_capacity_def)

theorem subscriber_gets_history_witness:
  "\<exists>tm''. subscribe_attach ''t1'' (subscribe_capacity ''t1'' new_task_manager)
            (the (goes (foldl daemon_step (Goes new_task_manager) ex_pushes))) = Goes tm''"
  using subscriber_gets_history [OF ex_pushes_go, of "''t1''"] ex_pushes_facts(3) by auto

text \<open>
  A subscription between whose two critical sections 65 events are pushed blocks with the mutex held:
  from then on no method of the registry returns.
\<close>

theorem subscribe_can_deadlock:
  "foldl daemon_step (Goes new_task_manager)
     (replicate 65 (PushSSEEvent ''t1'' ex_event) @
      SubscribeSSE ''t1'' (subscribe_capacity ''t1'' new_task_manager) # ops) = Blocks"
proof -
  let ?ops = "replicate 65 (PushSSEEvent ''t1'' ex_event)"
  obtain tm where tm: "foldl daemon_step (Goes new_task_manager) ?ops = Goes tm"
    using pushes_go [OF new_registry_ok] by blast
  have keep: "list_all (keeps_log ''t1'') ?ops" and small: "int (length ?ops) \<le> max_int64"
    by (simp_all add: list_all_iff keeps_log_def ex_event_def max_int64_def)
  have "sizes (pushed ''t1'' ?ops) \<le> maxTaskEventHistoryBytes"
    by (simp add: pushed_replicate sum_list_replicate event_size_def ex_event_def maxTaskEventHistoryBytes_def)
  with log_run [OF tm keep small] have "length (tm_history tm ''t1'') = 65"
    by (auto simp: pushed_replicate)
  then have "subscribe_attach ''t1'' (subscribe_capacity ''t1'' new_task_manager) tm = Blocks"
    by (simp add: subscribe_attach_def subscribe_capacity_def new_task_manager_def)
  with tm show ?thesis by simp
qed

text \<open>
  Once an attempt of a task was accepted, and until its forwarding ends or the task gets another
  attempt, the same attempt is not accepted again; and once it is forwarded it is not forwarded twice.
\<close>

theorem attempt_starts_once:
  assumes "add_task tid s tm = (True, tm1)" and "foldl daemon_step (Goes tm1) ops = Goes tm2"
    and "list_all (keeps_attempt tid (ts_attempt s)) ops"
    and "begin_forward tid (ts_attempt s) tm2 = (True, tm3)" and "foldl daemon_step (Goes tm3) ops' = Goes tm4"
    and "list_all (keeps_attempt tid (ts_attempt s)) ops'" and "ts_attempt s' = ts_attempt s"
  shows "add_task tid s' tm2 = (False, tm2) \<and> add_task tid s' tm4 = (False, tm4) \<and>
         \<not> fst (begin_forward tid (ts_attempt s) tm4)"
  using attempt_run [OF assms(2,3) added_has_attempt [OF assms(1)]]
    attempt_run [OF assms(5,6) forwarded_has_attempt [OF assms(4)]] assms(7)
  by (simp add: has_attempt_refuses)

theorem attempt_starts_once_witness:
  "add_task ''t1'' ex_task (snd (begin_forward ''t1'' ''x1'' (snd (add_task ''t1'' ex_task new_task_manager)))) =
     (False, snd (begin_forward ''t1'' ''x1'' (snd (add_task ''t1'' ex_task new_task_manager))))"
  using attempt_starts_once [of "''t1''" ex_task new_task_manager "snd (add_task ''t1'' ex_task new_task_manager)"
      "[]" "snd (add_task ''t1'' ex_task new_task_manager)"
      "snd (begin_forward ''t1'' ''x1'' (snd (add_task ''t1'' ex_task new_task_manager)))" "[]"
      "snd (begin_forward ''t1'' ''x1'' (snd (add_task ''t1'' ex_task new_task_manager)))" ex_task]
  by (simp add: ex_task_def add_task_def begin_forward_def new_task_manager_def)

text \<open>
  The credential of a runtime scope is that of the one running task that owns the scope, whatever the
  order in which the map is walked; when no task or several own it there is none.
\<close>

theorem credential_is_unambiguous:
  assumes "[] \<notin> fst ` set (tm_tasks tm)" and "mset (tm_tasks tm') = mset (tm_tasks tm)"
  shows "executing_credential ag ch node tm' =
     (case filter (\<lambda>(k, t). owns_scope ag ch node t) (tm_tasks tm) of
        [(k, t)] \<Rightarrow> (if ts_run t = [] then k else ts_run t, ts_token t)
      | _ \<Rightarrow> ([], []))"
proof -
  let ?f = "filter (\<lambda>(k, t). owns_scope ag ch node t)"
  have m: "mset (?f (tm_tasks tm')) = mset (?f (tm_tasks tm))" using assms(2) by simp
  have keys: "[] \<notin> fst ` set (tm_tasks tm')" using assms by (metis set_mset_mset)
  have "one_owner (?f (tm_tasks tm')) = one_owner (?f (tm_tasks tm))" by (rule one_owner_order [OF m])
  then show ?thesis
    using credential_spec [OF keys] by (simp add: executing_credential_def one_owner_def)
qed

theorem credential_is_unambiguous_witness:
  "executing_credential ''a1'' [] [] (new_task_manager\<lparr>tm_tasks := [(''t1'', ex_task\<lparr>ts_status := taskStatusRunning\<rparr>)]\<rparr>) = (''r1'', ''k1'')"
  by (subst credential_is_unambiguous [of "new_task_manager\<lparr>tm_tasks := [(''t1'', ex_task\<lparr>ts_status := taskStatusRunning\<rparr>)]\<rparr>"])
     (simp_all add: owns_scope_def ex_task_def)

text \<open>
  However goroutines acquire and release turns, an agent has at most one holder; an agent without a
  holder gives its turn to a caller whose context is not done, one with a holder makes the caller wait or,
  when the context is done, give up; and a release never blocks.
\<close>

theorem one_turn_per_agent:
  "case foldl turn_step (new_task_manager, []) ops of
     (tm, hs) \<Rightarrow>
       holders ag hs \<le> 1 \<and>
       (if holders ag hs = 0
        then \<exists>tm'. acquire_agent_turn False pick ag tm = Goes (True, tm')
        else acquire_agent_turn False pick ag tm = Blocks \<and>
             (\<exists>tm'. acquire_agent_turn True pick ag tm = Goes (False, tm')) \<and>
             (\<exists>tm'. give_turn ag tm = Goes tm'))"
proof -
  obtain tm hs where r: "foldl turn_step (new_task_manager, []) ops = (tm, hs)" by fastforce
  have one: "tokens tm ag + holders ag hs = 1" using turns_reached [of ops] r by simp
  show ?thesis
  proof (cases "holders ag hs = 0")
    case True
    with one have "tokens tm ag = 1" by simp
    from take_turn_cases(2) [OF this] True show ?thesis by (auto simp: r acquire_agent_turn_def Let_def)
  next
    case False
    with one have t: "tokens tm ag = 0" by simp
    with False one take_turn_cases(1) [OF t] give_turn_cases [OF t] show ?thesis
      by (auto simp: r acquire_agent_turn_def Let_def)
  qed
qed

end
