(* ===== verification/Remote_Machine.thy ===== *)
theory Remote_Machine
  imports Remote_Run Daemon_Theorems
begin

text \<open>
  The delivery protocol as machines: the leases of a computer, the operations on deliveries, and the whole
  path of an event from the daemon's registry through the forwarder
  (\<open>src/cmd/daemon/control_client.go\<close>, \<open>forwardTaskEvents\<close>) and an unreliable network into the server's
  table.
\<close>

section \<open>Leases\<close>

datatype control_op = RegisterControl id string | UnregisterControl time id string | DisconnectComputer id

fun control_step :: "control_state \<Rightarrow> control_op \<Rightarrow> control_state" where
  "control_step cs (RegisterControl cid conn) = snd (register_control cid conn cs)"
| "control_step cs (UnregisterControl instant cid conn) = snd (unregister_control instant cid conn cs)"
| "control_step cs (DisconnectComputer cid) = disconnect_computer cid cs"

text \<open>A grace period is only ever open for a computer without a connection.\<close>

definition control_ok :: "control_state \<Rightarrow> bool" where
  "control_ok cs \<longleftrightarrow> (\<forall>cid. control_connections cs cid = None \<or> control_grace cs cid = None)"

interpretation leases: op_machine control_step control_ok
proof
  fix s p assume "control_ok s"
  then show "control_ok (control_step s p)"
    by (cases p) (auto simp: control_ok_def register_control_def unregister_control_def disconnect_computer_def)
qed

lemma new_control_ok: "control_ok new_control"
  by (simp add: control_ok_def new_control_def)

section \<open>Operations on deliveries\<close>

datatype remote_op =
    QueueRun time id task_payload
  | AcceptRun remote_env control_state id id string
  | InsertEvent time id remote_event_input
  | Reconcile id "(id \<times> id) list"
  | OtherTables rdb

text \<open>
  \<open>InsertEvent\<close> is the second statement of an append alone: what its check saw may be out of date by then.
  \<open>OtherTables\<close> is any change of the run tables by other services.
\<close>

fun remote_step :: "remote_db \<Rightarrow> remote_op \<Rightarrow> remote_db" where
  "remote_step d (QueueRun instant computer p) =
     (case queue_remote_run instant computer p d of Inl _ \<Rightarrow> d | Inr (d', _) \<Rightarrow> d')"
| "remote_step d (AcceptRun e cs computer rid conn) =
     (case accept_remote_run e cs computer rid conn d of Inl _ \<Rightarrow> d | Inr (d', _) \<Rightarrow> d')"
| "remote_step d (InsertEvent instant rid i) = fst (insert_delivery_event instant rid i d)"
| "remote_step d (Reconcile computer active) = reconcile_attempts computer active d"
| "remote_step d (OtherTables t) = d\<lparr>r_tables := t\<rparr>"

lemma insert_events:
  "delivery_events (fst (insert_delivery_event instant rid i d)) =
     (if event_stored d rid (ri_attempt i) (ri_seq i) then delivery_events d
      else delivery_events d @ [event_row instant rid i])"
  by (simp add: insert_delivery_event_def)

lemma set_delivery_events [simp]: "delivery_events (set_delivery rid f d) = delivery_events d"
  by (simp add: set_delivery_def)

lemma joined: "delivery_join d computer rid = Some (v, r, a) \<Longrightarrow>
    find (\<lambda>v. dv_run v = rid \<and> dv_computer v = Some computer) (run_deliveries d) = Some v \<and> dv_run v = rid"
  by (auto simp: delivery_join_def find_Some_iff split: option.splits)

lemma accept_txE:
  assumes "accept_tx e computer rid d = Inr (d', dl)"
  obtains v t p where "find (\<lambda>v. dv_run v = rid \<and> dv_computer v = Some computer) (run_deliveries d) = Some v"
    and "rd_attempt dl = (if coalesce (dv_attempt v) = [] then new_id e else coalesce (dv_attempt v))"
    and "dv_run v = rid" and "d' = accept_write e v p t d"
proof (cases "delivery_join d computer rid")
  case None
  with assms show ?thesis by (simp add: accept_tx_def)
next
  case (Some x)
  obtain v r a where x: "x = (v, r, a)" by (cases x)
  define caps where "caps = (case daemon_capabilities e computer of None \<Rightarrow> [] | Some c \<Rightarrow> c)"
  have "\<exists>t p. d' = accept_write e v p t d \<and>
          rd_attempt dl = (if coalesce (dv_attempt v) = [] then new_id e else coalesce (dv_attempt v))"
    using assms unfolding accept_tx_def Some x Let_def caps_def [symmetric]
    by (auto split: option.split_asm if_split_asm sum.split_asm prod.split_asm)
  with joined [OF Some [unfolded x]] that show ?thesis by blast
qed

lemma accept_keeps_events:
  assumes "accept_remote_run e cs computer rid conn d = Inr (d', dl)"
  shows "delivery_events d' = delivery_events d"
proof -
  have "accept_tx e computer rid d = Inr (d', dl)"
    using assms by (simp add: accept_remote_run_def split: if_splits)
  then show ?thesis by (rule accept_txE) (simp add: accept_write_def)
qed

text \<open>The attempt a run is held under, and requests that do not take it away.\<close>

definition held :: "remote_db \<Rightarrow> id \<Rightarrow> id \<Rightarrow> id \<Rightarrow> int \<Rightarrow> bool" where
  "held d computer rid att n \<longleftrightarrow>
     (\<forall>v \<in> set (run_deliveries d). dv_run v = rid \<longrightarrow>
        dv_computer v = Some computer \<and> dv_attempt v = Some att \<and> dv_count v = n)"

definition keeps_delivery :: "id \<Rightarrow> id \<Rightarrow> id \<Rightarrow> remote_op \<Rightarrow> bool" where
  "keeps_delivery computer rid att p =
     (case p of
        QueueRun _ _ q \<Rightarrow> tp_run q \<noteq> rid
      | Reconcile c active \<Rightarrow> c \<noteq> computer \<or> active_by_run active rid = att
      | _ \<Rightarrow> True)"

lemma held_accept:
  assumes "held d computer rid att n" and "att \<noteq> []" and "accept_tx e c rid' d = Inr (d', dl)"
  shows "held d' computer rid att n"
proof -
  from assms(3) obtain v t p where v: "find (\<lambda>v. dv_run v = rid' \<and> dv_computer v = Some c) (run_deliveries d) = Some v"
    "dv_run v = rid'" "d' = accept_write e v p t d"
    by (rule accept_txE)
  have "v \<in> set (run_deliveries d)" using v(1) by (auto simp: find_Some_iff)
  then have "rid' = rid \<Longrightarrow> dv_attempt v = Some att" using assms(1) v(2) by (simp add: held_def)
  then show ?thesis using assms(1,2) v(2,3) by (auto simp: held_def accept_write_def set_delivery_def row_simps)
qed

lemma held_step:
  assumes "held d computer rid att n" and "att \<noteq> []" and "keeps_delivery computer rid att p"
  shows "held (remote_step d p) computer rid att n"
proof (cases p)
  case (AcceptRun e cs c rid' conn)
  show ?thesis
  proof (cases "accept_remote_run e cs c rid' conn d")
    case (Inr x)
    obtain d' dl where x: "x = (d', dl)" by fastforce
    then have "accept_tx e c rid' d = Inr (d', dl)"
      using Inr by (simp add: accept_remote_run_def split: if_splits)
    from held_accept [OF assms(1,2) this] show ?thesis by (simp add: AcceptRun Inr x)
  qed (use assms AcceptRun in simp)
qed (use assms in \<open>auto simp: queue_remote_run_def insert_delivery_event_def reconcile_attempts_def set_delivery_def
      held_def keeps_delivery_def row_simps split: sum.splits if_splits\<close>)

lemma held_run:
  "held d computer rid att n \<Longrightarrow> att \<noteq> [] \<Longrightarrow> list_all (keeps_delivery computer rid att) ops \<Longrightarrow>
   held (foldl remote_step d ops) computer rid att n"
  by (induction ops arbitrary: d) (simp_all add: held_step)

lemma accepted_held:
  assumes "keyed dv_run (run_deliveries d)" and "new_id e \<noteq> []" and "accept_tx e computer rid d = Inr (d', dl)"
  shows "rd_attempt dl \<noteq> [] \<and> (\<exists>n. held d' computer rid (rd_attempt dl) n)"
proof -
  from assms(3) obtain v t p where v: "find (\<lambda>v. dv_run v = rid \<and> dv_computer v = Some computer) (run_deliveries d) = Some v"
    "rd_attempt dl = (if coalesce (dv_attempt v) = [] then new_id e else coalesce (dv_attempt v))"
    "dv_run v = rid" "d' = accept_write e v p t d"
    by (rule accept_txE)
  have in_v: "v \<in> set (run_deliveries d)" "dv_computer v = Some computer" using v(1) by (auto simp: find_Some_iff)
  have only: "w = v" if "w \<in> set (run_deliveries d)" "dv_run w = rid" for w
    using keyed_unique [OF assms(1) that(1) in_v(1)] that(2) v(3) by simp
  have some: "dv_attempt v = Some (coalesce (dv_attempt v))" if "coalesce (dv_attempt v) \<noteq> []"
    using that by (cases "dv_attempt v") simp_all
  have "held d' computer rid (rd_attempt dl) (dv_count v + (if coalesce (dv_attempt v) = [] then 1 else 0))"
    unfolding held_def
  proof (intro ballI impI)
    fix w assume w: "w \<in> set (run_deliveries d')" "dv_run w = rid"
    let ?f = "\<lambda>w. if coalesce (dv_attempt v) = []
            then w\<lparr>dv_payload := Some p, dv_attempt := Some (new_id e), dv_accepted := Some (clock e),
                   dv_count := dv_count w + 1\<rparr>
            else w\<lparr>dv_payload := Some p\<rparr>"
    have rows: "run_deliveries d' = update_where (\<lambda>w. dv_run w = rid) ?f (run_deliveries d)"
      by (simp add: v(3,4) accept_write_def set_delivery_def)
    obtain u where u: "u \<in> set (run_deliveries d)" "w = (if dv_run u = rid then ?f u else u)"
      using w(1) unfolding rows set_update_where by (rule imageE)
    with w(2) have "dv_run u = rid" by (simp split: if_splits)
    with u only have "w = ?f v" by simp
    then show "dv_computer w = Some computer \<and> dv_attempt w = Some (rd_attempt dl) \<and>
        dv_count w = dv_count v + (if coalesce (dv_attempt v) = [] then 1 else 0)"
      using in_v(2) some v(2) by simp
  qed
  then show ?thesis using v(2) assms(2) by auto
qed

lemma held_again:
  assumes "held d computer rid att n" and "att \<noteq> []" and "accept_tx e computer rid d = Inr (d', dl)"
  shows "rd_attempt dl = att"
proof -
  from assms(3) obtain v where v: "find (\<lambda>v. dv_run v = rid \<and> dv_computer v = Some computer) (run_deliveries d) = Some v"
    "rd_attempt dl = (if coalesce (dv_attempt v) = [] then new_id e else coalesce (dv_attempt v))" "dv_run v = rid"
    by (rule accept_txE)
  have "v \<in> set (run_deliveries d)" using v(1) by (auto simp: find_Some_iff)
  with assms(1,2) v show ?thesis by (simp add: held_def)
qed

section \<open>The path of an event\<close>

definition maxRemoteEventData :: nat where
  "maxRemoteEventData = 480 * 1024"

text \<open>\<open>json.Valid\<close> and \<open>json.Marshal\<close> of the two documents an event is replaced by.\<close>

record wire_env =
  json_valid :: "string \<Rightarrow> bool"
  marshal_value :: "string \<Rightarrow> string"
  marshal_truncated :: "nat \<Rightarrow> string"

definition wire_data :: "wire_env \<Rightarrow> sse_event \<Rightarrow> string" where
  "wire_data w e =
     (let data = (if json_valid w (ev_data e) then ev_data e else marshal_value w (ev_data e))
      in if length data > maxRemoteEventData then marshal_truncated w (length data) else data)"

record forwarder =
  fw_seq :: int
  fw_batch :: "sse_event list"
  fw_delivered :: bool

record path_cfg =
  pc_wire :: wire_env
  pc_computer :: id
  pc_run :: id
  pc_task :: id
  pc_attempt :: id

record path =
  pa_tm :: task_manager
  pa_fw :: forwarder
  pa_cs :: control_state
  pa_db :: remote_db
  pa_pushed :: "sse_event list"

text \<open>
  What a POST of an event comes to: the request is lost, the server's reply is lost, or the reply arrives.
  \<open>forwardTaskEvents\<close> polls when its batch is empty, sends the first event of the batch until a POST succeeds,
  and after a terminal event its deferred \<open>EndForward\<close> drops the task. \<open>pa_pushed\<close> is a ghost: what was pushed
  for the task.
\<close>

datatype fate = RequestLost | ReplyLost | Replied

datatype path_op =
    Registry daemon_op
  | Poll
  | Upload time string fate
  | Lease control_op
  | Tables remote_op

definition poll_events :: "id \<Rightarrow> task_manager \<Rightarrow> forwarder \<Rightarrow> forwarder" where
  "poll_events tid tm f =
     (if fw_delivered f \<or> fw_batch f \<noteq> [] then f else f\<lparr>fw_batch := events_after tid (fw_seq f) tm\<rparr>)"

definition upload_input :: "path_cfg \<Rightarrow> string \<Rightarrow> sse_event \<Rightarrow> remote_event_input" where
  "upload_input c conn e =
     \<lparr>ri_task = pc_task c, ri_attempt = pc_attempt c, ri_connection = conn, ri_seq = ev_seq e,
      ri_event = ev_event e, ri_data = wire_data (pc_wire c) e\<rparr>"

definition upload_ok :: "path_cfg \<Rightarrow> sse_event \<Rightarrow> sse_event list \<Rightarrow> path \<Rightarrow> path" where
  "upload_ok c e rest s =
     (if terminal_event (ev_event e)
      then s\<lparr>pa_fw := \<lparr>fw_seq = ev_seq e, fw_batch = [], fw_delivered = True\<rparr>,
             pa_tm := end_forward (pc_task c) (pc_attempt c) True (pa_tm s)\<rparr>
      else s\<lparr>pa_fw := (pa_fw s)\<lparr>fw_seq := ev_seq e, fw_batch := rest\<rparr>\<rparr>)"

definition upload :: "path_cfg \<Rightarrow> time \<Rightarrow> string \<Rightarrow> fate \<Rightarrow> path \<Rightarrow> path" where
  "upload c instant conn what s =
     (case fw_batch (pa_fw s) of
        [] \<Rightarrow> s
      | e # rest \<Rightarrow>
          if conn = [] \<or> what = RequestLost then s
          else
            (case append_remote_run_event instant (pa_cs s) (pc_computer c) (pc_run c) (upload_input c conn e) (pa_db s) of
               Inl _ \<Rightarrow> s
             | Inr (d, _) \<Rightarrow>
                 if what = ReplyLost then s\<lparr>pa_db := d\<rparr> else upload_ok c e rest (s\<lparr>pa_db := d\<rparr>)))"

fun path_step :: "path_cfg \<Rightarrow> path \<Rightarrow> path_op \<Rightarrow> path" where
  "path_step c s (Registry p) =
     (case daemon_do (pa_tm s) p of
        Goes tm \<Rightarrow> s\<lparr>pa_tm := tm, pa_pushed := pa_pushed s @ pushed (pc_task c) [p]\<rparr>
      | _ \<Rightarrow> s)"
| "path_step c s Poll = s\<lparr>pa_fw := poll_events (pc_task c) (pa_tm s) (pa_fw s)\<rparr>"
| "path_step c s (Upload instant conn what) = upload c instant conn what s"
| "path_step c s (Lease p) = s\<lparr>pa_cs := control_step (pa_cs s) p\<rparr>"
| "path_step c s (Tables p) = s\<lparr>pa_db := remote_step (pa_db s) p\<rparr>"

text \<open>
  Nobody else ends the forwarding of the task or reports events of the attempt: \<open>attempt_starts_once\<close> gives
  the attempt one forwarder.
\<close>

definition path_allowed :: "path_cfg \<Rightarrow> path_op \<Rightarrow> bool" where
  "path_allowed c p =
     (case p of
        Registry q \<Rightarrow> keeps_log (pc_task c) q
      | Tables (InsertEvent _ rid i) \<Rightarrow> \<not> (rid = pc_run c \<and> ri_attempt i = pc_attempt c)
      | _ \<Rightarrow> True)"

end
