(* ===== verification/Remote_Theorems.thy ===== *)
theory Remote_Theorems
  imports Remote_Machine Run_Invariant "HOL-Library.Sublist"
begin

text \<open>
  What the delivery protocol promises: one lease per computer, one attempt per acceptance, events that reach
  the server's table in the order of pushing and once each, without a gap as long as the daemon's history holds them, and
  streams that miss none of those stored.
\<close>

section \<open>The invariant of the path\<close>

definition wire_row :: "path_cfg \<Rightarrow> sse_event \<Rightarrow> int \<times> string \<times> string" where
  "wire_row c e =
     (ev_seq e, ev_event e, if wire_data (pc_wire c) e = [] then ''{}'' else wire_data (pc_wire c) e)"

definition attempt_events :: "path_cfg \<Rightarrow> remote_db \<Rightarrow> delivery_event_row list" where
  "attempt_events c d = filter (\<lambda>x. de_run x = pc_run c \<and> de_attempt x = pc_attempt c) (delivery_events d)"

definition stored_rows :: "path_cfg \<Rightarrow> remote_db \<Rightarrow> (int \<times> string \<times> string) list" where
  "stored_rows c d = map (\<lambda>x. (de_seq x, de_event x, de_data x)) (attempt_events c d)"

text \<open>
  The forwarder has confirmed \<open>q\<close> events; the server has those and perhaps the next, whose reply was lost;
  the batch is the next segment of the log.
\<close>

definition forwarding :: "path_cfg \<Rightarrow> path \<Rightarrow> nat \<Rightarrow> nat \<Rightarrow> bool" where
  "forwarding c s q m \<longleftrightarrow>
     fw_seq (pa_fw s) = int q \<and> (m = q \<or> m = Suc q \<and> fw_batch (pa_fw s) \<noteq> []) \<and>
     q + length (fw_batch (pa_fw s)) \<le> length (pa_pushed s) \<and>
     fw_batch (pa_fw s) = take (length (fw_batch (pa_fw s))) (drop q (numbered 0 (pa_pushed s))) \<and>
     registry_ok (pa_tm s) \<and> tm_next_seq (pa_tm s) (pc_task c) = int (length (pa_pushed s)) \<and>
     tm_history (pa_tm s) (pc_task c) = numbered 0 (pa_pushed s)"

definition path_ok :: "path_cfg \<Rightarrow> path \<Rightarrow> bool" where
  "path_ok c s \<longleftrightarrow>
     (\<exists>m. m \<le> length (pa_pushed s) \<and>
        stored_rows c (pa_db s) = map (wire_row c) (take m (numbered 0 (pa_pushed s))) \<and>
        (if fw_delivered (pa_fw s) then fw_batch (pa_fw s) = [] \<and> m > 0 \<and> terminal_event (ev_event (pa_pushed s ! (m - 1)))
         else \<exists>q. forwarding c s q m))"

definition small_log :: "path \<Rightarrow> bool" where
  "small_log s \<longleftrightarrow> sizes (pa_pushed s) \<le> maxTaskEventHistoryBytes"

lemma sizes_length: "16 * int (length es) \<le> sizes es"
  by (induction es) (simp_all add: event_size_def)

lemma small_log_length: "sizes es \<le> maxTaskEventHistoryBytes \<Longrightarrow> int (length es) < max_int64"
  using sizes_length [of es] by (simp add: maxTaskEventHistoryBytes_def max_int64_def)

lemma take_append_le: "n \<le> length xs \<Longrightarrow> take n (xs @ ys) = take n xs"
  by simp

lemma log_append: "numbered k (es @ fs) = numbered k es @ numbered (k + int (length es)) fs"
  by (induction k es rule: numbered.induct) (simp_all add: algebra_simps)

lemma numbered_nth: "i < length es \<Longrightarrow> numbered k es ! i = (es ! i)\<lparr>ev_seq := k + int i + 1\<rparr>"
proof (induction es arbitrary: k i)
  case (Cons e es)
  then show ?case by (cases i) (simp_all add: algebra_simps)
qed simp

lemma path_ok_registry:
  assumes ok: "path_ok c s" and keep: "keeps_log (pc_task c) p" and small: "small_log (path_step c s (Registry p))"
  shows "path_ok c (path_step c s (Registry p))"
proof (cases "daemon_do (pa_tm s) p")
  case (Goes tm)
  let ?new = "pushed (pc_task c) [p]"
  let ?s = "s\<lparr>pa_tm := tm, pa_pushed := pa_pushed s @ ?new\<rparr>"
  have s: "path_step c s (Registry p) = ?s" using Goes by simp
  from ok obtain m where m: "m \<le> length (pa_pushed s)"
    "stored_rows c (pa_db s) = map (wire_row c) (take m (numbered 0 (pa_pushed s)))"
    and rest: "if fw_delivered (pa_fw s) then fw_batch (pa_fw s) = [] \<and> m > 0 \<and> terminal_event (ev_event (pa_pushed s ! (m - 1)))
       else \<exists>q. forwarding c s q m"
    by (auto simp: path_ok_def)
  have stored: "stored_rows c (pa_db ?s) = map (wire_row c) (take m (numbered 0 (pa_pushed ?s)))"
    using m by (simp add: log_append)
  have "path_ok c ?s"
  proof (cases "fw_delivered (pa_fw s)")
    case True
    with rest m stored show ?thesis
      unfolding path_ok_def by (intro exI [of _ m]) (auto simp: nth_append)
  next
    case False
    with rest obtain q where q: "forwarding c s q m" by auto
    have small': "sizes (pa_pushed s @ ?new) \<le> maxTaskEventHistoryBytes" using small unfolding s by (simp add: small_log_def)
    then have small0: "sizes (pa_pushed s) \<le> maxTaskEventHistoryBytes" using sizes_nonneg [of ?new] by simp
    have hist: "tm_history (pa_tm s) (pc_task c) = drop 0 (numbered 0 (pa_pushed s))" using q by (simp add: forwarding_def)
    have step: "tm_next_seq tm (pc_task c) = int (length (pa_pushed s @ ?new)) \<and>
        tm_history tm (pc_task c) = numbered 0 (pa_pushed s @ ?new)"
      using log_step [OF _ Goes keep _ small_log_length [OF small0] hist] q small'
      by (auto simp: forwarding_def)
    have "registry_ok tm" using registry_ok_step [of "pa_tm s" p] q Goes by (simp add: forwarding_def)
    with step q have "forwarding c ?s q m" by (simp add: forwarding_def log_append)
    with m(1) stored False show ?thesis
      unfolding path_ok_def by (intro exI [of _ m]) auto
  qed
  with s show ?thesis by simp
qed (use ok in simp_all)

lemma poll_after: "filter (\<lambda>e. ev_seq e > int q) (numbered 0 es) = drop q (numbered 0 es)"
  using numbered_after [of 0 q es] by simp

lemma path_ok_poll:
  assumes "path_ok c s"
  shows "path_ok c (path_step c s Poll)"
proof (cases "fw_delivered (pa_fw s) \<or> fw_batch (pa_fw s) \<noteq> []")
  case True
  with assms show ?thesis by (simp add: poll_events_def)
next
  case False
  with assms obtain m q where m: "m \<le> length (pa_pushed s)"
    "stored_rows c (pa_db s) = map (wire_row c) (take m (numbered 0 (pa_pushed s)))" "forwarding c s q m"
    by (auto simp: path_ok_def)
  have "forwarding c (path_step c s Poll) q m"
    using m(3) False by (auto simp: forwarding_def poll_events_def events_after_def poll_after)
  with m False show ?thesis unfolding path_ok_def by (intro exI [of _ m]) (auto simp: poll_events_def)
qed

lemma stored_append:
  "stored_rows c (d\<lparr>delivery_events := delivery_events d @ [x]\<rparr>) =
     stored_rows c d @ (if de_run x = pc_run c \<and> de_attempt x = pc_attempt c then [(de_seq x, de_event x, de_data x)] else [])"
  by (simp add: stored_rows_def attempt_events_def)

lemma stored_seq:
  "event_stored d (pc_run c) (pc_attempt c) n \<longleftrightarrow> n \<in> fst ` set (stored_rows c d)"
  by (force simp: event_stored_def exists_row_iff stored_rows_def attempt_events_def)

lemma numbered_seqs: "fst ` set (map (wire_row c) (take m (numbered 0 es))) = {1 .. int (min m (length es))}"
proof -
  have "map ev_seq (numbered k es) = map (\<lambda>i. k + int i + 1) [0 ..< length es]" for k
    by (rule nth_equalityI) (simp_all add: numbered_nth)
  then have "map ev_seq (take m (numbered 0 es)) = map (\<lambda>i. int i + 1) [0 ..< min m (length es)]"
    by (simp add: take_map [symmetric] take_upt min_def) (simp add: take_map min_def)
  then have "ev_seq ` set (take m (numbered 0 es)) = (\<lambda>i. int i + 1) ` {0 ..< min m (length es)}"
    by (metis list.set_map set_upt)
  also have "\<dots> = {1 .. int (min m (length es))}"
  proof -
    have "x \<in> (\<lambda>i. int i + 1) ` {0 ..< n}" if "1 \<le> x" "x \<le> int n" for x n
      using that by (intro image_eqI [of _ _ "nat (x - 1)"]) auto
    then show ?thesis by auto
  qed
  finally show ?thesis by (simp add: wire_row_def image_image)
qed

lemma append_cases:
  assumes "append_remote_run_event instant cs computer rid i d = Inr (d', out)"
  shows "d' = (if event_stored d rid (ri_attempt i) (ri_seq i) then d
               else d\<lparr>delivery_events := delivery_events d @ [event_row instant rid i]\<rparr>)"
  using assms by (auto simp: append_remote_run_event_def insert_delivery_event_def split: option.splits if_splits)

lemma path_ok_upload:
  assumes ok: "path_ok c s" and small: "small_log s"
  shows "path_ok c (path_step c s (Upload instant conn what))"
proof (cases "fw_batch (pa_fw s)")
  case Nil
  with ok show ?thesis by (simp add: upload_def)
next
  case (Cons e rest)
  show ?thesis
  proof (cases "append_remote_run_event instant (pa_cs s) (pc_computer c) (pc_run c) (upload_input c conn e) (pa_db s)")
    case (Inl err)
    with ok Cons show ?thesis by (simp add: upload_def)
  next
    case (Inr x)
    obtain d out where x: "x = (d, out)" by fastforce
    show ?thesis
    proof (cases "conn = [] \<or> what = RequestLost")
      case True
      with ok Cons show ?thesis by (simp add: upload_def)
    next
      case False
      then have sent: "conn \<noteq> []" "what \<noteq> RequestLost" by simp_all
      from ok Cons obtain m q where m: "m \<le> length (pa_pushed s)"
        "stored_rows c (pa_db s) = map (wire_row c) (take m (numbered 0 (pa_pushed s)))"
        and nd: "\<not> fw_delivered (pa_fw s)" and fwd: "forwarding c s q m"
        by (auto simp: path_ok_def split: if_splits)
      have ne: "fw_batch (pa_fw s) \<noteq> []" using Cons by simp
      have q: "q < length (pa_pushed s)" and e: "e = numbered 0 (pa_pushed s) ! q"
        and rest: "rest = take (length rest) (drop (Suc q) (numbered 0 (pa_pushed s)))"
        and len: "Suc q + length rest \<le> length (pa_pushed s)"
        using fwd Cons by (auto simp: forwarding_def take_Suc_conv_app_nth Cons_nth_drop_Suc [symmetric])
      have seq: "ev_seq e = int q + 1" and name: "ev_event e = ev_event (pa_pushed s ! q)"
        using q e by (simp_all add: numbered_nth)
      have stored: "stored_rows c d = map (wire_row c) (take (Suc q) (numbered 0 (pa_pushed s)))"
      proof (cases "m = q")
        case True
        then have "\<not> event_stored (pa_db s) (pc_run c) (pc_attempt c) (ev_seq e)"
          using q by (simp add: stored_seq m(2) numbered_seqs seq del: set_map)
        then show ?thesis
          using append_cases [OF Inr [unfolded x]] m(2) True q e
          by (simp add: upload_input_def stored_append event_row_def wire_row_def take_Suc_conv_app_nth)
      next
        case False
        then have Suc: "m = Suc q" using fwd by (simp add: forwarding_def)
        then have "event_stored (pa_db s) (pc_run c) (pc_attempt c) (ev_seq e)"
          using m(1) by (simp add: stored_seq m(2) numbered_seqs seq del: set_map)
        then show ?thesis
          using append_cases [OF Inr [unfolded x]] m(2) Suc by (simp add: upload_input_def)
      qed
      show ?thesis
      proof (cases "what = ReplyLost")
        case True
        have "forwarding c (s\<lparr>pa_db := d\<rparr>) q (Suc q)" using fwd ne unfolding forwarding_def by auto
        with stored q nd show ?thesis
          unfolding path_ok_def by (intro exI [of _ "Suc q"]) (auto simp: upload_def Cons Inr x sent True)
      next
        case False
        note go = False sent
        show ?thesis
        proof (cases "terminal_event (ev_event e)")
          case True
          with stored q show ?thesis
            unfolding path_ok_def by (intro exI [of _ "Suc q"]) (simp add: upload_def Cons Inr x go upload_ok_def name)
        next
          case False
          let ?s = "upload_ok c e rest (s\<lparr>pa_db := d\<rparr>)"
          have "forwarding c ?s (Suc q) (Suc q)"
            using fwd rest len seq False by (simp add: forwarding_def upload_ok_def)
          with stored q nd False show ?thesis
            unfolding path_ok_def by (intro exI [of _ "Suc q"]) (auto simp: upload_def Cons Inr x go upload_ok_def)
        qed
      qed
    qed
  qed
qed

lemma small_log_back: "small_log (path_step c s p) \<Longrightarrow> small_log s"
proof (cases p)
  case (Registry q)
  assume "small_log (path_step c s p)"
  then show ?thesis
    using sizes_nonneg [of "pushed (pc_task c) [q]"]
    by (auto simp: Registry small_log_def split: outcome.splits)
qed (auto simp: small_log_def upload_def upload_ok_def split: list.splits if_splits sum.splits prod.splits)

lemma stored_rows_insert:
  "\<not> (rid = pc_run c \<and> ri_attempt i = pc_attempt c) \<Longrightarrow>
   stored_rows c (fst (insert_delivery_event instant rid i d)) = stored_rows c d"
  by (auto simp: insert_delivery_event_def stored_append event_row_def)

lemma stored_rows_events: "delivery_events d' = delivery_events d \<Longrightarrow> stored_rows c d' = stored_rows c d"
  by (simp add: stored_rows_def attempt_events_def)

lemma remote_step_rows:
  assumes "path_allowed c (Tables p)"
  shows "stored_rows c (remote_step d p) = stored_rows c d"
proof (cases p)
  case (InsertEvent instant rid i)
  with assms show ?thesis by (simp add: path_allowed_def stored_rows_insert)
next
  case (AcceptRun e cs c' rid conn)
  then show ?thesis by (auto intro: stored_rows_events dest: accept_keeps_events split: sum.split)
qed (auto intro!: stored_rows_events simp: queue_remote_run_def reconcile_attempts_def)

lemma path_ok_same:
  "path_ok c s \<Longrightarrow> stored_rows c (pa_db s') = stored_rows c (pa_db s) \<Longrightarrow> pa_tm s' = pa_tm s \<Longrightarrow>
   pa_fw s' = pa_fw s \<Longrightarrow> pa_pushed s' = pa_pushed s \<Longrightarrow> path_ok c s'"
  unfolding path_ok_def forwarding_def by (simp only:)

lemma path_ok_step:
  assumes "path_ok c s" and "path_allowed c p" and "small_log (path_step c s p)"
  shows "path_ok c (path_step c s p)"
proof (cases p)
  case (Registry q)
  from assms(2) have "keeps_log (pc_task c) q" by (simp add: Registry path_allowed_def)
  from path_ok_registry [OF assms(1) this] assms(3) show ?thesis by (simp only: Registry)
next
  case Poll
  with assms(1) show ?thesis by (simp only: path_ok_poll)
next
  case (Upload instant conn what)
  with assms small_log_back [OF assms(3)] show ?thesis by (simp only: path_ok_upload)
next
  case (Lease q)
  show ?thesis by (rule path_ok_same [OF assms(1)]) (simp_all add: Lease)
next
  case (Tables q)
  show ?thesis by (rule path_ok_same [OF assms(1)]) (use assms(2) in \<open>simp_all add: Tables remote_step_rows\<close>)
qed

lemma path_run:
  "path_ok c s \<Longrightarrow> list_all (path_allowed c) ops \<Longrightarrow> small_log (foldl (path_step c) s ops) \<Longrightarrow>
   path_ok c (foldl (path_step c) s ops)"
proof (induction ops rule: rev_induct)
  case (snoc p ops)
  have "small_log (foldl (path_step c) s ops)" using small_log_back snoc.prems(3) by simp
  with snoc show ?case by (simp add: path_ok_step)
qed simp

definition start_path :: "control_state \<Rightarrow> remote_db \<Rightarrow> path" where
  "start_path cs d =
     \<lparr>pa_tm = new_task_manager, pa_fw = \<lparr>fw_seq = 0, fw_batch = [], fw_delivered = False\<rparr>, pa_cs = cs,
      pa_db = d, pa_pushed = []\<rparr>"

lemma start_path_ok: "stored_rows c d = [] \<Longrightarrow> path_ok c (start_path cs d)"
  unfolding path_ok_def forwarding_def
  by (intro exI [of _ 0]) (auto simp: start_path_def new_registry_ok, auto simp: new_task_manager_def)

section \<open>The path when the history is trimmed\<close>

text \<open>
  What the server stored is a part of what was pushed, in order; the batch follows what was confirmed.
\<close>

definition trimmed_ok :: "path_cfg \<Rightarrow> path \<Rightarrow> bool" where
  "trimmed_ok c s \<longleftrightarrow>
     registry_ok (pa_tm s) \<and> tm_next_seq (pa_tm s) (pc_task c) = int (length (pa_pushed s)) \<and>
     (\<exists>k. tm_history (pa_tm s) (pc_task c) = drop k (numbered 0 (pa_pushed s)) \<and>
          (sizes (pa_pushed s) \<le> maxTaskEventHistoryBytes \<longrightarrow> k = 0) \<and> k \<le> length (pa_pushed s) - 1)"

definition sending :: "path_cfg \<Rightarrow> path \<Rightarrow> sse_event list \<Rightarrow> bool" where
  "sending c s ys \<longleftrightarrow>
     subseq (ys @ fw_batch (pa_fw s)) (numbered 0 (pa_pushed s)) \<and> 0 \<le> fw_seq (pa_fw s) \<and>
     (\<forall>e \<in> set ys. ev_seq e \<le> fw_seq (pa_fw s)) \<and> (\<forall>e \<in> set (fw_batch (pa_fw s)). fw_seq (pa_fw s) < ev_seq e)"

definition log_ok :: "path_cfg \<Rightarrow> path \<Rightarrow> bool" where
  "log_ok c s \<longleftrightarrow>
     (\<exists>xs. stored_rows c (pa_db s) = map (wire_row c) xs \<and> subseq xs (numbered 0 (pa_pushed s)) \<and>
        (if fw_delivered (pa_fw s) then fw_batch (pa_fw s) = [] \<and> xs \<noteq> [] \<and> terminal_event (ev_event (last xs))
         else trimmed_ok c s \<and>
              (\<exists>ys. sending c s ys \<and> (xs = ys \<or> fw_batch (pa_fw s) \<noteq> [] \<and> xs = ys @ [hd (fw_batch (pa_fw s))]))))"

lemma subseq_more: "subseq xs ys \<Longrightarrow> subseq xs (ys @ zs)"
  by (rule subseq_order.trans [OF _ prefix_imp_subseq [OF prefixI [OF refl]]])

lemma sorted_subseq: "subseq xs ys \<Longrightarrow> sorted_wrt P ys \<Longrightarrow> sorted_wrt P xs"
proof (induction rule: list_emb.induct)
  case (list_emb_Cons2 x y xs ys)
  then show ?case using list_emb_set [of "(=)" xs ys] by fastforce
qed simp_all

lemma numbered_gt: "x \<in> set (numbered k es) \<Longrightarrow> k < ev_seq x"
  using numbered_above [of k k es] by (auto simp: filter_id_conv)

lemma numbered_sorted: "sorted_wrt (\<lambda>x y. ev_seq x < ev_seq y) (numbered k es)"
proof (induction k es rule: numbered.induct)
  case (2 k e es)
  then show ?case using numbered_gt [of _ "k + 1" es] by simp
qed simp

lemma numbered_split: "numbered 0 es = filter (\<lambda>e. ev_seq e \<le> int q) (numbered 0 es) @ drop q (numbered 0 es)"
proof (induction es rule: rev_induct)
  case (snoc e es)
  show ?case
  proof (cases "q \<le> length es")
    case True
    with snoc show ?thesis by (auto simp: numbered_snoc)
  next
    case False
    with snoc show ?thesis by (simp add: numbered_snoc)
  qed
qed simp

lemma registry_kept:
  assumes tm: "trimmed_ok c s" and keep: "keeps_log (pc_task c) p" and go: "daemon_do (pa_tm s) p = Goes tm"
    and few: "int (length (pa_pushed s)) < max_int64"
  shows "trimmed_ok c (s\<lparr>pa_tm := tm, pa_pushed := pa_pushed s @ pushed (pc_task c) [p]\<rparr>)"
proof -
  from tm obtain k where k: "tm_history (pa_tm s) (pc_task c) = drop k (numbered 0 (pa_pushed s))"
    "sizes (pa_pushed s) \<le> maxTaskEventHistoryBytes \<longrightarrow> k = 0" "k \<le> length (pa_pushed s) - 1"
    and ok: "registry_ok (pa_tm s)" "tm_next_seq (pa_tm s) (pc_task c) = int (length (pa_pushed s))"
    by (auto simp: trimmed_ok_def)
  have "registry_ok tm" using registry_ok_step [of "pa_tm s" p] ok go by simp
  with log_step [OF ok(1) go keep ok(2) few k] show ?thesis unfolding trimmed_ok_def by simp
qed

lemma log_ok_registry:
  assumes ok: "log_ok c s" and keep: "keeps_log (pc_task c) p" and few: "int (length (pa_pushed s)) < max_int64"
  shows "log_ok c (path_step c s (Registry p))"
proof (cases "daemon_do (pa_tm s) p")
  case (Goes tm)
  let ?s = "s\<lparr>pa_tm := tm, pa_pushed := pa_pushed s @ pushed (pc_task c) [p]\<rparr>"
  from ok obtain xs where xs: "stored_rows c (pa_db s) = map (wire_row c) xs" "subseq xs (numbered 0 (pa_pushed s))"
    and rest: "if fw_delivered (pa_fw s) then fw_batch (pa_fw s) = [] \<and> xs \<noteq> [] \<and> terminal_event (ev_event (last xs))
      else trimmed_ok c s \<and>
        (\<exists>ys. sending c s ys \<and> (xs = ys \<or> fw_batch (pa_fw s) \<noteq> [] \<and> xs = ys @ [hd (fw_batch (pa_fw s))]))"
    unfolding log_ok_def by blast
  have "subseq xs (numbered 0 (pa_pushed ?s))" using subseq_more [OF xs(2)] by (simp add: log_append)
  moreover have "sending c s ys \<Longrightarrow> sending c ?s ys" for ys
    using subseq_more [of "ys @ fw_batch (pa_fw s)"] by (simp add: sending_def log_append)
  moreover have "trimmed_ok c s \<Longrightarrow> trimmed_ok c ?s" using registry_kept [OF _ keep Goes few] .
  ultimately have "log_ok c ?s" using xs(1) rest unfolding log_ok_def by (auto split: if_splits)
  with Goes show ?thesis by simp
qed (use ok in simp_all)

lemma log_ok_poll:
  assumes ok: "log_ok c s"
  shows "log_ok c (path_step c s Poll)"
proof (cases "fw_delivered (pa_fw s) \<or> fw_batch (pa_fw s) \<noteq> []")
  case True
  with ok show ?thesis by (simp add: poll_events_def)
next
  case False
  let ?N = "numbered 0 (pa_pushed s)" let ?n = "nat (fw_seq (pa_fw s))"
  from ok False obtain ys where ys: "stored_rows c (pa_db s) = map (wire_row c) ys" and tm: "trimmed_ok c s" and sd: "sending c s ys"
    by (auto simp: log_ok_def)
  from tm obtain k where k: "tm_history (pa_tm s) (pc_task c) = drop k ?N" by (auto simp: trimmed_ok_def)
  have q: "fw_seq (pa_fw s) = int ?n" using sd by (simp add: sending_def)
  let ?b = "events_after (pc_task c) (fw_seq (pa_fw s)) (pa_tm s)"
  have b: "?b = drop (max ?n k) ?N"
    unfolding events_after_def k by (subst q) (rule retained_after)
  have "subseq ys (filter (\<lambda>e. ev_seq e \<le> int ?n) ?N)"
  proof -
    have "subseq (filter (\<lambda>e. ev_seq e \<le> int ?n) ys) (filter (\<lambda>e. ev_seq e \<le> int ?n) ?N)"
      using sd False by (intro subseq_filter) (simp add: sending_def)
    moreover have "filter (\<lambda>e. ev_seq e \<le> int ?n) ys = ys" using sd q by (auto simp: sending_def filter_id_conv)
    ultimately show ?thesis by simp
  qed
  moreover have "subseq (drop (max ?n k) ?N) (drop ?n ?N)"
  proof -
    have "drop (max ?n k) ?N = drop (max ?n k - ?n) (drop ?n ?N)" by simp
    then show ?thesis by (metis append_take_drop_id list_emb_append2 subseq_order.order_refl)
  qed
  ultimately have "subseq (ys @ ?b) (filter (\<lambda>e. ev_seq e \<le> int ?n) ?N @ drop ?n ?N)" unfolding b by (rule list_emb_append_mono)
  then have "subseq (ys @ ?b) ?N" by (metis numbered_split)
  moreover have "fw_seq (pa_fw s) < ev_seq e" if "e \<in> set ?b" for e
    using that by (simp add: events_after_def)
  ultimately have "sending c (s\<lparr>pa_fw := (pa_fw s)\<lparr>fw_batch := ?b\<rparr>\<rparr>) ys" using sd by (simp add: sending_def)
  then have "log_ok c (s\<lparr>pa_fw := (pa_fw s)\<lparr>fw_batch := ?b\<rparr>\<rparr>)"
    using ys tm sd False unfolding log_ok_def trimmed_ok_def sending_def by auto
  with False show ?thesis by (simp add: poll_events_def)
qed

lemma log_ok_upload:
  assumes ok: "log_ok c s"
  shows "log_ok c (path_step c s (Upload instant conn what))"
proof (cases "fw_batch (pa_fw s)")
  case Nil
  with ok show ?thesis by (simp add: upload_def)
next
  case (Cons e rest)
  show ?thesis
  proof (cases "append_remote_run_event instant (pa_cs s) (pc_computer c) (pc_run c) (upload_input c conn e) (pa_db s)")
    case (Inl err)
    with ok Cons show ?thesis by (simp add: upload_def)
  next
    case (Inr x)
    obtain d out where x: "x = (d, out)" by fastforce
    show ?thesis
    proof (cases "conn = [] \<or> what = RequestLost")
      case True
      with ok Cons show ?thesis by (simp add: upload_def)
    next
      case False
      then have sent: "conn \<noteq> []" "what \<noteq> RequestLost" by simp_all
      let ?N = "numbered 0 (pa_pushed s)"
      from ok Cons obtain xs ys where xs: "stored_rows c (pa_db s) = map (wire_row c) xs" "xs = ys \<or> xs = ys @ [e]"
        and nd: "\<not> fw_delivered (pa_fw s)" and tm: "trimmed_ok c s" and sd: "sending c s ys"
        by (auto simp: log_ok_def split: if_splits)
      have sub: "subseq ((ys @ [e]) @ rest) ?N" using sd Cons by (simp add: sending_def)
      then have sorted: "sorted_wrt (\<lambda>x y. ev_seq x < ev_seq y) ((ys @ [e]) @ rest)"
        by (rule sorted_subseq [OF _ numbered_sorted])
      have "0 \<le> fw_seq (pa_fw s)" "fw_seq (pa_fw s) < ev_seq e" using sd Cons by (simp_all add: sending_def)
      then have e: "0 \<le> ev_seq e" by simp
      have stored: "stored_rows c d = map (wire_row c) (ys @ [e])"
      proof (cases "xs = ys")
        case True
        have "ev_seq e \<notin> ev_seq ` set ys" using sorted by (auto simp: sorted_wrt_append)
        then have "\<not> event_stored (pa_db s) (pc_run c) (pc_attempt c) (ev_seq e)"
          by (simp add: stored_seq xs(1) True image_image wire_row_def)
        then show ?thesis using append_cases [OF Inr [unfolded x]] xs(1) True
          by (simp add: upload_input_def stored_append event_row_def wire_row_def)
      next
        case False
        with xs(2) have xs': "xs = ys @ [e]" by simp
        then have "event_stored (pa_db s) (pc_run c) (pc_attempt c) (ev_seq e)"
          by (simp add: stored_seq xs(1) image_image wire_row_def)
        then show ?thesis using append_cases [OF Inr [unfolded x]] xs(1) xs' by (simp add: upload_input_def)
      qed
      have all: "subseq (ys @ [e]) ?N" by (rule subseq_order.trans [OF subseq_more sub]) (rule subseq_order.order_refl)
      show ?thesis
      proof (cases "what = ReplyLost")
        case True
        have "trimmed_ok c (s\<lparr>pa_db := d\<rparr>)" "sending c (s\<lparr>pa_db := d\<rparr>) ys"
          using tm sd by (simp_all add: trimmed_ok_def sending_def)
        then have "log_ok c (s\<lparr>pa_db := d\<rparr>)"
          unfolding log_ok_def using stored all nd Cons by (intro exI [of _ "ys @ [e]"]) auto
        then show ?thesis by (simp add: upload_def Cons Inr x sent True)
      next
        case False
        note go = False sent
        show ?thesis
        proof (cases "terminal_event (ev_event e)")
          case True
          with stored all have "log_ok c (upload_ok c e rest (s\<lparr>pa_db := d\<rparr>))"
            unfolding log_ok_def by (intro exI [of _ "ys @ [e]"]) (simp add: upload_ok_def)
          then show ?thesis by (simp add: upload_def Cons Inr x go)
        next
          case False
          let ?s = "upload_ok c e rest (s\<lparr>pa_db := d\<rparr>)"
          have "sending c ?s (ys @ [e])"
            using sub sorted e False by (auto simp: sending_def upload_ok_def sorted_wrt_append)
          moreover have "trimmed_ok c ?s" using tm False by (simp add: trimmed_ok_def upload_ok_def)
          ultimately have "log_ok c ?s" using stored all nd False unfolding log_ok_def
            by (intro exI [of _ "ys @ [e]"]) (auto simp: upload_ok_def)
          then show ?thesis by (simp add: upload_def Cons Inr x go)
        qed
      qed
    qed
  qed
qed

lemma log_ok_same:
  "log_ok c s \<Longrightarrow> stored_rows c (pa_db s') = stored_rows c (pa_db s) \<Longrightarrow> pa_tm s' = pa_tm s \<Longrightarrow>
   pa_fw s' = pa_fw s \<Longrightarrow> pa_pushed s' = pa_pushed s \<Longrightarrow> log_ok c s'"
  unfolding log_ok_def trimmed_ok_def sending_def by (simp only:)

lemma log_ok_step:
  assumes "log_ok c s" and "path_allowed c p" and "int (length (pa_pushed s)) < max_int64"
  shows "log_ok c (path_step c s p)"
proof (cases p)
  case (Registry q)
  from assms(2) have "keeps_log (pc_task c) q" by (simp add: Registry path_allowed_def)
  from log_ok_registry [OF assms(1) this assms(3)] show ?thesis by (simp only: Registry)
next
  case Poll
  with assms(1) show ?thesis by (simp only: log_ok_poll)
next
  case (Upload instant conn what)
  with assms(1) show ?thesis by (simp only: log_ok_upload)
next
  case (Lease q)
  show ?thesis by (rule log_ok_same [OF assms(1)]) (simp_all add: Lease)
next
  case (Tables q)
  show ?thesis by (rule log_ok_same [OF assms(1)]) (use assms(2) in \<open>simp_all add: Tables remote_step_rows\<close>)
qed

lemma pushed_grows: "length (pa_pushed s) \<le> length (pa_pushed (path_step c s p))"
  by (cases p) (auto simp: upload_def upload_ok_def split: outcome.splits list.splits if_splits sum.splits prod.splits)

lemma path_log_run:
  "log_ok c s \<Longrightarrow> list_all (path_allowed c) ops \<Longrightarrow> int (length (pa_pushed (foldl (path_step c) s ops))) < max_int64 \<Longrightarrow>
   log_ok c (foldl (path_step c) s ops)"
proof (induction ops rule: rev_induct)
  case (snoc p ops)
  have "int (length (pa_pushed (foldl (path_step c) s ops))) < max_int64"
    using pushed_grows [of "foldl (path_step c) s ops" c p] snoc.prems(3) by simp
  with snoc show ?case by (simp add: log_ok_step)
qed simp

lemma start_log_ok: "stored_rows c d = [] \<Longrightarrow> log_ok c (start_path cs d)"
  unfolding log_ok_def trimmed_ok_def sending_def
  by (intro exI [of _ "[]"]) (auto simp: start_path_def new_registry_ok, auto simp: new_task_manager_def)

section \<open>Streams\<close>

fun up_to_terminal :: "delivery_event_row list \<Rightarrow> delivery_event_row list" where
  "up_to_terminal [] = []"
| "up_to_terminal (x # xs) = (if terminal_event (de_event x) then [x] else x # up_to_terminal xs)"

abbreviation event_key :: "delivery_event_row \<Rightarrow> id \<times> int" where
  "event_key x \<equiv> (de_attempt x, de_seq x)"

lemma pump_seen: "event_key ` set xs \<subseteq> set seen \<Longrightarrow> pump seen (xs @ ys) = pump seen ys"
  by (induction xs) auto

lemma pump_fresh:
  "distinct (map event_key xs) \<Longrightarrow> set seen \<inter> event_key ` set xs = {} \<Longrightarrow>
   pump seen (xs @ ys) =
     (if list_ex (\<lambda>x. terminal_event (de_event x)) xs then up_to_terminal xs
      else xs @ pump (rev (map event_key xs) @ seen) ys)"
  by (induction xs arbitrary: seen) auto

lemma up_to_terminal_append:
  "up_to_terminal (xs @ ys) =
     (if list_ex (\<lambda>x. terminal_event (de_event x)) xs then up_to_terminal xs else xs @ up_to_terminal ys)"
  by (induction xs) auto

lemma up_to_terminal_none: "\<not> list_ex (\<lambda>x. terminal_event (de_event x)) xs \<Longrightarrow> up_to_terminal xs = xs"
  by (induction xs) auto

lemma pump_overlap:
  assumes d: "distinct (map event_key (xs @ ys))"
  shows "pump [] (xs @ drop r xs @ ys) = up_to_terminal (xs @ ys)"
proof (cases "list_ex (\<lambda>x. terminal_event (de_event x)) xs")
  case True
  then show ?thesis using pump_fresh [of xs "[]" "drop r xs @ ys"] d by (simp add: up_to_terminal_append)
next
  case False
  let ?seen = "rev (map event_key xs)"
  have "event_key ` set (drop r xs) \<subseteq> set ?seen" by (auto dest: in_set_dropD)
  then have "pump ?seen (drop r xs @ ys) = pump ?seen (ys @ [])" by (simp only: pump_seen append_Nil2)
  also have "\<dots> = up_to_terminal ys"
    using pump_fresh [of ys ?seen "[]"] d by (auto simp: up_to_terminal_none)
  finally show ?thesis using pump_fresh [of xs "[]" "drop r xs @ ys"] d False by (simp add: up_to_terminal_append)
qed

section \<open>Properties\<close>

text \<open>
  However connections register, disconnect and are replaced, the connections whose lease a computer's
  requests may use at a time are exactly the current one, or else the last one within its grace period: a
  replaced connection is refused.
\<close>

theorem one_lease_per_computer:
  "let cs = foldl control_step new_control ops
   in {conn. authorize_control_lease instant cid conn cs} =
        (case control_connections cs cid of
           Some conn \<Rightarrow> {conn}
         | None \<Rightarrow> (case control_grace cs cid of
                      Some (conn, until) \<Rightarrow> if instant < until then {conn} else {}
                    | None \<Rightarrow> {}))"
proof -
  have "control_ok (foldl control_step new_control ops)" by (rule leases.run_inv [OF new_control_ok])
  then have "control_connections (foldl control_step new_control ops) cid = None \<or>
      control_grace (foldl control_step new_control ops) cid = None"
    by (simp add: control_ok_def)
  then show ?thesis by (auto simp: Let_def authorize_control_lease_def split: option.splits if_splits)
qed

text \<open>
  Accepting a run again, after any operations that neither queue it again nor report its attempt as
  unknown to its computer, gives the attempt the first acceptance gave and counts no new delivery.
\<close>

theorem accept_is_idempotent:
  assumes "keyed dv_run (run_deliveries d)" and "new_id e \<noteq> []"
    and "accept_tx e computer rid d = Inr (d1, dl)"
    and "list_all (keeps_delivery computer rid (rd_attempt dl)) ops"
    and "accept_tx e' computer rid (foldl remote_step d1 ops) = Inr (d2, dl2)"
  shows "rd_attempt dl2 = rd_attempt dl \<and>
         (\<exists>n. held d1 computer rid (rd_attempt dl) n \<and> held d2 computer rid (rd_attempt dl) n)"
proof -
  from accepted_held [OF assms(1-3)] obtain n where
    n: "rd_attempt dl \<noteq> []" "held d1 computer rid (rd_attempt dl) n" by blast
  have after: "held (foldl remote_step d1 ops) computer rid (rd_attempt dl) n" by (rule held_run [OF n(2,1) assms(4)])
  show ?thesis using held_again [OF after n(1) assms(5)] held_accept [OF after n(1) assms(5)] n(2) by blast
qed

text \<open>
  C3. Whatever requests and replies are lost on the way, the events of an attempt the server has stored were pushed
  by the daemon for the task, in the order it pushed them and each at most once, and the forwarder ends only after a
  terminal event was stored. As long as all that was pushed fits into the history of 16 MiB, none is missing: they are
  the first ones that were pushed. Beyond that the history drops its oldest events, and those that were not yet
  uploaded are left out. (Fewer than 2^63 - 1 events, which the numbers can count.)
\<close>

theorem events_arrive_in_order_once:
  assumes "stored_rows c d = []" and "list_all (path_allowed c) ops" and "s = foldl (path_step c) (start_path cs d) ops"
    and "int (length (pa_pushed s)) < max_int64"
  shows "(\<exists>xs. stored_rows c (pa_db s) = map (wire_row c) xs \<and> subseq xs (numbered 0 (pa_pushed s)) \<and>
              (fw_delivered (pa_fw s) \<longrightarrow> xs \<noteq> [] \<and> terminal_event (ev_event (last xs)))) \<and>
         (small_log s \<longrightarrow>
            (\<exists>m \<le> length (pa_pushed s). stored_rows c (pa_db s) = map (wire_row c) (take m (numbered 0 (pa_pushed s)))))"
proof -
  have "log_ok c s" unfolding assms(3) by (rule path_log_run [OF start_log_ok [OF assms(1)] assms(2) assms(4) [unfolded assms(3)]])
  then have "\<exists>xs. stored_rows c (pa_db s) = map (wire_row c) xs \<and> subseq xs (numbered 0 (pa_pushed s)) \<and>
      (fw_delivered (pa_fw s) \<longrightarrow> xs \<noteq> [] \<and> terminal_event (ev_event (last xs)))"
    unfolding log_ok_def by (auto split: if_splits)
  moreover have "\<exists>m \<le> length (pa_pushed s). stored_rows c (pa_db s) = map (wire_row c) (take m (numbered 0 (pa_pushed s)))"
    if "small_log s"
    using path_run [OF start_path_ok [OF assms(1)] assms(2)] that unfolding assms(3) path_ok_def by blast
  ultimately show ?thesis by blast
qed

text \<open>
  A stream that was registered before the stored events of its task are read delivers every event of the
  task exactly once and in order, up to the first terminal one, although events stored in between arrive
  twice.
\<close>

theorem stream_misses_nothing:
  assumes "delivery_events d' = delivery_events d @ later"
    and "sorted (map (\<lambda>x. (de_created x, de_seq x)) (filter (\<lambda>x. de_task x = tid) (delivery_events d)))"
    and "distinct (map event_key (filter (\<lambda>x. de_task x = tid) (delivery_events d')))"
    and "r \<le> length (filter (\<lambda>x. de_task x = tid) (delivery_events d))"
  shows "pump [] (stored_history tid d @ drop r (filter (\<lambda>x. de_task x = tid) (delivery_events d'))) =
         up_to_terminal (filter (\<lambda>x. de_task x = tid) (delivery_events d'))"
proof -
  let ?L = "filter (\<lambda>x. de_task x = tid)"
  have "stored_history tid d = ?L (delivery_events d)"
    using sort_key_id_if_sorted [OF assms(2)] by (simp add: stored_history_def)
  then show ?thesis
    using pump_overlap [of "?L (delivery_events d)" "?L later" r] assms(1,3,4) by simp
qed

section \<open>Witnesses\<close>

definition ex_payload :: task_payload where
  "ex_payload =
     \<lparr>tp_task = ''t1'', tp_run = ''r1'', tp_agent = [], tp_channel = [], tp_provider = [], tp_node = [],
      tp_origin_task = [], tp_resume = [], tp_fresh = False, tp_retire = [], tp_code_review = True,
      tp_team_version = [], tp_skills = [], tp_messages = [], tp_cold_start = [], tp_context = []\<rparr>"

definition ex_run_scope :: run_scope where
  "ex_run_scope = \<lparr>trigger_type = [], trigger_message = None, scope_channel = None, scope_thread = None, scope_node = None\<rparr>"

definition ex_open_run :: run_row where
  "ex_open_run =
     \<lparr>rn_id = ''r1'', rn_agent = ''a1'', rn_daemon = None, rn_session = None, rn_rollover = None,
      rn_scope = ex_run_scope, rn_status = AgentRunStatusQueued, rn_activity = [], rn_tool = None, rn_input = None,
      rn_source = None, rn_transcript = None, rn_usage = UsageEmpty, rn_started = 0, rn_backend = None,
      rn_updated = 0, rn_finished = None,
      rn_wake = \<lparr>freshness_seen = 0, wake_first = 0, wake_latest = 0, wake_visible = False\<rparr>\<rparr>"

definition ex_remote_env :: "string \<Rightarrow> remote_env" where
  "ex_remote_env n =
     \<lparr>clock = 0, month_start = 0, new_id = n, new_event_id = ''e1'', sha_hex = (\<lambda>s. s), selection_guard = (\<lambda>_. None),
      daemon_capabilities = (\<lambda>_. None), open_tasks_summary = (\<lambda>_. []), continuity_packet = (\<lambda>_ _ _. Inr []),
      sign_token = (\<lambda>_ _ _ _. Some ''token'')\<rparr>"

definition ex_remote_db :: remote_db where
  "ex_remote_db =
     \<lparr>r_tables = empty_rdb\<lparr>runs := [ex_open_run],
                          owned_agents := [\<lparr>a_id = ''a1'', a_name = ''bot'', a_owner = ''u1'', a_active = True\<rparr>]\<rparr>,
      run_deliveries = [\<lparr>dv_run = ''r1'', dv_computer = Some ''c1'', dv_payload = Some ex_payload, dv_expires = 10,
                         dv_attempt = None, dv_accepted = None, dv_count = 0\<rparr>],
      delivery_events = []\<rparr>"

lemmas ex_remote = ex_remote_db_def ex_remote_env_def ex_payload_def ex_open_run_def ex_run_scope_def empty_rdb_def
  accept_tx_def delivery_join_def row_by_def validate_revision_runtime_def dispatch_payload_def fill_payload_def
  accept_write_def set_delivery_def update_where_def has_capability_def

lemma ex_accept:
  "\<exists>d1 dl. accept_tx (ex_remote_env ''x1'') ''c1'' ''r1'' ex_remote_db = Inr (d1, dl) \<and> rd_attempt dl = ''x1'' \<and>
     (\<exists>d2 dl2. accept_tx (ex_remote_env ''x2'') ''c1'' ''r1'' d1 = Inr (d2, dl2))"
  by (simp add: ex_remote)

theorem accept_is_idempotent_witness:
  "\<exists>d1 dl d2 dl2. accept_tx (ex_remote_env ''x1'') ''c1'' ''r1'' ex_remote_db = Inr (d1, dl) \<and>
     accept_tx (ex_remote_env ''x2'') ''c1'' ''r1'' d1 = Inr (d2, dl2) \<and> rd_attempt dl2 = ''x1''"
proof -
  from ex_accept obtain d1 dl d2 dl2 where
    first: "accept_tx (ex_remote_env ''x1'') ''c1'' ''r1'' ex_remote_db = Inr (d1, dl)" "rd_attempt dl = ''x1''"
    and again: "accept_tx (ex_remote_env ''x2'') ''c1'' ''r1'' (foldl remote_step d1 []) = Inr (d2, dl2)" by auto
  have "keyed dv_run (run_deliveries ex_remote_db)" "new_id (ex_remote_env ''x1'') \<noteq> []"
    by (simp_all add: keyed_def ex_remote_db_def ex_remote_env_def)
  from accept_is_idempotent [OF this first(1) _ again] first again show ?thesis by auto
qed

definition ex_cfg :: path_cfg where
  "ex_cfg =
     \<lparr>pc_wire = \<lparr>json_valid = (\<lambda>_. True), marshal_value = (\<lambda>s. s), marshal_truncated = (\<lambda>_. ''{}'')\<rparr>,
      pc_computer = ''c1'', pc_run = ''r1'', pc_task = ''t1'', pc_attempt = ''x1''\<rparr>"

definition ex_held_db :: remote_db where
  "ex_held_db =
     ex_remote_db\<lparr>run_deliveries := [\<lparr>dv_run = ''r1'', dv_computer = Some ''c1'', dv_payload = Some ex_payload,
        dv_expires = 10, dv_attempt = Some ''x1'', dv_accepted = Some 0, dv_count = 1\<rparr>]\<rparr>"

definition ex_done_event :: sse_event where
  "ex_done_event = \<lparr>ev_event = ''done'', ev_data = ''{}'', ev_seq = 0\<rparr>"

definition ex_path_ops :: "path_op list" where
  "ex_path_ops =
     [Lease (RegisterControl ''c1'' ''k1''), Registry (PushSSEEvent ''t1'' ex_event), Poll,
      Upload 1 ''k1'' RequestLost, Upload 2 ''k1'' ReplyLost, Registry (PushSSEEvent ''t1'' ex_done_event),
      Upload 3 ''k1'' Replied, Poll, Upload 4 ''k1'' Replied]"

lemma ex_path_facts:
  "stored_rows ex_cfg ex_held_db = []" "list_all (path_allowed ex_cfg) ex_path_ops"
  "small_log (foldl (path_step ex_cfg) (start_path new_control ex_held_db) ex_path_ops)"
  "stored_rows ex_cfg (pa_db (foldl (path_step ex_cfg) (start_path new_control ex_held_db) ex_path_ops)) =
     [(1, ''text'', ''hi''), (2, ''done'', ''{}'')]"
  "fw_delivered (pa_fw (foldl (path_step ex_cfg) (start_path new_control ex_held_db) ex_path_ops))"
  by code_simp+

theorem events_arrive_in_order_once_witness:
  "\<exists>m. [(1, ''text'', ''hi''), (2, ''done'', ''{}'')] =
     map (wire_row ex_cfg) (take m (numbered 0 (pa_pushed (foldl (path_step ex_cfg) (start_path new_control ex_held_db) ex_path_ops))))"
proof -
  have "int (length (pa_pushed (foldl (path_step ex_cfg) (start_path new_control ex_held_db) ex_path_ops))) < max_int64"
    using ex_path_facts(3) by (simp only: small_log_def small_log_length)
  from conjunct2 [OF events_arrive_in_order_once [OF ex_path_facts(1,2) refl this]] ex_path_facts(3)
  obtain m where "stored_rows ex_cfg (pa_db (foldl (path_step ex_cfg) (start_path new_control ex_held_db) ex_path_ops)) =
      map (wire_row ex_cfg) (take m (numbered 0 (pa_pushed (foldl (path_step ex_cfg) (start_path new_control ex_held_db) ex_path_ops))))"
    by blast
  then show ?thesis unfolding ex_path_facts(4) by (rule exI)
qed

definition ex_row :: "int \<Rightarrow> string \<Rightarrow> delivery_event_row" where
  "ex_row n ev = \<lparr>de_run = ''r1'', de_task = ''t1'', de_attempt = ''x1'', de_seq = n, de_event = ev, de_data = ''{}'',
     de_created = n\<rparr>"

theorem stream_misses_nothing_witness:
  "pump [] [ex_row 1 ''text'', ex_row 2 ''text'', ex_row 2 ''text'', ex_row 3 ''done'', ex_row 4 ''text''] =
     [ex_row 1 ''text'', ex_row 2 ''text'', ex_row 3 ''done'']"
  using stream_misses_nothing [of "ex_remote_db\<lparr>delivery_events := [ex_row 1 ''text'', ex_row 2 ''text'', ex_row 3 ''done'', ex_row 4 ''text'']\<rparr>"
      "ex_remote_db\<lparr>delivery_events := [ex_row 1 ''text'', ex_row 2 ''text'']\<rparr>" "[ex_row 3 ''done'', ex_row 4 ''text'']" "''t1''" 1]
  by (simp add: ex_row_def stored_history_def terminal_event_def insort_key_def)

end
