(* ===== verification/Task_Retry.thy ===== *)
theory Task_Retry
  imports Run_Invariant
begin

text \<open>
  Automatic recovery of failed task runs (\<open>service/agent_retry.go\<close>): a sweep over the task and the run
  tables picks runs that failed while their task was theirs, and \<open>retryTaskRun\<close> either gives the task to the
  same agent once more or returns it to its creator.

  \<open>retryTaskRun\<close> commits a transaction (\<open>retry_tx\<close>), asks \<open>triggerAgentForTask\<close> for a run, and records what
  came of it in further statements. \<open>triggerAgentForTask\<close> composes prompts and starts goroutines; it is a
  parameter: whether it could start a run and the tables it leaves, whatever they are. The texts of the
  notices posted to the channel are not modelled, only what they report.
\<close>

section \<open>Data\<close>

definition maxTaskRunAttempts :: nat where "maxTaskRunAttempts = 3"

definition AgentRunTaskRolePrimary :: string where "AgentRunTaskRolePrimary = ''primary''"
definition agentResultContractVisibleMessage :: string where
  "agentResultContractVisibleMessage = ''visible_message''"

definition agentFailureMissingVisibleResult :: string where
  "agentFailureMissingVisibleResult = ''missing_visible_result''"
definition agentFailureDaemonLost :: string where "agentFailureDaemonLost = ''daemon_lost''"
definition agentFailureTimeout :: string where "agentFailureTimeout = ''timeout''"
definition agentFailureProviderTransient :: string where
  "agentFailureProviderTransient = ''provider_transient''"
definition agentFailureContextExhausted :: string where
  "agentFailureContextExhausted = ''context_exhausted''"

lemmas failure_codes =
  agentFailureMissingVisibleResult_def agentFailureDaemonLost_def agentFailureTimeout_def
  agentFailureProviderTransient_def agentFailureContextExhausted_def

definition taskRecoveryModeResumeSession :: string where
  "taskRecoveryModeResumeSession = ''resume_session''"
definition taskRecoveryModeFreshSession :: string where
  "taskRecoveryModeFreshSession = ''fresh_session''"

record retryable_run =
  fr_run :: id
  fr_agent :: id
  fr_task :: id
  fr_finished :: time
  fr_code :: string
  fr_retryable :: bool
  fr_resume :: string

record task_run_recovery =
  rc_previous :: id
  rc_attempt :: nat
  rc_mode :: string
  rc_code :: string
  rc_resume :: string

definition automatic_task_recovery_mode :: "retryable_run \<Rightarrow> string option" where
  "automatic_task_recovery_mode f =
     (if \<not> fr_retryable f then None
      else if fr_code f \<in> {agentFailureDaemonLost, agentFailureTimeout, agentFailureProviderTransient}
      then Some taskRecoveryModeResumeSession
      else if fr_code f \<in> {agentFailureMissingVisibleResult, agentFailureContextExhausted}
      then Some taskRecoveryModeFreshSession
      else None)"

section \<open>The runs of a task\<close>

text \<open>The events that say a failed run has been dealt with.\<close>

definition retry_marks :: "run_event_type list" where
  "retry_marks = [TaskReassigned, TaskRecoveryScheduled, TaskRecoveryBlocked, TaskRetryExhausted]"

definition handled :: "rdb \<Rightarrow> id \<Rightarrow> bool" where
  "handled rd rid = exists_row (\<lambda>x. re_run x = rid \<and> re_type x \<in> set retry_marks) (events rd)"

definition primary_runs :: "rdb \<Rightarrow> id \<Rightarrow> run_row list" where
  "primary_runs rd tid =
     filter (\<lambda>r. exists_row (\<lambda>l. lk_run l = rn_id r \<and> lk_task l = tid \<and> lk_role l = AgentRunTaskRolePrimary) (links rd))
       (runs rd)"

definition latest_primary_run :: "rdb \<Rightarrow> id \<Rightarrow> run_row option" where
  "latest_primary_run rd tid = pick_by later_run (primary_runs rd tid)"

definition result_contract :: "rdb \<Rightarrow> id \<Rightarrow> string option" where
  "result_contract rd rid =
     (case pick_by (\<lambda>a b. re_seq a < re_seq b) (filter (\<lambda>x. re_run x = rid \<and> re_type x = RunStarted) (events rd)) of
        None \<Rightarrow> None
      | Some x \<Rightarrow> member ''result_contract'' (re_payload x))"

definition counted_attempts :: "rdb \<Rightarrow> id \<Rightarrow> nat" where
  "counted_attempts rd tid =
     length (filter (\<lambda>r. result_contract rd (rn_id r) = Some agentResultContractVisibleMessage) (primary_runs rd tid))"

definition last_failure :: "rdb \<Rightarrow> id \<Rightarrow> payload option" where
  "last_failure rd rid =
     map_option re_payload
       (pick_by (\<lambda>a b. re_seq a > re_seq b) (filter (\<lambda>x. re_run x = rid \<and> re_type x = ErrorEvent) (events rd)))"

section \<open>The sweep\<close>

definition recoverable_status :: "task_status \<Rightarrow> bool" where
  "recoverable_status s \<longleftrightarrow> s = TaskStatusTodo \<or> s = TaskStatusInProgress"

text \<open>
  A task an agent selection works on is left alone: \<open>agent_selection_tasks\<close> is a table of that component and
  comes as a parameter.
\<close>

definition is_candidate :: "(id \<Rightarrow> bool) \<Rightarrow> db \<Rightarrow> rdb \<Rightarrow> run_row \<Rightarrow> task_row \<Rightarrow> bool" where
  "is_candidate in_selection d rd r t \<longleftrightarrow>
     (rn_status r = AgentRunStatusFailed \<or> rn_status r = AgentRunStatusTimeout) \<and>
     recoverable_status (t_status t) \<and>
     (t_claimer t = None \<or> t_claimer t = Some (rn_agent r)) \<and>
     (case rn_finished r of None \<Rightarrow> False | Some fin \<Rightarrow> t_updated t \<le> fin) \<and>
     \<not> exists_row (\<lambda>w. w_task w = t_id t \<and> w_status w = Waiting) (waits d) \<and>
     \<not> in_selection (t_id t) \<and>
     result_contract rd (rn_id r) = Some agentResultContractVisibleMessage \<and>
     \<not> handled rd (rn_id r) \<and>
     map_option rn_id (latest_primary_run rd (t_id t)) = Some (rn_id r)"

definition retryable_of :: "rdb \<Rightarrow> run_row \<Rightarrow> task_row \<Rightarrow> payload \<Rightarrow> retryable_run" where
  "retryable_of rd r t p =
     \<lparr>fr_run = rn_id r, fr_agent = rn_agent r, fr_task = t_id t,
      fr_finished = (case rn_finished r of None \<Rightarrow> 0 | Some fin \<Rightarrow> fin),
      fr_code = coalesce (member ''failure_code'' p),
      fr_retryable = (member ''retryable'' p = Some ''true''),
      fr_resume = (case rn_session r of
                     None \<Rightarrow> []
                   | Some sid \<Rightarrow> (case row_by ss_id sid (sessions rd) of None \<Rightarrow> [] | Some s \<Rightarrow> coalesce (ss_external s)))\<rparr>"

definition retry_candidates :: "(id \<Rightarrow> bool) \<Rightarrow> db \<Rightarrow> rdb \<Rightarrow> retryable_run list" where
  "retry_candidates in_selection d rd =
     take 100 (sort_key fr_finished
       (concat (map (\<lambda>l.
          if lk_role l \<noteq> AgentRunTaskRolePrimary then []
          else
            (case (row_by rn_id (lk_run l) (runs rd), row_by t_id (lk_task l) (tasks d), last_failure rd (lk_run l)) of
               (Some r, Some t, Some p) \<Rightarrow> if is_candidate in_selection d rd r t then [retryable_of rd r t p] else []
             | _ \<Rightarrow> [])) (links rd))))"

section \<open>One retry\<close>

datatype retry_outcome =
    RetryIgnored
  | RetryReturned nat bool
  | RetryScheduled task_run_recovery
  | RetryNotStarted nat

definition retry_event_text :: "run_event_type \<Rightarrow> string" where
  "retry_event_text ty = (if ty = TaskRetryExhausted then ''task_retry_exhausted'' else ''task_recovery_blocked'')"

definition append_task_retry_event :: "renv \<Rightarrow> id \<Rightarrow> run_event_type \<Rightarrow> payload \<Rightarrow> rdb \<Rightarrow> rdb" where
  "append_task_retry_event re rid ty p rd =
     rd\<lparr>events := events rd @
          [\<lparr>re_id = new_event_id re, re_run = rid, re_seq = next_seq (events rd) rid, re_type = ty,
            re_message = retry_event_text ty, re_tool = None, re_payload = p\<rparr>]\<rparr>"

definition needs_human :: "nat \<Rightarrow> string \<Rightarrow> payload" where
  "needs_human n code =
     [(''attempts'', nat_text n), (''max_attempts'', nat_text maxTaskRunAttempts), (''failure_code'', code),
      (''next_owner'', ''task_creator''), (''recovery_state'', ''needs_human'')]"

definition recovery_payload :: "task_run_recovery \<Rightarrow> payload" where
  "recovery_payload c =
     [(''previous_run_id'', rc_previous c), (''attempt'', nat_text (rc_attempt c)),
      (''max_attempts'', nat_text maxTaskRunAttempts), (''mode'', rc_mode c), (''workspace_reused'', ''true''),
      (''failure_code'', rc_code c)]"

definition return_task :: "time \<Rightarrow> task_row \<Rightarrow> task_row" where
  "return_task instant t = t\<lparr>t_status := TaskStatusTodo, t_claimer := None, t_updated := instant\<rparr>"

definition reassign_task :: "time \<Rightarrow> id \<Rightarrow> task_row \<Rightarrow> task_row" where
  "reassign_task instant agent t =
     t\<lparr>t_status := TaskStatusInProgress, t_claimer := Some agent, t_updated := instant\<rparr>"

text \<open>The guards of the transaction, on the locked row: whether it goes on, ignores the run or fails.\<close>

definition retry_guard :: "retryable_run \<Rightarrow> db \<Rightarrow> rdb \<Rightarrow> task_error + bool" where
  "retry_guard f d rd =
     (case row_by t_id (fr_task f) (tasks d) of
        None \<Rightarrow> Inr False
      | Some t \<Rightarrow>
          if \<not> recoverable_status (t_status t) \<or>
             (coalesce (t_claimer t) \<noteq> [] \<and> coalesce (t_claimer t) \<noteq> fr_agent f) \<or> t_updated t > fr_finished f
          then Inr False
          else
            (case latest_primary_run rd (fr_task f) of
               None \<Rightarrow> Inl ErrDatabase
             | Some r \<Rightarrow> Inr (rn_id r = fr_run f \<and> \<not> handled rd (fr_run f))))"

text \<open>
  The transaction. \<open>daemon_ready\<close> is whether \<open>ResolveDaemonForAgent\<close> finds a daemon for the agent; a failed
  trigger of the task row aborts it.
\<close>

definition retry_tx ::
  "env \<Rightarrow> renv \<Rightarrow> (id \<Rightarrow> bool) \<Rightarrow> retryable_run \<Rightarrow> db \<times> rdb \<Rightarrow> task_error + (db \<times> rdb) \<times> retry_outcome" where
  "retry_tx e re daemon_ready f s =
     (case s of (d, rd) \<Rightarrow>
     (case retry_guard f d rd of
        Inl err \<Rightarrow> Inl err
      | Inr False \<Rightarrow> Inr (s, RetryIgnored)
      | Inr True \<Rightarrow>
     (let n = counted_attempts rd (fr_task f); mode = automatic_task_recovery_mode f
      in
     if n \<ge> maxTaskRunAttempts \<or> mode = None
     then
       (case update_task (fr_task f) (\<lambda>_. True) (return_task (now e)) d of
          None \<Rightarrow> Inl ErrDatabase
        | Some (d', _) \<Rightarrow>
            Inr ((d', append_task_retry_event re (fr_run f)
                        (if n \<ge> maxTaskRunAttempts then TaskRetryExhausted else TaskRecoveryBlocked)
                        (needs_human n (fr_code f)) rd),
                 RetryReturned n (n \<ge> maxTaskRunAttempts)))
     else if \<not> exists_row (\<lambda>a. a_id a = fr_agent f \<and> a_active a) (agents d) then Inr (s, RetryIgnored)
     else if \<not> daemon_ready (fr_agent f) then Inr (s, RetryIgnored)
     else
       (case update_task (fr_task f) (\<lambda>_. True) (reassign_task (now e) (fr_agent f)) d of
          None \<Rightarrow> Inl ErrDatabase
        | Some (d', _) \<Rightarrow>
            Inr ((d', rd),
                 RetryScheduled \<lparr>rc_previous = fr_run f, rc_attempt = n + 1, rc_mode = the mode,
                                 rc_code = fr_code f, rc_resume = fr_resume f\<rparr>)))))"

text \<open>What is recorded when a run was started, and when none could be.\<close>

definition retry_started :: "renv \<Rightarrow> retryable_run \<Rightarrow> task_run_recovery \<Rightarrow> rdb \<Rightarrow> run_error + rdb" where
  "retry_started re f c rd =
     append_event re rd (fr_run f) TaskRecoveryScheduled ''task recovery scheduled'' [] (recovery_payload c)"

definition retry_not_started ::
  "env \<Rightarrow> renv \<Rightarrow> retryable_run \<Rightarrow> nat \<Rightarrow> db \<times> rdb \<Rightarrow> (task_error + run_error) + db \<times> rdb" where
  "retry_not_started e re f n s =
     (case update_task (fr_task f) (\<lambda>t. t_claimer t = Some (fr_agent f)) (return_task (now e)) (fst s) of
        None \<Rightarrow> Inl (Inl ErrDatabase)
      | Some (d', _) \<Rightarrow>
          (case append_event re (snd s) (fr_run f) TaskRecoveryBlocked ''task recovery could not start'' []
                  (needs_human n (fr_code f)) of
             Inl err \<Rightarrow> Inl (Inr err)
           | Inr rd' \<Rightarrow> Inr (d', rd')))"

definition retry_task_run ::
  "env \<Rightarrow> renv \<Rightarrow> (id \<Rightarrow> bool) \<Rightarrow> (task_run_recovery \<Rightarrow> db \<times> rdb \<Rightarrow> bool \<times> db \<times> rdb) \<Rightarrow> retryable_run \<Rightarrow>
   db \<times> rdb \<Rightarrow> (task_error + run_error) + (db \<times> rdb) \<times> retry_outcome" where
  "retry_task_run e re daemon_ready start f s =
     (case retry_tx e re daemon_ready f s of
        Inl err \<Rightarrow> Inl (Inl err)
      | Inr (s1, RetryScheduled c) \<Rightarrow>
          (case start c s1 of
             (True, d2, rd2) \<Rightarrow>
               (case retry_started re f c rd2 of
                  Inl err \<Rightarrow> Inl (Inr err)
                | Inr rd3 \<Rightarrow> Inr ((d2, rd3), RetryScheduled c))
           | (False, s2) \<Rightarrow>
               (case retry_not_started e re f (rc_attempt c - 1) s2 of
                  Inl err \<Rightarrow> Inl err
                | Inr s3 \<Rightarrow> Inr (s3, RetryNotStarted (rc_attempt c - 1))))
      | Inr (s1, out) \<Rightarrow> Inr (s1, out))"

section \<open>Facts\<close>

lemma handled_append: "handled (append_run_event re rid ty msg tool p rd) rid' \<longleftrightarrow>
    handled rd rid' \<or> (rid' = rid \<and> ty \<in> set retry_marks)"
  by (auto simp: handled_def exists_row_iff append_run_event_def)

lemma handled_append_retry: "handled (append_task_retry_event re rid ty p rd) rid' \<longleftrightarrow>
    handled rd rid' \<or> (rid' = rid \<and> ty \<in> set retry_marks)"
  by (auto simp: handled_def exists_row_iff append_task_retry_event_def)

lemma append_event_handled:
  "append_event re rd rid ty msg tool p = Inr rd' \<Longrightarrow> ty \<in> set retry_marks \<Longrightarrow> handled rd' rid"
  by (auto simp: append_event_def handled_append split: sum.splits)

lemma handled_guard: "handled rd (fr_run f) \<Longrightarrow> retry_guard f d rd \<noteq> Inr True"
  by (auto simp: retry_guard_def split: option.split)

lemma retry_tx_ignores:
  "retry_guard f d rd \<noteq> Inr True \<Longrightarrow> retry_tx e re ready f (d, rd) = Inr (s', out) \<Longrightarrow>
   s' = (d, rd) \<and> out = RetryIgnored"
  by (auto simp: retry_tx_def split: sum.splits bool.splits)

lemma retry_run_ignores:
  assumes "retry_guard f d rd \<noteq> Inr True" and "retry_task_run e re ready start f (d, rd) = Inr (s', out)"
  shows "s' = (d, rd) \<and> out = RetryIgnored"
proof (cases "retry_tx e re ready f (d, rd)")
  case (Inr x)
  obtain s1 out1 where x: "x = (s1, out1)" by fastforce
  have "s1 = (d, rd) \<and> out1 = RetryIgnored" by (rule retry_tx_ignores [OF assms(1) Inr [unfolded x]])
  with assms(2) Inr x show ?thesis by (simp add: retry_task_run_def)
qed (use assms(2) in \<open>simp add: retry_task_run_def\<close>)

end
