(* ===== verification/Retry_Theorems.thy ===== *)
theory Retry_Theorems
  imports Task_Retry Task_Machine
begin

text \<open>
  What automatic recovery promises: a failed run is acted on once, at most three runs are counted, the task
  goes to the same agent or back to its creator; and what a crash between the transaction and the start of
  the run leaves.
\<close>

section \<open>The row a retry leaves\<close>

lemma bump_open:
  assumes "recoverable_status (t_status old)" and "recoverable_status (t_status new)"
  shows "\<exists>v. bump_task_version d old new = Some (new\<lparr>t_version := v\<rparr>)"
proof -
  let ?v = "if same_scope new old \<and> t_status new = t_status old then t_version old else t_version old + 1"
  have "t_status old \<noteq> TaskStatusInReview" "t_status new \<noteq> TaskStatusDone"
    using assms by (auto simp: recoverable_status_def)
  then have "bump_task_version d old new = Some (new\<lparr>t_version := ?v\<rparr>)"
    by (simp add: bump_task_version_def Let_def)
  then show ?thesis by (rule exI)
qed

lemma row_by_replaced:
  "row_by t_id tid ts = Some old \<Longrightarrow> t_id new = tid \<Longrightarrow>
   row_by t_id tid (update_where (\<lambda>r. t_id r = tid) (\<lambda>_. new) ts) = Some new"
  by (induction ts) (auto simp: row_by_def update_where_def)

lemma update_open_task:
  assumes row: "row_by t_id tid (tasks d) = Some old" and "recoverable_status (t_status old)"
    and "recoverable_status (t_status (f old))" and "t_id (f old) = tid"
  shows "\<exists>d' v. update_task tid (\<lambda>_. True) f d = Some (d', 1) \<and>
           row_by t_id tid (tasks d') = Some ((f old)\<lparr>t_version := v\<rparr>)"
proof -
  from bump_open [OF assms(2,3)] obtain v where "bump_task_version d old (f old) = Some ((f old)\<lparr>t_version := v\<rparr>)"
    by blast
  then show ?thesis using row assms(4) by (auto simp: update_task_def row_by_replaced)
qed

lemma guard_facts:
  assumes "retry_guard f d rd = Inr True"
  obtains t r where "row_by t_id (fr_task f) (tasks d) = Some t" "recoverable_status (t_status t)"
    "coalesce (t_claimer t) = [] \<or> coalesce (t_claimer t) = fr_agent f" "t_updated t \<le> fr_finished f"
    "latest_primary_run rd (fr_task f) = Some r" "rn_id r = fr_run f" "\<not> handled rd (fr_run f)"
  using assms by (auto simp: retry_guard_def split: option.splits if_splits)

lemma changed_guard:
  "row_by t_id (fr_task f) (tasks d) = Some t \<Longrightarrow> t_updated t > fr_finished f \<Longrightarrow> retry_guard f d rd = Inr False"
  by (simp add: retry_guard_def)

text \<open>What a task's row is after the transaction, given that its guard held.\<close>

definition task_after :: "retryable_run \<Rightarrow> db \<Rightarrow> db \<Rightarrow> (task_row \<Rightarrow> task_row) \<Rightarrow> bool" where
  "task_after f d d' g \<longleftrightarrow>
     (\<exists>t v. row_by t_id (fr_task f) (tasks d) = Some t \<and>
            row_by t_id (fr_task f) (tasks d') = Some ((g t)\<lparr>t_version := v\<rparr>))"

lemma update_after:
  assumes "retry_guard f d rd = Inr True" and "update_task (fr_task f) (\<lambda>_. True) g d = Some (d', n)"
    and "\<And>t. recoverable_status (t_status (g t))" and "\<And>t. t_id (g t) = t_id t"
  shows "task_after f d d' g"
proof -
  from guard_facts [OF assms(1)] obtain t where
    t: "row_by t_id (fr_task f) (tasks d) = Some t" "recoverable_status (t_status t)" by blast
  have "t_id (g t) = fr_task f" using assms(4) row_by_key [OF t(1)] by simp
  from update_open_task [where f = g, OF t assms(3) this] assms(2) show ?thesis
    using t(1) by (auto simp: task_after_def)
qed

lemma return_open: "recoverable_status (t_status (return_task i t))" "t_id (return_task i t) = t_id t"
  and reassign_open: "recoverable_status (t_status (reassign_task i a t))" "t_id (reassign_task i a t) = t_id t"
  by (simp_all add: return_task_def reassign_task_def recoverable_status_def)

lemma retry_tx_cases:
  assumes "retry_tx e re ready f (d, rd) = Inr ((d', rd'), out)"
  obtains (ignored) "d' = d" "rd' = rd" "out = RetryIgnored"
  | (returned) n where "out = RetryReturned n (n \<ge> maxTaskRunAttempts)" "n = counted_attempts rd (fr_task f)"
      "retry_guard f d rd = Inr True" "task_after f d d' (return_task (now e))" "handled rd' (fr_run f)"
      "n \<ge> maxTaskRunAttempts \<or> automatic_task_recovery_mode f = None"
  | (scheduled) c where "out = RetryScheduled c" "retry_guard f d rd = Inr True" "rd' = rd"
      "task_after f d d' (reassign_task (now e) (fr_agent f))"
      "rc_attempt c = counted_attempts rd (fr_task f) + 1" "rc_attempt c \<le> maxTaskRunAttempts"
      "automatic_task_recovery_mode f = Some (rc_mode c)"
proof (cases "retry_guard f d rd")
  case (Inl err)
  with assms show ?thesis by (simp add: retry_tx_def)
next
  case (Inr b)
  show ?thesis
  proof (cases b)
    case False
    with assms Inr ignored show ?thesis by (simp add: retry_tx_def)
  next
    case True
    define n where "n = counted_attempts rd (fr_task f)"
    show ?thesis
    proof (cases "n \<ge> maxTaskRunAttempts \<or> automatic_task_recovery_mode f = None")
      case stop: True
      with assms Inr True obtain k where
        upd: "update_task (fr_task f) (\<lambda>_. True) (return_task (now e)) d = Some (d', k)"
        and rd': "rd' = append_task_retry_event re (fr_run f)
           (if n \<ge> maxTaskRunAttempts then TaskRetryExhausted else TaskRecoveryBlocked) (needs_human n (fr_code f)) rd"
        and out: "out = RetryReturned n (n \<ge> maxTaskRunAttempts)"
        by (auto simp: retry_tx_def Let_def n_def split: option.splits)
      have "handled rd' (fr_run f)" by (simp add: rd' handled_append_retry retry_marks_def)
      from returned [OF out n_def _ update_after [OF _ upd return_open] this stop] Inr True show ?thesis by simp
    next
      case go: False
      show ?thesis
      proof (cases "exists_row (\<lambda>a. a_id a = fr_agent f \<and> a_active a) (agents d) \<and> ready (fr_agent f)")
        case False
        with assms Inr True go ignored show ?thesis by (auto simp: retry_tx_def Let_def n_def split: if_splits)
      next
        case ready: True
        with assms Inr True go obtain k where
          upd: "update_task (fr_task f) (\<lambda>_. True) (reassign_task (now e) (fr_agent f)) d = Some (d', k)"
          and "rd' = rd"
          and out: "out = RetryScheduled \<lparr>rc_previous = fr_run f, rc_attempt = n + 1,
             rc_mode = the (automatic_task_recovery_mode f), rc_code = fr_code f, rc_resume = fr_resume f\<rparr>"
          by (auto simp: retry_tx_def Let_def n_def split: option.splits)
        from scheduled [OF out _ this(2) update_after [OF _ upd reassign_open]] Inr True go show ?thesis
          by (simp add: n_def)
      qed
    qed
  qed
qed

section \<open>Properties\<close>

text \<open>
  A retry changes something only for the latest run of a task that is still open, not claimed by anybody
  else and unchanged since the run ended. With three counted runs or a failure that is not recoverable it
  leaves the task unclaimed for its creator and marks the run; otherwise it gives the task to the same agent,
  in the mode the failure calls for, as attempt two or three.
\<close>

theorem retry_is_bounded:
  assumes "retry_tx e re ready f (d, rd) = Inr ((d', rd'), out)"
  shows "case out of
           RetryIgnored \<Rightarrow> d' = d \<and> rd' = rd
         | RetryReturned n exhausted \<Rightarrow>
             retry_guard f d rd = Inr True \<and> n = counted_attempts rd (fr_task f) \<and> exhausted = (3 \<le> n) \<and>
             (3 \<le> n \<or> automatic_task_recovery_mode f = None) \<and> handled rd' (fr_run f) \<and>
             (\<exists>t. row_by t_id (fr_task f) (tasks d') = Some t \<and> t_status t = TaskStatusTodo \<and> t_claimer t = None)
         | RetryScheduled c \<Rightarrow>
             retry_guard f d rd = Inr True \<and> rd' = rd \<and>
             rc_attempt c = counted_attempts rd (fr_task f) + 1 \<and> rc_attempt c \<le> 3 \<and>
             automatic_task_recovery_mode f = Some (rc_mode c) \<and>
             (\<exists>t. row_by t_id (fr_task f) (tasks d') = Some t \<and> t_status t = TaskStatusInProgress \<and>
                  t_claimer t = Some (fr_agent f))
         | RetryNotStarted n \<Rightarrow> False"
  using assms
proof (cases rule: retry_tx_cases)
  case (returned n)
  then show ?thesis by (auto simp: task_after_def return_task_def maxTaskRunAttempts_def)
next
  case (scheduled c)
  then show ?thesis by (auto simp: task_after_def reassign_task_def maxTaskRunAttempts_def)
qed simp

text \<open>
  C9. A failed run is acted on once: after a retry that did anything, whatever \<open>triggerAgentForTask\<close> answered
  and did to the tables, another retry of the same run does nothing.
\<close>

theorem retry_acts_once:
  assumes "retry_task_run e re ready start f s = Inr (s', out)" and "out \<noteq> RetryIgnored"
    and "retry_task_run e' re' ready' start' f s' = Inr (s'', out')"
  shows "s'' = s' \<and> out' = RetryIgnored"
proof -
  obtain d rd d' rd' where s: "s = (d, rd)" "s' = (d', rd')" by fastforce
  have "handled rd' (fr_run f)"
  proof (cases "retry_tx e re ready f (d, rd)")
    case (Inl err)
    with assms(1) s show ?thesis by (simp add: retry_task_run_def)
  next
    case (Inr x)
    obtain d1 rd1 o1 where x: "x = ((d1, rd1), o1)" by (metis surj_pair)
    from Inr [unfolded x] show ?thesis
    proof (cases rule: retry_tx_cases)
      case ignored
      with assms(1,2) s Inr x show ?thesis by (simp add: retry_task_run_def)
    next
      case (returned n)
      with assms(1) s Inr x show ?thesis by (simp add: retry_task_run_def)
    next
      case (scheduled c)
      obtain ok d2 rd2 where go: "start c (d1, rd1) = (ok, d2, rd2)" by (metis surj_pair)
      show ?thesis
      proof (cases ok)
        case True
        with assms(1) s Inr x go scheduled(1) have "retry_started re f c rd2 = Inr rd'"
          by (auto simp: retry_task_run_def split: sum.splits)
        then show ?thesis by (auto simp: retry_started_def retry_marks_def dest: append_event_handled)
      next
        case False
        with assms(1) s Inr x go scheduled(1) have "retry_not_started e re f (rc_attempt c - 1) (d2, rd2) = Inr (d', rd')"
          by (auto simp: retry_task_run_def split: sum.splits)
        then obtain p where "append_event re rd2 (fr_run f) TaskRecoveryBlocked ''task recovery could not start'' [] p = Inr rd'"
          by (auto simp: retry_not_started_def split: option.splits sum.splits)
        then show ?thesis by (rule append_event_handled) (simp add: retry_marks_def)
      qed
    qed
  qed
  then have "retry_guard f d' rd' \<noteq> Inr True" by (rule handled_guard)
  from retry_run_ignores [OF this assms(3) [unfolded s(2)]] show ?thesis by (simp add: s(2))
qed

text \<open>
  When the server stops between the transaction that reassigns a task and the start of its run, the task
  stays in progress under its agent and no later sweep recovers it: its update is younger than the end of
  the failed run, which excludes it from the candidates, and a retry of the run ignores it.
\<close>

theorem interrupted_recovery_is_lost:
  assumes "retry_tx e re ready f (d, rd) = Inr ((d', rd'), RetryScheduled c)" and "fr_finished f < now e"
    and "keyed rn_id (runs rd)"
    and "map_option rn_finished (latest_primary_run rd (fr_task f)) = Some (Some (fr_finished f))"
  shows "fr_task f \<notin> fr_task ` set (retry_candidates in_selection d' rd') \<and>
         retry_tx e' re' ready' f (d', rd') = Inr ((d', rd'), RetryIgnored)"
  using assms(1)
proof (cases rule: retry_tx_cases)
  case (scheduled c')
  from scheduled(4) obtain t where t: "row_by t_id (fr_task f) (tasks d') = Some t" "t_updated t = now e"
    by (auto simp: task_after_def reassign_task_def)
  obtain r where r: "latest_primary_run rd (fr_task f) = Some r" "rn_finished r = Some (fr_finished f)"
    using assms(4) by auto
  have r_in: "r \<in> set (runs rd)"
    using r(1) pick_by_in by (fastforce simp: latest_primary_run_def primary_runs_def)
  have never: "\<not> is_candidate in_selection d' rd' r' t" if r': "row_by rn_id rid (runs rd) = Some r'" for rid r'
  proof
    assume c: "is_candidate in_selection d' rd' r' t"
    have "t_id t = fr_task f" using row_by_key [OF t(1)] .
    with c r(1) scheduled(3) have "rn_id r' = rn_id r" by (simp add: is_candidate_def)
    with keyed_unique [OF assms(3) row_by_in [OF r'] r_in] have "r' = r" by simp
    with c r(2) t(2) assms(2) show False by (simp add: is_candidate_def)
  qed
  have "fr_task g \<noteq> fr_task f" if g: "g \<in> set (retry_candidates in_selection d' rd')" for g
  proof -
    from in_set_takeD [OF g [unfolded retry_candidates_def]] obtain l :: task_link_row and r' t' p where
      l: "row_by rn_id (lk_run l) (runs rd') = Some r'" "row_by t_id (lk_task l) (tasks d') = Some t'"
         "is_candidate in_selection d' rd' r' t'" "g = retryable_of rd' r' t' p"
      by (auto split: if_splits option.splits dest!: sym [where s = "Some _"])
    show ?thesis
    proof
      assume eq: "fr_task g = fr_task f"
      then have "t_id t' = fr_task f" by (simp add: l(4) retryable_of_def)
      with row_by_key [OF l(2)] l(2) t(1) have "t' = t" by simp
      with never l(1,3) scheduled(3) show False by simp
    qed
  qed
  moreover have "retry_guard f d' rd' = Inr False" by (rule changed_guard [OF t(1)]) (use t(2) assms(2) in simp)
  ultimately show ?thesis by (force simp: retry_tx_def)
qed simp_all

section \<open>Witnesses\<close>

definition rt_env :: env where
  "rt_env = \<lparr>now = 50, fresh = ''n'', uuid_parse = Some, sql_lower = (\<lambda>s. s), sha256_hex = (\<lambda>s. s),
     hash_contract = (\<lambda>_. []), hash_submit = sub_key, hash_review = rv_key, hash_wait = wr_key,
     json_length_wait = (\<lambda>_. 0), has_notifier = False, gen_artifact = None\<rparr>"

definition rt_renv :: renv where
  "rt_renv = \<lparr>clock = 50, month_start = 0, new_id = ''n'', new_event_id = ''e'', sha_hex = (\<lambda>s. s),
     selection_guard = (\<lambda>_. None)\<rparr>"

definition rt_run :: run_row where
  "rt_run =
     \<lparr>rn_id = ''r1'', rn_agent = ''a1'', rn_daemon = None, rn_session = None, rn_rollover = None,
      rn_scope = \<lparr>trigger_type = [], trigger_message = None, scope_channel = None, scope_thread = None, scope_node = None\<rparr>,
      rn_status = AgentRunStatusTimeout, rn_activity = [], rn_tool = None, rn_input = None, rn_source = None,
      rn_transcript = None, rn_usage = UsageEmpty, rn_started = 10, rn_backend = None, rn_updated = 20,
      rn_finished = Some 20, rn_wake = \<lparr>freshness_seen = 0, wake_first = 0, wake_latest = 0, wake_visible = False\<rparr>\<rparr>"

definition rt_event :: "nat \<Rightarrow> run_event_type \<Rightarrow> payload \<Rightarrow> run_event_row" where
  "rt_event n ty p = \<lparr>re_id = ''e'', re_run = ''r1'', re_seq = n, re_type = ty, re_message = [], re_tool = None, re_payload = p\<rparr>"

definition rt_rdb :: rdb where
  "rt_rdb = empty_rdb\<lparr>runs := [rt_run], links := [\<lparr>lk_run = ''r1'', lk_task = ''t1'', lk_role = ''primary''\<rparr>],
     events := [rt_event 1 RunStarted [(''result_contract'', ''visible_message'')],
                rt_event 2 ErrorEvent [(''failure_code'', ''timeout''), (''retryable'', ''true'')]]\<rparr>"

definition rt_db :: db where
  "rt_db = empty_db\<lparr>
     tasks := [\<lparr>t_id = ''t1'', t_number = 1, t_channel = Some ''c1'', t_creator = ''u1'', t_title = ''T'',
                t_description = None, t_status = TaskStatusInProgress, t_claimer = Some ''a1'', t_priority = [],
                t_due = None, t_message = None, t_parent = None, t_created = 5, t_updated = 10, t_version = 1,
                t_contract = None, t_submission = None\<rparr>],
     agents := [\<lparr>a_id = ''a1'', a_name = ''A'', a_owner = ''u1'', a_active = True\<rparr>]\<rparr>"

definition rt_failed :: retryable_run where
  "rt_failed = \<lparr>fr_run = ''r1'', fr_agent = ''a1'', fr_task = ''t1'', fr_finished = 20, fr_code = ''timeout'',
     fr_retryable = True, fr_resume = []\<rparr>"

lemma rt_candidate: "retry_candidates (\<lambda>_. False) rt_db rt_rdb = [rt_failed]"
  by code_simp

definition rt_tx :: "(db \<times> rdb) \<times> retry_outcome" where
  "rt_tx = projr (retry_tx rt_env rt_renv (\<lambda>_. True) rt_failed (rt_db, rt_rdb))"

definition rt_recovery :: task_run_recovery where
  "rt_recovery = \<lparr>rc_previous = ''r1'', rc_attempt = 2, rc_mode = ''resume_session'', rc_code = ''timeout'', rc_resume = []\<rparr>"

lemma rt_scheduled:
  "retry_tx rt_env rt_renv (\<lambda>_. True) rt_failed (rt_db, rt_rdb) =
     Inr ((fst (fst rt_tx), snd (fst rt_tx)), RetryScheduled rt_recovery)"
  by code_simp

theorem retry_is_bounded_witness:
  "rc_attempt rt_recovery = counted_attempts rt_rdb ''t1'' + 1 \<and>
   (\<exists>t. row_by t_id ''t1'' (tasks (fst (fst rt_tx))) = Some t \<and> t_claimer t = Some ''a1'')"
  using retry_is_bounded [OF rt_scheduled] by (auto simp: rt_failed_def)

definition rt_done :: "(db \<times> rdb) \<times> retry_outcome" where
  "rt_done = projr (retry_task_run rt_env rt_renv (\<lambda>_. True) (\<lambda>_ s. (False, s)) rt_failed (rt_db, rt_rdb))"

lemma rt_runs:
  "retry_task_run rt_env rt_renv (\<lambda>_. True) (\<lambda>_ s. (False, s)) rt_failed (rt_db, rt_rdb) =
     Inr (fst rt_done, RetryNotStarted 1)"
  "retry_task_run rt_env rt_renv (\<lambda>_. True) (\<lambda>_ s. (True, s)) rt_failed (fst rt_done) = Inr (fst rt_done, RetryIgnored)"
  by code_simp+

theorem retry_acts_once_witness:
  "retry_task_run rt_env rt_renv (\<lambda>_. True) (\<lambda>_ s. (True, s)) rt_failed (fst rt_done) = Inr (fst rt_done, RetryIgnored)"
  using retry_acts_once [OF rt_runs(1) _ rt_runs(2)] rt_runs(2) by simp

theorem interrupted_recovery_is_lost_witness:
  "''t1'' \<notin> fr_task ` set (retry_candidates (\<lambda>_. False) (fst (fst rt_tx)) (snd (fst rt_tx)))"
proof -
  have "fr_finished rt_failed < now rt_env" "keyed rn_id (runs rt_rdb)"
    "map_option rn_finished (latest_primary_run rt_rdb (fr_task rt_failed)) = Some (Some (fr_finished rt_failed))"
    by code_simp+
  from interrupted_recovery_is_lost [OF rt_scheduled this] show ?thesis by (simp add: rt_failed_def)
qed

end
