(* ===== verification/Team_Relations.thy ===== *)
theory Team_Relations
  imports Task_Wait Complex_Main
begin

text \<open>
  Relationships between agents and the agreements behind them (\<open>service/agent_relationship.go\<close>,
  \<open>service/team_agreement.go\<close>, migrations 000026, 000034, 000068, 000069, 000078): who may relate which
  agents, the refusal of cycles among \<open>assigns_to\<close> relationships, and agreements between owners.

  The advisory lock of the channel makes each transaction one step. The triggers on
  \<open>agent_relationships\<close> are part of \<open>insert_relationship\<close>, \<open>write_relationship\<close> and \<open>delete_relationship\<close>. A
  weight is a rational: the JSON of a request carries no other \<open>float64\<close>.
\<close>

section \<open>Data\<close>

definition RelAssignsTo :: string where "RelAssignsTo = ''assigns_to''"
definition RelCollaboratesWith :: string where "RelCollaboratesWith = ''collaborates_with''"

record relationship_row =
  rl_id :: id
  rl_from :: id
  rl_to :: id
  rl_type :: string
  rl_weight :: rat
  rl_instruction :: string
  rl_channel :: "id option"
  rl_created :: time
  rl_updated :: time

record proposal_row =
  pp_id :: id
  pp_channel :: id
  pp_from :: id
  pp_to :: id
  pp_type :: string
  pp_instruction :: string
  pp_by :: id
  pp_by_agent :: "id option"
  pp_approved :: "id list"
  pp_relationship :: "id option"
  pp_status :: string
  pp_created :: time

text \<open>
  Agents, channels and members are the tables of the task services; \<open>home_channels\<close> is the column of
  \<open>agents\<close>, \<open>team_versions\<close> that of \<open>channels\<close>.
\<close>

record team_db =
  base :: db
  home_channels :: "(id \<times> id) list"
  relationships :: "relationship_row list"
  proposals :: "proposal_row list"
  team_versions :: "(id \<times> id) list"

datatype team_error =
    ErrRelationshipNotFound | ErrRelationshipCycle | ErrAgentWorkForbidden | ErrTeamRequest string
  | ErrTeamTask task_error | ErrTeamDatabase

record create_relationship_request =
  cq_from :: string
  cq_to :: string
  cq_type :: string
  cq_weight :: "rat option"
  cq_instruction :: string

record update_relationship_request =
  uq_type :: "string option"
  uq_weight :: "rat option"
  uq_instruction :: "string option"

definition is_valid_relationship_type :: "string \<Rightarrow> bool" where
  "is_valid_relationship_type t \<longleftrightarrow> t = RelAssignsTo \<or> t = RelCollaboratesWith"

definition bad_weight :: "rat option \<Rightarrow> bool" where
  "bad_weight w = (case w of None \<Rightarrow> False | Some x \<Rightarrow> x < 0 \<or> x > 10)"

definition validate_relationship_create :: "create_relationship_request \<Rightarrow> string option" where
  "validate_relationship_create q =
     (if cq_from q = [] \<or> cq_to q = [] \<or> cq_type q = []
      then Some ''from_agent_id, to_agent_id, and rel_type are required''
      else if cq_from q = cq_to q then Some ''self relationships are not allowed''
      else if \<not> is_valid_relationship_type (cq_type q) then Some (''invalid rel_type: '' @ cq_type q)
      else if bad_weight (cq_weight q) then Some ''weight must be between 0 and 10''
      else None)"

definition validate_relationship_update :: "update_relationship_request \<Rightarrow> string option" where
  "validate_relationship_update q =
     (if uq_type q = None \<and> uq_weight q = None \<and> uq_instruction q = None
      then Some ''rel_type, weight, or instruction is required''
      else
        (case uq_type q of
           Some t \<Rightarrow>
             if \<not> is_valid_relationship_type t then Some (''invalid rel_type: '' @ t)
             else if bad_weight (uq_weight q) then Some ''weight must be between 0 and 10'' else None
         | None \<Rightarrow> if bad_weight (uq_weight q) then Some ''weight must be between 0 and 10'' else None))"

section \<open>Agents and the view of relationships in a channel\<close>

definition agent_row :: "team_db \<Rightarrow> id \<Rightarrow> agent_row option" where
  "agent_row d a = row_by a_id a (agents (base d))"

definition home_of :: "team_db \<Rightarrow> id \<Rightarrow> id option" where
  "home_of d a = map_of (home_channels d) a"

definition owner_of :: "team_db \<Rightarrow> id \<Rightarrow> id option" where
  "owner_of d a = map_option a_owner (agent_row d a)"

definition agent_active :: "team_db \<Rightarrow> id \<Rightarrow> bool" where
  "agent_active d a = (case agent_row d a of None \<Rightarrow> False | Some x \<Rightarrow> a_active x)"

definition agent_member :: "team_db \<Rightarrow> id \<Rightarrow> id \<Rightarrow> bool" where
  "agent_member d ch a \<longleftrightarrow> exists_row (\<lambda>m. m_channel m = ch \<and> m_member m = a \<and> m_type m = ''agent'') (members (base d))"

text \<open>
  \<open>agent_relationship_scopes\<close>: the relationships of a channel, and those without a channel between agents of
  one owner that are both in it, unless one of the channel overrides them.
\<close>

definition overridden :: "team_db \<Rightarrow> id \<Rightarrow> relationship_row \<Rightarrow> bool" where
  "overridden d ch r \<longleftrightarrow>
     exists_row (\<lambda>s. rl_channel s = Some ch \<and> rl_type s = rl_type r \<and>
       (rl_from s = rl_from r \<and> rl_to s = rl_to r \<or>
        rl_type r = RelCollaboratesWith \<and> rl_from s = rl_to r \<and> rl_to s = rl_from r)) (relationships d)"

definition in_scope :: "team_db \<Rightarrow> id \<Rightarrow> relationship_row \<Rightarrow> bool" where
  "in_scope d ch r \<longleftrightarrow>
     rl_channel r = Some ch \<or>
     (rl_channel r = None \<and> owner_of d (rl_from r) = owner_of d (rl_to r) \<and> owner_of d (rl_from r) \<noteq> None \<and>
      agent_member d ch (rl_from r) \<and> agent_member d ch (rl_to r) \<and> \<not> overridden d ch r)"

definition assigns_edges :: "team_db \<Rightarrow> id \<Rightarrow> id \<Rightarrow> (id \<times> id) list" where
  "assigns_edges d ch without =
     map (\<lambda>r. (rl_from r, rl_to r))
       (filter (\<lambda>r. in_scope d ch r \<and> rl_type r = RelAssignsTo \<and> (without = [] \<or> rl_id r \<noteq> without)) (relationships d))"

definition would_create_assigns_to_cycle :: "team_db \<Rightarrow> id \<Rightarrow> id \<Rightarrow> id \<Rightarrow> id \<Rightarrow> bool" where
  "would_create_assigns_to_cycle d ch a b without \<longleftrightarrow> a \<in> set (dependencies (assigns_edges d ch without) [b])"

section \<open>Statements on relationships\<close>

text \<open>\<open>enforce_relationship_channel_scope\<close>: one home, or both owners approved this exact agreement.\<close>

definition scope_enforced :: "team_db \<Rightarrow> relationship_row \<Rightarrow> bool" where
  "scope_enforced d r \<longleftrightarrow>
     (home_of d (rl_from r) \<noteq> None \<and> home_of d (rl_from r) = home_of d (rl_to r) \<and>
        rl_channel r = home_of d (rl_from r)) \<or>
     (case rl_channel r of
        None \<Rightarrow> False
      | Some ch \<Rightarrow>
          agent_member d ch (rl_from r) \<and> agent_member d ch (rl_to r) \<and>
          exists_row (\<lambda>p. pp_channel p = ch \<and> pp_from p = rl_from r \<and> pp_to p = rl_to r \<and> pp_type p = rl_type r \<and>
             pp_instruction p = rl_instruction r \<and> (pp_status p = ''pending'' \<or> pp_status p = ''accepted'') \<and>
             (case (owner_of d (rl_from r), owner_of d (rl_to r)) of
                (Some x, Some y) \<Rightarrow> x \<in> set (pp_approved p) \<and> y \<in> set (pp_approved p)
              | _ \<Rightarrow> False)) (proposals d))"

text \<open>The checks, the primary key and the unique indexes of the table, among the other rows.\<close>

definition same_pair :: "relationship_row \<Rightarrow> relationship_row \<Rightarrow> bool" where
  "same_pair r s \<longleftrightarrow>
     rl_channel r = rl_channel s \<and> rl_channel r \<noteq> None \<and> rl_type r = rl_type s \<and>
     (rl_from r = rl_from s \<and> rl_to r = rl_to s \<or>
      rl_type r = RelCollaboratesWith \<and> rl_from r = rl_to s \<and> rl_to r = rl_from s)"

definition row_allowed :: "relationship_row list \<Rightarrow> relationship_row \<Rightarrow> bool" where
  "row_allowed others r \<longleftrightarrow>
     is_valid_relationship_type (rl_type r) \<and> \<not> bad_weight (Some (rl_weight r)) \<and> rl_from r \<noteq> rl_to r \<and>
     \<not> exists_row (\<lambda>s. rl_id s = rl_id r \<or> same_pair r s) others"

text \<open>INSERT: \<open>solo_relationship_scope\<close> fills in the channel, then the scope is enforced.\<close>

definition with_channel :: "team_db \<Rightarrow> relationship_row \<Rightarrow> relationship_row" where
  "with_channel d r = (if rl_channel r = None then r\<lparr>rl_channel := home_of d (rl_from r)\<rparr> else r)"

definition insert_relationship :: "relationship_row \<Rightarrow> team_db \<Rightarrow> (team_db \<times> relationship_row) option" where
  "insert_relationship r d =
     (let r' = with_channel d r
      in if rl_channel r' = None \<or> \<not> scope_enforced d r' \<or> \<not> row_allowed (relationships d) r' then None
         else Some (d\<lparr>relationships := relationships d @ [r']\<rparr>, r'))"

text \<open>UPDATE of the type, the weight or the instruction of the row \<open>old\<close>.\<close>

definition write_relationship :: "relationship_row \<Rightarrow> relationship_row \<Rightarrow> team_db \<Rightarrow> team_db option" where
  "write_relationship old new d =
     (if \<not> scope_enforced d new \<or> \<not> row_allowed (filter (\<lambda>s. rl_id s \<noteq> rl_id old) (relationships d)) new then None
      else Some (d\<lparr>relationships := update_where (\<lambda>s. rl_id s = rl_id old) (\<lambda>_. new) (relationships d)\<rparr>))"

definition clear_team_version :: "id \<Rightarrow> team_db \<Rightarrow> team_db" where
  "clear_team_version ch d = d\<lparr>team_versions := filter (\<lambda>(c, _). c \<noteq> ch) (team_versions d)\<rparr>"

text \<open>
  DELETE of rows: \<open>solo_revoke_team_relationship\<close> clears the version of the channel and withdraws the
  agreements behind them, and the foreign key forgets the rows.
\<close>

definition revoke_proposal :: "(id \<Rightarrow> bool) \<Rightarrow> proposal_row \<Rightarrow> proposal_row" where
  "revoke_proposal gone p =
     (case pp_relationship p of
        None \<Rightarrow> p
      | Some rid \<Rightarrow> if gone rid then p\<lparr>pp_status := ''withdrawn'', pp_relationship := None\<rparr> else p)"

definition delete_relationships :: "(relationship_row \<Rightarrow> bool) \<Rightarrow> team_db \<Rightarrow> team_db" where
  "delete_relationships P d =
     (let doomed = filter P (relationships d)
      in d\<lparr>relationships := delete_where P (relationships d),
           proposals := map (revoke_proposal (\<lambda>rid. exists_row (\<lambda>r. rl_id r = rid) doomed)) (proposals d),
           team_versions := filter (\<lambda>(c, _). \<not> exists_row (\<lambda>r. rl_channel r = Some c) doomed) (team_versions d)\<rparr>)"

section \<open>The relationship service\<close>

definition lock_relationship_channel :: "team_db \<Rightarrow> id \<Rightarrow> id \<Rightarrow> id \<Rightarrow> id option" where
  "lock_relationship_channel d u a b =
     (if owner_of d a = Some u \<and> owner_of d b = Some u \<and> agent_active d a \<and> agent_active d b \<and>
         home_of d a = home_of d b
      then home_of d a else None)"

definition create_relationship ::
  "env \<Rightarrow> id \<Rightarrow> create_relationship_request \<Rightarrow> team_db \<Rightarrow> team_error + team_db \<times> relationship_row" where
  "create_relationship e u q d =
     (case validate_relationship_create q of
        Some msg \<Rightarrow> Inl (ErrTeamRequest msg)
      | None \<Rightarrow>
     (case lock_relationship_channel d u (cq_from q) (cq_to q) of
        None \<Rightarrow> Inl ErrRelationshipNotFound
      | Some ch \<Rightarrow>
     if cq_type q = RelAssignsTo \<and> would_create_assigns_to_cycle d ch (cq_from q) (cq_to q) []
     then Inl ErrRelationshipCycle
     else
       (case insert_relationship
               \<lparr>rl_id = fresh e, rl_from = cq_from q, rl_to = cq_to q, rl_type = cq_type q,
                rl_weight = (case cq_weight q of None \<Rightarrow> 1 | Some w \<Rightarrow> w), rl_instruction = cq_instruction q,
                rl_channel = None, rl_created = now e, rl_updated = now e\<rparr> d of
          None \<Rightarrow> Inl ErrTeamDatabase
        | Some out \<Rightarrow> Inr out)))"

definition owned_relationship :: "team_db \<Rightarrow> id \<Rightarrow> id \<Rightarrow> relationship_row option" where
  "owned_relationship d u rid =
     find (\<lambda>r. rl_id r = rid \<and> owner_of d (rl_from r) = Some u \<and> owner_of d (rl_to r) = Some u \<and>
       agent_active d (rl_from r) \<and> agent_active d (rl_to r) \<and> rl_channel r \<noteq> None) (relationships d)"

definition updated_relationship :: "time \<Rightarrow> update_relationship_request \<Rightarrow> relationship_row \<Rightarrow> relationship_row" where
  "updated_relationship instant q r =
     r\<lparr>rl_weight := (case uq_weight q of None \<Rightarrow> rl_weight r | Some w \<Rightarrow> w),
       rl_instruction := (case uq_instruction q of None \<Rightarrow> rl_instruction r | Some i \<Rightarrow> i),
       rl_type := (case uq_type q of None \<Rightarrow> rl_type r | Some t \<Rightarrow> t), rl_updated := instant\<rparr>"

definition update_relationship ::
  "env \<Rightarrow> id \<Rightarrow> id \<Rightarrow> update_relationship_request \<Rightarrow> team_db \<Rightarrow> team_error + team_db \<times> relationship_row" where
  "update_relationship e u rid q d =
     (case validate_relationship_update q of
        Some msg \<Rightarrow> Inl (ErrTeamRequest msg)
      | None \<Rightarrow>
     (case owned_relationship d u rid of
        None \<Rightarrow> Inl ErrRelationshipNotFound
      | Some r \<Rightarrow>
     if uq_type q = Some RelAssignsTo \<and>
        would_create_assigns_to_cycle d (coalesce (rl_channel r)) (rl_from r) (rl_to r) rid
     then Inl ErrRelationshipCycle
     else
       (case write_relationship r (updated_relationship (now e) q r) d of
          None \<Rightarrow> Inl ErrTeamDatabase
        | Some d' \<Rightarrow> Inr (d', updated_relationship (now e) q r))))"

definition delete_relationship :: "id \<Rightarrow> id \<Rightarrow> team_db \<Rightarrow> team_error + team_db" where
  "delete_relationship u rid d =
     (let P = (\<lambda>r. rl_id r = rid \<and> (owner_of d (rl_from r) = Some u \<or> owner_of d (rl_to r) = Some u) \<and>
                   agent_active d (rl_from r) \<and> agent_active d (rl_to r))
      in if \<not> exists_row P (relationships d) then Inl ErrRelationshipNotFound
         else Inr (delete_relationships P d))"

section \<open>Agreements\<close>

definition propose_team_agreement ::
  "env \<Rightarrow> id \<Rightarrow> id \<Rightarrow> create_relationship_request \<Rightarrow> team_db \<Rightarrow> team_error + team_db \<times> id" where
  "propose_team_agreement e ch actor q d =
     (case validate_relationship_create q of
        Some msg \<Rightarrow> Inl (ErrTeamTask (invalid_delivery msg))
      | None \<Rightarrow>
     if blank (cq_instruction q) \<or> length (cq_instruction q) > 8000
     then Inl (ErrTeamTask (invalid_delivery ''a specific collaboration agreement is required''))
     else if uuid_parse e (cq_from q) = None then Inl (ErrTeamTask (invalid_delivery ''invalid source Agent''))
     else if uuid_parse e (cq_to q) = None then Inl (ErrTeamTask (invalid_delivery ''invalid target Agent''))
     else
     (let from_id = the (uuid_parse e (cq_from q)); to_id = the (uuid_parse e (cq_to q))
      in case (require_channel_member (base d) ch actor, require_channel_member (base d) ch from_id,
               require_channel_member (base d) ch to_id) of
        (Some err, _, _) \<Rightarrow> Inl (ErrTeamTask err)
      | (None, Some err, _) \<Rightarrow> Inl (ErrTeamTask err)
      | (None, None, Some err) \<Rightarrow> Inl (ErrTeamTask err)
      | (None, None, None) \<Rightarrow>
     (let by_agent = agent_active d actor
      in if agent_row d from_id = None \<or> agent_row d to_id = None \<or> exists_row (\<lambda>p. pp_id p = fresh e) (proposals d)
         then Inl ErrTeamDatabase
         else
           Inr (d\<lparr>proposals := proposals d @
             [\<lparr>pp_id = fresh e, pp_channel = ch, pp_from = from_id, pp_to = to_id, pp_type = cq_type q,
               pp_instruction = cq_instruction q,
               pp_by = (if by_agent then coalesce (owner_of d actor) else actor),
               pp_by_agent = (if by_agent then Some actor else None), pp_approved = [], pp_relationship = None,
               pp_status = ''pending'', pp_created = now e\<rparr>]\<rparr>,
             fresh e))))"

definition set_proposal :: "id \<Rightarrow> (proposal_row \<Rightarrow> proposal_row) \<Rightarrow> team_db \<Rightarrow> team_db" where
  "set_proposal pid f d = d\<lparr>proposals := update_where (\<lambda>p. pp_id p = pid) f (proposals d)\<rparr>"

definition joined_proposal :: "team_db \<Rightarrow> id \<Rightarrow> id \<Rightarrow> (proposal_row \<times> id \<times> id) option" where
  "joined_proposal d ch pid =
     (case find (\<lambda>p. pp_id p = pid \<and> pp_channel p = ch) (proposals d) of
        None \<Rightarrow> None
      | Some p \<Rightarrow>
          (case (agent_row d (pp_from p), agent_row d (pp_to p)) of
             (Some a, Some b) \<Rightarrow> if a_active a \<and> a_active b then Some (p, a_owner a, a_owner b) else None
           | _ \<Rightarrow> None))"

definition may_decide :: "id \<Rightarrow> bool \<Rightarrow> proposal_row \<Rightarrow> id \<Rightarrow> id \<Rightarrow> bool" where
  "may_decide actor withdraw p from_owner to_owner \<longleftrightarrow>
     actor = from_owner \<or> actor = to_owner \<or>
     (withdraw \<and> (actor = pp_by p \<or> (pp_status p = ''pending'' \<and> actor = coalesce (pp_by_agent p))))"

definition withdraw_agreement :: "id \<Rightarrow> proposal_row \<Rightarrow> team_db \<Rightarrow> team_db" where
  "withdraw_agreement ch p d =
     (let d1 = (case pp_relationship p of None \<Rightarrow> d | Some rid \<Rightarrow> delete_relationships (\<lambda>r. rl_id r = rid) d)
      in clear_team_version ch (set_proposal (pp_id p) (\<lambda>x. x\<lparr>pp_status := ''withdrawn''\<rparr>) d1))"

definition approve :: "id \<Rightarrow> proposal_row \<Rightarrow> proposal_row" where
  "approve actor p = (if actor \<in> set (pp_approved p) then p else p\<lparr>pp_approved := pp_approved p @ [actor]\<rparr>)"

text \<open>Accepting: the actor's approval, and once both owners approved the relationship itself.\<close>

definition accept_agreement ::
  "env \<Rightarrow> id \<Rightarrow> id \<Rightarrow> proposal_row \<Rightarrow> id \<Rightarrow> id \<Rightarrow> team_db \<Rightarrow> team_error + team_db" where
  "accept_agreement e ch actor p from_owner to_owner d =
     (let d1 = set_proposal (pp_id p) (approve actor) d; approved = pp_approved (approve actor p)
      in if \<not> (from_owner \<in> set approved \<and> to_owner \<in> set approved) then Inr d1
         else if \<not> (agent_member d1 ch (pp_from p) \<and> agent_member d1 ch (pp_to p))
         then Inl (ErrTeamTask (invalid_delivery ''an Agent withdrew from this channel''))
         else if pp_type p = RelAssignsTo \<and> would_create_assigns_to_cycle d1 ch (pp_from p) (pp_to p) []
         then Inl ErrRelationshipCycle
         else
           (case insert_relationship
                   \<lparr>rl_id = fresh e, rl_from = pp_from p, rl_to = pp_to p, rl_type = pp_type p, rl_weight = 1,
                    rl_instruction = pp_instruction p, rl_channel = Some ch, rl_created = now e, rl_updated = now e\<rparr> d1 of
              None \<Rightarrow> Inl ErrTeamDatabase
            | Some (d2, r) \<Rightarrow>
                Inr (set_proposal (pp_id p) (\<lambda>x. x\<lparr>pp_status := ''accepted'', pp_relationship := Some (rl_id r)\<rparr>) d2)))"

definition decide_team_agreement ::
  "env \<Rightarrow> id \<Rightarrow> id \<Rightarrow> string \<Rightarrow> string \<Rightarrow> team_db \<Rightarrow> team_error + team_db" where
  "decide_team_agreement e ch actor proposal decision d =
     (case uuid_parse e proposal of
        None \<Rightarrow> Inl (ErrTeamTask (invalid_delivery ''invalid proposal''))
      | Some pid \<Rightarrow>
     if decision \<noteq> ''accept'' \<and> decision \<noteq> ''withdraw''
     then Inl (ErrTeamTask (invalid_delivery ''decision must be accept or withdraw''))
     else
     (case require_channel_member (base d) ch actor of
        Some err \<Rightarrow> Inl (ErrTeamTask err)
      | None \<Rightarrow>
     (case joined_proposal d ch pid of
        None \<Rightarrow> Inl (ErrTeamTask (invalid_delivery ''proposal not found''))
      | Some (p, from_owner, to_owner) \<Rightarrow>
     if \<not> may_decide actor (decision = ''withdraw'') p from_owner to_owner then Inl ErrAgentWorkForbidden
     else if decision = ''withdraw'' then Inr (withdraw_agreement ch p d)
     else if pp_status p = ''withdrawn'' then Inl (ErrTeamTask (invalid_delivery ''proposal was withdrawn''))
     else if pp_status p = ''accepted'' then Inr d
     else accept_agreement e ch actor p from_owner to_owner d)))"

section \<open>Leaving a channel\<close>

text \<open>
  What the triggers on \<open>channel_members\<close> do to these tables when an agent is removed
  (\<open>solo_revoke_agent_participation\<close>).
\<close>

definition revoke_participation :: "id \<Rightarrow> id \<Rightarrow> team_db \<Rightarrow> team_db" where
  "revoke_participation ch a d =
     (let gone = (\<lambda>m. m_channel m = ch \<and> m_member m = a \<and> m_type m = ''agent'')
      in if \<not> exists_row gone (members (base d)) then d
         else
           (let d1 = clear_team_version ch (d\<lparr>base := (base d)\<lparr>members := delete_where gone (members (base d))\<rparr>\<rparr>);
                d2 = delete_relationships (\<lambda>r. rl_channel r = Some ch \<and> (rl_from r = a \<or> rl_to r = a)) d1
            in d2\<lparr>proposals := update_where (\<lambda>p. pp_channel p = ch \<and> (pp_from p = a \<or> pp_to p = a))
                     (\<lambda>p. p\<lparr>pp_status := ''withdrawn''\<rparr>) (proposals d2)\<rparr>))"

end
