(* ===== verification/Team_Theorems.thy ===== *)
theory Team_Theorems
  imports Team_Relations Task_Machine
begin

text \<open>
  The machine of relationships and agreements, and what it keeps: the \<open>assigns_to\<close> relationships of every
  channel stay free of cycles, and a relationship between agents of two owners has an agreement both owners
  approved.
\<close>

section \<open>The machine\<close>

datatype team_op =
    CreateRelationship id create_relationship_request
  | UpdateRelationship id id update_relationship_request
  | DeleteRelationship id id
  | ProposeAgreement id id create_relationship_request
  | DecideAgreement id id string string
  | LeaveChannel id id

definition kept_or :: "team_db \<Rightarrow> team_error + team_db \<Rightarrow> team_db" where
  "kept_or d r = (case r of Inl _ \<Rightarrow> d | Inr d' \<Rightarrow> d')"

fun team_step :: "team_db \<Rightarrow> env \<times> team_op \<Rightarrow> team_db" where
  "team_step d (e, CreateRelationship u q) = kept_or d (map_sum id fst (create_relationship e u q d))"
| "team_step d (e, UpdateRelationship u rid q) = kept_or d (map_sum id fst (update_relationship e u rid q d))"
| "team_step d (e, DeleteRelationship u rid) = kept_or d (delete_relationship u rid d)"
| "team_step d (e, ProposeAgreement ch actor q) = kept_or d (map_sum id fst (propose_team_agreement e ch actor q d))"
| "team_step d (e, DecideAgreement ch actor pid decision) = kept_or d (decide_team_agreement e ch actor pid decision d)"
| "team_step d (e, LeaveChannel ch a) = revoke_participation ch a d"

section \<open>The edges of a channel\<close>

definition legacy_in :: "team_db \<Rightarrow> id \<Rightarrow> relationship_row \<Rightarrow> bool" where
  "legacy_in d ch r \<longleftrightarrow>
     rl_channel r = None \<and> owner_of d (rl_from r) = owner_of d (rl_to r) \<and> owner_of d (rl_from r) \<noteq> None \<and>
     agent_member d ch (rl_from r) \<and> agent_member d ch (rl_to r)"

definition assigns_pairs :: "team_db \<Rightarrow> id \<Rightarrow> (id \<times> id) set" where
  "assigns_pairs d ch =
     {(rl_from r, rl_to r) |r. r \<in> set (relationships d) \<and> rl_type r = RelAssignsTo \<and>
        (rl_channel r = Some ch \<or> legacy_in d ch r)}"

lemma RelTypes [simp]: "RelAssignsTo \<noteq> RelCollaboratesWith" "RelCollaboratesWith \<noteq> RelAssignsTo"
  by (simp_all add: RelAssignsTo_def RelCollaboratesWith_def)

text \<open>An override repeats the edge it hides, so it does not change the set of edges.\<close>

lemma edges_pairs: "set (assigns_edges d ch []) = assigns_pairs d ch"
proof
  show "set (assigns_edges d ch []) \<subseteq> assigns_pairs d ch"
    by (auto simp: assigns_edges_def assigns_pairs_def in_scope_def legacy_in_def)
  show "assigns_pairs d ch \<subseteq> set (assigns_edges d ch [])"
  proof
    fix x assume "x \<in> assigns_pairs d ch"
    then obtain r where r: "r \<in> set (relationships d)" "rl_type r = RelAssignsTo" "x = (rl_from r, rl_to r)"
      "rl_channel r = Some ch \<or> legacy_in d ch r" by (auto simp: assigns_pairs_def)
    have "\<exists>s \<in> set (relationships d). in_scope d ch s \<and> rl_type s = RelAssignsTo \<and> rl_from s = rl_from r \<and> rl_to s = rl_to r"
    proof (cases "overridden d ch r")
      case True
      then show ?thesis using r(2) by (auto simp: overridden_def exists_row_iff in_scope_def)
    next
      case False
      with r show ?thesis by (auto simp: in_scope_def legacy_in_def)
    qed
    then obtain s where "s \<in> set (relationships d)" "in_scope d ch s" "rl_type s = RelAssignsTo" "x = (rl_from s, rl_to s)"
      using r(3) by auto
    then show "x \<in> set (assigns_edges d ch [])" by (auto simp: assigns_edges_def)
  qed
qed

lemma edge_in:
  "s \<in> set (relationships d) \<Longrightarrow> in_scope d ch s \<Longrightarrow> rl_type s = RelAssignsTo \<Longrightarrow> without = [] \<or> rl_id s \<noteq> without \<Longrightarrow>
   (rl_from s, rl_to s) \<in> set (assigns_edges d ch without)"
  by (auto simp: assigns_edges_def)

lemma pairs_without:
  assumes "keyed rl_id (relationships d)" and old: "old \<in> set (relationships d)"
    and r: "r \<in> set (relationships d)" "rl_id r \<noteq> rl_id old" "rl_type r = RelAssignsTo"
      "rl_channel r = Some ch \<or> legacy_in d ch r"
  shows "(rl_from r, rl_to r) \<in> insert (rl_from old, rl_to old) (set (assigns_edges d ch (rl_id old)))"
proof (cases "in_scope d ch r")
  case True
  with edge_in [OF r(1) True r(3)] r(2) show ?thesis by simp
next
  case False
  with r(4) have "overridden d ch r" by (auto simp: in_scope_def legacy_in_def)
  then obtain s where s: "s \<in> set (relationships d)" "rl_channel s = Some ch" "rl_type s = RelAssignsTo"
    "rl_from s = rl_from r" "rl_to s = rl_to r" using r(3) by (auto simp: overridden_def exists_row_iff)
  show ?thesis
  proof (cases "rl_id s = rl_id old")
    case True
    then have "s = old" using keyed_unique [OF assms(1) s(1) old] by simp
    with s show ?thesis by simp
  next
    case False
    have "(rl_from s, rl_to s) \<in> set (assigns_edges d ch (rl_id old))"
      by (rule edge_in [OF s(1) _ s(3)]) (use s(2) False in \<open>simp_all add: in_scope_def\<close>)
    with s(4,5) show ?thesis by simp
  qed
qed

lemma no_cycle_insert:
  assumes "acyclic E" and "\<not> a \<in> set (dependencies es [b])" and "E \<subseteq> insert (a, b) (set es)"
  shows "acyclic (insert (a, b) E)"
proof -
  have reach: "(b, a) \<notin> (set es)\<^sup>*" using assms(2) by (simp add: dependencies_reach)
  have "(b, a) \<notin> E\<^sup>*"
  proof
    assume "(b, a) \<in> E\<^sup>*"
    then have "(b, a) \<in> (insert (a, b) (set es))\<^sup>*" using assms(3) by (meson rtrancl_mono subsetD)
    with reach show False by (auto simp: rtrancl_insert)
  qed
  then show ?thesis using assms(1) by (simp add: acyclic_insert)
qed

section \<open>What the statements do to the edges\<close>

definition no_cycles :: "team_db \<Rightarrow> bool" where
  "no_cycles d \<longleftrightarrow> (\<forall>ch. acyclic (assigns_pairs d ch))"

lemma no_cycles_mono: "no_cycles d \<Longrightarrow> (\<And>ch. assigns_pairs d' ch \<subseteq> assigns_pairs d ch) \<Longrightarrow> no_cycles d'"
  unfolding no_cycles_def by (meson acyclic_subset)

lemma same_owners: "agents (base d') = agents (base d) \<Longrightarrow> owner_of d' = owner_of d"
  by (rule ext) (simp add: owner_of_def agent_row_def)

lemma legacy_mono:
  assumes "legacy_in d' ch r" and "agents (base d') = agents (base d)"
    and "\<And>a. agent_member d' ch a \<Longrightarrow> agent_member d ch a"
  shows "legacy_in d ch r"
  using assms(1,3) unfolding legacy_in_def same_owners [OF assms(2)] by blast

lemma legacy_same:
  assumes "base d' = base d"
  shows "legacy_in d' ch r = legacy_in d ch r"
proof -
  have "owner_of d' = owner_of d" by (rule same_owners) (simp add: assms)
  moreover have "agent_member d' = agent_member d" by (intro ext) (simp add: agent_member_def assms)
  ultimately show ?thesis by (simp add: legacy_in_def)
qed

lemma pairs_mono:
  "set (relationships d') \<subseteq> set (relationships d) \<Longrightarrow> agents (base d') = agents (base d) \<Longrightarrow>
   (\<And>ch a. agent_member d' ch a \<Longrightarrow> agent_member d ch a) \<Longrightarrow> assigns_pairs d' ch \<subseteq> assigns_pairs d ch"
  unfolding assigns_pairs_def using legacy_mono by blast

lemma insert_result:
  assumes "insert_relationship r d = Some (d', r')"
  shows "r' = with_channel d r \<and> d' = d\<lparr>relationships := relationships d @ [r']\<rparr> \<and> scope_enforced d r' \<and>
         row_allowed (relationships d) r' \<and> rl_channel r' \<noteq> None"
  using assms unfolding insert_relationship_def Let_def by (auto split: if_splits)

lemma insert_no_cycles:
  assumes "no_cycles d" and "insert_relationship r d = Some (d', r')" and ch: "rl_channel r' = Some ch"
    and "rl_type r' = RelAssignsTo \<Longrightarrow> \<not> would_create_assigns_to_cycle d ch (rl_from r') (rl_to r') []"
  shows "no_cycles d'"
proof -
  from insert_result [OF assms(2)] have d': "d' = d\<lparr>relationships := relationships d @ [r']\<rparr>" by blast
  have pairs: "assigns_pairs d' c = assigns_pairs d c \<union>
      (if rl_type r' = RelAssignsTo \<and> c = ch then {(rl_from r', rl_to r')} else {})" for c
  proof -
    have "legacy_in d' c x = legacy_in d c x" for x by (rule legacy_same) (simp add: d')
    moreover have "\<not> legacy_in d c r'" using ch by (simp add: legacy_in_def)
    ultimately show ?thesis using ch by (auto simp: assigns_pairs_def d')
  qed
  show ?thesis
  proof (cases "rl_type r' = RelAssignsTo")
    case True
    with assms(4) have "rl_from r' \<notin> set (dependencies (assigns_edges d ch []) [rl_to r'])"
      by (simp add: would_create_assigns_to_cycle_def)
    from no_cycle_insert [OF _ this, of "assigns_pairs d ch"] assms(1)
    have "acyclic (insert (rl_from r', rl_to r') (assigns_pairs d ch))"
      by (auto simp: no_cycles_def edges_pairs)
    then show ?thesis using assms(1) True by (auto simp: no_cycles_def pairs)
  next
    case False
    then show ?thesis using assms(1) by (simp add: no_cycles_def pairs)
  qed
qed

lemma write_result:
  assumes "write_relationship old new d = Some d'"
  shows "d' = d\<lparr>relationships := update_where (\<lambda>s. rl_id s = rl_id old) (\<lambda>_. new) (relationships d)\<rparr>"
  using assms by (simp add: write_relationship_def split: if_splits)

lemma update_no_cycles:
  assumes inv: "no_cycles d" and key: "keyed rl_id (relationships d)"
    and old: "old \<in> set (relationships d)" "rl_channel old = Some ch"
    and upd: "write_relationship old (updated_relationship i q old) d = Some d'"
    and chk: "uq_type q = Some RelAssignsTo \<Longrightarrow>
      \<not> would_create_assigns_to_cycle d ch (rl_from old) (rl_to old) (rl_id old)"
  shows "no_cycles d'"
proof -
  let ?new = "updated_relationship i q old"
  from upd have d': "d' = d\<lparr>relationships := update_where (\<lambda>s. rl_id s = rl_id old) (\<lambda>_. ?new) (relationships d)\<rparr>"
    by (rule write_result)
  have new: "rl_from ?new = rl_from old" "rl_to ?new = rl_to old" "rl_channel ?new = Some ch" "rl_id ?new = rl_id old"
    using old(2) by (simp_all add: updated_relationship_def)
  have leg: "legacy_in d' c x = legacy_in d c x" for c x by (rule legacy_same) (simp add: d')
  have rows: "x = ?new \<or> x \<in> set (relationships d) \<and> rl_id x \<noteq> rl_id old" if "x \<in> set (relationships d')" for x
    using that by (auto simp: d' row_simps split: if_splits)
  have other: "assigns_pairs d' c \<subseteq> assigns_pairs d c \<union>
      (if rl_type ?new = RelAssignsTo \<and> c = ch then {(rl_from old, rl_to old)} else {})" for c
    using rows new leg by (fastforce simp: assigns_pairs_def legacy_in_def)
  show ?thesis
  proof (cases "rl_type ?new = RelAssignsTo \<and> uq_type q = Some RelAssignsTo")
    case True
    have sub: "assigns_pairs d' ch \<subseteq> insert (rl_from old, rl_to old) (set (assigns_edges d ch (rl_id old)))"
    proof
      fix x assume "x \<in> assigns_pairs d' ch"
      then obtain r where r: "r \<in> set (relationships d')" "rl_type r = RelAssignsTo" "x = (rl_from r, rl_to r)"
        "rl_channel r = Some ch \<or> legacy_in d ch r" by (auto simp: assigns_pairs_def leg)
      from rows [OF r(1)] show "x \<in> insert (rl_from old, rl_to old) (set (assigns_edges d ch (rl_id old)))"
      proof
        assume "r = ?new"
        with r(3) new show ?thesis by simp
      next
        assume "r \<in> set (relationships d) \<and> rl_id r \<noteq> rl_id old"
        with pairs_without [OF key old(1), of r ch] r show ?thesis by auto
      qed
    qed
    have nr: "rl_from old \<notin> set (dependencies (assigns_edges d ch (rl_id old)) [rl_to old])"
      using chk True by (simp add: would_create_assigns_to_cycle_def)
    have "acyclic (insert (rl_from old, rl_to old) (assigns_pairs d' ch - {(rl_from old, rl_to old)}))"
    proof (rule no_cycle_insert [OF _ nr])
      have "assigns_pairs d' ch - {(rl_from old, rl_to old)} \<subseteq> assigns_pairs d ch" using other [of ch] by (auto split: if_splits)
      then show "acyclic (assigns_pairs d' ch - {(rl_from old, rl_to old)})"
        using inv unfolding no_cycles_def by (meson acyclic_subset)
    qed (use sub in auto)
    then have "acyclic (assigns_pairs d' ch)" by (rule acyclic_subset) auto
    moreover have "acyclic (assigns_pairs d' c)" if "c \<noteq> ch" for c
    proof -
      have "assigns_pairs d' c \<subseteq> assigns_pairs d c" using other [of c] that by simp
      with inv show ?thesis unfolding no_cycles_def by (meson acyclic_subset)
    qed
    ultimately show ?thesis unfolding no_cycles_def by metis
  next
    case False
    show ?thesis
    proof (rule no_cycles_mono [OF inv])
      fix c
      have "(rl_from old, rl_to old) \<in> assigns_pairs d ch" if "rl_type ?new = RelAssignsTo"
      proof -
        have "rl_type old = RelAssignsTo" using that False by (auto simp: updated_relationship_def split: option.splits)
        with old show ?thesis by (auto simp: assigns_pairs_def)
      qed
      with other [of c] show "assigns_pairs d' c \<subseteq> assigns_pairs d c" by (auto split: if_splits)
    qed
  qed
qed

lemma no_cycles_same: "no_cycles d \<Longrightarrow> relationships d' = relationships d \<Longrightarrow> base d' = base d \<Longrightarrow> no_cycles d'"
  by (erule no_cycles_mono, rule pairs_mono) (simp_all add: agent_member_def)

lemma set_proposal_simps [simp]:
  "relationships (set_proposal pid f d) = relationships d" "base (set_proposal pid f d) = base d"
  "team_versions (set_proposal pid f d) = team_versions d"
  "proposals (set_proposal pid f d) = update_where (\<lambda>p. pp_id p = pid) f (proposals d)"
  by (simp_all add: set_proposal_def)

lemma clear_version_simps [simp]:
  "relationships (clear_team_version ch d) = relationships d" "base (clear_team_version ch d) = base d"
  "proposals (clear_team_version ch d) = proposals d"
  by (simp_all add: clear_team_version_def)

lemma delete_simps [simp]:
  "relationships (delete_relationships P d) = delete_where P (relationships d)"
  "base (delete_relationships P d) = base d"
  by (simp_all add: delete_relationships_def Let_def)

lemma joined_facts:
  assumes "joined_proposal d ch pid = Some (p, x, y)"
  shows "p \<in> set (proposals d) \<and> pp_id p = pid \<and> pp_channel p = ch \<and>
         owner_of d (pp_from p) = Some x \<and> owner_of d (pp_to p) = Some y"
  using assms by (auto simp: joined_proposal_def find_Some_iff owner_of_def split: option.splits if_splits)

lemma owned_facts:
  assumes "owned_relationship d u rid = Some r"
  shows "r \<in> set (relationships d) \<and> rl_id r = rid \<and> owner_of d (rl_from r) = Some u \<and>
         owner_of d (rl_to r) = Some u \<and> rl_channel r \<noteq> None"
  using assms by (auto simp: owned_relationship_def find_Some_iff)

section \<open>The operations in terms of the statements\<close>

lemma create_result:
  assumes "create_relationship e u q d = Inr (d', r')"
  obtains ch r where "owner_of d (cq_from q) = Some u" "owner_of d (cq_to q) = Some u" "home_of d (cq_from q) = Some ch"
    "insert_relationship r d = Some (d', r')" "rl_from r = cq_from q" "rl_to r = cq_to q" "rl_type r = cq_type q"
    "rl_channel r = None" "rl_id r = fresh e"
    "cq_type q = RelAssignsTo \<Longrightarrow> \<not> would_create_assigns_to_cycle d ch (cq_from q) (cq_to q) []"
proof -
  let ?r = "\<lparr>rl_id = fresh e, rl_from = cq_from q, rl_to = cq_to q, rl_type = cq_type q,
     rl_weight = (case cq_weight q of None \<Rightarrow> 1 | Some w \<Rightarrow> w), rl_instruction = cq_instruction q,
     rl_channel = None, rl_created = now e, rl_updated = now e\<rparr>"
  from assms obtain ch where ch: "lock_relationship_channel d u (cq_from q) (cq_to q) = Some ch"
    and cyc: "\<not> (cq_type q = RelAssignsTo \<and> would_create_assigns_to_cycle d ch (cq_from q) (cq_to q) [])"
    and ins: "insert_relationship ?r d = Some (d', r')"
    by (auto simp: create_relationship_def split: option.splits if_splits)
  from ch have "owner_of d (cq_from q) = Some u" "owner_of d (cq_to q) = Some u" "home_of d (cq_from q) = Some ch"
    by (auto simp: lock_relationship_channel_def split: if_splits)
  from that [OF this ins] cyc show ?thesis by simp
qed

lemma update_result:
  assumes "update_relationship e u rid q d = Inr (d', r')"
  obtains r ch where "r \<in> set (relationships d)" "rl_id r = rid" "rl_channel r = Some ch"
    "owner_of d (rl_from r) = Some u" "owner_of d (rl_to r) = Some u" "r' = updated_relationship (now e) q r"
    "write_relationship r r' d = Some d'"
    "uq_type q = Some RelAssignsTo \<Longrightarrow> \<not> would_create_assigns_to_cycle d ch (rl_from r) (rl_to r) rid"
proof -
  from assms obtain r where r: "owned_relationship d u rid = Some r"
    "\<not> (uq_type q = Some RelAssignsTo \<and>
        would_create_assigns_to_cycle d (coalesce (rl_channel r)) (rl_from r) (rl_to r) rid)"
    "write_relationship r (updated_relationship (now e) q r) d = Some d'" "r' = updated_relationship (now e) q r"
    by (auto simp: update_relationship_def split: option.splits if_splits)
  from owned_facts [OF r(1)] obtain ch where ch: "rl_channel r = Some ch" by blast
  show ?thesis by (rule that [of r ch]) (use owned_facts [OF r(1)] r ch in simp_all)
qed

lemma accept_result:
  assumes "accept_agreement e ch actor p x y d = Inr d'"
  obtains (waiting) "d' = set_proposal (pp_id p) (approve actor) d"
  | (agreed) d2 r where "x \<in> set (pp_approved (approve actor p))" "y \<in> set (pp_approved (approve actor p))"
      "insert_relationship r (set_proposal (pp_id p) (approve actor) d) = Some (d2, r)"
      "rl_from r = pp_from p" "rl_to r = pp_to p" "rl_type r = pp_type p" "rl_instruction r = pp_instruction p"
      "rl_channel r = Some ch"
      "d' = set_proposal (pp_id p) (\<lambda>z. z\<lparr>pp_status := ''accepted'', pp_relationship := Some (rl_id r)\<rparr>) d2"
      "pp_type p = RelAssignsTo \<Longrightarrow>
         \<not> would_create_assigns_to_cycle (set_proposal (pp_id p) (approve actor) d) ch (pp_from p) (pp_to p) []"
proof (cases "x \<in> set (pp_approved (approve actor p)) \<and> y \<in> set (pp_approved (approve actor p))")
  case False
  with assms waiting show ?thesis by (simp add: accept_agreement_def)
next
  case True
  let ?d1 = "set_proposal (pp_id p) (approve actor) d"
  let ?r = "\<lparr>rl_id = fresh e, rl_from = pp_from p, rl_to = pp_to p, rl_type = pp_type p, rl_weight = 1,
     rl_instruction = pp_instruction p, rl_channel = Some ch, rl_created = now e, rl_updated = now e\<rparr>"
  from assms True obtain d2 r where ins: "insert_relationship ?r ?d1 = Some (d2, r)"
    and d': "d' = set_proposal (pp_id p) (\<lambda>z. z\<lparr>pp_status := ''accepted'', pp_relationship := Some (rl_id r)\<rparr>) d2"
    and cyc: "\<not> (pp_type p = RelAssignsTo \<and> would_create_assigns_to_cycle ?d1 ch (pp_from p) (pp_to p) [])"
    by (auto simp: accept_agreement_def Let_def split: option.splits if_splits)
  have "r = ?r" using insert_result [OF ins] by (simp add: with_channel_def)
  with ins d' cyc True agreed [of ?r d2] show ?thesis by simp
qed

lemma decide_result:
  assumes "decide_team_agreement e ch actor proposal decision d = Inr d'"
  obtains (same) "d' = d"
  | (withdrawn) p x y pid where "joined_proposal d ch pid = Some (p, x, y)" "d' = withdraw_agreement ch p d"
  | (accepted) p x y pid where "joined_proposal d ch pid = Some (p, x, y)" "pp_status p \<noteq> ''accepted''"
      "accept_agreement e ch actor p x y d = Inr d'"
proof -
  from assms obtain pid p x y where j: "joined_proposal d ch pid = Some (p, x, y)"
    and out: "decision = ''withdraw'' \<and> d' = withdraw_agreement ch p d \<or> d' = d \<or>
              pp_status p \<noteq> ''accepted'' \<and> accept_agreement e ch actor p x y d = Inr d'"
    by (auto simp: decide_team_agreement_def split: option.splits if_splits)
  from out same withdrawn [OF j] accepted [OF j] show ?thesis by blast
qed

text \<open>What every operation does to the tables: nothing, or one of these changes.\<close>

lemma propose_result:
  assumes "propose_team_agreement e ch actor q d = Inr (d', pid)"
  shows "\<exists>p. d' = d\<lparr>proposals := proposals d @ [p]\<rparr> \<and> pp_id p \<notin> pp_id ` set (proposals d)"
  using assms
  by (auto simp: propose_team_agreement_def Let_def exists_row_iff simp del: ex_simps split: option.splits if_splits)
    (rule exI, rule conjI, rule refl, auto)+

lemma delete_result:
  assumes "delete_relationship u rid d = Inr d'"
  shows "\<exists>P. d' = delete_relationships P d"
  using assms by (auto simp: delete_relationship_def Let_def split: if_splits)

section \<open>No cycles\<close>

definition acyclic_ok :: "team_db \<Rightarrow> bool" where
  "acyclic_ok d \<longleftrightarrow> keyed rl_id (relationships d) \<and> no_cycles d"

lemma insert_keyed:
  assumes "insert_relationship r d = Some (d', r')" and "keyed rl_id (relationships d)"
  shows "keyed rl_id (relationships d')"
  using insert_result [OF assms(1)] assms(2) by (auto simp: keyed_insert row_allowed_def exists_row_iff)

lemma write_keyed:
  assumes "write_relationship old new d = Some d'" and "keyed rl_id (relationships d)" and "rl_id new = rl_id old"
  shows "keyed rl_id (relationships d')"
proof -
  have "map rl_id (update_where (\<lambda>s. rl_id s = rl_id old) (\<lambda>_. new) ts) = map rl_id ts" for ts
    using assms(3) by (induction ts) (auto simp: update_where_def)
  with write_result [OF assms(1)] assms(2) show ?thesis by (simp add: keyed_def)
qed

lemma acyclic_same: "acyclic_ok d \<Longrightarrow> relationships d' = relationships d \<Longrightarrow> base d' = base d \<Longrightarrow> acyclic_ok d'"
  using no_cycles_same unfolding acyclic_ok_def by metis

lemma delete_acyclic: "acyclic_ok d \<Longrightarrow> acyclic_ok (delete_relationships P d)"
  unfolding acyclic_ok_def
proof (intro conjI)
  assume ok: "keyed rl_id (relationships d) \<and> no_cycles d"
  then show "keyed rl_id (relationships (delete_relationships P d))" by (simp add: keyed_delete)
  show "no_cycles (delete_relationships P d)"
    by (rule no_cycles_mono [OF conjunct2 [OF ok]], rule pairs_mono)
      (auto simp: row_simps agent_member_def)
qed

lemma insert_acyclic:
  assumes "acyclic_ok d" "insert_relationship r d = Some (d', r')" "rl_channel r' = Some ch"
    "rl_type r' = RelAssignsTo \<Longrightarrow> \<not> would_create_assigns_to_cycle d ch (rl_from r') (rl_to r') []"
  shows "acyclic_ok d'"
  using assms insert_no_cycles insert_keyed unfolding acyclic_ok_def by blast

lemma create_acyclic:
  assumes "acyclic_ok d" and "create_relationship e u q d = Inr (d', r')"
  shows "acyclic_ok d'"
proof -
  from create_result [OF assms(2)] obtain ch r where r: "home_of d (cq_from q) = Some ch"
    "insert_relationship r d = Some (d', r')" "rl_from r = cq_from q" "rl_to r = cq_to q" "rl_type r = cq_type q"
    "rl_channel r = None"
    "cq_type q = RelAssignsTo \<Longrightarrow> \<not> would_create_assigns_to_cycle d ch (cq_from q) (cq_to q) []" by metis
  have "r' = with_channel d r" using insert_result [OF r(2)] by blast
  then have new: "rl_channel r' = Some ch" "rl_from r' = cq_from q" "rl_to r' = cq_to q" "rl_type r' = cq_type q"
    using r by (simp_all add: with_channel_def)
  from insert_acyclic [OF assms(1) r(2) new(1)] show ?thesis using r(7) new by simp
qed

lemma update_acyclic:
  assumes ok: "acyclic_ok d" and "update_relationship e u rid q d = Inr (d', r')"
  shows "acyclic_ok d'"
proof -
  from update_result [OF assms(2)] obtain r ch where r: "r \<in> set (relationships d)" "rl_id r = rid" "rl_channel r = Some ch"
    "r' = updated_relationship (now e) q r" "write_relationship r r' d = Some d'"
    "uq_type q = Some RelAssignsTo \<Longrightarrow> \<not> would_create_assigns_to_cycle d ch (rl_from r) (rl_to r) rid" by metis
  from ok have inv: "no_cycles d" "keyed rl_id (relationships d)" by (simp_all add: acyclic_ok_def)
  have "no_cycles d'"
    by (rule update_no_cycles [OF inv r(1,3)]) (use r in simp_all)
  moreover have "keyed rl_id (relationships d')"
    by (rule write_keyed [OF r(5) inv(2)]) (simp add: r(4) updated_relationship_def)
  ultimately show ?thesis by (simp add: acyclic_ok_def)
qed

lemma withdraw_acyclic: "acyclic_ok d \<Longrightarrow> acyclic_ok (withdraw_agreement ch p d)"
  by (rule acyclic_same [of "case pp_relationship p of None \<Rightarrow> d | Some rid \<Rightarrow> delete_relationships (\<lambda>r. rl_id r = rid) d"])
    (auto simp: withdraw_agreement_def Let_def delete_acyclic split: option.splits)

lemma accept_acyclic:
  assumes ok: "acyclic_ok d" and acc: "accept_agreement e ch actor p x y d = Inr d'"
  shows "acyclic_ok d'"
  using acc
proof (cases rule: accept_result)
  case waiting
  then show ?thesis using acyclic_same [OF ok] by simp
next
  case (agreed d2 r)
  have "acyclic_ok (set_proposal (pp_id p) (approve actor) d)" by (rule acyclic_same [OF ok]) simp_all
  from insert_acyclic [OF this agreed(3,8)] agreed(4-6,10) have "acyclic_ok d2" by simp
  then show ?thesis by (rule acyclic_same) (simp_all add: agreed(9))
qed

lemma leave_acyclic:
  assumes "acyclic_ok d"
  shows "acyclic_ok (revoke_participation ch a d)"
proof -
  let ?gone = "\<lambda>m. m_channel m = ch \<and> m_member m = a \<and> m_type m = ''agent''"
  let ?d1 = "clear_team_version ch (d\<lparr>base := (base d)\<lparr>members := delete_where ?gone (members (base d))\<rparr>\<rparr>)"
  let ?d2 = "delete_relationships (\<lambda>r. rl_channel r = Some ch \<and> (rl_from r = a \<or> rl_to r = a)) ?d1"
  have "no_cycles ?d1"
    by (rule no_cycles_mono [of d], rule conjunct2 [OF assms [unfolded acyclic_ok_def]], rule pairs_mono)
      (auto simp: agent_member_def exists_row_iff row_simps clear_team_version_def)
  then have "acyclic_ok ?d1" using assms by (simp add: acyclic_ok_def)
  then have "acyclic_ok ?d2" by (rule delete_acyclic)
  then have "acyclic_ok (?d2\<lparr>proposals := ps\<rparr>)" for ps by (rule acyclic_same) simp_all
  then show ?thesis using assms by (simp add: revoke_participation_def Let_def)
qed

section \<open>Consent\<close>

definition consent :: "team_db \<Rightarrow> relationship_row \<Rightarrow> proposal_row \<Rightarrow> bool" where
  "consent d r p \<longleftrightarrow>
     pp_relationship p = Some (rl_id r) \<and> pp_status p = ''accepted'' \<and> rl_channel r = Some (pp_channel p) \<and>
     pp_from p = rl_from r \<and> pp_to p = rl_to r \<and> pp_type p = rl_type r \<and> pp_instruction p = rl_instruction r \<and>
     (\<exists>x y. owner_of d (rl_from r) = Some x \<and> owner_of d (rl_to r) = Some y \<and>
            x \<in> set (pp_approved p) \<and> y \<in> set (pp_approved p))"

definition consented :: "team_db \<Rightarrow> relationship_row \<Rightarrow> bool" where
  "consented d r \<longleftrightarrow>
     owner_of d (rl_from r) = owner_of d (rl_to r) \<or> (\<exists>p \<in> set (proposals d). consent d r p)"

definition agreed_ok :: "team_db \<Rightarrow> bool" where
  "agreed_ok d \<longleftrightarrow>
     keyed rl_id (relationships d) \<and> keyed pp_id (proposals d) \<and> (\<forall>r \<in> set (relationships d). consented d r)"

lemma keyed_proposals: "(\<And>p. pp_id (f p) = pp_id p) \<Longrightarrow> keyed pp_id (update_where P f ps) = keyed pp_id ps"
  by (rule keyed_update.keyed_update_iff) (unfold_locales, simp)

lemma consented_same: "owner_of d' = owner_of d \<Longrightarrow> proposals d' = proposals d \<Longrightarrow> consented d' r = consented d r"
  by (simp add: consented_def consent_def)

lemma consented_mapped:
  assumes "consented d r" and "owner_of d' = owner_of d"
    and "\<And>p. p \<in> set (proposals d) \<Longrightarrow> consent d r p \<Longrightarrow> \<exists>p' \<in> set (proposals d'). consent d r p'"
  shows "consented d' r"
proof -
  have "consent d' = consent d" by (intro ext) (simp add: consent_def assms(2))
  with assms show ?thesis unfolding consented_def by metis
qed

lemma owner_of_simps [simp]:
  "owner_of (set_proposal pid f d) = owner_of d" "owner_of (clear_team_version ch d) = owner_of d"
  "owner_of (delete_relationships P d) = owner_of d" "owner_of (d\<lparr>proposals := ps\<rparr>) = owner_of d"
  "owner_of (d\<lparr>relationships := rs\<rparr>) = owner_of d"
  by (rule same_owners, simp)+

lemma same_edit_agreed:
  assumes "agreed_ok d" and f: "\<And>p. pp_id (f p) = pp_id p"
    and "\<And>r p. r \<in> set (relationships d) \<Longrightarrow> p \<in> set (proposals d) \<Longrightarrow> pp_id p = pid \<Longrightarrow> consent d r p \<Longrightarrow>
      consent d r (f p)"
  shows "agreed_ok (set_proposal pid f d)"
  unfolding agreed_ok_def
proof (intro conjI ballI)
  show "keyed rl_id (relationships (set_proposal pid f d))" using assms(1) by (simp add: agreed_ok_def)
  show "keyed pp_id (proposals (set_proposal pid f d))"
    using assms(1) by (simp add: agreed_ok_def keyed_proposals [OF f])
  fix r assume "r \<in> set (relationships (set_proposal pid f d))"
  then have r: "r \<in> set (relationships d)" by simp
  then have "consented d r" using assms(1) by (simp add: agreed_ok_def)
  then show "consented (set_proposal pid f d) r"
  proof (rule consented_mapped)
    fix p assume p: "p \<in> set (proposals d)" "consent d r p"
    have "(if pp_id p = pid then f p else p) \<in> set (proposals (set_proposal pid f d))"
      using p(1) by (simp add: update_where_def)
    moreover have "consent d r (if pp_id p = pid then f p else p)" using assms(3) [OF r p(1) _ p(2)] p(2) by simp
    ultimately show "\<exists>p' \<in> set (proposals (set_proposal pid f d)). consent d r p'" by blast
  qed simp
qed

lemma delete_agreed:
  assumes ok: "agreed_ok d"
  shows "agreed_ok (delete_relationships P d)"
  unfolding agreed_ok_def
proof (intro conjI ballI)
  let ?g = "revoke_proposal (\<lambda>rid. exists_row (\<lambda>r. rl_id r = rid) (filter P (relationships d)))"
  have ps: "proposals (delete_relationships P d) = map ?g (proposals d)"
    by (simp add: delete_relationships_def Let_def)
  have "pp_id \<circ> ?g = pp_id" by (rule ext) (auto simp: revoke_proposal_def split: option.splits)
  then show "keyed pp_id (proposals (delete_relationships P d))"
    using ok by (simp add: agreed_ok_def ps keyed_def)
  show "keyed rl_id (relationships (delete_relationships P d))"
    using ok by (simp add: agreed_ok_def keyed_delete)
  fix r assume "r \<in> set (relationships (delete_relationships P d))"
  then have r: "r \<in> set (relationships d)" "\<not> P r" by (simp_all add: row_simps)
  then have "consented d r" using ok by (simp add: agreed_ok_def)
  then show "consented (delete_relationships P d) r"
  proof (rule consented_mapped)
    fix p assume p: "p \<in> set (proposals d)" "consent d r p"
    have "\<not> exists_row (\<lambda>s. rl_id s = rl_id r) (filter P (relationships d))"
      using ok r keyed_unique [of rl_id "relationships d" _ r] by (auto simp: agreed_ok_def exists_row_iff)
    moreover have "pp_relationship p = Some (rl_id r)" using p(2) by (simp add: consent_def)
    ultimately have "?g p = p" by (simp add: revoke_proposal_def)
    then have "p \<in> set (proposals (delete_relationships P d))" using p(1) by (force simp: ps)
    with p(2) show "\<exists>p' \<in> set (proposals (delete_relationships P d)). consent d r p'" by blast
  qed simp
qed

lemma clear_agreed [simp]: "agreed_ok (clear_team_version ch d) = agreed_ok d"
  by (simp add: agreed_ok_def consented_def consent_def)

lemma withdraw_agreed:
  assumes ok: "agreed_ok d" and p: "p \<in> set (proposals d)"
  shows "agreed_ok (withdraw_agreement ch p d)"
proof -
  let ?d1 = "case pp_relationship p of None \<Rightarrow> d | Some rid \<Rightarrow> delete_relationships (\<lambda>r. rl_id r = rid) d"
  have ok1: "agreed_ok ?d1" using ok delete_agreed by (auto split: option.splits)
  have "agreed_ok (set_proposal (pp_id p) (\<lambda>x. x\<lparr>pp_status := ''withdrawn''\<rparr>) ?d1)"
  proof (rule same_edit_agreed [OF ok1])
    fix r q assume r: "r \<in> set (relationships ?d1)" and q: "q \<in> set (proposals ?d1)" "pp_id q = pp_id p" "consent ?d1 r q"
    show "consent ?d1 r (q\<lparr>pp_status := ''withdrawn''\<rparr>)"
    proof (cases "pp_relationship p")
      case None
      with q ok p have "q = p" by (auto simp: agreed_ok_def intro: keyed_unique)
      with None q(3) show ?thesis by (simp add: consent_def)
    next
      case (Some rid)
      then obtain q0 where q0: "q0 \<in> set (proposals d)"
        "q = revoke_proposal (\<lambda>i. exists_row (\<lambda>r. rl_id r = i) (filter (\<lambda>r. rl_id r = rid) (relationships d))) q0"
        using q(1) by (auto simp: delete_relationships_def Let_def)
      then have "pp_id q0 = pp_id p" using q(2) by (simp add: revoke_proposal_def split: option.splits if_splits)
      with q0(1) ok p have "q0 = p" by (auto simp: agreed_ok_def intro: keyed_unique)
      with q0(2) q(3) Some have "rl_id r = rid" by (auto simp: revoke_proposal_def consent_def split: if_splits)
      with r Some show ?thesis by (simp add: row_simps)
    qed
  qed simp
  then show ?thesis by (simp add: withdraw_agreement_def Let_def)
qed

lemma insert_agreed:
  assumes ok: "agreed_ok d" and ins: "insert_relationship r d = Some (d', r')" and "consented d r'"
  shows "agreed_ok d'"
proof -
  from insert_result [OF ins] have d': "d' = d\<lparr>relationships := relationships d @ [r']\<rparr>" by blast
  have "consented d' x = consented d x" for x by (rule consented_same) (simp_all add: d')
  moreover have "keyed rl_id (relationships d')" using insert_keyed [OF ins] ok by (simp add: agreed_ok_def)
  ultimately show ?thesis using ok assms(3) by (auto simp: agreed_ok_def d')
qed

lemma create_agreed:
  assumes "agreed_ok d" and "create_relationship e u q d = Inr (d', r')"
  shows "agreed_ok d'"
proof -
  from create_result [OF assms(2)] obtain r where r: "owner_of d (cq_from q) = Some u" "owner_of d (cq_to q) = Some u"
    "insert_relationship r d = Some (d', r')" "rl_from r = cq_from q" "rl_to r = cq_to q" by metis
  have "r' = with_channel d r" using insert_result [OF r(3)] by blast
  then have "consented d r'" using r by (simp add: consented_def with_channel_def)
  with insert_agreed [OF assms(1) r(3)] show ?thesis .
qed

lemma update_agreed:
  assumes ok: "agreed_ok d" and "update_relationship e u rid q d = Inr (d', r')"
  shows "agreed_ok d'"
proof -
  from update_result [OF assms(2)] obtain r where r: "r \<in> set (relationships d)" "owner_of d (rl_from r) = Some u"
    "owner_of d (rl_to r) = Some u" "r' = updated_relationship (now e) q r" "write_relationship r r' d = Some d'" by metis
  from write_result [OF r(5)] have
    d': "d' = d\<lparr>relationships := update_where (\<lambda>s. rl_id s = rl_id r) (\<lambda>_. r') (relationships d)\<rparr>" .
  have same: "consented d' x = consented d x" for x by (rule consented_same) (simp_all add: d')
  have "consented d r'" using r by (simp add: consented_def updated_relationship_def)
  then have "\<forall>x \<in> set (relationships d'). consented d x"
    using ok by (auto simp: d' row_simps agreed_ok_def split: if_splits)
  moreover have "keyed rl_id (relationships d')"
    by (rule write_keyed [OF r(5)]) (use ok in \<open>simp_all add: agreed_ok_def r(4) updated_relationship_def\<close>)
  ultimately show ?thesis using ok same by (simp add: agreed_ok_def) (simp add: d')
qed

lemma accept_agreed:
  assumes ok: "agreed_ok d" and j: "joined_proposal d ch pid = Some (p, x, y)" and st: "pp_status p \<noteq> ''accepted''"
    and acc: "accept_agreement e ch actor p x y d = Inr d'"
  shows "agreed_ok d'"
proof -
  let ?d1 = "set_proposal (pp_id p) (approve actor) d"
  from joined_facts [OF j] have p: "p \<in> set (proposals d)" "pp_channel p = ch"
    "owner_of d (pp_from p) = Some x" "owner_of d (pp_to p) = Some y" by blast+
  have no: "\<not> consent d r q" if "q \<in> set (proposals d)" "pp_id q = pp_id p" for r q
  proof -
    have "q = p" using that ok p(1) by (auto simp: agreed_ok_def intro: keyed_unique)
    with st show ?thesis by (simp add: consent_def)
  qed
  have ok1: "agreed_ok ?d1" by (rule same_edit_agreed [OF ok]) (use no in \<open>auto simp: approve_def\<close>)
  show ?thesis using acc
  proof (cases rule: accept_result)
    case waiting
    with ok1 show ?thesis by simp
  next
    case (agreed d2 r)
    let ?f = "\<lambda>z. z\<lparr>pp_status := ''accepted'', pp_relationship := Some (rl_id r)\<rparr>"
    from insert_result [OF agreed(3)] have d2: "d2 = ?d1\<lparr>relationships := relationships d @ [r]\<rparr>"
      and new: "rl_id r \<notin> rl_id ` set (relationships d)"
      by (auto simp: row_allowed_def exists_row_iff)
    have own: "owner_of d' = owner_of d" by (rule same_owners) (simp add: agreed(9) d2)
    have ps: "proposals d' = update_where (\<lambda>z. pp_id z = pp_id p) ?f (update_where (\<lambda>z. pp_id z = pp_id p) (approve actor) (proposals d))"
      by (simp add: agreed(9) d2)
    have keep: "q \<in> set (proposals d')" if "q \<in> set (proposals d)" "pp_id q \<noteq> pp_id p" for q
      using that by (force simp: ps row_simps)
    have id: "pp_id (approve actor p) = pp_id p" by (simp add: approve_def)
    have there: "?f (approve actor p) \<in> set (proposals d')"
      using p(1) id unfolding ps set_update_where image_iff by fastforce
    have "consented d' r0" if "r0 \<in> set (relationships d)" for r0
    proof (rule consented_mapped [OF _ own])
      show "consented d r0" using ok that by (simp add: agreed_ok_def)
      show "\<exists>q' \<in> set (proposals d'). consent d r0 q'" if "q \<in> set (proposals d)" "consent d r0 q" for q
        using keep no that by metis
    qed
    moreover have "consented d' r"
    proof -
      have "consent d' r (?f (approve actor p))"
        using p agreed(1,2,4-8) by (simp add: consent_def own) (simp add: approve_def)
      with there show ?thesis unfolding consented_def by blast
    qed
    moreover have "keyed pp_id (proposals d')"
    proof -
      have "keyed pp_id (proposals ?d1)" using ok1 by (simp add: agreed_ok_def)
      then show ?thesis unfolding ps set_proposal_simps by (simp add: keyed_proposals)
    qed
    moreover have "relationships d' = relationships d @ [r]" by (simp add: agreed(9) d2)
    ultimately show ?thesis using ok new by (auto simp: agreed_ok_def keyed_insert)
  qed
qed

lemma propose_agreed:
  assumes ok: "agreed_ok d" and "propose_team_agreement e ch actor q d = Inr (d', pid)"
  shows "agreed_ok d'"
proof -
  from propose_result [OF assms(2)] obtain p where
    p: "d' = d\<lparr>proposals := proposals d @ [p]\<rparr>" "pp_id p \<notin> pp_id ` set (proposals d)" by blast
  have "consented d' r" if "consented d r" for r
    using that by (rule consented_mapped) (auto simp: p(1))
  with ok p(2) show ?thesis by (simp add: agreed_ok_def p(1) keyed_insert)
qed

lemma leave_agreed:
  assumes ok: "agreed_ok d"
  shows "agreed_ok (revoke_participation ch a d)"
proof -
  let ?gone = "\<lambda>m. m_channel m = ch \<and> m_member m = a \<and> m_type m = ''agent''"
  let ?d1 = "clear_team_version ch (d\<lparr>base := (base d)\<lparr>members := delete_where ?gone (members (base d))\<rparr>\<rparr>)"
  let ?d2 = "delete_relationships (\<lambda>r. rl_channel r = Some ch \<and> (rl_from r = a \<or> rl_to r = a)) ?d1"
  let ?hit = "\<lambda>p. pp_channel p = ch \<and> (pp_from p = a \<or> pp_to p = a)"
  let ?out = "\<lambda>p :: proposal_row. p\<lparr>pp_status := ''withdrawn''\<rparr>"
  let ?d3 = "?d2\<lparr>proposals := update_where ?hit ?out (proposals ?d2)\<rparr>"
  have own: "owner_of (d\<lparr>base := (base d)\<lparr>members := ms\<rparr>\<rparr>) = owner_of d" for ms by (rule same_owners) simp
  have "consented (d\<lparr>base := (base d)\<lparr>members := ms\<rparr>\<rparr>) r = consented d r" for ms r
    by (rule consented_same [OF own]) simp
  then have "agreed_ok (d\<lparr>base := (base d)\<lparr>members := ms\<rparr>\<rparr>)" for ms using ok by (simp add: agreed_ok_def)
  then have "agreed_ok ?d1" by simp
  then have ok2: "agreed_ok ?d2" by (rule delete_agreed)
  have "consented ?d3 r" if r: "r \<in> set (relationships ?d3)" for r
  proof (rule consented_mapped)
    show "consented ?d2 r" using ok2 r by (simp add: agreed_ok_def)
    show "owner_of ?d3 = owner_of ?d2" by (rule same_owners) simp
    fix p assume p: "p \<in> set (proposals ?d2)" "consent ?d2 r p"
    from r have "\<not> (rl_channel r = Some ch \<and> (rl_from r = a \<or> rl_to r = a))" by (simp add: row_simps)
    with p(2) have "\<not> ?hit p" by (auto simp: consent_def)
    then have "p \<in> set (proposals ?d3)" using p(1) by (simp add: row_simps)
    with p(2) show "\<exists>p' \<in> set (proposals ?d3). consent ?d2 r p'" by blast
  qed
  moreover have "keyed pp_id (proposals ?d3)" using ok2 by (simp add: agreed_ok_def keyed_proposals)
  ultimately have "agreed_ok ?d3" using ok2 unfolding agreed_ok_def by simp
  then show ?thesis using ok by (simp add: revoke_participation_def Let_def)
qed

section \<open>Every history\<close>

lemma kept_or_intro: "P d \<Longrightarrow> (\<And>d'. r = Inr d' \<Longrightarrow> P d') \<Longrightarrow> P (kept_or d r)"
  by (auto simp: kept_or_def split: sum.splits)

lemma kept_fst_intro: "P d \<Longrightarrow> (\<And>d' x. r = Inr (d', x) \<Longrightarrow> P d') \<Longrightarrow> P (kept_or d (map_sum id fst r))"
  by (cases r) (auto simp: kept_or_def)

lemma team_step_acyclic:
  assumes ok: "acyclic_ok d"
  shows "acyclic_ok (team_step d (e, opn))"
proof (cases opn)
  case (DecideAgreement ch actor pid decision)
  have "acyclic_ok d'" if "decide_team_agreement e ch actor pid decision d = Inr d'" for d'
    using that
  proof (cases rule: decide_result)
    case same with ok show ?thesis by simp
  next
    case withdrawn with ok withdraw_acyclic show ?thesis by simp
  next
    case (accepted p x y i) with accept_acyclic [OF ok] show ?thesis by blast
  qed
  with ok show ?thesis by (auto simp: DecideAgreement intro: kept_or_intro)
next
  case (ProposeAgreement ch actor q)
  have "acyclic_ok d'" if out: "propose_team_agreement e ch actor q d = Inr (d', i)" for d' i
  proof -
    from propose_result [OF out] obtain p where "d' = d\<lparr>proposals := proposals d @ [p]\<rparr>" by blast
    then show ?thesis by (intro acyclic_same [OF ok]) simp_all
  qed
  with ok show ?thesis by (auto simp: ProposeAgreement intro: kept_fst_intro)
next
  case (DeleteRelationship u rid)
  have "acyclic_ok d'" if "delete_relationship u rid d = Inr d'" for d'
    using delete_result [OF that] delete_acyclic [OF ok] by blast
  with ok show ?thesis by (auto simp: DeleteRelationship intro: kept_or_intro)
qed (use ok create_acyclic [OF ok] update_acyclic [OF ok] leave_acyclic [OF ok]
     in \<open>auto intro: kept_fst_intro\<close>)

lemma team_step_agreed:
  assumes ok: "agreed_ok d"
  shows "agreed_ok (team_step d (e, opn))"
proof (cases opn)
  case (DecideAgreement ch actor pid decision)
  have "agreed_ok d'" if "decide_team_agreement e ch actor pid decision d = Inr d'" for d'
    using that
  proof (cases rule: decide_result)
    case same with ok show ?thesis by simp
  next
    case (withdrawn p x y i)
    with withdraw_agreed [OF ok] joined_facts show ?thesis by blast
  next
    case (accepted p x y i) with accept_agreed [OF ok] show ?thesis by blast
  qed
  with ok show ?thesis by (auto simp: DecideAgreement intro: kept_or_intro)
next
  case (DeleteRelationship u rid)
  have "agreed_ok d'" if "delete_relationship u rid d = Inr d'" for d'
    using delete_result [OF that] delete_agreed [OF ok] by blast
  with ok show ?thesis by (auto simp: DeleteRelationship intro: kept_or_intro)
qed (use ok create_agreed [OF ok] update_agreed [OF ok] leave_agreed [OF ok] propose_agreed [OF ok]
     in \<open>auto intro: kept_fst_intro\<close>)

interpretation hierarchy: op_machine team_step acyclic_ok
  by unfold_locales (metis prod.collapse team_step_acyclic)

interpretation agreements: op_machine team_step agreed_ok
  by unfold_locales (metis prod.collapse team_step_agreed)

section \<open>Properties\<close>

text \<open>
  C8. Whatever sequence of creations, updates, deletions, agreements and departures happens, the
  \<open>assigns_to\<close> relationships that hold in a channel never form a cycle: the check before each statement,
  made against the view of the channel and without the row that is being updated, is enough.
\<close>

theorem assigns_stay_acyclic:
  assumes "keyed rl_id (relationships d)" and "\<And>ch. acyclic (set (assigns_edges d ch []))"
  shows "acyclic (set (assigns_edges (foldl team_step d ops) ch []))"
proof -
  have "acyclic_ok d" using assms by (simp add: acyclic_ok_def no_cycles_def edges_pairs)
  then have "acyclic_ok (foldl team_step d ops)" by (rule hierarchy.run_inv)
  then show ?thesis by (simp add: acyclic_ok_def no_cycles_def edges_pairs)
qed

text \<open>
  C7. In every history a relationship between agents of different owners rests on an agreement: a proposal
  of the same channel with exactly its agents, type and instruction, accepted, linked to it, and approved by
  both owners. Withdrawing the agreement, deleting the relationship or removing an agent ends both.
\<close>

theorem agreements_need_both_owners:
  assumes "relationships d = []" and "keyed pp_id (proposals d)"
    and "r \<in> set (relationships (foldl team_step d ops))"
    and "owner_of (foldl team_step d ops) (rl_from r) \<noteq> owner_of (foldl team_step d ops) (rl_to r)"
  shows "\<exists>p \<in> set (proposals (foldl team_step d ops)). \<exists>x y.
           pp_relationship p = Some (rl_id r) \<and> pp_status p = ''accepted'' \<and> rl_channel r = Some (pp_channel p) \<and>
           pp_from p = rl_from r \<and> pp_to p = rl_to r \<and> pp_type p = rl_type r \<and> pp_instruction p = rl_instruction r \<and>
           owner_of (foldl team_step d ops) (rl_from r) = Some x \<and> owner_of (foldl team_step d ops) (rl_to r) = Some y \<and>
           x \<in> set (pp_approved p) \<and> y \<in> set (pp_approved p)"
proof -
  have "agreed_ok d" using assms(1,2) by (simp add: agreed_ok_def keyed_def)
  then have "agreed_ok (foldl team_step d ops)" by (rule agreements.run_inv)
  then show ?thesis using assms(3,4) by (auto simp: agreed_ok_def consented_def consent_def)
qed

section \<open>Witnesses\<close>

definition tm_env :: "id \<Rightarrow> env" where
  "tm_env i = \<lparr>now = 5, fresh = i, uuid_parse = Some, sql_lower = (\<lambda>s. s), sha256_hex = (\<lambda>s. s),
     hash_contract = (\<lambda>_. []), hash_submit = sub_key, hash_review = rv_key, hash_wait = wr_key,
     json_length_wait = (\<lambda>_. 0), has_notifier = False, gen_artifact = None\<rparr>"

definition tm_start :: team_db where
  "tm_start = \<lparr>base = empty_db\<lparr>
       channels := [\<lparr>ch_id = ''c1'', ch_archived = False\<rparr>],
       members := [\<lparr>m_channel = ''c1'', m_member = ''a1'', m_type = ''agent''\<rparr>,
                   \<lparr>m_channel = ''c1'', m_member = ''a2'', m_type = ''agent''\<rparr>,
                   \<lparr>m_channel = ''c1'', m_member = ''u1'', m_type = ''user''\<rparr>,
                   \<lparr>m_channel = ''c1'', m_member = ''u2'', m_type = ''user''\<rparr>],
       agents := [\<lparr>a_id = ''a1'', a_name = ''A'', a_owner = ''u1'', a_active = True\<rparr>,
                  \<lparr>a_id = ''a2'', a_name = ''B'', a_owner = ''u2'', a_active = True\<rparr>]\<rparr>,
     home_channels = [(''a1'', ''c1''), (''a2'', ''c9'')], relationships = [], proposals = [], team_versions = []\<rparr>"

definition tm_request :: create_relationship_request where
  "tm_request = \<lparr>cq_from = ''a1'', cq_to = ''a2'', cq_type = RelAssignsTo, cq_weight = None, cq_instruction = ''review''\<rparr>"

definition tm_ops :: "(env \<times> team_op) list" where
  "tm_ops = [(tm_env ''p1'', ProposeAgreement ''c1'' ''u1'' tm_request),
             (tm_env ''x1'', DecideAgreement ''c1'' ''u1'' ''p1'' ''accept''),
             (tm_env ''r1'', DecideAgreement ''c1'' ''u2'' ''p1'' ''accept'')]"

definition tm_end :: team_db where "tm_end = foldl team_step tm_start tm_ops"

lemma tm_rows:
  "map (\<lambda>r. (rl_id r, rl_from r, rl_to r)) (relationships tm_end) = [(''r1'', ''a1'', ''a2'')]"
  "owner_of tm_end ''a1'' \<noteq> owner_of tm_end ''a2''"
  "relationships (foldl team_step tm_start (take 2 tm_ops)) = []"
  by code_simp+

theorem assigns_stay_acyclic_witness:
  "assigns_edges tm_end ''c1'' [] = [(''a1'', ''a2'')] \<and> acyclic (set (assigns_edges tm_end ''c1'' []))"
proof
  show "assigns_edges tm_end ''c1'' [] = [(''a1'', ''a2'')]" by code_simp
  have start: "keyed rl_id (relationships tm_start)" "set (assigns_edges tm_start ch []) = {}" for ch
    by (simp_all add: assigns_edges_def tm_start_def keyed_def)
  show "acyclic (set (assigns_edges tm_end ''c1'' []))"
    unfolding tm_end_def by (rule assigns_stay_acyclic [OF start(1)]) (simp add: start(2) acyclic_def)
qed

theorem agreements_need_both_owners_witness:
  "\<exists>r \<in> set (relationships tm_end). \<exists>p \<in> set (proposals tm_end).
     pp_relationship p = Some (rl_id r) \<and> pp_status p = ''accepted''"
proof -
  from tm_rows(1) obtain r where r: "r \<in> set (relationships tm_end)" "rl_from r = ''a1''" "rl_to r = ''a2''" by auto
  have start: "relationships tm_start = []" "keyed pp_id (proposals tm_start)" by (simp_all add: tm_start_def keyed_def)
  have "owner_of tm_end (rl_from r) \<noteq> owner_of tm_end (rl_to r)" using tm_rows(2) r by simp
  from agreements_need_both_owners [OF start, of r tm_ops, folded tm_end_def, OF r(1) this] r(1)
  show ?thesis by blast
qed

end
