(* ===== verification/Fleet.thy ===== *)
theory Fleet
  imports Task_Retry Remote_Run
begin

text \<open>
  The registry of daemons on the server (\<open>service/daemon.go\<close>, the requests of \<open>handler/daemon.go\<close>): which
  daemons are online, which daemon an agent's work goes to, the tasks handed out and not yet reported, and
  what the health check does about daemons that fall silent and tasks that take too long.

  The two Go maps of \<open>DaemonManager\<close> are lists of rows with distinct keys; as a Go map has no order, what is
  proved about a list holds for every order of its rows. Calls to a daemon over HTTP are parameters: whether
  a cancellation was acknowledged.
\<close>

section \<open>Data\<close>

datatype daemon_status = DaemonStatusOnline | DaemonStatusOffline

definition i32 :: "int \<Rightarrow> int" where "i32 x = (x + 2 ^ 31) mod 2 ^ 32 - 2 ^ 31"

record pending_task =
  pk_task :: id
  pk_agent :: id
  pk_daemon :: id
  pk_run :: id
  pk_created :: time
  pk_backend :: "time option"
  pk_phase :: string

record daemon_info =
  dn_id :: id
  dn_computer :: id
  dn_host :: string
  dn_port :: int
  dn_version :: string
  dn_capabilities :: "string list"
  dn_max :: int
  dn_load :: int
  dn_types :: "string list"
  dn_status :: daemon_status
  dn_heartbeat :: time
  dn_missed :: nat
  dn_registered :: time

record fleet =
  daemons :: "daemon_info list"
  pending :: "pending_task list"
  heartbeat_interval :: time
  max_missed :: nat
  queue_timeout :: time
  execution_timeout :: time

definition agentRunQueueTimeout :: time where "agentRunQueueTimeout = 20 * 60 * 10 ^ 9"
definition agentRunExecutionTimeout :: time where "agentRunExecutionTimeout = 6 * 60 * 10 ^ 9"

definition new_fleet :: fleet where
  "new_fleet = \<lparr>daemons = [], pending = [], heartbeat_interval = 30 * 10 ^ 9, max_missed = 3,
     queue_timeout = agentRunQueueTimeout, execution_timeout = agentRunExecutionTimeout\<rparr>"

section \<open>Registration and heartbeats\<close>

record register_request =
  gq_daemon :: string
  gq_host :: string
  gq_port :: int
  gq_version :: string
  gq_capabilities :: "string list"
  gq_max :: int
  gq_types :: "string list"

definition fresh_daemon :: "id \<Rightarrow> id \<Rightarrow> string \<Rightarrow> int \<Rightarrow> string \<Rightarrow> string list \<Rightarrow> int \<Rightarrow> string list \<Rightarrow> daemon_info" where
  "fresh_daemon i computer host port version caps limit types =
     \<lparr>dn_id = i, dn_computer = computer, dn_host = host, dn_port = port, dn_version = version, dn_capabilities = caps,
      dn_max = limit, dn_load = 0, dn_types = types, dn_status = DaemonStatusOffline, dn_heartbeat = 0,
      dn_missed = 0, dn_registered = 0\<rparr>"

text \<open>The \<open>DaemonInfo\<close> of a request, or the message of its refusal.\<close>

definition register_info :: "register_request \<Rightarrow> string + daemon_info" where
  "register_info q =
     (if gq_daemon q = [] then Inl ''daemon_id is required''
      else if gq_host q = [] then Inl ''host is required''
      else if gq_port q = 0 then Inl ''port is required''
      else
        Inr (fresh_daemon (gq_daemon q) [] (gq_host q) (gq_port q) (gq_version q) (gq_capabilities q)
               (if gq_max q \<le> 0 then 10 else gq_max q) (gq_types q)))"

text \<open>The one of a computer that opens its control connection.\<close>

definition remote_info :: "id \<Rightarrow> string \<Rightarrow> string list \<Rightarrow> string list \<Rightarrow> daemon_info" where
  "remote_info computer version reported types =
     fresh_daemon computer computer [] 0 version (remote_daemon_capabilities reported) 10 types"

definition get_daemon :: "fleet \<Rightarrow> id \<Rightarrow> daemon_info option" where
  "get_daemon f i = row_by dn_id i (daemons f)"

definition renewed :: "time \<Rightarrow> daemon_info \<Rightarrow> daemon_info \<Rightarrow> daemon_info" where
  "renewed t info d =
     d\<lparr>dn_host := dn_host info, dn_port := dn_port info, dn_version := dn_version info,
       dn_capabilities := dn_capabilities info, dn_max := dn_max info, dn_types := dn_types info,
       dn_status := DaemonStatusOnline, dn_heartbeat := t, dn_missed := 0\<rparr>"

definition register :: "time \<Rightarrow> daemon_info \<Rightarrow> fleet \<Rightarrow> fleet" where
  "register t info f =
     (if get_daemon f (dn_id info) \<noteq> None
      then f\<lparr>daemons := update_where (\<lambda>d. dn_id d = dn_id info) (renewed t info) (daemons f)\<rparr>
      else f\<lparr>daemons := daemons f @
               [info\<lparr>dn_status := DaemonStatusOnline, dn_heartbeat := t, dn_registered := t\<rparr>]\<rparr>)"

definition beaten :: "time \<Rightarrow> int \<Rightarrow> daemon_info \<Rightarrow> daemon_info" where
  "beaten t load d = d\<lparr>dn_heartbeat := t, dn_missed := 0, dn_status := DaemonStatusOnline, dn_load := load\<rparr>"

definition heartbeat :: "time \<Rightarrow> id \<Rightarrow> int \<Rightarrow> fleet \<Rightarrow> fleet \<times> bool" where
  "heartbeat t i load f =
     (if get_daemon f i = None then (f, False)
      else (f\<lparr>daemons := update_where (\<lambda>d. dn_id d = i) (beaten t load) (daemons f)\<rparr>, True))"

definition daemon_has_capability :: "fleet \<Rightarrow> id \<Rightarrow> string \<Rightarrow> bool" where
  "daemon_has_capability f i c =
     (case get_daemon f i of None \<Rightarrow> False | Some d \<Rightarrow> has_capability (dn_capabilities d) c)"

text \<open>The tasks that leave the table come back for their runs to be ended.\<close>

definition unregister :: "id \<Rightarrow> fleet \<Rightarrow> fleet \<times> pending_task list" where
  "unregister i f =
     (f\<lparr>daemons := delete_where (\<lambda>d. dn_id d = i) (daemons f),
        pending := delete_where (\<lambda>p. pk_daemon p = i) (pending f)\<rparr>,
      filter (\<lambda>p. pk_daemon p = i) (pending f))"

section \<open>Pending tasks\<close>

definition track_task :: "time \<Rightarrow> id \<Rightarrow> id \<Rightarrow> id \<Rightarrow> fleet \<Rightarrow> fleet" where
  "track_task t task daemon agent f =
     f\<lparr>pending := delete_where (\<lambda>p. pk_task p = task) (pending f) @
         [\<lparr>pk_task = task, pk_agent = agent, pk_daemon = daemon, pk_run = [], pk_created = t, pk_backend = None,
           pk_phase = []\<rparr>]\<rparr>"

definition attach_task_run :: "id \<Rightarrow> id \<Rightarrow> fleet \<Rightarrow> fleet" where
  "attach_task_run task run f =
     (if task = [] \<or> run = [] then f
      else f\<lparr>pending := update_where (\<lambda>p. pk_task p = task) (\<lambda>p. p\<lparr>pk_run := run\<rparr>) (pending f)\<rparr>)"

definition mark_task_backend_started :: "time \<Rightarrow> id \<Rightarrow> time option \<Rightarrow> fleet \<Rightarrow> fleet" where
  "mark_task_backend_started t task started f =
     (if task = [] then f
      else f\<lparr>pending := update_where (\<lambda>p. pk_task p = task \<and> pk_backend p = None)
               (\<lambda>p. p\<lparr>pk_backend := Some (case started of None \<Rightarrow> t | Some s \<Rightarrow> s)\<rparr>) (pending f)\<rparr>)"

definition remove_task :: "id \<Rightarrow> fleet \<Rightarrow> fleet" where
  "remove_task task f = f\<lparr>pending := delete_where (\<lambda>p. pk_task p = task) (pending f)\<rparr>"

definition daemon_pending_tasks :: "fleet \<Rightarrow> id \<Rightarrow> pending_task list" where
  "daemon_pending_tasks f i = filter (\<lambda>p. pk_daemon p = i) (pending f)"

definition is_task_tracked :: "fleet \<Rightarrow> id \<Rightarrow> bool" where
  "is_task_tracked f task = exists_row (\<lambda>p. pk_task p = task) (pending f)"

section \<open>Choosing a daemon\<close>

fun select_loop :: "string \<Rightarrow> daemon_info option \<Rightarrow> int \<Rightarrow> daemon_info list \<Rightarrow> daemon_info option" where
  "select_loop c best best_load [] = best"
| "select_loop c best best_load (d # ds) =
     (if dn_status d \<noteq> DaemonStatusOnline then select_loop c best best_load ds
      else if dn_load d \<ge> i32 (dn_max d) then select_loop c best best_load ds
      else if c \<noteq> [] \<and> \<not> has_capability (dn_capabilities d) c then select_loop c best best_load ds
      else if dn_load d < best_load then select_loop c (Some d) (dn_load d) ds
      else select_loop c best best_load ds)"

definition select_daemon :: "fleet \<Rightarrow> string \<Rightarrow> daemon_info option" where
  "select_daemon f c = select_loop c None (2 ^ 31 - 1) (daemons f)"

definition daemon_usable :: "daemon_info \<Rightarrow> string \<Rightarrow> bool" where
  "daemon_usable d c \<longleftrightarrow>
     dn_status d = DaemonStatusOnline \<and>
     (c = [] \<or> (dn_load d < i32 (dn_max d) \<and> has_capability (dn_capabilities d) c))"

record computer_row =
  cp_id :: id
  cp_daemon :: "string option"
  cp_paired :: bool

text \<open>\<open>agents.runtime_id\<close> and the computers.\<close>

record bindings_db =
  runtime_ids :: "(id \<times> id option) list"
  computers :: "computer_row list"

datatype resolve_error =
    ErrAgentMissing | ErrNoDaemon id | ErrBoundWithoutDaemon id id | ErrDaemonUnavailable id id | ErrManyDaemons id

definition offline_computer :: "id \<Rightarrow> daemon_info" where
  "offline_computer runtime = (fresh_daemon runtime runtime [] 0 [] [''llm''] 10 [])\<lparr>dn_status := DaemonStatusOffline\<rparr>"

definition bind_agent :: "id \<Rightarrow> id \<Rightarrow> bindings_db \<Rightarrow> bindings_db" where
  "bind_agent agent only b =
     (case find (\<lambda>c. cp_id c = only \<or> cp_daemon c = Some only) (computers b) of
        None \<Rightarrow> b
      | Some c \<Rightarrow> b\<lparr>runtime_ids := update_where (\<lambda>(a, r). a = agent \<and> r = None) (\<lambda>(a, r). (a, Some (cp_id c))) (runtime_ids b)\<rparr>)"

definition control_daemon :: "fleet \<Rightarrow> id \<Rightarrow> daemon_info option" where
  "control_daemon f i =
     (case get_daemon f i of None \<Rightarrow> None | Some d \<Rightarrow> if dn_computer d \<noteq> [] then Some d else None)"

definition resolve_daemon_for_agent ::
  "fleet \<Rightarrow> id \<Rightarrow> string \<Rightarrow> bindings_db \<Rightarrow> resolve_error + bindings_db \<times> daemon_info" where
  "resolve_daemon_for_agent f agent c b =
     (case map_of (runtime_ids b) agent of
        None \<Rightarrow> Inl ErrAgentMissing
      | Some bound \<Rightarrow>
     (let runtime = coalesce bound; row = row_by cp_id runtime (computers b);
          daemon = (case row of None \<Rightarrow> [] | Some x \<Rightarrow> coalesce (cp_daemon x));
          paired = (case row of None \<Rightarrow> False | Some x \<Rightarrow> cp_paired x)
      in if runtime \<noteq> [] then
           (case control_daemon f runtime of
              Some d \<Rightarrow> Inr (b, d)
            | None \<Rightarrow>
                if paired then Inr (b, offline_computer runtime)
                else if daemon = [] then Inl (ErrBoundWithoutDaemon agent runtime)
                else
                  (case get_daemon f daemon of
                     None \<Rightarrow> Inl (ErrDaemonUnavailable agent daemon)
                   | Some x \<Rightarrow> if daemon_usable x c then Inr (b, x) else Inl (ErrDaemonUnavailable agent daemon)))
         else
           (case filter (\<lambda>d. daemon_usable d c) (daemons f) of
              [] \<Rightarrow> Inl (ErrNoDaemon agent)
            | [only] \<Rightarrow> Inr (bind_agent agent (dn_id only) b, only)
            | _ \<Rightarrow> Inl (ErrManyDaemons agent))))"

section \<open>The health check\<close>

definition beat_is_late :: "time \<Rightarrow> fleet \<Rightarrow> daemon_info \<Rightarrow> bool" where
  "beat_is_late t f d \<longleftrightarrow> dn_status d \<noteq> DaemonStatusOffline \<and> t - dn_heartbeat d > heartbeat_interval f"

definition missed_beat :: "daemon_info \<Rightarrow> daemon_info" where
  "missed_beat d = d\<lparr>dn_missed := dn_missed d + 1\<rparr>"

text \<open>
  The loop over the daemons, with the pending tasks left and the tasks taken from daemons that just went
  offline; tasks of a computer with a control connection are kept.
\<close>

fun health_loop ::
  "time \<Rightarrow> fleet \<Rightarrow> daemon_info list \<Rightarrow> pending_task list \<Rightarrow> daemon_info list \<times> pending_task list \<times> pending_task list" where
  "health_loop t f [] ps = ([], ps, [])"
| "health_loop t f (d # ds) ps =
     (if \<not> beat_is_late t f d then
        (case health_loop t f ds ps of (ds', ps', lost) \<Rightarrow> (d # ds', ps', lost))
      else if dn_missed d + 1 < max_missed f then
        (case health_loop t f ds ps of (ds', ps', lost) \<Rightarrow> (missed_beat d # ds', ps', lost))
      else if dn_computer d \<noteq> [] then
        (case health_loop t f ds ps of (ds', ps', lost) \<Rightarrow>
           ((missed_beat d)\<lparr>dn_status := DaemonStatusOffline\<rparr> # ds', ps', lost))
      else
        (case health_loop t f ds (delete_where (\<lambda>p. pk_daemon p = dn_id d) ps) of (ds', ps', lost) \<Rightarrow>
           ((missed_beat d)\<lparr>dn_status := DaemonStatusOffline\<rparr> # ds', ps',
            filter (\<lambda>p. pk_daemon p = dn_id d) ps @ lost)))"

definition task_deadline :: "fleet \<Rightarrow> pending_task \<Rightarrow> time \<times> time \<times> string" where
  "task_deadline f p =
     (case pk_backend p of
        Some s \<Rightarrow> (s, execution_timeout f, ''execution'')
      | None \<Rightarrow>
          (pk_created p,
           (case get_daemon f (pk_daemon p) of
              None \<Rightarrow> queue_timeout f
            | Some d \<Rightarrow> if dn_computer d \<noteq> [] then remoteRunDeliveryTTL else queue_timeout f),
           ''queue''))"

definition is_stale :: "time \<Rightarrow> fleet \<Rightarrow> pending_task \<Rightarrow> bool" where
  "is_stale t f p = (case task_deadline f p of (base, limit, _) \<Rightarrow> t - base > limit)"

definition remove_stale_tasks :: "time \<Rightarrow> fleet \<Rightarrow> fleet \<times> pending_task list" where
  "remove_stale_tasks t f =
     (f\<lparr>pending := delete_where (is_stale t f) (pending f)\<rparr>,
      map (\<lambda>p. p\<lparr>pk_phase := snd (snd (task_deadline f p))\<rparr>) (filter (is_stale t f) (pending f)))"

text \<open>The critical section of \<open>checkHealth\<close>: the registry it leaves, the tasks lost and the tasks timed out.\<close>

definition check_health :: "time \<Rightarrow> fleet \<Rightarrow> fleet \<times> pending_task list \<times> pending_task list" where
  "check_health t f =
     (case health_loop t f (daemons f) (pending f) of
        (ds, ps, lost) \<Rightarrow>
          (case remove_stale_tasks t (f\<lparr>daemons := ds, pending := ps\<rparr>) of (f', timed_out) \<Rightarrow> (f', lost, timed_out)))"

section \<open>Ending the runs of lost tasks\<close>

definition agentActivityTimeout :: string where "agentActivityTimeout = ''agent.activity.timeout''"
definition agentActivityQueueTimeout :: string where "agentActivityQueueTimeout = ''agent.activity.queue_timeout''"
definition agentActivityDaemonLost :: string where "agentActivityDaemonLost = ''agent.activity.daemon_lost''"

definition run_status_text :: "run_status \<Rightarrow> string" where
  "run_status_text s =
     (case s of
        AgentRunStatusQueued \<Rightarrow> ''queued'' | AgentRunStatusThinking \<Rightarrow> ''thinking''
      | AgentRunStatusRunning \<Rightarrow> ''running'' | AgentRunStatusStreaming \<Rightarrow> ''streaming''
      | AgentRunStatusWaitingInput \<Rightarrow> ''waiting_input'' | AgentRunStatusWaitingApproval \<Rightarrow> ''waiting_approval''
      | AgentRunStatusCompleted \<Rightarrow> ''completed'' | AgentRunStatusFailed \<Rightarrow> ''failed''
      | AgentRunStatusCancelled \<Rightarrow> ''cancelled'' | AgentRunStatusTimeout \<Rightarrow> ''timeout''
      | AgentRunStatusOther t \<Rightarrow> t)"

definition failure_payload :: "run_status \<Rightarrow> string \<Rightarrow> bool \<Rightarrow> payload" where
  "failure_payload s code retryable =
     [(''status'', run_status_text s), (''failure_code'', code),
      (''retryable'', if retryable then ''true'' else ''false'')]"

text \<open>
  \<open>finishPendingTaskRun\<close>. \<open>cancel_ok\<close> tells whether the daemon acknowledged the cancellation of a task. The
  run and its event are written in separate statements, whose errors are only logged.
\<close>

definition finish_pending_task_run ::
  "renv \<Rightarrow> (id \<Rightarrow> id \<Rightarrow> bool) \<Rightarrow> fleet \<Rightarrow> pending_task \<Rightarrow> run_status \<Rightarrow> string \<Rightarrow> string \<Rightarrow> bool \<Rightarrow> rdb \<Rightarrow> rdb" where
  "finish_pending_task_run e cancel_ok f p status activity code retryable rd =
     (if pk_run p = [] then rd
      else
        (let still = (case get_daemon f (pk_daemon p) of
                        None \<Rightarrow> retryable
                      | Some d \<Rightarrow> if dn_status d = DaemonStatusOnline \<and> \<not> cancel_ok (pk_daemon p) (pk_task p)
                                  then False else retryable)
         in case get_run rd (pk_run p) of
              None \<Rightarrow> rd
            | Some (r, _) \<Rightarrow>
                if \<not> is_active_agent_run_status (rn_status r) then rd
                else
                  (case finish_run e rd \<lparr>fi_run = rn_id r, fi_status = status, fi_activity = activity, fi_usage = UsageEmpty\<rparr> of
                     Inl _ \<Rightarrow> rd
                   | Inr rd1 \<Rightarrow>
                       (case append_event e rd1 (rn_id r) ErrorEvent activity [] (failure_payload status code still) of
                          Inl _ \<Rightarrow> rd1
                        | Inr rd2 \<Rightarrow> rd2))))"

definition timeout_pending_task_run ::
  "renv \<Rightarrow> (id \<Rightarrow> id \<Rightarrow> bool) \<Rightarrow> fleet \<Rightarrow> pending_task \<Rightarrow> rdb \<Rightarrow> rdb" where
  "timeout_pending_task_run e cancel_ok f p =
     finish_pending_task_run e cancel_ok f p AgentRunStatusTimeout
       (if pk_phase p = ''queue'' then agentActivityQueueTimeout else agentActivityTimeout) agentFailureTimeout True"

definition daemon_lost_pending_task_run ::
  "renv \<Rightarrow> (id \<Rightarrow> id \<Rightarrow> bool) \<Rightarrow> fleet \<Rightarrow> pending_task \<Rightarrow> rdb \<Rightarrow> rdb" where
  "daemon_lost_pending_task_run e cancel_ok f p =
     finish_pending_task_run e cancel_ok f p AgentRunStatusFailed agentActivityDaemonLost agentFailureDaemonLost True"

definition end_tasks ::
  "renv \<Rightarrow> (id \<Rightarrow> id \<Rightarrow> bool) \<Rightarrow> fleet \<Rightarrow> pending_task list \<times> pending_task list \<Rightarrow> rdb \<Rightarrow> rdb" where
  "end_tasks e cancel_ok f taken rd =
     foldl (\<lambda>x p. timeout_pending_task_run e cancel_ok f p x)
       (foldl (\<lambda>x p. daemon_lost_pending_task_run e cancel_ok f p x) rd (fst taken)) (snd taken)"

text \<open>A tick of the health check, with nothing in between, and a clean shutdown of a daemon.\<close>

definition health_tick :: "renv \<Rightarrow> (id \<Rightarrow> id \<Rightarrow> bool) \<Rightarrow> fleet \<times> rdb \<Rightarrow> fleet \<times> rdb" where
  "health_tick e cancel_ok s =
     (case check_health (clock e) (fst s) of (f', taken) \<Rightarrow> (f', end_tasks e cancel_ok f' taken (snd s)))"

definition unregister_tick :: "renv \<Rightarrow> (id \<Rightarrow> id \<Rightarrow> bool) \<Rightarrow> id \<Rightarrow> fleet \<times> rdb \<Rightarrow> fleet \<times> rdb" where
  "unregister_tick e cancel_ok i s =
     (case unregister i (fst s) of (f', lost) \<Rightarrow> (f', end_tasks e cancel_ok f' (lost, []) (snd s)))"

end
