(* ===== verification/Fleet_Theorems.thy ===== *)
theory Fleet_Theorems
  imports Fleet Retry_Theorems "HOL-Library.Multiset"
begin

text \<open>
  What the registry of daemons promises: the choice of a daemon, no false alarm about a daemon that beats,
  and a task whose daemon is lost is ended and taken up again by automatic recovery.
\<close>

section \<open>Selection\<close>

definition eligible :: "string \<Rightarrow> daemon_info \<Rightarrow> bool" where
  "eligible c d \<longleftrightarrow>
     dn_status d = DaemonStatusOnline \<and> dn_load d < i32 (dn_max d) \<and> (c = [] \<or> has_capability (dn_capabilities d) c)"

lemma i32_max: "i32 x \<le> 2 ^ 31 - 1"
proof -
  have "(x + 2 ^ 31) mod 2 ^ 32 < 2 ^ 32" by (rule pos_mod_bound) simp
  then show ?thesis by (simp add: i32_def)
qed

lemma select_step:
  "select_loop c best bl (d # ds) =
     (if eligible c d \<and> dn_load d < bl then select_loop c (Some d) (dn_load d) ds else select_loop c best bl ds)"
  by (auto simp: eligible_def)

lemmas [simp del] = select_loop.simps(2)

lemma select_loop_result:
  "case select_loop c best bl ds of
     None \<Rightarrow> best = None \<and> (\<forall>x \<in> set ds. eligible c x \<longrightarrow> dn_load x \<ge> bl)
   | Some d \<Rightarrow> (best = Some d \<and> (\<forall>x \<in> set ds. eligible c x \<longrightarrow> dn_load x \<ge> bl)) \<or>
       (d \<in> set ds \<and> eligible c d \<and> dn_load d < bl \<and> (\<forall>x \<in> set ds. eligible c x \<longrightarrow> dn_load d \<le> dn_load x))"
proof (induction ds arbitrary: best bl)
  case Nil
  then show ?case by (simp split: option.split)
next
  case (Cons d ds)
  show ?case
  proof (cases "eligible c d \<and> dn_load d < bl")
    case True
    with Cons [of "Some d" "dn_load d"] show ?thesis
      by (auto simp: select_step split: option.splits)
  next
    case False
    then have step: "select_loop c best bl (d # ds) = select_loop c best bl ds" by (auto simp: select_step)
    show ?thesis
    proof (cases "select_loop c best bl ds")
      case None
      with Cons [of best bl] False show ?thesis unfolding step by auto
    next
      case (Some x)
      with Cons [of best bl] False show ?thesis unfolding step by fastforce
    qed
  qed
qed

section \<open>The health check\<close>

definition goes_offline :: "time \<Rightarrow> fleet \<Rightarrow> daemon_info \<Rightarrow> bool" where
  "goes_offline t f d \<longleftrightarrow> beat_is_late t f d \<and> max_missed f \<le> dn_missed d + 1"

definition checked :: "time \<Rightarrow> fleet \<Rightarrow> daemon_info \<Rightarrow> daemon_info" where
  "checked t f d =
     (if \<not> beat_is_late t f d then d
      else if goes_offline t f d then (missed_beat d)\<lparr>dn_status := DaemonStatusOffline\<rparr> else missed_beat d)"

definition loses_tasks :: "time \<Rightarrow> fleet \<Rightarrow> daemon_info list \<Rightarrow> id \<Rightarrow> bool" where
  "loses_tasks t f ds i \<longleftrightarrow> (\<exists>d \<in> set ds. dn_id d = i \<and> goes_offline t f d \<and> dn_computer d = [])"

lemma health_loop_result:
  "health_loop t f ds ps = (ds', ps', lost) \<Longrightarrow>
   ds' = map (checked t f) ds \<and> ps' = filter (\<lambda>p. \<not> loses_tasks t f ds (pk_daemon p)) ps \<and>
   mset ps = mset ps' + mset lost \<and> set lost = {p \<in> set ps. loses_tasks t f ds (pk_daemon p)}"
proof (induction t f ds ps arbitrary: ds' ps' lost rule: health_loop.induct)
  case (1 t f ps)
  then show ?case by (simp add: loses_tasks_def)
next
  case (2 t f d ds ps)
  show ?case
  proof (cases "goes_offline t f d \<and> dn_computer d = []")
    case True
    then have late: "beat_is_late t f d" "\<not> dn_missed d + 1 < max_missed f" "\<not> dn_computer d \<noteq> []"
      by (auto simp: goes_offline_def)
    let ?ps = "delete_where (\<lambda>p. pk_daemon p = dn_id d) ps"
    obtain es qs ls where rec: "health_loop t f ds ?ps = (es, qs, ls)" by (metis prod_cases3)
    have nn: "\<not> \<not> beat_is_late t f d" using late(1) by blast
    from 2(4) [OF nn late(2,3) rec] have ih: "es = map (checked t f) ds"
      "qs = filter (\<lambda>p. \<not> loses_tasks t f ds (pk_daemon p)) ?ps" "mset ?ps = mset qs + mset ls"
      "set ls = {p \<in> set ?ps. loses_tasks t f ds (pk_daemon p)}" by blast+
    have out: "ds' = checked t f d # es" "ps' = qs" "lost = filter (\<lambda>p. pk_daemon p = dn_id d) ps @ ls"
      using 2(5) late rec True by (auto simp: checked_def)
    have lo: "loses_tasks t f (d # ds) i \<longleftrightarrow> i = dn_id d \<or> loses_tasks t f ds i" for i
      using True by (auto simp: loses_tasks_def)
    have "mset ps = mset ?ps + mset (filter (\<lambda>p. pk_daemon p = dn_id d) ps)"
      by (induction ps) (auto simp: delete_where_def)
    with ih(3) have "mset ps = mset ps' + mset lost" by (simp add: out ac_simps)
    moreover have "ps' = filter (\<lambda>p. \<not> loses_tasks t f (d # ds) (pk_daemon p)) ps"
      by (auto simp: out(2) ih(2) delete_where_def lo intro: filter_cong)
    moreover have "set lost = {p \<in> set ps. loses_tasks t f (d # ds) (pk_daemon p)}"
      by (auto simp: out(3) ih(4) lo row_simps)
    ultimately show ?thesis by (simp add: out(1) ih(1))
  next
    case False
    obtain es qs ls where rec: "health_loop t f ds ps = (es, qs, ls)" by (metis prod_cases3)
    have out: "ds' = checked t f d # es" "ps' = qs" "lost = ls"
      using 2(5) rec False by (auto simp: checked_def goes_offline_def split: if_splits)
    have lo: "loses_tasks t f (d # ds) = loses_tasks t f ds"
      using False by (auto simp: loses_tasks_def fun_eq_iff)
    have ih: "es = map (checked t f) ds \<and> qs = filter (\<lambda>p. \<not> loses_tasks t f ds (pk_daemon p)) ps \<and>
        mset ps = mset qs + mset ls \<and> set ls = {p \<in> set ps. loses_tasks t f ds (pk_daemon p)}"
    proof (cases "beat_is_late t f d")
      case late: True
      then have nn: "\<not> \<not> beat_is_late t f d" by blast
      show ?thesis
      proof (cases "dn_missed d + 1 < max_missed f")
        case True
        from 2(2) [OF nn True rec] show ?thesis .
      next
        case few: False
        with late False have "dn_computer d \<noteq> []" by (auto simp: goes_offline_def)
        from 2(3) [OF nn few this rec] show ?thesis .
      qed
    next
      case False
      from 2(1) [OF False rec] show ?thesis .
    qed
    show ?thesis unfolding out lo using ih by (simp only: list.map)
  qed
qed

lemma mset_taken:
  "(\<And>p. k (g p) = k p) \<Longrightarrow>
   mset (map k qs) = mset (map k (delete_where P qs)) + mset (map k (map g (filter P qs)))"
  by (induction qs) (auto simp: delete_where_def)

lemma checked_simps [simp]:
  "dn_id (checked t f d) = dn_id d" "dn_computer (checked t f d) = dn_computer d" "dn_heartbeat (checked t f d) = dn_heartbeat d"
  by (simp_all add: checked_def missed_beat_def)

lemma check_health_result:
  assumes "check_health t f = (f', lost, timed)"
  shows "daemons f' = map (checked t f) (daemons f) \<and> heartbeat_interval f' = heartbeat_interval f \<and>
         max_missed f' = max_missed f \<and> set lost = {p \<in> set (pending f). loses_tasks t f (daemons f) (pk_daemon p)} \<and>
         pending f' = filter (\<lambda>p. \<not> loses_tasks t f (daemons f) (pk_daemon p) \<and> \<not> is_stale t f' p) (pending f) \<and>
         mset (map pk_task (pending f)) = mset (map pk_task (pending f')) + mset (map pk_task lost) + mset (map pk_task timed)"
proof -
  obtain ds ps ls where h: "health_loop t f (daemons f) (pending f) = (ds, ps, ls)" by (metis prod_cases3)
  from health_loop_result [OF h] have
    r: "ds = map (checked t f) (daemons f)" "ps = filter (\<lambda>p. \<not> loses_tasks t f (daemons f) (pk_daemon p)) (pending f)"
       "mset (pending f) = mset ps + mset ls" "set ls = {p \<in> set (pending f). loses_tasks t f (daemons f) (pk_daemon p)}"
    by blast+
  let ?g = "f\<lparr>daemons := ds, pending := ps\<rparr>"
  have out: "f' = ?g\<lparr>pending := delete_where (is_stale t ?g) ps\<rparr>" "lost = ls"
    "timed = map (\<lambda>p. p\<lparr>pk_phase := snd (snd (task_deadline ?g p))\<rparr>) (filter (is_stale t ?g) ps)"
    using assms h by (auto simp: check_health_def remove_stale_tasks_def)
  have gd: "get_daemon f' = get_daemon ?g" by (rule ext) (simp add: out(1) get_daemon_def)
  have "task_deadline f' = task_deadline ?g" by (rule ext, unfold task_deadline_def gd) (simp add: out(1) split: option.splits)
  then have same: "is_stale t f' = is_stale t ?g" by (simp add: is_stale_def fun_eq_iff)
  have "mset (map pk_task (pending f)) = mset (map pk_task ps) + mset (map pk_task ls)"
    using r(3) by (metis image_mset_union mset_map)
  moreover have "mset (map pk_task ps) = mset (map pk_task (delete_where (is_stale t ?g) ps)) + mset (map pk_task timed)"
    unfolding out(3) by (rule mset_taken) simp
  ultimately have "mset (map pk_task (pending f)) =
      mset (map pk_task (pending f')) + mset (map pk_task lost) + mset (map pk_task timed)"
    by (simp add: out(1,2))
  moreover have "pending f' = filter (\<lambda>p. \<not> loses_tasks t f (daemons f) (pk_daemon p) \<and> \<not> is_stale t f' p) (pending f)"
    unfolding same by (simp add: out(1) r(2) delete_where_def conj_commute)
  ultimately show ?thesis using r(1,4) by (simp add: out(1,2))
qed

section \<open>Ending a run\<close>

text \<open>What the recovery of a task reads of its run, and what ending any run keeps of it.\<close>

definition settles :: "rdb \<Rightarrow> id \<Rightarrow> usage_json \<Rightarrow> bool" where
  "settles rd rid raw \<longleftrightarrow>
     (case row_by us_run rid (usages rd) of
        None \<Rightarrow> True
      | Some u \<Rightarrow> us_state u \<noteq> UsagePending \<or>
          (case budget_usage_from_json raw of Inl _ \<Rightarrow> False | Inr t \<Rightarrow> \<not> isl (total_tokens t)))"

definition same_history :: "id \<Rightarrow> rdb \<Rightarrow> rdb \<Rightarrow> bool" where
  "same_history rid rd rd' \<longleftrightarrow>
     links rd' = links rd \<and> map (\<lambda>r. (rn_id r, rn_started r)) (runs rd') = map (\<lambda>r. (rn_id r, rn_started r)) (runs rd) \<and>
     filter (\<lambda>x. re_run x = rid \<and> re_type x \<noteq> ErrorEvent) (events rd') =
       filter (\<lambda>x. re_run x = rid \<and> re_type x \<noteq> ErrorEvent) (events rd)"

definition untouched :: "id \<Rightarrow> rdb \<Rightarrow> rdb \<Rightarrow> bool" where
  "untouched rid rd rd' \<longleftrightarrow>
     row_by rn_id rid (runs rd') = row_by rn_id rid (runs rd) \<and>
     row_by us_run rid (usages rd') = row_by us_run rid (usages rd) \<and>
     filter (\<lambda>x. re_run x = rid) (events rd') = filter (\<lambda>x. re_run x = rid) (events rd)"

lemma same_history_refl [simp]: "same_history rid rd rd" and untouched_refl [simp]: "untouched rid rd rd"
  by (simp_all add: same_history_def untouched_def)

lemma same_history_trans: "same_history rid a b \<Longrightarrow> same_history rid b c \<Longrightarrow> same_history rid a c"
  by (simp add: same_history_def)

lemma settle_result:
  assumes "settle_run rd run b raw = Inr rd'"
  shows "runs rd' = runs rd \<and> events rd' = events rd \<and> links rd' = links rd \<and> sessions rd' = sessions rd \<and>
         (\<forall>rid. rid \<noteq> run \<longrightarrow> row_by us_run rid (usages rd') = row_by us_run rid (usages rd))"
proof -
  have row: "row_by us_run rid (update_where (\<lambda>x. us_run x = run) g us) = row_by us_run rid us"
    if "rid \<noteq> run" "\<And>x. us_run (g x) = us_run x" for rid g us
    using that by (induction us) (auto simp: row_by_def update_where_def)
  show ?thesis
  proof (cases "row_by us_run run (usages rd)")
    case None
    with assms show ?thesis by (simp add: settle_run_def)
  next
    case u: (Some u)
    show ?thesis
    proof (cases "us_state u = UsagePending")
      case True
      with assms u obtain t n where t: "budget_usage_from_json raw = Inr t" "total_tokens t = Inr n"
        by (cases "budget_usage_from_json raw"; cases "total_tokens (projr (budget_usage_from_json raw))")
          (simp_all add: settle_run_def)
      with assms u True obtain g ks where g: "\<And>x. us_run (g x) = us_run x"
        and "rd' = rd\<lparr>usages := update_where (\<lambda>x. us_run x = run) g (usages rd), reservations := ks\<rparr>"
      proof -
        from assms u True t show thesis
          unfolding settle_run_def Let_def by (intro that [rotated]) (simp, erule sym, simp)
      qed
      then show ?thesis using row [OF _ g] by simp
    next
      case False
      with assms u show ?thesis by (simp add: settle_run_def)
    qed
  qed
qed

lemma finish_result:
  assumes "finish_run e rd i = Inr rd'"
  shows "runs rd' = update_where (\<lambda>r. rn_id r = fi_run i \<and> rn_finished r = None) (finished e i) (runs rd) \<and>
         events rd' = events rd \<and> links rd' = links rd \<and> sessions rd' = sessions rd \<and>
         (\<forall>rid. rid \<noteq> fi_run i \<longrightarrow> row_by us_run rid (usages rd') = row_by us_run rid (usages rd))"
proof -
  from assms obtain r where "settle_run (fst (set_run (fi_run i) (\<lambda>r. rn_finished r = None) (finished e i) rd))
      (rn_id r) (rn_backend r \<noteq> None) (rn_usage r) = Inr rd'"
    and "row_by rn_id (fi_run i) (runs (fst (set_run (fi_run i) (\<lambda>r. rn_finished r = None) (finished e i) rd))) = Some r"
    by (auto simp: finish_run_def Let_def split: if_splits option.splits)
  from settle_result [OF this(1)] row_by_key [OF this(2)] show ?thesis by (simp add: set_run_def)
qed

lemma finished_rows:
  "map (\<lambda>r. (rn_id r, rn_started r)) (update_where P (finished e i) rs) = map (\<lambda>r. (rn_id r, rn_started r)) rs"
  by (induction rs) (auto simp: update_where_def finished_def)

lemma finished_other:
  "rid \<noteq> fi_run i \<Longrightarrow>
   row_by rn_id rid (update_where (\<lambda>r. rn_id r = fi_run i \<and> rn_finished r = None) (finished e i) rs) = row_by rn_id rid rs"
  by (induction rs) (auto simp: row_by_def update_where_def finished_def)

lemma finished_row:
  "row_by rn_id (fi_run i) rs = Some r \<Longrightarrow> rn_finished r = None \<Longrightarrow>
   row_by rn_id (fi_run i) (update_where (\<lambda>r. rn_id r = fi_run i \<and> rn_finished r = None) (finished e i) rs) = Some (finished e i r)"
  by (induction rs) (auto simp: row_by_def update_where_def finished_def)

lemma finish_succeeds:
  assumes row: "row_by rn_id (fi_run i) (runs rd) = Some r" "rn_finished r = None"
    and "settles rd (fi_run i) (keep_usage (fi_usage i) (rn_usage r))"
  shows "\<exists>rd'. finish_run e rd i = Inr rd'"
proof -
  have "\<exists>rd'. settle_run x (fi_run i) b (keep_usage (fi_usage i) (rn_usage r)) = Inr rd'" if "usages x = usages rd" for x b
    using assms(3) that unfolding settles_def settle_run_def
    by (cases "row_by us_run (fi_run i) (usages rd)") (auto simp: Let_def isl_def split: sum.splits)
  moreover have "count_rows (\<lambda>r. rn_id r = fi_run i \<and> rn_finished r = None) (runs rd) \<noteq> 0"
    using row by (auto simp: count_rows_def filter_empty_conv dest: row_by_in row_by_key)
  ultimately show ?thesis
    using finished_row [OF row, of e] row_by_key [OF row(1)] by (simp add: finish_run_def set_run_def finished_def)
qed

lemma append_result:
  "append_event e rd rid ty msg tool p = Inr rd' \<Longrightarrow>
   \<exists>x. rd' = rd\<lparr>events := events rd @ [x]\<rparr> \<and> re_run x = rid \<and> re_type x = ty \<and> re_payload x = slim_run_event_payload p \<and>
       re_seq x = next_seq (events rd) rid"
  by (auto simp: append_event_def append_run_event_def split: sum.splits)

lemma finish_pending_frame:
  fixes p :: pending_task
  assumes "rd' = finish_pending_task_run e cancel_ok f p status activity code retryable rd"
  shows "same_history rid rd rd' \<and> (pk_run p \<noteq> rid \<longrightarrow> untouched rid rd rd')"
proof -
  define still where "still = (case get_daemon f (pk_daemon p) of
     None \<Rightarrow> retryable
   | Some d \<Rightarrow> if dn_status d = DaemonStatusOnline \<and> \<not> cancel_ok (pk_daemon p) (pk_task p) then False else retryable)"
  let ?i = "\<lambda>r. \<lparr>fi_run = rn_id r, fi_status = status, fi_activity = activity, fi_usage = UsageEmpty\<rparr>"
  show ?thesis
  proof (cases "rd' = rd")
    case False
    with assms obtain r rd1 where r: "row_by rn_id (pk_run p) (runs rd) = Some r" "finish_run e rd (?i r) = Inr rd1"
      and out: "rd' = rd1 \<or> append_event e rd1 (rn_id r) ErrorEvent activity [] (failure_payload status code still) = Inr rd'"
      unfolding finish_pending_task_run_def get_run_def Let_def still_def [symmetric]
      by (auto split: if_splits option.splits sum.splits)
    have id: "rn_id r = pk_run p" using row_by_key [OF r(1)] .
    from finish_result [OF r(2)] have 1: "same_history rid rd rd1" "pk_run p \<noteq> rid \<longrightarrow> untouched rid rd rd1"
      using id finished_other [of rid "?i r" e] finished_rows by (simp_all add: same_history_def untouched_def)
    from out show ?thesis
    proof
      assume "rd' = rd1"
      with 1 show ?thesis by simp
    next
      assume "append_event e rd1 (rn_id r) ErrorEvent activity [] (failure_payload status code still) = Inr rd'"
      from append_result [OF this] 1 id show ?thesis by (auto simp: same_history_def untouched_def)
    qed
  qed simp
qed

lemma pick_by_last:
  assumes "\<And>y. y \<in> set ys \<Longrightarrow> better x y"
  shows "pick_by better (ys @ [x]) = Some x"
proof (cases ys)
  case (Cons a as)
  have "foldl (\<lambda>a b. if better b a then b else a) z zs \<in> insert z (set zs)" for z zs
    by (induction zs arbitrary: z) auto
  from this [of a as] assms Cons show ?thesis by (auto simp: pick_by_def)
qed (simp add: pick_by_def)

lemma below_next_seq: "x \<in> set es \<Longrightarrow> re_run x = rid \<Longrightarrow> re_seq x < next_seq es rid"
  by (induction es) (auto simp: next_seq_def)

lemma finish_pending_self:
  fixes p :: pending_task
  assumes row: "row_by rn_id (pk_run p) (runs rd) = Some r" "is_active_agent_run_status (rn_status r)" "rn_finished r = None"
    and ok: "settles rd (pk_run p) (rn_usage r)" "\<not> blank (pk_run p)" "pk_run p \<noteq> []"
    and off: "\<And>d. get_daemon f (pk_daemon p) = Some d \<Longrightarrow> dn_status d = DaemonStatusOffline"
    and rd': "rd' = finish_pending_task_run e cancel_ok f p status activity code True rd"
  shows "\<exists>r'. row_by rn_id (pk_run p) (runs rd') = Some r' \<and> rn_status r' = status \<and> rn_finished r' = Some (clock e) \<and>
           rn_agent r' = rn_agent r \<and> rn_session r' = rn_session r \<and>
           last_failure rd' (pk_run p) = Some (slim_run_event_payload (failure_payload status code True))"
proof -
  let ?i = "\<lparr>fi_run = pk_run p, fi_status = status, fi_activity = activity, fi_usage = UsageEmpty\<rparr>"
  have id: "rn_id r = pk_run p" using row_by_key [OF row(1)] .
  have still: "(case get_daemon f (pk_daemon p) of
     None \<Rightarrow> True
   | Some d \<Rightarrow> if dn_status d = DaemonStatusOnline \<and> \<not> cancel_ok (pk_daemon p) (pk_task p) then False else True)"
    using off by (auto split: option.split)
  have "settles rd (fi_run ?i) (keep_usage (fi_usage ?i) (rn_usage r))" using ok(1) by (simp add: keep_usage_def)
  from finish_succeeds [of ?i rd r, OF _ row(3) this] row(1) obtain rd1 where fin: "finish_run e rd ?i = Inr rd1" by auto
  from finish_result [OF fin] have rows: "row_by rn_id (pk_run p) (runs rd1) = Some (finished e ?i r)"
    using finished_row [of ?i "runs rd" r e] row by simp
  then have "lock_agent_run rd1 (pk_run p) = Inr (finished e ?i r)" using ok(2) by (simp add: lock_agent_run_def)
  then obtain rd2 where app: "append_event e rd1 (pk_run p) ErrorEvent activity [] (failure_payload status code True) = Inr rd2"
    by (simp add: append_event_def)
  have out: "rd' = rd2"
    using rd' row ok(3) fin app still
    by (simp add: finish_pending_task_run_def get_run_def id)
  from append_result [OF app] obtain x where
    x: "rd2 = rd1\<lparr>events := events rd1 @ [x]\<rparr>" "re_run x = pk_run p" "re_type x = ErrorEvent"
       "re_payload x = slim_run_event_payload (failure_payload status code True)" "re_seq x = next_seq (events rd1) (pk_run p)"
    by blast
  have "pick_by (\<lambda>a b. re_seq a > re_seq b) (filter (\<lambda>x. re_run x = pk_run p \<and> re_type x = ErrorEvent) (events rd1) @ [x]) = Some x"
    by (rule pick_by_last) (use below_next_seq x(5) in auto)
  then have "last_failure rd' (pk_run p) = Some (slim_run_event_payload (failure_payload status code True))"
    using x by (simp add: last_failure_def out)
  with rows show ?thesis by (simp add: out x(1) finished_def)
qed

section \<open>Recovery after the end\<close>

lemma pick_by_map: "(\<And>a b. better (g a) (g b) = better' a b) \<Longrightarrow> pick_by better (map g xs) = map_option g (pick_by better' xs)"
proof -
  assume *: "\<And>a b. better (g a) (g b) = better' a b"
  have "foldl (\<lambda>a b. if better b a then b else a) (g x) (map g xs) = g (foldl (\<lambda>a b. if better' b a then b else a) x xs)" for x xs
    by (induction xs arbitrary: x) (auto simp: *)
  then show ?thesis by (cases xs) (simp_all add: pick_by_def)
qed

definition later_key :: "id \<times> time \<Rightarrow> id \<times> time \<Rightarrow> bool" where
  "later_key a b \<longleftrightarrow> snd a > snd b \<or> (snd a = snd b \<and> fst a > fst b)"

lemma latest_primary_key:
  "map_option rn_id (latest_primary_run rd tid) =
   map_option fst (pick_by later_key
     (filter (\<lambda>k. exists_row (\<lambda>l. lk_run l = fst k \<and> lk_task l = tid \<and> lk_role l = AgentRunTaskRolePrimary) (links rd))
        (map (\<lambda>r. (rn_id r, rn_started r)) (runs rd))))"
proof -
  let ?k = "\<lambda>r. (rn_id r, rn_started r)"
  have "pick_by later_key (map ?k (primary_runs rd tid)) = map_option ?k (latest_primary_run rd tid)"
    unfolding latest_primary_run_def by (rule pick_by_map) (simp add: later_key_def later_run_def)
  then have "map_option fst (pick_by later_key (map ?k (primary_runs rd tid))) = map_option rn_id (latest_primary_run rd tid)"
    by (simp add: option.map_comp comp_def)
  then show ?thesis by (simp add: primary_runs_def filter_map comp_def)
qed

lemma same_history_facts:
  assumes h: "same_history rid rd rd'"
  shows "result_contract rd' rid = result_contract rd rid \<and> handled rd' rid = handled rd rid \<and>
         map_option rn_id (latest_primary_run rd' tid) = map_option rn_id (latest_primary_run rd tid) \<and> links rd' = links rd"
proof (intro conjI)
  have ev: "filter (\<lambda>x. re_run x = rid \<and> P x) es =
      filter P (filter (\<lambda>x. re_run x = rid \<and> re_type x \<noteq> ErrorEvent) es)"
    if "\<And>x. P x \<Longrightarrow> re_type x \<noteq> ErrorEvent" for P and es :: "run_event_row list"
    using that by (auto intro: filter_cong)
  have eq: "filter (\<lambda>x. re_run x = rid \<and> P x) (events rd') = filter (\<lambda>x. re_run x = rid \<and> P x) (events rd)"
    if "\<And>x. P x \<Longrightarrow> re_type x \<noteq> ErrorEvent" for P
  proof -
    have "filter (\<lambda>x. re_run x = rid \<and> re_type x \<noteq> ErrorEvent) (events rd') =
        filter (\<lambda>x. re_run x = rid \<and> re_type x \<noteq> ErrorEvent) (events rd)"
      using h by (simp only: same_history_def)
    from arg_cong [OF this, of "filter P"] show ?thesis
      by (rule box_equals) (rule ev [symmetric], rule that, assumption)+
  qed
  from eq [of "\<lambda>x. re_type x = RunStarted"] show "result_contract rd' rid = result_contract rd rid"
    by (simp add: result_contract_def)
  have "exists_row Q es \<longleftrightarrow> filter Q es \<noteq> []" for Q :: "run_event_row \<Rightarrow> bool" and es
    by (auto simp: exists_row_iff filter_empty_conv)
  moreover have "filter (\<lambda>x. re_run x = rid \<and> re_type x \<in> set retry_marks) (events rd') =
      filter (\<lambda>x. re_run x = rid \<and> re_type x \<in> set retry_marks) (events rd)"
    by (rule eq) (auto simp: retry_marks_def)
  ultimately show "handled rd' rid = handled rd rid" by (simp add: handled_def)
  show "map_option rn_id (latest_primary_run rd' tid) = map_option rn_id (latest_primary_run rd tid)"
    using h by (simp add: latest_primary_key same_history_def)
  show "links rd' = links rd" using h by (simp add: same_history_def)
qed

definition awaiting :: "id \<Rightarrow> run_row \<Rightarrow> rdb \<Rightarrow> bool" where
  "awaiting rid r rd \<longleftrightarrow> row_by rn_id rid (runs rd) = Some r \<and> settles rd rid (rn_usage r)"

definition lost_ended :: "id \<Rightarrow> run_row \<Rightarrow> time \<Rightarrow> rdb \<Rightarrow> bool" where
  "lost_ended rid r t rd \<longleftrightarrow>
     (\<exists>r'. row_by rn_id rid (runs rd) = Some r' \<and> rn_status r' = AgentRunStatusFailed \<and> rn_finished r' = Some t \<and>
           rn_agent r' = rn_agent r) \<and>
     last_failure rd rid = Some (slim_run_event_payload (failure_payload AgentRunStatusFailed agentFailureDaemonLost True))"

lemma untouched_keeps:
  assumes "untouched rid rd rd'"
  shows "awaiting rid r rd \<Longrightarrow> awaiting rid r rd'" and "lost_ended rid r t rd \<Longrightarrow> lost_ended rid r t rd'"
proof -
  have "filter (\<lambda>x. re_run x = rid \<and> P x) es = filter P (filter (\<lambda>x. re_run x = rid) es)" for P and es :: "run_event_row list"
    by (auto intro: filter_cong)
  then have "filter (\<lambda>x. re_run x = rid \<and> P x) (events rd') = filter (\<lambda>x. re_run x = rid \<and> P x) (events rd)" for P
    using assms by (metis untouched_def)
  then have "last_failure rd' rid = last_failure rd rid" unfolding last_failure_def by presburger
  then show "awaiting rid r rd \<Longrightarrow> awaiting rid r rd'" "lost_ended rid r t rd \<Longrightarrow> lost_ended rid r t rd'"
    using assms by (simp_all add: awaiting_def lost_ended_def untouched_def settles_def)
qed

lemma ended_stays:
  fixes p :: pending_task
  assumes "lost_ended rid r t rd"
  shows "lost_ended rid r t (finish_pending_task_run e cancel_ok f p status activity code retryable rd)"
proof (cases "pk_run p = rid")
  case True
  from assms obtain r' where "row_by rn_id rid (runs rd) = Some r'" "rn_status r' = AgentRunStatusFailed"
    by (auto simp: lost_ended_def)
  then have "finish_pending_task_run e cancel_ok f p status activity code retryable rd = rd"
    using True by (simp add: finish_pending_task_run_def get_run_def is_active_agent_run_status_def active_agent_run_statuses_def)
  with assms show ?thesis by simp
next
  case False
  with finish_pending_frame [OF refl, of rid rd e cancel_ok f p] untouched_keeps(2) assms show ?thesis by blast
qed

lemma lost_loop:
  assumes off: "\<And>q d. q \<in> set qs \<Longrightarrow> get_daemon f (pk_daemon q) = Some d \<Longrightarrow> dn_status d = DaemonStatusOffline"
    and r: "is_active_agent_run_status (rn_status r)" "rn_finished r = None" "\<not> blank rid" "rid \<noteq> []"
    and s: "awaiting rid r rd \<or> lost_ended rid r (clock e) rd"
  shows "same_history rid rd (foldl (\<lambda>x q. daemon_lost_pending_task_run e cancel_ok f q x) rd qs) \<and>
         (awaiting rid r (foldl (\<lambda>x q. daemon_lost_pending_task_run e cancel_ok f q x) rd qs) \<and> rid \<notin> pk_run ` set qs \<or>
          lost_ended rid r (clock e) (foldl (\<lambda>x q. daemon_lost_pending_task_run e cancel_ok f q x) rd qs))"
  using off s
proof (induction qs arbitrary: rd rule: rev_induct)
  case Nil
  then show ?case by auto
next
  case (snoc q qs)
  let ?x = "foldl (\<lambda>x q. daemon_lost_pending_task_run e cancel_ok f q x) rd qs"
  let ?y = "daemon_lost_pending_task_run e cancel_ok f q ?x"
  from snoc.IH snoc.prems have ih: "same_history rid rd ?x"
    "awaiting rid r ?x \<and> rid \<notin> pk_run ` set qs \<or> lost_ended rid r (clock e) ?x" by (metis Un_iff set_append)+
  have frame: "same_history rid ?x ?y" "pk_run q \<noteq> rid \<longrightarrow> untouched rid ?x ?y"
    using finish_pending_frame [OF refl] unfolding daemon_lost_pending_task_run_def by blast+
  have "awaiting rid r ?y \<and> rid \<notin> pk_run ` set (qs @ [q]) \<or> lost_ended rid r (clock e) ?y"
    using ih(2)
  proof
    assume "lost_ended rid r (clock e) ?x"
    then show ?thesis unfolding daemon_lost_pending_task_run_def by (intro disjI2 ended_stays)
  next
    assume w: "awaiting rid r ?x \<and> rid \<notin> pk_run ` set qs"
    show ?thesis
    proof (cases "pk_run q = rid")
      case True
      have qoff: "get_daemon f (pk_daemon q) = Some d \<Longrightarrow> dn_status d = DaemonStatusOffline" for d
        using snoc.prems(1) [of q] by simp
      have "lost_ended rid r (clock e) ?y"
        using finish_pending_self [of q ?x r f ?y e cancel_ok AgentRunStatusFailed agentActivityDaemonLost agentFailureDaemonLost]
          w r True qoff unfolding awaiting_def lost_ended_def daemon_lost_pending_task_run_def by auto
      then show ?thesis by blast
    next
      case False
      then show ?thesis using w frame untouched_keeps(1) by auto
    qed
  qed
  with same_history_trans [OF ih(1) frame(1)] show ?case by simp
qed

lemma timeout_loop:
  assumes "lost_ended rid r t rd"
  shows "same_history rid rd (foldl (\<lambda>x q. timeout_pending_task_run e cancel_ok f q x) rd qs) \<and>
         lost_ended rid r t (foldl (\<lambda>x q. timeout_pending_task_run e cancel_ok f q x) rd qs)"
proof (induction qs rule: rev_induct)
  case Nil
  with assms show ?case by simp
next
  case (snoc q qs)
  let ?x = "foldl (\<lambda>x q. timeout_pending_task_run e cancel_ok f q x) rd qs"
  have "same_history rid ?x (timeout_pending_task_run e cancel_ok f q ?x)"
    using finish_pending_frame [OF refl] unfolding timeout_pending_task_run_def by blast
  with snoc ended_stays show ?case by (auto simp: timeout_pending_task_run_def intro: same_history_trans)
qed

section \<open>The machine of the registry\<close>

datatype fleet_op =
    RegisterDaemon register_request
  | ConnectComputer id string "string list" "string list"
  | Beat id int
  | LeaveFleet id
  | Track id id id
  | Attach id id
  | Started id "time option"
  | Untrack id
  | CheckHealth

fun fleet_step :: "fleet \<Rightarrow> time \<times> fleet_op \<Rightarrow> fleet" where
  "fleet_step f (t, RegisterDaemon q) = (case register_info q of Inl _ \<Rightarrow> f | Inr info \<Rightarrow> register t info f)"
| "fleet_step f (t, ConnectComputer c version caps types) = register t (remote_info c version caps types) f"
| "fleet_step f (t, Beat i load) = fst (heartbeat t i load f)"
| "fleet_step f (t, LeaveFleet i) = fst (unregister i f)"
| "fleet_step f (t, Track task daemon agent) = track_task t task daemon agent f"
| "fleet_step f (t, Attach task run) = attach_task_run task run f"
| "fleet_step f (t, Started task s) = mark_task_backend_started t task s f"
| "fleet_step f (t, Untrack task) = remove_task task f"
| "fleet_step f (t, CheckHealth) = fst (check_health t f)"

text \<open>Histories whose clock does not run backwards and whose health checks are an interval apart.\<close>

fun paced :: "time \<Rightarrow> time option \<Rightarrow> (time \<times> fleet_op) list \<Rightarrow> bool" where
  "paced t c [] = True"
| "paced t c ((u, opn) # rest) =
     (t \<le> u \<and>
      (if opn = CheckHealth
       then (case c of None \<Rightarrow> True | Some s \<Rightarrow> s + heartbeat_interval new_fleet \<le> u) \<and> paced u (Some u) rest
       else paced u c rest))"

definition silent :: "time \<Rightarrow> time option \<Rightarrow> daemon_info \<Rightarrow> bool" where
  "silent t c d \<longleftrightarrow>
     (dn_missed d > 0 \<longrightarrow> (\<exists>s. c = Some s \<and> s - dn_heartbeat d > int (dn_missed d) * heartbeat_interval new_fleet)) \<and>
     (dn_status d = DaemonStatusOffline \<longrightarrow> max_missed new_fleet \<le> dn_missed d)"

definition alarms_ok :: "time \<Rightarrow> time option \<Rightarrow> fleet \<Rightarrow> bool" where
  "alarms_ok t c f \<longleftrightarrow>
     heartbeat_interval f = heartbeat_interval new_fleet \<and> max_missed f = max_missed new_fleet \<and>
     (case c of None \<Rightarrow> True | Some s \<Rightarrow> s \<le> t) \<and> (\<forall>d \<in> set (daemons f). silent t c d)"

lemma register_ok:
  assumes "alarms_ok t c f" and "dn_missed info = 0" and "t \<le> u"
  shows "alarms_ok u c (register u info f)"
  using assms by (auto simp: alarms_ok_def register_def silent_def renewed_def row_simps split: option.splits if_splits)

lemma other_ok: "alarms_ok t c f \<Longrightarrow> t \<le> u \<Longrightarrow> opn \<noteq> CheckHealth \<Longrightarrow> alarms_ok u c (fleet_step f (u, opn))"
proof (cases opn)
  case (RegisterDaemon q)
  assume "alarms_ok t c f" "t \<le> u"
  moreover have "alarms_ok u c f" using calculation by (auto simp: alarms_ok_def silent_def split: option.splits)
  ultimately show ?thesis
    by (auto simp: RegisterDaemon register_info_def fresh_daemon_def intro!: register_ok split: sum.split)
next
  case (ConnectComputer i v caps types)
  assume "alarms_ok t c f" "t \<le> u"
  then show ?thesis by (auto simp: ConnectComputer remote_info_def fresh_daemon_def intro!: register_ok)
qed (auto simp: alarms_ok_def silent_def heartbeat_def beaten_def unregister_def track_task_def attach_task_run_def
       mark_task_backend_started_def remove_task_def row_simps split: option.splits if_splits)

lemma checked_silent:
  assumes d: "silent t c d" and f: "heartbeat_interval f = heartbeat_interval new_fleet" "max_missed f = max_missed new_fleet"
    and c: "case c of None \<Rightarrow> True | Some s \<Rightarrow> s + heartbeat_interval new_fleet \<le> u"
  shows "silent u (Some u) (checked u f d)"
proof -
  have pos: "heartbeat_interval new_fleet > 0" by (simp add: new_fleet_def)
  have grow: "dn_missed d > 0 \<Longrightarrow> u - dn_heartbeat d > (int (dn_missed d) + 1) * heartbeat_interval new_fleet"
    using d c by (auto simp: silent_def algebra_simps split: option.splits)
  show ?thesis
  proof (cases "beat_is_late u f d")
    case True
    then have "u - dn_heartbeat d > (int (dn_missed d) + 1) * heartbeat_interval new_fleet"
      using grow f by (cases "dn_missed d = 0") (auto simp: beat_is_late_def)
    then show ?thesis using True f
      by (auto simp: silent_def checked_def missed_beat_def goes_offline_def beat_is_late_def algebra_simps)
  next
    case False
    have "dn_missed d > 0 \<Longrightarrow> u - dn_heartbeat d > int (dn_missed d) * heartbeat_interval new_fleet"
      using grow pos by (simp add: algebra_simps)
    then show ?thesis using False d by (auto simp: silent_def checked_def)
  qed
qed

lemma check_ok:
  assumes "alarms_ok t c f" and "case c of None \<Rightarrow> True | Some s \<Rightarrow> s + heartbeat_interval new_fleet \<le> u"
  shows "alarms_ok u (Some u) (fst (check_health u f))"
proof -
  obtain f' lost timed where h: "check_health u f = (f', lost, timed)" by (metis prod_cases3)
  from check_health_result [OF h] assms checked_silent show ?thesis by (auto simp: alarms_ok_def h)
qed

lemma paced_ok:
  "paced t c ops \<Longrightarrow> alarms_ok t c f \<Longrightarrow>
   \<exists>u c'. alarms_ok u c' (foldl fleet_step f ops) \<and> u = (if ops = [] then t else fst (last ops))"
proof (induction ops arbitrary: t c f)
  case Nil
  then show ?case by auto
next
  case (Cons x rest)
  obtain u opn where x: "x = (u, opn)" by (cases x)
  show ?case
  proof (cases "opn = CheckHealth")
    case True
    with Cons.prems x check_ok have "alarms_ok u (Some u) (fleet_step f x)" "paced u (Some u) rest" by auto
    from Cons.IH [OF this(2,1)] show ?thesis by (auto simp: x)
  next
    case False
    with Cons.prems x other_ok have "alarms_ok u c (fleet_step f x)" "paced u c rest" by auto
    from Cons.IH [OF this(2,1)] show ?thesis by (auto simp: x)
  qed
qed

lemma check_get:
  assumes "get_daemon f i = Some d"
  shows "get_daemon (fst (check_health t f)) i = Some (checked t f d)"
proof -
  obtain f' lost timed where h: "check_health t f = (f', lost, timed)" by (metis prod_cases3)
  have "row_by dn_id i (map (checked t f) ds) = map_option (checked t f) (row_by dn_id i ds)" for ds
    by (simp add: row_by_def find_map_same)
  with check_health_result [OF h] assms show ?thesis by (simp add: h get_daemon_def)
qed

lemma check_keeps:
  "heartbeat_interval (fst (check_health t f)) = heartbeat_interval f" "max_missed (fst (check_health t f)) = max_missed f"
  by (metis check_health_result fst_conv prod_cases3)+

lemma lost_payload:
  "member ''failure_code'' (slim_run_event_payload (failure_payload AgentRunStatusFailed agentFailureDaemonLost True)) =
     Some agentFailureDaemonLost"
  "member ''retryable'' (slim_run_event_payload (failure_payload AgentRunStatusFailed agentFailureDaemonLost True)) = Some ''true''"
  by code_simp+

text \<open>The links whose runs wait for automatic recovery, of which a sweep lists the first hundred.\<close>

definition awaiting_recovery :: "(id \<Rightarrow> bool) \<Rightarrow> db \<Rightarrow> rdb \<Rightarrow> task_link_row list" where
  "awaiting_recovery in_selection d rd =
     filter (\<lambda>l. lk_role l = AgentRunTaskRolePrimary \<and>
       (case (row_by rn_id (lk_run l) (runs rd), row_by t_id (lk_task l) (tasks d), last_failure rd (lk_run l)) of
          (Some r, Some t, Some _) \<Rightarrow> is_candidate in_selection d rd r t
        | _ \<Rightarrow> False)) (links rd)"

lemma candidate_listed:
  assumes "l \<in> set (links rd)" and "lk_role l = AgentRunTaskRolePrimary" and "row_by rn_id (lk_run l) (runs rd) = Some r"
    and "row_by t_id (lk_task l) (tasks d) = Some tk" and "last_failure rd (lk_run l) = Some q"
    and "is_candidate in_selection d rd r tk" and "length (awaiting_recovery in_selection d rd) \<le> 100"
  shows "retryable_of rd r tk q \<in> set (retry_candidates in_selection d rd)"
proof -
  let ?row = "\<lambda>l. if lk_role l \<noteq> AgentRunTaskRolePrimary then []
     else (case (row_by rn_id (lk_run l) (runs rd), row_by t_id (lk_task l) (tasks d), last_failure rd (lk_run l)) of
             (Some r, Some t, Some p) \<Rightarrow> if is_candidate in_selection d rd r t then [retryable_of rd r t p] else []
           | _ \<Rightarrow> [])"
  let ?P = "\<lambda>l. lk_role l = AgentRunTaskRolePrimary \<and>
       (case (row_by rn_id (lk_run l) (runs rd), row_by t_id (lk_task l) (tasks d), last_failure rd (lk_run l)) of
          (Some r, Some t, Some _) \<Rightarrow> is_candidate in_selection d rd r t
        | _ \<Rightarrow> False)"
  have one: "length (?row l) = (if ?P l then 1 else 0)" for l by (simp split: option.split)
  have all: "length (concat (map ?row ls)) = length (filter ?P ls)" for ls
  proof (induction ls)
    case (Cons a ls)
    have "length (concat (map ?row (a # ls))) = length (?row a) + length (filter ?P ls)" using Cons by simp
    then show ?case unfolding one by simp
  qed simp
  have "length (concat (map ?row (links rd))) \<le> 100" unfolding all using assms(7) unfolding awaiting_recovery_def .
  moreover have "retryable_of rd r tk q \<in> set (concat (map ?row (links rd)))"
    using assms(1-6) by (auto intro!: bexI [of _ l])
  ultimately show ?thesis by (simp add: retry_candidates_def)
qed

section \<open>Properties\<close>

text \<open>
  \<open>SelectDaemon\<close> answers a daemon that is online, below its limit and has the capability, and no other
  such daemon has a lower load; it answers none only when there is none. This holds in any order of the map.
\<close>

theorem selection_is_least_loaded:
  "case select_daemon f c of
     None \<Rightarrow> \<forall>x \<in> set (daemons f). \<not> eligible c x
   | Some d \<Rightarrow> d \<in> set (daemons f) \<and> eligible c d \<and> (\<forall>x \<in> set (daemons f). eligible c x \<longrightarrow> dn_load d \<le> dn_load x)"
proof -
  have "dn_load x < 2 ^ 31 - 1" if "eligible c x" for x
    using that i32_max [of "dn_max x"] unfolding eligible_def by linarith
  with select_loop_result [where c = c and best = None and bl = "2 ^ 31 - 1" and ds = "daemons f"] show ?thesis
    by (fastforce simp: select_daemon_def split: option.splits)
qed

text \<open>
  A health check loses no task: every pending task is kept, handed out as lost, or handed out as timed
  out, each once. What is kept is within its time limit and not of a daemon that just went offline, unless
  that daemon is a computer with a control connection, whose work is stored.
\<close>

theorem health_check_accounts_for_tasks:
  assumes "check_health t f = (f', lost, timed_out)"
  shows "mset (map pk_task (pending f)) =
           mset (map pk_task (pending f')) + mset (map pk_task lost) + mset (map pk_task timed_out) \<and>
         (\<forall>p \<in> set (pending f'). \<not> is_stale t f' p \<and> \<not> loses_tasks t f (daemons f) (pk_daemon p)) \<and>
         (\<forall>p \<in> set lost. loses_tasks t f (daemons f) (pk_daemon p))"
  using check_health_result [OF assms] by auto

text \<open>
  Silence is noticed, and only silence: with health checks at least an interval apart, a daemon marked
  offline has sent nothing for more than three intervals (90 seconds), and a daemon that has been silent for
  more than one interval is offline after three more checks.
\<close>

theorem offline_means_silent:
  assumes "paced t None ops" and "f = foldl fleet_step new_fleet ops"
  shows "(\<forall>d \<in> set (daemons f). dn_status d = DaemonStatusOffline \<longrightarrow>
            (ops \<noteq> [] \<and> fst (last ops) - dn_heartbeat d > 90 * 10 ^ 9)) \<and>
         (\<forall>i d t1 t2 t3. get_daemon f i = Some d \<and> t1 - dn_heartbeat d > 30 * 10 ^ 9 \<and> t1 \<le> t2 \<and> t2 \<le> t3 \<longrightarrow>
            (\<exists>d'. get_daemon (foldl fleet_step f [(t1, CheckHealth), (t2, CheckHealth), (t3, CheckHealth)]) i = Some d' \<and>
                  dn_status d' = DaemonStatusOffline))"
proof (intro conjI ballI impI allI)
  have "alarms_ok t None new_fleet" by (simp add: alarms_ok_def new_fleet_def)
  from paced_ok [OF assms(1) this] obtain u c where ok: "alarms_ok u c f" "u = (if ops = [] then t else fst (last ops))"
    unfolding assms(2) by blast
  have nf: "heartbeat_interval new_fleet = 30 * 10 ^ 9" "max_missed new_fleet = 3" by (simp_all add: new_fleet_def)
  {
    fix d assume d: "d \<in> set (daemons f)" "dn_status d = DaemonStatusOffline"
    with ok nf obtain s where s: "c = Some s" "s - dn_heartbeat d > int (dn_missed d) * (30 * 10 ^ 9)" "dn_missed d \<ge> 3" "s \<le> u"
      by (auto simp: alarms_ok_def silent_def)
    from s(3) have "int (dn_missed d) * (30 * 10 ^ 9) \<ge> 3 * (30 * 10 ^ 9)" by (intro mult_right_mono) simp_all
    with s have late: "u - dn_heartbeat d > 90 * 10 ^ 9" by simp
    show "ops \<noteq> []" using d assms(2) by (auto simp: new_fleet_def)
    with late ok(2) show "fst (last ops) - dn_heartbeat d > 90 * 10 ^ 9" by simp
  next
    fix i d t1 t2 t3
    assume a: "get_daemon f i = Some d \<and> t1 - dn_heartbeat d > 30 * 10 ^ 9 \<and> t1 \<le> t2 \<and> t2 \<le> t3"
    let ?f1 = "fst (check_health t1 f)"
    let ?f2 = "fst (check_health t2 ?f1)"
    have c: "heartbeat_interval f = 30 * 10 ^ 9" "max_missed f = 3" using ok(1) nf by (simp_all add: alarms_ok_def)
    have get: "get_daemon (fst (check_health t3 ?f2)) i = Some (checked t3 ?f2 (checked t2 ?f1 (checked t1 f d)))"
      using a by (intro check_get) simp
    have "dn_status d = DaemonStatusOffline \<Longrightarrow> dn_status (checked t3 ?f2 (checked t2 ?f1 (checked t1 f d))) = DaemonStatusOffline"
      by (simp add: checked_def beat_is_late_def)
    moreover have "dn_status d \<noteq> DaemonStatusOffline \<Longrightarrow> dn_status (checked t3 ?f2 (checked t2 ?f1 (checked t1 f d))) = DaemonStatusOffline"
      using a c by (simp add: checked_def beat_is_late_def goes_offline_def check_keeps missed_beat_def)
    ultimately have "dn_status (checked t3 ?f2 (checked t2 ?f1 (checked t1 f d))) = DaemonStatusOffline" by blast
    with get show "\<exists>d'. get_daemon (foldl fleet_step f [(t1, CheckHealth), (t2, CheckHealth), (t3, CheckHealth)]) i = Some d' \<and>
        dn_status d' = DaemonStatusOffline" by simp
  }
qed

text \<open>
  C10. Work lost with its daemon is taken up again. When a health check takes a pending task away from a
  daemon it marks offline, then after the tick the sweep of automatic recovery lists the task's run, to be resumed in its
  session, provided that the run is active, promised a visible message, was not recovered before and can be settled (its
  recorded usage is well formed), that it is the latest run of a workspace task that is still open, held by that agent or
  nobody, not waiting, not part of a selection and not changed after the tick, and that at most a hundred runs
  wait for recovery then, which is what a sweep lists.
\<close>

theorem lost_work_is_recovered:
  assumes p: "p \<in> set (pending f)" "loses_tasks (clock e) f (daemons f) (pk_daemon p)" "keyed dn_id (daemons f)"
    and run: "row_by rn_id (pk_run p) (runs rd) = Some r" "is_active_agent_run_status (rn_status r)" "rn_finished r = None"
      "settles rd (pk_run p) (rn_usage r)" "\<not> blank (pk_run p)" "pk_run p \<noteq> []"
    and link: "l \<in> set (links rd)" "lk_run l = pk_run p" "lk_role l = AgentRunTaskRolePrimary"
      "map_option rn_id (latest_primary_run rd (lk_task l)) = Some (pk_run p)"
    and contract: "result_contract rd (pk_run p) = Some agentResultContractVisibleMessage" "\<not> handled rd (pk_run p)"
    and task: "row_by t_id (lk_task l) (tasks d) = Some tk" "recoverable_status (t_status tk)"
      "t_claimer tk = None \<or> t_claimer tk = Some (rn_agent r)" "t_updated tk \<le> clock e"
      "\<not> exists_row (\<lambda>w. w_task w = t_id tk \<and> w_status w = Waiting) (waits d)" "\<not> in_selection (t_id tk)"
    and room: "length (awaiting_recovery in_selection d (snd (health_tick e cancel_ok (f, rd)))) \<le> 100"
  shows "\<exists>x \<in> set (retry_candidates in_selection d (snd (health_tick e cancel_ok (f, rd)))).
           fr_run x = pk_run p \<and> fr_task x = lk_task l \<and>
           automatic_task_recovery_mode x = Some taskRecoveryModeResumeSession"
proof -
  let ?rid = "pk_run p"
  obtain f' lost timed where h: "check_health (clock e) f = (f', lost, timed)" by (metis prod_cases3)
  note c = check_health_result [OF h]
  have plost: "p \<in> set lost" using p c by simp
  have off: "dn_status x = DaemonStatusOffline" if "q \<in> set lost" "get_daemon f' (pk_daemon q) = Some x" for q x
  proof -
    from that(1) c obtain y where y: "y \<in> set (daemons f)" "dn_id y = pk_daemon q" "goes_offline (clock e) f y"
      by (auto simp: loses_tasks_def)
    then have "get_daemon f (pk_daemon q) = Some y" using p(3) by (simp add: get_daemon_def row_by_Some_iff)
    from check_get [OF this, of "clock e"] that(2) have "x = checked (clock e) f y" by (simp add: h)
    then show ?thesis using y(3) by (simp add: checked_def goes_offline_def)
  qed
  let ?a = "foldl (\<lambda>x q. daemon_lost_pending_task_run e cancel_ok f' q x) rd lost"
  let ?b = "foldl (\<lambda>x q. timeout_pending_task_run e cancel_ok f' q x) ?a timed"
  have "same_history ?rid rd ?a \<and> (awaiting ?rid r ?a \<and> ?rid \<notin> pk_run ` set lost \<or> lost_ended ?rid r (clock e) ?a)"
  proof (rule lost_loop [OF _ run(2,3,5,6)])
    show "dn_status x = DaemonStatusOffline" if "q \<in> set lost" "get_daemon f' (pk_daemon q) = Some x" for q x
      using off that by blast
    show "awaiting ?rid r rd \<or> lost_ended ?rid r (clock e) rd" using run by (simp add: awaiting_def)
  qed
  then have a: "same_history ?rid rd ?a" "lost_ended ?rid r (clock e) ?a" using plost by blast+
  from timeout_loop [OF a(2)] a(1) have b: "same_history ?rid rd ?b" "lost_ended ?rid r (clock e) ?b"
    using same_history_trans by blast+
  have out: "snd (health_tick e cancel_ok (f, rd)) = ?b" by (simp add: health_tick_def h end_tasks_def)
  note facts = same_history_facts [OF b(1)]
  from b(2) obtain r' where r': "row_by rn_id ?rid (runs ?b) = Some r'" "rn_status r' = AgentRunStatusFailed"
    "rn_finished r' = Some (clock e)" "rn_agent r' = rn_agent r"
    and fail: "last_failure ?b ?rid = Some (slim_run_event_payload (failure_payload AgentRunStatusFailed agentFailureDaemonLost True))"
    by (auto simp: lost_ended_def)
  have id: "rn_id r' = ?rid" "t_id tk = lk_task l" using row_by_key [OF r'(1)] row_by_key [OF task(1)] by blast+
  have cand: "is_candidate in_selection d ?b r' tk"
    using r' task link(4) contract facts by (simp add: is_candidate_def id)
  let ?x = "retryable_of ?b r' tk (slim_run_event_payload (failure_payload AgentRunStatusFailed agentFailureDaemonLost True))"
  have "?x \<in> set (retry_candidates in_selection d ?b)"
    by (rule candidate_listed [OF _ link(3) _ task(1) _ cand]) (use link facts r'(1) fail room in \<open>simp_all add: out\<close>)
  moreover have "fr_run ?x = ?rid" "fr_task ?x = lk_task l" by (simp_all add: retryable_of_def id)
  moreover have "automatic_task_recovery_mode ?x = Some taskRecoveryModeResumeSession"
    using lost_payload by (simp add: automatic_task_recovery_mode_def retryable_of_def)
  ultimately show ?thesis unfolding out by blast
qed

section \<open>Witnesses\<close>

definition fl_daemon :: "id \<Rightarrow> int \<Rightarrow> nat \<Rightarrow> daemon_info" where
  "fl_daemon i load missed = (fresh_daemon i [] ''h'' 80 ''v'' [''llm''] 2 [])\<lparr>
     dn_status := DaemonStatusOnline, dn_load := load, dn_missed := missed\<rparr>"

definition fl_fleet :: fleet where
  "fl_fleet = new_fleet\<lparr>heartbeat_interval := 30, daemons := [fl_daemon ''d1'' 1 2, fl_daemon ''d2'' 0 0],
     pending := [\<lparr>pk_task = ''r1'', pk_agent = ''a1'', pk_daemon = ''d1'', pk_run = ''r1'', pk_created = 10,
                  pk_backend = Some 12, pk_phase = []\<rparr>,
                 \<lparr>pk_task = ''r2'', pk_agent = ''a2'', pk_daemon = ''d2'', pk_run = ''r2'', pk_created = 10,
                  pk_backend = None, pk_phase = []\<rparr>]\<rparr>"

lemma fl_select: "map_option dn_id (select_daemon fl_fleet ''llm'') = Some ''d2''"
  by code_simp

theorem selection_is_least_loaded_witness:
  "\<exists>d. select_daemon fl_fleet ''llm'' = Some d \<and> eligible ''llm'' d \<and> dn_load d \<le> dn_load (fl_daemon ''d1'' 1 2)"
proof -
  from fl_select obtain d where d: "select_daemon fl_fleet ''llm'' = Some d" by auto
  have "fl_daemon ''d1'' 1 2 \<in> set (daemons fl_fleet)" by (simp add: fl_fleet_def)
  moreover have "eligible ''llm'' (fl_daemon ''d1'' 1 2)" by code_simp
  ultimately show ?thesis using selection_is_least_loaded [of fl_fleet "''llm''"] d by auto
qed

definition fl_checked :: "fleet \<times> pending_task list \<times> pending_task list" where
  "fl_checked = check_health 50 fl_fleet"

lemma fl_out: "map pk_task (fst (snd fl_checked)) = [''r1'']" "map pk_task (pending (fst fl_checked)) = [''r2'']"
  by code_simp+

theorem health_check_accounts_for_tasks_witness:
  "mset (map pk_task (pending fl_fleet)) = {#''r2''#} + {#''r1''#} + mset (map pk_task (snd (snd fl_checked)))"
proof -
  have "check_health 50 fl_fleet = (fst fl_checked, fst (snd fl_checked), snd (snd fl_checked))"
    by (simp add: fl_checked_def)
  from health_check_accounts_for_tasks [OF this, unfolded fl_out] show ?thesis by (simp del: mset_map)
qed

definition fl_request :: register_request where
  "fl_request = \<lparr>gq_daemon = ''d1'', gq_host = ''h'', gq_port = 80, gq_version = ''v'', gq_capabilities = [''llm''], gq_max = 2,
     gq_types = []\<rparr>"

definition fl_ops :: "(time \<times> fleet_op) list" where
  "fl_ops = [(0, RegisterDaemon fl_request), (31 * 10 ^ 9, CheckHealth), (61 * 10 ^ 9, CheckHealth), (91 * 10 ^ 9, CheckHealth)]"

lemma fl_ops_facts: "paced 0 None fl_ops" "map dn_status (daemons (foldl fleet_step new_fleet fl_ops)) = [DaemonStatusOffline]"
  by code_simp+

theorem offline_means_silent_witness:
  "\<exists>d \<in> set (daemons (foldl fleet_step new_fleet fl_ops)).
     dn_status d = DaemonStatusOffline \<and> fst (last fl_ops) - dn_heartbeat d > 90 * 10 ^ 9"
proof -
  from fl_ops_facts(2) obtain d where d: "d \<in> set (daemons (foldl fleet_step new_fleet fl_ops))" "dn_status d = DaemonStatusOffline"
    by auto
  with offline_means_silent [OF fl_ops_facts(1) refl] show ?thesis by blast
qed

definition fl_run :: run_row where
  "fl_run = rt_run\<lparr>rn_status := AgentRunStatusRunning, rn_finished := None\<rparr>"

definition fl_rdb :: rdb where
  "fl_rdb = rt_rdb\<lparr>runs := [fl_run], events := [rt_event 1 RunStarted [(''result_contract'', ''visible_message'')]]\<rparr>"

theorem lost_work_is_recovered_witness:
  "\<exists>x \<in> set (retry_candidates (\<lambda>_. False) rt_db (snd (health_tick rt_renv (\<lambda>_ _. False) (fl_fleet, fl_rdb)))).
     fr_run x = ''r1'' \<and> fr_task x = ''t1''"
proof -
  let ?p = "hd (pending fl_fleet)" and ?l = "hd (links fl_rdb)" and ?t = "hd (tasks rt_db)"
  have p: "?p \<in> set (pending fl_fleet)" "pk_run ?p = ''r1''" "pk_daemon ?p = ''d1''" by (simp_all add: fl_fleet_def)
  have l: "?l \<in> set (links fl_rdb)" "lk_run ?l = ''r1''" "lk_role ?l = AgentRunTaskRolePrimary" "lk_task ?l = ''t1''"
    by (simp_all add: fl_rdb_def rt_rdb_def AgentRunTaskRolePrimary_def)
  have "loses_tasks 50 fl_fleet (daemons fl_fleet) ''d1''" by code_simp
  then have lose: "loses_tasks (clock rt_renv) fl_fleet (daemons fl_fleet) (pk_daemon ?p)" by (simp add: p rt_renv_def)
  have key: "keyed dn_id (daemons fl_fleet)" by code_simp
  have row: "row_by rn_id (pk_run ?p) (runs fl_rdb) = Some fl_run"
    by (simp add: p fl_rdb_def row_by_def) (simp add: fl_run_def rt_run_def)
  have act: "is_active_agent_run_status (rn_status fl_run)" "rn_finished fl_run = None"
    by (simp_all add: fl_run_def is_active_agent_run_status_def active_agent_run_statuses_def)
  have set: "settles fl_rdb (pk_run ?p) (rn_usage fl_run)" "\<not> blank (pk_run ?p)" "pk_run ?p \<noteq> []"
    unfolding p by code_simp+
  have latest: "map_option rn_id (latest_primary_run fl_rdb (lk_task ?l)) = Some (pk_run ?p)" unfolding p l by code_simp
  have con: "result_contract fl_rdb (pk_run ?p) = Some agentResultContractVisibleMessage" "\<not> handled fl_rdb (pk_run ?p)"
    unfolding p by code_simp+
  have t: "row_by t_id (lk_task ?l) (tasks rt_db) = Some ?t" "recoverable_status (t_status ?t)"
    "t_claimer ?t = None \<or> t_claimer ?t = Some (rn_agent fl_run)" "t_updated ?t \<le> clock rt_renv"
    "\<not> exists_row (\<lambda>w. w_task w = t_id ?t \<and> w_status w = Waiting) (waits rt_db)"
    by (simp_all add: l rt_db_def rt_renv_def row_by_def recoverable_status_def fl_run_def rt_run_def exists_row_iff empty_db_def)
  have room: "length (awaiting_recovery (\<lambda>_. False) rt_db (snd (health_tick rt_renv (\<lambda>_ _. False) (fl_fleet, fl_rdb)))) \<le> 100"
    by code_simp
  from lost_work_is_recovered [OF p(1) lose key row act set l(1) _ l(3) latest con t _ room]
  show ?thesis by (auto simp: p l)
qed

end
