(* ===== verification/Send_Dedupe.thy ===== *)
theory Send_Dedupe
  imports Go_Prelude
begin

text \<open>
  The cache that keeps one message from being sent twice (\<open>service/send_dedupe.go\<close>). The first caller with a
  key owns the send; callers that come meanwhile wait, and get its result once it is completed, for as long
  as the cache keeps it; when the owner gives up, one of them takes over.

  The mutex makes each critical section one step. An entry of the map is a Go pointer: it is identified by a
  number, and \<open>closed\<close> lists the entries whose channel \<open>done\<close> has been closed. The order of the list stands
  for the order in which a loop over the map happens to run.
\<close>

section \<open>The cache\<close>

record 'b send_result =
  sr_status :: int
  sr_body :: 'b

record 'b send_entry =
  se_id :: nat
  se_key :: string
  se_result :: "'b send_result option"
  se_created :: time
  se_expires :: time

record 'b send_dedupe =
  entries :: "'b send_entry list"
  closed :: "nat list"
  next_entry :: nat
  capacity :: nat
  ttl :: time

record send_claim =
  sc_key :: string
  sc_entry :: nat

definition new_send_dedupe :: "nat \<Rightarrow> time \<Rightarrow> 'b send_dedupe" where
  "new_send_dedupe n t = \<lparr>entries = [], closed = [], next_entry = 0, capacity = n, ttl = t\<rparr>"

definition prune_expired :: "time \<Rightarrow> 'b send_dedupe \<Rightarrow> 'b send_dedupe" where
  "prune_expired now d = d\<lparr>entries := delete_where (\<lambda>x. se_result x \<noteq> None \<and> \<not> se_expires x > now) (entries d)\<rparr>"

datatype 'b acquired = Claimed send_claim | Duplicate "'b send_result" | Blocked nat

text \<open>One round of the loop of \<open>Acquire\<close>.\<close>

definition acquire :: "time \<Rightarrow> string \<Rightarrow> 'b send_dedupe \<Rightarrow> 'b send_dedupe \<times> 'b acquired" where
  "acquire now key d0 =
     (let d = prune_expired now d0
      in case row_by se_key key (entries d) of
           Some x \<Rightarrow> (case se_result x of Some r \<Rightarrow> (d, Duplicate r) | None \<Rightarrow> (d, Blocked (se_id x)))
         | None \<Rightarrow>
             (d\<lparr>entries := entries d @
                  [\<lparr>se_id = next_entry d, se_key = key, se_result = None, se_created = now, se_expires = 0\<rparr>],
                next_entry := next_entry d + 1\<rparr>,
              Claimed \<lparr>sc_key = key, sc_entry = next_entry d\<rparr>))"

text \<open>As in the code, the empty key stands for having found nothing yet.\<close>

fun oldest_completed :: "string \<Rightarrow> time \<Rightarrow> 'b send_entry list \<Rightarrow> string" where
  "oldest_completed oldest_key oldest [] = oldest_key"
| "oldest_completed oldest_key oldest (x # xs) =
     (if se_result x \<noteq> None \<and> (oldest_key = [] \<or> se_created x < oldest)
      then oldest_completed (se_key x) (se_created x) xs else oldest_completed oldest_key oldest xs)"

lemma oldest_completed_in:
  "oldest_completed k t xs = k \<or> (\<exists>x \<in> set xs. se_key x = oldest_completed k t xs \<and> se_result x \<noteq> None)"
proof (induction k t xs rule: oldest_completed.induct)
  case (2 k t x xs)
  show ?case
  proof (cases "se_result x \<noteq> None \<and> (k = [] \<or> se_created x < t)")
    case True
    then have eq: "oldest_completed k t (x # xs) = oldest_completed (se_key x) (se_created x) xs" by simp
    show ?thesis unfolding eq using 2(1) [OF True] True by (metis list.set_intros)
  next
    case False
    then have eq: "oldest_completed k t (x # xs) = oldest_completed k t xs" by auto
    show ?thesis unfolding eq using 2(2) [OF False] by (meson list.set_intros(2))
  qed
qed simp

lemma oldest_completed_none:
  "[] \<notin> se_key ` set xs \<Longrightarrow>
   oldest_completed k t xs \<noteq> [] \<or> (k = [] \<and> (\<forall>x \<in> set xs. se_result x = None))"
proof (induction k t xs rule: oldest_completed.induct)
  case (2 k t x xs)
  have keys: "[] \<notin> se_key ` set xs" "se_key x \<noteq> []" using 2(3) by auto
  show ?case
  proof (cases "se_result x \<noteq> None \<and> (k = [] \<or> se_created x < t)")
    case True
    then have eq: "oldest_completed k t (x # xs) = oldest_completed (se_key x) (se_created x) xs" by simp
    show ?thesis unfolding eq using 2(1) [OF True keys(1)] keys(2) by blast
  next
    case False
    then have eq: "oldest_completed k t (x # xs) = oldest_completed k t xs" by auto
    show ?thesis unfolding eq using 2(2) [OF False keys(1)] False by auto
  qed
qed simp

function evict :: "nat \<Rightarrow> 'b send_entry list \<Rightarrow> 'b send_entry list" where
  "evict n xs =
     (if length xs \<le> n then xs
      else (let k = oldest_completed [] 0 xs in
            if k = [] then xs else evict n (delete_where (\<lambda>y. se_key y = k) xs)))"
  by pat_completeness auto

termination
proof (relation "measure (\<lambda>(n, xs). length xs)")
  fix n :: nat and xs :: "'b send_entry list" and k
  assume "k = oldest_completed [] 0 xs" "k \<noteq> []"
  then obtain x where "x \<in> set xs" "se_key x = k" using oldest_completed_in by metis
  then have "length (delete_where (\<lambda>y. se_key y = k) xs) < length xs"
    by (auto simp: delete_where_def intro: length_filter_less)
  then show "((n, delete_where (\<lambda>y. se_key y = k) xs), (n, xs)) \<in> measure (\<lambda>(n, xs). length xs)" by simp
qed simp

lemmas [simp del] = evict.simps

definition evict_completed :: "'b send_dedupe \<Rightarrow> 'b send_dedupe" where
  "evict_completed d = d\<lparr>entries := evict (capacity d) (entries d)\<rparr>"

text \<open>Both ignore a claim whose entry is not the one in the map, or is completed.\<close>

definition claim_valid :: "send_claim \<Rightarrow> 'b send_dedupe \<Rightarrow> bool" where
  "claim_valid c d =
     (case row_by se_key (sc_key c) (entries d) of
        None \<Rightarrow> False
      | Some x \<Rightarrow> se_id x = sc_entry c \<and> (case se_result x of None \<Rightarrow> True | Some _ \<Rightarrow> False))"

definition complete_send :: "time \<Rightarrow> send_claim \<Rightarrow> int \<Rightarrow> 'b \<Rightarrow> 'b send_dedupe \<Rightarrow> 'b send_dedupe" where
  "complete_send now c status body d =
     (if \<not> claim_valid c d then d
      else evict_completed
             (d\<lparr>entries := update_where (\<lambda>x. se_key x = sc_key c)
                   (\<lambda>x. x\<lparr>se_result := Some \<lparr>sr_status = status, sr_body = body\<rparr>, se_expires := now + ttl d\<rparr>) (entries d),
                closed := sc_entry c # closed d\<rparr>))"

definition abort_send :: "send_claim \<Rightarrow> 'b send_dedupe \<Rightarrow> 'b send_dedupe" where
  "abort_send c d =
     (if \<not> claim_valid c d then d
      else d\<lparr>entries := delete_where (\<lambda>x. se_key x = sc_key c) (entries d), closed := sc_entry c # closed d\<rparr>)"

section \<open>Callers\<close>

text \<open>
  Callers of the cache. A caller that waits goes on when the channel of the entry it saw is closed, or gives
  up when its context ends. The log holds the sends that were completed, the newest first.
\<close>

datatype 'b caller_state =
    Sending send_claim
  | WaitingFor nat
  | Answered "'b send_result"
  | Sent
  | GaveUp

record 'b caller =
  ca_id :: nat
  ca_key :: string
  ca_state :: "'b caller_state"

record 'b send_world =
  cache :: "'b send_dedupe"
  callers :: "'b caller list"
  sent :: "(string \<times> time \<times> 'b send_result) list"

datatype 'b send_op =
    Arrive nat string
  | GoOn nat
  | Cancel nat
  | Complete nat int 'b
  | Abort nat

definition acquired_state :: "'b acquired \<Rightarrow> 'b caller_state" where
  "acquired_state a = (case a of Claimed c \<Rightarrow> Sending c | Duplicate r \<Rightarrow> Answered r | Blocked n \<Rightarrow> WaitingFor n)"

definition set_caller :: "nat \<Rightarrow> 'b caller_state \<Rightarrow> 'b send_world \<Rightarrow> 'b send_world" where
  "set_caller i st w = w\<lparr>callers := update_where (\<lambda>c. ca_id c = i) (\<lambda>c. c\<lparr>ca_state := st\<rparr>) (callers w)\<rparr>"

fun send_step :: "'b send_world \<Rightarrow> time \<times> 'b send_op \<Rightarrow> 'b send_world" where
  "send_step w (now, Arrive i key) =
     (if row_by ca_id i (callers w) \<noteq> None then w
      else (case acquire now key (cache w) of
              (d, a) \<Rightarrow> w\<lparr>cache := d, callers := callers w @ [\<lparr>ca_id = i, ca_key = key, ca_state = acquired_state a\<rparr>]\<rparr>))"
| "send_step w (now, GoOn i) =
     (case row_by ca_id i (callers w) of
        Some c \<Rightarrow>
          (case ca_state c of
             WaitingFor n \<Rightarrow>
               if n \<in> set (closed (cache w))
               then (case acquire now (ca_key c) (cache w) of (d, a) \<Rightarrow> set_caller i (acquired_state a) (w\<lparr>cache := d\<rparr>))
               else w
           | _ \<Rightarrow> w)
      | None \<Rightarrow> w)"
| "send_step w (now, Cancel i) =
     (case row_by ca_id i (callers w) of
        Some c \<Rightarrow> (case ca_state c of WaitingFor n \<Rightarrow> set_caller i GaveUp w | _ \<Rightarrow> w)
      | None \<Rightarrow> w)"
| "send_step w (now, Complete i status body) =
     (case row_by ca_id i (callers w) of
        Some c \<Rightarrow>
          (case ca_state c of
             Sending cl \<Rightarrow>
               set_caller i Sent
                 (w\<lparr>cache := complete_send now cl status body (cache w),
                    sent := (ca_key c, now, \<lparr>sr_status = status, sr_body = body\<rparr>) # sent w\<rparr>)
           | _ \<Rightarrow> w)
      | None \<Rightarrow> w)"
| "send_step w (now, Abort i) =
     (case row_by ca_id i (callers w) of
        Some c \<Rightarrow> (case ca_state c of Sending cl \<Rightarrow> set_caller i GaveUp (w\<lparr>cache := abort_send cl (cache w)\<rparr>) | _ \<Rightarrow> w)
      | None \<Rightarrow> w)"

definition start_world :: "nat \<Rightarrow> time \<Rightarrow> 'b send_world" where
  "start_world n t = \<lparr>cache = new_send_dedupe n t, callers = [], sent = []\<rparr>"

section \<open>What the cache keeps\<close>

definition pend :: "'b send_dedupe \<Rightarrow> (string \<times> nat) set" where
  "pend d = {(se_key x, se_id x) |x. x \<in> set (entries d) \<and> se_result x = None}"

definition results :: "'b send_dedupe \<Rightarrow> (string \<times> 'b send_result) set" where
  "results d = {(se_key x, r) |x r. x \<in> set (entries d) \<and> se_result x = Some r}"

definition cache_ok :: "'b send_dedupe \<Rightarrow> bool" where
  "cache_ok d \<longleftrightarrow> keyed se_key (entries d) \<and> keyed se_id (entries d) \<and>
     (\<forall>x \<in> set (entries d). se_id x < next_entry d) \<and> (\<forall>n \<in> set (closed d). n < next_entry d) \<and>
     (\<forall>x \<in> set (entries d). se_result x = None \<longrightarrow> se_id x \<notin> set (closed d))"

lemma pend_iff: "(k, n) \<in> pend d \<longleftrightarrow> (\<exists>x \<in> set (entries d). se_key x = k \<and> se_id x = n \<and> se_result x = None)"
  by (auto simp: pend_def)

lemma pend_keys: "cache_ok d \<Longrightarrow> (k, m) \<in> pend d \<Longrightarrow> (k, n) \<in> pend d \<Longrightarrow> m = n"
  by (auto simp: pend_def cache_ok_def dest: keyed_unique)

lemma pend_fresh: "cache_ok d \<Longrightarrow> (k, n) \<in> pend d \<Longrightarrow> n < next_entry d"
  by (auto simp: pend_def cache_ok_def)

lemma prune_facts:
  "cache_ok d \<Longrightarrow> cache_ok (prune_expired now d) \<and> pend (prune_expired now d) = pend d \<and>
   results (prune_expired now d) \<subseteq> results d \<and> closed (prune_expired now d) = closed d \<and>
   next_entry (prune_expired now d) = next_entry d"
  by (auto simp: prune_expired_def cache_ok_def keyed_delete pend_def results_def row_simps)

lemma acquire_facts:
  assumes ok: "cache_ok d" and acq: "acquire now key d = (d', a)"
  shows "cache_ok d' \<and> closed d' = closed d \<and> results d' \<subseteq> results d \<and>
         (case a of
            Claimed c \<Rightarrow> c = \<lparr>sc_key = key, sc_entry = next_entry d\<rparr> \<and> pend d' = insert (key, next_entry d) (pend d) \<and>
                         key \<notin> fst ` pend d
          | Duplicate r \<Rightarrow> pend d' = pend d \<and> (key, r) \<in> results d
          | Blocked n \<Rightarrow> pend d' = pend d \<and> (key, n) \<in> pend d)"
proof -
  let ?p = "prune_expired now d"
  note p = prune_facts [OF ok, of now]
  show ?thesis
  proof (cases "row_by se_key key (entries ?p)")
    case (Some x)
    have x: "x \<in> set (entries ?p)" "se_key x = key" using row_by_in [OF Some] row_by_key [OF Some] by blast+
    show ?thesis
    proof (cases "se_result x")
      case None
      then have "(key, se_id x) \<in> pend ?p" using x by (auto simp: pend_def)
      then show ?thesis using acq Some None p by (auto simp: acquire_def)
    next
      case r: (Some r)
      then have "(key, r) \<in> results ?p" using x by (auto simp: results_def)
      then show ?thesis using acq Some r p by (auto simp: acquire_def)
    qed
  next
    case None
    then have new: "key \<notin> se_key ` set (entries ?p)" by (simp add: row_by_None)
    have "key \<notin> fst ` pend ?p" using new by (auto simp: pend_def)
    moreover have d': "d' = ?p\<lparr>entries := entries ?p @
        [\<lparr>se_id = next_entry ?p, se_key = key, se_result = None, se_created = now, se_expires = 0\<rparr>],
        next_entry := next_entry ?p + 1\<rparr>" and a: "a = Claimed \<lparr>sc_key = key, sc_entry = next_entry ?p\<rparr>"
      using acq None by (auto simp: acquire_def Let_def)
    moreover have "cache_ok d'" using p new by (auto simp: cache_ok_def d' keyed_insert less_Suc_eq)
    moreover have "pend d' = insert (key, next_entry ?p) (pend ?p)" unfolding pend_def d' by force
    moreover have "results d' = results ?p" unfolding results_def d' by force
    ultimately show ?thesis using p by (simp add: d')
  qed
qed

lemma evict_kept:
  "keyed se_key xs \<Longrightarrow>
   keyed se_key (evict n xs) \<and> set (evict n xs) \<subseteq> set xs \<and> (\<forall>x \<in> set xs. se_result x = None \<longrightarrow> x \<in> set (evict n xs))"
proof (induction n xs rule: evict.induct)
  case (1 n xs)
  let ?k = "oldest_completed [] 0 xs"
  let ?ys = "delete_where (\<lambda>y. se_key y = ?k) xs"
  show ?case
  proof (cases "length xs \<le> n \<or> ?k = []")
    case True
    then have "evict n xs = xs" by (subst evict.simps) (auto simp: Let_def)
    with 1(2) show ?thesis by simp
  next
    case big: False
    then obtain x where x: "x \<in> set xs" "se_key x = ?k" "se_result x \<noteq> None" using oldest_completed_in by metis
    have "y \<in> set ?ys" if "y \<in> set xs" "se_result y = None" for y
      using that x keyed_unique [OF 1(2) that(1) x(1)] by (auto simp: row_simps)
    moreover have "evict n xs = evict n ?ys" using big by (subst evict.simps) (simp add: Let_def)
    moreover have "set ?ys \<subseteq> set xs" by (auto simp: row_simps)
    ultimately show ?thesis using 1(1) [OF _ refl _ keyed_delete [OF 1(2)]] big by auto
  qed
qed

lemma evict_bound:
  "keyed se_key xs \<Longrightarrow> [] \<notin> se_key ` set xs \<Longrightarrow> length (evict n xs) \<le> n \<or> (\<forall>x \<in> set (evict n xs). se_result x = None)"
proof (induction n xs rule: evict.induct)
  case (1 n xs)
  let ?k = "oldest_completed [] 0 xs"
  let ?ys = "delete_where (\<lambda>y. se_key y = ?k) xs"
  show ?case
  proof (cases "length xs \<le> n \<or> ?k = []")
    case True
    then have "evict n xs = xs" by (subst evict.simps) (auto simp: Let_def)
    with True oldest_completed_none [OF 1(3), of "[]" 0] show ?thesis by auto
  next
    case big: False
    have "evict n xs = evict n ?ys" using big by (subst evict.simps) (simp add: Let_def)
    moreover have "[] \<notin> se_key ` set ?ys" using 1(3) by (auto simp: row_simps)
    ultimately show ?thesis using 1(1) [OF _ refl _ keyed_delete [OF 1(2)]] big by auto
  qed
qed

lemma keyed_subset_id:
  "keyed se_id xs \<Longrightarrow> keyed se_id (evict n xs)"
proof (induction n xs rule: evict.induct)
  case (1 n xs)
  then show ?case by (subst evict.simps) (auto simp: Let_def keyed_delete)
qed

lemma keyed_rows: "(\<And>x. key (f x) = key x) \<Longrightarrow> keyed key (update_where P f xs) = keyed key xs"
  by (rule keyed_update.keyed_update_iff) (unfold_locales, simp)

lemma row_by_rows:
  "(\<And>x. key (f x) = key x) \<Longrightarrow>
   row_by key k (update_where P f xs) = map_option (\<lambda>x. if P x then f x else x) (row_by key k xs)"
  by (rule keyed_update.row_by_update) (unfold_locales, simp)

lemma claim_valid_pend:
  assumes "cache_ok d"
  shows "claim_valid c d \<longleftrightarrow> (sc_key c, sc_entry c) \<in> pend d"
proof (cases "row_by se_key (sc_key c) (entries d)")
  case None
  then have "sc_key c \<notin> se_key ` set (entries d)" by (simp add: row_by_None)
  then show ?thesis using None by (auto simp: claim_valid_def pend_def)
next
  case (Some x)
  have x: "x \<in> set (entries d)" "se_key x = sc_key c" by (rule row_by_in [OF Some], rule row_by_key [OF Some])
  have "keyed se_key (entries d)" using assms by (simp add: cache_ok_def)
  then have "y = x" if "y \<in> set (entries d)" "se_key y = sc_key c" for y
    using x that keyed_unique [of se_key "entries d" y x] by simp
  with x have "(sc_key c, n) \<in> pend d \<longleftrightarrow> se_id x = n \<and> se_result x = None" for n unfolding pend_iff by metis
  then show ?thesis unfolding claim_valid_def Some by (cases "se_result x") simp_all
qed

lemma pend_without:
  assumes ok: "cache_ok d" and "(k, n) \<in> pend d"
  shows "{(se_key x, se_id x) |x. x \<in> set (entries d) \<and> se_result x = None \<and> se_key x \<noteq> k} = pend d - {(k, n)}"
proof -
  have "se_key x \<noteq> k \<longleftrightarrow> (se_key x, se_id x) \<noteq> (k, n)" if x: "x \<in> set (entries d)" "se_result x = None" for x
  proof -
    have "(se_key x, se_id x) \<in> pend d" unfolding pend_def using x by blast
    then have "se_id x = n" if "se_key x = k" using that pend_keys [OF ok _ assms(2), of "se_id x"] by simp
    then show ?thesis by blast
  qed
  then show ?thesis unfolding pend_def by blast
qed

lemma pend_entry_only:
  assumes "cache_ok d" and "(k, n) \<in> pend d" and "x \<in> set (entries d)" and "se_id x = n"
  shows "se_key x = k"
proof -
  obtain y where "y \<in> set (entries d)" "se_key y = k" "se_id y = n" using assms(2) unfolding pend_iff by blast
  then show ?thesis using assms keyed_unique [of se_id "entries d" x y] by (simp add: cache_ok_def)
qed

lemma complete_facts:
  assumes ok: "cache_ok d" and "(sc_key c, sc_entry c) \<in> pend d" and d': "d' = complete_send now c status body d"
  shows "cache_ok d' \<and> closed d' = sc_entry c # closed d \<and> pend d' = pend d - {(sc_key c, sc_entry c)} \<and>
         results d' \<subseteq> insert (sc_key c, \<lparr>sr_status = status, sr_body = body\<rparr>) (results d)"
proof -
  let ?f = "\<lambda>x. x\<lparr>se_result := Some \<lparr>sr_status = status, sr_body = body\<rparr>, se_expires := now + ttl d\<rparr>"
  let ?xs = "update_where (\<lambda>x. se_key x = sc_key c) ?f (entries d)"
  have valid: "claim_valid c d" using assms claim_valid_pend by blast
  have out: "d' = d\<lparr>entries := evict (capacity d) ?xs, closed := sc_entry c # closed d\<rparr>"
    using valid by (simp add: d' complete_send_def evict_completed_def)
  have keys: "keyed se_key ?xs" "keyed se_id ?xs" using ok by (simp_all add: cache_ok_def keyed_rows)
  note ev = evict_kept [OF keys(1), of "capacity d"]
  have sub: "set (evict (capacity d) ?xs) \<subseteq> set ?xs" using ev by blast
  have bound: "\<forall>x \<in> set ?xs. se_id x < next_entry d" using ok by (auto simp: cache_ok_def row_simps)
  have own: "sc_entry c < next_entry d" by (rule pend_fresh [OF ok assms(2)])
  have "\<forall>x \<in> set ?xs. se_result x = None \<longrightarrow> se_id x \<notin> set (sc_entry c # closed d)"
    using ok pend_entry_only [OF ok assms(2)] by (auto simp: cache_ok_def row_simps)
  then have "cache_ok d'" using ev keyed_subset_id [OF keys(2)] sub bound own ok by (auto simp: cache_ok_def out)
  moreover have "pend d' = {(se_key x, se_id x) |x. x \<in> set ?xs \<and> se_result x = None}"
    using ev sub by (auto simp: pend_def out)
  moreover have "\<dots> = {(se_key x, se_id x) |x. x \<in> set (entries d) \<and> se_result x = None \<and> se_key x \<noteq> sc_key c}"
    by (fastforce simp: row_simps split: if_splits)
  moreover have "\<dots> = pend d - {(sc_key c, sc_entry c)}" by (rule pend_without [OF ok assms(2)])
  moreover have "results d' \<subseteq> insert (sc_key c, \<lparr>sr_status = status, sr_body = body\<rparr>) (results d)"
    using sub by (fastforce simp: results_def out row_simps split: if_splits)
  ultimately show ?thesis by (simp add: out)
qed

lemma abort_facts:
  assumes ok: "cache_ok d" and "(sc_key c, sc_entry c) \<in> pend d" and d': "d' = abort_send c d"
  shows "cache_ok d' \<and> closed d' = sc_entry c # closed d \<and> pend d' = pend d - {(sc_key c, sc_entry c)} \<and>
         results d' \<subseteq> results d"
proof -
  have valid: "claim_valid c d" using assms claim_valid_pend by blast
  have out: "d' = d\<lparr>entries := delete_where (\<lambda>x. se_key x = sc_key c) (entries d), closed := sc_entry c # closed d\<rparr>"
    using valid by (simp add: d' abort_send_def)
  have "pend d' = {(se_key x, se_id x) |x. x \<in> set (entries d) \<and> se_result x = None \<and> se_key x \<noteq> sc_key c}"
    by (auto simp: pend_def out row_simps)
  then have "pend d' = pend d - {(sc_key c, sc_entry c)}" using pend_without [OF ok assms(2)] by simp
  moreover have "cache_ok d'"
    using ok pend_fresh [OF ok assms(2)] pend_entry_only [OF ok assms(2)]
    by (auto simp: out cache_ok_def keyed_delete row_simps)
  moreover have "results d' \<subseteq> results d" by (auto simp: out row_simps results_def)
  ultimately show ?thesis by (simp add: out)
qed

end
