(* ===== verification/Send_Theorems.thy ===== *)
theory Send_Theorems
  imports Send_Dedupe
begin

text \<open>
  Properties of the send cache and its callers, for every sequence of steps: who may be sending, what a waiter
  waits for, when a result is kept, and when it is not.
\<close>

section \<open>Callers and the entries they hold\<close>

type_synonym 'b send_log = "(string \<times> 'b send_result) set"

definition caller_ok :: "(string \<times> nat) set \<Rightarrow> nat set \<Rightarrow> 'b send_log \<Rightarrow> 'b caller \<Rightarrow> bool" where
  "caller_ok P C L c =
     (case ca_state c of
        Sending cl \<Rightarrow> sc_key cl = ca_key c \<and> (ca_key c, sc_entry cl) \<in> P
      | WaitingFor n \<Rightarrow> n \<in> C \<or> (ca_key c, n) \<in> P
      | Answered r \<Rightarrow> (ca_key c, r) \<in> L
      | _ \<Rightarrow> True)"

definition callers_ok :: "(string \<times> nat) set \<Rightarrow> nat set \<Rightarrow> 'b send_log \<Rightarrow> 'b caller set \<Rightarrow> bool" where
  "callers_ok P C L S \<longleftrightarrow>
     (\<forall>c \<in> S. caller_ok P C L c) \<and>
     (\<forall>c \<in> S. \<forall>c' \<in> S. \<forall>cl. ca_state c = Sending cl \<longrightarrow> ca_state c' = Sending cl \<longrightarrow> c = c') \<and>
     (\<forall>(k, n) \<in> P. \<exists>c \<in> S. ca_state c = Sending \<lparr>sc_key = k, sc_entry = n\<rparr>)"

definition sending :: "'b caller \<Rightarrow> bool" where
  "sending c = (case ca_state c of Sending _ \<Rightarrow> True | _ \<Rightarrow> False)"

lemma sending_iff: "sending c \<longleftrightarrow> (\<exists>cl. ca_state c = Sending cl)"
  by (cases "ca_state c") (simp_all add: sending_def)

lemma callers_exclusive:
  "callers_ok P C L S \<Longrightarrow> c \<in> S \<Longrightarrow> c' \<in> S \<Longrightarrow> ca_state c = Sending cl \<Longrightarrow> ca_state c' = Sending cl \<Longrightarrow> c = c'"
  unfolding callers_ok_def by blast

lemma callers_each: "callers_ok P C L S \<Longrightarrow> c \<in> S \<Longrightarrow> caller_ok P C L c"
  unfolding callers_ok_def by blast

lemma callers_owner:
  "callers_ok P C L S \<Longrightarrow> (k, n) \<in> P \<Longrightarrow> \<exists>c \<in> S. ca_state c = Sending \<lparr>sc_key = k, sc_entry = n\<rparr>"
  unfolding callers_ok_def by blast

lemma callers_sending:
  "callers_ok P C L S \<Longrightarrow> c \<in> S \<Longrightarrow> ca_state c = Sending cl \<Longrightarrow> sc_key cl = ca_key c \<and> (ca_key c, sc_entry cl) \<in> P"
  using callers_each unfolding caller_ok_def by force

lemma callers_replace:
  assumes ok: "callers_ok P C L S"
    and rest: "\<And>x. x \<in> S \<Longrightarrow> x \<noteq> c \<Longrightarrow> caller_ok P' C' L' x" and new: "caller_ok P' C' L' c'"
    and other: "\<And>x cl. x \<in> S \<Longrightarrow> x \<noteq> c \<Longrightarrow> ca_state c' = Sending cl \<Longrightarrow> ca_state x \<noteq> Sending cl"
    and owner: "\<And>k n. (k, n) \<in> P' \<Longrightarrow> ca_state c' = Sending \<lparr>sc_key = k, sc_entry = n\<rparr> \<or>
                  (\<exists>x \<in> S. x \<noteq> c \<and> ca_state x = Sending \<lparr>sc_key = k, sc_entry = n\<rparr>)"
  shows "callers_ok P' C' L' (insert c' (S - {c}))"
  unfolding callers_ok_def
proof (intro conjI ballI allI impI)
  fix x y cl
  assume x: "x \<in> insert c' (S - {c})" "ca_state x = Sending cl" and y: "y \<in> insert c' (S - {c})" "ca_state y = Sending cl"
  show "x = y"
  proof (cases "x = c' \<or> y = c'")
    case True
    then show ?thesis using x y other by blast
  next
    case False
    then show ?thesis using x y callers_exclusive [OF ok] by blast
  qed
next
  show "case p of (k, n) \<Rightarrow> \<exists>x \<in> insert c' (S - {c}). ca_state x = Sending \<lparr>sc_key = k, sc_entry = n\<rparr>" if "p \<in> P'" for p
    using that owner by (cases p) blast
qed (use rest new in blast)

lemma callers_calm:
  assumes ok: "callers_ok P C L S" and c: "\<not> (c \<in> S \<and> sending c)" and c': "\<not> sending c'" "caller_ok P C L c'"
  shows "callers_ok P C L (insert c' (S - {c}))"
proof (rule callers_replace [OF ok _ c'(2)])
  show "ca_state c' = Sending \<lparr>sc_key = k, sc_entry = n\<rparr> \<or>
      (\<exists>x \<in> S. x \<noteq> c \<and> ca_state x = Sending \<lparr>sc_key = k, sc_entry = n\<rparr>)" if "(k, n) \<in> P" for k n
    using callers_owner [OF ok that] c unfolding sending_iff by metis
qed (use callers_each [OF ok] c' in \<open>auto simp: sending_iff\<close>)

lemma callers_claim:
  assumes ok: "callers_ok P C L S" and c: "\<not> (c \<in> S \<and> sending c)" and fresh: "k \<notin> fst ` P"
    and c': "ca_state c' = Sending \<lparr>sc_key = k, sc_entry = n\<rparr>" "ca_key c' = k"
  shows "callers_ok (insert (k, n) P) C L (insert c' (S - {c}))"
proof (rule callers_replace [OF ok])
  show "caller_ok (insert (k, n) P) C L x" if "x \<in> S" for x
    using callers_each [OF ok that] unfolding caller_ok_def by (cases "ca_state x") auto
  show "caller_ok (insert (k, n) P) C L c'" using c' by (simp add: caller_ok_def)
  show "ca_state x \<noteq> Sending cl" if "x \<in> S" "ca_state c' = Sending cl" for x cl
  proof
    assume "ca_state x = Sending cl"
    then have "(k, sc_entry cl) \<in> P" using callers_sending [OF ok that(1)] that(2) c' by force
    then show False using fresh by force
  qed
  show "ca_state c' = Sending \<lparr>sc_key = k', sc_entry = n'\<rparr> \<or>
      (\<exists>x \<in> S. x \<noteq> c \<and> ca_state x = Sending \<lparr>sc_key = k', sc_entry = n'\<rparr>)" if "(k', n') \<in> insert (k, n) P" for k' n'
  proof (cases "(k', n') = (k, n)")
    case True
    then show ?thesis using c' by simp
  next
    case False
    then show ?thesis using callers_owner [OF ok, of k' n'] that c unfolding sending_iff by (metis insertE)
  qed
qed

lemma callers_settle:
  assumes ok: "callers_ok P C L S" and c: "c \<in> S" "ca_state c = Sending cl" and c': "\<not> sending c'"
    and new: "caller_ok (P - {(sc_key cl, sc_entry cl)}) (insert (sc_entry cl) C) L' c'" and more: "L \<subseteq> L'"
  shows "callers_ok (P - {(sc_key cl, sc_entry cl)}) (insert (sc_entry cl) C) L' (insert c' (S - {c}))"
proof (rule callers_replace [OF ok _ new])
  show "caller_ok (P - {(sc_key cl, sc_entry cl)}) (insert (sc_entry cl) C) L' x" if x: "x \<in> S" "x \<noteq> c" for x
  proof (cases "ca_state x")
    case (Sending cx)
    have "cx \<noteq> cl" using callers_exclusive [OF ok c(1) x(1) c(2)] x(2) Sending by blast
    then show ?thesis using callers_sending [OF ok x(1) Sending] Sending by (auto simp: caller_ok_def)
  next
    case (WaitingFor n)
    then show ?thesis using callers_each [OF ok x(1)] by (auto simp: caller_ok_def)
  next
    case (Answered r)
    then show ?thesis using callers_each [OF ok x(1)] more by (auto simp: caller_ok_def)
  qed (auto simp: caller_ok_def)
  show "ca_state c' = Sending \<lparr>sc_key = k, sc_entry = n\<rparr> \<or>
      (\<exists>x \<in> S. x \<noteq> c \<and> ca_state x = Sending \<lparr>sc_key = k, sc_entry = n\<rparr>)"
    if p: "(k, n) \<in> P - {(sc_key cl, sc_entry cl)}" for k n
  proof -
    obtain x where x: "x \<in> S" "ca_state x = Sending \<lparr>sc_key = k, sc_entry = n\<rparr>"
      using callers_owner [OF ok, of k n] p by blast
    then have "x \<noteq> c" using p c by auto
    with x show ?thesis by blast
  qed
qed (use c' in \<open>simp add: sending_iff\<close>)

section \<open>Every step keeps the callers and the cache in agreement\<close>

definition sent_results :: "'b send_world \<Rightarrow> 'b send_log" where
  "sent_results w = (\<lambda>(k, t, r). (k, r)) ` set (sent w)"

definition world_ok :: "'b send_world \<Rightarrow> bool" where
  "world_ok w \<longleftrightarrow>
     cache_ok (cache w) \<and> keyed ca_id (callers w) \<and> results (cache w) \<subseteq> sent_results w \<and>
     callers_ok (pend (cache w)) (set (closed (cache w))) (sent_results w) (set (callers w))"

lemma start_world_ok: "world_ok (start_world n t)"
  by (simp add: world_ok_def start_world_def new_send_dedupe_def cache_ok_def results_def pend_def callers_ok_def keyed_def)

lemma set_caller_set:
  assumes "keyed ca_id cs" and "row_by ca_id i cs = Some c"
  shows "set (update_where (\<lambda>c. ca_id c = i) (\<lambda>c. c\<lparr>ca_state := st\<rparr>) cs) = insert (c\<lparr>ca_state := st\<rparr>) (set cs - {c})"
proof -
  have c: "c \<in> set cs" "ca_id c = i" by (rule row_by_in [OF assms(2)], rule row_by_key [OF assms(2)])
  have "ca_id x = i \<longleftrightarrow> x = c" if "x \<in> set cs" for x using keyed_unique [OF assms(1) that c(1)] c(2) by auto
  then show ?thesis using c(1) unfolding row_simps by force
qed

lemma acquire_callers:
  assumes d: "cache_ok d" and S: "callers_ok (pend d) (set (closed d)) L S" and L: "results d \<subseteq> L"
    and c: "\<not> (c \<in> S \<and> sending c)" and acq: "acquire now key d = (d', a)"
    and c': "ca_key c' = key" "ca_state c' = acquired_state a"
  shows "callers_ok (pend d') (set (closed d')) L (insert c' (S - {c}))"
proof -
  note f = acquire_facts [OF d acq]
  show ?thesis
  proof (cases a)
    case (Claimed cl)
    then show ?thesis using f callers_claim [OF S c, of key c'] c' by (simp add: acquired_state_def)
  next
    case (Duplicate r)
    then have "caller_ok (pend d) (set (closed d)) L c'" "\<not> sending c'"
      using f c' L by (auto simp: acquired_state_def caller_ok_def sending_def)
    then show ?thesis using f Duplicate callers_calm [OF S c] by simp
  next
    case (Blocked n)
    then have "caller_ok (pend d) (set (closed d)) L c'" "\<not> sending c'"
      using f c' by (auto simp: acquired_state_def caller_ok_def sending_def)
    then show ?thesis using f Blocked callers_calm [OF S c] by simp
  qed
qed

lemma world_ok_set:
  assumes "world_ok w" and "row_by ca_id i (callers w) = Some c" and "cache_ok d" and "results d \<subseteq> L"
    and "L = sent_results w'" and "cache w' = d" and "callers w' = callers w"
    and "callers_ok (pend d) (set (closed d)) L (insert (c\<lparr>ca_state := st\<rparr>) (set (callers w) - {c}))"
  shows "world_ok (set_caller i st w')"
proof -
  have "keyed ca_id (callers w)" using assms(1) by (simp add: world_ok_def)
  then show ?thesis using assms set_caller_set [OF _ assms(2)]
    by (simp add: world_ok_def set_caller_def sent_results_def keyed_rows)
qed

lemma send_step_arrive:
  assumes ok: "world_ok w"
  shows "world_ok (send_step w (now, Arrive i key))"
proof (cases "row_by ca_id i (callers w)")
  case None
  obtain d a where acq: "acquire now key (cache w) = (d, a)" by fastforce
  let ?c = "\<lparr>ca_id = i, ca_key = key, ca_state = acquired_state a\<rparr>"
  have new: "?c \<notin> set (callers w)" "i \<notin> ca_id ` set (callers w)" using None by (force simp: row_by_None)+
  have "callers_ok (pend d) (set (closed d)) (sent_results w) (insert ?c (set (callers w) - {?c}))"
    using ok new by (intro acquire_callers [OF _ _ _ _ acq]) (simp_all add: world_ok_def)
  then show ?thesis using ok acq acquire_facts [OF _ acq] None new
    by (auto simp: world_ok_def sent_results_def keyed_insert)
qed (use ok in simp)

lemma send_step_ok:
  assumes ok: "world_ok w"
  shows "world_ok (send_step w (now, x))"
proof (cases x)
  case (Arrive i key)
  then show ?thesis using send_step_arrive [OF ok] by simp
next
  case (GoOn i)
  show ?thesis
  proof (cases "\<exists>c n. row_by ca_id i (callers w) = Some c \<and> ca_state c = WaitingFor n \<and> n \<in> set (closed (cache w))")
    case True
    then obtain c n where c: "row_by ca_id i (callers w) = Some c" "ca_state c = WaitingFor n" "n \<in> set (closed (cache w))"
      by blast
    obtain d a where acq: "acquire now (ca_key c) (cache w) = (d, a)" by fastforce
    have "callers_ok (pend d) (set (closed d)) (sent_results w)
        (insert (c\<lparr>ca_state := acquired_state a\<rparr>) (set (callers w) - {c}))"
      using ok c by (intro acquire_callers [OF _ _ _ _ acq]) (simp_all add: world_ok_def sending_def)
    then have "world_ok (set_caller i (acquired_state a) (w\<lparr>cache := d\<rparr>))"
      using ok acquire_facts [OF _ acq] by (intro world_ok_set [OF ok c(1)]) (auto simp: world_ok_def sent_results_def)
    then show ?thesis using GoOn c acq by simp
  next
    case False
    then show ?thesis using ok GoOn by (auto split: option.split caller_state.split)
  qed
next
  case (Cancel i)
  show ?thesis
  proof (cases "\<exists>c n. row_by ca_id i (callers w) = Some c \<and> ca_state c = WaitingFor n")
    case True
    then obtain c n where c: "row_by ca_id i (callers w) = Some c" "ca_state c = WaitingFor n" by blast
    have "callers_ok (pend (cache w)) (set (closed (cache w))) (sent_results w)
        (insert (c\<lparr>ca_state := GaveUp\<rparr>) (set (callers w) - {c}))"
      using ok c by (intro callers_calm) (simp_all add: world_ok_def sending_def caller_ok_def)
    then have "world_ok (set_caller i GaveUp w)"
      using ok by (intro world_ok_set [OF ok c(1)]) (auto simp: world_ok_def)
    then show ?thesis using Cancel c by simp
  next
    case False
    then show ?thesis using ok Cancel by (auto split: option.split caller_state.split)
  qed
next
  case (Complete i status body)
  show ?thesis
  proof (cases "\<exists>c cl. row_by ca_id i (callers w) = Some c \<and> ca_state c = Sending cl")
    case True
    then obtain c cl where c: "row_by ca_id i (callers w) = Some c" "ca_state c = Sending cl" by blast
    let ?r = "\<lparr>sr_status = status, sr_body = body\<rparr>"
    let ?w = "w\<lparr>cache := complete_send now cl status body (cache w), sent := (ca_key c, now, ?r) # sent w\<rparr>"
    have w: "cache_ok (cache w)" "callers_ok (pend (cache w)) (set (closed (cache w))) (sent_results w) (set (callers w))"
      "results (cache w) \<subseteq> sent_results w"
      using ok by (simp_all add: world_ok_def)
    have cl: "sc_key cl = ca_key c" "(sc_key cl, sc_entry cl) \<in> pend (cache w)"
      using callers_sending [OF w(2) row_by_in [OF c(1)] c(2)] by simp_all
    note f = complete_facts [OF w(1) cl(2) refl, of now status body]
    have L: "sent_results ?w = insert (ca_key c, ?r) (sent_results w)" by (simp add: sent_results_def)
    have "callers_ok (pend (cache ?w)) (set (closed (cache ?w))) (sent_results ?w)
        (insert (c\<lparr>ca_state := Sent\<rparr>) (set (callers w) - {c}))"
      using callers_settle [OF w(2) row_by_in [OF c(1)] c(2), of "c\<lparr>ca_state := Sent\<rparr>" "sent_results ?w"] f
      by (simp add: sending_def caller_ok_def L subset_insertI)
    then have "world_ok (set_caller i Sent ?w)"
      using f w(3) cl(1) by (intro world_ok_set [OF ok c(1) _ _ refl refl]) (auto simp: L)
    then show ?thesis using Complete c by simp
  next
    case False
    then show ?thesis using ok Complete by (auto split: option.split caller_state.split)
  qed
next
  case (Abort i)
  show ?thesis
  proof (cases "\<exists>c cl. row_by ca_id i (callers w) = Some c \<and> ca_state c = Sending cl")
    case True
    then obtain c cl where c: "row_by ca_id i (callers w) = Some c" "ca_state c = Sending cl" by blast
    let ?w = "w\<lparr>cache := abort_send cl (cache w)\<rparr>"
    have w: "cache_ok (cache w)" "callers_ok (pend (cache w)) (set (closed (cache w))) (sent_results w) (set (callers w))"
      "results (cache w) \<subseteq> sent_results w"
      using ok by (simp_all add: world_ok_def)
    have cl: "(sc_key cl, sc_entry cl) \<in> pend (cache w)"
      using callers_sending [OF w(2) row_by_in [OF c(1)] c(2)] by simp
    note f = abort_facts [OF w(1) cl refl]
    have L: "sent_results ?w = sent_results w" by (simp add: sent_results_def)
    have "callers_ok (pend (cache ?w)) (set (closed (cache ?w))) (sent_results ?w)
        (insert (c\<lparr>ca_state := GaveUp\<rparr>) (set (callers w) - {c}))"
      using callers_settle [OF w(2) row_by_in [OF c(1)] c(2), of "c\<lparr>ca_state := GaveUp\<rparr>" "sent_results w"] f
      by (simp add: sending_def caller_ok_def L)
    then have "world_ok (set_caller i GaveUp ?w)"
      using f w(3) by (intro world_ok_set [OF ok c(1) _ _ refl refl]) (auto simp: L)
    then show ?thesis using Abort c by simp
  next
    case False
    then show ?thesis using ok Abort by (auto split: option.split caller_state.split)
  qed
qed

lemma send_steps_ok: "world_ok w \<Longrightarrow> world_ok (foldl send_step w ops)"
proof (induction ops arbitrary: w)
  case (Cons x ops)
  show ?case using Cons(1) [OF send_step_ok [OF Cons(2)], of "fst x" "snd x"] by simp
qed simp

lemmas reached_ok = send_steps_ok [OF start_world_ok]

section \<open>Who sends, and who waits\<close>

lemma pending_blocks:
  assumes "cache_ok d" and "(k, n) \<in> pend d"
  shows "snd (acquire now k d) = Blocked n"
proof -
  note p = prune_facts [OF assms(1), of now]
  then obtain x where x: "x \<in> set (entries (prune_expired now d))" "se_key x = k" "se_id x = n" "se_result x = None"
    using assms(2) by (metis pend_iff)
  have "row_by se_key k (entries (prune_expired now d)) = Some x"
    using row_by_SomeI [OF _ x(1), of se_key] p x(2) by (simp add: cache_ok_def)
  then show ?thesis using x by (simp add: acquire_def Let_def)
qed

text \<open>
  C23. Whatever the callers do and in whatever order their steps fall: no two of them are ever sending the same key at the
  same time; whoever comes with a key that is being sent waits for that very send; and a caller that was told
  its message had been sent already was given a result with which some caller did complete a send of that key.
\<close>
theorem sends_are_exclusive:
  assumes "w = foldl send_step (start_world n t) ops"
  shows "(\<forall>c \<in> set (callers w). \<forall>c' \<in> set (callers w). \<forall>cl cl'.
            ca_state c = Sending cl \<and> ca_state c' = Sending cl' \<and> ca_key c = ca_key c' \<longrightarrow> c = c') \<and>
         (\<forall>c \<in> set (callers w). \<forall>cl i now.
            ca_state c = Sending cl \<and> row_by ca_id i (callers w) = None \<longrightarrow>
            callers (send_step w (now, Arrive i (ca_key c))) =
              callers w @ [\<lparr>ca_id = i, ca_key = ca_key c, ca_state = WaitingFor (sc_entry cl)\<rparr>]) \<and>
         (\<forall>a \<in> set (callers w). \<forall>r. ca_state a = Answered r \<longrightarrow> (\<exists>done. (ca_key a, done, r) \<in> set (sent w)))"
proof (intro conjI ballI allI impI)
  have ok: "world_ok w" unfolding assms(1) by (rule reached_ok)
  then have S: "callers_ok (pend (cache w)) (set (closed (cache w))) (sent_results w) (set (callers w))"
    and C: "cache_ok (cache w)" by (simp_all add: world_ok_def)
  {
    fix c c' cl cl'
    assume c: "c \<in> set (callers w)" "c' \<in> set (callers w)"
      "ca_state c = Sending cl \<and> ca_state c' = Sending cl' \<and> ca_key c = ca_key c'"
    have "sc_key cl = ca_key c" "(ca_key c, sc_entry cl) \<in> pend (cache w)"
      "sc_key cl' = ca_key c" "(ca_key c, sc_entry cl') \<in> pend (cache w)"
      using callers_sending [OF S c(1)] callers_sending [OF S c(2)] c(3) by simp_all
    then have "cl = cl'" using pend_keys [OF C] by (intro send_claim.equality) simp_all
    then show "c = c'" using callers_exclusive [OF S c(1,2)] c(3) by simp
  next
    fix c cl i now
    assume c: "c \<in> set (callers w)" "ca_state c = Sending cl \<and> row_by ca_id i (callers w) = None"
    then have "snd (acquire now (ca_key c) (cache w)) = Blocked (sc_entry cl)"
      using pending_blocks [OF C] callers_sending [OF S c(1)] by simp
    then show "callers (send_step w (now, Arrive i (ca_key c))) =
        callers w @ [\<lparr>ca_id = i, ca_key = ca_key c, ca_state = WaitingFor (sc_entry cl)\<rparr>]"
      using c(2) by (cases "acquire now (ca_key c) (cache w)") (simp add: acquired_state_def)
  next
    fix a r
    assume a: "a \<in> set (callers w)" "ca_state a = Answered r"
    then have "(ca_key a, r) \<in> sent_results w" using callers_each [OF S a(1)] by (simp add: caller_ok_def)
    then show "\<exists>done. (ca_key a, done, r) \<in> set (sent w)" by (auto simp: sent_results_def)
  }
qed

definition busy_sends :: "(time \<times> nat send_op) list" where
  "busy_sends = [(1, Arrive 0 ''u:a''), (2, Arrive 1 ''u:a''), (3, Complete 0 201 7), (4, GoOn 1),
                 (5, Arrive 2 ''u:b''), (6, Arrive 3 ''u:b'')]"

lemma sends_are_exclusive_witness:
  "(\<exists>done. (''u:a'', done, \<lparr>sr_status = 201, sr_body = 7\<rparr>) \<in> set (sent (foldl send_step (start_world 1000 300) busy_sends))) \<and>
   map ca_state (callers (send_step (foldl send_step (start_world 1000 300) busy_sends) (9, Arrive 8 ''u:b''))) =
     [Sent, Answered \<lparr>sr_status = 201, sr_body = 7\<rparr>, Sending \<lparr>sc_key = ''u:b'', sc_entry = 1\<rparr>, WaitingFor 1, WaitingFor 1]"
proof
  let ?w = "foldl send_step (start_world 1000 300) busy_sends"
  let ?c = "\<lparr>ca_id = 2, ca_key = ''u:b'', ca_state = Sending \<lparr>sc_key = ''u:b'', sc_entry = 1\<rparr>\<rparr>"
  let ?a = "\<lparr>ca_id = 1, ca_key = ''u:a'', ca_state = Answered \<lparr>sr_status = 201, sr_body = 7\<rparr>\<rparr>"
  have c: "?c \<in> set (callers ?w)" and a: "?a \<in> set (callers ?w)" and new: "row_by ca_id 8 (callers ?w) = None" by code_simp+
  have states: "map ca_state (callers ?w) =
    [Sent, Answered \<lparr>sr_status = 201, sr_body = 7\<rparr>, Sending \<lparr>sc_key = ''u:b'', sc_entry = 1\<rparr>, WaitingFor 1]" by code_simp
  note all = sends_are_exclusive [OF refl, of 1000 300 busy_sends]
  show "\<exists>done. (''u:a'', done, \<lparr>sr_status = 201, sr_body = 7\<rparr>) \<in> set (sent ?w)" using all a by force
  have "callers (send_step ?w (9, Arrive 8 (ca_key ?c))) = callers ?w @ [\<lparr>ca_id = 8, ca_key = ca_key ?c, ca_state = WaitingFor 1\<rparr>]"
    using all c new by fastforce
  then show "map ca_state (callers (send_step ?w (9, Arrive 8 ''u:b''))) =
     [Sent, Answered \<lparr>sr_status = 201, sr_body = 7\<rparr>, Sending \<lparr>sc_key = ''u:b'', sc_entry = 1\<rparr>, WaitingFor 1, WaitingFor 1]"
    using states by simp
qed

text \<open>
  A caller that waits is never stranded: either the entry it waits for is settled, and then going on
  takes it off that entry - it owns the send, has an answer, or waits for a newer entry -, or the caller that
  owns the entry is still sending, and completing or giving up, whichever it does and whatever the cache then
  evicts, settles it.
\<close>
theorem no_waiter_is_stranded:
  assumes "w = foldl send_step (start_world n t) ops"
    and "row_by ca_id i (callers w) = Some c" and "ca_state c = WaitingFor m"
  shows "(if m \<in> set (closed (cache w))
          then (case row_by ca_id i (callers (send_step w (now, GoOn i))) of
                  Some c' \<Rightarrow> ca_state c' \<noteq> WaitingFor m | None \<Rightarrow> False)
          else (\<exists>own \<in> set (callers w).
                  ca_state own = Sending \<lparr>sc_key = ca_key c, sc_entry = m\<rparr> \<and>
                  m \<in> set (closed (cache (send_step w (now, Complete (ca_id own) status body)))) \<and>
                  m \<in> set (closed (cache (send_step w (now, Abort (ca_id own)))))))"
proof -
  have ok: "world_ok w" unfolding assms(1) by (rule reached_ok)
  then have S: "callers_ok (pend (cache w)) (set (closed (cache w))) (sent_results w) (set (callers w))"
    and C: "cache_ok (cache w)" and K: "keyed ca_id (callers w)" by (simp_all add: world_ok_def)
  have c: "c \<in> set (callers w)" by (rule row_by_in [OF assms(2)])
  show ?thesis
  proof (cases "m \<in> set (closed (cache w))")
    case True
    obtain d a where acq: "acquire now (ca_key c) (cache w) = (d, a)" by fastforce
    have "a \<noteq> Blocked m" using acquire_facts [OF C acq] C True by (auto simp: pend_def cache_ok_def)
    then have "acquired_state a \<noteq> WaitingFor m" by (cases a) (simp_all add: acquired_state_def)
    then show ?thesis using True assms(2,3) acq row_by_key [OF assms(2)] by (simp add: set_caller_def row_by_rows)
  next
    case False
    then have p: "(ca_key c, m) \<in> pend (cache w)" using callers_each [OF S c] assms(3) by (simp add: caller_ok_def)
    then obtain own where o: "own \<in> set (callers w)" "ca_state own = Sending \<lparr>sc_key = ca_key c, sc_entry = m\<rparr>"
      using callers_owner [OF S] by blast
    then have "row_by ca_id (ca_id own) (callers w) = Some own" using K by (simp add: row_by_SomeI)
    then show ?thesis using False o p complete_facts [OF C _ refl, of "\<lparr>sc_key = ca_key c, sc_entry = m\<rparr>" now status body]
      abort_facts [OF C _ refl, of "\<lparr>sc_key = ca_key c, sc_entry = m\<rparr>"]
      by (auto simp: set_caller_def intro!: bexI [of _ own])
  qed
qed

lemma no_waiter_is_stranded_witness:
  "\<exists>own \<in> set (callers (foldl send_step (start_world 1000 300) busy_sends)).
     ca_state own = Sending \<lparr>sc_key = ''u:b'', sc_entry = 1\<rparr> \<and>
     1 \<in> set (closed (cache (send_step (foldl send_step (start_world 1000 300) busy_sends) (7, Complete (ca_id own) 201 9)))) \<and>
     1 \<in> set (closed (cache (send_step (foldl send_step (start_world 1000 300) busy_sends) (7, Abort (ca_id own)))))"
proof -
  let ?w = "foldl send_step (start_world 1000 300) busy_sends"
  have c: "row_by ca_id 3 (callers ?w) = Some \<lparr>ca_id = 3, ca_key = ''u:b'', ca_state = WaitingFor 1\<rparr>"
    and unsettled: "1 \<notin> set (closed (cache ?w))" by code_simp+
  show ?thesis using no_waiter_is_stranded [OF refl c, of 1 7 201 9] unsettled by (simp del: One_nat_def)
qed

section \<open>How long a result lasts\<close>

text \<open>A result completed at time \<open>t\<close> is still answered from, unless it has expired.\<close>

definition alive :: "'b send_dedupe \<Rightarrow> time \<Rightarrow> string \<Rightarrow> time \<Rightarrow> bool" where
  "alive d clk k t \<longleftrightarrow>
     t + ttl d \<le> clk \<or> (\<exists>x \<in> set (entries d). se_key x = k \<and> se_result x \<noteq> None \<and> se_expires x = t + ttl d)"

lemma alive_pending:
  assumes "cache_ok d" and "(k, n) \<in> pend d" and "alive d clk k t"
  shows "t + ttl d \<le> clk"
proof -
  obtain y where y: "y \<in> set (entries d)" "se_key y = k" "se_result y = None" using assms(2) unfolding pend_iff by blast
  have "se_result x = None" if "x \<in> set (entries d)" "se_key x = k" for x
    using keyed_unique [of se_key "entries d" x y] that y assms(1) by (simp add: cache_ok_def)
  then show ?thesis using assms(3) unfolding alive_def by metis
qed

lemma alive_later: "alive d clk k t \<Longrightarrow> clk \<le> now \<Longrightarrow> alive d now k t"
  by (auto simp: alive_def)

lemma alive_acquire:
  assumes "alive d now k t" and "acquire now key d = (d', a)"
  shows "alive d' now k t \<and> ttl d' = ttl d \<and> capacity d' = capacity d \<and>
         se_key ` set (entries d') \<subseteq> insert key (se_key ` set (entries d))"
proof -
  have "alive (prune_expired now d) now k t" using assms(1) by (force simp: alive_def prune_expired_def row_simps)
  moreover have "se_key x \<in> se_key ` set (entries d)" if "x \<in> set (entries (prune_expired now d))" for x
    using that by (auto simp: prune_expired_def row_simps)
  moreover have "ttl (prune_expired now d) = ttl d" "capacity (prune_expired now d) = capacity d"
    by (simp_all add: prune_expired_def)
  ultimately show ?thesis using assms(2)
    by (fastforce simp: acquire_def Let_def alive_def split: option.splits)
qed

lemma evict_fits: "length xs \<le> n \<Longrightarrow> evict n xs = xs"
  by (subst evict.simps) simp

lemma pend_row:
  assumes "cache_ok d" and "(k, n) \<in> pend d" and "x \<in> set (entries d)" and "se_key x = k"
  shows "se_result x = None"
proof -
  obtain y where y: "y \<in> set (entries d)" "se_key y = k" "se_result y = None" using assms(2) unfolding pend_iff by blast
  then show ?thesis using keyed_unique [of se_key "entries d" x y] assms by (simp add: cache_ok_def)
qed

lemma alive_abort:
  assumes d: "cache_ok d" and p: "(sc_key cl, sc_entry cl) \<in> pend d" and a: "alive d now k t"
  shows "alive (abort_send cl d) now k t"
proof (cases "t + ttl d \<le> now")
  case False
  then obtain x where x: "x \<in> set (entries d)" "se_key x = k" "se_result x \<noteq> None" "se_expires x = t + ttl d"
    using a unfolding alive_def by blast
  then have "k \<noteq> sc_key cl" using pend_row [OF d p x(1)] by auto
  then show ?thesis using x by (auto simp: alive_def abort_send_def row_simps)
qed (simp add: alive_def abort_send_def)

lemma complete_fits:
  assumes d: "cache_ok d" and p: "(sc_key cl, sc_entry cl) \<in> pend d" and fits: "length (entries d) \<le> capacity d"
  shows "entries (complete_send now cl status body d) =
           update_where (\<lambda>x. se_key x = sc_key cl)
             (\<lambda>x. x\<lparr>se_result := Some \<lparr>sr_status = status, sr_body = body\<rparr>, se_expires := now + ttl d\<rparr>) (entries d)"
  using claim_valid_pend [OF d, of cl] p fits
  by (simp add: complete_send_def evict_completed_def evict_fits update_where_def)

lemma complete_keeps [simp]: "ttl (complete_send now cl status body d) = ttl d" "capacity (complete_send now cl status body d) = capacity d"
  by (simp_all add: complete_send_def evict_completed_def)

lemma abort_keeps [simp]: "ttl (abort_send cl d) = ttl d" "capacity (abort_send cl d) = capacity d"
  by (simp_all add: abort_send_def)

lemma alive_complete:
  assumes d: "cache_ok d" and p: "(sc_key cl, sc_entry cl) \<in> pend d" and fits: "length (entries d) \<le> capacity d"
    and a: "alive d now k t"
  shows "alive (complete_send now cl status body d) now k t"
proof (cases "t + ttl d \<le> now")
  case False
  then obtain x where x: "x \<in> set (entries d)" "se_key x = k" "se_result x \<noteq> None" "se_expires x = t + ttl d"
    using a unfolding alive_def by blast
  then have "k \<noteq> sc_key cl" using pend_row [OF d p x(1)] by auto
  then have "x \<in> set (entries (complete_send now cl status body d))"
    unfolding complete_fits [OF d p fits] row_simps using x(1,2) by force
  then show ?thesis using x by (auto simp: alive_def)
qed (simp add: alive_def)

lemma complete_alive:
  assumes d: "cache_ok d" and p: "(sc_key cl, sc_entry cl) \<in> pend d" and fits: "length (entries d) \<le> capacity d"
  shows "alive (complete_send now cl status body d) now (sc_key cl) now"
proof -
  let ?f = "\<lambda>x. x\<lparr>se_result := Some \<lparr>sr_status = status, sr_body = body\<rparr>, se_expires := now + ttl d\<rparr>"
  obtain x where "x \<in> set (entries d)" "se_key x = sc_key cl" using p unfolding pend_iff by blast
  then have "?f x \<in> set (entries (complete_send now cl status body d))"
    unfolding complete_fits [OF d p fits] row_simps by (intro image_eqI [of _ _ x]) simp_all
  then show ?thesis unfolding alive_def complete_keeps
    using \<open>se_key x = sc_key cl\<close> by (intro disjI2 bexI [of _ "?f x"]) simp_all
qed

text \<open>Nothing is evicted while the callers' keys fit into the cache.\<close>

definition timely :: "time \<Rightarrow> 'b send_world \<Rightarrow> bool" where
  "timely clk w \<longleftrightarrow>
     (\<forall>(k, t, r) \<in> set (sent w). alive (cache w) clk k t) \<and>
     sorted_wrt (\<lambda>(k, t, r) (k', t', r'). k = k' \<longrightarrow> t' + ttl (cache w) \<le> t) (sent w) \<and>
     se_key ` set (entries (cache w)) \<subseteq> ca_key ` set (callers w)"

lemma keys_fit:
  assumes "world_ok w" and "timely clk w" and "card (ca_key ` set (callers w)) \<le> capacity (cache w)"
  shows "length (entries (cache w)) \<le> capacity (cache w)"
proof -
  have "distinct (map se_key (entries (cache w)))" using assms(1) by (simp add: world_ok_def cache_ok_def keyed_def)
  then have "length (entries (cache w)) = card (se_key ` set (entries (cache w)))"
    by (metis distinct_card length_map set_map)
  also have "\<dots> \<le> card (ca_key ` set (callers w))" using assms(2) by (intro card_mono) (simp_all add: timely_def)
  finally show ?thesis using assms(3) by simp
qed

text \<open>What a step does to the cache and the log.\<close>

inductive cache_change :: "'b send_world \<Rightarrow> time \<Rightarrow> 'b send_world \<Rightarrow> bool" for w now w' where
  unchanged: "cache w' = cache w \<Longrightarrow> sent w' = sent w \<Longrightarrow> cache_change w now w'"
| acquired: "cache w' = fst (acquire now key (cache w)) \<Longrightarrow> key \<in> ca_key ` set (callers w') \<Longrightarrow> sent w' = sent w \<Longrightarrow>
    cache_change w now w'"
| completed: "(sc_key cl, sc_entry cl) \<in> pend (cache w) \<Longrightarrow> cache w' = complete_send now cl status body (cache w) \<Longrightarrow>
    sent w' = (sc_key cl, now, \<lparr>sr_status = status, sr_body = body\<rparr>) # sent w \<Longrightarrow> cache_change w now w'"
| aborted: "(sc_key cl, sc_entry cl) \<in> pend (cache w) \<Longrightarrow> cache w' = abort_send cl (cache w) \<Longrightarrow> sent w' = sent w \<Longrightarrow>
    cache_change w now w'"

interpretation caller_key: keyed_update ca_key "\<lambda>c. c\<lparr>ca_state := st\<rparr>" for st :: "'b caller_state"
  by unfold_locales simp

lemma set_caller_facts [simp]:
  "cache (set_caller i st w) = cache w" "sent (set_caller i st w) = sent w"
  "ca_key ` set (callers (set_caller i st w)) = ca_key ` set (callers w)"
  by (simp_all add: set_caller_def del: set_update_where)

lemma send_step_keys: "ca_key ` set (callers w) \<subseteq> ca_key ` set (callers (send_step w x))"
  by (cases "(w, x)" rule: send_step.cases)
    (auto simp del: image_subset_iff split: option.splits caller_state.splits prod.splits)

lemma send_step_change:
  assumes ok: "world_ok w"
  shows "cache_change w now (send_step w (now, x))"
proof -
  have pending: "(sc_key cl, sc_entry cl) \<in> pend (cache w) \<and> sc_key cl = ca_key c"
    if "row_by ca_id i (callers w) = Some c" "ca_state c = Sending cl" for i c cl
    using ok callers_sending [OF _ row_by_in [OF that(1)] that(2)] by (auto simp: world_ok_def)
  have key: "ca_key c \<in> ca_key ` set (callers w)" if "row_by ca_id i (callers w) = Some c" for i c
    using row_by_in [OF that] by simp
  show ?thesis
  proof (cases x)
    case (Arrive i key)
    then show ?thesis by (auto split: prod.split intro: unchanged acquired [of _ _ key])
  next
    case (GoOn i)
    show ?thesis
    proof (cases "\<exists>c n. row_by ca_id i (callers w) = Some c \<and> ca_state c = WaitingFor n \<and> n \<in> set (closed (cache w))")
      case True
      then obtain c n where "row_by ca_id i (callers w) = Some c" "ca_state c = WaitingFor n" "n \<in> set (closed (cache w))"
        by blast
      then show ?thesis using GoOn key [of i c] by (auto split: prod.split intro: acquired [of _ _ "ca_key c"])
    qed (use GoOn in \<open>auto split: option.split caller_state.split intro: unchanged\<close>)
  next
    case (Complete i status body)
    show ?thesis
    proof (cases "\<exists>c cl. row_by ca_id i (callers w) = Some c \<and> ca_state c = Sending cl")
      case True
      then obtain c cl where "row_by ca_id i (callers w) = Some c" "ca_state c = Sending cl" by blast
      then show ?thesis using Complete pending [of i c cl] by (intro completed [of cl]) auto
    qed (use Complete in \<open>auto split: option.split caller_state.split intro: unchanged\<close>)
  next
    case (Abort i)
    show ?thesis
    proof (cases "\<exists>c cl. row_by ca_id i (callers w) = Some c \<and> ca_state c = Sending cl")
      case True
      then obtain c cl where "row_by ca_id i (callers w) = Some c" "ca_state c = Sending cl" by blast
      then show ?thesis using Abort pending [of i c cl] by (intro aborted [of cl]) auto
    qed (use Abort in \<open>auto split: option.split caller_state.split intro: unchanged\<close>)
  qed (auto split: option.split caller_state.split intro: unchanged)
qed

lemma timely_step:
  assumes ok: "world_ok w" and t: "timely clk w" and now: "clk \<le> now"
    and fit: "card (ca_key ` set (callers w)) \<le> capacity (cache w)"
  shows "timely now (send_step w (now, x)) \<and> ttl (cache (send_step w (now, x))) = ttl (cache w) \<and>
         capacity (cache (send_step w (now, x))) = capacity (cache w)"
proof -
  let ?w = "send_step w (now, x)"
  have C: "cache_ok (cache w)" using ok by (simp add: world_ok_def)
  have len: "length (entries (cache w)) \<le> capacity (cache w)" by (rule keys_fit [OF ok t fit])
  have old: "alive (cache w) now k d" if "(k, d, r) \<in> set (sent w)" for k d r
    using t that now by (auto simp: timely_def intro: alive_later)
  have keys: "se_key ` set (entries (cache w)) \<subseteq> ca_key ` set (callers ?w)"
    using t send_step_keys [of w "(now, x)"] unfolding timely_def by blast
  have apart: "sorted_wrt (\<lambda>(k, t, r) (k', t', r'). k = k' \<longrightarrow> t' + ttl (cache w) \<le> t) (sent w)"
    using t by (simp add: timely_def)
  from send_step_change [OF ok, of now x] show ?thesis
  proof cases
    case unchanged
    then show ?thesis using old keys apart by (auto simp: timely_def)
  next
    case (acquired key)
    obtain d a where acq: "acquire now key (cache w) = (d, a)" by fastforce
    then have d: "cache ?w = d" using acquired by simp
    note f = alive_acquire [OF _ acq]
    have "alive d now k u" if "(k, u, r) \<in> set (sent w)" for k u r using f [OF old [OF that]] by blast
    moreover have "alive (cache w) now k (now - ttl (cache w))" for k by (simp add: alive_def)
    then have "ttl d = ttl (cache w) \<and> capacity d = capacity (cache w) \<and>
        se_key ` set (entries d) \<subseteq> insert key (se_key ` set (entries (cache w)))" using f by blast
    moreover from this have "se_key ` set (entries d) \<subseteq> ca_key ` set (callers ?w)" using keys acquired(2) by blast
    ultimately show ?thesis using d apart unfolding timely_def acquired(3) d by auto
  next
    case (completed cl status body)
    have c: "entries (cache ?w) = update_where (\<lambda>x. se_key x = sc_key cl)
        (\<lambda>x. x\<lparr>se_result := Some \<lparr>sr_status = status, sr_body = body\<rparr>, se_expires := now + ttl (cache w)\<rparr>) (entries (cache w))"
      using complete_fits [OF C completed(1) len] completed(2) by simp
    have "alive (cache ?w) now k u" if "(k, u, r) \<in> set (sent ?w)" for k u r
      using that completed old alive_complete [OF C completed(1) len] complete_alive [OF C completed(1) len] by auto
    moreover have "u + ttl (cache w) \<le> now" if "(sc_key cl, u, r) \<in> set (sent w)" for u r
      by (rule alive_pending [OF C completed(1) old [OF that]])
    moreover have "se_key ` set (entries (cache ?w)) = se_key ` set (entries (cache w))"
      unfolding c by (rule keyed_update.key_image_update) (unfold_locales, simp)
    ultimately show ?thesis using completed apart keys unfolding timely_def by (auto split: prod.splits)
  next
    case (aborted cl)
    have "alive (cache ?w) now k u" if "(k, u, r) \<in> set (sent w)" for k u r
      using aborted alive_abort [OF C aborted(1) old [OF that]] by simp
    moreover have "se_key ` set (entries (cache ?w)) \<subseteq> ca_key ` set (callers ?w)"
      using aborted(2) keys by (auto simp: abort_send_def row_simps)
    ultimately show ?thesis using apart unfolding timely_def aborted by auto
  qed
qed

lemma send_steps_keys: "ca_key ` set (callers w) \<subseteq> ca_key ` set (callers (foldl send_step w ops))"
proof (induction ops arbitrary: w)
  case (Cons x ops)
  then show ?case using send_step_keys [of w x] by fastforce
qed simp

lemma timely_steps:
  "world_ok w \<Longrightarrow> timely clk w \<Longrightarrow> sorted (clk # map fst ops) \<Longrightarrow>
   card (ca_key ` set (callers (foldl send_step w ops))) \<le> capacity (cache w) \<Longrightarrow>
   \<exists>clk'. timely clk' (foldl send_step w ops) \<and> ttl (cache (foldl send_step w ops)) = ttl (cache w)"
proof (induction ops arbitrary: w clk)
  case (Cons x ops)
  obtain now y where x: "x = (now, y)" by fastforce
  let ?w = "send_step w (now, y)"
  have "card (ca_key ` set (callers w)) \<le> card (ca_key ` set (callers (foldl send_step w (x # ops))))"
    by (rule card_mono [OF _ send_steps_keys]) simp
  then have step: "timely now ?w \<and> ttl (cache ?w) = ttl (cache w) \<and> capacity (cache ?w) = capacity (cache w)"
    using Cons.prems x by (intro timely_step [OF Cons.prems(1,2)]) auto
  have "\<exists>clk'. timely clk' (foldl send_step ?w ops) \<and> ttl (cache (foldl send_step ?w ops)) = ttl (cache ?w)"
    by (rule Cons.IH [where clk = now]) (use step Cons.prems x send_step_ok in auto)
  then show ?case using step x by simp
qed auto

text \<open>
  As long as the clock does not run backwards and the keys in use fit into the cache, a send that was
  completed is not repeated before its result expires: two completed sends of one key are at least the
  cache's time to live apart, however callers arrive, wait, give up and retry in between.
\<close>
theorem completed_send_is_not_repeated:
  assumes "w = foldl send_step (start_world n t) ops" and "sorted (map fst ops)"
    and "card (ca_key ` set (callers w)) \<le> n"
    and "sent w = newer @ (k, late, r') # since @ (k, early, r) # older"
  shows "early + t \<le> late"
proof (cases ops)
  case (Cons x xs)
  have start: "timely (fst x) (start_world n t :: 'a send_world)"
    by (simp add: timely_def start_world_def new_send_dedupe_def)
  have cap: "capacity (cache (start_world n t :: 'a send_world)) = n" "ttl (cache (start_world n t :: 'a send_world)) = t"
    by (simp_all add: start_world_def new_send_dedupe_def)
  obtain clk where "timely clk w" "ttl (cache w) = t"
    using timely_steps [OF start_world_ok start, of ops] assms(1-3) Cons cap by auto
  then show ?thesis unfolding timely_def assms(4) by (simp add: sorted_wrt_append)
qed (use assms in \<open>simp add: start_world_def\<close>)

definition spaced_sends :: "(time \<times> nat send_op) list" where
  "spaced_sends = [(0, Arrive 0 ''u:a''), (1, Complete 0 201 5), (11, Arrive 1 ''u:a''), (12, Complete 1 201 6)]"

lemma completed_send_is_not_repeated_witness:
  "map (\<lambda>(k, t, r). t) (sent (foldl send_step (start_world 2 10) spaced_sends)) = [12, 1] \<and> (1::time) + 10 \<le> 12"
proof -
  let ?w = "foldl send_step (start_world 2 10) spaced_sends"
  have sent: "sent ?w = [] @ (''u:a'', 12, \<lparr>sr_status = 201, sr_body = 6\<rparr>) # [] @ (''u:a'', 1, \<lparr>sr_status = 201, sr_body = 5\<rparr>) # []"
    and sorted: "sorted (map fst spaced_sends)" and fit: "card (ca_key ` set (callers ?w)) \<le> 2"
    by code_simp+
  show ?thesis using completed_send_is_not_repeated [OF refl sorted fit sent] sent by simp
qed

section \<open>When the cache is too small\<close>

definition sized :: "nat \<Rightarrow> 'b send_world \<Rightarrow> bool" where
  "sized n w \<longleftrightarrow> capacity (cache w) = n \<and> se_key ` set (entries (cache w)) \<subseteq> ca_key ` set (callers w)"

lemma acquire_sized:
  "capacity (fst (acquire now key d)) = capacity d \<and>
   se_key ` set (entries (fst (acquire now key d))) \<subseteq> insert key (se_key ` set (entries d))"
  using alive_acquire [of d now key "now - ttl d" key] by (cases "acquire now key d") (simp add: alive_def)

lemma complete_sized:
  assumes "cache_ok d"
  shows "se_key ` set (entries (complete_send now cl status body d)) \<subseteq> se_key ` set (entries d)"
proof -
  let ?f = "\<lambda>x. x\<lparr>se_result := Some \<lparr>sr_status = status, sr_body = body\<rparr>, se_expires := now + ttl d\<rparr>"
  let ?xs = "update_where (\<lambda>x. se_key x = sc_key cl) ?f (entries d)"
  have "keyed se_key ?xs" using assms by (simp add: cache_ok_def keyed_rows)
  then have "set (evict (capacity d) ?xs) \<subseteq> set ?xs" using evict_kept [of ?xs "capacity d"] by blast
  moreover have "se_key ` set ?xs = se_key ` set (entries d)"
    by (rule keyed_update.key_image_update) (unfold_locales, simp)
  ultimately have "se_key ` set (evict (capacity d) ?xs) \<subseteq> se_key ` set (entries d)" by blast
  then show ?thesis by (simp add: complete_send_def evict_completed_def)
qed

lemma sized_step:
  assumes ok: "world_ok w" and s: "sized n w"
  shows "sized n (send_step w (now, x))"
proof -
  let ?w = "send_step w (now, x)"
  have keys: "se_key ` set (entries (cache w)) \<subseteq> ca_key ` set (callers ?w)" and n: "capacity (cache w) = n"
    using s send_step_keys [of w "(now, x)"] unfolding sized_def by blast+
  from send_step_change [OF ok, of now x] show ?thesis
  proof cases
    case unchanged
    then show ?thesis using keys n by (simp add: sized_def)
  next
    case (acquired key)
    then show ?thesis using keys n acquire_sized [of now key "cache w"] unfolding sized_def acquired(1) by blast
  next
    case (completed cl status body)
    then show ?thesis using keys n complete_sized [of "cache w" now cl status body] ok
      unfolding sized_def world_ok_def completed(2) complete_keeps by blast
  next
    case (aborted cl)
    have "se_key ` set (entries (abort_send cl (cache w))) \<subseteq> se_key ` set (entries (cache w))"
      by (auto simp: abort_send_def row_simps)
    then show ?thesis using keys n unfolding sized_def aborted(2) abort_keeps by blast
  qed
qed

lemma sized_steps: "world_ok w \<Longrightarrow> sized n w \<Longrightarrow> sized n (foldl send_step w ops)"
proof (induction ops arbitrary: w)
  case (Cons x ops)
  show ?case
    using Cons(1) [OF send_step_ok [OF Cons(2)] sized_step [OF Cons(2,3)], of "fst x" "snd x"] by simp
qed simp

lemma pending_settled:
  assumes d: "cache_ok d" and p: "(k, n) \<in> pend d" and f: "\<And>x. se_result (f x) \<noteq> None"
  shows "length (filter (\<lambda>x. se_result x = None) (entries d)) =
         Suc (length (filter (\<lambda>x. se_result x = None) (update_where (\<lambda>x. se_key x = k) f (entries d))))"
proof -
  have "length (filter (\<lambda>x. se_result x = None) xs) =
      Suc (length (filter (\<lambda>x. se_result x = None) (update_where (\<lambda>x. se_key x = k) f xs)))"
    if "keyed se_key xs" "\<exists>x \<in> set xs. se_key x = k \<and> se_result x = None" for xs
    using that
  proof (induction xs)
    case (Cons x xs)
    show ?case
    proof (cases "se_key x = k")
      case True
      then have "k \<notin> se_key ` set xs" using Cons.prems(1) by (auto simp: keyed_def)
      moreover from this have "se_result x = None" using Cons.prems(2) by auto
      moreover have "update_where (\<lambda>x. se_key x = k) f xs = xs"
        using \<open>k \<notin> se_key ` set xs\<close> by (induction xs) (auto simp: update_where_def)
      ultimately show ?thesis using True f by (simp add: update_where_def)
    next
      case False
      then show ?thesis using Cons by (auto simp: update_where_def keyed_def)
    qed
  qed simp
  then show ?thesis using d p unfolding pend_iff cache_ok_def by blast
qed

lemma evict_crowded:
  assumes keys: "keyed se_key xs" "[] \<notin> se_key ` set xs" and crowd: "n \<le> length (filter (\<lambda>x. se_result x = None) xs)"
    and x: "x \<in> set (evict n xs)"
  shows "se_result x = None"
proof (cases "length (evict n xs) \<le> n")
  case True
  let ?p = "filter (\<lambda>x. se_result x = None) xs"
  have sub: "set ?p \<subseteq> set (evict n xs)" using evict_kept [OF keys(1), of n] by auto
  have "distinct xs" using keys(1) unfolding keyed_def by (simp add: distinct_map)
  then have "card (set ?p) = length ?p" by (intro distinct_card distinct_filter)
  then have "card (set (evict n xs)) \<le> card (set ?p)" using True crowd card_length [of "evict n xs"] by linarith
  then have "set (evict n xs) = set ?p" using sub card_seteq [OF _ sub] by simp
  then show ?thesis using x by simp
next
  case False
  then show ?thesis using evict_bound [OF keys, of n] x by blast
qed

text \<open>
  When the cache has to make room, it drops completed results and never a send in progress: after a
  completion the cache holds at most its capacity or sends in progress alone. So when as many other sends
  are in progress as the cache has room for, the result that was just completed is among those dropped, and
  the next caller with the same key sends the message a second time instead of receiving it.
\<close>
theorem crowded_completion_resends:
  assumes "w = foldl send_step (start_world n t) ops" and "[] \<notin> ca_key ` set (callers w)"
    and "row_by ca_id i (callers w) = Some c" and "ca_state c = Sending cl"
    and "n < length (filter (\<lambda>x. se_result x = None) (entries (cache w)))" and "w' = send_step w (now, Complete i status body)"
  shows "(\<forall>x \<in> set (entries (cache w)). se_result x = None \<and> se_key x \<noteq> ca_key c \<longrightarrow> x \<in> set (entries (cache w'))) \<and>
         (\<exists>cl'. snd (acquire later (ca_key c) (cache w')) = Claimed cl')"
proof -
  let ?d = "cache w" and ?k = "ca_key c"
  let ?f = "\<lambda>x. x\<lparr>se_result := Some \<lparr>sr_status = status, sr_body = body\<rparr>, se_expires := now + ttl ?d\<rparr>"
  let ?xs = "update_where (\<lambda>x. se_key x = ?k) ?f (entries ?d)"
  have ok: "world_ok w" unfolding assms(1) by (rule reached_ok)
  have sized: "sized n w" unfolding assms(1)
    by (rule sized_steps [OF start_world_ok]) (simp add: sized_def start_world_def new_send_dedupe_def)
  have C: "cache_ok ?d" using ok by (simp add: world_ok_def)
  have cl: "sc_key cl = ?k" "(?k, sc_entry cl) \<in> pend ?d"
    using ok callers_sending [OF _ row_by_in [OF assms(3)] assms(4)] by (auto simp: world_ok_def)
  have entries: "entries (cache w') = evict n ?xs"
    using assms(3,4,6) claim_valid_pend [OF C, of cl] cl sized
    by (simp add: complete_send_def evict_completed_def sized_def)
  have keys: "keyed se_key ?xs" using C by (simp add: cache_ok_def keyed_rows)
  moreover have "se_key ` set ?xs = se_key ` set (entries ?d)"
    by (rule keyed_update.key_image_update) (unfold_locales, simp)
  then have "[] \<notin> se_key ` set ?xs" using assms(2) sized unfolding sized_def by auto
  moreover have "n \<le> length (filter (\<lambda>x. se_result x = None) ?xs)"
    using pending_settled [OF C cl(2), of "?f"] assms(5) by simp
  ultimately have pending: "se_result x = None" if "x \<in> set (entries (cache w'))" for x
    using that evict_crowded unfolding entries by blast
  have "x \<in> set (entries (cache w'))" if "x \<in> set (entries ?d)" "se_result x = None" "se_key x \<noteq> ?k" for x
  proof -
    have "x \<in> set ?xs" using that unfolding row_simps by force
    then show ?thesis using evict_kept [OF keys, of n] that unfolding entries by blast
  qed
  moreover have "?k \<notin> se_key ` set (entries (cache w'))"
  proof
    assume "?k \<in> se_key ` set (entries (cache w'))"
    then obtain x where x: "x \<in> set (entries (cache w'))" "se_key x = ?k" by auto
    then have "x \<in> set ?xs" using evict_kept [OF keys, of n] unfolding entries by blast
    then have "se_result x \<noteq> None" using x(2) unfolding row_simps by auto
    then show False using pending [OF x(1)] by simp
  qed
  then have "row_by se_key ?k (entries (prune_expired later (cache w'))) = None"
    by (auto simp: row_by_None prune_expired_def row_simps)
  ultimately show ?thesis by (auto simp: acquire_def Let_def)
qed

definition crowded_sends :: "(time \<times> nat send_op) list" where
  "crowded_sends = [(1, Arrive 0 ''u:a''), (2, Arrive 1 ''u:b''), (3, Arrive 2 ''u:c''), (4, Arrive 3 ''u:a'')]"

lemma crowded_completion_resends_witness:
  "let w' = send_step (foldl send_step (start_world 2 300) crowded_sends) (5, Complete 0 201 7)
   in (\<exists>cl. snd (acquire 6 ''u:a'' (cache w')) = Claimed cl) \<and>
      map ca_state (callers (send_step w' (6, GoOn 3))) =
        [Sent, Sending \<lparr>sc_key = ''u:b'', sc_entry = 1\<rparr>, Sending \<lparr>sc_key = ''u:c'', sc_entry = 2\<rparr>,
         Sending \<lparr>sc_key = ''u:a'', sc_entry = 3\<rparr>]"
proof -
  let ?w = "foldl send_step (start_world 2 300) crowded_sends"
  have keys: "[] \<notin> ca_key ` set (callers ?w)"
    and c: "row_by ca_id 0 (callers ?w) = Some \<lparr>ca_id = 0, ca_key = ''u:a'', ca_state = Sending \<lparr>sc_key = ''u:a'', sc_entry = 0\<rparr>\<rparr>"
    and crowd: "2 < length (filter (\<lambda>x. se_result x = None) (entries (cache ?w)))"
    and states: "map ca_state (callers (send_step (send_step ?w (5, Complete 0 201 7)) (6, GoOn 3))) =
        [Sent, Sending \<lparr>sc_key = ''u:b'', sc_entry = 1\<rparr>, Sending \<lparr>sc_key = ''u:c'', sc_entry = 2\<rparr>,
         Sending \<lparr>sc_key = ''u:a'', sc_entry = 3\<rparr>]"
    by code_simp+
  show ?thesis using crowded_completion_resends [OF refl keys c _ crowd refl] states by (simp add: Let_def)
qed

end
