(* ===== verification/Wake_Routing.thy ===== *)
theory Wake_Routing
  imports Go_Prelude "HOL-Library.Char_ord" "HOL-Library.List_Lexorder" "HOL-Library.Product_Lexorder"
begin

text \<open>
  Which agents a new message wakes (\<open>service/agent_wake_routing.go\<close>, \<open>filterAttention\<close> of
  \<open>service/agent_work.go\<close>): the coordinator search on the relationship graph, the choice between mentioned
  agents, coordinator, thread participants and recently involved agents, and the queries that feed it.

  Of the tables the records hold the columns that routing, the queue of message wakes and the freshness check
  read; \<open>wk_members\<close> lists the channels and the agents that are their members. The Go maps \<open>nodes\<close>, \<open>reachable\<close>, \<open>seen\<close> and \<open>allowed\<close> are sets, modelled by lists without regard to order;
  \<open>indegree\<close> is a function, zero where the map has no key. \<open>uniqueCoordinatorID\<close> ranges over a map only to
  collect the roots, whose order is not looked at.
\<close>

section \<open>Identifiers and edges\<close>

record relationship_edge =
  edge_from :: id
  edge_to :: id

fun keep_once :: "id list \<Rightarrow> id list \<Rightarrow> id list \<Rightarrow> id list" where
  "keep_once allowed seen [] = []"
| "keep_once allowed seen (x # xs) =
     (if x \<in> set allowed \<and> x \<notin> set seen then x # keep_once allowed (x # seen) xs else keep_once allowed seen xs)"

definition intersect_in_order :: "id list \<Rightarrow> id list \<Rightarrow> id list" where
  "intersect_in_order order allowed_ids = keep_once allowed_ids [] order"

definition exclude_id :: "id list \<Rightarrow> id \<Rightarrow> id list" where
  "exclude_id ids excluded = filter (\<lambda>x. x \<noteq> excluded) ids"

definition contains_id :: "id list \<Rightarrow> id \<Rightarrow> bool" where
  "contains_id ids target \<longleftrightarrow> target \<noteq> [] \<and> target \<in> set ids"

section \<open>The relationship graph of the active agents\<close>

text \<open>The two tests on an edge, one pass of the loop over all edges, and whether they reached anything new.\<close>

definition reach_edge :: "relationship_edge \<Rightarrow> id list \<Rightarrow> id list \<times> bool" where
  "reach_edge e r =
     (let (r1, c1) = (if edge_from e \<in> set r \<and> edge_to e \<notin> set r then (edge_to e # r, True) else (r, False));
          (r2, c2) = (if edge_to e \<in> set r1 \<and> edge_from e \<notin> set r1 then (edge_from e # r1, True) else (r1, False))
      in (r2, c1 \<or> c2))"

fun grow_pass :: "relationship_edge list \<Rightarrow> id list \<Rightarrow> id list \<times> bool" where
  "grow_pass [] r = (r, False)"
| "grow_pass (e # es) r =
     (let (r1, c1) = reach_edge e r; (r2, c2) = grow_pass es r1 in (r2, c1 \<or> c2))"

definition endpoints :: "relationship_edge list \<Rightarrow> id set" where
  "endpoints es = edge_from ` set es \<union> edge_to ` set es"

definition linked :: "relationship_edge \<Rightarrow> id list \<Rightarrow> bool" where
  "linked e r \<longleftrightarrow> edge_from e \<in> set r \<or> edge_to e \<in> set r"

lemma reach_edge_set:
  "set (fst (reach_edge e r)) = (if linked e r then {edge_from e, edge_to e} \<union> set r else set r)"
  by (auto simp: reach_edge_def linked_def)

lemma reach_edge_changed: "snd (reach_edge e r) \<longleftrightarrow> linked e r \<and> \<not> {edge_from e, edge_to e} \<subseteq> set r"
  by (auto simp: reach_edge_def linked_def)

lemma reach_edge_same: "\<not> snd (reach_edge e r) \<Longrightarrow> fst (reach_edge e r) = r"
  by (auto simp: reach_edge_def split: if_splits)

lemma grow_pass_Cons:
  "fst (grow_pass (e # es) r) = fst (grow_pass es (fst (reach_edge e r)))"
  "snd (grow_pass (e # es) r) \<longleftrightarrow> snd (reach_edge e r) \<or> snd (grow_pass es (fst (reach_edge e r)))"
  by (simp_all add: case_prod_unfold Let_def)

lemmas [simp del] = grow_pass.simps(2)
lemmas [simp] = grow_pass_Cons

lemma grow_pass_mono: "set r \<subseteq> set (fst (grow_pass es r))"
proof (induction es arbitrary: r)
  case (Cons e es)
  show ?case using Cons [of "fst (reach_edge e r)"] by (auto simp: reach_edge_set split: if_splits)
qed simp

lemma grow_pass_same: "\<not> snd (grow_pass es r) \<Longrightarrow> fst (grow_pass es r) = r"
  by (induction es arbitrary: r) (auto simp: reach_edge_same)

lemma grow_pass_new: "snd (grow_pass es r) \<Longrightarrow> \<exists>x \<in> endpoints es. x \<notin> set r \<and> x \<in> set (fst (grow_pass es r))"
proof (induction es arbitrary: r)
  case (Cons e es)
  let ?r = "fst (reach_edge e r)"
  show ?case
  proof (cases "snd (reach_edge e r)")
    case True
    then have "\<exists>x \<in> endpoints (e # es). x \<notin> set r \<and> x \<in> set ?r"
      by (auto simp: reach_edge_set reach_edge_changed endpoints_def)
    then show ?thesis using grow_pass_mono [of ?r es] by auto
  next
    case False
    then obtain x where "x \<in> endpoints es" "x \<notin> set ?r" "x \<in> set (fst (grow_pass es ?r))"
      using Cons.prems Cons.IH [of ?r] by auto
    then show ?thesis using reach_edge_same [OF False] by (auto simp: endpoints_def)
  qed
qed simp

function grow :: "relationship_edge list \<Rightarrow> id list \<Rightarrow> id list" where
  "grow es r = (let (r', changed) = grow_pass es r in if changed then grow es r' else r')"
  by pat_completeness auto

termination
proof (relation "measure (\<lambda>(es, r). card (endpoints es - set r))")
  fix es r r' changed x
  assume x: "x = grow_pass es r" "(r', changed) = x" "changed"
  have fin: "finite (endpoints es - set r)" by (simp add: endpoints_def)
  have r': "fst (grow_pass es r) = r'" "snd (grow_pass es r)" using x by (metis fst_conv, metis snd_conv)
  then have "endpoints es - set r' \<subset> endpoints es - set r"
    using grow_pass_new [of es r] grow_pass_mono [of r es] by blast
  then have "card (endpoints es - set r') < card (endpoints es - set r)" by (rule psubset_card_mono [OF fin])
  then show "((es, r'), (es, r)) \<in> measure (\<lambda>(es, r). card (endpoints es - set r))" by simp
qed simp

lemmas [simp del] = grow.simps

definition add_unseen :: "id \<Rightarrow> id list \<Rightarrow> id list" where
  "add_unseen x nodes = (if x \<in> set nodes then nodes else nodes @ [x])"

fun graph_nodes :: "relationship_edge list \<Rightarrow> id list \<Rightarrow> id list" where
  "graph_nodes [] nodes = nodes"
| "graph_nodes (e # es) nodes = graph_nodes es (add_unseen (edge_to e) (add_unseen (edge_from e) nodes))"

definition relationship_graph_for_active ::
  "id list \<Rightarrow> relationship_edge list \<Rightarrow> id list \<times> relationship_edge list" where
  "relationship_graph_for_active active_ids all_edges =
     (let reachable = grow all_edges active_ids;
          edges = filter (\<lambda>e. edge_from e \<in> set reachable \<and> edge_to e \<in> set reachable) all_edges
      in (graph_nodes edges active_ids, edges))"

section \<open>The coordinator\<close>

fun indegrees :: "id list \<Rightarrow> relationship_edge list \<Rightarrow> (id \<Rightarrow> int) \<Rightarrow> id \<Rightarrow> int" where
  "indegrees nodes [] deg = deg"
| "indegrees nodes (e # es) deg =
     (if edge_from e \<notin> set nodes \<or> edge_to e \<notin> set nodes then indegrees nodes es deg
      else indegrees nodes es (deg(edge_to e := deg (edge_to e) + 1)))"

definition adjacent :: "id list \<Rightarrow> relationship_edge list \<Rightarrow> id \<Rightarrow> id list" where
  "adjacent nodes edges x =
     map edge_to (filter (\<lambda>e. edge_from e \<in> set nodes \<and> edge_to e \<in> set nodes \<and> edge_from e = x) edges)"

fun settle_next :: "id list \<Rightarrow> (id \<Rightarrow> int) \<Rightarrow> (id \<Rightarrow> int) \<times> id list" where
  "settle_next [] deg = (deg, [])"
| "settle_next (n # ns) deg =
     (let deg1 = deg(n := deg n - 1); (deg2, ready) = settle_next ns deg1
      in (deg2, if deg1 n = 0 then n # ready else ready))"

text \<open>The loop over the queue, answering how many nodes it visited.\<close>

lemma settle_measure:
  "finite T \<Longrightarrow> set ns \<subseteq> T \<Longrightarrow> settle_next ns deg = (deg', ready) \<Longrightarrow>
   length ready + (\<Sum>v\<in>T. nat (deg' v)) \<le> (\<Sum>v\<in>T. nat (deg v))"
proof (induction ns arbitrary: deg deg' ready)
  case (Cons n ns)
  let ?deg1 = "deg(n := deg n - 1)"
  obtain deg2 ready2 where next': "settle_next ns ?deg1 = (deg2, ready2)" by fastforce
  have IH: "length ready2 + (\<Sum>v\<in>T. nat (deg2 v)) \<le> (\<Sum>v\<in>T. nat (?deg1 v))"
    by (rule Cons.IH [OF Cons.prems(1) _ next']) (use Cons.prems(2) in simp)
  have n: "n \<in> T" using Cons.prems(2) by simp
  have "(\<Sum>v\<in>T. nat (deg v)) = nat (deg n) + (\<Sum>v\<in>T - {n}. nat (deg v))"
    by (rule sum.remove [OF Cons.prems(1) n])
  moreover have "(\<Sum>v\<in>T. nat (?deg1 v)) = nat (deg n - 1) + (\<Sum>v\<in>T - {n}. nat (deg v))"
    by (subst sum.remove [OF Cons.prems(1) n]) simp
  moreover have "deg' = deg2" "ready = (if deg n - 1 = 0 then n # ready2 else ready2)"
    using Cons.prems(3) next' by (auto simp: Let_def split: if_splits)
  ultimately show ?case using IH by (cases "deg n - 1 = 0") auto
qed simp

function kahn :: "id list \<Rightarrow> relationship_edge list \<Rightarrow> id list \<Rightarrow> (id \<Rightarrow> int) \<Rightarrow> nat" where
  "kahn nodes edges [] deg = 0"
| "kahn nodes edges (x # queue) deg =
     (let (deg', ready) = settle_next (adjacent nodes edges x) deg in Suc (kahn nodes edges (queue @ ready) deg'))"
  by pat_completeness auto

termination
proof (relation "measure (\<lambda>(nodes, edges, queue, deg). length queue + (\<Sum>v\<in>edge_to ` set edges. nat (deg v)))")
  fix nodes edges x queue and deg :: "id \<Rightarrow> int" and p deg' ready
  assume p: "p = settle_next (adjacent nodes edges x) deg" "(deg', ready) = p"
  have "length ready + (\<Sum>v\<in>edge_to ` set edges. nat (deg' v)) \<le> (\<Sum>v\<in>edge_to ` set edges. nat (deg v))"
    using p by (intro settle_measure) (auto simp: adjacent_def)
  then show "((nodes, edges, queue @ ready, deg'), (nodes, edges, x # queue, deg))
      \<in> measure (\<lambda>(nodes, edges, queue, deg). length queue + (\<Sum>v\<in>edge_to ` set edges. nat (deg v)))" by simp
qed simp

definition unique_coordinator_id :: "id list \<Rightarrow> relationship_edge list \<Rightarrow> id list \<Rightarrow> id" where
  "unique_coordinator_id node_ids edges active_ids =
     (if edges = [] then []
      else let nodes = remdups (filter (\<lambda>x. x \<noteq> []) node_ids) in
           if nodes = [] then []
           else let deg = indegrees nodes edges (\<lambda>_. 0);
                    roots = filter (\<lambda>x. deg x = 0) nodes in
                if length roots \<noteq> 1 then []
                else if kahn nodes edges [hd roots] deg \<noteq> length nodes \<or> \<not> contains_id active_ids (hd roots) then []
                else hd roots)"

section \<open>The choice\<close>

datatype wake_scope = WakeChannel | WakeTask | WakeThread

datatype wake_reason =
    ExplicitMention | UnresolvedMention | UniqueCoordinator | SmallTeamFanout | RecentWindow
  | ThreadCoordinator | ThreadRecentParticipant | ThreadRootAgent | ThreadChannelCoordinator
  | ThreadRecentChannelAgent | DeterministicFirst | NoActiveAgent

record wake_facts =
  wf_scope :: wake_scope
  wf_active :: "id list"
  wf_mentioned :: "id list"
  wf_has_mentions :: bool
  wf_nodes :: "id list"
  wf_edges :: "relationship_edge list"
  wf_recent :: "id list"
  wf_participants :: "id list"
  wf_root :: id

type_synonym wake_decision = "id list \<times> wake_reason"

definition wakeSmallTeamThreshold :: nat where "wakeSmallTeamThreshold = 4"
definition wakeRecentWindowSize :: nat where "wakeRecentWindowSize = 20"

definition select_thread :: "wake_facts \<Rightarrow> id \<Rightarrow> wake_decision" where
  "select_thread f coordinator =
     (let participants = intersect_in_order (wf_participants f) (wf_active f);
          recent = intersect_in_order (wf_recent f) (wf_active f)
      in if participants \<noteq> [] then
           (if contains_id participants coordinator then ([coordinator], ThreadCoordinator)
            else (take 1 participants, ThreadRecentParticipant))
         else if contains_id (wf_active f) (wf_root f) then ([wf_root f], ThreadRootAgent)
         else if coordinator \<noteq> [] then ([coordinator], ThreadChannelCoordinator)
         else if recent \<noteq> [] then (take 1 recent, ThreadRecentChannelAgent)
         else (take 1 (wf_active f), DeterministicFirst))"

definition select_channel :: "wake_facts \<Rightarrow> id \<Rightarrow> wake_decision" where
  "select_channel f coordinator =
     (let recent = intersect_in_order (wf_recent f) (wf_active f)
      in if coordinator \<noteq> [] then ([coordinator], UniqueCoordinator)
         else if length (wf_active f) < wakeSmallTeamThreshold then (wf_active f, SmallTeamFanout)
         else if recent \<noteq> [] then (recent, RecentWindow)
         else (take 1 (wf_active f), DeterministicFirst))"

definition select_wake_decision :: "wake_facts \<Rightarrow> wake_decision" where
  "select_wake_decision f =
     (if wf_active f = [] then ([], NoActiveAgent)
      else if wf_mentioned f \<noteq> [] then
        (let ids = intersect_in_order (wf_active f) (wf_mentioned f)
         in if ids = [] then ([], UnresolvedMention) else (ids, ExplicitMention))
      else if wf_has_mentions f then ([], UnresolvedMention)
      else (let coordinator = unique_coordinator_id (wf_nodes f) (wf_edges f) (wf_active f)
            in if wf_scope f = WakeThread then select_thread f coordinator else select_channel f coordinator))"

section \<open>The tables it reads\<close>

datatype attention = AttendAll | AttendMentions | AttendNothing

record wake_agent =
  wa_id :: id
  wa_active :: bool
  wa_policy :: attention

record channel_attention =
  at_agent :: id
  at_channel :: id
  at_policy :: attention

record thread_subscription =
  ts_thread :: id
  ts_actor :: id
  ts_followed :: bool

record wake_message =
  wm_id :: id
  wm_seq :: int
  wm_deleted :: bool
  wm_channel :: id
  wm_thread :: "id option"
  wm_node :: "id option"
  wm_sender_type :: string
  wm_sender :: id
  wm_mentioned :: "id list option"
  wm_created :: time
  wm_correction :: "id option"
  wm_run :: "id option"

abbreviation wm_by_agent :: "wake_message \<Rightarrow> bool" where
  "wm_by_agent m \<equiv> wm_sender_type m = ''agent''"

record wake_thread =
  wt_id :: id
  wt_root :: id

record wake_task =
  wt_message :: "id option"
  wt_claimer :: "id option"

record wake_run =
  wr_id :: id
  wr_agent :: id

record relationship_scope =
  rs_channel :: id
  rs_edge :: relationship_edge
  rs_assigns :: bool

record wake_channel =
  wc_id :: id
  wc_archived :: bool
  wc_lockfile :: "(relationship_edge \<times> bool) list option"

record wake_db =
  wk_agents :: "wake_agent list"
  wk_attention :: "channel_attention list"
  wk_subscriptions :: "thread_subscription list"
  wk_messages :: "wake_message list"
  wk_threads :: "wake_thread list"
  wk_tasks :: "wake_task list"
  wk_runs :: "wake_run list"
  wk_scopes :: "relationship_scope list"
  wk_channels :: "wake_channel list"
  wk_members :: "(id \<times> id) list"

text \<open>A channel with a team version takes the edges of its lockfile instead of the scoped relationships.\<close>

definition versioned :: "wake_db \<Rightarrow> id \<Rightarrow> bool" where
  "versioned d ch \<longleftrightarrow> (case row_by wc_id ch (wk_channels d) of Some c \<Rightarrow> wc_lockfile c \<noteq> None | None \<Rightarrow> False)"

definition lockfile_edges :: "wake_db \<Rightarrow> id \<Rightarrow> relationship_edge list" where
  "lockfile_edges d ch =
     (case row_by wc_id ch (wk_channels d) of
        Some c \<Rightarrow> (case wc_lockfile c of Some es \<Rightarrow> map fst (filter snd es) | None \<Rightarrow> [])
      | None \<Rightarrow> [])"

definition wake_relationship_edges :: "wake_db \<Rightarrow> id \<Rightarrow> relationship_edge list" where
  "wake_relationship_edges d ch =
     map rs_edge (filter (\<lambda>r. rs_assigns r \<and> (ch = [] \<or> rs_channel r = ch) \<and> \<not> versioned d ch) (wk_scopes d)) @
     lockfile_edges d ch"

text \<open>The last twenty messages of the channel, the newest first, and who was involved in each.\<close>

definition recent_messages :: "wake_db \<Rightarrow> id \<Rightarrow> id \<Rightarrow> wake_message list" where
  "recent_messages d ch excluded =
     take wakeRecentWindowSize
       (rev (sort_key (\<lambda>m. (wm_created m, wm_id m))
          (filter (\<lambda>m. wm_channel m = ch \<and> wm_thread m = None \<and> wm_node m = None \<and> (excluded = [] \<or> wm_id m \<noteq> excluded))
            (wk_messages d))))"

definition involved :: "wake_db \<Rightarrow> wake_message \<Rightarrow> id list" where
  "involved d m =
     (if wm_by_agent m then [wm_sender m] else []) @
     (case wm_mentioned m of None \<Rightarrow> [] | Some ids \<Rightarrow> ids) @
     List.map_filter wt_claimer (filter (\<lambda>t. wt_message t = Some (wm_id m)) (wk_tasks d))"

definition first_of_each :: "id list \<Rightarrow> id list" where
  "first_of_each xs = rev (remdups (rev xs))"

definition recent_channel_agent_ids :: "wake_db \<Rightarrow> id \<Rightarrow> id \<Rightarrow> id list" where
  "recent_channel_agent_ids d ch excluded =
     first_of_each (concat (map (\<lambda>m. sort (involved d m)) (recent_messages d ch excluded)))"

definition thread_participant_agents :: "wake_db \<Rightarrow> id \<Rightarrow> id list" where
  "thread_participant_agents d th =
     first_of_each (map wm_sender
       (rev (sort_key (\<lambda>m. (wm_created m, wm_id m))
          (filter (\<lambda>m. wm_thread m = Some th \<and> wm_by_agent m) (wk_messages d)))))"

definition thread_root_agent_sender :: "wake_db \<Rightarrow> id \<Rightarrow> id" where
  "thread_root_agent_sender d th =
     (case row_by wt_id th (wk_threads d) of
        None \<Rightarrow> []
      | Some t \<Rightarrow> (case row_by wm_id (wt_root t) (wk_messages d) of
                     Some m \<Rightarrow> if wm_by_agent m then wm_sender m else []
                   | None \<Rightarrow> []))"

text \<open>The attention policy of an agent in a channel, and the agents a message may wake.\<close>

definition attention_of :: "wake_db \<Rightarrow> wake_agent \<Rightarrow> id \<Rightarrow> attention" where
  "attention_of d a ch =
     (case find (\<lambda>p. at_agent p = wa_id a \<and> at_channel p = ch) (wk_attention d) of
        Some p \<Rightarrow> at_policy p | None \<Rightarrow> wa_policy a)"

definition follows :: "wake_db \<Rightarrow> id \<Rightarrow> id \<Rightarrow> bool option" where
  "follows d a th =
     (if th = [] then None
      else map_option ts_followed (find (\<lambda>s. ts_actor s = a \<and> ts_thread s = th) (wk_subscriptions d)))"

definition attends :: "wake_db \<Rightarrow> id \<Rightarrow> id \<Rightarrow> bool \<Rightarrow> wake_agent \<Rightarrow> bool" where
  "attends d ch th explicit a \<longleftrightarrow>
     attention_of d a ch \<noteq> AttendNothing \<and>
     (explicit \<or> follows d (wa_id a) th = Some True \<or>
      (attention_of d a ch = AttendAll \<and> follows d (wa_id a) th \<noteq> Some False))"

record wake_request =
  wq_scope :: wake_scope
  wq_channel :: id
  wq_thread :: id
  wq_trigger :: id
  wq_mentioned :: "id list"
  wq_has_mentions :: bool
  wq_exclude :: id

definition filter_attention :: "wake_db \<Rightarrow> id list \<Rightarrow> wake_request \<Rightarrow> id list" where
  "filter_attention d ids req =
     (if wq_scope req = WakeTask \<or> ids = [] then ids
      else filter (\<lambda>x. \<exists>a \<in> set (wk_agents d).
             wa_id a = x \<and> attends d (wq_channel req) (wq_thread req) (wa_id a \<in> set (wq_mentioned req)) a) ids)"

section \<open>Routing\<close>

text \<open>The queries, each of which may fail.\<close>

datatype wake_query = CorrectionQuery | AttentionQuery | EdgesQuery | ParticipantsQuery | RootQuery | RecentQuery

record agent_channel_info =
  ai_id :: id
  ai_name :: string
  ai_provider :: string
  ai_model :: string
  ai_prompt :: string

definition agent_ids :: "agent_channel_info list \<Rightarrow> id list" where
  "agent_ids agents = map ai_id agents"

definition filter_agents_by_id :: "agent_channel_info list \<Rightarrow> id list \<Rightarrow> agent_channel_info list" where
  "filter_agents_by_id agents ids = filter (\<lambda>a. ai_id a \<in> set ids) agents"

definition correction_agent :: "wake_db \<Rightarrow> wake_request \<Rightarrow> id" where
  "correction_agent d req =
     (case find (\<lambda>m. wm_id m = wq_trigger req \<and> wm_channel m = wq_channel req \<and> \<not> wm_by_agent m) (wk_messages d) of
        None \<Rightarrow> []
      | Some m \<Rightarrow> (case wm_correction m of
                     None \<Rightarrow> []
                   | Some rid \<Rightarrow> (case row_by wr_id rid (wk_runs d) of Some r \<Rightarrow> wr_agent r | None \<Rightarrow> [])))"

definition early_reason :: "wake_reason \<Rightarrow> bool" where
  "early_reason r \<longleftrightarrow> r = ExplicitMention \<or> r = UnresolvedMention \<or> r = NoActiveAgent"

definition with_graph :: "(wake_query \<Rightarrow> bool) \<Rightarrow> wake_db \<Rightarrow> wake_request \<Rightarrow> wake_facts \<Rightarrow> wake_facts" where
  "with_graph fails d req f =
     (if fails EdgesQuery then f
      else case relationship_graph_for_active (wf_active f) (wake_relationship_edges d (wq_channel req)) of
             (nodes, edges) \<Rightarrow> f\<lparr>wf_nodes := nodes, wf_edges := edges\<rparr>)"

definition with_thread :: "(wake_query \<Rightarrow> bool) \<Rightarrow> wake_db \<Rightarrow> wake_request \<Rightarrow> wake_facts \<Rightarrow> wake_facts" where
  "with_thread fails d req f =
     (if wq_scope req \<noteq> WakeThread then f
      else f\<lparr>wf_participants := (if fails ParticipantsQuery then [] else thread_participant_agents d (wq_thread req)),
             wf_root := (if fails RootQuery then [] else thread_root_agent_sender d (wq_thread req))\<rparr>)"

definition route_attending :: "(wake_query \<Rightarrow> bool) \<Rightarrow> wake_db \<Rightarrow> wake_request \<Rightarrow> id list \<Rightarrow> wake_decision" where
  "route_attending fails d req active =
     (let f0 = \<lparr>wf_scope = wq_scope req, wf_active = active, wf_mentioned = wq_mentioned req,
                wf_has_mentions = wq_has_mentions req, wf_nodes = [], wf_edges = [], wf_recent = [],
                wf_participants = [], wf_root = []\<rparr>;
          first = select_wake_decision f0
      in if early_reason (snd first) then first
         else let f1 = with_thread fails d req (with_graph fails d req f0);
                  second = select_wake_decision f1
              in if snd second = DeterministicFirst \<and> \<not> fails RecentQuery
                 then select_wake_decision (f1\<lparr>wf_recent := recent_channel_agent_ids d (wq_channel req) (wq_trigger req)\<rparr>)
                 else second)"

definition route_wake_targets ::
  "(wake_query \<Rightarrow> bool) \<Rightarrow> wake_db \<Rightarrow> agent_channel_info list \<Rightarrow> wake_request \<Rightarrow> agent_channel_info list \<times> wake_decision" where
  "route_wake_targets fails d agents req =
     (if wq_trigger req \<noteq> [] \<and> fails CorrectionQuery then ([], [], NoActiveAgent)
      else if wq_trigger req \<noteq> [] \<and> correction_agent d req \<noteq> [] then
        (let ids = intersect_in_order (agent_ids agents) [correction_agent d req]
         in (filter_agents_by_id agents ids, ids, ExplicitMention))
      else if (wq_scope req \<noteq> WakeTask \<and> agents \<noteq> []) \<and> fails AttentionQuery then ([], [], NoActiveAgent)
      else
        (let attending = filter_attention d (agent_ids agents) req;
             active = (if wq_exclude req \<noteq> [] then exclude_id attending (wq_exclude req) else attending);
             decision = route_attending fails d req active
         in (filter_agents_by_id agents (fst decision), decision)))"

section \<open>Whether a message wakes anyone at all\<close>

record channel_wake_policy =
  cp_type :: string
  cp_visibility :: string

definition suppresses_unmentioned_agent_wake :: "channel_wake_policy \<Rightarrow> bool" where
  "suppresses_unmentioned_agent_wake p \<longleftrightarrow> cp_type p = ''channel'' \<and> cp_visibility p = ''public''"

definition requires_visible_result :: "channel_wake_policy \<Rightarrow> wake_reason \<Rightarrow> bool" where
  "requires_visible_result p r \<longleftrightarrow> r = ExplicitMention \<or> cp_type p = ''dm'' \<or> cp_type p = ''lucy''"

definition should_trigger_agent_for_sender :: "string \<Rightarrow> id list \<Rightarrow> bool" where
  "should_trigger_agent_for_sender sender_type mentioned =
     (if sender_type = ''agent'' then mentioned \<noteq> [] else True)"

definition maxAgentChainDepth :: nat where "maxAgentChainDepth = 3"

text \<open>The chain check of the dispatch loop: the new chain of an agent that is dispatched.\<close>

definition extend_chain :: "id list option \<Rightarrow> id \<Rightarrow> id list option" where
  "extend_chain chain a =
     (case chain of
        None \<Rightarrow> Some [a]
      | Some c \<Rightarrow> if length c \<ge> maxAgentChainDepth \<or> a \<in> set c then None else Some (c @ [a]))"

text \<open>The agents \<open>TriggerAgentResponse\<close> dispatches for a message, with the chain each of them carries.\<close>

definition response_targets ::
  "(wake_query \<Rightarrow> bool) \<Rightarrow> wake_db \<Rightarrow> channel_wake_policy \<Rightarrow> agent_channel_info list \<Rightarrow> string \<Rightarrow> id \<Rightarrow> bool \<Rightarrow>
   id list option \<Rightarrow> wake_request \<Rightarrow> (agent_channel_info \<times> id list) list" where
  "response_targets fails d policy agents sender_type sender cascade_allowed chain req =
     (if \<not> should_trigger_agent_for_sender sender_type (wq_mentioned req) then []
      else if wq_mentioned req = [] \<and> \<not> wq_has_mentions req \<and> suppresses_unmentioned_agent_wake policy then []
      else
        (let targets = fst (route_wake_targets fails d agents
               (req\<lparr>wq_exclude := (if sender_type = ''agent'' then sender else [])\<rparr>))
         in if targets = [] \<or> (sender_type = ''agent'' \<and> \<not> cascade_allowed) then []
            else List.map_filter (\<lambda>a. map_option (Pair a) (extend_chain chain (ai_id a))) targets))"

end
