(* ===== verification/Wake_Theorems.thy ===== *)
theory Wake_Theorems
  imports Wake_Routing
begin

text \<open>
  Properties of wake routing: the graph it builds is the part of the relationship graph connected with the
  active agents, the coordinator search finds the one agent from which the whole graph hangs without cycles,
  and whatever fails on the way, agents are woken who attend, and someone is woken when someone attends.
\<close>

section \<open>The graph of the active agents\<close>

definition links :: "relationship_edge list \<Rightarrow> (id \<times> id) set" where
  "links es = {(edge_from e, edge_to e) |e. e \<in> set es}"

lemma links_iff: "(x, y) \<in> links es \<longleftrightarrow> (\<exists>e \<in> set es. edge_from e = x \<and> edge_to e = y)"
  by (auto simp: links_def)

lemma grow_pass_links:
  "y \<in> set (fst (grow_pass es r)) \<Longrightarrow> \<exists>x \<in> set r. (x, y) \<in> (links es \<union> (links es)\<inverse>)\<^sup>*"
proof (induction es arbitrary: r)
  case (Cons e es)
  let ?R = "links (e # es) \<union> (links (e # es))\<inverse>"
  have sub: "(links es \<union> (links es)\<inverse>)\<^sup>* \<subseteq> ?R\<^sup>*" by (rule rtrancl_mono) (auto simp: links_def)
  obtain z where z: "z \<in> set (fst (reach_edge e r))" "(z, y) \<in> ?R\<^sup>*"
    using Cons.IH [of "fst (reach_edge e r)"] Cons.prems sub by auto
  have "\<exists>x \<in> set r. (x, z) \<in> ?R\<^sup>*"
  proof (cases "z \<in> set r")
    case False
    then have "z = edge_from e \<and> edge_to e \<in> set r \<or> z = edge_to e \<and> edge_from e \<in> set r"
      using z(1) by (auto simp: reach_edge_set linked_def split: if_splits)
    moreover have "(edge_from e, edge_to e) \<in> ?R\<^sup>*" "(edge_to e, edge_from e) \<in> ?R\<^sup>*"
      by (auto simp: links_def intro!: r_into_rtrancl)
    ultimately show ?thesis by blast
  qed auto
  then show ?case using z(2) by (meson rtrancl_trans)
qed auto

lemma grow_pass_closed:
  "\<not> snd (grow_pass es r) \<Longrightarrow> e \<in> set es \<Longrightarrow> linked e r \<Longrightarrow> edge_from e \<in> set r \<and> edge_to e \<in> set r"
proof (induction es arbitrary: r)
  case (Cons e' es)
  then have "fst (reach_edge e' r) = r" "\<not> snd (reach_edge e' r)" by (simp_all add: reach_edge_same)
  then show ?case using Cons by (auto simp: reach_edge_changed)
qed simp

lemma grow_facts:
  "set r \<subseteq> set (grow es r) \<and> (\<forall>y \<in> set (grow es r). \<exists>x \<in> set r. (x, y) \<in> (links es \<union> (links es)\<inverse>)\<^sup>*) \<and>
   (\<forall>e \<in> set es. linked e (grow es r) \<longrightarrow> edge_from e \<in> set (grow es r) \<and> edge_to e \<in> set (grow es r))"
proof (induction es r rule: grow.induct)
  case (1 es r)
  let ?r = "fst (grow_pass es r)"
  show ?case
  proof (cases "snd (grow_pass es r)")
    case True
    then have eq: "grow es r = grow es ?r" by (subst grow.simps) (simp add: case_prod_unfold)
    have IH: "set ?r \<subseteq> set (grow es ?r) \<and>
        (\<forall>y \<in> set (grow es ?r). \<exists>x \<in> set ?r. (x, y) \<in> (links es \<union> (links es)\<inverse>)\<^sup>*) \<and>
        (\<forall>e \<in> set es. linked e (grow es ?r) \<longrightarrow> edge_from e \<in> set (grow es ?r) \<and> edge_to e \<in> set (grow es ?r))"
      by (rule 1 [OF refl prod.collapse True])
    have "\<exists>x \<in> set r. (x, y) \<in> (links es \<union> (links es)\<inverse>)\<^sup>*" if y: "y \<in> set (grow es ?r)" for y
    proof -
      obtain z where "z \<in> set ?r" "(z, y) \<in> (links es \<union> (links es)\<inverse>)\<^sup>*"
        using bspec [OF conjunct1 [OF conjunct2 [OF IH]] y] by (elim bexE)
      then show ?thesis using grow_pass_links [of z es r] by (meson rtrancl_trans)
    qed
    moreover have "set r \<subseteq> set (grow es ?r)" using IH grow_pass_mono [of r es] by auto
    ultimately show ?thesis unfolding eq using IH by simp
  next
    case False
    then have eq: "grow es r = r" using grow_pass_same [OF False] by (subst grow.simps) (simp add: case_prod_unfold)
    show ?thesis unfolding eq using grow_pass_closed [OF False] by blast
  qed
qed

lemma grow_set: "set (grow es r) = (links es \<union> (links es)\<inverse>)\<^sup>* `` set r"
proof
  show "set (grow es r) \<subseteq> (links es \<union> (links es)\<inverse>)\<^sup>* `` set r" using grow_facts [of r es] by blast
  have closed: "y \<in> set (grow es r)" if "(x, y) \<in> links es \<union> (links es)\<inverse>" "x \<in> set (grow es r)" for x y
    using that grow_facts [of r es] by (auto simp: links_iff linked_def)
  have "y \<in> set (grow es r)" if "(x, y) \<in> (links es \<union> (links es)\<inverse>)\<^sup>*" "x \<in> set r" for x y
    using that
  proof (induction rule: rtrancl_induct)
    case base
    then show ?case using grow_facts [of r es] by blast
  next
    case (step y z)
    then show ?case using closed by blast
  qed
  then show "(links es \<union> (links es)\<inverse>)\<^sup>* `` set r \<subseteq> set (grow es r)" by blast
qed

lemma graph_nodes_set: "set (graph_nodes es nodes) = endpoints es \<union> set nodes"
  by (induction es nodes rule: graph_nodes.induct) (auto simp: add_unseen_def endpoints_def)

lemma graph_nodes_distinct: "distinct nodes \<Longrightarrow> distinct (graph_nodes es nodes)"
  by (induction es nodes rule: graph_nodes.induct) (auto simp: add_unseen_def)

section \<open>The search for the coordinator\<close>

definition within :: "id list \<Rightarrow> relationship_edge \<Rightarrow> bool" where
  "within nodes e \<longleftrightarrow> edge_from e \<in> set nodes \<and> edge_to e \<in> set nodes"

definition edges_in :: "id list \<Rightarrow> relationship_edge list \<Rightarrow> (id \<times> id) set" where
  "edges_in nodes es = links (filter (within nodes) es)"

lemma edges_in_iff: "(x, y) \<in> edges_in nodes es \<longleftrightarrow> (\<exists>e \<in> set es. within nodes e \<and> edge_from e = x \<and> edge_to e = y)"
  by (auto simp: edges_in_def links_iff)

text \<open>Edges into a node whose source has not been visited.\<close>

definition pending_in :: "id list \<Rightarrow> relationship_edge list \<Rightarrow> id set \<Rightarrow> id \<Rightarrow> nat" where
  "pending_in nodes es P v = length (filter (\<lambda>e. within nodes e \<and> edge_to e = v \<and> edge_from e \<notin> P) es)"

lemma pending_in_0:
  "pending_in nodes es P v = 0 \<longleftrightarrow> (\<forall>u. (u, v) \<in> edges_in nodes es \<longrightarrow> u \<in> P)"
  by (auto simp: pending_in_def edges_in_iff filter_empty_conv)

lemma indegrees_count: "indegrees nodes es deg v = deg v + int (pending_in nodes es {} v)"
  by (induction es arbitrary: deg) (auto simp: pending_in_def within_def)

lemma adjacent_count:
  "count_list (adjacent nodes es x) v = length (filter (\<lambda>e. within nodes e \<and> edge_to e = v \<and> edge_from e = x) es)"
  by (induction es) (auto simp: adjacent_def within_def)

lemma pending_in_insert:
  "x \<notin> P \<Longrightarrow> pending_in nodes es P v = pending_in nodes es (insert x P) v + count_list (adjacent nodes es x) v"
  unfolding adjacent_count by (induction es) (auto simp: pending_in_def)

lemma settle_next_facts:
  "settle_next ns deg = (deg', ready) \<Longrightarrow>
   (\<forall>v. deg' v = deg v - int (count_list ns v)) \<and>
   ((\<forall>v. int (count_list ns v) \<le> deg v) \<longrightarrow>
    distinct ready \<and> set ready = {v \<in> set ns. deg v = int (count_list ns v)})"
proof (induction ns arbitrary: deg deg' ready)
  case (Cons n ns)
  let ?deg1 = "deg(n := deg n - 1)"
  obtain deg2 ready2 where next': "settle_next ns ?deg1 = (deg2, ready2)" by fastforce
  note IH = Cons.IH [OF next']
  have out: "deg' = deg2" "ready = (if deg n - 1 = 0 then n # ready2 else ready2)"
    using Cons.prems next' by (auto simp: Let_def split: if_splits)
  have deg: "deg' v = deg v - int (count_list (n # ns) v)" for v using IH out by auto
  have "distinct ready \<and> set ready = {v \<in> set (n # ns). deg v = int (count_list (n # ns) v)}"
    if le: "\<forall>v. int (count_list (n # ns) v) \<le> deg v"
  proof -
    have "\<forall>v. int (count_list ns v) \<le> ?deg1 v"
    proof
      fix v show "int (count_list ns v) \<le> ?deg1 v" using le [rule_format, of v] by auto
    qed
    with IH have 2: "distinct ready2" "set ready2 = {v \<in> set ns. ?deg1 v = int (count_list ns v)}" by blast+
    have n: "1 + int (count_list ns n) \<le> deg n" using le [rule_format, of n] by simp
    have notin: "n \<notin> set ns" if "deg n - 1 = 0"
    proof -
      have "count_list ns n = 0" using n that by simp
      then show ?thesis by (simp add: count_list_0_iff)
    qed
    have isin: "n \<in> set ns" if "deg n = 1 + int (count_list ns n)" "deg n - 1 \<noteq> 0"
    proof -
      have "count_list ns n \<noteq> 0" using that by auto
      then show ?thesis by (auto simp: count_list_0_iff)
    qed
    show ?thesis
    proof (cases "deg n - 1 = 0")
      case True
      have notin: "n \<notin> set ns" by (rule notin [OF True])
      then have "count_list ns n = 0" by (simp add: count_list_0_iff)
      then have "set (n # ready2) = {v \<in> set (n # ns). deg v = int (count_list (n # ns) v)}"
        unfolding set_simps 2(2) using True notin by (intro set_eqI) (auto simp: fun_upd_apply)
      then show ?thesis using True notin 2 out by simp
    next
      case False
      have "v \<in> set ready2 \<longleftrightarrow> v \<in> set (n # ns) \<and> deg v = int (count_list (n # ns) v)" for v
        using isin False unfolding 2(2) by (cases "v = n") auto
      then have "set ready2 = {v \<in> set (n # ns). deg v = int (count_list (n # ns) v)}"
        by (intro set_eqI) (simp only: mem_Collect_eq)
      then show ?thesis unfolding out(2) using False 2(1) by (simp only: if_False simp_thms)
    qed
  qed
  then show ?case using deg by blast
qed simp

definition ranked :: "id list \<Rightarrow> relationship_edge list \<Rightarrow> id set \<Rightarrow> (id \<Rightarrow> nat) \<Rightarrow> bool" where
  "ranked nodes es P f \<longleftrightarrow> (\<forall>(u, v) \<in> edges_in nodes es. v \<in> P \<longrightarrow> f u < f v)"

definition kahn_ok :: "id list \<Rightarrow> relationship_edge list \<Rightarrow> id set \<Rightarrow> id list \<Rightarrow> (id \<Rightarrow> int) \<Rightarrow> bool" where
  "kahn_ok nodes es P Q deg \<longleftrightarrow>
     P \<subseteq> set nodes \<and> set Q \<subseteq> set nodes \<and> distinct Q \<and> P \<inter> set Q = {} \<and>
     (\<forall>v. deg v = int (pending_in nodes es P v)) \<and>
     (\<forall>v \<in> set nodes. deg v = 0 \<longleftrightarrow> v \<in> P \<union> set Q) \<and>
     (\<exists>f. ranked nodes es P f)"

lemma adjacent_nodes: "set (adjacent nodes es x) \<subseteq> set nodes"
  by (auto simp: adjacent_def)

lemma ranked_insert:
  assumes f: "ranked nodes es P f" and x: "x \<notin> P"
    and closed: "\<And>u v. (u, v) \<in> edges_in nodes es \<Longrightarrow> v \<in> insert x P \<Longrightarrow> u \<in> P" and fin: "finite P"
  shows "\<exists>f. ranked nodes es (insert x P) f"
proof -
  let ?f = "f(x := Suc (Max (insert 0 (f ` P))))"
  have "?f u < ?f v" if e: "(u, v) \<in> edges_in nodes es" and v: "v \<in> insert x P" for u v
  proof -
    have u: "u \<in> P" "u \<noteq> x" using closed [OF e v] x by auto
    show ?thesis
    proof (cases "v = x")
      case True
      have "f u \<le> Max (insert 0 (f ` P))" using u fin by (intro Max_ge) auto
      then show ?thesis using True u by simp
    next
      case False
      then show ?thesis using f e v u by (auto simp: ranked_def)
    qed
  qed
  then have "ranked nodes es (insert x P) ?f" unfolding ranked_def by blast
  then show ?thesis by blast
qed

lemma kahn_step_ok:
  assumes ok: "kahn_ok nodes es P (x # Q) deg" and s: "settle_next (adjacent nodes es x) deg = (deg', ready)"
  shows "kahn_ok nodes es (insert x P) (Q @ ready) deg'"
proof -
  let ?n = "count_list (adjacent nodes es x)"
  have P: "P \<subseteq> set nodes" "x \<in> set nodes" "x \<notin> P" "x \<notin> set Q" "distinct Q" "set Q \<subseteq> set nodes" "P \<inter> set Q = {}"
    and deg: "deg v = int (pending_in nodes es P v)"
    and zero: "v \<in> set nodes \<Longrightarrow> deg v = 0 \<longleftrightarrow> v \<in> P \<union> set (x # Q)" for v
    using ok by (auto simp: kahn_ok_def)
  have split: "pending_in nodes es P v = pending_in nodes es (insert x P) v + ?n v" for v
    by (rule pending_in_insert [OF P(3)])
  have deg': "deg' v = int (pending_in nodes es (insert x P) v)" for v
    using settle_next_facts [OF s] deg [of v] split [of v] by simp
  have ready: "distinct ready" "set ready = {v \<in> set (adjacent nodes es x). deg' v = 0}"
    using settle_next_facts [OF s] deg split deg' by auto
  have new: "v \<notin> P \<union> set (x # Q)" if "v \<in> set (adjacent nodes es x)" for v
  proof -
    have "?n v \<noteq> 0" using that by (simp add: count_list_0_iff)
    then have "deg v \<noteq> 0" using deg [of v] split [of v] by simp
    then show ?thesis using zero [of v] that adjacent_nodes [of nodes es x] by blast
  qed
  have zero': "deg' v = 0 \<longleftrightarrow> v \<in> insert x P \<union> set (Q @ ready)" if v: "v \<in> set nodes" for v
  proof (cases "v \<in> set (adjacent nodes es x)")
    case True
    then show ?thesis using new [OF True] ready by auto
  next
    case False
    then have "?n v = 0" by (simp add: count_list_0_iff)
    then have "deg' v = deg v" using deg deg' split by simp
    then show ?thesis using zero [OF v] False ready by auto
  qed
  obtain f where f: "ranked nodes es P f" using ok by (auto simp: kahn_ok_def)
  have closed: "u \<in> P" if e: "(u, v) \<in> edges_in nodes es" and v: "v \<in> insert x P" for u v
  proof -
    have "v \<in> set nodes" "v \<in> P \<union> set (x # Q)" using v P(1,2) by auto
    then have "deg v = 0" using zero [of v] by simp
    then have "pending_in nodes es P v = 0" using deg [of v] by simp
    then show ?thesis using e by (simp add: pending_in_0)
  qed
  have "\<exists>f. ranked nodes es (insert x P) f"
    by (rule ranked_insert [OF f P(3) closed]) (use P(1) finite_subset in auto)
  moreover have "distinct (Q @ ready)" using P ready new by auto
  moreover have "set ready \<subseteq> set nodes" using ready adjacent_nodes [of nodes es x] by blast
  moreover have "x \<notin> set ready" using new [of x] ready(2) by auto
  then have "insert x P \<inter> set (Q @ ready) = {}" using P ready new by auto
  ultimately show ?thesis unfolding kahn_ok_def using P deg' zero' by auto
qed

lemma kahn_visits:
  "kahn_ok nodes es P Q deg \<Longrightarrow> \<exists>P' deg'. kahn_ok nodes es P' [] deg' \<and> kahn nodes es Q deg + card P = card P'"
proof (induction nodes es Q deg arbitrary: P rule: kahn.induct)
  case (2 nodes es x Q deg)
  obtain deg' ready where s: "settle_next (adjacent nodes es x) deg = (deg', ready)" by fastforce
  have step: "kahn_ok nodes es (insert x P) (Q @ ready) deg'" by (rule kahn_step_ok [OF 2(2) s])
  have "finite P" "x \<notin> P" using 2(2) finite_subset by (auto simp: kahn_ok_def)
  then show ?case using 2(1) [OF s [symmetric] refl step] s by (simp add: Let_def)
qed (auto simp: kahn_ok_def)

lemma kahn_end:
  assumes ok: "kahn_ok nodes es P [] deg"
  shows "P = set nodes \<longleftrightarrow> acyclic (edges_in nodes es)"
proof
  assume P: "P = set nodes"
  obtain f where "ranked nodes es P f" using ok by (auto simp: kahn_ok_def)
  then have "edges_in nodes es \<subseteq> measure f" using P by (auto simp: ranked_def edges_in_iff within_def)
  then show "acyclic (edges_in nodes es)" by (intro wf_acyclic wf_subset [OF wf_measure])
next
  assume ac: "acyclic (edges_in nodes es)"
  have "finite (edges_in nodes es)" by (simp add: edges_in_def links_def setcompr_eq_image)
  then have wf: "wf (edges_in nodes es)" using ac by (rule finite_acyclic_wf)
  show "P = set nodes"
  proof (rule ccontr)
    assume "P \<noteq> set nodes"
    then obtain v where "v \<in> set nodes - P" using ok by (auto simp: kahn_ok_def)
    then obtain z where z: "z \<in> set nodes - P" and min: "\<And>y. (y, z) \<in> edges_in nodes es \<Longrightarrow> y \<notin> set nodes - P"
      using wfE_min [OF wf] by metis
    have "pending_in nodes es P z \<noteq> 0" using ok z by (auto simp: kahn_ok_def)
    then obtain u where "(u, z) \<in> edges_in nodes es" "u \<notin> P" by (auto simp: pending_in_0)
    then show False using min [of u] by (auto simp: edges_in_iff within_def)
  qed
qed

lemma reached_endpoint:
  assumes "y \<in> set (grow es r)" and "y \<notin> set r"
  shows "y \<in> endpoints (filter (\<lambda>e. edge_from e \<in> set (grow es r) \<and> edge_to e \<in> set (grow es r)) es)"
proof -
  obtain x where "x \<in> set r" "(x, y) \<in> (links es \<union> (links es)\<inverse>)\<^sup>*" using assms(1) unfolding grow_set by blast
  then obtain z where z: "(x, z) \<in> (links es \<union> (links es)\<inverse>)\<^sup>*" "(z, y) \<in> links es \<union> (links es)\<inverse>"
    using assms(2) by (metis rtranclE)
  then have "z \<in> set (grow es r)" using \<open>x \<in> set r\<close> unfolding grow_set by blast
  with z(2) assms(1) show ?thesis by (force simp: links_iff endpoints_def)
qed

text \<open>
  The graph in which the coordinator is sought consists of exactly the agents that are connected with an
  active one by relationships, in either direction and over agents who are not active themselves, and of
  exactly the relationships that touch these agents; each agent appears once.
\<close>
theorem graph_is_the_component:
  assumes "relationship_graph_for_active active es = (nodes, edges)"
  shows "set nodes = (links es \<union> (links es)\<inverse>)\<^sup>* `` set active \<and> (distinct active \<longrightarrow> distinct nodes) \<and>
         edges = filter (\<lambda>e. edge_from e \<in> set nodes \<or> edge_to e \<in> set nodes) es"
proof -
  let ?G = "set (grow es active)"
  have edges: "edges = filter (\<lambda>e. edge_from e \<in> ?G \<and> edge_to e \<in> ?G) es" and nodes: "nodes = graph_nodes edges active"
    using assms unfolding relationship_graph_for_active_def Let_def by auto
  have "set nodes = ?G"
    using reached_endpoint [of _ es active] grow_facts [of active es] unfolding nodes graph_nodes_set edges
    by (auto simp: endpoints_def)
  moreover have "(edge_from e \<in> ?G \<and> edge_to e \<in> ?G) = (edge_from e \<in> ?G \<or> edge_to e \<in> ?G)" if "e \<in> set es" for e
    using grow_facts [of active es] that by (auto simp: linked_def)
  then have "edges = filter (\<lambda>e. edge_from e \<in> ?G \<or> edge_to e \<in> ?G) es" unfolding edges by (intro filter_cong) simp_all
  ultimately show ?thesis using graph_nodes_distinct [of active edges] by (simp add: grow_set nodes)
qed

lemma kahn_start:
  assumes "distinct nodes" and "filter (\<lambda>x. indegrees nodes es (\<lambda>_. 0) x = 0) nodes = [root]"
  shows "kahn_ok nodes es {} [root] (indegrees nodes es (\<lambda>_. 0))"
proof -
  have "set (filter (\<lambda>x. indegrees nodes es (\<lambda>_. 0) x = 0) nodes) = {root}" using assms(2) by simp
  then have "root \<in> set nodes" "\<forall>v \<in> set nodes. indegrees nodes es (\<lambda>_. 0) v = 0 \<longleftrightarrow> v = root" by auto
  then show ?thesis by (auto simp: kahn_ok_def indegrees_count ranked_def)
qed

definition sources :: "id list \<Rightarrow> relationship_edge list \<Rightarrow> id set" where
  "sources nodes es = {v \<in> set nodes. \<forall>u. (u, v) \<notin> edges_in nodes es}"

lemma sources_indegree: "sources nodes es = set (filter (\<lambda>x. indegrees nodes es (\<lambda>_. 0) x = 0) nodes)"
  by (auto simp: sources_def indegrees_count pending_in_0)

lemma distinct_singleton: "distinct xs \<Longrightarrow> set xs = {x} \<longleftrightarrow> xs = [x]"
  by (cases xs; cases "tl xs") (auto simp: insert_eq_iff)

lemma source_reaches:
  assumes ac: "acyclic (edges_in nodes es)" and root: "sources nodes es = {c}" and v: "v \<in> set nodes"
  shows "(c, v) \<in> (edges_in nodes es)\<^sup>*"
proof -
  have "finite (edges_in nodes es)" by (simp add: edges_in_def links_def setcompr_eq_image)
  then have "wf (edges_in nodes es)" using ac by (rule finite_acyclic_wf)
  then show ?thesis using v
  proof (induction v rule: wf_induct_rule)
    case (less v)
    show ?case
    proof (cases "v \<in> sources nodes es")
      case False
      then obtain u where u: "(u, v) \<in> edges_in nodes es" using less(2) by (auto simp: sources_def)
      then have "u \<in> set nodes" by (auto simp: edges_in_iff within_def)
      then show ?thesis using less(1) [OF u] u by (meson rtrancl.rtrancl_into_rtrancl)
    qed (use root in simp)
  qed
qed

text \<open>
  C19. The coordinator search finds an agent just when there is a single agent without incoming relationships
  in the graph, the relationships have no cycle and that agent is active; it then answers that agent, from
  whom every agent of the graph is reached along the relationships. Relationships with agents outside the
  graph, repeated ones and empty ids make no difference.
\<close>
theorem coordinator_is_the_root:
  assumes "c \<noteq> []" and "nodes = filter (\<lambda>x. x \<noteq> []) node_ids"
  shows "(unique_coordinator_id node_ids es active = c) =
           (es \<noteq> [] \<and> c \<in> set active \<and> acyclic (edges_in nodes es) \<and> sources nodes es = {c}) \<and>
         (unique_coordinator_id node_ids es active = c \<longrightarrow> set nodes \<subseteq> (edges_in nodes es)\<^sup>* `` {c})"
proof -
  let ?N = "remdups nodes"
  let ?deg = "indegrees ?N es (\<lambda>_. 0)"
  let ?roots = "filter (\<lambda>x. ?deg x = 0) ?N"
  have "within ?N = within nodes" by (intro ext) (simp add: within_def)
  then have same: "edges_in ?N es = edges_in nodes es" "sources ?N es = sources nodes es"
    by (simp_all add: edges_in_def sources_def)
  have roots: "set ?roots = sources nodes es" "distinct ?roots" using sources_indegree [of ?N es] same by auto
  have visits: "kahn ?N es [r] ?deg = length ?N \<longleftrightarrow> acyclic (edges_in nodes es)" if "?roots = [r]" for r
  proof -
    have start: "kahn_ok ?N es {} [r] ?deg" by (rule kahn_start [OF _ that]) simp
    obtain P deg' where P: "kahn_ok ?N es P [] deg'" "kahn ?N es [r] ?deg + card {} = card P"
      using kahn_visits [OF start] by auto
    have "P \<subseteq> set ?N" using P(1) by (simp add: kahn_ok_def)
    then have "card P = length ?N \<longleftrightarrow> P = set ?N"
      using card_subset_eq [of "set ?N" P] by (metis List.finite_set distinct_card distinct_remdups)
    then show ?thesis using kahn_end [OF P(1)] P(2) same(1) by simp
  qed
  have search: "unique_coordinator_id node_ids es active =
      (if es = [] then [] else if ?N = [] then [] else if length ?roots \<noteq> 1 then []
       else if kahn ?N es [hd ?roots] ?deg \<noteq> length ?N \<or> \<not> contains_id active (hd ?roots) then [] else hd ?roots)"
    by (simp only: unique_coordinator_id_def Let_def assms(2))
  have iff: "(unique_coordinator_id node_ids es active = c) =
      (es \<noteq> [] \<and> c \<in> set active \<and> acyclic (edges_in nodes es) \<and> sources nodes es = {c})"
  proof (cases "\<exists>r. ?roots = [r]")
    case True
    then obtain r where r: "?roots = [r]" by blast
    have "set ?roots = {r}" unfolding r by simp
    then have root: "sources nodes es = {r}" using roots(1) by simp
    have "sources nodes es \<subseteq> set nodes" by (auto simp: sources_def)
    then have "r \<in> set nodes" unfolding root by simp
    then have "r \<noteq> []" "?N \<noteq> []" unfolding assms(2) by (auto simp: filter_empty_conv)
    then have "unique_coordinator_id node_ids es active =
        (if es = [] \<or> \<not> acyclic (edges_in nodes es) \<or> r \<notin> set active then [] else r)"
      unfolding search r visits [OF r] list.sel contains_id_def by (simp only: list.size if_False simp_thms) simp
    then show ?thesis unfolding root using assms(1) by (cases "c = r") auto
  next
    case False
    have "length ?roots \<noteq> 1"
    proof
      assume "length ?roots = 1"
      then obtain r where "?roots = [r]" by (metis One_nat_def length_0_conv length_Suc_conv)
      then show False using False by blast
    qed
    then have "unique_coordinator_id node_ids es active = []" unfolding search by simp
    moreover have "sources nodes es \<noteq> {c}" using False distinct_singleton [OF roots(2), of c] roots(1) by metis
    ultimately show ?thesis using assms(1) by simp
  qed
  then show ?thesis using source_reaches [of nodes es c] by auto
qed

section \<open>Who is woken\<close>

lemma keep_once_set: "set (keep_once allowed seen xs) = {x \<in> set xs. x \<in> set allowed \<and> x \<notin> set seen}"
  by (induction allowed seen xs rule: keep_once.induct) auto

lemma intersect_in_order_set [simp]: "set (intersect_in_order xs ys) = set xs \<inter> set ys"
  by (auto simp: intersect_in_order_def keep_once_set)

lemma coordinator_active: "unique_coordinator_id node_ids es active = [] \<or> unique_coordinator_id node_ids es active \<in> set active"
  by (simp add: unique_coordinator_id_def Let_def contains_id_def)

lemma select_within:
  assumes "select_wake_decision f = (ids, r)"
  shows "set ids \<subseteq> set (wf_active f) \<and> (wf_mentioned f \<noteq> [] \<longrightarrow> set ids \<subseteq> set (wf_mentioned f)) \<and>
         (wf_active f \<noteq> [] \<and> wf_mentioned f = [] \<and> \<not> wf_has_mentions f \<longrightarrow> ids \<noteq> [])"
proof -
  let ?c = "unique_coordinator_id (wf_nodes f) (wf_edges f) (wf_active f)"
  have c: "?c = [] \<or> ?c \<in> set (wf_active f)" by (rule coordinator_active)
  have one: "set (take 1 xs) \<subseteq> A" "take 1 xs \<noteq> []" if "xs \<noteq> []" "set xs \<subseteq> A" for xs :: "id list" and A
    using that by (cases xs, auto)+
  have thread: "set (fst (select_thread f ?c)) \<subseteq> set (wf_active f) \<and> fst (select_thread f ?c) \<noteq> []" if "wf_active f \<noteq> []"
    using c one [OF that order_refl] one [of "intersect_in_order (wf_participants f) (wf_active f)" "set (wf_active f)"]
      one [of "intersect_in_order (wf_recent f) (wf_active f)" "set (wf_active f)"]
    by (elim disjE) (auto simp: select_thread_def Let_def contains_id_def)
  have channel: "set (fst (select_channel f ?c)) \<subseteq> set (wf_active f) \<and> fst (select_channel f ?c) \<noteq> []" if "wf_active f \<noteq> []"
    using c that one [OF that order_refl] by (auto simp: select_channel_def Let_def)
  show ?thesis
  proof (cases "wf_active f = [] \<or> wf_mentioned f \<noteq> [] \<or> wf_has_mentions f")
    case True
    then show ?thesis using assms by (auto simp: select_wake_decision_def Let_def split: if_splits)
  next
    case False
    then have "ids = fst (if wf_scope f = WakeThread then select_thread f ?c else select_channel f ?c)"
      using assms by (simp add: select_wake_decision_def Let_def)
    then show ?thesis using False thread channel by simp
  qed
qed

lemma with_facts [simp]:
  "wf_active (with_graph fails d req f) = wf_active f" "wf_mentioned (with_graph fails d req f) = wf_mentioned f"
  "wf_has_mentions (with_graph fails d req f) = wf_has_mentions f"
  "wf_active (with_thread fails d req f) = wf_active f" "wf_mentioned (with_thread fails d req f) = wf_mentioned f"
  "wf_has_mentions (with_thread fails d req f) = wf_has_mentions f"
  by (simp_all add: with_graph_def with_thread_def split: prod.split)

lemma route_within:
  assumes "route_attending fails d req active = (ids, r)"
  shows "set ids \<subseteq> set active \<and> (wq_mentioned req \<noteq> [] \<longrightarrow> set ids \<subseteq> set (wq_mentioned req)) \<and>
         (active \<noteq> [] \<and> wq_mentioned req = [] \<and> \<not> wq_has_mentions req \<longrightarrow> ids \<noteq> [])"
proof -
  obtain f where "select_wake_decision f = (ids, r)" "wf_active f = active" "wf_mentioned f = wq_mentioned req"
    "wf_has_mentions f = wq_has_mentions req"
    using assms unfolding route_attending_def Let_def by (simp split: if_splits)
  then show ?thesis using select_within [of f ids r] by simp
qed

definition attending :: "wake_db \<Rightarrow> wake_request \<Rightarrow> id \<Rightarrow> bool" where
  "attending d req x \<longleftrightarrow>
     wq_scope req = WakeTask \<or>
     (\<exists>a \<in> set (wk_agents d). wa_id a = x \<and> attends d (wq_channel req) (wq_thread req) (x \<in> set (wq_mentioned req)) a)"

lemma filter_attention_set: "set (filter_attention d ids req) = {x \<in> set ids. attending d req x}"
  by (auto simp: filter_attention_def attending_def)

text \<open>The route taken when no correction decides and the queries that must not fail have not failed.\<close>

lemma route_normal:
  assumes "\<not> (wq_trigger req \<noteq> [] \<and> (fails CorrectionQuery \<or> correction_agent d req \<noteq> []))"
    and "wq_scope req = WakeTask \<or> agents = [] \<or> \<not> fails AttentionQuery"
  shows "\<exists>active. set active = {x \<in> ai_id ` set agents. attending d req x \<and> (wq_exclude req \<noteq> [] \<longrightarrow> x \<noteq> wq_exclude req)} \<and>
           route_wake_targets fails d agents req =
             (filter_agents_by_id agents (fst (route_attending fails d req active)), route_attending fails d req active)"
proof -
  let ?active = "if wq_exclude req \<noteq> [] then exclude_id (filter_attention d (agent_ids agents) req) (wq_exclude req)
    else filter_attention d (agent_ids agents) req"
  have "set ?active = {x \<in> ai_id ` set agents. attending d req x \<and> (wq_exclude req \<noteq> [] \<longrightarrow> x \<noteq> wq_exclude req)}"
    by (auto simp: exclude_id_def filter_attention_set agent_ids_def)
  moreover have "route_wake_targets fails d agents req =
      (filter_agents_by_id agents (fst (route_attending fails d req ?active)), route_attending fails d req ?active)"
    using assms unfolding route_wake_targets_def Let_def by (simp only: if_False simp_thms de_Morgan_conj) auto
  ultimately show ?thesis by blast
qed

text \<open>
  Whoever is woken for a message is an agent of the channel. Unless the message is a correction, and then
  it wakes the agent of the corrected run alone, he is not the sender, his attention policy lets the message
  through (always so for a task, never if he attends to nothing), and when the message mentions agents he is
  one of them. All this holds whichever of the queries fail.
\<close>
theorem wakes_only_attending:
  assumes "route_wake_targets fails d agents req = (targets, ids, reason)" and "a \<in> set targets"
  shows "a \<in> set agents \<and> ai_id a \<in> set ids \<and>
         (if wq_trigger req \<noteq> [] \<and> correction_agent d req \<noteq> [] then ai_id a = correction_agent d req
          else attending d req (ai_id a) \<and> (wq_exclude req \<noteq> [] \<longrightarrow> ai_id a \<noteq> wq_exclude req) \<and>
               (wq_mentioned req \<noteq> [] \<longrightarrow> ai_id a \<in> set (wq_mentioned req)))"
proof (cases "wq_trigger req \<noteq> [] \<and> (fails CorrectionQuery \<or> correction_agent d req \<noteq> [])")
  case True
  then have "targets = filter_agents_by_id agents ids" "ids = intersect_in_order (agent_ids agents) [correction_agent d req]"
    "correction_agent d req \<noteq> []"
    using assms by (auto simp: route_wake_targets_def Let_def split: if_splits)
  then show ?thesis using assms(2) True by (simp add: filter_agents_by_id_def) metis
next
  case False
  have queried: "wq_scope req = WakeTask \<or> agents = [] \<or> \<not> fails AttentionQuery"
    using False assms by (auto simp: route_wake_targets_def split: if_splits)
  obtain active where active: "set active = {x \<in> ai_id ` set agents. attending d req x \<and> (wq_exclude req \<noteq> [] \<longrightarrow> x \<noteq> wq_exclude req)}"
    and route: "route_wake_targets fails d agents req =
        (filter_agents_by_id agents (fst (route_attending fails d req active)), route_attending fails d req active)"
    using route_normal [of req fails d agents, OF False queried] by blast
  have out: "route_attending fails d req active = (ids, reason)" using route assms(1) by simp
  then have "targets = filter_agents_by_id agents ids" using route assms(1) by simp
  with assms(2) have "a \<in> set agents" "ai_id a \<in> set ids" by (simp_all add: filter_agents_by_id_def)
  then show ?thesis using route_within [OF out(1)] active False by auto
qed

text \<open>
  A message without mentions finds somebody: if some agent of the channel other than the sender attends
  to it, and it is not a correction, at least one agent is woken, even when the relationships, the
  participants of the thread, its root message and the recent messages cannot be read.
\<close>
theorem someone_is_woken:
  assumes "a \<in> set agents" and "attending d req (ai_id a)" and "ai_id a \<noteq> wq_exclude req"
    and "wq_mentioned req = []" and "\<not> wq_has_mentions req"
    and "\<not> fails CorrectionQuery" and "\<not> fails AttentionQuery" and "correction_agent d req = []"
  shows "fst (route_wake_targets fails d agents req) \<noteq> []"
proof -
  have "\<not> (wq_trigger req \<noteq> [] \<and> (fails CorrectionQuery \<or> correction_agent d req \<noteq> []))"
    "wq_scope req = WakeTask \<or> agents = [] \<or> \<not> fails AttentionQuery" using assms by simp_all
  from route_normal [OF this] obtain active where
    active: "set active = {x \<in> ai_id ` set agents. attending d req x \<and> (wq_exclude req \<noteq> [] \<longrightarrow> x \<noteq> wq_exclude req)}"
    and route: "route_wake_targets fails d agents req =
        (filter_agents_by_id agents (fst (route_attending fails d req active)), route_attending fails d req active)"
    by blast
  obtain ids r where out: "route_attending fails d req active = (ids, r)" by fastforce
  have "active \<noteq> []" using active assms(1-3) by auto
  then have "ids \<noteq> []" "set ids \<subseteq> ai_id ` set agents" using route_within [OF out] assms(4,5) active by auto
  then obtain x where "x \<in> set agents" "ai_id x \<in> set ids" by (cases ids) auto
  then show ?thesis using route out by (auto simp: filter_agents_by_id_def filter_empty_conv)
qed

section \<open>Concrete teams\<close>

definition ex_agent :: "id \<Rightarrow> agent_channel_info" where
  "ex_agent x = \<lparr>ai_id = x, ai_name = x, ai_provider = ''claude'', ai_model = ''m'', ai_prompt = []\<rparr>"

definition ex_edge :: "id \<Rightarrow> id \<Rightarrow> relationship_edge" where
  "ex_edge x y = \<lparr>edge_from = x, edge_to = y\<rparr>"

definition ex_wake_db :: wake_db where
  "ex_wake_db = \<lparr>wk_agents = [\<lparr>wa_id = ''a'', wa_active = True, wa_policy = AttendAll\<rparr>,
                             \<lparr>wa_id = ''b'', wa_active = True, wa_policy = AttendAll\<rparr>,
                             \<lparr>wa_id = ''c'', wa_active = True, wa_policy = AttendNothing\<rparr>],
     wk_attention = [], wk_subscriptions = [], wk_messages = [], wk_threads = [], wk_tasks = [], wk_runs = [],
     wk_scopes = [\<lparr>rs_channel = ''ch'', rs_edge = ex_edge ''b'' ''a'', rs_assigns = True\<rparr>], wk_channels = [], wk_members = []\<rparr>"

definition ex_wake_request :: wake_request where
  "ex_wake_request = \<lparr>wq_scope = WakeChannel, wq_channel = ''ch'', wq_thread = [], wq_trigger = ''m1'', wq_mentioned = [],
     wq_has_mentions = False, wq_exclude = []\<rparr>"

lemma graph_is_the_component_witness:
  "''e'' \<in> (links [ex_edge ''b'' ''a'', ex_edge ''e'' ''a'', ex_edge ''f'' ''g''] \<union>
            (links [ex_edge ''b'' ''a'', ex_edge ''e'' ''a'', ex_edge ''f'' ''g''])\<inverse>)\<^sup>* `` {''b''}"
proof -
  have "relationship_graph_for_active [''b''] [ex_edge ''b'' ''a'', ex_edge ''e'' ''a'', ex_edge ''f'' ''g''] =
      ([''b'', ''a'', ''e''], [ex_edge ''b'' ''a'', ex_edge ''e'' ''a''])"
    by code_simp
  note component = conjunct1 [OF graph_is_the_component [OF this]]
  have "''e'' \<in> set [''b'', ''a'', ''e'']" by simp
  then show ?thesis unfolding component by simp
qed

lemma coordinator_is_the_root_witness:
  "acyclic (edges_in [''a'', ''b'', ''c''] [ex_edge ''b'' ''a'', ex_edge ''b'' ''c'', ex_edge ''c'' ''a'']) \<and>
   (''b'', ''a'') \<in> (edges_in [''a'', ''b'', ''c''] [ex_edge ''b'' ''a'', ex_edge ''b'' ''c'', ex_edge ''c'' ''a''])\<^sup>*"
proof -
  have nodes: "[''a'', ''b'', ''c''] = filter (\<lambda>x. x \<noteq> []) [''a'', ''b'', '''', ''c'']" by simp
  have c: "unique_coordinator_id [''a'', ''b'', '''', ''c''] [ex_edge ''b'' ''a'', ex_edge ''b'' ''c'', ex_edge ''c'' ''a''] [''b'', ''c''] = ''b''"
    by code_simp
  have "''b'' \<noteq> []" by simp
  note root = coordinator_is_the_root [OF this nodes]
  have "acyclic (edges_in [''a'', ''b'', ''c''] [ex_edge ''b'' ''a'', ex_edge ''b'' ''c'', ex_edge ''c'' ''a''])"
    using iffD1 [OF conjunct1 [OF root] c] by (elim conjE)
  moreover have "set [''a'', ''b'', ''c''] \<subseteq>
      (edges_in [''a'', ''b'', ''c''] [ex_edge ''b'' ''a'', ex_edge ''b'' ''c'', ex_edge ''c'' ''a''])\<^sup>* `` {''b''}"
    by (rule mp [OF conjunct2 [OF root] c])
  moreover have "''a'' \<in> set [''a'', ''b'', ''c'']" by simp
  ultimately show ?thesis by blast
qed

lemma wakes_only_attending_witness:
  "attending ex_wake_db ex_wake_request ''b'' \<and>
   fst (route_wake_targets (\<lambda>q. q = RecentQuery) ex_wake_db (map ex_agent [''a'', ''b'', ''c'']) ex_wake_request) = [ex_agent ''b'']"
proof -
  have r: "route_wake_targets (\<lambda>q. q = RecentQuery) ex_wake_db (map ex_agent [''a'', ''b'', ''c'']) ex_wake_request =
      ([ex_agent ''b''], [''b''], UniqueCoordinator)" by code_simp
  have "correction_agent ex_wake_db ex_wake_request = []" by code_simp
  then show ?thesis using wakes_only_attending [OF r, of "ex_agent ''b''"] r by (simp add: ex_agent_def)
qed

lemma someone_is_woken_witness:
  "fst (route_wake_targets (\<lambda>q. q \<noteq> CorrectionQuery \<and> q \<noteq> AttentionQuery) ex_wake_db (map ex_agent [''a'', ''c'']) ex_wake_request) \<noteq> []"
  by (rule someone_is_woken [of "ex_agent ''a''"])
    (simp_all add: ex_agent_def attending_def attends_def attention_of_def follows_def ex_wake_db_def ex_wake_request_def
      correction_agent_def)

end
