(* ===== verification/Message_Wake.thy ===== *)
theory Message_Wake
  imports Wake_Routing Fleet
begin

text \<open>
  The queue of message wakes (\<open>service/agent_message_wake.go\<close>) and the order of an agent's inbox
  (\<open>agent_inbox\<close>, migration 76). A message that wakes an agent either starts a run at once or, while the
  agent is busy, joins the pending wake of its conversation, which keeps one range of message numbers; when
  the run ends, the next pending wake becomes the next run. A run that was never delivered gives its range back.

  A transaction is a function on the state; it holds the lock of the agent's work throughout. \<open>mw_other\<close>
  lists the rows the other sources of the inbox (reviews, waits, selections, other work) contribute.
  \<open>wake_env\<close> adds what comes from services that are not modelled: the rendered relationships and the
  revision that is applied to a payload.
\<close>

section \<open>State\<close>

record wake_slot =
  sl_agent :: id
  sl_channel :: id
  sl_run :: "id option"

record pending_wake =
  pw_agent :: id
  pw_channel :: id
  pw_key :: string
  pw_thread :: "id option"
  pw_first :: int
  pw_latest :: int
  pw_visible :: bool
  pw_created :: time

record consumption =
  cn_agent :: id
  cn_message :: id
  cn_run :: id

record inbox_item =
  ib_agent :: id
  ib_kind :: string
  ib_work :: string
  ib_priority :: int
  ib_created :: time
  ib_ready :: time

record mw_state =
  mw_tables :: wake_db
  mw_remote :: remote_db
  mw_slots :: "wake_slot list"
  mw_pending :: "pending_wake list"
  mw_consumed :: "consumption list"
  mw_other :: "inbox_item list"

record wake_env = remote_env +
  render_relationships :: "id \<Rightarrow> id \<Rightarrow> string option"
  run_revision :: "id \<Rightarrow> task_payload \<Rightarrow> string + task_payload"

datatype wake_error =
    WakeRun run_error | WakeRemote remote_error | WakeResolve resolve_error | WakeText string


definition mw_runs :: "mw_state \<Rightarrow> run_row list" where
  "mw_runs st = runs (r_tables (mw_remote st))"

section \<open>Ranges of message numbers\<close>

fun positive_message_seq_range :: "int list \<Rightarrow> int \<times> int \<Rightarrow> int \<times> int" where
  "positive_message_seq_range [] (first, latest) = (first, latest)"
| "positive_message_seq_range (s # ss) (first, latest) =
     (if s \<le> 0 then positive_message_seq_range ss (first, latest)
      else positive_message_seq_range ss
             (if first = 0 \<or> s < first then s else first, if s > latest then s else latest))"

definition message_wake_scope_key :: "id \<Rightarrow> string" where
  "message_wake_scope_key th = (if th = [] then ''channel'' else ''thread:'' @ th)"

section \<open>The inbox\<close>

definition channel_open_to :: "wake_db \<Rightarrow> id \<Rightarrow> id \<Rightarrow> bool" where
  "channel_open_to d ch agent \<longleftrightarrow>
     exists_row (\<lambda>c. wc_id c = ch \<and> \<not> wc_archived c) (wk_channels d) \<and> (ch, agent) \<in> set (wk_members d)"

definition agent_is_active :: "wake_db \<Rightarrow> id \<Rightarrow> bool" where
  "agent_is_active d agent = exists_row (\<lambda>a. wa_id a = agent \<and> wa_active a) (wk_agents d)"

definition message_item :: "pending_wake \<Rightarrow> inbox_item" where
  "message_item p =
     \<lparr>ib_agent = pw_agent p, ib_kind = ''message'', ib_work = pw_channel p @ '':'' @ pw_key p,
      ib_priority = (if pw_visible p then 10 else 20), ib_created = pw_created p, ib_ready = pw_created p\<rparr>"

definition agent_inbox :: "mw_state \<Rightarrow> inbox_item list" where
  "agent_inbox st =
     map message_item (filter (\<lambda>p. agent_is_active (mw_tables st) (pw_agent p) \<and>
                                   channel_open_to (mw_tables st) (pw_channel p) (pw_agent p)) (mw_pending st)) @
     mw_other st"

definition busy :: "mw_state \<Rightarrow> id \<Rightarrow> bool" where
  "busy st agent = exists_row (\<lambda>r. rn_agent r = agent \<and> rn_finished r = None) (mw_runs st)"

definition inbox_rank :: "inbox_item \<Rightarrow> int \<times> time \<times> string \<times> string" where
  "inbox_rank i = (ib_priority i, ib_created i, ib_kind i, ib_work i)"

definition inbox_head :: "time \<Rightarrow> mw_state \<Rightarrow> id \<Rightarrow> inbox_item option" where
  "inbox_head instant st agent =
     (if busy st agent then None
      else pick_by (\<lambda>a b. inbox_rank a < inbox_rank b)
             (filter (\<lambda>i. ib_agent i = agent \<and> ib_ready i \<le> instant) (agent_inbox st)))"

definition agent_inbox_turn :: "time \<Rightarrow> mw_state \<Rightarrow> id \<Rightarrow> string \<Rightarrow> string \<Rightarrow> bool" where
  "agent_inbox_turn instant st agent kind work =
     (case inbox_head instant st agent of None \<Rightarrow> False | Some i \<Rightarrow> ib_kind i = kind \<and> ib_work i = work)"

definition inbox_ready :: "time \<Rightarrow> mw_state \<Rightarrow> id \<Rightarrow> bool" where
  "inbox_ready instant st agent = exists_row (\<lambda>i. ib_agent i = agent \<and> ib_ready i \<le> instant) (agent_inbox st)"

section \<open>Slots and pending wakes\<close>

definition lock_message_wake_slot :: "id \<Rightarrow> id \<Rightarrow> mw_state \<Rightarrow> mw_state" where
  "lock_message_wake_slot agent ch st =
     (if exists_row (\<lambda>s. sl_agent s = agent \<and> sl_channel s = ch) (mw_slots st) then st
      else st\<lparr>mw_slots := mw_slots st @ [\<lparr>sl_agent = agent, sl_channel = ch, sl_run = None\<rparr>]\<rparr>)"

definition set_slot :: "id \<Rightarrow> id \<Rightarrow> id option \<Rightarrow> mw_state \<Rightarrow> mw_state" where
  "set_slot agent ch run st =
     st\<lparr>mw_slots := update_where (\<lambda>s. sl_agent s = agent \<and> sl_channel s = ch) (\<lambda>s. s\<lparr>sl_run := run\<rparr>) (mw_slots st)\<rparr>"

definition find_active_message_run :: "mw_state \<Rightarrow> id \<Rightarrow> id option" where
  "find_active_message_run st agent =
     map_option rn_id (pick_by (\<lambda>a b. (rn_started a, rn_id a) < (rn_started b, rn_id b))
       (filter (\<lambda>r. rn_agent r = agent \<and> rn_finished r = None) (mw_runs st)))"

definition message_wake_allowed :: "mw_state \<Rightarrow> id \<Rightarrow> id \<Rightarrow> id \<Rightarrow> bool \<Rightarrow> bool" where
  "message_wake_allowed st agent ch th explicit =
     exists_row (\<lambda>a. wa_id a = agent \<and> wa_active a \<and> attends (mw_tables st) ch th explicit a) (wk_agents (mw_tables st))"

definition same_wake :: "id \<Rightarrow> id \<Rightarrow> string \<Rightarrow> pending_wake \<Rightarrow> bool" where
  "same_wake agent ch key p \<longleftrightarrow> pw_agent p = agent \<and> pw_channel p = ch \<and> pw_key p = key"

text \<open>The insertion, with its conflict clause; the creation time of an existing row stays.\<close>

definition upsert_pending_message_wake ::
  "time \<Rightarrow> id \<Rightarrow> id \<Rightarrow> id \<Rightarrow> int \<Rightarrow> int \<Rightarrow> bool \<Rightarrow> mw_state \<Rightarrow> mw_state" where
  "upsert_pending_message_wake instant agent ch th first latest visible st =
     (if \<not> message_wake_allowed st agent ch th visible then st
      else if exists_row (same_wake agent ch (message_wake_scope_key th)) (mw_pending st)
      then st\<lparr>mw_pending := update_where (same_wake agent ch (message_wake_scope_key th))
             (\<lambda>p. p\<lparr>pw_first := min (pw_first p) first, pw_latest := max (pw_latest p) latest,
                    pw_visible := pw_visible p \<or> visible\<rparr>) (mw_pending st)\<rparr>
      else st\<lparr>mw_pending := mw_pending st @
             [\<lparr>pw_agent = agent, pw_channel = ch, pw_key = message_wake_scope_key th, pw_thread = nullable th,
               pw_first = first, pw_latest = latest, pw_visible = visible, pw_created = instant\<rparr>]\<rparr>)"

definition drop_wake :: "pending_wake \<Rightarrow> mw_state \<Rightarrow> mw_state" where
  "drop_wake p st = st\<lparr>mw_pending := delete_where (same_wake (pw_agent p) (pw_channel p) (pw_key p)) (mw_pending st)\<rparr>"

section \<open>Starting the run of a wake\<close>

record message_turn =
  mt_agent :: id
  mt_channel :: id
  mt_thread :: id
  mt_trigger :: id
  mt_visible :: bool
  mt_payload :: task_payload

text \<open>The activity of a queued run is the text ``waiting to run'' in Chinese, here by its UTF-8 bytes.\<close>

definition queued_activity :: "daemon_info \<Rightarrow> string" where
  "queued_activity dmn =
     (if dn_computer dmn \<noteq> [] \<and> dn_status dmn \<noteq> DaemonStatusOnline then ''agent.activity.waiting_computer''
      else map char_of [231, 173, 137, 229, 190, 133, 230, 137, 167, 232, 161, 140 :: nat])"

definition wake_run_input :: "daemon_info \<Rightarrow> message_turn \<Rightarrow> int \<Rightarrow> int \<Rightarrow> start_run_input" where
  "wake_run_input dmn t first latest =
     \<lparr>sr_agent = mt_agent t, sr_daemon = dn_id dmn, sr_session = [], sr_rollover = [],
      sr_scope = \<lparr>trigger_type = ''message'', trigger_message = nullable (mt_trigger t),
                  scope_channel = nullable (mt_channel t), scope_thread = nullable (mt_thread t), scope_node = None\<rparr>,
      sr_status = Some AgentRunStatusQueued, sr_activity = queued_activity dmn, sr_tool = [], sr_input = [],
      sr_source = tp_provider (mt_payload t), sr_usage = UsageEmpty,
      sr_wake = \<lparr>freshness_seen = latest, wake_first = first, wake_latest = latest, wake_visible = mt_visible t\<rparr>\<rparr>"

definition undelivered :: "id \<Rightarrow> delivery_row" where
  "undelivered rid = \<lparr>dv_run = rid, dv_computer = None, dv_payload = None, dv_expires = 0, dv_attempt = None,
                      dv_accepted = None, dv_count = 0\<rparr>"

text \<open>A run inserted by \<open>startRunTx\<close>, with the columns of its delivery empty.\<close>

definition start_wake_run ::
  "wake_env \<Rightarrow> daemon_info \<Rightarrow> message_turn \<Rightarrow> int \<Rightarrow> int \<Rightarrow> mw_state \<Rightarrow> wake_error + (mw_state \<times> run_row)" where
  "start_wake_run e dmn t first latest st =
     (case start_run_tx (renv.truncate e) (r_tables (mw_remote st)) (wake_run_input dmn t first latest) of
        Inl err \<Rightarrow> Inl (WakeRun err)
      | Inr (d, r) \<Rightarrow>
          Inr (st\<lparr>mw_remote := (mw_remote st)\<lparr>r_tables := d,
                    run_deliveries := run_deliveries (mw_remote st) @ [undelivered (rn_id r)]\<rparr>\<rparr>, r))"

text \<open>\<open>persistRemoteMessageRunTx\<close>: the payload of a run for a remote computer is stored with the run.\<close>

definition persist_remote_message_run ::
  "wake_env \<Rightarrow> daemon_info \<Rightarrow> run_row \<Rightarrow> message_turn \<Rightarrow> mw_state \<Rightarrow> wake_error + mw_state" where
  "persist_remote_message_run e dmn r t st =
     (if dn_computer dmn = [] then Inr st
      else
        (case render_relationships e (mt_agent t) (mt_channel t) of
           None \<Rightarrow> Inl (WakeText ''relationships'')
         | Some _ \<Rightarrow>
        (case run_revision e (rn_id r) ((mt_payload t)\<lparr>tp_run := rn_id r, tp_task := rn_id r\<rparr>) of
           Inl err \<Rightarrow> Inl (WakeText err)
         | Inr p0 \<Rightarrow>
        (case validate_revision_runtime p0 (dn_capabilities dmn) of
           Some err \<Rightarrow> Inl (WakeText err)
         | None \<Rightarrow>
        (case (if tp_code_review p0 then Inr (r_tables (mw_remote st), p0)
               else case resolve_session_dispatch (renv.truncate e) (r_tables (mw_remote st))
                           \<lparr>di_run = rn_id r, di_agent = mt_agent t, di_channel = mt_channel t, di_provider = tp_provider p0,
                            di_node = tp_node p0, di_resume = tp_resume p0, di_force_fresh = tp_fresh p0,
                            di_supports_rollover = has_capability (dn_capabilities dmn) contextRolloverCapability\<rparr> of
                      Inl err \<Rightarrow> Inl (WakeRun err)
                    | Inr (d, s) \<Rightarrow>
                        (case apply_session_dispatch e p0 s of Inl err \<Rightarrow> Inl (WakeRun err) | Inr p \<Rightarrow> Inr (d, p))) of
           Inl err \<Rightarrow> Inl err
         | Inr (d, p) \<Rightarrow>
             Inr (st\<lparr>mw_remote :=
               (let w = (mw_remote st)\<lparr>r_tables := d\<rparr>
                in if run_open w (rn_id r)
                   then set_delivery (rn_id r)
                          (\<lambda>v. v\<lparr>dv_computer := Some (dn_computer dmn), dv_payload := Some p,
                                 dv_expires := clock e + remoteRunDeliveryTTL, dv_attempt := None, dv_accepted := None\<rparr>) w
                   else w)\<rparr>))))))"

datatype claim_answer = Started run_row | Queued

definition claim_message_wake ::
  "wake_env \<Rightarrow> daemon_info \<Rightarrow> message_turn \<Rightarrow> int \<Rightarrow> int \<Rightarrow> mw_state \<Rightarrow> wake_error + (mw_state \<times> claim_answer)" where
  "claim_message_wake e dmn t first latest st0 =
     (let agent = mt_agent t; ch = mt_channel t; th = mt_thread t; visible = mt_visible t;
          st = lock_message_wake_slot agent ch st0
      in if \<not> message_wake_allowed st agent ch th visible then Inr (st0, Queued)
         else
           (case find_active_message_run st agent of
              Some rid \<Rightarrow>
                Inr (upsert_pending_message_wake (clock e) agent ch th first latest visible (set_slot agent ch (Some rid) st), Queued)
            | None \<Rightarrow>
                if inbox_ready (clock e) st agent
                then Inr (upsert_pending_message_wake (clock e) agent ch th first latest visible st, Queued)
                else
                  (case start_wake_run e dmn t first latest st of
                     Inl err \<Rightarrow> Inl err
                   | Inr (st1, r) \<Rightarrow>
                       (case persist_remote_message_run e dmn r t (set_slot agent ch (Some (rn_id r)) st1) of
                          Inl err \<Rightarrow> Inl err
                        | Inr st2 \<Rightarrow> Inr (st2, Started r)))))"

section \<open>The next pending wake\<close>

definition wake_message_in :: "pending_wake \<Rightarrow> wake_message \<Rightarrow> bool" where
  "wake_message_in p m \<longleftrightarrow>
     wm_channel m = pw_channel p \<and> pw_first p \<le> wm_seq m \<and> wm_seq m \<le> pw_latest p \<and> \<not> wm_deleted m \<and>
     wm_node m = None \<and> wm_thread m = pw_thread p"

text \<open>The newest message of a pending wake the agent may still be woken for.\<close>

definition wake_trigger :: "mw_state \<Rightarrow> pending_wake \<Rightarrow> wake_message option" where
  "wake_trigger st p =
     pick_by (\<lambda>a b. wm_seq a > wm_seq b)
       (filter (\<lambda>m. wake_message_in p m \<and> channel_open_to (mw_tables st) (pw_channel p) (pw_agent p) \<and>
                    \<not> exists_row (\<lambda>c. cn_agent c = pw_agent p \<and> cn_message c = wm_id m) (mw_consumed st))
          (wk_messages (mw_tables st)))"

definition wake_order :: "pending_wake \<Rightarrow> int \<times> time \<times> string" where
  "wake_order p = (if pw_visible p then 0 else 1, pw_created p, pw_key p)"

definition first_pending :: "mw_state \<Rightarrow> id \<Rightarrow> pending_wake option" where
  "first_pending st agent =
     pick_by (\<lambda>a b. wake_order a < wake_order b) (filter (\<lambda>p. pw_agent p = agent) (mw_pending st))"

lemma first_pending_in: "first_pending st agent = Some p \<Longrightarrow> p \<in> set (mw_pending st) \<and> pw_agent p = agent"
  using pick_by_in [of _ "filter (\<lambda>p. pw_agent p = agent) (mw_pending st)" p] by (auto simp: first_pending_def)

lemma drop_wake_fewer:
  assumes "first_pending st agent = Some p"
  shows "length (mw_pending (drop_wake p st)) < length (mw_pending st)"
  using first_pending_in [OF assms]
  by (auto simp: drop_wake_def delete_where_def same_wake_def intro: length_filter_less)

text \<open>
  The loop of \<open>advancePendingMessageWake\<close>: wakes that are no longer allowed, or have no message left, are
  dropped. It answers the channel it came to last.
\<close>

function next_wake :: "id \<Rightarrow> id \<Rightarrow> mw_state \<Rightarrow> mw_state \<times> id \<times> (pending_wake \<times> wake_message) option" where
  "next_wake agent ch st =
     (case first_pending st agent of
        None \<Rightarrow> (st, ch, None)
      | Some p \<Rightarrow>
          if \<not> message_wake_allowed st agent (pw_channel p) (coalesce (pw_thread p)) (pw_visible p)
          then next_wake agent (pw_channel p) (drop_wake p st)
          else
            (case wake_trigger st p of
               None \<Rightarrow> next_wake agent (pw_channel p) (drop_wake p st)
             | Some m \<Rightarrow> (st, pw_channel p, Some (p, m))))"
  by pat_completeness auto

termination
  by (relation "measure (\<lambda>(agent, ch, st). length (mw_pending st))") (auto intro: drop_wake_fewer)

lemmas [simp del] = next_wake.simps

text \<open>The messages of a claimed wake, without those the agent has consumed in an earlier run.\<close>

definition wake_turn_messages :: "mw_state \<Rightarrow> pending_wake \<Rightarrow> wake_message list" where
  "wake_turn_messages st p =
     filter (\<lambda>m. \<not> exists_row (\<lambda>c. cn_agent c = pw_agent p \<and>
                    exists_row (\<lambda>x. wm_id x = cn_message c \<and> wm_channel x = pw_channel p \<and> wm_seq x = wm_seq m)
                      (wk_messages (mw_tables st))) (mw_consumed st))
       (sort_key wm_seq (filter (\<lambda>m. wake_message_in p m) (wk_messages (mw_tables st))))"

definition wake_turn :: "pending_wake \<Rightarrow> wake_message \<Rightarrow> task_payload \<Rightarrow> message_turn" where
  "wake_turn p m payload =
     \<lparr>mt_agent = pw_agent p, mt_channel = pw_channel p, mt_thread = coalesce (pw_thread p), mt_trigger = wm_id m,
      mt_visible = pw_visible p, mt_payload = payload\<rparr>"

text \<open>
  \<open>payload\<close> is what \<open>buildPendingMessageWakeTask\<close> composes for the messages. A run that cannot be started
  leaves everything as it was, the rows the loop dropped included; so does a wake whose turn it is not. (What
  resolving the daemon may write, the binding of an unbound agent, is outside the transaction and not kept here.)
\<close>

definition advance_pending_message_wake ::
  "wake_env \<Rightarrow> (pending_wake \<Rightarrow> wake_message list \<Rightarrow> task_payload) \<Rightarrow> fleet \<Rightarrow> bindings_db \<Rightarrow> id \<Rightarrow> id \<Rightarrow> mw_state \<Rightarrow>
   wake_error + (mw_state \<times> run_row option)" where
  "advance_pending_message_wake e payload f b agent ch st0 =
     (let st = lock_message_wake_slot agent ch st0
      in case find_active_message_run st agent of
           Some rid \<Rightarrow> Inr (set_slot agent ch (Some rid) st, None)
         | None \<Rightarrow>
             if \<not> agent_is_active (mw_tables st) agent
             then Inr (st\<lparr>mw_pending := delete_where (\<lambda>p. pw_agent p = agent) (mw_pending st),
                          mw_slots := delete_where (\<lambda>s. sl_agent s = agent) (mw_slots st)\<rparr>, None)
             else
               (case next_wake agent ch st of
                  (st1, ch1, None) \<Rightarrow> Inr (set_slot agent ch1 None st1, None)
                | (st1, ch1, Some (p, m)) \<Rightarrow>
                    if \<not> agent_inbox_turn (clock e) st1 agent ''message'' (pw_channel p @ '':'' @ pw_key p) then Inr (st0, None)
                    else
                      (case resolve_daemon_for_agent f agent ''llm'' b of
                         Inl err \<Rightarrow> Inl (WakeResolve err)
                       | Inr (_, dmn) \<Rightarrow>
                           if wake_turn_messages st1 p = [] then Inl (WakeText ''coalesced wake has no remaining messages'')
                           else
                             (let t = wake_turn p m (payload p (wake_turn_messages st1 p))
                              in case start_wake_run e dmn t (pw_first p) (pw_latest p) st1 of
                                   Inl err \<Rightarrow> Inl err
                                 | Inr (st2, r) \<Rightarrow>
                                     (case persist_remote_message_run e dmn r t (drop_wake p st2) of
                                        Inl err \<Rightarrow> Inl err
                                      | Inr st3 \<Rightarrow> Inr (set_slot agent ch1 (Some (rn_id r)) st3, Some r))))))"

section \<open>Giving a range back\<close>

text \<open>The ends of a range are null together; zero stands for null.\<close>

definition requeue_undelivered_message_wake :: "time \<Rightarrow> run_row \<Rightarrow> mw_state \<Rightarrow> mw_state" where
  "requeue_undelivered_message_wake instant run st0 =
     (if trigger_type (rn_scope run) \<noteq> ''message'' \<or> scope_node (rn_scope run) \<noteq> None then st0
      else
        (let agent = rn_agent run; ch = coalesce (scope_channel (rn_scope run)); th = coalesce (scope_thread (rn_scope run));
             st = lock_message_wake_slot agent ch st0
         in case find (\<lambda>r. rn_id r = rn_id run \<and> rn_finished r = None) (mw_runs st) of
              None \<Rightarrow> st
            | Some r \<Rightarrow>
                if exists_row (\<lambda>v. dv_run v = rn_id run \<and> dv_accepted v \<noteq> None) (run_deliveries (mw_remote st)) then st
                else if wake_first (rn_wake r) = 0 \<or> wake_latest (rn_wake r) = 0 then st
                else upsert_pending_message_wake instant agent ch th (wake_first (rn_wake r)) (wake_latest (rn_wake r))
                       (wake_visible (rn_wake r)) st))"

text \<open>The keys \<open>drainPendingMessageWakes\<close> goes through.\<close>

definition drain_keys :: "mw_state \<Rightarrow> (id \<times> id) list" where
  "drain_keys st = take 100 (sort (remdups (map (\<lambda>p. (pw_agent p, pw_channel p)) (mw_pending st))))"

definition drain_pending_message_wakes ::
  "(id \<times> id \<Rightarrow> mw_state \<Rightarrow> wake_error + (mw_state \<times> run_row option)) \<Rightarrow> mw_state \<Rightarrow> mw_state" where
  "drain_pending_message_wakes advance st =
     foldl (\<lambda>s k. case advance k s of Inl _ \<Rightarrow> s | Inr (s', _) \<Rightarrow> s') st (drain_keys st)"

section \<open>Ending a run that failed\<close>

text \<open>\<open>SELECT daemon_id\<close> of a run, and the daemon a timed out run is cancelled at.\<close>

definition daemon_of_run :: "fleet \<Rightarrow> bindings_db \<Rightarrow> run_row \<Rightarrow> mw_state \<Rightarrow> daemon_info option" where
  "daemon_of_run f b run st =
     (case row_by rn_id (rn_id run) (mw_runs st) of
        None \<Rightarrow> None
      | Some r \<Rightarrow>
          if coalesce (rn_daemon r) \<noteq> []
          then (case get_daemon f (coalesce (rn_daemon r)) of
                  Some d \<Rightarrow> if dn_status d = DaemonStatusOnline then Some d else None
                | None \<Rightarrow> None)
          else (case resolve_daemon_for_agent f (rn_agent run) [] b of Inl _ \<Rightarrow> None | Inr (_, d) \<Rightarrow> Some d))"

text \<open>
  What \<open>finishDaemonLostRun\<close> and \<open>finishTimedOutAgentRun\<close> have in common. \<open>run\<close> is the run as it was read
  before; each step is a statement or transaction of its own, so an error keeps what was done before it.
\<close>

definition finish_failed_run ::
  "wake_env \<Rightarrow> (pending_wake \<Rightarrow> wake_message list \<Rightarrow> task_payload) \<Rightarrow> fleet \<Rightarrow> bindings_db \<Rightarrow> run_row \<Rightarrow>
   run_status \<Rightarrow> string \<Rightarrow> string \<Rightarrow> bool \<Rightarrow> mw_state \<Rightarrow> mw_state" where
  "finish_failed_run e payload f b run status activity code retryable st0 =
     (let st1 = (if rn_backend run = None then requeue_undelivered_message_wake (clock e) run st0 else st0)
      in case finish_run (renv.truncate e) (r_tables (mw_remote st1))
                \<lparr>fi_run = rn_id run, fi_status = status, fi_activity = activity, fi_usage = UsageEmpty\<rparr> of
           Inl _ \<Rightarrow> st1
         | Inr d1 \<Rightarrow>
             (let d2 = (case append_event (renv.truncate e) d1 (rn_id run) ErrorEvent activity [] (failure_payload status code retryable) of
                          Inl _ \<Rightarrow> d1 | Inr d \<Rightarrow> d);
                  st2 = st1\<lparr>mw_remote := (mw_remote st1)\<lparr>r_tables := d2\<rparr>\<rparr>
              in if trigger_type (rn_scope run) = ''message'' \<and> trigger_message (rn_scope run) \<noteq> None \<and>
                    scope_node (rn_scope run) = None
                 then (case advance_pending_message_wake e payload f b (rn_agent run) (coalesce (scope_channel (rn_scope run))) st2 of
                         Inl _ \<Rightarrow> st2 | Inr (st3, _) \<Rightarrow> st3)
                 else st2))"

definition finish_daemon_lost_run ::
  "wake_env \<Rightarrow> (pending_wake \<Rightarrow> wake_message list \<Rightarrow> task_payload) \<Rightarrow> fleet \<Rightarrow> bindings_db \<Rightarrow> run_row \<Rightarrow> mw_state \<Rightarrow> mw_state" where
  "finish_daemon_lost_run e payload f b run st =
     finish_failed_run e payload f b run AgentRunStatusFailed agentActivityDaemonLost agentFailureDaemonLost True st"

definition finish_timed_out_agent_run ::
  "wake_env \<Rightarrow> (pending_wake \<Rightarrow> wake_message list \<Rightarrow> task_payload) \<Rightarrow> (id \<Rightarrow> id \<Rightarrow> bool) \<Rightarrow> fleet \<Rightarrow> bindings_db \<Rightarrow> run_row \<Rightarrow>
   string \<Rightarrow> mw_state \<Rightarrow> mw_state" where
  "finish_timed_out_agent_run e payload cancel_ok f b run activity st =
     finish_failed_run e payload f b run AgentRunStatusTimeout activity agentFailureTimeout
       (case daemon_of_run f b run st of None \<Rightarrow> False | Some d \<Rightarrow> cancel_ok (dn_id d) (rn_id run)) st"

end
