(* ===== verification/Message_Theorems.thy ===== *)
theory Message_Theorems
  imports Message_Wake Run_Invariant
begin

text \<open>
  Properties of the queue of message wakes: messages an agent was woken for stay awaited until a run that
  reached it has them, whatever is queued, dispatched or times out in between; the one way around it is the
  health check of the daemon registry; and a wake never starts a run beside an unfinished one.
\<close>

section \<open>What the operations on runs leave of them\<close>

definition wake_view :: "run_row \<Rightarrow> id \<times> id \<times> run_scope \<times> run_wake \<times> time option \<times> time option" where
  "wake_view r = (rn_id r, rn_agent r, rn_scope r, rn_wake r, rn_backend r, rn_finished r)"

abbreviation views :: "rdb \<Rightarrow> (id \<times> id \<times> run_scope \<times> run_wake \<times> time option \<times> time option) list" where
  "views d \<equiv> map wake_view (runs d)"

lemma views_set_run:
  "(\<And>r. wake_view (f r) = wake_view r) \<Longrightarrow> views (fst (set_run rid P f d)) = views d"
  by (simp add: set_run_def update_where_def)

lemma views_move [simp]: "views (move_session e s a b d) = views d"
  by (simp add: move_session_def)

lemma mismatch_fails [simp]: "mismatch why \<noteq> Inr x"
  by (simp add: mismatch_def)

lemma views_one_row: "one_row why u = Inr d' \<Longrightarrow> views d' = views (fst u)"
  by (auto simp: one_row_def split: if_splits)

lemma views_drop_rollover: "drop_rollover e rid from d = Inr d' \<Longrightarrow> views d' = views d"
  unfolding drop_rollover_def by (drule views_one_row) (simp add: views_set_run wake_view_def)

lemma views_persisted: "resolve_persisted_rollover e d i from cur = Inr (d', s) \<Longrightarrow> views d' = views d"
  by (auto simp: resolve_persisted_rollover_def split: option.splits if_splits sum.splits dest: views_drop_rollover)

lemma views_current: "resolve_current e d i r cur = Inr (Some (d', s)) \<Longrightarrow> views d' = views d"
  by (auto simp: resolve_current_def map_sum_def views_set_run wake_view_def
      split: option.splits if_splits sum.splits dest!: views_one_row)

lemma views_force_fresh: "resolve_force_fresh e d i = Inr (d', s) \<Longrightarrow> views d' = views d"
  by (auto simp: resolve_force_fresh_def Let_def views_set_run wake_view_def
      split: option.splits if_splits dest!: views_persisted)

lemma views_candidate: "resolve_candidate e d i = Inr (d', s) \<Longrightarrow> views d' = views d"
  by (auto simp: resolve_candidate_def views_set_run wake_view_def split: option.splits if_splits)

lemma views_resolve: "resolve_session_dispatch e d i = Inr (d', s) \<Longrightarrow> views d' = views d"
  unfolding resolve_session_dispatch_def
  by (auto split: option.splits if_splits sum.splits
      dest: views_persisted views_current views_force_fresh views_candidate)

lemma views_start:
  assumes "start_run_tx e d i = Inr (d', r)"
  shows "views d' = views d @ [wake_view r] \<and> rn_id r \<notin> rn_id ` set (runs d) \<and> rn_agent r = sr_agent i \<and>
         rn_scope r = sr_scope i \<and> rn_wake r = sr_wake i \<and> rn_finished r = None \<and> rn_backend r = None"
  using assms
  by (auto simp: start_run_tx_def Let_def exists_row_iff wake_view_def split: option.splits if_splits sum.splits
      dest!: reserve_frame)

lemma views_append: "append_event e d rid ty msg tool p = Inr d' \<Longrightarrow> views d' = views d"
  by (auto simp: append_event_def append_run_event_def split: sum.splits)

lemma views_finish:
  assumes "finish_run e d i = Inr d'"
  shows "runs d' = update_where (\<lambda>r. rn_id r = fi_run i \<and> rn_finished r = None) (finished e i) (runs d)"
  using assms
  by (auto simp: finish_run_def set_run_def Let_def split: if_splits option.splits dest!: sessions_settle)

section \<open>What an agent still waits to read\<close>

definition accepted :: "mw_state \<Rightarrow> id \<Rightarrow> bool" where
  "accepted st rid \<longleftrightarrow> (\<exists>v \<in> set (run_deliveries (mw_remote st)). dv_run v = rid \<and> dv_accepted v \<noteq> None)"

definition covers :: "id \<Rightarrow> wake_message \<Rightarrow> run_row \<Rightarrow> bool" where
  "covers agent m r \<longleftrightarrow>
     rn_agent r = agent \<and> trigger_type (rn_scope r) = ''message'' \<and> scope_channel (rn_scope r) = Some (wm_channel m) \<and>
     scope_thread (rn_scope r) = wm_thread m \<and> scope_node (rn_scope r) = None \<and>
     0 < wake_first (rn_wake r) \<and> wake_first (rn_wake r) \<le> wm_seq m \<and> wm_seq m \<le> wake_latest (rn_wake r)"

definition in_hand :: "mw_state \<Rightarrow> id \<Rightarrow> wake_message \<Rightarrow> bool" where
  "in_hand st agent m \<longleftrightarrow>
     (\<exists>r \<in> set (mw_runs st). covers agent m r \<and> (rn_finished r = None \<or> rn_backend r \<noteq> None \<or> accepted st (rn_id r)))"

definition queued :: "mw_state \<Rightarrow> id \<Rightarrow> wake_message \<Rightarrow> bool" where
  "queued st agent m \<longleftrightarrow> (\<exists>p \<in> set (mw_pending st). pw_agent p = agent \<and> wake_message_in p m)"

definition awaits :: "mw_state \<Rightarrow> id \<Rightarrow> wake_message \<Rightarrow> bool" where
  "awaits st agent m \<longleftrightarrow> queued st agent m \<or> in_hand st agent m"

text \<open>The message is there, and the agent may be woken for it even when it is not mentioned.\<close>

definition deliverable :: "mw_state \<Rightarrow> id \<Rightarrow> wake_message \<Rightarrow> bool" where
  "deliverable st agent m \<longleftrightarrow>
     m \<in> set (wk_messages (mw_tables st)) \<and> \<not> wm_deleted m \<and> wm_node m = None \<and> wm_thread m \<noteq> Some [] \<and> wm_channel m \<noteq> [] \<and>
     agent_is_active (mw_tables st) agent \<and> channel_open_to (mw_tables st) (wm_channel m) agent \<and>
     message_wake_allowed st agent (wm_channel m) (coalesce (wm_thread m)) False \<and>
     \<not> exists_row (\<lambda>c. cn_agent c = agent \<and> cn_message c = wm_id m) (mw_consumed st)"

definition queue_ok :: "mw_state \<Rightarrow> bool" where
  "queue_ok st \<longleftrightarrow>
     keyed rn_id (mw_runs st) \<and> keyed (\<lambda>p. (pw_agent p, pw_channel p, pw_key p)) (mw_pending st) \<and>
     (\<forall>r \<in> set (mw_runs st). 0 \<le> wake_first (rn_wake r)) \<and>
     (\<forall>p \<in> set (mw_pending st).
        pw_key p = message_wake_scope_key (coalesce (pw_thread p)) \<and> pw_thread p \<noteq> Some [] \<and> 0 < pw_first p)"

lemma scope_key_inject [simp]: "message_wake_scope_key a = message_wake_scope_key b \<longleftrightarrow> a = b"
  by (auto simp: message_wake_scope_key_def)

lemma nullable_coalesce [simp]: "t \<noteq> Some [] \<Longrightarrow> nullable (coalesce t) = t"
  by (cases t) (auto simp: nullable_def coalesce_def)

lemma nullable_nonempty [simp]: "nullable t \<noteq> Some []"
  by (simp add: nullable_def)

lemma nullable_some [simp]: "t \<noteq> [] \<Longrightarrow> nullable t = Some t"
  by (simp add: nullable_def)

lemma covers_view: "wake_view r = wake_view r' \<Longrightarrow> covers agent m r = covers agent m r'"
  by (simp add: covers_def wake_view_def)

lemma allowed_explicit:
  "message_wake_allowed st agent ch th False \<Longrightarrow> message_wake_allowed st agent ch th visible"
  by (auto simp: message_wake_allowed_def exists_row_iff attends_def)

text \<open>Two states with the same tables; what the locks and slots leave alone.\<close>

definition same_world :: "mw_state \<Rightarrow> mw_state \<Rightarrow> bool" where
  "same_world st st' \<longleftrightarrow> mw_tables st' = mw_tables st \<and> mw_consumed st' = mw_consumed st"

lemma same_world_trans: "same_world a b \<Longrightarrow> same_world b c \<Longrightarrow> same_world a c"
  by (simp add: same_world_def)

lemma deliverable_same: "same_world st st' \<Longrightarrow> deliverable st' agent m = deliverable st agent m"
  by (simp add: same_world_def deliverable_def message_wake_allowed_def)

definition same_queue :: "mw_state \<Rightarrow> mw_state \<Rightarrow> bool" where
  "same_queue st st' \<longleftrightarrow> same_world st st' \<and> mw_pending st' = mw_pending st \<and> mw_remote st' = mw_remote st"

lemma lock_same [simp]: "same_queue st (lock_message_wake_slot a c st)"
  by (simp add: same_queue_def same_world_def lock_message_wake_slot_def)

lemma set_slot_same [simp]: "same_queue st (set_slot a c r st)"
  by (simp add: same_queue_def same_world_def set_slot_def)

lemma same_queue_facts:
  assumes "same_queue st st'"
  shows "queue_ok st' = queue_ok st" "awaits st' agent m = awaits st agent m" "deliverable st' agent m = deliverable st agent m"
    "mw_runs st' = mw_runs st" "mw_pending st' = mw_pending st" "mw_tables st' = mw_tables st"
  using assms deliverable_same [of st st' agent m]
  by (simp_all add: same_queue_def same_world_def queue_ok_def awaits_def queued_def in_hand_def accepted_def mw_runs_def)

section \<open>Queueing\<close>

lemma upsert_same:
  "same_world st (upsert_pending_message_wake t a c th f l v st) \<and>
   mw_remote (upsert_pending_message_wake t a c th f l v st) = mw_remote st"
  by (simp add: upsert_pending_message_wake_def same_world_def)

lemma upsert_ok:
  assumes "queue_ok st" and "0 < f"
  shows "queue_ok (upsert_pending_message_wake t a c th f l v st)"
proof (cases "exists_row (same_wake a c (message_wake_scope_key th)) (mw_pending st)")
  case True
  have "keyed (\<lambda>p. (pw_agent p, pw_channel p, pw_key p)) (update_where P (\<lambda>p. p\<lparr>pw_first := min (pw_first p) f,
      pw_latest := max (pw_latest p) l, pw_visible := pw_visible p \<or> v\<rparr>) (mw_pending st))" for P
    using assms by (subst keyed_update.keyed_update_iff) (unfold_locales, simp_all add: queue_ok_def)
  with True assms show ?thesis
    by (auto simp: upsert_pending_message_wake_def queue_ok_def mw_runs_def row_simps)
next
  case False
  then have "(a, c, message_wake_scope_key th) \<notin> (\<lambda>p. (pw_agent p, pw_channel p, pw_key p)) ` set (mw_pending st)"
    by (auto simp: exists_row_iff same_wake_def)
  with False assms show ?thesis
    by (auto simp: upsert_pending_message_wake_def queue_ok_def mw_runs_def keyed_insert nullable_nonempty)
qed

lemma upsert_queued:
  assumes "queued st agent m"
  shows "queued (upsert_pending_message_wake t a c th f l v st) agent m"
proof -
  from assms obtain p where p: "p \<in> set (mw_pending st)" "pw_agent p = agent" "wake_message_in p m"
    by (auto simp: queued_def)
  let ?g = "\<lambda>p. if same_wake a c (message_wake_scope_key th) p
     then p\<lparr>pw_first := min (pw_first p) f, pw_latest := max (pw_latest p) l, pw_visible := pw_visible p \<or> v\<rparr> else p"
  have g: "pw_agent (?g p) = agent \<and> wake_message_in (?g p) m" using p by (simp add: wake_message_in_def min_le_iff_disj le_max_iff_disj)
  have "p \<in> set (mw_pending (upsert_pending_message_wake t a c th f l v st)) \<or>
        ?g p \<in> set (mw_pending (upsert_pending_message_wake t a c th f l v st))"
    using p(1) by (simp add: upsert_pending_message_wake_def set_update_where)
  with g p show ?thesis unfolding queued_def by blast
qed

lemma upsert_covers:
  assumes ok: "queue_ok st" and allowed: "message_wake_allowed st agent (wm_channel m) (coalesce (wm_thread m)) v"
    and m: "wm_thread m \<noteq> Some []" "\<not> wm_deleted m" "wm_node m = None" "f \<le> wm_seq m" "wm_seq m \<le> l"
  shows "queued (upsert_pending_message_wake t agent (wm_channel m) (coalesce (wm_thread m)) f l v st) agent m"
proof (cases "exists_row (same_wake agent (wm_channel m) (message_wake_scope_key (coalesce (wm_thread m)))) (mw_pending st)")
  case True
  then obtain p where p: "p \<in> set (mw_pending st)"
    "same_wake agent (wm_channel m) (message_wake_scope_key (coalesce (wm_thread m))) p"
    by (auto simp: exists_row_iff)
  then have "coalesce (pw_thread p) = coalesce (wm_thread m)" "pw_thread p \<noteq> Some []"
    using ok by (auto simp: queue_ok_def same_wake_def)
  then have th: "pw_thread p = wm_thread m" using m(1) nullable_coalesce by metis
  let ?p = "p\<lparr>pw_first := min (pw_first p) f, pw_latest := max (pw_latest p) l, pw_visible := pw_visible p \<or> v\<rparr>"
  have "pw_agent ?p = agent" "wake_message_in ?p m" using p(2) m th by (auto simp: wake_message_in_def same_wake_def)
  moreover have "?p \<in> set (mw_pending (upsert_pending_message_wake t agent (wm_channel m) (coalesce (wm_thread m)) f l v st))"
    using True allowed p by (auto simp: upsert_pending_message_wake_def row_simps)
  ultimately show ?thesis unfolding queued_def by blast
next
  case False
  with allowed m show ?thesis
    by (simp add: upsert_pending_message_wake_def queued_def wake_message_in_def)
qed

section \<open>Starting a run\<close>

definition grown :: "mw_state \<Rightarrow> mw_state \<Rightarrow> run_row \<Rightarrow> bool" where
  "grown st st' r \<longleftrightarrow>
     same_world st st' \<and> mw_pending st' = mw_pending st \<and>
     map wake_view (mw_runs st') = map wake_view (mw_runs st) @ [wake_view r] \<and>
     rn_id r \<notin> rn_id ` set (mw_runs st) \<and> rn_finished r = None \<and>
     (\<forall>rid. rid \<noteq> rn_id r \<longrightarrow> accepted st' rid = accepted st rid)"

lemma same_queue_grown: "same_queue st1 st2 \<Longrightarrow> grown st st1 r \<Longrightarrow> grown st st2 r"
  by (simp add: grown_def same_queue_def same_world_def mw_runs_def accepted_def)

lemma accepted_undelivered:
  "accepted (st\<lparr>mw_remote := (mw_remote st)\<lparr>r_tables := d, run_deliveries := run_deliveries (mw_remote st) @ [undelivered x]\<rparr>\<rparr>) rid =
   accepted st rid"
  by (simp add: accepted_def undelivered_def)

lemma start_grown:
  assumes "start_wake_run e dmn t f l st = Inr (st', r)"
  shows "grown st st' r \<and> rn_agent r = mt_agent t \<and> trigger_type (rn_scope r) = ''message'' \<and>
         scope_channel (rn_scope r) = nullable (mt_channel t) \<and> scope_thread (rn_scope r) = nullable (mt_thread t) \<and>
         scope_node (rn_scope r) = None \<and> wake_first (rn_wake r) = f \<and> wake_latest (rn_wake r) = l"
  using assms
  by (auto simp: start_wake_run_def grown_def same_world_def mw_runs_def accepted_undelivered wake_run_input_def
      split: sum.splits dest!: views_start)

lemma persist_grown:
  assumes "persist_remote_message_run e dmn r t st1 = Inr st2" and "grown st st1 r"
  shows "grown st st2 r"
proof (cases "dn_computer dmn = []")
  case True
  with assms show ?thesis by (simp add: persist_remote_message_run_def)
next
  case False
  with assms(1) obtain d g where st2: "st2 = st1\<lparr>mw_remote :=
        (let w = (mw_remote st1)\<lparr>r_tables := d\<rparr>
         in if run_open w (rn_id r)
            then set_delivery (rn_id r) (\<lambda>v. v\<lparr>dv_computer := Some (dn_computer dmn), dv_payload := Some g,
                   dv_expires := clock e + remoteRunDeliveryTTL, dv_attempt := None, dv_accepted := None\<rparr>) w
            else w)\<rparr>" and d: "views d = views (r_tables (mw_remote st1))"
    by (auto simp: persist_remote_message_run_def split: option.splits sum.splits if_splits dest!: views_resolve)
  from d st2 have "map wake_view (mw_runs st2) = map wake_view (mw_runs st1)"
    by (simp add: mw_runs_def set_delivery_def Let_def)
  moreover have "accepted st2 rid = accepted st1 rid" if "rid \<noteq> rn_id r" for rid
    using that st2 by (auto simp: accepted_def set_delivery_def Let_def set_update_where)
  ultimately show ?thesis
    using assms(2) st2 by (simp add: grown_def same_world_def)
qed

lemma grown_keeps_held:
  assumes g: "grown st st' r" and h: "in_hand st agent m"
  shows "in_hand st' agent m"
proof -
  from h obtain x where x: "x \<in> set (mw_runs st)" "covers agent m x"
    "rn_finished x = None \<or> rn_backend x \<noteq> None \<or> accepted st (rn_id x)"
    by (auto simp: in_hand_def)
  from g have "wake_view x \<in> wake_view ` set (mw_runs st')"
    using x(1) by (metis (no_types, lifting) UnI1 grown_def image_eqI list.set_map set_append)
  then obtain y where y: "y \<in> set (mw_runs st')" "wake_view y = wake_view x" by auto
  have "rn_id x \<noteq> rn_id r" using g x(1) unfolding grown_def by (metis image_eqI)
  then have "accepted st' (rn_id x) = accepted st (rn_id x)" using g by (simp add: grown_def)
  with x(2,3) y(2) have "covers agent m y \<and> (rn_finished y = None \<or> rn_backend y \<noteq> None \<or> accepted st' (rn_id y))"
    using covers_view [OF y(2)] by (simp add: wake_view_def)
  with y(1) show ?thesis unfolding in_hand_def by blast
qed

lemma grown_covers:
  assumes g: "grown st st' r" and "covers agent m r"
  shows "in_hand st' agent m"
proof -
  have "wake_view r \<in> wake_view ` set (mw_runs st')"
    using g by (metis (no_types, lifting) grown_def in_set_conv_decomp list.set_map)
  then obtain y where y: "y \<in> set (mw_runs st')" "wake_view y = wake_view r" by auto
  with g assms(2) show ?thesis using covers_view [OF y(2)] by (auto simp: in_hand_def wake_view_def grown_def)
qed

lemma keyed_views: "keyed rn_id xs \<longleftrightarrow> distinct (map fst (map wake_view xs))"
  by (simp add: keyed_def wake_view_def comp_def)

lemma wakes_views:
  "(\<forall>r \<in> set xs. 0 \<le> wake_first (rn_wake r)) \<longleftrightarrow> (\<forall>(a, b, c, w, u) \<in> set (map wake_view xs). 0 \<le> wake_first w)"
  by (auto simp: wake_view_def)

lemma grown_ok:
  assumes "grown st st' r" and "queue_ok st" and "0 \<le> wake_first (rn_wake r)"
  shows "queue_ok st'"
proof -
  have "keyed rn_id (mw_runs st')" using assms(1,2)
    by (simp add: queue_ok_def grown_def keyed_views) (simp add: wake_view_def)
  moreover have "\<forall>x \<in> set (mw_runs st'). 0 \<le> wake_first (rn_wake x)"
    unfolding wakes_views using assms
    by (simp add: queue_ok_def grown_def wakes_views) (simp add: wake_view_def)
  ultimately show ?thesis using assms(1,2) by (simp add: queue_ok_def grown_def)
qed

section \<open>The loop over pending wakes\<close>

lemma drop_same: "same_world st (drop_wake p st) \<and> mw_remote (drop_wake p st) = mw_remote st"
  by (simp add: drop_wake_def same_world_def)

lemma drop_ok: "queue_ok st \<Longrightarrow> queue_ok (drop_wake p st)"
  by (auto simp: drop_wake_def queue_ok_def keyed_delete mw_runs_def set_delete_where)

lemma drop_only:
  assumes "queue_ok st" "p \<in> set (mw_pending st)" "q \<in> set (mw_pending st)" "q \<noteq> p"
  shows "q \<in> set (mw_pending (drop_wake p st))"
  using assms keyed_unique [of "\<lambda>p. (pw_agent p, pw_channel p, pw_key p)" "mw_pending st" q p]
  by (auto simp: drop_wake_def queue_ok_def set_delete_where same_wake_def)

lemma wanted_wake:
  assumes "deliverable st agent m" "pw_agent p = agent" "wake_message_in p m"
  shows "message_wake_allowed st agent (pw_channel p) (coalesce (pw_thread p)) (pw_visible p)" and "wake_trigger st p \<noteq> None"
proof -
  have "m \<in> set (wk_messages (mw_tables st)) \<and> wake_message_in p m \<and> channel_open_to (mw_tables st) (pw_channel p) (pw_agent p) \<and>
        \<not> exists_row (\<lambda>c. cn_agent c = pw_agent p \<and> cn_message c = wm_id m) (mw_consumed st)"
    using assms by (auto simp: deliverable_def wake_message_in_def)
  then show "wake_trigger st p \<noteq> None" unfolding wake_trigger_def pick_by_None filter_empty_conv by blast
  show "message_wake_allowed st agent (pw_channel p) (coalesce (pw_thread p)) (pw_visible p)"
    using assms by (auto simp: deliverable_def wake_message_in_def intro: allowed_explicit)
qed

lemma next_wake_keeps:
  assumes "queue_ok st" and "next_wake a ch st = (st', ch', got)"
  shows "queue_ok st' \<and> same_world st st' \<and> mw_remote st' = mw_remote st \<and>
         (\<forall>p m. got = Some (p, m) \<longrightarrow> p \<in> set (mw_pending st') \<and> pw_agent p = a) \<and>
         (deliverable st agent m \<and> queued st agent m \<longrightarrow> queued st' agent m)"
  using assms
proof (induction a ch st rule: next_wake.induct)
  case (1 a ch st)
  show ?case
  proof (cases "first_pending st a")
    case None
    with 1 show ?thesis by (simp add: next_wake.simps [of a] same_world_def)
  next
    case (Some p)
    let ?ok = "message_wake_allowed st a (pw_channel p) (coalesce (pw_thread p)) (pw_visible p)"
    show ?thesis
    proof (cases "?ok \<and> wake_trigger st p \<noteq> None")
      case True
      with Some 1(4) first_pending_in [OF Some] 1(3) show ?thesis
        by (auto simp: next_wake.simps [of a] same_world_def)
    next
      case False
      have step: "next_wake a (pw_channel p) (drop_wake p st) = (st', ch', got)"
        using False 1(4) Some by (auto simp: next_wake.simps [of a ch] split: if_splits option.splits)
      have ih: "queue_ok st' \<and> same_world (drop_wake p st) st' \<and> mw_remote st' = mw_remote (drop_wake p st) \<and>
         (\<forall>p m. got = Some (p, m) \<longrightarrow> p \<in> set (mw_pending st') \<and> pw_agent p = a) \<and>
         (deliverable (drop_wake p st) agent m \<and> queued (drop_wake p st) agent m \<longrightarrow> queued st' agent m)"
        using False 1(1) [OF Some _ drop_ok [OF 1(3)] step] 1(2) [OF Some _ _ drop_ok [OF 1(3)] step] by blast
      have "queued (drop_wake p st) agent m" if "deliverable st agent m" "queued st agent m"
      proof -
        from that(2) obtain q where q: "q \<in> set (mw_pending st)" "pw_agent q = agent" "wake_message_in q m"
          by (auto simp: queued_def)
        have "q \<noteq> p" using wanted_wake [OF that(1) q(2,3)] False first_pending_in [OF Some] q(2) by auto
        then show ?thesis using drop_only [OF 1(3) _ q(1)] first_pending_in [OF Some] q by (auto simp: queued_def)
      qed
      then show ?thesis using ih drop_same [of st p] deliverable_same [of st "drop_wake p st" agent m]
        by (auto intro: same_world_trans)
    qed
  qed
qed

section \<open>One run at a time\<close>

definition unfinished_runs :: "mw_state \<Rightarrow> id \<Rightarrow> nat" where
  "unfinished_runs st agent = count_rows (\<lambda>r. rn_agent r = agent \<and> rn_finished r = None) (mw_runs st)"

lemma unfinished_views:
  "unfinished_runs st agent = length (filter (\<lambda>(i, a, s, w, b, f). a = agent \<and> f = None) (map wake_view (mw_runs st)))"
  by (simp add: unfinished_runs_def count_rows_def filter_map comp_def wake_view_def)

lemma idle_count: "find_active_message_run st agent = None \<longleftrightarrow> unfinished_runs st agent = 0"
  by (simp add: find_active_message_run_def unfinished_runs_def count_rows_def)

lemma unfinished_grown:
  "grown st st' r \<Longrightarrow> unfinished_runs st' agent = unfinished_runs st agent + (if rn_agent r = agent then 1 else 0)"
  by (simp add: unfinished_views grown_def wake_view_def)

lemma unfinished_same: "mw_remote st' = mw_remote st \<Longrightarrow> unfinished_runs st' agent = unfinished_runs st agent"
  by (simp add: unfinished_runs_def mw_runs_def)

lemma same_queue_remote: "same_queue st st' \<Longrightarrow> mw_remote st' = mw_remote st"
  by (simp add: same_queue_def)

lemma finish_views:
  assumes "finish_run E (r_tables (mw_remote st)) i = Inr d1" and "views d2 = views d1"
  shows "map wake_view (mw_runs (st\<lparr>mw_remote := (mw_remote st)\<lparr>r_tables := d2\<rparr>\<rparr>)) =
    map (wake_view \<circ> (\<lambda>r. if rn_id r = fi_run i \<and> rn_finished r = None then finished E i r else r)) (mw_runs st)"
  using views_finish [OF assms(1)] assms(2) by (simp add: mw_runs_def update_where_def)

lemma unfinished_fewer:
  assumes "finish_run E (r_tables (mw_remote st)) i = Inr d1" and "views d2 = views d1"
  shows "unfinished_runs (st\<lparr>mw_remote := (mw_remote st)\<lparr>r_tables := d2\<rparr>\<rparr>) agent \<le> unfinished_runs st agent"
proof -
  have "length (filter (\<lambda>(i, a, s, w, b, f). a = agent \<and> f = None)
      (map (wake_view \<circ> (\<lambda>r. if rn_id r = fi_run i \<and> rn_finished r = None then finished E i r else r)) rs)) \<le>
    length (filter (\<lambda>(i, a, s, w, b, f). a = agent \<and> f = None) (map wake_view rs))" for rs
    by (induction rs) (auto simp: wake_view_def finished_def)
  then show ?thesis unfolding unfinished_views finish_views [OF assms] .
qed

section \<open>What each operation leaves awaited\<close>

definition carries :: "id \<Rightarrow> wake_message \<Rightarrow> mw_state \<Rightarrow> mw_state \<Rightarrow> bool" where
  "carries agent m st st' \<longleftrightarrow>
     queue_ok st' \<and> same_world st st' \<and> (deliverable st agent m \<and> awaits st agent m \<longrightarrow> awaits st' agent m) \<and>
     (unfinished_runs st agent \<le> 1 \<longrightarrow> unfinished_runs st' agent \<le> 1)"

lemma kept_trans: "carries agent m a b \<Longrightarrow> carries agent m b c \<Longrightarrow> carries agent m a c"
  using deliverable_same [of a b agent m] same_world_trans [of a b c] by (auto simp: carries_def)

lemma kept_same: "queue_ok st \<Longrightarrow> same_queue st st' \<Longrightarrow> carries agent m st st'"
  using same_queue_facts [of st st'] unfinished_same [of st' st] by (simp add: carries_def same_queue_def)

lemma kept_refl: "queue_ok st \<Longrightarrow> carries agent m st st"
  by (simp add: carries_def same_world_def)

lemma kept_after_same: "queue_ok st \<Longrightarrow> same_queue st st1 \<Longrightarrow> carries agent m st1 st2 \<Longrightarrow> carries agent m st st2"
  using kept_trans kept_same by blast

lemma kept_before_same: "carries agent m st st1 \<Longrightarrow> same_queue st1 st2 \<Longrightarrow> carries agent m st st2"
  using kept_trans [of agent m st st1 st2] kept_same [of st1 st2 agent m] by (simp add: carries_def)

lemma held_remote: "mw_remote st' = mw_remote st \<Longrightarrow> in_hand st' agent m = in_hand st agent m"
  by (simp add: in_hand_def accepted_def mw_runs_def)

lemma kept_upsert:
  assumes "queue_ok st" "0 < f"
  shows "carries agent m st (upsert_pending_message_wake t a c th f l v st)"
  using assms upsert_ok [OF assms] upsert_same [of st t a c th f l v] upsert_queued [of st agent m t a c th f l v]
    held_remote [of "upsert_pending_message_wake t a c th f l v st" st]
    unfinished_same [of "upsert_pending_message_wake t a c th f l v st" st]
  by (auto simp: carries_def awaits_def)

lemma kept_grown:
  assumes "queue_ok st" "grown st st' r" "0 \<le> wake_first (rn_wake r)" "find_active_message_run st (rn_agent r) = None"
  shows "carries agent m st st'"
proof -
  have "unfinished_runs st agent \<le> 1 \<longrightarrow> unfinished_runs st' agent \<le> 1"
    using assms(4) unfinished_grown [OF assms(2), of agent] by (auto simp: idle_count)
  then show ?thesis
    using assms(1,2) grown_ok [OF assms(2,1,3)] grown_keeps_held [OF assms(2)]
    by (auto simp: carries_def awaits_def queued_def grown_def)
qed

text \<open>A claim: the rows already awaited stay so, and the claimed range is awaited.\<close>

lemma claim_kept:
  assumes ok: "queue_ok st" and claim: "claim_message_wake e dmn t f l st = Inr (st', a)" and f: "0 < f"
  shows "carries agent m st st'"
proof -
  let ?st = "lock_message_wake_slot (mt_agent t) (mt_channel t) st"
  have ok1: "queue_ok ?st" and same: "same_queue st ?st" using ok same_queue_facts(1) [OF lock_same] by simp_all
  show ?thesis
  proof (cases "message_wake_allowed ?st (mt_agent t) (mt_channel t) (mt_thread t) (mt_visible t) \<and>
      find_active_message_run ?st (mt_agent t) = None \<and> \<not> inbox_ready (clock e) ?st (mt_agent t)")
    case False
    let ?set = "\<lambda>rid. set_slot (mt_agent t) (mt_channel t) (Some rid) ?st"
    have "queue_ok (?set rid) \<and> same_queue st (?set rid)" for rid
      using ok1 same same_queue_facts(1) [OF set_slot_same]
      by (simp add: same_queue_def same_world_def set_slot_def)
    then have "carries agent m st (upsert_pending_message_wake t1 a1 c1 th1 f l1 v1 (?set rid))" for t1 a1 c1 th1 l1 v1 rid
      using kept_after_same [OF ok] kept_upsert [OF _ f] by blast
    moreover have "carries agent m st (upsert_pending_message_wake t1 a1 c1 th1 f l1 v1 ?st)" for t1 a1 c1 th1 l1 v1
      using kept_after_same [OF ok same] kept_upsert [OF ok1 f] by blast
    ultimately show ?thesis using False claim kept_refl [OF ok]
      by (auto simp: claim_message_wake_def Let_def split: if_splits option.splits)
  next
    case True
    then obtain st1 r where s: "start_wake_run e dmn t f l ?st = Inr (st1, r)"
      "persist_remote_message_run e dmn r t (set_slot (mt_agent t) (mt_channel t) (Some (rn_id r)) st1) = Inr st'"
      using claim by (auto simp: claim_message_wake_def Let_def split: sum.splits)
    have "grown ?st st' r"
      using persist_grown [OF s(2) same_queue_grown [OF set_slot_same]] start_grown [OF s(1)] by blast
    then show ?thesis using kept_after_same [OF ok same] kept_grown [OF ok1] start_grown [OF s(1)] f True by simp
  qed
qed

lemma claim_awaits:
  assumes ok: "queue_ok st" and claim: "claim_message_wake e dmn t f l st = Inr (st', a)" and f: "0 < f"
    and d: "deliverable st (mt_agent t) m" and m: "mt_channel t = wm_channel m" "mt_thread t = coalesce (wm_thread m)"
      "f \<le> wm_seq m" "wm_seq m \<le> l"
  shows "awaits st' (mt_agent t) m"
proof -
  let ?st = "lock_message_wake_slot (mt_agent t) (mt_channel t) st"
  have ok1: "queue_ok ?st" and d1: "deliverable ?st (mt_agent t) m"
    using ok d same_queue_facts [OF lock_same] by simp_all
  then have allowed: "message_wake_allowed ?st (mt_agent t) (mt_channel t) (mt_thread t) (mt_visible t)"
    using m(1,2) allowed_explicit by (auto simp: deliverable_def)
  have queue: "queued (upsert_pending_message_wake t1 (mt_agent t) (mt_channel t) (mt_thread t) f l (mt_visible t) s) (mt_agent t) m"
    if "queue_ok s" "mw_tables s = mw_tables ?st" for s t1
    using upsert_covers [of s "mt_agent t" m "mt_visible t" f l t1] that allowed d1 m
    by (auto simp: deliverable_def message_wake_allowed_def)
  have slot: "queue_ok (set_slot (mt_agent t) (mt_channel t) (Some rid) ?st)"
      "mw_tables (set_slot (mt_agent t) (mt_channel t) (Some rid) ?st) = mw_tables ?st" for rid
    using ok1 same_queue_facts [OF set_slot_same] by simp_all
  show ?thesis
  proof (cases "find_active_message_run ?st (mt_agent t) = None \<and> \<not> inbox_ready (clock e) ?st (mt_agent t)")
    case False
    then show ?thesis using claim allowed queue [OF slot] queue [OF ok1 refl]
      by (auto simp: claim_message_wake_def Let_def awaits_def split: if_splits option.splits)
  next
    case True
    then obtain st1 r where s: "start_wake_run e dmn t f l ?st = Inr (st1, r)"
      "persist_remote_message_run e dmn r t (set_slot (mt_agent t) (mt_channel t) (Some (rn_id r)) st1) = Inr st'"
      using claim allowed by (auto simp: claim_message_wake_def Let_def split: sum.splits)
    have g: "grown ?st st' r"
      using persist_grown [OF s(2) same_queue_grown [OF set_slot_same]] start_grown [OF s(1)] by blast
    have "covers (mt_agent t) m r" using start_grown [OF s(1)] d1 m f by (simp add: covers_def deliverable_def)
    then show ?thesis using grown_covers [OF g] by (simp add: awaits_def)
  qed
qed

text \<open>Advancing: what the loop drops was not awaited, and the run it starts covers the row it removes.\<close>

lemma advance_starts:
  assumes adv: "advance_pending_message_wake e pl f b a ch st = Inr (st', Some r)"
  shows "\<exists>st1 ch1 p x st2 dmn.
    find_active_message_run (lock_message_wake_slot a ch st) a = None \<and>
    next_wake a ch (lock_message_wake_slot a ch st) = (st1, ch1, Some (p, x)) \<and>
    start_wake_run e dmn (wake_turn p x (pl p (wake_turn_messages st1 p))) (pw_first p) (pw_latest p) st1 = Inr (st2, r) \<and>
    grown (drop_wake p st1) st' r"
proof -
  let ?st = "lock_message_wake_slot a ch st"
  from adv obtain st1 ch1 p x st2 st3 dmn where
    none: "find_active_message_run ?st a = None" and nw: "next_wake a ch ?st = (st1, ch1, Some (p, x))" and
    s: "start_wake_run e dmn (wake_turn p x (pl p (wake_turn_messages st1 p))) (pw_first p) (pw_latest p) st1 = Inr (st2, r)"
    and q: "persist_remote_message_run e dmn r (wake_turn p x (pl p (wake_turn_messages st1 p))) (drop_wake p st2) = Inr st3"
    and st': "st' = set_slot a ch1 (Some (rn_id r)) st3"
    by (auto simp: advance_pending_message_wake_def Let_def split: option.splits if_splits sum.splits prod.splits)
  have g2: "grown st1 st2 r" using start_grown [OF s] by simp
  then have "grown (drop_wake p st1) (drop_wake p st2) r"
    by (simp add: grown_def same_world_def drop_wake_def mw_runs_def accepted_def)
  then have "grown (drop_wake p st1) st' r"
    using persist_grown [OF q] same_queue_grown [OF set_slot_same] st' by blast
  with none nw s show ?thesis by blast
qed

lemma advance_kept:
  assumes ok: "queue_ok st" and adv: "advance_pending_message_wake e pl f b a ch st = Inr (st', o1)"
  shows "carries agent m st st'"
proof -
  let ?st = "lock_message_wake_slot a ch st"
  have ok1: "queue_ok ?st" and same: "same_queue st ?st" using ok same_queue_facts(1) [OF lock_same] by simp_all
  have loop: "carries agent m ?st st1" if "next_wake a ch ?st = (st1, ch1, g)" for st1 ch1 g
    using next_wake_keeps [OF ok1 that, of agent m] held_remote [of st1 ?st] unfinished_same [of st1 ?st]
    by (auto simp: carries_def awaits_def)
  show ?thesis
  proof (cases o1)
    case None
    let ?gone = "?st\<lparr>mw_pending := delete_where (\<lambda>p. pw_agent p = a) (mw_pending ?st),
                    mw_slots := delete_where (\<lambda>s. sl_agent s = a) (mw_slots ?st)\<rparr>"
    have gone: "carries agent m ?st ?gone" if "\<not> agent_is_active (mw_tables ?st) a"
      using that ok1 by (auto simp: carries_def same_world_def queue_ok_def keyed_delete set_delete_where mw_runs_def
          awaits_def queued_def in_hand_def accepted_def deliverable_def unfinished_runs_def)
    note after = kept_after_same [OF ok same]
    consider rid where "st' = set_slot a ch (Some rid) ?st" | "st' = ?gone" "\<not> agent_is_active (mw_tables ?st) a"
      | st1 ch1 where "next_wake a ch ?st = (st1, ch1, None)" "st' = set_slot a ch1 None st1" | "st' = st"
      using adv None
      by (auto simp: advance_pending_message_wake_def Let_def split: option.splits if_splits sum.splits prod.splits)
    then show ?thesis
      using after [OF kept_same [OF ok1 set_slot_same]] after [OF gone] after [OF kept_before_same [OF loop set_slot_same]]
        kept_refl [OF ok] by cases blast+
  next
    case (Some r)
    with adv obtain st1 ch1 p x st2 dmn where
      idle: "find_active_message_run ?st a = None" and nw: "next_wake a ch ?st = (st1, ch1, Some (p, x))" and
      s: "start_wake_run e dmn (wake_turn p x (pl p (wake_turn_messages st1 p))) (pw_first p) (pw_latest p) st1 = Inr (st2, r)"
      and g: "grown (drop_wake p st1) st' r"
      using advance_starts [of e pl f b a ch st st' r] by auto
    note facts = next_wake_keeps [OF ok1 nw, of agent m]
    then have p: "p \<in> set (mw_pending st1)" "pw_agent p = a" "queue_ok st1" by auto
    have pos: "0 < pw_first p" "pw_thread p \<noteq> Some []" using p by (auto simp: queue_ok_def)
    have r: "0 \<le> wake_first (rn_wake r)" using start_grown [OF s] pos by simp
    have "carries agent m st1 st'"
    proof -
      have "awaits st' agent m" if d: "deliverable st1 agent m" and w: "awaits st1 agent m"
      proof (cases "pw_agent p = agent \<and> wake_message_in p m")
        case True
        then have "covers agent m r"
          using start_grown [OF s] d pos
          by (simp add: covers_def wake_message_in_def deliverable_def wake_turn_def)
        then show ?thesis using grown_covers [OF g] by (simp add: awaits_def)
      next
        case False
        with w have "queued (drop_wake p st1) agent m \<or> in_hand (drop_wake p st1) agent m"
          using drop_only [OF p(3,1)] held_remote [of "drop_wake p st1" st1] drop_same [of st1 p]
          unfolding awaits_def queued_def by blast
        then have "awaits (drop_wake p st1) agent m" by (simp add: awaits_def)
        then show ?thesis using g grown_keeps_held [OF g] by (auto simp: awaits_def queued_def grown_def)
      qed
      moreover have "unfinished_runs st1 agent \<le> 1 \<longrightarrow> unfinished_runs st' agent \<le> 1"
        using idle start_grown [OF s] unfinished_grown [OF g, of agent] facts unfinished_same [of st1 ?st]
          unfinished_same [of "drop_wake p st1" st1] drop_same [of st1 p]
        by (auto simp: idle_count wake_turn_def p(2))
      ultimately show ?thesis
        using grown_ok [OF g drop_ok [OF p(3)] r] drop_same [of st1 p] g same_world_trans [of st1 "drop_wake p st1" st']
        by (simp add: carries_def grown_def)
    qed
    then show ?thesis using kept_after_same [OF ok same] kept_trans [OF loop [OF nw]] by blast
  qed
qed

text \<open>
  A snapshot of a run as a handler holds it: the row may have changed since, but not its agent or scope, and
  its backend does not stop having started.
\<close>

definition snapshot :: "mw_state \<Rightarrow> run_row \<Rightarrow> bool" where
  "snapshot st run \<longleftrightarrow>
     (\<forall>r \<in> set (mw_runs st). rn_id r = rn_id run \<longrightarrow>
        rn_agent r = rn_agent run \<and> rn_scope r = rn_scope run \<and> (rn_backend run \<noteq> None \<longrightarrow> rn_backend r \<noteq> None))"

lemma requeue_kept:
  assumes ok: "queue_ok st"
  shows "carries agent m st (requeue_undelivered_message_wake t run st) \<and>
         mw_remote (requeue_undelivered_message_wake t run st) = mw_remote st"
proof -
  let ?st = "lock_message_wake_slot (rn_agent run) (coalesce (scope_channel (rn_scope run))) st"
  have ok1: "queue_ok ?st" and same: "same_queue st ?st" using ok same_queue_facts(1) [OF lock_same] by simp_all
  have "carries agent m ?st (upsert_pending_message_wake t c h th (wake_first (rn_wake r)) l v ?st)"
    if "find (\<lambda>r. rn_id r = rn_id run \<and> rn_finished r = None) (mw_runs ?st) = Some r" "wake_first (rn_wake r) \<noteq> 0" for r c h th l v
  proof -
    have "r \<in> set (mw_runs ?st)" using that(1) by (auto simp: find_Some_iff)
    then have "0 \<le> wake_first (rn_wake r)" using ok1 unfolding queue_ok_def by blast
    with that(2) show ?thesis using kept_upsert [OF ok1] by simp
  qed
  then show ?thesis
    using kept_after_same [OF ok same] kept_same [OF ok same] kept_refl [OF ok] same upsert_same
    by (auto simp: requeue_undelivered_message_wake_def Let_def same_queue_def split: option.splits)
qed

lemma requeue_guards:
  assumes ok: "queue_ok st" and d: "deliverable st agent m" and snap: "snapshot st run"
    and r: "r \<in> set (mw_runs st)" "rn_id r = rn_id run" "covers agent m r" "rn_finished r = None" "\<not> accepted st (rn_id r)"
  shows "queued (requeue_undelivered_message_wake t run st) agent m"
proof -
  let ?st = "lock_message_wake_slot (rn_agent run) (coalesce (scope_channel (rn_scope run))) st"
  have ok1: "queue_ok ?st" and d1: "deliverable ?st agent m" and runs: "mw_runs ?st = mw_runs st"
      "mw_remote ?st = mw_remote st"
    using ok d same_queue_facts [OF lock_same] lock_same by (simp_all add: same_queue_def)
  have s: "rn_agent run = agent" "rn_scope run = rn_scope r" using snap r by (auto simp: snapshot_def covers_def)
  have c: "scope_channel (rn_scope r) = Some (wm_channel m)" "scope_thread (rn_scope r) = wm_thread m"
      "trigger_type (rn_scope r) = ''message''" "scope_node (rn_scope r) = None" "0 < wake_first (rn_wake r)"
      "wake_first (rn_wake r) \<le> wm_seq m" "wm_seq m \<le> wake_latest (rn_wake r)"
    using r(3) by (auto simp: covers_def)
  obtain r' where f: "find (\<lambda>r. rn_id r = rn_id run \<and> rn_finished r = None) (mw_runs st) = Some r'"
    using r by (cases "find (\<lambda>r. rn_id r = rn_id run \<and> rn_finished r = None) (mw_runs st)") (auto simp: find_None_iff)
  then have "r' \<in> set (mw_runs st)" "rn_id r' = rn_id r" using r(2) by (auto simp: find_Some_iff)
  then have "r' = r" using ok r(1) keyed_unique unfolding queue_ok_def by metis
  moreover have "\<not> exists_row (\<lambda>v. dv_run v = rn_id run \<and> dv_accepted v \<noteq> None) (run_deliveries (mw_remote st))"
    using r(2,5) by (auto simp: exists_row_iff accepted_def)
  moreover have "queued (upsert_pending_message_wake t agent (wm_channel m) (coalesce (wm_thread m)) (wake_first (rn_wake r))
      (wake_latest (rn_wake r)) (wake_visible (rn_wake r)) ?st) agent m"
    using upsert_covers [OF ok1] d1 c allowed_explicit by (simp add: deliverable_def)
  ultimately show ?thesis
    using f c s runs by (simp add: requeue_undelivered_message_wake_def Let_def)
qed

lemma finish_kept:
  assumes ok: "queue_ok st" and fin: "finish_run E (r_tables (mw_remote st)) i = Inr d1" and d2: "views d2 = views d1"
    and safe: "\<And>r. r \<in> set (mw_runs st) \<Longrightarrow> rn_id r = fi_run i \<Longrightarrow> covers agent m r \<Longrightarrow> rn_finished r = None \<Longrightarrow>
      rn_backend r = None \<Longrightarrow> \<not> accepted st (rn_id r) \<Longrightarrow> deliverable st agent m \<Longrightarrow> queued st agent m"
  shows "carries agent m st (st\<lparr>mw_remote := (mw_remote st)\<lparr>r_tables := d2\<rparr>\<rparr>)"
proof -
  let ?st = "st\<lparr>mw_remote := (mw_remote st)\<lparr>r_tables := d2\<rparr>\<rparr>"
  let ?f = "\<lambda>r. if rn_id r = fi_run i \<and> rn_finished r = None then finished E i r else r"
  note vs = finish_views [OF fin d2]
  have ids: "map fst (map wake_view (mw_runs ?st)) = map rn_id (mw_runs st)"
    unfolding vs by (simp add: wake_view_def finished_def comp_def)
  have "keyed rn_id (mw_runs ?st)" unfolding keyed_views ids using ok by (simp add: queue_ok_def keyed_def)
  moreover have "\<forall>r \<in> set (mw_runs ?st). 0 \<le> wake_first (rn_wake r)"
    unfolding wakes_views vs using ok by (auto simp: queue_ok_def wake_view_def finished_def)
  ultimately have "queue_ok ?st" using ok by (simp add: queue_ok_def)
  moreover have "awaits ?st agent m" if d: "deliverable st agent m" and w: "awaits st agent m"
  proof (cases "queued st agent m")
    case True
    then show ?thesis by (simp add: awaits_def queued_def)
  next
    case False
    with w obtain r where r: "r \<in> set (mw_runs st)" "covers agent m r"
      "rn_finished r = None \<or> rn_backend r \<noteq> None \<or> accepted st (rn_id r)"
      by (auto simp: awaits_def in_hand_def)
    have "(wake_view \<circ> ?f) r \<in> set (map (wake_view \<circ> ?f) (mw_runs st))"
      unfolding set_map using r(1) by (rule imageI)
    then have "(wake_view \<circ> ?f) r \<in> set (map wake_view (mw_runs ?st))" unfolding vs .
    then obtain y where y: "y \<in> set (mw_runs ?st)" "wake_view y = wake_view (?f r)"
      unfolding set_map image_iff comp_apply by metis
    have "covers agent m y" using covers_view [OF y(2)] r(2) by (simp add: covers_def finished_def)
    moreover have yr: "rn_id y = rn_id r \<and> rn_backend y = rn_backend r \<and> rn_finished y = rn_finished (?f r)"
      using y(2) by (simp add: wake_view_def finished_def split: if_splits)
    have "rn_finished y = None \<or> rn_backend y \<noteq> None \<or> accepted ?st (rn_id y)"
    proof (cases "rn_id r = fi_run i \<and> rn_finished r = None")
      case True
      with safe [OF r(1) _ r(2)] d \<open>\<not> queued st agent m\<close> have "rn_backend r \<noteq> None \<or> accepted st (rn_id r)" by auto
      then show ?thesis using yr by (simp add: accepted_def)
    next
      case no: False
      show ?thesis using yr r(3) unfolding if_not_P [OF no] by (simp add: accepted_def)
    qed
    ultimately show ?thesis using y(1) unfolding awaits_def in_hand_def by blast
  qed
  ultimately show ?thesis using unfinished_fewer [OF fin d2, of agent] by (simp add: carries_def same_world_def)
qed

lemma finish_failed_kept:
  assumes ok: "queue_ok st" and snap: "snapshot st run"
  shows "carries agent m st (finish_failed_run e pl f b run status activity code retryable st)"
proof -
  let ?st = "if rn_backend run = None then requeue_undelivered_message_wake (clock e) run st else st"
  have k1: "carries agent m st ?st" and rem: "mw_remote ?st = mw_remote st"
    using requeue_kept [OF ok, of agent m "clock e" run] kept_refl [OF ok] by auto
  show ?thesis
  proof (cases "finish_run (renv.truncate e) (r_tables (mw_remote ?st))
      \<lparr>fi_run = rn_id run, fi_status = status, fi_activity = activity, fi_usage = UsageEmpty\<rparr>")
    case (Inl err)
    with k1 show ?thesis by (simp add: finish_failed_run_def Let_def)
  next
    case (Inr d1)
    define d2 where "d2 = (case append_event (renv.truncate e) d1 (rn_id run) ErrorEvent activity [] (failure_payload status code retryable) of
                          Inl _ \<Rightarrow> d1 | Inr d \<Rightarrow> d)"
    let ?st2 = "?st\<lparr>mw_remote := (mw_remote ?st)\<lparr>r_tables := d2\<rparr>\<rparr>"
    have "views d2 = views d1" unfolding d2_def by (auto split: sum.splits dest: views_append)
    moreover have "queued ?st agent m"
      if "r \<in> set (mw_runs ?st)" "rn_id r = rn_id run" "covers agent m r" "rn_finished r = None" "rn_backend r = None"
         "\<not> accepted ?st (rn_id r)" "deliverable ?st agent m" for r
    proof -
      have r: "r \<in> set (mw_runs st)" "\<not> accepted st (rn_id r)" using that rem by (auto simp: mw_runs_def accepted_def)
      then have "rn_backend run = None" using snap that(2,5) by (auto simp: snapshot_def)
      moreover have "deliverable st agent m" using that(7) k1 deliverable_same by (auto simp: carries_def)
      ultimately show ?thesis using requeue_guards [OF ok _ snap r(1) that(2,3,4) r(2)] by simp
    qed
    ultimately have k2: "carries agent m ?st ?st2"
      using finish_kept [OF _ Inr, of d2 agent m] k1 by (simp add: carries_def)
    have ok2: "queue_ok ?st2" using k2 by (simp add: carries_def)
    have "finish_failed_run e pl f b run status activity code retryable st =
        (if trigger_type (rn_scope run) = ''message'' \<and> trigger_message (rn_scope run) \<noteq> None \<and> scope_node (rn_scope run) = None
         then (case advance_pending_message_wake e pl f b (rn_agent run) (coalesce (scope_channel (rn_scope run))) ?st2 of
                 Inl _ \<Rightarrow> ?st2 | Inr (st3, _) \<Rightarrow> st3)
         else ?st2)"
      using Inr unfolding finish_failed_run_def Let_def d2_def by simp
    moreover have "carries agent m ?st2 (case advance_pending_message_wake e pl f b a ch ?st2 of Inl _ \<Rightarrow> ?st2 | Inr (st3, _) \<Rightarrow> st3)" for a ch
      using advance_kept [OF ok2] kept_refl [OF ok2] by (auto split: sum.splits)
    ultimately have "carries agent m ?st2 (finish_failed_run e pl f b run status activity code retryable st)"
      using kept_refl [OF ok2] by simp
    then show ?thesis using kept_trans [OF k1] kept_trans [OF k2] by blast
  qed
qed

section \<open>Any order of operations\<close>

text \<open>
  The transactions that move wakes and message runs, each with the environment it runs in. A claim is for a
  range of message numbers, which start at 1; a handler that fails a run holds a snapshot of its row; any run
  that was delivered or has started may end.
\<close>

datatype wake_op =
    ClaimWake daemon_info message_turn int int
  | AdvanceWake fleet bindings_db id id
  | RequeueWake run_row
  | FailRun fleet bindings_db run_row run_status string string bool
  | EndDeliveredRun finish_run_input

definition delivered_run :: "mw_state \<Rightarrow> id \<Rightarrow> bool" where
  "delivered_run st rid \<longleftrightarrow> (\<forall>r \<in> set (mw_runs st). rn_id r = rid \<longrightarrow> rn_backend r \<noteq> None \<or> accepted st rid)"

fun wake_step ::
  "(pending_wake \<Rightarrow> wake_message list \<Rightarrow> task_payload) \<Rightarrow> mw_state \<Rightarrow> wake_env \<times> wake_op \<Rightarrow> mw_state" where
  "wake_step pl st (e, ClaimWake dmn t f l) =
     (if 0 < f then case claim_message_wake e dmn t f l st of Inl _ \<Rightarrow> st | Inr (st', _) \<Rightarrow> st' else st)"
| "wake_step pl st (e, AdvanceWake fl b a ch) =
     (case advance_pending_message_wake e pl fl b a ch st of Inl _ \<Rightarrow> st | Inr (st', _) \<Rightarrow> st')"
| "wake_step pl st (e, RequeueWake run) = requeue_undelivered_message_wake (clock e) run st"
| "wake_step pl st (e, FailRun fl b run status activity code retryable) =
     (if snapshot st run then finish_failed_run e pl fl b run status activity code retryable st else st)"
| "wake_step pl st (e, EndDeliveredRun i) =
     (if delivered_run st (fi_run i)
      then case finish_run (renv.truncate e) (r_tables (mw_remote st)) i of
             Inl _ \<Rightarrow> st | Inr d \<Rightarrow> st\<lparr>mw_remote := (mw_remote st)\<lparr>r_tables := d\<rparr>\<rparr>
      else st)"

lemma step_kept: "queue_ok st \<Longrightarrow> carries agent m st (wake_step pl st o1)"
proof (induction pl st o1 rule: wake_step.induct)
  case (1 pl st e dmn t f l)
  then show ?case using claim_kept kept_refl by (auto split: sum.splits)
next
  case (2 pl st e fl b a ch)
  then show ?case using advance_kept kept_refl by (auto split: sum.splits)
next
  case (3 pl st e run)
  then show ?case using requeue_kept by simp
next
  case (4 pl st e fl b run status activity code retryable)
  then show ?case using finish_failed_kept kept_refl by simp
next
  case (5 pl st e i)
  have k: "carries agent m st (st\<lparr>mw_remote := (mw_remote st)\<lparr>r_tables := d\<rparr>\<rparr>)"
    if "delivered_run st (fi_run i)" "finish_run (renv.truncate e) (r_tables (mw_remote st)) i = Inr d" for d
  proof (rule finish_kept [OF 5 that(2) refl])
    fix r
    assume "r \<in> set (mw_runs st)" "rn_id r = fi_run i" "rn_backend r = None" "\<not> accepted st (rn_id r)"
    then show "queued st agent m" using that(1) unfolding delivered_run_def by metis
  qed
  show ?case
  proof (cases "delivered_run st (fi_run i)")
    case True
    show ?thesis
    proof (cases "finish_run (renv.truncate e) (r_tables (mw_remote st)) i")
      case (Inl err)
      show ?thesis unfolding wake_step.simps Inl using kept_refl [OF 5] by simp
    next
      case (Inr d)
      show ?thesis unfolding wake_step.simps Inr using k [OF True Inr] True by simp
    qed
  next
    case False
    then show ?thesis using kept_refl [OF 5, of agent m] by simp
  qed
qed

interpretation awaited: op_machine "wake_step pl" "\<lambda>st. queue_ok st \<and> deliverable st agent m \<and> awaits st agent m"
  for pl agent m
proof unfold_locales
  fix st o1
  assume "queue_ok st \<and> deliverable st agent m \<and> awaits st agent m"
  then show "queue_ok (wake_step pl st o1) \<and> deliverable (wake_step pl st o1) agent m \<and> awaits (wake_step pl st o1) agent m"
    using step_kept [of st agent m pl o1] deliverable_same by (auto simp: carries_def)
qed

text \<open>
  C11. A message an agent was woken for is not lost: once its wake was claimed, and as long as the agent is an
  active member that attends the conversation and has not consumed the message, then whatever is claimed,
  advanced, requeued or failed afterwards and whatever delivered run ends, in any order, the message is in a pending wake or in the
  range of a run that is unfinished or was delivered.
\<close>

theorem claimed_message_stays_awaited:
  assumes "queue_ok st" and "claim_message_wake e dmn t f l st = Inr (st', a)" and "0 < f" and "f \<le> wm_seq m" and "wm_seq m \<le> l"
    and "deliverable st (mt_agent t) m" and "mt_channel t = wm_channel m" and "mt_thread t = coalesce (wm_thread m)"
  shows "awaits (foldl (wake_step pl) st' ops) (mt_agent t) m"
proof -
  have "queue_ok st'" "deliverable st' (mt_agent t) m"
    using claim_kept [OF assms(1,2,3), of "mt_agent t" m] assms(6) deliverable_same by (auto simp: carries_def)
  moreover have "awaits st' (mt_agent t) m"
    using claim_awaits [OF assms(1,2,3,6,7,8,4,5)] .
  ultimately show ?thesis using awaited.run_inv [of st' "mt_agent t" m pl ops] by blast
qed

interpretation alone: op_machine "wake_step pl" "\<lambda>st. queue_ok st \<and> unfinished_runs st agent \<le> 1" for pl agent
proof unfold_locales
  fix st o1
  assume "queue_ok st \<and> unfinished_runs st agent \<le> 1"
  then show "queue_ok (wake_step pl st o1) \<and> unfinished_runs (wake_step pl st o1) agent \<le> 1"
    using step_kept [of st agent _ pl o1] by (simp add: carries_def)
qed

text \<open>
  Messages that arrive together do not start runs beside each other: an agent that has at most one
  unfinished run never gets a second one from the wakes of its messages, in whatever order they are claimed,
  advanced, requeued, failed and finished.
\<close>

theorem wakes_start_one_run_at_a_time:
  assumes "queue_ok st" and "unfinished_runs st agent \<le> 1"
  shows "unfinished_runs (foldl (wake_step pl) st ops) agent \<le> 1"
  using alone.run_inv [of st agent pl ops] assms by blast

section \<open>The way around the queue\<close>

lemma pending_finish_views:
  assumes row: "row_by rn_id (pk_run p) (runs rd) = Some r" and "pk_run p \<noteq> []" and "is_active_agent_run_status (rn_status r)"
    and fin: "finish_run E rd \<lparr>fi_run = pk_run p, fi_status = status, fi_activity = activity, fi_usage = UsageEmpty\<rparr> = Inr d"
  shows "views (finish_pending_task_run E cancel_ok f p status activity code retryable rd) = views d"
  using row_by_key [OF row] assms
  by (auto simp: finish_pending_task_run_def get_run_def Let_def split: sum.splits option.splits dest: views_append)

definition ended_by_registry ::
  "renv \<Rightarrow> (id \<Rightarrow> id \<Rightarrow> bool) \<Rightarrow> fleet \<Rightarrow> pending_task \<Rightarrow> run_status \<Rightarrow> string \<Rightarrow> string \<Rightarrow> bool \<Rightarrow> mw_state \<Rightarrow> mw_state" where
  "ended_by_registry E cancel_ok f p status activity code retryable st =
     st\<lparr>mw_remote := (mw_remote st)\<lparr>r_tables :=
       finish_pending_task_run E cancel_ok f p status activity code retryable (r_tables (mw_remote st))\<rparr>\<rparr>"

text \<open>
  C18. What the registry of daemons does not do: when its health check ends the run of a task that was queued at
  a lost daemon or timed out there, it does not give back the messages the run was woken for, as the other ends
  of an undelivered run do. If that run alone held a message, nothing awaits the message any more, and the
  requeueing of a handler that comes later does not bring it back, for the run has ended.
\<close>

theorem health_check_strands_messages:
  assumes "queue_ok st" and "\<not> queued st agent m"
    and "r \<in> set (mw_runs st)" and "rn_id r = pk_run p" and "pk_run p \<noteq> []" and "is_active_agent_run_status (rn_status r)"
    and "rn_finished r = None" and "rn_backend r = None" and "\<not> accepted st (pk_run p)"
    and "\<And>x. x \<in> set (mw_runs st) \<Longrightarrow> covers agent m x \<Longrightarrow> x = r"
    and "finish_run E (r_tables (mw_remote st))
          \<lparr>fi_run = pk_run p, fi_status = status, fi_activity = activity, fi_usage = UsageEmpty\<rparr> = Inr d"
  shows "\<not> awaits (ended_by_registry E cancel_ok f p status activity code retryable st) agent m \<and>
         (rn_id run = pk_run p \<longrightarrow>
            \<not> awaits (requeue_undelivered_message_wake t run (ended_by_registry E cancel_ok f p status activity code retryable st)) agent m)"
proof -
  let ?rd = "finish_pending_task_run E cancel_ok f p status activity code retryable (r_tables (mw_remote st))"
  let ?i = "\<lparr>fi_run = pk_run p, fi_status = status, fi_activity = activity, fi_usage = UsageEmpty\<rparr>"
  let ?st = "st\<lparr>mw_remote := (mw_remote st)\<lparr>r_tables := ?rd\<rparr>\<rparr>"
  have "row_by rn_id (pk_run p) (runs (r_tables (mw_remote st))) = Some r"
    using assms(1,3,4) by (simp add: queue_ok_def mw_runs_def row_by_Some_iff [of rn_id])
  then have "views ?rd = views d" using pending_finish_views assms(5,6,11) by blast
  note vs = finish_views [OF assms(11) this]
  have ended: "\<exists>x \<in> set (mw_runs st). wake_view y = wake_view (if rn_id x = pk_run p \<and> rn_finished x = None then finished E ?i x else x)"
    if "y \<in> set (mw_runs ?st)" for y
  proof -
    have "wake_view y \<in> set (map wake_view (mw_runs ?st))" using that by simp
    then show ?thesis unfolding vs set_map image_iff comp_apply finish_run_input.simps .
  qed
  have none: "\<not> in_hand ?st agent m"
  proof
    assume "in_hand ?st agent m"
    then obtain y where y: "y \<in> set (mw_runs ?st)" "covers agent m y"
      "rn_finished y = None \<or> rn_backend y \<noteq> None \<or> accepted ?st (rn_id y)"
      unfolding in_hand_def by blast
    from ended [OF y(1)] obtain x where x: "x \<in> set (mw_runs st)"
      "wake_view y = wake_view (if rn_id x = pk_run p \<and> rn_finished x = None then finished E ?i x else x)" by blast
    have "covers agent m x" using covers_view [OF x(2)] y(2) by (simp add: covers_def finished_def split: if_splits)
    then have "x = r" using assms(10) x(1) by blast
    then have "rn_finished y \<noteq> None" "rn_backend y = None" "rn_id y = pk_run p"
      using x(2) assms(4,7,8) by (simp_all add: wake_view_def finished_def)
    then show False using y(3) assms(9) by (auto simp: accepted_def)
  qed
  then have gone: "\<not> awaits ?st agent m" using assms(2) by (simp add: awaits_def queued_def)
  moreover have "\<not> awaits (requeue_undelivered_message_wake t run ?st) agent m" if "rn_id run = pk_run p"
  proof -
    have "\<not> (rn_id y = pk_run p \<and> rn_finished y = None)" if y: "y \<in> set (mw_runs ?st)" for y
      using ended [OF y] by (auto simp: wake_view_def finished_def split: if_splits)
    then have "find (\<lambda>r. rn_id r = rn_id run \<and> rn_finished r = None) (mw_runs ?st) = None"
      unfolding find_None_iff using that by metis
    then have "same_queue ?st (requeue_undelivered_message_wake t run ?st)"
      by (simp add: requeue_undelivered_message_wake_def Let_def same_queue_facts(4) [OF lock_same])
        (simp add: same_queue_def same_world_def)
    then show ?thesis using gone same_queue_facts(2) by blast
  qed
  ultimately show ?thesis unfolding ended_by_registry_def by blast
qed

section \<open>The properties on a small state\<close>

definition mq_env :: wake_env where
  "mq_env = \<lparr>clock = 50, month_start = 0, new_id = ''n'', new_event_id = ''e'', sha_hex = (\<lambda>s. s), selection_guard = (\<lambda>_. None),
     daemon_capabilities = (\<lambda>_. None), open_tasks_summary = (\<lambda>_. []), continuity_packet = (\<lambda>_ _ _. Inr []),
     sign_token = (\<lambda>_ _ _ _. None), render_relationships = (\<lambda>_ _. Some []), run_revision = (\<lambda>_ p. Inr p)\<rparr>"

definition mq_message :: wake_message where
  "mq_message = \<lparr>wm_id = ''m1'', wm_seq = 7, wm_deleted = False, wm_channel = ''ch'', wm_thread = None, wm_node = None,
     wm_sender_type = ''user'', wm_sender = ''u'', wm_mentioned = None, wm_created = 40, wm_correction = None, wm_run = None\<rparr>"

definition mq_run :: run_row where
  "mq_run =
     \<lparr>rn_id = ''r1'', rn_agent = ''a'', rn_daemon = Some ''d1'', rn_session = None, rn_rollover = None,
      rn_scope = \<lparr>trigger_type = ''message'', trigger_message = Some ''m1'', scope_channel = Some ''ch'', scope_thread = None,
                  scope_node = None\<rparr>,
      rn_status = AgentRunStatusQueued, rn_activity = [], rn_tool = None, rn_input = None, rn_source = None,
      rn_transcript = None, rn_usage = UsageEmpty, rn_started = 45, rn_backend = None, rn_updated = 45,
      rn_finished = None, rn_wake = \<lparr>freshness_seen = 7, wake_first = 6, wake_latest = 7, wake_visible = False\<rparr>\<rparr>"

definition mq_state :: "run_row list \<Rightarrow> mw_state" where
  "mq_state rs =
     \<lparr>mw_tables = \<lparr>wk_agents = [\<lparr>wa_id = ''a'', wa_active = True, wa_policy = AttendAll\<rparr>], wk_attention = [],
        wk_subscriptions = [], wk_messages = [mq_message], wk_threads = [], wk_tasks = [], wk_runs = [], wk_scopes = [],
        wk_channels = [\<lparr>wc_id = ''ch'', wc_archived = False, wc_lockfile = None\<rparr>], wk_members = [(''ch'', ''a'')]\<rparr>,
      mw_remote = \<lparr>r_tables = empty_rdb\<lparr>runs := rs\<rparr>, run_deliveries = map (\<lambda>r. undelivered (rn_id r)) rs, delivery_events = []\<rparr>,
      mw_slots = [], mw_pending = [], mw_consumed = [], mw_other = []\<rparr>"

definition mq_turn :: message_turn where
  "mq_turn = \<lparr>mt_agent = ''a'', mt_channel = ''ch'', mt_thread = [], mt_trigger = ''m1'', mt_visible = False,
     mt_payload = \<lparr>tp_task = [], tp_run = [], tp_agent = [], tp_channel = [], tp_provider = ''claude'', tp_node = [],
      tp_origin_task = [], tp_resume = [], tp_fresh = False, tp_retire = [], tp_code_review = False,
      tp_team_version = [], tp_skills = [], tp_messages = [], tp_cold_start = [], tp_context = []\<rparr>\<rparr>"

definition mq_daemon :: daemon_info where
  "mq_daemon = (fresh_daemon ''d1'' [] ''h'' 80 ''v'' [''llm''] 2 [])\<lparr>dn_status := DaemonStatusOnline\<rparr>"

lemma mq_ok: "queue_ok (mq_state [])" "queue_ok (mq_state [mq_run])"
  by (simp_all add: queue_ok_def mq_state_def mw_runs_def keyed_def mq_run_def empty_rdb_def)

lemma mq_deliverable: "deliverable (mq_state rs) ''a'' mq_message"
  by (simp add: deliverable_def mq_state_def mq_message_def agent_is_active_def channel_open_to_def message_wake_allowed_def
      exists_row_iff attends_def attention_of_def follows_def row_by_def)

theorem claimed_message_stays_awaited_witness:
  "\<exists>st' a. claim_message_wake mq_env mq_daemon mq_turn 6 7 (mq_state [mq_run]) = Inr (st', a) \<and>
     awaits (foldl (wake_step (\<lambda>_ _. mt_payload mq_turn)) st'
       [(mq_env, FailRun new_fleet \<lparr>runtime_ids = [], computers = []\<rparr> mq_run AgentRunStatusTimeout [] [] True)]) ''a'' mq_message"
proof -
  have "\<not> isl (claim_message_wake mq_env mq_daemon mq_turn 6 7 (mq_state [mq_run]))" by code_simp
  then obtain st' a where c: "claim_message_wake mq_env mq_daemon mq_turn 6 7 (mq_state [mq_run]) = Inr (st', a)"
    by (cases "claim_message_wake mq_env mq_daemon mq_turn 6 7 (mq_state [mq_run])") auto
  have t: "mt_agent mq_turn = ''a''" "mt_channel mq_turn = wm_channel mq_message"
    "mt_thread mq_turn = coalesce (wm_thread mq_message)" "(6::int) \<le> wm_seq mq_message" "wm_seq mq_message \<le> 7"
    by (simp_all add: mq_turn_def mq_message_def)
  have d: "deliverable (mq_state [mq_run]) (mt_agent mq_turn) mq_message" unfolding t(1) by (rule mq_deliverable)
  have "(0::int) < 6" by simp
  from claimed_message_stays_awaited [OF mq_ok(2) c this t(4,5) d t(2,3)] c show ?thesis unfolding t(1) by blast
qed

theorem wakes_start_one_run_at_a_time_witness:
  "unfinished_runs (foldl (wake_step (\<lambda>_ _. mt_payload mq_turn)) (mq_state [mq_run])
     [(mq_env, ClaimWake mq_daemon mq_turn 6 7),
      (mq_env, AdvanceWake new_fleet \<lparr>runtime_ids = [], computers = []\<rparr> ''a'' ''ch'')]) ''a'' \<le> 1"
  by (rule wakes_start_one_run_at_a_time [OF mq_ok(2)]) (simp add: unfinished_runs_def count_rows_def mq_state_def mw_runs_def mq_run_def)

theorem health_check_strands_messages_witness:
  "in_hand (mq_state [mq_run]) ''a'' mq_message \<and>
   \<not> awaits (ended_by_registry (renv.truncate mq_env) (\<lambda>_ _. True) new_fleet
       \<lparr>pk_task = ''r1'', pk_agent = ''a'', pk_daemon = ''d1'', pk_run = ''r1'', pk_created = 45, pk_backend = None, pk_phase = ''queue''\<rparr>
       AgentRunStatusTimeout agentActivityQueueTimeout agentFailureTimeout True (mq_state [mq_run])) ''a'' mq_message"
proof -
  let ?p = "\<lparr>pk_task = ''r1'', pk_agent = ''a'', pk_daemon = ''d1'', pk_run = ''r1'', pk_created = 45, pk_backend = None, pk_phase = ''queue''\<rparr>"
  let ?i = "\<lparr>fi_run = pk_run ?p, fi_status = AgentRunStatusTimeout, fi_activity = agentActivityQueueTimeout, fi_usage = UsageEmpty\<rparr>"
  have runs: "mw_runs (mq_state [mq_run]) = [mq_run]" by (simp add: mq_state_def mw_runs_def)
  have "\<not> isl (finish_run (renv.truncate mq_env) (r_tables (mw_remote (mq_state [mq_run]))) ?i)" by code_simp
  then obtain d where d: "finish_run (renv.truncate mq_env) (r_tables (mw_remote (mq_state [mq_run]))) ?i = Inr d"
    by (cases "finish_run (renv.truncate mq_env) (r_tables (mw_remote (mq_state [mq_run]))) ?i") auto
  have r: "rn_id mq_run = pk_run ?p" "pk_run ?p \<noteq> []" "is_active_agent_run_status (rn_status mq_run)"
      "rn_finished mq_run = None" "rn_backend mq_run = None" "mq_run \<in> set (mw_runs (mq_state [mq_run]))"
    unfolding runs by (simp_all add: mq_run_def is_active_agent_run_status_def active_agent_run_statuses_def)
  have n: "\<not> queued (mq_state [mq_run]) ''a'' mq_message" "\<not> accepted (mq_state [mq_run]) (pk_run ?p)"
    by (simp_all add: queued_def accepted_def mq_state_def undelivered_def)
  have "\<not> awaits (ended_by_registry (renv.truncate mq_env) (\<lambda>_ _. True) new_fleet ?p
       AgentRunStatusTimeout agentActivityQueueTimeout agentFailureTimeout True (mq_state [mq_run])) ''a'' mq_message"
    by (rule conjunct1 [OF health_check_strands_messages [OF mq_ok(2) n(1) r(6,1,2,3,4,5) n(2) _ d]]) (simp add: runs)
  moreover have "in_hand (mq_state [mq_run]) ''a'' mq_message"
    unfolding in_hand_def runs by (simp add: covers_def mq_run_def mq_message_def)
  ultimately show ?thesis by blast
qed

end
