(* ===== verification/Safety_Limits.thy ===== *)
theory Safety_Limits
  imports Go_Prelude
begin

text \<open>
  The limits that keep agents from flooding a conversation: the sliding window on what an agent sends
  (\<open>CheckAgentSendRate\<close>), the pause of a channel whose agents wake each other too often (\<open>allowAgentCascade\<close>),
  the pause between triggers of a thinking node (all of \<open>service/agent.go\<close>), the seconds in which only the agents
  a task mentions may claim it (\<open>service/task_claim_window.go\<close>) and who may post in a channel
  (\<open>service/channel_moderation.go\<close>).

  Times are nanoseconds; every function gets the readings of the clock it makes. A Go map is a function, absent
  keys are \<open>[]\<close> or \<open>None\<close>. The mutexes make each operation one step; \<open>CheckClaimAllowed\<close>, which locks twice, is
  two steps.
\<close>

section \<open>What an agent sends\<close>

abbreviation seconds :: "time \<Rightarrow> time" where
  "seconds n \<equiv> n * 10 ^ 9"

definition defaultAgentSendLimit :: int where "defaultAgentSendLimit = 20"
definition defaultAgentSendWindow :: time where "defaultAgentSendWindow = seconds 10"
definition defaultCascadeWindow :: time where "defaultCascadeWindow = seconds 10"
definition defaultCascadeThreshold :: int where "defaultCascadeThreshold = 20"
definition defaultCascadeCooldown :: time where "defaultCascadeCooldown = seconds 60"
definition defaultNodeDebounceDuration :: time where "defaultNodeDebounceDuration = seconds 2"

record cascade_count =
  cc_count :: int
  cc_start :: time
  cc_until :: "time option"

record safety_state =
  send_attempts :: "id \<Rightarrow> time list"
  send_limit :: int
  send_window :: time
  cascades :: "id \<Rightarrow> cascade_count option"
  cascade_window :: time
  cascade_threshold :: int
  cascade_cooldown :: time
  node_debounce :: "string \<Rightarrow> time option"

text \<open>The value of an environment variable as it parses; anything but a positive one is not used.\<close>

definition positive_env :: "int option \<Rightarrow> int \<Rightarrow> int" where
  "positive_env parsed fallback = (case parsed of None \<Rightarrow> fallback | Some v \<Rightarrow> if v \<le> 0 then fallback else v)"

definition new_safety_state ::
  "int option \<Rightarrow> time option \<Rightarrow> time option \<Rightarrow> int option \<Rightarrow> time option \<Rightarrow> safety_state" where
  "new_safety_state lim win cwin cthr ccool =
     \<lparr>send_attempts = (\<lambda>_. []), send_limit = positive_env lim defaultAgentSendLimit,
      send_window = positive_env win defaultAgentSendWindow, cascades = (\<lambda>_. None),
      cascade_window = positive_env cwin defaultCascadeWindow,
      cascade_threshold = positive_env cthr defaultCascadeThreshold,
      cascade_cooldown = positive_env ccool defaultCascadeCooldown, node_debounce = (\<lambda>_. None)\<rparr>"

text \<open>\<open>later\<close> is the reading \<open>time.Until\<close> makes. The answer is whether the send may go on and how long to wait.\<close>

definition check_agent_send_rate :: "time \<Rightarrow> time \<Rightarrow> id \<Rightarrow> safety_state \<Rightarrow> safety_state \<times> bool \<times> time" where
  "check_agent_send_rate instant later agent s =
     (let cutoff = instant - send_window s;
          fresh = filter (\<lambda>stamp. stamp > cutoff) (send_attempts s agent) @ [instant];
          allowed = int (length fresh) \<le> send_limit s;
          retry = (if allowed then 0 else max (hd fresh + send_window s - later) (seconds 1))
      in (s\<lparr>send_attempts := (send_attempts s)(agent := fresh)\<rparr>, allowed, retry))"

text \<open>The seconds of the \<open>Retry-After\<close> header.\<close>

definition retry_after_header :: "time \<Rightarrow> int" where
  "retry_after_header retry = (retry + seconds 1 - 1) div seconds 1"

definition allow_agent_cascade :: "time \<Rightarrow> id \<Rightarrow> safety_state \<Rightarrow> safety_state \<times> bool" where
  "allow_agent_cascade instant ch s =
     (let cc = (case cascades s ch of Some c \<Rightarrow> c | None \<Rightarrow> \<lparr>cc_count = 0, cc_start = instant, cc_until = None\<rparr>);
          store = (\<lambda>c. s\<lparr>cascades := (cascades s)(ch \<mapsto> c)\<rparr>)
      in if (case cc_until cc of None \<Rightarrow> False | Some u \<Rightarrow> instant < u) then (store cc, False)
         else
           (let c1 = (if instant - cc_start cc > cascade_window s then cc\<lparr>cc_count := 0, cc_start := instant\<rparr> else cc);
                c2 = c1\<lparr>cc_count := cc_count c1 + 1\<rparr>
            in if cc_count c2 \<ge> cascade_threshold s
               then (store (c2\<lparr>cc_until := Some (instant + cascade_cooldown s)\<rparr>), False)
               else (store c2, True)))"

definition debounce_key :: "id \<Rightarrow> id \<Rightarrow> id \<Rightarrow> string" where
  "debounce_key ch nid agent = ch @ '':'' @ nid @ '':'' @ agent"

definition check_node_debounce :: "time \<Rightarrow> id \<Rightarrow> id \<Rightarrow> id \<Rightarrow> safety_state \<Rightarrow> bool" where
  "check_node_debounce instant ch nid agent s =
     (case node_debounce s (debounce_key ch nid agent) of
        None \<Rightarrow> False | Some t \<Rightarrow> instant - t < defaultNodeDebounceDuration)"

definition update_node_debounce :: "time \<Rightarrow> id \<Rightarrow> id \<Rightarrow> id \<Rightarrow> safety_state \<Rightarrow> safety_state" where
  "update_node_debounce instant ch nid agent s =
     s\<lparr>node_debounce := (node_debounce s)(debounce_key ch nid agent \<mapsto> instant)\<rparr>"

section \<open>Who may claim a task first\<close>

definition claimWindowDuration :: time where "claimWindowDuration = seconds 30"

record claim_window =
  cw_mentioned :: "id list"
  cw_expires :: time

type_synonym claim_windows = "id \<Rightarrow> claim_window option"

definition open_window :: "time \<Rightarrow> id \<Rightarrow> id list \<Rightarrow> claim_windows \<Rightarrow> claim_windows \<times> bool" where
  "open_window instant task ids w =
     (if w task \<noteq> None then (w, False)
      else (w(task \<mapsto> \<lparr>cw_mentioned = remdups ids, cw_expires = instant + claimWindowDuration\<rparr>), True))"

text \<open>The first lock of \<open>CheckClaimAllowed\<close> reads the entry; if it has expired, the second removes the task's.\<close>

datatype claim_check = ClaimAllowed | ClaimRefused | ClaimExpired

definition check_claim_read :: "time \<Rightarrow> id \<Rightarrow> id \<Rightarrow> claim_windows \<Rightarrow> claim_check" where
  "check_claim_read instant task claimer w =
     (case w task of
        None \<Rightarrow> ClaimAllowed
      | Some x \<Rightarrow>
          if instant > cw_expires x then ClaimExpired
          else if claimer \<in> set (cw_mentioned x) then ClaimAllowed
          else ClaimRefused)"

definition close_window :: "id \<Rightarrow> claim_windows \<Rightarrow> claim_windows" where
  "close_window task w = w(task := None)"

definition check_claim_allowed :: "time \<Rightarrow> id \<Rightarrow> id \<Rightarrow> claim_windows \<Rightarrow> claim_windows \<times> bool" where
  "check_claim_allowed instant task claimer w =
     (case check_claim_read instant task claimer w of
        ClaimAllowed \<Rightarrow> (w, True)
      | ClaimRefused \<Rightarrow> (w, False)
      | ClaimExpired \<Rightarrow> (close_window task w, True))"

definition has_window :: "time \<Rightarrow> id \<Rightarrow> claim_windows \<Rightarrow> bool" where
  "has_window instant task w = (case w task of None \<Rightarrow> False | Some x \<Rightarrow> instant < cw_expires x)"

definition get_mentioned_agent_ids :: "time \<Rightarrow> id \<Rightarrow> claim_windows \<Rightarrow> id list" where
  "get_mentioned_agent_ids instant task w =
     (case w task of None \<Rightarrow> [] | Some x \<Rightarrow> if instant > cw_expires x then [] else cw_mentioned x)"

text \<open>What the goroutine of \<open>ScheduleExpiry\<close> does when it wakes up: the callback runs only if a window was there.\<close>

definition window_expiry :: "id \<Rightarrow> claim_windows \<Rightarrow> claim_windows \<times> bool" where
  "window_expiry task w = (if w task = None then (w, False) else (close_window task w, True))"

section \<open>Who may post in a channel\<close>

record moderated_channel =
  mc_id :: id
  mc_type :: string
  mc_policy :: string
  mc_workspace :: "id option"

record channel_mute =
  mm_channel :: id
  mm_user :: id
  mm_expires :: "time option"

record moderation_db =
  md_channels :: "moderated_channel list"
  md_members :: "(id \<times> id \<times> string) list"
  md_mutes :: "channel_mute list"

definition workspace_role :: "moderation_db \<Rightarrow> id option \<Rightarrow> id \<Rightarrow> string" where
  "workspace_role d workspace user =
     (case find (\<lambda>(w, u, r). workspace = Some w \<and> u = user) (md_members d) of None \<Rightarrow> [] | Some (_, _, r) \<Rightarrow> r)"

definition muted_in :: "moderation_db \<Rightarrow> time \<Rightarrow> id \<Rightarrow> id \<Rightarrow> bool" where
  "muted_in d instant ch user =
     exists_row (\<lambda>m. mm_channel m = ch \<and> mm_user m = user \<and> (case mm_expires m of None \<Rightarrow> True | Some t \<Rightarrow> t > instant)) (md_mutes d)"

text \<open>\<open>False\<close> is \<open>ErrChannelPostingRestricted\<close>, also when the channel cannot be read.\<close>

definition check_human_channel_posting :: "moderation_db \<Rightarrow> time \<Rightarrow> id \<Rightarrow> id \<Rightarrow> bool" where
  "check_human_channel_posting d instant ch user =
     (case row_by mc_id ch (md_channels d) of
        None \<Rightarrow> False
      | Some c \<Rightarrow>
          if mc_type c \<noteq> ''channel'' then True
          else \<not> (muted_in d instant ch user \<or>
                  (mc_policy c = ''admins_only'' \<and>
                   workspace_role d (mc_workspace c) user \<noteq> ''owner'' \<and> workspace_role d (mc_workspace c) user \<noteq> ''admin'')))"

end
