(* ===== verification/Limit_Theorems.thy ===== *)
theory Limit_Theorems
  imports Safety_Limits
begin

text \<open>
  Properties of the limits: what an agent may send in any window, why waiting the announced time may not be
  enough, how often the agents of a channel may wake each other, and whose claims a mention reserves a task for.
\<close>

section \<open>The sliding window of sends\<close>

text \<open>A call of \<open>CheckAgentSendRate\<close>: the agent and the two readings of the clock.\<close>

type_synonym send_call = "id \<times> time \<times> time"

fun send_run :: "send_call list \<Rightarrow> safety_state \<Rightarrow> (safety_state \<times> bool list)" where
  "send_run [] s = (s, [])"
| "send_run ((agent, t, later) # cs) s =
     (case check_agent_send_rate t later agent s of
        (s', ok, _) \<Rightarrow> (case send_run cs s' of (s'', oks) \<Rightarrow> (s'', ok # oks)))"

text \<open>The times at which an agent's sends went on.\<close>

definition allowed_sends :: "id \<Rightarrow> send_call list \<Rightarrow> safety_state \<Rightarrow> time list" where
  "allowed_sends agent cs s =
     map (\<lambda>((a, t, l), ok). t) (filter (\<lambda>((a, t, l), ok). a = agent \<and> ok) (zip cs (snd (send_run cs s))))"

abbreviation in_window :: "time \<Rightarrow> time \<Rightarrow> time list \<Rightarrow> nat" where
  "in_window x w ts \<equiv> length (filter (\<lambda>t. x < t \<and> t \<le> x + w) ts)"

lemma allowed_sends_Nil [simp]: "allowed_sends agent [] s = []"
  by (simp add: allowed_sends_def)

lemma allowed_sends_Cons:
  "allowed_sends agent ((a, t, l) # cs) s =
     (case check_agent_send_rate t l a s of
        (s', ok, _) \<Rightarrow> (if a = agent \<and> ok then [t] else []) @ allowed_sends agent cs s')"
  by (auto simp: allowed_sends_def split: prod.split)

lemma check_fields:
  "check_agent_send_rate t l a s = (s', ok, r) \<Longrightarrow>
     send_limit s' = send_limit s \<and> send_window s' = send_window s \<and>
     send_attempts s' = (send_attempts s)(a := filter (\<lambda>x. x > t - send_window s) (send_attempts s a) @ [t]) \<and>
     (ok \<longleftrightarrow> int (length (filter (\<lambda>x. x > t - send_window s) (send_attempts s a) @ [t])) \<le> send_limit s)"
  by (auto simp: check_agent_send_rate_def Let_def)

text \<open>
  A bound on the window from \<open>x\<close>, for a state that already holds the attempts made in it. While calls of the
  agent come from inside the window, the attempts it remembers are at least those of the window.
\<close>

lemma window_bound:
  assumes "\<And>a t l. (a, t, l) \<in> set cs \<Longrightarrow> t \<ge> lo" and "sorted (map (\<lambda>(a, t, l). t) cs)"
  shows "int (in_window x (send_window s) (allowed_sends agent cs s)) \<le>
         max 0 (send_limit s - int (length (filter (\<lambda>t. x < t) (send_attempts s agent))))"
  using assms
proof (induction cs arbitrary: s lo)
  case Nil
  then show ?case by simp
next
  case (Cons c cs)
  obtain a t l where c: "c = (a, t, l)" by (cases c)
  obtain s' ok r where k: "check_agent_send_rate t l a s = (s', ok, r)" by (cases "check_agent_send_rate t l a s")
  note f = check_fields [OF k]
  have head: "allowed_sends agent (c # cs) s = (if a = agent \<and> ok then [t] else []) @ allowed_sends agent cs s'"
    by (simp add: c allowed_sends_Cons k)
  have ih: "int (in_window x (send_window s) (allowed_sends agent cs s')) \<le>
      max 0 (send_limit s - int (length (filter (\<lambda>t. x < t) (send_attempts s' agent))))"
    using Cons.IH [of t s'] Cons.prems(2) f c by (force)
  show ?case
  proof (cases "a = agent \<and> t \<le> x + send_window s")
    case False
    have late: "in_window x (send_window s) (allowed_sends agent ds u) = 0"
      if "\<And>a t l. (a, t, l) \<in> set ds \<Longrightarrow> t > x + send_window s" for ds u
      using that
    proof (induction ds arbitrary: u)
      case (Cons d ds)
      then show ?case by (cases d) (force simp: allowed_sends_Cons split: prod.split)
    qed simp
    show ?thesis
    proof (cases "a = agent")
      case True
      then have "\<And>a t l. (a, t, l) \<in> set (c # cs) \<Longrightarrow> t > x + send_window s"
        using False Cons.prems(2) c by force
      then show ?thesis using late [of "c # cs" s] by simp
    next
      case other: False
      then show ?thesis using ih f by (simp add: head)
    qed
  next
    case True
    let ?kept = "filter (\<lambda>x. x > t - send_window s) (send_attempts s agent)"
    have "filter (\<lambda>y. x < y) (send_attempts s agent) = filter (\<lambda>y. x < y) ?kept"
      using True by (auto simp: filter_filter intro!: filter_cong)
    note same = this
    then have after: "length (filter (\<lambda>y. x < y) (send_attempts s' agent)) =
        length (filter (\<lambda>y. x < y) (send_attempts s agent)) + (if x < t then 1 else 0)"
      using f True by simp
    have "length (filter (\<lambda>y. x < y) ?kept) \<le> length ?kept" by (rule length_filter_le)
    then have bound: "int (length (filter (\<lambda>y. x < y) (send_attempts s agent))) + 1 \<le> send_limit s" if ok
      using f True that same by simp
    have window: "int (in_window x (send_window s) (allowed_sends agent (c # cs) s)) =
        (if ok \<and> x < t then 1 else 0) + int (in_window x (send_window s) (allowed_sends agent cs s'))"
      using True by (simp add: head)
    show ?thesis using ih after bound unfolding window by (auto split: if_splits)
  qed
qed

text \<open>
  C22. The limit on what an agent sends holds in every window, not only in those that are checked: of the calls in
  any interval as long as the window, at most as many are allowed as the limit says. A call reads the clock just before it
  takes the lock; the calls are taken to get the lock in the order of their times.
\<close>

theorem sends_stay_within_limit:
  assumes "sorted (map (\<lambda>(a, t, l). t) cs)" and "0 \<le> send_limit s"
  shows "int (in_window x (send_window s) (allowed_sends agent cs s)) \<le> send_limit s"
proof (cases cs)
  case Nil
  then show ?thesis using assms(2) by simp
next
  case (Cons c cs')
  obtain a t l where "c = (a, t, l)" by (cases c)
  then have "(a', t', l') \<in> set cs \<Longrightarrow> t' \<ge> t" for a' t' l' using assms(1) Cons by force
  then show ?thesis using window_bound [of cs t x s agent] assms by fastforce
qed

text \<open>
  Waiting as long as the answer says may not be enough. When the first two attempts remembered are two seconds
  apart, an agent that is refused, makes no other call and comes back after the announced seconds is refused again:
  the refused attempt took the place of the one that has left the window.
\<close>

theorem retry_after_is_too_short:
  assumes refused: "check_agent_send_rate t l agent s = (s', False, retry)"
    and kept: "send_attempts s' agent = first # second # rest" and gap: "second \<ge> first + seconds 2"
    and order: "sorted (send_attempts s' agent)" and clock: "t \<le> l" "l \<le> first + send_window s"
    and again: "t' = l + seconds (retry_after_header retry)"
  shows "\<exists>s'' retry'. check_agent_send_rate t' l' agent s' = (s'', False, retry')"
proof -
  note f = check_fields [OF refused]
  have retry: "retry = max (first + send_window s - l) (seconds 1)"
  proof -
    have "filter (\<lambda>x. x > t - send_window s) (send_attempts s agent) @ [t] = first # second # rest" using kept f by simp
    then show ?thesis using refused unfolding check_agent_send_rate_def Let_def by (auto split: if_splits)
  qed
  have "0 \<le> (retry + seconds 1 - 1) mod seconds 1" by (rule pos_mod_sign) simp
  then have "retry_after_header retry * seconds 1 \<le> retry + seconds 1 - 1"
    unfolding retry_after_header_def using div_mult_mod_eq [of "retry + seconds 1 - 1" "seconds 1"] by linarith
  then have early: "t' - send_window s < second" using retry clock gap again by (simp add: max_def split: if_splits)
  have "filter (\<lambda>x. x > t' - send_window s') (send_attempts s' agent) =
        filter (\<lambda>x. x > t' - send_window s) [first] @ second # rest"
    using kept order early f by (auto simp: filter_id_conv intro!: filter_True)
  then have "int (length (filter (\<lambda>x. x > t' - send_window s') (send_attempts s' agent) @ [t'])) \<ge>
      int (length (send_attempts s' agent))"
    using kept by simp
  moreover have "int (length (send_attempts s' agent)) > send_limit s" using f by simp
  ultimately have "\<not> int (length (filter (\<lambda>x. x > t' - send_window s') (send_attempts s' agent) @ [t'])) \<le> send_limit s'"
    using f by linarith
  then show ?thesis unfolding check_agent_send_rate_def Let_def by simp
qed

section \<open>Agents that wake each other\<close>

fun cascade_run :: "(id \<times> time) list \<Rightarrow> safety_state \<Rightarrow> bool list" where
  "cascade_run [] s = []"
| "cascade_run ((ch, t) # cs) s = (case allow_agent_cascade t ch s of (s', ok) \<Rightarrow> ok # cascade_run cs s')"

definition allowed_wakes :: "id \<Rightarrow> (id \<times> time) list \<Rightarrow> safety_state \<Rightarrow> nat" where
  "allowed_wakes ch cs s = length (filter (\<lambda>((c, t), ok). c = ch \<and> ok) (zip cs (cascade_run cs s)))"

lemma allowed_wakes_simps [simp]:
  "allowed_wakes ch [] s = 0"
  "allowed_wakes ch ((c, t) # cs) s =
     (case allow_agent_cascade t c s of (s', ok) \<Rightarrow> (if c = ch \<and> ok then 1 else 0) + allowed_wakes ch cs s')"
  by (auto simp: allowed_wakes_def split: prod.split)

lemma cascade_frame:
  "allow_agent_cascade t c s = (s', ok) \<Longrightarrow>
     cascade_window s' = cascade_window s \<and> cascade_threshold s' = cascade_threshold s \<and>
     cascade_cooldown s' = cascade_cooldown s \<and> (ch \<noteq> c \<longrightarrow> cascades s' ch = cascades s ch)"
  by (auto simp: allow_agent_cascade_def Let_def split: if_splits)

text \<open>
  What a channel may still wake before its count is reset, and whether the reset can come in an interval: not
  when the count was started in it.
\<close>

definition wakes_left :: "id \<Rightarrow> safety_state \<Rightarrow> int" where
  "wakes_left ch s =
     max 0 (cascade_threshold s - 1 - (case cascades s ch of None \<Rightarrow> 0 | Some c \<Rightarrow> cc_count c))"

definition wakes_due :: "time \<Rightarrow> id \<Rightarrow> safety_state \<Rightarrow> int" where
  "wakes_due x ch s =
     wakes_left ch s +
     (case cascades s ch of None \<Rightarrow> 0 | Some c \<Rightarrow> if cc_start c < x then max 0 (cascade_threshold s - 1) else 0)"

lemma wakes_left_nonneg: "0 \<le> wakes_left ch s"
  by (simp add: wakes_left_def)

lemma wake_step_due:
  assumes "allow_agent_cascade t ch s = (s', ok)" and "x \<le> t" and "t \<le> x + cascade_window s"
  shows "(if ok then 1 else 0) + wakes_due x ch s' \<le> wakes_due x ch s"
  using assms
  by (auto simp: allow_agent_cascade_def Let_def wakes_due_def wakes_left_def split: option.splits if_splits)

lemma wakes_bounded:
  assumes "\<And>c t. (c, t) \<in> set cs \<Longrightarrow> x \<le> t \<and> t \<le> x + cascade_window s"
  shows "int (allowed_wakes ch cs s) \<le> wakes_due x ch s"
  using assms
proof (induction cs arbitrary: s)
  case Nil
  then show ?case using wakes_left_nonneg [of ch s] by (auto simp: wakes_due_def split: option.split)
next
  case (Cons call cs)
  obtain c t where call: "call = (c, t)" by (cases call)
  obtain s' ok where k: "allow_agent_cascade t c s = (s', ok)" by (cases "allow_agent_cascade t c s")
  note fr = cascade_frame [OF k]
  have ih: "int (allowed_wakes ch cs s') \<le> wakes_due x ch s'"
  proof (rule Cons.IH)
    fix d u
    assume "(d, u) \<in> set cs"
    then show "x \<le> u \<and> u \<le> x + cascade_window s'" using Cons.prems [of d u] fr by simp
  qed
  have t: "x \<le> t" "t \<le> x + cascade_window s" using Cons.prems call by auto
  show ?case
  proof (cases "c = ch")
    case True
    then show ?thesis using wake_step_due [of t ch s s' ok x] k t ih by (auto simp: call split: if_splits)
  next
    case False
    then have "wakes_due x ch s' = wakes_due x ch s" using fr [of ch] by (auto simp: wakes_due_def wakes_left_def split: option.split)
    then show ?thesis using ih False by (simp add: call k)
  qed
qed

text \<open>
  Agents cannot wake each other without end: in any interval as long as the window, the agents of a channel
  cause fewer than twice the threshold of wakes, and fewer than the threshold when the channel was quiet before.
\<close>

theorem cascades_are_damped:
  assumes "\<And>c t. (c, t) \<in> set cs \<Longrightarrow> x \<le> t \<and> t \<le> x + cascade_window s" and "1 \<le> cascade_threshold s"
    and "\<And>c. cascades s ch = Some c \<Longrightarrow> 0 \<le> cc_count c"
  shows "int (allowed_wakes ch cs s) \<le> 2 * (cascade_threshold s - 1) \<and>
         (cascades s ch = None \<longrightarrow> int (allowed_wakes ch cs s) \<le> cascade_threshold s - 1)"
  using wakes_bounded [of cs x s ch] assms
  by (fastforce simp: wakes_due_def wakes_left_def max_def split: option.splits if_splits)

lemma cascade_cools:
  assumes "cascades s ch = Some c" and "cc_until c = Some u" and "\<And>d t. (d, t) \<in> set cs \<Longrightarrow> t < u"
  shows "allowed_wakes ch cs s = 0"
  using assms
proof (induction cs arbitrary: s)
  case (Cons call cs)
  obtain d t where call: "call = (d, t)" by (cases call)
  obtain s' ok where k: "allow_agent_cascade t d s = (s', ok)" by (cases "allow_agent_cascade t d s")
  have "t < u" using Cons.prems(3) [of d t] call by simp
  then have "cascades s' ch = Some c \<and> (d = ch \<longrightarrow> \<not> ok)"
    using k Cons.prems(1,2) cascade_frame [OF k, of ch]
    by (cases "d = ch") (auto simp: allow_agent_cascade_def)
  then show ?case using Cons.IH [of s'] Cons.prems call k by auto
qed simp

text \<open>
  A cascade is stopped: the call that reaches the threshold is refused, and so is every call for the channel
  until the cooldown is over, whatever other channels do.
\<close>

theorem cascade_is_stopped:
  assumes call: "allow_agent_cascade t ch s = (s', False)"
    and calm: "\<And>c u. cascades s ch = Some c \<Longrightarrow> cc_until c = Some u \<Longrightarrow> u \<le> t"
    and within: "\<And>d t'. (d, t') \<in> set cs \<Longrightarrow> t' < t + cascade_cooldown s"
  shows "allowed_wakes ch cs s' = 0"
proof -
  obtain c where "cascades s' ch = Some c" "cc_until c = Some (t + cascade_cooldown s)"
    using call calm
    by (fastforce simp: allow_agent_cascade_def Let_def split: option.splits if_splits)
  then show ?thesis using cascade_cools within by blast
qed

section \<open>The reservation of a mention\<close>

text \<open>
  Callers interleave between the two locks of \<open>CheckClaimAllowed\<close>: \<open>due\<close> lists the tasks whose entry a caller
  saw expired and will remove.
\<close>

datatype window_op =
    OpenWindow time id "id list" | ReadClaim time id id | DropExpired id | CloseWindow id | ExpireWindow id

type_synonym window_state = "claim_windows \<times> id list"

fun window_step :: "window_state \<Rightarrow> window_op \<Rightarrow> window_state" where
  "window_step (w, due) (OpenWindow t task ids) = (fst (open_window t task ids w), due)"
| "window_step (w, due) (ReadClaim t task claimer) =
     (w, if check_claim_read t task claimer w = ClaimExpired then task # due else due)"
| "window_step (w, due) (DropExpired task) =
     (if task \<in> set due then (close_window task w, remove1 task due) else (w, due))"
| "window_step (w, due) (CloseWindow task) = (close_window task w, due)"
| "window_step (w, due) (ExpireWindow task) = (fst (window_expiry task w), due)"

fun undisturbed :: "id \<Rightarrow> time \<Rightarrow> window_op \<Rightarrow> bool" where
  "undisturbed task end1 (OpenWindow t x ids) = True"
| "undisturbed task end1 (ReadClaim t x claimer) = (t \<le> end1)"
| "undisturbed task end1 (DropExpired x) = True"
| "undisturbed task end1 (CloseWindow x) = (x \<noteq> task)"
| "undisturbed task end1 (ExpireWindow x) = (x \<noteq> task)"

definition reserved :: "id \<Rightarrow> claim_window \<Rightarrow> window_state \<Rightarrow> bool" where
  "reserved task x s \<longleftrightarrow> fst s task = Some x \<and> task \<notin> set (snd s)"

lemma reserved_step: "undisturbed task (cw_expires x) o1 \<Longrightarrow> reserved task x s \<Longrightarrow> reserved task x (window_step s o1)"
  by (cases s; cases o1) (auto simp: reserved_def open_window_def check_claim_read_def close_window_def window_expiry_def
      dest: notin_set_remove1 split: if_splits)

lemma reserved_run:
  "(\<And>o1. o1 \<in> set ops \<Longrightarrow> undisturbed task (cw_expires x) o1) \<Longrightarrow> reserved task x s \<Longrightarrow> reserved task x (foldl window_step s ops)"
proof (induction ops arbitrary: s)
  case (Cons a ops)
  then have "reserved task x (window_step s a)" using reserved_step by simp
  then show ?case using Cons by simp
qed simp

text \<open>
  A mention reserves a task: from the moment a window is opened for it and for 30 seconds, unless the window is
  closed, an agent that was not mentioned is refused and one that was is not, however the calls for this and other
  tasks interleave, provided that no caller is still removing an expired window of the same task.
\<close>

theorem mention_reserves_the_task:
  assumes "open_window t task ids w = (w1, True)" and "task \<notin> set due"
    and "\<And>o1. o1 \<in> set ops \<Longrightarrow> undisturbed task (t + claimWindowDuration) o1"
    and "foldl window_step (w1, due) ops = (w', due')" and "t' \<le> t + claimWindowDuration"
  shows "check_claim_read t' task claimer w' = (if claimer \<in> set ids then ClaimAllowed else ClaimRefused)"
proof -
  let ?x = "\<lparr>cw_mentioned = remdups ids, cw_expires = t + claimWindowDuration\<rparr>"
  have "reserved task ?x (w1, due)" using assms(1,2) by (auto simp: reserved_def open_window_def split: if_splits)
  then have "reserved task ?x (w', due')" using reserved_run [of ops task ?x "(w1, due)"] assms(3,4) by simp
  then show ?thesis using assms(5) by (simp add: reserved_def check_claim_read_def)
qed

section \<open>The properties on small inputs\<close>

definition sl_state :: safety_state where
  "sl_state = (new_safety_state (Some 2) None None (Some 3) None)"

theorem sends_stay_within_limit_witness:
  "int (in_window 0 (send_window sl_state)
     (allowed_sends ''a'' [(''a'', 1, 1), (''a'', 2, 2), (''b'', 2, 2), (''a'', 3, 3)] sl_state)) \<le> send_limit sl_state"
  by (rule sends_stay_within_limit) (simp_all add: sl_state_def new_safety_state_def positive_env_def)

theorem retry_after_is_too_short_witness:
  "\<exists>s'' retry'. check_agent_send_rate (seconds 10) (seconds 10) ''a''
     (sl_state\<lparr>send_attempts := (\<lambda>_. [])(''a'' := [0, seconds 3, seconds 4])\<rparr>) = (s'', False, retry')"
proof -
  let ?s = "sl_state\<lparr>send_attempts := (\<lambda>_. [])(''a'' := [0, seconds 3])\<rparr>"
  let ?s' = "sl_state\<lparr>send_attempts := (\<lambda>_. [])(''a'' := [0, seconds 3, seconds 4])\<rparr>"
  have call: "check_agent_send_rate (seconds 4) (seconds 4) ''a'' ?s = (?s', False, seconds 6)"
    by (simp add: check_agent_send_rate_def Let_def sl_state_def new_safety_state_def positive_env_def defaultAgentSendWindow_def)
  have "seconds 10 = seconds 4 + seconds (retry_after_header (seconds 6))" by (simp add: retry_after_header_def)
  then show ?thesis
    using retry_after_is_too_short [OF call, of 0 "seconds 3" "[seconds 4]" "seconds 10" "seconds 10"]
    by (simp add: sl_state_def new_safety_state_def positive_env_def defaultAgentSendWindow_def)
qed

theorem cascades_are_damped_witness:
  "int (allowed_wakes ''ch'' [(''ch'', 1), (''ch'', 2), (''ch'', 3), (''ch'', 4)] sl_state) \<le> 2"
proof -
  have "int (allowed_wakes ''ch'' [(''ch'', 1), (''ch'', 2), (''ch'', 3), (''ch'', 4)] sl_state) \<le> cascade_threshold sl_state - 1"
    by (rule mp [OF conjunct2 [OF cascades_are_damped [of _ 1]]])
      (auto simp: sl_state_def new_safety_state_def positive_env_def defaultCascadeWindow_def)
  then show ?thesis by (simp add: sl_state_def new_safety_state_def positive_env_def)
qed

theorem cascade_is_stopped_witness:
  "allowed_wakes ''ch'' [(''ch'', seconds 30)]
     (fst (allow_agent_cascade 4 ''ch'' (sl_state\<lparr>cascades := [''ch'' \<mapsto> \<lparr>cc_count = 2, cc_start = 1, cc_until = None\<rparr>]\<rparr>))) = 0"
proof -
  let ?s = "sl_state\<lparr>cascades := [''ch'' \<mapsto> \<lparr>cc_count = 2, cc_start = 1, cc_until = None\<rparr>]\<rparr>"
  have "snd (allow_agent_cascade 4 ''ch'' ?s) = False"
    by (simp add: allow_agent_cascade_def Let_def sl_state_def new_safety_state_def positive_env_def defaultCascadeWindow_def)
  then have call: "allow_agent_cascade 4 ''ch'' ?s = (fst (allow_agent_cascade 4 ''ch'' ?s), False)"
    by (cases "allow_agent_cascade 4 ''ch'' ?s") simp
  show ?thesis
    by (rule cascade_is_stopped [OF call])
      (auto simp: sl_state_def new_safety_state_def positive_env_def defaultCascadeCooldown_def)
qed

theorem mention_reserves_the_task_witness:
  "check_claim_read (seconds 20) ''t'' ''x'' (fst (open_window 0 ''t'' [''a''] (\<lambda>_. None))) = ClaimRefused"
proof -
  have "open_window 0 ''t'' [''a''] (\<lambda>_. None) = (fst (open_window 0 ''t'' [''a''] (\<lambda>_. None)), True)"
    by (simp add: open_window_def)
  from mention_reserves_the_task [OF this, of "[]" "[]" _ "[]" "seconds 20" "''x''"] show ?thesis
    by (simp add: claimWindowDuration_def)
qed

end
