(* ===== verification/Message_Send.thy ===== *)
theory Message_Send
  imports Message_Wake Task_Model
begin

text \<open>
  Sending a message: the transaction of \<open>MessageHandler.Create\<close> (\<open>handler/message.go\<close>) from the lock of the conversation
  to the commit, with \<open>CheckAndHoldAgentSend\<close> and \<open>TaskCorrectionRun\<close> (\<open>service/message_freshness.go\<close>). What an
  agent sends for a run is held while the conversation has messages the run has not seen; a hold shows the
  oldest five, moves the run's cursor past them and keeps the draft. A user's correction shown in a hold is
  consumed, which takes it out of the agent's message wakes.

  Here the transaction is one step, as it is when nothing else happens meanwhile; \<open>Send_Steps\<close> takes it apart, with
  the locks that keep it from other sends. The numbers of messages come from a sequence, \<open>ms_next_seq\<close>. Null and
  zero are the same for the cursor of a run. Names, attachments and broadcasts are left out, and the column \<open>freshness_held_at\<close>, which is only shown.
\<close>

section \<open>State\<close>

record held_draft =
  hd_run :: id
  hd_channel :: id
  hd_thread :: "id option"
  hd_content :: string
  hd_based :: int
  hd_created :: time

record send_state =
  ms_queue :: mw_state
  ms_drafts :: "held_draft list"
  ms_next_seq :: int

abbreviation ms_messages :: "send_state \<Rightarrow> wake_message list" where
  "ms_messages st \<equiv> wk_messages (mw_tables (ms_queue st))"

definition FreshnessHeldMessageLimit :: nat where
  "FreshnessHeldMessageLimit = 5"

record freshness_input =
  fs_keep :: int
  fs_reason :: string
  fs_draft :: string
  fs_run :: id
  fs_agent :: id
  fs_channel :: id
  fs_thread :: id

record freshness_hold =
  fh_messages :: "wake_message list"
  fh_new :: nat
  fh_shown :: nat
  fh_omitted :: nat
  fh_seen :: int

datatype freshness_error = ErrFreshnessRunUnavailable | ErrFreshnessDraftUnchanged

section \<open>Corrections\<close>

definition correction_runs :: "task_row list \<Rightarrow> rdb \<Rightarrow> id \<Rightarrow> id \<Rightarrow> id list" where
  "correction_runs ts d ch th =
     remdups (map rn_id (filter (\<lambda>r.
       scope_channel (rn_scope r) = Some ch \<and> scope_thread (rn_scope r) = Some th \<and> scope_node (rn_scope r) = None \<and>
       rn_finished r = None \<and>
       exists_row (\<lambda>h. th_id h = th \<and> th_channel h = ch \<and>
         exists_row (\<lambda>t. t_message t = Some (th_root h) \<and> t_channel t = Some ch \<and>
             t_status t \<noteq> TaskStatusDone \<and> t_status t \<noteq> TaskStatusClosed \<and>
             exists_row (\<lambda>l. lk_run l = rn_id r \<and> lk_task l = t_id t) (links d)) ts) (threads d)) (runs d)))"

definition task_correction_run :: "task_row list \<Rightarrow> rdb \<Rightarrow> id \<Rightarrow> id \<Rightarrow> id" where
  "task_correction_run ts d ch th =
     (if th = [] then [] else case correction_runs ts d ch th of [r] \<Rightarrow> r | _ \<Rightarrow> [])"

section \<open>Holding a send\<close>

text \<open>What a run with a cursor has not seen of its conversation, oldest first.\<close>

definition unseen :: "wake_message list \<Rightarrow> id \<Rightarrow> id \<Rightarrow> id \<Rightarrow> int \<Rightarrow> wake_message list" where
  "unseen ms run ch th seen =
     sort_key wm_seq (filter (\<lambda>m.
       wm_channel m = ch \<and> coalesce (wm_thread m) = th \<and> wm_node m = None \<and> \<not> wm_deleted m \<and> wm_seq m > seen \<and>
       (wm_by_agent m \<or> (wm_sender_type m = ''user'' \<and> wm_correction m = Some run)) \<and>
       coalesce (wm_run m) \<noteq> run) ms)"

text \<open>SQL's \<open>btrim\<close> takes off spaces only.\<close>

definition btrim :: "string \<Rightarrow> string" where
  "btrim s = rev (dropWhile (\<lambda>c. c = CHR 0x20) (rev (dropWhile (\<lambda>c. c = CHR 0x20) s)))"

definition freshness_run :: "rdb \<Rightarrow> freshness_input \<Rightarrow> run_row option" where
  "freshness_run d i =
     find (\<lambda>r. rn_id r = fs_run i \<and> rn_agent r = fs_agent i \<and> scope_channel (rn_scope r) = Some (fs_channel i) \<and>
               coalesce (scope_thread (rn_scope r)) = fs_thread i \<and> scope_node (rn_scope r) = None \<and>
               rn_finished r = None) (runs d)"

text \<open>The two insertions that do nothing or replace on conflict.\<close>

definition consume :: "id \<Rightarrow> id \<Rightarrow> wake_message list \<Rightarrow> consumption list \<Rightarrow> consumption list" where
  "consume agent run shown cs =
     foldl (\<lambda>cs m. if wm_sender_type m = ''user'' \<and> \<not> exists_row (\<lambda>c. cn_agent c = agent \<and> cn_message c = wm_id m) cs
                   then cs @ [\<lparr>cn_agent = agent, cn_message = wm_id m, cn_run = run\<rparr>] else cs) cs shown"

definition hold_draft :: "time \<Rightarrow> freshness_input \<Rightarrow> int \<Rightarrow> held_draft list \<Rightarrow> held_draft list" where
  "hold_draft instant i seen ds =
     (if fs_draft i = [] then ds
      else if exists_row (\<lambda>x. hd_run x = fs_run i) ds
      then update_where (\<lambda>x. hd_run x = fs_run i)
             (\<lambda>x. x\<lparr>hd_content := fs_draft i, hd_based := seen, hd_created := instant\<rparr>) ds
      else ds @ [\<lparr>hd_run = fs_run i, hd_channel = fs_channel i, hd_thread = nullable (fs_thread i),
                  hd_content = fs_draft i, hd_based = seen, hd_created = instant\<rparr>])"

definition see_up_to :: "time \<Rightarrow> id \<Rightarrow> int \<Rightarrow> rdb \<Rightarrow> rdb" where
  "see_up_to instant run latest d =
     d\<lparr>runs := update_where (\<lambda>r. rn_id r = run)
        (\<lambda>r. r\<lparr>rn_wake := (rn_wake r)\<lparr>freshness_seen := max (freshness_seen (rn_wake r)) latest\<rparr>, rn_updated := instant\<rparr>)
        (runs d)\<rparr>"

definition ms_rdb :: "send_state \<Rightarrow> rdb" where
  "ms_rdb st = r_tables (mw_remote (ms_queue st))"

definition with_rdb :: "rdb \<Rightarrow> send_state \<Rightarrow> send_state" where
  "with_rdb d st = st\<lparr>ms_queue := (ms_queue st)\<lparr>mw_remote := (mw_remote (ms_queue st))\<lparr>r_tables := d\<rparr>\<rparr>\<rparr>"

text \<open>Whether a draft that has seen everything may go out: the same text only with a confirmation.\<close>

definition draft_decided :: "send_state \<Rightarrow> freshness_input \<Rightarrow> int \<Rightarrow> bool" where
  "draft_decided st i seen =
     (let matches = exists_row (\<lambda>x. hd_run x = fs_run i \<and> btrim (hd_content x) = btrim (fs_draft i)) (ms_drafts st);
          needs = exists_row (\<lambda>c. cn_run c = fs_run i) (mw_consumed (ms_queue st))
      in if fs_keep i \<noteq> 0 \<and> (\<not> matches \<or> fs_keep i \<noteq> seen \<or> blank (fs_reason i) \<or> length (fs_reason i) > 4000) then False
         else \<not> (matches \<and> needs \<and> fs_keep i = 0))"

definition check_and_hold_agent_send ::
  "time \<Rightarrow> freshness_input \<Rightarrow> send_state \<Rightarrow> freshness_error + (send_state \<times> freshness_hold option)" where
  "check_and_hold_agent_send instant i st =
     (case freshness_run (ms_rdb st) i of
        None \<Rightarrow> Inl ErrFreshnessRunUnavailable
      | Some r \<Rightarrow>
     (let seen = freshness_seen (rn_wake r) in
      if seen = 0 then (if fs_keep i \<noteq> 0 then Inl ErrFreshnessDraftUnchanged else Inr (st, None))
      else
        (let new = unseen (ms_messages st) (fs_run i) (fs_channel i) (fs_thread i) seen;
             shown = take FreshnessHeldMessageLimit new
         in if shown = [] then (if draft_decided st i seen then Inr (st, None) else Inl ErrFreshnessDraftUnchanged)
            else
              (let latest = foldl (\<lambda>l m. if wm_seq m > l then wm_seq m else l) 0 shown;
                   st1 = with_rdb (see_up_to instant (fs_run i) latest (ms_rdb st)) st;
                   st2 = st1\<lparr>ms_drafts := hold_draft instant i seen (ms_drafts st1),
                             ms_queue := (ms_queue st1)\<lparr>mw_consumed :=
                               consume (fs_agent i) (fs_run i) shown (mw_consumed (ms_queue st1))\<rparr>\<rparr>
               in Inr (st2, Some \<lparr>fh_messages = shown, fh_new = length new, fh_shown = length shown,
                                  fh_omitted = length new - length shown, fh_seen = latest\<rparr>)))))"

section \<open>Storing a message\<close>

text \<open>The trigger \<open>follow_thread_on_reply\<close>.\<close>

definition follow_thread :: "id option \<Rightarrow> id \<Rightarrow> string \<Rightarrow> thread_subscription list \<Rightarrow> thread_subscription list" where
  "follow_thread th sender ty subs =
     (if th = None \<or> (ty \<noteq> ''agent'' \<and> ty \<noteq> ''user'') then subs
      else if exists_row (\<lambda>x. Some (ts_thread x) = th \<and> ts_actor x = sender) subs
      then update_where (\<lambda>x. Some (ts_thread x) = th \<and> ts_actor x = sender) (\<lambda>x. x\<lparr>ts_followed := True\<rparr>) subs
      else subs @ [\<lparr>ts_thread = coalesce th, ts_actor = sender, ts_followed = True\<rparr>])"

record message_input =
  mi_sender_type :: string
  mi_sender :: id
  mi_channel :: id
  mi_thread :: id
  mi_node :: id
  mi_content :: string
  mi_mentioned :: "id list"
  mi_keep :: int
  mi_reason :: string
  mi_correction :: id
  mi_run :: id
  mi_run_thread :: id

definition new_message :: "id \<Rightarrow> time \<Rightarrow> message_input \<Rightarrow> id option \<Rightarrow> send_state \<Rightarrow> wake_message" where
  "new_message mid instant i correction st =
     \<lparr>wm_id = mid, wm_seq = ms_next_seq st, wm_deleted = False, wm_channel = mi_channel i, wm_thread = nullable (mi_thread i),
      wm_node = nullable (mi_node i), wm_sender_type = mi_sender_type i, wm_sender = mi_sender i,
      wm_mentioned = Some (mi_mentioned i), wm_created = instant, wm_correction = correction, wm_run = nullable (mi_run i)\<rparr>"

definition insert_message :: "wake_message \<Rightarrow> send_state \<Rightarrow> send_state" where
  "insert_message m st =
     (let q = ms_queue st; w = mw_tables q; d = r_tables (mw_remote q)
      in st\<lparr>ms_queue := q\<lparr>mw_tables := w\<lparr>wk_messages := wk_messages w @ [m],
               wk_subscriptions := follow_thread (wm_thread m) (wm_sender m) (wm_sender_type m) (wk_subscriptions w)\<rparr>,
             mw_remote := (mw_remote q)\<lparr>r_tables := d\<lparr>message_seqs := message_seqs d @ [(wm_id m, wm_seq m)]\<rparr>\<rparr>\<rparr>,
             ms_next_seq := ms_next_seq st + 1\<rparr>)"

datatype send_error = SendFreshness freshness_error | SendRetention | SendCorrectionForbidden | SendCorrectionEnded
datatype send_outcome = MessageSent wake_message | MessageHeld freshness_hold

definition freshness_of :: "message_input \<Rightarrow> freshness_input" where
  "freshness_of i =
     \<lparr>fs_keep = mi_keep i, fs_reason = mi_reason i, fs_draft = mi_content i, fs_run = mi_run i, fs_agent = mi_sender i,
      fs_channel = mi_channel i, fs_thread = mi_run_thread i\<rparr>"

text \<open>The correction a message is marked with; an explicit one must be a user's, of an active run here.\<close>

definition correction_of :: "(id \<Rightarrow> bool) \<Rightarrow> task_row list \<Rightarrow> rdb \<Rightarrow> message_input \<Rightarrow> send_error + id option" where
  "correction_of valid_id ts d i =
     (if mi_correction i \<noteq> [] then
        (if \<not> valid_id (mi_correction i) \<or> mi_sender_type i \<noteq> ''user'' then Inl SendCorrectionForbidden
         else if exists_row (\<lambda>r. rn_id r = mi_correction i \<and> scope_channel (rn_scope r) = Some (mi_channel i) \<and>
                   coalesce (scope_thread (rn_scope r)) = mi_thread i \<and> scope_node (rn_scope r) = None \<and> rn_finished r = None)
                (runs d)
         then Inr (Some (mi_correction i)) else Inl SendCorrectionEnded)
      else if mi_sender_type i = ''user'' \<and> mi_node i = [] then Inr (nullable (task_correction_run ts d (mi_channel i) (mi_thread i)))
      else Inr None)"

definition retention_ok :: "message_input \<Rightarrow> bool" where
  "retention_ok i \<longleftrightarrow>
     (mi_keep i = 0 \<and> mi_reason i = []) \<or>
     (1 \<le> mi_keep i \<and> \<not> blank (mi_reason i) \<and> length (mi_reason i) \<le> 4000 \<and> mi_run i \<noteq> [] \<and> mi_node i = [])"

text \<open>
  \<open>mi_run\<close> is the run of the delivery and \<open>mi_run_thread\<close> the thread of its cursor, as \<open>ResolveMessageDeliveryScope\<close>
  answered them; \<open>[]\<close> is none. A hold is committed; an error rolls everything back.
\<close>

definition send_message_tx ::
  "(id \<Rightarrow> bool) \<Rightarrow> task_row list \<Rightarrow> id \<Rightarrow> time \<Rightarrow> message_input \<Rightarrow> send_state \<Rightarrow> send_error + (send_state \<times> send_outcome)" where
  "send_message_tx valid_id ts mid instant i st =
     (case (if mi_run i \<noteq> [] \<and> mi_node i = [] then check_and_hold_agent_send instant (freshness_of i) st else Inr (st, None)) of
        Inl err \<Rightarrow> Inl (SendFreshness err)
      | Inr (st1, Some hold) \<Rightarrow> Inr (st1, MessageHeld hold)
      | Inr (st1, None) \<Rightarrow>
          if \<not> retention_ok i then Inl SendRetention
          else
            (case correction_of valid_id ts (ms_rdb st1) i of
               Inl err \<Rightarrow> Inl err
             | Inr c \<Rightarrow>
                 (let m = new_message mid instant i c st1; st2 = insert_message m st1
                  in Inr (if mi_run i = [] then st2
                          else st2\<lparr>ms_drafts := delete_where (\<lambda>x. hd_run x = mi_run i) (ms_drafts st2)\<rparr>,
                          MessageSent m))))"

text \<open>The events after the commit; their errors are only logged.\<close>

definition send_event :: "renv \<Rightarrow> message_input \<Rightarrow> payload \<Rightarrow> send_outcome \<Rightarrow> rdb \<Rightarrow> rdb" where
  "send_event e i details what d =
     (if mi_run i = [] then d
      else (case (case what of
                    MessageSent m \<Rightarrow> append_event e d (mi_run i) VisibleMessageSent ''visible message persisted'' []
                                       [(''message_id'', wm_id m)]
                  | MessageHeld h \<Rightarrow> append_event e d (mi_run i) VisibleMessageHeld ''visible message held for newer context'' []
                                       details) of
              Inl _ \<Rightarrow> d | Inr d' \<Rightarrow> d'))"

definition send_message ::
  "renv \<Rightarrow> (id \<Rightarrow> bool) \<Rightarrow> task_row list \<Rightarrow> id \<Rightarrow> payload \<Rightarrow> message_input \<Rightarrow> send_state \<Rightarrow> send_error + (send_state \<times> send_outcome)" where
  "send_message e valid_id ts mid details i st =
     (case send_message_tx valid_id ts mid (clock e) i st of
        Inl err \<Rightarrow> Inl err
      | Inr (st1, what) \<Rightarrow> Inr (with_rdb (send_event e i details what (ms_rdb st1)) st1, what))"

section \<open>Discarding a draft\<close>

datatype discard_error = DiscardForbidden | DiscardInvalid string | DiscardNoRun | DiscardConflict

record discard_request =
  dq_run :: id
  dq_sha :: string
  dq_reason :: string

text \<open>\<open>may\<close> is what \<open>requireAgentWorkOwner\<close> answers; \<open>OtherEvent\<close> carries the name of the event.\<close>

definition discarded_event :: run_event_type where
  "discarded_event = OtherEvent ''visible_message_draft_discarded''"

definition discard_agent_draft ::
  "renv \<Rightarrow> (id \<Rightarrow> bool) \<Rightarrow> bool \<Rightarrow> id \<Rightarrow> id \<Rightarrow> discard_request \<Rightarrow> send_state \<Rightarrow> discard_error + send_state" where
  "discard_agent_draft e valid_id may agent actor q st =
     (if \<not> may then Inl DiscardForbidden
      else if \<not> valid_id (dq_run q) then Inl (DiscardInvalid ''invalid draft Run'')
      else if length (dq_sha q) \<noteq> 64 \<or> blank (dq_reason q) \<or> length (dq_reason q) > 4000
      then Inl (DiscardInvalid ''draft SHA256 and reason are required'')
      else
        (case row_by rn_id (dq_run q) (runs (ms_rdb st)) of
           None \<Rightarrow> Inl DiscardNoRun
         | Some r \<Rightarrow>
             if rn_agent r \<noteq> agent then Inl DiscardForbidden
             else
               (case row_by hd_run (dq_run q) (ms_drafts st) of
                  None \<Rightarrow>
                    if exists_row (\<lambda>ev. re_run ev = dq_run q \<and> re_type ev = discarded_event \<and>
                         member ''sha256'' (re_payload ev) = Some (dq_sha q) \<and> member ''reason'' (re_payload ev) = Some (dq_reason q) \<and>
                         member ''actor_id'' (re_payload ev) = Some actor) (events (ms_rdb st))
                    then Inr st else Inl DiscardConflict
                | Some x \<Rightarrow>
                    if sha_hex e (hd_content x) \<noteq> dq_sha q then Inl DiscardConflict
                    else
                      Inr ((with_rdb (append_run_event e (dq_run q) discarded_event ''Held draft explicitly discarded'' []
                              [(''sha256'', dq_sha q), (''reason'', dq_reason q), (''actor_id'', actor)] (ms_rdb st)) st)
                           \<lparr>ms_drafts := delete_where (\<lambda>x. hd_run x = dq_run q) (ms_drafts st)\<rparr>))))"

end
