(* ===== verification/Send_Steps.thy ===== *)
theory Send_Steps
  imports Message_Send
begin

text \<open>
  The transaction of \<open>MessageHandler.Create\<close> in the steps the database takes, for sends that run at the same time:
  the lock of a scope, the check of the run's cursor, the insertion of the message, which draws its number, and the
  commit, which makes it visible. \<open>LockMessageScope\<close> locks the scope of the run's cursor, which is not always
  the thread the message goes into; \<open>CheckAndHoldAgentSend\<close> locks the row of the run. Both locks last to the end of the
  transaction. \<open>send_message_tx\<close> is the same transaction with nothing in between.
\<close>

section \<open>Transactions in progress\<close>

text \<open>What a transaction has done: a hold keeps the cursor it was measured against.\<close>

datatype send_stage = Locked | Cleared | Inserted wake_message | Holding time int freshness_hold

record open_send =
  os_no :: nat
  os_input :: message_input
  os_stage :: send_stage

record sends =
  sd_state :: send_state
  sd_open :: "open_send list"
  sd_holds :: "(id \<times> freshness_hold) list"

definition lock_scope :: "message_input \<Rightarrow> id \<times> id \<times> id" where
  "lock_scope i =
     (mi_channel i, if mi_run i \<noteq> [] \<and> mi_node i = [] then mi_run_thread i else mi_thread i, mi_node i)"

definition checked :: "message_input \<Rightarrow> bool" where
  "checked i \<longleftrightarrow> mi_run i \<noteq> [] \<and> mi_node i = []"

definition holds_row :: "id \<Rightarrow> open_send \<Rightarrow> bool" where
  "holds_row run o1 \<longleftrightarrow> checked (os_input o1) \<and> mi_run (os_input o1) = run \<and> os_stage o1 \<noteq> Locked"

definition set_stage :: "nat \<Rightarrow> send_stage \<Rightarrow> sends \<Rightarrow> sends" where
  "set_stage no g s = s\<lparr>sd_open := update_where (\<lambda>x. os_no x = no) (\<lambda>x. x\<lparr>os_stage := g\<rparr>) (sd_open s)\<rparr>"

definition end_send :: "nat \<Rightarrow> sends \<Rightarrow> sends" where
  "end_send no s = s\<lparr>sd_open := delete_where (\<lambda>x. os_no x = no) (sd_open s)\<rparr>"

section \<open>The steps\<close>

text \<open>A transaction whose lock is taken waits: the step changes nothing until it can be taken.\<close>

definition take_lock :: "nat \<Rightarrow> message_input \<Rightarrow> sends \<Rightarrow> sends" where
  "take_lock no i s =
     (if exists_row (\<lambda>x. os_no x = no \<or> lock_scope (os_input x) = lock_scope i) (sd_open s) then s
      else s\<lparr>sd_open := sd_open s @ [\<lparr>os_no = no, os_input = i, os_stage = Locked\<rparr>]\<rparr>)"

definition check_send :: "time \<Rightarrow> open_send \<Rightarrow> sends \<Rightarrow> sends" where
  "check_send instant o1 s =
     (let i = os_input o1 in
      if os_stage o1 \<noteq> Locked then s
      else if \<not> checked i then set_stage (os_no o1) Cleared s
      else if exists_row (holds_row (mi_run i)) (sd_open s) then s
      else (case check_and_hold_agent_send instant (freshness_of i) (sd_state s) of
              Inl _ \<Rightarrow> end_send (os_no o1) s
            | Inr (_, None) \<Rightarrow> set_stage (os_no o1) Cleared s
            | Inr (_, Some h) \<Rightarrow>
                (case freshness_run (ms_rdb (sd_state s)) (freshness_of i) of
                   None \<Rightarrow> s
                 | Some r \<Rightarrow> set_stage (os_no o1) (Holding instant (freshness_seen (rn_wake r)) h) s)))"

text \<open>The insertion draws a number of the sequence, which no rollback gives back.\<close>

definition insert_send :: "(id \<Rightarrow> bool) \<Rightarrow> task_row list \<Rightarrow> id \<Rightarrow> time \<Rightarrow> open_send \<Rightarrow> sends \<Rightarrow> sends" where
  "insert_send valid_id ts mid instant o1 s =
     (let i = os_input o1; st = sd_state s in
      if os_stage o1 \<noteq> Cleared then s
      else if \<not> retention_ok i then end_send (os_no o1) s
      else (case correction_of valid_id ts (ms_rdb st) i of
              Inl _ \<Rightarrow> end_send (os_no o1) s
            | Inr c \<Rightarrow> set_stage (os_no o1) (Inserted (new_message mid instant i c st))
                         (s\<lparr>sd_state := st\<lparr>ms_next_seq := ms_next_seq st + 1\<rparr>\<rparr>)))"

definition stored_message :: "message_input \<Rightarrow> wake_message \<Rightarrow> send_state \<Rightarrow> send_state" where
  "stored_message i m st =
     (let st1 = (insert_message m st)\<lparr>ms_next_seq := ms_next_seq st\<rparr>
      in if mi_run i = [] then st1
         else st1\<lparr>ms_drafts := delete_where (\<lambda>x. hd_run x = mi_run i) (ms_drafts st1)\<rparr>)"

definition stored_hold :: "time \<Rightarrow> int \<Rightarrow> freshness_hold \<Rightarrow> message_input \<Rightarrow> send_state \<Rightarrow> send_state" where
  "stored_hold instant seen h i st =
     (let st1 = with_rdb (see_up_to instant (mi_run i) (fh_seen h) (ms_rdb st)) st
      in st1\<lparr>ms_drafts := hold_draft instant (freshness_of i) seen (ms_drafts st1),
             ms_queue := (ms_queue st1)\<lparr>mw_consumed :=
               consume (mi_sender i) (mi_run i) (fh_messages h) (mw_consumed (ms_queue st1))\<rparr>\<rparr>)"

definition commit_send :: "open_send \<Rightarrow> sends \<Rightarrow> sends" where
  "commit_send o1 s =
     (case os_stage o1 of
        Inserted m \<Rightarrow> end_send (os_no o1) (s\<lparr>sd_state := stored_message (os_input o1) m (sd_state s)\<rparr>)
      | Holding instant seen h \<Rightarrow>
          end_send (os_no o1) (s\<lparr>sd_state := stored_hold instant seen h (os_input o1) (sd_state s),
                                 sd_holds := sd_holds s @ [(mi_run (os_input o1), h)]\<rparr>)
      | _ \<Rightarrow> s)"

datatype message_op =
    TakeLock nat message_input
  | CheckSend nat time
  | InsertSend nat "task_row list" id time
  | CommitSend nat
  | AbortSend nat

definition message_step :: "(id \<Rightarrow> bool) \<Rightarrow> sends \<Rightarrow> message_op \<Rightarrow> sends" where
  "message_step valid_id s op =
     (case op of
        TakeLock no i \<Rightarrow> take_lock no i s
      | CheckSend no t \<Rightarrow> (case row_by os_no no (sd_open s) of None \<Rightarrow> s | Some o1 \<Rightarrow> check_send t o1 s)
      | InsertSend no ts mid t \<Rightarrow>
          (case row_by os_no no (sd_open s) of None \<Rightarrow> s | Some o1 \<Rightarrow> insert_send valid_id ts mid t o1 s)
      | CommitSend no \<Rightarrow> (case row_by os_no no (sd_open s) of None \<Rightarrow> s | Some o1 \<Rightarrow> commit_send o1 s)
      | AbortSend no \<Rightarrow> end_send no s)"

definition no_sends :: "send_state \<Rightarrow> sends" where
  "no_sends st = \<lparr>sd_state = st, sd_open = [], sd_holds = []\<rparr>"

section \<open>Nothing in between\<close>

lemma no_sends_simps [simp]:
  "sd_state (no_sends st) = st" "sd_open (no_sends st) = []" "sd_holds (no_sends st) = []"
  by (simp_all add: no_sends_def)

lemma hold_is_stored:
  assumes "check_and_hold_agent_send t (freshness_of i) st = Inr (st', Some h)"
  shows "\<exists>r. freshness_run (ms_rdb st) (freshness_of i) = Some r \<and> st' = stored_hold t (freshness_seen (rn_wake r)) h i st"
  using assms
  by (auto simp: check_and_hold_agent_send_def stored_hold_def freshness_of_def Let_def split: option.splits if_splits)

lemma kept_is_unchanged: "check_and_hold_agent_send t i st = Inr (st', None) \<Longrightarrow> st' = st"
  by (auto simp: check_and_hold_agent_send_def Let_def split: option.splits if_splits)

lemma inserted_is_stored:
  "stored_message i m (st\<lparr>ms_next_seq := ms_next_seq st + 1\<rparr>) =
   (let st2 = insert_message m st
    in if mi_run i = [] then st2 else st2\<lparr>ms_drafts := delete_where (\<lambda>x. hd_run x = mi_run i) (ms_drafts st2)\<rparr>)"
  by (simp add: stored_message_def insert_message_def Let_def)

text \<open>The steps of one send, with no other transaction open, have the outcome of \<open>send_message_tx\<close>.\<close>

abbreviation send_alone :: "(id \<Rightarrow> bool) \<Rightarrow> task_row list \<Rightarrow> id \<Rightarrow> time \<Rightarrow> message_input \<Rightarrow> send_state \<Rightarrow> sends" where
  "send_alone valid_id ts mid t i st \<equiv>
     foldl (message_step valid_id) (no_sends st) [TakeLock 0 i, CheckSend 0 t, InsertSend 0 ts mid t, CommitSend 0]"

lemmas send_steps =
  message_step_def take_lock_def check_send_def insert_send_def commit_send_def set_stage_def end_send_def holds_row_def
  checked_def row_by_def exists_row_def update_where_def delete_where_def no_sends_def

lemma send_in_one_step:
  "sd_open (send_alone valid_id ts mid t i st) = [] \<and>
   (case send_message_tx valid_id ts mid t i st of
      Inl _ \<Rightarrow> sd_state (send_alone valid_id ts mid t i st) = st \<and> sd_holds (send_alone valid_id ts mid t i st) = []
    | Inr (st', out) \<Rightarrow> sd_state (send_alone valid_id ts mid t i st) = st' \<and>
        sd_holds (send_alone valid_id ts mid t i st) =
          (case out of MessageHeld h \<Rightarrow> [(mi_run i, h)] | MessageSent _ \<Rightarrow> []))"
proof (cases "checked i")
  case False
  then show ?thesis
    by (auto simp: send_steps send_message_tx_def inserted_is_stored Let_def split: sum.split)
next
  case True
  then have c: "mi_run i \<noteq> []" "mi_node i = []" by (simp_all add: checked_def)
  show ?thesis
  proof (cases "check_and_hold_agent_send t (freshness_of i) st")
    case (Inl err)
    with c show ?thesis by (simp add: send_steps send_message_tx_def)
  next
    case (Inr x)
    obtain st' out where x: "x = (st', out)" by (cases x)
    show ?thesis
    proof (cases out)
      case None
      with Inr x have "st' = st" by (auto dest: kept_is_unchanged)
      with Inr x None c show ?thesis
        by (auto simp: send_steps send_message_tx_def inserted_is_stored Let_def split: sum.split)
    next
      case (Some h)
      with Inr x obtain r where "freshness_run (ms_rdb st) (freshness_of i) = Some r"
        "st' = stored_hold t (freshness_seen (rn_wake r)) h i st"
        using hold_is_stored by blast
      with Inr x Some c show ?thesis by (simp add: send_steps send_message_tx_def)
    qed
  qed
qed

end
