(* ===== verification/Freshness_Theorems.thy ===== *)
theory Freshness_Theorems
  imports Send_Steps Message_Theorems
begin

text \<open>
  Properties of sending: a run's message goes out only when everything others wrote in its conversation was shown
  to it, in every interleaving of sends that lock the conversation; being held comes to an end; a correction that was
  shown does not wake the agent again; discarding a draft may be repeated, except with a long reason.
\<close>

section \<open>What a hold does\<close>

definition concerns :: "id \<Rightarrow> id \<Rightarrow> id \<Rightarrow> wake_message \<Rightarrow> bool" where
  "concerns run ch th m \<longleftrightarrow>
     wm_channel m = ch \<and> coalesce (wm_thread m) = th \<and> wm_node m = None \<and> \<not> wm_deleted m \<and>
     (wm_by_agent m \<or> (wm_sender_type m = ''user'' \<and> wm_correction m = Some run)) \<and> coalesce (wm_run m) \<noteq> run"

lemma set_unseen: "set (unseen ms run ch th seen) = {m \<in> set ms. concerns run ch th m \<and> wm_seq m > seen}"
  by (auto simp: unseen_def concerns_def)

lemma sorted_unseen: "sorted (map wm_seq (unseen ms run ch th seen))"
  by (simp add: unseen_def)

lemma latest_foldl:
  "foldl (\<lambda>l m. if wm_seq m > l then wm_seq m else l) l xs = fold (\<lambda>m l. max l (wm_seq m)) xs l"
  by (induction xs arbitrary: l) (auto simp: max_def)

lemma latest_bounds:
  "l \<le> fold (\<lambda>m l. max l (wm_seq m)) xs l \<and> (\<forall>m \<in> set xs. wm_seq m \<le> fold (\<lambda>m l. max l (wm_seq m)) xs l) \<and>
   (fold (\<lambda>m l. max l (wm_seq m)) xs l = l \<or> (\<exists>m \<in> set xs. wm_seq m = fold (\<lambda>m l. max l (wm_seq m)) xs l))"
proof (induction xs arbitrary: l)
  case (Cons x xs)
  from Cons.IH [of "max l (wm_seq x)"] show ?case by (auto simp: max_def split: if_splits)
qed simp

definition latest_of :: "wake_message list \<Rightarrow> int" where
  "latest_of xs = foldl (\<lambda>l m. if wm_seq m > l then wm_seq m else l) 0 xs"

lemma latest_of_max: "m \<in> set xs \<Longrightarrow> wm_seq m \<le> latest_of xs"
  using latest_bounds [of 0 xs] by (simp add: latest_of_def latest_foldl)

lemma latest_of_in: "xs \<noteq> [] \<Longrightarrow> (\<And>m. m \<in> set xs \<Longrightarrow> 0 < wm_seq m) \<Longrightarrow> \<exists>m \<in> set xs. wm_seq m = latest_of xs"
  using latest_bounds [of 0 xs] by (cases xs) (fastforce simp: latest_of_def latest_foldl)+

lemma held_facts:
  assumes "check_and_hold_agent_send t i st = Inr (st', Some h)"
  shows "\<exists>r. freshness_run (ms_rdb st) i = Some r \<and> freshness_seen (rn_wake r) \<noteq> 0 \<and> fh_messages h \<noteq> [] \<and>
    fh_messages h = take FreshnessHeldMessageLimit
      (unseen (ms_messages st) (fs_run i) (fs_channel i) (fs_thread i) (freshness_seen (rn_wake r))) \<and>
    ms_messages st' = ms_messages st \<and> ms_next_seq st' = ms_next_seq st \<and>
    ms_rdb st' = see_up_to t (fs_run i) (latest_of (fh_messages h)) (ms_rdb st) \<and>
    mw_consumed (ms_queue st') = consume (fs_agent i) (fs_run i) (fh_messages h) (mw_consumed (ms_queue st)) \<and>
    mw_pending (ms_queue st') = mw_pending (ms_queue st) \<and> mw_tables (ms_queue st') = mw_tables (ms_queue st)"
  using assms
  by (auto simp: check_and_hold_agent_send_def Let_def with_rdb_def ms_rdb_def latest_of_def split: option.splits if_splits)

lemma not_held_facts:
  assumes "check_and_hold_agent_send t i st = Inr (st', None)"
  shows "st' = st \<and> (\<exists>r. freshness_run (ms_rdb st) i = Some r \<and>
    (freshness_seen (rn_wake r) \<noteq> 0 \<longrightarrow>
      unseen (ms_messages st) (fs_run i) (fs_channel i) (fs_thread i) (freshness_seen (rn_wake r)) = []))"
  using assms
  by (auto simp: check_and_hold_agent_send_def Let_def FreshnessHeldMessageLimit_def split: option.splits if_splits)

lemma sent_facts:
  assumes "send_message_tx valid ts mid t i st = Inr (st', MessageSent m)"
  shows "(mi_run i \<noteq> [] \<and> mi_node i = [] \<longrightarrow> check_and_hold_agent_send t (freshness_of i) st = Inr (st, None)) \<and>
    ms_messages st' = ms_messages st @ [m] \<and> ms_next_seq st' = ms_next_seq st + 1 \<and> wm_seq m = ms_next_seq st \<and>
    runs (ms_rdb st') = runs (ms_rdb st) \<and> mw_consumed (ms_queue st') = mw_consumed (ms_queue st)"
  using assms
  by (auto simp: send_message_tx_def Let_def insert_message_def new_message_def ms_rdb_def
      split: sum.splits option.splits if_splits dest!: not_held_facts)

lemma held_tx:
  assumes "send_message_tx valid ts mid t i st = Inr (st', MessageHeld h)"
  shows "mi_run i \<noteq> [] \<and> mi_node i = [] \<and> check_and_hold_agent_send t (freshness_of i) st = Inr (st', Some h)"
  using assms by (auto simp: send_message_tx_def Let_def split: sum.splits option.splits if_splits)

section \<open>Nothing goes unseen\<close>

text \<open>The messages the holds of a run have shown it.\<close>

definition shown_to :: "id \<Rightarrow> sends \<Rightarrow> wake_message list" where
  "shown_to run s = concat (map (fh_messages \<circ> snd) (filter (\<lambda>h. fst h = run) (sd_holds s)))"

text \<open>Message numbers are unique and below the sequence; runs have one row each; a run in its conversation.\<close>

definition numbers_ok :: "send_state \<Rightarrow> bool" where
  "numbers_ok st \<longleftrightarrow>
     keyed wm_seq (ms_messages st) \<and> (\<forall>m \<in> set (ms_messages st). 0 < wm_seq m \<and> wm_seq m < ms_next_seq st) \<and>
     0 < ms_next_seq st \<and> keyed rn_id (runs (ms_rdb st))"

definition talks_in :: "id \<Rightarrow> id \<Rightarrow> id \<Rightarrow> run_row \<Rightarrow> bool" where
  "talks_in agent ch th r \<longleftrightarrow>
     rn_agent r = agent \<and> scope_channel (rn_scope r) = Some ch \<and> coalesce (scope_thread (rn_scope r)) = th \<and>
     scope_node (rn_scope r) = None \<and> rn_finished r = None"

text \<open>
  What is sent for a run has the scope \<open>ResolveMessageDeliveryScope\<close> answered; a message for a conversation takes the
  lock of the conversation. In the channel itself the second follows from the first.
\<close>

definition delivered :: "rdb \<Rightarrow> message_input \<Rightarrow> bool" where
  "delivered d i \<longleftrightarrow>
     (checked i \<longrightarrow> resolve_message_delivery_scope d (mi_run i) (mi_sender i) (mi_channel i) (mi_thread i) [] =
        Inr (Some (mi_run_thread i)))"

definition locks_conversation :: "id \<Rightarrow> id \<Rightarrow> message_input \<Rightarrow> bool" where
  "locks_conversation ch th i \<longleftrightarrow>
     (mi_channel i = ch \<and> mi_thread i = th \<and> mi_node i = [] \<longrightarrow> lock_scope i = (ch, th, []))"

definition speaks_in :: "id \<Rightarrow> id \<Rightarrow> id \<Rightarrow> id \<Rightarrow> message_input \<Rightarrow> bool" where
  "speaks_in run agent ch th i \<longleftrightarrow>
     (mi_run i = run \<and> mi_node i = [] \<longrightarrow> mi_sender i = agent \<and> mi_channel i = ch \<and> mi_run_thread i = th)"

lemma channel_is_locked: "delivered d i \<Longrightarrow> locks_conversation ch [] i"
  by (auto simp: delivered_def locks_conversation_def lock_scope_def checked_def resolve_message_delivery_scope_def Let_def
      split: option.splits if_splits)

lemma delivered_speaks_in:
  assumes "keyed rn_id (runs d)" and "row_by rn_id run (runs d) = Some r" and "talks_in agent ch th r" and "run \<noteq> []"
    and "delivered d i"
  shows "speaks_in run agent ch th i"
proof -
  have "rn_agent r = agent \<and> mi_channel i = ch \<and> mi_run_thread i = th \<and> mi_sender i = agent" if "mi_run i = run" "mi_node i = []"
  proof -
    have res: "resolve_message_delivery_scope d run (mi_sender i) (mi_channel i) (mi_thread i) [] = Inr (Some (mi_run_thread i))"
      using assms(4,5) that by (simp add: delivered_def checked_def)
    then obtain r' where r': "find (\<lambda>r. rn_id r = run \<and> rn_agent r = mi_sender i \<and> rn_finished r = None) (runs d) = Some r'"
      by (auto simp: resolve_message_delivery_scope_def split: option.splits)
    then have "r' \<in> set (runs d)" "rn_id r' = run" "rn_agent r' = mi_sender i" by (auto simp: find_Some_iff)
    then have "r' = r" using assms(1,2) row_by_SomeI [of rn_id "runs d" r'] by simp
    then show ?thesis using res r' \<open>rn_agent r' = mi_sender i\<close> assms(3)
      by (auto simp: resolve_message_delivery_scope_def talks_in_def Let_def split: if_splits)
  qed
  then show ?thesis by (simp add: speaks_in_def)
qed

lemma freshness_run_row:
  assumes "keyed rn_id (runs d)" and "row_by rn_id (fs_run i) (runs d) = Some r" and "freshness_run d i = Some r'"
  shows "r' = r"
proof -
  have "r' \<in> set (runs d)" "rn_id r' = fs_run i" using assms(3) by (auto simp: freshness_run_def find_Some_iff)
  then show ?thesis using assms(1,2) row_by_SomeI [of rn_id "runs d" r'] by simp
qed

lemma take_covers:
  assumes "sorted (map wm_seq xs)" and "keyed wm_seq xs" and "m \<in> set xs" and "x \<in> set (take n xs)" and "wm_seq m \<le> wm_seq x"
  shows "m \<in> set (take n xs)"
proof (rule ccontr)
  assume "m \<notin> set (take n xs)"
  with assms(3) have "m \<in> set (drop n xs)" by (metis Un_iff append_take_drop_id set_append)
  moreover have "sorted (map wm_seq (take n xs) @ map wm_seq (drop n xs))"
    using assms(1) by (metis append_take_drop_id map_append)
  ultimately have "wm_seq x \<le> wm_seq m" using assms(4) by (auto simp: sorted_append)
  then have "wm_seq x = wm_seq m" using assms(5) by simp
  moreover have "x \<in> set xs" using assms(4) by (rule in_set_takeD)
  ultimately have "x = m" using keyed_unique assms(2,3) by metis
  then show False using assms(4) \<open>m \<notin> set (take n xs)\<close> by simp
qed

lemma keyed_unseen: "keyed wm_seq ms \<Longrightarrow> keyed wm_seq (unseen ms run ch th seen)"
  by (auto simp: keyed_def unseen_def distinct_map intro: inj_on_subset)

lemma runs_see_up_to:
  "runs (see_up_to t run l d) = update_where (\<lambda>r. rn_id r = run)
     (\<lambda>r. r\<lparr>rn_wake := (rn_wake r)\<lparr>freshness_seen := max (freshness_seen (rn_wake r)) l\<rparr>, rn_updated := t\<rparr>) (runs d)"
  by (simp add: see_up_to_def)

lemma keyed_see_up_to [simp]: "keyed rn_id (runs (see_up_to t run l d)) = keyed rn_id (runs d)"
  unfolding runs_see_up_to
  by (subst keyed_update.keyed_update_iff) (unfold_locales, simp_all)

lemma row_see_up_to:
  "row_by rn_id k (runs (see_up_to t run l d)) =
   map_option (\<lambda>r. if rn_id r = run
      then r\<lparr>rn_wake := (rn_wake r)\<lparr>freshness_seen := max (freshness_seen (rn_wake r)) l\<rparr>, rn_updated := t\<rparr> else r) (row_by rn_id k (runs d))"
  unfolding runs_see_up_to
  by (subst keyed_update.row_by_update) (unfold_locales, simp_all)

subsection \<open>The transactions in progress\<close>

text \<open>What a transaction in progress knows of the conversation, and the cursor of the run.\<close>

definition stage_ok :: "id \<Rightarrow> id \<Rightarrow> id \<Rightarrow> int \<Rightarrow> send_state \<Rightarrow> open_send \<Rightarrow> bool" where
  "stage_ok run ch th cur st o1 \<longleftrightarrow>
     (let i = os_input o1; mine = (checked i \<and> mi_run i = run); new = unseen (ms_messages st) run ch th cur in
      case os_stage o1 of
        Locked \<Rightarrow> True
      | Cleared \<Rightarrow> mine \<longrightarrow> new = []
      | Inserted m \<Rightarrow> (mine \<longrightarrow> new = []) \<and> 0 < wm_seq m \<and> wm_seq m < ms_next_seq st \<and> wm_seq m \<notin> wm_seq ` set (ms_messages st) \<and>
          (concerns run ch th m \<longrightarrow> cur < wm_seq m \<and> lock_scope i = (ch, th, []) \<and> mi_run i \<noteq> run)
      | Holding t seen h \<Rightarrow> checked i \<and>
          (mine \<longrightarrow> fh_messages h \<noteq> [] \<and> fh_messages h = take FreshnessHeldMessageLimit new \<and> fh_seen h = latest_of (fh_messages h)))"

definition opens_ok :: "id \<Rightarrow> id \<Rightarrow> id \<Rightarrow> id \<Rightarrow> int \<Rightarrow> send_state \<Rightarrow> open_send list \<Rightarrow> bool" where
  "opens_ok run agent ch th cur st os \<longleftrightarrow>
     keyed os_no os \<and> keyed (lock_scope \<circ> os_input) os \<and>
     (\<forall>o1 \<in> set os. speaks_in run agent ch th (os_input o1) \<and> locks_conversation ch th (os_input o1) \<and> stage_ok run ch th cur st o1) \<and>
     (\<forall>x \<in> set os. \<forall>y \<in> set os. \<forall>m n. os_stage x = Inserted m \<longrightarrow> os_stage y = Inserted n \<longrightarrow> wm_seq m = wm_seq n \<longrightarrow> x = y)"

definition cursor_ok :: "id \<Rightarrow> id \<Rightarrow> id \<Rightarrow> id \<Rightarrow> int \<Rightarrow> int \<Rightarrow> wake_message list \<Rightarrow> send_state \<Rightarrow> bool" where
  "cursor_ok run agent ch th c0 cur shown st \<longleftrightarrow>
     numbers_ok st \<and> 0 < cur \<and> cur < ms_next_seq st \<and>
     (\<exists>r. row_by rn_id run (runs (ms_rdb st)) = Some r \<and> talks_in agent ch th r \<and> freshness_seen (rn_wake r) = cur) \<and>
     (\<forall>m \<in> set (ms_messages st). concerns run ch th m \<and> c0 < wm_seq m \<and> wm_seq m \<le> cur \<longrightarrow> m \<in> set shown)"

definition sends_ok :: "id \<Rightarrow> id \<Rightarrow> id \<Rightarrow> id \<Rightarrow> int \<Rightarrow> int \<Rightarrow> sends \<Rightarrow> bool" where
  "sends_ok run agent ch th c0 cur s \<longleftrightarrow>
     run \<noteq> [] \<and> cursor_ok run agent ch th c0 cur (shown_to run s) (sd_state s) \<and>
     opens_ok run agent ch th cur (sd_state s) (sd_open s)"

text \<open>A send of the run, and every send into its conversation, has the lock of the conversation.\<close>

lemma mine_locks:
  assumes "speaks_in run agent ch th i" and "checked i" and "mi_run i = run"
  shows "lock_scope i = (ch, th, [])"
  using assms by (simp add: speaks_in_def checked_def lock_scope_def)

lemma one_in_conversation:
  assumes "opens_ok run agent ch th cur st os" and "x \<in> set os" and "y \<in> set os"
    and "lock_scope (os_input x) = (ch, th, [])" and "lock_scope (os_input y) = (ch, th, [])"
  shows "x = y"
proof -
  have "keyed (lock_scope \<circ> os_input) os" using assms(1) by (simp add: opens_ok_def)
  then show ?thesis by (rule keyed_unique) (use assms in simp_all)
qed

lemma opens_end: "opens_ok run agent ch th cur st os \<Longrightarrow> opens_ok run agent ch th cur st (delete_where P os)"
  by (auto simp: opens_ok_def row_simps keyed_delete)

text \<open>A step of one transaction that keeps what the others know.\<close>

lemma opens_stage:
  assumes ok: "opens_ok run agent ch th cur st os" and x: "x \<in> set os"
    and others: "\<And>y. y \<in> set os \<Longrightarrow> y \<noteq> x \<Longrightarrow> stage_ok run ch th cur st' y"
    and own: "stage_ok run ch th cur st' (x\<lparr>os_stage := g\<rparr>)"
    and new: "\<And>y m n. y \<in> set os \<Longrightarrow> y \<noteq> x \<Longrightarrow> os_stage y = Inserted m \<Longrightarrow> g = Inserted n \<Longrightarrow> wm_seq m \<noteq> wm_seq n"
  shows "opens_ok run agent ch th cur st' (update_where (\<lambda>y. os_no y = os_no x) (\<lambda>y. y\<lparr>os_stage := g\<rparr>) os)"
proof -
  let ?f = "\<lambda>y. if os_no y = os_no x then y\<lparr>os_stage := g\<rparr> else y"
  have same: "y = x" if "y \<in> set os" "os_no y = os_no x" for y
    using ok that x keyed_unique unfolding opens_ok_def by metis
  have set: "set (update_where (\<lambda>y. os_no y = os_no x) (\<lambda>y. y\<lparr>os_stage := g\<rparr>) os) = ?f ` set os"
    by (auto simp: update_where_def)
  have keys: "keyed os_no (update_where (\<lambda>y. os_no y = os_no x) (\<lambda>y. y\<lparr>os_stage := g\<rparr>) os)"
    using ok by (subst keyed_update.keyed_update_iff) (unfold_locales, simp_all add: opens_ok_def)
  have locks: "keyed (lock_scope \<circ> os_input) (update_where (\<lambda>y. os_no y = os_no x) (\<lambda>y. y\<lparr>os_stage := g\<rparr>) os)"
    using ok by (subst keyed_update.keyed_update_iff) (unfold_locales, simp_all add: opens_ok_def)
  have cases: "z = x\<lparr>os_stage := g\<rparr> \<or> (z \<in> set os \<and> z \<noteq> x)" if z: "z \<in> ?f ` set os" for z
  proof -
    from z obtain y where y: "y \<in> set os" "z = ?f y" by blast
    show ?thesis
    proof (cases "os_no y = os_no x")
      case True
      with same y have "y = x" by blast
      with y(2) show ?thesis by simp
    next
      case False
      with y show ?thesis by auto
    qed
  qed
  have each: "speaks_in run agent ch th (os_input z) \<and> locks_conversation ch th (os_input z) \<and> stage_ok run ch th cur st' z"
    if z: "z \<in> ?f ` set os" for z
    using cases [OF z]
  proof (elim disjE conjE)
    assume "z = x\<lparr>os_stage := g\<rparr>"
    with own ok x show ?thesis by (simp add: opens_ok_def)
  next
    assume "z \<in> set os" "z \<noteq> x"
    with others ok show ?thesis by (simp add: opens_ok_def)
  qed
  have apart: "y = z" if "y \<in> ?f ` set os" "z \<in> ?f ` set os" "os_stage y = Inserted m" "os_stage z = Inserted n" "wm_seq m = wm_seq n"
    for y z m n
  proof -
    have old: "y = z" if "y \<in> set os" "z \<in> set os"
      using ok that \<open>os_stage y = Inserted m\<close> \<open>os_stage z = Inserted n\<close> \<open>wm_seq m = wm_seq n\<close> unfolding opens_ok_def by metis
    show ?thesis using cases [OF that(1)] cases [OF that(2)]
    proof (elim disjE conjE)
      assume "y = x\<lparr>os_stage := g\<rparr>" "z \<in> set os" "z \<noteq> x"
      with new [of z n m] that show ?thesis by simp
    next
      assume "z = x\<lparr>os_stage := g\<rparr>" "y \<in> set os" "y \<noteq> x"
      with new [of y m n] that show ?thesis by simp
    qed (use old in simp_all)
  qed
  show ?thesis unfolding opens_ok_def set using keys locks each apart by blast
qed

subsection \<open>Every step keeps what is known\<close>

lemmas step_simps = sends_ok_def cursor_ok_def shown_to_def set_stage_def end_send_def

lemma end_kept: "sends_ok run agent ch th c0 cur s \<Longrightarrow> sends_ok run agent ch th c0 cur (end_send no s)"
  by (simp add: step_simps opens_end)

lemma take_kept:
  assumes "sends_ok run agent ch th c0 cur s" and "speaks_in run agent ch th i" and "locks_conversation ch th i"
  shows "sends_ok run agent ch th c0 cur (take_lock no i s)"
proof (cases "exists_row (\<lambda>x. os_no x = no \<or> lock_scope (os_input x) = lock_scope i) (sd_open s)")
  case True
  with assms(1) show ?thesis by (simp add: take_lock_def)
next
  case False
  let ?x = "\<lparr>os_no = no, os_input = i, os_stage = Locked\<rparr>"
  have o1: "opens_ok run agent ch th cur (sd_state s) (sd_open s)" using assms(1) by (simp add: sends_ok_def)
  have free: "os_no x \<noteq> no \<and> lock_scope (os_input x) \<noteq> lock_scope i" if "x \<in> set (sd_open s)" for x
    using False that by (auto simp: exists_row_iff)
  then have "os_no ?x \<notin> os_no ` set (sd_open s)" "(lock_scope \<circ> os_input) ?x \<notin> (lock_scope \<circ> os_input) ` set (sd_open s)"
    using free by fastforce+
  then have keys: "keyed os_no (sd_open s @ [?x])" "keyed (lock_scope \<circ> os_input) (sd_open s @ [?x])"
    using o1 unfolding keyed_insert opens_ok_def by simp_all
  have "stage_ok run ch th cur (sd_state s) ?x" by (simp add: stage_ok_def)
  then have "opens_ok run agent ch th cur (sd_state s) (sd_open s @ [?x])"
    using o1 assms(2,3) keys by (simp add: opens_ok_def)
  then show ?thesis using assms(1) False by (simp add: step_simps take_lock_def)
qed

lemma stage_kept:
  assumes ok: "sends_ok run agent ch th c0 cur s" and x: "x \<in> set (sd_open s)"
    and own: "stage_ok run ch th cur (sd_state s) (x\<lparr>os_stage := g\<rparr>)" and g: "\<And>m. g \<noteq> Inserted m"
  shows "sends_ok run agent ch th c0 cur (set_stage (os_no x) g s)"
proof -
  have o1: "opens_ok run agent ch th cur (sd_state s) (sd_open s)" using ok by (simp add: sends_ok_def)
  then have "stage_ok run ch th cur (sd_state s) y" if "y \<in> set (sd_open s)" for y
    using that by (simp add: opens_ok_def)
  then have "opens_ok run agent ch th cur (sd_state s)
      (update_where (\<lambda>y. os_no y = os_no x) (\<lambda>y. y\<lparr>os_stage := g\<rparr>) (sd_open s))"
    by (intro opens_stage [OF o1 x _ own]) (simp_all add: g)
  then show ?thesis using ok by (simp add: step_simps)
qed

lemma check_knows:
  assumes ok: "sends_ok run agent ch th c0 cur s" and x: "x \<in> set (sd_open s)"
    and "check_and_hold_agent_send t (freshness_of (os_input x)) (sd_state s) = Inr (st', out)" and "checked (os_input x)"
  shows "case out of None \<Rightarrow> stage_ok run ch th cur (sd_state s) (x\<lparr>os_stage := Cleared\<rparr>)
    | Some h \<Rightarrow> stage_ok run ch th cur (sd_state s) (x\<lparr>os_stage := Holding t seen h\<rparr>)"
proof (cases "mi_run (os_input x) = run")
  case False
  then show ?thesis using assms(4) by (simp add: stage_ok_def split: option.split)
next
  case True
  obtain r where num: "numbers_ok (sd_state s)" and r: "row_by rn_id run (runs (ms_rdb (sd_state s))) = Some r"
    "freshness_seen (rn_wake r) = cur" "0 < cur"
    using ok by (auto simp: sends_ok_def cursor_ok_def)
  have "speaks_in run agent ch th (os_input x)" using ok x by (simp add: sends_ok_def opens_ok_def)
  then have f: "fs_run (freshness_of (os_input x)) = run" "fs_channel (freshness_of (os_input x)) = ch"
    "fs_thread (freshness_of (os_input x)) = th"
    using True assms(4) by (simp_all add: speaks_in_def checked_def freshness_of_def)
  have same: "r' = r" if "freshness_run (ms_rdb (sd_state s)) (freshness_of (os_input x)) = Some r'" for r'
    using freshness_run_row [OF _ _ that] num r(1) f(1) by (simp add: numbers_ok_def)
  show ?thesis
  proof (cases out)
    case None
    with assms(3) not_held_facts [of t "freshness_of (os_input x)" "sd_state s" st'] same r f
    show ?thesis by (auto simp: stage_ok_def)
  next
    case (Some h)
    with assms(3) have held: "check_and_hold_agent_send t (freshness_of (os_input x)) (sd_state s) = Inr (st', Some h)" by simp
    have "fh_seen h = latest_of (fh_messages h)"
      using held by (auto simp: check_and_hold_agent_send_def Let_def latest_of_def split: option.splits if_splits)
    with held_facts [OF held] same r f Some assms(4) show ?thesis by (auto simp: stage_ok_def)
  qed
qed

lemma check_kept:
  assumes ok: "sends_ok run agent ch th c0 cur s" and x: "x \<in> set (sd_open s)"
  shows "sends_ok run agent ch th c0 cur (check_send t x s)"
proof (cases "os_stage x = Locked \<and> checked (os_input x) \<and> \<not> exists_row (holds_row (mi_run (os_input x))) (sd_open s)")
  case False
  have "stage_ok run ch th cur (sd_state s) (x\<lparr>os_stage := Cleared\<rparr>)" if "\<not> checked (os_input x)"
    using that by (simp add: stage_ok_def)
  with False ok stage_kept [OF ok x] show ?thesis by (auto simp: check_send_def Let_def)
next
  case True
  show ?thesis
  proof (cases "check_and_hold_agent_send t (freshness_of (os_input x)) (sd_state s)")
    case (Inl err)
    with True ok show ?thesis by (simp add: check_send_def Let_def end_kept)
  next
    case (Inr a)
    obtain st' out where a: "a = (st', out)" by (cases a)
    have k: "case out of None \<Rightarrow> stage_ok run ch th cur (sd_state s) (x\<lparr>os_stage := Cleared\<rparr>)
        | Some h \<Rightarrow> stage_ok run ch th cur (sd_state s) (x\<lparr>os_stage := Holding t seen h\<rparr>)" for seen
      using check_knows [OF ok x] Inr a True by blast
    show ?thesis
    proof (cases out)
      case None
      with k have "stage_ok run ch th cur (sd_state s) (x\<lparr>os_stage := Cleared\<rparr>)" by simp
      then show ?thesis using True Inr a None stage_kept [OF ok x] by (simp add: check_send_def Let_def)
    next
      case (Some h)
      with k have "stage_ok run ch th cur (sd_state s) (x\<lparr>os_stage := Holding t seen h\<rparr>)" for seen by simp
      then show ?thesis using True Inr a Some ok stage_kept [OF ok x] by (simp add: check_send_def Let_def split: option.split)
    qed
  qed
qed

lemma inserted_ok:
  assumes "stage_ok run ch th cur st x" and "os_stage x = Cleared" and "wm_seq m = ms_next_seq st"
    and "cur < ms_next_seq st" and "0 < ms_next_seq st" and "wm_seq m \<notin> wm_seq ` set (ms_messages st)"
    and "concerns run ch th m \<Longrightarrow> lock_scope (os_input x) = (ch, th, []) \<and> mi_run (os_input x) \<noteq> run"
  shows "stage_ok run ch th cur (st\<lparr>ms_next_seq := ms_next_seq st + 1\<rparr>) (x\<lparr>os_stage := Inserted m\<rparr>)"
proof -
  have "checked (os_input x) \<and> mi_run (os_input x) = run \<longrightarrow> unseen (ms_messages st) run ch th cur = []"
    using assms(1,2) by (simp add: stage_ok_def Let_def)
  then show ?thesis using assms(3-7) unfolding stage_ok_def Let_def by auto
qed

lemma insert_kept:
  assumes ok: "sends_ok run agent ch th c0 cur s" and x: "x \<in> set (sd_open s)"
  shows "sends_ok run agent ch th c0 cur (insert_send valid ts mid t x s)"
proof -
  let ?i = "os_input x" let ?st = "sd_state s" let ?st' = "?st\<lparr>ms_next_seq := ms_next_seq ?st + 1\<rparr>"
  have o1: "opens_ok run agent ch th cur ?st (sd_open s)" and num: "numbers_ok ?st" and cur: "cur < ms_next_seq ?st"
    and run: "run \<noteq> []"
    using ok by (simp_all add: sends_ok_def cursor_ok_def)
  have known: "speaks_in run agent ch th ?i" "locks_conversation ch th ?i" "stage_ok run ch th cur ?st x"
    using o1 x by (simp_all add: opens_ok_def)
  have later: "stage_ok run ch th cur ?st' y" if "y \<in> set (sd_open s)" for y
    using o1 that by (auto simp: opens_ok_def stage_ok_def Let_def split: send_stage.split_asm send_stage.split)
  have "sends_ok run agent ch th c0 cur
      (set_stage (os_no x) (Inserted (new_message mid t ?i c ?st)) (s\<lparr>sd_state := ?st'\<rparr>))" if cl: "os_stage x = Cleared" for c
  proof -
    let ?m = "new_message mid t ?i c ?st"
    have m: "wm_seq ?m = ms_next_seq ?st" "wm_channel ?m = mi_channel ?i" "coalesce (wm_thread ?m) = mi_thread ?i"
      "wm_node ?m = None \<longleftrightarrow> mi_node ?i = []" "coalesce (wm_run ?m) = mi_run ?i"
      by (simp_all add: new_message_def nullable_def)
    have lock: "lock_scope ?i = (ch, th, []) \<and> mi_run ?i \<noteq> run" if "concerns run ch th ?m"
      using that known(2) unfolding concerns_def m locks_conversation_def by blast
    have free: "0 < ms_next_seq ?st" "wm_seq ?m \<notin> wm_seq ` set (ms_messages ?st)"
      unfolding m(1) using num unfolding numbers_ok_def by (blast, metis imageE less_irrefl)
    note own = inserted_ok [OF known(3) cl m(1) cur free lock]
    have fresh: "wm_seq n \<noteq> ms_next_seq ?st" if "y \<in> set (sd_open s)" "os_stage y = Inserted n" for y n
      using o1 that by (fastforce simp: opens_ok_def stage_ok_def)
    have "opens_ok run agent ch th cur ?st' (update_where (\<lambda>y. os_no y = os_no x) (\<lambda>y. y\<lparr>os_stage := Inserted ?m\<rparr>) (sd_open s))"
    proof (rule opens_stage [OF o1 x later own])
      fix y n k
      assume "y \<in> set (sd_open s)" "os_stage y = Inserted n" "Inserted ?m = Inserted k"
      then show "wm_seq n \<noteq> wm_seq k" using fresh m(1) by auto
    qed simp
    moreover have "numbers_ok ?st'" using num by (auto simp: numbers_ok_def ms_rdb_def)
    moreover have "ms_rdb ?st' = ms_rdb ?st" by (simp add: ms_rdb_def)
    ultimately show ?thesis using ok by (simp add: step_simps)
  qed
  then show ?thesis using ok by (auto simp: insert_send_def Let_def end_kept split: sum.split)
qed


lemma unseen_append:
  "\<not> concerns run ch th m \<Longrightarrow> unseen (ms @ [m]) run ch th cur = unseen ms run ch th cur"
  by (auto simp: unseen_def concerns_def)

lemma stored_message_tables:
  "ms_messages (stored_message i m st) = ms_messages st @ [m]" "ms_next_seq (stored_message i m st) = ms_next_seq st"
  "runs (ms_rdb (stored_message i m st)) = runs (ms_rdb st)"
  by (simp_all add: stored_message_def insert_message_def ms_rdb_def Let_def)

lemma stored_hold_tables:
  "ms_messages (stored_hold t seen h i st) = ms_messages st" "ms_next_seq (stored_hold t seen h i st) = ms_next_seq st"
  "runs (ms_rdb (stored_hold t seen h i st)) = runs (see_up_to t (mi_run i) (fh_seen h) (ms_rdb st))"
  by (simp_all add: stored_hold_def with_rdb_def ms_rdb_def Let_def)

lemma stage_after_message:
  assumes "stage_ok run ch th cur st y" and "checked (os_input y) \<Longrightarrow> mi_run (os_input y) = run \<Longrightarrow> \<not> concerns run ch th m"
    and "\<And>n. os_stage y = Inserted n \<Longrightarrow> wm_seq n \<noteq> wm_seq m"
    and "ms_messages st' = ms_messages st @ [m]" and "ms_next_seq st' = ms_next_seq st"
  shows "stage_ok run ch th cur st' y"
proof -
  have "unseen (ms_messages st') run ch th cur = unseen (ms_messages st) run ch th cur"
    if "checked (os_input y) \<and> mi_run (os_input y) = run"
    using assms(2,4) that unseen_append by simp
  then show ?thesis using assms(1,3) unfolding stage_ok_def Let_def assms(4,5) by (cases "os_stage y") auto
qed

lemma message_kept:
  assumes ok: "sends_ok run agent ch th c0 cur s" and x: "x \<in> set (sd_open s)" and st: "os_stage x = Inserted m"
  shows "sends_ok run agent ch th c0 cur (commit_send x s)"
proof -
  let ?i = "os_input x" let ?st = "sd_state s" let ?st' = "stored_message ?i m ?st"
  have o1: "opens_ok run agent ch th cur ?st (sd_open s)" and run: "run \<noteq> []" and num: "numbers_ok ?st"
    using ok by (simp_all add: sends_ok_def cursor_ok_def)
  have own: "stage_ok run ch th cur ?st x" using o1 x by (simp add: opens_ok_def)
  then have m: "0 < wm_seq m" "wm_seq m < ms_next_seq ?st" "wm_seq m \<notin> wm_seq ` set (ms_messages ?st)"
    "concerns run ch th m \<Longrightarrow> cur < wm_seq m \<and> lock_scope ?i = (ch, th, []) \<and> mi_run ?i \<noteq> run"
    by (simp_all add: stage_ok_def st Let_def)
  have others: "stage_ok run ch th cur ?st' y" if y: "y \<in> set (sd_open s)" "os_no y \<noteq> os_no x" for y
  proof (rule stage_after_message [OF _ _ _ stored_message_tables(1,2)])
    show "stage_ok run ch th cur ?st y" using o1 y by (simp add: opens_ok_def)
    show "wm_seq n \<noteq> wm_seq m" if "os_stage y = Inserted n" for n
      using o1 x y st that unfolding opens_ok_def by metis
    assume mine: "checked (os_input y)" "mi_run (os_input y) = run"
    show "\<not> concerns run ch th m"
    proof
      assume "concerns run ch th m"
      then have "lock_scope ?i = (ch, th, [])" using m(4) by simp
      moreover have "speaks_in run agent ch th (os_input y)" using o1 y by (simp add: opens_ok_def)
      then have "lock_scope (os_input y) = (ch, th, [])" by (rule mine_locks [OF _ mine])
      ultimately have "y = x" using one_in_conversation [OF o1 y(1) x] by simp
      with y(2) show False by simp
    qed
  qed
  have "opens_ok run agent ch th cur ?st' (delete_where (\<lambda>y. os_no y = os_no x) (sd_open s))"
    using opens_end [OF o1, of "\<lambda>y. os_no y = os_no x"] others unfolding opens_ok_def by (auto simp: row_simps)
  moreover have "numbers_ok ?st'"
    using num m(1-3) unfolding numbers_ok_def stored_message_tables keyed_insert by auto
  moreover have "\<not> wm_seq m \<le> cur" if "concerns run ch th m" using m(4) that by simp
  then have "cursor_ok run agent ch th c0 cur (shown_to run s) ?st'"
    using ok \<open>numbers_ok ?st'\<close> unfolding sends_ok_def cursor_ok_def stored_message_tables by auto
  ultimately show ?thesis using run by (simp add: commit_send_def st end_send_def sends_ok_def shown_to_def)
qed

lemma hold_covers:
  assumes num: "numbers_ok st" and h: "fh_messages h = take n (unseen (ms_messages st) run ch th cur)" "fh_messages h \<noteq> []"
    and m: "m \<in> set (ms_messages st)" "concerns run ch th m" "cur < wm_seq m" "wm_seq m \<le> latest_of (fh_messages h)"
  shows "m \<in> set (fh_messages h)"
proof -
  have sub: "x \<in> set (ms_messages st)" if "x \<in> set (fh_messages h)" for x
    using that h(1) set_unseen in_set_takeD by fastforce
  have "0 < wm_seq x" if "x \<in> set (fh_messages h)" for x
    using sub [OF that] num by (simp add: numbers_ok_def)
  then obtain x where x: "x \<in> set (fh_messages h)" "wm_seq x = latest_of (fh_messages h)"
    using latest_of_in [OF h(2)] by blast
  have "m \<in> set (unseen (ms_messages st) run ch th cur)" using m by (simp add: set_unseen)
  moreover have "keyed wm_seq (unseen (ms_messages st) run ch th cur)" using num keyed_unseen by (simp add: numbers_ok_def)
  ultimately show ?thesis using take_covers [OF sorted_unseen] x m(4) unfolding h(1) by metis
qed

lemma hold_kept:
  assumes ok: "sends_ok run agent ch th c0 cur s" and x: "x \<in> set (sd_open s)" and st: "os_stage x = Holding t seen h"
  shows "\<exists>cur'. sends_ok run agent ch th c0 cur' (commit_send x s)"
proof -
  let ?i = "os_input x" let ?st = "sd_state s" let ?st' = "stored_hold t seen h ?i ?st"
  let ?os = "delete_where (\<lambda>y. os_no y = os_no x) (sd_open s)"
  have o1: "opens_ok run agent ch th cur ?st (sd_open s)" and run: "run \<noteq> []" and num: "numbers_ok ?st"
    and cur: "0 < cur" "cur < ms_next_seq ?st"
    using ok by (simp_all add: sends_ok_def cursor_ok_def)
  obtain r where r: "row_by rn_id run (runs (ms_rdb ?st)) = Some r" "talks_in agent ch th r" "freshness_seen (rn_wake r) = cur"
    and known: "\<And>m. m \<in> set (ms_messages ?st) \<Longrightarrow> concerns run ch th m \<Longrightarrow> c0 < wm_seq m \<Longrightarrow> wm_seq m \<le> cur \<Longrightarrow> m \<in> set (shown_to run s)"
    using ok by (auto simp: sends_ok_def cursor_ok_def)
  have num': "numbers_ok ?st'" using num unfolding numbers_ok_def stored_hold_tables by simp
  have row: "row_by rn_id run (runs (ms_rdb ?st')) = Some (if run = mi_run ?i
      then r\<lparr>rn_wake := (rn_wake r)\<lparr>freshness_seen := max cur (fh_seen h)\<rparr>, rn_updated := t\<rparr> else r)"
    unfolding stored_hold_tables row_see_up_to using r(1,3) row_by_key [OF r(1)] by simp
  have same: "stage_ok run ch th c ?st' y = stage_ok run ch th c ?st y" for c y
    unfolding stage_ok_def stored_hold_tables by (rule refl)
  have own: "stage_ok run ch th cur ?st x" and sp: "speaks_in run agent ch th ?i" using o1 x by (simp_all add: opens_ok_def)
  show ?thesis
  proof (cases "mi_run ?i = run")
    case False
    have "opens_ok run agent ch th cur ?st' ?os" using opens_end [OF o1] by (simp add: opens_ok_def same)
    moreover have "cursor_ok run agent ch th c0 cur (shown_to run s) ?st'"
      using num' row r(2,3) False cur known unfolding cursor_ok_def stored_hold_tables by auto
    ultimately have "sends_ok run agent ch th c0 cur (commit_send x s)"
      using run False by (simp add: commit_send_def st end_send_def sends_ok_def shown_to_def)
    then show ?thesis ..
  next
    case True
    have h: "fh_messages h \<noteq> []" "fh_messages h = take FreshnessHeldMessageLimit (unseen (ms_messages ?st) run ch th cur)"
      "fh_seen h = latest_of (fh_messages h)" and c: "checked ?i"
      using own True unfolding stage_ok_def st Let_def by auto
    let ?cur = "max cur (latest_of (fh_messages h))"
    have lock: "lock_scope ?i = (ch, th, [])" by (rule mine_locks [OF sp c True])
    have elsewhere: "lock_scope (os_input y) \<noteq> (ch, th, [])" if "y \<in> set (sd_open s)" "os_no y \<noteq> os_no x" for y
      using one_in_conversation [OF o1 that(1) x _ lock] that(2) by blast
    have "stage_ok run ch th ?cur ?st' y" if y: "y \<in> set (sd_open s)" "os_no y \<noteq> os_no x" for y
    proof -
      have "stage_ok run ch th cur ?st y" "speaks_in run agent ch th (os_input y)" using o1 y(1) by (simp_all add: opens_ok_def)
      moreover from this have "\<not> (checked (os_input y) \<and> mi_run (os_input y) = run)"
        using elsewhere [OF y] mine_locks by blast
      ultimately show ?thesis unfolding same using elsewhere [OF y] by (cases "os_stage y") (auto simp: stage_ok_def)
    qed
    then have opens: "opens_ok run agent ch th ?cur ?st' ?os"
      using opens_end [OF o1, of "\<lambda>y. os_no y = os_no x"] unfolding opens_ok_def by (auto simp: row_simps)
    have "m \<in> set (shown_to run s @ fh_messages h)"
      if m: "m \<in> set (ms_messages ?st)" "concerns run ch th m" "c0 < wm_seq m" "wm_seq m \<le> ?cur" for m
    proof (cases "wm_seq m \<le> cur")
      case True
      with known m show ?thesis by simp
    next
      case False
      with hold_covers [OF num h(2,1) m(1,2)] m(4) show ?thesis by simp
    qed
    moreover have "latest_of (fh_messages h) < ms_next_seq ?st"
    proof -
      have sub: "set (fh_messages h) \<subseteq> set (ms_messages ?st)" using h(2) set_unseen in_set_takeD by fastforce
      then have "0 < wm_seq y" if "y \<in> set (fh_messages h)" for y using that num by (auto simp: numbers_ok_def)
      then obtain y where "y \<in> set (fh_messages h)" "wm_seq y = latest_of (fh_messages h)" using latest_of_in [OF h(1)] by blast
      then show ?thesis using sub num by (metis numbers_ok_def subsetD)
    qed
    ultimately have "cursor_ok run agent ch th c0 ?cur (shown_to run s @ fh_messages h) ?st'"
      using num' row r(2) True cur h(3) unfolding cursor_ok_def stored_hold_tables talks_in_def by auto
    then have "sends_ok run agent ch th c0 ?cur (commit_send x s)"
      using run True opens by (simp add: commit_send_def st end_send_def sends_ok_def shown_to_def)
    then show ?thesis ..
  qed
qed

lemma step_kept_seen:
  assumes ok: "sends_ok run agent ch th c0 cur s"
    and input: "\<And>no i. op = TakeLock no i \<Longrightarrow> speaks_in run agent ch th i \<and> locks_conversation ch th i"
  shows "\<exists>cur'. sends_ok run agent ch th c0 cur' (message_step valid s op)"
proof (cases op)
  case (TakeLock no i)
  with take_kept [OF ok] input show ?thesis by (auto simp: message_step_def)
next
  case (CheckSend no t)
  with ok check_kept [OF ok] show ?thesis by (auto simp: message_step_def dest: row_by_in split: option.split)
next
  case (InsertSend no ts mid t)
  have "\<exists>cur'. sends_ok run agent ch th c0 cur' (insert_send valid ts mid t x s)" if "x \<in> set (sd_open s)" for x
    using insert_kept [OF ok that] by blast
  with InsertSend ok show ?thesis by (auto simp: message_step_def dest: row_by_in split: option.split)
next
  case (CommitSend no)
  have "\<exists>cur'. sends_ok run agent ch th c0 cur' (commit_send x s)" if "x \<in> set (sd_open s)" for x
  proof (cases "os_stage x")
    case (Inserted m)
    with message_kept [OF ok that] show ?thesis by blast
  next
    case (Holding t seen h)
    with hold_kept [OF ok that] show ?thesis by blast
  qed (use ok in \<open>auto simp: commit_send_def\<close>)
  with CommitSend ok show ?thesis by (auto simp: message_step_def dest: row_by_in split: option.split)
next
  case (AbortSend no)
  with end_kept [OF ok] show ?thesis by (auto simp: message_step_def)
qed

lemma steps_kept_seen:
  assumes "sends_ok run agent ch th c0 cur s"
    and "\<And>no i. TakeLock no i \<in> set ops \<Longrightarrow> speaks_in run agent ch th i \<and> locks_conversation ch th i"
  shows "\<exists>cur'. sends_ok run agent ch th c0 cur' (foldl (message_step valid) s ops)"
  using assms
proof (induction ops arbitrary: cur s)
  case (Cons op ops)
  from step_kept_seen [OF Cons.prems(1), of op valid] Cons.prems(2)
  obtain cur' where "sends_ok run agent ch th c0 cur' (message_step valid s op)" by fastforce
  moreover have "TakeLock no i \<in> set ops \<Longrightarrow> speaks_in run agent ch th i \<and> locks_conversation ch th i" for no i
    using Cons.prems(2) [of no i] by simp
  ultimately show ?case using Cons.IH [of cur' "message_step valid s op"] by simp
qed auto

text \<open>
  C20. An agent does not answer over what it has not seen. Sends run at the same time, in any interleaving of their
  statements. When the message of a run is inserted, every message of another agent and every correction of the run
  that came after the run's cursor and is stored in its conversation has been shown to the run in one of its holds,
  and no other transaction has inserted one that is not stored yet. For a run of a channel this needs nothing but
  scopes from \<open>ResolveMessageDeliveryScope\<close>; for a run of a thread, no run of the channel may write into the thread
  meanwhile, whose lock it does not take.
\<close>

theorem nothing_goes_unseen:
  assumes "numbers_ok st" and "row_by rn_id run (runs (ms_rdb st)) = Some r" and "talks_in agent ch th r" and "run \<noteq> []"
    and "0 < freshness_seen (rn_wake r)" and "freshness_seen (rn_wake r) < ms_next_seq st"
    and "\<And>no i. TakeLock no i \<in> set ops \<Longrightarrow> delivered (ms_rdb st) i"
    and "\<And>no i. TakeLock no i \<in> set ops \<Longrightarrow> th \<noteq> [] \<Longrightarrow> locks_conversation ch th i"
    and "s = foldl (message_step valid) (no_sends st) ops"
    and "x \<in> set (sd_open s)" and "os_stage x = Inserted own" and "checked (os_input x)" and "mi_run (os_input x) = run"
  shows "(\<forall>m \<in> set (ms_messages (sd_state s)).
            concerns run ch th m \<longrightarrow> freshness_seen (rn_wake r) < wm_seq m \<longrightarrow> m \<in> set (shown_to run s)) \<and>
         (\<forall>y \<in> set (sd_open s). \<forall>m. os_stage y = Inserted m \<longrightarrow> \<not> concerns run ch th m)"
proof -
  have keyed: "keyed rn_id (runs (ms_rdb st))" using assms(1) by (simp add: numbers_ok_def)
  have "sends_ok run agent ch th (freshness_seen (rn_wake r)) (freshness_seen (rn_wake r)) (no_sends st)"
  proof -
    have "cursor_ok run agent ch th (freshness_seen (rn_wake r)) (freshness_seen (rn_wake r)) [] st"
      unfolding cursor_ok_def
      by (intro conjI exI [of _ r] ballI impI assms(1,2,3,5,6) refl, elim conjE) linarith
    moreover have "opens_ok run agent ch th (freshness_seen (rn_wake r)) st []" by (simp add: opens_ok_def keyed_def)
    ultimately show ?thesis using assms(4) by (simp add: sends_ok_def shown_to_def)
  qed
  moreover have "speaks_in run agent ch th i \<and> locks_conversation ch th i" if "TakeLock no i \<in> set ops" for no i
    using delivered_speaks_in [OF keyed assms(2-4) assms(7) [OF that]] assms(8) [OF that]
      channel_is_locked [OF assms(7) [OF that]] by (cases "th = []") simp_all
  ultimately obtain cur where ok: "sends_ok run agent ch th (freshness_seen (rn_wake r)) cur s"
    using steps_kept_seen assms(9) by blast
  then have o1: "opens_ok run agent ch th cur (sd_state s) (sd_open s)"
    and c: "cursor_ok run agent ch th (freshness_seen (rn_wake r)) cur (shown_to run s) (sd_state s)"
    by (simp_all add: sends_ok_def)
  have x: "stage_ok run ch th cur (sd_state s) x" "speaks_in run agent ch th (os_input x)"
    using o1 assms(10) by (simp_all add: opens_ok_def)
  then have "unseen (ms_messages (sd_state s)) run ch th cur = []" using assms(11-13) by (simp add: stage_ok_def Let_def)
  then have old: "wm_seq m \<le> cur" if "m \<in> set (ms_messages (sd_state s))" "concerns run ch th m" for m
    using set_unseen [of "ms_messages (sd_state s)" run ch th cur] that by auto
  have lock: "lock_scope (os_input x) = (ch, th, [])" by (rule mine_locks [OF x(2) assms(12,13)])
  have "\<not> concerns run ch th m" if y: "y \<in> set (sd_open s)" "os_stage y = Inserted m" for y m
  proof
    assume m: "concerns run ch th m"
    have "stage_ok run ch th cur (sd_state s) y" using o1 y(1) by (simp add: opens_ok_def)
    then have "lock_scope (os_input y) = (ch, th, [])" "mi_run (os_input y) \<noteq> run" using y(2) m by (simp_all add: stage_ok_def Let_def)
    then show False using one_in_conversation [OF o1 y(1) assms(10) _ lock] assms(13) by blast
  qed
  moreover have "m \<in> set (shown_to run s)"
    if "m \<in> set (ms_messages (sd_state s))" "concerns run ch th m" "freshness_seen (rn_wake r) < wm_seq m" for m
    using c that old [OF that(1,2)] by (simp add: cursor_ok_def)
  ultimately show ?thesis by blast
qed

section \<open>Being held comes to an end\<close>

text \<open>How much a send has yet to see.\<close>

definition backlog :: "message_input \<Rightarrow> send_state \<Rightarrow> nat" where
  "backlog i st =
     (case freshness_run (ms_rdb st) (freshness_of i) of
        None \<Rightarrow> 0
      | Some r \<Rightarrow> length (unseen (ms_messages st) (mi_run i) (mi_channel i) (mi_run_thread i) (freshness_seen (rn_wake r))))"

lemma freshness_run_see:
  assumes "freshness_run d j = Some r"
  shows "freshness_run (see_up_to t (fs_run j) l d) j =
     Some (r\<lparr>rn_wake := (rn_wake r)\<lparr>freshness_seen := max (freshness_seen (rn_wake r)) l\<rparr>, rn_updated := t\<rparr>)"
proof -
  have "rn_id r = fs_run j" using assms by (auto simp: freshness_run_def find_Some_iff)
  then show ?thesis using assms
    unfolding freshness_run_def runs_see_up_to update_where_def by (subst find_map_same) auto
qed

lemma unseen_after:
  "length (unseen ms run ch th (max seen l)) = length (filter (\<lambda>m. wm_seq m > l) (unseen ms run ch th seen))"
proof -
  have "filter (\<lambda>m. wm_seq m > l) (unseen ms run ch th seen) = unseen ms run ch th (max seen l)"
    unfolding unseen_def filter_sort filter_filter by (intro arg_cong [of _ _ "sort_key wm_seq"] filter_cong) auto
  then show ?thesis by simp
qed

lemma backlog_shrinks:
  assumes "send_message_tx valid ts mid t i st = Inr (st', MessageHeld h)"
  shows "backlog i st' + min 5 (backlog i st) \<le> backlog i st \<and> 0 < backlog i st"
proof -
  from held_facts [of t "freshness_of i" st st' h] held_tx [OF assms] obtain r where
    r: "freshness_run (ms_rdb st) (freshness_of i) = Some r" "fh_messages h \<noteq> []" and
    h: "fh_messages h = take 5 (unseen (ms_messages st) (mi_run i) (mi_channel i) (mi_run_thread i) (freshness_seen (rn_wake r)))" and
    f: "ms_messages st' = ms_messages st" "ms_rdb st' = see_up_to t (mi_run i) (latest_of (fh_messages h)) (ms_rdb st)"
    by (auto simp: freshness_of_def FreshnessHeldMessageLimit_def)
  let ?new = "unseen (ms_messages st) (mi_run i) (mi_channel i) (mi_run_thread i) (freshness_seen (rn_wake r))"
  have "freshness_run (ms_rdb st') (freshness_of i) =
      Some (r\<lparr>rn_wake := (rn_wake r)\<lparr>freshness_seen := max (freshness_seen (rn_wake r)) (latest_of (fh_messages h))\<rparr>, rn_updated := t\<rparr>)"
    using freshness_run_see [OF r(1)] f(2) by (simp add: freshness_of_def)
  then have "backlog i st' = length (filter (\<lambda>m. wm_seq m > latest_of (fh_messages h)) ?new)"
    by (simp add: backlog_def f(1) unseen_after)
  also have "\<dots> = length (filter (\<lambda>m. wm_seq m > latest_of (fh_messages h)) (drop 5 ?new))"
  proof -
    have "filter (\<lambda>m. wm_seq m > latest_of (fh_messages h)) (take 5 ?new) = []"
      using latest_of_max h by (fastforce simp: filter_empty_conv)
    then show ?thesis by (metis append_Nil append_take_drop_id filter_append)
  qed
  also have "\<dots> \<le> length (drop 5 ?new)" by (rule length_filter_le)
  finally have "backlog i st' \<le> length ?new - 5" by simp
  moreover have "backlog i st = length ?new" using r(1) by (simp add: backlog_def)
  moreover have "?new \<noteq> []" using r(2) h by auto
  then have "0 < length ?new" by simp
  ultimately show ?thesis by (auto simp: min_def)
qed

text \<open>An agent that sends its message again whenever it is held; the count of its holds.\<close>

function holds_until_through :: "(id \<Rightarrow> bool) \<Rightarrow> task_row list \<Rightarrow> id \<Rightarrow> time \<Rightarrow> message_input \<Rightarrow> send_state \<Rightarrow> nat" where
  "holds_until_through valid ts mid t i st =
     (case send_message_tx valid ts mid t i st of
        Inl err \<Rightarrow> 0
      | Inr (st', what) \<Rightarrow> (case what of MessageSent m \<Rightarrow> 0 | MessageHeld h \<Rightarrow> Suc (holds_until_through valid ts mid t i st')))"
  by pat_completeness auto

termination
proof (relation "measure (\<lambda>(valid, ts, mid, t, i, st). backlog i st)")
  fix valid ts mid t i st x st' what h
  assume "send_message_tx valid ts mid t i st = Inr x" "(st', what) = x" "what = MessageHeld h"
  then have "backlog i st' + min 5 (backlog i st) \<le> backlog i st \<and> 0 < backlog i st"
    using backlog_shrinks [of valid ts mid t i st st' h] by simp
  then show "((valid, ts, mid, t, i, st'), (valid, ts, mid, t, i, st)) \<in> measure (\<lambda>(valid, ts, mid, t, i, st). backlog i st)"
    by (simp add: min_def split: if_splits)
qed simp

lemmas [simp del] = holds_until_through.simps

lemma fewer_by_five:
  assumes "b' \<le> b - 5" and "0 < (b :: nat)"
  shows "Suc ((b' + 4) div 5) \<le> (b + 4) div 5"
proof -
  consider "b' + 4 + 5 \<le> b + 4" | "b' = 0" "5 \<le> b + 4" using assms by linarith
  then show ?thesis
  proof cases
    case 1
    then have "(b' + 4 + 5) div 5 \<le> (b + 4) div 5" by (rule div_le_mono)
    then show ?thesis by simp
  next
    case 2
    then have "5 div 5 \<le> (b + 4) div 5" by (intro div_le_mono)
    then show ?thesis using 2 by simp
  qed
qed

text \<open>
  C21. An agent is not held forever: sending again whenever it is held, while nobody else writes, its message gets
  through or is refused after at most one hold for every five messages it had not seen.
\<close>

theorem holds_come_to_an_end:
  "holds_until_through valid ts mid t i st \<le> (backlog i st + 4) div 5"
proof (induction valid ts mid t i st rule: holds_until_through.induct)
  case (1 valid ts mid t i st)
  show ?case
  proof (cases "\<exists>st' h. send_message_tx valid ts mid t i st = Inr (st', MessageHeld h)")
    case True
    then obtain st' h where held: "send_message_tx valid ts mid t i st = Inr (st', MessageHeld h)" by blast
    have "holds_until_through valid ts mid t i st = Suc (holds_until_through valid ts mid t i st')"
      by (subst holds_until_through.simps) (simp add: held)
    moreover have "holds_until_through valid ts mid t i st' \<le> (backlog i st' + 4) div 5"
      using 1 [OF held refl refl] .
    moreover have "backlog i st' \<le> backlog i st - 5 \<and> 0 < backlog i st"
      using backlog_shrinks [OF held] by (auto simp: min_def split: if_splits)
    moreover have "backlog i st' \<le> backlog i st - 5 \<Longrightarrow> 0 < backlog i st \<Longrightarrow> Suc ((backlog i st' + 4) div 5) \<le> (backlog i st + 4) div 5"
      by (rule fewer_by_five)
    ultimately show ?thesis by linarith
  next
    case False
    then have "holds_until_through valid ts mid t i st = 0"
      by (subst holds_until_through.simps) (auto split: sum.split send_outcome.split)
    then show ?thesis by simp
  qed
qed

section \<open>A correction reaches its agent once\<close>

lemma consume_keeps: "c \<in> set cs \<Longrightarrow> c \<in> set (consume agent run shown cs)"
  unfolding consume_def by (induction shown arbitrary: cs) auto

lemma consume_adds:
  assumes "m \<in> set shown" and "wm_sender_type m = ''user''"
  shows "\<exists>c \<in> set (consume agent run shown cs). cn_agent c = agent \<and> cn_message c = wm_id m"
  using assms
proof (induction shown arbitrary: cs)
  case (Cons x xs)
  let ?cs = "if wm_sender_type x = ''user'' \<and> \<not> exists_row (\<lambda>c. cn_agent c = agent \<and> cn_message c = wm_id x) cs
             then cs @ [\<lparr>cn_agent = agent, cn_message = wm_id x, cn_run = run\<rparr>] else cs"
  have step: "consume agent run (x # xs) cs = consume agent run xs ?cs" by (simp add: consume_def)
  show ?case
  proof (cases "m = x")
    case True
    then have "\<exists>c \<in> set ?cs. cn_agent c = agent \<and> cn_message c = wm_id m"
      using Cons.prems(2) by (auto simp: exists_row_iff)
    then show ?thesis unfolding step using consume_keeps by blast
  next
    case False
    then show ?thesis unfolding step using Cons by simp
  qed
qed simp

lemma wakes_keep_consumed:
  "queue_ok q \<Longrightarrow> queue_ok (foldl (wake_step pl) q ops) \<and> same_world q (foldl (wake_step pl) q ops)"
proof (induction ops arbitrary: q)
  case (Cons o1 ops)
  have "queue_ok (wake_step pl q o1) \<and> same_world q (wake_step pl q o1)"
    using step_kept [OF Cons.prems] by (simp add: carries_def)
  then show ?case using Cons.IH [of "wake_step pl q o1"] same_world_trans by auto
qed (simp add: same_world_def)

text \<open>
  A correction reaches an agent once: after a hold has shown an agent a user's message, no pending wake of the
  agent is triggered by the message or hands it to a new run, whatever happens to the queue afterwards.
\<close>

theorem shown_correction_wakes_nobody:
  assumes held: "send_message_tx valid ts mid t i st = Inr (st', MessageHeld h)" and m: "m \<in> set (fh_messages h)"
    and user: "wm_sender_type m = ''user''" and ok: "queue_ok (ms_queue st')" and p: "pw_agent p = mi_sender i"
    and later: "foldl (wake_step pl) (ms_queue st') ops = q"
  shows "m \<notin> set (wake_turn_messages q p) \<and> wake_trigger q p \<noteq> Some m"
proof -
  from held_facts [of t "freshness_of i" st st' h] held_tx [OF held] obtain seen where
    h: "fh_messages h = take 5 (unseen (ms_messages st) (mi_run i) (mi_channel i) (mi_run_thread i) seen)" and
    f: "ms_messages st' = ms_messages st"
      "mw_consumed (ms_queue st') = consume (mi_sender i) (mi_run i) (fh_messages h) (mw_consumed (ms_queue st))"
    by (auto simp: freshness_of_def FreshnessHeldMessageLimit_def)
  have same: "mw_consumed q = mw_consumed (ms_queue st')" "wk_messages (mw_tables q) = ms_messages st'"
    using wakes_keep_consumed [OF ok, of pl ops] later by (simp_all add: same_world_def)
  obtain c where c: "c \<in> set (mw_consumed q)" "cn_agent c = pw_agent p" "cn_message c = wm_id m"
    using consume_adds [OF m user, of "mi_sender i" "mi_run i" "mw_consumed (ms_queue st)"] same(1) f(2) p by auto
  have there: "m \<in> set (wk_messages (mw_tables q))"
    using m h in_set_takeD set_unseen same(2) f(1) by fastforce
  have "wake_trigger q p \<noteq> Some m"
    unfolding wake_trigger_def using c pick_by_in [of _ _ m] by (fastforce simp: exists_row_iff)
  moreover have "m \<notin> set (wake_turn_messages q p)"
  proof
    assume "m \<in> set (wake_turn_messages q p)"
    then have "wm_channel m = pw_channel p" and "\<not> (\<exists>c \<in> set (mw_consumed q). cn_agent c = pw_agent p \<and>
        (\<exists>x \<in> set (wk_messages (mw_tables q)). wm_id x = cn_message c \<and> wm_channel x = pw_channel p \<and> wm_seq x = wm_seq m))"
      unfolding wake_turn_messages_def exists_row_iff wake_message_in_def by simp_all
    with c there show False by metis
  qed
  ultimately show ?thesis by blast
qed

section \<open>Discarding a draft\<close>

lemma slim_short: "rune_count s \<le> 2048 \<Longrightarrow> slim_run_event_text s = s"
  by (simp add: slim_run_event_text_def agent_run_event_text_limit_def)

lemma member_slim: "member k (slim_run_event_payload p) = map_option slim_run_event_text (member k p)"
  by (induction p) (auto simp: member_def slim_run_event_payload_def)

definition discard_replayed :: "run_event_row list \<Rightarrow> discard_request \<Rightarrow> id \<Rightarrow> bool" where
  "discard_replayed evs q actor =
     exists_row (\<lambda>ev. re_run ev = dq_run q \<and> re_type ev = discarded_event \<and>
       member ''sha256'' (re_payload ev) = Some (dq_sha q) \<and> member ''reason'' (re_payload ev) = Some (dq_reason q) \<and>
       member ''actor_id'' (re_payload ev) = Some actor) evs"

lemma no_draft_left: "row_by hd_run k (delete_where (\<lambda>x. hd_run x = k) ds) = None"
  by (auto simp: row_by_None set_delete_where)

text \<open>A discard that succeeds: what it found, and the event it left when there was a draft.\<close>

lemma discard_facts:
  assumes "discard_agent_draft e valid may agent actor q st = Inr st'"
  shows "may \<and> valid (dq_run q) \<and> length (dq_sha q) = 64 \<and> \<not> blank (dq_reason q) \<and> length (dq_reason q) \<le> 4000 \<and>
    (\<exists>r. row_by rn_id (dq_run q) (runs (ms_rdb st)) = Some r \<and> rn_agent r = agent) \<and> runs (ms_rdb st') = runs (ms_rdb st) \<and>
    (row_by hd_run (dq_run q) (ms_drafts st) = None \<longrightarrow> st' = st \<and> discard_replayed (events (ms_rdb st)) q actor) \<and>
    (row_by hd_run (dq_run q) (ms_drafts st) \<noteq> None \<longrightarrow>
       row_by hd_run (dq_run q) (ms_drafts st') = None \<and>
       (\<exists>ev. events (ms_rdb st') = events (ms_rdb st) @ [ev] \<and> re_run ev = dq_run q \<and> re_type ev = discarded_event \<and>
          re_payload ev = slim_run_event_payload [(''sha256'', dq_sha q), (''reason'', dq_reason q), (''actor_id'', actor)]))"
  using assms
  by (auto simp: discard_agent_draft_def discard_replayed_def with_rdb_def ms_rdb_def append_run_event_def no_draft_left
      split: if_splits option.splits)

lemma discard_again:
  assumes "discard_agent_draft e valid may agent actor q st = Inr st'" and "row_by hd_run (dq_run q) (ms_drafts st') = None"
  shows "discard_agent_draft e valid may agent actor q st' =
    (if discard_replayed (events (ms_rdb st')) q actor then Inr st' else Inl DiscardConflict)"
  using discard_facts [OF assms(1)] assms(2) by (auto simp: discard_agent_draft_def discard_replayed_def)

text \<open>
  A discard may be repeated: when the reason has at most 2048 characters, a second request like a successful one
  succeeds and changes nothing.
\<close>

theorem discard_is_idempotent:
  assumes "discard_agent_draft e valid may agent actor q st = Inr st'"
    and "rune_count (dq_reason q) \<le> 2048" and "rune_count actor \<le> 2048"
  shows "discard_agent_draft e valid may agent actor q st' = Inr st'"
proof -
  note f = discard_facts [OF assms(1)]
  have sha: "slim_run_event_text (dq_sha q) = dq_sha q" using f rune_count_le [of "dq_sha q"] by (intro slim_short) simp
  show ?thesis
  proof (cases "row_by hd_run (dq_run q) (ms_drafts st)")
    case None
    then show ?thesis using f discard_again [OF assms(1)] by simp
  next
    case (Some x)
    with f obtain ev where ev: "events (ms_rdb st') = events (ms_rdb st) @ [ev]" "re_run ev = dq_run q" "re_type ev = discarded_event"
      "re_payload ev = slim_run_event_payload [(''sha256'', dq_sha q), (''reason'', dq_reason q), (''actor_id'', actor)]"
      "row_by hd_run (dq_run q) (ms_drafts st') = None" by auto
    have "discard_replayed (events (ms_rdb st')) q actor"
      unfolding discard_replayed_def exists_row_iff ev(1)
      by (rule bexI [of _ ev]) (simp_all add: ev member_slim, simp_all add: member_def sha slim_short assms(2,3))
    then show ?thesis using discard_again [OF assms(1) ev(5)] by simp
  qed
qed

text \<open>
  Not so with a long reason: reasons of up to 4000 bytes are accepted, but the event that a repeated request is
  recognised by keeps 2048 characters of one, so repeating a successful discard with a longer reason is a conflict.
\<close>

theorem long_reason_breaks_replay:
  assumes "discard_agent_draft e valid may agent actor q st = Inr st'" and "row_by hd_run (dq_run q) (ms_drafts st) \<noteq> None"
    and "slim_run_event_text (dq_reason q) \<noteq> dq_reason q" and "\<not> discard_replayed (events (ms_rdb st)) q actor"
  shows "discard_agent_draft e valid may agent actor q st' = Inl DiscardConflict"
proof -
  from discard_facts [OF assms(1)] assms(2) obtain ev where
    ev: "events (ms_rdb st') = events (ms_rdb st) @ [ev]"
      "re_payload ev = slim_run_event_payload [(''sha256'', dq_sha q), (''reason'', dq_reason q), (''actor_id'', actor)]"
      "row_by hd_run (dq_run q) (ms_drafts st') = None" by auto
  have "member ''reason'' (re_payload ev) \<noteq> Some (dq_reason q)"
    unfolding ev(2) member_slim using assms(3) by (simp add: member_def)
  then have "\<not> discard_replayed (events (ms_rdb st')) q actor"
    using assms(4) ev(1) by (auto simp: discard_replayed_def exists_row_iff)
  then show ?thesis using discard_again [OF assms(1) ev(3)] by simp
qed

section \<open>The properties on a small state\<close>

definition fr_message :: "id \<Rightarrow> int \<Rightarrow> string \<Rightarrow> wake_message" where
  "fr_message mid seq ty =
     mq_message\<lparr>wm_id := mid, wm_seq := seq, wm_sender_type := ty, wm_correction := (if ty = ''user'' then Some ''r1'' else None)\<rparr>"

definition fr_state :: send_state where
  "fr_state =
     (let q = mq_state [mq_run]
      in \<lparr>ms_queue = q\<lparr>mw_tables := (mw_tables q)\<lparr>wk_messages := [mq_message, fr_message ''m2'' 8 ''user'', fr_message ''m3'' 9 ''agent'']\<rparr>\<rparr>,
          ms_drafts = [\<lparr>hd_run = ''r1'', hd_channel = ''ch'', hd_thread = None, hd_content = ''hi'', hd_based = 7, hd_created = 40\<rparr>],
          ms_next_seq = 10\<rparr>)"

definition fr_input :: message_input where
  "fr_input =
     \<lparr>mi_sender_type = ''agent'', mi_sender = ''a'', mi_channel = ''ch'', mi_thread = [], mi_node = [], mi_content = ''hello'',
      mi_mentioned = [], mi_keep = 0, mi_reason = [], mi_correction = [], mi_run = ''r1'', mi_run_thread = []\<rparr>"

definition fr_next :: message_input where
  "fr_next = fr_input\<lparr>mi_content := ''hello, corrected''\<rparr>"

definition fr_other :: message_input where
  "fr_other = fr_input\<lparr>mi_sender_type := ''user'', mi_sender := ''u'', mi_thread := ''t'', mi_run := []\<rparr>"

text \<open>The run is held while a person writes into a thread, and inserts its second message before that one is stored.\<close>

definition fr_ops :: "message_op list" where
  "fr_ops =
     [TakeLock 0 fr_input, TakeLock 1 fr_other, CheckSend 0 50, CheckSend 1 50, TakeLock 2 fr_next, CommitSend 0,
      InsertSend 1 [] ''n0'' 51, TakeLock 2 fr_next, CheckSend 2 52, InsertSend 2 [] ''n1'' 53]"

definition fr_sends :: sends where
  "fr_sends = foldl (message_step (\<lambda>_. True)) (no_sends fr_state) fr_ops"

lemma fr_taken: "TakeLock no i \<in> set fr_ops \<Longrightarrow> i = fr_input \<or> i = fr_other \<or> i = fr_next"
  by (auto simp: fr_ops_def)

lemma fr_delivered: "delivered (ms_rdb fr_state) fr_input" "delivered (ms_rdb fr_state) fr_other" "delivered (ms_rdb fr_state) fr_next"
  by code_simp+

theorem nothing_goes_unseen_witness:
  "fr_message ''m2'' 8 ''user'' \<in> set (shown_to ''r1'' fr_sends)"
proof -
  have "row_by os_no 2 (sd_open fr_sends) \<noteq> None \<and>
      (case os_stage (the (row_by os_no 2 (sd_open fr_sends))) of Inserted _ \<Rightarrow> True | _ \<Rightarrow> False) \<and>
      os_input (the (row_by os_no 2 (sd_open fr_sends))) = fr_next"
    by code_simp
  then obtain x own where x: "row_by os_no 2 (sd_open fr_sends) = Some x" "os_stage x = Inserted own" "os_input x = fr_next"
    by (auto split: send_stage.splits)
  have own: "checked (os_input x)" "mi_run (os_input x) = ''r1''"
    by (simp_all add: x(3) checked_def fr_next_def fr_input_def)
  have row: "row_by rn_id ''r1'' (runs (ms_rdb fr_state)) = Some mq_run" by code_simp
  have num: "numbers_ok fr_state" by code_simp
  have r: "talks_in ''a'' ''ch'' [] mq_run" "''r1'' \<noteq> []" "0 < freshness_seen (rn_wake mq_run)"
    "freshness_seen (rn_wake mq_run) < ms_next_seq fr_state"
    by (simp_all add: talks_in_def mq_run_def fr_state_def Let_def)
  have "fr_message ''m2'' 8 ''user'' \<in> set (ms_messages (sd_state fr_sends))" by code_simp
  moreover have "concerns ''r1'' ''ch'' [] (fr_message ''m2'' 8 ''user'')" "freshness_seen (rn_wake mq_run) < wm_seq (fr_message ''m2'' 8 ''user'')"
    by (simp_all add: concerns_def fr_message_def mq_message_def mq_run_def)
  moreover have "delivered (ms_rdb fr_state) i" if "TakeLock no i \<in> set fr_ops" for no i
    using fr_taken [OF that] fr_delivered by blast
  ultimately show ?thesis
    using nothing_goes_unseen [OF num row r _ _ fr_sends_def row_by_in [OF x(1)] x(2) own] by blast
qed

text \<open>
  The thread of a run without the lock: a run of the channel answers in the thread it was woken from under the lock of the channel.
  Its message takes number 10, a second one number 11 and is stored; a run of the thread is held for that one, which
  moves its cursor to 11; the first message is stored after that. The run's next message goes out, and number 10 was
  never shown to it.
\<close>

definition fl_state :: send_state where
  "fl_state =
     with_rdb ((ms_rdb fr_state)\<lparr>
       runs := [mq_run, mq_run\<lparr>rn_id := ''r2'', rn_agent := ''b'', rn_scope := (rn_scope mq_run)\<lparr>scope_thread := Some ''t''\<rparr>\<rparr>],
       threads := [\<lparr>th_id = ''t'', th_channel = ''ch'', th_root = ''m1''\<rparr>],
       message_seqs := [(''m1'', 7)]\<rparr>) fr_state"

definition fl_input :: "id \<Rightarrow> id \<Rightarrow> id \<Rightarrow> message_input" where
  "fl_input sender run th = fr_input\<lparr>mi_sender := sender, mi_thread := ''t'', mi_run := run, mi_run_thread := th\<rparr>"

definition fl_ops :: "message_op list" where
  "fl_ops =
     [TakeLock 0 (fl_input ''a'' ''r1'' []), CheckSend 0 50, CommitSend 0,
      TakeLock 0 ((fl_input ''a'' ''r1'' [])\<lparr>mi_content := ''again''\<rparr>), CheckSend 0 50, InsertSend 0 [] ''n0'' 50,
      TakeLock 1 (fl_input ''c'' [] ''t''), CheckSend 1 51, InsertSend 1 [] ''n1'' 51, CommitSend 1,
      TakeLock 2 (fl_input ''b'' ''r2'' ''t''), CheckSend 2 52, CommitSend 2, CommitSend 0,
      TakeLock 3 (fl_input ''b'' ''r2'' ''t''), CheckSend 3 53, InsertSend 3 [] ''n3'' 53, CommitSend 3]"

lemma thread_message_goes_unseen:
  "list_all (\<lambda>op. case op of TakeLock _ i \<Rightarrow> delivered (ms_rdb fl_state) i | _ \<Rightarrow> True) fl_ops \<and>
   map (\<lambda>m. (wm_id m, wm_seq m)) (ms_messages (sd_state (foldl (message_step (\<lambda>_. True)) (no_sends fl_state) fl_ops))) =
     [(''m1'', 7), (''m2'', 8), (''m3'', 9), (''n1'', 11), (''n0'', 10), (''n3'', 12)] \<and>
   map wm_id (shown_to ''r2'' (foldl (message_step (\<lambda>_. True)) (no_sends fl_state) fl_ops)) = [''n1'']"
  by code_simp

theorem shown_correction_wakes_nobody_witness:
  "wake_trigger (foldl (wake_step (\<lambda>_ _. mt_payload mq_turn))
      (ms_queue (fst (projr (send_message_tx (\<lambda>_. True) [] ''n1'' 50 fr_input fr_state))))
      [(mq_env, ClaimWake mq_daemon mq_turn 6 9)])
    \<lparr>pw_agent = ''a'', pw_channel = ''ch'', pw_key = ''channel'', pw_thread = None, pw_first = 6, pw_latest = 9,
      pw_visible = False, pw_created = 50\<rparr> \<noteq> Some (fr_message ''m2'' 8 ''user'')"
proof -
  let ?p = "\<lparr>pw_agent = ''a'', pw_channel = ''ch'', pw_key = ''channel'', pw_thread = None, pw_first = 6, pw_latest = 9,
      pw_visible = False, pw_created = 50\<rparr>"
  obtain st' h where h: "send_message_tx (\<lambda>_. True) [] ''n1'' 50 fr_input fr_state = Inr (st', MessageHeld h)"
    and m: "fh_messages h = [fr_message ''m2'' 8 ''user'', fr_message ''m3'' 9 ''agent'']"
    and st': "mw_runs (ms_queue st') = [mq_run\<lparr>rn_wake := (rn_wake mq_run)\<lparr>freshness_seen := 9\<rparr>, rn_updated := 50\<rparr>]"
      "mw_pending (ms_queue st') = []"
  proof -
    have "(case send_message_tx (\<lambda>_. True) [] ''n1'' 50 fr_input fr_state of
        Inl _ \<Rightarrow> False
      | Inr (st', MessageSent _) \<Rightarrow> False
      | Inr (st', MessageHeld h) \<Rightarrow>
          fh_messages h = [fr_message ''m2'' 8 ''user'', fr_message ''m3'' 9 ''agent''] \<and>
          mw_runs (ms_queue st') = [mq_run\<lparr>rn_wake := (rn_wake mq_run)\<lparr>freshness_seen := 9\<rparr>, rn_updated := 50\<rparr>] \<and>
          mw_pending (ms_queue st') = [])" by code_simp
    then show ?thesis using that by (auto split: sum.splits prod.splits send_outcome.splits)
  qed
  have ok: "queue_ok (ms_queue st')" using st' by (simp add: queue_ok_def keyed_def mq_run_def)
  have "fr_message ''m2'' 8 ''user'' \<in> set (fh_messages h)" "wm_sender_type (fr_message ''m2'' 8 ''user'') = ''user''"
    "pw_agent ?p = mi_sender fr_input"
    by (simp_all add: m fr_message_def fr_input_def)
  note base = shown_correction_wakes_nobody [OF h this(1,2) ok this(3) refl]
  have "fst (projr (send_message_tx (\<lambda>_. True) [] ''n1'' 50 fr_input fr_state)) = st'" by (simp add: h)
  then show ?thesis using base by metis
qed

definition fr_discard :: "string \<Rightarrow> discard_request" where
  "fr_discard reason = \<lparr>dq_run = ''r1'', dq_sha = replicate 64 CHR ''f'', dq_reason = reason\<rparr>"

definition fr_renv :: renv where
  "fr_renv = (renv.truncate mq_env)\<lparr>sha_hex := (\<lambda>_. replicate 64 CHR ''f'')\<rparr>"

lemma fr_row: "row_by rn_id ''r1'' (runs (ms_rdb fr_state)) = Some mq_run"
    "row_by hd_run ''r1'' (ms_drafts fr_state) =
      Some \<lparr>hd_run = ''r1'', hd_channel = ''ch'', hd_thread = None, hd_content = ''hi'', hd_based = 7, hd_created = 40\<rparr>"
    "events (ms_rdb fr_state) = []"
  by code_simp+

lemma fr_discards:
  assumes "\<not> blank reason" "length reason \<le> 4000"
  shows "\<exists>st'. discard_agent_draft fr_renv (\<lambda>_. True) True ''a'' ''u'' (fr_discard reason) fr_state = Inr st'"
  using assms by (simp add: discard_agent_draft_def fr_discard_def fr_row fr_renv_def mq_run_def)

theorem discard_is_idempotent_witness:
  "\<exists>st'. discard_agent_draft fr_renv (\<lambda>_. True) True ''a'' ''u'' (fr_discard ''stale'') fr_state = Inr st' \<and>
         discard_agent_draft fr_renv (\<lambda>_. True) True ''a'' ''u'' (fr_discard ''stale'') st' = Inr st'"
proof -
  have "\<not> blank ''stale''" by code_simp
  then obtain st' where st': "discard_agent_draft fr_renv (\<lambda>_. True) True ''a'' ''u'' (fr_discard ''stale'') fr_state = Inr st'"
    using fr_discards [of "''stale''"] by auto
  have "rune_count (dq_reason (fr_discard ''stale'')) \<le> 2048" "rune_count ''u'' \<le> 2048"
    using rune_count_le [of "''stale''"] rune_count_le [of "''u''"] by (simp_all add: fr_discard_def)
  from st' discard_is_idempotent [OF st' this] show ?thesis by blast
qed

lemma long_text:
  assumes "2048 < n"
  shows "\<not> blank (replicate n CHR ''x'')" and "slim_run_event_text (replicate n CHR ''x'') \<noteq> replicate n CHR ''x''"
proof -
  obtain k where n: "n = Suc k" using assms by (cases n) auto
  have "trim_by space_runes (CHR ''x'' # s) = CHR ''x'' # s" "trim_by (map rev space_runes) (CHR ''x'' # s) = CHR ''x'' # s" for s
    by (subst trim_by.simps, simp add: space_runes_def)+
  moreover have "rev (replicate n CHR ''x'') = CHR ''x'' # replicate k CHR ''x''" unfolding rev_replicate n by simp
  ultimately show "\<not> blank (replicate n CHR ''x'')" by (simp add: blank_def trim_space_def n)
  have "rune_count (replicate n CHR ''x'') = n" by (simp add: rune_count_def is_cont_def between_def)
  then have l: "last (slim_run_event_text (replicate n CHR ''x'')) = CHR '']''"
    using assms by (simp add: slim_run_event_text_def agent_run_event_text_limit_def)
  have x: "last (replicate n CHR ''x'') = CHR ''x''" using n by (simp add: last_replicate)
  show "slim_run_event_text (replicate n CHR ''x'') \<noteq> replicate n CHR ''x''"
  proof
    assume "slim_run_event_text (replicate n CHR ''x'') = replicate n CHR ''x''"
    with l x have "CHR '']'' = CHR ''x''" by (simp only:)
    then show False by simp
  qed
qed

definition fr_long :: string where
  "fr_long = replicate 3000 CHR ''x''"

theorem long_reason_breaks_replay_witness:
  "\<exists>st'. discard_agent_draft fr_renv (\<lambda>_. True) True ''a'' ''u'' (fr_discard fr_long) fr_state = Inr st' \<and>
         discard_agent_draft fr_renv (\<lambda>_. True) True ''a'' ''u'' (fr_discard fr_long) st' = Inl DiscardConflict"
proof -
  have long: "\<not> blank fr_long" "slim_run_event_text fr_long \<noteq> fr_long"
    unfolding fr_long_def by (rule long_text, simp)+
  have "length fr_long \<le> 4000" by (simp only: fr_long_def length_replicate)
  then obtain st' where st': "discard_agent_draft fr_renv (\<lambda>_. True) True ''a'' ''u'' (fr_discard fr_long) fr_state = Inr st'"
    using fr_discards [OF long(1)] by auto
  have "slim_run_event_text (dq_reason (fr_discard fr_long)) \<noteq> dq_reason (fr_discard fr_long)" using long(2) by (simp add: fr_discard_def)
  moreover have "\<not> discard_replayed (events (ms_rdb fr_state)) (fr_discard fr_long) ''u''"
    by (simp add: discard_replayed_def fr_row exists_row_iff)
  moreover have "row_by hd_run (dq_run (fr_discard fr_long)) (ms_drafts fr_state) \<noteq> None" by (simp add: fr_discard_def fr_row)
  ultimately show ?thesis using st' long_reason_breaks_replay [OF st'] by blast
qed

end
