(* ===== verification/Thinking.thy ===== *)
theory Thinking
  imports Run_Model "HOL-Library.Product_Lexorder"
begin

text \<open>
  Thinking spaces (\<open>service/thinking.go\<close>, migrations 32, 60 and 76): a channel may have one tree of branches, each
  a conversation with one agent. A branch is forked from its parent, publishes its current state, and returns
  one final handoff to its parent once all its own branches have returned.

  Of the tables the records hold the columns the service reads or writes. A transaction locks the row it
  decides about, so it is a function from the database to an error or the database it leaves; the row that is
  read back at its end is \<open>get_node\<close>. \<open>think_env\<close> adds the clock, the UUIDs of one call in order, PostgreSQL's
  \<open>lower\<close>, \<open>uuid.Parse\<close> and the text of a time.
\<close>

section \<open>State\<close>

datatype node_source = RootSource | TeamSource | ManualSource | AutoSource

record thinking_node =
  bn_id :: id
  bn_space :: id
  bn_parent :: "id option"
  bn_agent :: "id option"
  bn_session :: "id option"
  bn_title :: string
  bn_source :: node_source
  bn_source_message :: "id option"
  bn_checkpoint :: string
  bn_checkpoint_at :: "time option"
  bn_inherited :: string
  bn_pending :: bool
  bn_fork_at :: "time option"
  bn_handoff :: string
  bn_returning :: "time option"
  bn_returned :: "time option"
  bn_depth :: int
  bn_order :: int
  bn_created_by :: id
  bn_created :: time
  bn_updated :: time

record thinking_space =
  ts_id :: id
  ts_channel :: id
  ts_created_by :: id

record node_message =
  nm_id :: id
  nm_channel :: id
  nm_node :: "id option"
  nm_sender_type :: string
  nm_sender :: id
  nm_content :: string
  nm_type :: string
  nm_deleted :: bool
  nm_created :: time

record node_run =
  nr_node :: "id option"
  nr_status :: run_status

record think_agent =
  ka_id :: id
  ka_name :: string
  ka_active :: bool

record think_member =
  km_channel :: id
  km_type :: string
  km_member :: id
  km_joined :: time

record think_edge =
  ke_channel :: id
  ke_from :: id
  ke_to :: id
  ke_type :: string

record think_channel =
  kc_id :: id
  kc_name :: string
  kc_archived :: bool

record think_db =
  th_channels :: "think_channel list"
  th_agents :: "think_agent list"
  th_users :: "(id \<times> string) list"
  th_members :: "think_member list"
  th_edges :: "think_edge list"
  th_spaces :: "thinking_space list"
  th_nodes :: "thinking_node list"
  th_messages :: "node_message list"
  th_runs :: "node_run list"

record think_env =
  th_now :: time
  th_uuid :: "nat \<Rightarrow> id"
  th_lower :: "string \<Rightarrow> string"
  th_parse :: "string \<Rightarrow> id option"
  th_rfc3339 :: "time \<Rightarrow> string"

datatype think_error =
    ErrThinkingNotFound | ErrThinkingLimit | ErrThinkingReturning | ErrThinkingReturned | ErrThinkingBusy
  | ErrThinkingChildren | ErrThinkingPreparing | ErrThinkingDuplicate | ThinkingText string | ThinkingDatabase

definition maxThinkingDepth :: int where
  "maxThinkingDepth = 6"

definition maxThinkingChildren :: nat where
  "maxThinkingChildren = 8"

definition maxAutoSplits :: nat where
  "maxAutoSplits = 3"

section \<open>Reading\<close>

definition space_of :: "think_db \<Rightarrow> id \<Rightarrow> thinking_space option" where
  "space_of d ch = row_by ts_channel ch (th_spaces d)"

text \<open>The join of a node with the space of a channel, and the messages of a node that are still shown.\<close>

definition in_channel :: "think_db \<Rightarrow> id \<Rightarrow> thinking_node \<Rightarrow> bool" where
  "in_channel d ch n \<longleftrightarrow> exists_row (\<lambda>s. ts_id s = bn_space n \<and> ts_channel s = ch) (th_spaces d)"

definition node_in :: "think_db \<Rightarrow> id \<Rightarrow> id \<Rightarrow> thinking_node option" where
  "node_in d ch nid = find (\<lambda>n. bn_id n = nid \<and> in_channel d ch n) (th_nodes d)"

definition shown_messages :: "think_db \<Rightarrow> id \<Rightarrow> node_message list" where
  "shown_messages d nid = filter (\<lambda>m. nm_node m = Some nid \<and> \<not> nm_deleted m) (th_messages d)"

definition children :: "think_db \<Rightarrow> id \<Rightarrow> thinking_node list" where
  "children d nid = filter (\<lambda>n. bn_parent n = Some nid) (th_nodes d)"

datatype checkpoint_status = FinalCheckpoint | MissingCheckpoint | StaleCheckpoint | FreshCheckpoint

definition stale :: "think_db \<Rightarrow> thinking_node \<Rightarrow> time \<Rightarrow> bool" where
  "stale d n at \<longleftrightarrow> exists_row (\<lambda>m. nm_sender_type m = ''agent'' \<and> at < nm_created m) (shown_messages d (bn_id n))"

definition checkpoint_status :: "think_db \<Rightarrow> thinking_node \<Rightarrow> checkpoint_status" where
  "checkpoint_status d n =
     (if bn_returned n \<noteq> None then FinalCheckpoint
      else case bn_checkpoint_at n of
             None \<Rightarrow> MissingCheckpoint
           | Some at \<Rightarrow> if bn_checkpoint n = [] then MissingCheckpoint
                        else if stale d n at then StaleCheckpoint else FreshCheckpoint)"

record node_view =
  nv_node :: thinking_node
  nv_agent_name :: string
  nv_status :: checkpoint_status
  nv_messages :: nat

definition agent_name :: "think_db \<Rightarrow> id option \<Rightarrow> string" where
  "agent_name d a =
     (case a of None \<Rightarrow> [] | Some i \<Rightarrow> (case row_by ka_id i (th_agents d) of None \<Rightarrow> [] | Some x \<Rightarrow> ka_name x))"

definition node_view :: "think_db \<Rightarrow> thinking_node \<Rightarrow> node_view" where
  "node_view d n =
     \<lparr>nv_node = n, nv_agent_name = agent_name d (bn_agent n), nv_status = checkpoint_status d n,
      nv_messages = length (shown_messages d (bn_id n))\<rparr>"

definition get_node :: "think_db \<Rightarrow> id \<Rightarrow> id \<Rightarrow> think_error + node_view" where
  "get_node d ch nid = (case node_in d ch nid of None \<Rightarrow> Inl ErrThinkingNotFound | Some n \<Rightarrow> Inr (node_view d n))"

definition get_space :: "think_db \<Rightarrow> id \<Rightarrow> think_error + (thinking_space \<times> node_view list)" where
  "get_space d ch =
     (case space_of d ch of
        None \<Rightarrow> Inl ErrThinkingNotFound
      | Some s \<Rightarrow>
          Inr (s, map (node_view d)
                 (sort_key (\<lambda>n. (bn_depth n, bn_order n, bn_created n)) (filter (\<lambda>n. bn_space n = ts_id s) (th_nodes d)))))"

section \<open>The table of nodes\<close>

text \<open>INSERT with the primary key, the two unique indexes, the length of a title, the range of a depth and the parent.\<close>

definition insert_node :: "think_env \<Rightarrow> thinking_node \<Rightarrow> think_db \<Rightarrow> think_error + think_db" where
  "insert_node e n d =
     (if exists_row (\<lambda>x. bn_id x = bn_id n) (th_nodes d) then Inl ThinkingDatabase
      else if rune_count (bn_title n) > 100 \<or> bn_depth n < 0 \<or> 6 < bn_depth n then Inl ThinkingDatabase
      else case bn_parent n of
             None \<Rightarrow>
               if exists_row (\<lambda>x. bn_space x = bn_space n \<and> bn_parent x = None) (th_nodes d) then Inl ThinkingDatabase
               else Inr (d\<lparr>th_nodes := th_nodes d @ [n]\<rparr>)
           | Some p \<Rightarrow>
               if \<not> exists_row (\<lambda>x. bn_id x = p) (th_nodes d) then Inl ThinkingDatabase
               else if exists_row (\<lambda>x. th_lower e (bn_title x) = th_lower e (bn_title n)) (children d p)
               then Inl ErrThinkingDuplicate
               else Inr (d\<lparr>th_nodes := th_nodes d @ [n]\<rparr>))"

definition set_node :: "(thinking_node \<Rightarrow> bool) \<Rightarrow> (thinking_node \<Rightarrow> thinking_node) \<Rightarrow> think_db \<Rightarrow> think_db" where
  "set_node P f d = d\<lparr>th_nodes := update_where P f (th_nodes d)\<rparr>"

text \<open>An UPDATE that must meet exactly one row.\<close>

definition set_one_node ::
  "(thinking_node \<Rightarrow> bool) \<Rightarrow> (thinking_node \<Rightarrow> thinking_node) \<Rightarrow> think_db \<Rightarrow> think_error + think_db" where
  "set_one_node P f d =
     (if count_rows P (th_nodes d) = 1 then Inr (set_node P f d) else Inl ErrThinkingNotFound)"

definition new_node :: "think_env \<Rightarrow> id \<Rightarrow> id \<Rightarrow> string \<Rightarrow> node_source \<Rightarrow> id \<Rightarrow> thinking_node" where
  "new_node e nid space title source actor =
     \<lparr>bn_id = nid, bn_space = space, bn_parent = None, bn_agent = None, bn_session = None, bn_title = title,
      bn_source = source, bn_source_message = None, bn_checkpoint = [], bn_checkpoint_at = None, bn_inherited = [],
      bn_pending = False, bn_fork_at = None, bn_handoff = [], bn_returning = None, bn_returned = None,
      bn_depth = 0, bn_order = 0, bn_created_by = actor, bn_created = th_now e, bn_updated = th_now e\<rparr>"

section \<open>The team of a new space\<close>

record team_agent =
  ta_id :: id
  ta_name :: string

definition team_member :: "think_db \<Rightarrow> id \<Rightarrow> id \<Rightarrow> bool" where
  "team_member d ch agent = exists_row (\<lambda>m. km_channel m = ch \<and> km_type m = ''agent'' \<and> km_member m = agent) (th_members d)"

definition load_thinking_team :: "think_db \<Rightarrow> id \<Rightarrow> team_agent list \<times> (id \<times> id) list" where
  "load_thinking_team d ch =
     (map snd (sort_key (\<lambda>(at, a). (at, ta_name a))
        (concat (map (\<lambda>m. map (\<lambda>a. (km_joined m, \<lparr>ta_id = ka_id a, ta_name = ka_name a\<rparr>))
                             (filter (\<lambda>a. ka_id a = km_member m \<and> ka_active a) (th_agents d)))
                     (filter (\<lambda>m. km_channel m = ch \<and> km_type m = ''agent'') (th_members d))))),
      map (\<lambda>r. (ke_from r, ke_to r))
        (filter (\<lambda>r. ke_type r = ''assigns_to'' \<and> ke_channel r = ch \<and> team_member d ch (ke_from r) \<and>
                     team_member d ch (ke_to r)) (th_edges d)))"

text \<open>\<open>byID\<close> is looked up as the list is: its keys are the ids of the agents, the last one with an id wins.\<close>

definition team_by_id :: "team_agent list \<Rightarrow> id \<Rightarrow> team_agent option" where
  "team_by_id ags i = find (\<lambda>a. ta_id a = i) (rev ags)"

definition team_edges :: "team_agent list \<Rightarrow> (id \<times> id) list \<Rightarrow> (id \<times> id) list" where
  "team_edges ags edges = filter (\<lambda>(x, y). team_by_id ags x \<noteq> None \<and> team_by_id ags y \<noteq> None) edges"

definition incoming :: "team_agent list \<Rightarrow> (id \<times> id) list \<Rightarrow> id \<Rightarrow> nat" where
  "incoming ags edges i = count_rows (\<lambda>(x, y). y = i) (team_edges ags edges)"

definition outgoing :: "team_agent list \<Rightarrow> (id \<times> id) list \<Rightarrow> id \<Rightarrow> nat" where
  "outgoing ags edges i = count_rows (\<lambda>(x, y). x = i) (team_edges ags edges)"

definition team_candidates :: "team_agent list \<Rightarrow> (id \<times> id) list \<Rightarrow> team_agent list" where
  "team_candidates ags edges =
     sort_key (\<lambda>a. (incoming ags edges (ta_id a) \<noteq> 0, - int (outgoing ags edges (ta_id a)))) ags"

definition choose_thinking_team :: "team_agent list \<Rightarrow> (id \<times> id) list \<Rightarrow> team_agent \<times> team_agent list" where
  "choose_thinking_team ags edges =
     (case team_candidates ags edges of
        [] \<Rightarrow> (\<lparr>ta_id = [], ta_name = []\<rparr>, [])
      | root # _ \<Rightarrow>
          (let assigned = List.map_filter (\<lambda>(x, y). if x = ta_id root then team_by_id ags y else None) edges
           in (root, if assigned = [] \<and> length ags > 1 then filter (\<lambda>a. ta_id a \<noteq> ta_id root) ags else assigned)))"

fun insert_team :: "think_env \<Rightarrow> id \<Rightarrow> id \<Rightarrow> id \<Rightarrow> nat \<Rightarrow> team_agent list \<Rightarrow> think_db \<Rightarrow> think_error + think_db" where
  "insert_team e space root actor i [] d = Inr d"
| "insert_team e space root actor i (c # cs) d =
     (case insert_node e ((new_node e (th_uuid e (i + 2)) space (ta_name c) TeamSource actor)
              \<lparr>bn_parent := Some root, bn_agent := Some (ta_id c), bn_depth := 1, bn_order := int i\<rparr>) d of
        Inl err \<Rightarrow> Inl err
      | Inr d1 \<Rightarrow> insert_team e space root actor (i + 1) cs d1)"

text \<open>
  The transaction of \<open>Ensure\<close>, which comes after a look for a space of its own: a space another request made
  in between makes the insertion do nothing.
\<close>

definition ensure_tx :: "think_env \<Rightarrow> id \<Rightarrow> id \<Rightarrow> think_db \<Rightarrow> think_error + think_db" where
  "ensure_tx e ch actor d =
     (case find (\<lambda>c. kc_id c = ch \<and> \<not> kc_archived c) (th_channels d) of
        None \<Rightarrow> Inl ErrThinkingNotFound
      | Some c \<Rightarrow>
          if exists_row (\<lambda>s. ts_channel s = ch) (th_spaces d) then Inr d
          else if exists_row (\<lambda>s. ts_id s = th_uuid e 0) (th_spaces d) then Inl ThinkingDatabase
          else
            (let space = th_uuid e 0;
                 d0 = d\<lparr>th_spaces := th_spaces d @ [\<lparr>ts_id = space, ts_channel = ch, ts_created_by = actor\<rparr>]\<rparr>;
                 (root, team) = (case load_thinking_team d ch of (ags, edges) \<Rightarrow> choose_thinking_team ags edges)
             in case insert_node e ((new_node e (th_uuid e 1) space (kc_name c) RootSource actor)
                                     \<lparr>bn_agent := nullable (ta_id root)\<rparr>) d0 of
                  Inl err \<Rightarrow> Inl err
                | Inr d1 \<Rightarrow> insert_team e space (th_uuid e 1) actor 0 team d1))"

definition ensure :: "think_env \<Rightarrow> id \<Rightarrow> id \<Rightarrow> think_db \<Rightarrow> think_error + think_db" where
  "ensure e ch actor d = (case space_of d ch of Some _ \<Rightarrow> Inr d | None \<Rightarrow> ensure_tx e ch actor d)"

section \<open>Forking\<close>

definition title_ok :: "string \<Rightarrow> bool" where
  "title_ok title \<longleftrightarrow> title \<noteq> [] \<and> rune_count title \<le> 100"

definition bad_title :: think_error where
  "bad_title = ThinkingText ''thinking node title must be between 1 and 100 characters''"

definition sender_name :: "think_db \<Rightarrow> node_message \<Rightarrow> string" where
  "sender_name d m =
     (if nm_sender_type m = ''system'' then ''Solo''
      else case (if nm_sender_type m = ''user'' then row_by fst (nm_sender m) (th_users d) else None) of
             Some u \<Rightarrow> snd u
           | None \<Rightarrow>
               (case (if nm_sender_type m = ''agent'' then row_by ka_id (nm_sender m) (th_agents d) else None) of
                  Some a \<Rightarrow> ka_name a
                | None \<Rightarrow> ''Unknown''))"

text \<open>The transaction of \<open>CreateFromMessage\<close>; the numbers of its UUIDs follow those of \<open>Ensure\<close>.\<close>

definition create_from_message_tx :: "think_env \<Rightarrow> id \<Rightarrow> id \<Rightarrow> id \<Rightarrow> string \<Rightarrow> id \<Rightarrow> think_db \<Rightarrow> think_error + think_db" where
  "create_from_message_tx e nid ch mid title actor d =
     (case find (\<lambda>m. nm_id m = mid \<and> nm_channel m = ch \<and> nm_node m = None \<and> \<not> nm_deleted m) (th_messages d) of
        None \<Rightarrow> Inl ErrThinkingNotFound
      | Some m \<Rightarrow>
          (case find (\<lambda>n. bn_parent n = None \<and> in_channel d ch n) (th_nodes d) of
             None \<Rightarrow> Inl ThinkingDatabase
           | Some root \<Rightarrow>
               if maxThinkingChildren \<le> length (children d (bn_id root)) then Inl ErrThinkingLimit
               else insert_node e ((new_node e nid (bn_space root) title ManualSource actor)
                      \<lparr>bn_parent := Some (bn_id root), bn_agent := bn_agent root, bn_source_message := Some mid,
                       bn_inherited := ''Source message from '' @ sender_name d m @ '' at '' @ th_rfc3339 e (nm_created m) @
                                       '':'' @ [CHR 0x0A] @ nm_content m,
                       bn_depth := 1, bn_order := int (length (children d (bn_id root)))\<rparr>) d))"

definition create_from_message :: "think_env \<Rightarrow> id \<Rightarrow> id \<Rightarrow> id \<Rightarrow> string \<Rightarrow> id \<Rightarrow> think_db \<Rightarrow> (think_error \<times> think_db) + think_db" where
  "create_from_message e nid ch mid text actor d =
     (let title = trim_space text
      in if \<not> title_ok title then Inl (bad_title, d)
         else case ensure e ch actor d of
                Inl err \<Rightarrow> Inl (err, d)
              | Inr d1 \<Rightarrow>
                  (case create_from_message_tx e nid ch mid title actor d1 of
                     Inl err \<Rightarrow> Inl (err, d1)
                   | Inr d2 \<Rightarrow> Inr d2))"

definition create_child :: "think_env \<Rightarrow> id \<Rightarrow> id \<Rightarrow> id \<Rightarrow> string \<Rightarrow> id \<Rightarrow> string \<Rightarrow> think_db \<Rightarrow> think_error + think_db" where
  "create_child e nid ch pid text actor source d =
     (let title = trim_space text
      in if \<not> title_ok title then Inl bad_title
         else case node_in d ch pid of
                None \<Rightarrow> Inl ErrThinkingNotFound
              | Some p \<Rightarrow>
                  if bn_returned p \<noteq> None then Inl ErrThinkingReturned
                  else if bn_returning p \<noteq> None then Inl ErrThinkingReturning
                  else if bn_pending p then Inl ErrThinkingPreparing
                  else if maxThinkingDepth \<le> bn_depth p then Inl ErrThinkingLimit
                  else if bn_depth p = 0 \<and> exists_row (\<lambda>c. bn_source c = TeamSource) (children d pid) then Inl ErrThinkingLimit
                  else if maxThinkingChildren \<le> length (children d pid) then Inl ErrThinkingLimit
                  else insert_node e ((new_node e nid (bn_space p) title
                           (if source = ''auto'' then AutoSource else ManualSource) actor)
                         \<lparr>bn_parent := Some (bn_id p), bn_agent := bn_agent p,
                          bn_pending := bn_agent p \<noteq> None \<and> shown_messages d pid \<noteq> [],
                          bn_depth := bn_depth p + 1, bn_order := int (length (children d pid))\<rparr>) d)"

definition complete_fork_handoff ::
  "think_env \<Rightarrow> id \<Rightarrow> id \<Rightarrow> id \<Rightarrow> id \<Rightarrow> string \<Rightarrow> think_db \<Rightarrow> think_error + think_db" where
  "complete_fork_handoff e ch pid cid agent text d =
     (let handoff = trim_space text
      in if handoff = [] then Inl (ThinkingText ''fork handoff is empty'')
         else set_one_node
                (\<lambda>c. bn_id c = cid \<and> bn_parent c = Some pid \<and> in_channel d ch c \<and>
                     exists_row (\<lambda>p. bn_id p = pid \<and> bn_agent p = Some agent \<and> bn_returning p = None \<and> bn_returned p = None)
                       (th_nodes d) \<and>
                     bn_pending c \<and> bn_returned c = None \<and>
                     \<not> exists_row (\<lambda>m. nm_node m = Some cid) (th_messages d))
                (\<lambda>c. c\<lparr>bn_inherited := handoff, bn_pending := False, bn_fork_at := Some (th_now e), bn_updated := th_now e\<rparr>) d)"

section \<open>The current state of a branch\<close>

definition save_checkpoint_handoff :: "think_env \<Rightarrow> id \<Rightarrow> id \<Rightarrow> id \<Rightarrow> string \<Rightarrow> think_db \<Rightarrow> think_error + think_db" where
  "save_checkpoint_handoff e ch nid agent text d =
     (let handoff = trim_space text
      in if handoff = [] then Inl (ThinkingText ''checkpoint handoff is empty'')
         else set_one_node
                (\<lambda>n. bn_id n = nid \<and> in_channel d ch n \<and> bn_agent n = Some agent \<and> bn_returning n = None \<and>
                     bn_returned n = None \<and> \<not> bn_pending n)
                (\<lambda>n. n\<lparr>bn_checkpoint := handoff, bn_checkpoint_at := Some (th_now e), bn_updated := th_now e\<rparr>) d)"

definition has_active_run :: "think_db \<Rightarrow> id \<Rightarrow> bool" where
  "has_active_run d nid = exists_row (\<lambda>r. nr_node r = Some nid \<and> is_active_agent_run_status (nr_status r)) (th_runs d)"

text \<open>What \<open>PrepareCheckpointRefresh\<close> and \<open>BeginReturn\<close> refuse alike.\<close>

definition refused_by_phase :: "thinking_node \<Rightarrow> think_error option" where
  "refused_by_phase n =
     (if bn_returned n \<noteq> None then Some ErrThinkingReturned
      else if bn_returning n \<noteq> None then Some ErrThinkingReturning
      else if bn_pending n then Some ErrThinkingPreparing else None)"

definition prepare_checkpoint_refresh :: "id \<Rightarrow> id \<Rightarrow> think_db \<Rightarrow> think_error + think_db" where
  "prepare_checkpoint_refresh ch nid d =
     (case node_in d ch nid of
        None \<Rightarrow> Inl ErrThinkingNotFound
      | Some n \<Rightarrow>
          (case refused_by_phase n of
             Some err \<Rightarrow> Inl err
           | None \<Rightarrow>
               if bn_agent n = None \<or> shown_messages d nid = []
               then Inl (ThinkingText ''node needs an assigned Agent and conversation before refreshing Current State'')
               else if has_active_run d nid then Inl ErrThinkingBusy else Inr d))"

section \<open>Returning\<close>

definition begin_return :: "think_env \<Rightarrow> id \<Rightarrow> id \<Rightarrow> think_db \<Rightarrow> think_error + think_db" where
  "begin_return e ch nid d =
     (case node_in d ch nid of
        None \<Rightarrow> Inl ErrThinkingNotFound
      | Some n \<Rightarrow>
          (case refused_by_phase n of
             Some err \<Rightarrow> Inl err
           | None \<Rightarrow>
               if bn_parent n = None \<or> bn_agent n = None \<or> shown_messages d nid = []
               then Inl (ThinkingText ''node needs a parent, assigned Agent, and conversation before return'')
               else if exists_row (\<lambda>c. bn_returned c = None) (children d nid) then Inl ErrThinkingChildren
               else if has_active_run d nid then Inl ErrThinkingBusy
               else Inr (set_node (\<lambda>x. bn_id x = nid)
                           (\<lambda>x. x\<lparr>bn_returning := Some (th_now e), bn_updated := th_now e\<rparr>) d)))"

definition return_message :: "think_env \<Rightarrow> id \<Rightarrow> id \<Rightarrow> thinking_node \<Rightarrow> id \<Rightarrow> string \<Rightarrow> node_message" where
  "return_message e mid ch n pid handoff =
     \<lparr>nm_id = mid, nm_channel = ch, nm_node = Some pid, nm_sender_type = ''system'',
      nm_sender = ''00000000-0000-0000-0000-000000000000'',
      nm_content = ''Handoff returned from '' @ bn_title n @ '':'' @ [CHR 0x0A] @ handoff,
      nm_type = ''thinking_handoff'', nm_deleted = False, nm_created = th_now e\<rparr>"

definition complete_return :: "think_env \<Rightarrow> id \<Rightarrow> id \<Rightarrow> id \<Rightarrow> id \<Rightarrow> string \<Rightarrow> think_db \<Rightarrow> think_error + think_db" where
  "complete_return e mid ch nid agent text d =
     (let handoff = trim_space text
      in if handoff = [] then Inl (ThinkingText ''handoff is empty'')
         else case node_in d ch nid of
                None \<Rightarrow> Inl ErrThinkingNotFound
              | Some n \<Rightarrow>
                  if bn_returned n \<noteq> None then Inl ErrThinkingReturned
                  else if bn_returning n = None \<or> coalesce (bn_agent n) \<noteq> agent then Inl ErrThinkingReturning
                  else (case bn_parent n of
                          None \<Rightarrow> Inl ThinkingDatabase
                        | Some pid \<Rightarrow>
                            if exists_row (\<lambda>m. nm_id m = mid) (th_messages d) then Inl ThinkingDatabase
                            else Inr (let d1 = set_node (\<lambda>x. bn_id x = nid)
                                          (\<lambda>x. x\<lparr>bn_handoff := handoff, bn_returning := None,
                                                 bn_returned := Some (th_now e), bn_updated := th_now e\<rparr>) d
                                      in d1\<lparr>th_messages := th_messages d1 @ [return_message e mid ch n pid handoff]\<rparr>)))"

text \<open>\<open>CancelReturn\<close>, which also tells whether it changed anything, and the trigger of migration 76.\<close>

definition cancel_return :: "think_env \<Rightarrow> id \<Rightarrow> think_db \<Rightarrow> think_db \<times> bool" where
  "cancel_return e nid d =
     (let P = (\<lambda>n. bn_id n = nid \<and> bn_returning n \<noteq> None \<and> bn_returned n = None)
      in (set_node P (\<lambda>n. n\<lparr>bn_returning := None, bn_updated := th_now e\<rparr>) d, count_rows P (th_nodes d) = 1))"

definition release_cancelled_inbox_return :: "think_env \<Rightarrow> id \<Rightarrow> id \<Rightarrow> think_db \<Rightarrow> think_db" where
  "release_cancelled_inbox_return e nid agent d =
     set_node (\<lambda>n. bn_id n = nid \<and> bn_agent n = Some agent \<and> bn_returned n = None)
       (\<lambda>n. n\<lparr>bn_returning := None, bn_updated := th_now e\<rparr>) d"

text \<open>
  The session a run of a branch resumes (\<open>service/agent_run.go\<close>); the column is unique. The error here is the
  text of the service.
\<close>

definition bind_node_session :: "think_env \<Rightarrow> id \<Rightarrow> id \<Rightarrow> id \<Rightarrow> think_db \<Rightarrow> think_error + think_db" where
  "bind_node_session e session nid agent d =
     (let P = (\<lambda>n. bn_id n = nid \<and> bn_agent n = Some agent)
      in if count_rows P (th_nodes d) \<noteq> 1 then Inl (ThinkingText ''thinking node session owner mismatch'')
         else if exists_row (\<lambda>n. bn_session n = Some session \<and> bn_id n \<noteq> nid) (th_nodes d) then Inl ThinkingDatabase
         else Inr (set_node P (\<lambda>n. n\<lparr>bn_session := Some session, bn_updated := th_now e\<rparr>) d))"

section \<open>Protocol messages\<close>

datatype handoff_kind = CheckpointHandoff | ReturnHandoff | ForkHandoff id

record handoff_protocol =
  hp_kind :: handoff_kind
  hp_content :: string

text \<open>\<open>strings.Cut\<close> at the first line end, \<open>strings.HasSuffix\<close> and \<open>strings.TrimSuffix\<close>.\<close>

definition cut_line :: "string \<Rightarrow> (string \<times> string) option" where
  "cut_line s =
     (if CHR 0x0A \<in> set s
      then Some (takeWhile (\<lambda>c. c \<noteq> CHR 0x0A) s, tl (dropWhile (\<lambda>c. c \<noteq> CHR 0x0A) s)) else None)"

definition cut_suffix :: "string \<Rightarrow> string \<Rightarrow> string option" where
  "cut_suffix p s = map_option rev (cut_prefix (rev p) (rev s))"

definition handoff_kind_of :: "(string \<Rightarrow> id option) \<Rightarrow> string \<Rightarrow> handoff_kind option" where
  "handoff_kind_of parse first =
     (if first = ''[[handoff:checkpoint]]'' then Some CheckpointHandoff
      else if first = ''[[handoff:return]]'' then Some ReturnHandoff
      else case cut_prefix ''[[handoff:fork:'' first of
             None \<Rightarrow> None
           | Some rest \<Rightarrow>
               (case cut_suffix '']]'' rest of
                  None \<Rightarrow> None
                | Some target \<Rightarrow> if parse target = None then None else Some (ForkHandoff target)))"

definition parse_thinking_handoff_protocol :: "(string \<Rightarrow> id option) \<Rightarrow> string \<Rightarrow> handoff_protocol option" where
  "parse_thinking_handoff_protocol parse content =
     (case cut_line (trim_space content) of
        None \<Rightarrow> None
      | Some (first, body) \<Rightarrow>
          if blank body then None
          else map_option (\<lambda>k. \<lparr>hp_kind = k, hp_content = trim_space body\<rparr>) (handoff_kind_of parse first))"

section \<open>Split directives\<close>

text \<open>
  The regular expression \<open>splitDirective\<close> on a valid UTF-8 text, at the beginning of a line: the blanks, the
  title up to the first bracket, and the blanks to the end of the line are determined, as no part of the title
  may be a bracket or a line end. When only blanks stand before the brackets the last one is the title. The
  match ends before the last line end of the blanks that follow, or with the text.
\<close>

definition re_space :: "char \<Rightarrow> bool" where
  "re_space c \<longleftrightarrow> c \<in> {CHR 0x09, CHR 0x0A, CHR 0x0C, CHR 0x0D, CHR 0x20}"

definition split_title :: "string \<Rightarrow> string \<Rightarrow> string option" where
  "split_title gap g =
     (if g \<noteq> [] then (if rune_count g \<le> 100 then Some g else None)
      else if gap \<noteq> [] \<and> last gap \<noteq> CHR 0x0A then Some [last gap] else None)"

definition before_last_line_end :: "string \<Rightarrow> nat option" where
  "before_last_line_end c =
     (if CHR 0x0A \<in> set c then Some (length c - 1 - length (takeWhile (\<lambda>x. x \<noteq> CHR 0x0A) (rev c))) else None)"

definition match_split :: "string \<Rightarrow> (string \<times> nat) option" where
  "match_split s =
     (let lead = takeWhile re_space s
      in case cut_prefix ''[[split:'' (drop (length lead) s) of
           None \<Rightarrow> None
         | Some r1 \<Rightarrow>
             (let gap = takeWhile re_space r1; r2 = drop (length gap) r1;
                  g = takeWhile (\<lambda>c. c \<noteq> CHR '']'' \<and> c \<noteq> CHR 0x0A) r2
              in case cut_prefix '']]'' (drop (length g) r2) of
                   None \<Rightarrow> None
                 | Some r3 \<Rightarrow>
                     (case split_title gap g of
                        None \<Rightarrow> None
                      | Some t \<Rightarrow>
                          (let trail = takeWhile re_space r3
                           in case (if length trail = length r3 then Some (length trail) else before_last_line_end trail) of
                                None \<Rightarrow> None
                              | Some k \<Rightarrow> Some (t, length lead + 8 + length gap + length g + 2 + k)))))"

lemma match_split_pos: "match_split s = Some (t, n) \<Longrightarrow> 0 < n"
  by (auto simp: match_split_def Let_def split: option.splits if_splits)

text \<open>The replacement; \<open>k\<close> titles may still be taken, \<open>bol\<close> tells whether a line begins here.\<close>

function extract_splits :: "nat \<Rightarrow> bool \<Rightarrow> string \<Rightarrow> string \<times> string list" where
  "extract_splits k bol [] = ([], [])"
| "extract_splits k bol (c # s) =
     (case (if bol then match_split (c # s) else None) of
        None \<Rightarrow> (case extract_splits k (c = CHR 0x0A) s of (out, ts) \<Rightarrow> (c # out, ts))
      | Some (t, n) \<Rightarrow>
          (let marker = take n (c # s); next = (last marker = CHR 0x0A); rest = drop n (c # s)
           in if k = 0 then (case extract_splits k next rest of (out, ts) \<Rightarrow> (marker @ out, ts))
              else if blank t then extract_splits k next rest
              else (case extract_splits (k - 1) next rest of (out, ts) \<Rightarrow> (out, trim_space t # ts))))"
  by pat_completeness auto
termination
  by (relation "measure (\<lambda>(k, bol, s). length s)") (auto dest!: match_split_pos split: if_splits)

lemmas [simp del] = extract_splits.simps(2)

definition extract_thinking_splits :: "string \<Rightarrow> string \<times> string list" where
  "extract_thinking_splits content =
     (case extract_splits maxAutoSplits True content of (clean, titles) \<Rightarrow> (trim_space clean, titles))"

section \<open>Sending to a branch\<close>

text \<open>\<open>strings.Join\<close>.\<close>

fun join_with :: "string \<Rightarrow> string list \<Rightarrow> string" where
  "join_with sep [] = []"
| "join_with sep [x] = x"
| "join_with sep (x # y # zs) = x @ sep @ join_with sep (y # zs)"

definition can_post_to_thinking_node :: "string \<Rightarrow> id \<Rightarrow> id \<Rightarrow> bool" where
  "can_post_to_thinking_node sender_type sender agent \<longleftrightarrow> sender_type \<noteq> ''agent'' \<or> sender = agent"

datatype node_post = NodeProtocol handoff_protocol | NodeMessage string "string list"

text \<open>What a message handler decides about a message for a branch, before any lock is taken.\<close>

definition check_node_post ::
  "think_env \<Rightarrow> id \<Rightarrow> id \<Rightarrow> string \<Rightarrow> id \<Rightarrow> string \<Rightarrow> think_db \<Rightarrow> think_error + node_post" where
  "check_node_post e ch nid sender_type sender content d =
     (case get_node d ch nid of
        Inl err \<Rightarrow> Inl ErrThinkingNotFound
      | Inr v \<Rightarrow>
          (let n = nv_node v; returning = bn_returning n \<noteq> None;
               protocol = parse_thinking_handoff_protocol (th_parse e) content
           in if bn_returned n \<noteq> None then Inl ErrThinkingReturned
              else if bn_pending n then Inl ErrThinkingPreparing
              else if returning \<and> sender_type \<noteq> ''agent'' then Inl ErrThinkingReturning
              else if sender_type \<noteq> ''agent'' then Inr (NodeMessage content [])
              else if \<not> can_post_to_thinking_node sender_type sender (coalesce (bn_agent n))
              then Inl (ThinkingText ''agent is not assigned to this thinking node'')
              else if returning \<and> map_option hp_kind protocol \<noteq> Some ReturnHandoff
              then Inl (ThinkingText ''thinking return requires the handoff protocol'')
              else if \<not> returning \<and> map_option hp_kind protocol = Some ReturnHandoff
              then Inl (ThinkingText ''thinking node is not returning'')
              else (case protocol of
                      Some p \<Rightarrow> Inr (NodeProtocol p)
                    | None \<Rightarrow>
                        (case extract_thinking_splits content of
                           (clean, titles) \<Rightarrow>
                             Inr (NodeMessage (if clean = [] \<and> titles \<noteq> []
                                               then ''Split into: '' @ join_with '', '' titles else clean) titles)))))"

definition canonical :: "think_env \<Rightarrow> string \<Rightarrow> id" where
  "canonical e s = (case th_parse e s of None \<Rightarrow> s | Some i \<Rightarrow> i)"

definition deliver_protocol ::
  "think_env \<Rightarrow> id \<Rightarrow> id \<Rightarrow> id \<Rightarrow> id \<Rightarrow> handoff_protocol \<Rightarrow> think_db \<Rightarrow> think_error + think_db" where
  "deliver_protocol e mid ch nid agent p d =
     (case hp_kind p of
        CheckpointHandoff \<Rightarrow> save_checkpoint_handoff e ch nid agent (hp_content p) d
      | ForkHandoff target \<Rightarrow> complete_fork_handoff e ch nid (canonical e target) agent (hp_content p) d
      | ReturnHandoff \<Rightarrow> complete_return e mid ch nid agent (hp_content p) d)"

definition insert_node_message ::
  "think_env \<Rightarrow> id \<Rightarrow> id \<Rightarrow> id \<Rightarrow> string \<Rightarrow> id \<Rightarrow> string \<Rightarrow> think_db \<Rightarrow> think_error + think_db" where
  "insert_node_message e mid ch nid sender_type sender content d =
     (if exists_row (\<lambda>m. nm_id m = mid) (th_messages d) \<or> \<not> exists_row (\<lambda>n. bn_id n = nid) (th_nodes d)
      then Inl ThinkingDatabase
      else Inr (d\<lparr>th_messages := th_messages d @
             [\<lparr>nm_id = mid, nm_channel = ch, nm_node = Some nid, nm_sender_type = sender_type, nm_sender = sender,
               nm_content = content, nm_type = ''text'', nm_deleted = False, nm_created = th_now e\<rparr>]\<rparr>))"

text \<open>The branches a message of an agent asks for; a branch that cannot be made is only logged.\<close>

fun split_branches :: "think_env \<Rightarrow> id \<Rightarrow> id \<Rightarrow> id \<Rightarrow> nat \<Rightarrow> string list \<Rightarrow> think_db \<Rightarrow> think_db" where
  "split_branches e ch nid agent i [] d = d"
| "split_branches e ch nid agent i (t # ts) d =
     split_branches e ch nid agent (i + 1) ts
       (case create_child e (th_uuid e i) ch nid t agent ''auto'' d of Inl _ \<Rightarrow> d | Inr d1 \<Rightarrow> d1)"

definition write_node_post ::
  "think_env \<Rightarrow> id \<Rightarrow> id \<Rightarrow> string \<Rightarrow> id \<Rightarrow> node_post \<Rightarrow> think_db \<Rightarrow> think_error + think_db" where
  "write_node_post e ch nid sender_type sender p d =
     (case p of
        NodeProtocol q \<Rightarrow> deliver_protocol e (th_uuid e 0) ch nid sender q d
      | NodeMessage content titles \<Rightarrow>
          (case insert_node_message e (th_uuid e 0) ch nid sender_type sender content d of
             Inl err \<Rightarrow> Inl err
           | Inr d1 \<Rightarrow> Inr (split_branches e ch nid sender 1 titles d1)))"

section \<open>What an agent is told in its branch\<close>

definition handoff_lines :: "(thinking_node \<Rightarrow> string) \<Rightarrow> thinking_node list \<Rightarrow> string list" where
  "handoff_lines text ns = map (\<lambda>n. ''- '' @ bn_title n @ '': '' @ text n) ns"

definition sibling_text :: "think_db \<Rightarrow> thinking_node \<Rightarrow> string" where
  "sibling_text d n =
     (case checkpoint_status d n of
        FinalCheckpoint \<Rightarrow>
          ''[final Handoff]'' @ (if bn_handoff n = [] then '' unavailable'' else CHR 0x0A # bn_handoff n)
      | MissingCheckpoint \<Rightarrow> ''[active; Current State not published]''
      | StaleCheckpoint \<Rightarrow> ''[active; Current State may need refresh]'' @ CHR 0x0A # bn_checkpoint n
      | FreshCheckpoint \<Rightarrow> ''[active; Current State current]'' @ CHR 0x0A # bn_checkpoint n)"

definition sibling_branches :: "think_db \<Rightarrow> thinking_node \<Rightarrow> thinking_node list" where
  "sibling_branches d n =
     (case bn_parent n of
        None \<Rightarrow> []
      | Some p \<Rightarrow> sort_key bn_order (filter (\<lambda>s. bn_id s \<noteq> bn_id n) (children d p)))"

definition returned_children :: "think_db \<Rightarrow> id \<Rightarrow> thinking_node list" where
  "returned_children d nid =
     take 8 (sort_key (\<lambda>c. case bn_returned c of None \<Rightarrow> (True, 0) | Some at \<Rightarrow> (False, - at))
       (filter (\<lambda>c. bn_handoff c \<noteq> []) (children d nid)))"

definition joined_lines :: "string list \<Rightarrow> string" where
  "joined_lines ls = join_with [CHR 0x0A] ls"

definition turn_context :: "think_db \<Rightarrow> thinking_node \<Rightarrow> string" where
  "turn_context d n =
     (let inherited = bn_inherited n;
          parent = (case bn_parent n of None \<Rightarrow> [] | Some p \<Rightarrow>
                      (case row_by bn_id p (th_nodes d) of None \<Rightarrow> [] | Some x \<Rightarrow> bn_checkpoint x));
          siblings = handoff_lines (sibling_text d) (sibling_branches d n);
          returned = handoff_lines bn_handoff (returned_children d (bn_id n));
          nl = [CHR 0x0A]
      in trim_space
           ((if inherited \<noteq> [] then ''Fork Handoff prepared for this node:'' @ nl @ inherited @ nl
             else if parent \<noteq> [] then ''Parent checkpoint Handoff:'' @ nl @ parent @ nl else []) @
            (if siblings \<noteq> [] then nl @ ''Sibling branch awareness (do not treat as raw dialogue):'' @ nl @
               joined_lines siblings @ nl else []) @
            (if returned \<noteq> [] then nl @ ''Handoffs returned by child nodes:'' @ nl @ joined_lines returned @ nl else [])))"

end
