(* ===== verification/Thinking_Theorems.thy ===== *)
theory Thinking_Theorems
  imports Thinking "HOL-Library.Multiset"
begin

text \<open>
  Properties of thinking spaces: the branches of a channel stay a tree, branches return bottom up and each
  handoff arrives in the parent's conversation exactly once, every branch only ever moves along the phases
  preparing, active, returning and returned, and what the texts of agents are parsed into.
\<close>

section \<open>The invariant\<close>

text \<open>What an update of a branch never touches.\<close>

definition frame :: "thinking_node \<Rightarrow> id \<times> id \<times> id option \<times> string \<times> node_source \<times> int \<times> int" where
  "frame n = (bn_id n, bn_space n, bn_parent n, bn_title n, bn_source n, bn_depth n, bn_order n)"

definition hangs :: "think_db \<Rightarrow> thinking_node \<Rightarrow> bool" where
  "hangs d n \<longleftrightarrow>
     (\<exists>s \<in> set (th_spaces d). ts_id s = bn_space n) \<and> 0 \<le> bn_depth n \<and> bn_depth n \<le> maxThinkingDepth \<and>
     (case bn_parent n of
        None \<Rightarrow> bn_depth n = 0
      | Some p \<Rightarrow> \<exists>x \<in> set (th_nodes d). bn_id x = p \<and> bn_space x = bn_space n \<and> bn_depth n = bn_depth x + 1)"

definition single_root :: "thinking_node list \<Rightarrow> bool" where
  "single_root ns \<longleftrightarrow>
     (\<forall>n \<in> set ns. \<forall>m \<in> set ns. bn_parent n = None \<and> bn_parent m = None \<and> bn_space n = bn_space m \<longrightarrow> bn_id n = bn_id m)"

definition tree_ok :: "(string \<Rightarrow> string) \<Rightarrow> think_db \<Rightarrow> bool" where
  "tree_ok lw d \<longleftrightarrow>
     keyed bn_id (th_nodes d) \<and> keyed ts_id (th_spaces d) \<and> keyed ts_channel (th_spaces d) \<and>
     (\<forall>n \<in> set (th_nodes d). hangs d n) \<and>
     single_root (th_nodes d) \<and>
     (\<forall>p. distinct (map (lw \<circ> bn_title) (children d p)) \<and>
          map bn_order (children d p) = map int [0..<length (children d p)])"

definition settled :: "think_db \<Rightarrow> thinking_node \<Rightarrow> bool" where
  "settled d n \<longleftrightarrow> bn_parent n \<noteq> None \<and> \<not> bn_pending n \<and>
     (\<forall>c \<in> set (th_nodes d). bn_parent c = Some (bn_id n) \<longrightarrow> bn_returned c \<noteq> None)"

definition phases_ok :: "think_db \<Rightarrow> bool" where
  "phases_ok d \<longleftrightarrow>
     (\<forall>n \<in> set (th_nodes d).
        (bn_returning n \<noteq> None \<or> bn_returned n \<noteq> None \<longrightarrow> settled d n) \<and>
        (bn_returned n \<noteq> None \<longrightarrow> bn_returning n = None) \<and>
        (bn_returned n \<noteq> None \<longleftrightarrow> bn_handoff n \<noteq> []) \<and>
        (bn_pending n \<longrightarrow> bn_parent n \<noteq> None \<and> (\<forall>c \<in> set (th_nodes d). bn_parent c \<noteq> Some (bn_id n))))"

text \<open>The messages by which handoffs arrive at a branch, and the handoffs its branches returned.\<close>

definition handoff_note :: "thinking_node \<Rightarrow> string" where
  "handoff_note c = ''Handoff returned from '' @ bn_title c @ '':'' @ [CHR 0x0A] @ bn_handoff c"

definition arrived :: "think_db \<Rightarrow> id \<Rightarrow> string multiset" where
  "arrived d p =
     mset (map nm_content (filter (\<lambda>m. nm_node m = Some p \<and> nm_type m = ''thinking_handoff'') (th_messages d)))"

definition returned_to :: "think_db \<Rightarrow> id \<Rightarrow> string multiset" where
  "returned_to d p = mset (map handoff_note (filter (\<lambda>c. bn_returned c \<noteq> None) (children d p)))"

definition notes_ok :: "think_db \<Rightarrow> bool" where
  "notes_ok d \<longleftrightarrow>
     (\<forall>m \<in> set (th_messages d). \<forall>p. nm_node m = Some p \<longrightarrow> p \<in> bn_id ` set (th_nodes d)) \<and>
     (\<forall>p. arrived d p = returned_to d p)"

definition think_inv :: "(string \<Rightarrow> string) \<Rightarrow> think_db \<Rightarrow> bool" where
  "think_inv lw d \<longleftrightarrow> tree_ok lw d \<and> phases_ok d \<and> notes_ok d"

lemma unique_node: "tree_ok lw d \<Longrightarrow> x \<in> set (th_nodes d) \<Longrightarrow> n \<in> set (th_nodes d) \<Longrightarrow> bn_id x = bn_id n \<Longrightarrow> x = n"
  using keyed_unique [of bn_id "th_nodes d" x n] by (simp add: tree_ok_def)

lemma one_root: "tree_ok lw d \<Longrightarrow> n \<in> set (th_nodes d) \<Longrightarrow> m \<in> set (th_nodes d) \<Longrightarrow> bn_parent n = None \<Longrightarrow>
    bn_parent m = None \<Longrightarrow> bn_space n = bn_space m \<Longrightarrow> bn_id n = bn_id m"
  unfolding tree_ok_def single_root_def by blast

lemma phase_facts:
  assumes "phases_ok d" and "n \<in> set (th_nodes d)"
  shows "bn_returning n \<noteq> None \<or> bn_returned n \<noteq> None \<Longrightarrow> settled d n" "bn_returned n \<noteq> None \<Longrightarrow> bn_returning n = None"
    "bn_returned n \<noteq> None \<longleftrightarrow> bn_handoff n \<noteq> []" "bn_pending n \<Longrightarrow> bn_parent n \<noteq> None"
    "bn_pending n \<Longrightarrow> c \<in> set (th_nodes d) \<Longrightarrow> bn_parent c \<noteq> Some (bn_id n)"
  using assms by (auto simp: phases_ok_def)

section \<open>Inserting a branch\<close>

definition new_branch :: "think_db \<Rightarrow> thinking_node \<Rightarrow> bool" where
  "new_branch d n \<longleftrightarrow>
     (\<exists>s \<in> set (th_spaces d). ts_id s = bn_space n) \<and>
     bn_returning n = None \<and> bn_returned n = None \<and> bn_handoff n = [] \<and>
     (case bn_parent n of
        None \<Rightarrow> bn_depth n = 0 \<and> \<not> bn_pending n
      | Some p \<Rightarrow> bn_order n = int (length (children d p)) \<and>
          (\<exists>x \<in> set (th_nodes d). bn_id x = p \<and> bn_space x = bn_space n \<and> bn_depth n = bn_depth x + 1 \<and>
             bn_returning x = None \<and> bn_returned x = None \<and> \<not> bn_pending x))"

lemma insert_node_result:
  assumes "insert_node e n d = Inr d'"
  shows "d' = d\<lparr>th_nodes := th_nodes d @ [n]\<rparr>" "bn_id n \<notin> bn_id ` set (th_nodes d)" "0 \<le> bn_depth n \<and> bn_depth n \<le> maxThinkingDepth"
    "bn_parent n = None \<Longrightarrow> x \<in> set (th_nodes d) \<Longrightarrow> bn_parent x = None \<Longrightarrow> bn_space x \<noteq> bn_space n"
    "bn_parent n = Some p \<Longrightarrow> x \<in> set (children d p) \<Longrightarrow> th_lower e (bn_title x) \<noteq> th_lower e (bn_title n)"
  using assms by (auto simp: insert_node_def exists_row_iff maxThinkingDepth_def split: if_splits option.splits)

lemma children_insert:
  "children (d\<lparr>th_nodes := th_nodes d @ [n]\<rparr>) p = children d p @ (if bn_parent n = Some p then [n] else [])"
  by (simp add: children_def)

lemma hangs_insert: "hangs d n \<Longrightarrow> hangs (d\<lparr>th_nodes := th_nodes d @ [m]\<rparr>) n"
  by (auto simp: hangs_def split: option.splits)

lemma parent_exists: "tree_ok lw d \<Longrightarrow> c \<in> set (th_nodes d) \<Longrightarrow> bn_parent c = Some p \<Longrightarrow> p \<in> bn_id ` set (th_nodes d)"
  by (force simp: tree_ok_def hangs_def)

lemma children_gone: "tree_ok lw d \<Longrightarrow> p \<notin> bn_id ` set (th_nodes d) \<Longrightarrow> children d p = []"
  using parent_exists by (fastforce simp: children_def filter_empty_conv)

lemma tree_insert:
  assumes ok: "tree_ok lw d" and ins: "insert_node e n d = Inr d'" and lw: "th_lower e = lw" and new: "new_branch d n"
  shows "tree_ok lw d'"
proof -
  note res = insert_node_result [OF ins]
  have h: "hangs d' n"
    using new res(1,3) by (auto simp: hangs_def new_branch_def split: option.splits)
  have sib: "distinct (map (lw \<circ> bn_title) (children d' p)) \<and>
      map bn_order (children d' p) = map int [0..<length (children d' p)]" for p
  proof (cases "bn_parent n = Some p")
    case True
    then have "lw (bn_title n) \<notin> (lw \<circ> bn_title) ` set (children d p)" using res(5) [OF True] lw by (metis comp_apply imageE)
    moreover have "bn_order n = int (length (children d p))" using new True by (simp add: new_branch_def)
    ultimately show ?thesis using ok True unfolding res(1) children_insert by (simp add: tree_ok_def)
  next
    case False
    then show ?thesis using ok unfolding res(1) children_insert by (simp add: tree_ok_def)
  qed
  have "hangs d' x" if "x \<in> set (th_nodes d')" for x
    using that ok h hangs_insert by (auto simp: tree_ok_def res(1))
  moreover have "bn_id x = bn_id y"
    if "x \<in> set (th_nodes d')" "y \<in> set (th_nodes d')" "bn_parent x = None" "bn_parent y = None" "bn_space x = bn_space y" for x y
  proof (cases "x = n \<or> y = n")
    case True
    have "x = n \<or> x \<in> set (th_nodes d)" "y = n \<or> y \<in> set (th_nodes d)" using that(1,2) unfolding res(1) by simp_all
    with True show ?thesis using that(3-5) res(4) [of x] res(4) [of y] by metis
  next
    case False
    then have "x \<in> set (th_nodes d)" "y \<in> set (th_nodes d)" using that(1,2) unfolding res(1) by simp_all
    then show ?thesis using one_root [OF ok] that(3-5) by blast
  qed
  moreover have "keyed bn_id (th_nodes d')" "keyed ts_id (th_spaces d')" "keyed ts_channel (th_spaces d')"
    using ok res(2) by (simp_all add: tree_ok_def res(1) keyed_insert)
  ultimately show ?thesis using sib unfolding tree_ok_def single_root_def by blast
qed

lemma phases_insert:
  assumes ok: "tree_ok lw d" "phases_ok d" and ins: "insert_node e n d = Inr d'" and new: "new_branch d n"
  shows "phases_ok d'"
proof -
  note res = insert_node_result [OF ins]
  have own: "bn_parent c \<noteq> Some (bn_id n)" if "c \<in> set (th_nodes d)" for c
    using parent_exists [OF ok(1) that] res(2) by blast
  have self: "bn_parent n \<noteq> Some (bn_id n)"
  proof
    assume "bn_parent n = Some (bn_id n)"
    with new obtain x where "x \<in> set (th_nodes d)" "bn_id x = bn_id n" by (auto simp: new_branch_def)
    with res(2) show False by (metis imageI)
  qed
  have up: "bn_parent n \<noteq> Some (bn_id x)"
    if "x \<in> set (th_nodes d)" "bn_returning x \<noteq> None \<or> bn_returned x \<noteq> None \<or> bn_pending x" for x
  proof
    assume "bn_parent n = Some (bn_id x)"
    with new obtain y where y: "y \<in> set (th_nodes d)" "bn_id y = bn_id x"
      "bn_returning y = None" "bn_returned y = None" "\<not> bn_pending y" by (auto simp: new_branch_def)
    have "y = x" using ok(1) keyed_unique [OF _ y(1) that(1) y(2)] by (simp add: tree_ok_def)
    with y that(2) show False by simp
  qed
  have "(bn_returning x \<noteq> None \<or> bn_returned x \<noteq> None \<longrightarrow> settled d' x) \<and> (bn_returned x \<noteq> None \<longrightarrow> bn_returning x = None) \<and>
      (bn_returned x \<noteq> None \<longleftrightarrow> bn_handoff x \<noteq> []) \<and>
      (bn_pending x \<longrightarrow> bn_parent x \<noteq> None \<and> (\<forall>c \<in> set (th_nodes d'). bn_parent c \<noteq> Some (bn_id x)))"
    if x: "x \<in> set (th_nodes d)" for x
  proof -
    have "settled d' x" if s: "settled d x" and up: "bn_parent n \<noteq> Some (bn_id x)"
      using s up by (simp add: settled_def res(1))
    moreover have "\<forall>c \<in> set (th_nodes d'). bn_parent c \<noteq> Some (bn_id x)"
      if "\<forall>c \<in> set (th_nodes d). bn_parent c \<noteq> Some (bn_id x)" and up: "bn_parent n \<noteq> Some (bn_id x)"
      using that by (simp add: res(1))
    ultimately show ?thesis using up [OF x] phase_facts [OF ok(2) x] by blast
  qed
  moreover have "bn_returning n = None \<and> bn_returned n = None \<and> bn_handoff n = [] \<and>
      (bn_pending n \<longrightarrow> bn_parent n \<noteq> None \<and> (\<forall>c \<in> set (th_nodes d'). bn_parent c \<noteq> Some (bn_id n)))"
    using new own self by (auto simp: new_branch_def res(1) split: option.splits)
  ultimately show ?thesis unfolding phases_ok_def res(1) by simp
qed

lemma notes_insert:
  assumes ok: "tree_ok lw d" "notes_ok d" and ins: "insert_node e n d = Inr d'" and new: "new_branch d n"
  shows "notes_ok d'"
proof -
  note res = insert_node_result [OF ins]
  have "arrived d' p = arrived d p" "returned_to d' p = returned_to d p" for p
    using new by (simp_all add: arrived_def returned_to_def res(1) children_insert new_branch_def)
  then show ?thesis using ok(2) by (auto simp: notes_ok_def res(1))
qed

lemma insert_inv:
  assumes "think_inv lw d" "insert_node e n d = Inr d'" "th_lower e = lw" "new_branch d n"
  shows "think_inv lw d'"
  using assms tree_insert phases_insert notes_insert by (auto simp: think_inv_def)

section \<open>Changing branches\<close>

text \<open>
  An update that keeps the frame and what a branch returned; it makes a branch preparing or returning only as
  the invariant allows.
\<close>

definition lawful :: "think_db \<Rightarrow> (thinking_node \<Rightarrow> bool) \<Rightarrow> (thinking_node \<Rightarrow> thinking_node) \<Rightarrow> bool" where
  "lawful d P f \<longleftrightarrow>
     (\<forall>n. frame (f n) = frame n \<and> bn_returned (f n) = bn_returned n \<and> bn_handoff (f n) = bn_handoff n \<and>
          (bn_pending (f n) \<longrightarrow> bn_pending n)) \<and>
     (\<forall>n \<in> set (th_nodes d). P n \<longrightarrow> bn_returning (f n) = None \<or> bn_returning n \<noteq> None \<or>
        (settled d n \<and> bn_returned n = None))"

lemma frame_fields:
  assumes "frame (f n) = frame n"
  shows "bn_id (f n) = bn_id n" "bn_space (f n) = bn_space n" "bn_parent (f n) = bn_parent n" "bn_title (f n) = bn_title n"
    "bn_depth (f n) = bn_depth n" "bn_order (f n) = bn_order n"
  using assms by (simp_all add: frame_def)

lemma children_update:
  assumes "\<And>n. frame (f n) = frame n"
  shows "children (set_node P f d) p = update_where P f (children d p)"
  by (simp add: children_def set_node_def update_where_def filter_map_same frame_fields [where f = f, OF assms])

lemma set_node_nodes: "set (th_nodes (set_node P f d)) = (\<lambda>n. if P n then f n else n) ` set (th_nodes d)"
  by (simp add: set_node_def update_where_def)

lemma ids_update:
  assumes "\<And>n. frame (f n) = frame n"
  shows "bn_id ` set (th_nodes (set_node P f d)) = bn_id ` set (th_nodes d)"
proof -
  have "bn_id (if P n then f n else n) = bn_id n" for n using frame_fields(1) [where f = f, OF assms] by simp
  then show ?thesis unfolding set_node_nodes image_image by simp
qed

lemma tree_update:
  assumes ok: "tree_ok lw d" and frame: "\<And>n. frame (f n) = frame n"
  shows "tree_ok lw (set_node P f d)"
proof -
  note fs = frame_fields [where f = f, OF frame]
  have key: "map bn_id (update_where P f ns) = map bn_id ns" "map bn_order (update_where P f ns) = map bn_order ns"
    "map (lw \<circ> bn_title) (update_where P f ns) = map (lw \<circ> bn_title) ns" for ns
    by (auto simp: update_where_def fs)
  have h: "hangs (set_node P f d) (if P n then f n else n)" if "n \<in> set (th_nodes d)" for n
  proof -
    have "hangs d n" using ok that by (simp add: tree_ok_def)
    moreover have "\<exists>y \<in> set (th_nodes (set_node P f d)). bn_id y = bn_id x \<and> bn_space y = bn_space x \<and> bn_depth y = bn_depth x"
      if "x \<in> set (th_nodes d)" for x
      using that by (intro bexI [of _ "if P x then f x else x"]) (auto simp: fs set_node_def set_update_where)
    ultimately have "hangs (set_node P f d) n"
      by (fastforce simp: hangs_def set_node_def split: option.splits)
    then show ?thesis by (cases "P n") (auto simp: hangs_def fs split: option.splits)
  qed
  have one: "bn_id n = bn_id m" if "n \<in> set (th_nodes (set_node P f d))" "m \<in> set (th_nodes (set_node P f d))"
      "bn_parent n = None" "bn_parent m = None" "bn_space n = bn_space m" for n m
  proof -
    have "\<exists>y \<in> set (th_nodes d). bn_id z = bn_id y \<and> bn_parent z = bn_parent y \<and> bn_space z = bn_space y"
      if "z \<in> set (th_nodes (set_node P f d))" for z
      using that fs by (auto simp: set_node_def set_update_where)
    then show ?thesis using that one_root [OF ok] by metis
  qed
  have "keyed bn_id (th_nodes (set_node P f d))" using ok by (simp add: tree_ok_def keyed_def set_node_def key)
  moreover have "\<forall>n \<in> set (th_nodes (set_node P f d)). hangs (set_node P f d) n"
    using h unfolding set_node_nodes by blast
  moreover have "keyed ts_id (th_spaces (set_node P f d)) \<and> keyed ts_channel (th_spaces (set_node P f d))"
    using ok by (simp add: tree_ok_def set_node_def)
  moreover have "distinct (map (lw \<circ> bn_title) (children (set_node P f d) p)) \<and>
      map bn_order (children (set_node P f d) p) = map int [0..<length (children (set_node P f d) p)]" for p
    unfolding children_update [OF frame] key length_update_where using ok by (simp add: tree_ok_def)
  ultimately show ?thesis using one unfolding tree_ok_def single_root_def by blast
qed

lemma settled_update:
  assumes "lawful d P f"
  shows "settled d n \<Longrightarrow> settled (set_node P f d) (if P n then f n else n)"
  using assms frame_fields(1,3) [of f]
  by (auto simp: settled_def lawful_def set_node_def set_update_where)

lemma phases_update:
  assumes ok: "phases_ok d" and lawful: "lawful d P f"
  shows "phases_ok (set_node P f d)"
proof -
  have frame: "frame (f n) = frame n" for n using lawful by (simp add: lawful_def)
  note fs = frame_fields [where f = f, OF frame]
  have keep: "bn_returned (f n) = bn_returned n" "bn_handoff (f n) = bn_handoff n" "bn_pending (f n) \<Longrightarrow> bn_pending n" for n
    using lawful by (simp_all add: lawful_def)
  have "let x = if P n then f n else n in
      (bn_returning x \<noteq> None \<or> bn_returned x \<noteq> None \<longrightarrow> settled (set_node P f d) x) \<and>
      (bn_returned x \<noteq> None \<longrightarrow> bn_returning x = None) \<and> (bn_returned x \<noteq> None \<longleftrightarrow> bn_handoff x \<noteq> []) \<and>
      (bn_pending x \<longrightarrow> bn_parent x \<noteq> None \<and> (\<forall>c \<in> set (th_nodes (set_node P f d)). bn_parent c \<noteq> Some (bn_id x)))"
    if n: "n \<in> set (th_nodes d)" for n
  proof -
    have old: "bn_returning n \<noteq> None \<or> bn_returned n \<noteq> None \<longrightarrow> settled d n" "bn_returned n \<noteq> None \<longrightarrow> bn_returning n = None"
      "bn_returned n \<noteq> None \<longleftrightarrow> bn_handoff n \<noteq> []"
      "bn_pending n \<longrightarrow> bn_parent n \<noteq> None \<and> (\<forall>c \<in> set (th_nodes d). bn_parent c \<noteq> Some (bn_id n))"
      using ok n by (simp_all add: phases_ok_def)
    have law: "P n \<longrightarrow> bn_returning (f n) = None \<or> bn_returning n \<noteq> None \<or> settled d n \<and> bn_returned n = None"
      using lawful n by (simp add: lawful_def)
    have "bn_returning (if P n then f n else n) \<noteq> None \<or> bn_returned (if P n then f n else n) \<noteq> None \<longrightarrow> settled d n"
      using old(1) law keep(1) by auto
    moreover have "bn_returned (if P n then f n else n) \<noteq> None \<longrightarrow> bn_returning (if P n then f n else n) = None"
      using old(2) law keep(1) by auto
    moreover have "bn_pending (if P n then f n else n) \<longrightarrow> bn_parent n \<noteq> None \<and> (\<forall>c \<in> set (th_nodes d). bn_parent c \<noteq> Some (bn_id n))"
      using old(4) keep(3) by auto
    moreover have "\<forall>c \<in> set (th_nodes (set_node P f d)). bn_parent c \<noteq> Some (bn_id n)"
      if "\<forall>c \<in> set (th_nodes d). bn_parent c \<noteq> Some (bn_id n)"
      using that by (auto simp: set_node_def set_update_where fs)
    ultimately show ?thesis
      using old(3) settled_update [OF lawful, of n] keep(1,2) fs unfolding Let_def by (cases "P n") simp_all
  qed
  then show ?thesis unfolding phases_ok_def Let_def by (fastforce simp: set_node_def set_update_where)
qed

lemma notes_update:
  assumes ok: "notes_ok d" and lawful: "lawful d P f"
  shows "notes_ok (set_node P f d)"
proof -
  have frame: "frame (f n) = frame n" for n using lawful by (simp add: lawful_def)
  note fs = frame_fields [where f = f, OF frame]
  have keep: "bn_returned (f n) = bn_returned n" "handoff_note (f n) = handoff_note n" for n
    using lawful fs by (simp_all add: lawful_def handoff_note_def)
  have "map handoff_note (filter (\<lambda>c. bn_returned c \<noteq> None) (update_where P f ns)) =
        map handoff_note (filter (\<lambda>c. bn_returned c \<noteq> None) ns)" for ns
    by (induction ns) (auto simp: update_where_def keep)
  then have "returned_to (set_node P f d) p = returned_to d p" for p
    by (simp only: returned_to_def children_update [OF frame])
  moreover have "arrived (set_node P f d) p = arrived d p" for p by (simp add: arrived_def set_node_def)
  moreover have "th_messages (set_node P f d) = th_messages d" by (simp add: set_node_def)
  ultimately show ?thesis using ok ids_update [OF frame] by (simp add: notes_ok_def)
qed

lemma update_inv:
  assumes "think_inv lw d" and "lawful d P f"
  shows "think_inv lw (set_node P f d)"
  using assms tree_update phases_update notes_update unfolding think_inv_def lawful_def by blast

section \<open>Returning a handoff\<close>

lemma update_where_none: "(\<And>x. x \<in> set xs \<Longrightarrow> \<not> P x) \<Longrightarrow> update_where P f xs = xs"
  by (simp add: update_where_def map_idI)

lemma filter_keyed: "keyed key t \<Longrightarrow> keyed key (filter P t)"
  by (simp add: keyed_def distinct_map_filter)

lemma returned_one:
  assumes "keyed bn_id xs" and "n \<in> set xs" and "bn_returned n = None" and "bn_returned (g n) \<noteq> None"
  shows "mset (map handoff_note (filter (\<lambda>c. bn_returned c \<noteq> None) (update_where (\<lambda>x. bn_id x = bn_id n) g xs))) =
         add_mset (handoff_note (g n)) (mset (map handoff_note (filter (\<lambda>c. bn_returned c \<noteq> None) xs)))"
  using assms
proof (induction xs)
  case Nil
  then show ?case by simp
next
  case (Cons x xs)
  have step: "update_where (\<lambda>y. bn_id y = bn_id n) g (x # xs) =
      (if bn_id x = bn_id n then g x else x) # update_where (\<lambda>y. bn_id y = bn_id n) g xs"
    by (simp add: update_where_def)
  show ?case
  proof (cases "x = n")
    case True
    have "bn_id y \<noteq> bn_id n" if "y \<in> set xs" for y
    proof
      assume "bn_id y = bn_id n"
      then have "bn_id x \<in> bn_id ` set xs" using that True by (metis imageI)
      then show False using Cons.prems(1) by (simp add: keyed_def)
    qed
    then have "update_where (\<lambda>y. bn_id y = bn_id n) g xs = xs" by (simp add: update_where_none)
    then show ?thesis using True Cons.prems(3,4) unfolding step by simp
  next
    case False
    then have n: "n \<in> set xs" using Cons.prems(2) by simp
    then have "bn_id x \<noteq> bn_id n" using keyed_unique [OF Cons.prems(1), of x n] False by auto
    then show ?thesis using Cons.IH [OF _ n Cons.prems(3,4)] Cons.prems(1) unfolding step by (simp add: keyed_def)
  qed
qed

lemma tree_messages [simp]: "tree_ok lw (d\<lparr>th_messages := ms\<rparr>) = tree_ok lw d"
  by (simp add: tree_ok_def hangs_def children_def cong: option.case_cong)

lemma phases_messages [simp]: "phases_ok (d\<lparr>th_messages := ms\<rparr>) = phases_ok d"
  by (simp add: phases_ok_def settled_def)

lemma returned_to_messages [simp]: "returned_to (d\<lparr>th_messages := ms\<rparr>) p = returned_to d p"
  by (simp add: returned_to_def children_def)

lemma node_in_facts:
  assumes "node_in d ch nid = Some n"
  shows "n \<in> set (th_nodes d)" "bn_id n = nid"
  using assms by (auto simp: node_in_def find_Some_iff)

definition sealed :: "think_env \<Rightarrow> string \<Rightarrow> thinking_node \<Rightarrow> thinking_node" where
  "sealed e handoff n =
     n\<lparr>bn_handoff := handoff, bn_returning := None, bn_returned := Some (th_now e), bn_updated := th_now e\<rparr>"

lemma sealed_facts [simp]:
  "frame (sealed e h n) = frame n" "bn_id (sealed e h n) = bn_id n" "bn_parent (sealed e h n) = bn_parent n"
  "bn_returned (sealed e h n) = Some (th_now e)" "bn_returning (sealed e h n) = None" "bn_handoff (sealed e h n) = h"
  "bn_pending (sealed e h n) = bn_pending n" "bn_title (sealed e h n) = bn_title n"
  by (simp_all add: sealed_def frame_def)

lemma complete_return_result:
  assumes "complete_return e mid ch nid agent text d = Inr d'"
  obtains n pid where "n \<in> set (th_nodes d)" "bn_id n = nid" "bn_returned n = None" "bn_returning n \<noteq> None"
    "bn_parent n = Some pid" "trim_space text \<noteq> []"
    "d' = (set_node (\<lambda>x. bn_id x = nid) (sealed e (trim_space text)) d)
            \<lparr>th_messages := th_messages d @ [return_message e mid ch n pid (trim_space text)]\<rparr>"
proof -
  have same: "(\<lambda>x. x\<lparr>bn_handoff := h, bn_returning := None, bn_returned := Some (th_now e), bn_updated := th_now e\<rparr>) =
      sealed e h" for h by (rule ext) (simp add: sealed_def)
  from assms obtain n where n: "node_in d ch nid = Some n"
    by (auto simp: complete_return_def Let_def split: if_splits option.splits)
  moreover from assms n obtain pid where "bn_parent n = Some pid"
    by (auto simp: complete_return_def Let_def split: if_splits option.splits)
  ultimately show ?thesis
    using assms that [of n pid] node_in_facts [OF n]
    by (simp add: complete_return_def Let_def same set_node_def split: if_splits)
qed

lemma seal_phases:
  assumes tree: "tree_ok lw d" and ph: "phases_ok d" and n: "n \<in> set (th_nodes d)" "bn_id n = nid" "bn_returned n = None"
    "bn_returning n \<noteq> None" and h: "hand \<noteq> []"
  shows "phases_ok (set_node (\<lambda>x. bn_id x = nid) (sealed e hand) d)"
proof -
  let ?P = "\<lambda>x. bn_id x = nid" and ?f = "sealed e hand"
  let ?up = "\<lambda>x. if ?P x then ?f x else x"
  have only: "x = n" if "x \<in> set (th_nodes d)" "bn_id x = nid" for x
    using unique_node [OF tree that(1) n(1)] that(2) n(2) by simp
  have s: "settled (set_node ?P ?f d) (?up x)" if "settled d x" for x
    using that unfolding settled_def set_node_nodes by auto
  have each: "(bn_returning (?up x) \<noteq> None \<or> bn_returned (?up x) \<noteq> None \<longrightarrow> settled (set_node ?P ?f d) (?up x)) \<and>
      (bn_returned (?up x) \<noteq> None \<longrightarrow> bn_returning (?up x) = None) \<and>
      (bn_returned (?up x) \<noteq> None \<longleftrightarrow> bn_handoff (?up x) \<noteq> []) \<and>
      (bn_pending (?up x) \<longrightarrow> bn_parent (?up x) \<noteq> None \<and>
         (\<forall>c \<in> set (th_nodes (set_node ?P ?f d)). bn_parent c \<noteq> Some (bn_id (?up x))))"
    if x: "x \<in> set (th_nodes d)" for x
  proof -
    have c: "\<forall>c \<in> set (th_nodes (set_node ?P ?f d)). bn_parent c \<noteq> Some (bn_id (?up x))" if "bn_pending (?up x)"
      using that phase_facts(5) [OF ph x] unfolding set_node_nodes by (cases "bn_id x = nid") auto
    show ?thesis
    proof (cases "bn_id x = nid")
      case True
      then have "settled d x" using phase_facts(1) [OF ph x] only [OF x] n(4) by blast
      then have "settled (set_node ?P ?f d) (?up x)" by (rule s)
      then show ?thesis using c True h phase_facts(4) [OF ph x] by simp
    next
      case False
      then show ?thesis using c s [of x] phase_facts [OF ph x] by auto
    qed
  qed
  show "phases_ok (set_node ?P ?f d)"
    unfolding phases_ok_def
  proof (rule ballI)
    fix y
    assume "y \<in> set (th_nodes (set_node ?P ?f d))"
    then obtain x where x: "x \<in> set (th_nodes d)" and y: "y = ?up x" unfolding set_node_nodes by blast
    show "(bn_returning y \<noteq> None \<or> bn_returned y \<noteq> None \<longrightarrow> settled (set_node ?P ?f d) y) \<and>
        (bn_returned y \<noteq> None \<longrightarrow> bn_returning y = None) \<and> (bn_returned y \<noteq> None \<longleftrightarrow> bn_handoff y \<noteq> []) \<and>
        (bn_pending y \<longrightarrow> bn_parent y \<noteq> None \<and>
           (\<forall>c \<in> set (th_nodes (set_node ?P ?f d)). bn_parent c \<noteq> Some (bn_id y)))"
      unfolding y by (rule each [OF x])
  qed
qed

lemma seal_notes:
  assumes tree: "tree_ok lw d" and nt: "notes_ok d" and n: "n \<in> set (th_nodes d)" "bn_id n = nid" "bn_returned n = None"
    "bn_returning n \<noteq> None" "bn_parent n = Some pid"
    and d': "d' = (set_node (\<lambda>x. bn_id x = nid) (sealed e hand) d)
            \<lparr>th_messages := th_messages d @ [return_message e mid ch n pid hand]\<rparr>"
  shows "notes_ok d'"
proof -
  let ?P = "\<lambda>x. bn_id x = nid" and ?f = "sealed e hand"
  have only: "x = n" if "x \<in> set (th_nodes d)" "bn_id x = nid" for x
    using unique_node [OF tree that(1) n(1)] that(2) n(2) by simp
  have kids: "children (set_node ?P ?f d) p = update_where ?P ?f (children d p)" for p
    by (rule children_update) simp
  have "arrived d' p = returned_to d' p" for p
  proof (cases "p = pid")
    case True
    have "n \<in> set (children d pid)" "keyed bn_id (children d pid)"
      using n tree filter_keyed by (auto simp: children_def tree_ok_def)
    then have "returned_to d' p = add_mset (handoff_note (?f n)) (returned_to d p)"
      using returned_one [of "children d pid" n ?f] n True
      unfolding d' returned_to_messages by (simp add: returned_to_def kids)
    moreover have "arrived d' p = add_mset (handoff_note (?f n)) (arrived d p)"
      unfolding d' using True by (simp add: arrived_def return_message_def handoff_note_def sealed_def)
    ultimately show ?thesis using nt by (simp add: notes_ok_def)
  next
    case False
    have "\<not> bn_id x = nid" if "x \<in> set (children d p)" for x
      using that only [of x] n(5) False by (auto simp: children_def)
    then have "returned_to d' p = returned_to d p"
      unfolding d' returned_to_messages by (simp add: returned_to_def kids update_where_none)
    moreover have "arrived d' p = arrived d p"
      unfolding d' using False by (simp add: arrived_def return_message_def)
    ultimately show ?thesis using nt by (simp add: notes_ok_def)
  qed
  moreover have "bn_id ` set (th_nodes d') = bn_id ` set (th_nodes d)"
    unfolding d' using ids_update [where f = ?f and P = ?P and d = d] by simp
  moreover have "pid \<in> bn_id ` set (th_nodes d)" using parent_exists [OF tree n(1,5)] .
  ultimately show ?thesis
    using nt unfolding notes_ok_def d' by (auto simp: return_message_def)
qed

lemma complete_return_inv:
  assumes inv: "think_inv lw d" and ret: "complete_return e mid ch nid agent text d = Inr d'"
  shows "think_inv lw d'"
proof -
  from ret obtain n pid where n: "n \<in> set (th_nodes d)" "bn_id n = nid" "bn_returned n = None" "bn_returning n \<noteq> None"
    "bn_parent n = Some pid" and h: "trim_space text \<noteq> []"
    and d': "d' = (set_node (\<lambda>x. bn_id x = nid) (sealed e (trim_space text)) d)
            \<lparr>th_messages := th_messages d @ [return_message e mid ch n pid (trim_space text)]\<rparr>"
    by (rule complete_return_result)
  have tree: "tree_ok lw d" and ph: "phases_ok d" and nt: "notes_ok d" using inv by (simp_all add: think_inv_def)
  have "tree_ok lw d'" unfolding d' tree_messages by (rule tree_update [OF tree]) simp
  moreover have "phases_ok d'" unfolding d' phases_messages by (rule seal_phases [OF tree ph n(1-4) h])
  moreover have "notes_ok d'" by (rule seal_notes [OF tree nt n d'])
  ultimately show ?thesis by (simp add: think_inv_def)
qed

section \<open>Every operation keeps the invariant\<close>

lemma think_inv_cong:
  assumes "th_spaces d' = th_spaces d" "th_nodes d' = th_nodes d" "th_messages d' = th_messages d"
  shows "think_inv lw d' = think_inv lw d"
  by (simp add: think_inv_def tree_ok_def hangs_def children_def phases_ok_def settled_def notes_ok_def arrived_def
      returned_to_def assms cong: option.case_cong)

lemma space_inv:
  assumes inv: "think_inv lw d" and "ts_id s \<notin> ts_id ` set (th_spaces d)" "ts_channel s \<notin> ts_channel ` set (th_spaces d)"
  shows "think_inv lw (d\<lparr>th_spaces := th_spaces d @ [s]\<rparr>)"
proof -
  have "hangs (d\<lparr>th_spaces := th_spaces d @ [s]\<rparr>) n" if "hangs d n" for n
    using that by (auto simp: hangs_def split: option.splits)
  moreover have "children (d\<lparr>th_spaces := th_spaces d @ [s]\<rparr>) p = children d p" for p by (simp add: children_def)
  moreover have "keyed ts_id (th_spaces d @ [s]) \<and> keyed ts_channel (th_spaces d @ [s])"
    using assms by (simp add: think_inv_def tree_ok_def keyed_insert)
  moreover have "tree_ok lw d" using inv by (simp add: think_inv_def)
  ultimately have "tree_ok lw (d\<lparr>th_spaces := th_spaces d @ [s]\<rparr>)"
    unfolding tree_ok_def by simp
  moreover have "phases_ok (d\<lparr>th_spaces := th_spaces d @ [s]\<rparr>) = phases_ok d" by (simp add: phases_ok_def settled_def)
  moreover have "notes_ok (d\<lparr>th_spaces := th_spaces d @ [s]\<rparr>) = notes_ok d"
    by (simp add: notes_ok_def arrived_def returned_to_def children_def)
  ultimately show ?thesis using inv by (simp add: think_inv_def)
qed

lemma messages_inv:
  assumes inv: "think_inv lw d"
    and "filter (\<lambda>m. nm_type m = ''thinking_handoff'') (map (\<lambda>m. m\<lparr>nm_deleted := False\<rparr>) ms) =
         filter (\<lambda>m. nm_type m = ''thinking_handoff'') (map (\<lambda>m. m\<lparr>nm_deleted := False\<rparr>) (th_messages d))"
    and "\<And>m p. m \<in> set ms \<Longrightarrow> nm_node m = Some p \<Longrightarrow> p \<in> bn_id ` set (th_nodes d)"
  shows "think_inv lw (d\<lparr>th_messages := ms\<rparr>)"
proof -
  have same: "map nm_content (filter (\<lambda>m. nm_node m = Some p \<and> nm_type m = ''thinking_handoff'') xs) =
      map nm_content (filter (\<lambda>m. nm_node m = Some p)
        (filter (\<lambda>m. nm_type m = ''thinking_handoff'') (map (\<lambda>m. m\<lparr>nm_deleted := False\<rparr>) xs)))" for xs p
    by (induction xs) auto
  have "arrived (d\<lparr>th_messages := ms\<rparr>) p = arrived d p" for p
    unfolding arrived_def same by (simp add: assms(2))
  then show ?thesis using inv assms(3) by (simp add: think_inv_def notes_ok_def)
qed

lemma open_root:
  assumes "think_inv lw d" and "n \<in> set (th_nodes d)" and "bn_parent n = None"
  shows "bn_returning n = None \<and> bn_returned n = None \<and> \<not> bn_pending n \<and> bn_depth n = 0"
proof -
  have ph: "phases_ok d" and "tree_ok lw d" using assms(1) by (simp_all add: think_inv_def)
  then have "hangs d n" using assms(2) by (simp add: tree_ok_def)
  moreover have "\<not> settled d n" using assms(3) by (simp add: settled_def)
  moreover from this have "bn_returning n = None" "bn_returned n = None" using phase_facts(1) [OF ph assms(2)] by blast+
  ultimately show ?thesis
    using phase_facts(4) [OF ph assms(2)] assms(3) by (auto simp: hangs_def)
qed

lemma node_space:
  assumes "think_inv lw d" and "n \<in> set (th_nodes d)"
  shows "\<exists>s \<in> set (th_spaces d). ts_id s = bn_space n"
  using assms by (simp add: think_inv_def tree_ok_def hangs_def)

lemma insert_team_inv:
  assumes "think_inv lw d" and "th_lower e = lw" and "r \<in> set (th_nodes d)" and "bn_id r = root" and "bn_space r = space"
    and "bn_parent r = None" and "i = length (children d root)" and "insert_team e space root actor i cs d = Inr d'"
  shows "think_inv lw d'"
  using assms
proof (induction cs arbitrary: i d)
  case Nil
  then show ?case by simp
next
  case (Cons c cs)
  let ?n = "(new_node e (th_uuid e (i + 2)) space (ta_name c) TeamSource actor)
              \<lparr>bn_parent := Some root, bn_agent := Some (ta_id c), bn_depth := 1, bn_order := int i\<rparr>"
  from Cons.prems(8) obtain d1 where ins: "insert_node e ?n d = Inr d1"
    and rest: "insert_team e space root actor (i + 1) cs d1 = Inr d'"
    by (auto split: sum.splits)
  have "new_branch d ?n"
    using node_space [OF Cons.prems(1,3)] open_root [OF Cons.prems(1,3,6)] Cons.prems(3-7)
    by (auto simp: new_branch_def new_node_def)
  then have "think_inv lw d1" using insert_inv [OF Cons.prems(1) ins Cons.prems(2)] by blast
  moreover have "r \<in> set (th_nodes d1)" "length (children d1 root) = i + 1"
    using insert_node_result(1) [OF ins] Cons.prems(3,7) children_insert [of d ?n root] by (simp_all add: new_node_def)
  ultimately show ?case using Cons.IH [of d1 "i + 1"] rest Cons.prems(2,4-6) by simp
qed

lemma ensure_tx_inv:
  assumes inv: "think_inv lw d" and lw: "th_lower e = lw" and ens: "ensure_tx e ch actor d = Inr d'"
  shows "think_inv lw d'"
proof (cases "exists_row (\<lambda>s. ts_channel s = ch) (th_spaces d)")
  case True
  with ens have "d' = d" by (auto simp: ensure_tx_def split: option.splits)
  with inv show ?thesis by simp
next
  case False
  let ?s = "\<lparr>ts_id = th_uuid e 0, ts_channel = ch, ts_created_by = actor\<rparr>"
  let ?d = "d\<lparr>th_spaces := th_spaces d @ [?s]\<rparr>"
  from ens False obtain c where c: "find (\<lambda>c. kc_id c = ch \<and> \<not> kc_archived c) (th_channels d) = Some c"
    and fresh: "\<not> exists_row (\<lambda>s. ts_id s = th_uuid e 0) (th_spaces d)"
    by (auto simp: ensure_tx_def split: option.splits if_splits)
  obtain root team where rt: "(case load_thinking_team d ch of (ags, edges) \<Rightarrow> choose_thinking_team ags edges) = (root, team)"
    by (meson surj_pair)
  let ?n = "(new_node e (th_uuid e 1) (th_uuid e 0) (kc_name c) RootSource actor)\<lparr>bn_agent := nullable (ta_id root)\<rparr>"
  from ens obtain d1 where n: "insert_node e ?n ?d = Inr d1"
    and t: "insert_team e (th_uuid e 0) (th_uuid e 1) actor 0 team d1 = Inr d'"
    by (auto simp: ensure_tx_def Let_def False fresh c rt split: sum.splits)
  have i0: "think_inv lw ?d" using False fresh by (intro space_inv [OF inv]) (auto simp: exists_row_iff)
  have "new_branch ?d ?n" by (simp add: new_branch_def new_node_def)
  then have i1: "think_inv lw d1" using insert_inv [OF i0 n lw] by blast
  have res: "d1 = ?d\<lparr>th_nodes := th_nodes ?d @ [?n]\<rparr>" "bn_id ?n \<notin> bn_id ` set (th_nodes ?d)"
    using insert_node_result(1,2) [OF n] by blast+
  have "children ?d (th_uuid e 1) = []"
    using i0 res(2) children_gone [of lw ?d "th_uuid e 1"] by (simp add: think_inv_def new_node_def)
  then have "length (children d1 (th_uuid e 1)) = 0"
    unfolding res(1) children_insert by (simp add: new_node_def)
  moreover have "?n \<in> set (th_nodes d1)" unfolding res(1) by simp
  ultimately show ?thesis
    using insert_team_inv [OF i1 lw, of ?n "th_uuid e 1" "th_uuid e 0" 0 actor team d'] t by (simp add: new_node_def)
qed

lemma ensure_inv: "think_inv lw d \<Longrightarrow> th_lower e = lw \<Longrightarrow> ensure e ch actor d = Inr d' \<Longrightarrow> think_inv lw d'"
  using ensure_tx_inv by (auto simp: ensure_def split: option.splits)

lemma create_from_message_tx_inv:
  assumes inv: "think_inv lw d" and lw: "th_lower e = lw"
    and c: "create_from_message_tx e nid ch mid title actor d = Inr d'"
  shows "think_inv lw d'"
proof -
  from c obtain m root where root: "find (\<lambda>n. bn_parent n = None \<and> in_channel d ch n) (th_nodes d) = Some root"
    and ins: "insert_node e ((new_node e nid (bn_space root) title ManualSource actor)
        \<lparr>bn_parent := Some (bn_id root), bn_agent := bn_agent root, bn_source_message := Some mid,
         bn_inherited := ''Source message from '' @ sender_name d m @ '' at '' @ th_rfc3339 e (nm_created m) @
                         '':'' @ [CHR 0x0A] @ nm_content m,
         bn_depth := 1, bn_order := int (length (children d (bn_id root)))\<rparr>) d = Inr d'" (is "insert_node e ?n d = _")
    by (auto simp: create_from_message_tx_def split: option.splits if_splits)
  have r: "root \<in> set (th_nodes d)" "bn_parent root = None" using root by (auto simp: find_Some_iff)
  then have "new_branch d ?n"
    using node_space [OF inv r(1)] open_root [OF inv r] by (auto simp: new_branch_def new_node_def)
  then show ?thesis using insert_inv [OF inv ins lw] by blast
qed

lemma create_child_inv:
  assumes inv: "think_inv lw d" and lw: "th_lower e = lw" and c: "create_child e nid ch pid text actor source d = Inr d'"
  shows "think_inv lw d'"
proof -
  from c obtain p where p: "node_in d ch pid = Some p" and open_p: "bn_returned p = None" "bn_returning p = None" "\<not> bn_pending p"
    and ins: "insert_node e ((new_node e nid (bn_space p) (trim_space text) (if source = ''auto'' then AutoSource else ManualSource) actor)
        \<lparr>bn_parent := Some (bn_id p), bn_agent := bn_agent p, bn_pending := bn_agent p \<noteq> None \<and> shown_messages d pid \<noteq> [],
         bn_depth := bn_depth p + 1, bn_order := int (length (children d pid))\<rparr>) d = Inr d'" (is "insert_node e ?n d = _")
    by (auto simp: create_child_def Let_def split: option.splits if_splits)
  have "new_branch d ?n"
    using node_in_facts [OF p] node_space [OF inv node_in_facts(1) [OF p]] open_p by (auto simp: new_branch_def new_node_def)
  then show ?thesis using insert_inv [OF inv ins lw] by blast
qed

lemma set_one_inv:
  assumes "think_inv lw d" "lawful d P f" "set_one_node P f d = Inr d'"
  shows "think_inv lw d'"
  using assms update_inv by (auto simp: set_one_node_def split: if_splits)

lemma quiet_lawful:
  "lawful d P (\<lambda>c. c\<lparr>bn_inherited := h, bn_pending := False, bn_fork_at := a, bn_updated := t\<rparr>)"
  "lawful d P (\<lambda>n. n\<lparr>bn_checkpoint := h, bn_checkpoint_at := a, bn_updated := t\<rparr>)"
  "lawful d P (\<lambda>n. n\<lparr>bn_session := s, bn_updated := t\<rparr>)"
  "lawful d P (\<lambda>n. n\<lparr>bn_returning := None, bn_updated := t\<rparr>)"
  "lawful d P (\<lambda>n. n\<lparr>bn_agent := None\<rparr>)"
  by (auto simp: lawful_def frame_def)

lemma complete_fork_inv:
  assumes "think_inv lw d" and "complete_fork_handoff e ch pid cid agent text d = Inr d'"
  shows "think_inv lw d'"
  using assms(2) by (auto simp: complete_fork_handoff_def Let_def split: if_splits dest: set_one_inv [OF assms(1) quiet_lawful(1)])

lemma save_checkpoint_inv:
  assumes "think_inv lw d" and "save_checkpoint_handoff e ch nid agent text d = Inr d'"
  shows "think_inv lw d'"
  using assms(2) by (auto simp: save_checkpoint_handoff_def Let_def split: if_splits dest: set_one_inv [OF assms(1) quiet_lawful(2)])

lemma begin_return_result:
  assumes "begin_return e ch nid d = Inr d'"
  obtains n where "node_in d ch nid = Some n" "bn_returned n = None" "bn_returning n = None" "\<not> bn_pending n"
    "bn_parent n \<noteq> None" "\<forall>c \<in> set (children d nid). bn_returned c \<noteq> None" "\<not> has_active_run d nid"
    "d' = set_node (\<lambda>x. bn_id x = nid) (\<lambda>x. x\<lparr>bn_returning := Some (th_now e), bn_updated := th_now e\<rparr>) d"
  using assms
  by (auto simp: begin_return_def refused_by_phase_def exists_row_iff split: option.splits if_splits)

lemma begin_return_inv:
  assumes inv: "think_inv lw d" and b: "begin_return e ch nid d = Inr d'"
  shows "think_inv lw d'"
proof -
  from b obtain n where n: "node_in d ch nid = Some n" "bn_returned n = None" "\<not> bn_pending n" "bn_parent n \<noteq> None"
    "\<forall>c \<in> set (children d nid). bn_returned c \<noteq> None"
    and d': "d' = set_node (\<lambda>x. bn_id x = nid) (\<lambda>x. x\<lparr>bn_returning := Some (th_now e), bn_updated := th_now e\<rparr>) d"
    by (rule begin_return_result)
  have "keyed bn_id (th_nodes d)" using inv by (simp add: think_inv_def tree_ok_def)
  then have "x = n" if "x \<in> set (th_nodes d)" "bn_id x = nid" for x
    using keyed_unique that node_in_facts [OF n(1)] by metis
  moreover have "settled d n" using n node_in_facts [OF n(1)] by (auto simp: settled_def children_def)
  ultimately have "lawful d (\<lambda>x. bn_id x = nid) (\<lambda>x. x\<lparr>bn_returning := Some (th_now e), bn_updated := th_now e\<rparr>)"
    using n(2) by (auto simp: lawful_def frame_def)
  then show ?thesis unfolding d' by (rule update_inv [OF inv])
qed

lemma cancel_return_inv: "think_inv lw d \<Longrightarrow> think_inv lw (fst (cancel_return e nid d))"
  by (simp add: cancel_return_def Let_def update_inv quiet_lawful)

lemma release_return_inv: "think_inv lw d \<Longrightarrow> think_inv lw (release_cancelled_inbox_return e nid agent d)"
  by (simp add: release_cancelled_inbox_return_def update_inv quiet_lawful)

lemma bind_session_inv: "think_inv lw d \<Longrightarrow> bind_node_session e s nid agent d = Inr d' \<Longrightarrow> think_inv lw d'"
  by (auto simp: bind_node_session_def Let_def split: if_splits intro!: update_inv quiet_lawful)

lemma insert_message_inv:
  assumes "think_inv lw d" and "insert_node_message e mid ch nid st sender content d = Inr d'"
  shows "think_inv lw d'"
proof -
  have fk: "\<And>m p. m \<in> set (th_messages d) \<Longrightarrow> nm_node m = Some p \<Longrightarrow> p \<in> bn_id ` set (th_nodes d)"
    using assms(1) by (simp add: think_inv_def notes_ok_def)
  show ?thesis
    using assms(2) fk by (auto simp: insert_node_message_def exists_row_iff split: if_splits intro!: messages_inv [OF assms(1)])
qed

lemma split_branches_inv: "think_inv lw d \<Longrightarrow> th_lower e = lw \<Longrightarrow> think_inv lw (split_branches e ch nid agent i ts d)"
  by (induction e ch nid agent i ts d rule: split_branches.induct) (auto split: sum.splits dest: create_child_inv)

lemma write_post_inv:
  assumes inv: "think_inv lw d" and lw: "th_lower e = lw" and w: "write_node_post e ch nid st sender p d = Inr d'"
  shows "think_inv lw d'"
proof (cases p)
  case (NodeProtocol q)
  then have "deliver_protocol e (th_uuid e 0) ch nid sender q d = Inr d'" using w by (simp add: write_node_post_def)
  then show ?thesis
    using save_checkpoint_inv [OF inv] complete_fork_inv [OF inv] complete_return_inv [OF inv]
    by (auto simp: deliver_protocol_def split: handoff_kind.splits)
next
  case (NodeMessage content titles)
  then obtain d1 where "insert_node_message e (th_uuid e 0) ch nid st sender content d = Inr d1"
    and "d' = split_branches e ch nid sender 1 titles d1"
    using w by (auto simp: write_node_post_def split: sum.splits)
  then show ?thesis using split_branches_inv [OF insert_message_inv [OF inv] lw] by blast
qed

section \<open>The machine of all operations\<close>

text \<open>
  Writing what a handler decided about a message is a step of its own, whatever the branch was when it decided.
  The other steps change the world around: messages of the channel, deleted messages, an agent that is removed,
  and everything the service only reads.
\<close>

datatype think_op =
    OpEnsure id id | OpEnsureTx id id | OpFromMessage id id id string id | OpChild id id id string id string
  | OpCheckpoint id id id string | OpRefresh id id | OpFork id id id id string | OpBeginReturn id id
  | OpCompleteReturn id id id id string | OpCancelReturn id | OpRelease id id | OpBind id id id
  | OpWrite id id string id node_post | OpMessage node_message | OpDelete id | OpUnassign id | OpWorld think_db

definition or_same :: "think_db \<Rightarrow> 'e + think_db \<Rightarrow> think_db" where
  "or_same d r = (case r of Inl _ \<Rightarrow> d | Inr d' \<Rightarrow> d')"

fun think_do :: "think_env \<Rightarrow> think_op \<Rightarrow> think_db \<Rightarrow> think_db" where
  "think_do e (OpEnsure ch actor) d = or_same d (ensure e ch actor d)"
| "think_do e (OpEnsureTx ch actor) d = or_same d (ensure_tx e ch actor d)"
| "think_do e (OpFromMessage nid ch mid title actor) d =
     (case create_from_message e nid ch mid title actor d of Inl (err, d') \<Rightarrow> d' | Inr d' \<Rightarrow> d')"
| "think_do e (OpChild nid ch pid title actor source) d = or_same d (create_child e nid ch pid title actor source d)"
| "think_do e (OpCheckpoint ch nid agent text) d = or_same d (save_checkpoint_handoff e ch nid agent text d)"
| "think_do e (OpRefresh ch nid) d = or_same d (prepare_checkpoint_refresh ch nid d)"
| "think_do e (OpFork ch pid cid agent text) d = or_same d (complete_fork_handoff e ch pid cid agent text d)"
| "think_do e (OpBeginReturn ch nid) d = or_same d (begin_return e ch nid d)"
| "think_do e (OpCompleteReturn mid ch nid agent text) d = or_same d (complete_return e mid ch nid agent text d)"
| "think_do e (OpCancelReturn nid) d = fst (cancel_return e nid d)"
| "think_do e (OpRelease nid agent) d = release_cancelled_inbox_return e nid agent d"
| "think_do e (OpBind session nid agent) d = or_same d (bind_node_session e session nid agent d)"
| "think_do e (OpWrite ch nid sender_type sender p) d = or_same d (write_node_post e ch nid sender_type sender p d)"
| "think_do e (OpMessage m) d = d\<lparr>th_messages := th_messages d @ [m\<lparr>nm_node := None, nm_type := ''text''\<rparr>]\<rparr>"
| "think_do e (OpDelete mid) d =
     d\<lparr>th_messages := update_where (\<lambda>m. nm_id m = mid) (\<lambda>m. m\<lparr>nm_deleted := True\<rparr>) (th_messages d)\<rparr>"
| "think_do e (OpUnassign agent) d = set_node (\<lambda>n. bn_agent n = Some agent) (\<lambda>n. n\<lparr>bn_agent := None\<rparr>) d"
| "think_do e (OpWorld w) d =
     d\<lparr>th_channels := th_channels w, th_agents := th_agents w, th_users := th_users w, th_members := th_members w,
       th_edges := th_edges w, th_runs := th_runs w\<rparr>"

text \<open>PostgreSQL's \<open>lower\<close> is the same in every step.\<close>

fun think_step :: "(string \<Rightarrow> string) \<Rightarrow> think_db \<Rightarrow> think_env \<times> think_op \<Rightarrow> think_db" where
  "think_step lw d (e, op) = think_do (e\<lparr>th_lower := lw\<rparr>) op d"

lemma or_same_inv: "think_inv lw d \<Longrightarrow> (\<And>d'. r = Inr d' \<Longrightarrow> think_inv lw d') \<Longrightarrow> think_inv lw (or_same d r)"
  by (simp add: or_same_def split: sum.splits)

lemma refresh_same: "prepare_checkpoint_refresh ch nid d = Inr d' \<Longrightarrow> d' = d"
  by (auto simp: prepare_checkpoint_refresh_def split: option.splits if_splits)

lemma create_from_message_inv:
  assumes inv: "think_inv lw d" and lw: "th_lower e = lw"
  shows "case create_from_message e nid ch mid text actor d of Inl (err, d') \<Rightarrow> think_inv lw d' | Inr d' \<Rightarrow> think_inv lw d'"
proof (cases "title_ok (trim_space text)")
  case False
  with inv show ?thesis by (simp add: create_from_message_def Let_def)
next
  case True
  show ?thesis
  proof (cases "ensure e ch actor d")
    case (Inl err)
    with True inv show ?thesis by (simp add: create_from_message_def Let_def)
  next
    case (Inr d1)
    then have "think_inv lw d1" using ensure_inv [OF inv lw] by blast
    with True Inr show ?thesis
      using create_from_message_tx_inv [OF _ lw] by (simp add: create_from_message_def Let_def split: sum.splits)
  qed
qed

lemma think_do_inv:
  assumes inv: "think_inv lw d" and lw: "th_lower e = lw"
  shows "think_inv lw (think_do e op d)"
proof (cases op)
  case (OpFromMessage nid ch mid title actor)
  then show ?thesis using create_from_message_inv [OF inv lw, of nid ch mid title actor] by (simp split: sum.splits prod.splits)
next
  case (OpRefresh ch nid)
  have "or_same d (prepare_checkpoint_refresh ch nid d) = d"
    using refresh_same by (auto simp: or_same_def split: sum.splits)
  then show ?thesis using OpRefresh inv by simp
next
  case (OpMessage m)
  show ?thesis
    unfolding OpMessage think_do.simps
    by (rule messages_inv [OF inv]) (use inv in \<open>auto simp: think_inv_def notes_ok_def\<close>)
next
  case (OpDelete mid)
  have "filter (\<lambda>m. nm_type m = ''thinking_handoff'') (map (\<lambda>m. m\<lparr>nm_deleted := False\<rparr>)
          (update_where (\<lambda>m. nm_id m = mid) (\<lambda>m. m\<lparr>nm_deleted := True\<rparr>) ms)) =
        filter (\<lambda>m. nm_type m = ''thinking_handoff'') (map (\<lambda>m. m\<lparr>nm_deleted := False\<rparr>) ms)" for ms
    by (induction ms) (auto simp: update_where_def)
  moreover have "p \<in> bn_id ` set (th_nodes d)"
    if "m \<in> set (update_where (\<lambda>m. nm_id m = mid) (\<lambda>m. m\<lparr>nm_deleted := True\<rparr>) (th_messages d))" "nm_node m = Some p" for m p
    using that inv by (auto simp: think_inv_def notes_ok_def set_update_where split: if_splits)
  ultimately show ?thesis unfolding OpDelete think_do.simps by (rule messages_inv [OF inv])
next
  case (OpWorld w)
  then show ?thesis using inv think_inv_cong [of "think_do e op d" d] by simp
next
  case (OpUnassign agent)
  then show ?thesis using inv by (simp add: update_inv quiet_lawful)
qed (use inv lw in \<open>auto intro!: or_same_inv cancel_return_inv release_return_inv
       dest: ensure_inv ensure_tx_inv create_child_inv save_checkpoint_inv complete_fork_inv begin_return_inv
         complete_return_inv bind_session_inv write_post_inv\<close>)

interpretation branches: op_machine "think_step lw" "think_inv lw" for lw
proof unfold_locales
  fix d and o1 :: "think_env \<times> think_op"
  assume "think_inv lw d"
  then show "think_inv lw (think_step lw d o1)" by (cases o1) (simp add: think_do_inv)
qed

section \<open>The shape of a space\<close>

definition parent_of :: "think_db \<Rightarrow> thinking_node \<Rightarrow> thinking_node \<Rightarrow> bool" where
  "parent_of d c p \<longleftrightarrow> c \<in> set (th_nodes d) \<and> p \<in> set (th_nodes d) \<and> bn_parent c = Some (bn_id p)"

definition no_spaces :: "think_db \<Rightarrow> bool" where
  "no_spaces d \<longleftrightarrow> th_spaces d = [] \<and> th_nodes d = [] \<and> (\<forall>m \<in> set (th_messages d). nm_node m = None)"

lemma no_spaces_inv: "no_spaces d \<Longrightarrow> think_inv lw d"
  by (auto simp: no_spaces_def think_inv_def tree_ok_def phases_ok_def notes_ok_def arrived_def returned_to_def children_def
      keyed_def single_root_def filter_empty_conv)

lemma has_parent:
  assumes "tree_ok lw d" and "n \<in> set (th_nodes d)" and "bn_parent n \<noteq> None"
  obtains p where "parent_of d n p" "bn_space p = bn_space n" "bn_depth n = bn_depth p + 1"
proof -
  have "hangs d n" using assms(1,2) by (simp add: tree_ok_def)
  then show ?thesis using assms(2,3) that by (auto simp: hangs_def parent_of_def)
qed

text \<open>
  C29. The branches of a channel form a tree. Whatever is created, forked, returned, cancelled, sent or removed
  in any order, every branch hangs off the one root of its space, as many steps up as its depth says, which is
  at most six; no two branches of one parent have titles that differ in case only, and they are numbered in the
  order they were created.
\<close>

theorem branches_form_trees:
  assumes "no_spaces d0" and "n \<in> set (th_nodes (foldl (think_step lw) d0 ops))"
  defines "d \<equiv> foldl (think_step lw) d0 ops"
  shows "(\<exists>!r. r \<in> set (th_nodes d) \<and> bn_parent r = None \<and> bn_space r = bn_space n) \<and>
         (\<exists>r. bn_parent r = None \<and> bn_space r = bn_space n \<and> ((parent_of d) ^^ nat (bn_depth n)) n r) \<and>
         0 \<le> bn_depth n \<and> bn_depth n \<le> 6 \<and>
         distinct (map (\<lambda>c. lw (bn_title c)) (children d (bn_id n))) \<and>
         map bn_order (children d (bn_id n)) = map int [0..<length (children d (bn_id n))]"
proof -
  have ok: "tree_ok lw d"
    unfolding d_def using branches.run_inv [OF no_spaces_inv [OF assms(1)]] by (simp add: think_inv_def)
  have up: "\<exists>r. r \<in> set (th_nodes d) \<and> bn_parent r = None \<and> bn_space r = bn_space x \<and> ((parent_of d) ^^ k) x r"
    if "x \<in> set (th_nodes d)" "k = nat (bn_depth x)" for x k
    using that
  proof (induction k arbitrary: x)
    case 0
    have "bn_parent x = None"
    proof (rule ccontr)
      assume "bn_parent x \<noteq> None"
      then obtain p where "parent_of d x p" "bn_depth x = bn_depth p + 1" using has_parent [OF ok 0(1)] by blast
      moreover from this have "0 \<le> bn_depth p" using ok by (simp add: parent_of_def tree_ok_def hangs_def)
      ultimately show False using 0(2) by simp
    qed
    with 0 show ?case by auto
  next
    case (Suc k)
    have "hangs d x" using ok Suc.prems(1) by (simp add: tree_ok_def)
    then have "bn_parent x \<noteq> None" using Suc.prems(2) by (auto simp: hangs_def split: option.splits)
    then obtain p where p: "parent_of d x p" "bn_space p = bn_space x" "bn_depth x = bn_depth p + 1"
      using has_parent [OF ok Suc.prems(1)] by blast
    then have "p \<in> set (th_nodes d)" "k = nat (bn_depth p)" using Suc.prems(2) by (simp_all add: parent_of_def)
    then obtain r where "r \<in> set (th_nodes d)" "bn_parent r = None" "bn_space r = bn_space p" "((parent_of d) ^^ k) p r"
      using Suc.IH by blast
    then show ?case using p by (metis relpowp_Suc_I2)
  qed
  have n: "n \<in> set (th_nodes d)" using assms(2) by (simp add: d_def)
  then obtain r where r: "r \<in> set (th_nodes d)" "bn_parent r = None" "bn_space r = bn_space n"
      "((parent_of d) ^^ nat (bn_depth n)) n r" using up by blast
  have "y = r" if "y \<in> set (th_nodes d)" "bn_parent y = None" "bn_space y = bn_space n" for y
    using unique_node [OF ok that(1) r(1)] one_root [OF ok that(1) r(1) that(2) r(2)] that(3) r(3) by simp
  then have "\<exists>!r. r \<in> set (th_nodes d) \<and> bn_parent r = None \<and> bn_space r = bn_space n" using r by blast
  moreover have "hangs d n" "distinct (map (lw \<circ> bn_title) (children d (bn_id n)))"
      "map bn_order (children d (bn_id n)) = map int [0..<length (children d (bn_id n))]"
    using ok n by (simp_all add: tree_ok_def)
  ultimately show ?thesis using r(2-4) by (auto simp: hangs_def maxThinkingDepth_def comp_def)
qed

text \<open>
  C30. Branches return bottom up: when a branch is returning or has returned, all branches below it, at any
  distance, have returned before, each with a handoff that is not empty.
\<close>

theorem branches_return_bottom_up:
  assumes "no_spaces d0" and "(parent_of (foldl (think_step lw) d0 ops))\<^sup>+\<^sup>+ m n" and "bn_returning n \<noteq> None \<or> bn_returned n \<noteq> None"
  shows "bn_returned m \<noteq> None \<and> bn_handoff m \<noteq> [] \<and> bn_returning m = None"
proof -
  let ?d = "foldl (think_step lw) d0 ops"
  have ph: "phases_ok ?d" using branches.run_inv [OF no_spaces_inv [OF assms(1)]] by (simp add: think_inv_def)
  have one: "bn_returned c \<noteq> None" if "parent_of ?d c p" "bn_returning p \<noteq> None \<or> bn_returned p \<noteq> None" for c p
    using that phase_facts(1) [OF ph, of p] by (auto simp: parent_of_def settled_def)
  from assms(2,3) have "bn_returned m \<noteq> None"
  proof (induction rule: tranclp_induct)
    case (base y)
    then show ?case using one by blast
  next
    case (step y z)
    then show ?case using one by blast
  qed
  moreover have "m \<in> set (th_nodes ?d)" using tranclpD [OF assms(2)] by (auto simp: parent_of_def)
  ultimately show ?thesis using phase_facts(2,3) [OF ph] by blast
qed

text \<open>
  C31. A handoff that was returned arrives exactly once: the handoff messages in the conversation of a branch are, as
  a multiset and word for word, the handoffs of those of its branches that have returned.
\<close>

theorem each_handoff_arrives_once:
  assumes "no_spaces d0"
  shows "mset (map nm_content (filter (\<lambda>m. nm_node m = Some p \<and> nm_type m = ''thinking_handoff'')
            (th_messages (foldl (think_step lw) d0 ops)))) =
         mset (map handoff_note (filter (\<lambda>c. bn_returned c \<noteq> None) (children (foldl (think_step lw) d0 ops) p)))"
  using branches.run_inv [OF no_spaces_inv [OF assms], of lw ops]
  by (simp add: think_inv_def notes_ok_def arrived_def returned_to_def)

section \<open>The phases of a branch\<close>

text \<open>What a branch is to the people who work with it, as a machine of its own.\<close>

datatype phase = Preparing | Active | Returning | Returned

inductive phase_step :: "phase \<Rightarrow> phase \<Rightarrow> bool" where
  stays: "phase_step x x"
| forked: "phase_step Preparing Active"
| begins: "phase_step Active Returning"
| cancelled: "phase_step Returning Active"
| returns: "phase_step Returning Returned"

inductive_cases from_returned: "phase_step Returned x"

definition phase_of :: "thinking_node \<Rightarrow> phase" where
  "phase_of n =
     (if bn_returned n \<noteq> None then Returned else if bn_returning n \<noteq> None then Returning
      else if bn_pending n then Preparing else Active)"

definition branch_step :: "thinking_node \<Rightarrow> thinking_node \<Rightarrow> bool" where
  "branch_step n n' \<longleftrightarrow>
     frame n' = frame n \<and> phase_step (phase_of n) (phase_of n') \<and>
     (phase_of n = Returned \<longrightarrow>
        bn_handoff n' = bn_handoff n \<and> bn_checkpoint n' = bn_checkpoint n \<and> bn_inherited n' = bn_inherited n)"

definition follows_phases :: "think_db \<Rightarrow> think_db \<Rightarrow> bool" where
  "follows_phases d d' \<longleftrightarrow> (\<forall>n \<in> set (th_nodes d). \<exists>n' \<in> set (th_nodes d'). branch_step n n')"

lemma branch_stays [simp]: "branch_step n n"
  by (simp add: branch_step_def phase_step.stays)

lemma grown_follows: "set (th_nodes d) \<subseteq> set (th_nodes d') \<Longrightarrow> follows_phases d d'"
  unfolding follows_phases_def by (meson branch_stays subsetD)

lemma update_follows:
  assumes "\<And>n. n \<in> set (th_nodes d) \<Longrightarrow> P n \<Longrightarrow> branch_step n (f n)"
  shows "follows_phases d (set_node P f d)"
  unfolding follows_phases_def set_node_nodes using assms branch_stays by (metis (mono_tags, lifting) imageI)

lemma set_one_follows:
  assumes "set_one_node P f d = Inr d'" and "\<And>n. n \<in> set (th_nodes d) \<Longrightarrow> P n \<Longrightarrow> branch_step n (f n)"
  shows "follows_phases d d'"
  using assms update_follows [of d P f] by (simp add: set_one_node_def split: if_splits)

lemma insert_nodes: "insert_node e n d = Inr d' \<Longrightarrow> set (th_nodes d) \<subseteq> set (th_nodes d')"
  using insert_node_result(1) by fastforce

lemma insert_team_nodes: "insert_team e space root actor i cs d = Inr d' \<Longrightarrow> set (th_nodes d) \<subseteq> set (th_nodes d')"
  by (induction e space root actor i cs d rule: insert_team.induct) (auto split: sum.splits dest!: insert_nodes)

lemma ensure_tx_nodes: "ensure_tx e ch actor d = Inr d' \<Longrightarrow> set (th_nodes d) \<subseteq> set (th_nodes d')"
  by (fastforce simp: ensure_tx_def Let_def split: option.splits if_splits prod.splits sum.splits
      dest!: insert_nodes insert_team_nodes)

lemma ensure_nodes: "ensure e ch actor d = Inr d' \<Longrightarrow> set (th_nodes d) \<subseteq> set (th_nodes d')"
  by (auto simp: ensure_def split: option.splits dest: ensure_tx_nodes)

lemma from_message_tx_nodes: "create_from_message_tx e nid ch mid title actor d = Inr d' \<Longrightarrow> set (th_nodes d) \<subseteq> set (th_nodes d')"
  by (auto simp: create_from_message_tx_def split: option.splits if_splits dest!: insert_nodes)

lemma create_child_nodes: "create_child e nid ch pid text actor source d = Inr d' \<Longrightarrow> set (th_nodes d) \<subseteq> set (th_nodes d')"
  by (auto simp: create_child_def Let_def split: option.splits if_splits dest!: insert_nodes)

lemma split_branches_nodes: "set (th_nodes d) \<subseteq> set (th_nodes (split_branches e ch nid agent i ts d))"
  by (induction e ch nid agent i ts d rule: split_branches.induct) (auto split: sum.splits dest!: create_child_nodes)

lemma complete_return_follows:
  assumes inv: "think_inv lw d" and "complete_return e mid ch nid agent text d = Inr d'"
  shows "follows_phases d d'"
proof -
  from assms(2) obtain n pid where n: "n \<in> set (th_nodes d)" "bn_id n = nid" "bn_returned n = None" "bn_returning n \<noteq> None"
    and d': "d' = (set_node (\<lambda>x. bn_id x = nid) (sealed e (trim_space text)) d)
            \<lparr>th_messages := th_messages d @ [return_message e mid ch n pid (trim_space text)]\<rparr>"
    by (rule complete_return_result)
  have "x = n" if "x \<in> set (th_nodes d)" "bn_id x = nid" for x
    using inv unique_node [of lw d x n] that n(1,2) by (simp add: think_inv_def)
  moreover have "branch_step n (sealed e (trim_space text) n)"
    using n by (auto simp: branch_step_def phase_of_def intro: phase_step.returns)
  ultimately have "follows_phases d (set_node (\<lambda>x. bn_id x = nid) (sealed e (trim_space text)) d)"
    by (intro update_follows) blast
  then show ?thesis unfolding d' by (simp add: follows_phases_def)
qed

lemma begin_return_follows:
  assumes inv: "think_inv lw d" and b: "begin_return e ch nid d = Inr d'"
  shows "follows_phases d d'"
proof -
  from b obtain n where n: "node_in d ch nid = Some n" "bn_returned n = None" "bn_returning n = None" "\<not> bn_pending n"
    and d': "d' = set_node (\<lambda>x. bn_id x = nid) (\<lambda>x. x\<lparr>bn_returning := Some (th_now e), bn_updated := th_now e\<rparr>) d"
    by (rule begin_return_result)
  have "keyed bn_id (th_nodes d)" using inv by (simp add: think_inv_def tree_ok_def)
  then have "x = n" if "x \<in> set (th_nodes d)" "bn_id x = nid" for x
    using keyed_unique that node_in_facts [OF n(1)] by metis
  then show ?thesis
    unfolding d' using n by (intro update_follows) (auto simp: branch_step_def phase_of_def frame_def intro: phase_step.begins)
qed

lemma fork_follows:
  assumes inv: "think_inv lw d" and "complete_fork_handoff e ch pid cid agent text d = Inr d'"
  shows "follows_phases d d'"
proof -
  have "bn_returning n = None" if "n \<in> set (th_nodes d)" "bn_pending n" for n
  proof -
    have "phases_ok d" using inv by (simp add: think_inv_def)
    from phase_facts(1) [OF this that(1)] that(2) show ?thesis unfolding settled_def by blast
  qed
  then have "branch_step n (n\<lparr>bn_inherited := h, bn_pending := False, bn_fork_at := a, bn_updated := t\<rparr>)"
    if "n \<in> set (th_nodes d)" "bn_pending n" "bn_returned n = None" for n h a t
    using that by (auto simp: branch_step_def phase_of_def frame_def intro: phase_step.forked)
  then show ?thesis
    using assms(2) by (auto simp: complete_fork_handoff_def Let_def split: if_splits elim!: set_one_follows)
qed

lemma checkpoint_follows:
  assumes "save_checkpoint_handoff e ch nid agent text d = Inr d'"
  shows "follows_phases d d'"
proof -
  have "branch_step n (n\<lparr>bn_checkpoint := h, bn_checkpoint_at := a, bn_updated := t\<rparr>)"
    if "bn_returning n = None" "bn_returned n = None" "\<not> bn_pending n" for n h a t
    using that by (simp add: branch_step_def phase_of_def frame_def phase_step.stays)
  then show ?thesis
    using assms by (auto simp: save_checkpoint_handoff_def Let_def split: if_splits elim!: set_one_follows)
qed

lemma clearing_step: "bn_returned n = None \<Longrightarrow> \<not> (bn_returning n \<noteq> None \<and> bn_pending n) \<Longrightarrow>
    branch_step n (n\<lparr>bn_returning := None, bn_updated := t\<rparr>)"
  by (auto simp: branch_step_def phase_of_def frame_def intro: phase_step.intros)

lemma quiet_steps:
  "branch_step n (n\<lparr>bn_session := s, bn_updated := t\<rparr>)" "branch_step n (n\<lparr>bn_agent := a\<rparr>)"
  by (simp_all add: branch_step_def phase_of_def frame_def phase_step.stays)

lemma write_post_follows:
  assumes inv: "think_inv lw d" and w: "write_node_post e ch nid st sender p d = Inr d'"
  shows "follows_phases d d'"
proof (cases p)
  case (NodeProtocol q)
  then have "deliver_protocol e (th_uuid e 0) ch nid sender q d = Inr d'" using w by (simp add: write_node_post_def)
  then show ?thesis
    using checkpoint_follows fork_follows [OF inv] complete_return_follows [OF inv]
    by (auto simp: deliver_protocol_def split: handoff_kind.splits)
next
  case (NodeMessage content titles)
  then obtain d1 where "insert_node_message e (th_uuid e 0) ch nid st sender content d = Inr d1"
    and d': "d' = split_branches e ch nid sender 1 titles d1"
    using w by (auto simp: write_node_post_def split: sum.splits)
  then have "th_nodes d1 = th_nodes d" by (auto simp: insert_node_message_def split: if_splits)
  then show ?thesis
    unfolding d' using split_branches_nodes [of d1 e ch nid sender 1 titles] by (simp add: grown_follows)
qed

lemma or_same_follows: "(\<And>d'. r = Inr d' \<Longrightarrow> follows_phases d d') \<Longrightarrow> follows_phases d (or_same d r)"
  by (simp add: or_same_def grown_follows split: sum.splits)

lemma from_message_follows:
  "follows_phases d (case create_from_message e nid ch mid text actor d of Inl (err, d') \<Rightarrow> d' | Inr d' \<Rightarrow> d')"
proof (cases "title_ok (trim_space text)")
  case False
  then show ?thesis by (simp add: create_from_message_def Let_def grown_follows)
next
  case True
  show ?thesis
  proof (cases "ensure e ch actor d")
    case (Inl err)
    with True show ?thesis by (simp add: create_from_message_def Let_def grown_follows)
  next
    case (Inr d1)
    have one: "set (th_nodes d) \<subseteq> set (th_nodes d1)" using ensure_nodes [OF Inr] .
    show ?thesis
    proof (cases "create_from_message_tx e nid ch mid (trim_space text) actor d1")
      case (Inl err)
      with True Inr one show ?thesis by (simp add: create_from_message_def Let_def grown_follows)
    next
      case (Inr d2)
      have "set (th_nodes d1) \<subseteq> set (th_nodes d2)" using from_message_tx_nodes [OF Inr] .
      with True Inr one \<open>ensure e ch actor d = Inr d1\<close> show ?thesis
        by (simp add: create_from_message_def Let_def grown_follows)
    qed
  qed
qed

lemma clearing_follows:
  assumes "think_inv lw d" and "\<And>n. P n \<Longrightarrow> bn_returned n = None"
  shows "follows_phases d (set_node P (\<lambda>n. n\<lparr>bn_returning := None, bn_updated := t\<rparr>) d)"
proof (rule update_follows)
  fix n
  assume n: "n \<in> set (th_nodes d)" "P n"
  have "phases_ok d" using assms(1) by (simp add: think_inv_def)
  then have "\<not> (bn_returning n \<noteq> None \<and> bn_pending n)" using phase_facts(1) [OF _ n(1)] unfolding settled_def by blast
  then show "branch_step n (n\<lparr>bn_returning := None, bn_updated := t\<rparr>)" using clearing_step assms(2) n(2) by blast
qed

lemma think_do_follows:
  assumes inv: "think_inv lw d"
  shows "follows_phases d (think_do e op d)"
proof (cases op)
  case (OpFromMessage nid ch mid title actor)
  then show ?thesis using from_message_follows by simp
next
  case (OpRefresh ch nid)
  have "or_same d (prepare_checkpoint_refresh ch nid d) = d"
    using refresh_same by (auto simp: or_same_def split: sum.splits)
  then show ?thesis using OpRefresh grown_follows by simp
next
  case (OpCancelReturn nid)
  show ?thesis unfolding OpCancelReturn think_do.simps cancel_return_def Let_def fst_conv
    by (intro clearing_follows [OF inv]) simp
next
  case (OpRelease nid agent)
  show ?thesis unfolding OpRelease think_do.simps release_cancelled_inbox_return_def
    by (intro clearing_follows [OF inv]) simp
next
  case (OpBind session nid agent)
  then show ?thesis
    by (auto simp: bind_node_session_def Let_def split: if_splits intro!: or_same_follows update_follows quiet_steps)
next
  case (OpMessage m)
  then show ?thesis by (simp add: grown_follows)
next
  case (OpDelete mid)
  then show ?thesis by (simp add: grown_follows)
next
  case (OpWorld w)
  then show ?thesis by (simp add: grown_follows)
qed (use inv in \<open>auto intro!: or_same_follows update_follows quiet_steps
       dest: grown_follows [OF ensure_nodes] grown_follows [OF ensure_tx_nodes] grown_follows [OF create_child_nodes]
         checkpoint_follows fork_follows begin_return_follows complete_return_follows write_post_follows\<close>)

text \<open>
  C32. Every operation is, for each branch, one step of the machine of phases: a branch being prepared becomes
  active when its handoff arrives, an active one starts to return, a returning one goes back or returns, and
  nothing else happens; its place, title and number stay, and what a returned branch says stays as it is.
\<close>

theorem branches_move_through_phases:
  assumes "think_inv lw d" and "n \<in> set (th_nodes d)"
  shows "\<exists>n' \<in> set (th_nodes (think_step lw d (e, op))).
     frame n' = frame n \<and> phase_step (phase_of n) (phase_of n') \<and>
     (phase_of n = Returned \<longrightarrow>
        bn_handoff n' = bn_handoff n \<and> bn_checkpoint n' = bn_checkpoint n \<and> bn_inherited n' = bn_inherited n)"
  using think_do_follows [OF assms(1), of "e\<lparr>th_lower := lw\<rparr>" op] assms(2)
  unfolding follows_phases_def branch_step_def think_step.simps by blast

lemma returned_stays:
  assumes "think_inv lw d" and "n \<in> set (th_nodes d)" and "phase_of n = Returned"
  shows "\<exists>n' \<in> set (th_nodes (foldl (think_step lw) d ops)). frame n' = frame n \<and> phase_of n' = Returned \<and>
           bn_handoff n' = bn_handoff n"
  using assms
proof (induction ops arbitrary: d n)
  case Nil
  then show ?case by auto
next
  case (Cons o1 ops)
  obtain n1 where n1: "n1 \<in> set (th_nodes (think_step lw d o1))" "branch_step n n1"
    using think_do_follows [OF Cons.prems(1)] Cons.prems(2) unfolding follows_phases_def by (cases o1) fastforce
  then have "phase_of n1 = Returned" using Cons.prems(3) by (auto simp: branch_step_def elim: from_returned)
  with n1 Cons.IH [OF branches.step_inv [OF Cons.prems(1)] n1(1)] Cons.prems(3) show ?case
    by (auto simp: branch_step_def)
qed

text \<open>
  A returned branch is sealed: no matter what is tried afterwards, it stays returned with the handoff it
  returned.
\<close>

theorem returned_branch_is_sealed:
  assumes "no_spaces d0" and "n \<in> set (th_nodes (foldl (think_step lw) d0 before))" and "bn_returned n \<noteq> None"
  shows "\<exists>n' \<in> set (th_nodes (foldl (think_step lw) (foldl (think_step lw) d0 before) after)).
           bn_id n' = bn_id n \<and> bn_parent n' = bn_parent n \<and> bn_returned n' \<noteq> None \<and> bn_handoff n' = bn_handoff n \<and>
           bn_handoff n \<noteq> []"
proof -
  have inv: "think_inv lw (foldl (think_step lw) d0 before)" by (rule branches.run_inv [OF no_spaces_inv [OF assms(1)]])
  then have "bn_handoff n \<noteq> []" using phase_facts(3) assms(2,3) by (auto simp: think_inv_def)
  moreover have "phase_of n = Returned" using assms(3) by (simp add: phase_of_def)
  then obtain n' where "n' \<in> set (th_nodes (foldl (think_step lw) (foldl (think_step lw) d0 before) after))"
    "frame n' = frame n" "phase_of n' = Returned" "bn_handoff n' = bn_handoff n"
    using returned_stays [OF inv assms(2)] by blast
  ultimately show ?thesis by (auto simp: frame_def phase_of_def split: if_splits intro!: bexI [of _ n'])
qed

end
