(* ===== verification/Thinking_Texts.thy ===== *)
theory Thinking_Texts
  imports Thinking_Theorems
begin

text \<open>
  What the texts of agents are parsed into: protocol messages and split directives; the team a new space starts
  with; and what the check of a message for a branch does not see. The examples evaluate on one small channel.
\<close>

section \<open>Trimming\<close>

lemma trim_by_id:
  assumes "\<And>p. p \<in> set ps \<Longrightarrow> p \<noteq> [] \<Longrightarrow> take (length p) s \<noteq> p"
  shows "trim_by ps s = s"
proof -
  have "find (\<lambda>p. p \<noteq> [] \<and> take (length p) s = p) ps = None" using assms by (auto simp: find_None_iff)
  then show ?thesis by (subst trim_by.simps) simp
qed

lemma trim_by_drops: "\<exists>k. trim_by ps x = drop k x"
proof (induction "length x" arbitrary: x rule: less_induct)
  case less
  show ?case
  proof (cases "find (\<lambda>p. p \<noteq> [] \<and> take (length p) x = p) ps")
    case None
    then have "trim_by ps x = drop 0 x" by (subst trim_by.simps) simp
    then show ?thesis by blast
  next
    case (Some r)
    then have "r \<noteq> []" "take (length r) x = r" by (auto simp: find_Some_iff)
    then have "length (drop (length r) x) < length x" by (cases x) auto
    then obtain k where "trim_by ps (drop (length r) x) = drop k (drop (length r) x)" using less by blast
    then have "trim_by ps x = drop (k + length r) x" by (subst trim_by.simps) (simp add: Some)
    then show ?thesis by blast
  qed
qed

lemma trim_by_le: "length (trim_by ps x) \<le> length x"
  using trim_by_drops [of ps x] by auto

lemma trim_by_full:
  assumes "length (trim_by ps x) = length x"
  shows "trim_by ps x = x"
proof -
  obtain k where k: "trim_by ps x = drop k x" using trim_by_drops by blast
  then have "k = 0 \<or> x = []" using assms by (cases x) auto
  with k show ?thesis by auto
qed

lemma trim_by_stable:
  assumes "trim_by ps s = s" and "p \<in> set ps" and "p \<noteq> []"
  shows "take (length p) s \<noteq> p"
proof
  assume t: "take (length p) s = p"
  then obtain q where q: "find (\<lambda>p. p \<noteq> [] \<and> take (length p) s = p) ps = Some q"
    using assms(2,3) by (cases "find (\<lambda>p. p \<noteq> [] \<and> take (length p) s = p) ps") (auto simp: find_None_iff)
  then have "q \<noteq> []" "take (length q) s = q" by (auto simp: find_Some_iff)
  then have "length (drop (length q) s) < length s" by (cases s) auto
  moreover have "trim_by ps s = trim_by ps (drop (length q) s)" by (subst trim_by.simps) (simp add: q)
  ultimately show False using trim_by_le [of ps "drop (length q) s"] assms(1) by simp
qed

lemma trimmed_ends:
  assumes "trim_space c = c"
  shows "trim_by (map rev space_runes) (rev c) = rev c"
proof -
  have "length c = length (trim_by (map rev space_runes) (rev (trim_by space_runes c)))"
    using assms by (metis length_rev trim_space_def)
  then have "length c \<le> length (trim_by space_runes c)"
    using trim_by_le [of "map rev space_runes" "rev (trim_by space_runes c)"] by simp
  then have "trim_by space_runes c = c" using trim_by_full trim_by_le [of space_runes c] by (simp add: le_antisym)
  then show ?thesis using assms by (metis rev_rev_ident trim_space_def)
qed

text \<open>A blank that contains a line end is the line end alone, so blanks do not reach over one.\<close>

lemma space_line_end: "p \<in> set (map rev space_runes) \<Longrightarrow> CHR 0x0A \<in> set p \<Longrightarrow> p = [CHR 0x0A]"
  by (auto simp: space_runes_def)

lemma trim_space_lines:
  assumes c: "trim_space c = c" "c \<noteq> []" and tag: "tag = CHR ''['' # t"
  shows "trim_space (tag @ [CHR 0x0A] @ c) = tag @ [CHR 0x0A] @ c"
proof -
  have front: "trim_by space_runes (tag @ [CHR 0x0A] @ c) = tag @ [CHR 0x0A] @ c"
    unfolding tag by (rule trim_by_id) (auto simp: space_runes_def)
  have "take (length p) (rev c @ [CHR 0x0A] @ rev tag) \<noteq> p" if p: "p \<in> set (map rev space_runes)" "p \<noteq> []" for p
  proof (cases "length p \<le> length c")
    case True
    then show ?thesis using trim_by_stable [OF trimmed_ends [OF c(1)] p] by simp
  next
    case False
    show ?thesis
    proof
      assume t: "take (length p) (rev c @ [CHR 0x0A] @ rev tag) = p"
      moreover have "CHR 0x0A \<in> set (take (length p) (rev c @ [CHR 0x0A] @ rev tag))"
        using False by (cases "length p - length c") auto
      ultimately have "p = [CHR 0x0A]" using space_line_end p(1) by metis
      then show False using False c(2) by (cases c) auto
    qed
  qed
  then have "trim_by (map rev space_runes) (rev c @ [CHR 0x0A] @ rev tag) = rev c @ [CHR 0x0A] @ rev tag"
    by (rule trim_by_id)
  then show ?thesis unfolding trim_space_def front by simp
qed

section \<open>Protocol messages\<close>

text \<open>How the prompts ask an agent to write a protocol message.\<close>

fun handoff_tag :: "handoff_kind \<Rightarrow> string" where
  "handoff_tag CheckpointHandoff = ''[[handoff:checkpoint]]''"
| "handoff_tag ReturnHandoff = ''[[handoff:return]]''"
| "handoff_tag (ForkHandoff target) = ''[[handoff:fork:'' @ target @ '']]''"

definition print_handoff :: "handoff_protocol \<Rightarrow> string" where
  "print_handoff p = handoff_tag (hp_kind p) @ [CHR 0x0A] @ hp_content p"

definition handoff_printable :: "(string \<Rightarrow> id option) \<Rightarrow> handoff_protocol \<Rightarrow> bool" where
  "handoff_printable parse p \<longleftrightarrow>
     trim_space (hp_content p) = hp_content p \<and> hp_content p \<noteq> [] \<and>
     (case hp_kind p of ForkHandoff target \<Rightarrow> parse target \<noteq> None \<and> CHR 0x0A \<notin> set target | _ \<Rightarrow> True)"

lemma cut_line_first: "CHR 0x0A \<notin> set a \<Longrightarrow> cut_line (a @ [CHR 0x0A] @ b) = Some (a, b)"
  by (simp add: cut_line_def takeWhile_append dropWhile_append)

lemma kind_of_tag:
  assumes "case k of ForkHandoff target \<Rightarrow> parse target \<noteq> None \<and> CHR 0x0A \<notin> set target | _ \<Rightarrow> True"
  shows "handoff_kind_of parse (handoff_tag k) = Some k"
  using assms by (cases k) (auto simp: handoff_kind_of_def cut_prefix_def has_prefix_def cut_suffix_def)

text \<open>
  C39. What the prompts ask for is what the parser reads: a protocol message written as its tag, a line end and a
  trimmed body is parsed into exactly that protocol, the branch a fork is for included.
\<close>

theorem protocol_messages_round_trip:
  assumes "handoff_printable parse p"
  shows "parse_thinking_handoff_protocol parse (print_handoff p) = Some p"
proof -
  have k: "case hp_kind p of ForkHandoff target \<Rightarrow> parse target \<noteq> None \<and> CHR 0x0A \<notin> set target | _ \<Rightarrow> True"
    and c: "trim_space (hp_content p) = hp_content p" "hp_content p \<noteq> []"
    using assms by (auto simp: handoff_printable_def)
  obtain t where tag: "handoff_tag (hp_kind p) = CHR ''['' # t" by (cases "hp_kind p") auto
  have "CHR 0x0A \<notin> set (handoff_tag (hp_kind p))" using k by (cases "hp_kind p") auto
  then have "cut_line (print_handoff p) = Some (handoff_tag (hp_kind p), hp_content p)"
    unfolding print_handoff_def by (rule cut_line_first)
  moreover have "trim_space (print_handoff p) = print_handoff p"
    unfolding print_handoff_def by (rule trim_space_lines [OF c tag])
  ultimately show ?thesis
    using kind_of_tag [OF k] c by (simp add: parse_thinking_handoff_protocol_def blank_def)
qed

theorem protocol_messages_round_trip_witness:
  "parse_thinking_handoff_protocol Some (print_handoff \<lparr>hp_kind = ForkHandoff ''n1'', hp_content = ''# Handoff''\<rparr>) =
   Some \<lparr>hp_kind = ForkHandoff ''n1'', hp_content = ''# Handoff''\<rparr>"
proof -
  have "handoff_printable Some \<lparr>hp_kind = ForkHandoff ''n1'', hp_content = ''# Handoff''\<rparr>" by code_simp
  then show ?thesis by (rule protocol_messages_round_trip)
qed

section \<open>Split directives\<close>

lemma extract_few: "length (snd (extract_splits k bol s)) \<le> k"
proof (induction k bol s rule: extract_splits.induct)
  case (2 k bol c s)
  show ?case
  proof (cases "if bol then match_split (c # s) else None")
    case None
    then show ?thesis using 2(1) [OF None] by (simp add: extract_splits.simps(2) case_prod_beta)
  next
    case (Some tn)
    obtain t n where tn: "tn = (t, n)" by fastforce
    show ?thesis
    proof (cases "k = 0 \<or> blank t")
      case True
      then show ?thesis using 2(2,3) [OF Some tn [symmetric] refl refl refl] by (auto simp: extract_splits.simps(2) Some tn Let_def case_prod_beta)
    next
      case False
      then have "length (snd (extract_splits (k - 1) (last (take n (c # s)) = CHR 0x0A) (drop n (c # s)))) \<le> k - 1"
        using 2(4) [OF Some tn [symmetric] refl refl refl] by blast
      with False show ?thesis by (auto simp: extract_splits.simps(2) Some tn Let_def case_prod_beta)
    qed
  qed
qed simp

lemma trim_by_idem: "trim_by ps (trim_by ps x) = trim_by ps x"
proof (induction "length x" arbitrary: x rule: less_induct)
  case less
  show ?case
  proof (cases "find (\<lambda>p. p \<noteq> [] \<and> take (length p) x = p) ps")
    case None
    then have "trim_by ps x = x" by (subst trim_by.simps) simp
    then show ?thesis by simp
  next
    case (Some r)
    then have "r \<noteq> []" "take (length r) x = r" by (auto simp: find_Some_iff)
    then have "length (drop (length r) x) < length x" by (cases x) auto
    moreover have "trim_by ps x = trim_by ps (drop (length r) x)" by (subst trim_by.simps) (simp add: Some)
    ultimately show ?thesis using less by simp
  qed
qed

lemma trim_space_idem: "trim_space (trim_space x) = trim_space x"
proof -
  let ?z = "trim_by space_runes x" and ?y = "trim_space x"
  have r: "rev ?y = trim_by (map rev space_runes) (rev ?z)" by (simp add: trim_space_def)
  obtain k where "rev ?y = drop k (rev ?z)" unfolding r using trim_by_drops by blast
  then have y: "?y = take (length ?z - k) ?z" by (metis drop_rev rev_rev_ident rev_swap)
  have "trim_by space_runes ?y = ?y"
  proof (rule trim_by_id)
    fix p
    assume p: "p \<in> set space_runes" "p \<noteq> []"
    have "take (length p) ?z \<noteq> p" using trim_by_stable [OF trim_by_idem p] .
    moreover have "take (length p) ?y = p \<Longrightarrow> take (length p) ?z = p"
      unfolding y by (auto simp: min_def split: if_splits dest!: arg_cong [of _ _ length])
    ultimately show "take (length p) ?y \<noteq> p" by blast
  qed
  moreover have "trim_by (map rev space_runes) (rev ?y) = rev ?y" unfolding r by (rule trim_by_idem)
  ultimately show ?thesis by (simp add: trim_space_def)
qed

lemma rune_count_part: "rune_count (take n s) \<le> rune_count s" "rune_count (drop n s) \<le> rune_count s" "rune_count (rev s) = rune_count s"
proof -
  have "rune_count (take n s) + rune_count (drop n s) = rune_count s"
    unfolding rune_count_def by (metis append_take_drop_id filter_append length_append)
  then show "rune_count (take n s) \<le> rune_count s" "rune_count (drop n s) \<le> rune_count s" by simp_all
  show "rune_count (rev s) = rune_count s" by (simp add: rune_count_def rev_filter [symmetric])
qed

lemma rune_count_trim: "rune_count (trim_space s) \<le> rune_count s"
proof -
  have by_le: "rune_count (trim_by ps x) \<le> rune_count x" for ps x
    using trim_by_drops [of ps x] rune_count_part(2) by metis
  show ?thesis
    unfolding trim_space_def rune_count_part(3)
    using by_le [of "map rev space_runes" "rev (trim_by space_runes s)"] by_le [of space_runes s] rune_count_part(3) by (metis le_trans)
qed

lemma split_title_short: "split_title gap g = Some t \<Longrightarrow> rune_count t \<le> 100"
  using rune_count_le [of "[last gap]"] by (auto simp: split_title_def split: if_splits)

lemma match_split_title: "match_split s = Some (t, n) \<Longrightarrow> rune_count t \<le> 100"
  by (auto simp: match_split_def Let_def split: option.splits if_splits dest: split_title_short)

lemma extracted_titles: "t \<in> set (snd (extract_splits k bol s)) \<Longrightarrow> title_ok (trim_space t)"
proof (induction k bol s rule: extract_splits.induct)
  case (2 k bol c s)
  show ?case
  proof (cases "if bol then match_split (c # s) else None")
    case None
    then show ?thesis using 2(1) [OF None] 2(5) by (simp add: extract_splits.simps(2) case_prod_beta)
  next
    case (Some tn)
    obtain g n where gn: "tn = (g, n)" by fastforce
    have "title_ok (trim_space (trim_space g))" if "\<not> blank g"
      using that Some gn match_split_title [of "c # s" g n] rune_count_trim [of g]
      by (simp add: trim_space_idem title_ok_def blank_def split: if_splits)
    then show ?thesis
      using 2(5) 2(2-4) [OF Some gn [symmetric] refl refl refl]
      by (auto simp: extract_splits.simps(2) Some gn Let_def case_prod_beta split: if_splits)
  qed
qed simp

lemma has_prefix_split: "has_prefix p s \<Longrightarrow> s = p @ drop (length p) s"
  by (metis append_take_drop_id has_prefix_def)

definition has_directive :: "string \<Rightarrow> bool" where
  "has_directive s \<longleftrightarrow> (\<exists>a b. s = a @ ''[[split:'' @ b)"

lemma match_has_directive: "match_split s = Some x \<Longrightarrow> has_directive s"
proof -
  assume "match_split s = Some x"
  then have "has_prefix ''[[split:'' (drop (length (takeWhile re_space s)) s)"
    by (auto simp: match_split_def Let_def cut_prefix_def split: option.splits if_splits)
  then have "\<exists>r. drop (length (takeWhile re_space s)) s = ''[[split:'' @ r" using has_prefix_split by blast
  then obtain r where "drop (length (takeWhile re_space s)) s = ''[[split:'' @ r" by blast
  then have "s = takeWhile re_space s @ ''[[split:'' @ r" by (metis dropWhile_eq_drop takeWhile_dropWhile_id)
  then show ?thesis unfolding has_directive_def by blast
qed

lemma no_directive_unchanged: "\<not> has_directive s \<Longrightarrow> extract_splits k bol s = (s, [])"
proof (induction s arbitrary: bol)
  case (Cons c s)
  have "\<not> has_directive s"
    using Cons.prems unfolding has_directive_def by (metis append_Cons)
  moreover have "match_split (c # s) = None" using Cons.prems match_has_directive by (cases "match_split (c # s)") blast+
  ultimately show ?case using Cons.IH by (simp add: extract_splits.simps(2))
qed simp

text \<open>
  What an agent may ask for by split directives is bounded: at most three branches come out of a message, every
  title is one the service accepts, and a message without a directive is only trimmed.
\<close>

theorem splits_are_bounded:
  "length (snd (extract_thinking_splits s)) \<le> 3 \<and>
   list_all (\<lambda>t. title_ok (trim_space t)) (snd (extract_thinking_splits s)) \<and>
   (has_directive s \<or> extract_thinking_splits s = (trim_space s, []))"
proof -
  have "snd (extract_thinking_splits s) = snd (extract_splits maxAutoSplits True s)"
    by (simp add: extract_thinking_splits_def split: prod.splits)
  moreover have "has_directive s \<or> extract_thinking_splits s = (trim_space s, [])"
    using no_directive_unchanged [of s maxAutoSplits True] by (cases "has_directive s") (simp_all add: extract_thinking_splits_def)
  ultimately show ?thesis
    using extract_few [of maxAutoSplits True s] extracted_titles [of _ maxAutoSplits True s]
    by (simp add: maxAutoSplits_def list_all_iff)
qed

section \<open>The team of a new space\<close>

lemma by_id_in: "team_by_id ags i = Some a \<Longrightarrow> a \<in> set ags \<and> ta_id a = i"
  by (auto simp: team_by_id_def find_Some_iff) (metis nth_mem length_rev set_rev)

lemma candidates_set: "set (team_candidates ags edges) = set ags"
  by (simp add: team_candidates_def)

lemma candidates_least:
  assumes "team_candidates ags edges = r # rest" and "a \<in> set ags"
  shows "(incoming ags edges (ta_id r) \<noteq> 0, - int (outgoing ags edges (ta_id r))) \<le>
         (incoming ags edges (ta_id a) \<noteq> 0, - int (outgoing ags edges (ta_id a)))"
proof -
  let ?f = "\<lambda>a. (incoming ags edges (ta_id a) \<noteq> 0, - int (outgoing ags edges (ta_id a)))"
  have "sorted (map ?f (team_candidates ags edges))" unfolding team_candidates_def by (rule sorted_sort_key)
  then have "\<forall>x \<in> set rest. ?f r \<le> ?f x" unfolding assms(1) list.map sorted_wrt.simps by simp
  moreover have "a = r \<or> a \<in> set rest" using candidates_set [of ags edges] assms by auto
  ultimately show ?thesis by (metis order_refl)
qed

text \<open>
  The root of a new space is given to an agent of the channel that nobody assigns work to, if there is one, and
  among those to one that assigns to most; its first branches are given to agents of the channel other than the
  root's, and a channel of several agents never starts with the root alone.
\<close>

theorem space_starts_from_its_top_agent:
  assumes "ags \<noteq> []" and "distinct (map ta_id ags)" and "\<And>x. (x, x) \<notin> set edges"
    and "choose_thinking_team ags edges = (root, team)"
  shows "root \<in> set ags \<and> set team \<subseteq> set ags \<and> ta_id root \<notin> ta_id ` set team \<and>
         (length ags > 1 \<longrightarrow> team \<noteq> []) \<and>
         (\<forall>a \<in> set ags. incoming ags edges (ta_id a) = 0 \<longrightarrow>
            incoming ags edges (ta_id root) = 0 \<and>
            outgoing ags edges (ta_id a) \<le> outgoing ags edges (ta_id root))"
proof -
  have "team_candidates ags edges \<noteq> []" using candidates_set [of ags edges] assms(1) by auto
  then obtain r rest where r: "team_candidates ags edges = r # rest" by (cases "team_candidates ags edges") auto
  define assigned where "assigned = List.map_filter (\<lambda>(x, y). if x = ta_id r then team_by_id ags y else None) edges"
  have root: "root = r" and team: "team = (if assigned = [] \<and> length ags > 1 then filter (\<lambda>a. ta_id a \<noteq> ta_id r) ags else assigned)"
    using assms(4) by (auto simp: choose_thinking_team_def r assigned_def Let_def)
  have a: "c \<in> set ags \<and> ta_id c \<noteq> ta_id r" if "c \<in> set assigned" for c
    using that assms(3) by (auto simp: assigned_def map_filter_def split: if_splits dest!: by_id_in)
  have in_r: "r \<in> set ags" using candidates_set [of ags edges] r by auto
  have "team \<noteq> []" if "length ags > 1"
  proof
    assume "team = []"
    then have "filter (\<lambda>a. ta_id a \<noteq> ta_id r) ags = []" using that team by (auto split: if_splits)
    then have "set (map ta_id ags) \<subseteq> {ta_id r}" by (auto simp: filter_empty_conv)
    then have "card (set (map ta_id ags)) \<le> 1" using card_mono [of "{ta_id r}" "set (map ta_id ags)"] by simp
    then show False using that distinct_card [OF assms(2)] by simp
  qed
  moreover have "c \<in> set ags \<and> ta_id c \<noteq> ta_id r" if "c \<in> set team" for c
    using that a [of c] team by (auto split: if_splits)
  then have "set team \<subseteq> set ags \<and> ta_id r \<notin> ta_id ` set team" by fastforce
  moreover have "incoming ags edges (ta_id r) = 0 \<and> outgoing ags edges (ta_id b) \<le> outgoing ags edges (ta_id r)"
    if "b \<in> set ags" "incoming ags edges (ta_id b) = 0" for b
    using candidates_least [OF r that(1)] that(2) by auto
  ultimately show ?thesis unfolding root using in_r by (intro conjI ballI impI) simp_all
qed

theorem space_starts_from_its_top_agent_witness:
  "fst (choose_thinking_team [\<lparr>ta_id = ''a'', ta_name = ''A''\<rparr>, \<lparr>ta_id = ''b'', ta_name = ''B''\<rparr>] [(''b'', ''a'')]) =
     \<lparr>ta_id = ''b'', ta_name = ''B''\<rparr> \<and>
   set (snd (choose_thinking_team [\<lparr>ta_id = ''a'', ta_name = ''A''\<rparr>, \<lparr>ta_id = ''b'', ta_name = ''B''\<rparr>] [(''b'', ''a'')]))
     \<subseteq> {\<lparr>ta_id = ''a'', ta_name = ''A''\<rparr>, \<lparr>ta_id = ''b'', ta_name = ''B''\<rparr>}"
proof -
  let ?ags = "[\<lparr>ta_id = ''a'', ta_name = ''A''\<rparr>, \<lparr>ta_id = ''b'', ta_name = ''B''\<rparr>]"
  have "\<And>x. (x, x) \<notin> set [(''b'', ''a'')]" by auto
  moreover have "distinct (map ta_id ?ags)" "?ags \<noteq> []" by simp_all
  ultimately have "set (snd (choose_thinking_team ?ags [(''b'', ''a'')])) \<subseteq> set ?ags"
    using space_starts_from_its_top_agent [of ?ags "[(''b'', ''a'')]"] by (metis prod.collapse)
  moreover have "fst (choose_thinking_team ?ags [(''b'', ''a'')]) = \<lparr>ta_id = ''b'', ta_name = ''B''\<rparr>" by code_simp
  ultimately show ?thesis by simp
qed

section \<open>What the check of a message does not see\<close>

text \<open>
  The check of a message for a branch is no part of the transaction that writes it: a person's message that was
  checked while the branch was active is stored even when the branch has returned in between, although the
  service means to close returned branches.
\<close>

theorem late_message_enters_sealed_branch:
  assumes "check_node_post e ch nid ''user'' u content d = Inr p"
    and "n \<in> set (th_nodes (foldl (think_step lw) d ops))" and "bn_id n = nid" and "bn_returned n \<noteq> None"
    and "th_uuid e 0 \<notin> nm_id ` set (th_messages (foldl (think_step lw) d ops))"
  shows "\<exists>d'. write_node_post e ch nid ''user'' u p (foldl (think_step lw) d ops) = Inr d' \<and> n \<in> set (th_nodes d') \<and>
     (\<exists>m. m \<in> set (shown_messages d' nid) \<and> nm_id m = th_uuid e 0 \<and> nm_sender m = u \<and> nm_content m = content)"
proof -
  have p: "p = NodeMessage content []"
    using assms(1) by (auto simp: check_node_post_def Let_def split: sum.splits if_splits)
  let ?d = "foldl (think_step lw) d ops"
  let ?m = "\<lparr>nm_id = th_uuid e 0, nm_channel = ch, nm_node = Some nid, nm_sender_type = ''user'', nm_sender = u,
               nm_content = content, nm_type = ''text'', nm_deleted = False, nm_created = th_now e\<rparr>"
  have "\<not> exists_row (\<lambda>m. nm_id m = th_uuid e 0) (th_messages ?d)" unfolding exists_row_iff using assms(5) by (metis imageI)
  moreover have "exists_row (\<lambda>n. bn_id n = nid) (th_nodes ?d)" using assms(2,3) by (auto simp: exists_row_iff)
  ultimately have "write_node_post e ch nid ''user'' u p ?d = Inr (?d\<lparr>th_messages := th_messages ?d @ [?m]\<rparr>)"
    by (simp add: p write_node_post_def insert_node_message_def)
  moreover have "?m \<in> set (shown_messages (?d\<lparr>th_messages := th_messages ?d @ [?m]\<rparr>) nid)" by (simp add: shown_messages_def)
  ultimately show ?thesis
    using assms(2) by (intro exI [of _ "?d\<lparr>th_messages := th_messages ?d @ [?m]\<rparr>"] conjI exI [of _ ?m]) simp_all
qed

section \<open>The properties on a small channel\<close>

definition tk_env :: "string \<Rightarrow> think_env" where
  "tk_env s = \<lparr>th_now = 1, th_uuid = (\<lambda>i. s @ replicate i (CHR ''x'')), th_lower = (\<lambda>t. t), th_parse = Some, th_rfc3339 = (\<lambda>_. [])\<rparr>"

definition tk_db :: think_db where
  "tk_db = \<lparr>th_channels = [\<lparr>kc_id = ''c'', kc_name = ''Team'', kc_archived = False\<rparr>],
     th_agents = [\<lparr>ka_id = ''a'', ka_name = ''A'', ka_active = True\<rparr>], th_users = [],
     th_members = [\<lparr>km_channel = ''c'', km_type = ''agent'', km_member = ''a'', km_joined = 0\<rparr>], th_edges = [],
     th_spaces = [], th_nodes = [], th_messages = [], th_runs = []\<rparr>"

definition tk_active :: "(think_env \<times> think_op) list" where
  "tk_active =
     [(tk_env ''s'', OpEnsure ''c'' ''u''), (tk_env ''t'', OpChild ''b'' ''c'' ''sx'' ''Branch'' ''u'' ''manual''),
      (tk_env ''m'', OpWrite ''c'' ''b'' ''user'' ''u'' (NodeMessage ''hi'' []))]"

definition tk_return :: "(think_env \<times> think_op) list" where
  "tk_return = [(tk_env ''r'', OpBeginReturn ''c'' ''b''), (tk_env ''r'', OpCompleteReturn ''h'' ''c'' ''b'' ''a'' ''done'')]"

abbreviation tk_open :: think_db where
  "tk_open \<equiv> foldl (think_step (\<lambda>t. t)) tk_db tk_active"

abbreviation tk_closed :: think_db where
  "tk_closed \<equiv> foldl (think_step (\<lambda>t. t)) tk_open tk_return"

abbreviation tk_branch :: thinking_node where
  "tk_branch \<equiv> th_nodes tk_closed ! 1"

lemma tk_start: "no_spaces tk_db"
  by (simp add: no_spaces_def tk_db_def)

lemma tk_size: "1 < length (th_nodes tk_closed)"
  by code_simp

lemma tk_in: "tk_branch \<in> set (th_nodes tk_closed)"
  using tk_size by (rule nth_mem)

theorem branches_form_trees_witness:
  "bn_parent tk_branch = Some ''sx'' \<and>
   (\<exists>r. bn_parent r = None \<and> bn_space r = bn_space tk_branch \<and> ((parent_of tk_closed) ^^ nat (bn_depth tk_branch)) tk_branch r)"
proof -
  have "tk_branch \<in> set (th_nodes (foldl (think_step (\<lambda>t. t)) tk_db (tk_active @ tk_return)))"
    using tk_in by simp
  from branches_form_trees [OF tk_start this]
  have "\<exists>r. bn_parent r = None \<and> bn_space r = bn_space tk_branch \<and> ((parent_of tk_closed) ^^ nat (bn_depth tk_branch)) tk_branch r"
    unfolding foldl_append by blast
  moreover have "bn_parent tk_branch = Some ''sx''" by code_simp
  ultimately show ?thesis by blast
qed

definition tk_deep :: "(think_env \<times> think_op) list" where
  "tk_deep = tk_active @
     [(tk_env ''v'', OpChild ''b2'' ''c'' ''b'' ''Leaf'' ''u'' ''manual''),
      (tk_env ''w'', OpFork ''c'' ''b'' ''b2'' ''a'' ''go''), (tk_env ''n'', OpWrite ''c'' ''b2'' ''user'' ''u'' (NodeMessage ''hi'' [])),
      (tk_env ''r'', OpBeginReturn ''c'' ''b2''), (tk_env ''r'', OpCompleteReturn ''h'' ''c'' ''b2'' ''a'' ''leaf''),
      (tk_env ''r'', OpBeginReturn ''c'' ''b'')]"

theorem branches_return_bottom_up_witness:
  "bn_returning (th_nodes (foldl (think_step (\<lambda>t. t)) tk_db tk_deep) ! 1) \<noteq> None \<and>
   bn_handoff (th_nodes (foldl (think_step (\<lambda>t. t)) tk_db tk_deep) ! 2) \<noteq> []"
proof -
  let ?ns = "th_nodes (foldl (think_step (\<lambda>t. t)) tk_db tk_deep)"
  have len: "length ?ns = 3" by code_simp
  have r: "bn_returning (?ns ! 1) \<noteq> None" by code_simp
  have "bn_parent (?ns ! 2) = Some (bn_id (?ns ! 1))" by code_simp
  then have "parent_of (foldl (think_step (\<lambda>t. t)) tk_db tk_deep) (?ns ! 2) (?ns ! 1)"
    using nth_mem [of 1 ?ns] nth_mem [of 2 ?ns] by (simp add: parent_of_def len)
  then have "bn_handoff (?ns ! 2) \<noteq> []"
    using branches_return_bottom_up [OF tk_start, of "\<lambda>t. t" tk_deep "?ns ! 2" "?ns ! 1"] r by blast
  with r show ?thesis by blast
qed

theorem each_handoff_arrives_once_witness:
  "mset (map nm_content (filter (\<lambda>m. nm_node m = Some ''sx'' \<and> nm_type m = ''thinking_handoff'')
            (th_messages (foldl (think_step (\<lambda>t. t)) tk_db (tk_active @ tk_return))))) =
   mset (map handoff_note (filter (\<lambda>c. bn_returned c \<noteq> None)
            (children (foldl (think_step (\<lambda>t. t)) tk_db (tk_active @ tk_return)) ''sx'')))"
  by (rule each_handoff_arrives_once [OF tk_start])

theorem branches_move_through_phases_witness:
  "\<exists>n' \<in> set (th_nodes (think_step (\<lambda>t. t) tk_open (tk_env ''r'', OpBeginReturn ''c'' ''b''))).
     frame n' = frame (th_nodes tk_open ! 1) \<and> phase_step (phase_of (th_nodes tk_open ! 1)) (phase_of n')"
proof -
  have "1 < length (th_nodes tk_open)" by code_simp
  then have "th_nodes tk_open ! 1 \<in> set (th_nodes tk_open)" by (rule nth_mem)
  with branches_move_through_phases [OF branches.run_inv [OF no_spaces_inv [OF tk_start]] this] show ?thesis by blast
qed

theorem returned_branch_is_sealed_witness:
  "\<exists>n'. n' \<in> set (th_nodes (foldl (think_step (\<lambda>t. t)) tk_closed [(tk_env ''q'', OpCancelReturn ''b'')])) \<and>
     bn_id n' = bn_id tk_branch \<and> bn_returned n' \<noteq> None \<and> bn_handoff n' = bn_handoff tk_branch"
proof -
  have ret: "bn_returned tk_branch \<noteq> None" by code_simp
  have "tk_branch \<in> set (th_nodes (foldl (think_step (\<lambda>t. t)) tk_db (tk_active @ tk_return)))" using tk_in by simp
  from returned_branch_is_sealed [OF tk_start this ret, of "[(tk_env ''q'', OpCancelReturn ''b'')]"]
  show ?thesis unfolding foldl_append by blast
qed

theorem late_message_enters_sealed_branch_witness:
  "bn_returned tk_branch \<noteq> None \<and>
   (\<exists>d'. write_node_post (tk_env ''z'') ''c'' ''b'' ''user'' ''u'' (NodeMessage ''late'' []) tk_closed = Inr d' \<and>
      tk_branch \<in> set (th_nodes d'))"
proof -
  have c: "check_node_post (tk_env ''z'') ''c'' ''b'' ''user'' ''u'' ''late'' tk_open = Inr (NodeMessage ''late'' [])" by code_simp
  have b: "bn_id tk_branch = ''b''" by code_simp
  have r: "bn_returned tk_branch \<noteq> None" by code_simp
  have f: "th_uuid (tk_env ''z'') 0 \<notin> nm_id ` set (th_messages tk_closed)" by code_simp
  from late_message_enters_sealed_branch [OF c tk_in b r f] r show ?thesis by blast
qed

end
