(* ===== verification/Thinking_Requests.thy ===== *)
theory Thinking_Requests
  imports Thinking_Texts
begin

text \<open>
  The requests on thinking spaces (\<open>handler/thinking.go\<close>, \<open>CreateFromMessage\<close> of \<open>handler/message_reuse.go\<close>): who
  may make them, what they answer and which work they hand to agents. A request body is the title it decodes to,
  if it does; \<open>agents\<close> stands for the agent service, which may be missing, and tells of a call whether it
  succeeded. A request answers the database, the HTTP status and the calls it made.
\<close>

section \<open>Requests\<close>

datatype node_trigger = ForkTrigger id id string | CheckpointTrigger id | ReturnTrigger id

type_synonym agent_service = "(node_trigger \<Rightarrow> bool) option"
type_synonym answer = "think_db \<times> nat \<times> node_trigger list"

definition require_member :: "think_env \<Rightarrow> id option \<Rightarrow> string \<Rightarrow> think_db \<Rightarrow> nat + (id \<times> id)" where
  "require_member e user channel d =
     (case user of
        None \<Rightarrow> Inl 401
      | Some actor \<Rightarrow>
          (case th_parse e channel of
             None \<Rightarrow> Inl 400
           | Some ch \<Rightarrow>
               if exists_row (\<lambda>m. km_channel m = ch \<and> km_member m = actor \<and> km_type m \<in> {''user'', ''agent''} \<and>
                    exists_row (\<lambda>c. kc_id c = ch \<and> \<not> kc_archived c) (th_channels d)) (th_members d)
               then Inr (actor, ch) else Inl 404))"

definition for_member ::
  "think_env \<Rightarrow> id option \<Rightarrow> string \<Rightarrow> think_db \<Rightarrow> (id \<Rightarrow> id \<Rightarrow> answer) \<Rightarrow> answer" where
  "for_member e user channel d f =
     (case require_member e user channel d of Inl st \<Rightarrow> (d, st, []) | Inr (actor, ch) \<Rightarrow> f actor ch)"

definition with_id :: "think_env \<Rightarrow> string \<Rightarrow> think_db \<Rightarrow> (id \<Rightarrow> answer) \<Rightarrow> answer" where
  "with_id e text d f = (case th_parse e text of None \<Rightarrow> (d, 400, []) | Some i \<Rightarrow> f i)"

definition get_request :: "think_env \<Rightarrow> id option \<Rightarrow> string \<Rightarrow> think_db \<Rightarrow> answer" where
  "get_request e user channel d =
     for_member e user channel d (\<lambda>_ ch. (d, (case get_space d ch of Inl _ \<Rightarrow> 404 | Inr _ \<Rightarrow> 200), []))"

definition ensure_request :: "think_env \<Rightarrow> id option \<Rightarrow> string \<Rightarrow> think_db \<Rightarrow> answer" where
  "ensure_request e user channel d =
     for_member e user channel d
       (\<lambda>actor ch. case ensure e ch actor d of Inl _ \<Rightarrow> (d, 500, []) | Inr d' \<Rightarrow> (d', 200, []))"

text \<open>The status of an error; the texts of the service are answered as a bad request or as a conflict.\<close>

definition error_status :: "nat \<Rightarrow> think_error \<Rightarrow> nat" where
  "error_status other err =
     (case err of ErrThinkingNotFound \<Rightarrow> 404 | ThinkingText _ \<Rightarrow> other | ThinkingDatabase \<Rightarrow> other | _ \<Rightarrow> 409)"

definition create_child_request ::
  "think_env \<Rightarrow> agent_service \<Rightarrow> id option \<Rightarrow> string \<Rightarrow> string \<Rightarrow> string option \<Rightarrow> think_db \<Rightarrow> answer" where
  "create_child_request e agent_svc user channel node body d =
     for_member e user channel d (\<lambda>actor ch. with_id e node d (\<lambda>nid.
       case body of
         None \<Rightarrow> (d, 400, [])
       | Some title \<Rightarrow>
           if blank title then (d, 400, [])
           else (case create_child e (th_uuid e 0) ch nid title actor ''manual'' d of
                   Inl err \<Rightarrow> (d, error_status 400 err, [])
                 | Inr d' \<Rightarrow>
                     (d', 201,
                      (case row_by bn_id (th_uuid e 0) (th_nodes d') of
                         None \<Rightarrow> []
                       | Some c \<Rightarrow> if bn_pending c \<and> agent_svc \<noteq> None
                                   then [ForkTrigger (coalesce (bn_parent c)) (bn_id c) (bn_title c)] else [])))))"

definition create_from_message_request ::
  "think_env \<Rightarrow> id option \<Rightarrow> string \<Rightarrow> string \<Rightarrow> string option \<Rightarrow> think_db \<Rightarrow> answer" where
  "create_from_message_request e user channel message body d =
     for_member e user channel d (\<lambda>actor ch. with_id e message d (\<lambda>mid.
       case body of
         None \<Rightarrow> (d, 400, [])
       | Some title \<Rightarrow>
           if blank title then (d, 400, [])
           else (case create_from_message e (th_uuid e 0) ch mid title actor d of
                   Inl (err, d') \<Rightarrow>
                     (d', (if err = ErrThinkingNotFound then 404
                           else if err \<in> {ErrThinkingLimit, ErrThinkingDuplicate} then 409 else 400), [])
                 | Inr d' \<Rightarrow> (d', 201, []))))"

text \<open>A call of the agent service: missing or failing is answered as unavailable.\<close>

definition call_agents :: "agent_service \<Rightarrow> node_trigger \<Rightarrow> nat \<times> node_trigger list" where
  "call_agents agent_svc t =
     (case agent_svc of None \<Rightarrow> (503, []) | Some f \<Rightarrow> if f t then (202, [t]) else (503, [t]))"

definition retry_fork_request ::
  "think_env \<Rightarrow> agent_service \<Rightarrow> id option \<Rightarrow> string \<Rightarrow> string \<Rightarrow> think_db \<Rightarrow> answer" where
  "retry_fork_request e agent_svc user channel node d =
     for_member e user channel d (\<lambda>_ ch. with_id e node d (\<lambda>nid.
       case get_node d ch nid of
         Inl _ \<Rightarrow> (d, 404, [])
       | Inr v \<Rightarrow>
           (let n = nv_node v
            in if \<not> bn_pending n \<or> bn_parent n = None then (d, 409, [])
               else (d, call_agents agent_svc (ForkTrigger (coalesce (bn_parent n)) (bn_id n) (bn_title n))))))"

definition refresh_checkpoint_request ::
  "think_env \<Rightarrow> agent_service \<Rightarrow> id option \<Rightarrow> string \<Rightarrow> string \<Rightarrow> think_db \<Rightarrow> answer" where
  "refresh_checkpoint_request e agent_svc user channel node d =
     for_member e user channel d (\<lambda>_ ch. with_id e node d (\<lambda>nid.
       case prepare_checkpoint_refresh ch nid d of
         Inl err \<Rightarrow> (d, error_status 409 err, [])
       | Inr _ \<Rightarrow> (d, call_agents agent_svc (CheckpointTrigger nid))))"

text \<open>A return the agent service does not take up is taken back.\<close>

definition return_node_request ::
  "think_env \<Rightarrow> agent_service \<Rightarrow> id option \<Rightarrow> string \<Rightarrow> string \<Rightarrow> think_db \<Rightarrow> answer" where
  "return_node_request e agent_svc user channel node d =
     for_member e user channel d (\<lambda>_ ch. with_id e node d (\<lambda>nid.
       case begin_return e ch nid d of
         Inl err \<Rightarrow> (d, error_status 409 err, [])
       | Inr d' \<Rightarrow>
           (case call_agents agent_svc (ReturnTrigger nid) of
              (st, calls) \<Rightarrow> (if st = 202 then (d', st, calls) else (fst (cancel_return e nid d'), st, calls)))))"

section \<open>Requests that fail\<close>

definition untouched_node :: "thinking_node \<Rightarrow> thinking_node \<Rightarrow> bool" where
  "untouched_node n n' \<longleftrightarrow> n'\<lparr>bn_updated := 0\<rparr> = n\<lparr>bn_updated := 0\<rparr>"

lemma begin_cancel_node:
  assumes "begin_return e ch nid d = Inr d'" and "think_inv lw d"
  shows "list_all2 untouched_node (th_nodes d) (th_nodes (fst (cancel_return e nid d')))"
proof -
  obtain n where n: "node_in d ch nid = Some n" "bn_returned n = None" "bn_returning n = None"
    and d': "d' = set_node (\<lambda>x. bn_id x = nid) (\<lambda>x. x\<lparr>bn_returning := Some (th_now e), bn_updated := th_now e\<rparr>) d"
    using begin_return_result [OF assms(1)] by metis
  have "x = n" if "x \<in> set (th_nodes d)" "bn_id x = nid" for x
    using unique_node [of lw d x n] assms(2) that node_in_facts [OF n(1)] by (simp add: think_inv_def)
  with n(2,3) show ?thesis
    unfolding d' cancel_return_def Let_def set_node_def fst_conv
    by (auto simp: list_all2_conv_all_nth update_where_def untouched_node_def dest!: nth_mem)
qed

text \<open>
  C33. A request to return a branch is carried out whole or not at all: when it is answered with anything but
  acceptance, every branch is as it was but for the time of its last update and no message was written; when it
  is accepted, the branch is returning and its agent was asked for the handoff.
\<close>

theorem return_request_is_all_or_nothing:
  assumes "think_inv lw d" and "return_node_request e agent_svc user channel node d = (d', st, calls)"
  shows "(st = 202 \<and> (\<exists>nid. th_parse e node = Some nid \<and> calls = [ReturnTrigger nid] \<and>
              (\<exists>n. n \<in> set (th_nodes d') \<and> bn_id n = nid \<and> phase_of n = Returning))) \<or>
         (st \<noteq> 202 \<and> list_all2 untouched_node (th_nodes d) (th_nodes d') \<and> th_messages d' = th_messages d)"
proof -
  have same: "list_all2 untouched_node ns ns" for ns
    by (simp add: list_all2_same untouched_node_def)
  consider (refused) "d' = d" "st \<noteq> 202"
    | (begun) ch nid d1 where "th_parse e node = Some nid" "begin_return e ch nid d = Inr d1"
        "(d', st, calls) = (case call_agents agent_svc (ReturnTrigger nid) of
              (st, calls) \<Rightarrow> (if st = 202 then (d1, st, calls) else (fst (cancel_return e nid d1), st, calls)))"
    using assms(2)
    by (auto simp: return_node_request_def for_member_def with_id_def require_member_def error_status_def
        split: option.splits sum.splits if_splits think_error.splits)
  then show ?thesis
  proof cases
    case refused
    then show ?thesis using same by simp
  next
    case (begun ch nid d1)
    obtain n where n: "node_in d ch nid = Some n" "bn_returned n = None" "bn_returning n = None"
      and d1: "d1 = set_node (\<lambda>x. bn_id x = nid) (\<lambda>x. x\<lparr>bn_returning := Some (th_now e), bn_updated := th_now e\<rparr>) d"
      using begin_return_result [OF begun(2)] by metis
    show ?thesis
    proof (cases "fst (call_agents agent_svc (ReturnTrigger nid)) = 202")
      case True
      then have eq: "d' = d1" "st = 202" "calls = [ReturnTrigger nid]"
        using begun(3) by (auto simp: call_agents_def split: option.splits if_splits)
      have "n\<lparr>bn_returning := Some (th_now e), bn_updated := th_now e\<rparr> \<in> set (th_nodes d1)"
        unfolding d1 set_node_nodes using node_in_facts [OF n(1)] by force
      then have "\<exists>x. x \<in> set (th_nodes d1) \<and> bn_id x = nid \<and> phase_of x = Returning"
        using n(2) node_in_facts [OF n(1)] by (intro exI conjI) (assumption, simp_all add: phase_of_def)
      with eq begun(1) show ?thesis by blast
    next
      case False
      then have eq: "d' = fst (cancel_return e nid d1)" "st \<noteq> 202"
        using begun(3) by (auto split: prod.splits)
      have "th_messages d' = th_messages d"
        unfolding eq(1) d1 by (simp add: cancel_return_def Let_def set_node_def)
      with eq begin_cancel_node [OF begun(2) assms(1)] show ?thesis by simp
    qed
  qed
qed

theorem return_request_is_all_or_nothing_witness:
  "fst (snd (return_node_request (tk_env ''r'') (Some (\<lambda>_. False)) (Some ''a'') ''c'' ''b'' tk_open)) = 503 \<and>
   list_all2 untouched_node (th_nodes tk_open)
     (th_nodes (fst (return_node_request (tk_env ''r'') (Some (\<lambda>_. False)) (Some ''a'') ''c'' ''b'' tk_open)))"
proof -
  let ?r = "return_node_request (tk_env ''r'') (Some (\<lambda>_. False)) (Some ''a'') ''c'' ''b'' tk_open"
  have s: "fst (snd ?r) = 503" by code_simp
  have "think_inv (\<lambda>t. t) tk_open" by (rule branches.run_inv [OF no_spaces_inv [OF tk_start]])
  moreover obtain d' calls where r: "?r = (d', 503, calls)" using s by (metis prod.collapse)
  ultimately have "list_all2 untouched_node (th_nodes tk_open) (th_nodes d')"
    using return_request_is_all_or_nothing [of "\<lambda>t. t" tk_open] by fastforce
  then have "list_all2 untouched_node (th_nodes tk_open) (th_nodes (fst ?r))" unfolding r fst_conv .
  with s show ?thesis by blast
qed

end
