(* ===== verification/Agent_Work.thy ===== *)
theory Agent_Work
  imports Message_Wake Thinking Task_Delivery
begin

text \<open>
  The other work of an agent's inbox (\<open>service/agent_inbox.go\<close>, \<open>service/agent_work.go\<close>, migrations 65 and 76):
  tasks, branches of thinking spaces, artifacts and greetings are stored as rows of \<open>agent_pending_work\<close>, compete
  with the message wakes for their agent, and become a run when it is their turn.

  \<open>work_db\<close> puts the tables of the message wakes beside those of the board and of the thinking spaces, and the
  rows of work. The inbox is the one of \<open>Message_Wake\<close> with the rows of work added to the items of the other
  sources. \<open>work_env\<close> adds UUIDs, the hash of a request's identity, the text of a task's row as JSON and of an
  error, Go's \<open>%q\<close>, and the recent messages of a branch as they are rendered for an agent.
\<close>

section \<open>State\<close>

definition agentResultContractHandoff :: string where "agentResultContractHandoff = ''handoff''"
definition agentResultContractNone :: string where "agentResultContractNone = ''none''"

text \<open>
  A request: the fields of \<open>daemonTaskRequest\<close> beyond those a payload already has. The last two are not
  part of its JSON.
\<close>

record work_request = task_payload +
  dr_thread :: id
  dr_trigger :: id
  dr_assignee :: id
  dr_link_role :: string
  dr_return :: bool
  dr_contract :: string
  dr_system :: string
  dr_thinking :: string
  dr_model :: string
  dr_relationships :: string
  dr_env :: "(string \<times> string) list"
  dr_args :: "string list"
  dr_token :: string
  dr_seen :: int
  dr_recovery :: "task_run_recovery option"

datatype work_status = WorkPending | WorkDispatched | WorkCancelled

record work_row =
  wo_id :: id
  wo_agent :: id
  wo_channel :: id
  wo_task :: "id option"
  wo_version :: "int option"
  wo_node :: "id option"
  wo_key :: string
  wo_kind :: string
  wo_priority :: int
  wo_payload :: work_request
  wo_recovery :: "task_run_recovery option"
  wo_seen :: int
  wo_status :: work_status
  wo_run :: "id option"
  wo_error :: string
  wo_next :: time
  wo_created :: time

datatype mark_status = MarkOpen | MarkResolved | MarkCancelled

record work_mark =
  mk_id :: id
  mk_agent :: id
  mk_channel :: id
  mk_source :: "id option"
  mk_task :: "id option"
  mk_description :: string
  mk_next :: string
  mk_status :: mark_status
  mk_resolution :: string
  mk_key :: string

record work_db =
  wd_queue :: mw_state
  wd_rows :: "work_row list"
  wd_board :: db
  wd_think :: think_db
  wd_profiles :: "agent_channel_info list"
  wd_joined :: "((id \<times> id) \<times> string) list"
  wd_bindings :: bindings_db
  wd_marks :: "work_mark list"

record work_source =
  ky_kind :: string
  ky_channel :: id
  ky_node :: id
  ky_task :: id
  ky_version :: "int option"
  ky_trigger :: id
  ky_seen :: int
  ky_identity :: "prompt_message list option"
  ky_recovery :: "task_run_recovery option"

datatype work_failure = NoAgentRow | ResolveFailed resolve_error | AttemptFailed wake_error | NodeUnreadable

record work_env = wake_env +
  row_uuid :: id
  request_uuid :: id
  source_hash :: "work_source \<Rightarrow> string"
  task_json :: "task_row \<Rightarrow> string"
  failure_text :: "work_failure \<Rightarrow> string"
  go_quote :: "string \<Rightarrow> string"
  node_history :: "id \<Rightarrow> id \<Rightarrow> prompt_message list"
  branch_env :: think_env
  board_env :: env

datatype work_error =
    ErrAgentWorkForbidden | WorkNoRows | WorkDatabase | WorkInvalid string | WorkConflict | WorkTask task_error

section \<open>The inbox with the rows of work\<close>

definition pending_work :: "work_db \<Rightarrow> work_row list" where
  "pending_work st = filter (\<lambda>w. wo_status w = WorkPending) (wd_rows st)"

definition work_item :: "work_row \<Rightarrow> inbox_item" where
  "work_item w =
     \<lparr>ib_agent = wo_agent w, ib_kind = wo_kind w, ib_work = wo_id w, ib_priority = wo_priority w,
      ib_created = wo_created w, ib_ready = wo_next w\<rparr>"

definition inbox_queue :: "work_db \<Rightarrow> mw_state" where
  "inbox_queue st = (wd_queue st)\<lparr>mw_other := mw_other (wd_queue st) @ map work_item (pending_work st)\<rparr>"

text \<open>What a transaction of the message wakes leaves, beside the rows of work.\<close>

definition with_queue :: "mw_state \<Rightarrow> work_db \<Rightarrow> work_db" where
  "with_queue q st = st\<lparr>wd_queue := q\<lparr>mw_other := mw_other (wd_queue st)\<rparr>\<rparr>"

definition set_work :: "(work_row \<Rightarrow> bool) \<Rightarrow> (work_row \<Rightarrow> work_row) \<Rightarrow> work_db \<Rightarrow> work_db" where
  "set_work P f st = st\<lparr>wd_rows := update_where P f (wd_rows st)\<rparr>"

section \<open>Queueing\<close>

definition work_kind :: "work_request \<Rightarrow> string \<times> int" where
  "work_kind q =
     (if tp_node q \<noteq> [] then (''thinking'', 10)
      else if tp_origin_task q \<noteq> []
      then (if dr_contract q = agentResultContractNone then ''artifact'' else ''task'', 10)
      else (''greeting'', 20))"

definition branch_context_message :: "prompt_message \<Rightarrow> bool" where
  "branch_context_message m \<longleftrightarrow>
     pm_sender m = ''system'' \<and> \<not> pm_system m \<and> has_prefix ''[Solo Thinking branch context; Agent'' (pm_content m)"

text \<open>The request as it is kept: without the configuration of the agent, and without the context of its branch.\<close>

definition stored_request :: "work_request \<Rightarrow> work_request" where
  "stored_request q =
     q\<lparr>dr_system := [], dr_thinking := [], dr_relationships := [], dr_env := [], dr_args := [], tp_skills := [],
       dr_token := [], tp_provider := [], dr_model := [], tp_cold_start := [],
       tp_messages := (if tp_node q \<noteq> [] then filter (\<lambda>m. \<not> branch_context_message m) (tp_messages q) else tp_messages q),
       dr_seen := 0, dr_recovery := None\<rparr>"

definition work_identity :: "string \<Rightarrow> int option \<Rightarrow> work_request \<Rightarrow> work_source" where
  "work_identity kind version q =
     \<lparr>ky_kind = kind, ky_channel = tp_channel q, ky_node = tp_node q, ky_task = tp_origin_task q, ky_version = version,
      ky_trigger = dr_trigger q, ky_seen = dr_seen q,
      ky_identity = (if dr_trigger q \<noteq> [] \<and> tp_origin_task q = [] then None else Some (tp_messages (stored_request q))),
      ky_recovery = dr_recovery q\<rparr>"

definition work_key :: "work_env \<Rightarrow> string \<Rightarrow> int option \<Rightarrow> string \<Rightarrow> work_request \<Rightarrow> string" where
  "work_key e kind version joined q =
     source_hash e (work_identity kind version q) @ (if kind = ''greeting'' then CHR '':'' # joined else []) @
     (if dr_contract q = agentResultContractHandoff \<or> kind = ''artifact'' then CHR '':'' # request_uuid e else [])"

definition task_of_request :: "work_db \<Rightarrow> work_request \<Rightarrow> task_row option" where
  "task_of_request st q =
     find (\<lambda>t. t_id t = tp_origin_task q \<and> t_channel t = Some (tp_channel q)) (tasks (wd_board st))"

definition may_queue :: "work_db \<Rightarrow> id \<Rightarrow> id \<Rightarrow> bool" where
  "may_queue st agent ch \<longleftrightarrow>
     agent_is_active (mw_tables (wd_queue st)) agent \<and> channel_open_to (mw_tables (wd_queue st)) ch agent"

definition queued_row :: "work_env \<Rightarrow> int option \<Rightarrow> string \<Rightarrow> work_request \<Rightarrow> work_row" where
  "queued_row e version key q =
     \<lparr>wo_id = row_uuid e, wo_agent = tp_agent q, wo_channel = tp_channel q, wo_task = nullable (tp_origin_task q),
      wo_version = version, wo_node = nullable (tp_node q), wo_key = key, wo_kind = fst (work_kind q),
      wo_priority = snd (work_kind q), wo_payload = stored_request q, wo_recovery = dr_recovery q, wo_seen = dr_seen q,
      wo_status = WorkPending, wo_run = None, wo_error = [], wo_next = clock e, wo_created = clock e\<rparr>"

text \<open>
  The insertion: an agent that may not be given work in the channel is refused, unless the request was queued
  before; a request that was queued before changes nothing.
\<close>

definition insert_work :: "work_row \<Rightarrow> work_db \<Rightarrow> work_error + work_db" where
  "insert_work w st =
     (if exists_row (\<lambda>x. wo_agent x = wo_agent w \<and> wo_key x = wo_key w) (wd_rows st) then Inr st
      else if \<not> may_queue st (wo_agent w) (wo_channel w) then Inl ErrAgentWorkForbidden
      else if exists_row (\<lambda>x. wo_id x = wo_id w) (wd_rows st) \<or>
              (case wo_node w of None \<Rightarrow> False | Some n \<Rightarrow> \<not> exists_row (\<lambda>b. bn_id b = n) (th_nodes (wd_think st)))
      then Inl WorkDatabase
      else Inr (st\<lparr>wd_rows := wd_rows st @ [w]\<rparr>))"

definition enqueue_agent_work :: "work_env \<Rightarrow> work_request \<Rightarrow> work_db \<Rightarrow> work_error + work_db" where
  "enqueue_agent_work e q st =
     (if tp_origin_task q \<noteq> [] \<and> task_of_request st q = None then Inl WorkNoRows
      else
        (let t = (if tp_origin_task q = [] then None else task_of_request st q);
             version = map_option t_version t;
             q' = (case t of None \<Rightarrow> q | Some x \<Rightarrow> q\<lparr>dr_assignee := coalesce (t_claimer x)\<rparr>);
             kind = fst (work_kind q)
         in if kind = ''greeting'' \<and> map_of (wd_joined st) (tp_channel q, tp_agent q) = None then Inl WorkNoRows
            else insert_work
                   (queued_row e version
                      (work_key e kind version (coalesce (map_of (wd_joined st) (tp_channel q, tp_agent q))) q') q') st))"


section \<open>Withdrawing and cancelling\<close>

text \<open>
  Setting rows to cancelled, with the trigger of migration 76: a cancelled request for the return of a branch
  opens the branch again.
\<close>

definition release_return :: "work_env \<Rightarrow> work_row \<Rightarrow> think_db \<Rightarrow> think_db" where
  "release_return e w d =
     (if dr_return (wo_payload w)
      then release_cancelled_inbox_return (branch_env e) (coalesce (wo_node w)) (wo_agent w) d else d)"

definition cancel_work :: "work_env \<Rightarrow> (work_row \<Rightarrow> bool) \<Rightarrow> string \<Rightarrow> work_db \<Rightarrow> work_db" where
  "cancel_work e P why st =
     (let Q = (\<lambda>w. wo_status w = WorkPending \<and> P w)
      in (set_work Q (\<lambda>w. w\<lparr>wo_status := WorkCancelled, wo_error := why\<rparr>) st)
           \<lparr>wd_think := foldl (\<lambda>d w. release_return e w d) (wd_think st) (filter Q (wd_rows st))\<rparr>)"

definition withdraw_work :: "work_env \<Rightarrow> work_db \<Rightarrow> work_db" where
  "withdraw_work e st =
     cancel_work e (\<lambda>w. \<not> may_queue st (wo_agent w) (wo_channel w)) ''Agent or channel access was withdrawn'' st"

definition delay_work :: "work_env \<Rightarrow> id \<Rightarrow> work_failure \<Rightarrow> work_db \<Rightarrow> work_db" where
  "delay_work e wid why st =
     set_work (\<lambda>w. wo_id w = wid)
       (\<lambda>w. w\<lparr>wo_error := take_runes 2000 (failure_text e why), wo_next := clock e + 30 * 10 ^ 9\<rparr>) st"

section \<open>What a request is when its turn comes\<close>

datatype prepared = PrepFailed work_failure | PrepCancelled string | PrepReady work_request

fun and_then :: "prepared \<Rightarrow> (work_request \<Rightarrow> prepared) \<Rightarrow> prepared" where
  "and_then (PrepReady q) f = f q"
| "and_then p f = p"

definition work_profile :: "work_db \<Rightarrow> id \<Rightarrow> agent_channel_info option" where
  "work_profile st agent =
     (if agent_is_active (mw_tables (wd_queue st)) agent then row_by ai_id agent (wd_profiles st) else None)"

definition find_artifact_leader :: "work_db \<Rightarrow> task_row \<Rightarrow> agent_channel_info option" where
  "find_artifact_leader st t =
     (case List.map_filter (work_profile st) (filter (\<lambda>a. a \<noteq> []) [coalesce (t_claimer t), t_creator t]) of
        [] \<Rightarrow> None | ag # _ \<Rightarrow> Some ag)"

definition task_allows :: "work_db \<Rightarrow> string \<Rightarrow> work_request \<Rightarrow> task_row \<Rightarrow> bool" where
  "task_allows st kind q t \<longleftrightarrow>
     kind = ''artifact'' \<or>
     (t_status t \<in> {TaskStatusTodo, TaskStatusInProgress} \<and> (t_claimer t = None \<or> t_claimer t = Some (tp_agent q)) \<and>
      (dr_assignee q = [] \<or> coalesce (t_claimer t) = dr_assignee q) \<and> \<not> waiting_on (wd_board st) (t_id t))"

definition claim_message :: "work_env \<Rightarrow> task_row \<Rightarrow> prompt_message" where
  "claim_message e t =
     \<lparr>pm_system = False,
      pm_content = ''Current authoritative Task at Inbox claim (supersedes the historical trigger):'' @ CHR 0x0A # task_json e t,
      pm_sender = ''system''\<rparr>"

definition prepare_task :: "work_env \<Rightarrow> work_db \<Rightarrow> string \<Rightarrow> work_request \<Rightarrow> prepared" where
  "prepare_task e st kind q =
     (if tp_origin_task q = [] then PrepReady q
      else
        (case task_of_request st q of
           None \<Rightarrow> PrepCancelled ''Task was removed''
         | Some t \<Rightarrow>
             if \<not> task_allows st kind q t then PrepCancelled ''Task no longer belongs to this pending execution''
             else if kind = ''artifact'' \<and>
                     (case find_artifact_leader st t of None \<Rightarrow> True | Some ag \<Rightarrow> ai_id ag \<noteq> tp_agent q)
             then PrepCancelled ''Artifact responsible Agent changed''
             else PrepReady (q\<lparr>tp_messages := tp_messages q @ [claim_message e t]\<rparr>)))"

text \<open>\<open>getThinkingNodeRuntimeContext\<close>: the agent of a branch, its prompt, its news and the session it resumes.\<close>

record node_runtime =
  nx_agent :: id
  nx_static :: string
  nx_turn :: string
  nx_resume :: string

definition static_prompt :: "work_env \<Rightarrow> think_db \<Rightarrow> thinking_node \<Rightarrow> string" where
  "static_prompt e d n =
     ''You are working inside the isolated Thinking node '' @ go_quote e (bn_title n) @ '' (node_id='' @ bn_id n @ '').'' @ [CHR 0x0A] @
     ''Only this node's raw conversation is available. Keep this branch focused. Reply with `solo message send` as usual; Solo routes it back to this node automatically.'' @ [CHR 0x0A] @
     (if exists_row (\<lambda>c. bn_source c = TeamSource) (children d (bn_id n))
      then ''The root's first-level team branches already exist. Do not emit split directives from this node; continue in the appropriate team branch instead.'' @ [CHR 0x0A]
      else ''If the discussion reveals a distinct durable workstream, add at most three lines in the exact form `[[split: Branch title]]` inside the message sent with `solo message send`; Solo removes the markers and creates child nodes. Do not split for ordinary follow-up questions.'' @ [CHR 0x0A]) @
     ''Publish this branch's outward Current State after the first meaningful visible reply. Update it only when cross-node-relevant objective, conclusions, evidence, risks, dependencies, unresolved work, or next action materially change. To publish, send one additional protocol message after the visible reply. Its first line must be `[[handoff:checkpoint]]`, followed by `# Handoff` with Objective and scope, Confirmed conclusions, Evidence or artifacts, Unresolved questions, Risks and assumptions, and Recommended next action. This protocol message is hidden from conversation. Current State is a durable handoff, not a mechanical summary or copy of the last message; do not publish it for ordinary follow-up or tool noise.'' @ [CHR 0x0A]"

definition resumed_session :: "rdb \<Rightarrow> thinking_node \<Rightarrow> string" where
  "resumed_session d n =
     (case find (\<lambda>s. bn_session n = Some (ss_id s) \<and> bn_agent n = Some (ss_agent s)) (sessions d) of
        None \<Rightarrow> [] | Some s \<Rightarrow> coalesce (ss_external s))"

definition node_runtime_context :: "work_env \<Rightarrow> work_db \<Rightarrow> id \<Rightarrow> id \<Rightarrow> node_runtime option" where
  "node_runtime_context e st ch nid =
     (case node_in (wd_think st) ch nid of
        None \<Rightarrow> None
      | Some n \<Rightarrow>
          Some \<lparr>nx_agent = coalesce (bn_agent n), nx_static = static_prompt e (wd_think st) n,
                nx_turn = turn_context (wd_think st) n,
                nx_resume = resumed_session (r_tables (mw_remote (wd_queue st))) n\<rparr>)"

definition turn_message :: "string \<Rightarrow> prompt_message" where
  "turn_message text =
     \<lparr>pm_system = False, pm_content = ''[Solo Thinking branch context; Agent-authored Handoffs only]'' @ CHR 0x0A # text,
      pm_sender = ''system''\<rparr>"

definition node_request :: "work_env \<Rightarrow> node_runtime \<Rightarrow> work_request \<Rightarrow> work_request" where
  "node_request e x q =
     (let news = (if nx_turn x = [] then [] else [turn_message (nx_turn x)]);
          cold = node_history e (tp_channel q) (tp_node q) @
                 (if dr_contract q = agentResultContractHandoff then tp_messages q else [])
      in q\<lparr>dr_thinking := nx_static x, tp_resume := nx_resume x, tp_cold_start := news @ cold,
           tp_messages := news @ tp_messages q\<rparr>)"

text \<open>Whether the branch still wants the work; the answer of the database is null for a branch without an agent.\<close>

definition node_works :: "work_request \<Rightarrow> thinking_node \<Rightarrow> bool option" where
  "node_works q n =
     (if bn_returned n \<noteq> None \<or> dr_return q \<and> bn_returning n = None then Some False
      else map_option (\<lambda>a. a = tp_agent q) (bn_agent n))"

definition prepare_node :: "work_env \<Rightarrow> work_db \<Rightarrow> work_request \<Rightarrow> prepared" where
  "prepare_node e st q =
     (if tp_node q = [] then PrepReady q
      else
        (case row_by bn_id (tp_node q) (th_nodes (wd_think st)) of
           None \<Rightarrow> PrepCancelled ''Thinking branch was removed''
         | Some n \<Rightarrow>
             if node_works q n = None then PrepFailed NodeUnreadable
             else if node_works q n = Some False then PrepCancelled ''Thinking branch completed or return was cancelled''
             else
               (case node_runtime_context e st (tp_channel q) (tp_node q) of
                  None \<Rightarrow> PrepFailed NodeUnreadable
                | Some x \<Rightarrow>
                    if nx_agent x \<noteq> tp_agent q then PrepCancelled ''Thinking branch owner changed''
                    else PrepReady (node_request e x q))))"

definition claimed_request :: "work_row \<Rightarrow> agent_channel_info \<Rightarrow> work_request" where
  "claimed_request w ag =
     (wo_payload w)\<lparr>dr_system := ai_prompt ag, tp_provider := ai_provider ag, dr_model := ai_model ag,
                    dr_seen := wo_seen w, dr_recovery := wo_recovery w\<rparr>"

definition prepare_work :: "work_env \<Rightarrow> work_db \<Rightarrow> work_row \<Rightarrow> agent_channel_info \<Rightarrow> prepared" where
  "prepare_work e st w ag =
     and_then (prepare_task e st (wo_kind w) (claimed_request w ag)) (prepare_node e st)"


section \<open>Starting the run of a row\<close>

definition work_run_input :: "daemon_info \<Rightarrow> agent_channel_info \<Rightarrow> work_request \<Rightarrow> start_run_input" where
  "work_run_input dmn ag q =
     \<lparr>sr_agent = tp_agent q, sr_daemon = dn_id dmn, sr_session = [], sr_rollover = [],
      sr_scope = \<lparr>trigger_type = (if tp_origin_task q \<noteq> [] then ''task'' else ''message''),
                  trigger_message = nullable (dr_trigger q), scope_channel = nullable (tp_channel q),
                  scope_thread = nullable (dr_thread q), scope_node = nullable (tp_node q)\<rparr>,
      sr_status = None, sr_activity = map char_of [231, 173, 137, 229, 190, 133, 230, 137, 167, 232, 161, 140 :: nat],
      sr_tool = [], sr_input = [], sr_source = ai_provider ag, sr_usage = UsageEmpty,
      sr_wake = \<lparr>freshness_seen = dr_seen q, wake_first = 0, wake_latest = 0, wake_visible = False\<rparr>\<rparr>"

definition link_origin_task :: "work_request \<Rightarrow> id \<Rightarrow> rdb \<Rightarrow> rdb" where
  "link_origin_task q rid d =
     (if tp_origin_task q = [] \<or> exists_row (\<lambda>l. lk_run l = rid \<and> lk_task l = tp_origin_task q) (links d) then d
      else d\<lparr>links := links d @ [\<lparr>lk_run = rid, lk_task = tp_origin_task q,
               lk_role = (if dr_link_role q = [] then AgentRunTaskRolePrimary else dr_link_role q)\<rparr>]\<rparr>)"

definition request_turn :: "work_request \<Rightarrow> message_turn" where
  "request_turn q =
     \<lparr>mt_agent = tp_agent q, mt_channel = tp_channel q, mt_thread = dr_thread q, mt_trigger = dr_trigger q,
      mt_visible = False, mt_payload = task_payload.truncate q\<rparr>"

text \<open>The attempt is a transaction of its own inside the one of the row; what fails in it is undone.\<close>

definition attempt_run ::
  "work_env \<Rightarrow> daemon_info \<Rightarrow> agent_channel_info \<Rightarrow> work_request \<Rightarrow> mw_state \<Rightarrow> wake_error + (mw_state \<times> run_row)" where
  "attempt_run e dmn ag q st =
     (case start_run_tx (renv.truncate e) (r_tables (mw_remote st)) (work_run_input dmn ag q) of
        Inl err \<Rightarrow> Inl (WakeRun err)
      | Inr (d, r) \<Rightarrow>
          (case persist_remote_message_run (wake_env.truncate e) dmn r (request_turn q)
                  (st\<lparr>mw_remote := (mw_remote st)\<lparr>r_tables := link_origin_task q (rn_id r) d,
                        run_deliveries := run_deliveries (mw_remote st) @ [undelivered (rn_id r)]\<rparr>\<rparr>) of
             Inl err \<Rightarrow> Inl err
           | Inr st' \<Rightarrow> Inr (st', r)))"

definition claim_profile :: "work_db \<Rightarrow> work_row \<Rightarrow> agent_channel_info option" where
  "claim_profile st w =
     (if may_queue st (tp_agent (wo_payload w)) (tp_channel (wo_payload w))
      then work_profile st (tp_agent (wo_payload w)) else None)"

text \<open>
  What happens to the row once the lock of its agent is held: whether anything was committed, and the run. The
  binding of an agent to the only daemon is written outside of the transaction.
\<close>

definition start_work ::
  "work_env \<Rightarrow> fleet \<Rightarrow> work_row \<Rightarrow> agent_channel_info \<Rightarrow> work_request \<Rightarrow> work_db \<Rightarrow> work_db \<times> run_row option" where
  "start_work e f w ag q st =
     (case resolve_daemon_for_agent f (tp_agent q) ''llm'' (wd_bindings st) of
        Inl err \<Rightarrow> (delay_work e (wo_id w) (ResolveFailed err) st, None)
      | Inr (b, dmn) \<Rightarrow>
          (let st1 = st\<lparr>wd_bindings := b\<rparr>
           in case attempt_run e dmn ag q (wd_queue st1) of
                Inl err \<Rightarrow> (delay_work e (wo_id w) (AttemptFailed err) st1, None)
              | Inr (m, r) \<Rightarrow>
                  (set_work (\<lambda>x. wo_id x = wo_id w)
                     (\<lambda>x. x\<lparr>wo_status := WorkDispatched, wo_run := Some (rn_id r), wo_error := []\<rparr>)
                     (with_queue m st1), Some r)))"

definition take_work :: "work_env \<Rightarrow> fleet \<Rightarrow> work_row \<Rightarrow> work_db \<Rightarrow> bool \<times> work_db \<times> run_row option" where
  "take_work e f w st =
     (if \<not> agent_inbox_turn (clock e) (inbox_queue st) (tp_agent (wo_payload w)) (wo_kind w) (wo_id w)
      then (False, st, None)
      else
        (case claim_profile st w of
           None \<Rightarrow> (True, delay_work e (wo_id w) NoAgentRow st, None)
         | Some ag \<Rightarrow>
             (case prepare_work e st w ag of
                PrepFailed why \<Rightarrow> (True, delay_work e (wo_id w) why st, None)
              | PrepCancelled why \<Rightarrow> (True, cancel_work e (\<lambda>x. wo_id x = wo_id w) why st, None)
              | PrepReady q \<Rightarrow> (True, start_work e f w ag q st))))"

definition work_order :: "work_row \<Rightarrow> int \<times> time \<times> string" where
  "work_order w = (wo_priority w, wo_created w, wo_id w)"

text \<open>The row that is chosen: the head of some inbox, not locked by another dispatcher.\<close>

definition choose_work :: "time \<Rightarrow> id list \<Rightarrow> work_db \<Rightarrow> work_row option" where
  "choose_work instant skip st =
     pick_by (\<lambda>a b. work_order a < work_order b)
       (filter (\<lambda>w. wo_id w \<notin> set skip \<and>
                    agent_inbox_turn instant (inbox_queue st) (wo_agent w) (wo_kind w) (wo_id w)) (pending_work st))"

text \<open>
  \<open>locked\<close> is the answer of the try-lock on the agent's work. A return before the commit undoes the
  withdrawals too.
\<close>

definition dispatch_pending_agent_work ::
  "work_env \<Rightarrow> fleet \<Rightarrow> id list \<Rightarrow> bool \<Rightarrow> work_db \<Rightarrow> bool \<times> work_db \<times> run_row option" where
  "dispatch_pending_agent_work e f skip locked st0 =
     (let st = withdraw_work e st0
      in case choose_work (clock e) skip st of
           None \<Rightarrow> (False, st, None)
         | Some w \<Rightarrow>
             if \<not> locked then (False, st0, None)
             else
               (case take_work e f w st of
                  (False, _, _) \<Rightarrow> (False, st0, None)
                | (True, st', r) \<Rightarrow> (True, st', r)))"

text \<open>
  The loop of \<open>RunTaskReviews\<close> over this queue: at most twenty attempts, until one commits nothing. An attempt comes with
  its time and identifiers, the rows other dispatchers have locked, and the answer of the try-lock. The answer of a round is
  the number of attempts that committed something, which is also the index of the one that ended it.
\<close>

record dispatch_try =
  dt_env :: work_env
  dt_skip :: "id list"
  dt_locked :: bool

fun dispatch_from :: "fleet \<Rightarrow> (nat \<Rightarrow> dispatch_try) \<Rightarrow> nat \<Rightarrow> nat \<Rightarrow> work_db \<Rightarrow> work_db \<times> nat" where
  "dispatch_from f tries i 0 st = (st, i)"
| "dispatch_from f tries i (Suc n) st =
     (case dispatch_pending_agent_work (dt_env (tries i)) f (dt_skip (tries i)) (dt_locked (tries i)) st of
        (found, st', _) \<Rightarrow> if found then dispatch_from f tries (Suc i) n st' else (st', i))"

definition dispatch_rounds :: "fleet \<Rightarrow> (nat \<Rightarrow> dispatch_try) \<Rightarrow> work_db \<Rightarrow> work_db \<times> nat" where
  "dispatch_rounds f tries st = dispatch_from f tries 0 20 st"

section \<open>Attention\<close>

definition require_agent_work_owner :: "work_db \<Rightarrow> id \<Rightarrow> id \<Rightarrow> work_error option" where
  "require_agent_work_owner st agent actor =
     (if exists_row (\<lambda>a. a_id a = agent \<and> (a_id a = actor \<or> a_owner a = actor) \<and> a_active a) (agents (wd_board st))
      then None else Some ErrAgentWorkForbidden)"

definition parse_policy :: "string \<Rightarrow> attention option" where
  "parse_policy p =
     (if p = ''all'' then Some AttendAll else if p = ''mentions'' then Some AttendMentions
      else if p = ''nothing'' then Some AttendNothing else None)"

definition save_policy :: "id \<Rightarrow> id \<Rightarrow> attention option \<Rightarrow> wake_db \<Rightarrow> wake_db" where
  "save_policy agent ch policy d =
     (let same = (\<lambda>p. at_agent p = agent \<and> at_channel p = ch)
      in if ch = []
         then d\<lparr>wk_agents := update_where (\<lambda>a. wa_id a = agent)
                  (\<lambda>a. a\<lparr>wa_policy := (case policy of None \<Rightarrow> wa_policy a | Some p \<Rightarrow> p)\<rparr>) (wk_agents d)\<rparr>
         else case policy of
                None \<Rightarrow> d\<lparr>wk_attention := delete_where same (wk_attention d)\<rparr>
              | Some p \<Rightarrow>
                  if exists_row same (wk_attention d)
                  then d\<lparr>wk_attention := update_where same (\<lambda>x. x\<lparr>at_policy := p\<rparr>) (wk_attention d)\<rparr>
                  else d\<lparr>wk_attention := wk_attention d @ [\<lparr>at_agent = agent, at_channel = ch, at_policy = p\<rparr>]\<rparr>)"

definition muted :: "wake_db \<Rightarrow> id \<Rightarrow> pending_wake \<Rightarrow> bool" where
  "muted d agent p \<longleftrightarrow>
     pw_agent p = agent \<and> exists_row (\<lambda>a. wa_id a = agent \<and> attention_of d a (pw_channel p) = AttendNothing) (wk_agents d)"

definition set_agent_attention :: "work_env \<Rightarrow> id \<Rightarrow> id \<Rightarrow> id \<Rightarrow> string \<Rightarrow> work_db \<Rightarrow> work_error + work_db" where
  "set_agent_attention e agent actor ch policy st =
     (case require_agent_work_owner st agent actor of
        Some err \<Rightarrow> Inl err
      | None \<Rightarrow>
          if parse_policy policy = None \<and> \<not> (policy = ''inherit'' \<and> ch \<noteq> [])
          then Inl (WorkInvalid ''policy must be all, mentions, nothing, or a channel override of inherit'')
          else if ch \<noteq> [] \<and> uuid_parse (board_env e) ch = None then Inl (WorkInvalid ''invalid channel ID'')
          else
            (case (if ch = [] then None else require_channel_member (wd_board st) ch agent) of
               Some err \<Rightarrow> Inl (WorkTask err)
             | None \<Rightarrow>
                 (let d = save_policy agent ch (parse_policy policy) (mw_tables (wd_queue st))
                  in Inr (st\<lparr>wd_queue := (wd_queue st)\<lparr>mw_tables := d,
                             mw_pending := delete_where (muted d agent) (mw_pending (wd_queue st))\<rparr>\<rparr>))))"


section \<open>Work marks\<close>

record mark_request =
  mr_id :: id
  mr_channel :: id
  mr_source :: id
  mr_task :: id
  mr_description :: string
  mr_next :: string
  mr_status :: string
  mr_resolution :: string
  mr_key :: string

definition parse_mark_status :: "string \<Rightarrow> mark_status option" where
  "parse_mark_status s =
     (if s = ''resolved'' then Some MarkResolved else if s = ''cancelled'' then Some MarkCancelled else None)"

definition settles_mark :: "id \<Rightarrow> mark_status \<Rightarrow> mark_request \<Rightarrow> work_mark \<Rightarrow> bool" where
  "settles_mark agent s q m \<longleftrightarrow>
     mk_id m = mr_id q \<and> mk_agent m = agent \<and>
     (mk_status m = MarkOpen \<or> mk_status m = s \<and> mk_resolution m = mr_resolution q)"

definition resolve_mark :: "work_env \<Rightarrow> id \<Rightarrow> mark_request \<Rightarrow> work_db \<Rightarrow> work_error + (work_db \<times> id)" where
  "resolve_mark e agent q st =
     (if uuid_parse (board_env e) (mr_id q) = None then Inl (WorkInvalid ''invalid work mark ID'')
      else
        (case parse_mark_status (mr_status q) of
           None \<Rightarrow> Inl (WorkInvalid ''resolution and final status are required'')
         | Some s \<Rightarrow>
             if blank (mr_resolution q) \<or> length (mr_resolution q) > 8000
             then Inl (WorkInvalid ''resolution and final status are required'')
             else if count_rows (settles_mark agent s q) (wd_marks st) \<noteq> 1 then Inl WorkConflict
             else Inr (st\<lparr>wd_marks := update_where (settles_mark agent s q)
                         (\<lambda>m. m\<lparr>mk_status := s, mk_resolution := mr_resolution q\<rparr>) (wd_marks st)\<rparr>, mr_id q)))"

definition same_mark :: "mark_request \<Rightarrow> work_mark \<Rightarrow> bool" where
  "same_mark q m \<longleftrightarrow>
     mk_channel m = mr_channel q \<and> mk_description m = mr_description q \<and> mk_next m = mr_next q \<and>
     mk_source m = nullable (mr_source q) \<and> mk_task m = nullable (mr_task q)"

text \<open>The insertion: a task that is not named by its id is no UUID for the database; descriptions have a limit of runes.\<close>

definition insert_mark :: "work_env \<Rightarrow> id \<Rightarrow> mark_request \<Rightarrow> work_db \<Rightarrow> work_error + (work_db \<times> id)" where
  "insert_mark e agent q st =
     (if (mr_task q \<noteq> [] \<and> uuid_parse (board_env e) (mr_task q) = None) \<or> rune_count (mr_description q) = 0 \<or> 8000 < rune_count (mr_description q)
      then Inl WorkDatabase
      else
        (case find (\<lambda>m. mk_agent m = agent \<and> mk_key m = mr_key q) (wd_marks st) of
           Some m \<Rightarrow> if same_mark q m then Inr (st, mk_id m) else Inl WorkConflict
         | None \<Rightarrow>
             if exists_row (\<lambda>m. mk_id m = row_uuid e) (wd_marks st) then Inl WorkDatabase
             else Inr (st\<lparr>wd_marks := wd_marks st @
                      [\<lparr>mk_id = row_uuid e, mk_agent = agent, mk_channel = mr_channel q, mk_source = nullable (mr_source q),
                        mk_task = nullable (mr_task q), mk_description = mr_description q, mk_next = mr_next q,
                        mk_status = MarkOpen, mk_resolution = [], mk_key = mr_key q\<rparr>]\<rparr>, row_uuid e)))"

definition mark_source_error :: "work_env \<Rightarrow> mark_request \<Rightarrow> work_db \<Rightarrow> work_error option" where
  "mark_source_error e q st =
     (if mr_source q = [] then None
      else if uuid_parse (board_env e) (mr_source q) = None then Some (WorkInvalid ''invalid source message ID'')
      else if \<not> exists_row (\<lambda>m. wm_id m = mr_source q \<and> wm_channel m = mr_channel q \<and> \<not> wm_deleted m)
                  (wk_messages (mw_tables (wd_queue st)))
      then Some (WorkInvalid ''source message is not in this channel'') else None)"

definition save_agent_work_mark ::
  "work_env \<Rightarrow> id \<Rightarrow> id \<Rightarrow> mark_request \<Rightarrow> work_db \<Rightarrow> work_error + (work_db \<times> id)" where
  "save_agent_work_mark e agent actor q st =
     (case require_agent_work_owner st agent actor of
        Some err \<Rightarrow> Inl err
      | None \<Rightarrow>
          if mr_id q \<noteq> [] then resolve_mark e agent q st
          else if \<not> delivery_id (mr_key q) \<or> blank (mr_description q) \<or> length (mr_description q) > 8000 \<or>
                  length (mr_next q) > 8000
          then Inl (WorkInvalid ''work description and idempotency key are required'')
          else if uuid_parse (board_env e) (mr_channel q) = None then Inl (WorkInvalid ''invalid channel ID'')
          else
            (case require_channel_member (wd_board st) (mr_channel q) agent of
               Some err \<Rightarrow> Inl (WorkTask err)
             | None \<Rightarrow>
                 (case mark_source_error e q st of
                    Some err \<Rightarrow> Inl err
                  | None \<Rightarrow>
                      (case (if mr_task q = [] then Inr () else
                               map_sum id (\<lambda>_. ()) (get_task (board_env e) (wd_board st) (mr_channel q) (mr_task q) agent)) of
                         Inl err \<Rightarrow> Inl (WorkTask err)
                       | Inr _ \<Rightarrow> insert_mark e agent q st))))"

end
