(* ===== verification/Agent_Dispatch.thy ===== *)
theory Agent_Dispatch
  imports Agent_Work Task_Wait
begin

text \<open>
  The other sources of an agent's inbox: reviews of deliveries (\<open>service/task_review_dispatch.go\<close>), waits whose
  condition is met (\<open>service/task_wait.go\<close>) and the tasks of agent selections (\<open>service/agent_selection.go\<close>), which the same
  loop dispatches after the rows of work, each at the head of its agent's inbox and under the lock of the agent's work.

  \<open>desk\<close> puts beside the state of \<open>Agent_Work\<close> the columns of \<open>task_review_deliveries\<close> the board leaves out and the
  tables of selections. The inbox is now the whole view \<open>agent_inbox\<close>: nothing of it is stored. \<open>desk_env\<close> adds what
  \<open>GetOrCreateThread\<close> answers for a message, the texts of the prompts, of errors, and the users that are switched off.
  \<open>board_of\<close> gives the board the runs of the queue, which it reads from the same table.
\<close>

section \<open>State\<close>

record selection_row =
  sn_id :: id
  sn_agent :: id
  sn_status :: string
  sn_channel :: "id option"

record selection_trial =
  sx_selection :: id
  sx_arm :: string
  sx_agent :: id

record selection_sample =
  sy_selection :: id
  sy_arm :: string
  sy_case :: nat
  sy_task :: id
  sy_run :: "id option"
  sy_input :: "id option"
  sy_version :: int
  sy_attempts :: nat
  sy_next :: time
  sy_error :: string

record desk =
  ds_work :: work_db
  ds_next :: "id \<Rightarrow> time"
  ds_error :: "id \<Rightarrow> string"
  ds_selections :: "selection_row list"
  ds_trials :: "selection_trial list"
  ds_samples :: "selection_sample list"

datatype dispatch_failure =
    AgentUnavailable | NoDaemon resolve_error | NoCodeGate | NoThread string | NoRun run_error | NoThreadRow | NoSubmission

record desk_env = work_env +
  message_thread :: "id \<Rightarrow> id \<Rightarrow> string + id"
  review_text :: "task_row \<Rightarrow> submission_row \<Rightarrow> wake_message list \<Rightarrow> string"
  wait_text :: "task_row \<Rightarrow> wait_row \<Rightarrow> string"
  sample_text :: "task_row \<Rightarrow> submission_row option \<Rightarrow> string"
  cause_text :: "dispatch_failure \<Rightarrow> string"
  switched_off :: "id list"

definition CodeGateCapability :: string where "CodeGateCapability = ''code_gate_v1''"

definition minute :: time where "minute = 60 * 10 ^ 9"

abbreviation desk_runs :: "work_db \<Rightarrow> run_row list" where
  "desk_runs st \<equiv> mw_runs (wd_queue st)"

definition board_of :: "work_db \<Rightarrow> db" where
  "board_of st = (wd_board st)\<lparr>gate_runs :=
     map (\<lambda>r. \<lparr>gr_id = rn_id r, gr_agent = rn_agent r, gr_source = coalesce (rn_source r), gr_finished = rn_finished r \<noteq> None\<rparr>)
       (desk_runs st)\<rparr>"

definition board_now :: "desk_env \<Rightarrow> env" where
  "board_now e = (board_env e)\<lparr>now := clock e\<rparr>"

text \<open>Whether the run of an earlier attempt is none, or has ended.\<close>

definition run_through :: "work_db \<Rightarrow> id option \<Rightarrow> bool" where
  "run_through st rid =
     (case rid of None \<Rightarrow> True
      | Some i \<Rightarrow> (case row_by rn_id i (desk_runs st) of None \<Rightarrow> True | Some r \<Rightarrow> rn_finished r \<noteq> None))"

definition run_inactive :: "work_db \<Rightarrow> id option \<Rightarrow> bool" where
  "run_inactive st rid =
     (case rid of None \<Rightarrow> True
      | Some i \<Rightarrow> (case row_by rn_id i (desk_runs st) of None \<Rightarrow> True | Some r \<Rightarrow> \<not> is_active_agent_run_status (rn_status r)))"

definition no_more_work :: "task_status \<Rightarrow> bool" where
  "no_more_work s \<longleftrightarrow> s = TaskStatusDone \<or> s = TaskStatusClosed \<or> s = TaskStatusOther ''cancelled''"

section \<open>The view of the inbox\<close>

definition review_of :: "db \<Rightarrow> review_delivery_row \<Rightarrow> (submission_row \<times> task_row) option" where
  "review_of d x =
     (case row_by s_id (d_submission x) (submissions d) of
        None \<Rightarrow> None
      | Some s \<Rightarrow>
          (case row_by t_id (s_task s) (tasks d) of
             None \<Rightarrow> None
           | Some t \<Rightarrow>
               if t_status t = TaskStatusInReview \<and> t_submission t = Some (d_submission x) \<and> t_version t = s_version s + 1 \<and>
                  d_attempts x < 3
               then Some (s, t) else None))"

definition review_items :: "desk \<Rightarrow> inbox_item list" where
  "review_items x =
     List.map_filter (\<lambda>v.
       (case review_of (wd_board (ds_work x)) v of
          None \<Rightarrow> None
        | Some (s, t) \<Rightarrow>
            if run_through (ds_work x) (d_run v)
            then Some \<lparr>ib_agent = d_reviewer v, ib_kind = ''review'', ib_work = d_submission v, ib_priority = 10,
                       ib_created = s_created s, ib_ready = ds_next x (d_submission v)\<rparr>
            else None)) (deliveries (wd_board (ds_work x)))"

definition wait_current :: "db \<Rightarrow> wait_row \<Rightarrow> bool" where
  "wait_current d w \<longleftrightarrow>
     w_status w = Waiting \<and>
     exists_row (\<lambda>t. t_id t = w_task w \<and> t_version t = w_version w \<and> t_status t = TaskStatusInProgress \<and>
        t_claimer t = Some (w_agent w) \<and>
        (case t_channel t of None \<Rightarrow> False
         | Some ch \<Rightarrow> exists_row (\<lambda>c. ch_id c = ch \<and> \<not> ch_archived c) (channels d))) (tasks d)"

definition wait_items :: "env \<Rightarrow> db \<Rightarrow> inbox_item list" where
  "wait_items e d =
     map (\<lambda>w. \<lparr>ib_agent = w_agent w, ib_kind = ''wait'', ib_work = w_id w, ib_priority = 10,
               ib_created = w_created w, ib_ready = w_next_attempt w\<rparr>)
       (filter (\<lambda>w. wait_current d w \<and> wait_evidence e d w \<noteq> None) (waits d))"

definition open_selection :: "desk \<Rightarrow> id \<Rightarrow> bool" where
  "open_selection x i \<longleftrightarrow> exists_row (\<lambda>s. sn_id s = i \<and> (sn_status s = ''running'' \<or> sn_status s = ''observe'')) (ds_selections x)"

definition sample_trial :: "desk \<Rightarrow> selection_sample \<Rightarrow> selection_trial option" where
  "sample_trial x y = find (\<lambda>r. sx_selection r = sy_selection y \<and> sx_arm r = sy_arm y) (ds_trials x)"

definition sample_status :: "desk \<Rightarrow> (task_status \<Rightarrow> bool) \<Rightarrow> selection_sample \<Rightarrow> bool" where
  "sample_status x P y \<longleftrightarrow> exists_row (\<lambda>t. t_id t = sy_task y \<and> P (t_status t)) (tasks (wd_board (ds_work x)))"

definition candidate_of :: "selection_sample \<Rightarrow> selection_sample \<Rightarrow> bool" where
  "candidate_of y c \<longleftrightarrow> sy_selection c = sy_selection y \<and> sy_arm c = ''candidate'' \<and> sy_case c = sy_case y"

text \<open>Samples of an arm run one after the other, and a receiver needs the accepted output of its candidate.\<close>

definition sample_in_order :: "desk \<Rightarrow> selection_sample \<Rightarrow> bool" where
  "sample_in_order x y \<longleftrightarrow>
     \<not> exists_row (\<lambda>p. sy_selection p = sy_selection y \<and> sy_arm p = sy_arm y \<and> sy_case p < sy_case y \<and>
                      sample_status x (\<lambda>s. \<not> no_more_work s) p) (ds_samples x) \<and>
     (sy_arm y \<noteq> ''receiver'' \<or> exists_row (\<lambda>c. candidate_of y c \<and> sample_status x (\<lambda>s. s = TaskStatusDone) c) (ds_samples x))"

definition run_ended :: "work_db \<Rightarrow> id option \<Rightarrow> bool" where
  "run_ended st rid =
     (case rid of None \<Rightarrow> False
      | Some i \<Rightarrow> (case row_by rn_id i (desk_runs st) of None \<Rightarrow> False | Some r \<Rightarrow> rn_finished r \<noteq> None))"

text \<open>The agent and the task of a sample that is waiting for its run.\<close>

definition sample_work :: "desk \<Rightarrow> selection_sample \<Rightarrow> (id \<times> task_row) option" where
  "sample_work x y =
     (let st = ds_work x in
      case (sample_trial x y, row_by t_id (sy_task y) (tasks (wd_board st))) of
        (Some tr, Some t) \<Rightarrow>
          if open_selection x (sy_selection y) \<and> agent_is_active (mw_tables (wd_queue st)) (sx_agent tr) \<and>
             (case t_channel t of None \<Rightarrow> False
              | Some ch \<Rightarrow> exists_row (\<lambda>c. ch_id c = ch \<and> \<not> ch_archived c) (channels (wd_board st))) \<and>
             t_status t = TaskStatusInProgress \<and> t_claimer t = Some (sx_agent tr) \<and> sy_attempts y < 3 \<and>
             run_through st (sy_run y) \<and> (sy_version y < t_version t \<or> run_ended st (sy_run y)) \<and> sample_in_order x y
          then Some (sx_agent tr, t) else None
      | _ \<Rightarrow> None)"

definition sample_items :: "desk \<Rightarrow> inbox_item list" where
  "sample_items x =
     List.map_filter (\<lambda>y.
       map_option (\<lambda>(agent, t). \<lparr>ib_agent = agent, ib_kind = ''selection'', ib_work = t_id t, ib_priority = 10,
                                 ib_created = t_created t, ib_ready = sy_next y\<rparr>) (sample_work x y)) (ds_samples x)"

text \<open>The state of \<open>Agent_Work\<close> with the rows the other sources contribute.\<close>

definition at_desk :: "desk_env \<Rightarrow> desk \<Rightarrow> work_db" where
  "at_desk e x =
     (ds_work x)\<lparr>wd_queue := (wd_queue (ds_work x))\<lparr>mw_other :=
        review_items x @ wait_items (board_now e) (board_of (ds_work x)) @ sample_items x\<rparr>\<rparr>"

definition desk_turn :: "desk_env \<Rightarrow> desk \<Rightarrow> id \<Rightarrow> string \<Rightarrow> string \<Rightarrow> bool" where
  "desk_turn e x agent kind work = agent_inbox_turn (clock e) (inbox_queue (at_desk e x)) agent kind work"

section \<open>Starting a run\<close>

definition start_dispatched :: "desk_env \<Rightarrow> start_run_input \<Rightarrow> mw_state \<Rightarrow> run_error + (mw_state \<times> run_row)" where
  "start_dispatched e i st =
     (case start_run_tx (renv.truncate e) (r_tables (mw_remote st)) i of
        Inl err \<Rightarrow> Inl err
      | Inr (d, r) \<Rightarrow>
          Inr (st\<lparr>mw_remote := (mw_remote st)\<lparr>r_tables := d,
                    run_deliveries := run_deliveries (mw_remote st) @ [undelivered (rn_id r)]\<rparr>\<rparr>, r))"

definition desk_input :: "id \<Rightarrow> daemon_info \<Rightarrow> id \<Rightarrow> id \<Rightarrow> string \<Rightarrow> string \<Rightarrow> int \<Rightarrow> start_run_input" where
  "desk_input agent dmn ch th source activity seen =
     \<lparr>sr_agent = agent, sr_daemon = dn_id dmn, sr_session = [], sr_rollover = [],
      sr_scope = \<lparr>trigger_type = ''task'', trigger_message = None, scope_channel = nullable ch,
                  scope_thread = nullable th, scope_node = None\<rparr>,
      sr_status = None, sr_activity = activity, sr_tool = [], sr_input = [], sr_source = source, sr_usage = UsageEmpty,
      sr_wake = \<lparr>freshness_seen = seen, wake_first = 0, wake_latest = 0, wake_visible = False\<rparr>\<rparr>"

definition desk_payload :: "id \<Rightarrow> id \<Rightarrow> id \<Rightarrow> string \<Rightarrow> bool \<Rightarrow> string \<Rightarrow> task_payload" where
  "desk_payload agent ch tid provider code prompt =
     \<lparr>tp_task = [], tp_run = [], tp_agent = agent, tp_channel = ch, tp_provider = provider, tp_node = [],
      tp_origin_task = tid, tp_resume = [], tp_fresh = False, tp_retire = [], tp_code_review = code,
      tp_team_version = [], tp_skills = [],
      tp_messages = [\<lparr>pm_system = False, pm_content = prompt, pm_sender = []\<rparr>], tp_cold_start = [], tp_context = []\<rparr>"

definition desk_message_turn :: "id \<Rightarrow> task_payload \<Rightarrow> message_turn" where
  "desk_message_turn th p =
     \<lparr>mt_agent = tp_agent p, mt_channel = tp_channel p, mt_thread = th, mt_trigger = [], mt_visible = False, mt_payload = p\<rparr>"

definition link_primary :: "id \<Rightarrow> id \<Rightarrow> mw_state \<Rightarrow> mw_state" where
  "link_primary rid tid st =
     st\<lparr>mw_remote := (mw_remote st)\<lparr>r_tables := (r_tables (mw_remote st))\<lparr>links := links (r_tables (mw_remote st)) @
        [\<lparr>lk_run = rid, lk_task = tid, lk_role = AgentRunTaskRolePrimary\<rparr>]\<rparr>\<rparr>\<rparr>"

definition persist_dispatched :: "desk_env \<Rightarrow> daemon_info \<Rightarrow> run_row \<Rightarrow> id \<Rightarrow> task_payload \<Rightarrow> mw_state \<Rightarrow> wake_error + mw_state" where
  "persist_dispatched e dmn r th p st = persist_remote_message_run (wake_env.truncate e) dmn r (desk_message_turn th p) st"

definition set_ds_work :: "(work_db \<Rightarrow> work_db) \<Rightarrow> desk \<Rightarrow> desk" where
  "set_ds_work f x = x\<lparr>ds_work := f (ds_work x)\<rparr>"

definition set_board :: "(db \<Rightarrow> db) \<Rightarrow> desk \<Rightarrow> desk" where
  "set_board f x = set_ds_work (\<lambda>st. st\<lparr>wd_board := f (wd_board st)\<rparr>) x"

text \<open>The binding of an agent to its only daemon is written outside of the transaction.\<close>

definition bind_daemon :: "bindings_db \<Rightarrow> desk \<Rightarrow> desk" where
  "bind_daemon b x = set_ds_work (\<lambda>st. st\<lparr>wd_bindings := b\<rparr>) x"

definition put_queue :: "mw_state \<Rightarrow> desk \<Rightarrow> desk" where
  "put_queue q x = set_ds_work (with_queue q) x"

section \<open>Reviews\<close>

definition set_delivery_row :: "id \<Rightarrow> (review_delivery_row \<Rightarrow> review_delivery_row) \<Rightarrow> db \<Rightarrow> db" where
  "set_delivery_row sub f d = d\<lparr>deliveries := update_where (\<lambda>v. d_submission v = sub) f (deliveries d)\<rparr>"

definition put_off_review :: "desk_env \<Rightarrow> id \<Rightarrow> dispatch_failure \<Rightarrow> desk \<Rightarrow> desk" where
  "put_off_review e sub why x =
     (set_board (set_delivery_row sub (\<lambda>v. v\<lparr>d_attempts := d_attempts v + 1\<rparr>)) x)
       \<lparr>ds_error := (ds_error x)(sub := cause_text e why), ds_next := (ds_next x)(sub := clock e + minute)\<rparr>"

definition review_started :: "desk_env \<Rightarrow> id \<Rightarrow> id \<Rightarrow> desk \<Rightarrow> desk" where
  "review_started e sub rid x =
     (set_board (set_delivery_row sub (\<lambda>v. v\<lparr>d_attempts := d_attempts v + 1, d_run := Some rid\<rparr>)) x)
       \<lparr>ds_error := (ds_error x)(sub := []), ds_next := (ds_next x)(sub := clock e + minute)\<rparr>"

definition choose_review :: "desk_env \<Rightarrow> id list \<Rightarrow> desk \<Rightarrow> review_delivery_row option" where
  "choose_review e skip x =
     pick_by (\<lambda>a b. ds_next x (d_submission a) < ds_next x (d_submission b))
       (filter (\<lambda>v. d_submission v \<notin> set skip \<and> review_of (wd_board (ds_work x)) v \<noteq> None \<and>
                    ds_next x (d_submission v) \<le> clock e \<and> desk_turn e x (d_reviewer v) ''review'' (d_submission v) \<and>
                    \<not> busy (wd_queue (ds_work x)) (d_reviewer v) \<and> run_inactive (ds_work x) (d_run v))
         (deliveries (wd_board (ds_work x))))"

text \<open>The agent as long as it is active and a member of the open channel.\<close>

definition channel_profile :: "desk \<Rightarrow> id \<Rightarrow> id \<Rightarrow> agent_channel_info option" where
  "channel_profile x agent ch = (if may_queue (ds_work x) agent ch then work_profile (ds_work x) agent else None)"

definition thread_of_task :: "desk_env \<Rightarrow> task_row \<Rightarrow> string + id" where
  "thread_of_task e t =
     (case t_message t of None \<Rightarrow> Inr [] | Some m \<Rightarrow> message_thread e (coalesce (t_channel t)) m)"

text \<open>The messages of a conversation that are not deleted, up to the last twenty of which a reviewer is shown.\<close>

definition conversation :: "work_db \<Rightarrow> id \<Rightarrow> id \<Rightarrow> wake_message list" where
  "conversation st ch th =
     sort_key wm_seq (filter (\<lambda>m. wm_channel m = ch \<and> wm_thread m = nullable th \<and> \<not> wm_deleted m)
       (wk_messages (mw_tables (wd_queue st))))"

definition last_seq :: "wake_message list \<Rightarrow> int" where
  "last_seq ms = (if ms = [] then 0 else wm_seq (last ms))"

definition is_code_gate :: "submission_row \<Rightarrow> bool" where
  "is_code_gate s \<longleftrightarrow> gate_kind (gate (s_contract s)) = ''code''"

definition review_activity :: string where
  "review_activity = map char_of
     [231, 173, 137, 229, 190, 133, 228, 186, 164, 228, 187, 152, 229, 174, 161, 230, 160, 184 :: nat]"

text \<open>The run of a review, once its agent, its computer and its thread are known.\<close>

definition start_review ::
  "desk_env \<Rightarrow> daemon_info \<Rightarrow> agent_channel_info \<Rightarrow> id \<Rightarrow> review_delivery_row \<Rightarrow> submission_row \<Rightarrow> task_row \<Rightarrow> desk \<Rightarrow>
   bool \<times> desk \<times> run_row option" where
  "start_review e dmn ag th v s t x =
     (let ch = coalesce (t_channel t); said = conversation (ds_work x) ch th; code = is_code_gate s;
          shown = drop (length said - 20) said;
          i = desk_input (d_reviewer v) dmn ch th (if code then ''code_gate'' else ai_provider ag) review_activity (last_seq said)
      in case start_dispatched e i (wd_queue (ds_work x)) of
           Inl err \<Rightarrow> (True, put_off_review e (d_submission v) (NoRun err) x, None)
         | Inr (q, r) \<Rightarrow>
             (case persist_dispatched e dmn r th
                     (desk_payload (ai_id ag) ch (t_id t) (ai_provider ag) code (review_text e t s shown)) q of
                Inl _ \<Rightarrow> (False, x, None)
              | Inr q' \<Rightarrow> (True, put_queue q' (review_started e (d_submission v) (rn_id r) x), Some r)))"

text \<open>
  One attempt: whether anything was committed, and the run. A failure to store the payload for a remote
  computer undoes the transaction.
\<close>

definition dispatch_task_review :: "desk_env \<Rightarrow> fleet \<Rightarrow> id list \<Rightarrow> bool \<Rightarrow> desk \<Rightarrow> bool \<times> desk \<times> run_row option" where
  "dispatch_task_review e f skip locked x =
     (case choose_review e skip x of
        None \<Rightarrow> (False, x, None)
      | Some v \<Rightarrow>
     (case review_of (wd_board (ds_work x)) v of
        None \<Rightarrow> (False, x, None)
      | Some (s, t) \<Rightarrow>
          if \<not> locked \<or> busy (wd_queue (ds_work x)) (d_reviewer v) \<or>
             \<not> desk_turn e x (d_reviewer v) ''review'' (d_submission v)
          then (False, x, None)
          else
     (case channel_profile x (d_reviewer v) (coalesce (t_channel t)) of
        None \<Rightarrow> (True, put_off_review e (d_submission v) AgentUnavailable x, None)
      | Some ag \<Rightarrow>
     (case resolve_daemon_for_agent f (d_reviewer v) ''llm'' (wd_bindings (ds_work x)) of
        Inl err \<Rightarrow> (True, put_off_review e (d_submission v) (NoDaemon err) x, None)
      | Inr (b, dmn) \<Rightarrow>
          if is_code_gate s \<and> \<not> has_capability (dn_capabilities dmn) CodeGateCapability
          then (True, put_off_review e (d_submission v) NoCodeGate (bind_daemon b x), None)
          else
     (case thread_of_task e t of
        Inl cause \<Rightarrow> (True, put_off_review e (d_submission v) (NoThread cause) (bind_daemon b x), None)
      | Inr th \<Rightarrow> start_review e dmn ag th v s t (bind_daemon b x))))))"

section \<open>Waits\<close>

text \<open>
  Of what \<open>Task_Wait\<close> asks for, the choice of a wait needs the inbox only; a wait whose rows another transaction has
  locked is skipped.
\<close>

definition wait_desk :: "desk_env \<Rightarrow> id list \<Rightarrow> desk \<Rightarrow> dispatch_env" where
  "wait_desk e skip x =
     dispatch_env.make (\<lambda>agent w. w \<notin> set skip \<and> desk_turn e x agent ''wait'' w) (\<lambda>_. True) (\<lambda>_. Inr []) (\<lambda>_. Inr []) (\<lambda>_. None)"

definition wait_activity :: string where
  "wait_activity = map char_of
     [231, 173, 137, 229, 190, 133, 230, 157, 161, 228, 187, 182, 229, 183, 178, 230, 187, 161, 232, 182, 179, 239, 188, 140,
      231, 187, 167, 231, 187, 173, 229, 142, 159, 228, 187, 187, 229, 138, 161 :: nat]"

definition wait_resumed :: "desk_env \<Rightarrow> wait_row \<Rightarrow> id \<Rightarrow> db \<Rightarrow> db" where
  "wait_resumed e w rid d =
     set_wait (w_id w)
       (\<lambda>y. y\<lparr>w_status := Resumed, w_run := Some rid, w_fulfillment := wait_evidence (board_now e) d w, w_last_error := []\<rparr>) d"

definition put_off_wait :: "desk_env \<Rightarrow> wait_row \<Rightarrow> dispatch_failure \<Rightarrow> desk \<Rightarrow> desk" where
  "put_off_wait e w why x = set_board (postpone_wait (board_now e) (w_id w) (cause_text e why)) x"

definition resume_wait ::
  "desk_env \<Rightarrow> daemon_info \<Rightarrow> agent_channel_info \<Rightarrow> id \<Rightarrow> wait_row \<Rightarrow> task_row \<Rightarrow> desk \<Rightarrow> bool \<times> desk \<times> run_row option" where
  "resume_wait e dmn ag th w t x =
     (let ch = coalesce (t_channel t);
          i = desk_input (w_agent w) dmn ch th (ai_provider ag) wait_activity 0
      in case start_dispatched e i (wd_queue (ds_work x)) of
           Inl _ \<Rightarrow> (False, x, None)
         | Inr (q, r) \<Rightarrow>
             (case persist_dispatched e dmn r th
                     (desk_payload (w_agent w) ch (t_id t) (ai_provider ag) False (wait_text e t w)) (link_primary (rn_id r) (t_id t) q) of
                Inl _ \<Rightarrow> (False, x, None)
              | Inr q' \<Rightarrow> (True, put_queue q' (set_board (wait_resumed e w (rn_id r)) x), Some r)))"

text \<open>The agent's row, which here need not be in an open channel: a wait in an archived one is not chosen.\<close>

definition member_profile :: "desk \<Rightarrow> id \<Rightarrow> id \<Rightarrow> agent_channel_info option" where
  "member_profile x agent ch =
     (if active_member_agent (wd_board (ds_work x)) ch agent \<noteq> None then row_by ai_id agent (wd_profiles (ds_work x)) else None)"

definition desk_wait :: "desk_env \<Rightarrow> fleet \<Rightarrow> id list \<Rightarrow> bool \<Rightarrow> desk \<Rightarrow> bool \<times> desk \<times> run_row option" where
  "desk_wait e f skip locked x =
     (let d = board_of (ds_work x) in
      case next_ready_wait (board_now e) (wait_desk e skip x) d of
        None \<Rightarrow> (False, x, None)
      | Some w \<Rightarrow>
     (case row_by t_id (w_task w) (tasks d) of
        None \<Rightarrow> (False, x, None)
      | Some t \<Rightarrow>
          if wc_kind (w_condition w) = ''task_done'' \<and>
             (case dependency_row (board_now e) d w of None \<Rightarrow> True | Some dep \<Rightarrow> t_channel dep \<noteq> t_channel t)
          then (False, x, None)
          else if \<not> locked \<or> agent_busy d (w_agent w) \<or> \<not> desk_turn e x (w_agent w) ''wait'' (w_id w)
          then (False, x, None)
          else
     (case member_profile x (w_agent w) (coalesce (t_channel t)) of
        None \<Rightarrow> (True, put_off_wait e w AgentUnavailable x, None)
      | Some ag \<Rightarrow>
     (case resolve_daemon_for_agent f (w_agent w) ''llm'' (wd_bindings (ds_work x)) of
        Inl err \<Rightarrow> (True, put_off_wait e w (NoDaemon err) x, None)
      | Inr (b, dmn) \<Rightarrow>
     (case thread_of_task e t of
        Inl cause \<Rightarrow> (True, put_off_wait e w (NoThread cause) (bind_daemon b x), None)
      | Inr th \<Rightarrow> resume_wait e dmn ag th w t (bind_daemon b x))))))"

section \<open>Tasks of selections\<close>

definition set_sample :: "id \<Rightarrow> (selection_sample \<Rightarrow> selection_sample) \<Rightarrow> desk \<Rightarrow> desk" where
  "set_sample tid f x = x\<lparr>ds_samples := update_where (\<lambda>y. sy_task y = tid) f (ds_samples x)\<rparr>"

text \<open>The tasks of samples that satisfy a condition are closed with a reason, one after the other; \<open>None\<close> is a refusal of the database.\<close>

definition close_sample :: "desk_env \<Rightarrow> string \<Rightarrow> desk option \<Rightarrow> selection_sample \<Rightarrow> desk option" where
  "close_sample e why x0 y =
     (case x0 of
        None \<Rightarrow> None
      | Some x \<Rightarrow>
          (case update_task (sy_task y) (\<lambda>_. True) (\<lambda>t. t\<lparr>t_status := TaskStatusClosed, t_updated := clock e\<rparr>) (wd_board (ds_work x)) of
             None \<Rightarrow> None
           | Some (d, _) \<Rightarrow> Some (set_board (\<lambda>_. d) (set_sample (sy_task y) (\<lambda>z. z\<lparr>sy_error := why\<rparr>) x))))"

definition close_samples :: "desk_env \<Rightarrow> (selection_sample \<Rightarrow> bool) \<Rightarrow> string \<Rightarrow> desk \<Rightarrow> desk option" where
  "close_samples e P why x = foldl (close_sample e why) (Some x) (filter P (ds_samples x))"

definition in_progress :: "desk \<Rightarrow> selection_sample \<Rightarrow> bool" where
  "in_progress x y \<longleftrightarrow> open_selection x (sy_selection y) \<and> sample_status x (\<lambda>s. s = TaskStatusInProgress) y"

text \<open>A receiver whose candidate has failed, while no receiver of the selection is at work.\<close>

definition blocked_sample :: "id list \<Rightarrow> desk \<Rightarrow> selection_sample \<Rightarrow> bool" where
  "blocked_sample skip x y \<longleftrightarrow>
     sy_task y \<notin> set skip \<and> in_progress x y \<and> sy_arm y = ''receiver'' \<and>
     exists_row (\<lambda>c. candidate_of y c \<and> sample_status x (\<lambda>s. s = TaskStatusClosed \<or> s = TaskStatusOther ''cancelled'') c) (ds_samples x) \<and>
     \<not> exists_row (\<lambda>tr. sx_selection tr = sy_selection y \<and> sx_arm tr = ''receiver'' \<and>
          exists_row (\<lambda>r. rn_agent r = sx_agent tr \<and> rn_finished r = None) (desk_runs (ds_work x))) (ds_trials x)"

definition exhausted_sample :: "desk_env \<Rightarrow> id list \<Rightarrow> desk \<Rightarrow> selection_sample \<Rightarrow> bool" where
  "exhausted_sample e skip x y \<longleftrightarrow>
     sy_task y \<notin> set skip \<and> in_progress x y \<and> 3 \<le> sy_attempts y \<and> run_ended (ds_work x) (sy_run y) \<and> sy_next y \<le> clock e"

definition choose_sample :: "desk_env \<Rightarrow> id list \<Rightarrow> desk \<Rightarrow> (selection_sample \<times> id \<times> task_row) option" where
  "choose_sample e skip x =
     pick_by (\<lambda>(a, _) (b, _). (sy_next a, sy_case a, sy_arm a) < (sy_next b, sy_case b, sy_arm b))
       (List.map_filter (\<lambda>y.
          (case sample_work x y of
             None \<Rightarrow> None
           | Some (agent, t) \<Rightarrow>
               if sy_task y \<notin> set skip \<and> sy_next y \<le> clock e \<and> \<not> busy (wd_queue (ds_work x)) agent \<and>
                  desk_turn e x agent ''selection'' (t_id t)
               then Some (y, agent, t) else None)) (ds_samples x))"

definition put_off_sample :: "desk_env \<Rightarrow> id \<Rightarrow> dispatch_failure \<Rightarrow> desk \<Rightarrow> desk" where
  "put_off_sample e tid why x =
     set_sample tid (\<lambda>y. y\<lparr>sy_error := take_runes 2000 (cause_text e why), sy_next := clock e + minute\<rparr>) x"

text \<open>What a receiver consumes: the current submission of its candidate's accepted task.\<close>

definition candidate_submission :: "desk \<Rightarrow> selection_sample \<Rightarrow> submission_row option" where
  "candidate_submission x y =
     (let d = wd_board (ds_work x) in
      case List.map_filter (\<lambda>c.
             (case find (\<lambda>t. t_id t = sy_task c \<and> t_status t = TaskStatusDone) (tasks d) of
                None \<Rightarrow> None
              | Some t \<Rightarrow> find (\<lambda>s. t_submission t = Some (s_id s)) (submissions d))) (filter (candidate_of y) (ds_samples x)) of
        [] \<Rightarrow> None
      | s # _ \<Rightarrow> Some s)"

definition sample_activity :: string where
  "sample_activity = map char_of
     [230, 137, 167, 232, 161, 140, 229, 155, 186, 229, 174, 154, 231, 137, 136, 230, 156, 172, 229, 175, 185, 231, 133, 167,
      232, 175, 132, 228, 188, 176 :: nat]"

definition start_sample ::
  "desk_env \<Rightarrow> daemon_info \<Rightarrow> agent_channel_info \<Rightarrow> id \<Rightarrow> selection_sample \<Rightarrow> submission_row option \<Rightarrow> id \<Rightarrow> task_row \<Rightarrow> desk \<Rightarrow>
   desk \<Rightarrow> bool \<times> desk \<times> run_row option" where
  "start_sample e dmn ag th y sub agent t x x0 =
     (let ch = coalesce (t_channel t); tid = t_id t;
          i = desk_input agent dmn ch th (ai_provider ag) sample_activity 0
      in case start_dispatched e i (wd_queue (ds_work x)) of
           Inl err \<Rightarrow> (True, put_off_sample e tid (NoRun err) x, None)
         | Inr (q, r) \<Rightarrow>
             (case persist_dispatched e dmn r th
                     (desk_payload agent ch tid (ai_provider ag) False (sample_text e t sub)) (link_primary (rn_id r) tid q) of
                Inl _ \<Rightarrow> (False, x0, None)
              | Inr q' \<Rightarrow>
                  (True, put_queue q' (set_sample tid
                     (\<lambda>z. z\<lparr>sy_run := Some (rn_id r), sy_version := t_version t, sy_attempts := sy_attempts z + 1, sy_error := [],
                            sy_next := clock e + minute\<rparr>) x), Some r)))"

text \<open>The chosen sample, in the state \<open>x\<close> the closings left; \<open>x0\<close> is the state the transaction began with.\<close>

definition take_sample ::
  "desk_env \<Rightarrow> fleet \<Rightarrow> selection_sample \<Rightarrow> id \<Rightarrow> task_row \<Rightarrow> desk \<Rightarrow> desk \<Rightarrow> bool \<times> desk \<times> run_row option" where
  "take_sample e f y agent t x x0 =
     (case row_by ai_id agent (wd_profiles (ds_work x)) of
        None \<Rightarrow> (True, put_off_sample e (t_id t) AgentUnavailable x, None)
      | Some ag \<Rightarrow>
     (case resolve_daemon_for_agent f agent ''llm'' (wd_bindings (ds_work x)) of
        Inl err \<Rightarrow> (True, put_off_sample e (t_id t) (NoDaemon err) x, None)
      | Inr (b, dmn) \<Rightarrow>
          (let x1 = bind_daemon b x; y0 = bind_daemon b x0 in
     (case find (\<lambda>h. t_message t = Some (th_root h)) (threads (r_tables (mw_remote (wd_queue (ds_work x1))))) of
        None \<Rightarrow> (True, put_off_sample e (t_id t) NoThreadRow x1, None)
      | Some h \<Rightarrow>
          if sy_arm y = ''receiver''
          then
            (case candidate_submission x1 y of
               None \<Rightarrow> (True, put_off_sample e (t_id t) NoSubmission x1, None)
             | Some s \<Rightarrow>
                 start_sample e dmn ag (th_id h) y (Some s) agent t
                   (set_sample (t_id t) (\<lambda>z. z\<lparr>sy_input := Some (s_id s)\<rparr>) x1) y0)
          else start_sample e dmn ag (th_id h) y None agent t x1 y0))))"

section \<open>The outcome of a selection\<close>

definition selection_tasks :: "desk \<Rightarrow> id \<Rightarrow> task_row list" where
  "selection_tasks x i =
     filter (\<lambda>t. exists_row (\<lambda>y. sy_selection y = i \<and> sy_task y = t_id t) (ds_samples x)) (tasks (wd_board (ds_work x)))"

definition selection_completed :: "desk \<Rightarrow> id \<Rightarrow> bool" where
  "selection_completed x i \<longleftrightarrow> \<not> exists_row (\<lambda>t. \<not> no_more_work (t_status t)) (selection_tasks x i)"

definition review_stuck :: "desk \<Rightarrow> id \<Rightarrow> bool" where
  "review_stuck x i \<longleftrightarrow>
     exists_row (\<lambda>t. t_status t = TaskStatusInReview \<and>
       exists_row (\<lambda>v. t_submission t = Some (d_submission v) \<and> 3 \<le> d_attempts v) (deliveries (wd_board (ds_work x)))) (selection_tasks x i)"

definition outcome_word :: "desk \<Rightarrow> selection_row \<Rightarrow> string" where
  "outcome_word x s = (if selection_completed x (sn_id s) then ''completed'' else ''needs_input'')"

definition outcome_mark :: "desk \<Rightarrow> selection_row \<Rightarrow> string" where
  "outcome_mark x s = ''Selection '' @ sn_id s @ '' '' @ outcome_word x s @ ''.''"

definition outcome_text :: "desk \<Rightarrow> selection_row \<Rightarrow> string" where
  "outcome_text x s = outcome_mark x s @ '' Read solo work selections once and report the actual outcome of this exact comparison in the original channel. Explain the concrete improvement or failure, actual costs, remaining uncertainty and this team's scope. If ready, point the owner to your existing member sidebar's improvement proposal; adoption belongs to the owner. If independent review needs input, name the affected task and precise missing evidence or decision. Do not claim success without verified results, approve your own revision, poll, create a replacement Task, or start another comparison. This is a brief outcome report, not a new execution task.''"

definition outcome_due :: "desk_env \<Rightarrow> desk \<Rightarrow> selection_row \<Rightarrow> bool" where
  "outcome_due e x s \<longleftrightarrow>
     (let st = ds_work x; d = wd_board st in
      open_selection x (sn_id s) \<and>
      exists_row (\<lambda>a. a_id a = sn_agent s \<and> a_active a \<and> exists_row (\<lambda>u. u_id u = a_owner a \<and> u_id u \<notin> set (switched_off e)) (users d))
        (agents d) \<and>
      (case sn_channel s of None \<Rightarrow> False
       | Some ch \<Rightarrow> exists_row (\<lambda>c. ch_id c = ch \<and> \<not> ch_archived c) (channels d) \<and> member_of_kind d ch (sn_agent s) ''agent'') \<and>
      \<not> exists_row (\<lambda>tr. sx_selection tr = sn_id s \<and>
          exists_row (\<lambda>r. rn_agent r = sx_agent tr \<and> rn_finished r = None) (desk_runs st)) (ds_trials x) \<and>
      (selection_completed x (sn_id s) \<or> review_stuck x (sn_id s)) \<and>
      \<not> exists_row (\<lambda>w. wo_agent w = sn_agent s \<and> Some (wo_channel w) = sn_channel s \<and>
          (case tp_messages (wo_payload w) of [] \<Rightarrow> False | m # _ \<Rightarrow> has_prefix (outcome_mark x s) (pm_content m))) (wd_rows st))"

definition outcome_request :: "desk \<Rightarrow> selection_row \<Rightarrow> work_request" where
  "outcome_request x s =
     \<lparr>tp_task = [], tp_run = [], tp_agent = sn_agent s, tp_channel = coalesce (sn_channel s), tp_provider = [], tp_node = [],
      tp_origin_task = [], tp_resume = [], tp_fresh = False, tp_retire = [], tp_code_review = False, tp_team_version = [],
      tp_skills = [], tp_messages = [\<lparr>pm_system = False, pm_content = outcome_text x s, pm_sender = []\<rparr>],
      tp_cold_start = [], tp_context = [], dr_thread = [], dr_trigger = [], dr_assignee = [], dr_link_role = [],
      dr_return = False, dr_contract = agentResultContractVisibleMessage, dr_system = [], dr_thinking = [], dr_model = [],
      dr_relationships = [], dr_env = [], dr_args = [], dr_token = [], dr_seen = 0, dr_recovery = None\<rparr>"

definition notify_selection_outcome :: "desk_env \<Rightarrow> desk \<Rightarrow> bool \<times> desk" where
  "notify_selection_outcome e x =
     (case pick_by (\<lambda>a b. sn_id a < sn_id b) (filter (outcome_due e x) (ds_selections x)) of
        None \<Rightarrow> (False, x)
      | Some s \<Rightarrow>
          (case enqueue_agent_work (work_env.truncate e) (outcome_request x s) (ds_work x) of
             Inl _ \<Rightarrow> (False, x)
           | Inr st \<Rightarrow> (True, x\<lparr>ds_work := st\<rparr>)))"

text \<open>One attempt. Without a sample the closings are committed and an outcome may be reported.\<close>

definition dispatch_selection_task :: "desk_env \<Rightarrow> fleet \<Rightarrow> id list \<Rightarrow> bool \<Rightarrow> desk \<Rightarrow> bool \<times> desk \<times> run_row option" where
  "dispatch_selection_task e f skip locked x0 =
     (case close_samples e (blocked_sample skip x0) ''Candidate failed; no accepted output is available to consume'' x0 of
        None \<Rightarrow> (False, x0, None)
      | Some x1 \<Rightarrow>
     (case close_samples e (exhausted_sample e skip x1) ''Execution attempts exhausted without an accepted delivery'' x1 of
        None \<Rightarrow> (False, x0, None)
      | Some x \<Rightarrow>
     (case choose_sample e skip x of
        None \<Rightarrow> (case notify_selection_outcome e x of (found, x') \<Rightarrow> (found, x', None))
      | Some (y, agent, t) \<Rightarrow>
          if \<not> locked \<or> busy (wd_queue (ds_work x)) agent \<or> \<not> desk_turn e x agent ''selection'' (t_id t)
          then (False, x0, None)
          else take_sample e f y agent t x x0)))"

section \<open>A tick of the dispatcher\<close>

text \<open>
  \<open>RunTaskReviews\<close>: every five seconds each queue is served in turn, at most twenty times, until an attempt commits
  nothing. An attempt comes with its time, what others have locked and whether the lock on the agent's work was free.
\<close>

record desk_try =
  ky_env :: desk_env
  ky_skip :: "id list"
  ky_locked :: bool

fun serve :: "(desk_try \<Rightarrow> desk \<Rightarrow> bool \<times> desk) \<Rightarrow> desk_try list \<Rightarrow> desk \<Rightarrow> desk" where
  "serve attempt [] x = x"
| "serve attempt (k # ks) x = (case attempt k x of (found, x') \<Rightarrow> if found then serve attempt ks x' else x')"

definition desk_work_attempt :: "fleet \<Rightarrow> desk_try \<Rightarrow> desk \<Rightarrow> bool \<times> desk" where
  "desk_work_attempt f k x =
     (case dispatch_pending_agent_work (work_env.truncate (ky_env k)) f (ky_skip k) (ky_locked k) (at_desk (ky_env k) x) of
        (found, st, _) \<Rightarrow> (found, x\<lparr>ds_work := st\<rparr>))"

definition without_run :: "bool \<times> desk \<times> run_row option \<Rightarrow> bool \<times> desk" where
  "without_run a = (fst a, fst (snd a))"

definition run_task_reviews ::
  "fleet \<Rightarrow> desk_try list \<Rightarrow> desk_try list \<Rightarrow> desk_try list \<Rightarrow> desk_try list \<Rightarrow> desk \<Rightarrow> desk" where
  "run_task_reviews f works reviews_tries wait_tries selection_tries x =
     serve (\<lambda>k y. without_run (dispatch_selection_task (ky_env k) f (ky_skip k) (ky_locked k) y)) (take 20 selection_tries)
       (serve (\<lambda>k y. without_run (desk_wait (ky_env k) f (ky_skip k) (ky_locked k) y)) (take 20 wait_tries)
         (serve (\<lambda>k y. without_run (dispatch_task_review (ky_env k) f (ky_skip k) (ky_locked k) y)) (take 20 reviews_tries)
           (serve (desk_work_attempt f) (take 20 works) x)))"

end
