(* ===== verification/Agent_Work_Theorems.thy ===== *)
theory Agent_Work_Theorems
  imports Agent_Work Message_Theorems
begin

text \<open>
  Properties of the inbox: work is taken in turn and by an idle agent, a request becomes at most one run, and
  a round of the dispatcher, bounded by its twenty attempts and the locks of others, leaves no row it could serve.
\<close>

section \<open>Heads\<close>

lemma pick_by_least:
  fixes rank :: "'a \<Rightarrow> 'b::linorder"
  assumes "pick_by (\<lambda>a b. rank a < rank b) xs = Some r" and "x \<in> set xs"
  shows "rank r \<le> rank x"
proof -
  have "rank (foldl (\<lambda>a b. if rank b < rank a then b else a) y ys) \<le> rank y \<and>
        (\<forall>z \<in> set ys. rank (foldl (\<lambda>a b. if rank b < rank a then b else a) y ys) \<le> rank z)" for y ys
    by (induction ys arbitrary: y) (auto intro: order_trans less_imp_le, force+)
  then show ?thesis using assms by (cases xs) (auto simp: pick_by_def)
qed

lemma turn_head:
  assumes "agent_inbox_turn t q agent kind work"
  obtains i where "i \<in> set (agent_inbox q)" "ib_agent i = agent" "ib_kind i = kind" "ib_work i = work" "ib_ready i \<le> t"
    "\<not> busy q agent" "\<forall>j \<in> set (agent_inbox q). ib_agent j = agent \<and> ib_ready j \<le> t \<longrightarrow> inbox_rank i \<le> inbox_rank j"
proof -
  from assms obtain i where i: "inbox_head t q agent = Some i" "ib_kind i = kind" "ib_work i = work"
    by (auto simp: agent_inbox_turn_def split: option.splits)
  then have p: "pick_by (\<lambda>a b. inbox_rank a < inbox_rank b) (filter (\<lambda>i. ib_agent i = agent \<and> ib_ready i \<le> t) (agent_inbox q)) = Some i"
    and idle: "\<not> busy q agent"
    by (auto simp: inbox_head_def split: if_splits)
  from pick_by_in [OF p] have "i \<in> set (agent_inbox q)" "ib_agent i = agent" "ib_ready i \<le> t" by auto
  moreover have "\<forall>j \<in> set (agent_inbox q). ib_agent j = agent \<and> ib_ready j \<le> t \<longrightarrow> inbox_rank i \<le> inbox_rank j"
    using pick_by_least [OF p] by simp
  ultimately show ?thesis using that i idle by blast
qed

lemma queue_parts [simp]:
  "mw_tables (inbox_queue st) = mw_tables (wd_queue st)" "mw_remote (inbox_queue st) = mw_remote (wd_queue st)"
  "mw_pending (inbox_queue st) = mw_pending (wd_queue st)" "mw_consumed (inbox_queue st) = mw_consumed (wd_queue st)"
  by (simp_all add: inbox_queue_def)

lemma work_parts [simp]:
  "wd_queue (set_work P f st) = wd_queue st" "wd_think (set_work P f st) = wd_think st"
  "wd_board (set_work P f st) = wd_board st"
  "wd_queue (cancel_work e P why st) = wd_queue st" "wd_board (cancel_work e P why st) = wd_board st"
  "wd_queue (withdraw_work e st) = wd_queue st" "wd_board (withdraw_work e st) = wd_board st"
  "wd_queue (delay_work e i y st) = wd_queue st" "wd_think (delay_work e i y st) = wd_think st"
  "wd_board (delay_work e i y st) = wd_board st"
  "wd_rows (with_queue q st) = wd_rows st" "wd_think (with_queue q st) = wd_think st"
  "wd_board (with_queue q st) = wd_board st"
  by (simp_all add: set_work_def cancel_work_def withdraw_work_def delay_work_def with_queue_def Let_def)

lemma same_inbox_queue: "mw_tables a = mw_tables b \<Longrightarrow> mw_remote a = mw_remote b \<Longrightarrow> mw_pending a = mw_pending b \<Longrightarrow>
    mw_consumed a = mw_consumed b \<Longrightarrow> same_queue a b"
  by (simp add: same_queue_def same_world_def)

lemma inbox_same: "same_queue (wd_queue st) (inbox_queue st)" "same_queue (inbox_queue st) (wd_queue st)"
  by (simp_all add: same_inbox_queue)

lemma with_same: "same_queue q (wd_queue (with_queue q st))"
  by (simp add: same_inbox_queue with_queue_def)

section \<open>One request, one row\<close>

definition work_kinds :: "string list" where
  "work_kinds = [''task'', ''thinking'', ''artifact'', ''greeting'']"

definition row_sound :: "work_row \<Rightarrow> bool" where
  "row_sound w \<longleftrightarrow>
     tp_agent (wo_payload w) = wo_agent w \<and> tp_channel (wo_payload w) = wo_channel w \<and>
     coalesce (wo_node w) = tp_node (wo_payload w) \<and> wo_node w \<noteq> Some [] \<and> wo_kind w \<in> set work_kinds"

definition work_ok :: "work_db \<Rightarrow> bool" where
  "work_ok st \<longleftrightarrow>
     keyed wo_id (wd_rows st) \<and> keyed (\<lambda>w. (wo_agent w, wo_key w)) (wd_rows st) \<and> list_all row_sound (wd_rows st) \<and>
     list_all (\<lambda>i. ib_kind i \<notin> set work_kinds) (mw_other (wd_queue st))"

text \<open>What a row keeps for good, and the rows one state owes to another.\<close>

definition work_face :: "work_row \<Rightarrow> id \<times> id \<times> id \<times> string \<times> string \<times> id option \<times> work_request" where
  "work_face w = (wo_id w, wo_agent w, wo_channel w, wo_key w, wo_kind w, wo_node w, wo_payload w)"

definition evolves :: "work_db \<Rightarrow> work_db \<Rightarrow> bool" where
  "evolves st st' \<longleftrightarrow>
     (\<forall>w \<in> set (wd_rows st). \<exists>w' \<in> set (wd_rows st'). work_face w' = work_face w \<and> (wo_status w \<noteq> WorkPending \<longrightarrow> w' = w))"

lemma evolves_refl: "evolves st st"
  by (auto simp: evolves_def)

lemma evolves_same: "wd_rows st' = wd_rows st \<Longrightarrow> evolves st st'"
  by (auto simp: evolves_def)

lemma evolves_trans: "evolves a b \<Longrightarrow> evolves b c \<Longrightarrow> evolves a c"
  unfolding evolves_def by metis

lemma set_work_ok:
  assumes "\<And>w. work_face (f w) = work_face w"
  shows "work_ok (set_work P f st) = work_ok st"
proof -
  have f: "wo_id (f w) = wo_id w \<and> wo_agent (f w) = wo_agent w \<and> wo_key (f w) = wo_key w \<and> wo_channel (f w) = wo_channel w \<and>
      wo_kind (f w) = wo_kind w \<and>
      wo_node (f w) = wo_node w \<and> wo_payload (f w) = wo_payload w" for w
    using assms [of w] by (simp add: work_face_def)
  have "keyed wo_id (update_where P f t) = keyed wo_id t"
    "keyed (\<lambda>w. (wo_agent w, wo_key w)) (update_where P f t) = keyed (\<lambda>w. (wo_agent w, wo_key w)) t" for t
    by (rule keyed_update.keyed_update_iff, unfold_locales, simp add: f)+
  moreover have "row_sound (f w) = row_sound w" for w by (simp add: row_sound_def f)
  then have "list_all row_sound (update_where P f t) = list_all row_sound t" for t
    by (induction t) (simp_all add: update_where_def)
  ultimately show ?thesis by (simp add: work_ok_def set_work_def)
qed

lemma set_work_evolves:
  assumes "\<And>w. work_face (f w) = work_face w" and "\<And>w. w \<in> set (wd_rows st) \<Longrightarrow> P w \<Longrightarrow> wo_status w = WorkPending"
  shows "evolves st (set_work P f st)"
  unfolding evolves_def
proof
  fix w
  assume w: "w \<in> set (wd_rows st)"
  have "(if P w then f w else w) \<in> set (wd_rows (set_work P f st))" using w by (auto simp: set_work_def set_update_where)
  then show "\<exists>w' \<in> set (wd_rows (set_work P f st)). work_face w' = work_face w \<and> (wo_status w \<noteq> WorkPending \<longrightarrow> w' = w)"
    using assms w by (intro bexI [of _ "if P w then f w else w"]) auto
qed

lemma cancel_rows: "wd_rows (cancel_work e P why st) =
    wd_rows (set_work (\<lambda>w. wo_status w = WorkPending \<and> P w) (\<lambda>w. w\<lparr>wo_status := WorkCancelled, wo_error := why\<rparr>) st)"
  by (simp add: cancel_work_def Let_def)

lemma cancel_keeps: "evolves st (cancel_work e P why st)" "work_ok (cancel_work e P why st) = work_ok st"
proof -
  let ?s = "set_work (\<lambda>w. wo_status w = WorkPending \<and> P w) (\<lambda>w. w\<lparr>wo_status := WorkCancelled, wo_error := why\<rparr>) st"
  have "evolves st ?s" by (rule set_work_evolves) (simp_all add: work_face_def)
  then show "evolves st (cancel_work e P why st)" by (simp add: evolves_def cancel_rows)
  have "work_ok ?s = work_ok st" by (rule set_work_ok) (simp add: work_face_def)
  then show "work_ok (cancel_work e P why st) = work_ok st" by (simp add: work_ok_def cancel_rows)
qed

lemma only_row:
  assumes "work_ok st" "w \<in> set (wd_rows st)" "x \<in> set (wd_rows st)" "wo_id x = wo_id w"
  shows "x = w"
  using assms keyed_unique [of wo_id "wd_rows st" x w] by (simp add: work_ok_def)

lemma one_row_keeps:
  assumes "work_ok st" "w \<in> set (wd_rows st)" "wo_status w = WorkPending" "\<And>w. work_face (f w) = work_face w"
  shows "evolves st (set_work (\<lambda>x. wo_id x = wo_id w) f st)" "work_ok (set_work (\<lambda>x. wo_id x = wo_id w) f st)"
proof -
  show "evolves st (set_work (\<lambda>x. wo_id x = wo_id w) f st)"
    using only_row [OF assms(1,2)] assms(3) by (intro set_work_evolves [OF assms(4)]) blast
  show "work_ok (set_work (\<lambda>x. wo_id x = wo_id w) f st)" using set_work_ok [OF assms(4)] assms(1) by simp
qed

lemma insert_keeps:
  assumes "work_ok st" and "insert_work w st = Inr st'" and "row_sound w"
  shows "evolves st st' \<and> work_ok st' \<and> wd_queue st' = wd_queue st \<and> wd_think st' = wd_think st"
proof (cases "exists_row (\<lambda>x. wo_agent x = wo_agent w \<and> wo_key x = wo_key w) (wd_rows st)")
  case True
  then show ?thesis using assms evolves_refl by (simp add: insert_work_def)
next
  case False
  then have st': "st' = st\<lparr>wd_rows := wd_rows st @ [w]\<rparr>" and fresh: "\<not> exists_row (\<lambda>x. wo_id x = wo_id w) (wd_rows st)"
    using assms(2) by (auto simp: insert_work_def split: if_splits)
  from fresh have "wo_id w \<notin> wo_id ` set (wd_rows st)" by (auto simp: exists_row_iff)
  moreover from False have "(wo_agent w, wo_key w) \<notin> (\<lambda>w. (wo_agent w, wo_key w)) ` set (wd_rows st)"
    by (auto simp: exists_row_iff)
  ultimately have "work_ok st'" using assms st' by (simp add: work_ok_def keyed_insert)
  moreover have "evolves st st'" using st' by (auto simp: evolves_def)
  ultimately show ?thesis using st' by simp
qed

lemma queued_request [simp]:
  "tp_agent (stored_request q) = tp_agent q" "tp_channel (stored_request q) = tp_channel q" "tp_node (stored_request q) = tp_node q"
  "dr_return (stored_request q) = dr_return q"
  by (simp_all add: stored_request_def)

lemma enqueue_keeps:
  assumes "work_ok st" and "enqueue_agent_work e q st = Inr st'"
  shows "evolves st st' \<and> work_ok st' \<and> wd_queue st' = wd_queue st \<and> wd_think st' = wd_think st"
proof -
  from assms(2) obtain v k q' where "insert_work (queued_row e v k q') st = Inr st'"
    by (auto simp: enqueue_agent_work_def Let_def split: if_splits)
  then show ?thesis by (rule insert_keeps [OF assms(1)]) (simp add: queued_row_def row_sound_def work_kind_def work_kinds_def)
qed


section \<open>Taking a row\<close>

lemma attempt_grown:
  assumes "attempt_run e dmn ag q st = Inr (st', r)"
  shows "grown st st' r \<and> rn_agent r = tp_agent q"
proof -
  from assms obtain d where s: "start_run_tx (renv.truncate e) (r_tables (mw_remote st)) (work_run_input dmn ag q) = Inr (d, r)"
    and p: "persist_remote_message_run (wake_env.truncate e) dmn r (request_turn q)
      (st\<lparr>mw_remote := (mw_remote st)\<lparr>r_tables := link_origin_task q (rn_id r) d,
            run_deliveries := run_deliveries (mw_remote st) @ [undelivered (rn_id r)]\<rparr>\<rparr>) = Inr st'"
    by (auto simp: attempt_run_def split: sum.splits)
  have "views (link_origin_task q (rn_id r) d) = views d" by (simp add: link_origin_task_def)
  with views_start [OF s]
  have "grown st (st\<lparr>mw_remote := (mw_remote st)\<lparr>r_tables := link_origin_task q (rn_id r) d,
      run_deliveries := run_deliveries (mw_remote st) @ [undelivered (rn_id r)]\<rparr>\<rparr>) r"
    by (simp add: grown_def same_world_def mw_runs_def accepted_undelivered)
  then show ?thesis using persist_grown [OF p] views_start [OF s] by (simp add: work_run_input_def)
qed

lemma attempt_wake:
  assumes "attempt_run e dmn ag q st = Inr (st', r)"
  shows "wake_first (rn_wake r) = 0"
  using assms views_start
  by (auto simp: attempt_run_def work_run_input_def split: sum.splits dest!: views_start)

lemma and_then_ready: "and_then p f = PrepReady q \<Longrightarrow> \<exists>q0. p = PrepReady q0 \<and> f q0 = PrepReady q"
  by (cases p) auto

lemma prepare_agent:
  assumes "prepare_work e st w ag = PrepReady q"
  shows "tp_agent q = tp_agent (wo_payload w) \<and> tp_node q = tp_node (wo_payload w)"
proof -
  from assms obtain q0 where q0: "prepare_task e st (wo_kind w) (claimed_request w ag) = PrepReady q0" "prepare_node e st q0 = PrepReady q"
    unfolding prepare_work_def using and_then_ready by blast
  have "tp_agent q0 = tp_agent (wo_payload w) \<and> tp_node q0 = tp_node (wo_payload w)"
    using q0(1) by (auto simp: prepare_task_def claimed_request_def split: if_splits option.splits)
  moreover have "tp_agent q = tp_agent q0 \<and> tp_node q = tp_node q0"
    using q0(2) by (auto simp: prepare_node_def node_request_def Let_def split: if_splits option.splits)
  ultimately show ?thesis by simp
qed

text \<open>The three ways a row leaves its turn.\<close>

lemma start_cases:
  assumes "start_work e f w ag q st = (st', r)"
  obtains (delayed) b why where "st' = delay_work e (wo_id w) why (st\<lparr>wd_bindings := b\<rparr>)" "r = None"
  | (started) b dmn m x where "attempt_run e dmn ag q (wd_queue st) = Inr (m, x)" "r = Some x"
      "st' = set_work (\<lambda>y. wo_id y = wo_id w)
         (\<lambda>y. y\<lparr>wo_status := WorkDispatched, wo_run := Some (rn_id x), wo_error := []\<rparr>) (with_queue m (st\<lparr>wd_bindings := b\<rparr>))"
proof (cases "resolve_daemon_for_agent f (tp_agent q) ''llm'' (wd_bindings st)")
  case (Inl err)
  then show ?thesis using assms delayed [of "ResolveFailed err" "wd_bindings st"] by (simp add: start_work_def)
next
  case (Inr bd)
  then show ?thesis using assms delayed started
    by (cases bd) (auto simp: start_work_def Let_def split: sum.splits)
qed

lemma take_cases:
  assumes "take_work e f w st = (True, st', r)"
  obtains (delayed) b why where "st' = delay_work e (wo_id w) why (st\<lparr>wd_bindings := b\<rparr>)" "r = None"
  | (cancelled) why where "st' = cancel_work e (\<lambda>x. wo_id x = wo_id w) why st" "r = None"
  | (started) ag q b dmn m x where "attempt_run e dmn ag q (wd_queue st) = Inr (m, x)" "r = Some x"
      "prepare_work e st w ag = PrepReady q"
      "st' = set_work (\<lambda>y. wo_id y = wo_id w)
         (\<lambda>y. y\<lparr>wo_status := WorkDispatched, wo_run := Some (rn_id x), wo_error := []\<rparr>) (with_queue m (st\<lparr>wd_bindings := b\<rparr>))"
proof -
  show ?thesis
  proof (cases "claim_profile st w")
    case None
    then show ?thesis using assms delayed [of NoAgentRow "wd_bindings st"] by (auto simp: take_work_def split: if_splits)
  next
    case (Some ag)
    show ?thesis
    proof (cases "prepare_work e st w ag")
      case (PrepFailed why)
      then show ?thesis using assms delayed [of why "wd_bindings st"] Some by (auto simp: take_work_def split: if_splits)
    next
      case (PrepCancelled why)
      then show ?thesis using assms cancelled [of why] Some by (auto simp: take_work_def split: if_splits)
    next
      case (PrepReady q)
      then have "start_work e f w ag q st = (st', r)" using assms Some by (auto simp: take_work_def split: if_splits)
      then show ?thesis by (cases rule: start_cases) (use delayed started PrepReady in blast)+
    qed
  qed
qed

lemma take_turn:
  assumes "take_work e f w st = (True, st', r)"
  shows "agent_inbox_turn (clock e) (inbox_queue st) (tp_agent (wo_payload w)) (wo_kind w) (wo_id w)"
  using assms by (auto simp: take_work_def split: if_splits)

lemma bound_parts [simp]:
  "work_ok (st\<lparr>wd_bindings := b\<rparr>) = work_ok st" "evolves (st\<lparr>wd_bindings := b\<rparr>) st' = evolves st st'"
  by (simp_all add: work_ok_def evolves_def)

lemma with_keeps [simp]: "work_ok (with_queue m st) = work_ok st" "evolves (with_queue m st) st' = evolves st st'"
  by (simp_all add: work_ok_def evolves_def with_queue_def)

lemma delay_keeps:
  assumes "work_ok st" "w \<in> set (wd_rows st)" "wo_status w = WorkPending"
  shows "evolves st (delay_work e (wo_id w) why st)" "work_ok (delay_work e (wo_id w) why st)"
  unfolding delay_work_def by (rule one_row_keeps [OF assms]; simp add: work_face_def)+

lemma take_keeps:
  assumes ok: "work_ok st" and w: "w \<in> set (wd_rows st)" "wo_status w = WorkPending" and t: "take_work e f w st = (True, st', r)"
  shows "evolves st st' \<and> work_ok st'"
  using t
proof (cases rule: take_cases)
  case (delayed b why)
  have "evolves (st\<lparr>wd_bindings := b\<rparr>) st'" "work_ok st'"
    unfolding delayed(1) by (rule delay_keeps; simp add: ok w)+
  then show ?thesis by simp
next
  case (cancelled why)
  with cancel_keeps ok show ?thesis by simp
next
  case (started ag q b dmn m x)
  have "evolves (with_queue m (st\<lparr>wd_bindings := b\<rparr>)) st'" "work_ok st'"
    unfolding started(4) by (rule one_row_keeps; simp add: ok w work_face_def)+
  then show ?thesis by simp
qed

lemma withdraw_keeps: "evolves st (withdraw_work e st)" "work_ok (withdraw_work e st) = work_ok st"
  by (simp_all add: withdraw_work_def cancel_keeps)

lemma choose_in:
  assumes "choose_work t skip st = Some w"
  shows "w \<in> set (wd_rows st)" "wo_status w = WorkPending"
    "agent_inbox_turn t (inbox_queue st) (wo_agent w) (wo_kind w) (wo_id w)"
  using pick_by_in [OF assms [unfolded choose_work_def]] by (auto simp: pending_work_def)

lemma dispatch_cases:
  assumes "dispatch_pending_agent_work e f skip locked st = (found, st', r)"
  obtains (undone) "\<not> found" "st' = st" "r = None"
  | (nothing) "\<not> found" "st' = withdraw_work e st" "r = None" "choose_work (clock e) skip (withdraw_work e st) = None"
  | (took) w where "found" "choose_work (clock e) skip (withdraw_work e st) = Some w"
      "take_work e f w (withdraw_work e st) = (True, st', r)"
  using assms by (auto simp: dispatch_pending_agent_work_def Let_def split: option.splits if_splits prod.splits bool.splits)

lemma dispatch_keeps:
  assumes ok: "work_ok st" and d: "dispatch_pending_agent_work e f skip locked st = (found, st', r)"
  shows "evolves st st' \<and> work_ok st'"
  using d
proof (cases rule: dispatch_cases)
  case undone
  then show ?thesis using ok evolves_refl by simp
next
  case nothing
  then show ?thesis using ok withdraw_keeps by simp
next
  case (took w)
  have "evolves (withdraw_work e st) st' \<and> work_ok st'"
    using take_keeps [OF _ _ _ took(3)] withdraw_keeps(2) ok choose_in [OF took(2)] by simp
  then show ?thesis using withdraw_keeps(1) evolves_trans by blast
qed

lemma attention_keeps:
  assumes "set_agent_attention e agent actor ch policy st = Inr st'"
  shows "wd_rows st' = wd_rows st \<and> wd_think st' = wd_think st \<and> mw_remote (wd_queue st') = mw_remote (wd_queue st) \<and>
         mw_other (wd_queue st') = mw_other (wd_queue st) \<and>
         mw_pending (wd_queue st') = delete_where (muted (mw_tables (wd_queue st')) agent) (mw_pending (wd_queue st))"
  using assms by (auto simp: set_agent_attention_def Let_def split: option.splits if_splits)


lemma work_head:
  assumes ok: "work_ok st" and w: "w \<in> set (wd_rows st)" "wo_status w = WorkPending"
    and t: "agent_inbox_turn t (inbox_queue st) (wo_agent w) (wo_kind w) (wo_id w)"
  shows "wo_next w \<le> t \<and> \<not> busy (wd_queue st) (wo_agent w) \<and>
         (\<forall>j \<in> set (agent_inbox (inbox_queue st)). ib_agent j = wo_agent w \<and> ib_ready j \<le> t \<longrightarrow>
            inbox_rank (work_item w) \<le> inbox_rank j)"
proof -
  from t obtain i where i: "i \<in> set (agent_inbox (inbox_queue st))" "ib_agent i = wo_agent w" "ib_kind i = wo_kind w"
    "ib_work i = wo_id w" "ib_ready i \<le> t" "\<not> busy (inbox_queue st) (wo_agent w)"
    "\<forall>j \<in> set (agent_inbox (inbox_queue st)). ib_agent j = wo_agent w \<and> ib_ready j \<le> t \<longrightarrow> inbox_rank i \<le> inbox_rank j"
    by (rule turn_head)
  have "wo_kind w \<in> set work_kinds" using ok w by (auto simp: work_ok_def row_sound_def list_all_iff)
  then have "ib_kind i \<noteq> ''message'' \<and> i \<notin> set (mw_other (wd_queue st))"
    using ok i(3) by (auto simp: work_ok_def list_all_iff work_kinds_def)
  then obtain x where x: "x \<in> set (wd_rows st)" "i = work_item x"
    using i(1) by (auto simp: agent_inbox_def inbox_queue_def message_item_def pending_work_def)
  have "x = w" using only_row [OF ok w(1) x(1)] i(4) x(2) by (simp add: work_item_def)
  then show ?thesis using i x(2) by (simp add: work_item_def busy_def mw_runs_def)
qed

lemma sound_agent: "work_ok st \<Longrightarrow> w \<in> set (wd_rows st) \<Longrightarrow> tp_agent (wo_payload w) = wo_agent w"
  by (auto simp: work_ok_def row_sound_def list_all_iff)

section \<open>Progress\<close>

definition due :: "time \<Rightarrow> work_db \<Rightarrow> nat" where
  "due t st = count_rows (\<lambda>w. wo_status w = WorkPending \<and> wo_next w \<le> t) (wd_rows st)"

lemma filter_map_fewer:
  assumes "\<And>x. x \<in> set xs \<Longrightarrow> P (g x) \<Longrightarrow> P x"
  shows "length (filter P (map g xs)) \<le> length (filter P xs)"
    and "w \<in> set xs \<Longrightarrow> P w \<Longrightarrow> \<not> P (g w) \<Longrightarrow> length (filter P (map g xs)) < length (filter P xs)"
proof -
  have le: "length (filter P (map g ys)) \<le> length (filter P ys)" if "set ys \<subseteq> set xs" for ys
    using that assms by (induction ys) auto
  show "length (filter P (map g xs)) \<le> length (filter P xs)" by (rule le) simp
  have "length (filter P (map g ys)) < length (filter P ys)" if "set ys \<subseteq> set xs" "w \<in> set ys" "P w" "\<not> P (g w)" for ys
    using that
  proof (induction ys)
    case (Cons y ys)
    show ?case
    proof (cases "y = w")
      case True
      then show ?thesis using Cons.prems le [of ys] by simp
    next
      case False
      then show ?thesis using Cons assms [of y] by auto
    qed
  qed simp
  then show "w \<in> set xs \<Longrightarrow> P w \<Longrightarrow> \<not> P (g w) \<Longrightarrow> length (filter P (map g xs)) < length (filter P xs)" by blast
qed

lemma due_set_work:
  assumes "\<And>x. x \<in> set (wd_rows st) \<Longrightarrow> Q x \<Longrightarrow> wo_status (f x) = WorkPending \<and> wo_next (f x) \<le> t \<Longrightarrow>
      wo_status x = WorkPending \<and> wo_next x \<le> t"
  shows "due t (set_work Q f st) \<le> due t st"
    and "w \<in> set (wd_rows st) \<Longrightarrow> Q w \<Longrightarrow> wo_status w = WorkPending \<Longrightarrow> wo_next w \<le> t \<Longrightarrow>
      wo_status (f w) \<noteq> WorkPending \<or> t < wo_next (f w) \<Longrightarrow> due t (set_work Q f st) < due t st"
proof -
  define P where "P w \<longleftrightarrow> wo_status w = WorkPending \<and> wo_next w \<le> t" for w :: work_row
  define g where "g r = (if Q r then f r else r)" for r
  have P: "P x" if "x \<in> set (wd_rows st)" "P (g x)" for x
    using assms [of x] that by (cases "Q x") (simp_all add: P_def g_def)
  have due: "due t st = length (filter P (wd_rows st))" "due t (set_work Q f st) = length (filter P (map g (wd_rows st)))"
    by (simp_all add: due_def count_rows_def set_work_def update_where_def P_def [abs_def] g_def [abs_def])
  show "due t (set_work Q f st) \<le> due t st"
    using filter_map_fewer(1) [of "wd_rows st" P g, OF P] by (simp only: due)
  assume w: "w \<in> set (wd_rows st)" "Q w" "wo_status w = WorkPending" "wo_next w \<le> t"
    "wo_status (f w) \<noteq> WorkPending \<or> t < wo_next (f w)"
  then have "P w" "\<not> P (g w)" by (auto simp: P_def g_def)
  then show "due t (set_work Q f st) < due t st"
    unfolding due using filter_map_fewer(2) [of "wd_rows st" P g w] P w(1) by blast
qed

lemma due_rows: "wd_rows a = wd_rows b \<Longrightarrow> due t a = due t b"
  by (simp add: due_def)

lemma due_withdraw: "due t (withdraw_work e st) \<le> due t st"
proof -
  have "due t (cancel_work e P why st) \<le> due t st" for P why
    unfolding due_rows [OF cancel_rows] by (rule due_set_work(1)) simp
  then show ?thesis by (simp add: withdraw_work_def)
qed

lemma take_is_progress:
  assumes ok: "work_ok st" and w: "w \<in> set (wd_rows st)" "wo_status w = WorkPending"
    and t: "take_work e f w st = (True, st', r)" and h: "clock e \<le> h" "h < clock e + 30 * 10 ^ 9"
  shows "due h st' < due h st"
proof -
  have "agent_inbox_turn (clock e) (inbox_queue st) (wo_agent w) (wo_kind w) (wo_id w)"
    using take_turn [OF t] sound_agent [OF ok w(1)] by simp
  from work_head [OF ok w this] h(1) have next_h: "wo_next w \<le> h" by linarith
  note only = only_row [OF ok w(1)]
  from t show ?thesis
  proof (cases rule: take_cases)
    case (delayed b why)
    have "due h (delay_work e (wo_id w) why (st\<lparr>wd_bindings := b\<rparr>)) < due h (st\<lparr>wd_bindings := b\<rparr>)"
      unfolding delay_work_def using w next_h h only by (intro due_set_work(2) [of _ _ _ _ w]) auto
    then show ?thesis by (simp add: delayed due_def)
  next
    case (cancelled why)
    show ?thesis
      unfolding cancelled due_rows [OF cancel_rows] using w next_h by (intro due_set_work(2) [of _ _ _ _ w]) auto
  next
    case (started ag q b dmn m x)
    have "due h st' < due h (with_queue m (st\<lparr>wd_bindings := b\<rparr>))"
      unfolding started(4) using w next_h only by (intro due_set_work(2) [of _ _ _ _ w]) auto
    then show ?thesis by (simp add: due_def)
  qed
qed

lemma dispatch_is_progress:
  assumes ok: "work_ok st" and d: "dispatch_pending_agent_work e f skip locked st = (True, st', r)"
    and h: "clock e \<le> h" "h < clock e + 30 * 10 ^ 9"
  shows "due h st' < due h st"
  using d
proof (cases rule: dispatch_cases)
  case (took w)
  have "due h st' < due h (withdraw_work e st)"
    using take_is_progress [OF _ _ _ took(3) h] ok withdraw_keeps(2) choose_in [OF took(2)] by simp
  then show ?thesis using due_withdraw [of h e st] by simp
qed simp_all

lemma chosen_is_taken:
  assumes "work_ok st" and "choose_work (clock e) skip st = Some w"
  shows "\<exists>st' r. take_work e f w st = (True, st', r)"
  using choose_in [OF assms(2)] sound_agent [OF assms(1)]
  by (auto simp: take_work_def split: option.splits prepared.splits)

text \<open>An attempt that commits nothing: the lock of the agent is held elsewhere, or no row it might take is at the head.\<close>

lemma nothing_found:
  assumes "work_ok st" and "dispatch_pending_agent_work e f skip locked st = (False, st', r)"
  shows "\<not> locked \<or> choose_work (clock e) skip st' = None"
proof (cases "choose_work (clock e) skip (withdraw_work e st)")
  case None
  then show ?thesis using assms(2) by (simp add: dispatch_pending_agent_work_def)
next
  case (Some w)
  with chosen_is_taken [of "withdraw_work e st" e skip w f] assms(1) withdraw_keeps(2)
  obtain s x where "take_work e f w (withdraw_work e st) = (True, s, x)" by auto
  with Some assms(2) show ?thesis by (auto simp: dispatch_pending_agent_work_def split: if_splits)
qed

lemma rounds_progress:
  assumes "work_ok st" and "dispatch_from f tries i n st = (st', m)"
    and "\<And>j. j < i + n \<Longrightarrow> clock (dt_env (tries j)) \<le> h \<and> h < clock (dt_env (tries j)) + 30 * 10 ^ 9"
  shows "i \<le> m \<and> m \<le> i + n \<and> due h st' + (m - i) \<le> due h st \<and>
    (m < i + n \<longrightarrow> \<not> dt_locked (tries m) \<or> choose_work (clock (dt_env (tries m))) (dt_skip (tries m)) st' = None)"
  using assms
proof (induction n arbitrary: i st)
  case (Suc n)
  let ?t = "tries i"
  obtain found st1 r where d: "dispatch_pending_agent_work (dt_env ?t) f (dt_skip ?t) (dt_locked ?t) st = (found, st1, r)"
    by (cases "dispatch_pending_agent_work (dt_env ?t) f (dt_skip ?t) (dt_locked ?t) st") auto
  show ?case
  proof (cases found)
    case True
    have "due h st1 < due h st" using dispatch_is_progress [OF Suc.prems(1)] d True Suc.prems(3) [of i] by auto
    moreover have "dispatch_from f tries (Suc i) n st1 = (st', m)" using Suc.prems(2) d True by simp
    moreover have "work_ok st1" using dispatch_keeps [OF Suc.prems(1) d] by blast
    ultimately show ?thesis using Suc.IH [of st1 "Suc i"] Suc.prems(3) by auto
  next
    case False
    then have st': "st' = st1" "m = i" using Suc.prems(2) d by auto
    from d False have "due h st1 \<le> due h st" by (cases rule: dispatch_cases) (auto simp: due_withdraw)
    moreover have "\<not> dt_locked ?t \<or> choose_work (clock (dt_env ?t)) (dt_skip ?t) st1 = None"
      using nothing_found [OF Suc.prems(1)] d False by simp
    ultimately show ?thesis by (simp add: st')
  qed
qed simp


section \<open>Any order of operations\<close>

text \<open>
  What moves the inbox of an agent: the transactions of the message wakes, and those of the rows of work. A
  row another dispatcher chose earlier may be taken in any later state, as its own row is locked and nothing
  else is.
\<close>

datatype inbox_op =
    OnWakes wake_op
  | EnqueueWork work_request
  | TakeRow fleet work_row
  | DispatchWork fleet "id list" bool
  | SetAttention id id id string

fun inbox_step ::
  "(pending_wake \<Rightarrow> wake_message list \<Rightarrow> task_payload) \<Rightarrow> work_db \<Rightarrow> work_env \<times> inbox_op \<Rightarrow> work_db" where
  "inbox_step pl st (e, OnWakes o1) = with_queue (wake_step pl (inbox_queue st) (wake_env.truncate e, o1)) st"
| "inbox_step pl st (e, EnqueueWork q) = (case enqueue_agent_work e q st of Inl _ \<Rightarrow> st | Inr st' \<Rightarrow> st')"
| "inbox_step pl st (e, TakeRow f w) =
     (if w \<in> set (wd_rows st) \<and> wo_status w = WorkPending
      then case take_work e f w st of (found, st', _) \<Rightarrow> if found then st' else st else st)"
| "inbox_step pl st (e, DispatchWork f skip locked) = fst (snd (dispatch_pending_agent_work e f skip locked st))"
| "inbox_step pl st (e, SetAttention agent actor ch policy) =
     (case set_agent_attention e agent actor ch policy st of Inl _ \<Rightarrow> st | Inr st' \<Rightarrow> st')"

lemma inbox_step_rows:
  assumes ok: "work_ok st"
  shows "evolves st (inbox_step pl st o1) \<and> work_ok (inbox_step pl st o1)"
proof (cases "(pl, st, o1)" rule: inbox_step.cases)
  case (1 pl st e o1)
  then show ?thesis using ok evolves_same by simp
next
  case (2 pl st e q)
  then show ?thesis using ok evolves_refl enqueue_keeps [of st e q] by (auto split: sum.splits)
next
  case (3 pl st e f w)
  then show ?thesis using ok evolves_refl take_keeps [of st w e f] by (auto split: prod.splits bool.splits)
next
  case (4 pl st e f skip locked)
  then show ?thesis using ok dispatch_keeps [of st e f skip locked]
    by (cases "dispatch_pending_agent_work e f skip locked st") auto
next
  case (5 pl st e agent actor ch policy)
  have "work_ok st'" if "set_agent_attention e agent actor ch policy st = Inr st'" for st'
    using attention_keeps [OF that] ok 5 by (simp add: work_ok_def)
  with 5 show ?thesis using ok evolves_same attention_keeps [of e agent actor ch policy st]
    by (auto split: sum.splits simp: evolves_refl)
qed

interpretation rows: op_machine "inbox_step pl" "\<lambda>st. work_ok st \<and> evolves st0 st" for pl st0
proof unfold_locales
  fix st o1
  assume "work_ok st \<and> evolves st0 st"
  then show "work_ok (inbox_step pl st o1) \<and> evolves st0 (inbox_step pl st o1)"
    using inbox_step_rows [of st pl o1] evolves_trans by blast
qed

text \<open>
  C14. A piece of work is done at most once: a row that was dispatched or cancelled stays exactly as it is, with the
  run it was given, whatever is queued, taken, dispatched or muted afterwards and whatever happens to messages and runs; and no other
  row is ever made for the same request of the same agent.
\<close>

theorem work_runs_at_most_once:
  assumes "work_ok st" and "w \<in> set (wd_rows st)" and "wo_status w \<noteq> WorkPending"
  shows "w \<in> set (wd_rows (foldl (inbox_step pl) st ops)) \<and>
         (\<forall>x \<in> set (wd_rows (foldl (inbox_step pl) st ops)). wo_agent x = wo_agent w \<and> wo_key x = wo_key w \<longrightarrow> x = w)"
proof -
  let ?st = "foldl (inbox_step pl) st ops"
  have inv: "work_ok ?st \<and> evolves st ?st" using rows.run_inv [of st st pl ops] assms(1) evolves_refl by blast
  then have w: "w \<in> set (wd_rows ?st)" using assms(2,3) unfolding evolves_def by metis
  moreover have "keyed (\<lambda>w. (wo_agent w, wo_key w)) (wd_rows ?st)" using inv by (simp add: work_ok_def)
  ultimately show ?thesis using keyed_unique [of "\<lambda>w. (wo_agent w, wo_key w)"] by blast
qed

section \<open>One run at a time\<close>

definition alone :: "id \<Rightarrow> work_db \<Rightarrow> bool" where
  "alone agent st \<longleftrightarrow> work_ok st \<and> queue_ok (wd_queue st) \<and> unfinished_runs (wd_queue st) agent \<le> 1"

lemma alone_same:
  assumes "alone agent st" and "work_ok st'" and "wd_queue st' = wd_queue st"
  shows "alone agent st'"
  using assms by (simp add: alone_def)

lemma busy_count: "\<not> busy q agent \<longleftrightarrow> unfinished_runs q agent = 0"
  by (auto simp: busy_def exists_row_iff unfinished_runs_def count_rows_def filter_empty_conv)

lemma alone_started:
  assumes a: "alone agent st" and idle: "\<not> busy (wd_queue st) (tp_agent q)"
    and t: "attempt_run e dmn ag q (wd_queue st) = Inr (m, x)"
  shows "queue_ok m \<and> unfinished_runs m agent \<le> 1"
proof -
  have g: "grown (wd_queue st) m x" "rn_agent x = tp_agent q" using attempt_grown [OF t] by auto
  have "queue_ok m" using grown_ok [OF g(1)] a attempt_wake [OF t] by (simp add: alone_def)
  moreover have "unfinished_runs m agent \<le> 1"
    using unfinished_grown [OF g(1), of agent] g(2) idle a
    by (cases "tp_agent q = agent") (simp_all add: busy_count alone_def)
  ultimately show ?thesis by simp
qed

lemma alone_taken:
  assumes a: "alone agent st" and w: "w \<in> set (wd_rows st)" "wo_status w = WorkPending" and t: "take_work e f w st = (True, st', r)"
  shows "alone agent st'"
proof -
  have ok: "work_ok st'" using take_keeps [OF _ w t] a by (simp add: alone_def)
  from t show ?thesis
  proof (cases rule: take_cases)
    case (delayed b why)
    then show ?thesis by (intro alone_same [OF a ok]) simp
  next
    case (cancelled why)
    then show ?thesis by (intro alone_same [OF a ok]) simp
  next
    case (started ag q b dmn m x)
    obtain i where "\<not> busy (inbox_queue st) (tp_agent (wo_payload w))" using take_turn [OF t] by (rule turn_head)
    then have "\<not> busy (wd_queue st) (tp_agent q)"
      using prepare_agent [OF started(3)] by (simp add: busy_def mw_runs_def)
    then have "queue_ok m \<and> unfinished_runs m agent \<le> 1" using alone_started [OF a _ started(1)] by blast
    then show ?thesis
      using ok same_queue_facts(1) [OF with_same] unfinished_same [OF same_queue_remote [OF with_same]]
      by (simp add: alone_def started(4))
  qed
qed

lemma alone_dispatched:
  assumes a: "alone agent st" and d: "dispatch_pending_agent_work e f skip locked st = (found, st', r)"
  shows "alone agent st'"
proof -
  have wd: "alone agent (withdraw_work e st)" using a withdraw_keeps(2) by (simp add: alone_def)
  from d show ?thesis
  proof (cases rule: dispatch_cases)
    case (took w)
    show ?thesis using alone_taken [OF wd choose_in(1,2) [OF took(2)] took(3)] .
  qed (use a wd in simp_all)
qed

lemma alone_muted:
  assumes a: "alone agent st" and s: "set_agent_attention e agent1 actor ch policy st = Inr st'"
  shows "alone agent st'"
proof -
  note k = attention_keeps [OF s]
  have "unfinished_runs (wd_queue st') agent \<le> 1" using a k unfinished_same [of "wd_queue st'"] by (simp add: alone_def)
  moreover have "queue_ok (wd_queue st')" using a k
    by (auto simp: alone_def queue_ok_def mw_runs_def keyed_delete set_delete_where)
  ultimately show ?thesis using a k by (simp add: alone_def work_ok_def)
qed

interpretation inbox: op_machine "inbox_step pl" "alone agent" for pl agent
proof unfold_locales
  fix st o1
  assume a: "alone agent st"
  then have ok: "work_ok (inbox_step pl st o1)" using inbox_step_rows by (simp add: alone_def)
  show "alone agent (inbox_step pl st o1)"
  proof (cases "(pl, st, o1)" rule: inbox_step.cases)
    case (1 pl1 st1 e o2)
    have q: "queue_ok (inbox_queue st)" "unfinished_runs (inbox_queue st) agent \<le> 1"
      using a same_queue_facts(1) [OF inbox_same(1)] unfinished_same [of "inbox_queue st" "wd_queue st"] by (simp_all add: alone_def)
    have "queue_ok (wake_step pl (inbox_queue st) (wake_env.truncate e, o2)) \<and>
        unfinished_runs (wake_step pl (inbox_queue st) (wake_env.truncate e, o2)) agent \<le> 1"
      using step_kept [OF q(1), of agent _ pl "(wake_env.truncate e, o2)"] q(2) by (auto simp: carries_def)
    then show ?thesis
      using 1 ok same_queue_facts(1) [OF with_same] unfinished_same [OF same_queue_remote [OF with_same]]
      by (simp add: alone_def)
  next
    case (2 pl1 st1 e q)
    have "wd_queue (inbox_step pl st o1) = wd_queue st"
    proof (cases "enqueue_agent_work e q st")
      case (Inr st')
      have "work_ok st" using a by (simp add: alone_def)
      from enqueue_keeps [OF this Inr] show ?thesis using 2 Inr by simp
    qed (use 2 in simp)
    then show ?thesis by (rule alone_same [OF a ok])
  next
    case (3 pl1 st1 e f w)
    then show ?thesis using a alone_taken [OF a, of w e f] by (auto split: prod.splits bool.splits)
  next
    case (4 pl1 st1 e f skip locked)
    then show ?thesis using alone_dispatched [OF a, of e f skip locked]
      by (cases "dispatch_pending_agent_work e f skip locked st") auto
  next
    case (5 pl1 st1 e agent1 actor ch policy)
    then show ?thesis using a alone_muted [OF a, of e agent1 actor ch policy] by (auto split: sum.splits)
  qed
qed

text \<open>Messages and rows of work, with the rows of the other sources as they are; for all sources see \<open>Dispatch_Theorems\<close>.\<close>

lemma rows_start_one_run_at_a_time:
  assumes "work_ok st" and "queue_ok (wd_queue st)" and "unfinished_runs (wd_queue st) agent \<le> 1"
  shows "unfinished_runs (wd_queue (foldl (inbox_step pl) st ops)) agent \<le> 1"
  using inbox.run_inv [of agent st pl ops] assms by (simp add: alone_def)

section \<open>Turns\<close>

text \<open>
  C12. Work is taken in turn: a run is only ever started for a row that was pending, of an agent that has no
  unfinished run, and that no item of the agent's inbox precedes that is ready: none has a higher priority, none
  of the same priority is older. The row keeps the run it was given, which belongs to its agent.
\<close>

theorem work_is_taken_in_turn:
  assumes ok: "work_ok st" and d: "dispatch_pending_agent_work e f skip locked st = (found, st', Some r)"
  shows "\<exists>w \<in> set (wd_rows st). \<exists>w' \<in> set (wd_rows st').
    wo_status w = WorkPending \<and> wo_id w' = wo_id w \<and> wo_status w' = WorkDispatched \<and> wo_run w' = Some (rn_id r) \<and>
    rn_agent r = wo_agent w \<and> unfinished_runs (wd_queue st) (wo_agent w) = 0 \<and>
    (\<forall>j \<in> set (agent_inbox (inbox_queue (withdraw_work e st))).
       ib_agent j = wo_agent w \<and> ib_ready j \<le> clock e \<longrightarrow> inbox_rank (work_item w) \<le> inbox_rank j)"
  using d
proof (cases rule: dispatch_cases)
  case (took w)
  let ?st = "withdraw_work e st"
  note w = choose_in [OF took(2)]
  have ok1: "work_ok ?st" using ok withdraw_keeps(2) by simp
  note head = work_head [OF ok1 w]
  have w0: "w \<in> set (wd_rows st)"
    using w(1,2) by (auto simp: withdraw_work_def cancel_rows set_work_def set_update_where split: if_splits)
  from took(3) show ?thesis
  proof (cases rule: take_cases)
    case (started ag q b dmn m x)
    have "w\<lparr>wo_status := WorkDispatched, wo_run := Some (rn_id x), wo_error := []\<rparr> \<in> set (wd_rows st')"
      using w(1) by (auto simp: started(4) set_work_def set_update_where)
    moreover have "rn_agent r = wo_agent w"
      using started(2) attempt_grown [OF started(1)] prepare_agent [OF started(3)] sound_agent [OF ok1 w(1)] by simp
    moreover have "unfinished_runs (wd_queue st) (wo_agent w) = 0" using head by (simp add: busy_count)
    ultimately show ?thesis using w0 w(2) head started(2) by (intro bexI [of _ w] bexI) auto
  qed simp_all
qed simp_all

text \<open>
  C15. No work is left lying while its turn has come. A round of the dispatcher whose attempts fall into less than half a
  minute, for which a failed attempt is put off, gives as many due rows as it made attempts their run, cancels them or puts them
  off. It stops only after its twenty attempts, at an agent whose lock another dispatcher holds, or when no pending row
  but those others have locked is at the head of the inbox of an idle agent; and so it leaves none behind when fewer
  than twenty rows are due and no lock is held.
\<close>

theorem rounds_serve_every_turn:
  assumes "work_ok st" and "dispatch_rounds f tries st = (st', n)"
    and "\<And>j. j < 20 \<Longrightarrow> clock (dt_env (tries j)) \<le> h \<and> h < clock (dt_env (tries j)) + 30 * 10 ^ 9"
  shows "due h st' + n \<le> due h st \<and> n \<le> 20 \<and>
    (n < 20 \<longrightarrow> \<not> dt_locked (tries n) \<or> choose_work (clock (dt_env (tries n))) (dt_skip (tries n)) st' = None) \<and>
    (due h st < 20 \<longrightarrow> (\<forall>j. dt_locked (tries j)) \<longrightarrow> choose_work (clock (dt_env (tries n))) (dt_skip (tries n)) st' = None)"
  using rounds_progress [OF assms(1) assms(2) [unfolded dispatch_rounds_def], of h] assms(3) by auto

end
