(* ===== verification/Inbox_Theorems.thy ===== *)
theory Inbox_Theorems
  imports Agent_Work_Theorems Thinking_Texts
begin

text \<open>
  The rows of work that ask for the return of a branch, and the branches themselves: a request that is cancelled
  opens its branch again; a request whose run was started and lost leaves it closed. Then the attention of an agent,
  its work marks, and the properties of the inbox on small states.
\<close>

section \<open>Cancelled returns\<close>

definition reopened :: "id \<Rightarrow> id \<Rightarrow> think_db \<Rightarrow> bool" where
  "reopened nid agent d \<longleftrightarrow>
     (\<forall>n \<in> set (th_nodes d). bn_id n = nid \<and> bn_agent n = Some agent \<and> bn_returned n = None \<longrightarrow> bn_returning n = None)"

definition asks_return :: "id \<Rightarrow> work_row \<Rightarrow> bool" where
  "asks_return nid w \<longleftrightarrow> dr_return (wo_payload w) \<and> coalesce (wo_node w) = nid"

definition release_node :: "time \<Rightarrow> id \<Rightarrow> id \<Rightarrow> thinking_node \<Rightarrow> thinking_node" where
  "release_node t nid agent n =
     (if bn_id n = nid \<and> bn_agent n = Some agent \<and> bn_returned n = None
      then n\<lparr>bn_returning := None, bn_updated := t\<rparr> else n)"

lemma release_nodes:
  "th_nodes (release_cancelled_inbox_return e nid agent d) = map (release_node (th_now e) nid agent) (th_nodes d)"
  by (simp add: release_cancelled_inbox_return_def set_node_def update_where_def release_node_def [abs_def])

lemma release_fields [simp]:
  "bn_id (release_node t nid agent n) = bn_id n" "bn_agent (release_node t nid agent n) = bn_agent n"
  "bn_returned (release_node t nid agent n) = bn_returned n"
  by (simp_all add: release_node_def)

lemma release_reopens: "reopened nid agent (release_cancelled_inbox_return e nid agent d)"
  unfolding reopened_def release_nodes set_map ball_simps(9) release_fields by (auto simp: release_node_def)

lemma release_keeps_open: "reopened nid agent d \<Longrightarrow> reopened nid agent (release_cancelled_inbox_return e nid' agent' d)"
  unfolding reopened_def release_nodes set_map ball_simps(9) release_fields by (simp add: release_node_def)

lemma release_keeps_node:
  assumes "n \<in> set (th_nodes d)" and "bn_id n \<noteq> nid"
  shows "n \<in> set (th_nodes (release_cancelled_inbox_return e nid agent d))"
proof -
  have "release_node (th_now e) nid agent n = n" using assms(2) by (simp add: release_node_def)
  then show ?thesis unfolding release_nodes set_map using assms(1) by (metis imageI)
qed

lemma release_ids: "map bn_id (th_nodes (release_cancelled_inbox_return e nid agent d)) = map bn_id (th_nodes d)"
  by (simp add: release_nodes comp_def)

lemma fold_keeps:
  assumes "\<And>d w. w \<in> set ws \<Longrightarrow> I d \<Longrightarrow> I (release_return e w d)" and "I d"
  shows "I (foldl (\<lambda>d w. release_return e w d) d ws)"
  using assms by (induction ws arbitrary: d) auto

lemma fold_reopens:
  assumes "w \<in> set ws" and "asks_return nid w"
  shows "reopened nid (wo_agent w) (foldl (\<lambda>d w. release_return e w d) d ws)"
proof -
  from assms(1) obtain as bs where ws: "ws = as @ w # bs" by (auto dest: split_list)
  let ?I = "reopened nid (wo_agent w)"
  have "?I (release_return e w d1)" for d1 using assms(2) release_reopens by (auto simp: release_return_def asks_return_def)
  moreover have "?I (release_return e x d1)" if "?I d1" for x d1 using that by (simp add: release_return_def release_keeps_open)
  ultimately have "?I (foldl (\<lambda>d w. release_return e w d) (release_return e w d1) bs)" for d1
    by (intro fold_keeps [of bs ?I e]) blast+
  then show ?thesis unfolding ws foldl_append foldl_Cons .
qed

lemma cancel_reopens:
  assumes "w \<in> set (wd_rows st)" "wo_status w = WorkPending" "P w" "asks_return nid w"
  shows "reopened nid (wo_agent w) (wd_think (cancel_work e P why st))"
  using assms fold_reopens [of w _ nid] by (simp add: cancel_work_def Let_def)

lemma cancel_keeps_open:
  "reopened nid agent (wd_think st) \<Longrightarrow> reopened nid agent (wd_think (cancel_work e P why st))"
proof -
  assume "reopened nid agent (wd_think st)"
  then have "reopened nid agent (foldl (\<lambda>d w. release_return e w d) (wd_think st) ws)" for ws
    using fold_keeps [of ws "reopened nid agent" e] by (simp add: release_return_def release_keeps_open)
  then show ?thesis by (simp add: cancel_work_def Let_def)
qed

text \<open>Where a row that is cancelled was cancelled.\<close>

definition cancelled_in :: "work_db \<Rightarrow> id \<Rightarrow> bool" where
  "cancelled_in st i \<longleftrightarrow> (\<exists>x \<in> set (wd_rows st). wo_id x = i \<and> wo_status x = WorkCancelled)"

lemma cancelled_rows: "wd_rows a = wd_rows b \<Longrightarrow> cancelled_in a i = cancelled_in b i"
  by (simp add: cancelled_in_def)

lemma cancelled_set_work:
  "(\<And>x. wo_status (f x) = WorkCancelled \<Longrightarrow> wo_status x = WorkCancelled) \<Longrightarrow> (\<And>x. wo_id (f x) = wo_id x) \<Longrightarrow>
   cancelled_in (set_work P f st) i \<Longrightarrow> cancelled_in st i"
  by (fastforce simp: cancelled_in_def set_work_def set_update_where split: if_splits)

lemma pending_not_cancelled:
  "work_ok st \<Longrightarrow> w \<in> set (wd_rows st) \<Longrightarrow> wo_status w = WorkPending \<Longrightarrow> \<not> cancelled_in st (wo_id w)"
  unfolding cancelled_in_def using only_row [of st w] by (metis work_status.distinct(3))

lemma cancel_work_row:
  assumes "work_ok st" "w \<in> set (wd_rows st)" "wo_status w = WorkPending" "cancelled_in (cancel_work e P why st) (wo_id w)"
  shows "P w"
proof (rule ccontr)
  assume no: "\<not> P w"
  from assms(4) obtain x where x: "x \<in> set (wd_rows st)" "wo_id x = wo_id w" "wo_status x = WorkCancelled \<or> P x"
    by (auto simp: cancelled_in_def cancel_rows set_work_def set_update_where split: if_splits)
  then have "x = w" using only_row [OF assms(1,2)] by blast
  with no x(3) assms(3) show False by simp
qed

lemma take_reopens:
  assumes ok: "work_ok st" and v: "v \<in> set (wd_rows st)" "wo_status v = WorkPending" and t: "take_work e f v st = (True, st', r)"
    and w: "w \<in> set (wd_rows st)" "wo_status w = WorkPending" "asks_return nid w" and c: "cancelled_in st' (wo_id w)"
  shows "reopened nid (wo_agent w) (wd_think st')"
  using t
proof (cases rule: take_cases)
  case (delayed b why)
  have "cancelled_in (st\<lparr>wd_bindings := b\<rparr>) (wo_id w)"
    using c unfolding delayed(1) delay_work_def by (rule cancelled_set_work [rotated 2]) simp_all
  then show ?thesis using pending_not_cancelled [OF ok w(1,2)] by (simp add: cancelled_in_def)
next
  case (cancelled why)
  have "wo_id w = wo_id v" using cancel_work_row [OF ok w(1,2)] c unfolding cancelled(1) by blast
  then show ?thesis unfolding cancelled(1) by (intro cancel_reopens [OF w(1,2) _ w(3)])
next
  case (started ag q b dmn m x)
  have "cancelled_in (with_queue m (st\<lparr>wd_bindings := b\<rparr>)) (wo_id w)"
    using c unfolding started(4) by (rule cancelled_set_work [rotated 2]) simp_all
  then show ?thesis using pending_not_cancelled [OF ok w(1,2)] by (simp add: cancelled_in_def)
qed

lemma withdraw_row:
  assumes "work_ok st" "w \<in> set (wd_rows st)" "wo_status w = WorkPending"
  shows "w \<in> set (wd_rows (withdraw_work e st)) \<or> cancelled_in (withdraw_work e st) (wo_id w)"
proof -
  define g where "g x = (if wo_status x = WorkPending \<and> \<not> may_queue st (wo_agent x) (wo_channel x)
      then x\<lparr>wo_status := WorkCancelled, wo_error := ''Agent or channel access was withdrawn''\<rparr> else x)" for x :: work_row
  have "wd_rows (withdraw_work e st) = map g (wd_rows st)"
    by (simp add: withdraw_work_def cancel_rows set_work_def update_where_def g_def [abs_def])
  then have "g w \<in> set (wd_rows (withdraw_work e st))" using assms(2) by simp
  moreover have "g w = w \<or> wo_id (g w) = wo_id w \<and> wo_status (g w) = WorkCancelled" by (simp add: g_def)
  ultimately show ?thesis unfolding cancelled_in_def by metis
qed

lemma take_keeps_open:
  assumes "take_work e f v st = (True, st', r)" and "reopened nid agent (wd_think st)"
  shows "reopened nid agent (wd_think st')"
  using assms(1)
proof (cases rule: take_cases)
  case (delayed b why)
  then show ?thesis using assms(2) by simp
next
  case (cancelled why)
  show ?thesis unfolding cancelled(1) by (rule cancel_keeps_open [OF assms(2)])
next
  case (started ag q b dmn m x)
  then show ?thesis using assms(2) by simp
qed

lemma dispatch_reopens:
  assumes ok: "work_ok st" and d: "dispatch_pending_agent_work e f skip locked st = (found, st', r)"
    and w: "w \<in> set (wd_rows st)" "wo_status w = WorkPending" "asks_return nid w" and c: "cancelled_in st' (wo_id w)"
  shows "reopened nid (wo_agent w) (wd_think st')"
proof -
  let ?st = "withdraw_work e st"
  have ok1: "work_ok ?st" using ok withdraw_keeps(2) by simp
  have gone: "reopened nid (wo_agent w) (wd_think ?st)" if "cancelled_in ?st (wo_id w)"
    unfolding withdraw_work_def
    by (rule cancel_reopens [OF w(1,2) _ w(3)]) (rule cancel_work_row [OF ok w(1,2) that [unfolded withdraw_work_def]])
  from d show ?thesis
  proof (cases rule: dispatch_cases)
    case undone
    then show ?thesis using c pending_not_cancelled [OF ok w(1,2)] by simp
  next
    case nothing
    then show ?thesis using gone c by simp
  next
    case (took v)
    note v = choose_in(1,2) [OF took(2)]
    show ?thesis
    proof (cases "cancelled_in ?st (wo_id w)")
      case True
      then show ?thesis using take_keeps_open [OF took(3)] gone by blast
    next
      case False
      then show ?thesis using withdraw_row [OF ok w(1,2)] take_reopens [OF ok1 v took(3) _ w(2,3) c] by blast
    qed
  qed
qed

lemma step_reopens:
  assumes ok: "work_ok st" and w: "w \<in> set (wd_rows st)" "wo_status w = WorkPending" "asks_return nid w"
    and c: "cancelled_in (inbox_step pl st o1) (wo_id w)"
  shows "reopened nid (wo_agent w) (wd_think (inbox_step pl st o1))"
proof -
  note pending = pending_not_cancelled [OF ok w(1,2)]
  show ?thesis
  proof (cases "(pl, st, o1)" rule: inbox_step.cases)
    case (1 pl1 st1 e o2)
    then show ?thesis using c pending by (simp add: cancelled_in_def)
  next
    case (2 pl1 st1 e q)
    have "\<not> cancelled_in st' (wo_id w)" if "enqueue_agent_work e q st = Inr st'" for st'
    proof -
      have "evolves st st'" "work_ok st'" using enqueue_keeps [OF ok that] by simp_all
      moreover from that obtain v k q' where "insert_work (queued_row e v k q') st = Inr st'"
        by (auto simp: enqueue_agent_work_def Let_def split: if_splits)
      then have "w \<in> set (wd_rows st')" using w(1) by (auto simp: insert_work_def split: if_splits)
      ultimately show ?thesis using pending_not_cancelled w(2) by blast
    qed
    then show ?thesis using 2 c pending by (auto split: sum.splits)
  next
    case (3 pl1 st1 e f v)
    then show ?thesis using c pending take_reopens [OF ok _ _ _ w, of v e f] by (auto split: if_splits prod.splits)
  next
    case (4 pl1 st1 e f skip locked)
    then show ?thesis using c dispatch_reopens [OF ok _ w, of e f skip locked]
      by (cases "dispatch_pending_agent_work e f skip locked st") auto
  next
    case (5 pl1 st1 e agent1 actor ch policy)
    then show ?thesis using c pending attention_keeps [of e agent1 actor ch policy st]
      by (auto simp: cancelled_in_def split: sum.splits)
  qed
qed

text \<open>
  C16. A request for the return of a branch that is given up opens the branch again: whenever a step cancels a row that
  was to make an agent return its branch, because the agent or the channel is gone, the branch was handed to
  another agent or anything else, the branch is not returning after that step, unless it has returned.
\<close>

theorem cancelled_return_opens_its_branch:
  assumes "work_ok st" and "w \<in> set (wd_rows st)" and "wo_status w = WorkPending" and "dr_return (wo_payload w)"
    and "w' \<in> set (wd_rows (inbox_step pl st o1))" and "wo_id w' = wo_id w" and "wo_status w' = WorkCancelled"
    and "n \<in> set (th_nodes (wd_think (inbox_step pl st o1)))" and "wo_node w = Some (bn_id n)"
    and "bn_agent n = Some (wo_agent w)" and "bn_returned n = None"
  shows "bn_returning n = None"
proof -
  have "asks_return (bn_id n) w" using assms(4,9) by (simp add: asks_return_def)
  moreover have "cancelled_in (inbox_step pl st o1) (wo_id w)" using assms(5-7) by (auto simp: cancelled_in_def)
  ultimately have "reopened (bn_id n) (wo_agent w) (wd_think (inbox_step pl st o1))"
    using step_reopens [OF assms(1-3)] by blast
  then show ?thesis using assms(8,10,11) by (simp add: reopened_def)
qed


section \<open>Lost returns\<close>

text \<open>Nothing in the inbox is left that could cancel the return of the branch.\<close>

definition nobody_asks :: "id \<Rightarrow> work_db \<Rightarrow> bool" where
  "nobody_asks nid st \<longleftrightarrow> (\<forall>w \<in> set (wd_rows st). wo_status w = WorkPending \<longrightarrow> \<not> asks_return nid w)"

definition sealed_for_good :: "thinking_node \<Rightarrow> work_db \<Rightarrow> bool" where
  "sealed_for_good n st \<longleftrightarrow>
     nobody_asks (bn_id n) st \<and> keyed bn_id (th_nodes (wd_think st)) \<and> n \<in> set (th_nodes (wd_think st))"

definition asks_again :: "id \<Rightarrow> inbox_op \<Rightarrow> bool" where
  "asks_again nid o1 \<longleftrightarrow> (case o1 of EnqueueWork q \<Rightarrow> dr_return q \<and> tp_node q = nid | _ \<Rightarrow> False)"

lemma sealed_same: "sealed_for_good n st \<Longrightarrow> wd_rows st' = wd_rows st \<Longrightarrow> wd_think st' = wd_think st \<Longrightarrow> sealed_for_good n st'"
  by (simp add: sealed_for_good_def nobody_asks_def)

lemma nobody_set_work:
  assumes "\<And>w. work_face (f w) = work_face w" and "\<And>w. Q w \<Longrightarrow> wo_status (f w) = WorkPending \<Longrightarrow> wo_status w = WorkPending"
    and "nobody_asks nid st"
  shows "nobody_asks nid (set_work Q f st)"
proof -
  have "asks_return nid (f w) = asks_return nid w" for w
    using assms(1) [of w] by (simp add: work_face_def asks_return_def)
  then show ?thesis using assms(2,3) by (auto simp: nobody_asks_def set_work_def set_update_where split: if_splits)
qed

lemma nobody_rows: "wd_rows a = wd_rows b \<Longrightarrow> nobody_asks nid a = nobody_asks nid b"
  by (simp add: nobody_asks_def)

lemma sealed_cancel:
  assumes "sealed_for_good n st"
  shows "sealed_for_good n (cancel_work e P why st)"
proof -
  let ?ws = "filter (\<lambda>w. wo_status w = WorkPending \<and> P w) (wd_rows st)"
  let ?I = "\<lambda>d. keyed bn_id (th_nodes d) \<and> n \<in> set (th_nodes d)"
  have "?I (release_return e w d)" if "w \<in> set ?ws" "?I d" for d w
  proof (cases "dr_return (wo_payload w)")
    case True
    then have "bn_id n \<noteq> coalesce (wo_node w)"
      using assms that(1) by (auto simp: sealed_for_good_def nobody_asks_def asks_return_def)
    then show ?thesis using that(2) release_keeps_node release_ids unfolding release_return_def keyed_def by metis
  next
    case False
    then show ?thesis using that(2) by (simp add: release_return_def)
  qed
  then have "?I (foldl (\<lambda>d w. release_return e w d) (wd_think st) ?ws)"
    using fold_keeps [of ?ws ?I e "wd_think st"] assms by (simp add: sealed_for_good_def)
  moreover have "nobody_asks (bn_id n) (cancel_work e P why st)"
    unfolding nobody_rows [OF cancel_rows]
    by (rule nobody_set_work) (use assms in \<open>simp_all add: work_face_def sealed_for_good_def\<close>)
  ultimately show ?thesis by (simp add: sealed_for_good_def cancel_work_def Let_def)
qed

lemma sealed_set_work:
  assumes "\<And>w. work_face (f w) = work_face w" and "\<And>w. Q w \<Longrightarrow> wo_status (f w) = WorkPending \<Longrightarrow> wo_status w = WorkPending"
    and "sealed_for_good n st"
  shows "sealed_for_good n (set_work Q f st)"
  using assms(3) nobody_set_work [of f Q "bn_id n" st] assms(1,2) by (simp add: sealed_for_good_def)

lemma sealed_take:
  assumes s: "sealed_for_good n st" and t: "take_work e f v st = (True, st', r)"
  shows "sealed_for_good n st'"
  using t
proof (cases rule: take_cases)
  case (delayed b why)
  have "sealed_for_good n (st\<lparr>wd_bindings := b\<rparr>)" by (rule sealed_same [OF s]) simp_all
  then show ?thesis unfolding delayed(1) delay_work_def by (rule sealed_set_work [rotated 2]) (simp_all add: work_face_def)
next
  case (cancelled why)
  then show ?thesis using sealed_cancel [OF s] by simp
next
  case (started ag q b dmn m x)
  have "sealed_for_good n (with_queue m (st\<lparr>wd_bindings := b\<rparr>))" by (rule sealed_same [OF s]) simp_all
  then show ?thesis unfolding started(4) by (rule sealed_set_work [rotated 2]) (simp_all add: work_face_def)
qed

lemma sealed_dispatch:
  assumes s: "sealed_for_good n st" and d: "dispatch_pending_agent_work e f skip locked st = (found, st', r)"
  shows "sealed_for_good n st'"
  using d
proof (cases rule: dispatch_cases)
  case (took v)
  have "sealed_for_good n (withdraw_work e st)" unfolding withdraw_work_def by (rule sealed_cancel [OF s])
  then show ?thesis using sealed_take [OF _ took(3)] by blast
qed (use s sealed_cancel in \<open>simp_all add: withdraw_work_def\<close>)

lemma sealed_enqueue:
  assumes s: "sealed_for_good n st" and q: "enqueue_agent_work e q st = Inr st'" and no: "\<not> asks_again (bn_id n) (EnqueueWork q)"
  shows "sealed_for_good n st'"
proof -
  from q obtain v k q' where i: "insert_work (queued_row e v k q') st = Inr st'" and q': "dr_return q' = dr_return q" "tp_node q' = tp_node q"
    by (auto simp: enqueue_agent_work_def Let_def split: if_splits option.splits)
  have row: "\<not> asks_return (bn_id n) (queued_row e v k q')"
    using no q' by (simp add: asks_return_def queued_row_def asks_again_def)
  have "wd_think st' = wd_think st \<and> (wd_rows st' = wd_rows st \<or> wd_rows st' = wd_rows st @ [queued_row e v k q'])"
    using i by (auto simp: insert_work_def split: if_splits)
  then show ?thesis using s row by (auto simp: sealed_for_good_def nobody_asks_def)
qed

lemma sealed_step:
  assumes s: "sealed_for_good n st" and no: "\<not> asks_again (bn_id n) o1"
  shows "sealed_for_good n (inbox_step pl st (e, o1))"
proof (cases o1)
  case (OnWakes w)
  then show ?thesis using sealed_same [OF s] by simp
next
  case (EnqueueWork q)
  then show ?thesis using s no sealed_enqueue [OF s, of e q] by (auto split: sum.splits)
next
  case (TakeRow f v)
  then show ?thesis using s sealed_take [OF s, of e f v] by (auto split: prod.splits bool.splits)
next
  case (DispatchWork f skip locked)
  then show ?thesis using sealed_dispatch [OF s, of e f skip locked]
    by (cases "dispatch_pending_agent_work e f skip locked st") auto
next
  case (SetAttention agent actor ch policy)
  have "sealed_for_good n st'" if "set_agent_attention e agent actor ch policy st = Inr st'" for st'
    using attention_keeps [OF that] sealed_same [OF s] by blast
  then show ?thesis using SetAttention s by (auto split: sum.splits)
qed

lemma sealed_run:
  assumes "sealed_for_good n st" and "\<And>o1. o1 \<in> set ops \<Longrightarrow> \<not> asks_again (bn_id n) (snd o1)"
  shows "sealed_for_good n (foldl (inbox_step pl) st ops)"
  using assms
proof (induction ops arbitrary: st)
  case (Cons o1 ops)
  then show ?case using sealed_step [of n st "snd o1" pl "fst o1"] by simp
qed simp

text \<open>
  C17. A return whose run is lost keeps its branch closed: once the row that was to make an agent return a branch has been
  dispatched and no other asks for it, nothing the server does with its inbox and its runs opens the branch again,
  not even ending the lost run; and from then on every message of a user to the branch and every request to
  return it, which is what would ask again, is refused. Only the goroutine that watches the run releases the
  branch, and \<open>finishDaemonLostRun\<close> and the timeouts end runs that no goroutine watches any more.
\<close>

theorem lost_return_keeps_its_branch:
  assumes "keyed bn_id (th_nodes (wd_think st))" and "n \<in> set (th_nodes (wd_think st))" and "bn_returning n \<noteq> None"
    and "\<And>w. w \<in> set (wd_rows st) \<Longrightarrow> wo_status w = WorkPending \<Longrightarrow> \<not> asks_return (bn_id n) w"
    and "\<And>o1. o1 \<in> set ops \<Longrightarrow> \<not> asks_again (bn_id n) (snd o1)"
  shows "n \<in> set (th_nodes (wd_think (foldl (inbox_step pl) st ops))) \<and>
    isl (begin_return te ch (bn_id n) (wd_think (foldl (inbox_step pl) st ops))) \<and>
    isl (check_node_post te ch (bn_id n) ''user'' user text (wd_think (foldl (inbox_step pl) st ops)))"
proof -
  let ?d = "wd_think (foldl (inbox_step pl) st ops)"
  have "sealed_for_good n st" using assms(1,2,4) by (simp add: sealed_for_good_def nobody_asks_def)
  then have "sealed_for_good n (foldl (inbox_step pl) st ops)" by (rule sealed_run [OF _ assms(5)])
  then have n: "keyed bn_id (th_nodes ?d)" "n \<in> set (th_nodes ?d)" by (simp_all add: sealed_for_good_def)
  have only: "x = n" if "node_in ?d ch (bn_id n) = Some x" for x
    using that keyed_unique [OF n(1) _ n(2)] by (auto simp: node_in_def find_Some_iff)
  have "isl (begin_return te ch (bn_id n) ?d)"
    using only assms(3) by (auto simp: begin_return_def refused_by_phase_def split: option.splits)
  moreover have "isl (check_node_post te ch (bn_id n) ''user'' user text ?d)"
    using only assms(3) by (auto simp: check_node_post_def get_node_def node_view_def Let_def split: option.splits)
  ultimately show ?thesis using n(2) by blast
qed


section \<open>Attention\<close>

lemma find_updated:
  assumes "\<And>x. P x \<Longrightarrow> P (f x)" and "\<exists>x \<in> set xs. P x"
  shows "find P (update_where P f xs) = map_option f (find P xs)"
  using assms by (induction xs) (auto simp: update_where_def)

lemma find_deleted: "find P (delete_where P xs) = None"
  by (auto simp: find_None_iff set_delete_where)

lemma find_appended: "\<not> exists_row P xs \<Longrightarrow> P x \<Longrightarrow> find P (xs @ [x]) = Some x"
  by (induction xs) (auto simp: exists_row_def)

lemma saved_policy:
  assumes "a \<in> set (wk_agents (save_policy agent ch policy d))" and "wa_id a = agent" and "ch \<noteq> []"
  shows "attention_of (save_policy agent ch policy d) a ch = (case policy of None \<Rightarrow> wa_policy a | Some p \<Rightarrow> p)"
proof (cases policy)
  case None
  then show ?thesis using assms by (simp add: save_policy_def attention_of_def Let_def find_deleted)
next
  case (Some p)
  let ?P = "\<lambda>x. at_agent x = agent \<and> at_channel x = ch"
  show ?thesis
  proof (cases "exists_row ?P (wk_attention d)")
    case True
    then have "find ?P (update_where ?P (\<lambda>x. x\<lparr>at_policy := p\<rparr>) (wk_attention d)) =
        map_option (\<lambda>x. x\<lparr>at_policy := p\<rparr>) (find ?P (wk_attention d))" "find ?P (wk_attention d) \<noteq> None"
      by (auto intro!: find_updated simp: exists_row_iff find_None_iff)
    then show ?thesis using True Some assms by (auto simp: save_policy_def attention_of_def Let_def)
  next
    case False
    then have "find ?P (wk_attention d @ [\<lparr>at_agent = agent, at_channel = ch, at_policy = p\<rparr>]) =
        Some \<lparr>at_agent = agent, at_channel = ch, at_policy = p\<rparr>" by (rule find_appended) simp
    then show ?thesis using False Some assms by (simp add: save_policy_def attention_of_def Let_def)
  qed
qed

lemma muted_not_queued:
  assumes "\<And>a. a \<in> set (wk_agents (mw_tables q)) \<Longrightarrow> wa_id a = agent \<Longrightarrow> attention_of (mw_tables q) a ch = AttendNothing"
  shows "upsert_pending_message_wake t agent ch th f l v q = q"
  using assms by (auto simp: upsert_pending_message_wake_def message_wake_allowed_def exists_row_iff attends_def)

text \<open>
  Muting is exact: a change of attention for a channel takes effect there at once; it withdraws the waiting messages of
  the conversations in which the agent now attends to nothing, and only those; no later routing can queue a
  message there; and the agent's work, its runs, its tasks and the messages themselves stay as they are.
\<close>

theorem muting_withdraws_waiting_messages:
  assumes "set_agent_attention e agent actor ch policy st = Inr st'"
  shows "(ch \<noteq> [] \<longrightarrow> (\<forall>a \<in> set (wk_agents (mw_tables (wd_queue st'))). wa_id a = agent \<longrightarrow>
            attention_of (mw_tables (wd_queue st')) a ch = (case parse_policy policy of None \<Rightarrow> wa_policy a | Some p \<Rightarrow> p))) \<and>
         (\<forall>p. p \<in> set (mw_pending (wd_queue st')) \<longleftrightarrow>
            p \<in> set (mw_pending (wd_queue st)) \<and> \<not> muted (mw_tables (wd_queue st')) agent p) \<and>
         (ch \<noteq> [] \<and> policy = ''nothing'' \<longrightarrow>
            upsert_pending_message_wake t agent ch th f l v (wd_queue st') = wd_queue st') \<and>
         wd_rows st' = wd_rows st \<and> mw_runs (wd_queue st') = mw_runs (wd_queue st) \<and> wd_board st' = wd_board st \<and>
         wk_messages (mw_tables (wd_queue st')) = wk_messages (mw_tables (wd_queue st))"
proof -
  have t: "mw_tables (wd_queue st') = save_policy agent ch (parse_policy policy) (mw_tables (wd_queue st))"
    and b: "wd_board st' = wd_board st"
    using assms by (auto simp: set_agent_attention_def Let_def split: option.splits if_splits)
  have m: "wk_messages (save_policy agent ch p d) = wk_messages d" for p d
    by (simp add: save_policy_def Let_def split: option.splits)
  note k = attention_keeps [OF assms]
  have eff: "attention_of (mw_tables (wd_queue st')) a ch = (case parse_policy policy of None \<Rightarrow> wa_policy a | Some p \<Rightarrow> p)"
    if "ch \<noteq> []" "a \<in> set (wk_agents (mw_tables (wd_queue st')))" "wa_id a = agent" for a
    using saved_policy that unfolding t by blast
  have "upsert_pending_message_wake t agent ch th f l v (wd_queue st') = wd_queue st'" if "ch \<noteq> []" "policy = ''nothing''"
    by (rule muted_not_queued) (use eff that in \<open>simp add: parse_policy_def\<close>)
  then show ?thesis using eff k b m t by (simp add: set_delete_where mw_runs_def conj_commute)
qed

section \<open>Work marks\<close>

lemma update_twice: "(\<And>x. f (f x) = f x) \<Longrightarrow> update_where P f (update_where P f xs) = update_where P f xs"
  by (induction xs) (simp_all add: update_where_def)

lemma count_updated: "(\<And>x. P x \<Longrightarrow> P (f x)) \<Longrightarrow> count_rows P (update_where P f xs) = count_rows P xs"
  by (induction xs) (simp_all add: count_rows_def update_where_def)

lemma settled_again:
  assumes "resolve_mark e agent q st = Inr (st', i)"
  shows "resolve_mark e agent q st' = Inr (st', i)"
proof -
  from assms obtain s where s: "parse_mark_status (mr_status q) = Some s" "uuid_parse (board_env e) (mr_id q) \<noteq> None"
    "\<not> (blank (mr_resolution q) \<or> length (mr_resolution q) > 8000)" "count_rows (settles_mark agent s q) (wd_marks st) = 1"
    "st' = st\<lparr>wd_marks := update_where (settles_mark agent s q) (\<lambda>m. m\<lparr>mk_status := s, mk_resolution := mr_resolution q\<rparr>)
        (wd_marks st)\<rparr>" "i = mr_id q"
    by (auto simp: resolve_mark_def split: if_splits option.splits)
  let ?P = "settles_mark agent s q" and ?f = "\<lambda>m. m\<lparr>mk_status := s, mk_resolution := mr_resolution q\<rparr>"
  have "count_rows ?P (update_where ?P ?f (wd_marks st)) = count_rows ?P (wd_marks st)"
    by (rule count_updated) (simp add: settles_mark_def)
  moreover have "update_where ?P ?f (update_where ?P ?f (wd_marks st)) = update_where ?P ?f (wd_marks st)"
    by (rule update_twice) simp
  ultimately show ?thesis using s by (simp add: resolve_mark_def)
qed

lemma inserted_again:
  assumes "insert_mark e agent q st = Inr (st', i)"
  shows "insert_mark e agent q st' = Inr (st', i)"
proof (cases "find (\<lambda>m. mk_agent m = agent \<and> mk_key m = mr_key q) (wd_marks st)")
  case (Some m)
  then show ?thesis using assms by (auto simp: insert_mark_def split: if_splits)
next
  case None
  then have "\<not> exists_row (\<lambda>m. mk_agent m = agent \<and> mk_key m = mr_key q) (wd_marks st)"
    by (auto simp: exists_row_iff find_None_iff)
  from find_appended [OF this] None show ?thesis
    using assms by (auto simp: insert_mark_def same_mark_def split: if_splits)
qed

text \<open>
  Saving a mark is safe to repeat: a request that opened a mark or settled one, sent again, gives the same answer and
  changes nothing.
\<close>

theorem saving_a_mark_again_changes_nothing:
  assumes "save_agent_work_mark e agent actor q st = Inr (st', i)"
  shows "save_agent_work_mark e agent actor q st' = Inr (st', i)"
proof -
  have same: "wd_board st' = wd_board st \<and> wd_queue st' = wd_queue st"
    using assms by (auto simp: save_agent_work_mark_def resolve_mark_def insert_mark_def Let_def split: if_splits option.splits sum.splits)
  then have "require_agent_work_owner st' = require_agent_work_owner st" "mark_source_error e q st' = mark_source_error e q st"
    by (simp_all add: require_agent_work_owner_def [abs_def] mark_source_error_def)
  note checks = this
  show ?thesis
  proof (cases "mr_id q = []")
    case True
    then have "insert_mark e agent q st = Inr (st', i)"
      using assms by (auto simp: save_agent_work_mark_def split: if_splits option.splits sum.splits)
    from inserted_again [OF this] show ?thesis using True assms same checks
      by (simp add: save_agent_work_mark_def split: if_splits option.splits sum.splits)
  next
    case False
    then have "resolve_mark e agent q st = Inr (st', i)"
      using assms by (auto simp: save_agent_work_mark_def split: option.splits)
    from settled_again [OF this] show ?thesis using False assms checks
      by (simp add: save_agent_work_mark_def split: option.splits)
  qed
qed


section \<open>The properties on small states\<close>

definition ib_board :: db where
  "ib_board = \<lparr>tasks = [], channels = [\<lparr>ch_id = ''ch'', ch_archived = False\<rparr>],
     members = [\<lparr>m_channel = ''ch'', m_member = ''a'', m_type = ''agent''\<rparr>],
     agents = [\<lparr>a_id = ''a'', a_name = ''A'', a_owner = ''u'', a_active = True\<rparr>], users = [], messages = [], submissions = [],
     reviews = [], deliveries = [], waits = [], resp_events = [], artifacts = [], gate_runs = []\<rparr>"

definition ib_env :: work_env where
  "ib_env = \<lparr>clock = 50, month_start = 0, new_id = ''n'', new_event_id = ''e'', sha_hex = (\<lambda>s. s), selection_guard = (\<lambda>_. None),
     daemon_capabilities = (\<lambda>_. None), open_tasks_summary = (\<lambda>_. []), continuity_packet = (\<lambda>_ _ _. Inr []),
     sign_token = (\<lambda>_ _ _ _. None), render_relationships = (\<lambda>_ _. Some []), run_revision = (\<lambda>_ p. Inr p),
     row_uuid = ''w9'', request_uuid = ''u'', source_hash = ky_kind, task_json = t_id, failure_text = (\<lambda>_. ''failed''),
     go_quote = (\<lambda>s. s), node_history = (\<lambda>_ _. []), branch_env = tk_env ''q'',
     board_env = \<lparr>now = 50, fresh = ''n'', uuid_parse = Some, sql_lower = (\<lambda>s. s), sha256_hex = (\<lambda>s. s),
       hash_contract = (\<lambda>_. []), hash_submit = sub_key, hash_review = rv_key, hash_wait = wr_key,
       json_length_wait = (\<lambda>_. 0), has_notifier = False, gen_artifact = None\<rparr>\<rparr>"

definition ib_request :: "id \<Rightarrow> bool \<Rightarrow> work_request" where
  "ib_request nid back =
     \<lparr>tp_task = [], tp_run = [], tp_agent = ''a'', tp_channel = ''ch'', tp_provider = [], tp_node = nid,
      tp_origin_task = [], tp_resume = [], tp_fresh = False, tp_retire = [], tp_code_review = False,
      tp_team_version = [], tp_skills = [], tp_messages = [], tp_cold_start = [], tp_context = [],
      dr_thread = [], dr_trigger = [], dr_assignee = [], dr_link_role = [], dr_return = back, dr_contract = [], dr_system = [],
      dr_thinking = [], dr_model = [], dr_relationships = [], dr_env = [], dr_args = [], dr_token = [], dr_seen = 0,
      dr_recovery = None\<rparr>"

definition ib_row :: "id \<Rightarrow> string \<Rightarrow> id option \<Rightarrow> bool \<Rightarrow> work_row" where
  "ib_row i kind nid back =
     \<lparr>wo_id = i, wo_agent = ''a'', wo_channel = ''ch'', wo_task = None, wo_version = None, wo_node = nid, wo_key = kind @ '':t'',
      wo_kind = kind, wo_priority = 20, wo_payload = ib_request (coalesce nid) back, wo_recovery = None, wo_seen = 0,
      wo_status = WorkPending, wo_run = None, wo_error = [], wo_next = 10, wo_created = 10\<rparr>"

definition ib_fleet :: fleet where
  "ib_fleet = new_fleet\<lparr>daemons := [mq_daemon]\<rparr>"

definition ib_queue :: "run_row list \<Rightarrow> mw_state" where
  "ib_queue rs = (mq_state rs)\<lparr>mw_remote := (mw_remote (mq_state rs))
     \<lparr>r_tables := empty_rdb\<lparr>runs := rs, owned_agents := agents ib_board\<rparr>\<rparr>\<rparr>"

definition ib_state :: "run_row list \<Rightarrow> work_row list \<Rightarrow> think_db \<Rightarrow> work_db" where
  "ib_state rs ws d =
     \<lparr>wd_queue = ib_queue rs, wd_rows = ws, wd_board = ib_board, wd_think = d,
      wd_profiles = [\<lparr>ai_id = ''a'', ai_name = ''A'', ai_provider = ''claude'', ai_model = ''m'', ai_prompt = []\<rparr>],
      wd_joined = [((''ch'', ''a''), ''t'')], wd_bindings = \<lparr>runtime_ids = [(''a'', None)], computers = []\<rparr>, wd_marks = []\<rparr>"

abbreviation ib_greeting :: work_row where "ib_greeting \<equiv> ib_row ''w1'' ''greeting'' None False"
abbreviation ib_done :: work_row where
  "ib_done \<equiv> ib_greeting\<lparr>wo_status := WorkDispatched, wo_run := Some ''r1''\<rparr>"

lemma ib_ok: "work_ok (ib_state rs [] d)" "work_ok (ib_state rs [ib_greeting] d)" "work_ok (ib_state rs [ib_done] d)"
  "work_ok (ib_state rs [ib_row ''w2'' ''thinking'' (Some ''b'') True] d)"
  by (simp_all add: work_ok_def ib_state_def ib_row_def ib_request_def keyed_def row_sound_def work_kinds_def mq_state_def ib_queue_def)

definition ib_ops :: "(work_env \<times> inbox_op) list" where
  "ib_ops = [(ib_env, EnqueueWork (ib_request [] False)), (ib_env, DispatchWork ib_fleet [] True),
     (ib_env, OnWakes (ClaimWake mq_daemon mq_turn 6 7)), (ib_env, SetAttention ''a'' ''u'' ''ch'' ''nothing'')]"

theorem work_runs_at_most_once_witness:
  "{x \<in> set (wd_rows (foldl (inbox_step (\<lambda>_ _. mt_payload mq_turn)) (ib_state [] [ib_done] tk_open) ib_ops)).
      wo_agent x = wo_agent ib_done \<and> wo_key x = wo_key ib_done} = {ib_done}"
  using work_runs_at_most_once [OF ib_ok(3), where w = ib_done and pl = "\<lambda>_ _. mt_payload mq_turn" and ops = ib_ops]
  by (auto simp: ib_state_def ib_row_def)

theorem work_is_taken_in_turn_witness:
  "\<exists>r. snd (snd (dispatch_pending_agent_work ib_env ib_fleet [] True (ib_state [] [ib_greeting] tk_db))) = Some r \<and>
       rn_agent r = ''a''"
proof -
  let ?st = "ib_state [] [ib_greeting] tk_db"
  have "snd (snd (dispatch_pending_agent_work ib_env ib_fleet [] True ?st)) \<noteq> None" by code_simp
  then obtain found st' r where d: "dispatch_pending_agent_work ib_env ib_fleet [] True ?st = (found, st', Some r)"
    by (cases "dispatch_pending_agent_work ib_env ib_fleet [] True ?st") auto
  have "wd_rows ?st = [ib_greeting]" "wo_agent ib_greeting = ''a''" by (simp_all add: ib_state_def ib_row_def)
  with work_is_taken_in_turn [OF ib_ok(2) d] have "rn_agent r = ''a''" by auto
  with d show ?thesis by simp
qed

definition ib_tries :: "nat \<Rightarrow> dispatch_try" where
  "ib_tries _ = \<lparr>dt_env = ib_env, dt_skip = [], dt_locked = True\<rparr>"

theorem rounds_serve_every_turn_witness:
  "due 50 (ib_state [] [ib_greeting] tk_db) = 1 \<and>
   choose_work 50 [] (fst (dispatch_rounds ib_fleet ib_tries (ib_state [] [ib_greeting] tk_db))) = None"
proof -
  let ?st = "ib_state [] [ib_greeting] tk_db"
  obtain st' n where r: "dispatch_rounds ib_fleet ib_tries ?st = (st', n)" by fastforce
  have one: "due 50 ?st = 1" by (simp add: due_def count_rows_def ib_state_def ib_row_def)
  from rounds_serve_every_turn [OF ib_ok(2) r, of 50] one r show ?thesis by (simp add: ib_tries_def ib_env_def)
qed

definition ib_returning :: think_db where
  "ib_returning = foldl (think_step (\<lambda>t. t)) tk_open [(tk_env ''r'', OpBeginReturn ''c'' ''b'')]"

definition ib_back :: work_row where "ib_back = ib_row ''w2'' ''thinking'' (Some ''b'') True"

definition ib_gone :: work_db where
  "ib_gone = (ib_state [] [ib_back] ib_returning)
     \<lparr>wd_queue := (ib_queue [])\<lparr>mw_tables := (mw_tables (ib_queue []))\<lparr>wk_members := []\<rparr>\<rparr>\<rparr>"

theorem cancelled_return_opens_its_branch_witness:
  "bn_returning (th_nodes (wd_think ib_gone) ! 1) \<noteq> None \<and>
   bn_returning (th_nodes (wd_think (inbox_step (\<lambda>_ _. mt_payload mq_turn) ib_gone (ib_env, DispatchWork ib_fleet [] True))) ! 1) = None"
proof -
  let ?st = "inbox_step (\<lambda>_ _. mt_payload mq_turn) ib_gone (ib_env, DispatchWork ib_fleet [] True)"
  let ?n = "th_nodes (wd_think ?st) ! 1" and ?w = "wd_rows ?st ! 0"
  have ok: "work_ok ib_gone" using ib_ok(4) by (simp add: ib_gone_def ib_back_def work_ok_def ib_state_def mq_state_def ib_queue_def)
  have before: "bn_returning (th_nodes (wd_think ib_gone) ! 1) \<noteq> None" by code_simp
  have len: "0 < length (wd_rows ?st)" "1 < length (th_nodes (wd_think ?st))" by code_simp+
  have w: "wo_id ?w = ''w2''" "wo_status ?w = WorkCancelled" by code_simp+
  have n: "bn_id ?n = ''b''" "bn_agent ?n = Some ''a''" "bn_returned ?n = None" by code_simp+
  have row: "ib_back \<in> set (wd_rows ib_gone)" "wo_status ib_back = WorkPending" "dr_return (wo_payload ib_back)"
    "wo_id ib_back = ''w2''" "wo_node ib_back = Some ''b''" "wo_agent ib_back = ''a''"
    by (simp_all add: ib_gone_def ib_state_def ib_back_def ib_row_def ib_request_def)
  have "bn_returning ?n = None"
    by (rule cancelled_return_opens_its_branch [OF ok row(1-3) nth_mem [OF len(1)] _ w(2) nth_mem [OF len(2)] _ _ n(3)])
      (simp_all only: row w n)
  with before show ?thesis by blast
qed


theorem lost_return_keeps_its_branch_witness:
  "(let st = ib_state [mq_run] [ib_back\<lparr>wo_status := WorkDispatched, wo_run := Some ''r1''\<rparr>] ib_returning;
        st' = foldl (inbox_step (\<lambda>_ _. mt_payload mq_turn)) st
          [(ib_env, OnWakes (FailRun new_fleet \<lparr>runtime_ids = [], computers = []\<rparr> mq_run AgentRunStatusFailed [] [] True)),
           (ib_env, DispatchWork ib_fleet [] True)]
    in bn_returning (th_nodes (wd_think st) ! 1) \<noteq> None \<and> isl (begin_return (tk_env ''z'') ''c'' ''b'' (wd_think st')) \<and>
       isl (check_node_post (tk_env ''z'') ''c'' ''b'' ''user'' ''u'' ''hello'' (wd_think st')))"
proof -
  let ?n = "th_nodes ib_returning ! 1"
  define st where "st = ib_state [mq_run] [ib_back\<lparr>wo_status := WorkDispatched, wo_run := Some ''r1''\<rparr>] ib_returning"
  have th: "wd_think st = ib_returning" "wd_rows st = [ib_back\<lparr>wo_status := WorkDispatched, wo_run := Some ''r1''\<rparr>]"
    by (simp_all add: st_def ib_state_def)
  have len: "1 < length (th_nodes ib_returning)" by code_simp
  have n: "bn_returning ?n \<noteq> None" "bn_id ?n = ''b''" by code_simp+
  have keyed: "keyed bn_id (th_nodes ib_returning)" unfolding keyed_def by code_simp
  define ops where "ops =
    [(ib_env, OnWakes (FailRun new_fleet \<lparr>runtime_ids = [], computers = []\<rparr> mq_run AgentRunStatusFailed [] [] True)),
     (ib_env, DispatchWork ib_fleet [] True)]"
  have quiet: "\<not> asks_again i (snd o1)" if "o1 \<in> set ops" for o1 i
    using that by (auto simp: ops_def asks_again_def)
  from lost_return_keeps_its_branch [of st ?n ops "\<lambda>_ _. mt_payload mq_turn" "tk_env ''z''" "''c''" "''u''" "''hello''"]
    keyed nth_mem [OF len] n quiet th
  show ?thesis unfolding st_def ops_def by (simp add: Let_def)
qed

theorem muting_withdraws_waiting_messages_witness:
  "\<exists>st'. set_agent_attention ib_env ''a'' ''u'' ''ch'' ''nothing'' (ib_state [] [ib_greeting] tk_db) = Inr st' \<and>
     upsert_pending_message_wake 60 ''a'' ''ch'' [] 6 7 True (wd_queue st') = wd_queue st' \<and> wd_rows st' = [ib_greeting]"
proof -
  let ?r = "set_agent_attention ib_env ''a'' ''u'' ''ch'' ''nothing'' (ib_state [] [ib_greeting] tk_db)"
  have "\<not> isl ?r" by code_simp
  then obtain st' where s: "?r = Inr st'" by (cases ?r) auto
  have "wd_rows (ib_state [] [ib_greeting] tk_db) = [ib_greeting]" by (simp add: ib_state_def)
  with muting_withdraws_waiting_messages [OF s, of 60 "[]" 6 7 True] s show ?thesis by auto
qed

definition ib_mark :: mark_request where
  "ib_mark = \<lparr>mr_id = [], mr_channel = ''ch'', mr_source = [], mr_task = [], mr_description = ''check'', mr_next = [],
     mr_status = [], mr_resolution = [], mr_key = ''k1''\<rparr>"

theorem saving_a_mark_again_changes_nothing_witness:
  "\<exists>st'. save_agent_work_mark ib_env ''a'' ''u'' ib_mark (ib_state [] [] tk_db) = Inr (st', ''w9'') \<and>
     save_agent_work_mark ib_env ''a'' ''u'' ib_mark st' = Inr (st', ''w9'')"
proof -
  let ?r = "save_agent_work_mark ib_env ''a'' ''u'' ib_mark (ib_state [] [] tk_db)"
  have "\<not> isl ?r \<and> snd (projr ?r) = ''w9''" by code_simp
  then obtain st' where s: "?r = Inr (st', ''w9'')" by (cases ?r) auto
  from saving_a_mark_again_changes_nothing [OF s] s show ?thesis by blast
qed

end
