(* ===== verification/Dispatch_Theorems.thy ===== *)
theory Dispatch_Theorems
  imports Agent_Dispatch Inbox_Theorems
begin

text \<open>
  Properties of the whole inbox: whatever source an agent's work comes from, it starts one run at a time, and only
  for the item whose turn it is.
\<close>

section \<open>What a dispatcher leaves\<close>

lemma item_kinds:
  "list_all (\<lambda>i. ib_kind i \<notin> set work_kinds) (review_items x @ wait_items be d @ sample_items x)"
  by (auto simp: list_all_iff review_items_def wait_items_def sample_items_def map_filter_def work_kinds_def
      split: option.splits if_splits prod.splits)

lemma at_desk_parts [simp]:
  "wd_rows (at_desk e x) = wd_rows (ds_work x)" "wd_think (at_desk e x) = wd_think (ds_work x)"
  "wd_board (at_desk e x) = wd_board (ds_work x)"
  "mw_remote (wd_queue (at_desk e x)) = mw_remote (wd_queue (ds_work x))"
  "mw_pending (wd_queue (at_desk e x)) = mw_pending (wd_queue (ds_work x))"
  "mw_tables (wd_queue (at_desk e x)) = mw_tables (wd_queue (ds_work x))"
  "mw_consumed (wd_queue (at_desk e x)) = mw_consumed (wd_queue (ds_work x))"
  by (simp_all add: at_desk_def)

lemma at_desk_same: "same_queue (wd_queue (ds_work x)) (wd_queue (at_desk e x))"
  by (simp add: same_inbox_queue)

lemma alone_at_desk: "alone agent (ds_work x) \<Longrightarrow> alone agent (at_desk e x)"
  using same_queue_facts(1) [OF at_desk_same [of x e]] unfinished_same [of "wd_queue (at_desk e x)" "wd_queue (ds_work x)" agent] item_kinds
  by (simp add: alone_def work_ok_def) (simp add: at_desk_def)

lemma turn_is_idle:
  assumes "desk_turn e x agent kind work"
  shows "\<not> busy (wd_queue (ds_work x)) agent"
proof -
  obtain i where "\<not> busy (inbox_queue (at_desk e x)) agent"
    using assms unfolding desk_turn_def by (rule turn_head)
  then show ?thesis by (simp add: busy_def mw_runs_def)
qed

text \<open>An attempt that starts no run leaves the queue and the rows; one that does adds a run of the idle agent.\<close>

definition keeps_turn :: "id \<Rightarrow> desk \<Rightarrow> desk \<Rightarrow> run_row option \<Rightarrow> bool" where
  "keeps_turn a x x' r \<longleftrightarrow>
     wd_rows (ds_work x') = wd_rows (ds_work x) \<and> wd_think (ds_work x') = wd_think (ds_work x) \<and>
     mw_other (wd_queue (ds_work x')) = mw_other (wd_queue (ds_work x)) \<and>
     (case r of
        None \<Rightarrow> wd_queue (ds_work x') = wd_queue (ds_work x)
      | Some r \<Rightarrow> grown (wd_queue (ds_work x)) (wd_queue (ds_work x')) r \<and> wake_first (rn_wake r) = 0 \<and> rn_agent r = a \<and>
                  \<not> busy (wd_queue (ds_work x)) a)"

lemma alone_kept:
  assumes a: "alone agent (ds_work x)" and k: "keeps_turn b x x' r"
  shows "alone agent (ds_work x')"
proof -
  have ok: "work_ok (ds_work x')" using a k by (simp add: alone_def work_ok_def keeps_turn_def)
  show ?thesis
  proof (cases r)
    case None
    with k show ?thesis by (intro alone_same [OF a ok]) (simp add: keeps_turn_def)
  next
    case (Some y)
    with k have g: "grown (wd_queue (ds_work x)) (wd_queue (ds_work x')) y" "wake_first (rn_wake y) = 0" "rn_agent y = b"
      "\<not> busy (wd_queue (ds_work x)) b" by (auto simp: keeps_turn_def)
    have "queue_ok (wd_queue (ds_work x'))" using grown_ok [OF g(1)] a g(2) by (simp add: alone_def)
    moreover have "unfinished_runs (wd_queue (ds_work x')) agent \<le> 1"
      using unfinished_grown [OF g(1), of agent] g(3,4) a by (cases "b = agent") (simp_all add: busy_count alone_def)
    ultimately show ?thesis using ok by (simp add: alone_def)
  qed
qed

lemma desk_parts [simp]:
  "ds_work (set_ds_work g x) = g (ds_work x)" "ds_work (set_sample tid h x) = ds_work x"
  "ds_work (x\<lparr>ds_error := er, ds_next := nx\<rparr>) = ds_work x"
  by (simp_all add: set_ds_work_def set_sample_def)

lemmas desk_writes = set_board_def bind_daemon_def put_queue_def with_queue_def put_off_review_def review_started_def
  put_off_wait_def put_off_sample_def

lemma keeps_nothing: "keeps_turn a x x None"
  by (simp add: keeps_turn_def)

lemma dispatched_grown:
  assumes "start_dispatched e i st = Inr (q, r)"
  shows "grown st q r \<and> rn_agent r = sr_agent i \<and> rn_wake r = sr_wake i"
proof -
  from assms obtain d where s: "start_run_tx (renv.truncate e) (r_tables (mw_remote st)) i = Inr (d, r)"
    and q: "q = st\<lparr>mw_remote := (mw_remote st)\<lparr>r_tables := d, run_deliveries := run_deliveries (mw_remote st) @ [undelivered (rn_id r)]\<rparr>\<rparr>"
    by (auto simp: start_dispatched_def split: sum.splits)
  from views_start [OF s] show ?thesis unfolding q by (simp add: grown_def same_world_def mw_runs_def accepted_undelivered)
qed

lemma linked_grown: "grown st q r \<Longrightarrow> grown st (link_primary rid tid q) r"
  by (simp add: grown_def link_primary_def same_world_def mw_runs_def accepted_def)

lemma persisted_grown: "persist_dispatched e dmn r th p q = Inr q' \<Longrightarrow> grown st q r \<Longrightarrow> grown st q' r"
  unfolding persist_dispatched_def by (rule persist_grown)

lemma grown_other [simp]: "grown st (q\<lparr>mw_other := o1\<rparr>) r = grown st q r"
  by (simp add: grown_def same_world_def mw_runs_def accepted_def)

section \<open>Reviews, waits and selections\<close>

lemma keeps_bind: "keeps_turn a (bind_daemon b x) x' r = keeps_turn a x x' r"
  by (simp add: keeps_turn_def bind_daemon_def split: option.split)

lemma keeps_sample: "keeps_turn a (set_sample tid h x) x' r = keeps_turn a x x' r"
  by (simp add: keeps_turn_def split: option.split)

lemma keeps_quiet [simp]:
  "keeps_turn a x x None" "keeps_turn a x (put_off_review e sub why x) None" "keeps_turn a x (put_off_wait e w why x) None"
  "keeps_turn a x (put_off_sample e tid why x) None" "keeps_turn a x (bind_daemon b x) None"
  "keeps_turn a x (put_off_review e sub why (bind_daemon b x)) None" "keeps_turn a x (put_off_wait e w why (bind_daemon b x)) None"
  "keeps_turn a x (put_off_sample e tid why (bind_daemon b x)) None"
  by (simp_all add: keeps_turn_def desk_writes)

lemma bound_queue [simp]: "wd_queue (ds_work (bind_daemon b x)) = wd_queue (ds_work x)"
  by (simp add: bind_daemon_def)

lemma start_review_keeps:
  assumes "start_review e dmn ag th v s t x = (found, x', r)" and "\<not> busy (wd_queue (ds_work x)) (d_reviewer v)"
  shows "keeps_turn (d_reviewer v) x x' r"
  using assms
  by (auto simp: start_review_def Let_def split: sum.splits dest!: dispatched_grown)
    (auto simp: keeps_turn_def desk_writes desk_input_def intro: persisted_grown)

lemma resume_wait_keeps:
  assumes "resume_wait e dmn ag th w t x = (found, x', r)" and "\<not> busy (wd_queue (ds_work x)) (w_agent w)"
  shows "keeps_turn (w_agent w) x x' r"
  using assms
  by (auto simp: resume_wait_def Let_def split: sum.splits dest!: dispatched_grown)
    (auto simp: keeps_turn_def desk_writes desk_input_def intro: persisted_grown linked_grown)

lemma start_sample_keeps:
  assumes "start_sample e dmn ag th y sub agent t x x0 = (found, x', r)" and "\<not> busy (wd_queue (ds_work x)) agent"
    and "keeps_turn agent x x0 None"
  shows "keeps_turn agent x x' r"
  using assms
  by (auto simp: start_sample_def Let_def split: sum.splits dest!: dispatched_grown)
    (auto simp: keeps_turn_def desk_writes desk_input_def intro: persisted_grown linked_grown)

lemma review_keeps:
  assumes "dispatch_task_review e f skip locked x = (found, x', r)"
  shows "\<exists>a. keeps_turn a x x' r"
proof (cases "choose_review e skip x")
  case (Some v)
  have start: "keeps_turn (d_reviewer v) x x' r"
    if "start_review e dmn ag th v s t (bind_daemon b x) = (found, x', r)" "\<not> busy (wd_queue (ds_work x)) (d_reviewer v)"
    for dmn ag th s t b
    using start_review_keeps [OF that(1)] that(2) by (simp add: keeps_bind)
  from Some assms show ?thesis
    by (intro exI [of _ "d_reviewer v"])
      (auto simp: dispatch_task_review_def split: option.splits sum.splits prod.splits if_splits intro: start)
qed (use assms keeps_nothing in \<open>auto simp: dispatch_task_review_def\<close>)

lemma wait_keeps:
  assumes "desk_wait e f skip locked x = (found, x', r)"
  shows "\<exists>a. keeps_turn a x x' r"
proof (cases "next_ready_wait (board_now e) (wait_desk e skip x) (board_of (ds_work x))")
  case (Some w)
  have start: "keeps_turn (w_agent w) x x' r"
    if "resume_wait e dmn ag th w t (bind_daemon b x) = (found, x', r)" "desk_turn e x (w_agent w) ''wait'' (w_id w)"
    for dmn ag th t b
    using resume_wait_keeps [OF that(1)] turn_is_idle [OF that(2)] by (simp add: keeps_bind)
  from Some assms show ?thesis
    by (intro exI [of _ "w_agent w"])
      (auto simp: desk_wait_def Let_def split: option.splits sum.splits prod.splits if_splits intro: start)
qed (use assms keeps_nothing in \<open>auto simp: desk_wait_def\<close>)

lemma take_sample_keeps:
  assumes "take_sample e f y agent t x x0 = (found, x', r)" and "\<not> busy (wd_queue (ds_work x)) agent"
    and "keeps_turn agent x x0 None"
  shows "keeps_turn agent x x' r"
proof -
  have undo: "keeps_turn agent x (bind_daemon b x0) None" for b
    using assms(3) by (simp add: keeps_turn_def bind_daemon_def)
  have start: "keeps_turn agent x x' r"
    if "start_sample e dmn ag th y sub agent t x1 (bind_daemon b x0) = (found, x', r)"
      "x1 = bind_daemon b x \<or> (\<exists>h. x1 = set_sample (t_id t) h (bind_daemon b x))" for dmn ag th sub x1 b
    using start_sample_keeps [OF that(1)] assms(2) undo that(2) by (auto simp: keeps_bind keeps_sample)
  from assms(1) show ?thesis
    by (auto simp: take_sample_def Let_def split: option.splits sum.splits prod.splits if_splits intro: start)
qed

text \<open>Closing samples leaves the queue and the rows.\<close>

lemma closed_keeps: "close_samples e P why x = Some x' \<Longrightarrow> keeps_turn a x x' None"
proof -
  have step: "keeps_turn a x y' None" if "close_sample e why (Some y) z = Some y'" "keeps_turn a x y None" for y y' z
    using that by (auto simp: close_sample_def keeps_turn_def set_board_def split: option.splits)
  have "keeps_turn a x x' None" if "foldl (close_sample e why) (Some y) zs = Some x'" "keeps_turn a x y None" for y zs
    using that
  proof (induction zs arbitrary: y)
    case (Cons z zs)
    show ?case
    proof (cases "close_sample e why (Some y) z")
      case None
      have "foldl (close_sample e why) None zs = None" by (induction zs) (simp_all add: close_sample_def)
      with Cons.prems(1) None show ?thesis by simp
    next
      case (Some y')
      with Cons show ?thesis using step [OF Some] by simp
    qed
  qed simp
  then show "close_samples e P why x = Some x' \<Longrightarrow> keeps_turn a x x' None"
    by (simp add: close_samples_def)
qed

lemma keeps_from: "keeps_turn a x y None \<Longrightarrow> keeps_turn b y x' r \<Longrightarrow> keeps_turn b x x' r"
  by (auto simp: keeps_turn_def split: option.splits)

lemma selection_cases:
  assumes "dispatch_selection_task e f skip locked x0 = (found, x', r)"
  obtains (kept) a where "keeps_turn a x0 x' r"
  | (told) x where "keeps_turn [] x0 x None" "notify_selection_outcome e x = (found, x')" "r = None"
proof (cases "close_samples e (blocked_sample skip x0) ''Candidate failed; no accepted output is available to consume'' x0")
  case None
  then show ?thesis using assms kept [of "[]"] by (simp add: dispatch_selection_task_def)
next
  case x1: (Some x1)
  show ?thesis
  proof (cases "close_samples e (exhausted_sample e skip x1) ''Execution attempts exhausted without an accepted delivery'' x1")
    case None
    then show ?thesis using assms x1 kept [of "[]"] by (simp add: dispatch_selection_task_def)
  next
    case x: (Some x)
    have k: "keeps_turn a x0 x None" for a using keeps_from [OF closed_keeps [OF x1, of a] closed_keeps [OF x]] .
    then have undo: "keeps_turn a x x0 None" for a by (simp add: keeps_turn_def)
    show ?thesis
    proof (cases "choose_sample e skip x")
      case None
      then show ?thesis using assms x1 x told [OF k] by (auto simp: dispatch_selection_task_def split: prod.splits)
    next
      case (Some yat)
      obtain y agent t where yat: "yat = (y, agent, t)" by (cases yat)
      show ?thesis
      proof (cases "\<not> locked \<or> busy (wd_queue (ds_work x)) agent \<or> \<not> desk_turn e x agent ''selection'' (t_id t)")
        case True
        then show ?thesis using assms x1 x Some yat kept [of "[]"] by (auto simp: dispatch_selection_task_def)
      next
        case False
        then have "take_sample e f y agent t x x0 = (found, x', r)" using assms x1 x Some yat by (simp add: dispatch_selection_task_def)
        from take_sample_keeps [OF this _ undo] False kept keeps_from [OF k] show ?thesis by blast
      qed
    qed
  qed
qed

section \<open>One run at a time\<close>

text \<open>
  Everything that moves the inbox: messages and rows of work, the three other dispatchers, and whatever the services of the
  board and of selections write into their tables in between.
\<close>

datatype desk_op =
    OnInbox inbox_op
  | ReviewTurn fleet "id list" bool
  | WaitTurn fleet "id list" bool
  | SelectionTurn fleet "id list" bool
  | TablesWritten db "id \<Rightarrow> time" "selection_row list" "selection_trial list" "selection_sample list"

fun desk_step ::
  "(pending_wake \<Rightarrow> wake_message list \<Rightarrow> task_payload) \<Rightarrow> desk \<Rightarrow> desk_env \<times> desk_op \<Rightarrow> desk" where
  "desk_step pl x (e, OnInbox o1) = x\<lparr>ds_work := inbox_step pl (at_desk e x) (work_env.truncate e, o1)\<rparr>"
| "desk_step pl x (e, ReviewTurn f skip locked) = fst (snd (dispatch_task_review e f skip locked x))"
| "desk_step pl x (e, WaitTurn f skip locked) = fst (snd (desk_wait e f skip locked x))"
| "desk_step pl x (e, SelectionTurn f skip locked) = fst (snd (dispatch_selection_task e f skip locked x))"
| "desk_step pl x (e, TablesWritten d nx ss ts ys) =
     (set_board (\<lambda>_. d) x)\<lparr>ds_next := nx, ds_selections := ss, ds_trials := ts, ds_samples := ys\<rparr>"

lemma alone_told:
  assumes a: "alone agent (ds_work x)" and n: "notify_selection_outcome e x = (found, x')"
  shows "alone agent (ds_work x')"
proof -
  have "alone agent st" if "enqueue_agent_work (work_env.truncate e) q (ds_work x) = Inr st" for q st
  proof -
    have "work_ok (ds_work x)" using a by (simp add: alone_def)
    from enqueue_keeps [OF this that] show ?thesis by (intro alone_same [OF a]) blast+
  qed
  with a n show ?thesis by (auto simp: notify_selection_outcome_def split: option.splits sum.splits)
qed

interpretation desks: op_machine "desk_step pl" "\<lambda>x. alone agent (ds_work x)" for pl agent
proof unfold_locales
  fix x :: desk and o1
  assume a: "alone agent (ds_work x)"
  show "alone agent (ds_work (desk_step pl x o1))"
  proof (cases "(pl, x, o1)" rule: desk_step.cases)
    case (1 pl1 x1 e o2)
    have "alone agent (at_desk e x)" using a by (rule alone_at_desk)
    with inbox.step_inv [of agent "at_desk e x" pl "(work_env.truncate e, o2)"] 1 show ?thesis by simp
  next
    case (2 pl1 x1 e f skip locked)
    obtain found x' r where "dispatch_task_review e f skip locked x = (found, x', r)" by (metis prod_cases3)
    with 2 review_keeps alone_kept [OF a] show ?thesis by fastforce
  next
    case (3 pl1 x1 e f skip locked)
    obtain found x' r where "desk_wait e f skip locked x = (found, x', r)" by (metis prod_cases3)
    with 3 wait_keeps alone_kept [OF a] show ?thesis by fastforce
  next
    case (4 pl1 x1 e f skip locked)
    obtain found x' r where d: "dispatch_selection_task e f skip locked x = (found, x', r)" by (metis prod_cases3)
    then have "alone agent (ds_work x')"
    proof (cases rule: selection_cases)
      case (kept b)
      then show ?thesis by (rule alone_kept [OF a])
    next
      case (told y)
      from alone_told [OF alone_kept [OF a told(1)] told(2)] show ?thesis .
    qed
    with 4 d show ?thesis by simp
  next
    case (5 pl1 x1 e d nx ss ts ys)
    have "alone agent (ds_work x\<lparr>wd_board := d\<rparr>)" using a by (simp add: alone_def work_ok_def)
    with 5 show ?thesis by (simp add: set_board_def set_ds_work_def)
  qed
qed

text \<open>
  C13. All sources of an agent's inbox together start one run at a time: an agent that has at most one unfinished run
  never gets a second one, in whatever order messages are queued and claimed, rows of work are stored, taken and
  dispatched, deliveries are handed to their reviewers, waits are resumed, the tasks of selections are started, runs end or fail,
  attention is changed, and the tables of the board and of selections are written.
\<close>

theorem inbox_starts_one_run_at_a_time:
  assumes "work_ok (ds_work x)" and "queue_ok (wd_queue (ds_work x))" and "unfinished_runs (wd_queue (ds_work x)) agent \<le> 1"
  shows "unfinished_runs (wd_queue (ds_work (foldl (desk_step pl) x ops))) agent \<le> 1"
  using desks.run_inv [of agent x pl ops] assms by (simp add: alone_def)

section \<open>A small desk\<close>

text \<open>An agent with a delivery to review and a wait whose time has come.\<close>

definition dk_task :: "id \<Rightarrow> task_status \<Rightarrow> int \<Rightarrow> id option \<Rightarrow> id option \<Rightarrow> task_row" where
  "dk_task i s v claimer sub =
     \<lparr>t_id = i, t_number = 1, t_channel = Some ''ch'', t_creator = ''u'', t_title = i, t_description = None, t_status = s,
      t_claimer = claimer, t_priority = ''normal'', t_due = None, t_message = None, t_parent = None, t_created = 1, t_updated = 1,
      t_version = v, t_contract = None, t_submission = sub\<rparr>"

definition dk_contract :: task_contract where
  "dk_contract = \<lparr>requirements = [], gate = \<lparr>human_review_mode = [], gate_code = None, gate_kind = ''agent'',
     reviewer_id = ''a'', max_revisions = 1\<rparr>\<rparr>"

definition dk_handoff :: task_handoff where
  "dk_handoff = \<lparr>ho_summary = [], ho_changes = [], ho_risks = [], ho_next_steps = []\<rparr>"

definition dk_board :: db where
  "dk_board = ib_board\<lparr>
     tasks := [dk_task ''t1'' TaskStatusInReview 2 (Some ''b'') (Some ''s1''), dk_task ''t2'' TaskStatusInProgress 1 (Some ''a'') None],
     submissions := [\<lparr>s_id = ''s1'', s_task = ''t1'', s_by = ''b'', s_run = None, s_version = 1, s_contract = dk_contract,
       s_handoff = dk_handoff, s_artifact = [], s_evidence = [], s_key = [], s_hash = [], s_created = 5\<rparr>],
     deliveries := [\<lparr>d_submission = ''s1'', d_reviewer = ''a'', d_run = None, d_attempts = 0\<rparr>],
     waits := [\<lparr>w_id = ''w1'', w_task = ''t2'', w_version = 1, w_agent = ''a'',
       w_condition = \<lparr>wc_kind = ''at_time'', wc_task = [], wc_at = Some 9, wc_description = []\<rparr>, w_handoff = dk_handoff,
       w_next_action = [], w_status = Waiting, w_created_by = ''a'', w_key = [], w_hash = [], w_fulfillment = None, w_reason = [],
       w_run = None, w_next_attempt = 9, w_last_error = [], w_created = 8\<rparr>]\<rparr>"

definition dk_env :: desk_env where
  "dk_env = work_env.extend ib_env
     \<lparr>message_thread = (\<lambda>_ m. Inr m), review_text = (\<lambda>_ _ _. ''review''), wait_text = (\<lambda>_ _. ''go on''), sample_text = (\<lambda>_ _. ''try''),
      cause_text = (\<lambda>_. ''no''), switched_off = []\<rparr>"

definition dk_desk :: desk where
  "dk_desk = \<lparr>ds_work = (ib_state [] [ib_greeting] tk_open)\<lparr>wd_board := dk_board\<rparr>, ds_next = (\<lambda>_. 7), ds_error = (\<lambda>_. []),
     ds_selections = [], ds_trials = [], ds_samples = []\<rparr>"

definition dk_ops :: "(desk_env \<times> desk_op) list" where
  "dk_ops = [(dk_env, WaitTurn ib_fleet [] True), (dk_env, ReviewTurn ib_fleet [] True), (dk_env, WaitTurn ib_fleet [] True),
             (dk_env, SelectionTurn ib_fleet [] True), (dk_env, OnInbox (DispatchWork ib_fleet [] True))]"

text \<open>The review is older than the wait and goes first; while its run lasts, nothing else starts.\<close>

lemma dk_result:
  "map rn_source (desk_runs (ds_work (foldl (desk_step (\<lambda>_ _. mt_payload mq_turn)) dk_desk (take 1 dk_ops)))) = []"
  "map rn_source (desk_runs (ds_work (foldl (desk_step (\<lambda>_ _. mt_payload mq_turn)) dk_desk (take 2 dk_ops)))) = [Some ''claude'']"
  by code_simp+

theorem inbox_starts_one_run_at_a_time_witness:
  "unfinished_runs (wd_queue (ds_work (foldl (desk_step (\<lambda>_ _. mt_payload mq_turn)) dk_desk dk_ops))) ''a'' \<le> 1"
proof -
  have w: "wd_queue (ds_work dk_desk) = ib_queue []" "work_ok (ds_work dk_desk)"
    using ib_ok(2) [of "[]" tk_open] by (simp_all add: dk_desk_def ib_state_def work_ok_def)
  then have "queue_ok (wd_queue (ds_work dk_desk))" "unfinished_runs (wd_queue (ds_work dk_desk)) ''a'' \<le> 1"
    using mq_ok(1) by (simp_all add: queue_ok_def ib_queue_def unfinished_runs_def count_rows_def mq_state_def mw_runs_def)
  with w(2) show ?thesis by (rule inbox_starts_one_run_at_a_time)
qed

end
