(* ===== verification/Automation.thy ===== *)
theory Automation
  imports Task_Retry Task_Delivery
begin

text \<open>
  Recurring tasks (\<open>service/automation.go\<close>, migrations 44, 50 and 66): a definition says when a task is created and
  which agent gets it; every trigger, by the clock or by hand, leaves a run. A run lasts until its task's agent is
  through; triggers that meet a running run only record that they were skipped, and a definition whose last
  three runs failed is disabled.

  The columns a user edits are kept as the input they were written from; its empty target is the column's NULL. \<open>auto_env\<close> has
  the two clocks (\<open>time.Now\<close> and the \<open>now()\<close> of the transaction), the UUIDs of a call, the next message number, the
  zones of \<open>time.LoadLocation\<close>, the configured text of the announcement and what \<open>ResolveDaemonForAgent\<close> answers; ids are
  read as \<open>uuid.Parse\<close> reads them. A statement with \<open>ORDER BY created_at DESC\<close> takes the row inserted last among rows of
  the same time. Broadcasts are left out, and the listings; the run a dispatch answers is its row.
\<close>

section \<open>Definitions and runs\<close>

definition AutomationScheduleDaily :: string where "AutomationScheduleDaily = ''daily''"
definition AutomationScheduleWeekdays :: string where "AutomationScheduleWeekdays = ''weekdays''"
definition AutomationScheduleWeekly :: string where "AutomationScheduleWeekly = ''weekly''"
definition AutomationCompletionAuto :: string where "AutomationCompletionAuto = ''auto_complete''"
definition AutomationCompletionReview :: string where "AutomationCompletionReview = ''review_required''"

lemmas automation_texts =
  AutomationScheduleDaily_def AutomationScheduleWeekdays_def AutomationScheduleWeekly_def
  AutomationCompletionAuto_def AutomationCompletionReview_def

datatype automation_run_status =
  AutomationRunRunning | AutomationRunCompleted | AutomationRunSkipped | AutomationRunFailed

datatype automation_source = Scheduled | Manual

datatype automation_error =
    ErrAutomationNotFound | ErrAutomationNotDue | ErrAutomationTargetMissing
  | ErrAutomationInvalidInput string | ErrAutomationSchedule string | AutomationTaskError task_error
  | ErrAutomationNoRows | ErrAutomationDatabase

record automation_input =
  ai_contract :: "task_contract option"
  ai_name :: string
  ai_title :: string
  ai_description :: string
  ai_target :: id
  ai_type :: string
  ai_hour :: int
  ai_minute :: int
  ai_weekday :: "int option"
  ai_timezone :: string
  ai_policy :: string
  ai_enabled :: bool

record automation_row =
  am_id :: id
  am_channel :: id
  am_creator :: id
  am_input :: automation_input
  am_next :: "time option"
  am_last :: "time option"
  am_updated :: time

record automation_run =
  ar_id :: id
  ar_automation :: id
  ar_source :: automation_source
  ar_status :: automation_run_status
  ar_for :: time
  ar_task :: "id option"
  ar_into :: "id option"
  ar_reason :: "string option"
  ar_created :: time
  ar_completed :: "time option"

record auto_state =
  au_rows :: "automation_row list"
  au_runs :: "automation_run list"
  au_board :: db
  au_tables :: rdb

section \<open>The next occurrence\<close>

text \<open>
  A location is what Go's \<open>lookup\<close> answers for a second since 1970: the offset from UTC and the seconds from which and
  before which it is in force. The calendar enters only by its days, counted from 1970-01-01, a Thursday.
\<close>

type_synonym zone = "int \<Rightarrow> int \<times> int \<times> int"

definition nanos :: int where "nanos = 10 ^ 9"
definition day_length :: int where "day_length = 86400 * nanos"

definition offset_at :: "zone \<Rightarrow> int \<Rightarrow> int" where
  "offset_at z s = fst (z s)"

definition local_time :: "zone \<Rightarrow> time \<Rightarrow> time" where
  "local_time z t = t + offset_at z (t div nanos) * nanos"

text \<open>\<open>time.Date\<close>: the instant at which the clocks of the location show \<open>w\<close>.\<close>

definition date_in :: "zone \<Rightarrow> time \<Rightarrow> time" where
  "date_in z w =
     (case z (w div nanos) of (off, start, end1) \<Rightarrow>
        let utc = w div nanos - off;
            off' = (if off \<noteq> 0 \<and> (utc < start \<or> utc \<ge> end1) then offset_at z utc else off)
        in w - off' * nanos)"

definition day_of :: "zone \<Rightarrow> time \<Rightarrow> int" where
  "day_of z t = local_time z t div day_length"

definition weekday :: "int \<Rightarrow> int" where
  "weekday d = (d + 4) mod 7"

definition add_days :: "zone \<Rightarrow> time \<Rightarrow> int \<Rightarrow> time" where
  "add_days z t n = date_in z (local_time z t + n * day_length)"

definition at_clock :: "zone \<Rightarrow> int \<Rightarrow> int \<Rightarrow> int \<Rightarrow> time" where
  "at_clock z d h m = date_in z (d * day_length + (h * 3600 + m * 60) * nanos)"

definition schedule_matches :: "automation_input \<Rightarrow> int \<Rightarrow> bool option" where
  "schedule_matches i wd =
     (if ai_type i = AutomationScheduleDaily then Some True
      else if ai_type i = AutomationScheduleWeekdays then Some (1 \<le> wd \<and> wd \<le> 5)
      else if ai_type i = AutomationScheduleWeekly then Some (ai_weekday i = Some wd)
      else None)"

fun try_days :: "zone \<Rightarrow> automation_input \<Rightarrow> time \<Rightarrow> int list \<Rightarrow> automation_error + time" where
  "try_days z i after [] = Inl (ErrAutomationSchedule ''could not compute next schedule'')"
| "try_days z i after (n # ns) =
     (let c = at_clock z (day_of z (add_days z after n)) (ai_hour i) (ai_minute i) in
      if c \<le> after then try_days z i after ns
      else
        (case schedule_matches i (weekday (day_of z c)) of
           None \<Rightarrow> Inl (ErrAutomationSchedule ''invalid schedule type'')
         | Some True \<Rightarrow> Inr c
         | Some False \<Rightarrow> try_days z i after ns))"

definition next_scheduled_at ::
    "(string \<Rightarrow> zone option) \<Rightarrow> automation_input \<Rightarrow> time \<Rightarrow> automation_error + time" where
  "next_scheduled_at zones i after =
     (case zones (ai_timezone i) of
        None \<Rightarrow> Inl (ErrAutomationSchedule ''invalid timezone'')
      | Some z \<Rightarrow> try_days z i after [0, 1, 2, 3, 4, 5, 6, 7, 8])"

section \<open>Editing definitions\<close>

record auto_env =
  go_now :: time
  sql_now :: time
  task_env :: env
  locations :: "string \<Rightarrow> zone option"
  run_uuid :: id
  task_uuid :: id
  message_uuid :: id
  thread_uuid :: id
  message_seq :: int
  task_created_text :: string
  daemon_found :: "id \<Rightarrow> bool"

definition agent_in_channel :: "db \<Rightarrow> id \<Rightarrow> id \<Rightarrow> bool" where
  "agent_in_channel d ch agent \<longleftrightarrow>
     exists_row (\<lambda>a. a_id a = agent \<and> a_active a \<and>
       exists_row (\<lambda>m. m_type m = ''agent'' \<and> m_member m = a_id a \<and> m_channel m = ch) (members d)) (agents d)"

definition trim_input :: "automation_input \<Rightarrow> automation_input" where
  "trim_input i =
     i\<lparr>ai_name := trim_space (ai_name i), ai_title := trim_space (ai_title i),
       ai_description := trim_space (ai_description i), ai_target := trim_space (ai_target i),
       ai_type := trim_space (ai_type i), ai_timezone := trim_space (ai_timezone i),
       ai_policy := trim_space (ai_policy i)\<rparr>"

text \<open>The target is compared as a UUID: text that is none is an error of the database.\<close>

definition validate_input :: "auto_env \<Rightarrow> db \<Rightarrow> id \<Rightarrow> automation_input \<Rightarrow> automation_error + automation_input" where
  "validate_input a d ch i0 =
     (let i = trim_input i0;
          i' = (if ai_type i = AutomationScheduleWeekly then i else i\<lparr>ai_weekday := None\<rparr>)
      in
      if ai_name i = [] \<or> length (ai_name i) > 120
      then Inl (ErrAutomationInvalidInput ''automation name is required and must be at most 120 characters'')
      else if ai_title i = [] \<or> length (ai_title i) > 500
      then Inl (ErrAutomationInvalidInput ''task title is required and must be at most 500 characters'')
      else if length (ai_description i) > 10000
      then Inl (ErrAutomationInvalidInput ''task description must be at most 10000 characters'')
      else if ai_hour i < 0 \<or> ai_hour i > 23 \<or> ai_minute i < 0 \<or> ai_minute i > 59
      then Inl (ErrAutomationInvalidInput ''invalid schedule time'')
      else if ai_type i \<notin> {AutomationScheduleDaily, AutomationScheduleWeekdays, AutomationScheduleWeekly}
      then Inl (ErrAutomationInvalidInput ''invalid schedule type'')
      else if ai_type i = AutomationScheduleWeekly \<and>
              (case ai_weekday i of None \<Rightarrow> True | Some wd \<Rightarrow> wd < 0 \<or> wd > 6)
      then Inl (ErrAutomationInvalidInput ''weekly schedule requires a weekday'')
      else if locations a (ai_timezone i) = None
      then Inl (ErrAutomationInvalidInput ''invalid timezone'')
      else if ai_policy i \<notin> {AutomationCompletionAuto, AutomationCompletionReview}
      then Inl (ErrAutomationInvalidInput ''invalid completion policy'')
      else
        (case uuid_parse (task_env a) (ai_target i) of
           None \<Rightarrow> Inl ErrAutomationDatabase
         | Some agent \<Rightarrow>
             if \<not> agent_in_channel d ch agent then Inl ErrAutomationTargetMissing
             else Inr (i'\<lparr>ai_target := agent\<rparr>)))"

definition valid_contract :: "auto_env \<Rightarrow> db \<Rightarrow> id \<Rightarrow> id \<Rightarrow> task_contract option \<Rightarrow> automation_error + task_contract option" where
  "valid_contract a d ch u c =
     (case c of
        None \<Rightarrow> Inr None
      | Some c0 \<Rightarrow> map_sum AutomationTaskError Some (validate_task_contract (task_env a) d ch u c0))"

definition first_run_at :: "auto_env \<Rightarrow> automation_input \<Rightarrow> automation_error + time option" where
  "first_run_at a i =
     (if ai_enabled i then map_sum id Some (next_scheduled_at (locations a) i (go_now a)) else Inr None)"

text \<open>\<open>Get\<close>, of which the callers here need whether it succeeds.\<close>

definition get_automation :: "auto_state \<Rightarrow> id \<Rightarrow> id \<Rightarrow> id \<Rightarrow> automation_error + automation_row" where
  "get_automation st ch aid u =
     (case require_channel_member (au_board st) ch u of
        Some err \<Rightarrow> Inl (AutomationTaskError err)
      | None \<Rightarrow>
          (case find (\<lambda>r. am_id r = aid \<and> am_channel r = ch) (au_rows st) of
             None \<Rightarrow> Inl ErrAutomationNotFound
           | Some r \<Rightarrow> Inr r))"

definition create_automation ::
    "auto_env \<Rightarrow> id \<Rightarrow> id \<Rightarrow> automation_input \<Rightarrow> auto_state \<Rightarrow> automation_error + auto_state" where
  "create_automation a ch u i st =
     (case require_channel_member (au_board st) ch u of
        Some err \<Rightarrow> Inl (AutomationTaskError err)
      | None \<Rightarrow>
     (case valid_contract a (au_board st) ch u (ai_contract i) of
        Inl err \<Rightarrow> Inl err
      | Inr c \<Rightarrow>
     (let policy = (if c \<noteq> None then AutomationCompletionReview
                    else if ai_policy i = [] then AutomationCompletionAuto else ai_policy i)
      in
      case validate_input a (au_board st) ch (i\<lparr>ai_contract := c, ai_policy := policy\<rparr>) of
        Inl err \<Rightarrow> Inl err
      | Inr i' \<Rightarrow>
     (case first_run_at a i' of
        Inl err \<Rightarrow> Inl err
      | Inr next1 \<Rightarrow>
          if exists_row (\<lambda>r. am_id r = run_uuid a) (au_rows st) then Inl ErrAutomationDatabase
          else Inr (st\<lparr>au_rows := au_rows st @
                 [\<lparr>am_id = run_uuid a, am_channel = ch, am_creator = u, am_input = i', am_next = next1,
                   am_last = None, am_updated = sql_now a\<rparr>]\<rparr>)))))"

text \<open>
  \<open>Update\<close> runs without a transaction: it reads the definition, checks what was asked and reads the clock, and writes,
  and anything may happen in between. A definition that is missing at first is \<open>ErrAutomationNoRows\<close>, the driver's error.
  Only the creator may edit a definition that has, or gets, a contract.
\<close>

definition update_read ::
    "id \<Rightarrow> id \<Rightarrow> id \<Rightarrow> automation_input \<Rightarrow> auto_state \<Rightarrow> automation_error + (id \<times> task_contract option)" where
  "update_read ch aid u i st =
     (case require_channel_member (au_board st) ch u of
        Some err \<Rightarrow> Inl (AutomationTaskError err)
      | None \<Rightarrow>
     (case find (\<lambda>r. am_id r = aid \<and> am_channel r = ch) (au_rows st) of
        None \<Rightarrow> Inl ErrAutomationNoRows
      | Some old \<Rightarrow>
     (let asked = (if ai_contract i = None then ai_contract (am_input old) else ai_contract i)
      in if asked \<noteq> None \<and> am_creator old \<noteq> u then Inl (AutomationTaskError ErrTaskNotCreator)
         else Inr (am_creator old, asked))))"

definition update_check ::
    "auto_env \<Rightarrow> id \<Rightarrow> id \<Rightarrow> id \<times> task_contract option \<Rightarrow> automation_input \<Rightarrow> auto_state \<Rightarrow>
     automation_error + (automation_input \<times> time option)" where
  "update_check a ch aid seen i st =
     (case valid_contract a (au_board st) ch (fst seen) (snd seen) of
        Inl err \<Rightarrow> Inl err
      | Inr c \<Rightarrow>
     (case (if c \<noteq> None then Some AutomationCompletionReview
            else if ai_policy i \<noteq> [] then Some (ai_policy i)
            else map_option (\<lambda>r. ai_policy (am_input r)) (find (\<lambda>r. am_id r = aid \<and> am_channel r = ch) (au_rows st))) of
        None \<Rightarrow> Inl ErrAutomationNotFound
      | Some policy \<Rightarrow>
     (case validate_input a (au_board st) ch (i\<lparr>ai_contract := c, ai_policy := policy\<rparr>) of
        Inl err \<Rightarrow> Inl err
      | Inr i' \<Rightarrow> map_sum id (Pair i') (first_run_at a i'))))"

definition update_write ::
    "auto_env \<Rightarrow> id \<Rightarrow> id \<Rightarrow> automation_input \<times> time option \<Rightarrow> auto_state \<Rightarrow> automation_error + auto_state" where
  "update_write a ch aid checked st =
     (if \<not> exists_row (\<lambda>r. am_id r = aid \<and> am_channel r = ch) (au_rows st) then Inl ErrAutomationNotFound
      else Inr (st\<lparr>au_rows := update_where (\<lambda>r. am_id r = aid \<and> am_channel r = ch)
             (\<lambda>r. r\<lparr>am_input := fst checked, am_next := snd checked, am_updated := sql_now a\<rparr>) (au_rows st)\<rparr>))"

text \<open>The three with nothing in between.\<close>

definition update_automation ::
    "auto_env \<Rightarrow> id \<Rightarrow> id \<Rightarrow> id \<Rightarrow> automation_input \<Rightarrow> auto_state \<Rightarrow> automation_error + auto_state" where
  "update_automation a ch aid u i st =
     (case update_read ch aid u i st of
        Inl err \<Rightarrow> Inl err
      | Inr seen \<Rightarrow>
     (case update_check a ch aid seen i st of
        Inl err \<Rightarrow> Inl err
      | Inr checked \<Rightarrow> update_write a ch aid checked st))"

definition delete_automation :: "id \<Rightarrow> id \<Rightarrow> id \<Rightarrow> auto_state \<Rightarrow> automation_error + auto_state" where
  "delete_automation ch aid u st =
     (case require_channel_member (au_board st) ch u of
        Some err \<Rightarrow> Inl (AutomationTaskError err)
      | None \<Rightarrow>
          if \<not> exists_row (\<lambda>r. am_id r = aid \<and> am_channel r = ch) (au_rows st) then Inl ErrAutomationNotFound
          else Inr (st\<lparr>au_rows := delete_where (\<lambda>r. am_id r = aid \<and> am_channel r = ch) (au_rows st),
                      au_runs := delete_where (\<lambda>r. ar_automation r = aid) (au_runs st)\<rparr>))"

section \<open>What becomes of runs\<close>

definition end_run :: "time \<Rightarrow> automation_run_status \<Rightarrow> string \<Rightarrow> automation_run \<Rightarrow> automation_run" where
  "end_run t s reason r = r\<lparr>ar_status := s, ar_reason := Some reason, ar_completed := Some t\<rparr>"

definition complete_run :: "time \<Rightarrow> automation_run \<Rightarrow> automation_run" where
  "complete_run t r = r\<lparr>ar_status := AutomationRunCompleted, ar_completed := Some t\<rparr>"

definition task_of_run :: "db \<Rightarrow> automation_run \<Rightarrow> task_row option" where
  "task_of_run d r = (case ar_task r of None \<Rightarrow> None | Some tid \<Rightarrow> row_by t_id tid (tasks d))"

text \<open>A task with a contract decides about its run by its own status.\<close>

definition settled_by_contract :: "db \<Rightarrow> automation_run \<Rightarrow> bool" where
  "settled_by_contract d r \<longleftrightarrow>
     ar_status r = AutomationRunRunning \<and>
     (case task_of_run d r of None \<Rightarrow> False | Some t \<Rightarrow> t_contract t \<noteq> None \<and> terminal_statuses (t_status t))"

definition settle_by_contract :: "time \<Rightarrow> db \<Rightarrow> automation_run \<Rightarrow> automation_run" where
  "settle_by_contract t d r =
     (case task_of_run d r of
        None \<Rightarrow> r
      | Some x \<Rightarrow>
          if t_status x = TaskStatusDone then end_run t AutomationRunCompleted [] r
          else end_run t AutomationRunFailed ''task_closed'' r)"

definition open_children :: "db \<Rightarrow> id \<Rightarrow> bool" where
  "open_children d tid \<longleftrightarrow> exists_row (\<lambda>c. t_parent c = Some tid \<and> \<not> terminal_statuses (t_status c)) (tasks d)"

text \<open>A task without contract, by the runs of its agent: the latest is completed and none is active.\<close>

definition agent_is_through :: "db \<Rightarrow> rdb \<Rightarrow> automation_run \<Rightarrow> bool" where
  "agent_is_through d rd r \<longleftrightarrow>
     ar_status r = AutomationRunRunning \<and>
     (case task_of_run d r of
        None \<Rightarrow> False
      | Some t \<Rightarrow>
          t_contract t = None \<and> \<not> open_children d (t_id t) \<and>
          map_option rn_status (latest_primary_run rd (t_id t)) = Some AgentRunStatusCompleted \<and>
          \<not> exists_row (\<lambda>x. is_active_agent_run_status (rn_status x)) (primary_runs rd (t_id t)))"

definition returned_to_human :: "db \<Rightarrow> automation_run \<Rightarrow> bool" where
  "returned_to_human d r \<longleftrightarrow>
     ar_status r = AutomationRunRunning \<and>
     (case task_of_run d r of None \<Rightarrow> False | Some t \<Rightarrow> t_status t = TaskStatusTodo \<and> t_claimer t = None)"

definition completion_policy :: "auto_state \<Rightarrow> id \<Rightarrow> string option" where
  "completion_policy st tid =
     (case find (\<lambda>r. ar_task r = Some tid \<and> ar_status r = AutomationRunCompleted \<and>
                  row_by am_id (ar_automation r) (au_rows st) \<noteq> None) (au_runs st) of
        None \<Rightarrow> None
      | Some r \<Rightarrow> map_option (\<lambda>m. ai_policy (am_input m)) (row_by am_id (ar_automation r) (au_rows st)))"

definition update_completed_automation_task :: "auto_env \<Rightarrow> id \<Rightarrow> auto_state \<Rightarrow> auto_state option" where
  "update_completed_automation_task a tid st =
     (case completion_policy st tid of
        None \<Rightarrow> Some st
      | Some policy \<Rightarrow>
          map_option (\<lambda>(d, _). st\<lparr>au_board := d\<rparr>)
            (update_task tid
               (\<lambda>t. (t_status t = TaskStatusInProgress \<or> t_status t = TaskStatusTodo) \<and> t_contract t = None \<and>
                    \<not> open_children (au_board st) tid)
               (\<lambda>t. t\<lparr>t_status := (if policy = AutomationCompletionAuto then TaskStatusDone else TaskStatusInReview),
                       t_updated := sql_now a\<rparr>)
               (au_board st)))"

fun update_completed :: "auto_env \<Rightarrow> id list \<Rightarrow> auto_state \<Rightarrow> auto_state option" where
  "update_completed a [] st = Some st"
| "update_completed a (tid # tids) st =
     (case update_completed_automation_task a tid st of
        None \<Rightarrow> None
      | Some st' \<Rightarrow> update_completed a tids st')"

text \<open>
  The statements \<open>reconcileRuns\<close> and \<open>reconcileAutomationRunTx\<close> share, over the runs \<open>mine\<close> selects. \<open>None\<close> is the
  exception of a trigger.
\<close>

definition reconcile :: "auto_env \<Rightarrow> (automation_run \<Rightarrow> bool) \<Rightarrow> auto_state \<Rightarrow> auto_state option" where
  "reconcile a mine st =
     (let d = au_board st; t = sql_now a;
          runs1 = update_where (\<lambda>r. mine r \<and> settled_by_contract d r) (settle_by_contract t d) (au_runs st);
          through = (\<lambda>r. mine r \<and> agent_is_through d (au_tables st) r);
          completed = map (\<lambda>r. coalesce (ar_task r)) (filter through runs1);
          runs2 = update_where through (complete_run t) runs1
      in
      case update_completed a completed (st\<lparr>au_runs := runs2\<rparr>) of
        None \<Rightarrow> None
      | Some st' \<Rightarrow>
          Some (st'\<lparr>au_runs := update_where (\<lambda>r. mine r \<and> returned_to_human (au_board st') r)
                      (end_run t AutomationRunFailed ''task_returned_to_human'') (au_runs st')\<rparr>))"

definition minute :: int where "minute = 60 * nanos"

definition task_is_missing :: "time \<Rightarrow> automation_run \<Rightarrow> bool" where
  "task_is_missing t r \<longleftrightarrow> ar_status r = AutomationRunRunning \<and> ar_task r = None \<and> ar_created r < t - minute"

definition reconcile_runs :: "auto_env \<Rightarrow> auto_state \<Rightarrow> auto_state option" where
  "reconcile_runs a st =
     map_option (\<lambda>st'. st'\<lparr>au_runs := update_where (task_is_missing (sql_now a))
                             (end_run (sql_now a) AutomationRunFailed ''task_missing'') (au_runs st')\<rparr>)
       (reconcile a (\<lambda>_. True) st)"

definition reconcile_automation_run :: "auto_env \<Rightarrow> id \<Rightarrow> auto_state \<Rightarrow> auto_state option" where
  "reconcile_automation_run a aid st = reconcile a (\<lambda>r. ar_automation r = aid) st"

text \<open>\<open>pauseRepeatedFailures\<close>: the last three runs, triggers that met a running run aside.\<close>

definition latest_first :: "automation_run list \<Rightarrow> automation_run list" where
  "latest_first rs = sort_key (\<lambda>r. - ar_created r) (rev rs)"

definition relevant_run :: "id \<Rightarrow> automation_run \<Rightarrow> bool" where
  "relevant_run aid r \<longleftrightarrow>
     ar_automation r = aid \<and>
     (ar_status r = AutomationRunSkipped \<longrightarrow> ar_reason r \<noteq> None \<and> ar_reason r \<noteq> Some ''already_running'')"

definition failing :: "automation_run list \<Rightarrow> id \<Rightarrow> bool" where
  "failing rs aid \<longleftrightarrow>
     (let recent = take 3 (latest_first (filter (relevant_run aid) rs)) in
      length recent = 3 \<and> list_all (\<lambda>r. ar_status r \<in> {AutomationRunFailed, AutomationRunSkipped}) recent)"

definition pause_repeated_failures :: "auto_env \<Rightarrow> auto_state \<Rightarrow> auto_state" where
  "pause_repeated_failures a st =
     st\<lparr>au_rows := update_where (\<lambda>m. ai_enabled (am_input m) \<and> failing (au_runs st) (am_id m))
           (\<lambda>m. m\<lparr>am_input := (am_input m)\<lparr>ai_enabled := False\<rparr>, am_next := None, am_updated := sql_now a\<rparr>)
           (au_rows st)\<rparr>"

section \<open>Dispatch\<close>

datatype dispatch_outcome =
    DispatchRefused automation_error
  | DispatchCoalesced automation_run
  | DispatchSkipped automation_run
  | DispatchStarted id id

definition insert_automation_run :: "automation_run \<Rightarrow> auto_state \<Rightarrow> automation_error + auto_state" where
  "insert_automation_run r st =
     (if exists_row (\<lambda>x. ar_id x = ar_id r) (au_runs st) \<or>
         ar_status r = AutomationRunRunning \<and>
           exists_row (\<lambda>x. ar_automation x = ar_automation r \<and> ar_status x = AutomationRunRunning) (au_runs st)
      then Inl ErrAutomationDatabase
      else Inr (st\<lparr>au_runs := au_runs st @ [r]\<rparr>))"

definition skipped_run ::
    "auto_env \<Rightarrow> id \<Rightarrow> automation_source \<Rightarrow> time \<Rightarrow> id option \<Rightarrow> string \<Rightarrow> automation_run" where
  "skipped_run a aid source for1 into1 reason =
     \<lparr>ar_id = run_uuid a, ar_automation = aid, ar_source = source, ar_status = AutomationRunSkipped, ar_for = for1,
      ar_task = None, ar_into = into1, ar_reason = Some reason, ar_created = sql_now a,
      ar_completed = Some (sql_now a)\<rparr>"

definition running_run :: "auto_env \<Rightarrow> id \<Rightarrow> automation_source \<Rightarrow> time \<Rightarrow> automation_run" where
  "running_run a aid source for1 =
     \<lparr>ar_id = run_uuid a, ar_automation = aid, ar_source = source, ar_status = AutomationRunRunning, ar_for = for1,
      ar_task = Some (task_uuid a), ar_into = None, ar_reason = None, ar_created = sql_now a, ar_completed = None\<rparr>"

definition set_definition :: "id \<Rightarrow> (automation_row \<Rightarrow> automation_row) \<Rightarrow> auto_state \<Rightarrow> auto_state" where
  "set_definition aid f st = st\<lparr>au_rows := update_where (\<lambda>m. am_id m = aid) f (au_rows st)\<rparr>"

definition touch_last :: "time \<Rightarrow> automation_row \<Rightarrow> automation_row" where
  "touch_last t m = m\<lparr>am_last := Some t, am_updated := t\<rparr>"

text \<open>The occurrence a dispatch is for; a scheduled one moves the definition to its next occurrence.\<close>

definition take_occurrence ::
    "auto_env \<Rightarrow> automation_row \<Rightarrow> automation_source \<Rightarrow> auto_state \<Rightarrow> automation_error + time \<times> auto_state" where
  "take_occurrence a m source st =
     (case source of
        Manual \<Rightarrow> Inr (go_now a, st)
      | Scheduled \<Rightarrow>
          (case am_next m of
             None \<Rightarrow> Inl ErrAutomationNotDue
           | Some due1 \<Rightarrow>
               if \<not> ai_enabled (am_input m) \<or> due1 > go_now a then Inl ErrAutomationNotDue
               else
                 (case next_scheduled_at (locations a) (am_input m) (go_now a) of
                    Inl err \<Rightarrow> Inl err
                  | Inr next1 \<Rightarrow>
                      Inr (due1, set_definition (am_id m)
                                   (\<lambda>m. m\<lparr>am_next := Some next1, am_updated := sql_now a\<rparr>) st))))"

definition target_available :: "auto_env \<Rightarrow> db \<Rightarrow> id \<Rightarrow> id \<Rightarrow> bool" where
  "target_available a d ch agent \<longleftrightarrow> agent_in_channel d ch agent \<and> daemon_found a agent"

definition announcement :: "auto_env \<Rightarrow> automation_row \<Rightarrow> nat \<Rightarrow> message_row" where
  "announcement a m n =
     \<lparr>msg_id = message_uuid a, msg_channel = am_channel m,
      msg_content = [CHR 0xF0, CHR 0x9F, CHR 0x93, CHR 0x8B] @ '' Task #'' @ nat_text n @ '' '' @ task_created_text a @
                    '': '' @ ai_title (am_input m),
      msg_sender_type = ''system'', msg_sender = ''00000000-0000-0000-0000-000000000000'',
      msg_deleted = False, msg_in_thinking = False\<rparr>"

definition automation_task :: "auto_env \<Rightarrow> automation_row \<Rightarrow> nat \<Rightarrow> task_row" where
  "automation_task a m n =
     \<lparr>t_id = task_uuid a, t_number = n, t_channel = Some (am_channel m), t_creator = am_creator m,
      t_title = ai_title (am_input m), t_description = nullable (ai_description (am_input m)),
      t_status = TaskStatusInProgress, t_claimer = Some (ai_target (am_input m)), t_priority = ''normal'',
      t_due = None, t_message = Some (message_uuid a), t_parent = None, t_created = go_now a,
      t_updated = go_now a, t_version = 1, t_contract = ai_contract (am_input m), t_submission = None\<rparr>"

text \<open>The message in the channel, its thread and the task.\<close>

definition create_automation_task :: "auto_env \<Rightarrow> automation_row \<Rightarrow> auto_state \<Rightarrow> automation_error + auto_state" where
  "create_automation_task a m st =
     (let d = au_board st; rd = au_tables st; n = next_task_number d (Some (am_channel m)) in
      if exists_row (\<lambda>x. msg_id x = message_uuid a) (messages d) \<or>
         exists_row (\<lambda>x. th_id x = thread_uuid a \<or> th_root x = message_uuid a) (threads rd)
      then Inl ErrAutomationDatabase
      else
        (case insert_task (automation_task a m n) (d\<lparr>messages := messages d @ [announcement a m n]\<rparr>) of
           Inl err \<Rightarrow> Inl (AutomationTaskError err)
         | Inr d' \<Rightarrow>
             Inr (st\<lparr>au_board := d',
                     au_tables := rd\<lparr>threads := threads rd @
                                       [\<lparr>th_id = thread_uuid a, th_channel = am_channel m, th_root = message_uuid a\<rparr>],
                                     message_seqs := message_seqs rd @ [(message_uuid a, message_seq a)]\<rparr>\<rparr>)))"

text \<open>The run is inserted before its task and gets the task's id in the same transaction; it is written here at once.\<close>

definition start_automation_run ::
    "auto_env \<Rightarrow> automation_row \<Rightarrow> automation_source \<Rightarrow> time \<Rightarrow> auto_state \<Rightarrow> automation_error + auto_state" where
  "start_automation_run a m source for1 st =
     (case insert_automation_run (running_run a (am_id m) source for1) st of
        Inl err \<Rightarrow> Inl err
      | Inr st1 \<Rightarrow>
          (case create_automation_task a m st1 of
             Inl err \<Rightarrow> Inl err
           | Inr st2 \<Rightarrow> Inr (set_definition (am_id m) (touch_last (go_now a)) st2)))"

definition record_skip ::
    "auto_env \<Rightarrow> automation_row \<Rightarrow> automation_run \<Rightarrow> auto_state \<Rightarrow> automation_error + auto_state" where
  "record_skip a m r st = map_sum id (set_definition (am_id m) (touch_last (sql_now a))) (insert_automation_run r st)"

definition active_run :: "id \<Rightarrow> auto_state \<Rightarrow> automation_run option" where
  "active_run aid st =
     (case latest_first (filter (\<lambda>r. ar_automation r = aid \<and> ar_status r = AutomationRunRunning) (au_runs st)) of
        [] \<Rightarrow> None
      | r # _ \<Rightarrow> Some r)"

text \<open>The transaction of a dispatch: an error rolls it back.\<close>

definition dispatch_tx ::
    "auto_env \<Rightarrow> id \<Rightarrow> automation_source \<Rightarrow> auto_state \<Rightarrow> automation_error + auto_state \<times> dispatch_outcome" where
  "dispatch_tx a aid source st =
     (case row_by am_id aid (au_rows st) of
        None \<Rightarrow> Inl ErrAutomationNotFound
      | Some m \<Rightarrow>
     (case take_occurrence a m source st of
        Inl err \<Rightarrow> Inl err
      | Inr (for1, st1) \<Rightarrow>
     (case reconcile_automation_run a aid st1 of
        None \<Rightarrow> Inl ErrAutomationDatabase
      | Some st2 \<Rightarrow>
     (case active_run aid st2 of
        Some r0 \<Rightarrow>
          (let r = skipped_run a aid source for1 (Some (ar_id r0)) ''already_running'' in
           map_sum id (\<lambda>st'. (st', DispatchCoalesced r)) (record_skip a m r st2))
      | None \<Rightarrow>
          if ai_target (am_input m) = [] \<or>
             \<not> target_available a (au_board st2) (am_channel m) (ai_target (am_input m))
          then
            (let r = skipped_run a aid source for1 None ''target_unavailable'' in
             map_sum id (\<lambda>st'. (st', DispatchSkipped r)) (record_skip a m r st2))
          else
            map_sum id (\<lambda>st'. (st', DispatchStarted (run_uuid a) (task_uuid a)))
              (start_automation_run a m source for1 st2)))))"

definition fail_dispatched_task :: "auto_env \<Rightarrow> id \<Rightarrow> id \<Rightarrow> auto_state \<Rightarrow> auto_state" where
  "fail_dispatched_task a rid tid st =
     (case update_task tid (\<lambda>t. t_status t = TaskStatusInProgress)
             (\<lambda>t. t\<lparr>t_status := TaskStatusClosed, t_updated := sql_now a\<rparr>) (au_board st) of
        None \<Rightarrow> st
      | Some (d, _) \<Rightarrow>
          pause_repeated_failures a
            (st\<lparr>au_board := d,
                au_runs := update_where (\<lambda>r. ar_id r = rid \<and> ar_status r = AutomationRunRunning)
                             (end_run (sql_now a) AutomationRunFailed ''dispatch_failed'') (au_runs st)\<rparr>))"

text \<open>
  \<open>dispatch\<close>. After the commit \<open>TriggerAgentForTask\<close> is asked for a run of the agent; it is the parameter \<open>start\<close>: whether
  it could start one and what it leaves of the board and the runs of agents.
\<close>

type_synonym trigger = "id \<Rightarrow> db \<times> rdb \<Rightarrow> bool \<times> db \<times> rdb"

definition dispatch ::
    "trigger \<Rightarrow> auto_env \<Rightarrow> id \<Rightarrow> automation_source \<Rightarrow> auto_state \<Rightarrow> auto_state \<times> dispatch_outcome" where
  "dispatch start a aid source st =
     (case dispatch_tx a aid source st of
        Inl err \<Rightarrow> (st, DispatchRefused err)
      | Inr (st1, out) \<Rightarrow>
          (case out of
             DispatchSkipped r \<Rightarrow> (pause_repeated_failures a st1, out)
           | DispatchStarted rid tid \<Rightarrow>
               (case start tid (au_board st1, au_tables st1) of
                  (started, d, rd) \<Rightarrow>
                    (let st2 = st1\<lparr>au_board := d, au_tables := rd\<rparr> in
                     (if started then st2 else fail_dispatched_task a rid tid st2, out)))
           | _ \<Rightarrow> (st1, out)))"

definition run_now ::
    "trigger \<Rightarrow> auto_env \<Rightarrow> id \<Rightarrow> id \<Rightarrow> id \<Rightarrow> auto_state \<Rightarrow> auto_state \<times> dispatch_outcome" where
  "run_now start a ch aid u st =
     (case get_automation st ch aid u of
        Inl err \<Rightarrow> (st, DispatchRefused err)
      | Inr _ \<Rightarrow> dispatch start a aid Manual st)"

section \<open>The scheduler\<close>

definition due_definitions :: "time \<Rightarrow> auto_state \<Rightarrow> id list" where
  "due_definitions t st =
     take 50 (map am_id (sort_key (\<lambda>m. case am_next m of None \<Rightarrow> 0 | Some x \<Rightarrow> x)
       (filter (\<lambda>m. ai_enabled (am_input m) \<and> (case am_next m of None \<Rightarrow> False | Some x \<Rightarrow> x \<le> t)) (au_rows st))))"

text \<open>
  \<open>Tick\<close>: each statement and each dispatch reads the clock and draws UUIDs of its own; \<open>a\<close> is the environment of the
  reconciliation, the pause and the list of what is due, \<open>da aid\<close> that of the dispatch of \<open>aid\<close>.
\<close>

definition tick :: "trigger \<Rightarrow> auto_env \<Rightarrow> (id \<Rightarrow> auto_env) \<Rightarrow> auto_state \<Rightarrow> auto_state" where
  "tick start a da st =
     (let st1 = (case reconcile_runs a st of None \<Rightarrow> st | Some st' \<Rightarrow> st');
          st2 = pause_repeated_failures a st1
      in foldl (\<lambda>s aid. fst (dispatch start (da aid) aid Scheduled s)) st2 (due_definitions (sql_now a) st2))"

end
