(* ===== verification/Automation_Theorems.thy ===== *)
theory Automation_Theorems
  imports Automation Task_Machine
begin

text \<open>
  Properties of recurring tasks: the next occurrence is the earliest one, an occurrence is run at most once and
  missed ones collapse, a definition has at most one running run, and what ended stays as it ended; then two ways in
  which a definition comes to a standstill.
\<close>

section \<open>The next occurrence\<close>

definition fires :: "zone \<Rightarrow> automation_input \<Rightarrow> time \<Rightarrow> bool" where
  "fires z i t \<longleftrightarrow>
     local_time z t mod day_length = (ai_hour i * 3600 + ai_minute i * 60) * nanos \<and>
     schedule_matches i (weekday (day_of z t)) = Some True"

definition schedule_ok :: "automation_input \<Rightarrow> bool" where
  "schedule_ok i \<longleftrightarrow>
     0 \<le> ai_hour i \<and> ai_hour i \<le> 23 \<and> 0 \<le> ai_minute i \<and> ai_minute i \<le> 59 \<and>
     (ai_type i = AutomationScheduleDaily \<or> ai_type i = AutomationScheduleWeekdays \<or>
      ai_type i = AutomationScheduleWeekly \<and> (\<exists>wd. ai_weekday i = Some wd \<and> 0 \<le> wd \<and> wd \<le> 6))"

lemma try_days_later: "try_days z i after ns = Inr c \<Longrightarrow> after < c"
  by (induction ns) (auto simp: Let_def split: if_splits option.splits bool.splits)

lemma next_scheduled_later: "next_scheduled_at zones i after = Inr c \<Longrightarrow> after < c"
  by (auto simp: next_scheduled_at_def simp del: try_days.simps dest: try_days_later split: option.splits)

text \<open>A location whose clocks are not changed from two days before an instant to eleven days after it.\<close>

definition steady :: "zone \<Rightarrow> int \<Rightarrow> time \<Rightarrow> bool" where
  "steady z k after \<longleftrightarrow>
     - day_length \<le> k * nanos \<and> k * nanos \<le> day_length \<and>
     (\<forall>t. after - 2 * day_length \<le> t \<and> t \<le> after + 11 * day_length \<longrightarrow> offset_at z (t div nanos) = k)"

definition near :: "time \<Rightarrow> time \<Rightarrow> bool" where
  "near after t \<longleftrightarrow> after - 2 * day_length \<le> t \<and> t \<le> after + 11 * day_length"

lemma local_steady: "steady z k after \<Longrightarrow> near after t \<Longrightarrow> local_time z t = t + k * nanos"
  by (simp add: steady_def near_def local_time_def)

lemma date_steady:
  assumes "steady z k after" and "near after w" and "near after (w - k * nanos)"
  shows "date_in z w = w - k * nanos"
proof -
  have "offset_at z (w div nanos) = k" "offset_at z ((w - k * nanos) div nanos) = k"
    using assms by (simp_all add: steady_def near_def)
  moreover have "(w - k * nanos) div nanos = w div nanos - k"
    using div_mult_self1 [of nanos w "- k"] by (simp add: nanos_def)
  ultimately show ?thesis by (simp add: date_in_def offset_at_def Let_def split: prod.split) fastforce
qed

definition clock_time :: "automation_input \<Rightarrow> time" where
  "clock_time i = (ai_hour i * 3600 + ai_minute i * 60) * nanos"

lemma clock_time_range: "schedule_ok i \<Longrightarrow> 0 \<le> clock_time i \<and> clock_time i < day_length"
  by (auto simp: schedule_ok_def clock_time_def day_length_def nanos_def)

lemma day_length_pos: "0 < day_length"
  by (simp add: day_length_def nanos_def)

lemma local_day:
  assumes "steady z k after"
  shows "day_of z after * day_length \<le> after + k * nanos"
    and "after + k * nanos < day_of z after * day_length + day_length"
proof -
  have "near after after" using day_length_pos by (simp add: near_def)
  then have "day_of z after = (after + k * nanos) div day_length" by (simp add: day_of_def local_steady [OF assms])
  then have "day_of z after * day_length + (after + k * nanos) mod day_length = after + k * nanos" by simp
  moreover note pos_mod_sign [OF day_length_pos, of "after + k * nanos"] pos_mod_bound [OF day_length_pos, of "after + k * nanos"]
  ultimately show "day_of z after * day_length \<le> after + k * nanos"
    and "after + k * nanos < day_of z after * day_length + day_length" by linarith+
qed

lemma days_near:
  assumes "0 \<le> n" and "n \<le> 8"
  shows "0 \<le> n * day_length" and "n * day_length \<le> 8 * day_length"
  using assms day_length_pos by simp_all

lemma steady_bounds: "steady z k after \<Longrightarrow> - day_length \<le> k * nanos" "steady z k after \<Longrightarrow> k * nanos \<le> day_length"
  by (simp_all add: steady_def)

lemma candidate_near:
  assumes z: "steady z k after" and i: "schedule_ok i" and n: "0 \<le> n" "n \<le> 8"
  shows "near after ((day_of z after + n) * day_length + clock_time i)"
    and "near after ((day_of z after + n) * day_length + clock_time i - k * nanos)"
  using local_day [OF z] clock_time_range [OF i] days_near [OF n] steady_bounds [OF z]
  unfolding near_def distrib_right by linarith+

lemma candidate_steady:
  assumes z: "steady z k after" and i: "schedule_ok i" and n: "0 \<le> n" "n \<le> 8"
  shows "at_clock z (day_of z (add_days z after n)) (ai_hour i) (ai_minute i) =
         (day_of z after + n) * day_length + clock_time i - k * nanos"
proof -
  have a: "near after after" "near after (after + k * nanos + n * day_length)" "near after (after + n * day_length)"
    using days_near [OF n] steady_bounds [OF z] day_length_pos unfolding near_def by linarith+
  then have "add_days z after n = after + n * day_length"
    using date_steady [OF z, of "after + k * nanos + n * day_length"]
    by (simp add: add_days_def local_steady [OF z])
  then have "day_of z (add_days z after n) = day_of z after + n"
    using a day_length_pos div_mult_self1 [of day_length "after + k * nanos" n]
    by (simp add: day_of_def local_steady [OF z] algebra_simps)
  then show ?thesis
    using date_steady [OF z candidate_near [OF z i n]] by (simp add: at_clock_def clock_time_def)
qed

lemma candidate_day:
  assumes z: "steady z k after" and i: "schedule_ok i" and n: "0 \<le> n" "n \<le> 8"
  shows "day_of z ((day_of z after + n) * day_length + clock_time i - k * nanos) = day_of z after + n"
    and "local_time z ((day_of z after + n) * day_length + clock_time i - k * nanos) mod day_length = clock_time i"
  using clock_time_range [OF i] day_length_pos local_steady [OF z candidate_near(2) [OF z i n]]
  by (simp_all add: day_of_def)

text \<open>The first day of a list at which a definition fires after an instant.\<close>

lemma try_days_first:
  assumes z: "steady z k after" and i: "schedule_ok i" and "\<forall>n \<in> set ns. 0 \<le> n \<and> n \<le> 8"
    and "find (\<lambda>n. after < (day_of z after + n) * day_length + clock_time i - k * nanos \<and>
               schedule_matches i (weekday (day_of z after + n)) = Some True) ns = Some n"
  shows "try_days z i after ns = Inr ((day_of z after + n) * day_length + clock_time i - k * nanos)"
  using assms(3,4)
proof (induction ns)
  case (Cons n' ns)
  have some1: "schedule_matches i wd \<noteq> None" for wd
    using i by (auto simp: schedule_ok_def schedule_matches_def)
  let ?m = "schedule_matches i (weekday (day_of z after + n'))"
  let ?c = "(day_of z after + n') * day_length + clock_time i - k * nanos"
  have eq: "try_days z i after (n' # ns) =
      (if ?c \<le> after then try_days z i after ns
       else (case ?m of None \<Rightarrow> Inl (ErrAutomationSchedule ''invalid schedule type'')
             | Some True \<Rightarrow> Inr ?c | Some False \<Rightarrow> try_days z i after ns))"
    using Cons.prems(1) by (simp add: candidate_steady [OF z i] candidate_day [OF z i])
  show ?case
  proof (cases "after < ?c \<and> ?m = Some True")
    case True
    with Cons.prems(2) have "n' = n" by simp
    with True eq show ?thesis by simp
  next
    case False
    with Cons.prems have "try_days z i after ns = Inr ((day_of z after + n) * day_length + clock_time i - k * nanos)"
      by (intro Cons.IH) auto
    with False eq some1 [of "weekday (day_of z after + n')"] show ?thesis by (cases ?m) (auto split: bool.split)
  qed
qed simp

lemma find_first:
  "find P ns = Some n \<Longrightarrow> sorted ns \<Longrightarrow> n \<in> set ns \<and> P n \<and> (\<forall>n' \<in> set ns. n' < n \<longrightarrow> \<not> P n')"
  by (induction ns) (auto split: if_splits)

lemma some_day_matches:
  assumes "schedule_ok i"
  shows "\<exists>n \<in> set [1, 2, 3, 4, 5, 6, 7]. schedule_matches i (weekday (d + n)) = Some True"
proof -
  have wd: "\<exists>n. n \<in> set [1, 2, 3, 4, 5, 6, 7] \<and> weekday (d + n) = wd" if "0 \<le> wd" "wd \<le> 6" for wd
  proof -
    define x where "x = (wd - d - 5) mod 7"
    have "(d + 5 + x) mod 7 = (d + 5 + (wd - d - 5)) mod 7" unfolding x_def by (rule mod_add_right_eq)
    then have "weekday (d + (x + 1)) = wd" using that by (simp add: weekday_def algebra_simps)
    moreover have "0 \<le> x" "x < 7" by (simp_all add: x_def)
    then have "x + 1 \<in> set [1, 2, 3, 4, 5, 6, 7]" by auto
    ultimately show ?thesis by blast
  qed
  consider "ai_type i = AutomationScheduleDaily" | "ai_type i = AutomationScheduleWeekdays"
    | wd where "ai_type i = AutomationScheduleWeekly" "ai_weekday i = Some wd" "0 \<le> wd" "wd \<le> 6"
    using assms by (auto simp: schedule_ok_def)
  then show ?thesis
  proof cases
    case 1
    then show ?thesis by (intro bexI [of _ 1]) (simp_all add: schedule_matches_def)
  next
    case 2
    obtain n where "n \<in> set [1, 2, 3, 4, 5, 6, 7]" "weekday (d + n) = 1" using wd [of 1] by (metis zero_le_one one_le_numeral)
    with 2 show ?thesis by (intro bexI [of _ n]) (simp_all add: schedule_matches_def automation_texts)
  next
    case 3
    with wd [of wd] obtain n where "n \<in> set [1, 2, 3, 4, 5, 6, 7]" "weekday (d + n) = wd" by blast
    with 3 show ?thesis by (intro bexI [of _ n]) (simp_all add: schedule_matches_def automation_texts)
  qed
qed

text \<open>
  C26. As long as the clocks of its location are not changed, from two days before the given instant to eleven days after it,
  the next occurrence of a definition is the earliest instant after the given one at which those clocks show the set time
  on a day of its schedule: there always is one within the nine days looked at. (\<open>occurrence_in_gap\<close> is a time
  that a change of the clocks leaves out.)
\<close>

theorem schedule_is_next_match:
  assumes "locations1 (ai_timezone i) = Some z" and "steady z k after" and "schedule_ok i"
  shows "\<exists>c. next_scheduled_at locations1 i after = Inr c \<and> after < c \<and> fires z i c \<and>
             (\<forall>t. after < t \<and> fires z i t \<longrightarrow> c \<le> t)"
proof -
  note z = assms(2) and i = assms(3)
  let ?D = "day_of z after" and ?ns = "[0, 1, 2, 3, 4, 5, 6, 7, 8] :: int list"
  let ?c = "\<lambda>n. (?D + n) * day_length + clock_time i - k * nanos"
  let ?P = "\<lambda>n. after < ?c n \<and> schedule_matches i (weekday (?D + n)) = Some True"
  have later: "after < ?c n" if "n \<ge> 1" for n
  proof -
    have "?D * day_length + day_length \<le> (?D + n) * day_length"
      using that day_length_pos mult_right_mono [of 1 n day_length] by (simp add: algebra_simps)
    with local_day [OF z] clock_time_range [OF i] show ?thesis by linarith
  qed
  obtain n1 where n1: "n1 \<in> set [1, 2, 3, 4, 5, 6, 7]" "schedule_matches i (weekday (?D + n1)) = Some True"
    using some_day_matches [OF i] by blast
  then have "?P n1" "n1 \<in> set ?ns" using later [of n1] by auto
  then obtain n where n: "find ?P ?ns = Some n"
    by (cases "find ?P ?ns") (auto simp only: find_None_iff)
  from try_days_first [OF z i _ n] assms(1) have eq: "next_scheduled_at locations1 i after = Inr (?c n)"
    by (simp add: next_scheduled_at_def del: try_days.simps)
  have "sorted ?ns" by simp
  from find_first [OF n this] have ns: "n \<in> set ?ns" and Pn: "?P n"
    and first: "\<forall>n' \<in> set ?ns. n' < n \<longrightarrow> \<not> ?P n'" by blast+
  have n8: "0 \<le> n" "n \<le> 8" using ns by auto
  have least: "?c n \<le> t" if t: "after < t" "fires z i t" for t
  proof (rule ccontr)
    assume "\<not> ?c n \<le> t"
    with t(1) candidate_near(2) [OF z i n8] have tn: "near after t" using day_length_pos by (simp add: near_def)
    let ?m = "day_of z t - ?D"
    have "local_time z t = day_of z t * day_length + clock_time i"
      using t(2) div_mult_mod_eq [of "local_time z t" day_length] by (simp add: fires_def day_of_def clock_time_def)
    then have tm: "t = ?c ?m" by (simp add: local_steady [OF z tn])
    then have Pm: "?P ?m" using t by (simp add: fires_def)
    have "day_of z t * day_length + day_length > ?D * day_length"
      using tm t(1) local_day(1) [OF z] clock_time_range [OF i] by simp
    then have "(day_of z t + 1) * day_length > ?D * day_length" by (simp add: algebra_simps)
    then have "?m \<ge> 0" using day_length_pos by simp
    have "(?D + ?m) * day_length < (?D + n) * day_length" using \<open>\<not> ?c n \<le> t\<close> tm by linarith
    then have "?m < n" using day_length_pos by simp
    moreover have "?m \<in> set ?ns" using \<open>?m \<ge> 0\<close> \<open>?m < n\<close> n8 by auto
    ultimately show False using first Pm by blast
  qed
  have "fires z i (?c n)" using Pn candidate_day [OF z i n8] by (simp add: fires_def clock_time_def)
  with eq Pn least show ?thesis by blast
qed

section \<open>What the operations leave of the runs\<close>

text \<open>A run is ended once; what a run that has ended still loses is the link to a task that is deleted.\<close>

definition ages :: "automation_run \<Rightarrow> automation_run \<Rightarrow> bool" where
  "ages r r' \<longleftrightarrow>
     r' = r \<or> ar_status r = AutomationRunRunning \<and>
       (\<exists>s reason t. s \<in> {AutomationRunCompleted, AutomationRunFailed} \<and>
          r' = r\<lparr>ar_status := s, ar_reason := reason, ar_completed := Some t\<rparr>)"

lemma ages_refl [simp]: "ages r r"
  by (simp add: ages_def)

lemma ages_trans: "ages r r' \<Longrightarrow> ages r' r'' \<Longrightarrow> ages r r''"
  by (auto simp: ages_def)

lemma ages_end [simp]:
  assumes "ar_status r = AutomationRunRunning"
  shows "s \<in> {AutomationRunCompleted, AutomationRunFailed} \<Longrightarrow> ages r (end_run t s reason r)" and "ages r (complete_run t r)"
proof -
  show "ages r (end_run t s reason r)" if "s \<in> {AutomationRunCompleted, AutomationRunFailed}"
    unfolding ages_def end_run_def using assms that by blast
  have "complete_run t r = r\<lparr>ar_status := AutomationRunCompleted, ar_reason := ar_reason r, ar_completed := Some t\<rparr>"
    by (simp add: complete_run_def)
  then show "ages r (complete_run t r)" unfolding ages_def using assms by blast
qed

lemma ages_columns:
  assumes "ages r r'"
  shows "ar_id r' = ar_id r" and "ar_automation r' = ar_automation r" and "ar_created r' = ar_created r"
    and "ar_for r' = ar_for r" and "ar_source r' = ar_source r" and "ar_task r' = ar_task r"
    and "ar_status r' = AutomationRunRunning \<Longrightarrow> r' = r" and "ar_status r \<noteq> AutomationRunRunning \<Longrightarrow> r' = r"
    and "relevant_run aid r' = relevant_run aid r"
  using assms by (auto simp: ages_def relevant_run_def)

abbreviation aged :: "automation_run list \<Rightarrow> automation_run list \<Rightarrow> bool" where
  "aged \<equiv> list_all2 ages"

lemma aged_refl [simp]: "aged rs rs"
  by (simp add: list_all2_refl)

lemma aged_trans: "aged rs rs' \<Longrightarrow> aged rs' rs'' \<Longrightarrow> aged rs rs''"
  by (rule list_all2_trans [of ages ages ages]) (rule ages_trans)

lemma aged_update: "(\<And>r. P r \<Longrightarrow> ages r (f r)) \<Longrightarrow> aged rs (update_where P f rs)"
  by (auto simp: update_where_def list_all2_map2 intro!: list_all2_refl)

lemma aged_map: "aged rs rs' \<Longrightarrow> (\<And>r r'. ages r r' \<Longrightarrow> g r' = g r) \<Longrightarrow> map g rs' = map g rs"
  by (induction rule: list_all2_induct) simp_all

lemma aged_filter: "aged rs rs' \<Longrightarrow> (\<And>r r'. ages r r' \<Longrightarrow> P r' = P r) \<Longrightarrow> aged (filter P rs) (filter P rs')"
  by (induction rule: list_all2_induct) simp_all

lemma list_all2_in2: "list_all2 P xs ys \<Longrightarrow> y \<in> set ys \<Longrightarrow> \<exists>x \<in> set xs. P x y"
  by (induction rule: list_all2_induct) auto

lemma aged_in: "aged rs rs' \<Longrightarrow> r' \<in> set rs' \<Longrightarrow> \<exists>r \<in> set rs. ages r r'"
  by (rule list_all2_in2)

lemma aged_stays: "aged rs rs' \<Longrightarrow> r \<in> set rs \<Longrightarrow> ar_status r \<noteq> AutomationRunRunning \<Longrightarrow> r \<in> set rs'"
  by (metis list_all2_nthD in_set_conv_nth list_all2_lengthD ages_columns(8))

lemma aged_insort: "aged rs rs' \<Longrightarrow> ages r r' \<Longrightarrow>
    aged (insort_key (\<lambda>r. - ar_created r) r rs) (insort_key (\<lambda>r. - ar_created r) r' rs')"
  by (induction rs rs' rule: list_all2_induct) (simp_all add: ages_columns)

lemma aged_sort: "aged rs rs' \<Longrightarrow> aged (sort_key (\<lambda>r. - ar_created r) rs) (sort_key (\<lambda>r. - ar_created r) rs')"
  by (induction rs rs' rule: list_all2_induct) (simp_all add: aged_insort)

lemma aged_newest: "aged rs rs' \<Longrightarrow> aged (latest_first rs) (latest_first rs')"
  by (simp add: latest_first_def aged_sort)

lemma set_newest [simp]: "set (latest_first rs) = set rs"
  by (simp add: latest_first_def)

lemma failing_aged:
  assumes "aged rs rs'" and "failing rs aid"
  shows "failing rs' aid"
proof -
  let ?new = "\<lambda>rs. take 3 (latest_first (filter (relevant_run aid) rs))"
  have a: "aged (?new rs) (?new rs')"
    by (rule list_all2_takeI, rule aged_newest, rule aged_filter [OF assms(1)], erule ages_columns)
  moreover have "\<forall>r \<in> set (?new rs). ar_status r \<in> {AutomationRunFailed, AutomationRunSkipped}"
    using assms(2) by (simp add: failing_def Let_def list_all_iff)
  ultimately have "list_all (\<lambda>r. ar_status r \<in> {AutomationRunFailed, AutomationRunSkipped}) (?new rs')"
    unfolding list_all_iff by (metis (no_types, lifting) aged_in ages_columns(8) automation_run_status.distinct(3,5) insertE empty_iff)
  then show ?thesis using assms(2) list_all2_lengthD [OF a] by (simp add: failing_def Let_def)
qed

lemma newest_empty [simp]: "latest_first rs = [] \<longleftrightarrow> rs = []"
  by (metis set_newest set_empty)

section \<open>Statements on tasks and runs\<close>

lemma update_completed_task_keeps:
  "update_completed_automation_task a tid st = Some st' \<Longrightarrow>
   au_rows st' = au_rows st \<and> au_runs st' = au_runs st \<and> au_tables st' = au_tables st"
  by (auto simp: update_completed_automation_task_def split: option.splits)

lemma update_completed_keeps:
  "update_completed a tids st = Some st' \<Longrightarrow>
   au_rows st' = au_rows st \<and> au_runs st' = au_runs st \<and> au_tables st' = au_tables st"
  by (induction tids arbitrary: st) (auto split: option.splits dest: update_completed_task_keeps)

lemma reconcile_keeps:
  assumes "reconcile a mine st = Some st'"
  shows "au_rows st' = au_rows st" and "au_tables st' = au_tables st" and "aged (au_runs st) (au_runs st')"
proof -
  let ?d = "au_board st" and ?t = "sql_now a"
  let ?runs1 = "update_where (\<lambda>r. mine r \<and> settled_by_contract ?d r) (settle_by_contract ?t ?d) (au_runs st)"
  let ?through = "\<lambda>r. mine r \<and> agent_is_through ?d (au_tables st) r"
  let ?runs2 = "update_where ?through (complete_run ?t) ?runs1"
  from assms obtain st1 where u: "update_completed a (map (\<lambda>r. coalesce (ar_task r)) (filter ?through ?runs1)) (st\<lparr>au_runs := ?runs2\<rparr>) = Some st1"
    and st': "st' = st1\<lparr>au_runs := update_where (\<lambda>r. mine r \<and> returned_to_human (au_board st1) r)
        (end_run ?t AutomationRunFailed ''task_returned_to_human'') (au_runs st1)\<rparr>"
    by (auto simp: reconcile_def Let_def split: option.splits)
  note k = update_completed_keeps [OF u]
  show "au_rows st' = au_rows st" "au_tables st' = au_tables st" using k st' by simp_all
  have "aged (au_runs st) ?runs1"
    by (rule aged_update) (auto simp: settled_by_contract_def settle_by_contract_def split: option.splits)
  moreover have "aged ?runs1 ?runs2" by (rule aged_update) (simp add: agent_is_through_def)
  moreover have "aged ?runs2 (au_runs st')"
    using k st' by (auto intro!: aged_update simp: returned_to_human_def)
  ultimately show "aged (au_runs st) (au_runs st')" by (blast intro: aged_trans)
qed

lemma reconcile_runs_keeps:
  assumes "reconcile_runs a st = Some st'"
  shows "au_rows st' = au_rows st" and "au_tables st' = au_tables st" and "aged (au_runs st) (au_runs st')"
proof -
  from assms obtain st1 where r: "reconcile a (\<lambda>_. True) st = Some st1" and st': "st' = st1\<lparr>au_runs :=
      update_where (task_is_missing (sql_now a)) (end_run (sql_now a) AutomationRunFailed ''task_missing'') (au_runs st1)\<rparr>"
    by (auto simp: reconcile_runs_def)
  show "au_rows st' = au_rows st" "au_tables st' = au_tables st" using reconcile_keeps [OF r] st' by simp_all
  have "aged (au_runs st1) (au_runs st')" unfolding st' by (auto intro!: aged_update simp: task_is_missing_def)
  with reconcile_keeps(3) [OF r] show "aged (au_runs st) (au_runs st')" by (rule aged_trans)
qed

lemma pause_runs [simp]: "au_runs (pause_repeated_failures a st) = au_runs st" "au_board (pause_repeated_failures a st) = au_board st"
    "au_tables (pause_repeated_failures a st) = au_tables st"
  by (simp_all add: pause_repeated_failures_def)

section \<open>Definitions and their runs\<close>

definition definition_ok :: "automation_row \<Rightarrow> bool" where
  "definition_ok m \<longleftrightarrow> (ai_enabled (am_input m) \<longleftrightarrow> am_next m \<noteq> None)"

definition run_ok :: "automation_run \<Rightarrow> bool" where
  "run_ok r \<longleftrightarrow> (ar_status r = AutomationRunRunning \<longleftrightarrow> ar_completed r = None)"

definition one_running :: "automation_run list \<Rightarrow> bool" where
  "one_running rs \<longleftrightarrow> distinct (map ar_automation (filter (\<lambda>r. ar_status r = AutomationRunRunning) rs))"

definition auto_ok :: "auto_state \<Rightarrow> bool" where
  "auto_ok st \<longleftrightarrow>
     keyed am_id (au_rows st) \<and> list_all definition_ok (au_rows st) \<and>
     keyed ar_id (au_runs st) \<and> list_all run_ok (au_runs st) \<and> one_running (au_runs st)"

lemma running_aged:
  assumes "aged rs rs'"
  shows "ar_automation ` {r \<in> set rs'. ar_status r = AutomationRunRunning} \<subseteq> ar_automation ` {r \<in> set rs. ar_status r = AutomationRunRunning}"
proof
  fix x assume "x \<in> ar_automation ` {r \<in> set rs'. ar_status r = AutomationRunRunning}"
  then obtain r' where r': "r' \<in> set rs'" "ar_status r' = AutomationRunRunning" "x = ar_automation r'" by auto
  from aged_in [OF assms r'(1)] ages_columns(7) r'(2) have "r' \<in> set rs" by metis
  with r' show "x \<in> ar_automation ` {r \<in> set rs. ar_status r = AutomationRunRunning}" by blast
qed

lemma one_running_aged: "aged rs rs' \<Longrightarrow> one_running rs \<Longrightarrow> one_running rs'"
  unfolding one_running_def
proof (induction rule: list_all2_induct)
  case (Cons r rs r' rs')
  show ?case
  proof (cases "ar_status r' = AutomationRunRunning")
    case True
    then have "r' = r" using Cons.hyps(1) by (rule ages_columns(7) [rotated])
    with Cons True running_aged [OF Cons.hyps(2)] show ?thesis by auto
  next
    case False
    with Cons show ?thesis by (auto split: if_splits)
  qed
qed simp

lemma run_ok_ages: "ages r r' \<Longrightarrow> run_ok r \<Longrightarrow> run_ok r'"
  by (auto simp: ages_def run_ok_def)

lemma runs_ok_aged:
  assumes "aged rs rs'"
  shows "keyed ar_id rs \<Longrightarrow> keyed ar_id rs'" and "list_all run_ok rs \<Longrightarrow> list_all run_ok rs'"
proof -
  show "keyed ar_id rs \<Longrightarrow> keyed ar_id rs'"
    using aged_map [OF assms, of ar_id, OF ages_columns(1)] by (simp add: keyed_def)
  show "list_all run_ok rs \<Longrightarrow> list_all run_ok rs'"
    unfolding list_all_iff using aged_in [OF assms] run_ok_ages by blast
qed

lemma auto_ok_aged:
  "auto_ok st \<Longrightarrow> au_rows st' = au_rows st \<Longrightarrow> aged (au_runs st) (au_runs st') \<Longrightarrow> auto_ok st'"
  by (simp add: auto_ok_def one_running_aged runs_ok_aged)

lemma auto_ok_rows:
  assumes "auto_ok st" and "\<And>m. am_id (f m) = am_id m" and "\<And>m. P m \<Longrightarrow> definition_ok m \<Longrightarrow> definition_ok (f m)"
  shows "auto_ok (st\<lparr>au_rows := update_where P f (au_rows st)\<rparr>)"
proof -
  have "map am_id (update_where P f (au_rows st)) = map am_id (au_rows st)"
    using assms(2) by (simp add: update_where_def)
  then have "keyed am_id (update_where P f (au_rows st)) \<longleftrightarrow> keyed am_id (au_rows st)" by (simp add: keyed_def)
  then show ?thesis using assms(1,3) by (auto simp: auto_ok_def list_all_iff set_update_where)
qed

lemma auto_ok_set:
  "auto_ok st \<Longrightarrow> (\<And>m. am_id (f m) = am_id m) \<Longrightarrow> (\<And>m. am_id m = aid \<Longrightarrow> definition_ok m \<Longrightarrow> definition_ok (f m)) \<Longrightarrow>
   auto_ok (set_definition aid f st)"
  unfolding set_definition_def by (rule auto_ok_rows)

lemma auto_ok_pause: "auto_ok st \<Longrightarrow> auto_ok (pause_repeated_failures a st)"
  unfolding pause_repeated_failures_def by (rule auto_ok_rows) (simp_all add: definition_ok_def)

lemma auto_ok_touch: "auto_ok st \<Longrightarrow> auto_ok (set_definition aid (touch_last t) st)"
  by (rule auto_ok_set) (simp_all add: touch_last_def definition_ok_def)

lemma auto_ok_insert:
  assumes "auto_ok st" and "insert_automation_run r st = Inr st'" and "run_ok r"
  shows "auto_ok st'" and "st' = st\<lparr>au_runs := au_runs st @ [r]\<rparr>"
proof -
  show st': "st' = st\<lparr>au_runs := au_runs st @ [r]\<rparr>"
    using assms(2) by (simp add: insert_automation_run_def split: if_splits)
  show "auto_ok st'" using assms unfolding st'
    by (auto simp: auto_ok_def insert_automation_run_def keyed_insert one_running_def exists_row_iff split: if_splits)
qed

lemma skip_ok: "run_ok (skipped_run a aid source for1 into1 reason)" "run_ok (running_run a aid source for1)"
  by (simp_all add: run_ok_def skipped_run_def running_run_def)

lemma create_task_keeps:
  "create_automation_task a m st = Inr st' \<Longrightarrow> au_rows st' = au_rows st \<and> au_runs st' = au_runs st"
  by (auto simp: create_automation_task_def Let_def split: if_splits sum.splits)

lemma record_skip_ok:
  assumes "auto_ok st" and "record_skip a m r st = Inr st'" and "run_ok r"
  shows "auto_ok st'" and "au_runs st' = au_runs st @ [r]"
proof -
  from assms(2) obtain st1 where i: "insert_automation_run r st = Inr st1"
    and st': "st' = set_definition (am_id m) (touch_last (sql_now a)) st1"
    by (auto simp: record_skip_def map_sum_def split: sum.splits)
  note j = auto_ok_insert [OF assms(1) i assms(3)]
  show "auto_ok st'" unfolding st' by (rule auto_ok_touch [OF j(1)])
  show "au_runs st' = au_runs st @ [r]" unfolding st' j(2) by (simp add: set_definition_def)
qed

section \<open>A dispatch\<close>

text \<open>What a dispatch does to a definition: only its own, of which a scheduled one moves the next occurrence past the clock.\<close>

definition moves :: "auto_env \<Rightarrow> id \<Rightarrow> automation_source \<Rightarrow> automation_row \<Rightarrow> automation_row \<Rightarrow> bool" where
  "moves a aid source m m' \<longleftrightarrow>
     am_id m' = am_id m \<and> am_input m' = am_input m \<and> (am_id m \<noteq> aid \<longrightarrow> m' = m) \<and>
     (source = Manual \<longrightarrow> am_next m' = am_next m) \<and>
     (source = Scheduled \<and> am_id m = aid \<longrightarrow> (\<exists>n. am_next m' = Some n \<and> go_now a < n))"

lemma take_occurrence_cases:
  assumes "take_occurrence a m source st = Inr (for1, st1)"
  obtains "source = Manual" "for1 = go_now a" "st1 = st"
  | n where "source = Scheduled" "am_next m = Some for1" "for1 \<le> go_now a" "ai_enabled (am_input m)" "go_now a < n"
      "st1 = set_definition (am_id m) (\<lambda>m. m\<lparr>am_next := Some n, am_updated := sql_now a\<rparr>) st"
  using assms
  by (auto simp: take_occurrence_def split: automation_source.splits option.splits if_splits sum.splits
           dest: next_scheduled_later)

lemma set_definition_runs [simp]:
  "au_runs (set_definition aid f st) = au_runs st" "au_board (set_definition aid f st) = au_board st"
  "au_tables (set_definition aid f st) = au_tables st"
  "au_rows (set_definition aid f st) = update_where (\<lambda>m. am_id m = aid) f (au_rows st)"
  by (simp_all add: set_definition_def)

lemma take_occurrence_ok:
  assumes "auto_ok st" and "row_by am_id aid (au_rows st) = Some m" and t: "take_occurrence a m source st = Inr (for1, st1)"
  shows "auto_ok st1" and "au_runs st1 = au_runs st" and "au_board st1 = au_board st" and "au_tables st1 = au_tables st"
    and "list_all2 (moves a aid source) (au_rows st) (au_rows st1)"
proof -
  have m: "m \<in> set (au_rows st)" "am_id m = aid" using assms(2) by (auto dest: row_by_in row_by_key)
  have ok: "auto_ok (set_definition aid (\<lambda>m. m\<lparr>am_next := Some n, am_updated := sql_now a\<rparr>) st)"
    if "ai_enabled (am_input m)" for n
  proof -
    have "x = m" if "x \<in> set (au_rows st)" "am_id x = aid" for x
      using that m assms(1) by (auto simp: auto_ok_def dest: keyed_unique)
    then have "\<And>x. x \<in> set (au_rows st) \<Longrightarrow> am_id x = aid \<Longrightarrow> ai_enabled (am_input x)" using that by blast
    moreover have "map am_id (update_where (\<lambda>m. am_id m = aid) (\<lambda>m. m\<lparr>am_next := Some n, am_updated := sql_now a\<rparr>) (au_rows st)) =
        map am_id (au_rows st)" by (simp add: update_where_def)
    ultimately show ?thesis using assms(1)
      by (auto simp: auto_ok_def set_definition_def list_all_iff set_update_where definition_ok_def keyed_def)
  qed
  from t show "auto_ok st1" "au_runs st1 = au_runs st" "au_board st1 = au_board st" "au_tables st1 = au_tables st"
    "list_all2 (moves a aid source) (au_rows st) (au_rows st1)"
    using m(2) assms(1) ok
    by (cases rule: take_occurrence_cases;
        auto simp: moves_def update_where_def list_all2_map2 intro!: list_all2_refl)+
qed

lemma moves_touch: "list_all2 (moves a aid source) ms ms' \<Longrightarrow>
    list_all2 (moves a aid source) ms (update_where (\<lambda>m. am_id m = aid) (touch_last t) ms')"
  by (induction rule: list_all2_induct) (auto simp: update_where_def moves_def touch_last_def)

lemma start_run_ok:
  assumes "auto_ok st" and "start_automation_run a m source for1 st = Inr st'"
  shows "auto_ok st'" and "au_runs st' = au_runs st @ [running_run a (am_id m) source for1]"
    and "au_rows st' = update_where (\<lambda>x. am_id x = am_id m) (touch_last (go_now a)) (au_rows st)"
proof -
  from assms(2) obtain st1 st2 where i: "insert_automation_run (running_run a (am_id m) source for1) st = Inr st1"
    and c: "create_automation_task a m st1 = Inr st2" and st': "st' = set_definition (am_id m) (touch_last (go_now a)) st2"
    by (auto simp: start_automation_run_def split: sum.splits)
  note j = auto_ok_insert [OF assms(1) i skip_ok(2)] and k = create_task_keeps [OF c]
  have "auto_ok st2" using auto_ok_aged [OF j(1), of st2] k by simp
  then show "auto_ok st'" unfolding st' by (rule auto_ok_touch)
  show "au_runs st' = au_runs st @ [running_run a (am_id m) source for1]"
    and "au_rows st' = update_where (\<lambda>x. am_id x = am_id m) (touch_last (go_now a)) (au_rows st)"
    using j(2) k by (simp_all add: st')
qed

definition dispatched ::
    "auto_env \<Rightarrow> id \<Rightarrow> automation_source \<Rightarrow> time \<Rightarrow> dispatch_outcome \<Rightarrow> automation_run" where
  "dispatched a aid source for1 out =
     (case out of DispatchCoalesced r \<Rightarrow> r | DispatchSkipped r \<Rightarrow> r | _ \<Rightarrow> running_run a aid source for1)"

lemma dispatch_tx_ok:
  assumes ok: "auto_ok st" and "dispatch_tx a aid source st = Inr (st', out)"
  obtains m for1 rs where "row_by am_id aid (au_rows st) = Some m" "auto_ok st'"
    "list_all2 (moves a aid source) (au_rows st) (au_rows st')" "aged (au_runs st) rs"
    "au_runs st' = rs @ [dispatched a aid source for1 out]"
    "ar_automation (dispatched a aid source for1 out) = aid" "ar_source (dispatched a aid source for1 out) = source"
    "ar_for (dispatched a aid source for1 out) = for1"
    "source = Scheduled \<Longrightarrow> am_next m = Some for1 \<and> for1 \<le> go_now a"
proof -
  note found = that
  from assms(2) obtain m for1 st1 st2 where m: "row_by am_id aid (au_rows st) = Some m"
    and t: "take_occurrence a m source st = Inr (for1, st1)" and r: "reconcile_automation_run a aid st1 = Some st2"
    by (auto simp: dispatch_tx_def split: option.splits sum.splits)
  have aid: "am_id m = aid" using m by (rule row_by_key)
  note k = take_occurrence_ok [OF ok m t]
  note rk = reconcile_keeps [OF r [unfolded reconcile_automation_run_def]]
  have ok2: "auto_ok st2" by (rule auto_ok_aged [OF k(1) rk(1,3)])
  have rs: "aged (au_runs st) (au_runs st2)" using rk(3) k(2) by simp
  have rows: "list_all2 (moves a aid source) (au_rows st) (au_rows st2)" using rk(1) k(5) by simp
  have sch: "am_next m = Some for1 \<and> for1 \<le> go_now a" if "source = Scheduled"
    using t that by (cases rule: take_occurrence_cases) simp_all
  have skip: thesis if s: "record_skip a m x st2 = Inr st'" and x: "x = skipped_run a aid source for1 i w"
    and out: "x = dispatched a aid source for1 out" for x i w
  proof -
    have "run_ok x" using x skip_ok by simp
    note j = record_skip_ok [OF ok2 s this]
    have rows': "list_all2 (moves a aid source) (au_rows st) (au_rows st')"
      using s moves_touch [OF rows] aid
      by (auto simp: record_skip_def map_sum_def insert_automation_run_def split: sum.splits if_splits)
    show thesis by (rule found [OF m j(1) rows' rs, of for1]) (use j(2) x out sch in \<open>simp_all add: skipped_run_def\<close>)
  qed
  show thesis
  proof (cases "active_run aid st2")
    case (Some r0)
    with assms(2) m t r show ?thesis
      by (auto simp: dispatch_tx_def Let_def map_sum_def dispatched_def split: sum.splits intro!: skip)
  next
    case None
    show ?thesis
    proof (cases "ai_target (am_input m) = [] \<or> \<not> target_available a (au_board st2) (am_channel m) (ai_target (am_input m))")
      case True
      with None assms(2) m t r show ?thesis
        by (auto simp: dispatch_tx_def Let_def map_sum_def dispatched_def split: sum.splits intro!: skip)
    next
      case False
      with None assms(2) m t r have s: "start_automation_run a m source for1 st2 = Inr st'"
        and out: "out = DispatchStarted (run_uuid a) (task_uuid a)"
        by (auto simp: dispatch_tx_def map_sum_def split: sum.splits)
      note j = start_run_ok [OF ok2 s]
      have rows': "list_all2 (moves a aid source) (au_rows st) (au_rows st')" using moves_touch [OF rows] j(3) aid by simp
      show ?thesis
        by (rule found [OF m j(1) rows' rs, of for1]) (use j(2) aid out sch in \<open>simp_all add: dispatched_def running_run_def\<close>)
    qed
  qed
qed

text \<open>A definition is left alone or has no next occurrence.\<close>

abbreviation stopped :: "automation_row list \<Rightarrow> automation_row list \<Rightarrow> bool" where
  "stopped \<equiv> list_all2 (\<lambda>m m'. m' = m \<or> am_id m' = am_id m \<and> am_next m' = None)"

lemma pause_rows: "stopped (au_rows st) (au_rows (pause_repeated_failures a st))"
  by (auto simp: pause_repeated_failures_def update_where_def list_all2_map2 intro!: list_all2_refl)

lemma fail_dispatched_ok:
  assumes "auto_ok st"
  shows "auto_ok (fail_dispatched_task a rid tid st)" and "aged (au_runs st) (au_runs (fail_dispatched_task a rid tid st))"
    and "stopped (au_rows st) (au_rows (fail_dispatched_task a rid tid st))"
proof -
  let ?runs = "update_where (\<lambda>r. ar_id r = rid \<and> ar_status r = AutomationRunRunning)
      (end_run (sql_now a) AutomationRunFailed ''dispatch_failed'') (au_runs st)"
  have "aged (au_runs st) ?runs" by (rule aged_update) simp
  then show aged: "aged (au_runs st) (au_runs (fail_dispatched_task a rid tid st))"
    by (simp add: fail_dispatched_task_def split: option.split)
  show "auto_ok (fail_dispatched_task a rid tid st)"
    using \<open>aged (au_runs st) ?runs\<close> assms
    by (auto simp: fail_dispatched_task_def split: option.split intro!: auto_ok_pause elim!: auto_ok_aged)
  show "stopped (au_rows st) (au_rows (fail_dispatched_task a rid tid st))"
    using pause_rows [of "st\<lparr>au_board := d, au_runs := ?runs\<rparr>" a for d]
    by (auto simp: fail_dispatched_task_def split: option.split intro!: list_all2_refl)
qed

section \<open>The machine\<close>

text \<open>
  Whatever the service does in one transaction or statement, at any time and in any order, and whatever else happens to
  tasks and agents: a task that is deleted leaves its run without a task.
\<close>

datatype auto_op =
    CreateAutomation id id automation_input
  | DeleteAutomation id id id
  | RunNow trigger id id id
  | DispatchDue trigger id
  | ReconcileRuns
  | PauseFailing
  | OtherChange db rdb

definition unlink_missing :: "db \<Rightarrow> automation_run \<Rightarrow> automation_run" where
  "unlink_missing d r = (if task_of_run d r = None then r\<lparr>ar_task := None\<rparr> else r)"

definition or_stay :: "auto_state \<Rightarrow> automation_error + auto_state \<Rightarrow> auto_state" where
  "or_stay st r = (case r of Inl _ \<Rightarrow> st | Inr st' \<Rightarrow> st')"

fun auto_step :: "auto_state \<Rightarrow> auto_env \<times> auto_op \<Rightarrow> auto_state" where
  "auto_step st (a, CreateAutomation ch u i) = or_stay st (create_automation a ch u i st)"
| "auto_step st (a, DeleteAutomation ch aid u) = or_stay st (delete_automation ch aid u st)"
| "auto_step st (a, RunNow start ch aid u) = fst (run_now start a ch aid u st)"
| "auto_step st (a, DispatchDue start aid) = fst (dispatch start a aid Scheduled st)"
| "auto_step st (a, ReconcileRuns) = (case reconcile_runs a st of None \<Rightarrow> st | Some st' \<Rightarrow> st')"
| "auto_step st (a, PauseFailing) = pause_repeated_failures a st"
| "auto_step st (a, OtherChange d rd) =
     st\<lparr>au_board := d, au_tables := rd, au_runs := map (unlink_missing d) (au_runs st)\<rparr>"

text \<open>
  With the edits in progress: an edit has read the definition, and then may have been checked, with the next occurrence
  it is going to write. Several may be in progress, and every other operation may come in between.
\<close>

record automation_edit =
  ed_no :: nat
  ed_channel :: id
  ed_automation :: id
  ed_input :: automation_input
  ed_seen :: "id \<times> task_contract option"
  ed_checked :: "(automation_input \<times> time option) option"

record auto_world =
  aw_state :: auto_state
  aw_edits :: "automation_edit list"

datatype world_op =
    ReadUpdate nat id id id automation_input
  | CheckUpdate nat
  | WriteUpdate nat
  | Service auto_op

definition end_edit :: "nat \<Rightarrow> auto_world \<Rightarrow> auto_world" where
  "end_edit no w = w\<lparr>aw_edits := delete_where (\<lambda>e. ed_no e = no) (aw_edits w)\<rparr>"

definition check_edit :: "auto_env \<Rightarrow> automation_edit \<Rightarrow> auto_world \<Rightarrow> auto_world" where
  "check_edit a e w =
     (if ed_checked e \<noteq> None then w
      else (case update_check a (ed_channel e) (ed_automation e) (ed_seen e) (ed_input e) (aw_state w) of
              Inl _ \<Rightarrow> end_edit (ed_no e) w
            | Inr c \<Rightarrow> w\<lparr>aw_edits := update_where (\<lambda>x. ed_no x = ed_no e) (\<lambda>x. x\<lparr>ed_checked := Some c\<rparr>) (aw_edits w)\<rparr>))"

definition write_edit :: "auto_env \<Rightarrow> automation_edit \<Rightarrow> auto_world \<Rightarrow> auto_world" where
  "write_edit a e w =
     (case ed_checked e of
        None \<Rightarrow> w
      | Some c \<Rightarrow>
          end_edit (ed_no e)
            (w\<lparr>aw_state := or_stay (aw_state w) (update_write a (ed_channel e) (ed_automation e) c (aw_state w))\<rparr>))"

fun world_step :: "auto_world \<Rightarrow> auto_env \<times> world_op \<Rightarrow> auto_world" where
  "world_step w (a, ReadUpdate no ch aid u i) =
     (if exists_row (\<lambda>e. ed_no e = no) (aw_edits w) then w
      else (case update_read ch aid u i (aw_state w) of
              Inl _ \<Rightarrow> w
            | Inr seen \<Rightarrow> w\<lparr>aw_edits := aw_edits w @
                [\<lparr>ed_no = no, ed_channel = ch, ed_automation = aid, ed_input = i, ed_seen = seen, ed_checked = None\<rparr>]\<rparr>))"
| "world_step w (a, CheckUpdate no) = (case row_by ed_no no (aw_edits w) of None \<Rightarrow> w | Some e \<Rightarrow> check_edit a e w)"
| "world_step w (a, WriteUpdate no) = (case row_by ed_no no (aw_edits w) of None \<Rightarrow> w | Some e \<Rightarrow> write_edit a e w)"
| "world_step w (a, Service x) = w\<lparr>aw_state := auto_step (aw_state w) (a, x)\<rparr>"

definition no_edits :: "auto_state \<Rightarrow> auto_world" where
  "no_edits st = \<lparr>aw_state = st, aw_edits = []\<rparr>"

lemma no_edits_simps [simp]: "aw_state (no_edits st) = st" "aw_edits (no_edits st) = []"
  by (simp_all add: no_edits_def)

text \<open>An edit with nothing in between.\<close>

lemma edit_in_one_step:
  "foldl world_step (no_edits st) [(a, ReadUpdate 0 ch aid u i), (a, CheckUpdate 0), (a, WriteUpdate 0)] =
   no_edits (or_stay st (update_automation a ch aid u i st))"
  by (simp add: update_automation_def check_edit_def write_edit_def end_edit_def no_edits_def or_stay_def row_by_def
      exists_row_def update_where_def delete_where_def split: sum.split)

lemma tick_steps:
  "tick start a da st =
   foldl auto_step st ([(a, ReconcileRuns), (a, PauseFailing)] @
     map (\<lambda>aid. (da aid, DispatchDue start aid))
       (due_definitions (sql_now a) (foldl auto_step st [(a, ReconcileRuns), (a, PauseFailing)])))"
proof -
  have "foldl auto_step s (map (\<lambda>aid. (da aid, DispatchDue start aid)) ids) =
        foldl (\<lambda>s aid. fst (dispatch start (da aid) aid Scheduled s)) s ids" for s ids
    by (induction ids arbitrary: s) simp_all
  then show ?thesis by (simp add: tick_def Let_def)
qed

text \<open>
  What a dispatch leaves, its call of the agent included: nothing if it was refused, otherwise one more run, and
  later occurrences.
\<close>

definition later_or_none :: "auto_env \<Rightarrow> id \<Rightarrow> automation_source \<Rightarrow> automation_row \<Rightarrow> automation_row \<Rightarrow> bool" where
  "later_or_none a aid source m m' \<longleftrightarrow>
     am_id m' = am_id m \<and>
     (am_next m' = None \<or>
      (if source = Scheduled \<and> am_id m = aid then \<exists>n. am_next m' = Some n \<and> go_now a < n else am_next m' = am_next m))"

lemma automation_dispatch_cases:
  assumes ok: "auto_ok st" and d: "dispatch start a aid source st = (st', out)"
  obtains err where "out = DispatchRefused err" "st' = st"
  | m for1 rs r r' where "row_by am_id aid (au_rows st) = Some m" "auto_ok st'"
    "list_all2 (later_or_none a aid source) (au_rows st) (au_rows st')" "aged (au_runs st) rs"
    "au_runs st' = rs @ [r']" "ages r r'" "ar_automation r' = aid" "ar_source r' = source" "ar_for r' = for1"
    "source = Scheduled \<Longrightarrow> am_next m = Some for1 \<and> for1 \<le> go_now a"
proof (cases "dispatch_tx a aid source st")
  case (Inl err)
  with d have "out = DispatchRefused err" "st' = st" by (auto simp: dispatch_def)
  then show ?thesis by (rule that(1))
next
  case (Inr x)
  note found = that
  obtain st1 out1 where x: "x = (st1, out1)" by fastforce
  from dispatch_tx_ok [OF ok Inr [unfolded x]] obtain m for1 rs where m: "row_by am_id aid (au_rows st) = Some m"
    and ok1: "auto_ok st1" and rows: "list_all2 (moves a aid source) (au_rows st) (au_rows st1)"
    and rs: "aged (au_runs st) rs" and runs: "au_runs st1 = rs @ [dispatched a aid source for1 out1]"
    and cols: "ar_automation (dispatched a aid source for1 out1) = aid" "ar_source (dispatched a aid source for1 out1) = source"
      "ar_for (dispatched a aid source for1 out1) = for1"
    and sch: "source = Scheduled \<Longrightarrow> am_next m = Some for1 \<and> for1 \<le> go_now a"
    by metis
  have later: "list_all2 (later_or_none a aid source) (au_rows st) ms"
    if "stopped (au_rows st1) ms" for ms
    by (rule list_all2_trans [OF _ rows that]) (cases source; auto simp: moves_def later_or_none_def)
  have finish: thesis if st2: "auto_ok st2" "au_rows st2 = au_rows st1" "au_runs st2 = au_runs st1"
    and c: "st' = st2 \<or> st' = pause_repeated_failures a st2 \<or> st' = fail_dispatched_task a rid tid st2" for st2 rid tid
  proof -
    have "auto_ok st' \<and> aged (au_runs st1) (au_runs st') \<and>
        stopped (au_rows st1) (au_rows st')"
      using c
    proof (elim disjE)
      assume "st' = st2"
      with st2 show ?thesis by (simp add: list_all2_refl)
    next
      assume "st' = pause_repeated_failures a st2"
      with st2 auto_ok_pause [OF st2(1)] pause_rows [of st2 a] show ?thesis by simp
    next
      assume "st' = fail_dispatched_task a rid tid st2"
      with st2 fail_dispatched_ok [OF st2(1), of a rid tid] show ?thesis by simp
    qed
    then have f: "auto_ok st'" "aged (rs @ [dispatched a aid source for1 out1]) (au_runs st')"
      "list_all2 (later_or_none a aid source) (au_rows st) (au_rows st')" using later runs by simp_all
    from f(2) obtain rs' r' where r': "au_runs st' = rs' @ [r']" "aged rs rs'" "ages (dispatched a aid source for1 out1) r'"
      by (auto simp: list_all2_append1 list_all2_Cons1)
    show thesis
      by (rule found(2) [OF m f(1,3) aged_trans [OF rs r'(2)] r'(1,3), of for1]) (use cols sch ages_columns [OF r'(3)] in simp_all)
  qed
  show ?thesis
  proof (cases out1)
    case (DispatchSkipped r)
    with d Inr x ok1 finish [of st1] show ?thesis by (auto simp: dispatch_def)
  next
    case (DispatchStarted rid tid)
    obtain b d2 rd2 where s: "start tid (au_board st1, au_tables st1) = (b, d2, rd2)" by (metis prod_cases3)
    with d Inr x DispatchStarted finish [of "st1\<lparr>au_board := d2, au_tables := rd2\<rparr>" rid tid] show ?thesis
      using auto_ok_aged [OF ok1, of "st1\<lparr>au_board := d2, au_tables := rd2\<rparr>"]
      by (auto simp: dispatch_def Let_def split: if_splits)
  qed (use d Inr x ok1 finish [of st1] in \<open>auto simp: dispatch_def\<close>)
qed

text \<open>What editing leaves: the rows of the runs, and of a definition that is on the next occurrence is later than the clock.\<close>

lemma first_run_ok:
  "first_run_at a i = Inr n \<Longrightarrow> (ai_enabled i \<longleftrightarrow> n \<noteq> None) \<and> (case n of None \<Rightarrow> True | Some t \<Rightarrow> go_now a < t)"
  by (auto simp: first_run_at_def map_sum_def split: if_splits sum.splits dest: next_scheduled_later)

lemma create_automation_cases:
  assumes "create_automation a ch u i st = Inr st'"
  obtains m where "st' = st\<lparr>au_rows := au_rows st @ [m]\<rparr>" "am_id m = run_uuid a" "am_id m \<notin> am_id ` set (au_rows st)"
    "definition_ok m" "case am_next m of None \<Rightarrow> True | Some t \<Rightarrow> go_now a < t"
proof -
  from assms obtain j n where "first_run_at a j = Inr n" "\<not> exists_row (\<lambda>r. am_id r = run_uuid a) (au_rows st)"
    "st' = st\<lparr>au_rows := au_rows st @ [\<lparr>am_id = run_uuid a, am_channel = ch, am_creator = u, am_input = j, am_next = n,
       am_last = None, am_updated = sql_now a\<rparr>]\<rparr>"
    by (auto simp: create_automation_def Let_def split: option.split_asm sum.split_asm if_split_asm)
  with first_run_ok [OF this(1)] show thesis by (intro that) (auto simp: definition_ok_def exists_row_iff)
qed

lemma update_check_ok:
  assumes "update_check a ch aid seen i st = Inr (j, n)"
  shows "ai_enabled j \<longleftrightarrow> n \<noteq> None" and "case n of None \<Rightarrow> True | Some t \<Rightarrow> go_now a < t"
proof -
  from assms have "first_run_at a j = Inr n"
    by (auto simp: update_check_def map_sum_def split: option.splits sum.splits)
  from first_run_ok [OF this] show "ai_enabled j \<longleftrightarrow> n \<noteq> None" and "case n of None \<Rightarrow> True | Some t \<Rightarrow> go_now a < t" by simp_all
qed

lemma update_write_cases:
  assumes "update_write a ch aid c st = Inr st'"
  shows "st' = st\<lparr>au_rows := update_where (\<lambda>r. am_id r = aid \<and> am_channel r = ch)
     (\<lambda>r. r\<lparr>am_input := fst c, am_next := snd c, am_updated := sql_now a\<rparr>) (au_rows st)\<rparr>"
  using assms by (simp add: update_write_def split: if_splits)

lemma update_automation_cases:
  assumes "update_automation a ch aid u i st = Inr st'"
  obtains P j n where "st' = st\<lparr>au_rows := update_where P (\<lambda>r. r\<lparr>am_input := j, am_next := n, am_updated := sql_now a\<rparr>) (au_rows st)\<rparr>"
    "ai_enabled j \<longleftrightarrow> n \<noteq> None" "case n of None \<Rightarrow> True | Some t \<Rightarrow> go_now a < t"
proof -
  from assms obtain seen j n where "update_check a ch aid seen i st = Inr (j, n)" "update_write a ch aid (j, n) st = Inr st'"
    by (auto simp: update_automation_def split: sum.splits)
  with update_check_ok [OF this(1)] update_write_cases [OF this(2)] that show ?thesis by simp
qed

lemma delete_automation_cases:
  assumes "delete_automation ch aid u st = Inr st'"
  obtains P Q where "st' = st\<lparr>au_rows := delete_where P (au_rows st), au_runs := delete_where Q (au_runs st)\<rparr>"
  using assms by (auto simp: delete_automation_def split: option.split_asm if_split_asm)

lemma run_now_cases:
  obtains "fst (run_now start a ch aid u st) = st"
  | "fst (run_now start a ch aid u st) = fst (dispatch start a aid Manual st)"
  by (cases "get_automation st ch aid u") (auto simp: run_now_def)

lemma dispatch_ok: "auto_ok st \<Longrightarrow> auto_ok (fst (dispatch start a aid source st))"
  by (cases "dispatch start a aid source st") (auto elim: automation_dispatch_cases)

lemma or_stay_cases: obtains "or_stay st r = st" | st' where "r = Inr st'" "or_stay st r = st'"
  by (cases r) (auto simp: or_stay_def)

lemma one_running_delete:
  assumes "one_running rs"
  shows "one_running (delete_where Q rs)"
proof -
  have "filter R (delete_where Q rs) = filter (\<lambda>r. \<not> Q r) (filter R rs)" for R
    by (simp add: delete_where_def conj_commute)
  then show ?thesis using assms unfolding one_running_def by (metis distinct_map_filter)
qed

lemma auto_step_ok:
  assumes ok: "auto_ok st"
  shows "auto_ok (auto_step st (a, x))"
proof (cases x)
  case (CreateAutomation ch u i)
  show ?thesis
  proof (cases rule: or_stay_cases [of st "create_automation a ch u i st"])
    case (2 st')
    from create_automation_cases [OF 2(1)] obtain m where "st' = st\<lparr>au_rows := au_rows st @ [m]\<rparr>"
      "am_id m \<notin> am_id ` set (au_rows st)" "definition_ok m" by metis
    with 2(2) ok CreateAutomation show ?thesis by (simp add: auto_ok_def keyed_insert)
  qed (use ok CreateAutomation in simp)
next
  case (DeleteAutomation ch aid u)
  show ?thesis
  proof (cases rule: or_stay_cases [of st "delete_automation ch aid u st"])
    case (2 st')
    from delete_automation_cases [OF 2(1)] obtain P Q where
      "st' = st\<lparr>au_rows := delete_where P (au_rows st), au_runs := delete_where Q (au_runs st)\<rparr>" .
    moreover have "one_running (delete_where Q (au_runs st))"
      using ok by (simp add: auto_ok_def one_running_delete)
    ultimately show ?thesis using 2(2) ok DeleteAutomation by (auto simp: auto_ok_def keyed_delete list_all_iff row_simps)
  qed (use ok DeleteAutomation in simp)
next
  case (RunNow start ch aid u)
  with dispatch_ok [OF ok] ok show ?thesis by (cases rule: run_now_cases [of start a ch aid u st]) auto
next
  case (OtherChange d rd)
  have cols: "ar_id (unlink_missing d r) = ar_id r" "run_ok (unlink_missing d r) = run_ok r"
    "ar_automation (unlink_missing d r) = ar_automation r" "ar_status (unlink_missing d r) = ar_status r" for r
    by (simp_all add: unlink_missing_def run_ok_def)
  then have "one_running (map (unlink_missing d) rs) = one_running rs" for rs
    by (simp add: one_running_def filter_map o_def)
  with cols ok OtherChange show ?thesis by (simp add: auto_ok_def keyed_def o_def list_all_iff)
qed (use ok dispatch_ok in \<open>auto simp: auto_ok_pause reconcile_runs_keeps auto_ok_aged split: option.split\<close>)

interpretation automations: op_machine auto_step auto_ok
proof
  show "auto_ok s \<Longrightarrow> auto_ok (auto_step s o1)" for s o1 by (cases o1) (simp add: auto_step_ok)
qed

definition edit_ok :: "automation_edit \<Rightarrow> bool" where
  "edit_ok e \<longleftrightarrow> (case ed_checked e of None \<Rightarrow> True | Some c \<Rightarrow> ai_enabled (fst c) \<longleftrightarrow> snd c \<noteq> None)"

definition world_ok :: "auto_world \<Rightarrow> bool" where
  "world_ok w \<longleftrightarrow> auto_ok (aw_state w) \<and> list_all edit_ok (aw_edits w)"

lemma auto_ok_write:
  assumes "auto_ok st" and "ai_enabled (fst c) \<longleftrightarrow> snd c \<noteq> None"
  shows "auto_ok (or_stay st (update_write a ch aid c st))"
proof (cases rule: or_stay_cases [of st "update_write a ch aid c st"])
  case (2 st')
  show ?thesis unfolding 2(2) update_write_cases [OF 2(1)]
    by (rule auto_ok_rows [OF assms(1)]) (use assms(2) in \<open>simp_all add: definition_ok_def\<close>)
qed (use assms in simp)

lemma check_edit_ok:
  assumes "list_all edit_ok (aw_edits w)"
  shows "aw_state (check_edit a e w) = aw_state w" and "list_all edit_ok (aw_edits (check_edit a e w))"
  using assms
  by (auto simp: check_edit_def end_edit_def list_all_iff row_simps edit_ok_def split: sum.split option.splits dest: update_check_ok)

lemma world_step_ok: "world_ok w \<Longrightarrow> world_ok (world_step w (a, x))"
proof (cases x)
  case (ReadUpdate no ch aid u i)
  then show "world_ok w \<Longrightarrow> world_ok (world_step w (a, x))"
    by (auto simp: world_ok_def edit_ok_def split: sum.split)
next
  case (CheckUpdate no)
  then show "world_ok w \<Longrightarrow> world_ok (world_step w (a, x))"
    by (auto simp: world_ok_def check_edit_ok split: option.split)
next
  case (WriteUpdate no)
  show "world_ok (world_step w (a, x))" if "world_ok w"
  proof (cases "row_by ed_no no (aw_edits w)")
    case (Some e)
    then have "edit_ok e" using that by (auto simp: world_ok_def list_all_iff dest: row_by_in)
    with WriteUpdate Some that auto_ok_write show ?thesis
      by (auto simp: world_ok_def write_edit_def end_edit_def edit_ok_def list_all_iff row_simps split: option.split)
  qed (use WriteUpdate that in simp)
next
  case (Service y)
  then show "world_ok w \<Longrightarrow> world_ok (world_step w (a, x))" by (simp add: world_ok_def auto_step_ok)
qed

interpretation worlds: op_machine world_step world_ok
proof
  show "world_ok w \<Longrightarrow> world_ok (world_step w o1)" for w o1 by (cases o1) (simp add: world_step_ok)
qed

section \<open>Each occurrence once\<close>

abbreviation scheduled :: "automation_run \<Rightarrow> bool" where
  "scheduled r \<equiv> ar_source r = Scheduled"

definition occurrences :: "automation_run list \<Rightarrow> (id \<times> time) list" where
  "occurrences rs = map (\<lambda>r. (ar_automation r, ar_for r)) (filter scheduled rs)"

definition in_time :: "time \<Rightarrow> auto_state \<Rightarrow> bool" where
  "in_time t st \<longleftrightarrow>
     auto_ok st \<and> distinct (occurrences (au_runs st)) \<and> (\<forall>x \<in> set (occurrences (au_runs st)). snd x \<le> t) \<and>
     (\<forall>m \<in> set (au_rows st). \<forall>x \<in> set (occurrences (au_runs st)). fst x = am_id m \<longrightarrow>
        (case am_next m of None \<Rightarrow> True | Some n \<Rightarrow> snd x < n))"

lemma occurrences_aged: "aged rs rs' \<Longrightarrow> occurrences rs' = occurrences rs"
  by (induction rule: list_all2_induct) (auto simp: occurrences_def ages_columns)

lemma occurrences_append [simp]: "occurrences (rs @ rs') = occurrences rs @ occurrences rs'"
  by (simp add: occurrences_def)

lemma in_time_rows:
  assumes "in_time t st" and "auto_ok st'" and "t \<le> t'" and "occurrences (au_runs st') = occurrences (au_runs st)"
    and "\<And>m'. m' \<in> set (au_rows st') \<Longrightarrow>
      (case am_next m' of None \<Rightarrow> True | Some n \<Rightarrow> t' < n \<or> (\<exists>m \<in> set (au_rows st). am_id m = am_id m' \<and> am_next m = Some n))"
  shows "in_time t' st'"
proof -
  have late: "snd x < n" if m': "m' \<in> set (au_rows st')" and x: "x \<in> set (occurrences (au_runs st))" "fst x = am_id m'"
    and n: "am_next m' = Some n" for m' x n
  proof -
    have xt: "snd x \<le> t" using assms(1) x(1) by (simp add: in_time_def)
    from assms(5) [OF m'] n consider "t' < n"
      | m where "m \<in> set (au_rows st)" "am_id m = am_id m'" "am_next m = Some n" by auto
    then show ?thesis
    proof cases
      case 1
      with xt assms(3) show ?thesis by simp
    next
      case 2
      with assms(1) x show ?thesis by (auto simp: in_time_def dest!: bspec)
    qed
  qed
  have "\<forall>x \<in> set (occurrences (au_runs st)). snd x \<le> t'" using assms(1,3) by (auto simp: in_time_def)
  then show ?thesis using assms(1,2,4) late by (auto simp: in_time_def split: option.split)
qed

lemma in_time_same: "in_time t st \<Longrightarrow> t \<le> t' \<Longrightarrow> in_time t' st"
  by (rule in_time_rows) (auto simp: in_time_def split: option.split)

lemma in_time_stopped:
  assumes "in_time t st" and "auto_ok st'" and "t \<le> t'" and "occurrences (au_runs st') = occurrences (au_runs st)"
    and "stopped (au_rows st) (au_rows st')"
  shows "in_time t' st'"
proof (rule in_time_rows [OF assms(1-4)])
  fix m' assume "m' \<in> set (au_rows st')"
  then obtain m where "m \<in> set (au_rows st)" "m' = m \<or> am_id m' = am_id m \<and> am_next m' = None"
    using list_all2_in2 [OF assms(5)] by blast
  then show "case am_next m' of None \<Rightarrow> True
      | Some n \<Rightarrow> t' < n \<or> (\<exists>m \<in> set (au_rows st). am_id m = am_id m' \<and> am_next m = Some n)"
    by (auto split: option.split)
qed

lemma in_time_delete:
  assumes "in_time t st" and "auto_ok st'" and "t \<le> t'"
    and st': "st' = st\<lparr>au_rows := delete_where P (au_rows st), au_runs := delete_where Q (au_runs st)\<rparr>"
  shows "in_time t' st'"
proof -
  have "filter scheduled (delete_where Q rs) = filter (\<lambda>r. \<not> Q r) (filter scheduled rs)" for rs
    by (simp add: delete_where_def conj_commute)
  then have "occurrences (delete_where Q rs) = map (\<lambda>r. (ar_automation r, ar_for r)) (filter (\<lambda>r. \<not> Q r) (filter scheduled rs))"
    for rs by (simp add: occurrences_def del: filter_filter)
  then have runs: "distinct (occurrences (au_runs st'))"
    using assms(1) by (simp add: in_time_def occurrences_def [of "au_runs st"] st' distinct_map_filter del: filter_filter)
  have subset: "set (occurrences (au_runs st')) \<subseteq> set (occurrences (au_runs st))" "set (au_rows st') \<subseteq> set (au_rows st)"
    by (auto simp: occurrences_def st' row_simps)
  have "\<forall>x \<in> set (occurrences (au_runs st')). snd x \<le> t'" using assms(1,3) subset(1) by (fastforce simp: in_time_def)
  moreover have "\<forall>m \<in> set (au_rows st'). \<forall>x \<in> set (occurrences (au_runs st')). fst x = am_id m \<longrightarrow>
      (case am_next m of None \<Rightarrow> True | Some n \<Rightarrow> snd x < n)"
    using assms(1) subset unfolding in_time_def by blast
  ultimately show ?thesis using assms(2) runs by (simp add: in_time_def)
qed

lemma in_time_dispatch:
  assumes t: "in_time t st" "t \<le> go_now a"
  shows "in_time (go_now a) (fst (dispatch start a aid source st))"
proof -
  obtain st' out where d: "dispatch start a aid source st = (st', out)" by fastforce
  have ok: "auto_ok st" using t(1) by (simp add: in_time_def)
  from ok d have "in_time (go_now a) st'"
  proof (cases rule: automation_dispatch_cases)
    case (1 err)
    with in_time_same [OF t] show ?thesis by simp
  next
    case (2 m for1 rs r r')
    have m: "m \<in> set (au_rows st)" "am_id m = aid" using 2(1) by (auto dest: row_by_in row_by_key)
    let ?old = "occurrences (au_runs st)"
    have occ: "occurrences (au_runs st') = ?old @ (if source = Scheduled then [(aid, for1)] else [])"
      using 2(5,7,8,9) occurrences_aged [OF 2(4)] by (simp add: occurrences_def)
    have new: "\<forall>x \<in> set ?old. fst x = aid \<longrightarrow> snd x < for1" "for1 \<le> go_now a" if "source = Scheduled"
      using t(1) m 2(10) [OF that] by (fastforce simp: in_time_def)+
    have late: "snd x < n" if m': "m' \<in> set (au_rows st')" "am_next m' = Some n"
      and x: "x \<in> set (occurrences (au_runs st'))" "fst x = am_id m'" for m' n x
    proof -
      from list_all2_in2 [OF 2(3) m'(1)] obtain y where y: "y \<in> set (au_rows st)" "later_or_none a aid source y m'"
        by blast
      show ?thesis
      proof (cases "source = Scheduled \<and> am_id y = aid")
        case True
        with y m'(2) have "go_now a < n" by (auto simp: later_or_none_def)
        moreover have "snd x \<le> go_now a"
          using x(1) occ True new t by (auto simp: in_time_def split: if_splits)
        ultimately show ?thesis by simp
      next
        case False
        with y m'(2) have yn: "am_next y = Some n" "am_id y = am_id m'" by (auto simp: later_or_none_def)
        with False x occ have "x \<in> set ?old" by (auto split: if_splits)
        with t(1) y(1) yn x(2) show ?thesis by (fastforce simp: in_time_def)
      qed
    qed
    have "distinct (occurrences (au_runs st'))"
      using t(1) occ new(1) by (auto simp: in_time_def split: if_splits)
    moreover have "\<forall>x \<in> set (occurrences (au_runs st')). snd x \<le> go_now a"
      using t occ new(2) by (auto simp: in_time_def split: if_splits)
    ultimately show ?thesis using 2(2) late by (auto simp: in_time_def split: option.split)
  qed
  with d show ?thesis by simp
qed

lemma in_time_step:
  assumes t: "in_time t st" "t \<le> go_now a"
  shows "in_time (go_now a) (auto_step st (a, x))"
proof -
  have ok: "auto_ok st" using t(1) by (simp add: in_time_def)
  note ok' = auto_step_ok [OF ok, of a x]
  note same = in_time_same [OF t]
  have kept: "\<exists>m' \<in> set (au_rows st). am_id m' = am_id m \<and> am_next m' = Some n"
    if "m \<in> set (au_rows st)" "am_next m = Some n" for m n using that by blast
  show ?thesis
  proof (cases x)
    case (CreateAutomation ch u i)
    show ?thesis
    proof (cases rule: or_stay_cases [of st "create_automation a ch u i st"])
      case (2 st')
      from create_automation_cases [OF 2(1)] obtain m where "st' = st\<lparr>au_rows := au_rows st @ [m]\<rparr>"
        "case am_next m of None \<Rightarrow> True | Some t \<Rightarrow> go_now a < t" by metis
      with 2(2) CreateAutomation ok' kept show ?thesis
        by (intro in_time_rows [OF t(1) ok' t(2)]) (auto split: option.splits)
    qed (use same CreateAutomation in simp)
  next
    case (DeleteAutomation ch aid u)
    show ?thesis
    proof (cases rule: or_stay_cases [of st "delete_automation ch aid u st"])
      case (2 st')
      from delete_automation_cases [OF 2(1)] obtain P Q where
        "st' = st\<lparr>au_rows := delete_where P (au_rows st), au_runs := delete_where Q (au_runs st)\<rparr>" .
      from in_time_delete [OF t(1) _ t(2) this] 2(2) DeleteAutomation ok' show ?thesis by simp
    qed (use same DeleteAutomation in simp)
  next
    case (RunNow start ch aid u)
    show ?thesis using same in_time_dispatch [OF t] RunNow by (cases rule: run_now_cases [of start a ch aid u st]) simp_all
  next
    case (DispatchDue start aid)
    with in_time_dispatch [OF t] show ?thesis by simp
  next
    case ReconcileRuns
    then show ?thesis using same ok'
      by (auto split: option.split intro!: in_time_stopped [OF t(1) _ t(2)] occurrences_aged
               simp: reconcile_runs_keeps list_all2_refl)
  next
    case PauseFailing
    with ok' pause_rows show ?thesis by (intro in_time_stopped [OF t(1) ok' t(2)]) simp_all
  next
    case (OtherChange d rd)
    have "occurrences (map (unlink_missing d) rs) = occurrences rs" for rs
      by (induction rs) (auto simp: occurrences_def unlink_missing_def)
    with ok' OtherChange show ?thesis by (intro in_time_stopped [OF t(1) ok' t(2)]) (simp_all add: list_all2_refl)
  qed
qed

text \<open>The occurrence an edit is going to write is later than every one that was taken.\<close>

definition edits_in_time :: "auto_world \<Rightarrow> bool" where
  "edits_in_time w \<longleftrightarrow>
     (\<forall>e \<in> set (aw_edits w). \<forall>j n. ed_checked e = Some (j, Some n) \<longrightarrow>
        (\<forall>x \<in> set (occurrences (au_runs (aw_state w))). fst x = ed_automation e \<longrightarrow> snd x < n))"

definition world_in_time :: "time \<Rightarrow> auto_world \<Rightarrow> bool" where
  "world_in_time t w \<longleftrightarrow> world_ok w \<and> in_time t (aw_state w) \<and> edits_in_time w"

text \<open>No dispatch of the scheduler for a definition while an edit of it has read the clock and not yet written.\<close>

fun undisturbed :: "auto_world \<Rightarrow> (auto_env \<times> world_op) list \<Rightarrow> bool" where
  "undisturbed w [] \<longleftrightarrow> True"
| "undisturbed w ((a, x) # ops) \<longleftrightarrow>
     (case x of
        Service (DispatchDue start aid) \<Rightarrow>
          \<not> exists_row (\<lambda>e. ed_automation e = aid \<and> ed_checked e \<noteq> None) (aw_edits w)
      | _ \<Rightarrow> True) \<and>
     undisturbed (world_step w (a, x)) ops"

lemma occurrences_delete: "set (occurrences (delete_where Q rs)) \<subseteq> set (occurrences rs)"
  by (auto simp: occurrences_def row_simps)

lemma occurrences_dispatch:
  assumes "auto_ok st"
  shows "set (occurrences (au_runs (fst (dispatch start a aid source st)))) \<subseteq>
    set (occurrences (au_runs st)) \<union> (if source = Scheduled then {x. fst x = aid} else {})"
proof -
  obtain st' out where d: "dispatch start a aid source st = (st', out)" by fastforce
  from assms d have "set (occurrences (au_runs st')) \<subseteq> set (occurrences (au_runs st)) \<union> (if source = Scheduled then {x. fst x = aid} else {})"
  proof (cases rule: automation_dispatch_cases)
    case (2 m for1 rs r r')
    then show ?thesis using occurrences_aged [OF 2(4)] by (auto simp: occurrences_def split: if_splits)
  qed simp
  with d show ?thesis by simp
qed

text \<open>Only the scheduler's dispatches take occurrences.\<close>

lemma occurrences_step:
  assumes ok: "auto_ok st"
  shows "set (occurrences (au_runs (auto_step st (a, x)))) \<subseteq>
    set (occurrences (au_runs st)) \<union> (case x of DispatchDue start aid \<Rightarrow> {y. fst y = aid} | _ \<Rightarrow> {})"
proof (cases x)
  case (CreateAutomation ch u i)
  then show ?thesis
    by (cases rule: or_stay_cases [of st "create_automation a ch u i st"]) (auto elim: create_automation_cases)
next
  case (DeleteAutomation ch aid u)
  show ?thesis
  proof (cases rule: or_stay_cases [of st "delete_automation ch aid u st"])
    case (2 st')
    from delete_automation_cases [OF 2(1)] obtain P Q where
      "st' = st\<lparr>au_rows := delete_where P (au_rows st), au_runs := delete_where Q (au_runs st)\<rparr>" .
    with 2(2) DeleteAutomation occurrences_delete show ?thesis by auto
  qed (use DeleteAutomation in simp)
next
  case (RunNow start ch aid u)
  with occurrences_dispatch [OF ok, of start a aid Manual] show ?thesis
    by (cases rule: run_now_cases [of start a ch aid u st]) auto
next
  case (DispatchDue start aid)
  with occurrences_dispatch [OF ok, of start a aid Scheduled] show ?thesis by simp
next
  case ReconcileRuns
  then show ?thesis by (auto split: option.split dest!: reconcile_runs_keeps simp: occurrences_aged)
next
  case PauseFailing
  then show ?thesis by simp
next
  case (OtherChange d rd)
  have "occurrences (map (unlink_missing d) rs) = occurrences rs" for rs
    by (induction rs) (auto simp: occurrences_def unlink_missing_def)
  with OtherChange show ?thesis by simp
qed

lemma in_time_written:
  assumes t: "in_time t st" "t \<le> t'" and c: "ai_enabled (fst c) \<longleftrightarrow> snd c \<noteq> None"
    and n: "\<And>n x. snd c = Some n \<Longrightarrow> x \<in> set (occurrences (au_runs st)) \<Longrightarrow> fst x = aid \<Longrightarrow> snd x < n"
  shows "in_time t' (or_stay st (update_write a ch aid c st))"
proof (cases rule: or_stay_cases [of st "update_write a ch aid c st"])
  case (2 st')
  have ok: "auto_ok st'" using auto_ok_write [of st c a ch aid] t(1) c 2 by (simp add: in_time_def or_stay_def)
  note st' = update_write_cases [OF 2(1)]
  have late: "snd x < n'" if "m' \<in> set (au_rows st')" "am_next m' = Some n'" "x \<in> set (occurrences (au_runs st))" "fst x = am_id m'" for m' n' x
  proof -
    from that(1) obtain m where m: "m \<in> set (au_rows st)"
      "m' = m \<or> am_id m = aid \<and> m' = m\<lparr>am_input := fst c, am_next := snd c, am_updated := sql_now a\<rparr>"
      by (auto simp: st' set_update_where split: if_splits)
    from m(2) show ?thesis
    proof (elim disjE conjE)
      assume "m' = m"
      with t(1) m(1) that show ?thesis by (fastforce simp: in_time_def)
    next
      assume "am_id m = aid" "m' = m\<lparr>am_input := fst c, am_next := snd c, am_updated := sql_now a\<rparr>"
      with n that show ?thesis by simp
    qed
  qed
  have runs: "au_runs st' = au_runs st" by (simp add: st')
  have "\<forall>x \<in> set (occurrences (au_runs st)). snd x \<le> t'" using t by (auto simp: in_time_def)
  then have "in_time t' st'" using ok late t(1) unfolding in_time_def runs by (auto split: option.split)
  with 2(2) show ?thesis by simp
qed (use in_time_same [OF t] in simp)

lemma world_in_time_step:
  assumes w: "world_in_time t w" "t \<le> go_now a" and calm: "undisturbed w [(a, x)]"
  shows "world_in_time (go_now a) (world_step w (a, x))"
proof -
  have ok: "world_ok w" and st: "in_time t (aw_state w)" and ed: "edits_in_time w" using w(1) by (simp_all add: world_in_time_def)
  note ok' = world_step_ok [OF ok, of a x] and same = in_time_same [OF st w(2)]
  have le: "snd y \<le> go_now a" if "y \<in> set (occurrences (au_runs (aw_state w)))" for y
    using st w(2) that by (auto simp: in_time_def)
  show ?thesis
  proof (cases x)
    case (ReadUpdate no ch aid u i)
    with ok' same ed show ?thesis by (auto simp: world_in_time_def edits_in_time_def split: sum.splits)
  next
    case (CheckUpdate no)
    have "aw_state (world_step w (a, x)) = aw_state w" using CheckUpdate ok by (auto simp: world_ok_def check_edit_ok split: option.split)
    moreover have "edits_in_time (check_edit a e w)" for e
      using ed le
      by (fastforce simp: edits_in_time_def check_edit_def end_edit_def row_simps split: sum.split if_splits dest: update_check_ok(2))
    then have "edits_in_time (world_step w (a, x))" using CheckUpdate ed by (auto split: option.split)
    ultimately show ?thesis using ok' same by (simp add: world_in_time_def)
  next
    case (WriteUpdate no)
    show ?thesis
    proof (cases "row_by ed_no no (aw_edits w)")
      case (Some e)
      then have e: "e \<in> set (aw_edits w)" by (rule row_by_in)
      show ?thesis
      proof (cases "ed_checked e")
        case (Some c)
        have "edit_ok e" using ok e by (simp add: world_ok_def list_all_iff)
        then have c: "ai_enabled (fst c) \<longleftrightarrow> snd c \<noteq> None" using Some by (simp add: edit_ok_def)
        have "snd y < n" if "snd c = Some n" "y \<in> set (occurrences (au_runs (aw_state w)))" "fst y = ed_automation e" for n y
          using ed e Some that unfolding edits_in_time_def by (metis prod.collapse)
        from in_time_written [OF st w(2) c this] WriteUpdate \<open>row_by ed_no no (aw_edits w) = Some e\<close> Some
        have "in_time (go_now a) (aw_state (world_step w (a, x)))" by (simp add: write_edit_def end_edit_def)
        moreover have "au_runs (or_stay (aw_state w) (update_write a (ed_channel e) (ed_automation e) c (aw_state w))) = au_runs (aw_state w)"
          by (cases "update_write a (ed_channel e) (ed_automation e) c (aw_state w)") (auto simp: or_stay_def dest: update_write_cases)
        then have "edits_in_time (world_step w (a, x))"
          using ed WriteUpdate \<open>row_by ed_no no (aw_edits w) = Some e\<close> Some
          by (auto simp: edits_in_time_def write_edit_def end_edit_def row_simps)
        ultimately show ?thesis using ok' by (simp add: world_in_time_def)
      qed (use WriteUpdate Some ok same ed in \<open>simp add: write_edit_def world_in_time_def\<close>)
    qed (use WriteUpdate ok same ed in \<open>simp add: world_in_time_def\<close>)
  next
    case (Service y)
    have "snd z < n" if e: "e \<in> set (aw_edits w)" "ed_checked e = Some (j, Some n)"
      and z: "z \<in> set (occurrences (au_runs (auto_step (aw_state w) (a, y))))" "fst z = ed_automation e" for e j n z
    proof -
      have "z \<in> set (occurrences (au_runs (aw_state w)))"
        using occurrences_step [of "aw_state w" a y] ok z calm e Service
        by (cases y) (auto simp: world_ok_def exists_row_iff)
      with ed e z(2) show ?thesis by (auto simp: edits_in_time_def)
    qed
    then have "edits_in_time (world_step w (a, x))" using Service by (simp add: edits_in_time_def)
    with ok' in_time_step [OF st w(2), of y] Service show ?thesis by (simp add: world_in_time_def)
  qed
qed

lemma world_in_time_run:
  "world_in_time t w \<Longrightarrow> sorted (t # map (\<lambda>x. go_now (fst x)) ops) \<Longrightarrow> undisturbed w ops \<Longrightarrow>
   distinct (occurrences (au_runs (aw_state (foldl world_step w ops))))"
proof (induction ops arbitrary: t w)
  case Nil
  then show ?case by (simp add: world_in_time_def in_time_def)
next
  case (Cons x ops)
  obtain a o1 where x: "x = (a, o1)" by fastforce
  with Cons.prems have "world_in_time (go_now a) (world_step w x)" by (auto intro: world_in_time_step)
  from Cons.IH [OF this] Cons.prems(2,3) x show ?case by simp
qed

text \<open>
  C24. No occurrence of a recurring task is run twice: whatever is created, edited, triggered, reconciled or paused in
  between, in any interleaving, and however late or often the scheduler comes around, the scheduled runs of a definition
  are all for different occurrences. The clock is taken not to go back, and the scheduler not to take an
  occurrence of a definition between the moment an edit of it has read the clock and its write.
\<close>

theorem no_occurrence_runs_twice:
  assumes "auto_ok st" and "au_runs st = []" and "sorted (map (\<lambda>x. go_now (fst x)) ops)" and "undisturbed (no_edits st) ops"
  shows "distinct (occurrences (au_runs (aw_state (foldl world_step (no_edits st) ops))))"
proof (cases ops)
  case Nil
  with assms(2) show ?thesis by (simp add: occurrences_def)
next
  case (Cons x ops')
  have "world_in_time (go_now (fst x)) (no_edits st)"
    using assms(1,2) by (simp add: world_in_time_def world_ok_def edits_in_time_def in_time_def occurrences_def)
  from world_in_time_run [OF this, of ops] assms(3,4) Cons show ?thesis by simp
qed

section \<open>Runs that ended\<close>

fun deletes :: "auto_op \<Rightarrow> bool" where
  "deletes (DeleteAutomation _ _ _) = True"
| "deletes _ = False"

definition still :: "automation_run \<Rightarrow> automation_run list \<Rightarrow> bool" where
  "still r rs \<longleftrightarrow> (\<exists>x. r\<lparr>ar_task := x\<rparr> \<in> set rs)"

lemma still_aged:
  assumes "still r rs" and "ar_status r \<noteq> AutomationRunRunning" and "aged rs rs'"
  shows "still r rs'"
proof -
  obtain x where "r\<lparr>ar_task := x\<rparr> \<in> set rs" using assms(1) by (auto simp: still_def)
  from aged_stays [OF assms(3) this] assms(2) show ?thesis by (auto simp: still_def)
qed

lemma still_dispatch:
  assumes ok: "auto_ok st" and r: "still r (au_runs st)" "ar_status r \<noteq> AutomationRunRunning"
  shows "still r (au_runs (fst (dispatch start a aid source st)))"
proof -
  obtain st' out where d: "dispatch start a aid source st = (st', out)" by fastforce
  from ok d have "still r (au_runs st')"
  proof (cases rule: automation_dispatch_cases)
    case (2 m for1 rs x x')
    from still_aged [OF r 2(4)] 2(5) show ?thesis by (auto simp: still_def)
  qed (use r in simp)
  with d show ?thesis by simp
qed

lemma still_step:
  assumes ok: "auto_ok st" and r: "still r (au_runs st)" "ar_status r \<noteq> AutomationRunRunning" and x: "\<not> deletes x"
  shows "still r (au_runs (auto_step st (a, x)))"
proof (cases x)
  case (CreateAutomation ch u i)
  with r show ?thesis
    by (cases rule: or_stay_cases [of st "create_automation a ch u i st"]) (auto elim: create_automation_cases)
next
  case (RunNow start ch aid u)
  with r still_dispatch [OF ok r] show ?thesis by (cases rule: run_now_cases [of start a ch aid u st]) simp_all
next
  case ReconcileRuns
  with r still_aged [OF r] show ?thesis by (auto split: option.split dest: reconcile_runs_keeps)
next
  case (OtherChange d rd)
  from r(1) obtain y where y: "r\<lparr>ar_task := y\<rparr> \<in> set (au_runs st)" by (auto simp: still_def)
  have "unlink_missing d (r\<lparr>ar_task := y\<rparr>) = r\<lparr>ar_task := y\<rparr> \<or> unlink_missing d (r\<lparr>ar_task := y\<rparr>) = r\<lparr>ar_task := None\<rparr>"
    by (simp add: unlink_missing_def)
  moreover have "unlink_missing d (r\<lparr>ar_task := y\<rparr>) \<in> set (au_runs (auto_step st (a, x)))" using y OtherChange by simp
  ultimately show ?thesis unfolding still_def by metis
qed (use x r still_dispatch [OF ok r] in simp_all)

lemma written_runs: "au_runs (or_stay st (update_write a ch aid c st)) = au_runs st"
  by (cases "update_write a ch aid c st") (auto simp: or_stay_def dest: update_write_cases)

lemma still_world_step:
  assumes ok: "world_ok w" and r: "still r (au_runs (aw_state w))" "ar_status r \<noteq> AutomationRunRunning"
    and x: "\<And>y. x = Service y \<Longrightarrow> \<not> deletes y"
  shows "still r (au_runs (aw_state (world_step w (a, x))))"
proof (cases x)
  case (Service y)
  with x still_step [OF _ r] ok show ?thesis by (simp add: world_ok_def)
next
  case (CheckUpdate no)
  with ok r show ?thesis by (auto simp: world_ok_def check_edit_ok split: option.split)
qed (use r in \<open>auto simp: write_edit_def end_edit_def written_runs split: option.split sum.split\<close>)

text \<open>
  However triggers, edits and the scheduler interleave, a definition never has two running runs, and a run that
  has ended keeps its status, its reason and its times for as long as its definition is not deleted.
\<close>

theorem automation_runs_end_once:
  assumes "world_ok w" and "r \<in> set (au_runs (aw_state w))" and "ar_status r \<noteq> AutomationRunRunning"
    and "\<And>a y. (a, Service y) \<in> set ops \<Longrightarrow> \<not> deletes y"
  shows "one_running (au_runs (aw_state (foldl world_step w ops))) \<and> still r (au_runs (aw_state (foldl world_step w ops)))"
proof -
  have "world_ok (foldl world_step w ops) \<and> still r (au_runs (aw_state (foldl world_step w ops)))"
    if "world_ok w" "still r (au_runs (aw_state w))" for w
    using that assms(4)
  proof (induction ops arbitrary: w)
    case (Cons x ops)
    obtain a o1 where x: "x = (a, o1)" by fastforce
    have "\<not> deletes y" if "o1 = Service y" for y using Cons.prems(3) [of a y] x that by simp
    then have "still r (au_runs (aw_state (world_step w x)))" "world_ok (world_step w x)"
      using still_world_step [OF Cons.prems(1,2) assms(3)] world_step_ok [OF Cons.prems(1)] x by auto
    moreover have "\<not> deletes y" if "(a, Service y) \<in> set ops" for a y using Cons.prems(3) [of a y] that by simp
    ultimately show ?case using Cons.IH [of "world_step w x"] by simp
  qed simp
  moreover have "still r (au_runs (aw_state w))" unfolding still_def using assms(2) by (intro exI [of _ "ar_task r"]) simp
  ultimately show ?thesis using assms(1) by (simp add: auto_ok_def world_ok_def)
qed

section \<open>A paused definition\<close>

definition switched_off :: "id \<Rightarrow> auto_state \<Rightarrow> bool" where
  "switched_off aid st \<longleftrightarrow> auto_ok st \<and> (\<exists>m \<in> set (au_rows st). am_id m = aid \<and> am_next m = None)"

abbreviation runs_of :: "id \<Rightarrow> auto_state \<Rightarrow> id list" where
  "runs_of aid st \<equiv> map ar_id (filter (\<lambda>r. ar_automation r = aid) (au_runs st))"

lemma runs_of_aged: "aged rs rs' \<Longrightarrow>
    map ar_id (filter (\<lambda>r. ar_automation r = aid) rs') = map ar_id (filter (\<lambda>r. ar_automation r = aid) rs)"
  by (rule aged_map [OF aged_filter]) (auto simp: ages_columns)

lemma switched_off_row:
  assumes "switched_off aid st"
  obtains m where "row_by am_id aid (au_rows st) = Some m" "am_next m = None" "\<not> ai_enabled (am_input m)"
proof -
  from assms obtain m where m: "m \<in> set (au_rows st)" "am_id m = aid" "am_next m = None" and ok: "auto_ok st"
    by (auto simp: switched_off_def)
  then have "row_by am_id aid (au_rows st) = Some m" "definition_ok m"
    by (auto simp: auto_ok_def row_by_Some_iff list_all_iff)
  with m that show ?thesis by (simp add: definition_ok_def)
qed

lemma switched_off_dispatch:
  assumes off: "switched_off aid st"
  shows "switched_off aid (fst (dispatch start a aid' Scheduled st)) \<and>
         runs_of aid (fst (dispatch start a aid' Scheduled st)) = runs_of aid st"
proof -
  obtain st' out where d: "dispatch start a aid' Scheduled st = (st', out)" by fastforce
  have ok: "auto_ok st" using off by (simp add: switched_off_def)
  from ok d have "switched_off aid st' \<and> runs_of aid st' = runs_of aid st"
  proof (cases rule: automation_dispatch_cases)
    case (2 m for1 rs r r')
    obtain m1 where m1: "row_by am_id aid (au_rows st) = Some m1" "am_next m1 = None"
      using off by (rule switched_off_row)
    with 2(1,10) have ne: "aid' \<noteq> aid" by auto
    from m1 have "m1 \<in> set (au_rows st)" "am_id m1 = aid" by (auto dest: row_by_in row_by_key)
    then obtain m2 where "m2 \<in> set (au_rows st')" "later_or_none a aid' Scheduled m1 m2"
      using 2(3) by (metis in_set_conv_nth list_all2_conv_all_nth)
    with ne m1 \<open>am_id m1 = aid\<close> 2(2) have "switched_off aid st'"
      by (auto simp: switched_off_def later_or_none_def intro!: bexI [of _ m2])
    with 2(5,7) runs_of_aged [OF 2(4)] ne show ?thesis by simp
  qed (use off in simp)
  with d show ?thesis by simp
qed

lemma pause_switches_off:
  assumes "auto_ok st" and "failing (au_runs st) aid" and "aid \<in> am_id ` set (au_rows st)"
  shows "switched_off aid (pause_repeated_failures a st)"
proof -
  obtain m where m: "m \<in> set (au_rows st)" "am_id m = aid" using assms(3) by auto
  then have "definition_ok m" using assms(1) by (auto simp: auto_ok_def list_all_iff)
  let ?P = "\<lambda>m. ai_enabled (am_input m) \<and> failing (au_runs st) (am_id m)"
  let ?f = "\<lambda>m. m\<lparr>am_input := (am_input m)\<lparr>ai_enabled := False\<rparr>, am_next := None, am_updated := sql_now a\<rparr>"
  have "(if ?P m then ?f m else m) \<in> set (au_rows (pause_repeated_failures a st))"
    using m(1) by (simp add: pause_repeated_failures_def set_update_where)
  moreover have "am_id (if ?P m then ?f m else m) = aid" "am_next (if ?P m then ?f m else m) = None"
    using m assms(2) \<open>definition_ok m\<close> by (simp_all add: definition_ok_def)
  ultimately show ?thesis using auto_ok_pause [OF assms(1)] unfolding switched_off_def by blast
qed

text \<open>
  C27. A definition that was paused because its last three runs failed is not switched on again by an edit: the next tick
  of the scheduler still finds the same three runs and pauses it before it looks for what is due, so that no run is started
  that could end the series.
\<close>

theorem reenabled_automation_is_paused_again:
  assumes "auto_ok st" and "failing (au_runs st) aid"
    and "update_automation a ch aid u i st = Inr st1"
  shows "\<exists>m. row_by am_id aid (au_rows (tick start a' da st1)) = Some m \<and> \<not> ai_enabled (am_input m) \<and>
             am_next m = None \<and> runs_of aid (tick start a' da st1) = runs_of aid st"
proof -
  have there: "aid \<in> am_id ` set (au_rows st)"
  proof -
    from assms(3) obtain old where "find (\<lambda>r. am_id r = aid \<and> am_channel r = ch) (au_rows st) = Some old"
      by (cases "find (\<lambda>r. am_id r = aid \<and> am_channel r = ch) (au_rows st)")
        (auto simp: update_automation_def update_read_def split: option.split_asm)
    then have "old \<in> set (au_rows st)" "am_id old = aid" by (auto simp: find_Some_iff)
    then show ?thesis by blast
  qed
  from update_automation_cases [OF assms(3)] obtain P j n where st1: "st1 = st\<lparr>au_rows :=
      update_where P (\<lambda>r. r\<lparr>am_input := j, am_next := n, am_updated := sql_now a\<rparr>) (au_rows st)\<rparr>"
    and n: "ai_enabled j \<longleftrightarrow> n \<noteq> None" by metis
  have ok1: "auto_ok st1" unfolding st1 by (rule auto_ok_rows [OF assms(1)]) (use n in \<open>simp_all add: definition_ok_def\<close>)
  have there1: "aid \<in> am_id ` set (au_rows st1)" 
  proof -
    have "map am_id (au_rows st1) = map am_id (au_rows st)" by (simp add: st1 update_where_def)
    then show ?thesis using there by (metis set_map)
  qed
  define st2 where "st2 = (case reconcile_runs a' st1 of None \<Rightarrow> st1 | Some s \<Rightarrow> s)"
  have st2: "auto_ok st2 \<and> au_rows st2 = au_rows st1 \<and> aged (au_runs st1) (au_runs st2)"
    using ok1 unfolding st2_def by (auto split: option.split simp: reconcile_runs_keeps elim!: auto_ok_aged)
  have "switched_off aid (pause_repeated_failures a' st2)"
    by (rule pause_switches_off) (use st2 there1 failing_aged [OF _ assms(2)] st1 in simp_all)
  then have "switched_off aid (foldl (\<lambda>s x. fst (dispatch start (da x) x Scheduled s)) (pause_repeated_failures a' st2) ids) \<and>
      runs_of aid (foldl (\<lambda>s x. fst (dispatch start (da x) x Scheduled s)) (pause_repeated_failures a' st2) ids) =
      runs_of aid (pause_repeated_failures a' st2)" for ids
  proof (induction ids rule: rev_induct)
    case (snoc x ids)
    from switched_off_dispatch [OF conjunct1 [OF snoc.IH [OF snoc.prems]], of start "da x" x] snoc show ?case by simp
  qed simp
  then have t: "switched_off aid (tick start a' da st1)" "runs_of aid (tick start a' da st1) = runs_of aid st2"
    by (simp_all add: tick_def Let_def st2_def)
  have "runs_of aid st2 = runs_of aid st" using st2 st1 runs_of_aged [of "au_runs st1" "au_runs st2"] by simp
  with t switched_off_row [OF t(1)] show ?thesis by metis
qed

section \<open>A run that is left behind\<close>

definition left_behind :: "id \<Rightarrow> auto_state \<Rightarrow> automation_run \<Rightarrow> task_row \<Rightarrow> bool" where
  "left_behind aid st r t \<longleftrightarrow>
     r \<in> set (au_runs st) \<and> ar_automation r = aid \<and> ar_status r = AutomationRunRunning \<and> ar_task r = Some (t_id t) \<and>
     row_by t_id (t_id t) (tasks (au_board st)) = Some t \<and> terminal_statuses (t_status t) \<and> t_contract t = None \<and>
     map_option rn_status (latest_primary_run (au_tables st) (t_id t)) \<noteq> Some AgentRunStatusCompleted"

lemma update_task_other:
  assumes "update_task tid g f d = Some (d', n)" and "\<And>t. t_id (f t) = t_id t" and "row_by t_id k (tasks d) = Some t"
    and "k = tid \<Longrightarrow> \<not> g t"
  shows "row_by t_id k (tasks d') = Some t"
  using assms(1)
proof (cases rule: update_task_cases)
  case (row old new)
  then have o: "row_by t_id tid (tasks d) = Some old" "g old" "t_id old = tid"
    and b: "bump_task_version d old (f old) = Some new"
    and d': "tasks d' = update_where (\<lambda>r. t_id r = tid) (\<lambda>_. new) (tasks d)"
    by (auto simp: row_updated_def)
  have "k \<noteq> tid" using assms(3,4) o by auto
  moreover have "t_id new = tid" using bump_keeps [OF b] assms(2) o(3) by simp
  ultimately have "row_by t_id k (update_where (\<lambda>r. t_id r = tid) (\<lambda>_. new) ts) = row_by t_id k ts" for ts
    by (induction ts) (auto simp: row_by_def update_where_def)
  with d' assms(3) show ?thesis by simp
qed (use assms(3) in simp)

lemma update_completed_task_other:
  assumes "update_completed_automation_task a tid st = Some st'" and "row_by t_id k (tasks (au_board st)) = Some t"
    and "terminal_statuses (t_status t)"
  shows "row_by t_id k (tasks (au_board st')) = Some t"
proof (cases "completion_policy st tid")
  case (Some policy)
  with assms(1) obtain d n where u: "update_task tid
      (\<lambda>t. (t_status t = TaskStatusInProgress \<or> t_status t = TaskStatusTodo) \<and> t_contract t = None \<and> \<not> open_children (au_board st) tid)
      (\<lambda>t. t\<lparr>t_status := (if policy = AutomationCompletionAuto then TaskStatusDone else TaskStatusInReview), t_updated := sql_now a\<rparr>)
      (au_board st) = Some (d, n)" "st' = st\<lparr>au_board := d\<rparr>"
    by (auto simp: update_completed_automation_task_def)
  from update_task_other [OF u(1) _ assms(2)] assms(3) u(2) show ?thesis by (auto simp: terminal_statuses_def)
qed (use assms in \<open>simp add: update_completed_automation_task_def\<close>)

lemma update_completed_other:
  "update_completed a tids st = Some st' \<Longrightarrow> row_by t_id k (tasks (au_board st)) = Some t \<Longrightarrow> terminal_statuses (t_status t) \<Longrightarrow>
   row_by t_id k (tasks (au_board st')) = Some t"
  by (induction tids arbitrary: st) (auto split: option.splits dest: update_completed_task_other)

lemma update_where_other: "r \<in> set rs \<Longrightarrow> \<not> P r \<Longrightarrow> r \<in> set (update_where P f rs)"
  by (force simp: set_update_where)

lemma left_behind_reconcile:
  assumes l: "left_behind aid st r t" and rec: "reconcile a mine st = Some st'"
  shows "left_behind aid st' r t"
proof -
  let ?d = "au_board st" and ?t = "sql_now a"
  let ?runs1 = "update_where (\<lambda>r. mine r \<and> settled_by_contract ?d r) (settle_by_contract ?t ?d) (au_runs st)"
  let ?through = "\<lambda>r. mine r \<and> agent_is_through ?d (au_tables st) r"
  let ?runs2 = "update_where ?through (complete_run ?t) ?runs1"
  from rec obtain st1 where u: "update_completed a (map (\<lambda>r. coalesce (ar_task r)) (filter ?through ?runs1)) (st\<lparr>au_runs := ?runs2\<rparr>) = Some st1"
    and st': "st' = st1\<lparr>au_runs := update_where (\<lambda>r. mine r \<and> returned_to_human (au_board st1) r)
        (end_run ?t AutomationRunFailed ''task_returned_to_human'') (au_runs st1)\<rparr>"
    by (auto simp: reconcile_def Let_def split: option.splits)
  note k = update_completed_keeps [OF u]
  have board: "row_by t_id (t_id t) (tasks (au_board st1)) = Some t"
    by (rule update_completed_other [OF u]) (use l in \<open>simp_all add: left_behind_def\<close>)
  have "r \<in> set ?runs1"
    by (rule update_where_other) (use l in \<open>auto simp: left_behind_def settled_by_contract_def task_of_run_def\<close>)
  then have "r \<in> set ?runs2"
    by (rule update_where_other) (use l in \<open>auto simp: left_behind_def agent_is_through_def task_of_run_def\<close>)
  then have "r \<in> set (au_runs st1)" using k by simp
  then have "r \<in> set (au_runs st')" unfolding st'
    by (simp, intro update_where_other)
      (use l board in \<open>auto simp: left_behind_def returned_to_human_def task_of_run_def terminal_statuses_def\<close>)
  then show ?thesis using l board k st' by (simp add: left_behind_def)
qed

lemma left_behind_runs:
  assumes "left_behind aid st r t" and "reconcile_runs a st = Some st'"
  shows "left_behind aid st' r t"
proof -
  from assms(2) obtain st1 where r: "reconcile a (\<lambda>_. True) st = Some st1" and st': "st' = st1\<lparr>au_runs :=
      update_where (task_is_missing (sql_now a)) (end_run (sql_now a) AutomationRunFailed ''task_missing'') (au_runs st1)\<rparr>"
    by (auto simp: reconcile_runs_def)
  have l: "left_behind aid st1 r t" by (rule left_behind_reconcile [OF assms(1) r])
  then have "r \<in> set (au_runs st')" unfolding st'
    by (simp, intro update_where_other) (auto simp: left_behind_def task_is_missing_def)
  with l st' show ?thesis by (simp add: left_behind_def)
qed

lemma left_behind_blocks:
  assumes l: "left_behind aid st r t" and "dispatch start a aid source st = (st', out)"
  shows "left_behind aid st' r t" and "case out of DispatchRefused _ \<Rightarrow> True | DispatchCoalesced _ \<Rightarrow> True | _ \<Rightarrow> False"
proof -
  have "left_behind aid st' r t \<and> (case out of DispatchRefused _ \<Rightarrow> True | DispatchCoalesced _ \<Rightarrow> True | _ \<Rightarrow> False)"
  proof (cases "dispatch_tx a aid source st")
    case (Inl err)
    with assms show ?thesis by (auto simp: dispatch_def)
  next
    case (Inr x)
    obtain st1 out1 where x: "x = (st1, out1)" by fastforce
    from Inr x obtain m for1 s1 s2 where m: "row_by am_id aid (au_rows st) = Some m"
      and tk: "take_occurrence a m source st = Inr (for1, s1)" and rc: "reconcile_automation_run a aid s1 = Some s2"
      by (auto simp: dispatch_tx_def split: option.splits sum.splits)
    have "left_behind aid s1 r t" using tk l by (cases rule: take_occurrence_cases) (simp_all add: left_behind_def)
    then have l2: "left_behind aid s2 r t"
      using rc unfolding reconcile_automation_run_def by (rule left_behind_reconcile)
    then have "r \<in> set (latest_first (filter (\<lambda>r. ar_automation r = aid \<and> ar_status r = AutomationRunRunning) (au_runs s2)))"
      by (simp add: left_behind_def)
    then obtain r0 where r0: "active_run aid s2 = Some r0"
      by (cases "latest_first (filter (\<lambda>r. ar_automation r = aid \<and> ar_status r = AutomationRunRunning) (au_runs s2))")
        (auto simp: active_run_def)
    let ?s = "skipped_run a aid source for1 (Some (ar_id r0)) ''already_running''"
    from Inr x m tk rc r0 have "record_skip a m ?s s2 = Inr st1" "out1 = DispatchCoalesced ?s"
      by (auto simp: dispatch_tx_def Let_def map_sum_def split: sum.splits)
    then have "left_behind aid st1 r t \<and> out1 = DispatchCoalesced ?s"
      using l2 by (auto simp: left_behind_def record_skip_def map_sum_def insert_automation_run_def split: sum.splits if_splits)
    with assms(2) Inr x show ?thesis by (auto simp: dispatch_def)
  qed
  then show "left_behind aid st' r t" and "case out of DispatchRefused _ \<Rightarrow> True | DispatchCoalesced _ \<Rightarrow> True | _ \<Rightarrow> False"
    by simp_all
qed

text \<open>
  What keeps it so: the task stays as it is, its agent's latest run has not completed, and the definition is not deleted.
  Everything else may happen, to this definition and to others.
\<close>

definition stays_left :: "task_row \<Rightarrow> auto_state \<Rightarrow> bool" where
  "stays_left t st \<longleftrightarrow>
     row_by t_id (t_id t) (tasks (au_board st)) = Some t \<and>
     map_option rn_status (latest_primary_run (au_tables st) (t_id t)) \<noteq> Some AgentRunStatusCompleted"

fun deletes_definition :: "id \<Rightarrow> world_op \<Rightarrow> bool" where
  "deletes_definition aid (Service (DeleteAutomation _ aid' _)) = (aid' = aid)"
| "deletes_definition aid _ = False"

fun left_alone :: "id \<Rightarrow> task_row \<Rightarrow> auto_world \<Rightarrow> (auto_env \<times> world_op) list \<Rightarrow> bool" where
  "left_alone aid t w [] \<longleftrightarrow> True"
| "left_alone aid t w (x # ops) \<longleftrightarrow>
     \<not> deletes_definition aid (snd x) \<and> stays_left t (aw_state (world_step w x)) \<and> left_alone aid t (world_step w x) ops"

lemma left_behind_stays: "left_behind aid st r t \<Longrightarrow> r \<in> set (au_runs st') \<Longrightarrow> stays_left t st' \<Longrightarrow> left_behind aid st' r t"
  by (simp add: left_behind_def stays_left_def)

lemma left_behind_tx:
  assumes l: "left_behind aid st r t" and tx: "dispatch_tx a aid' source st = Inr (st', out)"
  shows "r \<in> set (au_runs st') \<and> (\<nexists>tid. out = DispatchStarted (ar_id r) tid)"
proof -
  from tx obtain m for1 s1 s2 where m: "row_by am_id aid' (au_rows st) = Some m"
    and tk: "take_occurrence a m source st = Inr (for1, s1)" and rc: "reconcile_automation_run a aid' s1 = Some s2"
    by (auto simp: dispatch_tx_def split: option.splits sum.splits)
  have "left_behind aid s1 r t" using tk l by (cases rule: take_occurrence_cases) (simp_all add: left_behind_def)
  then have l2: "left_behind aid s2 r t"
    using rc unfolding reconcile_automation_run_def by (rule left_behind_reconcile)
  have ins: "au_runs st3 = au_runs s2 @ [x] \<and> ar_id r \<noteq> ar_id x" if "insert_automation_run x s2 = Inr st3" for x st3
    using that l2 by (auto simp: insert_automation_run_def left_behind_def exists_row_iff split: if_splits)
  have skip: "r \<in> set (au_runs st')" if "record_skip a m x s2 = Inr st'" for x
    using that ins l2 by (auto simp: record_skip_def map_sum_def left_behind_def split: sum.splits)
  have start: "r \<in> set (au_runs st') \<and> ar_id r \<noteq> run_uuid a" if "start_automation_run a m source for1 s2 = Inr st'"
  proof -
    from that obtain s3 s4 where i: "insert_automation_run (running_run a (am_id m) source for1) s2 = Inr s3"
      and c: "create_automation_task a m s3 = Inr s4" and st': "st' = set_definition (am_id m) (touch_last (go_now a)) s4"
      by (auto simp: start_automation_run_def split: sum.splits)
    have "au_runs st' = au_runs s3" using c by (auto simp: st' create_automation_task_def Let_def split: if_splits sum.splits)
    with ins [OF i] l2 show ?thesis by (auto simp: running_run_def left_behind_def)
  qed
  show ?thesis
  proof (cases "active_run aid' s2")
    case (Some r0)
    with tx m tk rc skip show ?thesis by (auto simp: dispatch_tx_def Let_def map_sum_def split: sum.splits)
  next
    case None
    show ?thesis
    proof (cases "ai_target (am_input m) = [] \<or> \<not> target_available a (au_board s2) (am_channel m) (ai_target (am_input m))")
      case True
      with None tx m tk rc skip show ?thesis by (auto simp: dispatch_tx_def Let_def map_sum_def split: sum.splits)
    next
      case False
      with None tx m tk rc start show ?thesis by (auto simp: dispatch_tx_def map_sum_def split: sum.splits)
    qed
  qed
qed

lemma left_behind_dispatch:
  assumes l: "left_behind aid st r t"
  shows "r \<in> set (au_runs (fst (dispatch start a aid' source st)))"
proof (cases "dispatch_tx a aid' source st")
  case (Inl err)
  with l show ?thesis by (simp add: dispatch_def left_behind_def)
next
  case (Inr x)
  obtain st1 out where x: "x = (st1, out)" by (cases x)
  note k = left_behind_tx [OF l Inr [unfolded x]]
  have "r \<in> set (au_runs (fail_dispatched_task a rid tid s))" if "r \<in> set (au_runs s)" "ar_id r \<noteq> rid" for rid tid s
    using that by (auto simp: fail_dispatched_task_def split: option.split intro: update_where_other)
  with k Inr x show ?thesis by (auto simp: dispatch_def Let_def split: dispatch_outcome.split prod.split)
qed

lemma left_behind_step:
  assumes l: "left_behind aid st r t" and x: "\<And>ch u. x \<noteq> DeleteAutomation ch aid u" and t: "stays_left t (auto_step st (a, x))"
  shows "left_behind aid (auto_step st (a, x)) r t"
proof (rule left_behind_stays [OF l _ t])
  have r: "r \<in> set (au_runs st)" and task: "ar_task r = Some (t_id t)" "ar_automation r = aid"
    using l by (simp_all add: left_behind_def)
  show "r \<in> set (au_runs (auto_step st (a, x)))"
  proof (cases x)
    case (CreateAutomation ch u i)
    with r show ?thesis
      by (cases rule: or_stay_cases [of st "create_automation a ch u i st"]) (auto elim: create_automation_cases)
  next
    case (DeleteAutomation ch aid' u)
    show ?thesis
    proof (cases rule: or_stay_cases [of st "delete_automation ch aid' u st"])
      case (2 st')
      then have "au_runs st' = delete_where (\<lambda>r. ar_automation r = aid') (au_runs st)"
        by (auto simp: delete_automation_def split: option.split_asm if_split_asm)
      with 2 DeleteAutomation r task x show ?thesis by (auto simp: row_simps)
    qed (use DeleteAutomation r in simp)
  next
    case (RunNow start ch aid' u)
    with r left_behind_dispatch [OF l] show ?thesis by (cases rule: run_now_cases [of start a ch aid' u st]) simp_all
  next
    case (DispatchDue start aid')
    with left_behind_dispatch [OF l] show ?thesis by simp
  next
    case ReconcileRuns
    with r left_behind_runs [OF l] show ?thesis by (auto split: option.split simp: left_behind_def)
  next
    case PauseFailing
    with r show ?thesis by simp
  next
    case (OtherChange d rd)
    with t task have "unlink_missing d r = r" by (simp add: unlink_missing_def task_of_run_def stays_left_def)
    then have "r \<in> unlink_missing d ` set (au_runs st)" using r by (metis imageI)
    with OtherChange show ?thesis by simp
  qed
qed

lemma left_behind_world_step:
  assumes l: "left_behind aid (aw_state w) r t" and x: "\<not> deletes_definition aid x"
    and t: "stays_left t (aw_state (world_step w (a, x)))"
  shows "left_behind aid (aw_state (world_step w (a, x))) r t"
proof (cases x)
  case (Service y)
  with x have "y \<noteq> DeleteAutomation ch aid u" for ch u by auto
  with left_behind_step [OF l, of y a] t Service show ?thesis by simp
next
  case (CheckUpdate no)
  have "aw_state (check_edit a e w) = aw_state w" for e
    by (simp add: check_edit_def end_edit_def split: sum.split)
  with CheckUpdate l show ?thesis by (simp split: option.split)
next
  case (WriteUpdate no)
  have "left_behind aid (or_stay (aw_state w) (update_write a ch aid' c (aw_state w))) r t" for ch aid' c
    by (cases "update_write a ch aid' c (aw_state w)") (use l in \<open>auto simp: or_stay_def left_behind_def dest: update_write_cases\<close>)
  with WriteUpdate l show ?thesis by (auto simp: write_edit_def end_edit_def split: option.split)
qed (use l in \<open>auto split: sum.split\<close>)

text \<open>
  C28. A task without contract that is closed or finished while its agent has not completed a run leaves its
  definition blocked for as long as the task stays as it is, its agent's latest run has not completed and the
  definition is not deleted: whatever is reconciled, edited, triggered or paused, here and in other definitions, its run
  stays running, and every further trigger of the definition only joins that run. Reopening the task, or a run the
  agent completes later, frees it.
\<close>

theorem left_behind_run_blocks_definition:
  assumes "left_behind aid (aw_state w) r t" and "left_alone aid t w ops"
    and "dispatch start a aid source (aw_state (foldl world_step w ops)) = (st', out)"
  shows "r \<in> set (au_runs st') \<and> ar_status r = AutomationRunRunning \<and>
         (case out of DispatchRefused _ \<Rightarrow> True | DispatchCoalesced _ \<Rightarrow> True | _ \<Rightarrow> False)"
proof -
  have "left_behind aid (aw_state (foldl world_step w ops)) r t"
    using assms(1,2)
  proof (induction ops arbitrary: w)
    case (Cons x ops)
    obtain b o1 where x: "x = (b, o1)" by fastforce
    have "left_behind aid (aw_state (world_step w x)) r t"
      using left_behind_world_step [OF Cons.prems(1)] Cons.prems(2) x by simp
    then show ?case using Cons.IH [of "world_step w x"] Cons.prems(2) by simp
  qed simp
  from left_behind_blocks [OF this assms(3)] show ?thesis by (simp add: left_behind_def)
qed

section \<open>A run that is started\<close>

lemma insert_task_row:
  assumes "insert_task t d = Inr d'"
  shows "row_by t_id (t_id t) (tasks d') = Some t" and "agents d' = agents d" and "members d' = members d"
proof -
  from assms have new: "\<not> exists_row (\<lambda>x. t_id x = t_id t) (tasks d)" and d': "tasks d' = tasks d @ [t]"
    "agents d' = agents d" "members d' = members d"
    by (auto simp: insert_task_def split: if_splits)
  from new have "row_by t_id (t_id t) (tasks d) = None" by (auto simp: row_by_None exists_row_iff)
  with d' show "row_by t_id (t_id t) (tasks d') = Some t" "agents d' = agents d" "members d' = members d"
    by (simp_all add: row_by_insert)
qed

text \<open>
  C25. A run is started only when no other run of its definition is running, and then together with its task: in
  progress with the agent the definition names, which is an active member of the channel, and with the definition's
  contract.
\<close>

theorem started_run_has_its_task:
  assumes "auto_ok st" and "dispatch_tx a aid source st = Inr (st', DispatchStarted rid tid)"
  shows "\<exists>m t for1. row_by am_id aid (au_rows st) = Some m \<and> row_by t_id tid (tasks (au_board st')) = Some t \<and>
           t_status t = TaskStatusInProgress \<and> t_channel t = Some (am_channel m) \<and>
           t_claimer t = Some (ai_target (am_input m)) \<and> t_contract t = ai_contract (am_input m) \<and>
           agent_in_channel (au_board st') (am_channel m) (ai_target (am_input m)) \<and>
           filter (\<lambda>r. ar_automation r = aid \<and> ar_status r = AutomationRunRunning) (au_runs st') =
             [running_run a aid source for1]"
proof -
  from assms(2) obtain m for1 s1 s2 where m: "row_by am_id aid (au_rows st) = Some m"
    and tk: "take_occurrence a m source st = Inr (for1, s1)" and rc: "reconcile_automation_run a aid s1 = Some s2"
    by (auto simp: dispatch_tx_def split: option.splits sum.splits)
  have aid: "am_id m = aid" using m by (rule row_by_key)
  from assms(2) m tk rc have none: "active_run aid s2 = None"
    and av: "target_available a (au_board s2) (am_channel m) (ai_target (am_input m))"
    and s: "start_automation_run a m source for1 s2 = Inr st'" and ids: "tid = task_uuid a"
    by (auto simp: dispatch_tx_def Let_def map_sum_def split: option.splits sum.splits if_splits)
  from s aid obtain s3 where i: "insert_automation_run (running_run a aid source for1) s2 = Inr s3"
    and c: "case create_automation_task a m s3 of Inl _ \<Rightarrow> False | Inr s4 \<Rightarrow> st' = set_definition aid (touch_last (go_now a)) s4"
    by (auto simp: start_automation_run_def split: sum.splits)
  have b3: "au_board s3 = au_board s2" and r3: "au_runs s3 = au_runs s2 @ [running_run a aid source for1]"
    using i by (auto simp: insert_automation_run_def split: if_splits)
  let ?n = "next_task_number (au_board s3) (Some (am_channel m))"
  let ?d = "au_board s3\<lparr>messages := messages (au_board s3) @ [announcement a m ?n]\<rparr>"
  from c obtain d' where t: "insert_task (automation_task a m ?n) ?d = Inr d'" and st': "au_board st' = d'" "au_runs st' = au_runs s3"
    by (auto simp: create_automation_task_def Let_def split: sum.splits if_splits)
  have "filter (\<lambda>r. ar_automation r = aid \<and> ar_status r = AutomationRunRunning) (au_runs s2) = []"
    using none by (simp add: active_run_def split: list.splits)
  then have runs: "filter (\<lambda>r. ar_automation r = aid \<and> ar_status r = AutomationRunRunning) (au_runs st') = [running_run a aid source for1]"
    by (simp add: st' r3 running_run_def)
  have "agent_in_channel (au_board st') (am_channel m) (ai_target (am_input m))"
    using av insert_task_row(2,3) [OF t] by (simp add: st' b3 target_available_def agent_in_channel_def)
  moreover have "row_by t_id tid (tasks (au_board st')) = Some (automation_task a m ?n)"
    using insert_task_row(1) [OF t] by (simp add: st' ids automation_task_def)
  ultimately show ?thesis using m runs by (intro exI [of _ m] exI [of _ "automation_task a m ?n"] exI [of _ for1])
      (simp add: automation_task_def)
qed

section \<open>Examples\<close>

text \<open>A daily task at 9:30 UTC; the clock of step \<open>n\<close> is 9:30 of day \<open>n\<close>.\<close>

definition au_input :: automation_input where
  "au_input =
     \<lparr>ai_contract = None, ai_name = ''digest'', ai_title = ''Digest'', ai_description = [], ai_target = ''a'',
      ai_type = ''daily'', ai_hour = 9, ai_minute = 30, ai_weekday = None, ai_timezone = ''UTC'',
      ai_policy = ''auto_complete'', ai_enabled = True\<rparr>"

definition au_tenv :: env where
  "au_tenv =
     \<lparr>now = 0, fresh = ''x'', uuid_parse = Some, sql_lower = to_lower, sha256_hex = id, hash_contract = (\<lambda>_. []),
      hash_submit = (\<lambda>_. []), hash_review = (\<lambda>_. []), hash_wait = (\<lambda>_. []), json_length_wait = (\<lambda>_. 0),
      has_notifier = False, gen_artifact = None\<rparr>"

definition au_env :: "int \<Rightarrow> string \<Rightarrow> auto_env" where
  "au_env day rid =
     \<lparr>go_now = day * day_length + 34200 * nanos, sql_now = day * day_length + 34200 * nanos, task_env = au_tenv,
      locations = (\<lambda>tz. if tz = ''UTC'' then Some (\<lambda>_. (0, 0, 0)) else None), run_uuid = rid, task_uuid = ''t'' @ rid,
      message_uuid = ''m'' @ rid, thread_uuid = ''h'' @ rid, message_seq = day, task_created_text = ''created'',
      daemon_found = (\<lambda>_. True)\<rparr>"

definition au_task :: "task_status \<Rightarrow> task_row" where
  "au_task s =
     \<lparr>t_id = ''t1'', t_number = 1, t_channel = Some ''c'', t_creator = ''u'', t_title = ''Digest'', t_description = None,
      t_status = s, t_claimer = Some ''a'', t_priority = ''normal'', t_due = None, t_message = None, t_parent = None,
      t_created = 0, t_updated = 0, t_version = 1, t_contract = None, t_submission = None\<rparr>"

definition au_db :: "task_row list \<Rightarrow> db" where
  "au_db ts = empty_db\<lparr>tasks := ts, channels := [\<lparr>ch_id = ''c'', ch_archived = False\<rparr>],
     members := [\<lparr>m_channel = ''c'', m_member = ''u'', m_type = ''user''\<rparr>, \<lparr>m_channel = ''c'', m_member = ''a'', m_type = ''agent''\<rparr>],
     agents := [\<lparr>a_id = ''a'', a_name = ''Ada'', a_owner = ''u'', a_active = True\<rparr>]\<rparr>"

definition au_run :: "string \<Rightarrow> automation_run_status \<Rightarrow> automation_run" where
  "au_run rid s =
     \<lparr>ar_id = rid, ar_automation = ''d'', ar_source = Scheduled, ar_status = s, ar_for = 0,
      ar_task = Some ''t1'', ar_into = None, ar_reason = Some [], ar_created = 0,
      ar_completed = (if s = AutomationRunRunning then None else Some 0)\<rparr>"

definition au_row :: automation_row where
  "au_row = \<lparr>am_id = ''d'', am_channel = ''c'', am_creator = ''u'', am_input = au_input, am_next = Some 0, am_last = None,
     am_updated = 0\<rparr>"

definition au_state :: "automation_run list \<Rightarrow> task_row list \<Rightarrow> auto_state" where
  "au_state rs ts = \<lparr>au_rows = [au_row], au_runs = rs, au_board = au_db ts, au_tables = empty_rdb\<rparr>"

definition au_start :: trigger where
  "au_start tid s = (True, s)"

text \<open>Triggers by the clock, and an edit in progress meanwhile.\<close>

definition au_world_ops :: "(auto_env \<times> world_op) list" where
  "au_world_ops =
     [(au_env 5 ''r1'', Service (DispatchDue au_start ''d'')), (au_env 5 ''e'', ReadUpdate 0 ''c'' ''d'' ''u'' au_input),
      (au_env 5 ''r2'', Service (DispatchDue au_start ''d'')), (au_env 6 ''r3'', Service ReconcileRuns),
      (au_env 6 ''r4'', Service (DispatchDue au_start ''d'')), (au_env 6 ''e'', CheckUpdate 0),
      (au_env 7 ''r5'', Service PauseFailing), (au_env 7 ''e'', WriteUpdate 0)]"

lemmas au_defs = au_state_def au_row_def au_run_def au_input_def

lemma au_ok:
  "auto_ok (au_state [] ts)" "auto_ok (au_state [au_run ''r0'' AutomationRunFailed] ts)"
  "auto_ok (au_state [au_run ''x'' AutomationRunFailed, au_run ''y'' AutomationRunFailed, au_run ''z'' AutomationRunFailed] ts)"
  by (simp_all add: auto_ok_def au_defs keyed_def definition_ok_def run_ok_def one_running_def)

theorem schedule_is_next_match_witness:
  "\<exists>c. next_scheduled_at (\<lambda>_. Some (\<lambda>_. (28800, 0, 0))) au_input 1000 = Inr c \<and> 1000 < c \<and>
       fires (\<lambda>_. (28800, 0, 0)) au_input c"
proof -
  have "steady (\<lambda>_. (28800, 0, 0)) 28800 1000" by (simp add: steady_def offset_at_def day_length_def nanos_def)
  moreover have "schedule_ok au_input" by (simp add: schedule_ok_def au_input_def automation_texts)
  ultimately show ?thesis
    using schedule_is_next_match [of "\<lambda>_. Some (\<lambda>_. (28800, 0, 0))" au_input "\<lambda>_. (28800, 0, 0)" 28800 1000] by blast
qed

text \<open>
  In a zone that moves its clocks from 2:00 to 3:00 (at 1711846800 seconds), a daily 2:30 has no instant on that day; the
  occurrence is at 3:30 of the new time.
\<close>

definition spring_zone :: zone where
  "spring_zone s = (if s < 1711846800 then (3600, 0, 1711846800) else (7200, 1711846800, 1729990800))"

lemma occurrence_in_gap:
  "next_scheduled_at (\<lambda>_. Some spring_zone) (au_input\<lparr>ai_hour := 2, ai_minute := 30\<rparr>) (1711800000 * nanos) =
     Inr (1711848600 * nanos) \<and>
   \<not> fires spring_zone (au_input\<lparr>ai_hour := 2, ai_minute := 30\<rparr>) (1711848600 * nanos)"
  by code_simp

theorem no_occurrence_runs_twice_witness:
  "distinct (occurrences (au_runs (aw_state (foldl world_step (no_edits (au_state [] [])) au_world_ops))))"
proof (rule no_occurrence_runs_twice [OF au_ok(1)])
  show "undisturbed (no_edits (au_state [] [])) au_world_ops" by code_simp
qed (simp_all add: au_defs au_world_ops_def au_env_def day_length_def nanos_def)

lemma au_ops_runs: "occurrences (au_runs (aw_state (foldl world_step (no_edits (au_state [] [])) au_world_ops))) =
    [(''d'', 0), (''d'', 6 * day_length + 34200 * nanos)]"
  by code_simp

text \<open>
  An edit that reads the clock before an occurrence and writes after it was taken puts it back: the occurrence of day 6
  is taken twice.
\<close>

lemma edit_repeats_occurrence:
  "occurrences (au_runs (aw_state (foldl world_step (no_edits (au_state [] []))
     [(au_env 5 ''r1'', Service (DispatchDue au_start ''d'')), (au_env 5 ''e'', ReadUpdate 0 ''c'' ''d'' ''u'' au_input),
      (au_env 5 ''e'', CheckUpdate 0), (au_env 6 ''r2'', Service (DispatchDue au_start ''d'')), (au_env 6 ''e'', WriteUpdate 0),
      (au_env 6 ''r3'', Service (DispatchDue au_start ''d''))]))) =
   [(''d'', 0), (''d'', 6 * day_length + 34200 * nanos), (''d'', 6 * day_length + 34200 * nanos)]"
  by code_simp

theorem automation_runs_end_once_witness:
  "one_running (au_runs (aw_state (foldl world_step (no_edits (au_state [au_run ''r0'' AutomationRunFailed] [])) au_world_ops))) \<and>
   still (au_run ''r0'' AutomationRunFailed)
     (au_runs (aw_state (foldl world_step (no_edits (au_state [au_run ''r0'' AutomationRunFailed] [])) au_world_ops)))"
  by (rule automation_runs_end_once) (use au_ok(2) in \<open>auto simp: world_ok_def au_defs au_world_ops_def\<close>)

theorem reenabled_automation_is_paused_again_witness:
  "\<exists>st1 m. update_automation (au_env 5 ''r1'') ''c'' ''d'' ''u'' au_input
       (au_state [au_run ''x'' AutomationRunFailed, au_run ''y'' AutomationRunFailed, au_run ''z'' AutomationRunFailed] []) = Inr st1 \<and>
     row_by am_id ''d'' (au_rows (tick au_start (au_env 6 ''r2'') (\<lambda>_. au_env 6 ''r3'') st1)) = Some m \<and>
     \<not> ai_enabled (am_input m)"
proof -
  let ?st = "au_state [au_run ''x'' AutomationRunFailed, au_run ''y'' AutomationRunFailed, au_run ''z'' AutomationRunFailed] []"
  have "case update_automation (au_env 5 ''r1'') ''c'' ''d'' ''u'' au_input ?st of Inl _ \<Rightarrow> False | Inr _ \<Rightarrow> True" by code_simp
  then obtain st1 where "update_automation (au_env 5 ''r1'') ''c'' ''d'' ''u'' au_input ?st = Inr st1"
    by (auto split: sum.splits)
  moreover have "failing (au_runs ?st) ''d''" by code_simp
  ultimately show ?thesis using reenabled_automation_is_paused_again [OF au_ok(3)] by blast
qed

theorem left_behind_run_blocks_definition_witness:
  "case snd (dispatch au_start (au_env 8 ''r9'') ''d'' Manual
       (aw_state (foldl world_step (no_edits (au_state [au_run ''r0'' AutomationRunRunning] [au_task TaskStatusClosed])) au_world_ops))) of
     DispatchRefused _ \<Rightarrow> True | DispatchCoalesced _ \<Rightarrow> True | _ \<Rightarrow> False"
proof -
  let ?st = "au_state [au_run ''r0'' AutomationRunRunning] [au_task TaskStatusClosed]"
  obtain st' out where d: "dispatch au_start (au_env 8 ''r9'') ''d'' Manual
      (aw_state (foldl world_step (no_edits ?st) au_world_ops)) = (st', out)" by fastforce
  have "left_behind ''d'' (aw_state (no_edits ?st)) (au_run ''r0'' AutomationRunRunning) (au_task TaskStatusClosed)"
    by (simp add: left_behind_def au_defs au_task_def au_db_def row_by_def terminal_statuses_def latest_primary_run_def
        primary_runs_def empty_rdb_def pick_by_def)
  moreover have "left_alone ''d'' (au_task TaskStatusClosed) (no_edits ?st) au_world_ops" by code_simp
  ultimately show ?thesis using left_behind_run_blocks_definition [OF _ _ d] d by simp
qed

theorem started_run_has_its_task_witness:
  "\<exists>st' t. dispatch_tx (au_env 5 ''r1'') ''d'' Scheduled (au_state [] []) = Inr (st', DispatchStarted ''r1'' ''tr1'') \<and>
     row_by t_id ''tr1'' (tasks (au_board st')) = Some t \<and> t_claimer t = Some ''a''"
proof -
  have "case dispatch_tx (au_env 5 ''r1'') ''d'' Scheduled (au_state [] []) of
      Inl _ \<Rightarrow> False | Inr (_, out) \<Rightarrow> out = DispatchStarted ''r1'' ''tr1''" by code_simp
  then obtain st' where d: "dispatch_tx (au_env 5 ''r1'') ''d'' Scheduled (au_state [] []) = Inr (st', DispatchStarted ''r1'' ''tr1'')"
    by (auto split: sum.splits)
  have "row_by am_id ''d'' (au_rows (au_state [] [])) = Some au_row" "ai_target (am_input au_row) = ''a''"
    by (simp_all add: au_defs row_by_def)
  with started_run_has_its_task [OF au_ok(1) d] d show ?thesis by auto
qed

end
