(* ===== verification/Spec2Isabelle.thy ===== *)
theory Spec2Isabelle
  imports Task_Replay Task_Theorems2 Run_Theorems2 Remote_Theorems Retry_Theorems Team_Theorems Fleet_Theorems Send_Theorems Wake_Theorems Message_Theorems Limit_Theorems Freshness_Theorems Thinking_Requests Dispatch_Theorems Automation_Theorems
begin

text \<open>
  Solo is a workspace in which people and coding agents share channels, messages and a task board. Its
  server (\<open>src/internal/server\<close>, Go) keeps everything in PostgreSQL and hands work to daemons
  (\<open>src/cmd/daemon\<close>) that run the agents. This library models the services that decide what may happen to
  that data and to that work, and proves what they promise.

  \<^bold>\<open>What the program's parts are and how they interact.\<close>
  \<^item> \<^bold>\<open>The board.\<close> \<open>service/task.go\<close>, \<open>task_delivery.go\<close> and \<open>task_wait.go\<close> move tasks through todo, in progress,
    in review, done and closed. A task may carry a contract, whose delivery an independent reviewer must
    accept, and may wait for another task, a time or a signal. Triggers of the migrations take part in every
    statement on tasks.
  \<^item> \<^bold>\<open>Runs.\<close> \<open>service/agent_run.go\<close> keeps the runs agents execute and the provider sessions (conversations)
    they resume or roll over, \<open>service/budget.go\<close> the monthly token budgets that runs reserve when they start
    and settle when they end. \<open>service/agent_retry.go\<close> gives a task whose run failed to its agent once more or
    returns it to its creator.
  \<^item> \<^bold>\<open>Messages.\<close> \<open>handler/message.go\<close> with \<open>message_freshness.go\<close> stores what people and agents send, and holds
    what an agent sends while it has not seen what others wrote; \<open>send_dedupe.go\<close> keeps one request from
    being executed twice; \<open>agent_wake_routing.go\<close> decides which agents a message wakes, over the relationships
    of \<open>agent_relationship.go\<close> and \<open>team_agreement.go\<close>; limits of \<open>agent.go\<close>, \<open>task_claim_window.go\<close> and
    \<open>channel_moderation.go\<close> bound what agents may send, trigger and claim.
  \<^item> \<^bold>\<open>The inbox.\<close> An agent executes one run at a time. Messages wait for it in \<open>agent_message_wake.go\<close>, all other
    work (tasks, branches, artifacts, greetings) in \<open>agent_work.go\<close>; deliveries to review, waits that are over and the
    tasks of agent selections come from their own tables (\<open>task_review_dispatch.go\<close>, \<open>task_wait.go\<close>,
    \<open>agent_selection.go\<close>). The view \<open>agent_inbox\<close> orders them all; when its turn comes, an item becomes a run of
    \<open>agent_run.go\<close> with a delivery of \<open>remote_run.go\<close>.
  \<^item> \<^bold>\<open>Thinking spaces.\<close> \<open>service/thinking.go\<close>: a tree of branches, each a conversation with one agent, which
    return their handoffs bottom up. A return is asked for by a row of the inbox.
  \<^item> \<^bold>\<open>Daemons.\<close> \<open>service/daemon.go\<close> registers them, picks one for an agent and notices those that fall silent;
    \<open>remote_run.go\<close> and \<open>daemon_control.go\<close> deliver runs to computers that hold a lease; the daemon's
    \<open>cmd/daemon/task.go\<close> executes them and keeps their events, which \<open>control_client.go\<close> forwards.
  \<^item> \<^bold>\<open>Recurring tasks.\<close> \<open>service/automation.go\<close> creates tasks of the board on a schedule and follows them, through the
    runs of their agents, until they end.

  \<^bold>\<open>How state and operations correspond.\<close> A table is a list of rows, a row a record with the columns the
  code reads, a nullable column an option, an id its canonical text. A transaction, which row locks or
  advisory locks make atomic, is a function from the database to an error or the database it leaves;
  where the code reads and writes in separate statements, or a lock does not keep others out, the model has separate
  steps (\<open>unclaim_check\<close>, \<open>unclaim_write\<close>; \<open>update_read\<close>, \<open>update_check\<close>, \<open>update_write\<close> of an edit of a recurring task;
  \<open>take_lock\<close>, \<open>check_send\<close>, \<open>insert_send\<close>, \<open>commit_send\<close> of a send), and a function that composes them with nothing in
  between, to which the steps are shown equal when they run alone. A structure behind a mutex (the daemon's registry, the send cache, the limits) is a record,
  each critical section a step. A Go map is a list of rows with distinct keys, or a function. Errors are
  values: \<open>task_error\<close>, \<open>run_error\<close> and the like. What is not under \<open>src/\<close> (the clock, UUIDs, SHA-256, JSON
  encoding, PostgreSQL's \<open>lower\<close>) is a field of the environments \<open>env\<close>, \<open>renv\<close> and their extensions. States are
  stacked as the services are: \<open>rdb\<close> (runs) inside \<open>remote_db\<close> (deliveries) inside \<open>mw_state\<close> (message wakes)
  inside \<open>work_db\<close> (the inbox, with the board and the branches).

  \<^bold>\<open>The theories.\<close>
  \<^item> \<open>Go_Prelude\<close>: Go strings and integers, SQL statements over lists of rows, the locales \<open>keyed_update\<close>,
    \<open>op_machine\<close> and \<open>monotone_machine\<close>, which every machine below interprets.
  \<^item> \<open>Task_Model\<close>, \<open>Task_Service\<close>, \<open>Task_Lifecycle\<close>, \<open>Task_Delivery\<close>, \<open>Task_Wait\<close>: the task services, file
    by file and function by function. \<open>Task_Invariant\<close>, \<open>Task_Machine\<close>: the invariant of the task tables, kept by
    every operation. \<open>Task_Replay\<close>: the contract of requests with an idempotency key (locale \<open>request_ledger\<close>),
    which submissions, reviews and waits are instances of. \<open>Task_Theorems\<close>, \<open>Task_Theorems2\<close>: independent
    acceptance, who may do what, waits that neither form a cycle nor fire early.
  \<^item> \<open>Run_Model\<close>, \<open>Budget\<close>, \<open>Agent_Run\<close>, \<open>Session_Rollover\<close>, \<open>Run_Lifecycle\<close>: runs, sessions and budgets.
    \<open>Run_Machine\<close>: the table writes operations are made of (\<open>table_write\<close>), the machine \<open>run_step\<close>, and the
    proof that every operation is a sequence of writes. \<open>Run_Invariant\<close>: what the writes keep. \<open>Run_Theorems\<close>,
    \<open>Run_Theorems2\<close>: sessions move forward, ended runs stay ended, events are numbered without gaps, budgets are
    not exceeded and are settled.
  \<^item> \<open>Task_Retry\<close>, \<open>Retry_Theorems\<close>: automatic recovery acts on a failed run once, and gives up.
  \<^item> \<open>Daemon_Tasks\<close>, \<open>Daemon_Machine\<close>, \<open>Daemon_Theorems\<close>: the registry of tasks of the daemon, its machine, and that
    histories are numbered suffixes, attempts start once and an agent has one turn.
  \<^item> \<open>Remote_Run\<close>, \<open>Remote_Machine\<close>, \<open>Remote_Theorems\<close>: deliveries and leases; the path of an event from the
    daemon's registry over an unreliable network to the server's table: in order, once each, and without a gap
    as long as the history of the daemon has room.
  \<^item> \<open>Fleet\<close>, \<open>Fleet_Theorems\<close>: the server's registry of daemons, the choice of a daemon, the health check and
    what becomes of the tasks of a lost daemon.
  \<^item> \<open>Team_Relations\<close>, \<open>Team_Theorems\<close>: relationships and agreements; \<open>assigns_to\<close> stays free of cycles.
  \<^item> \<open>Send_Dedupe\<close>, \<open>Send_Theorems\<close>: the cache of sends with the machine of its callers.
  \<^item> \<open>Wake_Routing\<close>, \<open>Wake_Theorems\<close>: the coordinator search, against its specification on graphs, and routing.
  \<^item> \<open>Message_Wake\<close>, \<open>Message_Theorems\<close>: the queue of message wakes, and that messages stay awaited until a run
    has them.
  \<^item> \<open>Safety_Limits\<close>, \<open>Limit_Theorems\<close>: the sliding window of sends, the cascade pause, claim windows, moderation.
  \<^item> \<open>Message_Send\<close>, \<open>Send_Steps\<close>, \<open>Freshness_Theorems\<close>: the transaction of a send, as one step and as the steps of
    sends that run at the same time; nothing an agent sends ignores what others wrote, as far as the locks go
    (\<open>thread_message_goes_unseen\<close> is where they do not), and being held ends.
  \<^item> \<open>Thinking\<close>, \<open>Thinking_Theorems\<close>, \<open>Thinking_Texts\<close>, \<open>Thinking_Requests\<close>: branches, the invariant of their tree,
    the parsing of agents' texts, and the HTTP requests on spaces.
  \<^item> \<open>Agent_Work\<close>, \<open>Agent_Work_Theorems\<close>, \<open>Inbox_Theorems\<close>: the inbox; work is taken in turn, becomes at most one
    run, starts only for an idle agent and is not left lying; what a cancelled, and what a lost return leaves.
  \<^item> \<open>Agent_Dispatch\<close>, \<open>Dispatch_Theorems\<close>: the whole view of the inbox, the dispatch of reviews, waits and tasks of
    selections, and the loop that serves the queues; all of them together start one run of an agent at a time.
  \<^item> \<open>Automation\<close>, \<open>Automation_Theorems\<close>: recurring tasks; the next occurrence against its specification while
    clocks are not changed, no occurrence runs twice unless an edit overtakes the scheduler (\<open>edit_repeats_occurrence\<close>), and
    two ways in which a definition stops.

  \<^bold>\<open>Bounds.\<close> Nothing runs on fuel. Loops are structural recursions or \<open>function\<close>s with a measure: trimming of
  strings, decimal digits, closure of the dependency graph (\<open>dependencies\<close>), of the relationship graph
  (\<open>grow\<close>, \<open>kahn\<close>), eviction from the send cache (\<open>evict\<close>), the search for the next wake (\<open>next_wake\<close>, each step
  drops a wake), split directives (\<open>extract_splits\<close>). A round of the dispatcher makes at most twenty attempts for each queue,
  as the code does (\<open>dispatch_rounds\<close>, \<open>run_task_reviews\<close>); what an attempt meets (its time, the rows others have locked,
  whether the agent's lock is free) is an input. Machines run over the list of the operations they meet, for every such list. Go's \<open>int64\<close> additions in the budget are written
  out with wrap-around (\<open>i64\<close>); sums the database computes are exact and must fit when read.

  \<^bold>\<open>Not modelled.\<close> Failures of the database connection, other than those a function takes as a parameter; the
  websocket hub; HTTP handlers other than those of thinking spaces and the transaction of a send, which decode
  requests and call the services; the composition of prompts, the streaming of agents and the agent CLIs,
  which are text, child processes and third-party protocols; files of transcripts; authentication,
  configuration and migrations as such; the services around the core (templates, artifacts,
  dashboards, revisions, Lark, computers, and of selections all but the dispatch of their tasks and the report of
  their outcome), which are queries, HTTP and text generation.
  \<open>triggerAgentForTask\<close> in \<open>Task_Retry\<close> and \<open>Automation\<close>, the recent messages of a branch in \<open>Agent_Work\<close>,
  \<open>validateSelectionRunTx\<close> and the selection fence of migration 000073 are parameters. Queries that only
  join tables for display are left out.
\<close>

end
